(* ===== verification/Prelude.thy ===== *)
theory Prelude
  imports Main "HOL-Library.Word" "HOL-Library.Sublist"
begin

text \<open>
  What every component of the development shares: the operations of the Rust standard
  library the crates use on strings, slices and integers, the collections of simplification
  rules, and the interfaces (locales) that several components implement.

  Strings. A Rust \<open>String\<close> is modelled by an Isabelle \<^typ>\<open>string\<close>: one
  \<^typ>\<open>char\<close> is one Unicode scalar value of the block U+0000..U+00FF. On that
  alphabet every operation below computes what the standard library computes:
  \<open>chars()\<close> counts list elements, \<open>len()\<close> counts UTF-8 bytes (\<open>str_bytes\<close>),
  \<open>trim\<close> removes the code points with the White\_Space property, and ASCII case mapping
  leaves the upper half of the block alone.

  Integers. \<open>i64\<close> and \<open>i32\<close> values are \<^typ>\<open>int\<close> with saturation and
  wrap-around written out; \<open>usize\<close> counters of in-memory collections are
  \<^typ>\<open>nat\<close>; bit operations are on \<open>w word\<close>.
\<close>

named_theorems sat_simps "saturating and wrapping machine arithmetic"
named_theorems str_simps "facts about the string operations of the Rust standard library"

section \<open>Integers\<close>

definition i64_max :: int where "i64_max = 9223372036854775807"
definition i64_min :: int where "i64_min = - 9223372036854775808"
definition i32_max :: int where "i32_max = 2147483647"

definition in_i64 :: "int \<Rightarrow> bool" where
  "in_i64 x \<longleftrightarrow> i64_min \<le> x \<and> x \<le> i64_max"

definition clamp_i64 :: "int \<Rightarrow> int" where
  "clamp_i64 x = (if x < i64_min then i64_min else if i64_max < x then i64_max else x)"

definition sat_add64 :: "int \<Rightarrow> int \<Rightarrow> int" where
  "sat_add64 a b = clamp_i64 (a + b)"

definition sat_sub64 :: "int \<Rightarrow> int \<Rightarrow> int" where
  "sat_sub64 a b = clamp_i64 (a - b)"

text \<open>Plain \<open>i64\<close> arithmetic wraps around in a release build.\<close>

definition wrap_i64 :: "int \<Rightarrow> int" where
  "wrap_i64 x = (x + 9223372036854775808) mod 18446744073709551616 - 9223372036854775808"

text \<open>Rust's \<open>/\<close> truncates towards zero.\<close>

definition div_to_zero :: "int \<Rightarrow> int \<Rightarrow> int" where
  "div_to_zero a b =
     (if (a < 0) = (b < 0) then \<bar>a\<bar> div \<bar>b\<bar> else - (\<bar>a\<bar> div \<bar>b\<bar>))"

lemma map_filter_append: "List.map_filter f (xs @ ys) = List.map_filter f xs @ List.map_filter f ys"
  by (simp add: List.map_filter_def)

lemma i64_bounds [sat_simps]: "i64_min \<le> 0" "0 \<le> i64_max" "i64_min < i64_max"
  by (simp_all add: i64_min_def i64_max_def)

lemma clamp_i64_in_range [simp]: "in_i64 (clamp_i64 x)"
  by (simp add: clamp_i64_def in_i64_def i64_min_def i64_max_def)

lemma clamp_i64_id [simp]: "in_i64 x \<Longrightarrow> clamp_i64 x = x"
  by (simp add: clamp_i64_def in_i64_def)

lemma clamp_i64_mono: "x \<le> y \<Longrightarrow> clamp_i64 x \<le> clamp_i64 y"
  by (simp add: clamp_i64_def i64_min_def i64_max_def)

lemma clamp_i64_nonneg: "0 \<le> x \<Longrightarrow> 0 \<le> clamp_i64 x"
  by (simp add: clamp_i64_def i64_min_def i64_max_def)

lemma sat_add64_in_range [simp]: "in_i64 (sat_add64 a b)"
  by (simp add: sat_add64_def)

lemma sat_sub64_in_range [simp]: "in_i64 (sat_sub64 a b)"
  by (simp add: sat_sub64_def)

lemma sat_add64_ge: "in_i64 a \<Longrightarrow> 0 \<le> b \<Longrightarrow> a \<le> sat_add64 a b"
  by (simp add: sat_add64_def clamp_i64_def in_i64_def)

lemma sat_add64_nonneg: "0 \<le> a \<Longrightarrow> 0 \<le> b \<Longrightarrow> 0 \<le> sat_add64 a b"
  by (simp add: sat_add64_def clamp_i64_nonneg)

lemma wrap_i64_id: "in_i64 x \<Longrightarrow> wrap_i64 x = x"
  by (simp add: wrap_i64_def in_i64_def i64_min_def i64_max_def)

lemma div_to_zero_nonneg: "0 \<le> a \<Longrightarrow> 0 < b \<Longrightarrow> div_to_zero a b = a div b"
  by (simp add: div_to_zero_def)

section \<open>Characters and strings\<close>

definition code_point :: "char \<Rightarrow> nat" where
  "code_point c = of_char c"

text \<open>\<open>char::is_whitespace\<close> on U+0000..U+00FF.\<close>

definition is_ws :: "char \<Rightarrow> bool" where
  "is_ws c = (let n = code_point c
              in (9 \<le> n \<and> n \<le> 13) \<or> n = 32 \<or> n = 133 \<or> n = 160)"

definition is_lower_ascii :: "char \<Rightarrow> bool" where
  "is_lower_ascii c = (let n = code_point c in 97 \<le> n \<and> n \<le> 122)"

definition is_upper_ascii :: "char \<Rightarrow> bool" where
  "is_upper_ascii c = (let n = code_point c in 65 \<le> n \<and> n \<le> 90)"

definition is_digit_ascii :: "char \<Rightarrow> bool" where
  "is_digit_ascii c = (let n = code_point c in 48 \<le> n \<and> n \<le> 57)"

definition to_lower_ascii :: "char \<Rightarrow> char" where
  "to_lower_ascii c = (if is_upper_ascii c then char_of (code_point c + 32) else c)"

definition to_upper_ascii :: "char \<Rightarrow> char" where
  "to_upper_ascii c = (if is_lower_ascii c then char_of (code_point c - 32) else c)"

definition str_lower :: "string \<Rightarrow> string" where
  "str_lower s = map to_lower_ascii s"

definition utf8_len :: "char \<Rightarrow> nat" where
  "utf8_len c = (if code_point c < 128 then 1 else 2)"

definition str_bytes :: "string \<Rightarrow> nat" where
  "str_bytes s = sum_list (map utf8_len s)"

definition trim_start :: "string \<Rightarrow> string" where
  "trim_start s = dropWhile is_ws s"

definition trim_end :: "string \<Rightarrow> string" where
  "trim_end s = rev (dropWhile is_ws (rev s))"

definition str_trim :: "string \<Rightarrow> string" where
  "str_trim s = trim_end (trim_start s)"

definition trim_end_matches :: "'a \<Rightarrow> 'a list \<Rightarrow> 'a list" where
  "trim_end_matches c s = rev (dropWhile (\<lambda>x. x = c) (rev s))"

fun strip_pre :: "'a list \<Rightarrow> 'a list \<Rightarrow> 'a list option" where
  "strip_pre [] s = Some s"
| "strip_pre (p # ps) [] = None"
| "strip_pre (p # ps) (c # s) = (if p = c then strip_pre ps s else None)"

definition starts_with :: "'a list \<Rightarrow> 'a list \<Rightarrow> bool" where
  "starts_with p s = (strip_pre p s \<noteq> None)"

definition ends_with :: "'a list \<Rightarrow> 'a list \<Rightarrow> bool" where
  "ends_with p s = starts_with (rev p) (rev s)"

text \<open>\<open>str::split(c)\<close>: at least one piece, separators removed.\<close>

fun split_on :: "'a \<Rightarrow> 'a list \<Rightarrow> 'a list list" where
  "split_on c [] = [[]]"
| "split_on c (x # xs) =
     (if x = c then [] # split_on c xs
      else case split_on c xs of [] \<Rightarrow> [[x]] | y # ys \<Rightarrow> (x # y) # ys)"

fun join_with :: "'a list \<Rightarrow> 'a list list \<Rightarrow> 'a list" where
  "join_with sep [] = []"
| "join_with sep [x] = x"
| "join_with sep (x # y # ys) = x @ sep @ join_with sep (y # ys)"

text \<open>\<open>str::lines\<close>: pieces that end with a line feed, a carriage return before it
  removed, and a last piece without one when it is not empty.\<close>

definition strip_cr :: "string \<Rightarrow> string" where
  "strip_cr l = (if l \<noteq> [] \<and> last l = CHR 0x0D then butlast l else l)"

fun str_lines_acc :: "string \<Rightarrow> string \<Rightarrow> string list" where
  "str_lines_acc acc [] = (if acc = [] then [] else [acc])"
| "str_lines_acc acc (c # cs) =
     (if c = CHR 0x0A then strip_cr acc # str_lines_acc [] cs
      else str_lines_acc (acc @ [c]) cs)"

definition str_lines :: "string \<Rightarrow> string list" where
  "str_lines s = str_lines_acc [] s"

text \<open>\<open>str::split_whitespace\<close>: the maximal runs of other characters.\<close>

fun words_acc :: "string \<Rightarrow> string \<Rightarrow> string list" where
  "words_acc acc [] = (if acc = [] then [] else [acc])"
| "words_acc acc (c # cs) =
     (if is_ws c then (if acc = [] then words_acc [] cs else acc # words_acc [] cs)
      else words_acc (acc @ [c]) cs)"

definition split_whitespace :: "string \<Rightarrow> string list" where
  "split_whitespace s = words_acc [] s"

text \<open>\<open>str::contains\<close> and \<open>str::split_once\<close> with a string pattern: the first
  occurrence.\<close>

fun split_once :: "'a list \<Rightarrow> 'a list \<Rightarrow> ('a list \<times> 'a list) option" where
  "split_once p [] = (if p = [] then Some ([], []) else None)"
| "split_once p (c # s) =
     (case strip_pre p (c # s) of
        Some r \<Rightarrow> Some ([], r)
      | None \<Rightarrow> map_option (\<lambda>(a, b). (c # a, b)) (split_once p s))"

definition str_contains :: "'a list \<Rightarrow> 'a list \<Rightarrow> bool" where
  "str_contains p s \<longleftrightarrow> split_once p s \<noteq> None"

text \<open>\<open>find\<close>/\<open>position\<close> and \<open>rposition\<close>: the first and the last index.\<close>

fun position :: "('a \<Rightarrow> bool) \<Rightarrow> 'a list \<Rightarrow> nat option" where
  "position p [] = None"
| "position p (x # xs) = (if p x then Some 0 else map_option Suc (position p xs))"

definition rposition :: "('a \<Rightarrow> bool) \<Rightarrow> 'a list \<Rightarrow> nat option" where
  "rposition p xs = map_option (\<lambda>i. length xs - Suc i) (position p (rev xs))"

text \<open>\<open>char::is_control\<close> on U+0000..U+00FF.\<close>

definition is_control_char :: "char \<Rightarrow> bool" where
  "is_control_char ch = (let n = code_point ch in n < 32 \<or> (127 \<le> n \<and> n \<le> 159))"

text \<open>\<open>Iterator::find_map\<close>, \<open>rsplit_once\<close> with a character and \<open>trim_matches\<close>.\<close>

fun find_map :: "('a \<Rightarrow> 'b option) \<Rightarrow> 'a list \<Rightarrow> 'b option" where
  "find_map f [] = None"
| "find_map f (x # xs) = (case f x of Some y \<Rightarrow> Some y | None \<Rightarrow> find_map f xs)"

definition rsplit_once_on :: "'a \<Rightarrow> 'a list \<Rightarrow> ('a list \<times> 'a list) option" where
  "rsplit_once_on c s =
     (if c \<in> set s
      then Some (rev (tl (dropWhile (\<lambda>x. x \<noteq> c) (rev s))), rev (takeWhile (\<lambda>x. x \<noteq> c) (rev s)))
      else None)"

definition trim_matches :: "'a \<Rightarrow> 'a list \<Rightarrow> 'a list" where
  "trim_matches c s = trim_end_matches c (dropWhile (\<lambda>x. x = c) s)"

text \<open>\<open>Option::or\<close>/\<open>or_else\<close> and \<open>Option::filter\<close>.\<close>

definition or_else :: "'a option \<Rightarrow> 'a option \<Rightarrow> 'a option" where
  "or_else a b = (case a of Some x \<Rightarrow> Some x | None \<Rightarrow> b)"

definition opt_filter :: "('a \<Rightarrow> bool) \<Rightarrow> 'a option \<Rightarrow> 'a option" where
  "opt_filter p a = (case a of Some x \<Rightarrow> if p x then Some x else None | None \<Rightarrow> None)"

definition unwrap_or :: "'a \<Rightarrow> 'a option \<Rightarrow> 'a" where
  "unwrap_or d a = (case a of Some x \<Rightarrow> x | None \<Rightarrow> d)"

lemma or_else_simps [simp]: "or_else None b = b" "or_else (Some x) b = Some x"
  by (simp_all add: or_else_def)

lemma opt_filter_simps [simp]:
  "opt_filter p None = None" "opt_filter p (Some x) = (if p x then Some x else None)"
  by (simp_all add: opt_filter_def)

lemma unwrap_or_simps [simp]: "unwrap_or d None = d" "unwrap_or d (Some x) = x"
  by (simp_all add: unwrap_or_def)

lemma find_map_Some_D: "find_map f xs = Some y \<Longrightarrow> \<exists>x\<in>set xs. f x = Some y"
  by (induction xs) (auto split: option.splits)

lemma find_Some_D: "find P xs = Some x \<Longrightarrow> x \<in> set xs \<and> P x"
  by (induction xs) (auto split: if_splits)

lemma find_map_None: "find_map f xs = None \<longleftrightarrow> (\<forall>x\<in>set xs. f x = None)"
  by (induction xs) (auto split: option.splits)

text \<open>Decimal rendering of unsigned and signed integers.\<close>

fun show_nat :: "nat \<Rightarrow> string" where
  "show_nat n = (if n < 10 then [char_of (48 + n)]
                 else show_nat (n div 10) @ [char_of (48 + n mod 10)])"

declare show_nat.simps [simp del]

definition show_int :: "int \<Rightarrow> string" where
  "show_int i = (if i < 0 then CHR ''-'' # show_nat (nat (- i)) else show_nat (nat i))"


section \<open>Facts about strings and slices\<close>

lemma strip_pre_Some [str_simps]: "strip_pre p s = Some r \<longleftrightarrow> s = p @ r"
  by (induction p s rule: strip_pre.induct) auto

lemma starts_with_iff [str_simps]: "starts_with p s \<longleftrightarrow> prefix p s"
proof -
  have "strip_pre p s \<noteq> None \<longleftrightarrow> (\<exists>r. strip_pre p s = Some r)" by auto
  then show ?thesis by (simp add: starts_with_def strip_pre_Some prefix_def)
qed

lemma strip_pre_None: "strip_pre p s = None \<longleftrightarrow> \<not> prefix p s"
  by (metis not_None_eq starts_with_def starts_with_iff)

lemma ends_with_iff [str_simps]: "ends_with p s \<longleftrightarrow> suffix p s"
  by (simp add: ends_with_def starts_with_iff suffix_to_prefix)

lemma strip_pre_append [simp]: "strip_pre p (p @ r) = Some r"
  by (simp add: strip_pre_Some)

lemma split_once_Some: "split_once p s = Some (a, b) \<Longrightarrow> s = a @ p @ b"
proof (induction p s arbitrary: a rule: split_once.induct)
  case (2 p c s)
  then show ?case by (auto simp: strip_pre_Some split: option.splits)
qed (auto split: if_splits)

lemma dropWhile_idem_gen: "dropWhile P (dropWhile P xs) = dropWhile P xs"
  by (induction xs) auto

lemma trim_end_idem [simp]: "trim_end (trim_end s) = trim_end s"
  by (simp add: trim_end_def dropWhile_idem_gen)

lemma trim_end_no_trailing: "s = [] \<or> \<not> is_ws (last s) \<Longrightarrow> trim_end s = s"
  by (cases s rule: rev_cases) (auto simp: trim_end_def)

lemma trim_end_Nil [simp]: "trim_end [] = []"
  by (simp add: trim_end_def)

lemma trim_end_append:
  "trim_end (xs @ ys) = (if \<forall>c\<in>set ys. is_ws c then trim_end xs else xs @ trim_end ys)"
  by (auto simp: trim_end_def dropWhile_append dropWhile_eq_Nil_conv)

lemma str_trim_Nil [simp]: "str_trim [] = []"
  by (simp add: str_trim_def trim_start_def)

lemma trim_end_suffix: "\<exists>w. s = trim_end s @ w \<and> (\<forall>c\<in>set w. is_ws c)"
proof -
  have "s = rev (dropWhile is_ws (rev s)) @ rev (takeWhile is_ws (rev s))"
    by (metis rev_append rev_rev_ident takeWhile_dropWhile_id)
  moreover have "\<forall>c\<in>set (rev (takeWhile is_ws (rev s))). is_ws c"
    by (auto dest: set_takeWhileD)
  ultimately show ?thesis by (metis trim_end_def)
qed

lemma split_on_nonempty [simp]: "split_on c s \<noteq> []"
  by (induction s) (auto split: list.splits)

lemma split_on_no_sep: "p \<in> set (split_on c s) \<Longrightarrow> c \<notin> set p"
proof (induction s arbitrary: p)
  case (Cons x xs)
  then show ?case by (cases "split_on c xs") (auto split: if_splits)
qed simp

lemma split_on_free: "c \<notin> set s \<Longrightarrow> split_on c s = [s]"
  by (induction s) auto

lemma split_on_append_sep: "c \<notin> set a \<Longrightarrow> split_on c (a @ c # b) = a # split_on c b"
  by (induction a) auto

lemma join_with_Cons: "xs \<noteq> [] \<Longrightarrow> join_with sep (x # xs) = x @ sep @ join_with sep xs"
  by (cases xs) auto

lemma join_with_append:
  "xs \<noteq> [] \<Longrightarrow> ys \<noteq> [] \<Longrightarrow> join_with sep (xs @ ys) = join_with sep xs @ sep @ join_with sep ys"
proof (induction xs)
  case (Cons x xs)
  then show ?case by (cases xs) (auto simp: join_with_Cons)
qed simp

lemma join_split_on [simp]: "join_with [c] (split_on c s) = s"
proof (induction s)
  case (Cons x xs)
  obtain y ys where ys: "split_on c xs = y # ys" by (cases "split_on c xs") auto
  with Cons show ?case by (cases ys) (auto simp: join_with_Cons)
qed simp

lemma split_join_on:
  "xs \<noteq> [] \<Longrightarrow> \<forall>x\<in>set xs. c \<notin> set x \<Longrightarrow> split_on c (join_with [c] xs) = xs"
proof (induction xs)
  case (Cons x xs)
  then show ?case
    by (cases xs) (auto simp: split_on_free split_on_append_sep)
qed simp

lemma split_whitespace_nonempty: "w \<in> set (words_acc acc s) \<Longrightarrow> w \<noteq> []"
  by (induction acc s rule: words_acc.induct) (auto split: if_splits)

lemma words_acc_chars:
  "\<forall>c\<in>set acc. \<not> is_ws c \<Longrightarrow> w \<in> set (words_acc acc s) \<Longrightarrow> c \<in> set w \<Longrightarrow> \<not> is_ws c"
  by (induction acc s rule: words_acc.induct) (auto split: if_splits)

lemma words_acc_subset:
  "w \<in> set (words_acc acc s) \<Longrightarrow> set w \<subseteq> set acc \<union> set s"
  by (induction acc s rule: words_acc.induct) (fastforce split: if_splits)+

lemma position_Some:
  "position p xs = Some i \<longleftrightarrow> i < length xs \<and> p (xs ! i) \<and> (\<forall>j<i. \<not> p (xs ! j))"
proof (induction xs arbitrary: i)
  case (Cons x xs)
  show ?case
  proof (cases i)
    case 0
    then show ?thesis by auto
  next
    case (Suc k)
    then show ?thesis using Cons.IH [of k] by (auto simp: less_Suc_eq_0_disj nth_Cons split: nat.splits)
  qed
qed simp

lemma position_None: "position p xs = None \<longleftrightarrow> (\<forall>x\<in>set xs. \<not> p x)"
  by (induction xs) auto

lemma position_less: "position p xs = Some i \<Longrightarrow> i < length xs"
  by (simp add: position_Some)

lemma rposition_Some_D:
  assumes "rposition p xs = Some i"
  shows "i < length xs" "p (xs ! i)" "\<And>j. i < j \<Longrightarrow> j < length xs \<Longrightarrow> \<not> p (xs ! j)"
proof -
  from assms obtain k where k: "position p (rev xs) = Some k" and i: "i = length xs - Suc k"
    by (auto simp: rposition_def)
  from k have kl: "k < length xs" and pk: "p (rev xs ! k)" and min: "\<forall>j<k. \<not> p (rev xs ! j)"
    by (auto simp: position_Some)
  show "i < length xs" using kl i by simp
  show "p (xs ! i)" using pk kl i by (simp add: rev_nth)
  show "\<not> p (xs ! j)" if "i < j" "j < length xs" for j
  proof -
    have "length xs - Suc j < k" using that i kl by simp
    with min have "\<not> p (rev xs ! (length xs - Suc j))" by blast
    then show ?thesis using that by (simp add: rev_nth)
  qed
qed

lemma rposition_None: "rposition p xs = None \<longleftrightarrow> (\<forall>x\<in>set xs. \<not> p x)"
  by (simp add: rposition_def position_None)

lemma str_bytes_append [simp]: "str_bytes (a @ b) = str_bytes a + str_bytes b"
  by (simp add: str_bytes_def)

lemma str_bytes_Nil [simp]: "str_bytes [] = 0"
  by (simp add: str_bytes_def)

lemma utf8_len_pos [simp]: "0 < utf8_len c"
  by (simp add: utf8_len_def)

lemma str_bytes_ge_length: "length s \<le> str_bytes s"
proof (induction s)
  case (Cons c s)
  then show ?case using utf8_len_pos [of c] by (simp add: str_bytes_def del: utf8_len_pos)
qed simp

lemma show_nat_nonempty [simp]: "show_nat n \<noteq> []"
  by (subst show_nat.simps) simp

text \<open>\<open>Vec::insert\<close> and \<open>Vec::remove\<close> at an index that is in range.\<close>

definition insert_at :: "nat \<Rightarrow> 'a \<Rightarrow> 'a list \<Rightarrow> 'a list" where
  "insert_at i x xs = take i xs @ x # drop i xs"

definition remove_at :: "nat \<Rightarrow> 'a list \<Rightarrow> 'a list" where
  "remove_at i xs = take i xs @ drop (Suc i) xs"

lemma insert_at_append [simp]: "insert_at (length xs) x (xs @ ys) = xs @ x # ys"
  by (simp add: insert_at_def)

lemma remove_at_append [simp]: "remove_at (length xs) (xs @ y # ys) = xs @ ys"
  by (simp add: remove_at_def)

lemma position_split:
  "position p xs = Some i \<Longrightarrow> \<exists>a x b. xs = a @ x # b \<and> length a = i \<and> p x \<and> (\<forall>y\<in>set a. \<not> p y)"
proof (induction xs arbitrary: i)
  case (Cons x xs)
  show ?case
  proof (cases "p x")
    case True
    with Cons.prems show ?thesis by (intro exI [of _ "[]"]) auto
  next
    case False
    with Cons.prems obtain k where k: "position p xs = Some k" "i = Suc k" by auto
    from Cons.IH [OF k(1)] obtain a y b where
      "xs = a @ y # b" "length a = k" "p y" "\<forall>y\<in>set a. \<not> p y" by blast
    with False k(2) show ?thesis by (intro exI [of _ "x # a"]) auto
  qed
qed simp

text \<open>A backward scan: the smallest index from which all elements up to the given one satisfy
  the predicate.\<close>

fun back_while :: "('a \<Rightarrow> bool) \<Rightarrow> 'a list \<Rightarrow> nat \<Rightarrow> nat" where
  "back_while p t 0 = 0"
| "back_while p t (Suc n) = (if p (t ! n) then back_while p t n else Suc n)"

lemma back_while_le: "back_while p t n \<le> n"
  by (induction n) (auto intro: le_SucI)

section \<open>Interfaces shared by several components\<close>

text \<open>
  A component whose operations are the steps of a state machine and whose
  well-formedness every step keeps: then every run from a well-formed state keeps it.
\<close>

locale invariant_machine =
  fixes step :: "'s \<Rightarrow> 'e \<Rightarrow> 's" and inv :: "'s \<Rightarrow> bool" and accepted :: "'e \<Rightarrow> bool"
  assumes step_keeps: "inv s \<Longrightarrow> accepted e \<Longrightarrow> inv (step s e)"
begin

lemma run_keeps: "inv s \<Longrightarrow> \<forall>e\<in>set es. accepted e \<Longrightarrow> inv (foldl step s es)"
  by (induction es arbitrary: s) (auto intro: step_keeps)

end

text \<open>
  A component whose steps also emit outputs (events, frames). \<open>run_emit\<close> feeds it a list
  of inputs and collects the outputs; the invariant relates the outputs so far to the state.
\<close>

fun run_emit :: "('s \<Rightarrow> 'e \<Rightarrow> 'o list \<times> 's) \<Rightarrow> 's \<Rightarrow> 'e list \<Rightarrow> 'o list \<times> 's" where
  "run_emit step s [] = ([], s)"
| "run_emit step s (e # es) =
     (let (o1, s1) = step s e; (o2, s2) = run_emit step s1 es in (o1 @ o2, s2))"

lemma run_emit_append:
  "run_emit step s (xs @ ys) =
     (let (o1, s1) = run_emit step s xs; (o2, s2) = run_emit step s1 ys in (o1 @ o2, s2))"
  by (induction xs arbitrary: s) (auto split: prod.splits)

locale emitting_machine =
  fixes step :: "'s \<Rightarrow> 'e \<Rightarrow> 'o list \<times> 's" and traced :: "'o list \<Rightarrow> 's \<Rightarrow> bool"
  assumes emit_keeps: "traced tr s \<Longrightarrow> step s e = (outs, s') \<Longrightarrow> traced (tr @ outs) s'"
begin

lemma run_traced:
  "traced tr s \<Longrightarrow> run_emit step s es = (outs, s') \<Longrightarrow> traced (tr @ outs) s'"
proof (induction es arbitrary: tr s outs s')
  case (Cons e es)
  obtain o1 s1 where 1: "step s e = (o1, s1)" by fastforce
  obtain o2 s2 where 2: "run_emit step s1 es = (o2, s2)" by fastforce
  from Cons.prems(2) 1 2 have "outs = o1 @ o2" "s' = s2" by auto
  with Cons.IH [OF emit_keeps [OF Cons.prems(1) 1] 2] show ?case by simp
qed simp

end

text \<open>
  The same for a component that keeps its invariant only while every input is one the state allows.
\<close>

fun all_allowed :: "('s \<Rightarrow> 'e \<Rightarrow> 'o list \<times> 's) \<Rightarrow> ('s \<Rightarrow> 'e \<Rightarrow> bool) \<Rightarrow> 's \<Rightarrow> 'e list \<Rightarrow> bool" where
  "all_allowed step allowed s [] = True"
| "all_allowed step allowed s (e # es) = (allowed s e \<and> all_allowed step allowed (snd (step s e)) es)"

locale guarded_machine =
  fixes step :: "'s \<Rightarrow> 'e \<Rightarrow> 'o list \<times> 's" and traced :: "'o list \<Rightarrow> 's \<Rightarrow> bool"
    and allowed :: "'s \<Rightarrow> 'e \<Rightarrow> bool"
  assumes guarded_keeps: "traced tr s \<Longrightarrow> allowed s e \<Longrightarrow> step s e = (outs, s') \<Longrightarrow> traced (tr @ outs) s'"
begin

lemma guarded_run:
  "traced tr s \<Longrightarrow> all_allowed step allowed s es \<Longrightarrow> run_emit step s es = (outs, s') \<Longrightarrow> traced (tr @ outs) s'"
proof (induction es arbitrary: tr s outs s')
  case (Cons e es)
  obtain o1 s1 where 1: "step s e = (o1, s1)" by fastforce
  obtain o2 s2 where 2: "run_emit step s1 es = (o2, s2)" by fastforce
  from Cons.prems(3) 1 2 have "outs = o1 @ o2" "s' = s2" by auto
  moreover have "all_allowed step allowed s1 es" "allowed s e" using Cons.prems(2) 1 by auto
  ultimately show ?case using Cons.IH [OF guarded_keeps [OF Cons.prems(1) _ 1] _ 2] by simp
qed simp

end

text \<open>
  A keyed store with a condition on what it accepts: a value that is accepted is read back,
  other keys keep theirs, and a refused value changes nothing.
\<close>

locale keyed_store =
  fixes lookup :: "'st \<Rightarrow> 'k \<Rightarrow> 'v option"
    and store :: "'st \<Rightarrow> 'k \<Rightarrow> 'v \<Rightarrow> 'st"
    and accepts :: "'v \<Rightarrow> bool"
  assumes lookup_same: "accepts v \<Longrightarrow> lookup (store s k v) k = Some v"
    and lookup_other: "k \<noteq> k' \<Longrightarrow> lookup (store s k v) k' = lookup s k'"
    and store_refused: "\<not> accepts v \<Longrightarrow> store s k v = s"
begin

lemma store_all_other:
  "k' \<notin> set ks \<Longrightarrow> lookup (foldl (\<lambda>s k. store s k v) s ks) k' = lookup s k'"
  by (induction ks arbitrary: s) (auto simp: lookup_other)

lemma store_all_same:
  "accepts v \<Longrightarrow> k \<in> set ks \<Longrightarrow> lookup (foldl (\<lambda>s k. store s k v) s ks) k = Some v"
proof (induction ks arbitrary: s)
  case (Cons a ks)
  then show ?case
    by (cases "k \<in> set ks") (auto simp: store_all_other lookup_same)
qed simp

lemma lookup_accepted:
  "(\<And>w. lookup s k = Some w \<Longrightarrow> accepts w) \<Longrightarrow> lookup (store s k' v) k = Some w \<Longrightarrow> accepts w"
  by (metis lookup_other lookup_same option.inject store_refused)

end

text \<open>\<open>BTreeMap\<close>: an association list in ascending key order.\<close>

fun bt_insert :: "'k::linorder \<Rightarrow> 'v \<Rightarrow> ('k \<times> 'v) list \<Rightarrow> ('k \<times> 'v) list" where
  "bt_insert k v [] = [(k, v)]"
| "bt_insert k v ((k', v') # m) =
     (if k < k' then (k, v) # (k', v') # m
      else if k = k' then (k, v) # m
      else (k', v') # bt_insert k v m)"

definition bt_remove :: "'k \<Rightarrow> ('k \<times> 'v) list \<Rightarrow> ('k \<times> 'v) list" where
  "bt_remove k m = filter (\<lambda>(k', _). k' \<noteq> k) m"

definition bt_wf :: "('k::linorder \<times> 'v) list \<Rightarrow> bool" where
  "bt_wf m \<longleftrightarrow> sorted (map fst m) \<and> distinct (map fst m)"

lemma bt_insert_keys: "fst ` set (bt_insert k v m) = insert k (fst ` set m)"
  by (induction k v m rule: bt_insert.induct) (simp_all add: insert_commute)

lemma bt_insert_wf: "bt_wf m \<Longrightarrow> bt_wf (bt_insert k v m)"
proof (induction m)
  case (Cons a m)
  obtain k' v' where a: "a = (k', v')" by fastforce
  have keys: "fst ` set (bt_insert k v m) = insert k (fst ` set m)" by (rule bt_insert_keys)
  show ?case using Cons a keys by (auto simp: bt_wf_def)
qed (simp add: bt_wf_def)

lemma bt_insert_lookup: "map_of (bt_insert k v m) k' = (if k' = k then Some v else map_of m k')"
  by (induction m) auto

lemma bt_remove_lookup: "map_of (bt_remove k m) k' = (if k' = k then None else map_of m k')"
  by (induction m) (auto simp: bt_remove_def)

lemma bt_remove_wf: "bt_wf m \<Longrightarrow> bt_wf (bt_remove k m)"
  unfolding bt_wf_def bt_remove_def
  by (metis (no_types, lifting) distinct_map_filter sorted_filter)

lemma bt_lookup_in: "bt_wf m \<Longrightarrow> map_of m k = Some v \<longleftrightarrow> (k, v) \<in> set m"
  by (simp add: bt_wf_def)

lemma bt_map_values_lookup:
  "map_of (map (\<lambda>(k, v). (k, f k v)) m) k = map_option (f k) (map_of m k)"
  by (induction m) auto

lemma bt_map_values_wf: "bt_wf m \<Longrightarrow> bt_wf (map (\<lambda>(k, v). (k, f k v)) m)"
  by (simp add: bt_wf_def comp_def case_prod_beta)

interpretation btree: keyed_store map_of "\<lambda>m k v. bt_insert k v m" "\<lambda>_. True"
  by unfold_locales (auto simp: bt_insert_lookup)

text \<open>
  A loop whose body either leaves with a result or goes round again. \<open>fuel_loop\<close> runs it for
  at most the given number of rounds; the contract is an invariant of the states that go
  round, a property of every result and, where the loop is bounded, a measure.
\<close>

fun fuel_loop :: "nat \<Rightarrow> ('s \<Rightarrow> 'r + 's) \<Rightarrow> 's \<Rightarrow> 'r option" where
  "fuel_loop 0 body s = None"
| "fuel_loop (Suc fuel) body s =
     (case body s of Inl r \<Rightarrow> Some r | Inr s' \<Rightarrow> fuel_loop fuel body s')"

lemma fuel_loop_more: "fuel_loop n body s = Some r \<Longrightarrow> n \<le> m \<Longrightarrow> fuel_loop m body s = Some r"
proof (induction n arbitrary: s m)
  case (Suc n)
  then obtain k where "m = Suc k" by (cases m) auto
  with Suc show ?case by (auto split: sum.splits)
qed simp

locale loop_machine =
  fixes body :: "'s \<Rightarrow> 'r + 's" and linv :: "'s \<Rightarrow> bool" and lpost :: "'r \<Rightarrow> bool"
  assumes body_round: "linv s \<Longrightarrow> body s = Inr s' \<Longrightarrow> linv s'"
    and body_exit: "linv s \<Longrightarrow> body s = Inl r \<Longrightarrow> lpost r"
begin

lemma loop_post: "fuel_loop n body s = Some r \<Longrightarrow> linv s \<Longrightarrow> lpost r"
  by (induction n arbitrary: s) (auto split: sum.splits intro: body_exit dest: body_round)

end

locale bounded_loop_machine = loop_machine +
  fixes rounds_left :: "'a \<Rightarrow> nat"
  assumes body_progress: "linv s \<Longrightarrow> body s = Inr s' \<Longrightarrow> rounds_left s' < rounds_left s"
begin

lemma loop_returns: "linv s \<Longrightarrow> rounds_left s < n \<Longrightarrow> \<exists>r. fuel_loop n body s = Some r \<and> lpost r"
proof (induction n arbitrary: s)
  case (Suc n)
  show ?case
  proof (cases "body s")
    case (Inl r)
    with Suc.prems show ?thesis by (auto intro: body_exit)
  next
    case (Inr s')
    with Suc.prems have "linv s'" "rounds_left s' < n"
      using body_round body_progress by fastforce+
    with Inr show ?thesis using Suc.IH by simp
  qed
qed simp

end

end
