(* ===== verification/Schema.thy ===== *)
theory Schema
  imports Prelude "HOL-Library.Char_ord" "HOL-Library.List_Lexorder"
begin

text \<open>
  The provider-neutral data the agent's components exchange
  (\<open>crates/browser-use-llm/src/schema/\<close>: ids.rs, messages.rs, event.rs, error.rs), the
  agent's error type (\<open>crates/browser-use-agent/src/error.rs\<close>) and the life-cycle values of
  a task (\<open>task/lifecycle.rs\<close>). A \<open>serde_json::Value\<close> is \<open>json\<close>; its objects are
  association lists in ascending key order (the \<open>BTreeMap\<close> behind \<open>serde_json::Map\<close>) and
  its numbers are restricted to integers. \<open>u64\<close> token counts are 64-bit words.
\<close>

section \<open>JSON values\<close>

datatype json =
    JNull
  | JBool bool
  | JNum int
  | JStr string
  | JArr "json list"
  | JObj "(string \<times> json) list"

text \<open>\<open>Value::get\<close> with a key, \<open>as_str\<close>, \<open>as_array\<close>, \<open>as_bool\<close>, \<open>as_i64\<close>,
  \<open>as_u64\<close>, \<open>as_object\<close>.\<close>

fun json_get :: "json \<Rightarrow> string \<Rightarrow> json option" where
  "json_get (JObj kvs) k = map_of kvs k"
| "json_get _ k = None"

fun as_str :: "json \<Rightarrow> string option" where
  "as_str (JStr s) = Some s"
| "as_str _ = None"

fun as_array :: "json \<Rightarrow> json list option" where
  "as_array (JArr xs) = Some xs"
| "as_array _ = None"

fun as_bool :: "json \<Rightarrow> bool option" where
  "as_bool (JBool b) = Some b"
| "as_bool _ = None"

fun as_i64 :: "json \<Rightarrow> int option" where
  "as_i64 (JNum i) = (if in_i64 i then Some i else None)"
| "as_i64 _ = None"

fun as_u64 :: "json \<Rightarrow> int option" where
  "as_u64 (JNum i) = (if 0 \<le> i \<and> i \<le> 18446744073709551615 then Some i else None)"
| "as_u64 _ = None"

fun as_object :: "json \<Rightarrow> json option" where
  "as_object (JObj kvs) = Some (JObj kvs)"
| "as_object _ = None"

definition get_str :: "json \<Rightarrow> string \<Rightarrow> string option" where
  "get_str v k = Option.bind (json_get v k) as_str"

text \<open>\<open>Map::insert\<close> and \<open>Map::remove\<close> of an object.\<close>

fun json_insert :: "string \<Rightarrow> json \<Rightarrow> json \<Rightarrow> json" where
  "json_insert k v (JObj kvs) = JObj (bt_insert k v kvs)"
| "json_insert k v m = m"

fun json_remove :: "string \<Rightarrow> json \<Rightarrow> json" where
  "json_remove k (JObj kvs) = JObj (bt_remove k kvs)"
| "json_remove k m = m"

lemma get_str_insert:
  "get_str (json_insert k v m) k' = (if k' = k \<and> as_object m \<noteq> None then as_str v else get_str m k')"
  by (cases m) (auto simp: get_str_def bt_insert_lookup)

lemma json_get_insert:
  "json_get (json_insert k v m) k' = (if k' = k \<and> as_object m \<noteq> None then Some v else json_get m k')"
  by (cases m) (auto simp: bt_insert_lookup)

lemma json_get_remove:
  "json_get (json_remove k m) k' = (if k' = k \<and> as_object m \<noteq> None then None else json_get m k')"
  by (cases m) (auto simp: bt_remove_lookup)

lemma as_object_insert [simp]: "as_object (json_insert k v m) = None \<longleftrightarrow> as_object m = None"
  by (cases m) auto

text \<open>Compact rendering, as \<open>serde_json\<close>'s \<open>to_string\<close> does it: the two-character
  escapes, \<open>\u00xx\<close> for the other control characters, everything else as it is.\<close>

definition hex_digit :: "nat \<Rightarrow> char" where
  "hex_digit n = (if n < 10 then char_of (48 + n) else char_of (87 + n))"

definition escape_json_char :: "char \<Rightarrow> string" where
  "escape_json_char c =
     (let n = code_point c; bs = CHR 0x5C in
      if n = 34 then [bs, CHR 0x22] else if n = 92 then [bs, bs]
      else if n = 8 then [bs, CHR ''b''] else if n = 12 then [bs, CHR ''f'']
      else if n = 10 then [bs, CHR ''n''] else if n = 13 then [bs, CHR ''r'']
      else if n = 9 then [bs, CHR ''t'']
      else if n < 32 then [bs, CHR ''u'', CHR ''0'', CHR ''0'', hex_digit (n div 16), hex_digit (n mod 16)]
      else [c])"

definition json_quote :: "string \<Rightarrow> string" where
  "json_quote s = [CHR 0x22] @ concat (map escape_json_char s) @ [CHR 0x22]"

fun show_json :: "json \<Rightarrow> string" where
  "show_json JNull = ''null''"
| "show_json (JBool b) = (if b then ''true'' else ''false'')"
| "show_json (JNum i) = show_int i"
| "show_json (JStr s) = json_quote s"
| "show_json (JArr xs) = ''['' @ join_with '','' (map show_json xs) @ '']''"
| "show_json (JObj kvs) = ''{'' @ join_with '','' (map (\<lambda>(k, v). json_quote k @ '':'' @ show_json v) kvs) @ ''}''"

section \<open>Identifiers and closed enumerations\<close>

datatype message_role = RSystem | RUser | RAssistant | RTool | RDeveloper

datatype finish_reason = FrStop | FrLength | FrToolUse | FrContentFilter | FrError | FrOther

section \<open>Messages\<close>

datatype cache_hint = Ephemeral

datatype content_part =
    PText string "json option"
  | PMedia string "string option" "string option" "string option"
  | PToolCall string string json "json option"
  | PToolResult string "content_part list" bool
  | PReasoning string "string option" "json option"

definition part_text :: "string \<Rightarrow> content_part" where
  "part_text s = PText s None"

record message =
  msg_role :: message_role
  msg_cache :: "cache_hint option"
  msg_content :: "content_part list"

definition message_new :: "message_role \<Rightarrow> content_part list \<Rightarrow> message" where
  "message_new r c = \<lparr> msg_role = r, msg_cache = None, msg_content = c \<rparr>"

definition user_text :: "string \<Rightarrow> message" where
  "user_text s = message_new RUser [part_text s]"

definition with_cache :: "message \<Rightarrow> cache_hint \<Rightarrow> message" where
  "with_cache m c = m\<lparr> msg_cache := Some c \<rparr>"

lemma message_new_sel [simp]:
  "msg_role (message_new r c) = r" "msg_cache (message_new r c) = None"
  "msg_content (message_new r c) = c"
  by (simp_all add: message_new_def)

section \<open>Stream events\<close>

record usage =
  input_tokens :: "64 word"
  cached_input_tokens :: "64 word"
  cache_creation_input_tokens :: "64 word"
  output_tokens :: "64 word"
  reasoning_output_tokens :: "64 word"
  total_tokens :: "64 word"

definition usage_default :: usage where
  "usage_default = \<lparr> input_tokens = 0, cached_input_tokens = 0, cache_creation_input_tokens = 0,
                     output_tokens = 0, reasoning_output_tokens = 0, total_tokens = 0 \<rparr>"

definition computed_total :: "usage \<Rightarrow> 64 word" where
  "computed_total u = input_tokens u + cache_creation_input_tokens u + output_tokens u
                      + reasoning_output_tokens u"

datatype text_phase = Commentary | FinalAnswer

datatype llm_event =
    StepStart
  | TextStart string
  | TextDelta string string "json option"
  | TextEnd string "text_phase option"
  | ReasoningStart string
  | ReasoningDelta string string
  | ReasoningEnd string
  | ToolInputStart string string
  | ToolInputDelta string string
  | ToolInputEnd string
  | ToolCall string string "string option" "json option" json
  | StepFinish usage "finish_reason option"
  | Finish usage "finish_reason option"
  | ProviderError string bool

section \<open>Errors\<close>

datatype llm_error_reason =
    Authentication | RateLimit | QuotaExceeded | ContentPolicy | InvalidRequest
  | ProviderInternal | Transport | UnknownProvider | Decode

record llm_error =
  err_reason :: llm_error_reason
  err_message :: string
  err_retryable :: bool
  err_status :: "16 word option"
  err_request_id :: "string option"

definition llm_error_new :: "llm_error_reason \<Rightarrow> string \<Rightarrow> llm_error" where
  "llm_error_new r m =
     \<lparr> err_reason = r, err_message = m,
       err_retryable = (case r of RateLimit \<Rightarrow> True | ProviderInternal \<Rightarrow> True
                        | Transport \<Rightarrow> True | _ \<Rightarrow> False),
       err_status = None, err_request_id = None \<rparr>"

datatype agent_error =
    AeTurnAborted
  | AeContextWindowExceeded
  | AeUsageLimitReached
  | AeInvalidImageRequest
  | AeProvider string
  | AeTool string
  | AeStore string
  | AeOther string

definition is_retryable :: "agent_error \<Rightarrow> bool" where
  "is_retryable e = (case e of AeProvider _ \<Rightarrow> True | _ \<Rightarrow> False)"

section \<open>Task life cycle\<close>

datatype turn_abort_reason = Interrupted | Replaced | MaxTurns | TurnErrorReason

datatype interrupted_marker = MarkerDisabled | MarkerContextualUser | MarkerDeveloper

fun marker_from_config :: "bool \<Rightarrow> bool \<Rightarrow> interrupted_marker" where
  "marker_from_config False _ = MarkerDisabled"
| "marker_from_config True False = MarkerContextualUser"
| "marker_from_config True True = MarkerDeveloper"

datatype task_kind = Regular | CompactTask | Review

datatype lifecycle_event =
    TurnStarted string
  | TurnComplete string "string option"
  | TurnAborted string turn_abort_reason

end
