(* ===== verification/Requests.thy ===== *)
theory Requests
  imports Schema
begin

text \<open>
  The provider-neutral request (\<open>browser-use-llm/src/schema/messages.rs\<close>, \<open>options.rs\<close>, \<open>ids.rs\<close>):
  system prompt, messages, tool definitions, tool choice and generation options. The two sampling
  numbers (\<open>f32\<close>) are kept as the JSON number they are sent as.
\<close>

record system_part =
  sys_text :: string
  sys_cache :: "cache_hint option"

definition system_part_new :: "string \<Rightarrow> system_part" where
  "system_part_new s = \<lparr> sys_text = s, sys_cache = None \<rparr>"

record tool_definition =
  td_name :: string
  td_description :: string
  td_input_schema :: json
  td_output_schema :: "json option"
  td_namespace :: "string option"
  td_namespace_description :: "string option"

datatype tool_choice = ChoiceAuto | ChoiceNone | ChoiceRequired | ChoiceTool string

datatype reasoning_effort = EffortNone | EffortMinimal | EffortLow | EffortMedium | EffortHigh | EffortXhigh

record generation_options =
  gen_temperature :: "json option"
  gen_top_p :: "json option"
  gen_max_tokens :: "nat option"
  gen_reasoning_effort :: "reasoning_effort option"
  gen_stop :: "string list"

definition generation_default :: generation_options where
  "generation_default = \<lparr> gen_temperature = None, gen_top_p = None, gen_max_tokens = None,
                          gen_reasoning_effort = None, gen_stop = [] \<rparr>"

record llm_request =
  rq_model :: string
  rq_provider :: string
  rq_system :: "system_part list"
  rq_messages :: "message list"
  rq_tools :: "tool_definition list"
  rq_tool_choice :: "tool_choice option"
  rq_generation :: generation_options
  rq_provider_options :: "json option"
  rq_response_format :: "json option"
  rq_metadata :: "json option"

definition llm_request_new :: "string \<Rightarrow> string \<Rightarrow> llm_request" where
  "llm_request_new model provider =
     \<lparr> rq_model = model, rq_provider = provider, rq_system = [], rq_messages = [], rq_tools = [],
       rq_tool_choice = None, rq_generation = generation_default, rq_provider_options = None,
       rq_response_format = None, rq_metadata = None \<rparr>"

text \<open>\<open>reasoning_effort_str\<close> of the protocols.\<close>

fun reasoning_effort_str :: "reasoning_effort \<Rightarrow> string" where
  "reasoning_effort_str EffortNone = ''none''"
| "reasoning_effort_str EffortMinimal = ''minimal''"
| "reasoning_effort_str EffortLow = ''low''"
| "reasoning_effort_str EffortMedium = ''medium''"
| "reasoning_effort_str EffortHigh = ''high''"
| "reasoning_effort_str EffortXhigh = ''xhigh''"

text \<open>Insertion into an object under construction, and \<open>entry(key).or_insert_with\<close>.\<close>

definition put_opt :: "string \<Rightarrow> json option \<Rightarrow> json \<Rightarrow> json" where
  "put_opt k v j = (case v of Some x \<Rightarrow> json_insert k x j | None \<Rightarrow> j)"

definition put_when :: "bool \<Rightarrow> string \<Rightarrow> json \<Rightarrow> json \<Rightarrow> json" where
  "put_when c k v j = (if c then json_insert k v j else j)"

definition or_insert :: "string \<Rightarrow> json \<Rightarrow> json \<Rightarrow> json" where
  "or_insert k v j = (if json_get j k = None then json_insert k v j else j)"

fun extend_missing :: "(string \<times> json) list \<Rightarrow> json \<Rightarrow> json" where
  "extend_missing [] j = j"
| "extend_missing ((k, v) # kvs) j = extend_missing kvs (or_insert k v j)"

lemma put_opt_None [simp]: "put_opt k None j = j" by (simp add: put_opt_def)
lemma put_opt_Some [simp]: "put_opt k (Some v) j = json_insert k v j" by (simp add: put_opt_def)

lemma put_object [simp]:
  "as_object (put_opt k v j) = None \<longleftrightarrow> as_object j = None"
  "as_object (put_when c k w j) = None \<longleftrightarrow> as_object j = None"
  "as_object (or_insert k w j) = None \<longleftrightarrow> as_object j = None"
  by (simp_all add: put_opt_def put_when_def or_insert_def split: option.split)

lemma extend_missing_object [simp]: "as_object (extend_missing kvs j) = None \<longleftrightarrow> as_object j = None"
  by (induction kvs j rule: extend_missing.induct) simp_all

lemma extend_missing_keeps: "json_get j k = Some v \<Longrightarrow> json_get (extend_missing kvs j) k = Some v"
proof (induction kvs j rule: extend_missing.induct)
  case (2 ka va kvs j)
  then show ?case by (cases "k = ka") (auto simp: or_insert_def json_get_insert)
qed simp

lemma put_get:
  "json_get (put_opt k v j) k' = (if k' = k \<and> as_object j \<noteq> None \<and> v \<noteq> None then v else json_get j k')"
  "json_get (put_when c k w j) k' = (if c \<and> k' = k \<and> as_object j \<noteq> None then Some w else json_get j k')"
  by (auto simp: put_opt_def put_when_def json_get_insert split: option.split)

text \<open>Which calls a conversation makes and which it answers, in order; the protocols keep this.\<close>

datatype pairing = Calls string | Answers string

fun call_id_of :: "content_part \<Rightarrow> string option" where
  "call_id_of (PToolCall d _ _ _) = Some d"
| "call_id_of _ = None"

fun result_id_of :: "content_part \<Rightarrow> string option" where
  "result_id_of (PToolResult d _ _) = Some d"
| "result_id_of _ = None"

definition part_pairing :: "content_part \<Rightarrow> pairing list" where
  "part_pairing p = (case call_id_of p of Some d \<Rightarrow> [Calls d] | None \<Rightarrow> [])
                    @ (case result_id_of p of Some d \<Rightarrow> [Answers d] | None \<Rightarrow> [])"

text \<open>Mapping the value of a result.\<close>

lemma map_sum_id_isl [simp]: "isl (map_sum id f x) = isl x"
  by (cases x) simp_all

lemma map_sum_ok: "map_sum id f r = Inr y \<longleftrightarrow> (\<exists>x. r = Inr x \<and> y = f x)"
  by (cases r) auto

end
