(* ===== verification/Decision.thy ===== *)
theory Decision
  imports Schema
begin

text \<open>
  The pure decision cores of the turn (\<open>decision/\<close>): the token status and the
  classification of a loop iteration (loop\_decision.rs), the stream retry decision with its
  exponential backoff (retry.rs) and the parallelism class of a tool call
  (tool\_decision.rs). Token counts are \<open>i64\<close> values, modelled as integers with the
  machine's saturation and wrap-around written out.
\<close>

section \<open>Loop decisions\<close>

datatype compact_limit_scope = ScopeTotal | BodyAfterPrefix

record sampling_outcome =
  model_needs_follow_up :: bool
  last_agent_message :: "string option"
  defers_mailbox_delivery :: bool
  outcome_finish_reason :: "finish_reason option"

record token_status =
  auto_compact_scope_tokens :: int
  auto_compact_scope_limit :: int
  full_context_window_limit_reached :: bool
  token_limit_reached :: bool

definition token_status_default :: token_status where
  "token_status_default = \<lparr> auto_compact_scope_tokens = 0, auto_compact_scope_limit = 0,
     full_context_window_limit_reached = False, token_limit_reached = False \<rparr>"

definition needs_compaction :: "token_status \<Rightarrow> bool" where
  "needs_compaction st \<longleftrightarrow> token_limit_reached st \<or> full_context_window_limit_reached st"

definition filter_pos :: "int option \<Rightarrow> int option" where
  "filter_pos x = (case x of Some n \<Rightarrow> if 0 < n then Some n else None | None \<Rightarrow> None)"

definition auto_compact_token_limit :: "int option \<Rightarrow> int option \<Rightarrow> int option" where
  "auto_compact_token_limit window configured =
     (case (map_option (\<lambda>w. div_to_zero (wrap_i64 (w * 9)) 10) (filter_pos window),
            filter_pos configured) of
        (Some cl, Some cfg) \<Rightarrow> Some (min cfg cl)
      | (Some cl, None) \<Rightarrow> Some cl
      | (None, cfg) \<Rightarrow> cfg)"

text \<open>The part of the context charged against the limit, and the hard window flag; shared by
  both constructors, which differ in the window they compare with.\<close>

definition scope_usage ::
    "compact_limit_scope \<Rightarrow> int \<Rightarrow> int option \<Rightarrow> int option \<Rightarrow> int \<times> bool" where
  "scope_usage scope active prefill window =
     (case scope of
        ScopeTotal \<Rightarrow> (active, False)
      | BodyAfterPrefix \<Rightarrow>
          (let baseline = (case prefill of Some p \<Rightarrow> p | None \<Rightarrow> active)
           in (sat_sub64 active baseline,
               case window of Some w \<Rightarrow> active \<ge> w | None \<Rightarrow> False)))"

definition from_usage ::
    "int \<Rightarrow> int option \<Rightarrow> int option \<Rightarrow> int option \<Rightarrow> compact_limit_scope \<Rightarrow> token_status" where
  "from_usage active prefill window configured scope =
     (case auto_compact_token_limit window configured of
        None \<Rightarrow> token_status_default
      | Some limit \<Rightarrow>
          (let (tokens, full) = scope_usage scope active prefill window
           in \<lparr> auto_compact_scope_tokens = tokens, auto_compact_scope_limit = limit,
                full_context_window_limit_reached = full,
                token_limit_reached = (tokens \<ge> limit \<or> full) \<rparr>))"

definition from_estimate :: "int \<Rightarrow> int \<Rightarrow> token_status" where
  "from_estimate est window =
     (if window \<le> 0 then token_status_default
      else from_usage est None (Some window) None ScopeTotal)"

definition from_codex_usage ::
    "int \<Rightarrow> int option \<Rightarrow> int option \<Rightarrow> int option \<Rightarrow> compact_limit_scope \<Rightarrow> token_status" where
  "from_codex_usage active prefill limit0 window scope =
     (let limit = (case filter_pos limit0 of Some l \<Rightarrow> l | None \<Rightarrow> i64_max);
          (tokens, full) = scope_usage scope active prefill window
      in \<lparr> auto_compact_scope_tokens = tokens, auto_compact_scope_limit = limit,
           full_context_window_limit_reached = full,
           token_limit_reached = (tokens \<ge> limit \<or> full) \<rparr>)"

definition needs_follow_up :: "bool \<Rightarrow> bool \<Rightarrow> bool" where
  "needs_follow_up model_nfu pending \<longleftrightarrow> model_nfu \<or> pending"

definition should_compact_mid_turn :: "bool \<Rightarrow> bool \<Rightarrow> bool" where
  "should_compact_mid_turn tlr nfu \<longleftrightarrow> tlr \<and> nfu"

definition can_drain_after_compact :: "bool \<Rightarrow> bool" where
  "can_drain_after_compact model_nfu \<longleftrightarrow> \<not> model_nfu"

definition initial_can_drain :: "bool \<Rightarrow> bool" where
  "initial_can_drain fresh \<longleftrightarrow> \<not> fresh"

datatype loop_step = CompactThenContinue bool | Continue | Complete

definition classify_loop_step :: "sampling_outcome \<Rightarrow> bool \<Rightarrow> token_status \<Rightarrow> loop_step" where
  "classify_loop_step out pending st =
     (let nfu = needs_follow_up (model_needs_follow_up out) pending
      in if should_compact_mid_turn (token_limit_reached st) nfu
         then CompactThenContinue (can_drain_after_compact (model_needs_follow_up out))
         else if nfu then Continue else Complete)"

section \<open>Stream retries\<close>

datatype retry_action = RFail | SwitchTransport | Backoff "64 word"

text \<open>\<open>saturating_mul\<close> on \<open>u64\<close>; the exponent is at most 6.\<close>

definition sat_mul64 :: "64 word \<Rightarrow> 64 word \<Rightarrow> 64 word" where
  "sat_mul64 a b = (if unat a * unat b < 2 ^ 64 then a * b else - 1)"

definition backoff_ms :: "32 word \<Rightarrow> 64 word" where
  "backoff_ms retries = sat_mul64 200 (push_bit (unat (min retries 6)) 1)"

definition retry_decision ::
    "32 word \<Rightarrow> 32 word \<Rightarrow> bool \<Rightarrow> bool \<Rightarrow> 64 word option \<Rightarrow> retry_action" where
  "retry_decision retries mx retryable can_switch requested =
     (if \<not> retryable then RFail
      else if retries \<ge> mx then (if can_switch then SwitchTransport else RFail)
      else Backoff (case requested of Some d \<Rightarrow> d | None \<Rightarrow> backoff_ms retries))"

section \<open>Tool parallelism\<close>

datatype tool_parallelism = Parallel | Serial

definition classify_parallelism :: "bool \<Rightarrow> bool \<Rightarrow> tool_parallelism" where
  "classify_parallelism parallel_safe model_supports =
     (if parallel_safe \<and> model_supports then Parallel else Serial)"

section \<open>Lemmas\<close>

lemma classify_Complete_iff:
  "classify_loop_step out p st = Complete \<longleftrightarrow> \<not> model_needs_follow_up out \<and> \<not> p"
  by (auto simp: classify_loop_step_def needs_follow_up_def should_compact_mid_turn_def Let_def)

lemma classify_Continue_iff:
  "classify_loop_step out p st = Continue \<longleftrightarrow>
     (model_needs_follow_up out \<or> p) \<and> \<not> token_limit_reached st"
  by (auto simp: classify_loop_step_def needs_follow_up_def should_compact_mid_turn_def Let_def)

lemma classify_Compact_iff:
  "classify_loop_step out p st = CompactThenContinue d \<longleftrightarrow>
     (model_needs_follow_up out \<or> p) \<and> token_limit_reached st \<and> d = (\<not> model_needs_follow_up out)"
  by (auto simp: classify_loop_step_def needs_follow_up_def should_compact_mid_turn_def
                 can_drain_after_compact_def Let_def)

lemma filter_pos_Some: "filter_pos x = Some n \<longleftrightarrow> x = Some n \<and> 0 < n"
  by (auto simp: filter_pos_def split: option.splits if_splits)

lemma filter_pos_None: "filter_pos x = None \<longleftrightarrow> (\<forall>n. x = Some n \<longrightarrow> n \<le> 0)"
  by (auto simp: filter_pos_def split: option.splits)

lemma window_90:
  assumes "0 < w" "w * 9 \<le> i64_max"
  shows "div_to_zero (wrap_i64 (w * 9)) 10 = w * 9 div 10"
proof -
  have "in_i64 (w * 9)" using assms by (simp add: in_i64_def i64_min_def)
  with assms show ?thesis by (simp add: wrap_i64_id div_to_zero_nonneg)
qed

lemma backoff_nat: "unat (backoff_ms r) = 200 * 2 ^ min (unat r) 6"
proof -
  define k where "k = min (unat r) 6"
  have k: "unat (min r 6) = k"
    by (simp add: k_def min_def word_le_nat_alt)
  have "k \<in> {0, 1, 2, 3, 4, 5, 6}" by (auto simp: k_def)
  then have "unat (sat_mul64 200 (push_bit k 1)) = 200 * 2 ^ k"
    by (auto simp: sat_mul64_def)
  then show ?thesis by (simp add: backoff_ms_def k k_def)
qed

section \<open>Properties\<close>

text \<open>The compaction trigger. With a context window small enough that nine times it is an
  \<open>i64\<close> (any real model's), the turn's token limit is reached exactly when the active
  tokens reach nine tenths of the window, or the configured limit when it is positive and
  smaller; a non-positive configured limit is ignored.\<close>

lemma compaction_threshold:
  assumes "0 < w" "w * 9 \<le> i64_max"
  shows "token_limit_reached (from_usage active prefill (Some w) configured ScopeTotal) \<longleftrightarrow>
         active \<ge> (case filter_pos configured of Some c \<Rightarrow> min c (w * 9 div 10)
                  | None \<Rightarrow> w * 9 div 10)"
proof -
  have "filter_pos (Some w) = Some w" using assms by (simp add: filter_pos_def)
  then have "auto_compact_token_limit (Some w) configured =
        Some (case filter_pos configured of Some c \<Rightarrow> min c (w * 9 div 10) | None \<Rightarrow> w * 9 div 10)"
    using window_90 [OF assms] by (auto simp: auto_compact_token_limit_def split: option.splits)
  then show ?thesis by (simp add: from_usage_def scope_usage_def)
qed

lemma compaction_threshold_witness:
  "token_limit_reached (from_usage 180000 None (Some 200000) (Some (- 1)) ScopeTotal)"
  using compaction_threshold [of 200000 180000 None "Some (- 1)"]
  by (simp add: i64_max_def filter_pos_def)

text \<open>Stream retries. A retry happens only for a retryable error and while the retry budget is
  not spent; the delay is the one the server asked for, or an exponential backoff that starts at
  200 ms, never decreases with the number of retries and never exceeds 12.8 s; once the
  budget is spent, the transport is switched exactly when that is possible.\<close>

lemma retry_decision_bounded:
  "(case retry_decision retries mx retryable can_switch requested of
      RFail \<Rightarrow> \<not> retryable \<or> (mx \<le> retries \<and> \<not> can_switch)
    | SwitchTransport \<Rightarrow> retryable \<and> mx \<le> retries \<and> can_switch
    | Backoff d \<Rightarrow> retryable \<and> retries < mx
        \<and> d = (case requested of Some r \<Rightarrow> r | None \<Rightarrow> backoff_ms retries))
   \<and> 200 \<le> unat (backoff_ms retries) \<and> unat (backoff_ms retries) \<le> 12800
   \<and> backoff_ms retries \<le> backoff_ms (max retries later)"
proof (intro conjI)
  show "case retry_decision retries mx retryable can_switch requested of
      RFail \<Rightarrow> \<not> retryable \<or> (mx \<le> retries \<and> \<not> can_switch)
    | SwitchTransport \<Rightarrow> retryable \<and> mx \<le> retries \<and> can_switch
    | Backoff d \<Rightarrow> retryable \<and> retries < mx
        \<and> d = (case requested of Some r \<Rightarrow> r | None \<Rightarrow> backoff_ms retries)"
    by (auto simp: retry_decision_def not_le)
  show "200 \<le> unat (backoff_ms retries)" by (simp add: backoff_nat)
  have "(2::nat) ^ min (unat retries) 6 \<le> 2 ^ 6" by (rule power_increasing) auto
  then show "unat (backoff_ms retries) \<le> 12800" by (simp add: backoff_nat)
  have "unat retries \<le> unat (max retries later)" by (simp add: max_def word_le_nat_alt)
  then have "(2::nat) ^ min (unat retries) 6 \<le> 2 ^ min (unat (max retries later)) 6"
    by (intro power_increasing) auto
  then show "backoff_ms retries \<le> backoff_ms (max retries later)"
    by (simp add: word_le_nat_alt backoff_nat)
qed

lemma retry_decision_bounded_witness:
  "retry_decision 3 5 True False None = Backoff 1600 \<and> unat (backoff_ms 3) \<le> 12800"
  using retry_decision_bounded
    [where retries = 3 and mx = 5 and retryable = True and can_switch = False and requested = None]
  by (simp add: retry_decision_def backoff_ms_def sat_mul64_def)

end
