(* ===== verification/TurnLoop.thy ===== *)
theory TurnLoop
  imports Decision
begin

text \<open>
  The turn loop (\<open>turn/loop\_driver.rs\<close>) over the three traits of \<open>turn/mod.rs\<close>. A trait
  object is a record of its methods in state-passing form (\<open>turn_env\<close>) over an arbitrary
  world \<open>'w\<close>, so every statement holds for every implementation of \<open>TurnState\<close> and
  \<open>SamplingDriver\<close>. The lifecycle observer is the trace \<open>lifecycle\<close>; \<open>sampled\<close> logs the
  request of every sampling round. One iteration of the \<open>loop\<close> is \<open>turn_iteration\<close>; the
  unbounded loop is run with fuel.
\<close>

section \<open>The traits\<close>

datatype compaction_mode = PreTurn | MidTurn

record 'w turn_env =
  clone_history_for_prompt :: "'w \<Rightarrow> message list \<times> 'w"
  take_pending_input :: "'w \<Rightarrow> message list \<times> 'w"
  has_pending_input :: "'w \<Rightarrow> bool \<times> 'w"
  read_token_status :: "'w \<Rightarrow> token_status \<times> 'w"
  defer_mailbox_delivery :: "'w \<Rightarrow> 'w"
  run_compact :: "compaction_mode \<Rightarrow> 'w \<Rightarrow> agent_error option \<times> 'w"
  run_sampling_request :: "message list \<Rightarrow> 'w \<Rightarrow> (agent_error + sampling_outcome) \<times> 'w"

section \<open>The nudges\<close>

definition final_nudge :: string where
  "final_nudge = ''This is the final allowed step for this run. Stop exploring and call the done tool with the best complete answer you can provide now. Include unknown or unavailable items explicitly instead of continuing to search.''"

definition progress_nudge :: string where
  "progress_nudge = ''Progress checkpoint: If you have enough evidence, a saved artifact, or a complete-enough answer, stop further exploration and call the done tool now. Continue only for clearly missing required information that is likely to change the final answer.''"

definition should_emit_progress_nudge :: "nat \<Rightarrow> nat \<Rightarrow> bool" where
  "should_emit_progress_nudge max_turns next_turn =
     (if max_turns < 40 \<or> next_turn \<ge> max_turns then False
      else next_turn \<ge> max_turns div 2 \<and> next_turn mod 10 = 0)"

definition nudge_message :: "string \<Rightarrow> message" where
  "nudge_message s = message_new RDeveloper [part_text s]"

definition nudges :: "nat option \<Rightarrow> nat \<Rightarrow> message list" where
  "nudges max_turns next_turn =
     (case max_turns of
        None \<Rightarrow> []
      | Some limit \<Rightarrow>
          if next_turn = limit then [nudge_message final_nudge]
          else if should_emit_progress_nudge limit next_turn then [nudge_message progress_nudge]
          else [])"

section \<open>The loop\<close>

record 'w loop_state =
  world :: 'w
  can_drain :: bool
  last_message :: "string option"
  turns_run :: nat
  lifecycle :: "lifecycle_event list"
  sampled :: "message list list"

record 'w loop_result =
  outcome_of :: "agent_error + string option"
  final_world :: 'w
  final_lifecycle :: "lifecycle_event list"
  final_sampled :: "message list list"

definition finish_loop ::
    "(agent_error + string option) \<Rightarrow> lifecycle_event list \<Rightarrow> 'w loop_state \<Rightarrow> 'w loop_result" where
  "finish_loop r evs s = \<lparr> outcome_of = r, final_world = world s,
     final_lifecycle = lifecycle s @ evs, final_sampled = sampled s \<rparr>"

text \<open>Steps 1 and 2 of an iteration: build the request of the round.\<close>

definition build_request ::
    "'w turn_env \<Rightarrow> nat option \<Rightarrow> 'w loop_state \<Rightarrow> message list \<times> 'w" where
  "build_request env max_turns s =
     (let (input, w1) = (if can_drain s then take_pending_input env (world s) else ([], world s));
          (history, w2) = clone_history_for_prompt env w1
      in (history @ input @ nudges max_turns (turns_run s + 1), w2))"

text \<open>One iteration: \<open>Inl\<close> leaves the loop, \<open>Inr\<close> goes round again.\<close>

definition turn_iteration ::
    "'w turn_env \<Rightarrow> string \<Rightarrow> nat option \<Rightarrow> 'w loop_state \<Rightarrow> 'w loop_result + 'w loop_state" where
  "turn_iteration env turn_id max_turns s0 =
     (let (request, w2) = build_request env max_turns s0;
          (res, w3) = run_sampling_request env request w2;
          s = s0\<lparr> world := w3, sampled := sampled s0 @ [request] \<rparr>
      in case res of
           Inl AeTurnAborted \<Rightarrow>
             Inl (finish_loop (Inr (last_message s)) [TurnAborted turn_id Interrupted] s)
         | Inl other \<Rightarrow> Inl (finish_loop (Inl other) [] s)
         | Inr out \<Rightarrow>
             (let s1 = s\<lparr> turns_run := turns_run s + 1,
                          last_message := (case last_agent_message out of
                                             Some m \<Rightarrow> Some m | None \<Rightarrow> last_message s) \<rparr>;
                  w4 = (if defers_mailbox_delivery out \<and> \<not> model_needs_follow_up out
                        then defer_mailbox_delivery env (world s1) else world s1);
                  (pending, w5) = has_pending_input env w4;
                  (status, w6) = read_token_status env w5;
                  s2 = s1\<lparr> world := w6 \<rparr>
              in case classify_loop_step out pending status of
                   Complete \<Rightarrow>
                     Inl (finish_loop (Inr (last_message s2))
                            [TurnComplete turn_id (last_message s2)] s2)
                 | step \<Rightarrow>
                     if (case max_turns of Some limit \<Rightarrow> turns_run s2 \<ge> limit | None \<Rightarrow> False)
                     then Inl (finish_loop (Inr (last_message s2)) [TurnAborted turn_id MaxTurns] s2)
                     else (case step of
                             CompactThenContinue drain_next \<Rightarrow>
                               (case run_compact env MidTurn (world s2) of
                                  (Some e, w7) \<Rightarrow> Inl (finish_loop (Inl e) [] (s2\<lparr> world := w7 \<rparr>))
                                | (None, w7) \<Rightarrow>
                                    Inr (s2\<lparr> world := w7, can_drain := drain_next \<rparr>))
                           | _ \<Rightarrow> Inr (s2\<lparr> can_drain := True \<rparr>))))"

definition turn_loop ::
    "nat \<Rightarrow> 'w turn_env \<Rightarrow> string \<Rightarrow> nat option \<Rightarrow> 'w loop_state \<Rightarrow> 'w loop_result option" where
  "turn_loop fuel env turn_id max_turns s = fuel_loop fuel (turn_iteration env turn_id max_turns) s"

definition initial_loop_state :: "string \<Rightarrow> bool \<Rightarrow> 'w \<Rightarrow> 'w loop_state" where
  "initial_loop_state turn_id fresh w =
     \<lparr> world = w, can_drain = initial_can_drain fresh, last_message = None, turns_run = 0,
       lifecycle = [TurnStarted turn_id], sampled = [] \<rparr>"

definition run_inner ::
    "nat \<Rightarrow> 'w turn_env \<Rightarrow> string \<Rightarrow> bool \<Rightarrow> nat option \<Rightarrow> 'w \<Rightarrow> 'w loop_result option" where
  "run_inner fuel env turn_id fresh max_turns w =
     turn_loop fuel env turn_id max_turns (initial_loop_state turn_id fresh w)"

definition run_turns :: "nat \<Rightarrow> 'w turn_env \<Rightarrow> string \<Rightarrow> bool \<Rightarrow> 'w \<Rightarrow> 'w loop_result option" where
  "run_turns fuel env turn_id fresh w = run_inner fuel env turn_id fresh None w"

definition run_with_max_turns ::
    "nat \<Rightarrow> 'w turn_env \<Rightarrow> string \<Rightarrow> bool \<Rightarrow> nat \<Rightarrow> 'w \<Rightarrow> 'w loop_result option" where
  "run_with_max_turns fuel env turn_id fresh max_turns w =
     run_inner fuel env turn_id fresh (Some (max max_turns 1)) w"

section \<open>The contract of an iteration\<close>

text \<open>What holds whenever the loop goes round again, and of every result it leaves with.\<close>

definition round_inv :: "string \<Rightarrow> nat option \<Rightarrow> 'w loop_state \<Rightarrow> bool" where
  "round_inv turn_id max_turns s \<longleftrightarrow>
     lifecycle s = [TurnStarted turn_id] \<and> length (sampled s) = turns_run s
     \<and> (case max_turns of Some limit \<Rightarrow> turns_run s < limit | None \<Rightarrow> True)
     \<and> (\<forall>i < turns_run s. suffix (nudges max_turns (Suc i)) (sampled s ! i))"

definition result_ok :: "string \<Rightarrow> nat option \<Rightarrow> 'w loop_result \<Rightarrow> bool" where
  "result_ok turn_id max_turns r \<longleftrightarrow>
     (case outcome_of r of
        Inl e \<Rightarrow> final_lifecycle r = [TurnStarted turn_id]
      | Inr m \<Rightarrow>
          final_lifecycle r = [TurnStarted turn_id, TurnComplete turn_id m]
          \<or> final_lifecycle r = [TurnStarted turn_id, TurnAborted turn_id Interrupted]
          \<or> (final_lifecycle r = [TurnStarted turn_id, TurnAborted turn_id MaxTurns]
             \<and> max_turns = Some (length (final_sampled r))))
     \<and> 0 < length (final_sampled r)
     \<and> (case max_turns of Some limit \<Rightarrow> length (final_sampled r) \<le> limit | None \<Rightarrow> True)
     \<and> (\<forall>i < length (final_sampled r). suffix (nudges max_turns (Suc i)) (final_sampled r ! i))"

definition turns_left :: "nat option \<Rightarrow> 'w loop_state \<Rightarrow> nat" where
  "turns_left max_turns s = (case max_turns of Some limit \<Rightarrow> limit - turns_run s | None \<Rightarrow> 0)"

lemma build_request_suffix:
  "build_request env m s = (req, w) \<Longrightarrow> suffix (nudges m (Suc (turns_run s))) req"
  by (auto simp: build_request_def suffix_def split: prod.splits)

lemma suffix_snoc:
  assumes "\<forall>i < length xs. suffix (f (Suc i)) (xs ! i)" "suffix (f (Suc (length xs))) x"
    and "i < length (xs @ [x])"
  shows "suffix (f (Suc i)) ((xs @ [x]) ! i)"
  using assms by (cases "i = length xs") (auto simp: nth_append)

lemmas iteration_splits = prod.splits sum.splits agent_error.splits loop_step.splits
  option.splits if_splits

lemma iteration_round:
  assumes inv: "round_inv turn_id m s" and it: "turn_iteration env turn_id m s = Inr s'"
  shows "round_inv turn_id m s'" "turns_run s' = Suc (turns_run s)"
proof -
  obtain req w where req: "build_request env m s = (req, w)" by fastforce
  have sfx: "suffix (nudges m (Suc (turns_run s))) req" by (rule build_request_suffix [OF req])
  have len: "length (sampled s) = turns_run s" using inv by (simp add: round_inv_def)
  from it req have s': "sampled s' = sampled s @ [req]" "turns_run s' = Suc (turns_run s)"
      "lifecycle s' = lifecycle s" "\<forall>limit. m = Some limit \<longrightarrow> Suc (turns_run s) < limit"
    unfolding turn_iteration_def Let_def by (auto split: iteration_splits)
  show "turns_run s' = Suc (turns_run s)" by (fact s')
  have "suffix (nudges m (Suc i)) (sampled s' ! i)" if "i < Suc (turns_run s)" for i
    unfolding s' using inv sfx that len by (intro suffix_snoc) (auto simp: round_inv_def)
  then show "round_inv turn_id m s'"
    using inv s' by (auto simp: round_inv_def split: option.splits)
qed

lemma iteration_exit:
  assumes inv: "round_inv turn_id m s" and it: "turn_iteration env turn_id m s = Inl r"
  shows "result_ok turn_id m r"
proof -
  obtain req w where req: "build_request env m s = (req, w)" by fastforce
  have sfx: "suffix (nudges m (Suc (turns_run s))) req" by (rule build_request_suffix [OF req])
  have len: "length (sampled s) = turns_run s" and lc: "lifecycle s = [TurnStarted turn_id]"
    using inv by (simp_all add: round_inv_def)
  from it req have fs: "final_sampled r = sampled s @ [req]"
    unfolding turn_iteration_def Let_def finish_loop_def by (auto split: iteration_splits)
  have "suffix (nudges m (Suc i)) (final_sampled r ! i)" if "i < Suc (turns_run s)" for i
    unfolding fs using inv sfx that len by (intro suffix_snoc) (auto simp: round_inv_def)
  moreover have "case outcome_of r of
        Inl e \<Rightarrow> final_lifecycle r = [TurnStarted turn_id]
      | Inr msg \<Rightarrow>
          final_lifecycle r = [TurnStarted turn_id, TurnComplete turn_id msg]
          \<or> final_lifecycle r = [TurnStarted turn_id, TurnAborted turn_id Interrupted]
          \<or> (final_lifecycle r = [TurnStarted turn_id, TurnAborted turn_id MaxTurns]
             \<and> m = Some (Suc (turns_run s)))"
    using it inv req lc unfolding turn_iteration_def Let_def finish_loop_def round_inv_def
    by (auto split: iteration_splits)
  moreover have "case m of Some limit \<Rightarrow> Suc (turns_run s) \<le> limit | None \<Rightarrow> True"
    using inv by (auto simp: round_inv_def split: option.splits)
  moreover have fslen: "length (final_sampled r) = Suc (turns_run s)" by (simp add: fs len)
  ultimately show ?thesis unfolding result_ok_def fslen by simp
qed

interpretation turns: loop_machine "turn_iteration env turn_id m" "round_inv turn_id m"
    "result_ok turn_id m" for env turn_id m
  by unfold_locales (auto intro: iteration_round iteration_exit)

lemma turns_left_decreases:
  assumes "round_inv turn_id (Some limit) s" "turn_iteration env turn_id (Some limit) s = Inr s'"
  shows "turns_left (Some limit) s' < turns_left (Some limit) s"
  using iteration_round [OF assms] assms(1) by (auto simp: turns_left_def round_inv_def)

interpretation capped_turns: bounded_loop_machine "turn_iteration env turn_id (Some limit)"
    "round_inv turn_id (Some limit)" "result_ok turn_id (Some limit)" "turns_left (Some limit)"
    for env turn_id limit
  by unfold_locales (rule turns_left_decreases)

lemma initial_round_inv: "m \<noteq> Some 0 \<Longrightarrow> round_inv turn_id m (initial_loop_state turn_id fresh w)"
  by (auto simp: round_inv_def initial_loop_state_def split: option.splits)

lemma iteration_sampled:
  assumes "prefix qs (sampled s)"
  shows "turn_iteration env turn_id m s = Inr s' \<Longrightarrow> prefix qs (sampled s')"
    and "turn_iteration env turn_id m s = Inl r \<Longrightarrow> prefix qs (final_sampled r)"
  using assms unfolding turn_iteration_def Let_def finish_loop_def
  by (auto split: iteration_splits)

interpretation sampled_grow: loop_machine "turn_iteration env turn_id m"
    "\<lambda>s. prefix qs (sampled s)" "\<lambda>r. prefix qs (final_sampled r)" for env turn_id m qs
  by unfold_locales (auto intro: iteration_sampled)








section \<open>Properties\<close>

text \<open>C1. A capped run always returns: with a cap of \<open>n\<close> (zero counts as one) it leaves
  the loop after at most that many sampling rounds, whatever the state, the model and the
  compaction do. Its lifecycle is \<open>TurnStarted\<close> followed by exactly one terminal event on
  every successful return and by nothing when an error propagates; the abort for the cap is
  reported only after exactly that many rounds; and round \<open>i\<close> of the run was asked with
  its nudge, so the last allowed round always carries the final one.\<close>

theorem capped_run_returns:
  "\<exists>r. run_with_max_turns (Suc (max n 1)) env turn_id fresh n w = Some r
       \<and> result_ok turn_id (Some (max n 1)) r"
proof -
  let ?m = "Some (max n 1)"
  let ?s = "initial_loop_state turn_id fresh w"
  have inv: "round_inv turn_id ?m ?s" by (rule initial_round_inv) simp
  have "turns_left ?m ?s < Suc (max n 1)" by (simp add: turns_left_def initial_loop_state_def)
  from capped_turns.loop_returns [OF inv this, of env] show ?thesis
    by (simp add: run_with_max_turns_def run_inner_def turn_loop_def)
qed

text \<open>Fresh input is sampled before anything queued: the first request of a turn that
  started with fresh input is the history snapshot alone (plus a nudge under a cap), taken
  in the initial world, so no steer queued meanwhile is drained into it; a turn without fresh
  input drains the queue first and appends it after the history.\<close>

lemma fresh_input_sampled_first:
  assumes "run_inner fuel env turn_id fresh m w = Some r"
  shows "final_sampled r ! 0 =
           (let (input, w1) = (if fresh then ([], w) else take_pending_input env w)
            in fst (clone_history_for_prompt env w1) @ input @ nudges m 1)"
proof -
  let ?s = "initial_loop_state turn_id fresh w"
  obtain req w2 where req: "build_request env m ?s = (req, w2)" by fastforce
  have first: "req = (let (input, w1) = (if fresh then ([], w) else take_pending_input env w)
            in fst (clone_history_for_prompt env w1) @ input @ nudges m 1)"
    using req by (auto simp: build_request_def initial_loop_state_def initial_can_drain_def
        split: prod.splits if_splits)
  obtain n where n: "fuel = Suc n"
    using assms by (cases fuel) (auto simp: run_inner_def turn_loop_def)
  have "prefix [req] (final_sampled r)"
  proof (cases "turn_iteration env turn_id m ?s")
    case (Inl r')
    then have "r' = r" using assms n by (simp add: run_inner_def turn_loop_def)
    with Inl req show ?thesis
      unfolding turn_iteration_def Let_def finish_loop_def initial_loop_state_def
      by (auto split: iteration_splits)
  next
    case (Inr s')
    with req have "prefix [req] (sampled s')"
      unfolding turn_iteration_def Let_def initial_loop_state_def by (auto split: iteration_splits)
    moreover have "fuel_loop n (turn_iteration env turn_id m) s' = Some r"
      using assms n Inr by (simp add: run_inner_def turn_loop_def)
    ultimately show ?thesis by (intro sampled_grow.loop_post)
  qed
  then show ?thesis using first by (auto simp: prefix_def)
qed


text \<open>A small world for the witnesses: a queue of pending messages, answered in two rounds.\<close>

definition demo_env :: "(message list \<times> nat) turn_env" where
  "demo_env = \<lparr> clone_history_for_prompt = (\<lambda>w. ([user_text ''hi''], w)),
     take_pending_input = (\<lambda>(q, n). (q, ([], n))),
     has_pending_input = (\<lambda>w. (fst w \<noteq> [], w)),
     read_token_status = (\<lambda>w. (token_status_default, w)),
     defer_mailbox_delivery = (\<lambda>w. w),
     run_compact = (\<lambda>md w. (None, w)),
     run_sampling_request = (\<lambda>req (q, n).
       (Inr \<lparr> model_needs_follow_up = (n = 0), last_agent_message = Some ''ok'',
              defers_mailbox_delivery = False, outcome_finish_reason = None \<rparr>, (q, Suc n))) \<rparr>"

definition demo_result :: "(message list \<times> nat) loop_result" where
  "demo_result = \<lparr> outcome_of = Inr (Some ''ok''), final_world = ([], 2),
     final_lifecycle = [TurnStarted ''t'', TurnComplete ''t'' (Some ''ok'')],
     final_sampled = [[user_text ''hi''], [user_text ''hi'', user_text ''steer'']] \<rparr>"

lemmas demo_simps = run_inner_def turn_loop_def demo_env_def demo_result_def
  initial_loop_state_def turn_iteration_def build_request_def initial_can_drain_def
  finish_loop_def nudges_def classify_loop_step_def needs_follow_up_def
  should_compact_mid_turn_def can_drain_after_compact_def token_status_default_def

lemma demo_run: "run_inner (Suc (Suc 0)) demo_env ''t'' True None ([user_text ''steer''], 0) = Some demo_result"
  by (simp add: demo_simps)

lemma fresh_input_sampled_first_witness:
  "final_sampled demo_result ! 0 = [user_text ''hi'']"
  using fresh_input_sampled_first [OF demo_run] by (simp add: demo_env_def nudges_def)


end
