(* ===== verification/Approval.thy ===== *)
theory Approval
  imports Schema
begin

text \<open>
  The value types and pure decisions of the tool layer: approval policies, verdicts and
  requirements with the session store (\<open>tools/approval.rs\<close>), sandbox types and providers
  (\<open>tools/sandbox.rs\<close>, \<open>sandbox\_backends/policy.rs\<close> and provider.rs) and the decision
  table of a tool call (\<open>tools/runtime.rs\<close>). The key of an approval is what
  \<open>serde\_json::to\_string\<close> returned for it: \<open>None\<close> when serialization fails.
\<close>

section \<open>Approval policies, verdicts and requirements\<close>

record granular_config =
  sandbox_approval :: bool

datatype ask_for_approval = Never | OnFailure | OnRequest | UnlessTrusted | Granular granular_config

definition allows_sandbox_approval :: "granular_config \<Rightarrow> bool" where
  "allows_sandbox_approval g = sandbox_approval g"

datatype review_decision = Approved | ApprovedForSession | Denied | Abort | TimedOut

definition is_approved :: "review_decision \<Rightarrow> bool" where
  "is_approved d = (case d of Approved \<Rightarrow> True | ApprovedForSession \<Rightarrow> True | _ \<Rightarrow> False)"

datatype approval_requirement =
    Skip bool
  | NeedsApproval "string option"
  | ReqForbidden string

section \<open>The session approval store\<close>

type_synonym approval_store = "string \<rightharpoonup> review_decision"

definition store_get :: "approval_store \<Rightarrow> string option \<Rightarrow> review_decision option" where
  "store_get st key = (case key of None \<Rightarrow> None | Some s \<Rightarrow> st s)"

definition store_put :: "approval_store \<Rightarrow> string option \<Rightarrow> review_decision \<Rightarrow> approval_store" where
  "store_put st key v = (case key of None \<Rightarrow> st | Some s \<Rightarrow> st(s \<mapsto> v))"

lemma store_put_None [simp]: "store_put st None v = st"
  by (simp add: store_put_def)

interpretation session_store: keyed_store "\<lambda>st k. store_get st (Some k)"
    "\<lambda>st k. store_put st (Some k)" "\<lambda>_. True"
  by unfold_locales (auto simp: store_get_def store_put_def)

section \<open>Sandboxes\<close>

datatype sandbox_type = NoSandbox | Restricted

datatype sandbox_preference = PrefAuto | PrefNever

datatype sandbox_permissions = UseDefault | RequireEscalated | WithAdditionalPermissions

definition requires_escalated_permissions :: "sandbox_permissions \<Rightarrow> bool" where
  "requires_escalated_permissions p \<longleftrightarrow> p = RequireEscalated"

datatype sandbox_override = NoOverride | BypassSandboxFirstAttempt

record fs_sandbox_policy =
  restricted :: bool
  denied_read :: bool

text \<open>A provider chooses a sandbox and resolves the chosen one into the sandbox of the
  launch (the launch handle's cancellation token is left out).\<close>

record sandbox_provider =
  select_initial :: "fs_sandbox_policy \<Rightarrow> sandbox_preference \<Rightarrow> bool \<Rightarrow> sandbox_type"
  prepare :: "sandbox_type \<Rightarrow> string \<Rightarrow> sandbox_permissions \<Rightarrow> sandbox_type"

definition none_provider :: sandbox_provider where
  "none_provider = \<lparr> select_initial = (\<lambda>fs p m. NoSandbox), prepare = (\<lambda>s cwd p. NoSandbox) \<rparr>"

text \<open>The platform provider, over whether an enforcing backend is available on the host.\<close>

definition platform_select_initial ::
    "bool \<Rightarrow> fs_sandbox_policy \<Rightarrow> sandbox_preference \<Rightarrow> bool \<Rightarrow> sandbox_type" where
  "platform_select_initial available fs pref managed =
     (if pref = PrefNever then NoSandbox else if available then Restricted else NoSandbox)"

definition platform_prepare ::
    "bool \<Rightarrow> sandbox_type \<Rightarrow> string \<Rightarrow> sandbox_permissions \<Rightarrow> sandbox_type" where
  "platform_prepare available sandbox cwd perms =
     (case sandbox of
        Restricted \<Rightarrow> if available then Restricted else NoSandbox
      | NoSandbox \<Rightarrow> NoSandbox)"

definition platform_provider :: "bool \<Rightarrow> sandbox_provider" where
  "platform_provider available = \<lparr> select_initial = platform_select_initial available,
                                   prepare = platform_prepare available \<rparr>"

text \<open>The policy of an exec attempt.\<close>

datatype fs_policy = FsReadOnly | FsWorkspaceWrite
datatype fs_intent = IntentReadOnly | IntentWorkspaceWrite

record sandbox_policy =
  sp_fs :: fs_policy
  writable_roots :: "string list"
  network_access :: bool

definition new_read_only :: sandbox_policy where
  "new_read_only = \<lparr> sp_fs = FsReadOnly, writable_roots = [], network_access = False \<rparr>"

definition new_workspace_write :: "string \<Rightarrow> string list \<Rightarrow> sandbox_policy" where
  "new_workspace_write cwd extra =
     \<lparr> sp_fs = FsWorkspaceWrite, writable_roots = cwd # extra, network_access = False \<rparr>"

definition allows_writes :: "sandbox_policy \<Rightarrow> bool" where
  "allows_writes p \<longleftrightarrow> sp_fs p = FsWorkspaceWrite"

definition derive_sandbox_policy ::
    "fs_intent \<Rightarrow> string \<Rightarrow> string list \<Rightarrow> bool \<Rightarrow> sandbox_policy" where
  "derive_sandbox_policy intent cwd extra net =
     (case intent of
        IntentReadOnly \<Rightarrow> new_read_only\<lparr> network_access := net \<rparr>
      | IntentWorkspaceWrite \<Rightarrow> (new_workspace_write cwd extra)\<lparr> network_access := net \<rparr>)"

definition policy_summary :: "sandbox_policy \<Rightarrow> string" where
  "policy_summary p =
     (case sp_fs p of FsReadOnly \<Rightarrow> ''read-only'' | FsWorkspaceWrite \<Rightarrow> ''workspace-write'')
     @ '', '' @ (if network_access p then ''network-allowed'' else ''network-denied'')"

section \<open>Errors of a tool\<close>

record exec_output =
  exit_code :: int
  exec_stdout :: string
  exec_stderr :: string

record sandbox_denial =
  denial_output :: exec_output
  network_policy_decision :: "string option"

datatype tool_error = Rejected string | Sandboxed sandbox_denial | ToolOther string

section \<open>The decision table\<close>

definition should_bypass_approval :: "ask_for_approval \<Rightarrow> bool \<Rightarrow> bool" where
  "should_bypass_approval policy already_approved =
     (if already_approved then True else policy = Never)"

definition wants_no_sandbox_approval :: "ask_for_approval \<Rightarrow> bool" where
  "wants_no_sandbox_approval policy =
     (case policy of
        OnFailure \<Rightarrow> True
      | UnlessTrusted \<Rightarrow> True
      | Never \<Rightarrow> False
      | OnRequest \<Rightarrow> False
      | Granular g \<Rightarrow> sandbox_approval g)"

definition default_exec_approval_requirement ::
    "ask_for_approval \<Rightarrow> fs_sandbox_policy \<Rightarrow> approval_requirement" where
  "default_exec_approval_requirement policy fs =
     (let needs_approval = (case policy of
            Never \<Rightarrow> False | OnFailure \<Rightarrow> False
          | OnRequest \<Rightarrow> restricted fs | Granular _ \<Rightarrow> restricted fs
          | UnlessTrusted \<Rightarrow> True)
      in if needs_approval \<and> (case policy of Granular g \<Rightarrow> \<not> allows_sandbox_approval g | _ \<Rightarrow> False)
         then ReqForbidden ''approval policy disallowed sandbox approval prompt''
         else if needs_approval then NeedsApproval None
         else Skip False)"

definition sandbox_override_for_first_attempt ::
    "sandbox_permissions \<Rightarrow> approval_requirement \<Rightarrow> fs_sandbox_policy \<Rightarrow> sandbox_override" where
  "sandbox_override_for_first_attempt perms req fs =
     (if req = Skip True then BypassSandboxFirstAttempt
      else if denied_read fs then NoOverride
      else if requires_escalated_permissions perms then BypassSandboxFirstAttempt
      else NoOverride)"

definition map_decision :: "review_decision \<Rightarrow> string option \<Rightarrow> tool_error option" where
  "map_decision d review_id =
     (if is_approved d then None
      else (let what = (case d of
                  Denied \<Rightarrow> ''rejected by user''
                | Abort \<Rightarrow> ''aborted by user''
                | _ \<Rightarrow> ''approval timed out'')
            in Some (Rejected (case review_id of
                 Some i \<Rightarrow> ''command '' @ what @ '' (review '' @ i @ '')''
               | None \<Rightarrow> ''command '' @ what))))"

definition build_denial_reason :: "string option \<Rightarrow> string" where
  "build_denial_reason host =
     (case host of
        Some h \<Rightarrow> ''Network access to '' @ [CHR 0x22] @ h @ [CHR 0x22] @ '' is blocked by policy.''
      | None \<Rightarrow> ''Command failed while running in the sandbox.'')"

datatype denial_action = Return | RetryNone bool

record attempt_plan =
  needs_initial_approval :: bool
  initial_sandbox :: sandbox_type
  on_denial :: denial_action

definition plan_attempts ::
    "approval_requirement \<Rightarrow> sandbox_override \<Rightarrow> bool \<Rightarrow> bool \<Rightarrow> bool \<Rightarrow> bool \<Rightarrow> bool \<Rightarrow> bool
     \<Rightarrow> attempt_plan" where
  "plan_attempts requirement ovr escalate_on_failure wants_no_sandbox should_bypass
       strict_auto_review already_approved net_denial =
     \<lparr> needs_initial_approval =
         (case requirement of Skip _ \<Rightarrow> strict_auto_review
          | NeedsApproval _ \<Rightarrow> True | ReqForbidden _ \<Rightarrow> True),
       initial_sandbox =
         (case ovr of BypassSandboxFirstAttempt \<Rightarrow> NoSandbox | NoOverride \<Rightarrow> Restricted),
       on_denial =
         (if \<not> escalate_on_failure \<or> \<not> wants_no_sandbox then Return
          else (let bypass_retry = (\<not> strict_auto_review \<and> should_bypass \<and> \<not> net_denial)
                in RetryNone (\<not> bypass_retry))) \<rparr>"

section \<open>Lemmas\<close>

lemma map_decision_None [simp]: "map_decision d i = None \<longleftrightarrow> is_approved d"
  by (simp add: map_decision_def Let_def)

lemma map_decision_approved [simp]: "is_approved d \<Longrightarrow> map_decision d i = None"
  by simp

lemma is_approved_simps [simp]:
  "is_approved Approved" "is_approved ApprovedForSession"
  "\<not> is_approved Denied" "\<not> is_approved Abort" "\<not> is_approved TimedOut"
  by (simp_all add: is_approved_def)

lemma map_decision_Some: "map_decision d i = Some e \<Longrightarrow> \<exists>m. e = Rejected m"
  by (auto simp: map_decision_def Let_def split: if_splits)

lemma plan_on_denial:
  "on_denial (plan_attempts r ovr esc wants bypass strict already net) = RetryNone reapp \<longleftrightarrow>
     esc \<and> wants \<and> reapp = (strict \<or> \<not> bypass \<or> net)"
  by (auto simp: plan_attempts_def)

lemma read_only_never_writes:
  "\<not> allows_writes (derive_sandbox_policy IntentReadOnly cwd extra net)
   \<and> writable_roots (derive_sandbox_policy IntentReadOnly cwd extra net) = []"
  by (simp add: derive_sandbox_policy_def new_read_only_def allows_writes_def)

lemma workspace_roots_confined:
  "set (writable_roots (derive_sandbox_policy IntentWorkspaceWrite cwd extra net)) = insert cwd (set extra)"
  by (simp add: derive_sandbox_policy_def new_workspace_write_def)

lemma network_only_when_asked: "network_access (derive_sandbox_policy intent cwd extra net) = net"
  by (simp add: derive_sandbox_policy_def split: fs_intent.split)

section \<open>Properties\<close>

text \<open>The platform sandbox provider is honest: it selects, and resolves a launch to, the
  restricted sandbox only when an enforcing backend is available and, for the selection, the
  tool did not opt out; and it never raises an unsandboxed choice to a restricted one.\<close>

lemma platform_provider_honest:
  "(select_initial (platform_provider available) fs pref managed = Restricted
      \<longleftrightarrow> available \<and> pref = PrefAuto)
   \<and> (prepare (platform_provider available) sandbox cwd perms = Restricted
      \<longleftrightarrow> available \<and> sandbox = Restricted)"
  by (cases pref; cases sandbox)
     (simp_all add: platform_provider_def platform_select_initial_def platform_prepare_def)

end
