(* ===== verification/Orchestrator.thy ===== *)
theory Orchestrator
  imports Approval
begin

text \<open>
  The tool orchestrator (\<open>tools/orchestrator.rs\<close>): the driver of one tool call over the
  decision table of Approval. A tool (the traits \<open>Approvable\<close>, \<open>Sandboxable\<close> and
  \<open>ToolRuntime\<close>) is a record of its methods; the tool's run and the approver act on an
  arbitrary world \<open>'w\<close>. The trace \<open>otrace\<close> lists the verdicts and the attempts in the
  order in which they happen.
\<close>

section \<open>The traits\<close>

record tool_ctx =
  call_id :: string
  tool_name :: string
  ctx_cwd :: string
  artifact_root :: string

record sandbox_attempt =
  at_sandbox :: sandbox_type
  at_permissions :: sandbox_permissions
  enforce_managed_network :: bool

record ('req, 'out, 'w) tool =
  approval_keys :: "'req \<Rightarrow> string option list"
  sandbox_permissions_of :: "'req \<Rightarrow> sandbox_permissions"
  exec_approval_requirement :: "'req \<Rightarrow> approval_requirement option"
  tool_should_bypass :: "ask_for_approval \<Rightarrow> bool \<Rightarrow> bool"
  tool_wants_no_sandbox :: "ask_for_approval \<Rightarrow> bool"
  sandbox_preference_of :: sandbox_preference
  escalate_on_failure :: bool
  tool_run :: "'req \<Rightarrow> sandbox_attempt \<Rightarrow> tool_ctx \<Rightarrow> 'w \<Rightarrow> (tool_error + 'out) \<times> 'w"

type_synonym 'w approver = "tool_ctx \<Rightarrow> 'w \<Rightarrow> review_decision \<times> 'w"

definition auto_approver :: "'w approver" where
  "auto_approver ctx w = (Approved, w)"

record turn_context =
  fs_policy_of :: fs_sandbox_policy
  managed_network_active :: bool
  strict_auto_review :: bool

section \<open>The orchestrator's state\<close>

datatype orch_event = Reviewed review_decision | Attempted sandbox_type

record 'w orch =
  approvals :: approval_store
  oworld :: 'w
  otrace :: "orch_event list"

record 'out run_result =
  run_output :: 'out
  sandbox_used :: sandbox_type
  approved_for_session :: bool

definition all_keys_approved :: "approval_store \<Rightarrow> string option list \<Rightarrow> bool" where
  "all_keys_approved st keys =
     (if keys = [] then False
      else list_all (\<lambda>k. store_get st k = Some ApprovedForSession) keys)"

definition cache_session_approval :: "approval_store \<Rightarrow> string option list \<Rightarrow> approval_store" where
  "cache_session_approval st keys = foldl (\<lambda>s k. store_put s k ApprovedForSession) st keys"

definition review :: "'w approver \<Rightarrow> tool_ctx \<Rightarrow> 'w orch \<Rightarrow> review_decision \<times> 'w orch" where
  "review appr ctx s =
     (let (d, w) = appr ctx (oworld s)
      in (d, s\<lparr> oworld := w, otrace := otrace s @ [Reviewed d] \<rparr>))"

definition run_under ::
    "sandbox_provider \<Rightarrow> ('req, 'out, 'w) tool \<Rightarrow> 'req \<Rightarrow> tool_ctx \<Rightarrow> sandbox_type
     \<Rightarrow> sandbox_permissions \<Rightarrow> 'w orch \<Rightarrow> (tool_error + 'out) \<times> 'w orch" where
  "run_under prov tool req ctx sandbox perms s =
     (let launch = prepare prov sandbox (ctx_cwd ctx) perms;
          attempt = \<lparr> at_sandbox = launch, at_permissions = perms, enforce_managed_network = False \<rparr>;
          (r, w) = tool_run tool req attempt ctx (oworld s)
      in (r, s\<lparr> oworld := w, otrace := otrace s @ [Attempted launch] \<rparr>))"

text \<open>Ask, map the verdict, and remember a verdict for the session; used by the initial gate and
  by the unsandboxed retry. The last component is the new \<open>approved\_for\_session\<close>.\<close>

definition ask_and_cache ::
    "'w approver \<Rightarrow> tool_ctx \<Rightarrow> string option list \<Rightarrow> bool \<Rightarrow> 'w orch
     \<Rightarrow> (tool_error + bool) \<times> 'w orch" where
  "ask_and_cache appr ctx keys afs s =
     (let (d, s1) = review appr ctx s
      in case map_decision d None of
           Some e \<Rightarrow> (Inl e, s1)
         | None \<Rightarrow>
             if d = ApprovedForSession
             then (Inr True, s1\<lparr> approvals := cache_session_approval (approvals s1) keys \<rparr>)
             else (Inr afs, s1))"

definition requirement_of ::
    "('req, 'out, 'w) tool \<Rightarrow> 'req \<Rightarrow> ask_for_approval \<Rightarrow> fs_sandbox_policy \<Rightarrow> approval_requirement" where
  "requirement_of tool req policy fs =
     (case exec_approval_requirement tool req of
        Some r \<Rightarrow> r
      | None \<Rightarrow> default_exec_approval_requirement policy fs)"

definition plan_of ::
    "('req, 'out, 'w) tool \<Rightarrow> 'req \<Rightarrow> turn_context \<Rightarrow> ask_for_approval \<Rightarrow> bool \<Rightarrow> attempt_plan" where
  "plan_of tool req env policy already_approved =
     (let fs = fs_policy_of env;
          requirement = requirement_of tool req policy fs;
          ovr = sandbox_override_for_first_attempt (sandbox_permissions_of tool req) requirement fs
      in plan_attempts requirement ovr (escalate_on_failure tool)
           (tool_wants_no_sandbox tool policy) (tool_should_bypass tool policy already_approved)
           (strict_auto_review env) already_approved False)"

text \<open>Steps 6 and 7: select the sandbox, run, and escalate on a sandbox denial.\<close>

definition run_attempts ::
    "sandbox_provider \<Rightarrow> 'w approver \<Rightarrow> ('req, 'out, 'w) tool \<Rightarrow> 'req \<Rightarrow> tool_ctx
     \<Rightarrow> turn_context \<Rightarrow> attempt_plan \<Rightarrow> bool \<Rightarrow> 'w orch
     \<Rightarrow> (tool_error + 'out run_result) \<times> 'w orch" where
  "run_attempts prov appr tool req ctx env plan afs s =
     (let perms = sandbox_permissions_of tool req;
          keys = approval_keys tool req;
          choice = select_initial prov (fs_policy_of env) (sandbox_preference_of tool)
                     (managed_network_active env);
          sandbox = (case initial_sandbox plan of NoSandbox \<Rightarrow> NoSandbox | Restricted \<Rightarrow> choice);
          (r, s1) = run_under prov tool req ctx sandbox perms s
      in case r of
           Inr out \<Rightarrow> (Inr \<lparr> run_output = out, sandbox_used = sandbox,
                            approved_for_session = afs \<rparr>, s1)
         | Inl (Sandboxed denial) \<Rightarrow>
             (case on_denial plan of
                Return \<Rightarrow> (Inl (Sandboxed denial), s1)
              | RetryNone needs_reapproval \<Rightarrow>
                  (let (g, s2) = (if needs_reapproval then ask_and_cache appr ctx keys afs s1
                                  else (Inr afs, s1))
                   in case g of
                        Inl e \<Rightarrow> (Inl e, s2)
                      | Inr afs2 \<Rightarrow>
                          (let (r2, s3) = run_under prov tool req ctx NoSandbox perms s2
                           in case r2 of
                                Inl e \<Rightarrow> (Inl e, s3)
                              | Inr out \<Rightarrow> (Inr \<lparr> run_output = out, sandbox_used = NoSandbox,
                                                 approved_for_session = afs2 \<rparr>, s3))))
         | Inl other \<Rightarrow> (Inl other, s1))"

definition orchestrate ::
    "sandbox_provider \<Rightarrow> 'w approver \<Rightarrow> ('req, 'out, 'w) tool \<Rightarrow> 'req \<Rightarrow> tool_ctx
     \<Rightarrow> turn_context \<Rightarrow> ask_for_approval \<Rightarrow> 'w orch
     \<Rightarrow> (tool_error + 'out run_result) \<times> 'w orch" where
  "orchestrate prov appr tool req ctx env policy s =
     (let keys = approval_keys tool req;
          already = all_keys_approved (approvals s) keys;
          plan = plan_of tool req env policy already;
          (g, s1) = (if needs_initial_approval plan \<and> \<not> already
                     then ask_and_cache appr ctx keys already s else (Inr already, s))
      in case g of
           Inl e \<Rightarrow> (Inl e, s1)
         | Inr afs \<Rightarrow> run_attempts prov appr tool req ctx env plan afs s1)"

section \<open>Lemmas\<close>

lemma cache_get:
  "k \<in> set keys \<Longrightarrow> k \<noteq> None \<Longrightarrow>
   store_get (cache_session_approval st keys) k = Some ApprovedForSession"
proof (induction keys arbitrary: st rule: rev_induct)
  case (snoc a keys)
  then show ?case
    by (cases k; cases a) (auto simp: cache_session_approval_def store_get_def store_put_def)
qed (simp add: cache_session_approval_def)

lemma all_keys_approved_cached:
  "keys \<noteq> [] \<Longrightarrow> None \<notin> set keys \<Longrightarrow> all_keys_approved (cache_session_approval st keys) keys"
  unfolding all_keys_approved_def list_all_iff by (metis cache_get)

lemma cache_mono:
  "store_get st k = Some ApprovedForSession \<Longrightarrow>
   store_get (cache_session_approval st keys) k = Some ApprovedForSession"
proof (induction keys arbitrary: st)
  case (Cons a keys)
  have "store_get (store_put st a ApprovedForSession) k = Some ApprovedForSession"
    using Cons.prems by (cases k; cases a) (auto simp: store_get_def store_put_def)
  then show ?case using Cons.IH by (simp add: cache_session_approval_def)
qed (simp add: cache_session_approval_def)

lemma review_unfold:
  "review appr ctx s = (d, s') \<longleftrightarrow>
     (\<exists>w. appr ctx (oworld s) = (d, w) \<and> s' = s\<lparr> oworld := w, otrace := otrace s @ [Reviewed d] \<rparr>)"
  by (auto simp: review_def split: prod.splits)

lemma run_under_trace:
  "run_under prov tool req ctx sb perms s = (r, s') \<Longrightarrow>
   otrace s' = otrace s @ [Attempted (prepare prov sb (ctx_cwd ctx) perms)]
   \<and> approvals s' = approvals s"
  by (auto simp: run_under_def Let_def split: prod.splits)

lemma ask_cases:
  assumes "ask_and_cache appr ctx keys afs s = (g, s')"
  obtains (refused) d m where "\<not> is_approved d" "g = Inl (Rejected m)"
      "otrace s' = otrace s @ [Reviewed d]" "approvals s' = approvals s"
    | (once) "g = Inr afs" "otrace s' = otrace s @ [Reviewed Approved]" "approvals s' = approvals s"
    | (session) "g = Inr True" "otrace s' = otrace s @ [Reviewed ApprovedForSession]"
      "approvals s' = cache_session_approval (approvals s) keys"
proof -
  obtain d s1 where r: "review appr ctx s = (d, s1)" by fastforce
  then have t: "otrace s1 = otrace s @ [Reviewed d]" "approvals s1 = approvals s"
    by (auto simp: review_unfold)
  show thesis
  proof (cases "is_approved d")
    case False
    then obtain e where e: "map_decision d None = Some e" by (cases "map_decision d None") auto
    then obtain m where "e = Rejected m" using map_decision_Some by blast
    with assms r e t False show thesis by (auto simp: ask_and_cache_def intro: refused)
  next
    case True
    then have "d = Approved \<or> d = ApprovedForSession"
      by (cases d) (simp_all add: is_approved_def)
    then show thesis
    proof
      assume "d = Approved"
      with assms r t show thesis by (intro once) (auto simp: ask_and_cache_def)
    next
      assume "d = ApprovedForSession"
      with assms r t show thesis by (intro session) (auto simp: ask_and_cache_def)
    qed
  qed
qed

text \<open>The traces of the attempts: one attempt, or one that the sandbox denied followed by the
  gated unsandboxed retry.\<close>

definition retry_trace ::
    "sandbox_provider \<Rightarrow> ('req, 'out, 'w) tool \<Rightarrow> 'req \<Rightarrow> tool_ctx \<Rightarrow> denial_action
     \<Rightarrow> orch_event list \<Rightarrow> bool" where
  "retry_trace prov tool req ctx action tr \<longleftrightarrow>
     tr = []
     \<or> (\<exists>reapproval d. action = RetryNone reapproval
          \<and> ((\<not> reapproval \<and> tr = [Attempted (prepare prov NoSandbox (ctx_cwd ctx)
                                     (sandbox_permissions_of tool req))])
             \<or> (reapproval \<and> \<not> is_approved d \<and> tr = [Reviewed d])
             \<or> (reapproval \<and> is_approved d
                 \<and> tr = [Reviewed d, Attempted (prepare prov NoSandbox (ctx_cwd ctx)
                                       (sandbox_permissions_of tool req))])))"

lemma retry_trace_rejected:
  "\<not> is_approved d \<Longrightarrow> retry_trace prov tool req ctx (RetryNone True) [Reviewed d]"
  by (auto simp: retry_trace_def)

definition keeps_session :: "'w orch \<Rightarrow> 'w orch \<Rightarrow> bool" where
  "keeps_session s s' \<longleftrightarrow>
     (\<forall>k. store_get (approvals s) k = Some ApprovedForSession \<longrightarrow>
          store_get (approvals s') k = Some ApprovedForSession)"

lemma keeps_same: "approvals s' = approvals s \<Longrightarrow> keeps_session s s'"
  by (simp add: keeps_session_def)

lemma keeps_trans: "keeps_session a b \<Longrightarrow> keeps_session b c \<Longrightarrow> keeps_session a c"
  by (simp add: keeps_session_def)

lemma keeps_cache:
  "approvals s' = cache_session_approval (approvals s) keys \<Longrightarrow> keeps_session s s'"
  by (simp add: keeps_session_def cache_mono)

lemma run_attempts_trace:
  assumes "run_attempts prov appr tool req ctx env plan afs s = (r, s')"
  shows "\<exists>sb post. otrace s' = otrace s @ Attempted sb # post
           \<and> retry_trace prov tool req ctx (on_denial plan) post \<and> keeps_session s s'"
proof -
  let ?perms = "sandbox_permissions_of tool req"
  let ?sel = "select_initial prov (fs_policy_of env) (sandbox_preference_of tool)
                (managed_network_active env)"
  define sb where "sb = (case initial_sandbox plan of NoSandbox \<Rightarrow> NoSandbox | Restricted \<Rightarrow> ?sel)"
  define first where "first = prepare prov sb (ctx_cwd ctx) ?perms"
  obtain r1 s1 where 1: "run_under prov tool req ctx sb ?perms s = (r1, s1)" by fastforce
  have t1: "otrace s1 = otrace s @ [Attempted first]" and k1: "keeps_session s s1"
    using run_under_trace [OF 1] by (simp_all add: first_def keeps_same)
  note run = assms [unfolded run_attempts_def Let_def, folded sb_def, unfolded 1 prod.case]
  show ?thesis
  proof (cases "\<exists>den reapp. r1 = Inl (Sandboxed den) \<and> on_denial plan = RetryNone reapp")
    case False
    then have "s' = s1" using run
      by (auto split: sum.splits tool_error.splits denial_action.splits)
    with t1 k1 show ?thesis by (auto simp: retry_trace_def)
  next
    case True
    then obtain den reapp where r1: "r1 = Inl (Sandboxed den)" and act: "on_denial plan = RetryNone reapp"
      by blast
    let ?final = "Attempted (prepare prov NoSandbox (ctx_cwd ctx) ?perms)"
    show ?thesis
    proof (cases reapp)
      case False
      then have "otrace s' = otrace s1 @ [?final] \<and> keeps_session s1 s'" using run r1 act
        by (auto split: prod.splits sum.splits dest: run_under_trace intro: keeps_same)
      with t1 k1 act False show ?thesis by (auto simp: retry_trace_def intro: keeps_trans)
    next
      case True
      obtain g s2 where ask: "ask_and_cache appr ctx (approval_keys tool req) afs s1 = (g, s2)"
        by fastforce
      from ask show ?thesis
      proof (cases rule: ask_cases)
        case (refused d m)
        then have "s' = s2" using run r1 act True ask by auto
        moreover have "keeps_session s s2" using k1 refused keeps_same keeps_trans by blast
        ultimately show ?thesis using refused t1 act True by (auto intro: retry_trace_rejected)
      next
        case once
        then have "otrace s' = otrace s2 @ [?final] \<and> keeps_session s2 s'" using run r1 act True ask
          by (auto split: prod.splits sum.splits dest: run_under_trace intro: keeps_same)
        moreover have "keeps_session s s2" using k1 once keeps_same keeps_trans by blast
        ultimately show ?thesis using once t1 act True by (auto simp: retry_trace_def intro: keeps_trans)
      next
        case session
        then have "otrace s' = otrace s2 @ [?final] \<and> keeps_session s2 s'" using run r1 act True ask
          by (auto split: prod.splits sum.splits dest: run_under_trace intro: keeps_same)
        moreover have "keeps_session s s2" using k1 session keeps_cache keeps_trans by blast
        ultimately show ?thesis using session t1 act True by (auto simp: retry_trace_def intro: keeps_trans)
      qed
    qed
  qed
qed

definition gate_required ::
    "('req, 'out, 'w) tool \<Rightarrow> 'req \<Rightarrow> turn_context \<Rightarrow> ask_for_approval \<Rightarrow> bool" where
  "gate_required tool req env policy \<longleftrightarrow>
     (case requirement_of tool req policy (fs_policy_of env) of
        Skip _ \<Rightarrow> strict_auto_review env | _ \<Rightarrow> True)"

lemma plan_gate [simp]:
  "needs_initial_approval (plan_of tool req env policy already) = gate_required tool req env policy"
  by (simp add: plan_of_def plan_attempts_def gate_required_def Let_def
      split: approval_requirement.split)

lemma plan_retry:
  "on_denial (plan_of tool req env policy already) = RetryNone reapp \<longleftrightarrow>
     escalate_on_failure tool \<and> tool_wants_no_sandbox tool policy
     \<and> reapp = (strict_auto_review env \<or> \<not> tool_should_bypass tool policy already)"
  by (simp add: plan_of_def plan_on_denial Let_def)

text \<open>The trace of a whole call: the gate, then the attempts unless it refused.\<close>

lemma orchestrate_trace:
  assumes "orchestrate prov appr tool req ctx env policy s = (r, s')"
  defines "already \<equiv> all_keys_approved (approvals s) (approval_keys tool req)"
  obtains (refused) d m where "gate_required tool req env policy" "\<not> already" "\<not> is_approved d"
      "otrace s' = otrace s @ [Reviewed d]" "r = Inl (Rejected m)" "approvals s' = approvals s"
    | (ran) gate sb post where
      "otrace s' = otrace s @ gate @ Attempted sb # post"
      "gate = [] \<and> (already \<or> \<not> gate_required tool req env policy)
        \<or> (\<exists>d. gate = [Reviewed d] \<and> is_approved d)"
      "retry_trace prov tool req ctx (on_denial (plan_of tool req env policy already)) post"
proof -
  let ?plan = "plan_of tool req env policy already"
  note run = assms(1) [unfolded orchestrate_def Let_def, folded already_def, unfolded plan_gate]
  show thesis
  proof (cases "gate_required tool req env policy \<and> \<not> already")
    case False
    then have "run_attempts prov appr tool req ctx env ?plan already s = (r, s')"
      using run by auto
    from run_attempts_trace [OF this] False show thesis by (auto intro: ran [of "[]"])
  next
    case True
    obtain g s1 where ask: "ask_and_cache appr ctx (approval_keys tool req) already s = (g, s1)"
      by fastforce
    from ask show thesis
    proof (cases rule: ask_cases)
      case (refused d m)
      with run True ask show thesis by (intro that(1)) auto
    next
      case once
      then have "run_attempts prov appr tool req ctx env ?plan already s1 = (r, s')"
        using run True ask by auto
      from run_attempts_trace [OF this] once show thesis
        by (auto intro!: ran [of "[Reviewed Approved]"])
    next
      case session
      then have "run_attempts prov appr tool req ctx env ?plan True s1 = (r, s')"
        using run True ask by auto
      from run_attempts_trace [OF this] session show thesis
        by (auto intro!: ran [of "[Reviewed ApprovedForSession]"])
    qed
  qed
qed

lemma retry_trace_attempts:
  assumes "retry_trace prov tool req ctx action post" "post = mid @ Attempted b # rest"
  shows "rest = [] \<and> b = prepare prov NoSandbox (ctx_cwd ctx) (sandbox_permissions_of tool req)
         \<and> (action = RetryNone False \<and> mid = []
            \<or> action = RetryNone True \<and> (\<exists>d. mid = [Reviewed d] \<and> is_approved d))"
  using assms by (auto simp: retry_trace_def Cons_eq_append_conv append_eq_Cons_conv)

section \<open>Properties\<close>

text \<open>C3. No tool runs without the approval it needs. When the resolved requirement is not
  \<open>Skip\<close> (or strict auto-review is on) and the call's keys are not all approved for the
  session, the first thing the orchestrator does is ask; unless the verdict approves, nothing
  else happens: the tool is not attempted, the call is rejected and no approval is cached.\<close>

theorem no_run_without_approval:
  assumes "orchestrate prov appr tool req ctx env policy s = (r, s')"
    and "gate_required tool req env policy"
    and "\<not> all_keys_approved (approvals s) (approval_keys tool req)"
  shows "\<exists>d post. otrace s' = otrace s @ Reviewed d # post
           \<and> (is_approved d \<or> (post = [] \<and> (\<exists>m. r = Inl (Rejected m)) \<and> approvals s' = approvals s))"
  using assms(1)
proof (cases rule: orchestrate_trace)
  case (refused d m)
  then show ?thesis by auto
next
  case (ran gate sb post)
  with assms show ?thesis by auto
qed

text \<open>C28. An attempt is repeated at most once, and only unsandboxed: if a call's trace holds two
  attempts, the tool escalates on failure and the policy wants no-sandbox approvals, the
  second attempt is the last event and runs under the provider's unsandboxed launch, and
  between the two there is an approving verdict, except where the approval is bypassable
  and strict auto-review is off.\<close>

theorem unsandboxed_retry_gated:
  assumes "orchestrate prov appr tool req ctx env policy s = (r, s')"
    and "otrace s' = otrace s @ pre @ Attempted a # mid @ Attempted b # rest"
  shows "escalate_on_failure tool \<and> tool_wants_no_sandbox tool policy \<and> rest = []
         \<and> b = prepare prov NoSandbox (ctx_cwd ctx) (sandbox_permissions_of tool req)
         \<and> ((\<exists>d. mid = [Reviewed d] \<and> is_approved d)
            \<or> (mid = [] \<and> \<not> strict_auto_review env
               \<and> tool_should_bypass tool policy
                   (all_keys_approved (approvals s) (approval_keys tool req))))"
  using assms(1)
proof (cases rule: orchestrate_trace)
  case (refused d m)
  with assms(2) show ?thesis by (auto simp: Cons_eq_append_conv)
next
  case (ran gate sb post)
  have eq: "gate @ Attempted sb # post = pre @ Attempted a # mid @ Attempted b # rest"
    using ran(1) assms(2) by simp
  have "length pre = length gate \<or> (\<exists>u. post = u @ Attempted a # mid @ Attempted b # rest)"
    using ran(2) eq by (auto simp: append_eq_append_conv2 Cons_eq_append_conv append_eq_Cons_conv)
  then show ?thesis
  proof
    assume "length pre = length gate"
    with eq have "post = mid @ Attempted b # rest" by simp
    from retry_trace_attempts [OF ran(3) this] show ?thesis by (auto simp: plan_retry)
  next
    assume "\<exists>u. post = u @ Attempted a # mid @ Attempted b # rest"
    with retry_trace_attempts [OF ran(3)] show ?thesis by (auto simp: Cons_eq_append_conv)
  qed
qed

lemma all_keys_approved_kept:
  "all_keys_approved (approvals s) keys \<Longrightarrow> keeps_session s s' \<Longrightarrow> all_keys_approved (approvals s') keys"
  unfolding all_keys_approved_def list_all_iff keeps_session_def by metis

text \<open>A verdict for the session is remembered: after a gated call whose approver answered
  \<open>ApprovedForSession\<close>, with serializable keys and at least one of them, every later call with the
  same keys goes straight to its attempt, whatever approver, policy and review mode it has.\<close>

lemma session_approval_remembered:
  assumes "orchestrate prov appr tool req ctx env policy s = (r, s')"
    and "gate_required tool req env policy"
    and "\<not> all_keys_approved (approvals s) (approval_keys tool req)"
    and "fst (appr ctx (oworld s)) = ApprovedForSession"
    and "approval_keys tool req \<noteq> []" and "None \<notin> set (approval_keys tool req)"
    and "approval_keys tool2 req2 = approval_keys tool req"
    and "orchestrate prov2 appr2 tool2 req2 ctx2 env2 policy2 s' = (r2, s2)"
  shows "\<exists>sb post. otrace s2 = otrace s' @ Attempted sb # post"
proof -
  let ?keys = "approval_keys tool req"
  obtain g s1 where ask: "ask_and_cache appr ctx ?keys False s = (g, s1)" by fastforce
  obtain w where w: "appr ctx (oworld s) = (ApprovedForSession, w)"
    using assms(4) by (cases "appr ctx (oworld s)") auto
  have g: "g = Inr True" and st: "approvals s1 = cache_session_approval (approvals s) ?keys"
    using ask w by (auto simp: ask_and_cache_def review_def)
  have "run_attempts prov appr tool req ctx env (plan_of tool req env policy False) True s1 = (r, s')"
    using assms(1-3) ask g by (auto simp: orchestrate_def Let_def)
  from run_attempts_trace [OF this] have "keeps_session s1 s'" by blast
  moreover have "all_keys_approved (approvals s1) ?keys"
    unfolding st by (rule all_keys_approved_cached [OF assms(5,6)])
  ultimately have already: "all_keys_approved (approvals s') ?keys"
    by (rule all_keys_approved_kept [rotated])
  from assms(8) show ?thesis
  proof (cases rule: orchestrate_trace)
    case (refused d m)
    with already assms(7) show ?thesis by simp
  next
    case (ran gate sb post)
    from assms(8) already assms(7)
    have "\<exists>plan. run_attempts prov2 appr2 tool2 req2 ctx2 env2 plan True s' = (r2, s2)"
      by (auto simp: orchestrate_def Let_def)
    then obtain plan where "run_attempts prov2 appr2 tool2 req2 ctx2 env2 plan True s' = (r2, s2)" ..
    from run_attempts_trace [OF this] show ?thesis by blast
  qed
qed

text \<open>A forbidden requirement is only a gate: a call whose requirement is \<open>Forbidden\<close> does
  exactly what the same call does when its requirement is \<open>NeedsApproval\<close>, so an approving
  verdict (or a remembered one) lets it run.\<close>

lemma forbidden_is_only_a_gate:
  assumes "exec_approval_requirement tool req = Some (ReqForbidden m)"
    and "soft = tool\<lparr> exec_approval_requirement := (\<lambda>_. Some (NeedsApproval q)) \<rparr>"
  shows "orchestrate prov appr tool req ctx env policy s = orchestrate prov appr soft req ctx env policy s"
proof -
  have "requirement_of tool req policy fs = ReqForbidden m"
    "requirement_of soft req policy fs = NeedsApproval q" for fs
    using assms by (simp_all add: requirement_of_def)
  then have plan: "plan_of tool req env policy a = plan_of soft req env policy a" for a
    using assms(2) by (simp add: plan_of_def plan_attempts_def sandbox_override_for_first_attempt_def Let_def)
  have under: "run_under prov soft = run_under prov tool"
    using assms(2) by (simp add: run_under_def fun_eq_iff)
  have sel: "approval_keys soft = approval_keys tool"
      "sandbox_permissions_of soft = sandbox_permissions_of tool"
      "sandbox_preference_of soft = sandbox_preference_of tool"
    using assms(2) by simp_all
  have att: "run_attempts prov appr soft req ctx env p afs t = run_attempts prov appr tool req ctx env p afs t"
    for p afs t by (simp only: run_attempts_def under sel)
  show ?thesis by (simp only: orchestrate_def plan att sel)
qed

section \<open>Witnesses\<close>

text \<open>A command that the sandbox denies, an approver that approves for the session, and one
  that denies.\<close>

definition demo_tool :: "(nat, nat, nat) tool" where
  "demo_tool = \<lparr> approval_keys = (\<lambda>r. [Some ''k'']), sandbox_permissions_of = (\<lambda>r. UseDefault),
     exec_approval_requirement = (\<lambda>r. Some (ReqForbidden ''no'')),
     tool_should_bypass = should_bypass_approval, tool_wants_no_sandbox = wants_no_sandbox_approval,
     sandbox_preference_of = PrefAuto, escalate_on_failure = True,
     tool_run = (\<lambda>r a c w. (if at_sandbox a = Restricted
        then Inl (Sandboxed \<lparr> denial_output = \<lparr> exit_code = 1, exec_stdout = [], exec_stderr = [] \<rparr>,
                              network_policy_decision = None \<rparr>)
        else Inr r, Suc w)) \<rparr>"

definition demo_ctx :: tool_ctx where
  "demo_ctx = \<lparr> call_id = ''c'', tool_name = ''shell'', ctx_cwd = ''/'', artifact_root = ''/'' \<rparr>"

definition demo_turn :: turn_context where
  "demo_turn = \<lparr> fs_policy_of = \<lparr> restricted = True, denied_read = False \<rparr>,
                 managed_network_active = False, strict_auto_review = False \<rparr>"

definition demo_orch :: "nat orch" where
  "demo_orch = \<lparr> approvals = Map.empty, oworld = 0, otrace = [] \<rparr>"

definition demo_call :: "nat approver \<Rightarrow> nat orch \<Rightarrow> (tool_error + nat run_result) \<times> nat orch" where
  "demo_call appr s = orchestrate (platform_provider True) appr demo_tool 7 demo_ctx demo_turn OnFailure s"

definition session_approver :: "nat approver" where
  "session_approver ctx w = (ApprovedForSession, w)"

definition denying_approver :: "nat approver" where
  "denying_approver ctx w = (Denied, w)"

lemmas demo_orch_simps = demo_call_def orchestrate_def demo_tool_def demo_turn_def demo_orch_def
  demo_ctx_def run_attempts_def run_under_def ask_and_cache_def review_def plan_of_def
  plan_attempts_def requirement_of_def sandbox_override_for_first_attempt_def
  requires_escalated_permissions_def platform_provider_def platform_select_initial_def
  platform_prepare_def should_bypass_approval_def wants_no_sandbox_approval_def
  all_keys_approved_def cache_session_approval_def store_get_def store_put_def
  gate_required_def session_approver_def denying_approver_def

lemma no_run_without_approval_witness:
  "\<exists>m. fst (demo_call denying_approver demo_orch) = Inl (Rejected m)
       \<and> otrace (snd (demo_call denying_approver demo_orch)) = [Reviewed Denied]"
proof -
  obtain r s' where call: "demo_call denying_approver demo_orch = (r, s')" by fastforce
  then have t: "otrace s' = [Reviewed Denied]"
    by (auto simp: demo_orch_simps map_decision_def)
  have "\<exists>d post. otrace s' = otrace demo_orch @ Reviewed d # post
           \<and> (is_approved d \<or> (post = [] \<and> (\<exists>m. r = Inl (Rejected m)) \<and> approvals s' = approvals demo_orch))"
    by (rule no_run_without_approval [OF call [unfolded demo_call_def]])
       (simp_all add: demo_orch_simps)
  with t call show ?thesis by (auto simp: demo_orch_def)
qed

lemma unsandboxed_retry_gated_witness:
  "\<exists>d. [Reviewed ApprovedForSession] = [Reviewed d] \<and> is_approved d"
proof -
  obtain r s' where call: "demo_call session_approver demo_orch = (r, s')" by fastforce
  then have t: "otrace s' = otrace demo_orch @ [Reviewed ApprovedForSession] @ Attempted Restricted
      # [Reviewed ApprovedForSession] @ Attempted NoSandbox # []"
    by (auto simp: demo_orch_simps)
  from unsandboxed_retry_gated [OF call [unfolded demo_call_def] t] show ?thesis by simp
qed

lemma session_approval_remembered_witness:
  "\<exists>sb post. otrace (snd (demo_call denying_approver (snd (demo_call session_approver demo_orch))))
     = otrace (snd (demo_call session_approver demo_orch)) @ Attempted sb # post"
  unfolding demo_call_def
  by (rule session_approval_remembered [where s = demo_orch and tool = demo_tool and req = 7
        and appr = session_approver and policy = OnFailure and env = demo_turn and ctx = demo_ctx
        and prov = "platform_provider True", OF surjective_pairing _ _ _ _ _ _ surjective_pairing])
     (simp_all add: demo_orch_simps)

lemma forbidden_is_only_a_gate_witness:
  "orchestrate none_provider auto_approver demo_tool 7 demo_ctx demo_turn OnFailure demo_orch
   = orchestrate none_provider auto_approver
       (demo_tool\<lparr> exec_approval_requirement := (\<lambda>_. Some (NeedsApproval None)) \<rparr>)
       7 demo_ctx demo_turn OnFailure demo_orch"
  by (rule forbidden_is_only_a_gate [where m = "''no''" and q = None]) (simp_all add: demo_tool_def)

end
