(* ===== verification/Execpolicy.thy ===== *)
theory Execpolicy
  imports Prelude
begin

text \<open>
  The exec-policy engine (\<open>execpolicy/\<close>): program-keyed prefix rules and the
  most-restrictive-wins check (policy.rs), the unwrapping of a shell wrapper around one plain
  command (canonicalize.rs) and amendments, which install allow rules (amend.rs). The
  heuristics fallback is an argument of the check, as in the code.
\<close>

section \<open>Decisions\<close>

datatype policy_decision = PdAllow | PdPrompt | PdForbidden

fun decision_rank :: "policy_decision \<Rightarrow> nat" where
  "decision_rank PdAllow = 0"
| "decision_rank PdPrompt = 1"
| "decision_rank PdForbidden = 2"

lemma decision_rank_inj [simp]: "decision_rank a = decision_rank b \<longleftrightarrow> a = b"
  by (cases a; cases b) auto

text \<open>The derived \<open>Ord\<close>.\<close>

instantiation policy_decision :: linorder
begin

definition less_eq_policy_decision :: "policy_decision \<Rightarrow> policy_decision \<Rightarrow> bool" where
  "less_eq_policy_decision a b \<longleftrightarrow> decision_rank a \<le> decision_rank b"

definition less_policy_decision :: "policy_decision \<Rightarrow> policy_decision \<Rightarrow> bool" where
  "less_policy_decision a b \<longleftrightarrow> decision_rank a < decision_rank b"

instance
  by standard (auto simp: less_eq_policy_decision_def less_policy_decision_def)

end

lemma decision_le_simps [simp]:
  "PdAllow \<le> d" "d \<le> PdForbidden" "PdForbidden \<le> d \<longleftrightarrow> d = PdForbidden"
  "PdPrompt \<le> d \<longleftrightarrow> d \<noteq> PdAllow" "d \<le> PdAllow \<longleftrightarrow> d = PdAllow"
  by (cases d; simp add: less_eq_policy_decision_def)+

datatype exec_policy_decision = EpAllowed | EpPrompt | EpForbidden string

section \<open>Rules\<close>

datatype pattern_token = PtSingle string | PtAlts "string list"

fun token_matches :: "pattern_token \<Rightarrow> string \<Rightarrow> bool" where
  "token_matches (PtSingle expected) tok = (expected = tok)"
| "token_matches (PtAlts alts) tok = list_ex (\<lambda>a. a = tok) alts"

record prefix_rule =
  pr_first :: string
  pr_rest :: "pattern_token list"
  pr_decision :: policy_decision
  pr_justification :: "string option"

definition allow_program :: "string \<Rightarrow> prefix_rule" where
  "allow_program program =
     \<lparr> pr_first = program, pr_rest = [], pr_decision = PdAllow, pr_justification = None \<rparr>"

text \<open>\<open>None\<close> is the panic of \<open>expect("prefix must be non-empty")\<close>.\<close>

fun prefix_with_decision :: "string list \<Rightarrow> policy_decision \<Rightarrow> prefix_rule option" where
  "prefix_with_decision [] d = None"
| "prefix_with_decision (first # rest) d =
     Some \<lparr> pr_first = first, pr_rest = map PtSingle rest, pr_decision = d, pr_justification = None \<rparr>"

definition forbid_prefix :: "string list \<Rightarrow> prefix_rule option" where
  "forbid_prefix p = prefix_with_decision p PdForbidden"

definition prompt_prefix :: "string list \<Rightarrow> prefix_rule option" where
  "prompt_prefix p = prefix_with_decision p PdPrompt"

definition allow_prefix :: "string list \<Rightarrow> prefix_rule option" where
  "allow_prefix p = prefix_with_decision p PdAllow"

definition with_justification :: "prefix_rule \<Rightarrow> string \<Rightarrow> prefix_rule" where
  "with_justification r j = r\<lparr> pr_justification := Some j \<rparr>"

fun token_text :: "pattern_token \<Rightarrow> string" where
  "token_text (PtSingle v) = v"
| "token_text (PtAlts alts) = ''['' @ join_with ''|'' alts @ '']''"

definition prefix_tokens :: "prefix_rule \<Rightarrow> string list" where
  "prefix_tokens r = pr_first r # map token_text (pr_rest r)"

definition rule_matches :: "prefix_rule \<Rightarrow> string list \<Rightarrow> string list option" where
  "rule_matches r cmd =
     (let n = length (pr_rest r) + 1
      in if length cmd < n \<or> cmd ! 0 \<noteq> pr_first r then None
         else if list_ex (\<lambda>(p, t). \<not> token_matches p t) (zip (pr_rest r) (drop 1 (take n cmd)))
         then None
         else Some (take n cmd))"

section \<open>The policy\<close>

record rule_match =
  rm_decision :: policy_decision
  rm_prefix :: "string list"
  rm_justification :: "string option"

type_synonym policy = "prefix_rule list"

definition empty_policy :: policy where
  "empty_policy = []"

definition push_rule :: "policy \<Rightarrow> prefix_rule \<Rightarrow> policy" where
  "push_rule p r = p @ [r]"

definition allowed_prefixes :: "policy \<Rightarrow> string list list" where
  "allowed_prefixes p = map prefix_tokens (filter (\<lambda>r. pr_decision r = PdAllow) p)"

definition policy_matches :: "policy \<Rightarrow> string list \<Rightarrow> rule_match list" where
  "policy_matches p cmd =
     (case cmd of
        [] \<Rightarrow> []
      | first # _ \<Rightarrow>
          List.map_filter
            (\<lambda>r. map_option (\<lambda>pre. \<lparr> rm_decision = pr_decision r, rm_prefix = pre,
                                       rm_justification = pr_justification r \<rparr>) (rule_matches r cmd))
            (filter (\<lambda>r. pr_first r = first) p))"

text \<open>\<open>Iterator::max_by_key\<close>: the last of the greatest elements.\<close>

fun max_by_key :: "('a \<Rightarrow> 'k::linorder) \<Rightarrow> 'a list \<Rightarrow> 'a option" where
  "max_by_key f [] = None"
| "max_by_key f (x # xs) =
     (case max_by_key f xs of
        None \<Rightarrow> Some x
      | Some y \<Rightarrow> if f x > f y then Some x else Some y)"

definition derive_forbidden_reason ::
    "string list \<Rightarrow> string list option \<Rightarrow> string option \<Rightarrow> string" where
  "derive_forbidden_reason command matched just =
     (let rendered = join_with '' '' command in
      case just of
        Some j \<Rightarrow> ''`'' @ rendered @ ''` rejected: '' @ j
      | None \<Rightarrow>
          (case matched of
             Some pre \<Rightarrow> ''`'' @ rendered @ ''` rejected: policy forbids commands starting with `''
                          @ join_with '' '' pre @ ''`''
           | None \<Rightarrow> ''`'' @ rendered @ ''` rejected: blocked by policy''))"

definition from_decision ::
    "policy_decision \<Rightarrow> string list \<Rightarrow> string list option \<Rightarrow> string option \<Rightarrow> exec_policy_decision" where
  "from_decision d command matched just =
     (case d of
        PdAllow \<Rightarrow> EpAllowed
      | PdPrompt \<Rightarrow> EpPrompt
      | PdForbidden \<Rightarrow> EpForbidden (derive_forbidden_reason command matched just))"

definition forbidden_detail :: "rule_match list \<Rightarrow> string list option \<times> string option" where
  "forbidden_detail matched =
     (case max_by_key (\<lambda>m. length (rm_prefix m)) (filter (\<lambda>m. rm_decision m = PdForbidden) matched) of
        Some m \<Rightarrow> (Some (rm_prefix m), rm_justification m)
      | None \<Rightarrow> (None, None))"

definition check_canonical ::
    "policy \<Rightarrow> string list \<Rightarrow> (string list \<Rightarrow> policy_decision) \<Rightarrow> exec_policy_decision" where
  "check_canonical p cmd heuristics =
     (let matched = policy_matches p cmd in
      case max_by_key rm_decision matched of
        None \<Rightarrow> from_decision (heuristics cmd) cmd None None
      | Some best \<Rightarrow>
          (let d = rm_decision best;
               (pre, just) = (if d = PdForbidden then forbidden_detail matched else (None, None))
           in from_decision d cmd pre just))"

definition default_policy :: policy where
  "default_policy = empty_policy"

section \<open>Canonicalization\<close>

definition base_name :: "string \<Rightarrow> string" where
  "base_name s = last (split_on CHR ''/'' s)"

definition shell_metachars :: "char list" where
  "shell_metachars = ''&|;()<>$`'' @ [CHR 0x27, CHR 0x22, CHR 0x5C] @ ''*?[]={}#'' @ [CHR 0x0A, CHR 0x09]"

definition tokenize_plain_script :: "string \<Rightarrow> string list option" where
  "tokenize_plain_script script =
     (if list_ex (\<lambda>c. c \<in> set shell_metachars) script then None
      else (let tokens = split_whitespace script
            in if tokens = [] then None else Some tokens))"

definition unwrap_shell_lc :: "string list \<Rightarrow> string list option" where
  "unwrap_shell_lc cmd =
     (if length cmd \<noteq> 3 then None
      else if base_name (cmd ! 0) \<notin> {''sh'', ''bash'', ''zsh'', ''dash''} then None
      else if cmd ! 1 \<notin> {''-c'', ''-lc''} then None
      else case tokenize_plain_script (cmd ! 2) of
             None \<Rightarrow> None
           | Some tokens \<Rightarrow> if tokens = [] then None else Some tokens)"

definition canonicalize_command :: "string list \<Rightarrow> string list" where
  "canonicalize_command cmd =
     (case unwrap_shell_lc cmd of Some inner \<Rightarrow> inner | None \<Rightarrow> cmd)"

definition policy_check ::
    "policy \<Rightarrow> string list \<Rightarrow> (string list \<Rightarrow> policy_decision) \<Rightarrow> exec_policy_decision" where
  "policy_check p cmd heuristics = check_canonical p (canonicalize_command cmd) heuristics"

section \<open>Amendments\<close>

definition amend :: "policy \<Rightarrow> string list \<Rightarrow> policy" where
  "amend p command =
     (if command = [] then p
      else if list_ex (\<lambda>pre. pre = command) (allowed_prefixes p) then p
      else (case allow_prefix command of Some r \<Rightarrow> push_rule p r | None \<Rightarrow> p))"

definition check_amended ::
    "policy \<Rightarrow> string list option \<Rightarrow> string list \<Rightarrow> (string list \<Rightarrow> policy_decision)
     \<Rightarrow> exec_policy_decision" where
  "check_amended p amendment cmd heuristics =
     (let canonical = canonicalize_command cmd in
      case amendment of
        Some a \<Rightarrow> check_canonical (amend p a) canonical heuristics
      | None \<Rightarrow> check_canonical p canonical heuristics)"

section \<open>Lemmas\<close>

lemma max_by_key_None [simp]: "max_by_key f xs = None \<longleftrightarrow> xs = []"
  by (cases xs) (auto split: option.splits)

lemma max_by_key_Some:
  "max_by_key f xs = Some y \<Longrightarrow> y \<in> set xs \<and> (\<forall>x\<in>set xs. f x \<le> f y)"
proof (induction xs arbitrary: y)
  case (Cons x xs)
  show ?case
  proof (cases "max_by_key f xs")
    case None
    with Cons.prems show ?thesis by simp
  next
    case (Some z)
    with Cons.IH [OF Some] Cons.prems show ?thesis by (force split: if_splits)
  qed
qed simp

text \<open>A rule applies when the command starts with its program and, position by position, with
  words its tokens match.\<close>

definition rule_applies :: "prefix_rule \<Rightarrow> string list \<Rightarrow> bool" where
  "rule_applies r cmd \<longleftrightarrow>
     (\<exists>args rest. cmd = pr_first r # args @ rest \<and> list_all2 token_matches (pr_rest r) args)"

lemma rule_matches_iff: "rule_matches r cmd \<noteq> None \<longleftrightarrow> rule_applies r cmd"
proof (cases "length cmd < length (pr_rest r) + 1 \<or> cmd ! 0 \<noteq> pr_first r")
  case True
  then show ?thesis
    by (auto simp: rule_matches_def rule_applies_def dest: list_all2_lengthD)
next
  case False
  define n where "n = length (pr_rest r)"
  from False obtain t where cmd: "cmd = pr_first r # t" and n: "n \<le> length t"
    by (cases cmd) (auto simp: n_def)
  have "rule_matches r cmd \<noteq> None \<longleftrightarrow> list_all2 token_matches (pr_rest r) (take n t)"
    using False n by (auto simp: rule_matches_def cmd n_def list_ex_iff list_all2_iff)
  also have "\<dots> \<longleftrightarrow> rule_applies r cmd"
  proof
    assume "list_all2 token_matches (pr_rest r) (take n t)"
    then show "rule_applies r cmd" unfolding rule_applies_def cmd
      by (metis append_take_drop_id)
  next
    assume "rule_applies r cmd"
    then obtain args rest where "t = args @ rest" "list_all2 token_matches (pr_rest r) args"
      by (auto simp: rule_applies_def cmd)
    then show "list_all2 token_matches (pr_rest r) (take n t)"
      by (simp add: n_def list_all2_lengthD)
  qed
  finally show ?thesis .
qed

lemma rule_matches_first: "rule_matches r cmd = Some m \<Longrightarrow> \<exists>t. cmd = pr_first r # t"
  using rule_matches_iff [of r cmd] by (auto simp: rule_applies_def)

definition match_of :: "prefix_rule \<Rightarrow> string list \<Rightarrow> rule_match option" where
  "match_of r cmd = map_option (\<lambda>pre. \<lparr> rm_decision = pr_decision r, rm_prefix = pre,
     rm_justification = pr_justification r \<rparr>) (rule_matches r cmd)"

lemma match_of_first: "match_of r cmd \<noteq> None \<Longrightarrow> \<exists>t. cmd = pr_first r # t"
  by (auto simp: match_of_def dest: rule_matches_first)

lemma policy_matches_eq: "policy_matches p cmd = List.map_filter (\<lambda>r. match_of r cmd) p"
proof (induction p)
  case Nil
  then show ?case by (simp add: policy_matches_def List.map_filter_def split: list.split)
next
  case (Cons r p)
  show ?case
  proof (cases cmd)
    case Nil
    then have "match_of x cmd = None" for x using match_of_first by fastforce
    then show ?thesis using Nil by (simp add: policy_matches_def List.map_filter_def)
  next
    fix c t assume cmd: "cmd = c # t"
    then have "pr_first r \<noteq> c \<Longrightarrow> match_of r cmd = None" using match_of_first by fastforce
    then show ?thesis using Cons cmd
      by (auto simp: policy_matches_def List.map_filter_def match_of_def)
  qed
qed

lemma policy_matches_append: "policy_matches (p @ q) cmd = policy_matches p cmd @ policy_matches q cmd"
  by (simp add: policy_matches_eq List.map_filter_def)

lemma matches_decision:
  "(\<exists>m\<in>set (policy_matches p cmd). rm_decision m = d) \<longleftrightarrow>
   (\<exists>r\<in>set p. rule_applies r cmd \<and> pr_decision r = d)"
  unfolding policy_matches_eq List.map_filter_def rule_matches_iff [symmetric] match_of_def
  by force

lemma matches_empty: "policy_matches p cmd = [] \<longleftrightarrow> (\<forall>r\<in>set p. \<not> rule_applies r cmd)"
  unfolding policy_matches_eq List.map_filter_def rule_matches_iff [symmetric] match_of_def
  by (auto simp: filter_empty_conv)

lemma words_acc_join:
  "acc \<noteq> [] \<Longrightarrow> \<forall>c\<in>set w. \<not> is_ws c \<Longrightarrow> words_acc acc (w @ rest) = words_acc (acc @ w) rest"
  by (induction w arbitrary: acc) auto

lemma words_start: "w \<noteq> [] \<Longrightarrow> \<forall>c\<in>set w. \<not> is_ws c \<Longrightarrow> words_acc [] (w @ rest) = words_acc w rest"
  by (cases w) (auto simp: words_acc_join)

lemma is_ws_space [simp]: "is_ws CHR '' ''"
  by (simp add: is_ws_def code_point_def)

lemma split_whitespace_join:
  "\<forall>w\<in>set ws. w \<noteq> [] \<and> (\<forall>c\<in>set w. \<not> is_ws c) \<Longrightarrow> split_whitespace (join_with '' '' ws) = ws"
  unfolding split_whitespace_def
proof (induction ws)
  case (Cons w ws)
  show ?case
  proof (cases ws)
    case Nil
    then show ?thesis using Cons.prems words_start [of w "[]"] by simp
  next
    case (Cons v vs)
    then show ?thesis using Cons.prems Cons.IH words_start [of w "CHR '' '' # join_with '' '' ws"]
      by (simp add: join_with_Cons)
  qed
qed simp

section \<open>Amendments are allow rules\<close>

lemma amend_cases:
  "amend p a = p \<or> (\<exists>r. amend p a = p @ [r] \<and> pr_decision r = PdAllow \<and> allow_prefix a = Some r)"
  by (cases a) (auto simp: amend_def allow_prefix_def push_rule_def)

lemma forbidden_detail_append_allow:
  "\<forall>m\<in>set ys. rm_decision m = PdAllow \<Longrightarrow> forbidden_detail (xs @ ys) = forbidden_detail xs"
proof -
  assume "\<forall>m\<in>set ys. rm_decision m = PdAllow"
  then have "filter (\<lambda>m. rm_decision m = PdForbidden) ys = []" by (auto simp: filter_empty_conv)
  then show ?thesis by (simp only: forbidden_detail_def filter_append append_Nil2)
qed

text \<open>The decision of the check, in terms of the rules that apply.\<close>

definition applies_some :: "policy \<Rightarrow> string list \<Rightarrow> policy_decision \<Rightarrow> bool" where
  "applies_some p cmd d \<longleftrightarrow> (\<exists>r\<in>set p. rule_applies r cmd \<and> pr_decision r = d)"

lemma applies_cases:
  "policy_matches p cmd \<noteq> [] \<longleftrightarrow>
   applies_some p cmd PdForbidden \<or> applies_some p cmd PdPrompt \<or> applies_some p cmd PdAllow"
proof -
  have "pr_decision r = PdForbidden \<or> pr_decision r = PdPrompt \<or> pr_decision r = PdAllow" for r :: prefix_rule
    by (cases "pr_decision r") auto
  then show ?thesis unfolding matches_empty applies_some_def by blast
qed

lemma best_decision:
  assumes "max_by_key rm_decision (policy_matches p cmd) = Some best"
  shows "rm_decision best =
    (if applies_some p cmd PdForbidden then PdForbidden
     else if applies_some p cmd PdPrompt then PdPrompt else PdAllow)"
proof -
  note mx = max_by_key_Some [OF assms]
  have ge: "d \<le> rm_decision best" if "applies_some p cmd d" for d
    using that mx unfolding applies_some_def matches_decision [symmetric] by blast
  have "applies_some p cmd (rm_decision best)"
    using mx unfolding applies_some_def matches_decision [symmetric] by blast
  then show ?thesis using ge [of PdForbidden] ge [of PdPrompt]
    by (cases "rm_decision best") auto
qed

lemma check_canonical_forbidden:
  assumes "applies_some p cmd PdForbidden"
  shows "check_canonical p cmd h =
    EpForbidden (derive_forbidden_reason cmd (fst (forbidden_detail (policy_matches p cmd)))
                   (snd (forbidden_detail (policy_matches p cmd))))"
proof -
  have "policy_matches p cmd \<noteq> []" using assms applies_cases by blast
  then obtain best where b: "max_by_key rm_decision (policy_matches p cmd) = Some best"
    by (metis max_by_key_None not_None_eq)
  from best_decision [OF b] assms show ?thesis
    by (simp add: check_canonical_def Let_def b from_decision_def split: prod.split)
qed

lemma check_canonical_unforbidden:
  assumes "\<not> applies_some p cmd PdForbidden" "policy_matches p cmd \<noteq> []"
  shows "check_canonical p cmd h = (if applies_some p cmd PdPrompt then EpPrompt else EpAllowed)"
proof -
  obtain best where b: "max_by_key rm_decision (policy_matches p cmd) = Some best"
    using assms(2) by (metis max_by_key_None not_None_eq)
  from best_decision [OF b] assms show ?thesis
    by (simp add: check_canonical_def Let_def b from_decision_def split: prod.split)
qed

lemma check_canonical_unmatched:
  "policy_matches p cmd = [] \<Longrightarrow> check_canonical p cmd h = from_decision (h cmd) cmd None None"
  by (simp add: check_canonical_def)

lemma applies_amend:
  "d \<noteq> PdAllow \<Longrightarrow> applies_some (amend p a) cmd d = applies_some p cmd d"
  using amend_cases [of p a] by (auto simp: applies_some_def)

lemma amend_detail:
  "forbidden_detail (policy_matches (amend p a) cmd) = forbidden_detail (policy_matches p cmd)"
proof -
  have "\<forall>m\<in>set (policy_matches [r] cmd). rm_decision m = pr_decision r" for r
    by (auto simp: policy_matches_eq List.map_filter_def match_of_def)
  then show ?thesis using amend_cases [of p a]
    by (auto simp: policy_matches_append forbidden_detail_append_allow)
qed

lemma amend_all_detail:
  "forbidden_detail (policy_matches (foldl amend p as) cmd) = forbidden_detail (policy_matches p cmd)"
  by (induction as arbitrary: p) (auto simp: amend_detail)

lemma amend_all_applies:
  "d \<noteq> PdAllow \<Longrightarrow> applies_some (foldl amend p as) cmd d = applies_some p cmd d"
  by (induction as arbitrary: p) (auto simp: applies_amend)

text \<open>A policy whose allow rules are literal, so that the rendering used for deduplication
  determines the rule.\<close>

definition literal_allows :: "policy \<Rightarrow> bool" where
  "literal_allows p \<longleftrightarrow> (\<forall>r\<in>set p. pr_decision r = PdAllow \<longrightarrow> (\<forall>t\<in>set (pr_rest r). \<exists>v. t = PtSingle v))"

lemma literal_matches:
  "\<forall>t\<in>set ts. \<exists>v. t = PtSingle v \<Longrightarrow> list_all2 token_matches ts (map token_text ts)"
  by (induction ts) auto

lemma single_matches: "list_all2 token_matches (map PtSingle xs) xs"
  by (induction xs) auto

lemma amended_rule_present:
  assumes "literal_allows p" "a \<noteq> []"
  shows "\<exists>r\<in>set (amend p a). rule_applies r (a @ rest) \<and> pr_decision r = PdAllow"
proof (cases "a \<in> set (allowed_prefixes p)")
  case True
  then obtain r where r: "r \<in> set p" "pr_decision r = PdAllow" "a = prefix_tokens r"
    by (auto simp: allowed_prefixes_def)
  have "list_all2 token_matches (pr_rest r) (map token_text (pr_rest r))"
    using r assms(1) by (intro literal_matches) (auto simp: literal_allows_def)
  then have "rule_applies r (a @ rest)"
    unfolding rule_applies_def r(3) prefix_tokens_def by auto
  moreover have "amend p a = p" using True assms(2) by (auto simp: amend_def list_ex_iff)
  ultimately show ?thesis using r by auto
next
  case False
  obtain f t where a: "a = f # t" using assms(2) by (cases a) auto
  from False a show ?thesis
    by (auto simp: amend_def list_ex_iff allow_prefix_def push_rule_def rule_applies_def
        intro!: single_matches)
qed

section \<open>Properties\<close>

text \<open>The most restrictive applicable rule wins: the check forbids a command when a
  forbidding rule applies to the canonical command, otherwise prompts when a prompt rule
  applies, otherwise allows when an allow rule applies, and only when no rule applies does the
  heuristics fallback decide.\<close>

lemma most_restrictive_wins:
  "let c = canonicalize_command cmd in
   policy_check p cmd h =
     (if applies_some p c PdForbidden
      then EpForbidden (derive_forbidden_reason c (fst (forbidden_detail (policy_matches p c)))
                          (snd (forbidden_detail (policy_matches p c))))
      else if applies_some p c PdPrompt then EpPrompt
      else if applies_some p c PdAllow then EpAllowed
      else from_decision (h c) c None None)"
proof -
  define c where "c = canonicalize_command cmd"
  show ?thesis unfolding policy_check_def Let_def c_def [symmetric]
    using check_canonical_forbidden [of p c h] check_canonical_unforbidden [of p c h]
      check_canonical_unmatched [of p c h] applies_cases [of p c] by auto
qed

text \<open>C9. No amendment overrides a forbidding rule: whatever amendments are installed, in
  whatever order, a command that a forbidding rule of the original policy covers stays
  forbidden, with the very reason it had.\<close>

theorem amendments_keep_forbidden:
  assumes "applies_some p (canonicalize_command cmd) PdForbidden"
  shows "policy_check (foldl amend p as) cmd h = policy_check p cmd h'
         \<and> (\<exists>reason. policy_check p cmd h' = EpForbidden reason)"
  using assms amend_all_applies [of PdForbidden p as "canonicalize_command cmd"]
  by (simp_all add: policy_check_def check_canonical_forbidden amend_all_detail)

text \<open>An amendment takes effect: if the policy's allow rules are literal and no prompt or
  forbidding rule covers the command, a command whose canonical form starts with the
  amendment is allowed whatever the heuristics say, and installing the amendment twice is
  installing it once.\<close>

lemma amendment_allows:
  assumes "literal_allows p" "a \<noteq> []" "canonicalize_command cmd = a @ rest"
    and "\<not> applies_some p (a @ rest) PdForbidden" "\<not> applies_some p (a @ rest) PdPrompt"
  shows "check_amended p (Some a) cmd h = EpAllowed \<and> amend (amend p a) a = amend p a"
proof
  have al: "applies_some (amend p a) (a @ rest) PdAllow"
    using amended_rule_present [OF assms(1,2)] by (auto simp: applies_some_def)
  then have "policy_matches (amend p a) (a @ rest) \<noteq> []" using applies_cases by blast
  with assms show "check_amended p (Some a) cmd h = EpAllowed"
    by (simp add: check_amended_def Let_def check_canonical_unforbidden applies_amend)
  have "a \<in> set (allowed_prefixes (amend p a))"
  proof (cases "a \<in> set (allowed_prefixes p)")
    case True
    then show ?thesis by (auto simp: amend_def list_ex_iff)
  next
    case False
    obtain f t where "a = f # t" using assms(2) by (cases a) auto
    with False show ?thesis
      by (auto simp: amend_def list_ex_iff allow_prefix_def push_rule_def allowed_prefixes_def
          prefix_tokens_def comp_def)
  qed
  then show "amend (amend p a) a = amend p a"
    using assms(2) unfolding amend_def [of "amend p a"] by (auto simp: list_ex_iff)
qed

text \<open>Unwrapping a shell wrapper is conservative and exact. If canonicalization changes a
  command, it was a recognised shell with \<open>-c\<close> or \<open>-lc\<close> and one script free of every shell
  metacharacter, and the result is that script's words, none of them empty; conversely, the
  wrapper around any words without white space and metacharacters is unwrapped to those words.\<close>

lemma canonicalize_conservative:
  "(canonicalize_command cmd \<noteq> cmd \<longrightarrow>
      (\<exists>sh flag script. cmd = [sh, flag, script]
         \<and> base_name sh \<in> {''sh'', ''bash'', ''zsh'', ''dash''} \<and> flag \<in> {''-c'', ''-lc''}
         \<and> set script \<inter> set shell_metachars = {}
         \<and> canonicalize_command cmd = split_whitespace script
         \<and> canonicalize_command cmd \<noteq> [] \<and> [] \<notin> set (canonicalize_command cmd)))
   \<and> (words \<noteq> [] \<longrightarrow>
      (\<forall>w\<in>set words. w \<noteq> [] \<and> (\<forall>c\<in>set w. \<not> is_ws c \<and> c \<notin> set shell_metachars)) \<longrightarrow>
      canonicalize_command [''bash'', ''-lc'', join_with '' '' words] = words)"
proof (intro conjI impI)
  assume "canonicalize_command cmd \<noteq> cmd"
  then obtain inner where u: "unwrap_shell_lc cmd = Some inner"
    by (auto simp: canonicalize_command_def split: option.splits)
  then obtain sh flag script where "cmd = [sh, flag, script]"
    by (auto simp: unwrap_shell_lc_def length_Suc_conv eval_nat_numeral split: if_splits)
  moreover from this u have "base_name sh \<in> {''sh'', ''bash'', ''zsh'', ''dash''}"
    "flag \<in> {''-c'', ''-lc''}" "set script \<inter> set shell_metachars = {}"
    "inner = split_whitespace script" "inner \<noteq> []"
    by (auto simp: unwrap_shell_lc_def tokenize_plain_script_def list_ex_iff Let_def
        split: if_splits)
  ultimately show "\<exists>sh flag script. cmd = [sh, flag, script]
         \<and> base_name sh \<in> {''sh'', ''bash'', ''zsh'', ''dash''} \<and> flag \<in> {''-c'', ''-lc''}
         \<and> set script \<inter> set shell_metachars = {}
         \<and> canonicalize_command cmd = split_whitespace script
         \<and> canonicalize_command cmd \<noteq> [] \<and> [] \<notin> set (canonicalize_command cmd)"
    using u split_whitespace_nonempty [of "[]" "[]"]
    by (auto simp: canonicalize_command_def split_whitespace_def)
next
  assume ne: "words \<noteq> []"
    and ws: "\<forall>w\<in>set words. w \<noteq> [] \<and> (\<forall>c\<in>set w. \<not> is_ws c \<and> c \<notin> set shell_metachars)"
  have sub: "c \<in> set (join_with '' '' ws) \<Longrightarrow> c = CHR '' '' \<or> (\<exists>w\<in>set ws. c \<in> set w)" for c ws
  proof (induction ws)
    case (Cons x xs)
    then show ?case by (cases xs) auto
  qed simp
  have "CHR '' '' \<notin> set shell_metachars" by (simp add: shell_metachars_def)
  then have "\<not> list_ex (\<lambda>c. c \<in> set shell_metachars) (join_with '' '' words)"
    using sub ws by (auto simp: list_ex_iff)
  moreover have "split_whitespace (join_with '' '' words) = words"
    using ws by (intro split_whitespace_join) auto
  ultimately show "canonicalize_command [''bash'', ''-lc'', join_with '' '' words] = words"
    using ne by (simp add: canonicalize_command_def unwrap_shell_lc_def tokenize_plain_script_def
        base_name_def)
qed

section \<open>Witnesses\<close>

definition demo_policy :: policy where
  "demo_policy = [\<lparr> pr_first = ''git'', pr_rest = [PtAlts [''push'', ''reset'']],
                    pr_decision = PdForbidden, pr_justification = None \<rparr>]"

lemma demo_forbidden: "applies_some demo_policy [''git'', ''push'', ''-f''] PdForbidden"
proof -
  have "rule_applies (hd demo_policy) [''git'', ''push'', ''-f'']"
    unfolding rule_applies_def demo_policy_def
    by (rule exI [of _ "[''push'']"], rule exI [of _ "[''-f'']"]) simp
  then show ?thesis by (auto simp: applies_some_def demo_policy_def)
qed

lemma canonical_plain: "length cmd \<noteq> 3 \<Longrightarrow> canonicalize_command cmd = cmd"
  by (simp add: canonicalize_command_def unwrap_shell_lc_def)

lemma canonical_other: "base_name (hd cmd) \<notin> {''sh'', ''bash'', ''zsh'', ''dash''} \<Longrightarrow> cmd \<noteq> [] \<Longrightarrow>
  canonicalize_command cmd = cmd"
  by (auto simp: canonicalize_command_def unwrap_shell_lc_def hd_conv_nth)

lemma amendments_keep_forbidden_witness:
  "\<exists>reason. policy_check demo_policy [''git'', ''push'', ''-f''] (\<lambda>_. PdAllow) = EpForbidden reason"
proof -
  have "canonicalize_command [''git'', ''push'', ''-f''] = [''git'', ''push'', ''-f'']"
    by (rule canonical_other) (simp_all add: base_name_def)
  with demo_forbidden
  have "applies_some demo_policy (canonicalize_command [''git'', ''push'', ''-f'']) PdForbidden" by simp
  from amendments_keep_forbidden [OF this, of "[[''git'']]" "\<lambda>_. PdAllow" "\<lambda>_. PdAllow"]
  show ?thesis by simp
qed

lemma amendment_allows_witness:
  "check_amended demo_policy (Some [''ls'']) [''ls'', ''-l''] (\<lambda>_. PdForbidden) = EpAllowed"
proof -
  have "canonicalize_command [''ls'', ''-l''] = [''ls''] @ [''-l'']" by (simp add: canonical_plain)
  then show ?thesis
    using amendment_allows [of demo_policy "[''ls'']" "[''ls'', ''-l'']" "[''-l'']" "\<lambda>_. PdForbidden"]
    by (simp add: literal_allows_def applies_some_def demo_policy_def rule_applies_def)
qed

lemma canonicalize_conservative_witness:
  "canonicalize_command [''bash'', ''-lc'', ''ls -l''] = [''ls'', ''-l'']"
proof -
  have "\<forall>w\<in>set [''ls'', ''-l'']. w \<noteq> [] \<and> (\<forall>c\<in>set w. \<not> is_ws c \<and> c \<notin> set shell_metachars)"
    by (simp add: is_ws_def code_point_def shell_metachars_def)
  with canonicalize_conservative [where words = "[''ls'', ''-l'']" and cmd = "[''ls'']"]
  have "canonicalize_command [''bash'', ''-lc'', join_with '' '' [''ls'', ''-l'']] = [''ls'', ''-l'']"
    by blast
  then show ?thesis by simp
qed

end
