(* ===== verification/Guardian.thy ===== *)
theory Guardian
  imports Orchestrator Execpolicy
begin

text \<open>
  The guardian (\<open>guardian/\<close>): the circuit breaker around the reviewer (circuit.rs), the review
  with its session cache (mod.rs, reviewer.rs) and the approver that puts the exec policy and
  the escalation in front of it (approval.rs). Instants are milliseconds as natural numbers and
  \<open>duration\_since\<close> is truncated subtraction; the two clock reads of a review are the
  arguments \<open>now\<close> and \<open>later\<close>. \<open>asked\<close> logs the requests the reviewer was asked.
\<close>

section \<open>The circuit breaker\<close>

definition failure_threshold :: nat where "failure_threshold = 3"
definition breaker_cooldown :: nat where "breaker_cooldown = 30000"

datatype circuit_state = CsClosed | CsOpen | CsHalfOpen

record circuit_breaker =
  cb_threshold :: nat
  cb_cooldown :: nat
  consecutive_failures :: nat
  opened_at :: "nat option"
  trial_outstanding :: bool

definition breaker_with_config :: "nat \<Rightarrow> nat \<Rightarrow> circuit_breaker" where
  "breaker_with_config thr cool = \<lparr> cb_threshold = thr, cb_cooldown = cool,
     consecutive_failures = 0, opened_at = None, trial_outstanding = False \<rparr>"

definition breaker_new :: circuit_breaker where
  "breaker_new = breaker_with_config failure_threshold breaker_cooldown"

definition state_at :: "circuit_breaker \<Rightarrow> nat \<Rightarrow> circuit_state" where
  "state_at c now =
     (case opened_at c of
        None \<Rightarrow> CsClosed
      | Some opened \<Rightarrow> if now - opened \<ge> cb_cooldown c then CsHalfOpen else CsOpen)"

definition allows_call_at :: "circuit_breaker \<Rightarrow> nat \<Rightarrow> bool \<times> circuit_breaker" where
  "allows_call_at c now =
     (case state_at c now of
        CsClosed \<Rightarrow> (True, c)
      | CsOpen \<Rightarrow> (False, c)
      | CsHalfOpen \<Rightarrow> if trial_outstanding c then (False, c)
                      else (True, c\<lparr> trial_outstanding := True \<rparr>))"

definition record_success :: "circuit_breaker \<Rightarrow> circuit_breaker" where
  "record_success c = c\<lparr> consecutive_failures := 0, opened_at := None, trial_outstanding := False \<rparr>"

text \<open>\<open>saturating\_add\<close> on the \<open>u32\<close> counter.\<close>

definition sat_inc32 :: "nat \<Rightarrow> nat" where
  "sat_inc32 n = (if n < 4294967295 then Suc n else n)"

definition record_failure_at :: "circuit_breaker \<Rightarrow> nat \<Rightarrow> circuit_breaker" where
  "record_failure_at c0 now =
     (let c = c0\<lparr> trial_outstanding := False \<rparr> in
      case state_at c now of
        CsHalfOpen \<Rightarrow> c\<lparr> opened_at := Some now \<rparr>
      | CsOpen \<Rightarrow> c\<lparr> opened_at := Some now \<rparr>
      | CsClosed \<Rightarrow>
          (let c1 = c\<lparr> consecutive_failures := sat_inc32 (consecutive_failures c) \<rparr>
           in if consecutive_failures c1 \<ge> cb_threshold c1 then c1\<lparr> opened_at := Some now \<rparr> else c1))"

section \<open>Requests, verdicts and the session cache\<close>

record guardian_request =
  gr_tool_name :: string
  gr_arguments :: string
  gr_context :: string

definition guardian_request_new :: "string \<Rightarrow> string \<Rightarrow> guardian_request" where
  "guardian_request_new tool args = \<lparr> gr_tool_name = tool, gr_arguments = args, gr_context = [] \<rparr>"

definition with_context :: "guardian_request \<Rightarrow> string \<Rightarrow> guardian_request" where
  "with_context r c = r\<lparr> gr_context := c \<rparr>"

definition cache_key :: "guardian_request \<Rightarrow> string" where
  "cache_key r = gr_tool_name r @ [CHR 0x00] @ gr_arguments r"

datatype guardian_verdict = VAllow | VDeny string | VEscalate string

datatype reviewer_error = ReviewerTimeout | ReviewerFailed string

definition reviewer_error_text :: "reviewer_error \<Rightarrow> string" where
  "reviewer_error_text e =
     (case e of
        ReviewerTimeout \<Rightarrow> ''guardian reviewer timed out''
      | ReviewerFailed m \<Rightarrow> ''guardian reviewer failed: '' @ m)"

datatype guarded_decision = GdAllow | GdAllowForSession | GdDeny string | GdEscalate string

definition is_session_cacheable :: "guarded_decision \<Rightarrow> bool" where
  "is_session_cacheable d \<longleftrightarrow> d = GdAllowForSession"

type_synonym decision_cache = "string \<rightharpoonup> guarded_decision"

definition cache_get :: "decision_cache \<Rightarrow> string \<Rightarrow> guarded_decision option" where
  "cache_get c k = c k"

definition cache_put :: "decision_cache \<Rightarrow> string \<Rightarrow> guarded_decision \<Rightarrow> decision_cache" where
  "cache_put c k d = (if is_session_cacheable d then c(k \<mapsto> d) else c)"

interpretation decision_store: keyed_store cache_get cache_put is_session_cacheable
  by unfold_locales (auto simp: cache_get_def cache_put_def)

section \<open>The guardian\<close>

type_synonym 'w reviewer = "guardian_request \<Rightarrow> 'w \<Rightarrow> (reviewer_error + guardian_verdict) \<times> 'w"

definition static_reviewer :: "guardian_verdict \<Rightarrow> 'w reviewer" where
  "static_reviewer v req w = (Inr v, w)"

record 'w guardian =
  gd_circuit :: circuit_breaker
  gd_cache :: decision_cache
  gd_world :: 'w
  asked :: "guardian_request list"

definition circuit_open_reason :: string where
  "circuit_open_reason = ''guardian circuit open: reviewer unavailable, failing closed''"

text \<open>Steps 1 and 2 of a review: \<open>Some\<close> is the decision taken without the reviewer.\<close>

definition review_gate :: "nat \<Rightarrow> guardian_request \<Rightarrow> 'w guardian \<Rightarrow> guarded_decision option \<times> 'w guardian" where
  "review_gate now req g =
     (if (case cache_get (gd_cache g) (cache_key req) of
            Some d \<Rightarrow> is_session_cacheable d | None \<Rightarrow> False)
      then (Some GdAllow, g)
      else (let (permitted, cb) = allows_call_at (gd_circuit g) now;
                g1 = g\<lparr> gd_circuit := cb \<rparr>
            in if \<not> permitted then (Some (GdDeny circuit_open_reason), g1) else (None, g1)))"

text \<open>Step 3: what becomes of the reviewer's answer.\<close>

definition review_finish ::
    "nat \<Rightarrow> reviewer_error + guardian_verdict \<Rightarrow> 'w guardian \<Rightarrow> guarded_decision \<times> 'w guardian" where
  "review_finish later answer g =
     (case answer of
        Inr VAllow \<Rightarrow> (GdAllow, g\<lparr> gd_circuit := record_success (gd_circuit g) \<rparr>)
      | Inr (VDeny r) \<Rightarrow> (GdDeny r, g\<lparr> gd_circuit := record_success (gd_circuit g) \<rparr>)
      | Inr (VEscalate r) \<Rightarrow> (GdEscalate r, g\<lparr> gd_circuit := record_success (gd_circuit g) \<rparr>)
      | Inl e \<Rightarrow> (GdDeny (''guardian reviewer error: '' @ reviewer_error_text e),
                  g\<lparr> gd_circuit := record_failure_at (gd_circuit g) later \<rparr>))"

definition guardian_review ::
    "'w reviewer \<Rightarrow> nat \<Rightarrow> nat \<Rightarrow> guardian_request \<Rightarrow> 'w guardian \<Rightarrow> guarded_decision \<times> 'w guardian" where
  "guardian_review reviewer now later req g =
     (case review_gate now req g of
        (Some d, g1) \<Rightarrow> (d, g1)
      | (None, g1) \<Rightarrow>
          (let (answer, w) = reviewer req (gd_world g1)
           in review_finish later answer (g1\<lparr> gd_world := w, asked := asked g1 @ [req] \<rparr>)))"

definition remember_session_approval :: "guardian_request \<Rightarrow> 'w guardian \<Rightarrow> 'w guardian" where
  "remember_session_approval req g =
     g\<lparr> gd_cache := cache_put (gd_cache g) (cache_key req) GdAllowForSession \<rparr>"

section \<open>The approver\<close>

datatype escalation_resolver = FailClosed | HumanApproved

definition resolve_escalation :: "escalation_resolver \<Rightarrow> review_decision" where
  "resolve_escalation r = (case r of FailClosed \<Rightarrow> Denied | HumanApproved \<Rightarrow> Approved)"

record guardian_approver =
  escalation :: escalation_resolver
  policy_override :: "exec_policy_decision option"

text \<open>The orchestrator's payload: its reason is always \<open>None\<close> (\<open>ToolOrchestrator::review\<close>).\<close>

definition request_of_payload :: "tool_ctx \<Rightarrow> string option \<Rightarrow> guardian_request" where
  "request_of_payload ctx reason =
     with_context (guardian_request_new (tool_name ctx) (case reason of Some r \<Rightarrow> r | None \<Rightarrow> []))
       (call_id ctx)"

definition approver_review ::
    "guardian_approver \<Rightarrow> 'w reviewer \<Rightarrow> nat \<Rightarrow> nat \<Rightarrow> string option \<Rightarrow> tool_ctx \<Rightarrow> 'w guardian
     \<Rightarrow> review_decision \<times> 'w guardian" where
  "approver_review ga reviewer now later reason ctx g =
     (let req = request_of_payload ctx reason;
          has_session_approval =
            (case cache_get (gd_cache g) (cache_key req) of
               Some d \<Rightarrow> d = GdAllowForSession | None \<Rightarrow> False)
      in if \<not> has_session_approval
            \<and> (case policy_override ga of Some (EpForbidden _) \<Rightarrow> True | _ \<Rightarrow> False)
         then (Denied, g)
         else (case guardian_review reviewer now later req g of
                 (GdAllow, g1) \<Rightarrow> (Approved, g1)
               | (GdAllowForSession, g1) \<Rightarrow> (ApprovedForSession, g1)
               | (GdDeny _, g1) \<Rightarrow> (Denied, g1)
               | (GdEscalate _, g1) \<Rightarrow> (resolve_escalation (escalation ga), g1)))"

definition secured_approver ::
    "guardian_approver \<Rightarrow> 'w reviewer \<Rightarrow> nat \<Rightarrow> nat \<Rightarrow> 'w guardian approver" where
  "secured_approver ga reviewer now later ctx g = approver_review ga reviewer now later None ctx g"

section \<open>Lemmas\<close>

definition session_approved :: "'w guardian \<Rightarrow> guardian_request \<Rightarrow> bool" where
  "session_approved g req \<longleftrightarrow> cache_get (gd_cache g) (cache_key req) = Some GdAllowForSession"

definition circuit_permits :: "'w guardian \<Rightarrow> nat \<Rightarrow> bool" where
  "circuit_permits g now \<longleftrightarrow> fst (allows_call_at (gd_circuit g) now)"

lemma session_case [simp]:
  "(case cache_get c k of Some d \<Rightarrow> is_session_cacheable d | None \<Rightarrow> False)
     \<longleftrightarrow> cache_get c k = Some GdAllowForSession"
  "(case cache_get c k of Some d \<Rightarrow> d = GdAllowForSession | None \<Rightarrow> False)
     \<longleftrightarrow> cache_get c k = Some GdAllowForSession"
  by (auto simp: is_session_cacheable_def split: option.split)

lemma permits_iff:
  "circuit_permits g now \<longleftrightarrow>
     (case opened_at (gd_circuit g) of None \<Rightarrow> True
      | Some o' \<Rightarrow> cb_cooldown (gd_circuit g) \<le> now - o' \<and> \<not> trial_outstanding (gd_circuit g))"
  by (auto simp: circuit_permits_def allows_call_at_def state_at_def split: option.split)

lemma review_cached: "session_approved g req \<Longrightarrow> guardian_review rv now later req g = (GdAllow, g)"
  by (simp add: guardian_review_def review_gate_def session_approved_def is_session_cacheable_def)

lemma review_blocked:
  assumes "\<not> session_approved g req" "\<not> circuit_permits g now"
  shows "guardian_review rv now later req g = (GdDeny circuit_open_reason, g)"
proof -
  have "snd (allows_call_at (gd_circuit g) now) = gd_circuit g"
    using assms(2) by (auto simp: circuit_permits_def allows_call_at_def
        split: circuit_state.split if_splits)
  with assms show ?thesis
    by (auto simp: guardian_review_def review_gate_def session_approved_def circuit_permits_def
        split: prod.splits)
qed

definition taken_circuit :: "'w guardian \<Rightarrow> nat \<Rightarrow> circuit_breaker" where
  "taken_circuit g now = snd (allows_call_at (gd_circuit g) now)"

lemma review_asks:
  assumes "\<not> session_approved g req" "circuit_permits g now" "rv req (gd_world g) = (ans, w)"
  shows "guardian_review rv now later req g =
    review_finish later ans
      (g\<lparr> gd_circuit := taken_circuit g now, gd_world := w, asked := asked g @ [req] \<rparr>)"
  using assms by (auto simp: guardian_review_def review_gate_def session_approved_def
      circuit_permits_def taken_circuit_def split: prod.splits)

lemma review_finish_allow:
  "fst (review_finish later ans g) = GdAllow \<longleftrightarrow> ans = Inr VAllow"
  "fst (review_finish later ans g) \<noteq> GdAllowForSession"
  by (auto simp: review_finish_def split: sum.split guardian_verdict.split)

lemma review_finish_asked [simp]:
  "asked (snd (review_finish later ans g)) = asked g"
  "gd_cache (snd (review_finish later ans g)) = gd_cache g"
  by (auto simp: review_finish_def split: sum.split guardian_verdict.split)

lemma guardian_review_cases:
  obtains (cached) "session_approved g req" "guardian_review rv now later req g = (GdAllow, g)"
    | (blocked) "\<not> session_approved g req" "\<not> circuit_permits g now"
      "guardian_review rv now later req g = (GdDeny circuit_open_reason, g)"
    | (asks) ans w where "\<not> session_approved g req" "circuit_permits g now"
      "rv req (gd_world g) = (ans, w)"
      "guardian_review rv now later req g = review_finish later ans
        (g\<lparr> gd_circuit := taken_circuit g now, gd_world := w, asked := asked g @ [req] \<rparr>)"
  using review_cached [of g req rv now later] review_blocked [of g req now rv later]
    review_asks [of g req now rv _ _ later] by (metis surj_pair)

section \<open>A reviewer that keeps failing\<close>

fun guardian_run ::
    "'w reviewer \<Rightarrow> 'w guardian \<Rightarrow> (nat \<times> nat \<times> guardian_request) list \<Rightarrow> 'w guardian" where
  "guardian_run rv g [] = g"
| "guardian_run rv g ((now, later, req) # cs) =
     guardian_run rv (snd (guardian_review rv now later req g)) cs"

text \<open>Calls in the order of their clock reads, within the span from \<open>t\<close> to \<open>u\<close>.\<close>

fun calls_within :: "nat \<Rightarrow> nat \<Rightarrow> (nat \<times> nat \<times> guardian_request) list \<Rightarrow> bool" where
  "calls_within t u [] = (t \<le> u)"
| "calls_within t u ((now, later, req) # cs) = (t \<le> now \<and> now \<le> later \<and> calls_within later u cs)"

definition always_fails :: "'w reviewer \<Rightarrow> bool" where
  "always_fails rv \<longleftrightarrow> (\<forall>req w. isl (fst (rv req w)))"

definition rate_inv :: "nat \<Rightarrow> nat \<Rightarrow> nat \<Rightarrow> nat \<Rightarrow> 'w guardian \<Rightarrow> bool" where
  "rate_inv k c t0 t g \<longleftrightarrow>
     cb_threshold (gd_circuit g) = k \<and> cb_cooldown (gd_circuit g) = c
     \<and> \<not> trial_outstanding (gd_circuit g)
     \<and> (case opened_at (gd_circuit g) of
          None \<Rightarrow> length (asked g) = consecutive_failures (gd_circuit g) \<and> length (asked g) < k
        | Some opened \<Rightarrow> t0 \<le> opened \<and> opened \<le> t \<and> k \<le> length (asked g)
            \<and> (length (asked g) - k) * c \<le> opened - t0)"

lemma rate_inv_later: "rate_inv k c t0 t g \<Longrightarrow> t \<le> u \<Longrightarrow> rate_inv k c t0 u g"
  by (auto simp: rate_inv_def split: option.splits)

lemma rate_inv_failure:
  assumes inv: "rate_inv k c t0 t g" and small: "k \<le> 4294967295"
    and t: "t0 \<le> t" "t \<le> now" "now \<le> later" and perm: "circuit_permits g now"
  shows "rate_inv k c t0 later (snd (review_finish later (Inl e)
           (g\<lparr> gd_circuit := taken_circuit g now, gd_world := w, asked := asked g @ [req] \<rparr>)))"
proof (cases "opened_at (gd_circuit g)")
  case None
  with inv small t show ?thesis
    by (auto simp: rate_inv_def review_finish_def record_failure_at_def taken_circuit_def
        allows_call_at_def state_at_def sat_inc32_def Let_def)
next
  case (Some opened)
  have "(length (asked g) - k) * c \<le> opened - t0" "k \<le> length (asked g)" "t0 \<le> opened" "opened \<le> t"
    and c: "cb_cooldown (gd_circuit g) = c"
    using inv Some by (auto simp: rate_inv_def)
  moreover have "c \<le> now - opened" using perm Some c by (simp add: permits_iff)
  ultimately have "(Suc (length (asked g)) - k) * c \<le> later - t0"
    using t by (simp add: Suc_diff_le)
  with inv Some t \<open>c \<le> now - opened\<close> show ?thesis
    by (auto simp: rate_inv_def review_finish_def record_failure_at_def taken_circuit_def
        allows_call_at_def state_at_def Let_def)
qed

lemma rate_inv_review:
  assumes "rate_inv k c t0 t g" "k \<le> 4294967295" "t0 \<le> t" "t \<le> now" "now \<le> later" "always_fails rv"
  shows "rate_inv k c t0 later (snd (guardian_review rv now later req g))"
proof (cases rule: guardian_review_cases [of g req rv now later])
  case cached
  with assms rate_inv_later [of k c t0 t g later] show ?thesis by simp
next
  case blocked
  with assms rate_inv_later [of k c t0 t g later] show ?thesis by simp
next
  case (asks ans w)
  then obtain e where "ans = Inl e"
    using assms(6) by (metis always_fails_def fst_conv isl_def)
  with asks assms show ?thesis by (simp add: rate_inv_failure)
qed

lemma rate_inv_run:
  "rate_inv k c t0 t g \<Longrightarrow> k \<le> 4294967295 \<Longrightarrow> t0 \<le> t \<Longrightarrow> calls_within t u cs \<Longrightarrow> always_fails rv \<Longrightarrow>
   rate_inv k c t0 u (guardian_run rv g cs)"
proof (induction rv g cs arbitrary: t rule: guardian_run.induct)
  case (1 rv g)
  then show ?case using rate_inv_later by simp
next
  case (2 rv g now later req cs)
  have "rate_inv k c t0 later (snd (guardian_review rv now later req g))"
    using 2 by (intro rate_inv_review) auto
  moreover have "t0 \<le> later" "calls_within later u cs" using 2 by auto
  ultimately show ?case using 2 by simp
qed

lemma rate_inv_bound:
  assumes "rate_inv k c t0 u g" "0 < c"
  shows "length (asked g) \<le> k + (u - t0) div c"
proof (cases "opened_at (gd_circuit g)")
  case None
  with assms show ?thesis by (simp add: rate_inv_def)
next
  case (Some opened)
  with assms(1) have "(length (asked g) - k) * c \<le> u - t0" by (auto simp: rate_inv_def)
  with assms(2) have "length (asked g) - k \<le> (u - t0) div c"
    by (simp add: less_eq_div_iff_mult_less_eq)
  then show ?thesis by simp
qed

section \<open>Properties\<close>

text \<open>C8. The guardian fails closed: a review answers \<open>Allow\<close> exactly when the request is
  approved for the session, or the circuit permits a call and the reviewer itself answers
  \<open>Allow\<close>; it never answers \<open>AllowForSession\<close>; and when the circuit does not permit a
  call of a request that is not approved for the session, the answer is a denial and the
  reviewer is not asked.\<close>

theorem guardian_fails_closed:
  "(fst (guardian_review rv now later req g) = GdAllow \<longleftrightarrow>
      session_approved g req \<or> (circuit_permits g now \<and> fst (rv req (gd_world g)) = Inr VAllow))
   \<and> fst (guardian_review rv now later req g) \<noteq> GdAllowForSession
   \<and> (\<not> session_approved g req \<longrightarrow> \<not> circuit_permits g now \<longrightarrow>
        guardian_review rv now later req g = (GdDeny circuit_open_reason, g))"
proof (cases rule: guardian_review_cases [of g req rv now later])
  case (asks ans w)
  then show ?thesis by (simp add: review_finish_allow)
qed auto

text \<open>The breaker limits the load on a broken reviewer: however many calls a guardian with a
  fresh breaker gets, a reviewer that fails every time is asked at most as often as the
  threshold plus one trial for every full cooldown of the elapsed time.\<close>

lemma broken_reviewer_rate_limited:
  assumes "gd_circuit g = breaker_with_config k c" "asked g = []"
    and "0 < k" "k \<le> 4294967295" "0 < c" "always_fails rv" "calls_within t0 t1 calls"
  shows "length (asked (guardian_run rv g calls)) \<le> k + (t1 - t0) div c"
proof -
  have "rate_inv k c t0 t0 g" using assms by (simp add: rate_inv_def breaker_with_config_def)
  from rate_inv_run [OF this assms(4) _ assms(7) assms(6)] show ?thesis
    using assms(5) by (simp add: rate_inv_bound)
qed

text \<open>A half-open trial that never reports back blocks the guardian for good: if a review is
  dropped while it awaits the reviewer after the cooldown (it took the trial and neither a
  success nor a failure is recorded), then every later request that is not approved for the
  session is denied without asking the reviewer, however much time passes.\<close>

lemma abandoned_trial_blocks_forever:
  assumes "opened_at (gd_circuit g) = Some opened" "cb_cooldown (gd_circuit g) \<le> now - opened"
    and "\<not> session_approved g req" "review_gate now req g = (None, g1)"
    and "\<forall>(n, l, r)\<in>set calls. \<not> session_approved g r"
  shows "guardian_run rv g1 calls = g1
         \<and> (\<forall>(n, l, r)\<in>set calls. guardian_review rv n l r g1 = (GdDeny circuit_open_reason, g1))"
proof -
  have g1: "opened_at (gd_circuit g1) = Some opened" "trial_outstanding (gd_circuit g1)"
    "gd_cache g1 = gd_cache g"
    using assms(1-4) by (auto simp: review_gate_def session_approved_def allows_call_at_def
        state_at_def split: if_splits prod.splits)
  then have blocked: "\<not> session_approved g r \<Longrightarrow> guardian_review rv n l r g1 = (GdDeny circuit_open_reason, g1)"
    for n l r by (intro review_blocked) (auto simp: session_approved_def permits_iff)
  have "guardian_run rv g1 calls = g1" using assms(5)
    by (induction calls) (auto simp: blocked)
  with assms(5) blocked show ?thesis by blast
qed

text \<open>The approver: without a session approval, a deterministic \<open>Forbidden\<close> of the exec policy
  denies without asking the reviewer and changes nothing; and whenever the approver approves,
  the request was approved for the session, or the policy does not forbid it, the circuit
  permitted a call, and the reviewer allowed it or a human approved its escalation.\<close>

lemma approver_fails_closed:
  assumes "req = request_of_payload ctx reason"
  shows "(\<not> session_approved g req \<longrightarrow> policy_override ga = Some (EpForbidden m) \<longrightarrow>
            approver_review ga rv now later reason ctx g = (Denied, g))
         \<and> (is_approved (fst (approver_review ga rv now later reason ctx g)) \<longrightarrow>
            session_approved g req
            \<or> ((\<forall>m. policy_override ga \<noteq> Some (EpForbidden m)) \<and> circuit_permits g now
               \<and> (fst (rv req (gd_world g)) = Inr VAllow
                  \<or> (escalation ga = HumanApproved
                      \<and> (\<exists>r. fst (rv req (gd_world g)) = Inr (VEscalate r))))))"
proof (intro conjI impI)
  assume "\<not> session_approved g req" "policy_override ga = Some (EpForbidden m)"
  then show "approver_review ga rv now later reason ctx g = (Denied, g)"
    by (simp add: approver_review_def session_approved_def assms)
next
  assume ok: "is_approved (fst (approver_review ga rv now later reason ctx g))"
  show "session_approved g req
            \<or> ((\<forall>m. policy_override ga \<noteq> Some (EpForbidden m)) \<and> circuit_permits g now
               \<and> (fst (rv req (gd_world g)) = Inr VAllow
                  \<or> (escalation ga = HumanApproved
                      \<and> (\<exists>r. fst (rv req (gd_world g)) = Inr (VEscalate r)))))"
  proof (cases "session_approved g req")
    case False
    with ok have nf: "\<forall>m. policy_override ga \<noteq> Some (EpForbidden m)"
      by (auto simp: approver_review_def session_approved_def assms)
    then have nf': "\<not> (case policy_override ga of Some (EpForbidden _) \<Rightarrow> True | _ \<Rightarrow> False)"
      by (auto split: option.splits exec_policy_decision.splits)
    from ok nf' have rev: "is_approved (fst (case guardian_review rv now later req g of
        (GdAllow, g1) \<Rightarrow> (Approved, g1) | (GdAllowForSession, g1) \<Rightarrow> (ApprovedForSession, g1)
      | (GdDeny _, g1) \<Rightarrow> (Denied, g1) | (GdEscalate _, g1) \<Rightarrow> (resolve_escalation (escalation ga), g1)))"
      by (simp add: approver_review_def assms)
    show ?thesis
    proof (cases rule: guardian_review_cases [of g req rv now later])
      case blocked
      with rev show ?thesis by simp
    next
      case (asks ans w)
      with rev nf False show ?thesis
        by (auto simp: review_finish_def resolve_escalation_def split: sum.splits
            guardian_verdict.splits escalation_resolver.splits)
    qed (use False in simp)
  qed simp
qed

text \<open>A session approval covers a tool, not a call: the orchestrator's payload carries no
  reason, so the cache key of a call is the tool's name alone. Once one call of a tool is
  approved for the session, every later call of that tool, with any arguments and any call id, is
  approved without asking the reviewer, even when the exec policy forbids it.\<close>

lemma session_approval_covers_tool:
  assumes "tool_name ctx2 = tool_name ctx1"
  shows "secured_approver ga rv now later ctx2
           (remember_session_approval (request_of_payload ctx1 None) g)
         = (Approved, remember_session_approval (request_of_payload ctx1 None) g)"
proof -
  let ?g = "remember_session_approval (request_of_payload ctx1 None) g"
  have "cache_key (request_of_payload ctx2 None) = cache_key (request_of_payload ctx1 None)"
    using assms by (simp add: request_of_payload_def guardian_request_new_def with_context_def
        cache_key_def)
  then have s: "session_approved ?g (request_of_payload ctx2 None)"
    by (simp add: session_approved_def remember_session_approval_def
        decision_store.lookup_same is_session_cacheable_def)
  from review_cached [OF s, of rv now later] s show ?thesis
    by (simp add: secured_approver_def approver_review_def session_approved_def)
qed

section \<open>Witnesses\<close>

definition timeout_reviewer :: "unit reviewer" where
  "timeout_reviewer req w = (Inl ReviewerTimeout, w)"

definition demo_guardian :: "unit guardian" where
  "demo_guardian = \<lparr> gd_circuit = breaker_with_config 1 10, gd_cache = Map.empty,
                      gd_world = (), asked = [] \<rparr>"

definition tripped_guardian :: "unit guardian" where
  "tripped_guardian = demo_guardian\<lparr> gd_circuit :=
     (breaker_with_config 1 10)\<lparr> consecutive_failures := 1, opened_at := Some 5 \<rparr> \<rparr>"

definition demo_request :: guardian_request where
  "demo_request = guardian_request_new ''shell'' ''ls''"

lemmas demo_guardian_simps = demo_guardian_def tripped_guardian_def demo_request_def
  guardian_request_new_def breaker_with_config_def session_approved_def cache_get_def

lemma guardian_fails_closed_witness:
  "guardian_review timeout_reviewer 6 7 demo_request tripped_guardian
     = (GdDeny circuit_open_reason, tripped_guardian)"
proof -
  have "\<not> session_approved tripped_guardian demo_request" "\<not> circuit_permits tripped_guardian 6"
    by (simp_all add: demo_guardian_simps permits_iff)
  with guardian_fails_closed [where rv = timeout_reviewer and now = 6 and later = 7
      and req = demo_request and g = tripped_guardian]
  show ?thesis by blast
qed

lemma broken_reviewer_rate_limited_witness:
  "length (asked (guardian_run timeout_reviewer demo_guardian
     [(0, 1, demo_request), (2, 2, demo_request), (11, 12, demo_request)])) \<le> 1 + (20 - 0) div 10"
  by (rule broken_reviewer_rate_limited)
     (simp_all add: demo_guardian_def always_fails_def timeout_reviewer_def)

lemma abandoned_trial_blocks_forever_witness:
  "\<exists>g1. review_gate 15 demo_request tripped_guardian = (None, g1)
        \<and> guardian_run timeout_reviewer g1 [(1000, 1001, demo_request)] = g1"
proof -
  have ns: "\<not> session_approved tripped_guardian demo_request" by (simp add: demo_guardian_simps)
  obtain g1 where g1: "review_gate 15 demo_request tripped_guardian = (None, g1)"
    by (simp add: review_gate_def demo_guardian_simps allows_call_at_def state_at_def)
  have "guardian_run timeout_reviewer g1 [(1000, 1001, demo_request)] = g1"
    using abandoned_trial_blocks_forever [of tripped_guardian 5 15 demo_request g1
        "[(1000, 1001, demo_request)]" timeout_reviewer] ns g1
    by (simp add: tripped_guardian_def breaker_with_config_def)
  with g1 show ?thesis by blast
qed

lemma approver_fails_closed_witness:
  "fst (approver_review \<lparr> escalation = FailClosed, policy_override = Some (EpForbidden ''no'') \<rparr>
     (static_reviewer VAllow) 0 0 None demo_ctx demo_guardian) = Denied"
  using approver_fails_closed [where req = "request_of_payload demo_ctx None" and ctx = demo_ctx
      and reason = None and ga = "\<lparr> escalation = FailClosed, policy_override = Some (EpForbidden ''no'') \<rparr>"
      and rv = "static_reviewer VAllow" and now = 0 and later = 0 and g = demo_guardian and m = "''no''"]
  by (simp add: demo_guardian_simps)

lemma session_approval_covers_tool_witness:
  "fst (secured_approver \<lparr> escalation = FailClosed, policy_override = Some (EpForbidden ''no'') \<rparr>
     timeout_reviewer 0 0 (demo_ctx\<lparr> call_id := ''c2'' \<rparr>)
     (remember_session_approval (request_of_payload demo_ctx None) demo_guardian)) = Approved"
  by (subst session_approval_covers_tool) (simp_all add: demo_ctx_def)

end
