(* ===== verification/Network.thy ===== *)
theory Network
  imports Prelude "HOL-Library.Char_ord" "HOL-Library.List_Lexorder"
begin

text \<open>
  The network policy (\<open>network/\<close>): host normalization and domain patterns (allowlist.rs), the
  permission map of the configuration (config.rs) and the evaluation and resolution of a request
  (approval.rs). The permission map is an association list with one entry per pattern.
\<close>

section \<open>Hosts\<close>

definition normalize_dns_host :: "string \<Rightarrow> string" where
  "normalize_dns_host host = trim_end_matches CHR ''.'' (str_lower host)"

definition normalize_host :: "string \<Rightarrow> string" where
  "normalize_host host0 =
     (let host = str_trim host0;
          plain = (if length (filter (\<lambda>c. c = CHR '':'') host) = 1
                   then normalize_dns_host (hd (split_on CHR '':'' host))
                   else normalize_dns_host host)
      in if starts_with ''['' host
         then (case position (\<lambda>c. c = CHR '']'') host of
                 Some e \<Rightarrow> normalize_dns_host (take (e - 1) (drop 1 host))
               | None \<Rightarrow> plain)
         else plain)"

datatype domain_pattern =
    PatGlobal
  | PatApexAndSubdomains string
  | PatSubdomainsOnly string
  | PatExact string

definition parse_domain_pattern :: "string \<Rightarrow> domain_pattern" where
  "parse_domain_pattern pattern0 =
     (let p = str_trim pattern0 in
      if p = ''*'' then PatGlobal
      else case strip_pre ''**.'' p of
             Some rest \<Rightarrow> PatApexAndSubdomains (normalize_host rest)
           | None \<Rightarrow>
               (case strip_pre ''*.'' p of
                  Some rest \<Rightarrow> PatSubdomainsOnly (normalize_host rest)
                | None \<Rightarrow> PatExact (normalize_host p)))"

definition domain_eq :: "string \<Rightarrow> string \<Rightarrow> bool" where
  "domain_eq host parent \<longleftrightarrow> normalize_host host = normalize_host parent"

definition is_subdomain_or_equal :: "string \<Rightarrow> string \<Rightarrow> bool" where
  "is_subdomain_or_equal child0 parent0 =
     (let child = normalize_host child0; parent = normalize_host parent0
      in child = parent \<or> ends_with (''.'' @ parent) child)"

definition is_strict_subdomain :: "string \<Rightarrow> string \<Rightarrow> bool" where
  "is_strict_subdomain child0 parent0 =
     (let child = normalize_host child0; parent = normalize_host parent0
      in child \<noteq> parent \<and> ends_with (''.'' @ parent) child)"

definition host_matches_pattern :: "string \<Rightarrow> string \<Rightarrow> bool" where
  "host_matches_pattern host pattern =
     (case parse_domain_pattern pattern of
        PatGlobal \<Rightarrow> True
      | PatApexAndSubdomains d \<Rightarrow> is_subdomain_or_equal host d
      | PatSubdomainsOnly d \<Rightarrow> is_strict_subdomain host d
      | PatExact d \<Rightarrow> domain_eq host d)"

definition host_matches_any :: "string \<Rightarrow> string list \<Rightarrow> bool" where
  "host_matches_any host patterns = list_ex (host_matches_pattern host) patterns"

section \<open>Configuration\<close>

datatype domain_permission = PermNone | PermAllow | PermDeny

type_synonym domain_permissions = "(string \<times> domain_permission) list"

definition patterns_with :: "domain_permissions \<Rightarrow> domain_permission \<Rightarrow> string list" where
  "patterns_with entries perm = map fst (filter (\<lambda>(_, p). p = perm) entries)"

datatype network_mode = ModeLimited | ModeFull

definition allows_method :: "network_mode \<Rightarrow> string \<Rightarrow> bool" where
  "allows_method mode verb =
     (case mode of ModeFull \<Rightarrow> True | ModeLimited \<Rightarrow> verb \<in> {''GET'', ''HEAD'', ''OPTIONS''})"

record proxy_settings =
  proxy_enabled :: bool
  proxy_mode :: network_mode
  proxy_domains :: "domain_permissions option"

definition disabled_settings :: proxy_settings where
  "disabled_settings = \<lparr> proxy_enabled = False, proxy_mode = ModeFull, proxy_domains = None \<rparr>"

definition allowed_domains :: "proxy_settings \<Rightarrow> string list" where
  "allowed_domains s = (case proxy_domains s of Some d \<Rightarrow> patterns_with d PermAllow | None \<Rightarrow> [])"

definition denied_domains :: "proxy_settings \<Rightarrow> string list" where
  "denied_domains s = (case proxy_domains s of Some d \<Rightarrow> patterns_with d PermDeny | None \<Rightarrow> [])"

section \<open>Decisions\<close>

datatype network_protocol = Http | HttpsConnect | Socks5Tcp | Socks5Udp

datatype policy_kind = KindDeny | KindAsk

datatype decision_source = BaselinePolicy | ModeGuard | ProxyState | Decider

record policy_request =
  rq_protocol :: network_protocol
  rq_host :: string
  rq_port :: "16 word"
  rq_method :: "string option"

datatype network_decision = NetAllow | NetDeny string decision_source policy_kind

definition reason_denied :: string where "reason_denied = ''denied''"
definition reason_not_allowed :: string where "reason_not_allowed = ''not_allowed''"

datatype approval_response = RespAllow | RespAllowAndRemember | RespDeny

definition evaluate_request :: "proxy_settings \<Rightarrow> policy_request \<Rightarrow> bool \<Rightarrow> network_decision" where
  "evaluate_request config req has_decider =
     (let host = normalize_host (rq_host req) in
      if host_matches_any host (denied_domains config)
      then NetDeny reason_denied BaselinePolicy KindDeny
      else if host_matches_any host (allowed_domains config) then NetAllow
      else if has_decider then NetDeny reason_not_allowed Decider KindAsk
      else NetDeny reason_not_allowed BaselinePolicy KindDeny)"

definition apply_response ::
    "network_decision \<Rightarrow> approval_response \<Rightarrow> string \<Rightarrow> string list \<Rightarrow> network_decision \<times> string list" where
  "apply_response d resp host live =
     (if \<not> (case d of NetDeny _ _ KindAsk \<Rightarrow> True | _ \<Rightarrow> False) then (d, live)
      else (case resp of
              RespAllow \<Rightarrow> (NetAllow, live)
            | RespAllowAndRemember \<Rightarrow>
                (let n = normalize_host host in
                 (NetAllow, if n \<notin> set live then remdups_adj (sort (live @ [n])) else live))
            | RespDeny \<Rightarrow> (NetDeny reason_denied Decider KindDeny, live)))"

definition to_runtime_decision :: "network_decision \<Rightarrow> string \<Rightarrow> string option" where
  "to_runtime_decision d host =
     (case d of NetDeny _ _ KindDeny \<Rightarrow> Some (normalize_host host) | _ \<Rightarrow> None)"

section \<open>Lemmas\<close>

text \<open>Host names as they appear in a policy: lower-case labels separated by dots.\<close>

definition host_char :: "char \<Rightarrow> bool" where
  "host_char c \<longleftrightarrow> is_lower_ascii c \<or> is_digit_ascii c \<or> c = CHR ''-'' \<or> c = CHR ''.''"

definition plain_host :: "string \<Rightarrow> bool" where
  "plain_host h \<longleftrightarrow> h \<noteq> [] \<and> list_all host_char h \<and> last h \<noteq> CHR ''.''"

lemma host_char_facts:
  assumes "host_char c"
  shows "\<not> is_ws c" "c \<noteq> CHR '':''" "c \<noteq> CHR ''[''" "c \<noteq> CHR '']''" "c \<noteq> CHR ''*''" "to_lower_ascii c = c"
proof -
  have n: "code_point c = 45 \<or> code_point c = 46 \<or> (48 \<le> code_point c \<and> code_point c \<le> 57)
      \<or> (97 \<le> code_point c \<and> code_point c \<le> 122)"
    using assms by (auto simp: host_char_def is_lower_ascii_def is_digit_ascii_def Let_def code_point_def)
  then show "\<not> is_ws c" by (auto simp: is_ws_def Let_def)
  show "to_lower_ascii c = c" using n by (auto simp: to_lower_ascii_def is_upper_ascii_def Let_def)
  show "c \<noteq> CHR '':''" "c \<noteq> CHR ''[''" "c \<noteq> CHR '']''" "c \<noteq> CHR ''*''"
    using n by (auto simp: code_point_def)
qed

lemma trim_nows: "s \<noteq> [] \<Longrightarrow> \<not> is_ws (hd s) \<Longrightarrow> \<not> is_ws (last s) \<Longrightarrow> str_trim s = s"
  by (cases s) (auto simp: str_trim_def trim_start_def trim_end_no_trailing)

lemma plain_char: "plain_host h \<Longrightarrow> c \<in> set h \<Longrightarrow> host_char c"
  by (auto simp: plain_host_def list_all_iff)

lemma plain_nonempty: "plain_host h \<Longrightarrow> h \<noteq> []"
  by (auto simp: plain_host_def)

lemma plain_ends:
  assumes "plain_host h"
  shows "\<not> is_ws (hd h)" "\<not> is_ws (last h)"
  using plain_char [OF assms] host_char_facts(1) plain_nonempty [OF assms] by simp_all

lemma plain_trim: "plain_host h \<Longrightarrow> str_trim h = h"
  by (rule trim_nows) (simp_all add: plain_ends plain_nonempty)

lemma lower_plain: "list_all host_char h \<Longrightarrow> str_lower h = h"
  by (induction h) (auto simp: str_lower_def host_char_facts)

lemma trim_end_matches_last: "h = [] \<or> last h \<noteq> c \<Longrightarrow> trim_end_matches c h = h"
  by (cases h rule: rev_cases) (auto simp: trim_end_matches_def)

lemma normalize_dns_plain: "plain_host h \<Longrightarrow> normalize_dns_host h = h"
  by (auto simp: normalize_dns_host_def lower_plain plain_host_def trim_end_matches_last)

lemma plain_no: "plain_host h \<Longrightarrow> CHR '':'' \<notin> set h" "plain_host h \<Longrightarrow> CHR ''['' \<notin> set h"
  "plain_host h \<Longrightarrow> CHR ''*'' \<notin> set h"
  by (metis host_char_facts(2) plain_char, metis host_char_facts(3) plain_char,
      metis host_char_facts(5) plain_char)

lemma not_starts: "c \<notin> set h \<Longrightarrow> \<not> starts_with [c] h"
  by (auto simp: starts_with_iff prefix_def)

lemma filter_absent: "c \<notin> set h \<Longrightarrow> filter (\<lambda>x. x = c) h = []"
  by (auto simp: filter_empty_conv)

lemma normalize_plain [simp]: "plain_host h \<Longrightarrow> normalize_host h = h"
  by (simp add: normalize_host_def Let_def plain_trim not_starts plain_no filter_absent
      normalize_dns_plain)

lemma plain_not_star: "plain_host d \<Longrightarrow> strip_pre (CHR ''*'' # p) d = None"
  using plain_no(3) [of d] by (auto simp: strip_pre_None prefix_def)

lemma plain_last: "plain_host d \<Longrightarrow> d \<noteq> [] \<and> \<not> is_ws (last d)"
  by (simp add: plain_ends plain_nonempty)

lemma parse_wild:
  assumes "plain_host d"
  shows "parse_domain_pattern (''**.'' @ d) = PatApexAndSubdomains d"
    "parse_domain_pattern (''*.'' @ d) = PatSubdomainsOnly d"
    "parse_domain_pattern d = PatExact d"
proof -
  have "str_trim (''**.'' @ d) = ''**.'' @ d" "str_trim (''*.'' @ d) = ''*.'' @ d"
    using plain_last [OF assms] by (auto intro!: trim_nows simp: is_ws_def code_point_def)
  moreover have "d \<noteq> ''*''" using plain_no(3) [OF assms] by auto
  ultimately show "parse_domain_pattern (''**.'' @ d) = PatApexAndSubdomains d"
    "parse_domain_pattern (''*.'' @ d) = PatSubdomainsOnly d"
    "parse_domain_pattern d = PatExact d"
    using assms by (auto simp: parse_domain_pattern_def Let_def plain_trim plain_not_star)
qed

text \<open>Matching at label boundaries.\<close>

abbreviation labels :: "string \<Rightarrow> string list" where
  "labels h \<equiv> split_on CHR ''.'' h"

lemma labels_inj: "labels a = labels b \<longleftrightarrow> a = b"
  by (metis join_split_on)

lemma split_on_append_dot: "split_on c (a @ c # b) = split_on c a @ split_on c b"
proof (induction a)
  case (Cons x a)
  then show ?case by (cases "split_on c a") auto
qed simp

lemma suffix_labels: "suffix (labels d) (labels h) \<longleftrightarrow> h = d \<or> suffix (''.'' @ d) h"
proof
  assume "h = d \<or> suffix (''.'' @ d) h"
  then show "suffix (labels d) (labels h)"
    by (auto simp: suffix_def split_on_append_dot)
next
  assume "suffix (labels d) (labels h)"
  then obtain us where us: "labels h = us @ labels d" by (auto simp: suffix_def)
  show "h = d \<or> suffix (''.'' @ d) h"
  proof (cases "us = []")
    case True
    with us show ?thesis by (simp add: labels_inj)
  next
    case False
    have "h = join_with ''.'' (us @ labels d)" by (metis us join_split_on)
    moreover have "join_with ''.'' (us @ labels d) = join_with ''.'' us @ ''.'' @ d"
      using False by (simp add: join_with_append)
    ultimately show ?thesis by (auto simp: suffix_def)
  qed
qed

section \<open>Properties\<close>

text \<open>What a pattern means, on hosts and domains made of plain labels: \<open>**.d\<close> matches
  exactly the hosts whose labels end with the labels of \<open>d\<close>, \<open>*.d\<close> those with at least
  one label more, \<open>d\<close> only \<open>d\<close> itself and \<open>*\<close> everything; a suffix that is
  not at a label boundary never matches.\<close>

lemma pattern_semantics:
  assumes "plain_host h" "plain_host d"
  shows "(host_matches_pattern h (''**.'' @ d) \<longleftrightarrow> suffix (labels d) (labels h))
         \<and> (host_matches_pattern h (''*.'' @ d) \<longleftrightarrow> strict_suffix (labels d) (labels h))
         \<and> (host_matches_pattern h d \<longleftrightarrow> h = d)
         \<and> host_matches_pattern h ''*''"
proof -
  note pw = parse_wild [OF assms(2), simplified]
  have "host_matches_pattern h (''**.'' @ d) \<longleftrightarrow> suffix (labels d) (labels h)"
    using assms by (simp add: host_matches_pattern_def pw is_subdomain_or_equal_def
        ends_with_iff suffix_labels Let_def)
  moreover have "host_matches_pattern h (''*.'' @ d) \<longleftrightarrow> strict_suffix (labels d) (labels h)"
    unfolding strict_suffix_def suffix_labels labels_inj
    using assms by (auto simp: host_matches_pattern_def pw is_strict_subdomain_def
        ends_with_iff Let_def)
  moreover have "host_matches_pattern h d \<longleftrightarrow> h = d"
    using assms by (simp add: host_matches_pattern_def pw domain_eq_def)
  moreover have "host_matches_pattern h ''*''"
    by (simp add: host_matches_pattern_def parse_domain_pattern_def Let_def trim_nows is_ws_def
        code_point_def)
  ultimately show ?thesis by blast
qed

lemma pattern_semantics_witness:
  "host_matches_pattern ''a.b.com'' ''**.b.com'' \<and> \<not> host_matches_pattern ''xb.com'' ''**.b.com''
   \<and> \<not> host_matches_pattern ''b.com'' ''*.b.com''"
proof -
  have p: "plain_host ''a.b.com''" "plain_host ''xb.com''" "plain_host ''b.com''"
    by (simp_all add: plain_host_def host_char_def is_lower_ascii_def code_point_def)
  show ?thesis
    using pattern_semantics [OF p(1) p(3)] pattern_semantics [OF p(2) p(3)] pattern_semantics [OF p(3) p(3)]
    by (simp add: suffix_def Cons_eq_append_conv)
qed

lemma lower_idem: "to_lower_ascii (to_lower_ascii c) = to_lower_ascii c"
proof -
  have "\<not> is_upper_ascii (to_lower_ascii c)"
  proof (cases "is_upper_ascii c")
    case True
    then have n: "65 \<le> code_point c" "code_point c \<le> 90"
      by (simp_all add: is_upper_ascii_def Let_def)
    then have "code_point (to_lower_ascii c) = code_point c + 32"
      using True by (simp add: to_lower_ascii_def code_point_def)
    with n show ?thesis by (simp add: is_upper_ascii_def Let_def)
  next
    case False
    then show ?thesis by (simp add: to_lower_ascii_def)
  qed
  then show ?thesis by (simp add: to_lower_ascii_def)
qed

text \<open>C10. Deny wins, end to end: after a request has been evaluated and its decision resolved with
  a response, access is granted exactly when the host matches no denied pattern and either
  matches an allowed one or there is a decider whose response is not \<open>Deny\<close>; a denied host
  is reported to the tool as blocked whatever the response.\<close>

theorem access_granted_iff:
  "(fst (apply_response (evaluate_request config req has_decider) resp h live) = NetAllow \<longleftrightarrow>
      \<not> host_matches_any (normalize_host (rq_host req)) (denied_domains config)
      \<and> (host_matches_any (normalize_host (rq_host req)) (allowed_domains config)
         \<or> (has_decider \<and> resp \<noteq> RespDeny)))
   \<and> (host_matches_any (normalize_host (rq_host req)) (denied_domains config) \<longrightarrow>
        apply_response (evaluate_request config req has_decider) resp h live
          = (evaluate_request config req has_decider, live)
        \<and> to_runtime_decision (evaluate_request config req has_decider) (rq_host req)
          = Some (normalize_host (rq_host req)))"
  by (simp add: evaluate_request_def apply_response_def to_runtime_decision_def Let_def
      split: approval_response.split)

lemma star_matches: "host_matches_any g [''*'']"
  by (simp add: host_matches_any_def host_matches_pattern_def parse_domain_pattern_def Let_def
      trim_nows is_ws_def code_point_def)

definition demo_settings :: proxy_settings where
  "demo_settings = disabled_settings\<lparr> proxy_domains := Some [(''*'', PermDeny), (''a.com'', PermAllow)] \<rparr>"

definition demo_net_request :: policy_request where
  "demo_net_request = \<lparr> rq_protocol = Http, rq_host = ''a.com'', rq_port = 80, rq_method = None \<rparr>"

lemma access_granted_iff_witness:
  "fst (apply_response (evaluate_request demo_settings demo_net_request True) RespAllow ''a.com'' [])
     \<noteq> NetAllow"
proof -
  have "denied_domains demo_settings = [''*'']"
    by (simp add: demo_settings_def denied_domains_def patterns_with_def)
  with star_matches
  have "host_matches_any (normalize_host (rq_host demo_net_request)) (denied_domains demo_settings)"
    by simp
  then show ?thesis
    using access_granted_iff [of demo_settings demo_net_request True RespAllow "''a.com''" "[]"]
    by blast
qed

lemma set_remember: "set (remdups_adj (sort (live @ [n]))) = insert n (set live)"
  by simp

lemma sorted_remdups_adj: "sorted xs \<Longrightarrow> sorted (remdups_adj xs)"
  by (induction xs rule: remdups_adj.induct) auto

lemma distinct_remdups_adj: "sorted (xs :: 'a::linorder list) \<Longrightarrow> distinct (remdups_adj xs)"
proof (induction xs rule: remdups_adj.induct)
  case (3 x y xs)
  then have "x \<noteq> y \<Longrightarrow> x \<notin> set (y # xs)" by auto
  with 3 show ?case by auto
qed simp_all

text \<open>A remembered approval: resolving a deferred request for a plain host with
  \<open>AllowAndRemember\<close> allows it and adds exactly that host to the live list, so the host matches
  the list from then on while no other plain host does that did not match it before; when the
  list changes, it comes out sorted and without duplicates.\<close>

lemma remembered_host_matches:
  assumes "plain_host h" "plain_host h2" and "apply_response (NetDeny r src KindAsk) RespAllowAndRemember h live = (d, live2)"
  shows "d = NetAllow \<and> host_matches_any h live2
         \<and> (host_matches_any h2 live2 \<longleftrightarrow> h2 = h \<or> host_matches_any h2 live)
         \<and> (live2 \<noteq> live \<longrightarrow> sorted live2 \<and> distinct live2)"
proof -
  have set2: "set live2 = insert h (set live)"
    and srt: "live2 \<noteq> live \<longrightarrow> sorted live2 \<and> distinct live2" and d: "d = NetAllow"
    using assms(1,3) by (auto simp: apply_response_def Let_def sorted_remdups_adj
        distinct_remdups_adj split: if_splits)
  have "host_matches_pattern g h \<longleftrightarrow> g = h" if "plain_host g" for g
    using pattern_semantics [OF that assms(1)] by blast
  then have "host_matches_any h live2" "host_matches_any h2 live2 \<longleftrightarrow> h2 = h \<or> host_matches_any h2 live"
    using assms(1,2) by (auto simp: host_matches_any_def list_ex_iff set2)
  with srt d show ?thesis by blast
qed

end
