(* ===== verification/Goals.thy ===== *)
theory Goals
  imports Schema
begin

text \<open>
  Goals (\<open>goals/\<close>): the event-sourced goal state (state.rs), the token budget (budget.rs), the
  steering events of a transition (steering.rs) and the manager that keeps the three in step
  (mod.rs). Counts are \<open>i64\<close> values as integers with saturation and wrap-around written out.
  The warn threshold multiplies the budget by a floating-point fraction; \<open>scaled\<close> stands for
  that product rounded down, and nothing below depends on its value.
\<close>

section \<open>Token budget\<close>

definition tokens_from_usage :: "int \<Rightarrow> int \<Rightarrow> int \<Rightarrow> int" where
  "tokens_from_usage inp cached out = sat_add64 (max (sat_sub64 inp cached) 0) (max out 0)"

text \<open>\<open>as i64\<close> of a \<open>u64\<close> field reinterprets its bits.\<close>

definition tokens_from_llm_usage :: "usage \<Rightarrow> int" where
  "tokens_from_llm_usage u =
     tokens_from_usage (sint (input_tokens u)) (sint (cached_input_tokens u)) (sint (output_tokens u))"

datatype budget_level = LevelOk | LevelWarn | LevelExhausted

record budget_state =
  accounted :: int
  budget_max :: "int option"

definition budget_new :: "int option \<Rightarrow> budget_state" where
  "budget_new m = \<lparr> accounted = 0, budget_max = m \<rparr>"

definition set_max :: "int option \<Rightarrow> budget_state \<Rightarrow> budget_state" where
  "set_max m b = b\<lparr> budget_max := m \<rparr>"

definition account_tokens :: "int \<Rightarrow> budget_state \<Rightarrow> budget_state" where
  "account_tokens n b = b\<lparr> accounted := sat_add64 (accounted b) n \<rparr>"

definition budget_remaining :: "budget_state \<Rightarrow> int option" where
  "budget_remaining b = map_option (\<lambda>m. max (sat_sub64 m (accounted b)) 0) (budget_max b)"

definition is_exhausted :: "budget_state \<Rightarrow> bool" where
  "is_exhausted b = (case budget_max b of Some m \<Rightarrow> accounted b \<ge> m | None \<Rightarrow> False)"

definition warn_threshold :: "(int \<Rightarrow> int) \<Rightarrow> int \<Rightarrow> int" where
  "warn_threshold scaled budget =
     (if budget \<le> 0 then 0 else min (max (scaled budget) 0) budget)"

definition is_warning :: "(int \<Rightarrow> int) \<Rightarrow> budget_state \<Rightarrow> bool" where
  "is_warning scaled b =
     (case budget_max b of
        None \<Rightarrow> False
      | Some m \<Rightarrow> if accounted b \<ge> m then False else accounted b \<ge> warn_threshold scaled m)"

definition budget_level_of :: "(int \<Rightarrow> int) \<Rightarrow> budget_state \<Rightarrow> budget_level" where
  "budget_level_of scaled b =
     (if is_exhausted b then LevelExhausted
      else if is_warning scaled b then LevelWarn else LevelOk)"

section \<open>Goal state\<close>

definition st_active :: string where "st_active = ''active''"
definition st_paused :: string where "st_paused = ''paused''"
definition st_complete :: string where "st_complete = ''complete''"
definition st_blocked :: string where "st_blocked = ''blocked''"
definition st_usage_limited :: string where "st_usage_limited = ''usage_limited''"
definition st_budget_limited :: string where "st_budget_limited = ''budget_limited''"

lemmas status_defs = st_active_def st_paused_def st_complete_def st_blocked_def
  st_usage_limited_def st_budget_limited_def

datatype goal_event =
    GoalSet string string "string option" "int option" "int option"
  | GoalUpdated "string option" "string option" "int option"
  | GoalAccounted int int
  | GoalCompleted
  | GoalCleared

record goal_state =
  goal_id :: "string option"
  goal_text :: "string option"
  goal_status :: "string option"
  token_budget :: "int option"
  tokens_used :: int
  created_turn_idx :: "int option"
  time_used_seconds :: int

definition goal_default :: goal_state where
  "goal_default = \<lparr> goal_id = None, goal_text = None, goal_status = None, token_budget = None,
     tokens_used = 0, created_turn_idx = None, time_used_seconds = 0 \<rparr>"

definition goal_is_active :: "goal_state \<Rightarrow> bool" where
  "goal_is_active s \<longleftrightarrow> goal_text s \<noteq> None
     \<and> goal_status s \<notin> {Some st_complete, Some st_blocked, Some st_paused, Some st_usage_limited}"

definition apply_budget_limit_if_reached :: "goal_state \<Rightarrow> goal_state" where
  "apply_budget_limit_if_reached s =
     (if goal_status s \<notin> {Some st_active, Some st_budget_limited} then s
      else case token_budget s of
             None \<Rightarrow> s
           | Some b \<Rightarrow> if tokens_used s \<ge> b then s\<lparr> goal_status := Some st_budget_limited \<rparr> else s)"

definition overwrite :: "'a option \<Rightarrow> 'a option \<Rightarrow> 'a option" where
  "overwrite new old = (case new of Some v \<Rightarrow> Some v | None \<Rightarrow> old)"

definition reduce :: "goal_state \<Rightarrow> goal_event \<Rightarrow> goal_state" where
  "reduce s e =
     (case e of
        GoalSet gid txt status budget turn_idx \<Rightarrow>
          apply_budget_limit_if_reached
            (s\<lparr> goal_id := Some gid, goal_text := Some txt,
                goal_status := Some (case status of Some st \<Rightarrow> st | None \<Rightarrow> st_active),
                token_budget := budget, created_turn_idx := turn_idx,
                tokens_used := 0, time_used_seconds := 0 \<rparr>)
      | GoalUpdated status txt budget \<Rightarrow>
          apply_budget_limit_if_reached
            (s\<lparr> goal_status := overwrite status (goal_status s),
                goal_text := overwrite txt (goal_text s),
                token_budget := overwrite budget (token_budget s) \<rparr>)
      | GoalAccounted n secs \<Rightarrow>
          if goal_is_active s
          then apply_budget_limit_if_reached
                 (s\<lparr> tokens_used := sat_add64 (tokens_used s) n,
                     time_used_seconds := sat_add64 (time_used_seconds s) secs \<rparr>)
          else s
      | GoalCompleted \<Rightarrow> s\<lparr> goal_status := Some st_complete \<rparr>
      | GoalCleared \<Rightarrow> goal_default)"

definition replay :: "goal_event list \<Rightarrow> goal_state" where
  "replay es = foldl reduce goal_default es"

section \<open>Steering\<close>

record pending_event =
  pe_session :: string
  pe_type :: string
  pe_payload :: json

definition goal_set_event :: string where "goal_set_event = ''goal.created''"
definition goal_budget_warning_event :: string where "goal_budget_warning_event = ''goal.budget_warning''"
definition goal_budget_limit_event :: string where
  "goal_budget_limit_event = ''goal.budget_limit_steering_requested''"

lemmas event_names = goal_set_event_def goal_budget_warning_event_def goal_budget_limit_event_def

definition json_str :: "string option \<Rightarrow> json" where
  "json_str x = (case x of Some s \<Rightarrow> JStr s | None \<Rightarrow> JNull)"

definition json_int :: "int option \<Rightarrow> json" where
  "json_int x = (case x of Some i \<Rightarrow> JNum i | None \<Rightarrow> JNull)"

definition budget_limit_payload :: "goal_state \<Rightarrow> json" where
  "budget_limit_payload s = JObj
     [(''goal_id'', json_str (goal_id s)), (''reason'', JStr ''token_budget_reached''),
      (''token_budget'', json_int (token_budget s)), (''tokens_used'', JNum (tokens_used s)),
      (''type'', JStr goal_budget_limit_event)]"

definition budget_warning_payload :: "goal_state \<Rightarrow> int \<Rightarrow> json" where
  "budget_warning_payload s thr = JObj
     [(''goal_id'', json_str (goal_id s)), (''reason'', JStr ''token_budget_warning''),
      (''token_budget'', json_int (token_budget s)), (''tokens_used'', JNum (tokens_used s)),
      (''type'', JStr goal_budget_warning_event), (''warn_threshold'', JNum thr)]"

definition goal_set_payload :: "goal_state \<Rightarrow> json" where
  "goal_set_payload s = JObj
     [(''goalId'', json_str (goal_id s)), (''goal_id'', json_str (goal_id s)),
      (''objective'', json_str (goal_text s)), (''status'', json_str (goal_status s)),
      (''text'', json_str (goal_text s)), (''tokenBudget'', json_int (token_budget s)),
      (''token_budget'', json_int (token_budget s)), (''type'', JStr goal_set_event)]"

definition steering_events ::
    "(int \<Rightarrow> int) \<Rightarrow> string \<Rightarrow> goal_state \<Rightarrow> goal_state \<Rightarrow> budget_state \<Rightarrow> budget_state
     \<Rightarrow> pending_event list" where
  "steering_events scaled session prev_state next_state prev_budget budget =
     (let ev = (\<lambda>ty payload. \<lparr> pe_session = session, pe_type = ty, pe_payload = payload \<rparr>) in
      (if \<not> goal_is_active prev_state \<and> goal_is_active next_state
       then [ev goal_set_event (goal_set_payload next_state)] else [])
      @ (if goal_is_active next_state
         then (case (budget_level_of scaled prev_budget, budget_level_of scaled budget) of
                 (LevelOk, LevelWarn) \<Rightarrow>
                   (let thr = warn_threshold scaled (case budget_max budget of Some m \<Rightarrow> m | None \<Rightarrow> 0)
                    in [ev goal_budget_warning_event (budget_warning_payload next_state thr)])
               | (LevelOk, LevelExhausted) \<Rightarrow> [ev goal_budget_limit_event (budget_limit_payload next_state)]
               | (LevelWarn, LevelExhausted) \<Rightarrow> [ev goal_budget_limit_event (budget_limit_payload next_state)]
               | _ \<Rightarrow> [])
         else []))"

section \<open>The manager\<close>

record goal_manager =
  gm_session :: string
  gm_events :: "goal_event list"
  gm_state :: goal_state
  gm_budget :: budget_state
  gm_sink :: "pending_event list"

definition manager_new :: "string \<Rightarrow> goal_manager" where
  "manager_new session = \<lparr> gm_session = session, gm_events = [], gm_state = goal_default,
     gm_budget = budget_new None, gm_sink = [] \<rparr>"

definition manager_from_events :: "string \<Rightarrow> goal_event list \<Rightarrow> goal_manager" where
  "manager_from_events session es =
     (let st = replay es in
      \<lparr> gm_session = session, gm_events = es, gm_state = st,
        gm_budget = account_tokens (tokens_used st) (budget_new (token_budget st)), gm_sink = [] \<rparr>)"

definition resync_budget_total :: "goal_state \<Rightarrow> budget_state \<Rightarrow> budget_state" where
  "resync_budget_total st b =
     (let target = tokens_used st; current = accounted b in
      if target \<ge> current then account_tokens (wrap_i64 (target - current)) b
      else account_tokens target (budget_new (token_budget st)))"

definition gm_apply :: "(int \<Rightarrow> int) \<Rightarrow> goal_manager \<Rightarrow> goal_event \<Rightarrow> pending_event list \<times> goal_manager" where
  "gm_apply scaled m e =
     (let st = reduce (gm_state m) e;
          b = resync_budget_total st (set_max (token_budget st) (gm_budget m));
          evs = steering_events scaled (gm_session m) (gm_state m) st (gm_budget m) b
      in (evs, m\<lparr> gm_events := gm_events m @ [e], gm_state := st, gm_budget := b,
                  gm_sink := gm_sink m @ evs \<rparr>))"

definition set_goal ::
    "(int \<Rightarrow> int) \<Rightarrow> string \<Rightarrow> string \<Rightarrow> int option \<Rightarrow> int option \<Rightarrow> goal_manager
     \<Rightarrow> pending_event list \<times> goal_manager" where
  "set_goal scaled gid txt budget turn m = gm_apply scaled m (GoalSet gid txt None budget turn)"

definition update_goal ::
    "(int \<Rightarrow> int) \<Rightarrow> string option \<Rightarrow> string option \<Rightarrow> int option \<Rightarrow> goal_manager
     \<Rightarrow> pending_event list \<times> goal_manager" where
  "update_goal scaled status txt budget m = gm_apply scaled m (GoalUpdated status txt budget)"

definition complete_goal :: "(int \<Rightarrow> int) \<Rightarrow> goal_manager \<Rightarrow> pending_event list \<times> goal_manager" where
  "complete_goal scaled m = gm_apply scaled m GoalCompleted"

definition clear_goal :: "(int \<Rightarrow> int) \<Rightarrow> goal_manager \<Rightarrow> pending_event list \<times> goal_manager" where
  "clear_goal scaled m = gm_apply scaled m GoalCleared"

definition record_usage ::
    "(int \<Rightarrow> int) \<Rightarrow> usage \<Rightarrow> int \<Rightarrow> goal_manager \<Rightarrow> pending_event list \<times> goal_manager" where
  "record_usage scaled u secs m =
     (if \<not> goal_is_active (gm_state m) then ([], m)
      else gm_apply scaled m (GoalAccounted (tokens_from_llm_usage u) secs))"

definition poll_steering :: "(int \<Rightarrow> int) \<Rightarrow> goal_manager \<Rightarrow> pending_event list" where
  "poll_steering scaled m =
     steering_events scaled (gm_session m) goal_default (gm_state m)
       (budget_new (budget_max (gm_budget m))) (gm_budget m)"

section \<open>Lemmas\<close>

lemma tokens_from_usage_nonneg: "0 \<le> tokens_from_usage i c out"
  by (simp add: tokens_from_usage_def sat_add64_nonneg)

lemma apply_limit_fields [simp]:
  "tokens_used (apply_budget_limit_if_reached s) = tokens_used s"
  "token_budget (apply_budget_limit_if_reached s) = token_budget s"
  "goal_text (apply_budget_limit_if_reached s) = goal_text s"
  by (simp_all add: apply_budget_limit_if_reached_def split: option.split)

lemma apply_limit_active [simp]:
  "goal_is_active (apply_budget_limit_if_reached s) = goal_is_active s"
  by (auto simp: apply_budget_limit_if_reached_def goal_is_active_def status_defs split: option.split)

text \<open>A goal that is active is below its budget.\<close>

definition under_budget :: "goal_state \<Rightarrow> bool" where
  "under_budget s \<longleftrightarrow>
     (\<forall>b. goal_status s = Some st_active \<longrightarrow> token_budget s = Some b \<longrightarrow> tokens_used s < b)"

lemma apply_limit_under [simp]: "under_budget (apply_budget_limit_if_reached s)"
  by (auto simp: apply_budget_limit_if_reached_def under_budget_def status_defs split: option.split)

interpretation goal_log: invariant_machine reduce under_budget "\<lambda>_. True"
proof unfold_locales
  fix s e assume "under_budget s"
  then show "under_budget (reduce s e)"
    by (cases e) (auto simp: reduce_def, auto simp: under_budget_def goal_default_def status_defs)
qed

text \<open>Events with non-negative 64-bit deltas, the only ones the code appends.\<close>

definition sane_event :: "goal_event \<Rightarrow> bool" where
  "sane_event e \<longleftrightarrow> (\<forall>n secs. e = GoalAccounted n secs \<longrightarrow> 0 \<le> n)"

definition in_step :: "goal_manager \<Rightarrow> bool" where
  "in_step m \<longleftrightarrow> gm_state m = replay (gm_events m)
     \<and> accounted (gm_budget m) = tokens_used (gm_state m)
     \<and> budget_max (gm_budget m) = token_budget (gm_state m)
     \<and> 0 \<le> tokens_used (gm_state m) \<and> tokens_used (gm_state m) \<le> i64_max
     \<and> under_budget (gm_state m)"

lemma reduce_tokens_range:
  assumes "0 \<le> tokens_used s" "tokens_used s \<le> i64_max" "sane_event e"
  shows "0 \<le> tokens_used (reduce s e) \<and> tokens_used (reduce s e) \<le> i64_max"
proof -
  have "sat_add64 a b \<le> i64_max" for a b
    using sat_add64_in_range [of a b] by (simp add: in_i64_def)
  moreover have "0 \<le> n \<Longrightarrow> 0 \<le> sat_add64 (tokens_used s) n" for n
    using assms(1) by (rule sat_add64_nonneg)
  ultimately show ?thesis using assms
    by (cases e) (auto simp: reduce_def goal_default_def sane_event_def i64_max_def)
qed

lemma sat_add64_exact: "0 \<le> t \<Longrightarrow> t \<le> i64_max \<Longrightarrow> c + n = t \<Longrightarrow> sat_add64 c n = t"
  by (simp add: sat_add64_def clamp_i64_def i64_min_def)

lemma resync_exact:
  assumes "0 \<le> accounted b" "accounted b \<le> i64_max" "0 \<le> tokens_used st" "tokens_used st \<le> i64_max"
  shows "accounted (resync_budget_total st (set_max (token_budget st) b)) = tokens_used st"
    "budget_max (resync_budget_total st (set_max (token_budget st) b)) = token_budget st"
proof -
  have "tokens_used st \<ge> accounted b \<Longrightarrow> in_i64 (tokens_used st - accounted b)"
    using assms by (simp add: in_i64_def i64_min_def)
  then show "accounted (resync_budget_total st (set_max (token_budget st) b)) = tokens_used st"
    using assms by (simp add: resync_budget_total_def set_max_def account_tokens_def budget_new_def
        wrap_i64_id sat_add64_exact Let_def)
  show "budget_max (resync_budget_total st (set_max (token_budget st) b)) = token_budget st"
    by (simp add: resync_budget_total_def set_max_def account_tokens_def budget_new_def Let_def)
qed

lemma apply_in_step:
  assumes "in_step m" "sane_event e"
  shows "in_step (snd (gm_apply scaled m e))"
proof -
  define st where "st = reduce (gm_state m) e"
  have range: "0 \<le> tokens_used st \<and> tokens_used st \<le> i64_max"
    unfolding st_def using assms by (intro reduce_tokens_range) (auto simp: in_step_def)
  have "replay (gm_events m @ [e]) = st" using assms by (simp add: replay_def st_def in_step_def)
  moreover have "under_budget st"
    unfolding st_def using assms by (auto intro!: goal_log.step_keeps simp: in_step_def)
  moreover have "0 \<le> accounted (gm_budget m)" "accounted (gm_budget m) \<le> i64_max"
    using assms(1) by (auto simp: in_step_def)
  ultimately show ?thesis using range resync_exact [of "gm_budget m" st]
    by (simp add: gm_apply_def Let_def in_step_def st_def [symmetric])
qed

interpretation managed_goals: invariant_machine "\<lambda>m e. snd (gm_apply scaled m e)" in_step sane_event
  for scaled
  by unfold_locales (rule apply_in_step)

lemma new_in_step: "in_step (manager_new session)"
  by (simp add: in_step_def manager_new_def replay_def budget_new_def goal_default_def
      under_budget_def i64_max_def)

section \<open>Steering over a run of responses\<close>

definition limit_events :: "pending_event list \<Rightarrow> nat" where
  "limit_events evs = length (filter (\<lambda>e. pe_type e = goal_budget_limit_event) evs)"

lemma limit_events_append [simp]: "limit_events (a @ b) = limit_events a + limit_events b"
  by (simp add: limit_events_def)

lemma level_exhausted [simp]: "budget_level_of scaled b = LevelExhausted \<longleftrightarrow> is_exhausted b"
  by (simp add: budget_level_of_def)

lemma steering_limit_events:
  assumes "goal_is_active nxt"
  shows "limit_events (steering_events scaled session prev nxt pb b) =
    of_bool (\<not> is_exhausted pb \<and> is_exhausted b)"
  unfolding level_exhausted [symmetric, where scaled = scaled] steering_events_def Let_def
  using assms
  by (cases "budget_level_of scaled pb"; cases "budget_level_of scaled b")
     (simp_all add: limit_events_def event_names del: level_exhausted)

lemma record_usage_step:
  assumes "in_step m" "goal_is_active (gm_state m)" "record_usage scaled u secs m = (evs, m')"
  shows "in_step m'" "goal_is_active (gm_state m')"
    "is_exhausted (gm_budget m) \<Longrightarrow> is_exhausted (gm_budget m')"
    "limit_events evs = of_bool (\<not> is_exhausted (gm_budget m) \<and> is_exhausted (gm_budget m'))"
proof -
  define e where "e = GoalAccounted (tokens_from_llm_usage u) secs"
  have ap: "gm_apply scaled m e = (evs, m')" using assms by (simp add: record_usage_def e_def)
  have sane: "sane_event e"
    by (simp add: sane_event_def e_def tokens_from_llm_usage_def tokens_from_usage_nonneg)
  show st': "in_step m'" using apply_in_step [OF assms(1) sane, of scaled] ap by simp
  have gs: "gm_state m' = reduce (gm_state m) e" using ap by (auto simp: gm_apply_def Let_def)
  have red: "reduce (gm_state m) e = apply_budget_limit_if_reached
      (gm_state m\<lparr> tokens_used := sat_add64 (tokens_used (gm_state m)) (tokens_from_llm_usage u),
         time_used_seconds := sat_add64 (time_used_seconds (gm_state m)) secs \<rparr>)"
    using assms(2) by (simp add: reduce_def e_def)
  show act: "goal_is_active (gm_state m')"
    using assms(2) unfolding gs red apply_limit_active by (simp add: goal_is_active_def)
  have "in_i64 (tokens_used (gm_state m))"
  proof -
    have "0 \<le> tokens_used (gm_state m)" "tokens_used (gm_state m) \<le> i64_max"
      using assms(1) unfolding in_step_def by blast+
    then show ?thesis by (simp add: in_i64_def i64_min_def)
  qed
  then have "tokens_used (gm_state m) \<le> tokens_used (gm_state m')"
    unfolding gs red by (simp add: sat_add64_ge tokens_from_llm_usage_def tokens_from_usage_nonneg)
  moreover have "token_budget (gm_state m') = token_budget (gm_state m)" unfolding gs red by simp
  ultimately show "is_exhausted (gm_budget m) \<Longrightarrow> is_exhausted (gm_budget m')"
    using assms(1) st' by (auto simp: in_step_def is_exhausted_def split: option.splits)
  have "evs = steering_events scaled (gm_session m) (gm_state m) (gm_state m') (gm_budget m) (gm_budget m')"
    using ap by (auto simp: gm_apply_def Let_def)
  then show "limit_events evs = of_bool (\<not> is_exhausted (gm_budget m) \<and> is_exhausted (gm_budget m'))"
    using act by (simp add: steering_limit_events)
qed

definition record_step ::
    "(int \<Rightarrow> int) \<Rightarrow> goal_manager \<Rightarrow> usage \<times> int \<Rightarrow> pending_event list \<times> goal_manager" where
  "record_step scaled m us = record_usage scaled (fst us) (snd us) m"

section \<open>Properties\<close>

text \<open>The manager never drifts: after any sequence of goal events with non-negative token
  deltas (the only ones the accounting produces), the folded state is the replay of the log, the
  budget counts exactly the state's tokens against the state's ceiling, and an exhausted budget
  means that the goal is no longer plainly active.\<close>

lemma manager_in_step:
  assumes "\<forall>e\<in>set es. sane_event e"
  shows "let m = foldl (\<lambda>m e. snd (gm_apply scaled m e)) (manager_new session) es in
     gm_events m = es \<and> gm_state m = replay es
     \<and> accounted (gm_budget m) = tokens_used (gm_state m)
     \<and> budget_max (gm_budget m) = token_budget (gm_state m)
     \<and> (is_exhausted (gm_budget m) \<longrightarrow> goal_status (gm_state m) \<noteq> Some st_active)"
proof -
  define m where "m = foldl (\<lambda>m e. snd (gm_apply scaled m e)) (manager_new session) es"
  have "gm_events (foldl (\<lambda>m e. snd (gm_apply scaled m e)) m0 es) = gm_events m0 @ es" for m0
    by (induction es arbitrary: m0) (auto simp: gm_apply_def Let_def)
  then have "gm_events m = es" by (simp add: m_def manager_new_def)
  moreover have "in_step m" unfolding m_def by (rule managed_goals.run_keeps [OF new_in_step assms])
  ultimately show ?thesis unfolding m_def [symmetric] Let_def
    by (auto simp: in_step_def is_exhausted_def under_budget_def split: option.splits)
qed

text \<open>Folding any log: an active goal is strictly below its token budget, and a goal that is
  complete, blocked, paused or usage limited is not charged for any further response.\<close>

lemma replayed_goal_status:
  "(goal_status (replay es) = Some st_active \<longrightarrow> token_budget (replay es) = Some b \<longrightarrow>
      tokens_used (replay es) < b)
   \<and> (goal_status (replay es) \<in> {Some st_complete, Some st_blocked, Some st_paused, Some st_usage_limited}
      \<longrightarrow> replay (es @ [GoalAccounted n secs]) = replay es)"
proof -
  have "under_budget goal_default" by (simp add: under_budget_def goal_default_def)
  then have "under_budget (replay es)" unfolding replay_def by (rule goal_log.run_keeps) simp
  then show ?thesis
    by (auto simp: under_budget_def replay_def reduce_def goal_is_active_def)
qed

text \<open>The budget-limit steering fires once: over any sequence of recorded responses of an
  active goal, the number of budget-limit events is one if the budget was not exhausted before and
  is exhausted after, and zero otherwise.\<close>

lemma limit_steered_once:
  assumes "in_step m" "goal_is_active (gm_state m)"
    and "run_emit (record_step scaled) m usages = (evs, m')"
  shows "limit_events evs = of_bool (\<not> is_exhausted (gm_budget m) \<and> is_exhausted (gm_budget m'))"
proof -
  have "limit_events evs = of_bool (\<not> is_exhausted (gm_budget m) \<and> is_exhausted (gm_budget m'))
      \<and> (is_exhausted (gm_budget m) \<longrightarrow> is_exhausted (gm_budget m'))"
    using assms
  proof (induction usages arbitrary: m evs)
    case Nil
    then show ?case by (simp add: limit_events_def)
  next
    case (Cons us usages)
    obtain e1 m1 where 1: "record_usage scaled (fst us) (snd us) m = (e1, m1)" by fastforce
    then have "record_step scaled m us = (e1, m1)" by (simp add: record_step_def)
    then obtain e2 where 2: "run_emit (record_step scaled) m1 usages = (e2, m')" "evs = e1 @ e2"
      using Cons.prems(3) by (auto split: prod.splits)
    note step = record_usage_step [OF Cons.prems(1,2) 1]
    from Cons.IH [OF step(1,2) 2(1)] step(3,4) 2(2) show ?case by auto
  qed
  then show ?thesis ..
qed

section \<open>Witnesses\<close>

definition demo_goal_log :: "goal_event list" where
  "demo_goal_log = [GoalSet ''g'' ''do it'' None (Some 10) None, GoalAccounted 4 1]"

lemma manager_in_step_witness:
  "gm_state (foldl (\<lambda>m e. snd (gm_apply id m e)) (manager_new ''s'') demo_goal_log) = replay demo_goal_log"
  using manager_in_step [of demo_goal_log id "''s''"]
  by (simp add: demo_goal_log_def sane_event_def Let_def)

lemma replayed_goal_status_witness:
  "replay ((demo_goal_log @ [GoalCompleted]) @ [GoalAccounted 100 1]) = replay (demo_goal_log @ [GoalCompleted])
   \<and> tokens_used (replay demo_goal_log) < 10"
proof
  have "goal_status (replay (demo_goal_log @ [GoalCompleted])) = Some st_complete"
    by (simp add: demo_goal_log_def replay_def reduce_def)
  then show "replay ((demo_goal_log @ [GoalCompleted]) @ [GoalAccounted 100 1]) = replay (demo_goal_log @ [GoalCompleted])"
    using replayed_goal_status [of "demo_goal_log @ [GoalCompleted]"] by blast
  have "goal_status (replay demo_goal_log) = Some st_active \<and> token_budget (replay demo_goal_log) = Some 10"
    by (simp add: demo_goal_log_def replay_def reduce_def goal_is_active_def status_defs goal_default_def
        apply_budget_limit_if_reached_def sat_add64_def clamp_i64_def i64_min_def i64_max_def)
  then show "tokens_used (replay demo_goal_log) < 10"
    using replayed_goal_status [of demo_goal_log 10] by blast
qed

definition demo_manager :: goal_manager where
  "demo_manager = snd (gm_apply id (manager_new ''s'') (GoalSet ''g'' ''do it'' None (Some 10) None))"

definition demo_usage :: usage where
  "demo_usage = usage_default\<lparr> input_tokens := 8 \<rparr>"

lemma limit_steered_once_witness:
  "limit_events (fst (run_emit (record_step id) demo_manager [(demo_usage, 1), (demo_usage, 1), (demo_usage, 1)])) \<le> 1"
proof -
  have "in_step demo_manager" unfolding demo_manager_def
    by (rule apply_in_step [OF new_in_step]) (simp add: sane_event_def)
  moreover have "goal_is_active (gm_state demo_manager)"
    by (simp add: demo_manager_def gm_apply_def Let_def manager_new_def reduce_def goal_is_active_def
        status_defs apply_budget_limit_if_reached_def)
  ultimately show ?thesis
    using limit_steered_once [OF _ _ surjective_pairing, of demo_manager id
        "[(demo_usage, 1), (demo_usage, 1), (demo_usage, 1)]"] by simp
qed

end
