(* ===== verification/Events.thy ===== *)
theory Events
  imports Schema
begin

text \<open>
  The durable event log (\<open>crates/browser-use-protocol/src/lib.rs\<close>): an event record with
  its JSON payload, the session rows the store keeps, and the payload accessors that every
  reader of the log uses.
\<close>

record event_record =
  ev_seq :: int
  ev_id :: string
  ev_session :: string
  ev_ts_ms :: int
  ev_type :: string
  ev_payload :: json

datatype session_status = SCreated | SRunning | SDone | SFailed | SCancelled

fun status_as_str :: "session_status \<Rightarrow> string" where
  "status_as_str SCreated = ''created''"
| "status_as_str SRunning = ''running''"
| "status_as_str SDone = ''done''"
| "status_as_str SFailed = ''failed''"
| "status_as_str SCancelled = ''cancelled''"

fun status_is_active :: "session_status \<Rightarrow> bool" where
  "status_is_active SCreated = True"
| "status_is_active SRunning = True"
| "status_is_active _ = False"

definition status_from_str :: "string \<Rightarrow> string + session_status" where
  "status_from_str v =
     (if v = ''created'' then Inr SCreated
      else if v = ''running'' then Inr SRunning
      else if v = ''done'' then Inr SDone
      else if v = ''failed'' then Inr SFailed
      else if v = ''cancelled'' then Inr SCancelled
      else Inl (''unknown session status: '' @ v))"

lemma status_str_roundtrip: "status_from_str (status_as_str st) = Inr st"
  by (cases st) (simp_all add: status_from_str_def)

record session_meta =
  sm_id :: string
  sm_parent_id :: "string option"
  sm_cwd :: string
  sm_artifact_root :: string
  sm_status :: session_status
  sm_created_ms :: int
  sm_updated_ms :: int

text \<open>Accessors of a payload: \<open>get(k).and_then(as_...)\<close>.\<close>

definition pstr :: "event_record \<Rightarrow> string \<Rightarrow> string option" where
  "pstr e k = get_str (ev_payload e) k"

definition get_bool :: "json \<Rightarrow> string \<Rightarrow> bool option" where
  "get_bool v k = Option.bind (json_get v k) as_bool"

definition get_i64 :: "json \<Rightarrow> string \<Rightarrow> int option" where
  "get_i64 v k = Option.bind (json_get v k) as_i64"

definition get_u64 :: "json \<Rightarrow> string \<Rightarrow> int option" where
  "get_u64 v k = Option.bind (json_get v k) as_u64"

definition get_array :: "json \<Rightarrow> string \<Rightarrow> json list option" where
  "get_array v k = Option.bind (json_get v k) as_array"

text \<open>\<open>map(str::trim).filter(|t| !t.is_empty())\<close>.\<close>

definition trimmed_nonempty :: "string option \<Rightarrow> string option" where
  "trimmed_nonempty s = opt_filter (\<lambda>t. t \<noteq> []) (map_option str_trim s)"

definition json_opt :: "('a \<Rightarrow> json) \<Rightarrow> 'a option \<Rightarrow> json" where
  "json_opt f x = (case x of None \<Rightarrow> JNull | Some v \<Rightarrow> f v)"

text \<open>The \<open>Debug\<close> rendering of a string.\<close>

definition escape_debug_char :: "char \<Rightarrow> string" where
  "escape_debug_char c =
     (let n = code_point c; bs = CHR 0x5C in
      if n = 0 then [bs, CHR ''0''] else if n = 9 then [bs, CHR ''t'']
      else if n = 13 then [bs, CHR ''r''] else if n = 10 then [bs, CHR ''n'']
      else if n = 34 then [bs, CHR 0x22] else if n = 92 then [bs, bs]
      else if n < 32 \<or> (127 \<le> n \<and> n \<le> 160) \<or> n = 173
      then [bs, CHR ''u'', CHR 0x7B] @ (if n < 16 then [hex_digit n] else [hex_digit (n div 16), hex_digit (n mod 16)]) @ [CHR 0x7D]
      else [c])"

definition debug_str :: "string \<Rightarrow> string" where
  "debug_str s = [CHR 0x22] @ concat (map escape_debug_char s) @ [CHR 0x22]"

end
