(* ===== verification/GoalStore.thy ===== *)
theory GoalStore
  imports GoalPrompt Events Approval Requests
begin

text \<open>
  The goal tools and the store behind them (\<open>tools/handlers/goal.rs\<close>): a goal manager that
  is rebuilt from the durable \<open>goal.*\<close> events before each operation, the events an operation
  adds to that log, and the three model-facing tools. An operation returns its result, the events
  it emits through the sink in order, and the new store. \<open>src\<close> is what the event log answers
  to the refresh (\<open>None\<close>: the store has no source); \<open>now\<close> is the clock in seconds, read
  once per operation; \<open>scaled\<close> is the product of the warn threshold, as in \<open>Goals\<close>.
\<close>

section \<open>Snapshots and responses\<close>

definition goal_updated_event :: string where "goal_updated_event = ''goal.updated''"
definition goal_accounted_event :: string where "goal_accounted_event = ''goal.accounted''"
definition goal_cleared_event :: string where "goal_cleared_event = ''goal.cleared''"

definition max_thread_goal_objective_chars :: nat where "max_thread_goal_objective_chars = 4000"

definition completion_budget_report :: string where
  "completion_budget_report = ''Goal achieved. Report final usage from this tool result's structured goal fields. If `goal.tokenBudget` is present, include token usage from `goal.tokensUsed` and `goal.tokenBudget`. If `goal.timeUsedSeconds` is greater than 0, summarize elapsed time in a concise, human-friendly form appropriate to the response language.''"

record goal_timestamps =
  gt_created :: "int option"
  gt_updated :: "int option"

definition timestamps_default :: goal_timestamps where
  "timestamps_default = \<lparr> gt_created = None, gt_updated = None \<rparr>"

datatype thread_goal_status = TgActive | TgPaused | TgBlocked | TgUsageLimited | TgBudgetLimited | TgComplete

fun thread_status_json :: "thread_goal_status \<Rightarrow> string" where
  "thread_status_json TgActive = ''active''"
| "thread_status_json TgPaused = ''paused''"
| "thread_status_json TgBlocked = ''blocked''"
| "thread_status_json TgUsageLimited = ''usageLimited''"
| "thread_status_json TgBudgetLimited = ''budgetLimited''"
| "thread_status_json TgComplete = ''complete''"

definition protocol_status_from_str :: "string option \<Rightarrow> thread_goal_status" where
  "protocol_status_from_str v =
     (let s = unwrap_or st_active v in
      if s = st_paused then TgPaused
      else if s = st_blocked then TgBlocked
      else if s = st_usage_limited \<or> s = ''usageLimited'' then TgUsageLimited
      else if s = st_budget_limited \<or> s = ''budgetLimited'' then TgBudgetLimited
      else if s = st_complete then TgComplete
      else TgActive)"

fun local_status_from_protocol :: "thread_goal_status \<Rightarrow> string" where
  "local_status_from_protocol TgActive = st_active"
| "local_status_from_protocol TgPaused = st_paused"
| "local_status_from_protocol TgBlocked = st_blocked"
| "local_status_from_protocol TgUsageLimited = st_usage_limited"
| "local_status_from_protocol TgBudgetLimited = st_budget_limited"
| "local_status_from_protocol TgComplete = st_complete"

record thread_goal_snapshot =
  tg_thread_id :: string
  tg_objective :: string
  tg_status :: thread_goal_status
  tg_token_budget :: "int option"
  tg_tokens_used :: int
  tg_time_used :: int
  tg_created_at :: int
  tg_updated_at :: int

definition snapshot_json :: "thread_goal_snapshot \<Rightarrow> json" where
  "snapshot_json g = JObj
     ([(''createdAt'', JNum (tg_created_at g)), (''objective'', JStr (tg_objective g)),
       (''status'', JStr (thread_status_json (tg_status g))), (''threadId'', JStr (tg_thread_id g)),
       (''timeUsedSeconds'', JNum (tg_time_used g))]
      @ (case tg_token_budget g of Some b \<Rightarrow> [(''tokenBudget'', JNum b)] | None \<Rightarrow> [])
      @ [(''tokensUsed'', JNum (tg_tokens_used g)), (''updatedAt'', JNum (tg_updated_at g))])"

datatype report_mode = ReportInclude | ReportOmit

record goal_tool_response =
  gr_goal :: "thread_goal_snapshot option"
  gr_remaining_tokens :: "int option"
  gr_completion_budget_report :: "string option"

definition goal_tool_response_new :: "thread_goal_snapshot option \<Rightarrow> report_mode \<Rightarrow> goal_tool_response" where
  "goal_tool_response_new goal mode =
     \<lparr> gr_goal = goal,
       gr_remaining_tokens = Option.bind goal (\<lambda>g. map_option (\<lambda>b. max (wrap_i64 (b - tg_tokens_used g)) 0) (tg_token_budget g)),
       gr_completion_budget_report =
         (case mode of
            ReportInclude \<Rightarrow> Option.bind (opt_filter (\<lambda>g. tg_status g = TgComplete) goal)
              (\<lambda>g. if tg_token_budget g = None \<and> tg_time_used g \<le> 0 then None else Some completion_budget_report)
          | ReportOmit \<Rightarrow> None) \<rparr>"

definition goal_response_json :: "goal_tool_response \<Rightarrow> json" where
  "goal_response_json r = JObj
     [(''completionBudgetReport'', json_str (gr_completion_budget_report r)),
      (''goal'', json_opt snapshot_json (gr_goal r)),
      (''remainingTokens'', json_int (gr_remaining_tokens r))]"

definition validate_thread_goal_objective :: "string \<Rightarrow> string option" where
  "validate_thread_goal_objective v =
     (if v = [] then Some ''goal objective must not be empty''
      else if length v > max_thread_goal_objective_chars
      then Some (''goal objective must be at most '' @ show_nat max_thread_goal_objective_chars @ '' characters'')
      else None)"

definition validate_goal_budget :: "int option \<Rightarrow> string option" where
  "validate_goal_budget b =
     (if (case b of Some v \<Rightarrow> v \<le> 0 | None \<Rightarrow> False)
      then Some ''goal budgets must be positive when provided'' else None)"

section \<open>Replaying the event log\<close>

definition string_field :: "json \<Rightarrow> json \<Rightarrow> string list \<Rightarrow> string option" where
  "string_field root goal keys = or_else (find_map (get_str root) keys) (find_map (get_str goal) keys)"

definition status_field :: "json \<Rightarrow> json \<Rightarrow> string option" where
  "status_field root goal =
     map_option (\<lambda>v. local_status_from_protocol (protocol_status_from_str (Some v))) (string_field root goal [''status''])"

definition i64_field :: "json \<Rightarrow> json \<Rightarrow> string list \<Rightarrow> int option" where
  "i64_field root goal keys = or_else (find_map (get_i64 root) keys) (find_map (get_i64 goal) keys)"

definition goal_event_from_record :: "event_record \<Rightarrow> goal_event option" where
  "goal_event_from_record r =
     (let root = ev_payload r; goal = unwrap_or root (json_get root ''goal'') in
      if ev_type r = goal_set_event
      then map_option (\<lambda>text. GoalSet (unwrap_or (ev_id r) (string_field root goal [''goal_id'', ''goalId''])) text
                                 (status_field root goal) (i64_field root goal [''token_budget'', ''tokenBudget''])
                                 (i64_field root goal [''turn_idx'', ''turnIdx'']))
             (string_field root goal [''objective'', ''text''])
      else if ev_type r = goal_updated_event
      then (let status = status_field root goal; text = string_field root goal [''objective'', ''text''];
                budget = i64_field root goal [''token_budget'', ''tokenBudget''] in
            if status = None \<and> text = None \<and> budget = None then None else Some (GoalUpdated status text budget))
      else if ev_type r = goal_accounted_event
      then (let tokens = unwrap_or 0 (i64_field root goal [''tokens_used'', ''tokensUsed'', ''token_delta'', ''tokenDelta'']);
                secs = unwrap_or 0 (i64_field root goal [''time_used_seconds'', ''timeUsedSeconds'', ''time_delta_seconds'', ''timeDeltaSeconds'']) in
            if tokens = 0 \<and> secs = 0 then None else Some (GoalAccounted tokens secs))
      else if ev_type r = goal_cleared_event then Some GoalCleared
      else None)"

definition stamp :: "event_record \<Rightarrow> string list \<Rightarrow> int" where
  "stamp r keys =
     (let root = ev_payload r; goal = unwrap_or root (json_get root ''goal'') in
      unwrap_or (ev_ts_ms r div 1000) (i64_field root goal keys))"

definition replay_stamps :: "event_record \<Rightarrow> goal_event \<Rightarrow> goal_timestamps \<Rightarrow> goal_timestamps" where
  "replay_stamps r e t =
     (let created_at = stamp r [''createdAt'', ''created_at'']; updated_at = stamp r [''updatedAt'', ''updated_at''] in
      case e of
        GoalSet _ _ _ _ _ \<Rightarrow> \<lparr> gt_created = Some created_at, gt_updated = Some updated_at \<rparr>
      | GoalUpdated _ _ _ \<Rightarrow> t\<lparr> gt_updated := Some updated_at \<rparr>
      | GoalAccounted _ _ \<Rightarrow> t\<lparr> gt_updated := Some updated_at \<rparr>
      | GoalCompleted \<Rightarrow> t\<lparr> gt_updated := Some updated_at \<rparr>
      | GoalCleared \<Rightarrow> timestamps_default)"

fun replay_from :: "goal_event list \<times> goal_timestamps \<Rightarrow> event_record list \<Rightarrow> goal_event list \<times> goal_timestamps" where
  "replay_from acc [] = acc"
| "replay_from (es, t) (r # rs) =
     (case goal_event_from_record r of
        None \<Rightarrow> replay_from (es, t) rs
      | Some e \<Rightarrow> replay_from (es @ [e], replay_stamps r e t) rs)"

definition replay_goal_event_records :: "event_record list \<Rightarrow> goal_event list \<times> goal_timestamps" where
  "replay_goal_event_records rs = replay_from ([], timestamps_default) rs"

section \<open>The store\<close>

record goal_store =
  gs_manager :: goal_manager
  gs_session :: string
  gs_counter :: nat
  gs_stamps :: goal_timestamps
  gs_reported :: "string option"

type_synonym goal_source = "(string + event_record list) option"

fun is_goal_set :: "goal_event \<Rightarrow> bool" where
  "is_goal_set (GoalSet _ _ _ _ _) = True"
| "is_goal_set _ = False"

definition goal_store_new :: "string \<Rightarrow> goal_store" where
  "goal_store_new session = \<lparr> gs_manager = manager_new session, gs_session = session, gs_counter = 0,
     gs_stamps = timestamps_default, gs_reported = None \<rparr>"

definition goal_store_from_records :: "string \<Rightarrow> event_record list \<Rightarrow> goal_store" where
  "goal_store_from_records session records =
     (let (events, stamps) = replay_goal_event_records records in
      \<lparr> gs_manager = manager_from_events session events, gs_session = session,
        gs_counter = length (filter is_goal_set events), gs_stamps = stamps, gs_reported = None \<rparr>)"

abbreviation gs_state :: "goal_store \<Rightarrow> goal_state" where
  "gs_state st \<equiv> gm_state (gs_manager st)"

definition next_goal_id :: "goal_store \<Rightarrow> string \<times> goal_store" where
  "next_goal_id st = (let n = gs_counter st + 1 in (''goal-'' @ show_nat n, st\<lparr> gs_counter := n \<rparr>))"

definition refresh_from_event_records :: "event_record list \<Rightarrow> goal_store \<Rightarrow> goal_store" where
  "refresh_from_event_records records st =
     (let (events, stamps) = replay_goal_event_records records;
          m = manager_from_events (gs_session st) events; s = gm_state m;
          still = goal_status s = Some st_budget_limited \<and> gs_reported st = goal_id s in
      st\<lparr> gs_manager := m, gs_counter := length (filter is_goal_set events), gs_stamps := stamps,
          gs_reported := (if still then gs_reported st else None) \<rparr>)"

definition refresh_from_source :: "goal_source \<Rightarrow> goal_store \<Rightarrow> string + goal_store" where
  "refresh_from_source src st =
     (case src of
        None \<Rightarrow> Inr st
      | Some (Inl err) \<Rightarrow> Inl err
      | Some (Inr records) \<Rightarrow> Inr (refresh_from_event_records records st))"

definition goal_snapshot :: "int \<Rightarrow> goal_store \<Rightarrow> thread_goal_snapshot option" where
  "goal_snapshot now st =
     map_option (\<lambda>objective.
         let created = unwrap_or now (gt_created (gs_stamps st)) in
         \<lparr> tg_thread_id = gs_session st, tg_objective = objective,
           tg_status = protocol_status_from_str (goal_status (gs_state st)),
           tg_token_budget = token_budget (gs_state st), tg_tokens_used = tokens_used (gs_state st),
           tg_time_used = time_used_seconds (gs_state st), tg_created_at = created,
           tg_updated_at = unwrap_or created (gt_updated (gs_stamps st)) \<rparr>)
       (goal_text (gs_state st))"

definition current_response :: "int \<Rightarrow> report_mode \<Rightarrow> goal_store \<Rightarrow> json" where
  "current_response now mode st = goal_response_json (goal_tool_response_new (goal_snapshot now st) mode)"

definition store_response :: "goal_source \<Rightarrow> int \<Rightarrow> report_mode \<Rightarrow> goal_store \<Rightarrow> json \<times> goal_store" where
  "store_response src now mode st =
     (let st' = (case refresh_from_source src st of Inr s \<Rightarrow> s | Inl _ \<Rightarrow> st)
      in (current_response now mode st', st'))"

definition goal_response_from_event_records :: "int \<Rightarrow> string \<Rightarrow> event_record list \<Rightarrow> json" where
  "goal_response_from_event_records now session records =
     fst (store_response None now ReportOmit (goal_store_from_records session records))"

definition clear_reported :: "goal_store \<Rightarrow> goal_store" where
  "clear_reported st = st\<lparr> gs_reported := None \<rparr>"

definition mark_created_now :: "int \<Rightarrow> goal_store \<Rightarrow> goal_store" where
  "mark_created_now now st =
     st\<lparr> gs_stamps := \<lparr> gt_created = or_else (gt_created (gs_stamps st)) (Some now), gt_updated = Some now \<rparr> \<rparr>"

definition mark_updated_now :: "int \<Rightarrow> goal_store \<Rightarrow> goal_store" where
  "mark_updated_now now st = st\<lparr> gs_stamps := (gs_stamps st)\<lparr> gt_updated := Some now \<rparr> \<rparr>"

definition goal_pending :: "goal_store \<Rightarrow> string \<Rightarrow> json \<Rightarrow> pending_event" where
  "goal_pending st ty payload = \<lparr> pe_session = gs_session st, pe_type = ty, pe_payload = payload \<rparr>"

section \<open>Operations\<close>

definition goal_context_text :: "goal_source \<Rightarrow> goal_store \<Rightarrow> string option \<times> goal_store" where
  "goal_context_text src st =
     (case refresh_from_source src st of
        Inl _ \<Rightarrow> (None, st)
      | Inr st1 \<Rightarrow>
          if goal_status (gs_state st1) = Some st_budget_limited
          then (let gid = unwrap_or [] (goal_id (gs_state st1)) in
                if gs_reported st1 = Some gid then (None, st1)
                else (render_goal_context_text (gs_state st1), st1\<lparr> gs_reported := Some gid \<rparr>))
          else (render_goal_context_text (gs_state st1), st1))"

record goal_accounting_result =
  ga_tokens :: int
  ga_seconds :: int
  ga_limited :: bool

definition account_usage ::
    "(int \<Rightarrow> int) \<Rightarrow> goal_source \<Rightarrow> int \<Rightarrow> usage \<Rightarrow> int \<Rightarrow> goal_store
      \<Rightarrow> goal_accounting_result option \<times> pending_event list \<times> goal_store" where
  "account_usage scaled src now u secs0 st =
     (case refresh_from_source src st of
        Inl _ \<Rightarrow> (None, [], st)
      | Inr st1 \<Rightarrow>
          let tokens = tokens_from_llm_usage u; secs = max secs0 0 in
          if tokens \<le> 0 \<and> secs = 0 then (None, [], st1)
          else if \<not> goal_is_active (gs_state st1) then (None, [], st1)
          else
            (let (steer, m) = record_usage scaled u secs (gs_manager st1);
                 st2 = mark_updated_now now (st1\<lparr> gs_manager := m \<rparr>);
                 snap = json_opt snapshot_json (goal_snapshot now st2);
                 limited = goal_status (gs_state st1) \<noteq> Some st_budget_limited
                           \<and> goal_status (gs_state st2) = Some st_budget_limited in
             (Some \<lparr> ga_tokens = tokens, ga_seconds = secs, ga_limited = limited \<rparr>,
              steer @ [goal_pending st2 goal_accounted_event (JObj
                 [(''goal'', snap), (''timeUsedSeconds'', JNum secs), (''time_used_seconds'', JNum secs),
                  (''tokensUsed'', JNum tokens), (''tokens_used'', JNum tokens), (''type'', JStr goal_accounted_event)])]
              @ (if limited
                 then [goal_pending st2 goal_updated_event (JObj
                   [(''goal'', snap), (''status'', JStr st_budget_limited), (''type'', JStr goal_updated_event)])]
                 else []),
              st2)))"

definition account_elapsed_seconds ::
    "(int \<Rightarrow> int) \<Rightarrow> goal_source \<Rightarrow> int \<Rightarrow> int \<Rightarrow> goal_store
      \<Rightarrow> goal_accounting_result option \<times> pending_event list \<times> goal_store" where
  "account_elapsed_seconds scaled src now secs st = account_usage scaled src now usage_default secs st"

definition account_elapsed_since_last_update ::
    "(int \<Rightarrow> int) \<Rightarrow> goal_source \<Rightarrow> int \<Rightarrow> goal_store
      \<Rightarrow> goal_accounting_result option \<times> pending_event list \<times> goal_store" where
  "account_elapsed_since_last_update scaled src now st =
     (case refresh_from_source src st of
        Inl _ \<Rightarrow> (None, [], st)
      | Inr st1 \<Rightarrow>
          (case or_else (gt_updated (gs_stamps st1)) (gt_created (gs_stamps st1)) of
             None \<Rightarrow> (None, [], st1)
           | Some last_update \<Rightarrow>
               let elapsed = sat_sub64 now last_update in
               if elapsed \<le> 0 then (None, [], st1) else account_elapsed_seconds scaled src now elapsed st1))"

definition goal_exists_error :: string where
  "goal_exists_error = ''cannot create a new goal because this thread already has a goal; use update_goal only when the existing goal is complete''"

definition create_goal_response ::
    "(int \<Rightarrow> int) \<Rightarrow> goal_source \<Rightarrow> int \<Rightarrow> string \<Rightarrow> int option \<Rightarrow> goal_store
      \<Rightarrow> (string + json) \<times> pending_event list \<times> goal_store" where
  "create_goal_response scaled src now objective0 budget st =
     (let objective = str_trim objective0 in
      case or_else (validate_thread_goal_objective objective) (validate_goal_budget budget) of
        Some err \<Rightarrow> (Inl err, [], st)
      | None \<Rightarrow>
          (case refresh_from_source src st of
             Inl err \<Rightarrow> (Inl err, [], st)
           | Inr st1 \<Rightarrow>
               let (gid, st2) = next_goal_id st1 in
               if goal_text (gs_state st2) \<noteq> None then (Inl goal_exists_error, [], st2)
               else (let (evs, m) = set_goal scaled gid objective budget None (gs_manager st2);
                         st3 = clear_reported (mark_created_now now (st2\<lparr> gs_manager := m \<rparr>))
                     in (Inr (current_response now ReportOmit st3), evs, st3))))"

definition replacement_created_events :: "int \<Rightarrow> goal_store \<Rightarrow> pending_event list" where
  "replacement_created_events now st =
     (case goal_snapshot now st of
        None \<Rightarrow> []
      | Some g \<Rightarrow> [goal_pending st goal_set_event (JObj
          [(''createdAt'', JNum (tg_created_at g)), (''goal'', snapshot_json g), (''objective'', JStr (tg_objective g)),
           (''status'', JStr (local_status_from_protocol (tg_status g))), (''text'', JStr (tg_objective g)),
           (''tokenBudget'', json_int (tg_token_budget g)), (''token_budget'', json_int (tg_token_budget g)),
           (''type'', JStr goal_set_event), (''updatedAt'', JNum (tg_updated_at g))])])"

definition replace_goal_response ::
    "(int \<Rightarrow> int) \<Rightarrow> goal_source \<Rightarrow> int \<Rightarrow> string \<Rightarrow> int option \<Rightarrow> goal_store
      \<Rightarrow> (string + json) \<times> pending_event list \<times> goal_store" where
  "replace_goal_response scaled src now objective0 budget st =
     (let objective = str_trim objective0 in
      case or_else (validate_thread_goal_objective objective) (validate_goal_budget budget) of
        Some err \<Rightarrow> (Inl err, [], st)
      | None \<Rightarrow>
          (case refresh_from_source src st of
             Inl err \<Rightarrow> (Inl err, [], st)
           | Inr st1 \<Rightarrow>
               let (gid, st2) = next_goal_id st1;
                   (evs, m) = set_goal scaled gid objective budget None (gs_manager st2);
                   st3 = clear_reported (mark_created_now now (st2\<lparr> gs_manager := m \<rparr>))
               in (Inr (current_response now ReportOmit st3),
                   evs @ (if list_ex (\<lambda>e. pe_type e = goal_set_event) evs then [] else replacement_created_events now st3),
                   st3)))"

definition update_goal_fields_response ::
    "(int \<Rightarrow> int) \<Rightarrow> goal_source \<Rightarrow> int \<Rightarrow> string option \<Rightarrow> string option \<Rightarrow> int option \<Rightarrow> report_mode
      \<Rightarrow> goal_store \<Rightarrow> (string + json) \<times> pending_event list \<times> goal_store" where
  "update_goal_fields_response scaled src now status text budget mode st =
     (case validate_goal_budget budget of
        Some err \<Rightarrow> (Inl err, [], st)
      | None \<Rightarrow>
          (case refresh_from_source src st of
             Inl err \<Rightarrow> (Inl err, [], st)
           | Inr st1 \<Rightarrow>
               if goal_text (gs_state st1) = None then (Inl ''no active goal to update'', [], st1)
               else
                 (let (evs, m) = update_goal scaled status text budget (gs_manager st1);
                      st2 = mark_updated_now now (st1\<lparr> gs_manager := m \<rparr>);
                      st3 = (if status \<noteq> Some st_budget_limited then clear_reported st2 else st2);
                      snap = current_response now mode st3;
                      payload =
                        put_opt ''tokenBudget'' (map_option JNum budget) (put_opt ''token_budget'' (map_option JNum budget)
                         (put_opt ''objective'' (map_option JStr text) (put_opt ''text'' (map_option JStr text)
                          (put_opt ''status'' (map_option JStr status)
                            (JObj [(''goal'', unwrap_or JNull (json_get snap ''goal'')), (''type'', JStr goal_updated_event)])))))
                  in (Inr snap, evs @ [goal_pending st3 goal_updated_event payload], st3))))"

definition edit_goal_response ::
    "(int \<Rightarrow> int) \<Rightarrow> goal_source \<Rightarrow> int \<Rightarrow> string \<Rightarrow> string option \<Rightarrow> goal_store
      \<Rightarrow> (string + json) \<times> pending_event list \<times> goal_store" where
  "edit_goal_response scaled src now objective0 next_status st =
     (let objective = str_trim objective0 in
      case validate_thread_goal_objective objective of
        Some err \<Rightarrow> (Inl err, [], st)
      | None \<Rightarrow>
          (case refresh_from_source src st of
             Inl err \<Rightarrow> (Inl err, [], st)
           | Inr st1 \<Rightarrow> update_goal_fields_response scaled src now next_status (Some objective) None ReportOmit st1))"

definition update_status_response ::
    "(int \<Rightarrow> int) \<Rightarrow> goal_source \<Rightarrow> int \<Rightarrow> string \<Rightarrow> goal_store
      \<Rightarrow> (string + json) \<times> pending_event list \<times> goal_store" where
  "update_status_response scaled src now next_status st =
     update_goal_fields_response scaled src now (Some next_status) None None
       (if next_status = st_complete then ReportInclude else ReportOmit) st"

definition clear_goal_response ::
    "(int \<Rightarrow> int) \<Rightarrow> goal_source \<Rightarrow> int \<Rightarrow> goal_store \<Rightarrow> (string + json) \<times> pending_event list \<times> goal_store" where
  "clear_goal_response scaled src now st =
     (case refresh_from_source src st of
        Inl err \<Rightarrow> (Inl err, [], st)
      | Inr st1 \<Rightarrow>
          if goal_text (gs_state st1) = None then (Inl ''no goal set for this task'', [], st1)
          else (let (evs, m) = clear_goal scaled (gs_manager st1);
                    st2 = clear_reported (st1\<lparr> gs_manager := m, gs_stamps := timestamps_default \<rparr>)
                in (Inr (current_response now ReportOmit st2),
                    evs @ [goal_pending st2 goal_cleared_event (JObj [(''type'', JStr goal_cleared_event)])], st2)))"

section \<open>The tools\<close>

definition ok_output :: "json \<Rightarrow> exec_output" where
  "ok_output body = \<lparr> exit_code = 0, exec_stdout = show_json body, exec_stderr = [] \<rparr>"

datatype update_goal_status = UgComplete | UgBlocked

fun update_goal_local_str :: "update_goal_status \<Rightarrow> string" where
  "update_goal_local_str UgComplete = st_complete"
| "update_goal_local_str UgBlocked = st_blocked"

fun update_goal_report_mode :: "update_goal_status \<Rightarrow> report_mode" where
  "update_goal_report_mode UgComplete = ReportInclude"
| "update_goal_report_mode UgBlocked = ReportOmit"

text \<open>\<open>ToolError::Other\<close> with the name of the tool before the message.\<close>

definition goal_tool_result :: "string \<Rightarrow> string + json \<Rightarrow> tool_error + exec_output" where
  "goal_tool_result name r =
     (case r of Inr body \<Rightarrow> Inr (ok_output body) | Inl err \<Rightarrow> Inl (ToolOther (name @ '': '' @ err)))"

definition get_goal_run :: "goal_source \<Rightarrow> int \<Rightarrow> goal_store \<Rightarrow> (tool_error + exec_output) \<times> goal_store" where
  "get_goal_run src now st = (let (body, st') = store_response src now ReportOmit st in (Inr (ok_output body), st'))"

definition create_goal_run ::
    "(int \<Rightarrow> int) \<Rightarrow> goal_source \<Rightarrow> int \<Rightarrow> string \<Rightarrow> int option \<Rightarrow> goal_store
      \<Rightarrow> (tool_error + exec_output) \<times> pending_event list \<times> goal_store" where
  "create_goal_run scaled src now objective budget st =
     (let (r, evs, st') = create_goal_response scaled src now objective budget st
      in (goal_tool_result ''create_goal'' r, evs, st'))"

text \<open>\<open>src'\<close> is the log after the elapsed time was charged to it.\<close>

definition update_goal_run ::
    "(int \<Rightarrow> int) \<Rightarrow> goal_source \<Rightarrow> goal_source \<Rightarrow> int \<Rightarrow> update_goal_status \<Rightarrow> goal_store
      \<Rightarrow> (tool_error + exec_output) \<times> pending_event list \<times> goal_store" where
  "update_goal_run scaled src src' now status st =
     (let (_, evs1, st1) = account_elapsed_since_last_update scaled src now st;
          (r, evs2, st2) = update_goal_fields_response scaled src' now (Some (update_goal_local_str status)) None None
                             (update_goal_report_mode status) st1
      in (goal_tool_result ''update_goal'' r, evs1 @ evs2, st2))"

section \<open>Sequences of operations\<close>

datatype goal_op =
    OpCreate string "int option"
  | OpReplace string "int option"
  | OpEdit string "string option"
  | OpStatus string
  | OpClear
  | OpAccount usage int
  | OpElapsed

definition goal_op_step :: "(int \<Rightarrow> int) \<Rightarrow> goal_store \<Rightarrow> int \<times> goal_op \<Rightarrow> pending_event list \<times> goal_store" where
  "goal_op_step scaled st = (\<lambda>(now, op).
     case op of
       OpCreate text budget \<Rightarrow> snd (create_goal_response scaled None now text budget st)
     | OpReplace text budget \<Rightarrow> snd (replace_goal_response scaled None now text budget st)
     | OpEdit text status \<Rightarrow> snd (edit_goal_response scaled None now text status st)
     | OpStatus status \<Rightarrow> snd (update_status_response scaled None now status st)
     | OpClear \<Rightarrow> snd (clear_goal_response scaled None now st)
     | OpAccount u secs \<Rightarrow> snd (account_usage scaled None now u secs st)
     | OpElapsed \<Rightarrow> snd (account_elapsed_since_last_update scaled None now st))"

definition local_statuses :: "string list" where
  "local_statuses = [st_active, st_paused, st_complete, st_blocked, st_usage_limited, st_budget_limited]"

definition in_i64_opt :: "int option \<Rightarrow> bool" where
  "in_i64_opt b = (case b of Some v \<Rightarrow> in_i64 v | None \<Rightarrow> True)"

text \<open>The values the callers pass: a status of the goal's own six, and \<open>i64\<close> numbers.\<close>

fun goal_op_ok :: "goal_op \<Rightarrow> bool" where
  "goal_op_ok (OpCreate _ b) = in_i64_opt b"
| "goal_op_ok (OpReplace _ b) = in_i64_opt b"
| "goal_op_ok (OpEdit _ s) = (case s of Some v \<Rightarrow> v \<in> set local_statuses | None \<Rightarrow> True)"
| "goal_op_ok (OpStatus s) = (s \<in> set local_statuses)"
| "goal_op_ok (OpAccount _ secs) = in_i64 secs"
| "goal_op_ok _ = True"

text \<open>A stopped goal set to run again.\<close>

definition resumes :: "goal_store \<Rightarrow> goal_op \<Rightarrow> bool" where
  "resumes st op \<longleftrightarrow> goal_text (gs_state st) \<noteq> None \<and> \<not> goal_is_active (gs_state st) \<and>
     (case op of OpStatus s \<Rightarrow> s \<in> {st_active, st_budget_limited}
      | OpEdit _ (Some s) \<Rightarrow> s \<in> {st_active, st_budget_limited}
      | _ \<Rightarrow> False)"

definition goal_op_allowed :: "goal_store \<Rightarrow> int \<times> goal_op \<Rightarrow> bool" where
  "goal_op_allowed st = (\<lambda>(now, op). in_i64 now \<and> goal_op_ok op \<and> \<not> resumes st op)"

section \<open>Lemmas\<close>

definition same_goal :: "goal_state \<Rightarrow> goal_state \<Rightarrow> bool" where
  "same_goal a b \<longleftrightarrow> goal_text a = goal_text b \<and> goal_status a = goal_status b \<and> token_budget a = token_budget b
     \<and> tokens_used a = tokens_used b \<and> time_used_seconds a = time_used_seconds b"

definition logged :: "pending_event list \<Rightarrow> event_record list \<Rightarrow> bool" where
  "logged evs recs = list_all2 (\<lambda>p r. ev_type r = pe_type p \<and> ev_payload r = pe_payload p) evs recs"

definition logged_goal :: "event_record list \<Rightarrow> goal_state" where
  "logged_goal recs = replay (fst (replay_goal_event_records recs))"

lemma same_goal_active: "same_goal a b \<Longrightarrow> goal_is_active a = goal_is_active b"
  by (simp add: same_goal_def goal_is_active_def)

lemma same_goal_reduce: "same_goal a b \<Longrightarrow> same_goal (reduce a e) (reduce b e)"
  using same_goal_active [of a b]
  by (cases e) (auto simp: reduce_def same_goal_def apply_budget_limit_if_reached_def split: option.split)

lemma replay_from_events: "fst (replay_from (es, t) rs) = es @ List.map_filter goal_event_from_record rs"
  by (induction "(es, t)" rs arbitrary: es t rule: replay_from.induct)
     (auto simp: List.map_filter_simps split: option.split)

lemma logged_goal_fold: "logged_goal rs = foldl reduce goal_default (List.map_filter goal_event_from_record rs)"
  by (simp add: logged_goal_def replay_goal_event_records_def replay_from_events replay_def)

lemma logged_goal_append:
  "logged_goal (rs1 @ rs2) = foldl reduce (logged_goal rs1) (List.map_filter goal_event_from_record rs2)"
  by (simp add: logged_goal_fold map_filter_append)

lemma logged_append: "logged (xs @ ys) recs \<Longrightarrow> \<exists>r1 r2. recs = r1 @ r2 \<and> logged xs r1 \<and> logged ys r2"
  by (auto simp: logged_def list_all2_append1)

lemma gm_apply_state [simp]: "gm_state (snd (gm_apply scaled m e)) = reduce (gm_state m) e"
  by (simp add: gm_apply_def Let_def)

lemma gm_apply_events:
  "fst (gm_apply scaled m e) =
     steering_events scaled (gm_session m) (gm_state m) (reduce (gm_state m) e) (gm_budget m) (gm_budget (snd (gm_apply scaled m e)))"
  by (simp add: gm_apply_def Let_def)

lemma local_status_stable:
  "s \<in> set local_statuses \<Longrightarrow> local_status_from_protocol (protocol_status_from_str (Some s)) = s"
  "s \<in> set local_statuses \<Longrightarrow>
     local_status_from_protocol (protocol_status_from_str (Some (thread_status_json (protocol_status_from_str (Some s))))) = s"
  by (auto simp: local_statuses_def protocol_status_from_str_def status_defs Let_def)

definition status_known :: "goal_state \<Rightarrow> bool" where
  "status_known s \<longleftrightarrow> (case goal_text s of None \<Rightarrow> goal_status s = None
       | Some _ \<Rightarrow> \<exists>v\<in>set local_statuses. goal_status s = Some v)
     \<and> in_i64_opt (token_budget s)"

lemmas event_type_defs = event_names goal_updated_event_def goal_accounted_event_def goal_cleared_event_def

text \<open>What a reader of the log makes of the events the manager steers with.\<close>

lemma steering_replayed:
  assumes "logged (steering_events scaled session a b ba bb) recs" "status_known b"
  shows "if \<not> goal_is_active a \<and> goal_is_active b
         then \<exists>gid. List.map_filter goal_event_from_record recs = [GoalSet gid (the (goal_text b)) (goal_status b) (token_budget b) None]
         else List.map_filter goal_event_from_record recs = []"
proof -
  have quiet: "goal_event_from_record r = None"
    if "ev_type r = goal_budget_warning_event \<or> ev_type r = goal_budget_limit_event" for r
    using that by (auto simp: goal_event_from_record_def event_type_defs)
  have set: "\<exists>gid. goal_event_from_record r = Some (GoalSet gid (the (goal_text b)) (goal_status b) (token_budget b) None)"
    if "ev_type r = goal_set_event" "ev_payload r = goal_set_payload b" "goal_is_active b" for r
  proof -
    from that(3) obtain t where t: "goal_text b = Some t" by (auto simp: goal_is_active_def)
    with assms(2) obtain v where v: "goal_status b = Some v" "v \<in> set local_statuses" by (auto simp: status_known_def)
    show ?thesis using that(1,2) assms(2) t v local_status_stable(1) [OF v(2)]
      by (cases "token_budget b")
         (auto simp: goal_event_from_record_def goal_set_payload_def string_field_def status_field_def i64_field_def
            get_str_def get_i64_def json_str_def json_int_def status_known_def in_i64_opt_def Let_def)
  qed
  show ?thesis using assms(1)
    by (auto simp: steering_events_def logged_def Let_def list_all2_Cons1 list_all2_append1 List.map_filter_simps map_filter_append quiet
        split: if_splits budget_level.splits dest!: set)
qed

lemma snapshot_fields [simp]:
  "get_str (snapshot_json g) ''status'' = Some (thread_status_json (tg_status g))"
  "get_str (snapshot_json g) ''objective'' = Some (tg_objective g)"
  "get_i64 (snapshot_json g) ''tokenBudget'' = (case tg_token_budget g of Some b \<Rightarrow> if in_i64 b then Some b else None | None \<Rightarrow> None)"
  "get_i64 (snapshot_json g) ''token_budget'' = None"
  by (cases "tg_token_budget g"; simp add: snapshot_json_def get_str_def get_i64_def)+

lemma updated_replayed:
  assumes "ev_type r = goal_updated_event" "in_i64_opt (tg_token_budget g)"
    "ev_payload r = put_opt ''objective'' (map_option JStr text) (put_opt ''text'' (map_option JStr text)
       (put_opt ''status'' (map_option JStr status) (JObj [(''goal'', snapshot_json g), (''type'', JStr goal_updated_event)])))"
  shows "goal_event_from_record r = Some (GoalUpdated
           (Some (local_status_from_protocol (protocol_status_from_str (Some (unwrap_or (thread_status_json (tg_status g)) status)))))
           (Some (unwrap_or (tg_objective g) text)) (tg_token_budget g))"
proof -
  define root where "root = ev_payload r"
  have goal: "json_get root ''goal'' = Some (snapshot_json g)"
    by (simp add: root_def assms(3) put_get)
  have status: "get_str root ''status'' = status"
    by (cases status) (simp_all add: root_def assms(3) get_str_def put_get json_get_insert)
  have objective: "get_str root ''objective'' = text"
    by (cases "text") (simp_all add: root_def assms(3) get_str_def put_get json_get_insert)
  have "get_str root ''text'' = text"
    by (cases "text") (simp_all add: root_def assms(3) get_str_def put_get json_get_insert)
  moreover have "get_i64 root ''token_budget'' = None" "get_i64 root ''tokenBudget'' = None"
    by (simp_all add: root_def assms(3) get_i64_def put_get)
  ultimately show ?thesis using goal status objective assms(2)
    by (cases status; cases "text"; cases "tg_token_budget g")
       (simp_all add: goal_event_from_record_def root_def [symmetric] assms(1) event_type_defs
          string_field_def status_field_def i64_field_def in_i64_opt_def Let_def)
qed

definition goal_traced :: "pending_event list \<Rightarrow> goal_store \<Rightarrow> bool" where
  "goal_traced evs st \<longleftrightarrow> status_known (gs_state st) \<and> (\<forall>recs. logged evs recs \<longrightarrow> same_goal (logged_goal recs) (gs_state st))"

lemma traced_nothing: "goal_traced tr st \<Longrightarrow> gs_state st' = gs_state st \<Longrightarrow> goal_traced tr st'"
  by (simp add: goal_traced_def)

text \<open>How an operation keeps the trace: one goal event on the live side, what the log's readers see on
  the other, and a calculation that the two agree on a common state.\<close>

lemma traced_step:
  assumes "goal_traced tr st" "status_known (gs_state st')"
    and "\<And>recs. logged outs recs \<Longrightarrow> same_goal (foldl reduce (gs_state st) (List.map_filter goal_event_from_record recs)) (gs_state st')"
  shows "goal_traced (tr @ outs) st'"
  unfolding goal_traced_def
proof (intro conjI allI impI)
  have fold: "same_goal (foldl reduce a es) (foldl reduce b es)" if "same_goal a b" for a b es
    using that by (induction es arbitrary: a b) (auto intro: same_goal_reduce)
  fix recs assume "logged (tr @ outs) recs"
  then obtain r1 r2 where r: "recs = r1 @ r2" "logged tr r1" "logged outs r2" using logged_append by blast
  then have "same_goal (logged_goal r1) (gs_state st)" using assms(1) by (simp add: goal_traced_def)
  from fold [OF this] assms(3) [OF r(3)] show "same_goal (logged_goal recs) (gs_state st')"
    unfolding r(1) logged_goal_append same_goal_def by metis
qed (rule assms(2))

lemma known_status_cases:
  "v \<in> set local_statuses \<longleftrightarrow> v \<in> {st_active, st_paused, st_complete, st_blocked, st_usage_limited, st_budget_limited}"
  by (auto simp: local_statuses_def)

lemma known_apply_limit: "status_known s \<Longrightarrow> status_known (apply_budget_limit_if_reached s)"
  by (auto simp: status_known_def apply_budget_limit_if_reached_def known_status_cases split: option.splits)

lemma known_set: "in_i64_opt b \<Longrightarrow> status_known (reduce s (GoalSet gid t None b idx))"
  by (simp add: reduce_def) (rule known_apply_limit, simp add: status_known_def known_status_cases)

lemma known_updated:
  "status_known s \<Longrightarrow> goal_text s \<noteq> None \<Longrightarrow> (\<And>v. status = Some v \<Longrightarrow> v \<in> set local_statuses) \<Longrightarrow>
   status_known (reduce s (GoalUpdated status t None))"
  by (simp add: reduce_def, rule known_apply_limit) (auto simp: status_known_def overwrite_def split: option.splits)

lemma known_accounted: "status_known s \<Longrightarrow> status_known (reduce s (GoalAccounted n secs))"
  by (cases "goal_is_active s")
     (simp add: reduce_def, rule known_apply_limit, auto simp: status_known_def reduce_def split: option.splits)

lemma apply_limit_idem:
  "same_goal (apply_budget_limit_if_reached (s\<lparr> goal_status := goal_status (apply_budget_limit_if_reached s) \<rparr>))
             (apply_budget_limit_if_reached s)"
  by (auto simp: same_goal_def apply_budget_limit_if_reached_def status_defs split: option.splits)

lemma stays_stopped:
  assumes "\<not> goal_is_active s" "goal_text s \<noteq> None" "\<And>v. status = Some v \<Longrightarrow> v \<in> set local_statuses \<and> v \<notin> {st_active, st_budget_limited}"
  shows "\<not> goal_is_active (reduce s (GoalUpdated status t None))"
  by (simp add: reduce_def)
     (insert assms, auto simp: goal_is_active_def overwrite_def known_status_cases split: option.splits)

lemma update_fields_traced:
  assumes "goal_traced tr st" "\<And>v. status = Some v \<Longrightarrow> v \<in> set local_statuses"
    and "goal_text (gs_state st) \<noteq> None \<Longrightarrow> \<not> goal_is_active (gs_state st) \<Longrightarrow> status \<notin> {Some st_active, Some st_budget_limited}"
    and "update_goal_fields_response scaled None now status text None mode st = (r, outs, st')"
  shows "goal_traced (tr @ outs) st'"
proof (cases "goal_text (gs_state st)")
  case None
  with assms(4) have "outs = []" "st' = st"
    by (auto simp: update_goal_fields_response_def validate_goal_budget_def refresh_from_source_def)
  with assms(1) show ?thesis by (auto intro: traced_nothing)
next
  case (Some t)
  let ?L = "gs_state st" and ?e = "GoalUpdated status text None"
  let ?L' = "reduce ?L ?e"
  let ?u = "update_goal scaled status text None (gs_manager st)"
  have u: "gm_state (snd ?u) = ?L'" by (simp add: update_goal_def)
  then obtain t' where t': "goal_text (gm_state (snd ?u)) = Some t'"
    using Some by (cases "text") (auto simp: reduce_def overwrite_def)
  have st': "gs_manager st' = snd ?u" and r: "r = Inr (current_response now mode st')"
    and outs': "outs = fst ?u @ [goal_pending st' goal_updated_event (put_opt ''objective'' (map_option JStr text) (put_opt ''text'' (map_option JStr text)
          (put_opt ''status'' (map_option JStr status) (JObj [(''goal'', unwrap_or JNull (json_get (current_response now mode st') ''goal'')),
            (''type'', JStr goal_updated_event)]))))]"
    using assms(4) Some
    by (auto simp: update_goal_fields_response_def validate_goal_budget_def refresh_from_source_def Let_def case_prod_beta
        mark_updated_now_def clear_reported_def split: if_splits)
  have state: "gs_state st' = ?L'" using st' u by simp
  then obtain g where g: "goal_snapshot now st' = Some g" using t' st' by (auto simp: goal_snapshot_def)
  then have outs: "outs = fst ?u @ [goal_pending st' goal_updated_event (put_opt ''objective'' (map_option JStr text) (put_opt ''text'' (map_option JStr text)
          (put_opt ''status'' (map_option JStr status) (JObj [(''goal'', snapshot_json g), (''type'', JStr goal_updated_event)]))))]"
    by (simp add: outs' current_response_def goal_response_json_def goal_tool_response_new_def json_opt_def)
  have known: "status_known ?L" using assms(1) by (simp add: goal_traced_def)
  have known': "status_known ?L'" using known Some assms(2) by (intro known_updated) auto
  show ?thesis
  proof (rule traced_step [OF assms(1)])
    show "status_known (gs_state st')" using known' state by simp
    fix recs assume "logged outs recs"
    then obtain r1 x where r1: "logged (fst (update_goal scaled status text None (gs_manager st))) r1"
      and x: "ev_type x = goal_updated_event"
        "ev_payload x = put_opt ''objective'' (map_option JStr text) (put_opt ''text'' (map_option JStr text)
          (put_opt ''status'' (map_option JStr status) (JObj [(''goal'', snapshot_json g), (''type'', JStr goal_updated_event)])))"
      and recs: "recs = r1 @ [x]"
      using outs by (auto simp: goal_pending_def logged_def list_all2_append1 list_all2_Cons1)
    have gfields: "tg_status g = protocol_status_from_str (goal_status ?L')" "tg_token_budget g = token_budget ?L'"
      "Some (tg_objective g) = goal_text ?L'"
      using g state by (auto simp: goal_snapshot_def Let_def)
    have quiet: "List.map_filter goal_event_from_record r1 = []"
    proof -
      have "\<not> goal_is_active ?L \<Longrightarrow> \<not> goal_is_active ?L'"
        using assms(2,3) Some by (intro stays_stopped) auto
      then show ?thesis
        using steering_replayed [OF r1 [unfolded update_goal_def gm_apply_events] known'] by (auto split: if_splits)
    qed
    have budget: "in_i64_opt (tg_token_budget g)" using known' gfields by (simp add: status_known_def)
    obtain v' where v': "goal_status ?L' = Some v'" "v' \<in> set local_statuses"
      using known' gfields(3) by (auto simp: status_known_def split: option.splits)
    have ev: "goal_event_from_record x = Some (GoalUpdated (Some (unwrap_or v' status)) (goal_text ?L') (token_budget ?L'))"
      using updated_replayed [OF x(1) budget x(2)] assms(2) local_status_stable v' gfields Some
      by (cases status; cases "text") (auto simp: reduce_def overwrite_def)
    have "same_goal (reduce ?L (GoalUpdated (Some (unwrap_or v' status)) (goal_text ?L') (token_budget ?L'))) ?L'"
      using v'(1) by (cases status; cases "text"; cases "goal_text ?L"; cases "token_budget ?L")
        (auto simp: reduce_def overwrite_def same_goal_def apply_budget_limit_if_reached_def status_defs split: option.splits if_splits)
    then show "same_goal (foldl reduce ?L (List.map_filter goal_event_from_record recs)) (gs_state st')"
      by (simp add: recs map_filter_append quiet ev List.map_filter_simps state)
  qed
qed

lemma steering_set_event:
  "list_ex (\<lambda>e. pe_type e = goal_set_event) (steering_events scaled session a b ba bb) \<longleftrightarrow> \<not> goal_is_active a \<and> goal_is_active b"
  by (auto simp: steering_events_def Let_def event_names split: budget_level.split)

lemma set_state:
  fixes s :: goal_state
  assumes "s' = reduce s (GoalSet gid t None b idx)"
  shows "goal_is_active s'" "goal_text s' = Some t" "token_budget s' = b"
    "same_goal (reduce s (GoalSet gid' t (goal_status s') b None)) s'"
  by (auto simp: assms reduce_def goal_is_active_def same_goal_def apply_budget_limit_if_reached_def status_defs split: option.split)

text \<open>A goal set by the store is read back, from the manager's event or from the replacement's.\<close>

lemma set_goal_traced:
  assumes "goal_traced tr st" "in_i64_opt b" "gs_manager st1 = gs_manager st" "gs_manager st' = snd (set_goal scaled gid t b None (gs_manager st))"
    and "outs = fst (set_goal scaled gid t b None (gs_manager st)) @
           (if list_ex (\<lambda>e. pe_type e = goal_set_event) (fst (set_goal scaled gid t b None (gs_manager st))) then [] else replacement_created_events now st')"
  shows "goal_traced (tr @ outs) st'"
proof -
  let ?L = "gs_state st" and ?L' = "gs_state st'" and ?evs = "fst (set_goal scaled gid t b None (gs_manager st))"
  have L': "?L' = reduce ?L (GoalSet gid t None b None)" using assms(4) by (simp add: set_goal_def)
  note facts = set_state [OF L']
  have known': "status_known ?L'" unfolding L' using assms(2) by (rule known_set)
  have created: "list_ex (\<lambda>e. pe_type e = goal_set_event) ?evs \<longleftrightarrow> \<not> goal_is_active ?L"
    using facts(1) by (simp add: set_goal_def gm_apply_events steering_set_event L' [symmetric])
  show ?thesis
  proof (rule traced_step [OF assms(1) known'])
    fix recs assume "logged outs recs"
    then obtain r1 r2 where r: "recs = r1 @ r2" "logged ?evs r1"
      "logged (if \<not> goal_is_active ?L then [] else replacement_created_events now st') r2"
      unfolding assms(5) created by (metis logged_append)
    have steer: "if \<not> goal_is_active ?L
       then \<exists>gid. List.map_filter goal_event_from_record r1 = [GoalSet gid t (goal_status ?L') b None]
       else List.map_filter goal_event_from_record r1 = []"
      using steering_replayed [OF r(2) [unfolded set_goal_def gm_apply_events, folded L'] known'] facts by (auto split: if_splits)
    have "\<exists>gid'. List.map_filter goal_event_from_record recs = [GoalSet gid' t (goal_status ?L') b None]"
    proof (cases "goal_is_active ?L")
      case False
      then show ?thesis using steer r by (auto simp: logged_def)
    next
      case True
      obtain v where v: "goal_status ?L' = Some v" "v \<in> set local_statuses"
        using known' facts(2) by (auto simp: status_known_def)
      obtain g where g: "goal_snapshot now st' = Some g" "tg_objective g = t" "tg_token_budget g = b"
          "tg_status g = protocol_status_from_str (Some v)"
        using facts v by (auto simp: goal_snapshot_def Let_def)
      from True r(3) g(1) obtain x where x: "r2 = [x]" "ev_type x = goal_set_event"
        "ev_payload x = JObj
          [(''createdAt'', JNum (tg_created_at g)), (''goal'', snapshot_json g), (''objective'', JStr (tg_objective g)),
           (''status'', JStr (local_status_from_protocol (tg_status g))), (''text'', JStr (tg_objective g)),
           (''tokenBudget'', json_int (tg_token_budget g)), (''token_budget'', json_int (tg_token_budget g)),
           (''type'', JStr goal_set_event), (''updatedAt'', JNum (tg_updated_at g))]"
        by (auto simp: replacement_created_events_def goal_pending_def logged_def list_all2_Cons1)
      define root where "root = ev_payload x"
      have goal: "json_get root ''goal'' = Some (snapshot_json g)" by (simp add: root_def x(3))
      have strings: "get_str root ''objective'' = Some t" "get_str root ''status'' = Some v"
        using x(3) v g local_status_stable(1) [OF v(2)] by (simp_all add: root_def get_str_def)
      have budget: "get_i64 root ''token_budget'' = b" "get_i64 root ''tokenBudget'' = b"
        using x(3) g assms(2) by (cases b; simp add: root_def get_i64_def json_int_def in_i64_opt_def)+
      have turn: "get_i64 w k = None" if "k \<in> {''turn_idx'', ''turnIdx''}" "w \<in> {root, snapshot_json g}" for k w
        using that by (auto simp: snapshot_json_def root_def x(3) get_i64_def split: option.split)
      have "\<exists>gid'. goal_event_from_record x = Some (GoalSet gid' t (goal_status ?L') b None)"
        using x(2) v g goal strings budget turn assms(2) local_status_stable(1) [OF v(2)]
        by (cases b) (simp_all add: goal_event_from_record_def string_field_def status_field_def i64_field_def
            root_def [symmetric] in_i64_opt_def Let_def)
      with True steer r(1) x(1) show ?thesis by (auto simp: map_filter_append List.map_filter_simps)
    qed
    then show "same_goal (foldl reduce ?L (List.map_filter goal_event_from_record recs)) ?L'"
      using facts(4) by auto
  qed
qed

lemma tokens_in_i64 [simp]: "in_i64 (tokens_from_llm_usage u)"
  by (simp add: tokens_from_llm_usage_def tokens_from_usage_def)

lemma account_traced:
  assumes "goal_traced tr st" "in_i64 secs0" "account_usage scaled None now u secs0 st = (r, outs, st')"
  shows "goal_traced (tr @ outs) st'"
proof (cases "(tokens_from_llm_usage u \<le> 0 \<and> max secs0 0 = 0) \<or> \<not> goal_is_active (gs_state st)")
  case True
  then have "outs = []" "st' = st" using assms(3) by (auto simp: account_usage_def refresh_from_source_def Let_def cong: if_cong)
  with assms(1) show ?thesis by (auto intro: traced_nothing)
next
  case False
  let ?n = "tokens_from_llm_usage u"
  define secs where "secs = max secs0 0"
  let ?L = "gs_state st" and ?evs = "fst (record_usage scaled u secs (gs_manager st))"
  let ?L' = "reduce ?L (GoalAccounted ?n secs)"
  have act: "goal_is_active ?L" using False by simp
  have in_secs: "in_i64 secs" using assms(2) by (auto simp: secs_def max_def in_i64_def i64_min_def i64_max_def)
  have charge: "record_usage scaled u secs (gs_manager st) = gm_apply scaled (gs_manager st) (GoalAccounted ?n secs)"
    using act by (simp add: record_usage_def)
  have known: "status_known ?L" using assms(1) by (simp add: goal_traced_def)
  then have known': "status_known ?L'" by (rule known_accounted)
  have m': "gs_manager st' = snd (record_usage scaled u secs (gs_manager st))"
    using False assms(3) unfolding account_usage_def secs_def [symmetric]
    by (auto simp: refresh_from_source_def mark_updated_now_def Let_def case_prod_beta split: if_split_asm)
  then have state: "gs_state st' = ?L'" by (simp add: charge)
  define limited where "limited \<longleftrightarrow> goal_status ?L \<noteq> Some st_budget_limited \<and> goal_status ?L' = Some st_budget_limited"
  have "goal_text ?L \<noteq> None" using act by (simp add: goal_is_active_def)
  then obtain t where t: "goal_text ?L' = Some t" by (auto simp: reduce_def)
  then obtain g where g: "goal_snapshot now st' = Some g" "tg_objective g = t" "tg_token_budget g = token_budget ?L'"
      "tg_status g = protocol_status_from_str (goal_status ?L')"
    using state by (auto simp: goal_snapshot_def Let_def)
  have outs: "outs = ?evs @ [goal_pending st' goal_accounted_event (JObj
       [(''goal'', snapshot_json g), (''timeUsedSeconds'', JNum secs), (''time_used_seconds'', JNum secs),
        (''tokensUsed'', JNum ?n), (''tokens_used'', JNum ?n), (''type'', JStr goal_accounted_event)])]
      @ (if limited then [goal_pending st' goal_updated_event (JObj
          [(''goal'', snapshot_json g), (''status'', JStr st_budget_limited), (''type'', JStr goal_updated_event)])] else [])"
    using False assms(3) g(1) state m' unfolding limited_def account_usage_def secs_def [symmetric]
    by (auto simp: refresh_from_source_def Let_def case_prod_beta json_opt_def charge mark_updated_now_def split: if_split_asm)
  show ?thesis
  proof (rule traced_step [OF assms(1)])
    show "status_known (gs_state st')" using known' state by simp
    fix recs assume "logged outs recs"
    then obtain r1 x r2 where r: "recs = r1 @ x # r2" "logged ?evs r1" "ev_type x = goal_accounted_event"
        "ev_payload x = JObj
       [(''goal'', snapshot_json g), (''timeUsedSeconds'', JNum secs), (''time_used_seconds'', JNum secs),
        (''tokensUsed'', JNum ?n), (''tokens_used'', JNum ?n), (''type'', JStr goal_accounted_event)]"
      and r2: "logged (if limited then [goal_pending st' goal_updated_event (JObj
          [(''goal'', snapshot_json g), (''status'', JStr st_budget_limited), (''type'', JStr goal_updated_event)])] else []) r2"
      unfolding outs by (auto simp: goal_pending_def logged_def list_all2_append1 list_all2_Cons1)
    have quiet: "List.map_filter goal_event_from_record r1 = []"
      using steering_replayed [OF r(2) [unfolded charge gm_apply_events] known'] act by simp
    have charged: "goal_event_from_record x = Some (GoalAccounted ?n secs)"
      using False r(3,4) in_secs unfolding secs_def [symmetric]
      by (auto simp: goal_event_from_record_def i64_field_def get_i64_def event_type_defs Let_def)
    have "same_goal (foldl reduce ?L' (List.map_filter goal_event_from_record r2)) ?L'"
    proof (cases limited)
      case False
      with r2 show ?thesis by (simp add: logged_def same_goal_def)
    next
      case True
      then obtain y where y: "r2 = [y]" "ev_type y = goal_updated_event"
        "ev_payload y = put_opt ''objective'' (map_option JStr None) (put_opt ''text'' (map_option JStr None)
          (put_opt ''status'' (map_option JStr (Some st_budget_limited)) (JObj [(''goal'', snapshot_json g), (''type'', JStr goal_updated_event)])))"
        using r2 by (auto simp: goal_pending_def logged_def list_all2_Cons1)
      have "in_i64_opt (tg_token_budget g)" using known' g(3) by (simp add: status_known_def)
      from updated_replayed [OF y(2) this y(3)]
      have "goal_event_from_record y = Some (GoalUpdated (Some st_budget_limited) (goal_text ?L') (token_budget ?L'))"
        using g t by (simp add: local_status_stable local_statuses_def)
      moreover have "same_goal (reduce ?L' (GoalUpdated (Some st_budget_limited) (goal_text ?L') (token_budget ?L'))) ?L'"
        using True t unfolding limited_def
        by (cases "token_budget ?L'") (auto simp: reduce_def [of ?L'] overwrite_def same_goal_def apply_budget_limit_if_reached_def)
      ultimately show ?thesis by (simp add: y(1) List.map_filter_simps)
    qed
    then show "same_goal (foldl reduce ?L (List.map_filter goal_event_from_record recs)) (gs_state st')"
      by (simp add: r(1) map_filter_append quiet charged List.map_filter_simps state)
  qed
qed

lemma clear_traced:
  assumes "goal_traced tr st" "clear_goal_response scaled None now st = (r, outs, st')"
  shows "goal_traced (tr @ outs) st'"
proof (cases "goal_text (gs_state st)")
  case None
  with assms(2) have "outs = []" "st' = st" by (auto simp: clear_goal_response_def refresh_from_source_def)
  with assms(1) show ?thesis by (auto intro: traced_nothing)
next
  case (Some t)
  let ?evs = "fst (clear_goal scaled (gs_manager st))"
  have st': "gs_manager st' = snd (clear_goal scaled (gs_manager st))"
    and outs: "outs = ?evs @ [goal_pending st' goal_cleared_event (JObj [(''type'', JStr goal_cleared_event)])]"
    using assms(2) Some
    by (auto simp: clear_goal_response_def refresh_from_source_def clear_reported_def Let_def case_prod_beta)
  have state: "gs_state st' = goal_default" using st' by (simp add: clear_goal_def reduce_def)
  have known: "status_known goal_default" by (simp add: status_known_def goal_default_def in_i64_opt_def)
  show ?thesis
  proof (rule traced_step [OF assms(1)])
    show "status_known (gs_state st')" using known state by simp
    fix recs assume "logged outs recs"
    then obtain r1 x where r: "recs = r1 @ [x]" "logged ?evs r1" "ev_type x = goal_cleared_event"
      unfolding outs by (auto simp: goal_pending_def logged_def list_all2_append1 list_all2_Cons1)
    have "reduce (gs_state st) GoalCleared = goal_default" by (simp add: reduce_def)
    moreover have "\<not> goal_is_active goal_default" by (simp add: goal_is_active_def goal_default_def)
    ultimately have "List.map_filter goal_event_from_record r1 = []"
      using steering_replayed [OF r(2) [unfolded clear_goal_def gm_apply_events]] known by (auto split: if_splits)
    moreover have "goal_event_from_record x = Some GoalCleared"
      using r(3) by (simp add: goal_event_from_record_def event_type_defs Let_def)
    ultimately show "same_goal (foldl reduce (gs_state st) (List.map_filter goal_event_from_record recs)) (gs_state st')"
      by (simp add: r(1) map_filter_append List.map_filter_simps state reduce_def same_goal_def)
  qed
qed

lemma set_response_traced:
  assumes "goal_traced tr st" "in_i64_opt b"
  shows "create_goal_response scaled None now t b st = (r, outs, st') \<Longrightarrow> goal_traced (tr @ outs) st'"
    and "replace_goal_response scaled None now t b st = (r, outs, st') \<Longrightarrow> goal_traced (tr @ outs) st'"
proof -
  assume create: "create_goal_response scaled None now t b st = (r, outs, st')"
  show "goal_traced (tr @ outs) st'"
  proof (cases "\<exists>gid. gs_manager st' = snd (set_goal scaled gid (str_trim t) b None (gs_manager st))
      \<and> outs = fst (set_goal scaled gid (str_trim t) b None (gs_manager st)) \<and> goal_text (gs_state st) = None")
    case True
    then obtain gid where gid: "gs_manager st' = snd (set_goal scaled gid (str_trim t) b None (gs_manager st))"
      "outs = fst (set_goal scaled gid (str_trim t) b None (gs_manager st))" "\<not> goal_is_active (gs_state st)"
      by (auto simp: goal_is_active_def)
    then have "list_ex (\<lambda>e. pe_type e = goal_set_event) outs"
      using set_state(1) [OF refl] by (simp add: set_goal_def gm_apply_events steering_set_event)
    with gid assms show ?thesis by (intro set_goal_traced [of tr st b st st']) auto
  next
    case False
    with create have "outs = []" "gs_state st' = gs_state st"
      by (auto simp: create_goal_response_def refresh_from_source_def next_goal_id_def mark_created_now_def clear_reported_def
          Let_def case_prod_beta split: option.splits if_splits)
    with assms(1) show ?thesis by (auto intro: traced_nothing)
  qed
next
  assume replaced: "replace_goal_response scaled None now t b st = (r, outs, st')"
  show "goal_traced (tr @ outs) st'"
  proof (cases "or_else (validate_thread_goal_objective (str_trim t)) (validate_goal_budget b)")
    case (Some err)
    with replaced have "outs = []" "st' = st" by (auto simp: replace_goal_response_def Let_def)
    with assms(1) show ?thesis by (auto intro: traced_nothing)
  next
    case None
    define st1 where "st1 = snd (next_goal_id st)"
    have st1: "gs_manager st1 = gs_manager st" by (simp add: st1_def next_goal_id_def Let_def)
    have new: "gs_manager st' = snd (set_goal scaled (fst (next_goal_id st)) (str_trim t) b None (gs_manager st))"
      "outs = fst (set_goal scaled (fst (next_goal_id st)) (str_trim t) b None (gs_manager st)) @
         (if list_ex (\<lambda>e. pe_type e = goal_set_event) (fst (set_goal scaled (fst (next_goal_id st)) (str_trim t) b None (gs_manager st)))
          then [] else replacement_created_events now st')"
      using replaced None st1 [unfolded st1_def]
      by (auto simp: replace_goal_response_def refresh_from_source_def mark_created_now_def clear_reported_def Let_def case_prod_beta)
    show ?thesis by (rule set_goal_traced [OF assms st1 new])
  qed
qed

lemma edit_traced:
  assumes "goal_traced tr st" "\<And>v. status = Some v \<Longrightarrow> v \<in> set local_statuses"
    and "goal_text (gs_state st) \<noteq> None \<Longrightarrow> \<not> goal_is_active (gs_state st) \<Longrightarrow> status \<notin> {Some st_active, Some st_budget_limited}"
    and "edit_goal_response scaled None now t status st = (r, outs, st')"
  shows "goal_traced (tr @ outs) st'"
proof (cases "validate_thread_goal_objective (str_trim t)")
  case None
  then have "update_goal_fields_response scaled None now status (Some (str_trim t)) None ReportOmit st = (r, outs, st')"
    using assms(4) by (simp add: edit_goal_response_def refresh_from_source_def Let_def)
  with assms(1-3) show ?thesis by (rule update_fields_traced)
next
  case (Some err)
  with assms(4) have "outs = []" "st' = st" by (auto simp: edit_goal_response_def Let_def)
  with assms(1) show ?thesis by (auto intro: traced_nothing)
qed

lemma elapsed_traced:
  assumes "goal_traced tr st" "account_elapsed_since_last_update scaled None now st = (r, outs, st')"
  shows "goal_traced (tr @ outs) st'"
proof -
  consider "outs = []" "st' = st"
    | last_update where "account_usage scaled None now usage_default (sat_sub64 now last_update) st = (r, outs, st')"
    using assms(2)
    by (auto simp: account_elapsed_since_last_update_def account_elapsed_seconds_def refresh_from_source_def Let_def
        split: option.splits if_splits)
  then show ?thesis
  proof cases
    case 1
    with assms(1) show ?thesis by simp
  next
    case 2
    show ?thesis by (rule account_traced [OF assms(1) sat_sub64_in_range 2])
  qed
qed

interpretation goal_ops: guarded_machine "goal_op_step scaled" goal_traced goal_op_allowed for scaled
proof unfold_locales
  fix tr st e outs st'
  assume traced: "goal_traced tr st" and ok: "goal_op_allowed st e" and step: "goal_op_step scaled st e = (outs, st')"
  obtain now op where e: "e = (now, op)" by fastforce
  have result: "\<exists>r. f = (r, outs, st')" if "snd f = (outs, st')" for f :: "'r \<times> pending_event list \<times> goal_store"
    using that by (cases f) auto
  show "goal_traced (tr @ outs) st'"
  proof (cases op)
    case (OpCreate t b)
    with ok step e traced show ?thesis
      by (auto simp: goal_op_allowed_def goal_op_step_def dest!: result intro: set_response_traced(1))
  next
    case (OpReplace t b)
    with ok step e traced show ?thesis
      by (auto simp: goal_op_allowed_def goal_op_step_def dest!: result intro: set_response_traced(2))
  next
    case (OpEdit t s)
    with step e obtain r where "edit_goal_response scaled None now t s st = (r, outs, st')"
      by (auto simp: goal_op_step_def dest!: result)
    with traced ok e OpEdit show ?thesis
      by (intro edit_traced [of tr st s]) (auto simp: goal_op_allowed_def resumes_def split: option.splits)
  next
    case (OpStatus s)
    with step e obtain r where "update_status_response scaled None now s st = (r, outs, st')"
      by (auto simp: goal_op_step_def dest!: result)
    with traced ok e OpStatus show ?thesis
      unfolding update_status_response_def
      by (intro update_fields_traced [of tr st "Some s"]) (auto simp: goal_op_allowed_def resumes_def)
  next
    case OpClear
    with ok step e traced show ?thesis
      by (auto simp: goal_op_step_def dest!: result intro: clear_traced)
  next
    case (OpAccount u secs)
    with ok step e traced show ?thesis
      by (auto simp: goal_op_allowed_def goal_op_step_def dest!: result intro: account_traced)
  next
    case OpElapsed
    with ok step e traced show ?thesis
      by (auto simp: goal_op_step_def dest!: result intro: elapsed_traced)
  qed
qed

lemma new_traced: "goal_traced [] (goal_store_new session)"
  by (auto simp: goal_traced_def goal_store_new_def manager_new_def status_known_def goal_default_def in_i64_opt_def logged_def
      logged_goal_fold List.map_filter_simps same_goal_def)

lemma from_records_state: "gs_state (goal_store_from_records session recs) = logged_goal recs"
  by (simp add: goal_store_from_records_def manager_from_events_def logged_goal_def Let_def case_prod_beta)

lemma refreshed_state: "gs_state (refresh_from_event_records recs st) = logged_goal recs"
  by (simp add: refresh_from_event_records_def manager_from_events_def logged_goal_def Let_def case_prod_beta)

section \<open>Properties\<close>

text \<open>C36. Resume by replay. After any sequence of store operations that passes the goal's own statuses
  and does not set a stopped goal running again, a store rebuilt from the events those operations emitted
  has the same objective, status, budget, tokens and seconds as the live one. Not compared are the goal's
  identifier, which the rebuilt store takes from the event record, its turn and its times.\<close>

theorem goal_log_replays:
  assumes "all_allowed (goal_op_step scaled) goal_op_allowed (goal_store_new session) ops"
    and "run_emit (goal_op_step scaled) (goal_store_new session) ops = (evs, st)" "logged evs recs"
  shows "same_goal (gs_state (goal_store_from_records session recs)) (gs_state st)"
  using goal_ops.guarded_run [OF new_traced assms(1,2)] assms(3)
  by (simp add: goal_traced_def from_records_state)

definition demo_goal_ops :: "(int \<times> goal_op) list" where
  "demo_goal_ops = [(1, OpCreate ''book the flight'' (Some 1000)), (2, OpAccount usage_default 30), (3, OpStatus st_paused), (4, OpClear)]"

lemma goal_log_replays_witness:
  "\<exists>evs st recs. run_emit (goal_op_step id) (goal_store_new ''s'') demo_goal_ops = (evs, st) \<and> logged evs recs
     \<and> same_goal (gs_state (goal_store_from_records ''s'' recs)) (gs_state st)"
proof -
  obtain evs st where run: "run_emit (goal_op_step id) (goal_store_new ''s'') demo_goal_ops = (evs, st)" by fastforce
  define recs where "recs = map (\<lambda>p. \<lparr> ev_seq = 0, ev_id = ''e'', ev_session = ''s'', ev_ts_ms = 0, ev_type = pe_type p, ev_payload = pe_payload p \<rparr>) evs"
  have "logged evs recs" by (simp add: logged_def recs_def list_all2_map2 list_all2_refl)
  moreover have "all_allowed (goal_op_step id) goal_op_allowed (goal_store_new ''s'') demo_goal_ops"
    by (auto simp: demo_goal_ops_def goal_op_allowed_def resumes_def in_i64_def in_i64_opt_def i64_min_def i64_max_def local_statuses_def status_defs)
  ultimately show ?thesis using run goal_log_replays by blast
qed

text \<open>A resumed goal forgets its usage. Setting a paused goal running again makes the manager emit a
  creation event beside the update; the live store keeps the tokens used, but every store built from the log,
  whatever was logged before, starts again from zero.\<close>

lemma resume_forgets_usage:
  assumes "status_known (gs_state st)" "goal_text (gs_state st) = Some t" "goal_status (gs_state st) = Some st_paused"
    and "update_status_response scaled None now st_active st = (r, evs, st')" "logged evs recs"
  shows "tokens_used (gs_state st') = tokens_used (gs_state st)
         \<and> tokens_used (gs_state (goal_store_from_records session (recs0 @ recs))) = 0"
proof -
  let ?e = "GoalUpdated (Some st_active) None None" and ?u = "update_goal scaled (Some st_active) None None (gs_manager st)"
  let ?L' = "reduce (gs_state st) ?e"
  have new: "gs_manager st' = snd ?u" "\<exists>payload. evs = fst ?u @ [goal_pending st' goal_updated_event payload]"
    using assms(2,4)
    by (auto simp: update_status_response_def update_goal_fields_response_def validate_goal_budget_def refresh_from_source_def
        mark_updated_now_def clear_reported_def Let_def case_prod_beta split: if_splits)
  have live: "tokens_used (gs_state st') = tokens_used (gs_state st)"
    by (simp add: new(1) update_goal_def reduce_def)
  obtain r1 x where r: "recs = r1 @ [x]" "logged (fst ?u) r1" "ev_type x = goal_updated_event"
    using new(2) assms(5) by (auto simp: goal_pending_def logged_def list_all2_append1 list_all2_Cons1)
  have "status_known ?L'" using assms(1,2) by (intro known_updated) (auto simp: local_statuses_def)
  moreover have "\<not> goal_is_active (gs_state st)" using assms(3) by (simp add: goal_is_active_def)
  moreover have "goal_is_active ?L'"
    using assms(2) by (simp add: reduce_def) (simp add: goal_is_active_def overwrite_def status_defs)
  ultimately obtain gid where "List.map_filter goal_event_from_record r1 = [GoalSet gid (the (goal_text ?L')) (goal_status ?L') (token_budget ?L') None]"
    using steering_replayed [OF r(2) [unfolded update_goal_def gm_apply_events]] by (auto split: if_splits)
  moreover have "(\<exists>a b c. goal_event_from_record x = Some (GoalUpdated a b c)) \<or> goal_event_from_record x = None"
    using r(3) by (auto simp: goal_event_from_record_def event_type_defs Let_def)
  ultimately have "tokens_used (gs_state (goal_store_from_records session (recs0 @ recs))) = 0"
    by (auto simp: from_records_state logged_goal_append r(1) map_filter_append List.map_filter_simps reduce_def)
  with live show ?thesis by simp
qed

definition paused_store :: goal_store where
  "paused_store = (goal_store_new ''s'')\<lparr> gs_manager := manager_from_events ''s''
     [GoalSet ''goal-1'' ''book the flight'' None (Some 1000) None, GoalAccounted 70 30, GoalUpdated (Some st_paused) None None] \<rparr>"

lemma resume_forgets_usage_witness:
  "\<exists>r evs st' recs. update_status_response id None 9 st_active paused_store = (r, evs, st') \<and> logged evs recs
     \<and> tokens_used (gs_state st') = 70 \<and> tokens_used (gs_state (goal_store_from_records ''s'' recs)) = 0"
proof -
  obtain r evs st' where run: "update_status_response id None 9 st_active paused_store = (r, evs, st')" by (metis prod_cases3)
  define recs where "recs = map (\<lambda>p. \<lparr> ev_seq = 0, ev_id = ''e'', ev_session = ''s'', ev_ts_ms = 0, ev_type = pe_type p, ev_payload = pe_payload p \<rparr>) evs"
  have logged: "logged evs recs" by (simp add: logged_def recs_def list_all2_map2 list_all2_refl)
  have st: "goal_text (gs_state paused_store) = Some ''book the flight''" "goal_status (gs_state paused_store) = Some st_paused"
    "token_budget (gs_state paused_store) = Some 1000" "tokens_used (gs_state paused_store) = 70"
    by (simp_all add: paused_store_def manager_from_events_def replay_def reduce_def goal_default_def goal_is_active_def
        apply_budget_limit_if_reached_def overwrite_def status_defs sat_add64_def clamp_i64_def i64_max_def i64_min_def)
  then have "status_known (gs_state paused_store)"
    by (simp add: status_known_def local_statuses_def in_i64_opt_def in_i64_def i64_max_def i64_min_def)
  from resume_forgets_usage [OF this st(1,2) run logged, of _ "[]"] run logged st(4) show ?thesis by auto
qed

text \<open>The budget-limit prompt is given once for a goal: after a limited goal's prompt was given, a refresh
  from a log in which the same goal is still limited gives none.\<close>

lemma limit_prompt_once:
  assumes "goal_context_text (Some (Inr recs)) st = (r, st1)" "goal_status (logged_goal recs) = Some st_budget_limited"
    and "goal_id (logged_goal recs) = Some gid" "goal_status (logged_goal recs') = Some st_budget_limited"
    and "goal_id (logged_goal recs') = Some gid"
  shows "fst (goal_context_text (Some (Inr recs')) st1) = None"
proof -
  have "gs_reported st1 = Some gid"
    using assms(1-3)
    by (auto simp: goal_context_text_def refresh_from_source_def refreshed_state Let_def split: if_splits)
  moreover have "gs_reported (refresh_from_event_records recs' st1) =
      (if goal_status (logged_goal recs') = Some st_budget_limited \<and> gs_reported st1 = goal_id (logged_goal recs') then gs_reported st1 else None)"
    by (simp add: refresh_from_event_records_def manager_from_events_def logged_goal_def Let_def case_prod_beta)
  ultimately show ?thesis
    using assms(4,5) by (simp add: goal_context_text_def refresh_from_source_def refreshed_state Let_def)
qed

lemma create_needs_no_goal:
  assumes "goal_text (gs_state st) = Some t" "create_goal_response scaled None now objective budget st = (r, evs, st')"
  shows "(\<exists>err. r = Inl err) \<and> evs = [] \<and> gs_state st' = gs_state st"
  using assms
  by (auto simp: create_goal_response_def refresh_from_source_def next_goal_id_def Let_def case_prod_beta split: option.splits)

end
