(* ===== verification/AgentPath.thy ===== *)
theory AgentPath
  imports Prelude
begin

text \<open>
  Canonical agent paths (\<open>subagents/tree.rs\<close>): children and parents of a path, the reference
  grammar of the legacy surface and the stricter grammar of the multi-agent v2 surface, the
  spawn-depth limit (\<open>subagents/depth.rs\<close>). Errors of the v2 grammar are its messages.
\<close>

section \<open>Spawn depth\<close>

definition default_agent_max_depth :: int where "default_agent_max_depth = 1"

text \<open>\<open>i32::saturating\_add\<close>.\<close>

definition next_spawn_depth :: "int \<Rightarrow> int" where
  "next_spawn_depth parent_depth = (if parent_depth < i32_max then parent_depth + 1 else i32_max)"

definition exceeds_depth_limit :: "int \<Rightarrow> int \<Rightarrow> bool" where
  "exceeds_depth_limit depth max_depth \<longleftrightarrow> depth > max_depth"

section \<open>Paths\<close>

definition root_agent_path :: string where "root_agent_path = ''/root''"
definition morpheus_agent_path :: string where "morpheus_agent_path = ''/morpheus''"

definition is_direct_child :: "string \<Rightarrow> string \<Rightarrow> bool" where
  "is_direct_child parent candidate =
     (case strip_pre parent candidate of
        None \<Rightarrow> False
      | Some rest \<Rightarrow>
          (case strip_pre ''/'' rest of
             None \<Rightarrow> False
           | Some seg \<Rightarrow> seg \<noteq> [] \<and> CHR ''/'' \<notin> set seg))"

definition parent_path_of :: "string \<Rightarrow> string option" where
  "parent_path_of agent_path =
     (let trimmed = trim_end_matches CHR ''/'' agent_path in
      case rposition (\<lambda>c. c = CHR ''/'') trimmed of
        None \<Rightarrow> None
      | Some idx \<Rightarrow> if idx = 0 then None else Some (take idx trimmed))"

definition trim_start_matches :: "'a \<Rightarrow> 'a list \<Rightarrow> 'a list" where
  "trim_start_matches c s = dropWhile (\<lambda>x. x = c) s"

definition canonical_agent_reference :: "string \<Rightarrow> string \<Rightarrow> string" where
  "canonical_agent_reference reference0 current =
     (let reference = str_trim (trim_start_matches CHR ''@'' (str_trim reference0)) in
      if reference = [] then current
      else if reference = ''root'' \<or> reference = ''/root'' then root_agent_path
      else if starts_with ''/'' reference then reference
      else if str_lower reference = ''parent'' \<or> reference = ''..''
      then (case parent_path_of current of Some p \<Rightarrow> p | None \<Rightarrow> root_agent_path)
      else if reference = ''.'' \<or> reference = ''self'' then current
      else trim_end_matches CHR ''/'' current @ ''/'' @ reference)"

section \<open>The v2 grammar\<close>

definition name_char :: "char \<Rightarrow> bool" where
  "name_char c \<longleftrightarrow> is_lower_ascii c \<or> is_digit_ascii c \<or> c = CHR ''_''"

text \<open>\<open>None\<close> is \<open>Ok(())\<close>.\<close>

definition validate_agent_name_v2 :: "string \<Rightarrow> string option" where
  "validate_agent_name_v2 name =
     (if name = [] then Some ''agent_name must not be empty''
      else if name = ''root'' then Some ''agent_name `root` is reserved''
      else if name = ''.'' \<or> name = ''..'' then Some (''agent_name `'' @ name @ ''` is reserved'')
      else if CHR ''/'' \<in> set name then Some ''agent_name must not contain `/`''
      else if \<not> list_all name_char name
      then Some ''agent_name must use only lowercase letters, digits, and underscores''
      else None)"

fun first_error :: "('a \<Rightarrow> 'e option) \<Rightarrow> 'a list \<Rightarrow> 'e option" where
  "first_error f [] = None"
| "first_error f (x # xs) = (case f x of Some e \<Rightarrow> Some e | None \<Rightarrow> first_error f xs)"

definition validate_absolute_agent_path_v2 :: "string \<Rightarrow> string option" where
  "validate_absolute_agent_path_v2 path =
     (if path = morpheus_agent_path then None
      else case strip_pre ''/'' path of
             None \<Rightarrow> Some ''absolute agent paths must start with `/root` or be `/morpheus`''
           | Some stripped \<Rightarrow>
               (case split_on CHR ''/'' stripped of
                  [] \<Rightarrow> Some ''absolute agent path must not be empty''
                | root # segments \<Rightarrow>
                    if root \<noteq> ''root''
                    then Some ''absolute agent paths must start with `/root` or be `/morpheus`''
                    else if ends_with ''/'' stripped
                    then Some ''absolute agent path must not end with `/`''
                    else first_error validate_agent_name_v2 segments))"

definition validate_relative_agent_reference_v2 :: "string \<Rightarrow> string option" where
  "validate_relative_agent_reference_v2 reference =
     (if ends_with ''/'' reference then Some ''relative agent path must not end with `/`''
      else first_error validate_agent_name_v2 (split_on CHR ''/'' reference))"

definition resolve_agent_path_v2 :: "string \<Rightarrow> string \<Rightarrow> string + string" where
  "resolve_agent_path_v2 current reference =
     (if reference = [] then Inl ''agent path must not be empty''
      else if reference = root_agent_path then Inr root_agent_path
      else if reference = morpheus_agent_path then Inr morpheus_agent_path
      else if starts_with ''/'' reference
      then (case validate_absolute_agent_path_v2 reference of
              Some e \<Rightarrow> Inl e | None \<Rightarrow> Inr reference)
      else (case validate_relative_agent_reference_v2 reference of
              Some e \<Rightarrow> Inl e
            | None \<Rightarrow> Inr (trim_end_matches CHR ''/'' current @ ''/'' @ reference)))"

section \<open>Lemmas\<close>

lemma first_error_None: "first_error f xs = None \<longleftrightarrow> (\<forall>x\<in>set xs. f x = None)"
  by (induction xs) (auto split: option.splits)

definition good_name :: "string \<Rightarrow> bool" where
  "good_name n \<longleftrightarrow> n \<noteq> [] \<and> n \<noteq> ''root'' \<and> list_all name_char n"

lemma not_name_char [simp]: "\<not> name_char CHR ''/''" "\<not> name_char CHR ''.''"
  by (simp_all add: name_char_def is_lower_ascii_def is_digit_ascii_def code_point_def)

lemma good_name_no_slash: "good_name n \<Longrightarrow> CHR ''/'' \<notin> set n"
  by (auto simp: good_name_def list_all_iff)

lemma validate_name: "validate_agent_name_v2 n = None \<longleftrightarrow> good_name n"
proof -
  have "list_all name_char n \<Longrightarrow> CHR ''/'' \<notin> set n \<and> n \<noteq> ''.'' \<and> n \<noteq> ''..''"
    by (auto simp: list_all_iff)
  then show ?thesis by (auto simp: validate_agent_name_v2_def good_name_def)
qed

text \<open>The paths of the \<open>/root\<close> tree: \<open>/root\<close> followed by good names.\<close>

definition path_of_names :: "string list \<Rightarrow> string" where
  "path_of_names ns = ''/root'' @ concat (map (\<lambda>n. CHR ''/'' # n) ns)"

definition valid_path :: "string \<Rightarrow> bool" where
  "valid_path p \<longleftrightarrow> (\<exists>ns. p = path_of_names ns \<and> list_all good_name ns)"

lemma path_of_names_snoc: "path_of_names (ns @ [n]) = path_of_names ns @ ''/'' @ n"
  by (simp add: path_of_names_def)

lemma path_of_names_append: "ms \<noteq> [] \<Longrightarrow> path_of_names (ns @ ms) = path_of_names ns @ ''/'' @ join_with ''/'' ms"
proof (induction ms arbitrary: ns)
  case (Cons m ms)
  show ?case
  proof (cases ms)
    case Nil
    then show ?thesis by (simp add: path_of_names_def)
  next
    case (Cons k ks)
    have "path_of_names (ns @ m # ms) = path_of_names ((ns @ [m]) @ ms)" by simp
    also have "\<dots> = path_of_names (ns @ [m]) @ ''/'' @ join_with ''/'' ms"
      using Cons by (intro Cons.IH) simp
    finally show ?thesis using Cons by (simp add: path_of_names_def join_with_Cons)
  qed
qed simp

lemma valid_path_last: "list_all good_name ns \<Longrightarrow> last (path_of_names ns) \<noteq> CHR ''/''"
proof (cases ns rule: rev_cases)
  case (snoc ms n)
  assume "list_all good_name ns"
  with snoc have "good_name n" by simp
  then have "n \<noteq> []" "CHR ''/'' \<notin> set n" using good_name_no_slash [of n] by (auto simp: good_name_def)
  then have "n \<noteq> []" "last n \<noteq> CHR ''/''" using last_in_set [of n] by metis+
  then show ?thesis using snoc by (simp add: path_of_names_snoc)
qed (simp add: path_of_names_def)

lemma valid_path_trim: "valid_path p \<Longrightarrow> trim_end_matches CHR ''/'' p = p"
proof -
  assume "valid_path p"
  then have "p \<noteq> []" "last p \<noteq> CHR ''/''"
    using valid_path_last by (auto simp: valid_path_def path_of_names_def)
  then show ?thesis by (cases p rule: rev_cases) (auto simp: trim_end_matches_def)
qed

lemma split_path_of_names:
  "list_all good_name ns \<Longrightarrow> split_on CHR ''/'' (drop 1 (path_of_names ns)) = ''root'' # ns"
proof -
  assume g: "list_all good_name ns"
  have "drop 1 (path_of_names ns) = join_with ''/'' (''root'' # ns)"
    by (induction ns rule: rev_induct)
       (auto simp: path_of_names_def join_with_append [of "_ # _" "[_]", simplified])
  moreover have "\<forall>x\<in>set (''root'' # ns). CHR ''/'' \<notin> set x"
    using g good_name_no_slash by (auto simp: list_all_iff)
  ultimately show ?thesis by (simp add: split_join_on del: join_with.simps)
qed

lemma ends_with_last: "ends_with [c] s \<longleftrightarrow> s \<noteq> [] \<and> last s = c"
  by (cases s rule: rev_cases) (auto simp: ends_with_iff suffix_def)

lemma rposition_snoc_free:
  "\<forall>x\<in>set ys. \<not> P x \<Longrightarrow> P c \<Longrightarrow> rposition P (xs @ c # ys) = Some (length xs)"
proof -
  assume ys: "\<forall>x\<in>set ys. \<not> P x" and c: "P c"
  have "position P (rev ys @ c # rev xs) = Some (length ys)"
    using ys c by (auto simp: position_Some nth_append) (metis length_rev nth_mem set_rev)
  then show ?thesis by (simp add: rposition_def)
qed

lemma parent_of_child:
  assumes "list_all good_name (ns @ [n])"
  shows "parent_path_of (path_of_names (ns @ [n])) = Some (path_of_names ns)"
proof -
  have "valid_path (path_of_names (ns @ [n]))" using assms by (auto simp: valid_path_def)
  then have t: "trim_end_matches CHR ''/'' (path_of_names (ns @ [n])) = path_of_names ns @ CHR ''/'' # n"
    using valid_path_trim by (simp add: path_of_names_snoc)
  have "rposition (\<lambda>c. c = CHR ''/'') (path_of_names ns @ CHR ''/'' # n) = Some (length (path_of_names ns))"
    using assms good_name_no_slash [of n] by (intro rposition_snoc_free) auto
  moreover have "length (path_of_names ns) \<noteq> 0" by (simp add: path_of_names_def)
  ultimately show ?thesis by (simp add: parent_path_of_def t)
qed

lemma parent_of_root: "parent_path_of (path_of_names []) = None"
  by (simp add: path_of_names_def parent_path_of_def trim_end_matches_def rposition_def)

lemma valid_relative:
  "validate_relative_agent_reference_v2 r = None \<longleftrightarrow>
     (\<exists>ms. ms \<noteq> [] \<and> list_all good_name ms \<and> r = join_with ''/'' ms)"
proof
  assume "validate_relative_agent_reference_v2 r = None"
  then have "list_all good_name (split_on CHR ''/'' r)"
    by (auto simp: validate_relative_agent_reference_v2_def first_error_None validate_name
        list_all_iff split: if_splits)
  then show "\<exists>ms. ms \<noteq> [] \<and> list_all good_name ms \<and> r = join_with ''/'' ms"
    by (intro exI [of _ "split_on CHR ''/'' r"]) simp
next
  assume "\<exists>ms. ms \<noteq> [] \<and> list_all good_name ms \<and> r = join_with ''/'' ms"
  then obtain ms where ms: "ms \<noteq> []" "list_all good_name ms" "r = join_with ''/'' ms" by blast
  then have sp: "split_on CHR ''/'' r = ms"
    using good_name_no_slash by (auto simp: list_all_iff split_join_on)
  have "path_of_names ms = ''/root'' @ ''/'' @ r"
    using path_of_names_append [of ms "[]"] ms by (simp add: path_of_names_def)
  then have "r = [] \<or> last r \<noteq> CHR ''/''" using valid_path_last [OF ms(2)] by auto
  then show "validate_relative_agent_reference_v2 r = None"
    using ms(2) by (auto simp: validate_relative_agent_reference_v2_def ends_with_last sp
        first_error_None validate_name list_all_iff)
qed

lemma valid_absolute:
  "validate_absolute_agent_path_v2 p = None \<longleftrightarrow> p = morpheus_agent_path \<or> valid_path p"
proof (cases "p = morpheus_agent_path")
  case True
  then show ?thesis by (simp add: validate_absolute_agent_path_v2_def)
next
  case False
  show ?thesis
  proof
    assume "validate_absolute_agent_path_v2 p = None"
    with False obtain t ns where t: "p = CHR ''/'' # t" "split_on CHR ''/'' t = ''root'' # ns"
      "list_all good_name ns"
      by (auto simp: validate_absolute_agent_path_v2_def first_error_None validate_name list_all_iff
          strip_pre_Some split: option.splits list.splits if_splits)
    have "t = join_with ''/'' (''root'' # ns)" using t(2) by (metis join_split_on)
    moreover have "path_of_names [] = ''/root''" by (simp add: path_of_names_def)
    ultimately have "p = path_of_names ns" unfolding t(1)
      using path_of_names_append [of ns "[]"] by (cases "ns = []") (simp_all add: join_with_Cons)
    with t(3) show "p = morpheus_agent_path \<or> valid_path p" by (auto simp: valid_path_def)
  next
    assume "p = morpheus_agent_path \<or> valid_path p"
    with False obtain ns where ns: "p = path_of_names ns" "list_all good_name ns"
      by (auto simp: valid_path_def)
    have p: "p = CHR ''/'' # drop 1 p" by (simp add: ns path_of_names_def)
    have "last p \<noteq> CHR ''/''" using valid_path_last ns by simp
    then have "\<not> ends_with ''/'' (drop 1 p)"
      by (subst (asm) p) (auto simp: ends_with_last)
    moreover have "strip_pre ''/'' p = Some (drop 1 p)" by (subst p) simp
    ultimately show "validate_absolute_agent_path_v2 p = None"
      using False split_path_of_names [OF ns(2)] ns
      by (simp add: validate_absolute_agent_path_v2_def first_error_None validate_name list_all_iff)
  qed
qed

section \<open>Properties\<close>

text \<open>C39. The v2 grammar is exact for an agent of the root tree: a reference resolves exactly when
  it is \<open>/morpheus\<close>, a path of the root tree, or good names joined by slashes; the result is
  the reference itself when it is absolute, and otherwise the path of that descendant of the
  current agent, which is again a path of the root tree strictly below it.\<close>

theorem resolve_v2_exact:
  assumes "current = path_of_names cs" "list_all good_name cs"
  shows "resolve_agent_path_v2 current ref = Inr p \<longleftrightarrow>
           (p = ref \<and> (ref = morpheus_agent_path \<or> valid_path ref))
           \<or> (\<exists>ms. ms \<noteq> [] \<and> list_all good_name ms \<and> ref = join_with ''/'' ms
                \<and> p = path_of_names (cs @ ms) \<and> valid_path p \<and> strict_prefix current p)"
proof -
  have trim: "trim_end_matches CHR ''/'' current = current"
    using assms by (auto intro!: valid_path_trim simp: valid_path_def)
  have slash: "\<not> starts_with ''/'' (join_with ''/'' ms)" if "ms \<noteq> []" "list_all good_name ms" for ms
  proof -
    from that obtain n t where n: "ms = n # t" "good_name n" by (cases ms) auto
    then obtain c m where "n = c # m" "name_char c" by (cases n) (auto simp: good_name_def)
    moreover from this(2) have "c \<noteq> CHR ''/''" by auto
    ultimately have "ms = n # t" "n = c # m" "c \<noteq> CHR ''/''" using n by auto
    then show ?thesis by (cases t) (auto simp: starts_with_iff)
  qed
  have root: "valid_path root_agent_path"
    unfolding valid_path_def by (rule exI [of _ "[]"]) (simp add: path_of_names_def root_agent_path_def)
  have abs: "starts_with ''/'' ref" if "ref = morpheus_agent_path \<or> valid_path ref"
    using that by (auto simp: valid_path_def path_of_names_def morpheus_agent_path_def starts_with_iff)
  show ?thesis
  proof (cases "starts_with ''/'' ref")
    case True
    then have "resolve_agent_path_v2 current ref = Inr p \<longleftrightarrow> p = ref \<and> (ref = morpheus_agent_path \<or> valid_path ref)"
      using root valid_absolute [of ref]
      by (auto simp: resolve_agent_path_v2_def starts_with_iff split: option.splits)
    then show ?thesis using True slash by auto
  next
    case False
    then have "resolve_agent_path_v2 current ref = Inr p \<longleftrightarrow>
        ref \<noteq> [] \<and> validate_relative_agent_reference_v2 ref = None \<and> p = current @ ''/'' @ ref"
      using abs root by (auto simp: resolve_agent_path_v2_def trim root_agent_path_def
          morpheus_agent_path_def starts_with_iff split: option.splits)
    also have "\<dots> \<longleftrightarrow> (\<exists>ms. ms \<noteq> [] \<and> list_all good_name ms \<and> ref = join_with ''/'' ms
                \<and> p = path_of_names (cs @ ms) \<and> valid_path p \<and> strict_prefix current p)"
    proof
      assume "ref \<noteq> [] \<and> validate_relative_agent_reference_v2 ref = None \<and> p = current @ ''/'' @ ref"
      then obtain ms where ms: "ms \<noteq> []" "list_all good_name ms" "ref = join_with ''/'' ms"
        "p = current @ ''/'' @ ref" using valid_relative by blast
      have strict: "strict_prefix current p" by (simp add: ms(4) strict_prefix_def)
      have "p = path_of_names (cs @ ms)" using assms ms by (simp add: path_of_names_append)
      moreover have "list_all good_name (cs @ ms)" using assms ms by simp
      ultimately show "\<exists>ms. ms \<noteq> [] \<and> list_all good_name ms \<and> ref = join_with ''/'' ms
                \<and> p = path_of_names (cs @ ms) \<and> valid_path p \<and> strict_prefix current p"
        using ms(1-3) strict by (intro exI [of _ ms]) (auto simp: valid_path_def)
    next
      assume "\<exists>ms. ms \<noteq> [] \<and> list_all good_name ms \<and> ref = join_with ''/'' ms
                \<and> p = path_of_names (cs @ ms) \<and> valid_path p \<and> strict_prefix current p"
      then obtain ms where ms: "ms \<noteq> []" "list_all good_name ms" "ref = join_with ''/'' ms"
        "p = path_of_names (cs @ ms)" by blast
      moreover have "ref \<noteq> []" using ms by (cases ms; cases "tl ms") (auto simp: good_name_def)
      ultimately show "ref \<noteq> [] \<and> validate_relative_agent_reference_v2 ref = None \<and> p = current @ ''/'' @ ref"
        using assms valid_relative by (auto simp: path_of_names_append)
    qed
    finally show ?thesis using False abs by auto
  qed
qed

lemma resolve_v2_exact_witness:
  "resolve_agent_path_v2 ''/root/a'' ''b_1/c'' = Inr ''/root/a/b_1/c''"
proof -
  have g: "list_all good_name [''a'']" "list_all good_name [''b_1'', ''c'']"
    "list_all good_name [''a'', ''b_1'', ''c'']"
    by (simp_all add: good_name_def name_char_def is_lower_ascii_def is_digit_ascii_def code_point_def)
  have p: "''/root/a'' = path_of_names [''a'']" "''/root/a/b_1/c'' = path_of_names ([''a''] @ [''b_1'', ''c''])"
    by (simp_all add: path_of_names_def)
  show ?thesis
    unfolding resolve_v2_exact [OF p(1) g(1)]
  proof (intro disjI2 exI [of _ "[''b_1'', ''c'']"] conjI)
    show "valid_path ''/root/a/b_1/c''" unfolding valid_path_def
      by (rule exI [of _ "[''a'', ''b_1'', ''c'']"]) (use g in \<open>simp add: path_of_names_def\<close>)
    show "strict_prefix ''/root/a'' ''/root/a/b_1/c''" by (simp add: strict_prefix_def)
  qed (use g p in simp_all)
qed

end
