(* ===== verification/Subagents.thy ===== *)
theory Subagents
  imports AgentPath Schema "HOL-Library.Char_ord" "HOL-Library.List_Lexorder"
begin

text \<open>
  Sub-agents of a session: the mailbox between agents (\<open>subagents/mailbox.rs\<close>), the registry of
  live agents (registry.rs), the tree walk and reference resolution over it (tree.rs) and the
  linkage of a finished child to its parent (parent\_link.rs). The registry's \<open>BTreeMap\<close> is an
  association list in path order; the choice among candidate nicknames, random in the code, is
  an argument.
\<close>

section \<open>Statuses and messages\<close>

datatype agent_status =
    PendingInit | Running | StInterrupted | Completed "string option" | Errored string
  | Shutdown | NotFound

definition status_label :: "agent_status \<Rightarrow> string" where
  "status_label st =
     (case st of PendingInit \<Rightarrow> ''pending_init'' | Running \<Rightarrow> ''running''
      | StInterrupted \<Rightarrow> ''interrupted'' | Completed _ \<Rightarrow> ''completed'' | Errored _ \<Rightarrow> ''errored''
      | Shutdown \<Rightarrow> ''shutdown'' | NotFound \<Rightarrow> ''not_found'')"

definition status_is_final :: "agent_status \<Rightarrow> bool" where
  "status_is_final st =
     (case st of Completed _ \<Rightarrow> True | Errored _ \<Rightarrow> True | Shutdown \<Rightarrow> True | NotFound \<Rightarrow> True
      | _ \<Rightarrow> False)"

definition status_is_live :: "agent_status \<Rightarrow> bool" where
  "status_is_live st \<longleftrightarrow> st \<noteq> Shutdown \<and> st \<noteq> NotFound"

definition status_wire :: "agent_status \<Rightarrow> json" where
  "status_wire st =
     (case st of
        Completed m \<Rightarrow> JObj [(''completed'', case m of Some s \<Rightarrow> JStr s | None \<Rightarrow> JNull)]
      | Errored e \<Rightarrow> JObj [(''errored'', JStr e)]
      | _ \<Rightarrow> JStr (status_label st))"

record communication =
  from_agent_path :: string
  to_agent_path :: string
  comm_items :: "string list"
  comm_input_items :: "json option"
  comm_prompt :: string
  trigger_turn :: bool

definition communication_new :: "string \<Rightarrow> string \<Rightarrow> string list \<Rightarrow> string \<Rightarrow> bool \<Rightarrow> communication" where
  "communication_new fr to items prompt trig = \<lparr> from_agent_path = fr, to_agent_path = to,
     comm_items = items, comm_input_items = None, comm_prompt = prompt, trigger_turn = trig \<rparr>"

definition render_notification :: "string \<Rightarrow> agent_status \<Rightarrow> string" where
  "render_notification agent st =
     ''<subagent_notification>'' @ [CHR 0x0A]
     @ show_json (JObj [(''agent_path'', JStr agent), (''status'', status_wire st)])
     @ [CHR 0x0A] @ ''</subagent_notification>''"

section \<open>The mailbox\<close>

text \<open>A first-in first-out channel that is emptied as a whole.\<close>

locale drain_queue =
  fixes pending :: "'q \<Rightarrow> 'm list" and put :: "'m \<Rightarrow> 'q \<Rightarrow> 'q" and takeall :: "'q \<Rightarrow> 'm list \<times> 'q"
  assumes pending_put: "pending (put m q) = pending q @ [m]"
    and takeall_all: "fst (takeall q) = pending q"
    and takeall_empties: "pending (snd (takeall q)) = []"
begin

definition exchange :: "'q \<Rightarrow> 'm option \<Rightarrow> 'm list \<times> 'q" where
  "exchange q op = (case op of Some m \<Rightarrow> ([], put m q) | None \<Rightarrow> takeall q)"

lemma exchange_fifo:
  "run_emit exchange q ops = (outs, q') \<Longrightarrow>
   outs @ pending q' = pending q @ List.map_filter id ops"
proof (induction ops arbitrary: q outs)
  case Nil
  then show ?case by (simp add: List.map_filter_def)
next
  case (Cons op ops)
  obtain o1 q1 where 1: "exchange q op = (o1, q1)" by fastforce
  obtain o2 where 2: "run_emit exchange q1 ops = (o2, q')" "outs = o1 @ o2"
    using Cons.prems 1 by (auto split: prod.splits)
  have "o1 @ pending q1 = pending q @ List.map_filter id [op]"
    using 1 takeall_all [of q] takeall_empties [of q]
    by (auto simp: exchange_def pending_put List.map_filter_def split: option.splits)
  with Cons.IH [OF 2(1)] 2(2) show ?case by (cases op) (auto simp: List.map_filter_def)
qed

end

text \<open>\<open>wakes\<close> counts the notifications of the watch channel.\<close>

record mailbox =
  mail_pending :: "communication list"
  wakes :: nat

definition mailbox_new :: mailbox where
  "mailbox_new = \<lparr> mail_pending = [], wakes = 0 \<rparr>"

definition enqueue :: "communication \<Rightarrow> mailbox \<Rightarrow> mailbox" where
  "enqueue c mb = mb\<lparr> mail_pending := mail_pending mb @ [c], wakes := Suc (wakes mb) \<rparr>"

definition drain_mailbox :: "mailbox \<Rightarrow> communication list \<times> mailbox" where
  "drain_mailbox mb = (mail_pending mb, mb\<lparr> mail_pending := [] \<rparr>)"

definition has_pending :: "mailbox \<Rightarrow> bool" where
  "has_pending mb \<longleftrightarrow> mail_pending mb \<noteq> []"

definition has_trigger_turn_pending :: "mailbox \<Rightarrow> bool" where
  "has_trigger_turn_pending mb = list_ex trigger_turn (mail_pending mb)"

text \<open>A subscriber remembers the last notification it has seen; one that subscribes while mail is
  pending starts with a change to see.\<close>

definition subscribe :: "mailbox \<Rightarrow> nat option" where
  "subscribe mb = (if has_pending mb then None else Some (wakes mb))"

definition sees_change :: "nat option \<Rightarrow> mailbox \<Rightarrow> bool" where
  "sees_change rx mb = (case rx of None \<Rightarrow> True | Some n \<Rightarrow> n < wakes mb)"

interpretation mail: drain_queue mail_pending enqueue drain_mailbox
  by unfold_locales (simp_all add: enqueue_def drain_mailbox_def)

section \<open>The registry\<close>

record agent_record =
  agent_path :: string
  agent_id :: string
  nickname :: "string option"
  agent_role :: "string option"
  agent_status :: agent_status
  agent_depth :: int
  last_task_message :: "string option"

record registry =
  agents :: "(string \<times> agent_record) list"
  reserved_paths :: "string set"
  pending_statuses :: "(string \<times> agent_status) list"
  used_nicknames :: "string set"
  nickname_reset_count :: nat

definition registry_new :: registry where
  "registry_new = \<lparr> agents = [], reserved_paths = {}, pending_statuses = [], used_nicknames = {},
                    nickname_reset_count = 0 \<rparr>"

definition reg_get :: "registry \<Rightarrow> string \<Rightarrow> agent_record option" where
  "reg_get r p = map_of (agents r) p"

definition reg_register :: "agent_record \<Rightarrow> registry \<Rightarrow> registry" where
  "reg_register rec r =
     (let p = agent_path rec;
          rec2 = (case map_of (pending_statuses r) p of
                    Some st \<Rightarrow> rec\<lparr> agent_status := st \<rparr> | None \<Rightarrow> rec)
      in r\<lparr> reserved_paths := reserved_paths r - {p},
            pending_statuses := bt_remove p (pending_statuses r),
            used_nicknames := (case nickname rec2 of Some n \<Rightarrow> insert n (used_nicknames r)
                                | None \<Rightarrow> used_nicknames r),
            agents := bt_insert p rec2 (agents r) \<rparr>)"

definition contains_path :: "registry \<Rightarrow> string \<Rightarrow> bool" where
  "contains_path r p \<longleftrightarrow> reg_get r p \<noteq> None"

definition reserve_path :: "string \<Rightarrow> registry \<Rightarrow> registry" where
  "reserve_path p r = r\<lparr> reserved_paths := insert p (reserved_paths r) \<rparr>"

definition release_reserved_path :: "string \<Rightarrow> registry \<Rightarrow> registry" where
  "release_reserved_path p r = r\<lparr> reserved_paths := reserved_paths r - {p},
     pending_statuses := bt_remove p (pending_statuses r) \<rparr>"

definition has_reserved_path :: "registry \<Rightarrow> string \<Rightarrow> bool" where
  "has_reserved_path r p \<longleftrightarrow> p \<in> reserved_paths r"

definition update_status :: "string \<Rightarrow> agent_status \<Rightarrow> registry \<Rightarrow> bool \<times> registry" where
  "update_status p st r =
     (case map_of (agents r) p of
        Some rec \<Rightarrow> (True, r\<lparr> agents := bt_insert p (rec\<lparr> agent_status := st \<rparr>) (agents r) \<rparr>)
      | None \<Rightarrow> (False, r\<lparr> pending_statuses := bt_insert p st (pending_statuses r) \<rparr>))"

definition update_last_task_message :: "string \<Rightarrow> string \<Rightarrow> registry \<Rightarrow> bool \<times> registry" where
  "update_last_task_message p m r =
     (case map_of (agents r) p of
        Some rec \<Rightarrow> (True, r\<lparr> agents := bt_insert p (rec\<lparr> last_task_message := Some m \<rparr>) (agents r) \<rparr>)
      | None \<Rightarrow> (False, r))"

definition update_subtree_status ::
    "string \<Rightarrow> agent_status \<Rightarrow> registry \<Rightarrow> agent_status option \<times> registry" where
  "update_subtree_status p st r =
     (case map_of (agents r) p of
        None \<Rightarrow> (None, r)
      | Some rec \<Rightarrow>
          (Some (agent_status rec),
           r\<lparr> agents := map (\<lambda>(k, a). (k, if agent_path a = p \<or> starts_with (p @ ''/'') (agent_path a)
                                           then a\<lparr> agent_status := st \<rparr> else a)) (agents r) \<rparr>))"

definition list_agents :: "registry \<Rightarrow> agent_record list" where
  "list_agents r = map snd (agents r)"

definition format_agent_nickname :: "string \<Rightarrow> nat \<Rightarrow> string" where
  "format_agent_nickname name resets =
     (if resets = 0 then name
      else (let value = resets + 1;
                suffix = (if 11 \<le> value mod 100 \<and> value mod 100 \<le> 13 then ''th''
                          else if value mod 10 = 1 then ''st'' else if value mod 10 = 2 then ''nd''
                          else if value mod 10 = 3 then ''rd'' else ''th'')
            in name @ '' the '' @ show_nat value @ suffix))"

text \<open>\<open>pick\<close> stands for the random choice from a non-empty list.\<close>

definition reserve_nickname ::
    "(string list \<Rightarrow> string) \<Rightarrow> string list \<Rightarrow> registry \<Rightarrow> string option \<times> registry" where
  "reserve_nickname pick candidates r =
     (if candidates = [] then (None, r)
      else
        (let available = filter (\<lambda>n. n \<notin> used_nicknames r)
               (map (\<lambda>n. format_agent_nickname n (nickname_reset_count r)) candidates);
             (chosen, r1) =
               (if available \<noteq> [] then (pick available, r)
                else (let resets = nickname_reset_count r + 1
                      in (format_agent_nickname (pick candidates) resets,
                          r\<lparr> used_nicknames := {}, nickname_reset_count := resets \<rparr>)))
         in (Some chosen, r1\<lparr> used_nicknames := insert chosen (used_nicknames r1) \<rparr>)))"

definition quote :: string where "quote = [CHR 0x22]"

definition render_subagents_block :: "registry \<Rightarrow> string" where
  "render_subagents_block r =
     (if list_agents r = [] then ''<subagents>'' @ [CHR 0x0A] @ ''</subagents>''
      else ''<subagents>'' @ [CHR 0x0A]
        @ concat (map (\<lambda>a. ''  <subagent path='' @ quote @ agent_path a @ quote
              @ '' nickname='' @ quote @ (case nickname a of Some n \<Rightarrow> n | None \<Rightarrow> []) @ quote
              @ '' role='' @ quote @ (case agent_role a of Some x \<Rightarrow> x | None \<Rightarrow> ''default'') @ quote
              @ '' status='' @ quote @ status_label (agent_status a) @ quote
              @ '' depth='' @ quote @ show_int (agent_depth a) @ quote @ '' />'' @ [CHR 0x0A])
            (list_agents r))
        @ ''</subagents>'')"

section \<open>Registry invariant\<close>

definition reg_wf :: "registry \<Rightarrow> bool" where
  "reg_wf r \<longleftrightarrow> bt_wf (agents r) \<and> bt_wf (pending_statuses r)
     \<and> (\<forall>(k, a)\<in>set (agents r). agent_path a = k)
     \<and> dom (map_of (agents r)) \<inter> dom (map_of (pending_statuses r)) = {}"

lemma set_bt_insert: "bt_wf m \<Longrightarrow> set (bt_insert k v m) = insert (k, v) {(k', v') \<in> set m. k' \<noteq> k}"
proof -
  assume wf: "bt_wf m"
  have "(a, b) \<in> set (bt_insert k v m) \<longleftrightarrow> (a, b) = (k, v) \<or> ((a, b) \<in> set m \<and> a \<noteq> k)" for a b
    using bt_lookup_in [OF bt_insert_wf [OF wf], of k v a b] bt_lookup_in [OF wf, of a b]
    by (auto simp: bt_insert_lookup split: if_splits)
  then show ?thesis by auto
qed

lemma set_bt_remove: "set (bt_remove k m) = {(k', v') \<in> set m. k' \<noteq> k}"
  by (auto simp: bt_remove_def)

lemma bt_insert_dom: "dom (map_of (bt_insert k v m)) = insert k (dom (map_of m))"
  by (auto simp: bt_insert_lookup split: if_splits)

lemma bt_remove_dom: "dom (map_of (bt_remove k m)) = dom (map_of m) - {k}"
  by (auto simp: bt_remove_lookup split: if_splits)

lemma reg_new_wf: "reg_wf registry_new"
  by (simp add: reg_wf_def registry_new_def bt_wf_def)

lemma reg_register_wf: "reg_wf r \<Longrightarrow> reg_wf (reg_register rec r)"
  by (auto simp: reg_wf_def reg_register_def Let_def bt_insert_wf bt_remove_wf set_bt_insert
      bt_insert_dom bt_remove_dom split: option.splits)

lemma reg_key: "\<forall>(k, a)\<in>set (agents r). agent_path a = k \<Longrightarrow> map_of (agents r) p = Some rec \<Longrightarrow> agent_path rec = p"
  by (auto dest: map_of_SomeD)

lemma update_status_wf: "reg_wf r \<Longrightarrow> reg_wf (snd (update_status p st r))"
  by (auto simp: reg_wf_def update_status_def bt_insert_wf set_bt_insert bt_insert_dom
      split: option.splits dest: reg_key)

lemma update_last_task_message_wf: "reg_wf r \<Longrightarrow> reg_wf (snd (update_last_task_message p m r))"
  by (auto simp: reg_wf_def update_last_task_message_def bt_insert_wf set_bt_insert bt_insert_dom
      split: option.splits dest: reg_key)

lemma dom_map_values: "dom (map_of (map (\<lambda>(k, a). (k, f k a)) m)) = dom (map_of m)"
  by (auto simp: bt_map_values_lookup)

lemma update_subtree_wf: "reg_wf r \<Longrightarrow> reg_wf (snd (update_subtree_status p st r))"
  unfolding reg_wf_def update_subtree_status_def
  by (auto simp: bt_map_values_wf [of "agents r" "\<lambda>k a. if agent_path a = p \<or> starts_with (p @ ''/'') (agent_path a)
        then a\<lparr> agent_status := st \<rparr> else a"]
      dom_map_values [of "\<lambda>k a. if agent_path a = p \<or> starts_with (p @ ''/'') (agent_path a)
        then a\<lparr> agent_status := st \<rparr> else a"] split: option.splits)

lemma reserve_release_wf: "reg_wf r \<Longrightarrow> reg_wf (reserve_path p r)" "reg_wf r \<Longrightarrow> reg_wf (release_reserved_path p r)"
  by (auto simp: reg_wf_def reserve_path_def release_reserved_path_def bt_remove_wf bt_remove_dom)

text \<open>The registry's operations as one step function.\<close>

datatype registry_op =
    OpRegister agent_record
  | OpReserve string
  | OpRelease string
  | OpStatus string agent_status
  | OpMessage string string
  | OpSubtree string agent_status

definition registry_step :: "registry \<Rightarrow> registry_op \<Rightarrow> registry" where
  "registry_step r op =
     (case op of
        OpRegister rec \<Rightarrow> reg_register rec r
      | OpReserve p \<Rightarrow> reserve_path p r
      | OpRelease p \<Rightarrow> release_reserved_path p r
      | OpStatus p st \<Rightarrow> snd (update_status p st r)
      | OpMessage p m \<Rightarrow> snd (update_last_task_message p m r)
      | OpSubtree p st \<Rightarrow> snd (update_subtree_status p st r))"

interpretation live_registry: invariant_machine registry_step reg_wf "\<lambda>_. True"
  by unfold_locales
     (auto simp: registry_step_def reg_register_wf update_status_wf update_last_task_message_wf
        update_subtree_wf reserve_release_wf split: registry_op.split)

end
