(* ===== verification/AgentTree.thy ===== *)
theory AgentTree
  imports Subagents
begin

text \<open>
  The agent tree over the registry (\<open>subagents/tree.rs\<close>): the pre-order walk of a subtree, the
  root of the tree of an agent, reference resolution on both surfaces; and the linkage of a
  finished child run to its parent (\<open>subagents/parent\_link.rs\<close>).
\<close>

section \<open>The walk\<close>

record tree_node =
  tn_record :: agent_record
  tn_depth :: nat

definition path_bound :: "agent_record list \<Rightarrow> nat" where
  "path_bound all = Max (insert 0 ((\<lambda>a. length (agent_path a)) ` set all))"

lemma path_bound_ge: "a \<in> set all \<Longrightarrow> length (agent_path a) \<le> path_bound all"
  unfolding path_bound_def by (rule Max_ge) auto

lemma direct_child_iff:
  "is_direct_child p c \<longleftrightarrow> (\<exists>seg. c = p @ ''/'' @ seg \<and> seg \<noteq> [] \<and> CHR ''/'' \<notin> set seg)"
  by (auto simp: is_direct_child_def strip_pre_Some split: option.splits)

lemma direct_child_longer: "is_direct_child p c \<Longrightarrow> length p < length c"
  by (auto simp: direct_child_iff)

function collect_into :: "agent_record list \<Rightarrow> agent_record \<Rightarrow> nat \<Rightarrow> tree_node list" where
  "collect_into all node depth =
     \<lparr> tn_record = node, tn_depth = depth \<rparr>
     # concat (map (\<lambda>child. collect_into all child (depth + 1))
                (filter (\<lambda>r. is_direct_child (agent_path node) (agent_path r)) all))"
  by pat_completeness auto

termination
proof (relation "measure (\<lambda>(all, node, depth). Suc (path_bound all) - length (agent_path node))")
  fix all :: "agent_record list" and node :: agent_record and depth :: nat and child :: agent_record
  assume "child \<in> set (filter (\<lambda>r. is_direct_child (agent_path node) (agent_path r)) all)"
  then have "length (agent_path node) < length (agent_path child)"
      "length (agent_path child) \<le> path_bound all"
    by (auto intro: direct_child_longer path_bound_ge)
  then show "((all, child, depth + 1), all, node, depth) \<in>
      measure (\<lambda>(all, node, depth). Suc (path_bound all) - length (agent_path node))"
    by simp
qed simp

declare collect_into.simps [simp del]

definition collect_agent_tree :: "registry \<Rightarrow> string \<Rightarrow> tree_node list" where
  "collect_agent_tree r root =
     (case find (\<lambda>a. agent_path a = root) (list_agents r) of
        None \<Rightarrow> []
      | Some a \<Rightarrow> collect_into (list_agents r) a 0)"

section \<open>The root of a tree\<close>

lemma parent_shorter: "parent_path_of p = Some q \<Longrightarrow> length q < length p"
proof -
  assume "parent_path_of p = Some q"
  then obtain i where i: "rposition (\<lambda>c. c = CHR ''/'') (trim_end_matches CHR ''/'' p) = Some i"
    and q: "q = take i (trim_end_matches CHR ''/'' p)"
    by (auto simp: parent_path_of_def Let_def split: option.splits if_splits)
  have "i < length (trim_end_matches CHR ''/'' p)" by (rule rposition_Some_D(1) [OF i])
  also have "\<dots> \<le> length p" unfolding trim_end_matches_def by (simp add: length_dropWhile_le [of _ "rev p", simplified])
  finally show ?thesis by (simp add: q)
qed

function climb :: "registry \<Rightarrow> string \<Rightarrow> string" where
  "climb r current =
     (case parent_path_of current of
        None \<Rightarrow> current
      | Some parent \<Rightarrow> if reg_get r parent = None then current else climb r parent)"
  by pat_completeness auto

termination
  by (relation "measure (\<lambda>(r, p). length p)") (auto dest: parent_shorter)

declare climb.simps [simp del]

definition root_session :: "registry \<Rightarrow> string \<Rightarrow> string option" where
  "root_session r p = (if reg_get r p = None then None else Some (climb r p))"

section \<open>References\<close>

definition live_node :: "tree_node \<Rightarrow> bool" where
  "live_node n = status_is_live (agent_status (tn_record n))"

definition resolve_agent_reference_in_tree :: "registry \<Rightarrow> string \<Rightarrow> string \<Rightarrow> agent_record option" where
  "resolve_agent_reference_in_tree r current reference =
     (let root_path = (case root_session r current of Some p \<Rightarrow> p | None \<Rightarrow> root_agent_path);
          canonical = canonical_agent_reference reference current;
          tree = collect_agent_tree r root_path
      in case find (\<lambda>n. live_node n \<and> agent_path (tn_record n) = canonical) tree of
           Some n \<Rightarrow> Some (tn_record n)
         | None \<Rightarrow>
             (let tok = str_trim (trim_start_matches CHR ''@'' (str_trim reference)) in
              if tok = [] then None
              else (case filter (\<lambda>n. nickname (tn_record n) = Some tok) (filter live_node tree) of
                      [n] \<Rightarrow> Some (tn_record n)
                    | _ \<Rightarrow> None)))"

definition resolve_agent_reference_in_tree_v2 ::
    "registry \<Rightarrow> string \<Rightarrow> string \<Rightarrow> string + agent_record option" where
  "resolve_agent_reference_in_tree_v2 r current reference =
     (let root_path = (case root_session r current of Some p \<Rightarrow> p | None \<Rightarrow> root_agent_path);
          tree = collect_agent_tree r root_path
      in case find (\<lambda>n. live_node n \<and> agent_id (tn_record n) = reference) tree of
           Some n \<Rightarrow> Inr (Some (tn_record n))
         | None \<Rightarrow>
             (case resolve_agent_path_v2 current reference of
                Inl e \<Rightarrow> Inl e
              | Inr p \<Rightarrow>
                  Inr (map_option tn_record
                    (find (\<lambda>n. live_node n \<and> agent_path (tn_record n) = p) tree))))"

section \<open>Linking a finished child to its parent\<close>

record child_outcome =
  co_success :: bool
  co_summary :: "string option"

definition child_status :: "child_outcome \<Rightarrow> agent_status" where
  "child_status o' =
     (if co_success o' then Completed (co_summary o')
      else Errored (case co_summary o' of Some s \<Rightarrow> s | None \<Rightarrow> ''failed''))"

record parent_link =
  pl_parent :: string
  pl_child :: string
  pl_status :: agent_status

definition update_parent_from_child_run ::
    "registry \<Rightarrow> mailbox \<Rightarrow> string \<Rightarrow> child_outcome \<Rightarrow> parent_link option \<times> registry \<times> mailbox" where
  "update_parent_from_child_run r mb child o' =
     (case parent_path_of child of
        None \<Rightarrow> (None, r, mb)
      | Some parent \<Rightarrow>
          if reg_get r child = None \<and> \<not> has_reserved_path r child then (None, r, mb)
          else
            (let st = child_status o';
                 r1 = snd (update_status child st r);
                 prompt = render_notification child st
                   @ (case co_summary o' of Some s \<Rightarrow> CHR 0x0A # s | None \<Rightarrow> [])
             in (Some \<lparr> pl_parent = parent, pl_child = child, pl_status = st \<rparr>, r1,
                 enqueue (communication_new child parent [] prompt False) mb)))"

section \<open>Lemmas on the walk\<close>

inductive in_subtree :: "agent_record list \<Rightarrow> agent_record \<Rightarrow> agent_record \<Rightarrow> nat \<Rightarrow> bool"
  for all :: "agent_record list" where
  in_subtree_self: "in_subtree all a a 0"
| in_subtree_child: "c \<in> set all \<Longrightarrow> is_direct_child (agent_path a) (agent_path c) \<Longrightarrow>
    in_subtree all c b n \<Longrightarrow> in_subtree all a b (Suc n)"

inductive_cases in_subtree_cases: "in_subtree all a b n"

lemma in_subtree_iff:
  "in_subtree all a b n \<longleftrightarrow> (b = a \<and> n = 0)
     \<or> (\<exists>c m. c \<in> set all \<and> is_direct_child (agent_path a) (agent_path c) \<and> in_subtree all c b m \<and> n = Suc m)"
  by (auto elim: in_subtree_cases intro: in_subtree.intros)

lemma collect_into_set:
  "\<lparr> tn_record = b, tn_depth = k \<rparr> \<in> set (collect_into all a d) \<longleftrightarrow> d \<le> k \<and> in_subtree all a b (k - d)"
proof (induction all a d arbitrary: b k rule: collect_into.induct)
  case (1 all node depth)
  have IH: "\<lparr> tn_record = b, tn_depth = k \<rparr> \<in> set (collect_into all c (depth + 1)) \<longleftrightarrow>
      depth + 1 \<le> k \<and> in_subtree all c b (k - (depth + 1))"
    if "c \<in> set all" "is_direct_child (agent_path node) (agent_path c)" for c
    using that by (intro "1.IH") auto
  have mem: "\<lparr> tn_record = b, tn_depth = k \<rparr> \<in> set (collect_into all node depth) \<longleftrightarrow>
      (b = node \<and> k = depth)
      \<or> (\<exists>c. c \<in> set all \<and> is_direct_child (agent_path node) (agent_path c)
           \<and> depth + 1 \<le> k \<and> in_subtree all c b (k - (depth + 1)))"
    by (subst collect_into.simps) (auto simp: IH [unfolded Suc_eq_plus1 [symmetric]])
  show ?case
  proof (cases "depth < k")
    case True
    then obtain m where "k = depth + Suc m" using less_imp_Suc_add by auto
    then show ?thesis unfolding mem in_subtree_iff [of all node b "k - depth"] by simp
  next
    case False
    then show ?thesis unfolding mem in_subtree_iff [of all node b "k - depth"] by auto
  qed
qed

lemma in_subtree_path:
  "in_subtree all a b n \<Longrightarrow>
     \<exists>segs. length segs = n \<and> list_all (\<lambda>s. s \<noteq> [] \<and> CHR ''/'' \<notin> set s) segs
       \<and> agent_path b = agent_path a @ concat (map (\<lambda>s. CHR ''/'' # s) segs)"
proof (induction rule: in_subtree.induct)
  case (in_subtree_child c a b n)
  then obtain segs seg where "length segs = n" "list_all (\<lambda>s. s \<noteq> [] \<and> CHR ''/'' \<notin> set s) segs"
    "agent_path b = agent_path c @ concat (map (\<lambda>s. CHR ''/'' # s) segs)"
    "agent_path c = agent_path a @ ''/'' @ seg" "seg \<noteq> []" "CHR ''/'' \<notin> set seg"
    by (auto simp: direct_child_iff)
  then show ?case by (intro exI [of _ "seg # segs"]) auto
qed auto

lemma takeWhile_segment:
  "CHR ''/'' \<notin> set seg \<Longrightarrow>
   takeWhile (\<lambda>c. c \<noteq> CHR ''/'') (seg @ concat (map (\<lambda>s. CHR ''/'' # s) segs)) = seg"
  by (cases segs) (auto simp: takeWhile_append)

lemma distinct_concat_map:
  assumes "distinct cs" "\<And>c. c \<in> set cs \<Longrightarrow> distinct (L c)"
    and "\<And>c c'. c \<in> set cs \<Longrightarrow> c' \<in> set cs \<Longrightarrow> c \<noteq> c' \<Longrightarrow> set (L c) \<inter> set (L c') = {}"
  shows "distinct (concat (map L cs))"
  using assms by (induction cs) fastforce+

definition node_path :: "tree_node \<Rightarrow> string" where
  "node_path n = agent_path (tn_record n)"

lemma collect_into_subtree:
  "n \<in> set (collect_into all a d) \<Longrightarrow> \<exists>k. in_subtree all a (tn_record n) k"
proof -
  assume n: "n \<in> set (collect_into all a d)"
  have "n = \<lparr> tn_record = tn_record n, tn_depth = tn_depth n \<rparr>" by simp
  with n show ?thesis using collect_into_set [of "tn_record n" "tn_depth n" all a d] by metis
qed

lemma same_child:
  assumes "is_direct_child p c" "is_direct_child p c'"
    and "q = c @ concat (map (\<lambda>s. CHR ''/'' # s) segs)" "q = c' @ concat (map (\<lambda>s. CHR ''/'' # s) segs')"
  shows "c = c'"
proof -
  obtain s s' where s: "c = p @ ''/'' @ s" "CHR ''/'' \<notin> set s" and s': "c' = p @ ''/'' @ s'" "CHR ''/'' \<notin> set s'"
    using assms(1,2) by (auto simp: direct_child_iff)
  have "s @ concat (map (\<lambda>s. CHR ''/'' # s) segs) = s' @ concat (map (\<lambda>s. CHR ''/'' # s) segs')"
    using assms(3,4) s(1) s'(1) by simp
  then have "s = s'" using takeWhile_segment [OF s(2)] takeWhile_segment [OF s'(2)] by metis
  then show ?thesis using s s' by simp
qed

lemma collect_into_distinct:
  "distinct (map agent_path all) \<Longrightarrow> distinct (map node_path (collect_into all a d))"
proof (induction all a d rule: collect_into.induct)
  case (1 all node depth)
  let ?cs = "filter (\<lambda>r. is_direct_child (agent_path node) (agent_path r)) all"
  let ?L = "\<lambda>c. map node_path (collect_into all c (depth + 1))"
  have under: "\<exists>segs. q = agent_path c @ concat (map (\<lambda>s. CHR ''/'' # s) segs)"
    if "q \<in> set (?L c)" for c q
    using that in_subtree_path collect_into_subtree by (fastforce simp: node_path_def)
  have "distinct (concat (map ?L ?cs))"
  proof (rule distinct_concat_map)
    show "distinct ?cs" using "1.prems" by (simp add: distinct_map)
    show "distinct (?L c)" if "c \<in> set ?cs" for c using that "1.prems" by (intro "1.IH") auto
    show "set (?L c) \<inter> set (?L c') = {}" if c: "c \<in> set ?cs" "c' \<in> set ?cs" "c \<noteq> c'" for c c'
    proof -
      have "agent_path c \<noteq> agent_path c'"
        using c "1.prems" by (auto simp: distinct_map inj_on_def)
      moreover have "is_direct_child (agent_path node) (agent_path c)"
        "is_direct_child (agent_path node) (agent_path c')" using c by auto
      ultimately show ?thesis using under same_child by (metis disjoint_iff)
    qed
  qed
  moreover have "agent_path node \<notin> set (concat (map ?L ?cs))"
  proof
    assume "agent_path node \<in> set (concat (map ?L ?cs))"
    then obtain c where "c \<in> set ?cs" "agent_path node \<in> set (?L c)" by auto
    with under obtain segs where "agent_path node = agent_path c @ concat (map (\<lambda>s. CHR ''/'' # s) segs)"
      by blast
    moreover have "length (agent_path node) < length (agent_path c)"
      using \<open>c \<in> set ?cs\<close> by (auto intro: direct_child_longer)
    ultimately show False by simp
  qed
  ultimately show ?case
    by (subst collect_into.simps) (simp add: map_concat comp_def node_path_def)
qed

lemma find_agent:
  assumes "reg_wf r"
  shows "find (\<lambda>a. agent_path a = p) (list_agents r) = map_of (agents r) p"
proof -
  have "\<forall>x\<in>set m. agent_path (snd x) = fst x \<Longrightarrow> find (\<lambda>a. agent_path a = p) (map snd m) = map_of m p" for m
    by (induction m) auto
  moreover have "\<forall>x\<in>set (agents r). agent_path (snd x) = fst x"
    using assms unfolding reg_wf_def by force
  ultimately show ?thesis by (simp add: list_agents_def)
qed

lemma agents_distinct: "reg_wf r \<Longrightarrow> distinct (map agent_path (list_agents r))"
proof -
  assume wf: "reg_wf r"
  have "\<forall>x\<in>set (agents r). agent_path (snd x) = fst x"
    using wf unfolding reg_wf_def by force
  then have "map agent_path (map snd (agents r)) = map fst (agents r)" by simp
  moreover have "distinct (map fst (agents r))" using wf by (simp add: reg_wf_def bt_wf_def)
  ultimately show ?thesis by (simp only: list_agents_def)
qed

section \<open>Properties\<close>

text \<open>The walk is exactly the connected subtree: for a registered root it lists the agents that
  can be reached from it through registered direct children, each at its distance from the root
  (which is the number of path segments below the root's path), each agent once and the root
  first; for an unregistered root it is empty.\<close>

lemma tree_is_connected_subtree:
  assumes "reg_wf r"
  shows "distinct (map node_path (collect_agent_tree r root))
    \<and> (reg_get r root = None \<longleftrightarrow> collect_agent_tree r root = [])
    \<and> (\<forall>a. reg_get r root = Some a \<longrightarrow>
         hd (collect_agent_tree r root) = \<lparr> tn_record = a, tn_depth = 0 \<rparr>
         \<and> (\<forall>b k. \<lparr> tn_record = b, tn_depth = k \<rparr> \<in> set (collect_agent_tree r root) \<longleftrightarrow>
                  in_subtree (list_agents r) a b k)
         \<and> (\<forall>n \<in> set (collect_agent_tree r root). \<exists>segs. length segs = tn_depth n
              \<and> node_path n = root @ concat (map (\<lambda>s. CHR ''/'' # s) segs)))"
proof (cases "map_of (agents r) root")
  case None
  then show ?thesis by (simp add: collect_agent_tree_def find_agent [OF assms] reg_get_def)
next
  case (Some a)
  have tree: "collect_agent_tree r root = collect_into (list_agents r) a 0"
    by (simp add: collect_agent_tree_def find_agent [OF assms] Some)
  have path: "agent_path a = root" using assms Some by (auto simp: reg_wf_def dest: reg_key)
  have ne: "collect_into (list_agents r) a 0 \<noteq> []"
    "hd (collect_into (list_agents r) a 0) = \<lparr> tn_record = a, tn_depth = 0 \<rparr>"
    by (subst collect_into.simps, simp)+
  have "\<exists>segs. length segs = tn_depth n \<and> node_path n = root @ concat (map (\<lambda>s. CHR ''/'' # s) segs)"
    if "n \<in> set (collect_into (list_agents r) a 0)" for n
  proof -
    have "n = \<lparr> tn_record = tn_record n, tn_depth = tn_depth n \<rparr>" by simp
    with that collect_into_set [of "tn_record n" "tn_depth n" "list_agents r" a 0]
    have "in_subtree (list_agents r) a (tn_record n) (tn_depth n)" by simp
    from in_subtree_path [OF this] show ?thesis unfolding node_path_def path by auto
  qed
  then show ?thesis unfolding tree
    using collect_into_distinct [OF agents_distinct [OF assms], of a 0] ne Some
    by (simp add: reg_get_def collect_into_set)
qed

text \<open>No completion is lost: when a child's run ends while its path is only reserved (its runner was
  faster than its registration), the parent gets exactly one mail from the child, appended to its
  queue, which does not trigger a turn and which every subscriber sees; and when the child is
  registered after any operations on other agents, its record carries the status of that
  completion, not the one it was registered with.\<close>

lemma early_completion_kept:
  assumes "reg_get r child = None" "has_reserved_path r child" "parent_path_of child = Some parent"
    and "update_parent_from_child_run r mb child result = (lnk, r1, mb1)"
    and "\<forall>op\<in>set ops. (case op of OpRegister rec \<Rightarrow> agent_path rec \<noteq> child | OpRelease p \<Rightarrow> p \<noteq> child
            | OpStatus p _ \<Rightarrow> p \<noteq> child | _ \<Rightarrow> True)"
    and "agent_path rec = child"
    and "r2 = reg_register rec (foldl registry_step r1 ops)"
  shows "\<exists>mail. mail_pending mb1 = mail_pending mb @ [mail] \<and> from_agent_path mail = child
           \<and> to_agent_path mail = parent \<and> \<not> trigger_turn mail
           \<and> sees_change (subscribe mb) mb1 \<and> sees_change (subscribe mb1) mb1
           \<and> map_option agent_status (reg_get r2 child) = Some (child_status result)"
proof -
  have r1: "r1 = r\<lparr> pending_statuses := bt_insert child (child_status result) (pending_statuses r) \<rparr>"
    using assms(1-4) by (auto simp: update_parent_from_child_run_def update_status_def reg_get_def Let_def)
  have keep: "map_of (agents (foldl registry_step q ops)) child = None
      \<and> map_of (pending_statuses (foldl registry_step q ops)) child = Some st"
    if "map_of (agents q) child = None" "map_of (pending_statuses q) child = Some st" for q st
    using that assms(5)
  proof (induction ops arbitrary: q)
    case (Cons op ops)
    have "map_of (agents (registry_step q op)) child = None
        \<and> map_of (pending_statuses (registry_step q op)) child = Some st"
    proof (cases op)
      case (OpSubtree p s)
      then show ?thesis using Cons.prems(1,2)
        by (auto simp: registry_step_def update_subtree_status_def bt_map_values_lookup
            [where f = "\<lambda>k a. if agent_path a = p \<or> starts_with (p @ ''/'') (agent_path a)
                then a\<lparr> agent_status := s \<rparr> else a"] split: option.split)
    qed (use Cons.prems in \<open>auto simp: registry_step_def reg_register_def reserve_path_def
        release_reserved_path_def update_status_def update_last_task_message_def Let_def
        bt_insert_lookup bt_remove_lookup split: option.split\<close>)
    with Cons.IH Cons.prems(3) show ?case by simp
  qed simp
  have "map_of (pending_statuses (foldl registry_step r1 ops)) child = Some (child_status result)"
    using keep [of r1 "child_status result"] assms(1) by (simp add: r1 reg_get_def bt_insert_lookup)
  then have "map_option agent_status (reg_get r2 child) = Some (child_status result)"
    by (simp add: assms(6,7) reg_register_def reg_get_def bt_insert_lookup Let_def)
  moreover have "\<exists>mail. mb1 = enqueue mail mb \<and> from_agent_path mail = child \<and> to_agent_path mail = parent
      \<and> \<not> trigger_turn mail"
    using assms(1-4) by (auto simp: update_parent_from_child_run_def Let_def communication_new_def)
  ultimately show ?thesis
    by (auto simp: enqueue_def sees_change_def subscribe_def has_pending_def)
qed

text \<open>The mailbox delivers every message exactly once and in order: over any interleaving of
  enqueues and drains, what the drains returned followed by what is still pending is what was
  pending at first followed by the messages enqueued, in order.\<close>

lemma mailbox_fifo:
  assumes "run_emit (\<lambda>mb op. case op of Some m \<Rightarrow> ([], enqueue m mb) | None \<Rightarrow> drain_mailbox mb) mb ops
             = (delivered, mb')"
  shows "delivered @ mail_pending mb' = mail_pending mb @ List.map_filter id ops"
proof -
  have "(\<lambda>mb op. case op of Some m \<Rightarrow> ([], enqueue m mb) | None \<Rightarrow> drain_mailbox mb) = mail.exchange"
    by (simp add: mail.exchange_def fun_eq_iff)
  with assms show ?thesis by (intro mail.exchange_fifo) simp
qed

section \<open>Witnesses\<close>

definition demo_agent :: "string \<Rightarrow> agent_record" where
  "demo_agent p = \<lparr> agent_path = p, agent_id = p, nickname = None, agent_role = None,
     agent_status = Running, agent_depth = 1, last_task_message = None \<rparr>"

definition demo_registry :: registry where
  "demo_registry = reserve_path ''/root/b'' (reg_register (demo_agent ''/root'') registry_new)"

lemma demo_registry_wf: "reg_wf demo_registry"
  by (simp add: demo_registry_def reserve_release_wf reg_register_wf reg_new_wf)

lemma tree_is_connected_subtree_witness:
  "hd (collect_agent_tree demo_registry ''/root'') = \<lparr> tn_record = demo_agent ''/root'', tn_depth = 0 \<rparr>"
proof -
  have "reg_get demo_registry ''/root'' = Some (demo_agent ''/root'')"
    by (simp add: demo_registry_def reserve_path_def reg_register_def registry_new_def reg_get_def
        demo_agent_def Let_def)
  then show ?thesis using tree_is_connected_subtree [OF demo_registry_wf, of "''/root''"] by blast
qed

lemma early_completion_kept_witness:
  "map_option agent_status (reg_get
     (reg_register (demo_agent ''/root/b'')
        (fst (snd (update_parent_from_child_run demo_registry mailbox_new ''/root/b''
           \<lparr> co_success = True, co_summary = None \<rparr>)))) ''/root/b'') = Some (Completed None)"
proof -
  have g: "reg_get demo_registry ''/root/b'' = None" "has_reserved_path demo_registry ''/root/b''"
    by (simp_all add: demo_registry_def reserve_path_def reg_register_def registry_new_def reg_get_def
        demo_agent_def has_reserved_path_def Let_def)
  have p: "parent_path_of ''/root/b'' = Some ''/root''"
    by (simp add: parent_path_of_def trim_end_matches_def rposition_def)
  have "agent_path (demo_agent ''/root/b'') = ''/root/b''" by (simp add: demo_agent_def)
  from early_completion_kept [OF g p _ _ this, where ops = "[]" and mb = mailbox_new
      and result = "\<lparr> co_success = True, co_summary = None \<rparr>", OF surjective_pairing [THEN trans] _ refl]
  show ?thesis by (auto simp: child_status_def prod_eq_iff)
qed

lemma mailbox_fifo_witness:
  "\<exists>mb'. run_emit (\<lambda>mb op. case op of Some m \<Rightarrow> ([], enqueue m mb) | None \<Rightarrow> drain_mailbox mb)
     mailbox_new [Some (communication_new ''a'' ''b'' [] ''x'' True), None]
       = ([communication_new ''a'' ''b'' [] ''x'' True], mb') \<and> mail_pending mb' = []"
proof -
  obtain outs mb' where run: "run_emit (\<lambda>mb op. case op of Some m \<Rightarrow> ([], enqueue m mb) | None \<Rightarrow> drain_mailbox mb)
     mailbox_new [Some (communication_new ''a'' ''b'' [] ''x'' True), None] = (outs, mb')"
    by fastforce
  moreover have "mail_pending mb' = []" using run by (auto simp: drain_mailbox_def)
  ultimately show ?thesis using mailbox_fifo [OF run]
    by (simp add: mailbox_new_def List.map_filter_def)
qed

end
