(* ===== verification/ImageEstimate.thy ===== *)
theory ImageEstimate
  imports Prelude
begin

unbundle bit_operations_syntax

text \<open>
  Estimating the context cost of an inline image (\<open>context/image_estimate.rs\<close>): the base64
  decoder, the PNG and JPEG header readers, the patch estimate, the SHA-1 digest and the
  least-recently-used cache keyed by it. Bytes are 8-bit words; \<open>u32\<close> accumulators keep
  their width.
\<close>

section \<open>Base64\<close>

definition utf8_bytes :: "string \<Rightarrow> 8 word list" where
  "utf8_bytes s = concat (map (\<lambda>c. let n = code_point c in
     if n < 128 then [of_nat n] else [of_nat (192 + n div 64), of_nat (128 + n mod 64)]) s)"

definition base64_val :: "8 word \<Rightarrow> 8 word option" where
  "base64_val c =
     (if 65 \<le> c \<and> c \<le> 90 then Some (c - 65)
      else if 97 \<le> c \<and> c \<le> 122 then Some (c - 97 + 26)
      else if 48 \<le> c \<and> c \<le> 57 then Some (c - 48 + 52)
      else if c = 43 then Some 62
      else if c = 47 then Some 63
      else None)"

text \<open>The accumulator loop: six bits in, a byte out whenever eight are there.\<close>

fun b64_loop :: "32 word \<Rightarrow> nat \<Rightarrow> 8 word list \<Rightarrow> 8 word list \<Rightarrow> 8 word list option" where
  "b64_loop acc acc_bits out [] = Some out"
| "b64_loop acc acc_bits out (c # cs) =
     (case base64_val c of
        None \<Rightarrow> None
      | Some v \<Rightarrow>
          (let acc = (push_bit 6 acc) OR (ucast v); bits = acc_bits + 6
           in if bits \<ge> 8
              then b64_loop acc (bits - 8) (out @ [ucast (drop_bit (bits - 8) acc)]) cs
              else b64_loop acc bits out cs))"

fun strip_padding :: "8 word list \<Rightarrow> nat \<Rightarrow> nat \<Rightarrow> nat \<times> nat" where
  "strip_padding bytes 0 padding = (0, padding)"
| "strip_padding bytes (Suc n) padding =
     (if bytes ! n = 61 then strip_padding bytes n (padding + 1) else (Suc n, padding))"

definition base64_decode :: "string \<Rightarrow> 8 word list option" where
  "base64_decode input =
     (let bytes = utf8_bytes input in
      if bytes = [] then None
      else let (data_len, padding) = strip_padding bytes (length bytes) 0 in
           if padding > 2 \<or> length bytes mod 4 \<noteq> 0 then None
           else b64_loop 0 0 [] (take data_len bytes))"

text \<open>What the decoder means: the digits as one number, most significant first.\<close>

fun be_value :: "nat \<Rightarrow> nat \<Rightarrow> nat list \<Rightarrow> nat" where
  "be_value b a [] = a"
| "be_value b a (d # ds) = be_value b (a * b + d) ds"

lemma be_value_snoc: "be_value b a (ds @ [d]) = be_value b a ds * b + d"
  by (induction b a ds rule: be_value.induct) auto

lemma base64_val_less: "base64_val c = Some v \<Longrightarrow> unat v < 64"
  by (auto simp: base64_val_def word_le_nat_alt unat_word_ariths unat_sub split: if_splits)

definition b64_state :: "32 word \<Rightarrow> nat \<Rightarrow> 8 word list \<Rightarrow> nat list \<Rightarrow> bool" where
  "b64_state acc bits out vs \<longleftrightarrow>
     bits < 8 \<and> 8 * length out + bits = 6 * length vs
     \<and> be_value 64 0 vs = be_value 256 0 (map unat out) * 2 ^ bits + unat acc mod 2 ^ bits"

lemma nat_bit_less: "(y::nat) < 2 ^ n \<Longrightarrow> n \<le> m \<Longrightarrow> \<not> bit y m"
proof -
  assume "y < 2 ^ n" "n \<le> m"
  then have "y < 2 ^ m" by (meson less_le_trans one_le_numeral power_increasing)
  then show ?thesis by (simp add: bit_iff_odd)
qed

lemma or_is_add: "(y::nat) < 2 ^ n \<Longrightarrow> push_bit n x OR y = push_bit n x + y"
  by (rule disjunctive_add [symmetric]) (auto simp: bit_simps dest: nat_bit_less)

lemma b64_acc:
  assumes v: "unat (v :: 8 word) < 64" and b: "bits < 8"
  shows "unat ((push_bit 6 acc) OR (ucast v) :: 32 word) mod 2 ^ (bits + 6)
         = (unat acc mod 2 ^ bits) * 64 + unat v"
proof -
  have "unat v < 4294967296" using v by simp
  then have u: "unat (ucast v :: 32 word) = unat v"
    by (simp add: unsigned_ucast_eq take_bit_nat_eq_self)
  have v': "unat v < 2 ^ (bits + 6)"
    using v power_increasing [of 6 "bits + 6" "2::nat"] by simp
  have "unat ((push_bit 6 acc) OR (ucast v) :: 32 word) mod 2 ^ (bits + 6)
        = take_bit (bits + 6) (unat (push_bit 6 acc)) OR take_bit (bits + 6) (unat v)"
    by (simp add: take_bit_eq_mod [symmetric] unsigned_or_eq u)
  also have "take_bit (bits + 6) (unat v) = unat v"
    using v' by (simp add: take_bit_nat_eq_self)
  also have "take_bit (bits + 6) (unat (push_bit 6 acc)) = push_bit 6 (take_bit bits (unat acc))"
    using b by (simp add: unsigned_push_bit_eq take_bit_push_bit)
  also have "push_bit 6 (take_bit bits (unat acc)) OR unat v
             = push_bit 6 (take_bit bits (unat acc)) + unat v"
    using v by (intro or_is_add) simp
  finally show ?thesis by (simp add: push_bit_eq_mult take_bit_eq_mod)
qed

lemma byte_of_acc:
  "bits + 8 \<le> 32 \<Longrightarrow> unat (ucast (drop_bit bits (acc :: 32 word)) :: 8 word) = unat acc div 2 ^ bits mod 256"
proof -
  have "unat acc mod 4294967296 = unat acc" using unsigned_less [of acc, where 'a = nat] by simp
  then show ?thesis
    by (simp add: unsigned_ucast_eq unsigned_drop_bit_eq take_bit_eq_mod) (simp add: drop_bit_eq_div)
qed

lemma b64_step:
  assumes inv: "b64_state acc bits out vs" and v: "base64_val c = Some v"
    and acc': "acc' = (push_bit 6 acc) OR (ucast v)"
  shows "bits + 6 < 8 \<Longrightarrow> b64_state acc' (bits + 6) out (vs @ [unat v])"
    and "8 \<le> bits + 6 \<Longrightarrow>
         b64_state acc' (bits + 6 - 8) (out @ [ucast (drop_bit (bits + 6 - 8) acc')]) (vs @ [unat v])"
proof -
  from inv have b: "bits < 8" by (simp add: b64_state_def)
  note m = b64_acc [OF base64_val_less [OF v] b, of acc, folded acc']
  have val: "be_value 64 0 (vs @ [unat v])
             = be_value 256 0 (map unat out) * 2 ^ (bits + 6) + unat acc' mod 2 ^ (bits + 6)"
  proof -
    have "be_value 64 0 (vs @ [unat v])
          = (be_value 256 0 (map unat out) * 2 ^ bits + unat acc mod 2 ^ bits) * 64 + unat v"
      using inv by (simp add: be_value_snoc b64_state_def)
    also have "\<dots> = be_value 256 0 (map unat out) * 2 ^ (bits + 6) + unat acc' mod 2 ^ (bits + 6)"
      unfolding m by (simp add: power_add)
    finally show ?thesis .
  qed
  then show "b64_state acc' (bits + 6) out (vs @ [unat v])" if "bits + 6 < 8"
    using inv that by (simp add: b64_state_def)
  show "b64_state acc' (bits + 6 - 8) (out @ [ucast (drop_bit (bits + 6 - 8) acc')]) (vs @ [unat v])"
    if "8 \<le> bits + 6"
  proof -
    from that obtain k where k: "bits + 6 = k + 8" by (metis add.commute le_Suc_ex)
    with b have k6: "k < 6" by simp
    have e: "unat (ucast (drop_bit k acc') :: 8 word) = unat acc' div 2 ^ k mod 256"
      using k6 by (intro byte_of_acc) simp
    have "unat acc' mod 2 ^ (k + 8) = (unat acc' div 2 ^ k mod 256) * 2 ^ k + unat acc' mod 2 ^ k"
      using mod_mult2_eq [of "unat acc'" "2 ^ k" 256] by (simp add: power_add mult.commute)
    then have "be_value 64 0 (vs @ [unat v])
               = be_value 256 0 (map unat (out @ [ucast (drop_bit k acc')])) * 2 ^ k + unat acc' mod 2 ^ k"
      using val e by (simp add: k be_value_snoc power_add algebra_simps)
    then show ?thesis using inv k k6 by (simp add: b64_state_def)
  qed
qed

lemma b64_loop_state:
  "b64_state acc bits out vs \<Longrightarrow> b64_loop acc bits out cs = Some res \<Longrightarrow>
   \<exists>ws acc' bits'. map base64_val cs = map Some ws
     \<and> b64_state acc' bits' res (vs @ map unat ws)"
proof (induction cs arbitrary: acc bits out vs)
  case Nil
  then show ?case by auto
next
  case (Cons c cs)
  then obtain v where v: "base64_val c = Some v" by (auto split: option.splits)
  define acc' where "acc' = (push_bit 6 acc) OR (ucast v :: 32 word)"
  note st = b64_step [OF Cons.prems(1) v acc'_def]
  have "\<exists>ws a b. map base64_val cs = map Some ws \<and> b64_state a b res ((vs @ [unat v]) @ map unat ws)"
  proof (cases "bits + 6 \<ge> 8")
    case True
    then show ?thesis
      using Cons.IH [OF st(2)] Cons.prems(2) v by (simp add: Let_def acc'_def)
  next
    case False
    then show ?thesis
      using Cons.IH [OF st(1)] Cons.prems(2) v by (simp add: Let_def acc'_def)
  qed
  then show ?case using v
    by (metis (no_types, lifting) append.assoc append_Cons append_Nil list.simps(9))
qed

lemma b64_loop_rejects: "b64_loop acc bits out cs = None \<longleftrightarrow> (\<exists>c\<in>set cs. base64_val c = None)"
  by (induction acc bits out cs rule: b64_loop.induct) (auto simp: Let_def split: option.splits)

lemma strip_padding_spec:
  "strip_padding bs n p = (m, q) \<Longrightarrow> n \<le> length bs \<Longrightarrow>
   m \<le> n \<and> q = p + (n - m) \<and> take m bs = trim_end_matches 61 (take n bs)"
proof (induction bs n p rule: strip_padding.induct)
  case (2 bs n p)
  then have t: "take (Suc n) bs = take n bs @ [bs ! n]" by (simp add: take_Suc_conv_app_nth)
  show ?case
  proof (cases "bs ! n = 61")
    case True
    with 2 have ih: "m \<le> n \<and> q = p + 1 + (n - m) \<and> take m bs = trim_end_matches 61 (take n bs)"
      by simp
    then have "q = p + (Suc n - m)" by linarith
    with ih True show ?thesis by (simp add: t trim_end_matches_def)
  qed (use 2 t in \<open>auto simp: trim_end_matches_def\<close>)
qed (simp add: trim_end_matches_def)

lemma be_value_inj:
  "length xs = length ys \<Longrightarrow> \<forall>d\<in>set xs \<union> set ys. d < b \<Longrightarrow>
   be_value b 0 xs = be_value b 0 ys \<Longrightarrow> xs = ys"
proof (induction xs arbitrary: ys rule: rev_induct)
  case (snoc x xs)
  then obtain zs z where ys: "ys = zs @ [z]" by (cases ys rule: rev_cases) auto
  from snoc.prems ys have zx: "z < b" "x < b" and e: "be_value b 0 xs * b + x = be_value b 0 zs * b + z"
    by (auto simp: be_value_snoc)
  from e zx have "(be_value b 0 xs * b + x) mod b = (be_value b 0 zs * b + z) mod b"
    and "(be_value b 0 xs * b + x) div b = (be_value b 0 zs * b + z) div b" by simp_all
  with zx have "x = z" "be_value b 0 xs = be_value b 0 zs" by simp_all
  with snoc ys show ?case by simp
qed simp

lemma bytes_by_value:
  "length (xs :: 8 word list) = length ys \<Longrightarrow>
   be_value 256 0 (map unat xs) = be_value 256 0 (map unat ys) \<Longrightarrow> xs = ys"
proof -
  assume "length xs = length ys" "be_value 256 0 (map unat xs) = be_value 256 0 (map unat ys)"
  moreover have "unat w < 256" for w :: "8 word" using unsigned_less [of w, where 'a = nat] by simp
  ultimately have "map unat xs = map unat ys" by (intro be_value_inj [of _ _ 256]) auto
  then show ?thesis by (metis inj_map_eq_map inj_unsigned)
qed

lemma b64_loop_exact:
  "b64_loop 0 0 [] cs = Some out \<longleftrightarrow>
   (\<exists>vs. map base64_val cs = map Some vs \<and> length out = 6 * length vs div 8
     \<and> be_value 256 0 (map unat out) = be_value 64 0 (map unat vs) div 2 ^ (6 * length vs mod 8))"
  (is "_ \<longleftrightarrow> (\<exists>vs. ?spec out vs)")
proof -
  have sound: "\<exists>vs. ?spec res vs" if run: "b64_loop 0 0 [] cs = Some res" for res
  proof -
    have "b64_state 0 0 [] []" by (simp add: b64_state_def)
    from b64_loop_state [OF this run] obtain ws acc bits where
      ws: "map base64_val cs = map Some ws" and st: "b64_state acc bits res (map unat ws)"
      by auto
    from st have l: "6 * length ws = 8 * length res + bits" and b: "bits < 8"
      by (auto simp: b64_state_def)
    then have "6 * length ws div 8 = length res" "6 * length ws mod 8 = bits" by simp_all
    with st ws show ?thesis by (auto simp: b64_state_def)
  qed
  show ?thesis
  proof
    assume "\<exists>vs. ?spec out vs"
    then obtain vs where vs: "?spec out vs" ..
    then have "\<forall>c\<in>set cs. base64_val c \<noteq> None"
      by (metis imageI list.set_map ex_map_conv option.simps(3))
    with b64_loop_rejects obtain res where res: "b64_loop 0 0 [] cs = Some res" by fastforce
    from sound [OF res] obtain ws where ws: "?spec res ws" ..
    with vs have "vs = ws" by (metis inj_map_eq_map inj_Some)
    with vs ws have "out = res" by (intro bytes_by_value) simp_all
    with res show "b64_loop 0 0 [] cs = Some out" by simp
  qed (rule sound)
qed

text \<open>The base64 decoder, exactly: it returns \<open>out\<close> if and only if the input is not
  empty, has a length divisible by four and at most two trailing padding signs, every other
  byte is a base64 digit, and \<open>out\<close> is the byte string whose big-endian number is the
  number the digits spell, without the left-over low bits. The 32-bit accumulator, which
  overflows on every longer input, loses nothing that is still needed.\<close>

lemma base64_decode_exact:
  "base64_decode input = Some out \<longleftrightarrow>
   (let bytes = utf8_bytes input; data = trim_end_matches 61 bytes in
    bytes \<noteq> [] \<and> length bytes mod 4 = 0 \<and> length bytes - length data \<le> 2
    \<and> (\<exists>vs. map base64_val data = map Some vs \<and> length out = 6 * length vs div 8
          \<and> be_value 256 0 (map unat out) = be_value 64 0 (map unat vs) div 2 ^ (6 * length vs mod 8)))"
proof -
  obtain m q where st: "strip_padding (utf8_bytes input) (length (utf8_bytes input)) 0 = (m, q)"
    by fastforce
  from strip_padding_spec [OF st] have
    "take m (utf8_bytes input) = trim_end_matches 61 (utf8_bytes input)"
    "q = length (utf8_bytes input) - m" "m \<le> length (utf8_bytes input)" by auto
  moreover from this have "length (trim_end_matches 61 (utf8_bytes input)) = m"
    by (metis length_take min.absorb2)
  ultimately show ?thesis
    by (auto simp: base64_decode_def Let_def st b64_loop_exact)
qed


section \<open>Image headers and the estimate\<close>

record parsed_image =
  img_mime :: string
  img_data :: "8 word list"

definition parse_base64_image_data_url :: "string \<Rightarrow> parsed_image option" where
  "parse_base64_image_data_url url =
     (case strip_pre ''data:'' url of None \<Rightarrow> None
      | Some rest \<Rightarrow> (case split_once '','' rest of None \<Rightarrow> None
        | Some (meta, payload) \<Rightarrow>
            (case strip_pre (rev '';base64'') (rev meta) of None \<Rightarrow> None
             | Some m \<Rightarrow> (case base64_decode payload of None \<Rightarrow> None
               | Some data \<Rightarrow> Some \<lparr> img_mime = rev m, img_data = data \<rparr>))))"

definition u32_be :: "8 word \<Rightarrow> 8 word \<Rightarrow> 8 word \<Rightarrow> 8 word \<Rightarrow> 32 word" where
  "u32_be a b c d = push_bit 24 (ucast a) OR push_bit 16 (ucast b) OR push_bit 8 (ucast c) OR ucast d"

definition parse_png_dimensions :: "8 word list \<Rightarrow> (32 word \<times> 32 word) option" where
  "parse_png_dimensions bytes =
     (if length bytes < 24 \<or> take 8 bytes \<noteq> [137, 80, 78, 71, 13, 10, 26, 10] then None
      else Some (u32_be (bytes ! 16) (bytes ! 17) (bytes ! 18) (bytes ! 19),
                 u32_be (bytes ! 20) (bytes ! 21) (bytes ! 22) (bytes ! 23)))"

function jpeg_scan :: "8 word list \<Rightarrow> nat \<Rightarrow> (32 word \<times> 32 word) option" where
  "jpeg_scan bytes i =
     (if i + 9 < length bytes
      then if bytes ! i \<noteq> 255 then jpeg_scan bytes (i + 1)
           else let marker = bytes ! (i + 1) in
                if 192 \<le> marker \<and> marker \<le> 207 \<and> marker \<noteq> 196 \<and> marker \<noteq> 200 \<and> marker \<noteq> 204
                then Some (u32_be 0 0 (bytes ! (i + 7)) (bytes ! (i + 8)),
                           u32_be 0 0 (bytes ! (i + 5)) (bytes ! (i + 6)))
                else jpeg_scan bytes (i + 1)
      else None)"
  by pat_completeness auto
termination
  by (relation "measure (\<lambda>(bytes, i). length bytes - i)") auto

declare jpeg_scan.simps [simp del]

definition parse_jpeg_dimensions :: "8 word list \<Rightarrow> (32 word \<times> 32 word) option" where
  "parse_jpeg_dimensions bytes =
     (if length bytes < 4 \<or> bytes ! 0 \<noteq> 255 \<or> bytes ! 1 \<noteq> 216 then None
      else jpeg_scan bytes 2)"

definition decode_image_dimensions :: "string \<Rightarrow> (32 word \<times> 32 word) option" where
  "decode_image_dimensions url =
     (case split_once ''base64,'' url of None \<Rightarrow> None
      | Some (_, payload) \<Rightarrow> (case base64_decode payload of None \<Rightarrow> None
        | Some bytes \<Rightarrow> (case parse_png_dimensions bytes of Some d \<Rightarrow> Some d
          | None \<Rightarrow> parse_jpeg_dimensions bytes)))"

definition resized_image_bytes_estimate :: int where
  "resized_image_bytes_estimate = 7373"

definition original_image_patch_size :: nat where
  "original_image_patch_size = 32"

definition original_image_max_patches :: nat where
  "original_image_max_patches = 10000"

definition div_ceil :: "nat \<Rightarrow> nat \<Rightarrow> nat" where
  "div_ceil a b = (a + b - 1) div b"

definition image_uses_original_detail :: "string \<Rightarrow> bool" where
  "image_uses_original_detail url \<longleftrightarrow>
     str_contains ''detail=original'' url
     \<or> str_contains ([CHR 0x22] @ ''detail'' @ [CHR 0x22, CHR '':'', CHR 0x22] @ ''original'' @ [CHR 0x22]) url"

definition estimate_original_image_context_bytes :: "string \<Rightarrow> int option" where
  "estimate_original_image_context_bytes url =
     map_option (\<lambda>(width, height).
       let px = div_ceil (unat width) original_image_patch_size;
           py = div_ceil (unat height) original_image_patch_size
       in int (min (px * py) original_image_max_patches * 4)) (decode_image_dimensions url)"

definition estimate_image_context_bytes :: "string \<Rightarrow> int" where
  "estimate_image_context_bytes url =
     (if image_uses_original_detail url
      then case estimate_original_image_context_bytes url of Some n \<Rightarrow> n | None \<Rightarrow> resized_image_bytes_estimate
      else resized_image_bytes_estimate)"

lemma estimate_image_bounds:
  "0 \<le> estimate_image_context_bytes url" "estimate_image_context_bytes url \<le> 40000"
  by (auto simp: estimate_image_context_bytes_def estimate_original_image_context_bytes_def
      resized_image_bytes_estimate_def original_image_max_patches_def Let_def
      split: option.splits prod.splits)

section \<open>SHA-1\<close>

definition pad_left :: "nat \<Rightarrow> nat" where
  "pad_left r = (if r \<le> 56 then 56 - r else 120 - r)"

lemma pad_left_Suc: "r < 64 \<Longrightarrow> r \<noteq> 56 \<Longrightarrow> pad_left (if r = 63 then 0 else Suc r) < pad_left r"
  by (auto simp: pad_left_def)

function pad56 :: "8 word list \<Rightarrow> 8 word list" where
  "pad56 msg = (if length msg mod 64 \<noteq> 56 then pad56 (msg @ [0]) else msg)"
  by pat_completeness auto
termination
proof (relation "measure (\<lambda>msg. pad_left (length msg mod 64))")
  fix msg :: "8 word list"
  assume "length msg mod 64 \<noteq> 56"
  then show "(msg @ [0], msg) \<in> measure (\<lambda>msg. pad_left (length msg mod 64))"
    using pad_left_Suc [of "length msg mod 64"] by (simp add: mod_Suc)
qed simp

declare pad56.simps [simp del]

definition be_bytes :: "nat \<Rightarrow> 'a::len word \<Rightarrow> 8 word list" where
  "be_bytes n w = map (\<lambda>i. ucast (drop_bit (8 * (n - 1 - i)) w)) [0..<n]"

fun chunks_exact :: "nat \<Rightarrow> 'a list \<Rightarrow> 'a list list" where
  "chunks_exact n xs =
     (if 0 < n \<and> n \<le> length xs then take n xs # chunks_exact n (drop n xs) else [])"

declare chunks_exact.simps [simp del]

definition sha1_schedule :: "8 word list \<Rightarrow> 32 word list" where
  "sha1_schedule chunk =
     fold (\<lambda>i w. w @ [word_rotl 1 (w ! (i - 3) XOR w ! (i - 8) XOR w ! (i - 14) XOR w ! (i - 16))])
       [16..<80]
       (map (\<lambda>i. u32_be (chunk ! (i * 4)) (chunk ! (i * 4 + 1)) (chunk ! (i * 4 + 2)) (chunk ! (i * 4 + 3))) [0..<16])"

type_synonym sha1_state = "32 word \<times> 32 word \<times> 32 word \<times> 32 word \<times> 32 word"

fun sha1_round :: "nat \<times> 32 word \<Rightarrow> sha1_state \<Rightarrow> sha1_state" where
  "sha1_round (i, wi) (a, b, c, d, e) =
     (let (f, k) = (if i \<le> 19 then ((b AND c) OR ((NOT b) AND d), 0x5A827999)
                    else if i \<le> 39 then (b XOR c XOR d, 0x6ED9EBA1)
                    else if i \<le> 59 then ((b AND c) OR (b AND d) OR (c AND d), 0x8F1BBCDC)
                    else (b XOR c XOR d, 0xCA62C1D6));
          temp = word_rotl 5 a + f + e + k + wi
      in (temp, a, word_rotl 30 b, c, d))"

fun sha1_chunk :: "8 word list \<Rightarrow> sha1_state \<Rightarrow> sha1_state" where
  "sha1_chunk chunk (h0, h1, h2, h3, h4) =
     (case fold sha1_round (enumerate 0 (sha1_schedule chunk)) (h0, h1, h2, h3, h4) of
        (a, b, c, d, e) \<Rightarrow> (h0 + a, h1 + b, h2 + c, h3 + d, h4 + e))"

definition sha1 :: "8 word list \<Rightarrow> 8 word list" where
  "sha1 data =
     (let ml = of_nat (length data) * 8 :: 64 word;
          msg = pad56 (data @ [0x80]) @ be_bytes 8 ml
      in case fold sha1_chunk (chunks_exact 64 msg)
                (0x67452301, 0xEFCDAB89, 0x98BADCFE, 0x10325476, 0xC3D2E1F0) of
           (a, b, c, d, e) \<Rightarrow> concat (map (be_bytes 4) [a, b, c, d, e]))"

lemma sha1_length: "length (sha1 data) = 20"
  by (simp add: sha1_def be_bytes_def Let_def split: prod.splits)



lemma pad56_spec:
  "length (pad56 msg) mod 64 = 56 \<and> (\<exists>k. pad56 msg = msg @ replicate k 0)"
proof (induction msg rule: pad56.induct)
  case (1 msg)
  show ?case
  proof (cases "length msg mod 64 = 56")
    case True
    then show ?thesis by (auto simp: pad56.simps intro: exI [of _ 0])
  next
    case False
    then have "pad56 msg = pad56 (msg @ [0])" by (simp add: pad56.simps)
    moreover obtain k where "pad56 (msg @ [0]) = (msg @ [0]) @ replicate k 0"
      using 1 False by blast
    ultimately show ?thesis using 1 False by (auto intro: exI [of _ "Suc k"])
  qed
qed

section \<open>The least-recently-used cache\<close>

record image_estimate_cache =
  cache_capacity :: nat
  cache_entries :: "(8 word list \<times> int) list"

definition image_cache_new :: "nat \<Rightarrow> image_estimate_cache" where
  "image_cache_new capacity = \<lparr> cache_capacity = max capacity 1, cache_entries = [] \<rparr>"

definition image_cache_get :: "image_estimate_cache \<Rightarrow> string \<Rightarrow> int option \<times> image_estimate_cache" where
  "image_cache_get c url =
     (let key = sha1 (utf8_bytes url); es = cache_entries c in
      case position (\<lambda>(k, _). k = key) es of
        Some pos \<Rightarrow> (Some (snd (es ! pos)), c\<lparr> cache_entries := remove_at pos es @ [es ! pos] \<rparr>)
      | None \<Rightarrow> (None, c))"

definition image_cache_put :: "image_estimate_cache \<Rightarrow> string \<Rightarrow> int \<Rightarrow> image_estimate_cache" where
  "image_cache_put c url v =
     (let key = sha1 (utf8_bytes url); es = cache_entries c;
          es' = (case position (\<lambda>(k, _). k = key) es of
                   Some pos \<Rightarrow> remove_at pos es
                 | None \<Rightarrow> if length es \<ge> cache_capacity c then drop 1 es else es)
      in c\<lparr> cache_entries := es' @ [(key, v)] \<rparr>)"

definition get_or_insert_with :: "image_estimate_cache \<Rightarrow> string \<Rightarrow> (string \<Rightarrow> int) \<Rightarrow> int \<times> image_estimate_cache" where
  "get_or_insert_with c url f =
     (case image_cache_get c url of
        (Some v, c') \<Rightarrow> (v, c')
      | (None, c') \<Rightarrow> (f url, image_cache_put c' url (f url)))"

text \<open>The specification: the most recently used keys first, cut off at the capacity.\<close>

definition touch :: "nat \<Rightarrow> 'k \<times> 'v \<Rightarrow> ('k \<times> 'v) list \<Rightarrow> ('k \<times> 'v) list" where
  "touch cap e es = take cap (e # filter (\<lambda>(k, _). k \<noteq> fst e) es)"

definition cache_ok :: "(string \<Rightarrow> int) \<Rightarrow> string set \<Rightarrow> image_estimate_cache \<Rightarrow> bool" where
  "cache_ok f urls c \<longleftrightarrow>
     distinct (map fst (cache_entries c)) \<and> length (cache_entries c) \<le> cache_capacity c
     \<and> 0 < cache_capacity c
     \<and> (\<forall>(k, v)\<in>set (cache_entries c). \<exists>u\<in>urls. k = sha1 (utf8_bytes u) \<and> v = f u)"

lemma keys_filter_id:
  "k \<notin> fst ` set es \<Longrightarrow> filter (\<lambda>(k', _). k' \<noteq> k) es = es"
  by (induction es) auto

lemma touch_hit:
  assumes d: "distinct (map fst (a @ (k, v) # b))" and l: "length (a @ (k, v) # b) \<le> cap"
  shows "rev (a @ b @ [(k, v)]) = touch cap (k, v) (rev (a @ (k, v) # b))"
proof -
  from d have "k \<notin> fst ` set a" "k \<notin> fst ` set b" by auto
  then have f: "filter (\<lambda>(k', _). k' \<noteq> k) (rev (a @ (k, v) # b)) = rev b @ rev a"
    by (simp add: keys_filter_id)
  show ?thesis using l by (simp add: touch_def f del: filter_append rev_append) simp
qed

lemma touch_miss:
  assumes "k \<notin> fst ` set es" "length es \<le> cap" "0 < cap"
  shows "rev ((if length es \<ge> cap then drop 1 es else es) @ [(k, v)]) = touch cap (k, v) (rev es)"
proof -
  have "filter (\<lambda>(k', _). k' \<noteq> k) (rev es) = rev es" using assms(1) by (simp add: keys_filter_id)
  moreover have "take (cap - 1) (rev es) = rev (if length es \<ge> cap then drop 1 es else es)"
    using assms(2,3) by (auto simp: take_rev)
  ultimately show ?thesis using assms(3) by (cases cap) (simp_all add: touch_def)
qed

lemma key_entry:
  assumes "inj_on (\<lambda>u. sha1 (utf8_bytes u)) urls" "url \<in> urls" "cache_ok f urls c"
    and "(sha1 (utf8_bytes url), v) \<in> set (cache_entries c)"
  shows "v = f url"
  using assms unfolding cache_ok_def inj_on_def by fastforce

lemma evict_keeps:
  assumes ok: "cache_ok f urls c" and new: "sha1 (utf8_bytes url) \<notin> fst ` set (cache_entries c)"
    and u: "url \<in> urls"
  shows "cache_ok f urls (c\<lparr> cache_entries := (if length (cache_entries c) \<ge> cache_capacity c
           then drop 1 (cache_entries c) else cache_entries c) @ [(sha1 (utf8_bytes url), f url)] \<rparr>)"
proof -
  define k where "k = sha1 (utf8_bytes url)"
  define es where "es = (if length (cache_entries c) \<ge> cache_capacity c
     then drop 1 (cache_entries c) else cache_entries c)"
  have sub: "set es \<subseteq> set (cache_entries c)" by (auto simp: es_def dest: in_set_dropD)
  have "distinct (map fst es)" using ok by (simp add: es_def cache_ok_def drop_map distinct_drop flip: drop_map)
  moreover have "k \<notin> fst ` set es" using new sub by (auto simp: k_def)
  moreover have "length es < cache_capacity c" using ok by (auto simp: es_def cache_ok_def)
  moreover have "\<forall>(k', v)\<in>set es. \<exists>u\<in>urls. k' = sha1 (utf8_bytes u) \<and> v = f u"
    using ok sub unfolding cache_ok_def by blast
  ultimately show ?thesis
    using u ok unfolding es_def [symmetric] k_def [symmetric] cache_ok_def
    by (auto simp: k_def)
qed

lemma get_or_insert_step:
  assumes inj: "inj_on (\<lambda>u. sha1 (utf8_bytes u)) urls" and u: "url \<in> urls" and ok: "cache_ok f urls c"
    and r: "get_or_insert_with c url f = (w, c')"
  shows "w = f url" "cache_capacity c' = cache_capacity c"
    "rev (cache_entries c') = touch (cache_capacity c) (sha1 (utf8_bytes url), f url) (rev (cache_entries c))"
    "cache_ok f urls c'"
proof -
  let ?k = "sha1 (utf8_bytes url)"
  let ?es = "cache_entries c"
  from ok have d: "distinct (map fst ?es)" and l: "length ?es \<le> cache_capacity c" and p: "0 < cache_capacity c"
    by (auto simp: cache_ok_def)
  have all: "w = f url \<and> cache_capacity c' = cache_capacity c
    \<and> rev (cache_entries c') = touch (cache_capacity c) (?k, f url) (rev ?es) \<and> cache_ok f urls c'"
  proof (cases "position (\<lambda>(k, _). k = ?k) ?es")
    case None
    then have new: "?k \<notin> fst ` set ?es" by (force simp: position_None)
    have e: "w = f url \<and> cache_capacity c' = cache_capacity c \<and> cache_entries c' =
             (if length ?es \<ge> cache_capacity c then drop 1 ?es else ?es) @ [(?k, f url)]"
      using r unfolding get_or_insert_with_def image_cache_get_def image_cache_put_def Let_def None
      by (auto simp: None prod_eq_iff)
    have "cache_ok f urls c'"
      using evict_keeps [OF ok new u] e by (simp add: cache_ok_def)
    with e touch_miss [OF new l p, of "f url"]
    show ?thesis by simp
  next
    case Some': (Some i)
    from position_split [OF Some'] obtain a v b where es: "?es = a @ (?k, v) # b" and i: "length a = i"
      by auto
    then have v: "v = f url" using key_entry [OF inj u ok] by simp
    have e: "w = v" "cache_capacity c' = cache_capacity c" "cache_entries c' = a @ b @ [(?k, v)]"
      using r Some' i by (auto simp: es get_or_insert_with_def image_cache_get_def Let_def)
    have "cache_ok f urls c'" using e ok es by (auto simp: cache_ok_def)
    with e v touch_hit [of a ?k v b "cache_capacity c"] d l es
    show ?thesis by simp
  qed
  then show "w = f url" "cache_capacity c' = cache_capacity c"
    "rev (cache_entries c') = touch (cache_capacity c) (?k, f url) (rev ?es)"
    "cache_ok f urls c'" by blast+
qed

fun cached_estimates :: "(string \<Rightarrow> int) \<Rightarrow> image_estimate_cache \<Rightarrow> string list \<Rightarrow> int list \<times> image_estimate_cache" where
  "cached_estimates f c [] = ([], c)"
| "cached_estimates f c (u # us) =
     (let (v, c1) = get_or_insert_with c u f; (vs, c2) = cached_estimates f c1 us in (v # vs, c2))"

lemma cached_estimates_ok:
  assumes inj: "inj_on (\<lambda>u. sha1 (utf8_bytes u)) urls"
  shows "set us \<subseteq> urls \<Longrightarrow> cache_ok f urls c \<Longrightarrow> cached_estimates f c us = (vs, c') \<Longrightarrow>
    vs = map f us \<and> cache_ok f urls c' \<and> cache_capacity c' = cache_capacity c \<and>
    rev (cache_entries c') = fold (\<lambda>u. touch (cache_capacity c) (sha1 (utf8_bytes u), f u)) us (rev (cache_entries c))"
proof (induction us arbitrary: c vs)
  case (Cons u us)
  obtain v c1 where 1: "get_or_insert_with c u f = (v, c1)" by fastforce
  obtain ws c2 where 2: "cached_estimates f c1 us = (ws, c2)" by fastforce
  from Cons.prems(1) have "u \<in> urls" by simp
  note step = get_or_insert_step [OF inj this Cons.prems(2) 1]
  from Cons.prems 1 2 have eq: "vs = v # ws" "c' = c2" and sub: "set us \<subseteq> urls" by auto
  from Cons.IH [OF sub step(4)] 2 eq(2) step eq(1) show ?case by simp
qed simp

text \<open>The estimate cache is transparent and is least-recently-used: as long as no two of
  the URLs asked for have the same SHA-1 digest, every answer is the one the estimator would
  give, the cache never holds more than its capacity (at least one), and after any sequence of
  requests it holds the most recently used URLs, in that order, cut off at the capacity.\<close>

lemma image_cache_transparent:
  assumes "inj_on (\<lambda>u. sha1 (utf8_bytes u)) (set urls)"
    and "cached_estimates f (image_cache_new cap) urls = (vs, c)"
  shows "vs = map f urls \<and> length (cache_entries c) \<le> max cap 1
    \<and> rev (cache_entries c) = fold (\<lambda>u. touch (max cap 1) (sha1 (utf8_bytes u), f u)) urls []"
proof -
  have "cache_ok f (set urls) (image_cache_new cap)"
    by (simp add: cache_ok_def image_cache_new_def)
  from cached_estimates_ok [OF assms(1) subset_refl this assms(2)] show ?thesis
    by (auto simp: cache_ok_def image_cache_new_def)
qed

lemma image_cache_transparent_witness:
  "\<exists>vs c. cached_estimates estimate_image_context_bytes (image_cache_new 4) [''data:x'', ''data:x''] = (vs, c)
     \<and> vs = [7373, 7373] \<and> length (cache_entries c) \<le> 4"
proof -
  obtain vs c where r: "cached_estimates estimate_image_context_bytes (image_cache_new 4)
      [''data:x'', ''data:x''] = (vs, c)" by fastforce
  have "estimate_image_context_bytes ''data:x'' = 7373" by code_simp
  with image_cache_transparent [OF _ r] r show ?thesis by simp
qed

end
