(* ===== verification/Context.thy ===== *)
theory Context
  imports Schema ImageEstimate "HOL-Library.Char_ord" "HOL-Library.List_Lexorder"
begin

text \<open>
  The conversation buffer (\<open>context/mod.rs\<close>), its token accounting (accounting.rs) and the
  assembly of a prompt from it (assembly.rs, re-exported by normalize.rs): size estimates,
  truncation of tool outputs, pairing of calls with outputs, image stripping, and the lowering
  of items to typed messages. An item is a JSON value, as in the code. The product of a budget
  with the constant 1.2, a floating-point computation, is the argument \<open>scale\<close>.
\<close>

section \<open>Token accounting\<close>

definition approx_bytes_per_token :: int where
  "approx_bytes_per_token = 4"

definition approx_tokens_from_byte_count :: "int \<Rightarrow> int" where
  "approx_tokens_from_byte_count bytes =
     (if bytes \<le> 0 then 0
      else div_to_zero (wrap_i64 (wrap_i64 (bytes + approx_bytes_per_token) - 1)) approx_bytes_per_token)"

definition sat_usize :: "nat \<Rightarrow> nat" where
  "sat_usize n = min n 18446744073709551615"

definition approx_bytes_for_tokens :: "nat \<Rightarrow> nat" where
  "approx_bytes_for_tokens tokens = sat_usize (tokens * nat approx_bytes_per_token)"

definition estimate_reasoning_length :: "nat \<Rightarrow> nat" where
  "estimate_reasoning_length len = sat_usize (len * 3) div 4 - 650"

definition estimate_encrypted_function_output_length :: "nat \<Rightarrow> nat" where
  "estimate_encrypted_function_output_length len = div_ceil (sat_usize (len * 9)) 16"

record token_usage =
  tu_input :: int
  tu_cached_input :: int
  tu_output :: int
  tu_reasoning_output :: int
  tu_total :: int

definition token_usage_zero :: token_usage where
  "token_usage_zero = \<lparr> tu_input = 0, tu_cached_input = 0, tu_output = 0, tu_reasoning_output = 0, tu_total = 0 \<rparr>"

definition from_llm_usage :: "usage \<Rightarrow> token_usage" where
  "from_llm_usage u =
     (let total = (if total_tokens u \<noteq> 0 then total_tokens u else computed_total u) in
      \<lparr> tu_input = sint (input_tokens u), tu_cached_input = sint (cached_input_tokens u),
        tu_output = sint (output_tokens u), tu_reasoning_output = sint (reasoning_output_tokens u),
        tu_total = sint total \<rparr>)"

definition token_usage_add :: "token_usage \<Rightarrow> token_usage \<Rightarrow> token_usage" where
  "token_usage_add a b =
     \<lparr> tu_input = sat_add64 (tu_input a) (tu_input b),
       tu_cached_input = sat_add64 (tu_cached_input a) (tu_cached_input b),
       tu_output = sat_add64 (tu_output a) (tu_output b),
       tu_reasoning_output = sat_add64 (tu_reasoning_output a) (tu_reasoning_output b),
       tu_total = sat_add64 (tu_total a) (tu_total b) \<rparr>"

record token_usage_info =
  ti_total :: token_usage
  ti_last :: token_usage
  ti_window :: "int option"

definition new_or_append ::
  "token_usage_info option \<Rightarrow> token_usage option \<Rightarrow> int option \<Rightarrow> token_usage_info option" where
  "new_or_append prev last_u window =
     (case (prev, last_u) of
        (None, None) \<Rightarrow> None
      | (None, Some l) \<Rightarrow> Some \<lparr> ti_total = l, ti_last = l, ti_window = window \<rparr>
      | (Some p, None) \<Rightarrow> Some (if window \<noteq> None then p\<lparr> ti_window := window \<rparr> else p)
      | (Some p, Some l) \<Rightarrow>
          (let info = p\<lparr> ti_total := token_usage_add (ti_total p) l, ti_last := l \<rparr>
           in Some (if window \<noteq> None then info\<lparr> ti_window := window \<rparr> else info)))"

definition fill_to_context_window :: "token_usage_info \<Rightarrow> int \<Rightarrow> token_usage_info" where
  "fill_to_context_window info window =
     (let delta = max (sat_sub64 window (tu_total (ti_total info))) 0 in
      info\<lparr> ti_window := Some window, ti_total := token_usage_zero\<lparr> tu_total := window \<rparr>,
            ti_last := token_usage_zero\<lparr> tu_total := delta \<rparr> \<rparr>)"

definition full_context_window :: "int \<Rightarrow> token_usage_info" where
  "full_context_window window =
     fill_to_context_window
       \<lparr> ti_total = token_usage_zero, ti_last = token_usage_zero, ti_window = Some window \<rparr> window"

section \<open>Items\<close>

type_synonym item = json

definition item_type :: "item \<Rightarrow> string option" where
  "item_type i = get_str i ''type''"

definition item_role :: "item \<Rightarrow> string option" where
  "item_role i = get_str i ''role''"

definition item_call_id :: "item \<Rightarrow> string option" where
  "item_call_id i = get_str i ''call_id''"

definition is_function_call :: "item \<Rightarrow> bool" where
  "is_function_call i \<longleftrightarrow>
     item_type i \<in> {Some ''function_call'', Some ''custom_tool_call'', Some ''local_shell_call''}"

definition is_function_call_output :: "item \<Rightarrow> bool" where
  "is_function_call_output i \<longleftrightarrow>
     item_type i \<in> {Some ''function_call_output'', Some ''custom_tool_call_output''}"

definition is_reasoning_item :: "item \<Rightarrow> bool" where
  "is_reasoning_item i \<longleftrightarrow> item_type i \<in> {Some ''reasoning'', Some ''compaction''}"

section \<open>Size estimates\<close>

definition reasoning_text_len :: "item \<Rightarrow> nat" where
  "reasoning_text_len i =
     (case get_str i ''text'' of Some s \<Rightarrow> str_bytes s | None \<Rightarrow> 0)
     + (case Option.bind (json_get i ''summary'') as_array of
          Some arr \<Rightarrow> sum_list (map (\<lambda>part. case get_str part ''text'' of Some s \<Rightarrow> str_bytes s | None \<Rightarrow> 0) arr)
        | None \<Rightarrow> 0)"

definition data_url :: "string option \<Rightarrow> string list" where
  "data_url u = (case u of Some s \<Rightarrow> if starts_with ''data:'' s then [s] else [] | None \<Rightarrow> [])"

definition collect_image_data_urls :: "item \<Rightarrow> string list" where
  "collect_image_data_urls i =
     (case Option.bind (json_get i ''content'') as_array of
        None \<Rightarrow> []
      | Some content \<Rightarrow>
          concat (map (\<lambda>part. data_url (get_str part ''image_url'')
            @ data_url (Option.bind (json_get part ''image_url'') (\<lambda>v. get_str v ''url''))) content))"

definition image_data_url_estimate_adjustment :: "item \<Rightarrow> int \<times> int" where
  "image_data_url_estimate_adjustment i =
     foldl (\<lambda>(payload, replacement) url.
         (sat_add64 payload (int (str_bytes url)),
          sat_add64 replacement (estimate_image_context_bytes url)))
       (0, 0) (collect_image_data_urls i)"

definition encrypted_function_output_estimate_adjustment :: "item \<Rightarrow> int \<times> int" where
  "encrypted_function_output_estimate_adjustment i =
     (case json_get i ''output'' of
        None \<Rightarrow> (0, 0)
      | Some output \<Rightarrow>
          (case get_str output ''encrypted_content'' of
             None \<Rightarrow> (0, 0)
           | Some e \<Rightarrow> (int (str_bytes e), int (estimate_encrypted_function_output_length (str_bytes e)))))"

definition estimate_item_model_visible_bytes :: "item \<Rightarrow> int" where
  "estimate_item_model_visible_bytes i =
     (if is_reasoning_item i
      then clamp_i64 (int (estimate_reasoning_length (reasoning_text_len i)))
      else
        let raw = clamp_i64 (int (str_bytes (show_json i)));
            (image_payload, image_replacement) = image_data_url_estimate_adjustment i;
            (enc_payload, enc_replacement) = encrypted_function_output_estimate_adjustment i;
            raw = sat_add64 (sat_sub64 raw image_payload) image_replacement
        in sat_add64 (sat_sub64 raw enc_payload) enc_replacement)"

definition estimate_item_token_count :: "item \<Rightarrow> int" where
  "estimate_item_token_count i = approx_tokens_from_byte_count (estimate_item_model_visible_bytes i)"

section \<open>Classification\<close>

definition is_api_message :: "item \<Rightarrow> bool" where
  "is_api_message i =
     (case item_type i of
        Some t \<Rightarrow> if t = ''message'' then item_role i \<noteq> Some ''system'' else True
      | None \<Rightarrow> item_role i \<noteq> None)"

definition is_model_generated_item :: "item \<Rightarrow> bool" where
  "is_model_generated_item i =
     (if item_role i = Some ''user'' then False
      else if item_role i = Some ''assistant'' then True
      else item_type i \<in> {Some ''message'', Some ''reasoning'', Some ''function_call'',
                          Some ''custom_tool_call'', Some ''local_shell_call''})"

definition is_user_turn_boundary :: "item \<Rightarrow> bool" where
  "is_user_turn_boundary i \<longleftrightarrow>
     item_role i = Some ''user'' \<and> item_type i \<noteq> Some ''function_call_output''"

definition is_codex_generated_item :: "item \<Rightarrow> bool" where
  "is_codex_generated_item i \<longleftrightarrow>
     item_type i \<in> {Some ''reasoning'', Some ''function_call'', Some ''custom_tool_call'',
       Some ''local_shell_call'', Some ''function_call_output'', Some ''custom_tool_call_output''}"

section \<open>Truncation\<close>

datatype truncation_policy = TpBytes nat | TpTokens nat

fun byte_budget :: "truncation_policy \<Rightarrow> nat" where
  "byte_budget (TpBytes b) = b"
| "byte_budget (TpTokens t) = sat_usize (t * nat approx_bytes_per_token)"

fun scale_policy :: "(nat \<Rightarrow> nat) \<Rightarrow> truncation_policy \<Rightarrow> truncation_policy" where
  "scale_policy scale (TpBytes b) = TpBytes (scale b)"
| "scale_policy scale (TpTokens t) = TpTokens (scale t)"

definition truncation_note :: string where
  "truncation_note = CHR 0x0A # ''[output truncated]''"

text \<open>Byte offsets into a string: the character boundaries and the slice before one.\<close>

definition is_char_boundary :: "string \<Rightarrow> nat \<Rightarrow> bool" where
  "is_char_boundary t n \<longleftrightarrow> n \<in> set (map (\<lambda>k. str_bytes (take k t)) [0..<Suc (length t)])"

fun floor_boundary :: "string \<Rightarrow> nat \<Rightarrow> nat" where
  "floor_boundary t 0 = 0"
| "floor_boundary t (Suc n) = (if is_char_boundary t (Suc n) then Suc n else floor_boundary t n)"

fun slice_to :: "nat \<Rightarrow> string \<Rightarrow> string" where
  "slice_to n [] = []"
| "slice_to n (c # s) = (if utf8_len c \<le> n then c # slice_to (n - utf8_len c) s else [])"

definition truncate_text :: "string \<Rightarrow> truncation_policy \<Rightarrow> string" where
  "truncate_text t p =
     (let budget = byte_budget p in
      if str_bytes t \<le> budget then t
      else if budget = 0 then []
      else slice_to (floor_boundary t (min budget (str_bytes t))) t @ truncation_note)"

definition truncate_output_text :: "item \<Rightarrow> truncation_policy \<Rightarrow> item" where
  "truncate_output_text i p =
     (case i of
        JObj obj \<Rightarrow>
          (case map_of obj ''output'' of
             Some (JStr s) \<Rightarrow> JObj (bt_insert ''output'' (JStr (truncate_text s p)) obj)
           | o1 \<Rightarrow>
               (case map_of obj ''content'' of
                  Some (JStr s) \<Rightarrow> JObj (bt_insert ''content'' (JStr (truncate_text s p)) obj)
                | _ \<Rightarrow>
                    (case o1 of
                       Some (JObj inner) \<Rightarrow>
                         (case map_of inner ''content'' of
                            Some (JStr s) \<Rightarrow>
                              JObj (bt_insert ''output''
                                (JObj (bt_insert ''content'' (JStr (truncate_text s p)) inner)) obj)
                          | _ \<Rightarrow> i)
                     | _ \<Rightarrow> i)))
      | _ \<Rightarrow> i)"

definition process_item :: "(nat \<Rightarrow> nat) \<Rightarrow> item \<Rightarrow> truncation_policy \<Rightarrow> item" where
  "process_item scale i p =
     (if \<not> is_function_call_output i then i else truncate_output_text i (scale_policy scale p))"

section \<open>Normalisation\<close>

definition aborted_output_content :: string where
  "aborted_output_content = ''aborted''"

definition placeholder_output :: "string \<Rightarrow> item" where
  "placeholder_output call_id =
     JObj [(''call_id'', JStr call_id),
           (''output'', JObj [(''content'', JStr aborted_output_content), (''success'', JBool False)]),
           (''type'', JStr ''function_call_output'')]"

fun id_set :: "(item \<Rightarrow> bool) \<Rightarrow> item list \<Rightarrow> string set" where
  "id_set p [] = {}"
| "id_set p (i # is) =
     (if p i then (case item_call_id i of Some d \<Rightarrow> insert d (id_set p is) | None \<Rightarrow> id_set p is)
      else id_set p is)"

fun missing_outputs :: "string set \<Rightarrow> string set \<Rightarrow> nat \<Rightarrow> item list \<Rightarrow> (nat \<times> item) list" where
  "missing_outputs have_output inserted idx [] = []"
| "missing_outputs have_output inserted idx (i # is) =
     (if \<not> is_function_call i then missing_outputs have_output inserted (Suc idx) is
      else case item_call_id i of
             None \<Rightarrow> missing_outputs have_output inserted (Suc idx) is
           | Some d \<Rightarrow>
               if d \<in> have_output \<or> d \<in> inserted
               then missing_outputs have_output inserted (Suc idx) is
               else (idx, placeholder_output d)
                    # missing_outputs have_output (insert d inserted) (Suc idx) is)"

fun insert_output :: "nat \<times> item \<Rightarrow> item list \<Rightarrow> item list" where
  "insert_output (idx, out) items = insert_at (idx + 1) out items"

definition ensure_call_outputs_present :: "item list \<Rightarrow> item list" where
  "ensure_call_outputs_present items =
     fold insert_output
       (rev (missing_outputs (id_set is_function_call_output items) {} 0 items)) items"

definition remove_orphan_outputs :: "item list \<Rightarrow> item list" where
  "remove_orphan_outputs items =
     (let seen = id_set is_function_call items in
      filter (\<lambda>i. if is_function_call_output i
                  then (case item_call_id i of Some d \<Rightarrow> d \<in> seen | None \<Rightarrow> False)
                  else True) items)"

definition is_image_part :: "json \<Rightarrow> bool" where
  "is_image_part part \<longleftrightarrow>
     get_str part ''type'' \<in> {Some ''input_image'', Some ''image_url'', Some ''output_image''}"

definition strip_item_images :: "item \<Rightarrow> item" where
  "strip_item_images i =
     (case i of
        JObj obj \<Rightarrow>
          JObj (map (\<lambda>(k, v). if k = ''content''
                     then (k, case v of JArr parts \<Rightarrow> JArr (filter (\<lambda>q. \<not> is_image_part q) parts) | _ \<Rightarrow> v)
                     else (k, v)) obj)
      | _ \<Rightarrow> i)"

definition strip_images_when_unsupported :: "bool \<Rightarrow> item list \<Rightarrow> item list" where
  "strip_images_when_unsupported supports_image items =
     (if supports_image then items else map strip_item_images items)"

definition remove_corresponding_for :: "item list \<Rightarrow> item \<Rightarrow> item list" where
  "remove_corresponding_for items removed =
     (case (if is_function_call removed \<or> is_function_call_output removed
            then item_call_id removed else None) of
        None \<Rightarrow> items
      | Some d \<Rightarrow>
          filter (\<lambda>i. if is_function_call i \<or> is_function_call_output i
                      then item_call_id i \<noteq> Some d else True) items)"

definition for_prompt :: "item list \<Rightarrow> bool \<Rightarrow> item list" where
  "for_prompt items supports_image =
     strip_images_when_unsupported supports_image
       (remove_orphan_outputs (ensure_call_outputs_present items))"

section \<open>Total usage\<close>

record usage_breakdown =
  last_api_response_total_tokens :: int
  all_history_items_model_visible_bytes :: int
  estimated_tokens_since_last_api_response :: int
  estimated_bytes_since_last_api_response :: int

definition rposition_model_generated :: "item list \<Rightarrow> nat option" where
  "rposition_model_generated items = rposition is_model_generated_item items"

definition start_after_last_model_generated :: "item list \<Rightarrow> nat" where
  "start_after_last_model_generated items =
     (case rposition_model_generated items of None \<Rightarrow> 0 | Some idx \<Rightarrow> idx + 1)"

definition sum_item_tokens :: "item list \<Rightarrow> int" where
  "sum_item_tokens items = foldl (\<lambda>total i. sat_add64 total (estimate_item_token_count i)) 0 items"

definition sum_item_bytes :: "item list \<Rightarrow> int" where
  "sum_item_bytes items = foldl (\<lambda>total i. sat_add64 total (estimate_item_model_visible_bytes i)) 0 items"

definition non_last_reasoning_items_tokens :: "item list \<Rightarrow> int" where
  "non_last_reasoning_items_tokens items =
     (case rposition_model_generated items of
        None \<Rightarrow> 0
      | Some idx \<Rightarrow>
          foldl (\<lambda>total i. if is_reasoning_item i then sat_add64 total (estimate_item_token_count i) else total)
            0 (take idx items))"

definition info_last_total :: "token_usage_info option \<Rightarrow> int" where
  "info_last_total info = (case info of Some i \<Rightarrow> tu_total (ti_last i) | None \<Rightarrow> 0)"

definition total_token_usage :: "item list \<Rightarrow> token_usage_info option \<Rightarrow> bool \<Rightarrow> int" where
  "total_token_usage items info server_reasoning_included =
     (let last_tokens = info_last_total info;
          after_tokens = sum_item_tokens (drop (start_after_last_model_generated items) items)
      in if server_reasoning_included then sat_add64 last_tokens after_tokens
         else sat_add64 (sat_add64 last_tokens (non_last_reasoning_items_tokens items)) after_tokens)"

definition total_token_usage_breakdown :: "item list \<Rightarrow> token_usage_info option \<Rightarrow> usage_breakdown" where
  "total_token_usage_breakdown items info =
     (let after = drop (start_after_last_model_generated items) items in
      \<lparr> last_api_response_total_tokens = info_last_total info,
        all_history_items_model_visible_bytes = sum_item_bytes items,
        estimated_tokens_since_last_api_response = sum_item_tokens after,
        estimated_bytes_since_last_api_response = sum_item_bytes after \<rparr>)"

section \<open>Lowering items to messages\<close>

definition image_detail_from_part :: "json \<Rightarrow> string option" where
  "image_detail_from_part part =
     (case get_str part ''detail'' of
        Some d \<Rightarrow> if str_trim d = [] then None else Some d
      | None \<Rightarrow> None)"

definition data_url_media :: "string \<Rightarrow> (string \<times> string) option" where
  "data_url_media url =
     (case strip_pre ''data:'' url of None \<Rightarrow> None
      | Some rest \<Rightarrow> (case split_once '','' rest of None \<Rightarrow> None
        | Some (header, data) \<Rightarrow>
            (let mime = hd (split_on (CHR '';'') header) in
             if \<not> starts_with ''image/'' mime \<or> \<not> str_contains '';base64'' header \<or> data = [] then None
             else Some (mime, data))))"

definition part_to_content_part :: "json \<Rightarrow> content_part option" where
  "part_to_content_part part =
     (case get_str part ''type'' of
        None \<Rightarrow> None
      | Some t \<Rightarrow>
          if t \<in> {''text'', ''input_text'', ''output_text''} then
            (case get_str part ''text'' of
               None \<Rightarrow> None
             | Some s \<Rightarrow> Some (PText s (json_get part ''provider_metadata'')))
          else if t \<in> {''input_image'', ''image'', ''image_url'', ''output_image''} then
            (let url = (case Option.bind (json_get part ''image_url'')
                               (\<lambda>v. case as_str v of Some s \<Rightarrow> Some s | None \<Rightarrow> get_str v ''url'') of
                          Some u \<Rightarrow> Some u
                        | None \<Rightarrow> get_str part ''url'')
             in case Option.bind url data_url_media of
                  Some (mime, data) \<Rightarrow> Some (PMedia mime (Some data) None (image_detail_from_part part))
                | None \<Rightarrow>
                    Some (PMedia (case get_str part ''mime_type'' of Some m \<Rightarrow> m | None \<Rightarrow> ''image/png'')
                            (get_str part ''data'') url (image_detail_from_part part)))
          else None)"

definition content_to_parts :: "json \<Rightarrow> content_part list" where
  "content_to_parts content =
     (case content of
        JStr t \<Rightarrow> if t \<noteq> [] then [part_text t] else []
      | JArr parts \<Rightarrow> List.map_filter part_to_content_part parts
      | _ \<Rightarrow> [])"

definition content_text :: "json option \<Rightarrow> string" where
  "content_text content =
     (case content of
        Some (JStr t) \<Rightarrow> t
      | Some (JArr parts) \<Rightarrow>
          concat (List.map_filter
            (\<lambda>part. case get_str part ''text'' of Some s \<Rightarrow> Some s | None \<Rightarrow> as_str part) parts)
      | Some JNull \<Rightarrow> []
      | Some v \<Rightarrow> show_json v
      | None \<Rightarrow> [])"

definition role_from_str :: "string option \<Rightarrow> message_role" where
  "role_from_str r =
     (if r = Some ''system'' then RSystem else if r = Some ''assistant'' then RAssistant
      else if r = Some ''tool'' then RTool else if r = Some ''developer'' then RDeveloper else RUser)"

definition lower_tool_call :: "json \<Rightarrow> content_part option" where
  "lower_tool_call call =
     (case Option.bind (case json_get call ''id'' of Some v \<Rightarrow> Some v | None \<Rightarrow> json_get call ''call_id'') as_str of
        None \<Rightarrow> None
      | Some d \<Rightarrow>
          (case get_str call ''name'' of
             None \<Rightarrow> None
           | Some name \<Rightarrow>
               Some (PToolCall d name (case json_get call ''arguments'' of Some v \<Rightarrow> v | None \<Rightarrow> JNull)
                       (json_get call ''provider_metadata''))))"

definition item_to_message :: "item \<Rightarrow> message option" where
  "item_to_message i =
     (case i of
        JObj obj \<Rightarrow>
          (let role = role_from_str (get_str i ''role'') in
           if role = RTool then
             (let content = (case map_of obj ''content'' of Some c \<Rightarrow> content_to_parts c | None \<Rightarrow> []);
                  content = (if content = [] then [part_text (content_text (map_of obj ''content''))] else content)
              in Some (message_new RTool
                   [PToolResult (case get_str i ''tool_call_id'' of Some d \<Rightarrow> d | None \<Rightarrow> []) content False]))
           else
             (let parts = (case map_of obj ''content'' of Some c \<Rightarrow> content_to_parts c | None \<Rightarrow> [])
                          @ (case Option.bind (map_of obj ''tool_calls'') as_array of
                               Some calls \<Rightarrow> List.map_filter lower_tool_call calls | None \<Rightarrow> [])
              in if parts = [] then None else Some (message_new role parts)))
      | _ \<Rightarrow> None)"

section \<open>The context manager\<close>

record context_manager =
  cm_items :: "item list"
  cm_token_info :: "token_usage_info option"
  cm_history_version :: nat

definition context_new :: context_manager where
  "context_new = \<lparr> cm_items = [], cm_token_info = None, cm_history_version = 0 \<rparr>"

definition bump_version :: "context_manager \<Rightarrow> context_manager" where
  "bump_version m = m\<lparr> cm_history_version := min (cm_history_version m + 1) 18446744073709551615 \<rparr>"

definition record_items ::
  "(nat \<Rightarrow> nat) \<Rightarrow> context_manager \<Rightarrow> item list \<Rightarrow> truncation_policy \<Rightarrow> context_manager" where
  "record_items scale m items p =
     bump_version (m\<lparr> cm_items := cm_items m @ map (\<lambda>i. process_item scale i p) items \<rparr>)"

definition snapshot_for_prompt :: "context_manager \<Rightarrow> bool \<Rightarrow> item list" where
  "snapshot_for_prompt m supports_image = for_prompt (cm_items m) supports_image"

definition lower_to_messages :: "item list \<Rightarrow> message list" where
  "lower_to_messages items = List.map_filter item_to_message items"

definition update_token_info :: "context_manager \<Rightarrow> token_usage \<Rightarrow> int option \<Rightarrow> context_manager" where
  "update_token_info m u window =
     bump_version (m\<lparr> cm_token_info := new_or_append (cm_token_info m) (Some u) window \<rparr>)"

definition set_token_usage_full :: "context_manager \<Rightarrow> int \<Rightarrow> context_manager" where
  "set_token_usage_full m window =
     bump_version (case cm_token_info m of
        Some info \<Rightarrow> m\<lparr> cm_token_info := Some (fill_to_context_window info window) \<rparr>
      | None \<Rightarrow> m\<lparr> cm_token_info := Some (full_context_window window) \<rparr>)"

definition cm_total_token_usage :: "context_manager \<Rightarrow> bool \<Rightarrow> int" where
  "cm_total_token_usage m b = total_token_usage (cm_items m) (cm_token_info m) b"

definition cm_breakdown :: "context_manager \<Rightarrow> usage_breakdown" where
  "cm_breakdown m = total_token_usage_breakdown (cm_items m) (cm_token_info m)"

definition estimate_total_tokens :: "context_manager \<Rightarrow> int" where
  "estimate_total_tokens m =
     approx_tokens_from_byte_count (all_history_items_model_visible_bytes (cm_breakdown m))"

section \<open>Pairing of calls and outputs\<close>

abbreviation call_ids :: "item list \<Rightarrow> string set" where
  "call_ids \<equiv> id_set is_function_call"

abbreviation output_ids :: "item list \<Rightarrow> string set" where
  "output_ids \<equiv> id_set is_function_call_output"

text \<open>The reference: one pass that answers each call nobody has answered yet.\<close>

fun answer_calls :: "string set \<Rightarrow> item list \<Rightarrow> item list" where
  "answer_calls answered [] = []"
| "answer_calls answered (i # is) =
     (case (if is_function_call i then item_call_id i else None) of
        Some d \<Rightarrow> if d \<in> answered then i # answer_calls answered is
                  else i # placeholder_output d # answer_calls (insert d answered) is
      | None \<Rightarrow> i # answer_calls answered is)"

lemma id_set_mem: "d \<in> id_set p is \<longleftrightarrow> (\<exists>i\<in>set is. p i \<and> item_call_id i = Some d)"
  by (induction "is") (auto split: option.splits)

lemma id_set_append [simp]: "id_set p (a @ b) = id_set p a \<union> id_set p b"
  by (auto simp: id_set_mem)

lemma placeholder_props [simp]:
  "is_function_call_output (placeholder_output d)" "\<not> is_function_call (placeholder_output d)"
  "item_call_id (placeholder_output d) = Some d"
  by (simp_all add: is_function_call_output_def is_function_call_def item_type_def item_call_id_def
      placeholder_output_def get_str_def)

lemma call_not_output: "is_function_call i \<Longrightarrow> \<not> is_function_call_output i"
  by (auto simp: is_function_call_def is_function_call_output_def)

lemma insert_missing:
  "length pre = idx \<Longrightarrow>
   foldr insert_output (missing_outputs have ins idx items) (pre @ items)
   = pre @ answer_calls (have \<union> ins) items"
proof (induction items arbitrary: idx ins pre)
  case (Cons i items)
  have rest: "foldr insert_output (missing_outputs have ins' (Suc idx) items) (pre @ i # items)
              = pre @ i # answer_calls (have \<union> ins') items" for ins'
    using Cons.IH [of "pre @ [i]" "Suc idx" ins'] Cons.prems by simp
  have ins: "insert_at (Suc idx) x (pre @ i # ys) = pre @ i # x # ys" for x ys
    using insert_at_append [of "pre @ [i]" x ys] Cons.prems by simp
  show ?case by (auto simp: rest ins split: option.splits)
qed simp

lemma ensure_is_answer_calls:
  "ensure_call_outputs_present items = answer_calls (output_ids items) items"
  using insert_missing [of "[]" 0 "output_ids items" "{}" items]
  by (simp add: ensure_call_outputs_present_def foldr_conv_fold)

lemma answer_calls_ids:
  "call_ids (answer_calls a is) = call_ids is"
  "output_ids (answer_calls a is) = output_ids is \<union> (call_ids is - a)"
  by (induction a "is" rule: answer_calls.induct) (auto split: option.splits dest: call_not_output)

lemma answer_calls_done: "call_ids is \<subseteq> a \<Longrightarrow> answer_calls a is = is"
  by (induction "is") (auto split: option.splits if_splits)

definition answers_known :: "string set \<Rightarrow> item \<Rightarrow> bool" where
  "answers_known seen i =
     (if is_function_call_output i
      then (case item_call_id i of Some d \<Rightarrow> d \<in> seen | None \<Rightarrow> False) else True)"

lemma remove_orphan_alt:
  "remove_orphan_outputs items = filter (answers_known (call_ids items)) items"
  by (simp add: remove_orphan_outputs_def answers_known_def [abs_def])

lemma orphan_ids:
  "call_ids (filter (answers_known seen) is) = call_ids is"
  "output_ids (filter (answers_known seen) is) = output_ids is \<inter> seen"
  by (induction "is") (auto simp: answers_known_def split: option.splits if_splits dest: call_not_output)

text \<open>Stripping images touches neither the type nor the call id of an item.\<close>

lemma strip_get: "k \<noteq> ''content'' \<Longrightarrow> json_get (strip_item_images i) k = json_get i k"
proof (cases i)
  case (JObj obj)
  assume k: "k \<noteq> ''content''"
  have "map_of (map (\<lambda>(k, v). if k = ''content''
                     then (k, case v of JArr parts \<Rightarrow> JArr (filter (\<lambda>q. \<not> is_image_part q) parts) | _ \<Rightarrow> v)
                     else (k, v)) obj) k = map_of obj k"
    by (induction obj) (use k in auto)
  with JObj show ?thesis by (simp add: strip_item_images_def)
qed (simp_all add: strip_item_images_def)

lemma strip_preds [simp]:
  "is_function_call (strip_item_images i) = is_function_call i"
  "is_function_call_output (strip_item_images i) = is_function_call_output i"
  "item_call_id (strip_item_images i) = item_call_id i"
  by (simp_all add: is_function_call_def is_function_call_output_def item_type_def item_call_id_def
      get_str_def strip_get)

lemma strip_idem [simp]: "strip_item_images (strip_item_images i) = strip_item_images i"
  by (cases i) (auto simp: strip_item_images_def split: json.splits)

lemma strip_ids [simp]:
  "call_ids (strip_images_when_unsupported b is) = call_ids is"
  "output_ids (strip_images_when_unsupported b is) = output_ids is"
  by (auto simp: strip_images_when_unsupported_def id_set_mem)

lemma for_prompt_ids:
  "call_ids (for_prompt items b) = call_ids items"
  "output_ids (for_prompt items b) = call_ids items"
  by (auto simp: for_prompt_def remove_orphan_alt orphan_ids ensure_is_answer_calls answer_calls_ids)

lemma filter_known_strip:
  "filter (answers_known s) (strip_images_when_unsupported b is)
   = strip_images_when_unsupported b (filter (answers_known s) is)"
  by (auto simp: strip_images_when_unsupported_def filter_map answers_known_def comp_def
      intro!: arg_cong [where f = "map _"] filter_cong)

lemma strip_strip [simp]:
  "strip_images_when_unsupported b (strip_images_when_unsupported b is) = strip_images_when_unsupported b is"
  by (simp add: strip_images_when_unsupported_def)

text \<open>C4. What the model is sent is well paired, whatever the history holds: the prompt
  assembled from any item list has exactly the calls of that list, every call id has an output
  and every output belongs to one of those calls (no output is an orphan, none lacks an id).\<close>

theorem prompt_pairs_calls:
  "call_ids (for_prompt items b) = call_ids items
   \<and> output_ids (for_prompt items b) = call_ids items
   \<and> filter (\<lambda>i. is_function_call_output i \<and> item_call_id i = None) (for_prompt items b) = []"
proof -
  have "answers_known s i \<Longrightarrow> is_function_call_output i \<Longrightarrow> item_call_id i \<noteq> None" for s i
    by (auto simp: answers_known_def split: option.splits)
  then have "filter (\<lambda>i. is_function_call_output i \<and> item_call_id i = None) (for_prompt items b) = []"
    by (auto simp: for_prompt_def remove_orphan_alt filter_empty_conv strip_images_when_unsupported_def)
  with for_prompt_ids show ?thesis by simp
qed

text \<open>The index-shifting insertion computes the plain thing: the prompt is the history
  without the outputs whose call is missing, in its order, with one synthetic "aborted" output
  right behind the first call of every unanswered id, and without image parts when the model
  takes none. Assembling a prompt from a prompt changes nothing.\<close>

lemma prompt_one_pass:
  "for_prompt items b
     = strip_images_when_unsupported b
         (answer_calls (output_ids items) (filter (answers_known (call_ids items)) items))
   \<and> for_prompt (for_prompt items b) b = for_prompt items b"
proof -
  have com: "filter (answers_known s) (answer_calls a is) = answer_calls a (filter (answers_known s) is)"
    if "call_ids is \<subseteq> s" for s a "is"
    using that
    by (induction a "is" rule: answer_calls.induct)
      (auto simp: answers_known_def split: option.splits if_splits dest: call_not_output)
  have "ensure_call_outputs_present (for_prompt items b) = for_prompt items b"
    by (simp add: ensure_is_answer_calls for_prompt_ids answer_calls_done)
  moreover have "remove_orphan_outputs (for_prompt items b) = for_prompt items b"
    unfolding remove_orphan_alt [of "for_prompt items b"] for_prompt_ids(1)
    by (simp add: for_prompt_def remove_orphan_alt filter_known_strip ensure_is_answer_calls answer_calls_ids)
  moreover have "strip_images_when_unsupported b (for_prompt items b) = for_prompt items b"
    by (simp add: for_prompt_def)
  ultimately have "for_prompt (for_prompt items b) b = for_prompt items b"
    by (metis for_prompt_def)
  then show ?thesis
    by (simp add: for_prompt_def remove_orphan_alt ensure_is_answer_calls answer_calls_ids com)
qed

section \<open>Truncation\<close>

lemma slice_to_prefix: "prefix (slice_to n t) t"
  by (induction n t rule: slice_to.induct) auto

lemma slice_to_bytes: "str_bytes (slice_to n t) \<le> n"
  by (induction n t rule: slice_to.induct) (auto simp: str_bytes_def)

lemma slice_to_longest: "prefix w t \<Longrightarrow> str_bytes w \<le> n \<Longrightarrow> prefix w (slice_to n t)"
proof (induction n t arbitrary: w rule: slice_to.induct)
  case (2 n c s)
  then show ?case by (cases w) (auto simp: str_bytes_def)
qed simp

lemma boundary_iff: "is_char_boundary t n \<longleftrightarrow> (\<exists>w. prefix w t \<and> str_bytes w = n)"
proof
  assume "\<exists>w. prefix w t \<and> str_bytes w = n"
  then obtain w r where "t = w @ r" "str_bytes w = n" by (auto simp: prefix_def)
  then show "is_char_boundary t n"
    by (auto simp: is_char_boundary_def intro!: image_eqI [of _ _ "length w"])
next
  assume "is_char_boundary t n"
  then obtain k where "n = str_bytes (take k t)" unfolding is_char_boundary_def set_map by blast
  with take_is_prefix show "\<exists>w. prefix w t \<and> str_bytes w = n" by metis
qed

lemma floor_boundary_spec:
  "floor_boundary t n \<le> n" "is_char_boundary t (floor_boundary t n)"
  "m \<le> n \<Longrightarrow> is_char_boundary t m \<Longrightarrow> m \<le> floor_boundary t n"
proof (induction n)
  case 0
  case 2
  show ?case by (auto simp: boundary_iff intro: exI [of _ "[]"])
next
  case (Suc n)
  case 3
  with Suc show ?case by (cases "m = Suc n") auto
qed auto

text \<open>An oversized tool output keeps as much as fits: when a text exceeds a non-zero
  budget, the result is the longest prefix of whole characters that fits the budget, followed
  by the truncation note, so it is at most 19 bytes over; cutting never splits a character.\<close>

lemma truncation_longest_prefix:
  assumes "byte_budget p < str_bytes t" "0 < byte_budget p"
  shows "\<exists>kept. truncate_text t p = kept @ truncation_note \<and> prefix kept t
    \<and> str_bytes kept \<le> byte_budget p
    \<and> (\<forall>w. prefix w t \<longrightarrow> str_bytes w \<le> byte_budget p \<longrightarrow> prefix w kept)
    \<and> str_bytes (truncate_text t p) \<le> byte_budget p + 19"
proof -
  define n where "n = floor_boundary t (byte_budget p)"
  have t: "truncate_text t p = slice_to n t @ truncation_note"
    using assms by (simp add: truncate_text_def n_def Let_def)
  have n: "n \<le> byte_budget p" by (simp add: n_def floor_boundary_spec)
  have "prefix w (slice_to n t)" if w: "prefix w t" "str_bytes w \<le> byte_budget p" for w
  proof (rule slice_to_longest [OF w(1)])
    show "str_bytes w \<le> n"
      unfolding n_def by (rule floor_boundary_spec(3)) (use w boundary_iff in auto)
  qed
  moreover have "str_bytes (slice_to n t) \<le> byte_budget p" using slice_to_bytes n le_trans by blast
  moreover have "str_bytes truncation_note = 19" by code_simp
  ultimately show ?thesis using t slice_to_prefix by (intro exI [of _ "slice_to n t"]) simp
qed

lemma truncation_longest_prefix_witness:
  "\<exists>kept. truncate_text ''hello world'' (TpBytes 4) = kept @ truncation_note \<and> kept = ''hell''"
proof -
  have "byte_budget (TpBytes 4) < str_bytes ''hello world''" "0 < byte_budget (TpBytes 4)"
    by code_simp+
  from truncation_longest_prefix [OF this] obtain kept where
    k: "truncate_text ''hello world'' (TpBytes 4) = kept @ truncation_note" by blast
  moreover have "truncate_text ''hello world'' (TpBytes 4) = ''hell'' @ truncation_note" by code_simp
  ultimately show ?thesis by simp
qed

end
