(* ===== verification/Compact.thy ===== *)
theory Compact
  imports TurnLoop Context
begin

text \<open>
  Context compaction (\<open>compact/mod.rs\<close>): the summary pass with its drop-oldest retry, the
  replacement history, the turn state that compacts, and the lowering of typed messages back to
  items. The summariser is the trait object of the code: a function on a world of its own, so
  every statement holds for every model behind it.
\<close>

section \<open>Prompts and token counts\<close>

definition summarization_prompt :: string where
  "summarization_prompt = concat (map (\<lambda>l. l @ [CHR 0x0A])
    [''You are performing a CONTEXT CHECKPOINT COMPACTION. Create a handoff summary for another LLM that will resume the task.'',
     [],
     ''Include:'',
     ''- Current progress and key decisions made'',
     ''- Important context, constraints, or user preferences'',
     ''- What remains to be done (clear next steps)'',
     ''- Any critical data, examples, or references needed to continue'',
     [],
     ''Be concise, structured, and focused on helping the next LLM seamlessly continue the work.''])"

definition summary_prefix :: string where
  "summary_prefix = ''Another language model started to solve this problem and produced a summary of its thinking process. You also have access to the state of the tools that were used by that language model. Use this to build on the work that has already been done and avoid duplicating work. Here is the summary produced by the other language model, use the information in this summary to assist with your own analysis:''"

definition compact_user_message_max_tokens :: nat where
  "compact_user_message_max_tokens = 20000"

definition approx_token_count :: "string \<Rightarrow> nat" where
  "approx_token_count t = (if t = [] then 0 else div_ceil (str_bytes t) 4)"

definition truncate_to_tokens :: "string \<Rightarrow> nat \<Rightarrow> string" where
  "truncate_to_tokens t max_tokens =
     (let max_bytes = sat_usize (max_tokens * 4) in
      if str_bytes t \<le> max_bytes then t else slice_to (floor_boundary t max_bytes) t)"

record compaction_summary =
  cs_text :: string
  cs_token_usage :: "token_usage option"

section \<open>The replacement history\<close>

definition is_summary_message :: "string \<Rightarrow> bool" where
  "is_summary_message msg = starts_with (summary_prefix @ [CHR 0x0A]) msg"

definition item_text :: "item \<Rightarrow> string" where
  "item_text i =
     (case json_get i ''content'' of
        None \<Rightarrow> []
      | Some (JStr s) \<Rightarrow> s
      | Some (JArr parts) \<Rightarrow>
          join_with [CHR 0x0A] (List.map_filter
            (\<lambda>p. case get_str p ''text'' of Some s \<Rightarrow> Some s | None \<Rightarrow> as_str p) parts)
      | Some JNull \<Rightarrow> []
      | Some v \<Rightarrow> show_json v)"

definition real_user_message_text :: "item \<Rightarrow> string option" where
  "real_user_message_text i =
     (case i of
        JObj obj \<Rightarrow>
          (case get_str i ''role'' of
             None \<Rightarrow> None
           | Some role \<Rightarrow>
               if role \<noteq> ''user'' then None
               else if get_str i ''name'' \<noteq> None then None
               else let t = item_text i in
                    if t = [] \<or> is_summary_message t then None else Some t)
      | _ \<Rightarrow> None)"

definition user_text_item :: "string \<Rightarrow> item" where
  "user_text_item t =
     JObj [(''content'', JArr [JObj [(''text'', JStr t), (''type'', JStr ''text'')]]),
           (''role'', JStr ''user'')]"

definition compaction_prompt_item :: "string \<Rightarrow> item" where
  "compaction_prompt_item prompt = user_text_item prompt"

text \<open>The walk from the newest message backwards; the argument is the reversed list.\<close>

fun select_recent :: "nat \<Rightarrow> string list \<Rightarrow> string list" where
  "select_recent remaining [] = []"
| "select_recent remaining (msg # older) =
     (if remaining = 0 then []
      else let tokens = approx_token_count msg in
           if tokens \<le> remaining then msg # select_recent (remaining - tokens) older
           else [truncate_to_tokens msg remaining])"

definition no_summary :: string where
  "no_summary = ''(no summary available)''"

definition build_compacted_history :: "string list \<Rightarrow> string \<Rightarrow> nat \<Rightarrow> item list" where
  "build_compacted_history user_messages summary_text max_tokens =
     (let selected = (if max_tokens > 0 then rev (select_recent max_tokens (rev user_messages)) else [])
      in map user_text_item selected
         @ [user_text_item (if summary_text = [] then no_summary else summary_text)])"

record compacted_history =
  ch_items :: "item list"
  ch_summary_text :: string
  ch_summary_token_usage :: "token_usage option"

definition real_user_messages :: "item list \<Rightarrow> string list" where
  "real_user_messages history = List.map_filter real_user_message_text history"

definition compacted_history_from_summary :: "item list \<Rightarrow> compaction_summary \<Rightarrow> nat \<Rightarrow> compacted_history" where
  "compacted_history_from_summary history summary token_limit =
     (let suffix_text = (if str_trim (cs_text summary) = [] then no_summary else cs_text summary);
          summary_text = summary_prefix @ [CHR 0x0A] @ suffix_text
      in \<lparr> ch_items = build_compacted_history (real_user_messages history) summary_text token_limit,
           ch_summary_text = summary_text, ch_summary_token_usage = cs_token_usage summary \<rparr>)"

section \<open>The summary pass\<close>

type_synonym 's compaction_sampler = "message list \<Rightarrow> 's \<Rightarrow> (agent_error + compaction_summary) \<times> 's"

definition compaction_request_messages :: "item list \<Rightarrow> message list" where
  "compaction_request_messages items = lower_to_messages items"

text \<open>The retry loop drops the oldest item as long as more than one is left.\<close>

fun summary_pass :: "'s compaction_sampler \<Rightarrow> item list \<Rightarrow> 's \<Rightarrow> (agent_error + compaction_summary) \<times> 's" where
  "summary_pass sampler working w =
     (case sampler (compaction_request_messages working) w of
        (Inr summary, w') \<Rightarrow> (Inr summary, w')
      | (Inl AeContextWindowExceeded, w') \<Rightarrow>
          if length working > 1 then summary_pass sampler (tl working) w'
          else (Inl AeContextWindowExceeded, w')
      | (Inl other, w') \<Rightarrow> (Inl other, w'))"

declare summary_pass.simps [simp del]

definition run_compaction ::
  "'s compaction_sampler \<Rightarrow> item list \<Rightarrow> string \<Rightarrow> nat \<Rightarrow> 's \<Rightarrow> (agent_error + compacted_history) \<times> 's" where
  "run_compaction sampler history compact_prompt token_limit w =
     (case summary_pass sampler (history @ [compaction_prompt_item compact_prompt]) w of
        (Inl e, w') \<Rightarrow> (Inl e, w')
      | (Inr summary, w') \<Rightarrow> (Inr (compacted_history_from_summary history summary token_limit), w'))"

section \<open>Typed messages back to items\<close>

definition json_opt :: "string option \<Rightarrow> json" where
  "json_opt o1 = (case o1 of Some s \<Rightarrow> JStr s | None \<Rightarrow> JNull)"

definition with_metadata :: "json option \<Rightarrow> (string \<times> json) list \<Rightarrow> json" where
  "with_metadata meta obj =
     JObj (case meta of Some v \<Rightarrow> bt_insert ''provider_metadata'' v obj | None \<Rightarrow> obj)"

definition media_item_content_part ::
  "string \<Rightarrow> string option \<Rightarrow> string option \<Rightarrow> string option \<Rightarrow> json option" where
  "media_item_content_part mime data url detail =
     (let wrap = (\<lambda>resolved.
            if starts_with ''image/'' mime
            then Some (JObj [(''detail'', JStr (case detail of Some d \<Rightarrow> d | None \<Rightarrow> ''auto'')),
                             (''image_url'', JStr resolved), (''type'', JStr ''input_image'')])
            else Some (JObj [(''file_data'', JStr resolved), (''type'', JStr ''input_file'')]))
      in case url of
           Some u \<Rightarrow> wrap u
         | None \<Rightarrow> (case data of
                      Some d \<Rightarrow> wrap (''data:'' @ mime @ '';base64,'' @ d)
                    | None \<Rightarrow> None))"

definition input_text_part :: "string \<Rightarrow> json list" where
  "input_text_part fragment =
     (if fragment = [] then [] else [JObj [(''text'', JStr fragment), (''type'', JStr ''input_text'')]])"

text \<open>The three accumulators of the loop over the parts: text, parts, non-text seen.\<close>

fun tool_result_part :: "content_part \<Rightarrow> string \<times> json list \<times> bool"
  and tool_result_parts :: "content_part list \<Rightarrow> string \<times> json list \<times> bool" where
  "tool_result_part (PText t _) = (t, input_text_part t, False)"
| "tool_result_part (PReasoning t _ _) = (t, input_text_part t, False)"
| "tool_result_part (PMedia mime data url detail) =
     ([], (case media_item_content_part mime data url detail of Some v \<Rightarrow> [v] | None \<Rightarrow> []), True)"
| "tool_result_part (PToolResult _ content _) =
     (case tool_result_parts content of
        (t, ps, True) \<Rightarrow> ([], ps, True)
      | (t, ps, False) \<Rightarrow> (t, input_text_part t, False))"
| "tool_result_part (PToolCall _ _ _ _) = ([], [], False)"
| "tool_result_parts [] = ([], [], False)"
| "tool_result_parts (p # ps) =
     (let (t1, j1, n1) = tool_result_part p; (t2, j2, n2) = tool_result_parts ps
      in (t1 @ t2, j1 @ j2, n1 \<or> n2))"

definition tool_result_content_to_item_content :: "content_part list \<Rightarrow> json" where
  "tool_result_content_to_item_content content =
     (case tool_result_parts content of (t, ps, non_text) \<Rightarrow> if non_text then JArr ps else JStr t)"

fun role_str :: "message_role \<Rightarrow> string" where
  "role_str RSystem = ''system''"
| "role_str RDeveloper = ''developer''"
| "role_str RUser = ''user''"
| "role_str RAssistant = ''assistant''"
| "role_str RTool = ''tool''"

fun content_part_item :: "content_part \<Rightarrow> json list" where
  "content_part_item (PText t meta) =
     [with_metadata meta [(''text'', JStr t), (''type'', JStr ''text'')]]"
| "content_part_item (PMedia mime data url detail) =
     [JObj [(''data'', json_opt data), (''detail'', json_opt detail), (''mime_type'', JStr mime),
            (''type'', JStr ''image''), (''url'', json_opt url)]]"
| "content_part_item _ = []"

fun tool_call_item :: "content_part \<Rightarrow> json list" where
  "tool_call_item (PToolCall d name input meta) =
     [with_metadata meta [(''arguments'', input), (''id'', JStr d), (''name'', JStr name)]]"
| "tool_call_item _ = []"

definition message_to_item :: "message \<Rightarrow> item" where
  "message_to_item m =
     (let plain =
        JObj ([(''content'', JArr (concat (map content_part_item (msg_content m)))),
               (''role'', JStr (role_str (msg_role m)))]
              @ (let calls = concat (map tool_call_item (msg_content m))
                 in if calls = [] then [] else [(''tool_calls'', JArr calls)]))
      in if msg_role m = RTool
         then (case msg_content m of
                 PToolResult d content _ # _ \<Rightarrow>
                   JObj [(''content'', tool_result_content_to_item_content content),
                         (''role'', JStr ''tool''), (''tool_call_id'', JStr d)]
               | _ \<Rightarrow> plain)
         else plain)"

section \<open>The compacting turn state\<close>

record 's compacting_turn_state =
  cts_ctx :: context_manager
  cts_sampler_state :: 's
  cts_token_limit :: nat
  cts_pending :: "message list"
  cts_token_status :: token_status
  cts_relieve_after_compact :: bool

definition compacting_new ::
  "context_manager \<Rightarrow> 's \<Rightarrow> nat \<Rightarrow> message list \<Rightarrow> token_status \<Rightarrow> 's compacting_turn_state" where
  "compacting_new ctx w limit pending st =
     \<lparr> cts_ctx = ctx, cts_sampler_state = w, cts_token_limit = limit, cts_pending = pending,
       cts_token_status = st, cts_relieve_after_compact = True \<rparr>"

definition usize_max :: nat where
  "usize_max = 18446744073709551615"

definition cts_record_items ::
  "(nat \<Rightarrow> nat) \<Rightarrow> 's compacting_turn_state \<Rightarrow> message list \<Rightarrow> 's compacting_turn_state" where
  "cts_record_items scale s items =
     s\<lparr> cts_ctx := record_items scale (cts_ctx s) (map message_to_item items) (TpBytes usize_max) \<rparr>"

definition cts_take_pending_input :: "'s compacting_turn_state \<Rightarrow> message list \<times> 's compacting_turn_state" where
  "cts_take_pending_input s = (cts_pending s, s\<lparr> cts_pending := [] \<rparr>)"

definition cts_compact ::
  "(nat \<Rightarrow> nat) \<Rightarrow> 's compaction_sampler \<Rightarrow> 's compacting_turn_state
   \<Rightarrow> agent_error option \<times> 's compacting_turn_state" where
  "cts_compact scale sampler s =
     (case run_compaction sampler (cm_items (cts_ctx s)) summarization_prompt (cts_token_limit s)
             (cts_sampler_state s) of
        (Inl e, w) \<Rightarrow> (Some e, s\<lparr> cts_sampler_state := w \<rparr>)
      | (Inr compacted, w) \<Rightarrow>
          (let fresh = record_items scale context_new (ch_items compacted) (TpBytes usize_max);
               s' = s\<lparr> cts_sampler_state := w, cts_ctx := fresh \<rparr>
           in (None,
               if cts_relieve_after_compact s
               then s'\<lparr> cts_token_status := (cts_token_status s)
                         \<lparr> full_context_window_limit_reached := False, token_limit_reached := False \<rparr> \<rparr>
               else s')))"

definition compacting_env ::
  "(nat \<Rightarrow> nat) \<Rightarrow> 's compaction_sampler
   \<Rightarrow> (message list \<Rightarrow> 's compacting_turn_state \<Rightarrow> (agent_error + sampling_outcome) \<times> 's compacting_turn_state)
   \<Rightarrow> 's compacting_turn_state turn_env" where
  "compacting_env scale sampler driver =
     \<lparr> clone_history_for_prompt = (\<lambda>s. (lower_to_messages (cm_items (cts_ctx s)), s)),
       take_pending_input = cts_take_pending_input,
       has_pending_input = (\<lambda>s. (cts_pending s \<noteq> [], s)),
       read_token_status = (\<lambda>s. (cts_token_status s, s)),
       defer_mailbox_delivery = (\<lambda>s. s),
       run_compact = (\<lambda>_. cts_compact scale sampler),
       run_sampling_request = driver \<rparr>"

section \<open>What the replacement history keeps\<close>

abbreviation tokens_of :: "string list \<Rightarrow> nat" where
  "tokens_of ms \<equiv> sum_list (map approx_token_count ms)"

lemma div_ceil_le:
  assumes "0 < b" "a \<le> b * n"
  shows "div_ceil a b \<le> n"
proof -
  have "a + b - 1 < Suc n * b" using assms by (simp add: mult.commute)
  then have "(a + b - 1) div b < Suc n" by (rule less_mult_imp_div_less)
  then show ?thesis by (simp add: div_ceil_def)
qed

lemma token_count_pos: "t \<noteq> [] \<Longrightarrow> 0 < approx_token_count t"
proof -
  assume t: "t \<noteq> []"
  have "0 < str_bytes t" using t str_bytes_ge_length [of t] by (cases t) auto
  with t show ?thesis by (simp add: approx_token_count_def div_ceil_def div_greater_zero_iff)
qed

lemma truncate_tokens_facts:
  "prefix (truncate_to_tokens t n) t" "approx_token_count (truncate_to_tokens t n) \<le> n"
proof -
  show "prefix (truncate_to_tokens t n) t"
    by (simp add: truncate_to_tokens_def Let_def slice_to_prefix)
  have "str_bytes (truncate_to_tokens t n) \<le> sat_usize (n * 4)"
    using slice_to_bytes [of "floor_boundary t (sat_usize (n * 4))" t] floor_boundary_spec(1) [of t "sat_usize (n * 4)"]
    by (auto simp: truncate_to_tokens_def Let_def)
  then have "str_bytes (truncate_to_tokens t n) \<le> 4 * n" by (simp add: sat_usize_def)
  then show "approx_token_count (truncate_to_tokens t n) \<le> n"
    by (simp add: approx_token_count_def div_ceil_le)
qed

lemma truncate_tokens_nonempty: "t \<noteq> [] \<Longrightarrow> 0 < n \<Longrightarrow> truncate_to_tokens t n \<noteq> []"
proof
  assume t: "t \<noteq> []" "0 < n" and e: "truncate_to_tokens t n = []"
  obtain c r where cr: "t = c # r" using t by (cases t) auto
  have two: "str_bytes [c] \<le> 2" by (simp add: str_bytes_def utf8_len_def)
  moreover have "4 \<le> sat_usize (n * 4)" using t by (simp add: sat_usize_def)
  ultimately have le: "str_bytes [c] \<le> sat_usize (n * 4)" by linarith
  have pre: "prefix [c] t" by (simp add: cr)
  then have "str_bytes [c] \<le> floor_boundary t (sat_usize (n * 4))"
    using le boundary_iff by (intro floor_boundary_spec(3)) auto
  from slice_to_longest [OF pre this] e t show False
    by (auto simp: truncate_to_tokens_def Let_def split: if_splits)
qed

lemma select_all: "tokens_of ms \<le> r \<Longrightarrow> \<forall>t\<in>set ms. t \<noteq> [] \<Longrightarrow> select_recent r ms = ms"
proof (induction ms arbitrary: r)
  case (Cons t ms)
  moreover have "0 < approx_token_count t" using Cons.prems token_count_pos by simp
  ultimately show ?case by (simp add: Let_def)
qed simp

lemma select_budget: "tokens_of (select_recent r ms) \<le> r"
proof (induction r ms rule: select_recent.induct)
  case (2 r t ms)
  then show ?case using truncate_tokens_facts(2) [of t r] by (auto simp: Let_def)
qed simp

lemma select_texts:
  "\<forall>t\<in>set ms. t \<noteq> [] \<and> \<not> is_summary_message t \<Longrightarrow>
   \<forall>t\<in>set (select_recent r ms). t \<noteq> [] \<and> \<not> is_summary_message t"
proof (induction r ms rule: select_recent.induct)
  case (2 r t ms)
  have "\<not> is_summary_message (truncate_to_tokens t r)"
    using 2(2) truncate_tokens_facts(1) [of t r] prefix_order.trans
    by (auto simp: is_summary_message_def starts_with_iff)
  moreover have "0 < r \<Longrightarrow> truncate_to_tokens t r \<noteq> []" using 2(2) truncate_tokens_nonempty by simp
  ultimately show ?case using 2 by (auto simp: Let_def)
qed simp

lemma select_shape:
  "\<exists>newer older. ms = newer @ older \<and>
     (select_recent r ms = newer \<and> (older = [] \<or> tokens_of newer = r)
      \<or> (\<exists>m rest. older = m # rest \<and> r < tokens_of newer + approx_token_count m
           \<and> select_recent r ms = newer @ [truncate_to_tokens m (r - tokens_of newer)]))"
proof (induction r ms rule: select_recent.induct)
  case (1 r)
  then show ?case by simp
next
  case (2 r t ms)
  consider "r = 0" | "0 < r" "approx_token_count t \<le> r" | "0 < r" "r < approx_token_count t"
    by linarith
  then show ?case
  proof cases
    case 1
    then show ?thesis by (intro exI [of _ "[]"] exI [of _ "t # ms"]) simp
  next
    case 3
    then show ?thesis by (intro exI [of _ "[]"] exI [of _ "t # ms"]) simp
  next
    case b: 2
    let ?r = "r - approx_token_count t"
    from 2 b obtain newer older where ih: "ms = newer @ older"
      "select_recent ?r ms = newer \<and> (older = [] \<or> tokens_of newer = ?r)
      \<or> (\<exists>m rest. older = m # rest \<and> ?r < tokens_of newer + approx_token_count m
           \<and> select_recent ?r ms = newer @ [truncate_to_tokens m (?r - tokens_of newer)])" by auto
    have sel: "select_recent r (t # ms) = t # select_recent ?r ms" using b by (simp add: Let_def)
    show ?thesis unfolding sel
      by (intro exI [of _ "t # newer"] exI [of _ older])
        (use ih b in \<open>auto simp: Let_def less_diff_conv2 add.commute add.left_commute\<close>)
  qed
qed

lemma user_item_text [simp]: "item_text (user_text_item t) = t"
  by (simp add: item_text_def user_text_item_def get_str_def map_filter_simps)

lemma real_user_item:
  "real_user_message_text (user_text_item t) = (if t = [] \<or> is_summary_message t then None else Some t)"
proof -
  obtain obj where obj: "user_text_item t = JObj obj" by (simp add: user_text_item_def)
  have "get_str (user_text_item t) ''role'' = Some ''user''" "get_str (user_text_item t) ''name'' = None"
    by (simp_all add: user_text_item_def get_str_def)
  then show ?thesis
    using user_item_text [of t] unfolding obj by (simp add: real_user_message_text_def Let_def)
qed

lemma real_user_message_Some:
  "real_user_message_text i = Some t \<Longrightarrow> t \<noteq> [] \<and> \<not> is_summary_message t"
  unfolding real_user_message_text_def Let_def
  by (cases i; cases "get_str i ''role''") (simp_all split: if_splits)

lemma real_user_message_facts:
  "t \<in> set (real_user_messages h) \<Longrightarrow> t \<noteq> [] \<and> \<not> is_summary_message t"
proof -
  assume "t \<in> set (real_user_messages h)"
  then obtain i where "real_user_message_text i = Some t"
    by (auto simp: real_user_messages_def map_filter_def)
  then show ?thesis by (rule real_user_message_Some)
qed

lemma summary_is_summary [simp]: "is_summary_message (summary_prefix @ CHR 0x0A # t)"
  by (simp add: is_summary_message_def starts_with_iff)

lemma summary_text_alt:
  "ch_summary_text (compacted_history_from_summary h s l)
   = summary_prefix @ CHR 0x0A # (if str_trim (cs_text s) = [] then no_summary else cs_text s)"
  by (simp add: compacted_history_from_summary_def Let_def)

lemma compacted_items:
  "ch_items (compacted_history_from_summary h s l)
   = map user_text_item (rev (select_recent l (rev (real_user_messages h))))
     @ [user_text_item (ch_summary_text (compacted_history_from_summary h s l))]"
proof -
  have "select_recent 0 ms = []" for ms by (cases ms) auto
  then show ?thesis
    by (simp add: compacted_history_from_summary_def build_compacted_history_def Let_def)
qed

lemma real_messages_of_compacted:
  "real_user_messages (ch_items (compacted_history_from_summary h s l))
   = rev (select_recent l (rev (real_user_messages h)))"
proof -
  have "List.map_filter real_user_message_text (map user_text_item ms) = ms"
    if "\<forall>t\<in>set ms. t \<noteq> [] \<and> \<not> is_summary_message t" for ms
    using that by (induction ms) (auto simp: map_filter_simps real_user_item)
  moreover have "\<forall>t\<in>set (rev (select_recent l (rev (real_user_messages h)))). t \<noteq> [] \<and> \<not> is_summary_message t"
    using select_texts [of "rev (real_user_messages h)" l] real_user_message_facts by auto
  ultimately have body: "List.map_filter real_user_message_text
      (map user_text_item (rev (select_recent l (rev (real_user_messages h)))))
      = rev (select_recent l (rev (real_user_messages h)))" by blast
  have tail: "List.map_filter real_user_message_text
      [user_text_item (ch_summary_text (compacted_history_from_summary h s l))] = []"
    by (simp add: map_filter_simps real_user_item summary_text_alt)
  have app: "List.map_filter f (xs @ ys) = List.map_filter f xs @ List.map_filter f ys" for f xs ys
    by (simp add: map_filter_def)
  show ?thesis unfolding real_user_messages_def compacted_items app
    using body tail by (simp add: real_user_messages_def)
qed

text \<open>What survives a compaction: the replacement history is a list of user messages
  followed by the summary; the user messages are the newest real ones, in order and unchanged,
  within the token budget. Older ones are dropped only when the budget is used up exactly or
  when the next one does not fit, and that one is kept as a prefix cut to what is left.\<close>

lemma compaction_keeps_recent:
  "\<exists>sel older newer. real_user_messages h = older @ newer
    \<and> ch_items (compacted_history_from_summary h s l)
        = map user_text_item sel @ [user_text_item (ch_summary_text (compacted_history_from_summary h s l))]
    \<and> tokens_of sel \<le> l
    \<and> (sel = newer \<and> (older = [] \<or> tokens_of newer = l)
       \<or> (\<exists>m rest. older = rest @ [m] \<and> l < tokens_of newer + approx_token_count m
            \<and> sel = truncate_to_tokens m (l - tokens_of newer) # newer
            \<and> prefix (truncate_to_tokens m (l - tokens_of newer)) m))"
proof -
  let ?sel = "select_recent l (rev (real_user_messages h))"
  obtain newer older where sh: "rev (real_user_messages h) = newer @ older"
    "?sel = newer \<and> (older = [] \<or> tokens_of newer = l)
      \<or> (\<exists>m rest. older = m # rest \<and> l < tokens_of newer + approx_token_count m
           \<and> ?sel = newer @ [truncate_to_tokens m (l - tokens_of newer)])"
    using select_shape by blast
  have h: "real_user_messages h = rev older @ rev newer"
    using arg_cong [OF sh(1), of rev] by simp
  have budget: "tokens_of (rev ?sel) \<le> l"
    using select_budget [of l "rev (real_user_messages h)"] by (simp add: rev_map [symmetric])
  have rt: "tokens_of (rev newer) = tokens_of newer" by (simp add: rev_map [symmetric])
  show ?thesis
    by (intro exI [of _ "rev ?sel"] exI [of _ "rev older"] exI [of _ "rev newer"] conjI h compacted_items budget)
      (use sh(2) rt truncate_tokens_facts(1) in auto)
qed

text \<open>C34. Compacting again loses nothing more: a second compaction under the same budget keeps
  exactly the user messages the first one kept and replaces its summary by the new one, so an
  earlier summary is never mistaken for a user message.\<close>

theorem recompaction_stable:
  "ch_items (compacted_history_from_summary (ch_items (compacted_history_from_summary h s1 l)) s2 l)
   = butlast (ch_items (compacted_history_from_summary h s1 l))
     @ [user_text_item (summary_prefix @ CHR 0x0A #
          (if str_trim (cs_text s2) = [] then no_summary else cs_text s2))]"
proof -
  let ?sel = "select_recent l (rev (real_user_messages h))"
  have "select_recent l ?sel = ?sel"
  proof (rule select_all)
    show "tokens_of ?sel \<le> l" by (rule select_budget)
    show "\<forall>t\<in>set ?sel. t \<noteq> []"
      using select_texts [of "rev (real_user_messages h)" l] real_user_message_facts by auto
  qed
  then have "ch_items (compacted_history_from_summary (ch_items (compacted_history_from_summary h s1 l)) s2 l)
    = map user_text_item (rev ?sel)
      @ [user_text_item (summary_prefix @ CHR 0x0A #
           (if str_trim (cs_text s2) = [] then no_summary else cs_text s2))]"
    unfolding compacted_items [of "ch_items (compacted_history_from_summary h s1 l)"]
      real_messages_of_compacted summary_text_alt by simp
  then show ?thesis by (simp add: compacted_items [of h s1 l])
qed

section \<open>The summary pass returns\<close>

definition counted :: "'s compaction_sampler \<Rightarrow> ('s \<times> nat) compaction_sampler" where
  "counted sampler req wn =
     (case sampler req (fst wn) of (r, w') \<Rightarrow> (r, (w', snd wn + 1)))"

lemma summary_pass_counted:
  "working \<noteq> [] \<Longrightarrow> summary_pass (counted sampler) working (w, n) = (r, (w', n')) \<Longrightarrow>
   summary_pass sampler working w = (r, w') \<and> n < n' \<and> n' \<le> n + length working"
proof (induction "length working" arbitrary: working w n)
  case (Suc k)
  obtain q v where q: "sampler (compaction_request_messages working) w = (q, v)" by fastforce
  then have c: "counted sampler (compaction_request_messages working) (w, n) = (q, (v, n + 1))"
    by (simp add: counted_def)
  show ?case
  proof (cases "q = Inl AeContextWindowExceeded \<and> length working > 1")
    case True
    then have ne: "tl working \<noteq> []" and len: "k = length (tl working)"
      using Suc.hyps by (cases working; auto)+
    from True c Suc.prems(2) have "summary_pass (counted sampler) (tl working) (v, n + 1) = (r, (w', n'))"
      by (subst (asm) summary_pass.simps) simp
    from Suc.hyps(1) [OF len ne this] True q Suc.hyps(2) len show ?thesis
      by (subst summary_pass.simps) auto
  next
    case False
    then show ?thesis using Suc.prems q c
      by (subst summary_pass.simps, subst (asm) summary_pass.simps)
        (auto split: sum.splits agent_error.splits if_splits simp: Suc_leI)
  qed
qed simp

lemma summary_pass_succeeds:
  assumes "\<And>req v. \<exists>sm v'. sampler req v \<in> {(Inl AeContextWindowExceeded, v'), (Inr sm, v')}"
    and "\<And>v. \<exists>sm v'. sampler (compaction_request_messages [last working]) v = (Inr sm, v')"
    and "working \<noteq> []"
  shows "\<exists>sm w'. summary_pass sampler working w = (Inr sm, w')"
  using assms(2,3)
proof (induction "length working" arbitrary: working w)
  case (Suc k)
  show ?case
  proof (cases "length working > 1")
    case True
    then have ne: "tl working \<noteq> []" and len: "k = length (tl working)"
      and la: "last (tl working) = last working"
      using Suc.hyps by (cases working; auto)+
    from assms(1) [of "compaction_request_messages working" w] show ?thesis
      using Suc.hyps(1) [OF len] Suc.prems(1) ne la True
      by (subst summary_pass.simps) auto
  next
    case False
    with Suc.prems obtain x where "working = [x]" by (cases working) auto
    with Suc.prems(1) [of w] show ?thesis by (subst summary_pass.simps) auto
  qed
qed simp

text \<open>Compaction gets through: if the model answers every summary request either with a
  summary or with "context window exceeded", and does answer the bare summarisation prompt,
  then the compaction of any history returns a compacted history, after at least one and at
  most one more request than the history has items.\<close>

lemma compaction_succeeds:
  assumes "\<And>req v. \<exists>sm v'. sampler req v \<in> {(Inl AeContextWindowExceeded, v'), (Inr sm, v')}"
    and "\<And>v. \<exists>sm v'. sampler (compaction_request_messages [compaction_prompt_item prompt]) v = (Inr sm, v')"
  shows "\<exists>sm w' calls. run_compaction (counted sampler) history prompt l (w, 0)
      = (Inr (compacted_history_from_summary history sm l), (w', calls))
    \<and> 0 < calls \<and> calls \<le> length history + 1"
proof -
  let ?work = "history @ [compaction_prompt_item prompt]"
  obtain r w' n where c: "summary_pass (counted sampler) ?work (w, 0) = (r, (w', n))"
    by (metis prod.exhaust)
  then have n: "summary_pass sampler ?work w = (r, w')" "0 < n" "n \<le> length ?work"
    using summary_pass_counted [of ?work sampler w 0 r w' n] by auto
  obtain sm where "r = Inr sm"
    using summary_pass_succeeds [of sampler ?work w] assms n(1) by auto
  with c n show ?thesis by (auto simp: run_compaction_def)
qed

lemma lowering_shortens: "length (compaction_request_messages items) \<le> length items"
  by (simp add: compaction_request_messages_def lower_to_messages_def map_filter_def)

text \<open>A model with a window of two messages.\<close>

definition small_window :: "unit compaction_sampler" where
  "small_window req w =
     (if length req \<le> 2 then (Inr \<lparr> cs_text = ''done so far'', cs_token_usage = None \<rparr>, w)
      else (Inl AeContextWindowExceeded, w))"

lemma compaction_succeeds_witness:
  "\<exists>sm w' calls. run_compaction (counted small_window) [user_text_item ''a'', user_text_item ''b'',
       user_text_item ''c''] summarization_prompt 10 ((), 0)
     = (Inr (compacted_history_from_summary [user_text_item ''a'', user_text_item ''b'',
         user_text_item ''c''] sm 10), (w', calls)) \<and> 0 < calls \<and> calls \<le> 4"
proof -
  have "length (compaction_request_messages [i]) \<le> 2" for i
    using lowering_shortens [of "[i]"] by simp
  then have "\<exists>sm w' calls. run_compaction (counted small_window) [user_text_item ''a'',
      user_text_item ''b'', user_text_item ''c''] summarization_prompt 10 ((), 0)
     = (Inr (compacted_history_from_summary [user_text_item ''a'', user_text_item ''b'',
         user_text_item ''c''] sm 10), (w', calls))
       \<and> 0 < calls \<and> calls \<le> length [user_text_item ''a'', user_text_item ''b'', user_text_item ''c''] + 1"
    by (intro compaction_succeeds) (auto simp: small_window_def)
  then show ?thesis by (simp add: numeral_eq_Suc)
qed

section \<open>Compaction in the turn loop\<close>

lemma user_item_untouched: "process_item scale (user_text_item t) p = user_text_item t"
  by (simp add: process_item_def is_function_call_output_def item_type_def get_str_def user_text_item_def)

lemma compacted_recorded:
  "cm_items (record_items scale context_new (ch_items (compacted_history_from_summary h s l)) p)
   = ch_items (compacted_history_from_summary h s l)"
  by (simp add: record_items_def bump_version_def context_new_def compacted_items user_item_untouched)

text \<open>Compaction replaces the history or leaves it alone: as the turn loop runs it over this state, it fails exactly
  with the error of the summary pass, and then changes nothing of the turn state but the model's own state; a
  summary installs exactly the replacement history made of it with a clean token record, keeps the pending input
  and, unless pressure relief is off, clears the condition that asked for the compaction.\<close>

lemma compact_replaces_or_keeps:
  assumes "run_compact (compacting_env scale sampler driver) mode s = (r, s')"
  shows "case summary_pass sampler (cm_items (cts_ctx s) @ [compaction_prompt_item summarization_prompt]) (cts_sampler_state s) of
      (Inl e, w) \<Rightarrow> r = Some e \<and> s' = s\<lparr> cts_sampler_state := w \<rparr>
    | (Inr sm, w) \<Rightarrow> r = None
        \<and> cm_items (cts_ctx s') = ch_items (compacted_history_from_summary (cm_items (cts_ctx s)) sm (cts_token_limit s))
        \<and> cm_token_info (cts_ctx s') = None \<and> cts_pending s' = cts_pending s \<and> cts_sampler_state s' = w
        \<and> (if cts_relieve_after_compact s then \<not> needs_compaction (cts_token_status s')
           else cts_token_status s' = cts_token_status s)"
proof -
  obtain q w where q: "summary_pass sampler (cm_items (cts_ctx s) @ [compaction_prompt_item summarization_prompt])
      (cts_sampler_state s) = (q, w)" by fastforce
  have fresh: "cm_token_info (record_items scale context_new its p) = None" for its p
    by (simp add: record_items_def bump_version_def context_new_def)
  from assms have "cts_compact scale sampler s = (r, s')" by (simp add: compacting_env_def)
  then show ?thesis
    using q by (cases q) (auto simp: cts_compact_def run_compaction_def Let_def compacted_recorded fresh
        needs_compaction_def split: if_splits)
qed

section \<open>Round trip of messages and items\<close>

fun plain_part :: "content_part \<Rightarrow> bool" where
  "plain_part (PText _ _) = True"
| "plain_part (PMedia _ _ url detail) =
     (Option.bind url data_url_media = None
      \<and> (case detail of Some d \<Rightarrow> str_trim d \<noteq> [] | None \<Rightarrow> True))"
| "plain_part _ = False"

fun is_tool_call :: "content_part \<Rightarrow> bool" where
  "is_tool_call (PToolCall _ _ _ _) = True"
| "is_tool_call _ = False"

lemma with_metadata_get:
  "json_get (with_metadata meta obj) k
   = (case meta of Some v \<Rightarrow> if k = ''provider_metadata'' then Some v else map_of obj k
      | None \<Rightarrow> map_of obj k)"
  by (simp add: with_metadata_def bt_insert_lookup split: option.splits)

lemma as_str_opt [simp]: "as_str (json_opt x) = x"
  by (simp add: json_opt_def split: option.splits)

lemma text_part_roundtrip:
  "List.map_filter part_to_content_part (content_part_item (PText t meta)) = [PText t meta]"
proof -
  let ?j = "with_metadata meta [(''text'', JStr t), (''type'', JStr ''text'')]"
  have "get_str ?j ''type'' = Some ''text''" "get_str ?j ''text'' = Some t"
    "json_get ?j ''provider_metadata'' = meta"
    by (auto simp: get_str_def with_metadata_get split: option.splits)
  then have "part_to_content_part ?j = Some (PText t meta)" by (simp add: part_to_content_part_def)
  then show ?thesis by (simp add: map_filter_simps)
qed

lemma media_part_roundtrip:
  assumes "plain_part (PMedia mime data url detail)"
  shows "List.map_filter part_to_content_part (content_part_item (PMedia mime data url detail))
    = [PMedia mime data url detail]"
proof -
  define j where "j = JObj [(''data'', json_opt data), (''detail'', json_opt detail),
      (''mime_type'', JStr mime), (''type'', JStr ''image''), (''url'', json_opt url)]"
  have g: "get_str j ''type'' = Some ''image''" "json_get j ''image_url'' = None" "get_str j ''url'' = url"
    "get_str j ''mime_type'' = Some mime" "get_str j ''data'' = data" "get_str j ''detail'' = detail"
    by (simp_all add: j_def get_str_def)
  then have "image_detail_from_part j = detail"
    using assms by (auto simp: image_detail_from_part_def split: option.splits)
  with g assms have "part_to_content_part j = Some (PMedia mime data url detail)"
    by (simp add: part_to_content_part_def Let_def)
  then show ?thesis by (simp add: map_filter_simps j_def)
qed

lemma call_part_roundtrip:
  "List.map_filter lower_tool_call (tool_call_item (PToolCall d n i meta)) = [PToolCall d n i meta]"
proof -
  let ?j = "with_metadata meta [(''arguments'', i), (''id'', JStr d), (''name'', JStr n)]"
  have "json_get ?j ''id'' = Some (JStr d)" "get_str ?j ''name'' = Some n"
    "json_get ?j ''arguments'' = Some i" "json_get ?j ''provider_metadata'' = meta"
    by (auto simp: get_str_def with_metadata_get split: option.splits)
  then have "lower_tool_call ?j = Some (PToolCall d n i meta)" by (simp add: lower_tool_call_def)
  then show ?thesis by (simp add: map_filter_simps)
qed

lemma parts_roundtrip:
  "list_all plain_part body \<Longrightarrow>
   List.map_filter part_to_content_part (concat (map content_part_item body)) = body"
  "list_all plain_part body \<Longrightarrow> concat (map tool_call_item body) = []"
proof (induction body)
  case (Cons p body)
  { case 1
    then show ?case using Cons.IH
      by (cases p) (auto simp: map_filter_append text_part_roundtrip media_part_roundtrip
          simp del: content_part_item.simps)
  next
    case 2
    then show ?case using Cons.IH by (cases p) auto }
qed (simp_all add: map_filter_simps)

lemma calls_roundtrip:
  "list_all is_tool_call calls \<Longrightarrow>
   List.map_filter lower_tool_call (concat (map tool_call_item calls)) = calls"
  "list_all is_tool_call calls \<Longrightarrow> concat (map content_part_item calls) = []"
proof (induction calls)
  case (Cons p calls)
  { case 1
    then show ?case using Cons.IH
      by (cases p) (auto simp: map_filter_append call_part_roundtrip simp del: tool_call_item.simps)
  next
    case 2
    then show ?case using Cons.IH by (cases p) auto }
qed (simp_all add: map_filter_simps)

text \<open>Recording a message and lowering it again gives the message back: for every role but
  \<open>tool\<close>, any text and media parts followed by any tool calls, provider metadata included,
  survive the round trip through the item buffer (a media part must not carry a data URL, which
  is split into its data, nor a blank detail, which is dropped).\<close>

lemma message_item_roundtrip:
  assumes "role \<noteq> RTool" "list_all plain_part body" "list_all is_tool_call calls" "body @ calls \<noteq> []"
  shows "item_to_message (message_to_item (message_new role (body @ calls)))
    = Some (message_new role (body @ calls))"
proof -
  let ?cs = "concat (map tool_call_item calls)"
  have obj: "message_to_item (message_new role (body @ calls))
    = JObj ([(''content'', JArr (concat (map content_part_item body))), (''role'', JStr (role_str role))]
            @ (if ?cs = [] then [] else [(''tool_calls'', JArr ?cs)]))"
    using assms by (simp add: message_to_item_def parts_roundtrip(2) calls_roundtrip(2) Let_def)
  have role: "role_from_str (Some (role_str role)) = role" by (cases role) (simp_all add: role_from_str_def)
  have cs: "(case Option.bind (if ?cs = [] then None else Some (JArr ?cs)) as_array of
      Some calls \<Rightarrow> List.map_filter lower_tool_call calls | None \<Rightarrow> []) = calls"
    using calls_roundtrip(1) [OF assms(3)]
    by (cases "?cs = []") (simp_all add: map_filter_simps del: concat_eq_Nil_conv)
  have m: "map_of (if ?cs = [] then [] else [(''tool_calls'', JArr ?cs)]) ''tool_calls''
    = (if ?cs = [] then None else Some (JArr ?cs))" by simp
  show ?thesis
    unfolding obj item_to_message_def
    using assms cs parts_roundtrip(1) [OF assms(2)]
    by (simp add: get_str_def role m content_to_parts_def Let_def del: concat_eq_Nil_conv)
qed

lemma message_item_roundtrip_witness:
  "item_to_message (message_to_item (message_new RAssistant
     [PText ''looking'' (Some (JStr ''sig'')), PToolCall ''c1'' ''read'' (JObj []) None]))
   = Some (message_new RAssistant
     [PText ''looking'' (Some (JStr ''sig'')), PToolCall ''c1'' ''read'' (JObj []) None])"
  using message_item_roundtrip [of RAssistant "[PText ''looking'' (Some (JStr ''sig''))]"
      "[PToolCall ''c1'' ''read'' (JObj []) None]"] by simp

end
