(* ===== verification/Streams.thy ===== *)
theory Streams
  imports Schema ImageEstimate "HOL-Library.Char_ord" "HOL-Library.List_Lexorder"
begin

text \<open>
  From the bytes of a provider's response to normalised events (crate \<open>browser-use-llm\<close>): the
  server-sent-events decoder (\<open>route/framing.rs\<close>), the lifecycle normaliser
  (\<open>protocols/utils/lifecycle.rs\<close>) and the tool-call accumulator (\<open>tool_stream.rs\<close>). In the
  decoder a \<open>String\<close> is its UTF-8 bytes. The JSON parser of \<open>serde_json\<close> is the argument
  \<open>from_str\<close> of the accumulator.
\<close>

section \<open>Server-sent events\<close>

text \<open>\<open>String::from_utf8_lossy\<close>: well-formed sequences stay, every maximal ill-formed piece
  becomes the three bytes of U+FFFD.\<close>

definition is_cont :: "8 word \<Rightarrow> bool" where
  "is_cont b \<longleftrightarrow> 0x80 \<le> b \<and> b \<le> 0xBF"

definition utf8_width :: "8 word \<Rightarrow> nat" where
  "utf8_width b = (if b < 0x80 then 1 else if 0xC2 \<le> b \<and> b \<le> 0xDF then 2
     else if 0xE0 \<le> b \<and> b \<le> 0xEF then 3 else if 0xF0 \<le> b \<and> b \<le> 0xF4 then 4 else 0)"

definition second_ok :: "8 word \<Rightarrow> 8 word \<Rightarrow> bool" where
  "second_ok b c \<longleftrightarrow> is_cont c \<and> (b = 0xE0 \<longrightarrow> 0xA0 \<le> c) \<and> (b = 0xED \<longrightarrow> c \<le> 0x9F)
     \<and> (b = 0xF0 \<longrightarrow> 0x90 \<le> c) \<and> (b = 0xF4 \<longrightarrow> c \<le> 0x8F)"

text \<open>The length of the piece at the front and whether it is well formed.\<close>

definition utf8_piece :: "8 word \<Rightarrow> 8 word list \<Rightarrow> nat \<times> bool" where
  "utf8_piece b rest =
     (let w = utf8_width b in
      if w = 0 then (1, False)
      else if w = 1 then (1, True)
      else case rest of
             [] \<Rightarrow> (1, False)
           | c # rest \<Rightarrow>
               if \<not> second_ok b c then (1, False)
               else let conts = length (takeWhile is_cont (take (w - 2) rest))
                    in (2 + conts, conts = w - 2))"

function from_utf8_lossy :: "8 word list \<Rightarrow> 8 word list" where
  "from_utf8_lossy [] = []"
| "from_utf8_lossy (b # rest) =
     (case utf8_piece b rest of
        (n, ok) \<Rightarrow> (if ok then take n (b # rest) else [0xEF, 0xBF, 0xBD])
                   @ from_utf8_lossy (drop (n - 1) rest))"
  by pat_completeness auto
termination
  by (relation "measure length") auto

record sse_frame =
  frame_event :: "8 word list option"
  frame_data :: "8 word list"

record sse_decoder =
  sse_buf :: "8 word list"
  sse_event :: "8 word list option"
  sse_data :: "8 word list list"

definition sse_new :: sse_decoder where
  "sse_new = \<lparr> sse_buf = [], sse_event = None, sse_data = [] \<rparr>"

definition lf :: "8 word" where "lf = 10"
definition cr :: "8 word" where "cr = 13"
definition colon :: "8 word" where "colon = 58"

definition sse_process_line :: "sse_decoder \<Rightarrow> 8 word list \<Rightarrow> sse_frame option \<times> sse_decoder" where
  "sse_process_line d line =
     (if line = [] then
        if sse_event d = None \<and> sse_data d = [] then (None, d)
        else (Some \<lparr> frame_event = sse_event d, frame_data = join_with [lf] (sse_data d) \<rparr>,
              d\<lparr> sse_event := None, sse_data := [] \<rparr>)
      else if starts_with [colon] line then (None, d)
      else let (field, v) =
                 (case position (\<lambda>b. b = colon) line of
                    Some i \<Rightarrow> (let v = drop (i + 1) line in
                                (take i line, case strip_pre [32] v of Some r \<Rightarrow> r | None \<Rightarrow> v))
                  | None \<Rightarrow> (line, []))
           in (None, if field = utf8_bytes ''data'' then d\<lparr> sse_data := sse_data d @ [v] \<rparr>
                     else if field = utf8_bytes ''event'' then d\<lparr> sse_event := Some v \<rparr>
                     else d))"

definition drop_cr :: "8 word list \<Rightarrow> 8 word list" where
  "drop_cr line = (if line \<noteq> [] \<and> last line = cr then butlast line else line)"

lemma process_line_buf: "sse_process_line d line = (f, d') \<Longrightarrow> sse_buf d' = sse_buf d"
  by (auto simp: sse_process_line_def Let_def split: if_splits option.splits prod.splits)

function sse_drain :: "sse_decoder \<Rightarrow> sse_frame list \<times> sse_decoder" where
  "sse_drain d =
     (case position (\<lambda>b. b = lf) (sse_buf d) of
        None \<Rightarrow> ([], d)
      | Some pos \<Rightarrow>
          (let line = drop_cr (take pos (sse_buf d));
               (f, d1) = sse_process_line (d\<lparr> sse_buf := drop (pos + 1) (sse_buf d) \<rparr>) (from_utf8_lossy line);
               (fs, d2) = sse_drain d1
           in ((case f of Some x \<Rightarrow> [x] | None \<Rightarrow> []) @ fs, d2)))"
  by pat_completeness auto
termination
proof (relation "measure (\<lambda>d. length (sse_buf d))")
  fix d :: sse_decoder and pos line p f d1
  assume "position (\<lambda>b. b = lf) (sse_buf d) = Some pos"
    and p: "p = sse_process_line (d\<lparr> sse_buf := drop (pos + 1) (sse_buf d) \<rparr>) (from_utf8_lossy line)"
    and "(f, d1) = p"
  then have "pos < length (sse_buf d)" "sse_buf d1 = drop (pos + 1) (sse_buf d)"
    using process_line_buf [of "d\<lparr> sse_buf := drop (pos + 1) (sse_buf d) \<rparr>" "from_utf8_lossy line" f d1]
    by (auto intro: position_less)
  then show "(d1, d) \<in> measure (\<lambda>d. length (sse_buf d))" by simp
qed simp

declare sse_drain.simps [simp del]

definition sse_push :: "sse_decoder \<Rightarrow> 8 word list \<Rightarrow> sse_frame list \<times> sse_decoder" where
  "sse_push d bytes = sse_drain (d\<lparr> sse_buf := sse_buf d @ bytes \<rparr>)"

lemma position_append:
  "position p (xs @ ys) = (case position p xs of Some i \<Rightarrow> Some i
     | None \<Rightarrow> map_option (\<lambda>i. length xs + i) (position p ys))"
  by (cases "position p ys"; induction xs) (auto split: option.splits)

lemma process_line_frame:
  "sse_process_line (d\<lparr> sse_buf := b \<rparr>) line
   = (fst (sse_process_line d line), (snd (sse_process_line d line))\<lparr> sse_buf := b \<rparr>)"
  by (simp add: sse_process_line_def Let_def split: prod.split)

lemma drain_append:
  "sse_drain (d\<lparr> sse_buf := sse_buf d @ tail \<rparr>) =
     (let (f1, d1) = sse_drain d; (f2, d2) = sse_drain (d1\<lparr> sse_buf := sse_buf d1 @ tail \<rparr>)
      in (f1 @ f2, d2))"
proof (induction d rule: sse_drain.induct)
  case (1 d)
  show ?case
  proof (cases "position (\<lambda>b. b = lf) (sse_buf d)")
    case None
    then show ?thesis by (simp add: sse_drain.simps [of d])
  next
    case (Some pos)
    then have pos: "pos < length (sse_buf d)" by (rule position_less)
    define line where "line = from_utf8_lossy (drop_cr (take pos (sse_buf d)))"
    define e where "e = d\<lparr> sse_buf := drop (pos + 1) (sse_buf d) \<rparr>"
    obtain f d1 where pl: "sse_process_line e line = (f, d1)" by fastforce
    have frame: "sse_process_line (e\<lparr> sse_buf := b \<rparr>) line = (f, d1\<lparr> sse_buf := b \<rparr>)" for b
      using pl by (simp add: process_line_frame)
    have b1: "sse_buf d1 = drop (pos + 1) (sse_buf d)" using process_line_buf [OF pl] by (simp add: e_def)
    have "sse_drain (d\<lparr> sse_buf := sse_buf d @ tail \<rparr>)
          = (let (fs, d2) = sse_drain (d1\<lparr> sse_buf := sse_buf d1 @ tail \<rparr>)
             in ((case f of Some x \<Rightarrow> [x] | None \<Rightarrow> []) @ fs, d2))"
      using Some pos frame [of "drop (pos + 1) (sse_buf d) @ tail"] b1
      by (subst sse_drain.simps) (simp add: position_append line_def e_def)
    moreover have "sse_drain d = (let (fs, d2) = sse_drain d1
             in ((case f of Some x \<Rightarrow> [x] | None \<Rightarrow> []) @ fs, d2))"
      using Some pl by (subst sse_drain.simps) (simp add: line_def e_def)
    moreover have "sse_drain (d1\<lparr> sse_buf := sse_buf d1 @ tail \<rparr>) =
       (let (f1, d2) = sse_drain d1; (f2, d3) = sse_drain (d2\<lparr> sse_buf := sse_buf d2 @ tail \<rparr>)
        in (f1 @ f2, d3))"
      using 1 [OF Some refl pl [unfolded e_def line_def, symmetric] refl] .
    ultimately show ?thesis by (simp add: Let_def split: prod.splits)
  qed
qed

lemma push_chunks:
  "run_emit sse_push d chunks = (case chunks of [] \<Rightarrow> ([], d) | c # cs \<Rightarrow> sse_push d (concat chunks))"
proof (induction chunks arbitrary: d)
  case (Cons c cs)
  have app: "sse_push d (a @ b) = (let (f1, d1) = sse_push d a; (f2, d2) = sse_push d1 b in (f1 @ f2, d2))" for a b
    using drain_append [of "d\<lparr> sse_buf := sse_buf d @ a \<rparr>" b] by (simp add: sse_push_def)
  show ?case
  proof (cases cs)
    case Nil
    then show ?thesis by (simp split: prod.splits)
  next
    case (Cons x xs)
    with Cons.IH app [of c "concat cs"] show ?thesis by (simp split: prod.splits)
  qed
qed simp

text \<open>The wire form of a frame, and the frames it can carry.\<close>

definition sse_wire :: "sse_frame \<Rightarrow> 8 word list" where
  "sse_wire f =
     (case frame_event f of Some e \<Rightarrow> utf8_bytes ''event: '' @ e @ [lf] | None \<Rightarrow> [])
     @ concat (map (\<lambda>l. utf8_bytes ''data: '' @ l @ [lf]) (split_on lf (frame_data f))) @ [lf]"

definition line_text :: "8 word list \<Rightarrow> bool" where
  "line_text l \<longleftrightarrow> lf \<notin> set l \<and> drop_cr l = l \<and> from_utf8_lossy l = l"

definition frame_ok :: "sse_frame \<Rightarrow> bool" where
  "frame_ok f \<longleftrightarrow> (case frame_event f of Some e \<Rightarrow> line_text e | None \<Rightarrow> True)
     \<and> list_all line_text (split_on lf (frame_data f))"

lemma lossy_ascii: "\<forall>b\<in>set a. b < 0x80 \<Longrightarrow> from_utf8_lossy (a @ t) = a @ from_utf8_lossy t"
  by (induction a) (auto simp: utf8_piece_def utf8_width_def Let_def)

lemma drain_line:
  assumes "lf \<notin> set line" "sse_process_line (d\<lparr> sse_buf := rest \<rparr>) (from_utf8_lossy (drop_cr line)) = (f, d1)"
  shows "sse_drain (d\<lparr> sse_buf := line @ lf # rest \<rparr>)
    = (let (fs, d2) = sse_drain d1 in ((case f of Some x \<Rightarrow> [x] | None \<Rightarrow> []) @ fs, d2))"
proof -
  have "position (\<lambda>b. b = lf) (line @ lf # rest) = Some (length line)"
    using assms(1) position_None [of "\<lambda>b. b = lf" line] by (auto simp: position_append)
  with assms(2) show ?thesis by (subst sse_drain.simps) simp
qed

lemma field_bytes:
  "utf8_bytes ''event: '' = [101, 118, 101, 110, 116, 58, 32]" "utf8_bytes ''data: '' = [100, 97, 116, 97, 58, 32]"
  "utf8_bytes ''event'' = [101, 118, 101, 110, 116]" "utf8_bytes ''data'' = [100, 97, 116, 97]"
  by code_simp+

lemma drop_cr_append: "l \<noteq> [] \<Longrightarrow> drop_cr (a @ l) = a @ drop_cr l"
  by (simp add: drop_cr_def butlast_append)

lemma line_text_prefixed:
  assumes "line_text l" "\<forall>b\<in>set a. b < 0x80" "a \<noteq> []" "last a \<noteq> cr" "lf \<notin> set a"
  shows "lf \<notin> set (a @ l)" "from_utf8_lossy (drop_cr (a @ l)) = a @ l"
proof -
  have "drop_cr (a @ l) = a @ l"
    using assms by (cases l) (auto simp: drop_cr_append line_text_def, simp add: drop_cr_def)
  then show "from_utf8_lossy (drop_cr (a @ l)) = a @ l"
    using assms by (simp add: lossy_ascii line_text_def)
qed (use assms in \<open>auto simp: line_text_def\<close>)

lemma drain_event_line:
  assumes "line_text e"
  shows "sse_drain (d\<lparr> sse_buf := utf8_bytes ''event: '' @ e @ lf # rest \<rparr>)
    = sse_drain (d\<lparr> sse_buf := rest, sse_event := Some e \<rparr>)"
proof -
  have a: "lf \<notin> set (utf8_bytes ''event: '' @ e)"
    "from_utf8_lossy (drop_cr (utf8_bytes ''event: '' @ e)) = utf8_bytes ''event: '' @ e"
    by (rule line_text_prefixed [OF assms]; simp add: field_bytes lf_def cr_def)+
  have "sse_process_line (d\<lparr> sse_buf := rest \<rparr>) (utf8_bytes ''event: '' @ e)
    = (None, d\<lparr> sse_buf := rest, sse_event := Some e \<rparr>)"
    by (simp add: sse_process_line_def field_bytes starts_with_def colon_def)
  with drain_line [OF a(1), unfolded a(2)] show ?thesis by (simp split: prod.splits)
qed

lemma drain_data_line:
  assumes "line_text l"
  shows "sse_drain (d\<lparr> sse_buf := utf8_bytes ''data: '' @ l @ lf # rest \<rparr>)
    = sse_drain (d\<lparr> sse_buf := rest, sse_data := sse_data d @ [l] \<rparr>)"
proof -
  have a: "lf \<notin> set (utf8_bytes ''data: '' @ l)"
    "from_utf8_lossy (drop_cr (utf8_bytes ''data: '' @ l)) = utf8_bytes ''data: '' @ l"
    by (rule line_text_prefixed [OF assms]; simp add: field_bytes lf_def cr_def)+
  have "sse_process_line (d\<lparr> sse_buf := rest \<rparr>) (utf8_bytes ''data: '' @ l)
    = (None, d\<lparr> sse_buf := rest, sse_data := sse_data d @ [l] \<rparr>)"
    by (simp add: sse_process_line_def field_bytes starts_with_def colon_def)
  with drain_line [OF a(1), unfolded a(2)] show ?thesis by (simp split: prod.splits)
qed

lemma drain_data_lines:
  "list_all line_text ls \<Longrightarrow>
   sse_drain (d\<lparr> sse_buf := concat (map (\<lambda>l. utf8_bytes ''data: '' @ l @ [lf]) ls) @ rest \<rparr>)
   = sse_drain (d\<lparr> sse_buf := rest, sse_data := sse_data d @ ls \<rparr>)"
proof (induction ls arbitrary: d)
  case (Cons l ls)
  then have "sse_drain (d\<lparr> sse_buf := concat (map (\<lambda>l. utf8_bytes ''data: '' @ l @ [lf]) (l # ls)) @ rest \<rparr>)
    = sse_drain (d\<lparr> sse_buf := concat (map (\<lambda>l. utf8_bytes ''data: '' @ l @ [lf]) ls) @ rest,
                  sse_data := sse_data d @ [l] \<rparr>)"
    by (simp add: drain_data_line)
  also have "\<dots> = sse_drain ((d\<lparr> sse_data := sse_data d @ [l] \<rparr>)\<lparr> sse_buf :=
      concat (map (\<lambda>l. utf8_bytes ''data: '' @ l @ [lf]) ls) @ rest \<rparr>)" by (cases d) simp
  also have "\<dots> = sse_drain (d\<lparr> sse_buf := rest, sse_data := sse_data d @ l # ls \<rparr>)"
    using Cons by (subst Cons.IH) simp_all
  finally show ?case .
qed simp

lemma drain_frame:
  assumes "frame_ok f"
  shows "sse_drain (sse_new\<lparr> sse_buf := sse_wire f @ rest \<rparr>)
    = (let (fs, d) = sse_drain (sse_new\<lparr> sse_buf := rest \<rparr>) in (f # fs, d))"
proof -
  let ?ls = "split_on lf (frame_data f)"
  have ls: "list_all line_text ?ls" using assms by (simp add: frame_ok_def)
  have blank: "sse_drain (\<lparr> sse_buf = lf # rest, sse_event = frame_event f, sse_data = ?ls \<rparr>)
    = (let (fs, d) = sse_drain (sse_new\<lparr> sse_buf := rest \<rparr>) in (f # fs, d))"
    using drain_line [where line = "[]" and d = "\<lparr> sse_buf = [], sse_event = frame_event f, sse_data = ?ls \<rparr>" and rest = rest]
    by (cases f) (simp add: sse_process_line_def drop_cr_def sse_new_def)
  have "sse_drain (sse_new\<lparr> sse_buf := sse_wire f @ rest \<rparr>)
    = sse_drain ((sse_new\<lparr> sse_event := frame_event f \<rparr>)\<lparr> sse_buf :=
        concat (map (\<lambda>l. utf8_bytes ''data: '' @ l @ [lf]) ?ls) @ lf # rest \<rparr>)"
    using assms drain_event_line [where d = sse_new]
    by (cases "frame_event f") (simp_all add: sse_wire_def frame_ok_def sse_new_def)
  also have "\<dots> = sse_drain (\<lparr> sse_buf = lf # rest, sse_event = frame_event f, sse_data = ?ls \<rparr>)"
    by (subst drain_data_lines [OF ls]) (simp add: sse_new_def)
  finally show ?thesis using blank by simp
qed

lemma drain_frames:
  "list_all frame_ok fs \<Longrightarrow> sse_drain (sse_new\<lparr> sse_buf := concat (map sse_wire fs) \<rparr>) = (fs, sse_new)"
proof (induction fs)
  case Nil
  then show ?case by (subst sse_drain.simps) (simp add: sse_new_def)
next
  case (Cons f fs)
  then show ?case by (simp add: drain_frame)
qed

text \<open>C22. Decoding does not depend on how the network cuts the stream: however the wire form of
  a list of frames (an optional event name, data of any number of lines) is split into chunks,
  the decoder yields exactly those frames, in order, and is left empty.\<close>

theorem sse_any_chunking:
  assumes "list_all frame_ok frames" "concat chunks = concat (map sse_wire frames)"
  shows "run_emit sse_push sse_new chunks = (frames, sse_new)"
proof (cases chunks)
  case Nil
  have "sse_wire f \<noteq> []" for f by (simp add: sse_wire_def)
  with assms(2) Nil have "frames = []" by (cases frames) simp_all
  with Nil show ?thesis by simp
next
  case (Cons c cs)
  have b: "sse_buf sse_new = []" by (simp add: sse_new_def)
  have "run_emit sse_push sse_new chunks = sse_push sse_new (concat chunks)"
    by (subst push_chunks) (simp add: Cons)
  then show ?thesis
    using drain_frames [OF assms(1)] b by (simp add: sse_push_def assms(2))
qed

theorem sse_any_chunking_witness:
  "run_emit sse_push sse_new [utf8_bytes ''da'', utf8_bytes ''ta: x'', [lf], [lf]]
   = ([\<lparr> frame_event = None, frame_data = utf8_bytes ''x'' \<rparr>], sse_new)"
proof (rule sse_any_chunking)
  show "list_all frame_ok [\<lparr> frame_event = None, frame_data = utf8_bytes ''x'' \<rparr>]" by code_simp
  show "concat [utf8_bytes ''da'', utf8_bytes ''ta: x'', [lf], [lf]]
    = concat (map sse_wire [\<lparr> frame_event = None, frame_data = utf8_bytes ''x'' \<rparr>])" by code_simp
qed

section \<open>The lifecycle normaliser\<close>

text \<open>A \<open>BTreeSet\<close> of ids is a set; \<open>finish\<close> walks it in ascending order.\<close>

record lifecycle_state =
  step_started :: bool
  lc_finished :: bool
  open_text :: "string set"
  open_reasoning :: "string set"

definition lifecycle_new :: lifecycle_state where
  "lifecycle_new = \<lparr> step_started = False, lc_finished = False, open_text = {}, open_reasoning = {} \<rparr>"

definition ensure_step :: "lifecycle_state \<Rightarrow> llm_event list \<times> lifecycle_state" where
  "ensure_step s = (if \<not> step_started s then ([StepStart], s\<lparr> step_started := True \<rparr>) else ([], s))"

definition lc_text_delta :: "lifecycle_state \<Rightarrow> string \<Rightarrow> string \<Rightarrow> json option \<Rightarrow> llm_event list \<times> lifecycle_state" where
  "lc_text_delta s d frag meta =
     (let (out, s1) = ensure_step s in
      if d \<notin> open_text s1
      then (out @ [TextStart d, TextDelta d frag meta], s1\<lparr> open_text := insert d (open_text s1) \<rparr>)
      else (out @ [TextDelta d frag meta], s1))"

definition lc_text_end :: "lifecycle_state \<Rightarrow> string \<Rightarrow> text_phase option \<Rightarrow> llm_event list \<times> lifecycle_state" where
  "lc_text_end s d phase =
     (if d \<in> open_text s then ([TextEnd d phase], s\<lparr> open_text := open_text s - {d} \<rparr>) else ([], s))"

definition lc_reasoning_delta :: "lifecycle_state \<Rightarrow> string \<Rightarrow> string \<Rightarrow> llm_event list \<times> lifecycle_state" where
  "lc_reasoning_delta s d frag =
     (let (out, s1) = ensure_step s in
      if d \<notin> open_reasoning s1
      then (out @ [ReasoningStart d, ReasoningDelta d frag],
            s1\<lparr> open_reasoning := insert d (open_reasoning s1) \<rparr>)
      else (out @ [ReasoningDelta d frag], s1))"

definition lc_reasoning_end :: "lifecycle_state \<Rightarrow> string \<Rightarrow> llm_event list \<times> lifecycle_state" where
  "lc_reasoning_end s d =
     (if d \<in> open_reasoning s then ([ReasoningEnd d], s\<lparr> open_reasoning := open_reasoning s - {d} \<rparr>)
      else ([], s))"

definition lc_finish :: "lifecycle_state \<Rightarrow> usage \<Rightarrow> finish_reason option \<Rightarrow> llm_event list \<times> lifecycle_state" where
  "lc_finish s u reason =
     (if lc_finished s then ([], s)
      else let (out, s1) = ensure_step s in
           (out @ map (\<lambda>d. TextEnd d None) (sorted_list_of_set (open_text s1))
              @ map ReasoningEnd (sorted_list_of_set (open_reasoning s1))
              @ [StepFinish u reason, Finish u reason],
            s1\<lparr> open_text := {}, open_reasoning := {}, lc_finished := True \<rparr>))"

text \<open>The calls a protocol makes while a response streams.\<close>

datatype lc_op =
    LcText string string "json option"
  | LcTextEnd string "text_phase option"
  | LcReasoning string string
  | LcReasoningEnd string

fun lc_step :: "lifecycle_state \<Rightarrow> lc_op \<Rightarrow> llm_event list \<times> lifecycle_state" where
  "lc_step s (LcText d frag meta) = lc_text_delta s d frag meta"
| "lc_step s (LcTextEnd d phase) = lc_text_end s d phase"
| "lc_step s (LcReasoning d frag) = lc_reasoning_delta s d frag"
| "lc_step s (LcReasoningEnd d) = lc_reasoning_end s d"

text \<open>The grammar of a well-formed stream, as an automaton: one step start, blocks that are
  opened, fed and closed, then step finish and finish with every block closed.\<close>

datatype lc_phase = Before | Inside | StepDone | AllDone

type_synonym lc_check = "lc_phase \<times> string set \<times> string set"

fun lc_accept :: "llm_event \<Rightarrow> lc_check \<Rightarrow> lc_check option" where
  "lc_accept StepStart (Before, t, r) = Some (Inside, t, r)"
| "lc_accept (TextStart d) (Inside, t, r) = (if d \<notin> t then Some (Inside, insert d t, r) else None)"
| "lc_accept (TextDelta d _ _) (Inside, t, r) = (if d \<in> t then Some (Inside, t, r) else None)"
| "lc_accept (TextEnd d _) (Inside, t, r) = (if d \<in> t then Some (Inside, t - {d}, r) else None)"
| "lc_accept (ReasoningStart d) (Inside, t, r) = (if d \<notin> r then Some (Inside, t, insert d r) else None)"
| "lc_accept (ReasoningDelta d _) (Inside, t, r) = (if d \<in> r then Some (Inside, t, r) else None)"
| "lc_accept (ReasoningEnd d) (Inside, t, r) = (if d \<in> r then Some (Inside, t, r - {d}) else None)"
| "lc_accept (StepFinish _ _) (Inside, t, r) = (if t = {} \<and> r = {} then Some (StepDone, {}, {}) else None)"
| "lc_accept (Finish _ _) (StepDone, t, r) = Some (AllDone, t, r)"
| "lc_accept _ _ = None"

fun lc_accepts :: "llm_event list \<Rightarrow> lc_check \<Rightarrow> lc_check option" where
  "lc_accepts [] c = Some c"
| "lc_accepts (e # es) c = Option.bind (lc_accept e c) (lc_accepts es)"

lemma lc_accepts_append: "lc_accepts (xs @ ys) c = Option.bind (lc_accepts xs c) (lc_accepts ys)"
  by (induction xs arbitrary: c) (auto split: bind_splits)

definition lc_view :: "lifecycle_state \<Rightarrow> lc_check" where
  "lc_view s = (if step_started s then Inside else Before, open_text s, open_reasoning s)"

definition lc_traced :: "llm_event list \<Rightarrow> lifecycle_state \<Rightarrow> bool" where
  "lc_traced tr s \<longleftrightarrow> lc_accepts tr (Before, {}, {}) = Some (lc_view s)
     \<and> finite (open_text s) \<and> finite (open_reasoning s) \<and> \<not> lc_finished s
     \<and> (\<not> step_started s \<longrightarrow> open_text s = {} \<and> open_reasoning s = {})"

lemma lc_step_traced:
  assumes "lc_traced tr s" "lc_step s e = (outs, s')"
  shows "lc_traced (tr @ outs) s'"
  using assms
  by (cases e) (auto simp: lc_traced_def lc_accepts_append lc_view_def lc_text_delta_def lc_text_end_def
      lc_reasoning_delta_def lc_reasoning_end_def ensure_step_def split: if_splits)

interpretation lc: emitting_machine lc_step lc_traced
  by unfold_locales (rule lc_step_traced)

lemma close_text:
  "distinct ds \<Longrightarrow> set ds \<subseteq> t \<Longrightarrow>
   lc_accepts (map (\<lambda>d. TextEnd d None) ds) (Inside, t, r) = Some (Inside, t - set ds, r)"
proof (induction ds arbitrary: t)
  case (Cons d ds)
  then have "set ds \<subseteq> t - {d}" by auto
  with Cons show ?case by (auto intro: arg_cong)
qed simp

lemma close_reasoning:
  "distinct ds \<Longrightarrow> set ds \<subseteq> r \<Longrightarrow>
   lc_accepts (map ReasoningEnd ds) (Inside, t, r) = Some (Inside, t, r - set ds)"
proof (induction ds arbitrary: r)
  case (Cons d ds)
  then have "set ds \<subseteq> r - {d}" by auto
  with Cons show ?case by (auto intro: arg_cong)
qed simp

lemma lc_finish_closes:
  assumes "lc_traced tr s" "lc_finish s u reason = (outs, s')"
  shows "lc_accepts (tr @ outs) (Before, {}, {}) = Some (AllDone, {}, {}) \<and> lc_finish s' u2 r2 = ([], s')"
proof -
  have fin: "finite (open_text s)" "finite (open_reasoning s)" "\<not> lc_finished s"
    using assms(1) by (auto simp: lc_traced_def)
  obtain o1 s1 where es: "ensure_step s = (o1, s1)" by fastforce
  have s1: "open_text s1 = open_text s" "open_reasoning s1 = open_reasoning s"
    "lc_accepts (tr @ o1) (Before, {}, {}) = Some (Inside, open_text s, open_reasoning s)"
    using es assms(1) by (auto simp: ensure_step_def lc_traced_def lc_accepts_append lc_view_def split: if_splits)
  have outs: "outs = o1 @ map (\<lambda>d. TextEnd d None) (sorted_list_of_set (open_text s))
              @ map ReasoningEnd (sorted_list_of_set (open_reasoning s))
              @ [StepFinish u reason, Finish u reason]" and d: "lc_finished s'"
    using assms(2) es s1 fin by (auto simp: lc_finish_def)
  obtain c where "lc_accepts tr (Before, {}, {}) = Some c"
    "lc_accepts o1 c = Some (Inside, open_text s, open_reasoning s)"
    using s1(3) by (auto simp: lc_accepts_append bind_eq_Some_conv)
  then have "lc_accepts (tr @ outs) (Before, {}, {}) = Some (AllDone, {}, {})"
    unfolding outs
    using fin close_text [of "sorted_list_of_set (open_text s)" "open_text s" "open_reasoning s"]
      close_reasoning [of "sorted_list_of_set (open_reasoning s)" "open_reasoning s" "{}"]
    by (simp add: lc_accepts_append)
  with d show ?thesis by (simp add: lc_finish_def)
qed

text \<open>Whatever order of text and reasoning calls a provider's stream causes, the events the
  normaliser emits up to and including \<open>finish\<close> form a well-formed stream: one step start
  first, every block opened once before its deltas and closed exactly once, and the step finish
  and finish last with no block left open. A second \<open>finish\<close> emits nothing.\<close>

lemma lifecycle_well_formed:
  assumes "run_emit lc_step lifecycle_new ops = (outs, s)" "lc_finish s u reason = (fin, s')"
  shows "lc_accepts (outs @ fin) (Before, {}, {}) = Some (AllDone, {}, {}) \<and> lc_finish s' u2 r2 = ([], s')"
proof -
  have "lc_traced [] lifecycle_new" by (simp add: lc_traced_def lifecycle_new_def lc_view_def)
  from lc.run_traced [OF this assms(1)] have "lc_traced outs s" by simp
  from lc_finish_closes [OF this assms(2)] show ?thesis .
qed

lemma lifecycle_well_formed_witness:
  "\<exists>outs s fin s'. run_emit lc_step lifecycle_new [LcText ''t'' ''hi'' None, LcReasoning ''r'' ''hm''] = (outs, s)
     \<and> lc_finish s usage_default (Some FrStop) = (fin, s') \<and> length (outs @ fin) = 9
     \<and> lc_accepts (outs @ fin) (Before, {}, {}) = Some (AllDone, {}, {})"
proof -
  obtain outs s where o1: "run_emit lc_step lifecycle_new [LcText ''t'' ''hi'' None, LcReasoning ''r'' ''hm''] = (outs, s)"
    by fastforce
  obtain fin s' where f: "lc_finish s usage_default (Some FrStop) = (fin, s')" by fastforce
  have "outs = [StepStart, TextStart ''t'', TextDelta ''t'' ''hi'' None, ReasoningStart ''r'', ReasoningDelta ''r'' ''hm'']"
    "s = \<lparr> step_started = True, lc_finished = False, open_text = {''t''}, open_reasoning = {''r''} \<rparr>"
    using o1 by (simp_all add: lifecycle_new_def lc_text_delta_def lc_reasoning_delta_def ensure_step_def)
  then have "length (outs @ fin) = 9" using f by (auto simp: lc_finish_def ensure_step_def)
  with lifecycle_well_formed [OF o1 f] o1 f show ?thesis by blast
qed

section \<open>The tool-call accumulator\<close>

record accum =
  acc_name :: string
  acc_namespace :: "string option"
  acc_metadata :: "json option"
  acc_args :: string
  acc_started :: bool
  acc_ended :: bool

definition accum_default :: accum where
  "accum_default = \<lparr> acc_name = [], acc_namespace = None, acc_metadata = None, acc_args = [],
     acc_started = False, acc_ended = False \<rparr>"

record tool_stream =
  ts_calls :: "(string \<times> accum) list"
  ts_order :: "string list"

definition tool_stream_new :: tool_stream where
  "tool_stream_new = \<lparr> ts_calls = [], ts_order = [] \<rparr>"

definition ts_entry :: "tool_stream \<Rightarrow> string \<Rightarrow> accum \<times> tool_stream" where
  "ts_entry s d =
     (case map_of (ts_calls s) d of
        Some a \<Rightarrow> (a, s)
      | None \<Rightarrow> (accum_default,
                 s\<lparr> ts_calls := bt_insert d accum_default (ts_calls s), ts_order := ts_order s @ [d] \<rparr>))"

definition ts_store :: "tool_stream \<Rightarrow> string \<Rightarrow> accum \<Rightarrow> tool_stream" where
  "ts_store s d a = s\<lparr> ts_calls := bt_insert d a (ts_calls s) \<rparr>"

definition ts_start :: "tool_stream \<Rightarrow> string \<Rightarrow> string \<Rightarrow> string option \<Rightarrow> llm_event list \<times> tool_stream" where
  "ts_start s d name namespace =
     (let (e, s1) = ts_entry s d;
          e = (if acc_name e = [] then e\<lparr> acc_name := name \<rparr> else e);
          e = (if acc_namespace e = None then e\<lparr> acc_namespace := namespace \<rparr> else e)
      in if acc_started e then ([], ts_store s1 d e)
         else ([ToolInputStart d (acc_name e)], ts_store s1 d (e\<lparr> acc_started := True \<rparr>)))"

definition ts_set_provider_metadata :: "tool_stream \<Rightarrow> string \<Rightarrow> json option \<Rightarrow> tool_stream" where
  "ts_set_provider_metadata s d meta =
     (if meta = None then s
      else let (e, s1) = ts_entry s d
           in ts_store s1 d (if acc_metadata e = None then e\<lparr> acc_metadata := meta \<rparr> else e))"

definition ts_delta :: "tool_stream \<Rightarrow> string \<Rightarrow> string option \<Rightarrow> string \<Rightarrow> llm_event list \<times> tool_stream" where
  "ts_delta s d name frag =
     (let (e, s1) = ts_entry s d;
          e = (case name of Some n \<Rightarrow> if acc_name e = [] then e\<lparr> acc_name := n \<rparr> else e | None \<Rightarrow> e);
          out = (if acc_started e then [] else [ToolInputStart d (acc_name e)])
      in (out @ [ToolInputDelta d frag],
          ts_store s1 d (e\<lparr> acc_started := True, acc_args := acc_args e @ frag \<rparr>)))"

definition parse_args :: "(string \<Rightarrow> string + json) \<Rightarrow> string \<Rightarrow> llm_error + json" where
  "parse_args from_str t =
     (let trimmed = str_trim t in
      if trimmed = [] then Inr (JObj [])
      else case from_str trimmed of
             Inr v \<Rightarrow> Inr v
           | Inl e \<Rightarrow> Inl (llm_error_new Decode (''tool input JSON: '' @ e)))"

definition ts_end ::
  "(string \<Rightarrow> string + json) \<Rightarrow> tool_stream \<Rightarrow> string \<Rightarrow> (llm_error + llm_event list) \<times> tool_stream" where
  "ts_end from_str s d =
     (case map_of (ts_calls s) d of
        Some e \<Rightarrow>
          if acc_ended e then (Inr [], s)
          else let s' = ts_store s d (e\<lparr> acc_ended := True \<rparr>) in
               (case parse_args from_str (acc_args e) of
                  Inl err \<Rightarrow> (Inl err, s')
                | Inr input \<Rightarrow>
                    (Inr [ToolInputEnd d, ToolCall d (acc_name e) (acc_namespace e) (acc_metadata e) input], s'))
      | None \<Rightarrow> (Inr [], s))"

definition ts_end_with_arguments ::
  "(string \<Rightarrow> string + json) \<Rightarrow> tool_stream \<Rightarrow> string \<Rightarrow> string option
   \<Rightarrow> (llm_error + llm_event list) \<times> tool_stream" where
  "ts_end_with_arguments from_str s d arguments =
     (let add = (case arguments of
                   Some args \<Rightarrow> args \<noteq> [] \<and>
                     (case map_of (ts_calls s) d of Some e \<Rightarrow> \<not> acc_ended e \<and> acc_args e = [] | None \<Rightarrow> False)
                 | None \<Rightarrow> False);
          (out, s1) = (if add then ts_delta s d None (case arguments of Some args \<Rightarrow> args | None \<Rightarrow> []) else ([], s))
      in case ts_end from_str s1 d of
           (Inl err, s2) \<Rightarrow> (Inl err, s2)
         | (Inr evs, s2) \<Rightarrow> (Inr (out @ evs), s2))"

fun ts_end_all ::
  "(string \<Rightarrow> string + json) \<Rightarrow> tool_stream \<Rightarrow> string list \<Rightarrow> (llm_error + llm_event list) \<times> tool_stream" where
  "ts_end_all from_str s [] = (Inr [], s)"
| "ts_end_all from_str s (d # ds) =
     (case ts_end from_str s d of
        (Inl err, s1) \<Rightarrow> (Inl err, s1)
      | (Inr evs, s1) \<Rightarrow>
          (case ts_end_all from_str s1 ds of
             (Inl err, s2) \<Rightarrow> (Inl err, s2)
           | (Inr evs2, s2) \<Rightarrow> (Inr (evs @ evs2), s2)))"

definition ts_flush ::
  "(string \<Rightarrow> string + json) \<Rightarrow> tool_stream \<Rightarrow> (llm_error + llm_event list) \<times> tool_stream" where
  "ts_flush from_str s =
     ts_end_all from_str s
       (filter (\<lambda>d. case map_of (ts_calls s) d of Some e \<Rightarrow> \<not> acc_ended e | None \<Rightarrow> False) (ts_order s))"

text \<open>The calls of a protocol; an error of \<open>end\<close> or \<open>flush\<close> delivers no events.\<close>

datatype ts_op =
    TsStart string string "string option"
  | TsMetadata string "json option"
  | TsDelta string "string option" string
  | TsEnd string
  | TsEndWith string "string option"
  | TsFlush

definition delivered :: "(llm_error + llm_event list) \<times> tool_stream \<Rightarrow> llm_event list \<times> tool_stream" where
  "delivered r = (case fst r of Inl _ \<Rightarrow> [] | Inr evs \<Rightarrow> evs, snd r)"

fun ts_step :: "(string \<Rightarrow> string + json) \<Rightarrow> tool_stream \<Rightarrow> ts_op \<Rightarrow> llm_event list \<times> tool_stream" where
  "ts_step from_str s (TsStart d name namespace) = ts_start s d name namespace"
| "ts_step from_str s (TsMetadata d meta) = ([], ts_set_provider_metadata s d meta)"
| "ts_step from_str s (TsDelta d name frag) = ts_delta s d name frag"
| "ts_step from_str s (TsEnd d) = delivered (ts_end from_str s d)"
| "ts_step from_str s (TsEndWith d args) = delivered (ts_end_with_arguments from_str s d args)"
| "ts_step from_str s TsFlush = delivered (ts_flush from_str s)"

text \<open>What a trace says about one call.\<close>

fun delta_of :: "string \<Rightarrow> llm_event \<Rightarrow> string" where
  "delta_of d (ToolInputDelta d' frag) = (if d' = d then frag else [])"
| "delta_of d _ = []"

definition deltas :: "string \<Rightarrow> llm_event list \<Rightarrow> string" where
  "deltas d tr = concat (map (delta_of d) tr)"

fun starts_call :: "string \<Rightarrow> llm_event \<Rightarrow> bool" where
  "starts_call d (ToolInputStart d' _) = (d' = d)"
| "starts_call d _ = False"

fun feeds_call :: "string \<Rightarrow> llm_event \<Rightarrow> bool" where
  "feeds_call d (ToolInputDelta d' _) = (d' = d)"
| "feeds_call d _ = False"

fun makes_call :: "string \<Rightarrow> llm_event \<Rightarrow> bool" where
  "makes_call d (ToolCall d' _ _ _ _) = (d' = d)"
| "makes_call d _ = False"

definition started_first :: "string \<Rightarrow> llm_event list \<Rightarrow> bool" where
  "started_first d tr \<longleftrightarrow> list_all (\<lambda>e. \<not> feeds_call d e) (takeWhile (\<lambda>e. \<not> starts_call d e) tr)"

text \<open>The event \<open>e\<close> may follow the events \<open>pre\<close>.\<close>

definition call_event_ok :: "(string \<Rightarrow> string + json) \<Rightarrow> llm_event list \<Rightarrow> llm_event \<Rightarrow> bool" where
  "call_event_ok from_str pre e =
     (case e of
        ToolInputStart d _ \<Rightarrow> list_all (\<lambda>e'. \<not> starts_call d e') pre
      | ToolCall d _ _ _ input \<Rightarrow>
          pre \<noteq> [] \<and> last pre = ToolInputEnd d
          \<and> list_all (\<lambda>e'. \<not> makes_call d e') pre
          \<and> list_all (\<lambda>e'. e' \<noteq> ToolInputEnd d) (butlast pre)
          \<and> started_first d pre \<and> parse_args from_str (deltas d pre) = Inr input
      | _ \<Rightarrow> True)"

definition call_events_ok :: "(string \<Rightarrow> string + json) \<Rightarrow> llm_event list \<Rightarrow> bool" where
  "call_events_ok from_str tr \<longleftrightarrow> (\<forall>i<length tr. call_event_ok from_str (take i tr) (tr ! i))"

definition ts_acc :: "tool_stream \<Rightarrow> string \<Rightarrow> accum" where
  "ts_acc s d = (case map_of (ts_calls s) d of Some a \<Rightarrow> a | None \<Rightarrow> accum_default)"

definition acc_traced :: "llm_event list \<Rightarrow> string \<Rightarrow> accum \<Rightarrow> bool" where
  "acc_traced tr d a \<longleftrightarrow>
     (list_ex (starts_call d) tr \<longrightarrow> acc_started a)
     \<and> (\<not> acc_ended a \<longrightarrow>
          acc_args a = deltas d tr \<and> (acc_started a \<longrightarrow> list_ex (starts_call d) tr)
          \<and> started_first d tr \<and> list_all (\<lambda>e. \<not> makes_call d e) tr
          \<and> list_all (\<lambda>e. e \<noteq> ToolInputEnd d) tr)"

definition ts_traced :: "(string \<Rightarrow> string + json) \<Rightarrow> llm_event list \<Rightarrow> tool_stream \<Rightarrow> bool" where
  "ts_traced from_str tr s \<longleftrightarrow> call_events_ok from_str tr \<and> (\<forall>d. acc_traced tr d (ts_acc s d))"

lemma events_ok_snoc:
  "call_events_ok from_str (tr @ [e]) \<longleftrightarrow> call_events_ok from_str tr \<and> call_event_ok from_str tr e"
  by (auto simp: call_events_ok_def less_Suc_eq nth_append)

lemma deltas_append [simp]: "deltas d (a @ b) = deltas d a @ deltas d b"
  by (simp add: deltas_def)

lemma deltas_simps [simp]: "deltas d [] = []" "deltas d (e # es) = delta_of d e @ deltas d es"
  by (simp_all add: deltas_def)

lemma started_first_snoc:
  "started_first d (tr @ [e]) \<longleftrightarrow>
     started_first d tr \<and> (list_ex (starts_call d) tr \<or> starts_call d e \<or> \<not> feeds_call d e)"
proof (cases "list_ex (starts_call d) tr")
  case True
  then obtain x where "x \<in> set tr" "\<not> \<not> starts_call d x" by (auto simp: list_ex_iff)
  then have "takeWhile (\<lambda>e. \<not> starts_call d e) (tr @ [e]) = takeWhile (\<lambda>e. \<not> starts_call d e) tr"
    by (rule takeWhile_append1)
  with True show ?thesis by (simp add: started_first_def)
next
  case False
  then have t: "takeWhile (\<lambda>e. \<not> starts_call d e) (tr @ [e]) = tr @ takeWhile (\<lambda>e. \<not> starts_call d e) [e]"
    "takeWhile (\<lambda>e. \<not> starts_call d e) tr = tr"
    by (auto simp: list_ex_iff takeWhile_append2 takeWhile_eq_all_conv)
  show ?thesis unfolding started_first_def t using False by simp
qed

lemma acc_store [simp]: "ts_acc (ts_store s d a) d' = (if d' = d then a else ts_acc s d')"
  by (simp add: ts_acc_def ts_store_def bt_insert_lookup)

lemma acc_entry:
  assumes "ts_entry s d = (a, s1)"
  shows "a = ts_acc s d" "ts_acc s1 d' = ts_acc s d'"
  using assms by (auto simp: ts_entry_def ts_acc_def bt_insert_lookup split: option.splits if_splits)

text \<open>Events of one call do not touch the record of another.\<close>

fun about_call :: "string \<Rightarrow> llm_event \<Rightarrow> bool" where
  "about_call d (ToolInputStart d' _) = (d' = d)"
| "about_call d (ToolInputDelta d' _) = (d' = d)"
| "about_call d (ToolInputEnd d') = (d' = d)"
| "about_call d (ToolCall d' _ _ _ _) = (d' = d)"
| "about_call d _ = False"

lemma acc_traced_other:
  "about_call d e \<Longrightarrow> d' \<noteq> d \<Longrightarrow> acc_traced (tr @ [e]) d' a \<longleftrightarrow> acc_traced tr d' a"
  by (cases e) (auto simp: acc_traced_def started_first_snoc)

lemma traced_store:
  assumes "ts_traced from_str tr s" "call_events_ok from_str (tr @ outs)"
    and "list_all (about_call d) outs" "acc_traced (tr @ outs) d a" "\<And>d'. ts_acc s1 d' = ts_acc s d'"
  shows "ts_traced from_str (tr @ outs) (ts_store s1 d a)"
proof -
  have "acc_traced (tr @ outs) d' (ts_acc s d')" if "d' \<noteq> d" for d'
    using assms(3)
  proof (induction outs rule: rev_induct)
    case Nil
    then show ?case using assms(1) by (simp add: ts_traced_def)
  next
    case (snoc e es)
    then show ?case using acc_traced_other [of d e d' "tr @ es"] that by simp
  qed
  with assms show ?thesis by (simp add: ts_traced_def)
qed

lemma traced_acc: "ts_traced from_str tr s \<Longrightarrow> acc_traced tr d (ts_acc s d)"
  by (simp add: ts_traced_def)

lemma traced_events: "ts_traced from_str tr s \<Longrightarrow> call_events_ok from_str tr"
  by (simp add: ts_traced_def)

lemma start_traced:
  assumes t: "ts_traced from_str tr s" and r: "ts_start s d name ns = (outs, s')"
  shows "ts_traced from_str (tr @ outs) s'"
proof -
  obtain a s1 where e: "ts_entry s d = (a, s1)" by fastforce
  note a = acc_entry(1) [OF e] and s1 = acc_entry(2) [OF e]
  have at: "acc_traced tr d a" using traced_acc [OF t] a by simp
  define b where "b = (let e = (if acc_name a = [] then a\<lparr> acc_name := name \<rparr> else a)
    in if acc_namespace e = None then e\<lparr> acc_namespace := ns \<rparr> else e)"
  have b: "acc_started b = acc_started a" "acc_ended b = acc_ended a" "acc_args b = acc_args a"
    by (simp_all add: b_def Let_def)
  have "(outs, s') = (if acc_started b then ([], ts_store s1 d b)
      else ([ToolInputStart d (acc_name b)], ts_store s1 d (b\<lparr> acc_started := True \<rparr>)))"
    using r unfolding ts_start_def e Let_def b_def split_conv by (rule sym)
  then have out: "outs = (if acc_started b then [] else [ToolInputStart d (acc_name b)])"
    "s' = ts_store s1 d (b\<lparr> acc_started := True \<rparr>)"
    by (cases b; simp split: if_splits)+
  show ?thesis unfolding out(2)
  proof (rule traced_store [OF t _ _ _ s1])
    show "call_events_ok from_str (tr @ outs)"
      using traced_events [OF t] at unfolding out(1) b(1)
      by (auto simp: events_ok_snoc call_event_ok_def acc_traced_def list_all_iff list_ex_iff)
    show "list_all (about_call d) outs" by (simp add: out(1))
    show "acc_traced (tr @ outs) d (b\<lparr> acc_started := True \<rparr>)"
    proof (cases "acc_started a")
      case True
      with at b(2,3) show ?thesis by (simp add: out(1) b(1) acc_traced_def)
    next
      case False
      with at b(2,3) show ?thesis by (simp add: out(1) b(1) acc_traced_def started_first_snoc)
    qed
  qed
qed

lemma metadata_traced:
  assumes t: "ts_traced from_str tr s"
  shows "ts_traced from_str tr (ts_set_provider_metadata s d meta)"
proof -
  obtain a s1 where e: "ts_entry s d = (a, s1)" by fastforce
  note a = acc_entry(1) [OF e] and s1 = acc_entry(2) [OF e]
  define b where "b = (if acc_metadata a = None then a\<lparr> acc_metadata := meta \<rparr> else a)"
  have "acc_traced tr d a" using traced_acc [OF t] a by simp
  then have "acc_traced tr d b" by (simp add: b_def acc_traced_def)
  then have "ts_traced from_str (tr @ []) (ts_store s1 d b)"
    using traced_events [OF t] by (intro traced_store [OF t _ _ _ s1]) auto
  with t show ?thesis by (simp add: ts_set_provider_metadata_def e b_def)
qed

lemma delta_traced:
  assumes t: "ts_traced from_str tr s" and r: "ts_delta s d name frag = (outs, s')"
  shows "ts_traced from_str (tr @ outs) s'"
proof -
  obtain a s1 where e: "ts_entry s d = (a, s1)" by fastforce
  note a = acc_entry(1) [OF e] and s1 = acc_entry(2) [OF e]
  have at: "acc_traced tr d a" using traced_acc [OF t] a by simp
  define b where "b = (case name of Some n \<Rightarrow> if acc_name a = [] then a\<lparr> acc_name := n \<rparr> else a | None \<Rightarrow> a)"
  have b: "acc_started b = acc_started a" "acc_ended b = acc_ended a" "acc_args b = acc_args a"
    by (simp_all add: b_def split: option.splits)
  have out: "outs = (if acc_started b then [] else [ToolInputStart d (acc_name b)]) @ [ToolInputDelta d frag]"
    "s' = ts_store s1 d (b\<lparr> acc_started := True, acc_args := acc_args b @ frag \<rparr>)"
    using r by (auto simp: ts_delta_def e b_def Let_def)
  show ?thesis unfolding out(2)
  proof (rule traced_store [OF t _ _ _ s1])
    show "call_events_ok from_str (tr @ outs)"
      using traced_events [OF t] at b unfolding out(1) append_assoc [symmetric] events_ok_snoc
      by (auto simp: events_ok_snoc call_event_ok_def acc_traced_def list_all_iff list_ex_iff)
    show "list_all (about_call d) outs" by (simp add: out(1))
    show "acc_traced (tr @ outs) d (b\<lparr> acc_started := True, acc_args := acc_args b @ frag \<rparr>)"
    proof (cases "acc_started b")
      case True
      with at b show ?thesis by (auto simp: out(1) acc_traced_def started_first_snoc)
    next
      case False
      have two: "started_first d (tr @ [ToolInputStart d n, ToolInputDelta d frag]) \<longleftrightarrow> started_first d tr" for n
        using started_first_snoc [of d "tr @ [ToolInputStart d n]"] by (simp add: started_first_snoc)
      from False at b show ?thesis by (auto simp: out(1) acc_traced_def two)
    qed
  qed
qed

abbreviation kept_events :: "llm_error + llm_event list \<Rightarrow> llm_event list" where
  "kept_events res \<equiv> (case res of Inr evs \<Rightarrow> evs | Inl _ \<Rightarrow> [])"

lemma end_traced:
  assumes t: "ts_traced from_str tr s" and r: "ts_end from_str s d = (res, s')"
  shows "ts_traced from_str (tr @ kept_events res) s'" and "ts_traced from_str tr s'"
proof -
  have "ts_traced from_str tr (ts_store s d ((ts_acc s d)\<lparr> acc_ended := True \<rparr>))"
    using traced_store [OF t, of "[]" d "(ts_acc s d)\<lparr> acc_ended := True \<rparr>" s]
      traced_events [OF t] traced_acc [OF t, of d]
    by (simp add: acc_traced_def)
  moreover have "s' = s \<or> s' = ts_store s d ((ts_acc s d)\<lparr> acc_ended := True \<rparr>)"
    using r by (auto simp: ts_end_def ts_acc_def Let_def split: option.splits if_splits sum.splits)
  ultimately show err: "ts_traced from_str tr s'" using t by auto
  show "ts_traced from_str (tr @ (case res of Inr evs \<Rightarrow> evs | Inl _ \<Rightarrow> [])) s'"
  proof (cases res)
    case (Inl e)
    then show ?thesis using err by simp
  next
    case (Inr evs)
    show ?thesis
    proof (cases "evs = []")
      case True
      with Inr r have "s' = s"
        by (auto simp: ts_end_def Let_def split: option.splits if_splits sum.splits)
      with True Inr t show ?thesis by simp
    next
      case False
      with r Inr obtain a input where a: "a = ts_acc s d" "\<not> acc_ended a"
        "parse_args from_str (acc_args a) = Inr input" "s' = ts_store s d (a\<lparr> acc_ended := True \<rparr>)"
        "evs = [ToolInputEnd d, ToolCall d (acc_name a) (acc_namespace a) (acc_metadata a) input]"
        by (auto simp: ts_end_def ts_acc_def Let_def split: option.splits if_splits sum.splits)
      have at: "acc_traced tr d a" using traced_acc [OF t] a(1) by simp
      have "call_events_ok from_str ((tr @ [ToolInputEnd d])
          @ [ToolCall d (acc_name a) (acc_namespace a) (acc_metadata a) input])"
        unfolding events_ok_snoc
        using traced_events [OF t] at a(2,3)
        by (auto simp: call_event_ok_def acc_traced_def started_first_snoc)
      moreover have "acc_traced (tr @ evs) d (a\<lparr> acc_ended := True \<rparr>)"
        using at a(5) by (auto simp: acc_traced_def)
      ultimately have "ts_traced from_str (tr @ evs) (ts_store s d (a\<lparr> acc_ended := True \<rparr>))"
        using a(5) by (intro traced_store [OF t]) auto
      with Inr a(4) show ?thesis by simp
    qed
  qed
qed

lemma end_all_traced:
  "ts_traced from_str tr s \<Longrightarrow> ts_end_all from_str s ds = (res, s') \<Longrightarrow>
   ts_traced from_str (tr @ kept_events res) s' \<and> ts_traced from_str tr s'"
proof (induction ds arbitrary: tr s res s')
  case (Cons d ds)
  obtain r1 s1 where 1: "ts_end from_str s d = (r1, s1)" by fastforce
  note e = end_traced [OF Cons.prems(1) 1]
  show ?case
  proof (cases r1)
    case (Inl err)
    with 1 Cons.prems(2) e show ?thesis by auto
  next
    case (Inr evs)
    obtain r2 s2 where 2: "ts_end_all from_str s1 ds = (r2, s2)" by fastforce
    with 1 Inr Cons.prems(2) have "s' = s2" "res = (case r2 of Inl err \<Rightarrow> Inl err | Inr evs2 \<Rightarrow> Inr (evs @ evs2))"
      by (auto split: sum.splits)
    with Cons.IH [OF e(1) 2] Cons.IH [OF e(2) 2] Inr show ?thesis by (cases r2) auto
  qed
qed auto

lemma end_with_traced:
  assumes t: "ts_traced from_str tr s" and r: "ts_end_with_arguments from_str s d args = (res, s')"
  shows "ts_traced from_str (tr @ kept_events res) s'"
proof -
  define add where "add = (case args of
     Some args \<Rightarrow> args \<noteq> [] \<and>
       (case map_of (ts_calls s) d of Some e \<Rightarrow> \<not> acc_ended e \<and> acc_args e = [] | None \<Rightarrow> False)
   | None \<Rightarrow> False)"
  obtain out s1 where 1: "(if add then ts_delta s d None (case args of Some args \<Rightarrow> args | None \<Rightarrow> []) else ([], s)) = (out, s1)"
    by fastforce
  obtain r2 s2 where 2: "ts_end from_str s1 d = (r2, s2)" by fastforce
  have t1: "ts_traced from_str (tr @ out) s1"
    using 1 t delta_traced [OF t] by (auto split: if_splits)
  have res: "s' = s2" "res = (case r2 of Inl err \<Rightarrow> Inl err | Inr evs \<Rightarrow> Inr (out @ evs))"
    using r 1 2 by (auto simp: ts_end_with_arguments_def add_def [symmetric] split: sum.splits)
  show ?thesis
  proof (cases r2)
    case (Inr evs)
    with end_traced(1) [OF t1 2] res show ?thesis by simp
  next
    case (Inl err)
    have s2: "s2 = ts_store s1 d ((ts_acc s1 d)\<lparr> acc_ended := True \<rparr>)"
      using 2 Inl by (auto simp: ts_end_def ts_acc_def Let_def split: option.splits if_splits sum.splits)
    show ?thesis
    proof (cases add)
      case True
      with 1 have dl: "ts_delta s d None (case args of Some args \<Rightarrow> args | None \<Rightarrow> []) = (out, s1)" by simp
      then have "acc_started (ts_acc s1 d)" "\<And>d'. d' \<noteq> d \<Longrightarrow> ts_acc s1 d' = ts_acc s d'"
        using acc_entry by (auto simp: ts_delta_def Let_def split: prod.splits)
      then have "acc_traced tr d' (ts_acc s2 d')" for d'
        using traced_acc [OF t, of d'] by (cases "d' = d") (auto simp: s2 acc_traced_def)
      with t Inl res show ?thesis by (simp add: ts_traced_def)
    next
      case False
      with 1 t end_traced(2) [OF _ 2] Inl res show ?thesis by simp
    qed
  qed
qed

lemma ts_step_traced:
  assumes t: "ts_traced from_str tr s" and r: "ts_step from_str s e = (outs, s')"
  shows "ts_traced from_str (tr @ outs) s'"
proof (cases e)
  case (TsStart d name ns)
  with r start_traced [OF t] show ?thesis by simp
next
  case (TsMetadata d meta)
  with r metadata_traced [OF t, of d meta] show ?thesis by auto
next
  case (TsDelta d name frag)
  with r delta_traced [OF t] show ?thesis by simp
next
  case (TsEnd d)
  obtain res s1 where "ts_end from_str s d = (res, s1)" by fastforce
  with end_traced(1) [OF t this] r TsEnd show ?thesis by (auto simp: delivered_def)
next
  case (TsEndWith d args)
  obtain res s1 where "ts_end_with_arguments from_str s d args = (res, s1)" by fastforce
  with end_with_traced [OF t this] r TsEndWith show ?thesis by (auto simp: delivered_def)
next
  case TsFlush
  obtain res s1 where f: "ts_flush from_str s = (res, s1)" by fastforce
  with end_all_traced [OF t f [unfolded ts_flush_def]] r TsFlush show ?thesis by (auto simp: delivered_def)
qed

interpretation tool_calls: emitting_machine "ts_step from_str" "ts_traced from_str" for from_str
  by unfold_locales (rule ts_step_traced)

text \<open>C6. Streamed tool calls are put together faithfully, in every interleaving of calls and
  with every order of provider operations: in the events the accumulator delivers, a call is
  started at most once; a tool call follows its input-end event immediately, is emitted at most
  once per id, comes after the start of that id if any argument was streamed, and its input is
  exactly what the JSON parser makes of all the fragments delivered for that id, in order.\<close>

theorem tool_calls_faithful:
  assumes "run_emit (ts_step from_str) tool_stream_new ops = (outs, s)"
  shows "call_events_ok from_str outs"
proof -
  have "ts_traced from_str [] tool_stream_new"
    by (simp add: ts_traced_def call_events_ok_def acc_traced_def ts_acc_def tool_stream_new_def
        accum_default_def started_first_def)
  from tool_calls.run_traced [OF this assms] show ?thesis by (simp add: ts_traced_def)
qed

theorem tool_calls_faithful_witness:
  "\<exists>outs s. run_emit (ts_step (\<lambda>t. Inr (JStr t))) tool_stream_new
      [TsDelta ''a'' (Some ''read'') ''x'', TsDelta ''b'' (Some ''grep'') ''q'', TsDelta ''a'' None ''y'', TsFlush] = (outs, s)
    \<and> ToolCall ''a'' ''read'' None None (JStr ''xy'') \<in> set outs \<and> call_events_ok (\<lambda>t. Inr (JStr t)) outs"
proof -
  let ?ops = "[TsDelta ''a'' (Some ''read'') ''x'', TsDelta ''b'' (Some ''grep'') ''q'', TsDelta ''a'' None ''y'', TsFlush]"
  obtain outs s where r: "run_emit (ts_step (\<lambda>t. Inr (JStr t))) tool_stream_new ?ops = (outs, s)" by fastforce
  have "ToolCall ''a'' ''read'' None None (JStr ''xy'') \<in> set (fst (run_emit (ts_step (\<lambda>t. Inr (JStr t))) tool_stream_new ?ops))"
    by code_simp
  with tool_calls_faithful [OF r] r show ?thesis by auto
qed

end
