(* ===== verification/Client.thy ===== *)
theory Client
  imports Streams
begin

unbundle bit_operations_syntax

text \<open>
  The model client (\<open>browser-use-llm/src/route/client.rs\<close>, with \<open>route/endpoint.rs\<close> and
  \<open>route/auth.rs\<close>): the request that is sent, the retry policy and the loop that follows it,
  rate-limit headers, the removal of credentials from error texts and headers, the pump that
  turns the bytes of a response into events, and the aggregation of the events into one response.

  Durations are nanoseconds, \<open>u64\<close> and \<open>u32\<close> values of the policy are \<^typ>\<open>nat\<close> with
  saturation written out, the jitter is computed on \<open>64 word\<close>. The HTTP library is a parameter:
  what each attempt and each read of the body yields, and after how long. The protocol decoder is
  a pair of functions, one of the protocols of the crate.
\<close>

section \<open>Request\<close>

record endpoint =
  base_url :: string
  ep_path :: string
  ep_query :: "(string \<times> string) list"

definition endpoint_url :: "endpoint \<Rightarrow> string" where
  "endpoint_url e =
     (let base = trim_end_matches (CHR ''/'') (base_url e);
          path = dropWhile (\<lambda>c. c = CHR ''/'') (ep_path e);
          url = (if path = [] then base else base @ ''/'' @ path)
      in if ep_query e = [] then url
         else url @ ''?'' @ join_with ''&'' (map (\<lambda>(k, v). k @ ''='' @ v) (ep_query e)))"

datatype auth = AuthNone | AuthBearer string | AuthHeader string string | AuthChain "auth list"

fun auth_and_then :: "auth \<Rightarrow> auth \<Rightarrow> auth" where
  "auth_and_then (AuthChain v) other = AuthChain (v @ [other])"
| "auth_and_then first other = AuthChain [first, other]"

fun auth_headers :: "auth \<Rightarrow> (string \<times> string) list" where
  "auth_headers AuthNone = []"
| "auth_headers (AuthBearer token) = [(''authorization'', ''Bearer '' @ token)]"
| "auth_headers (AuthHeader name v) = [(name, v)]"
| "auth_headers (AuthChain steps) = concat (map auth_headers steps)"

definition prepare :: "('r \<Rightarrow> llm_error + json) \<Rightarrow> auth \<Rightarrow> 'r \<Rightarrow> llm_error + (json \<times> (string \<times> string) list)" where
  "prepare build_body au req =
     (case build_body req of
        Inl e \<Rightarrow> Inl e
      | Inr body \<Rightarrow> Inr (body, auth_headers au @ [(''content-type'', ''application/json'')]))"

lemma auth_chain: "auth_headers (auth_and_then a b) = auth_headers a @ auth_headers b"
  by (cases a) simp_all

section \<open>Errors, redaction\<close>

definition client_is_retryable :: "llm_error \<Rightarrow> bool" where
  "client_is_retryable err \<longleftrightarrow> err_retryable err
     \<or> (case err_reason err of RateLimit \<Rightarrow> True | Transport \<Rightarrow> True | ProviderInternal \<Rightarrow> True | _ \<Rightarrow> False)"

definition error_for_status :: "nat \<Rightarrow> string \<Rightarrow> llm_error" where
  "error_for_status status body =
     (let snippet = str_trim body;
          msg = (if snippet = [] then ''HTTP '' @ show_nat status
                 else ''HTTP '' @ show_nat status @ '': '' @ snippet);
          err = (if status = 401 \<or> status = 403 then llm_error_new Authentication msg
                 else if status = 429 then llm_error_new RateLimit msg
                 else if 500 \<le> status \<and> status \<le> 599 then llm_error_new ProviderInternal msg
                 else llm_error_new InvalidRequest msg)
      in err\<lparr> err_status := Some (of_nat status) \<rparr>)"

text \<open>\<open>str::parse::<u64>\<close>: an optional plus sign, then decimal digits that fit.\<close>

definition u64_max :: nat where "u64_max = 18446744073709551615"

definition digits_value :: "string \<Rightarrow> nat" where
  "digits_value ds = foldl (\<lambda>n c. 10 * n + (code_point c - 48)) 0 ds"

definition parse_u64 :: "string \<Rightarrow> nat option" where
  "parse_u64 s =
     (let ds = (case s of [] \<Rightarrow> [] | c # r \<Rightarrow> if c = CHR ''+'' then r else s) in
      if ds = [] \<or> \<not> list_all is_digit_ascii ds then None
      else if digits_value ds \<le> u64_max then Some (digits_value ds) else None)"

record rate_limit_info =
  limit_requests :: "nat option"
  remaining_requests :: "nat option"
  limit_tokens :: "nat option"
  remaining_tokens :: "nat option"
  reset_requests :: "string option"
  reset_tokens :: "string option"
  retry_after_ms :: "nat option"

definition rate_limit_from_headers :: "(string \<rightharpoonup> string) \<Rightarrow> rate_limit_info" where
  "rate_limit_from_headers headers =
     (let num = (\<lambda>k. Option.bind (headers k) (\<lambda>v. parse_u64 (str_trim v))) in
      \<lparr> limit_requests = or_else (num ''x-ratelimit-limit-requests'') (num ''anthropic-ratelimit-requests-limit''),
        remaining_requests = or_else (num ''x-ratelimit-remaining-requests'') (num ''anthropic-ratelimit-requests-remaining''),
        limit_tokens = or_else (num ''x-ratelimit-limit-tokens'') (num ''anthropic-ratelimit-tokens-limit''),
        remaining_tokens = or_else (num ''x-ratelimit-remaining-tokens'') (num ''anthropic-ratelimit-tokens-remaining''),
        reset_requests = or_else (headers ''x-ratelimit-reset-requests'') (headers ''anthropic-ratelimit-requests-reset''),
        reset_tokens = or_else (headers ''x-ratelimit-reset-tokens'') (headers ''anthropic-ratelimit-tokens-reset''),
        retry_after_ms = or_else (num ''retry-after-ms'')
          (map_option (\<lambda>secs. min (secs * 1000) u64_max) (num ''retry-after'')) \<rparr>)"

text \<open>Collecting into the map keeps the last value of a repeated header; a value that is not
  visible ASCII (\<open>to_str\<close> fails, \<open>None\<close>) counts as empty.\<close>

definition header_map :: "(string \<times> string option) list \<Rightarrow> string \<rightharpoonup> string" where
  "header_map hs = foldl (\<lambda>m (k, v). m(str_lower k \<mapsto> unwrap_or [] v)) Map.empty hs"

definition secret_headers :: "string list" where
  "secret_headers = [''authorization'', ''x-api-key'', ''x-goog-api-key'']"

definition redact_headers :: "(string \<times> string) list \<Rightarrow> (string \<times> string) list" where
  "redact_headers headers =
     map (\<lambda>(k, v). if str_lower k \<in> set secret_headers then (k, ''<redacted>'') else (k, v)) headers"

text \<open>The search goes on after each replacement, so a pass is a recursion on what is left.\<close>

lemma strip_pre_length: "strip_pre p s = Some r \<Longrightarrow> length s = length p + length r"
  by (induction p s rule: strip_pre.induct) (auto split: if_splits)

lemma split_once_length: "split_once p s = Some (a, b) \<Longrightarrow> length s = length a + length p + length b"
proof (induction p s arbitrary: a rule: split_once.induct)
  case (2 p c s)
  then show ?case by (auto split: option.splits dest: strip_pre_length)
qed (auto split: if_splits)

function scrub_pass :: "string \<Rightarrow> string \<Rightarrow> string" where
  "scrub_pass marker s =
     (if marker = [] then s
      else case split_once marker s of
        None \<Rightarrow> s
      | Some (before, rest) \<Rightarrow>
          before @ ''Bearer <redacted>'' @ scrub_pass marker (dropWhile (\<lambda>c. \<not> is_ws c) rest))"
  by pat_completeness auto
termination
proof (relation "measure (\<lambda>(m, s). length s)")
  fix marker s :: string and p before rest
  assume "marker \<noteq> []" "split_once marker s = Some p" "(before, rest) = p"
  then have "length rest < length s" using split_once_length [of marker s before rest] by auto
  moreover have "length (dropWhile (\<lambda>c. \<not> is_ws c) rest) \<le> length rest" by (rule length_dropWhile_le)
  ultimately show "((marker, dropWhile (\<lambda>c. \<not> is_ws c) rest), marker, s) \<in> measure (\<lambda>(m, s). length s)"
    by simp
qed simp

declare scrub_pass.simps [simp del]

definition scrub :: "string \<Rightarrow> string" where
  "scrub msg = scrub_pass ''bearer '' (scrub_pass ''Bearer '' msg)"

section \<open>Retries\<close>

record retry_policy =
  max_attempts :: nat
  base_delay :: nat
  max_delay :: nat
  jitter_seed :: "64 word option"

definition retry_policy_default :: retry_policy where
  "retry_policy_default = \<lparr> max_attempts = 5, base_delay = 500 * 1000000, max_delay = 60 * 1000000000,
                            jitter_seed = None \<rparr>"

definition deterministic_jitter :: "64 word \<Rightarrow> nat \<Rightarrow> nat \<Rightarrow> nat" where
  "deterministic_jitter seed attempt base_ms =
     (if base_ms = 0 then 0
      else let z = seed + of_nat attempt * 0x9E3779B97F4A7C15 + 0x9E3779B97F4A7C15;
               z = (z XOR drop_bit 30 z) * 0xBF58476D1CE4E5B9;
               z = (z XOR drop_bit 27 z) * 0x94D049BB133111EB;
               z = z XOR drop_bit 31 z
           in unat z mod base_ms)"

definition backoff :: "retry_policy \<Rightarrow> nat \<Rightarrow> nat option \<Rightarrow> nat" where
  "backoff p attempt server_hint =
     (case server_hint of
        Some hint \<Rightarrow> min hint (max_delay p)
      | None \<Rightarrow>
          (let base_ms = (base_delay p div 1000000) mod 2 ^ 64;
               factor = (if attempt < 64 then 2 ^ attempt else u64_max);
               ms = min (base_ms * factor) u64_max;
               ms = (case jitter_seed p of
                       Some seed \<Rightarrow> min (ms + deterministic_jitter seed attempt base_ms) u64_max
                     | None \<Rightarrow> ms)
           in min (ms * 1000000) (max_delay p)))"

datatype outcome = OutSuccess | OutFail llm_error "nat option"

datatype plan_outcome = PlanSuccess | PlanFailed llm_error

record retry_plan =
  plan_attempts :: nat
  plan_delays :: "nat list"
  plan_outcome :: plan_outcome

definition millis_hint :: "nat option \<Rightarrow> nat option" where
  "millis_hint ms = map_option (\<lambda>m. m * 1000000) ms"

function plan_from :: "retry_policy \<Rightarrow> outcome list \<Rightarrow> nat \<Rightarrow> nat list \<Rightarrow> retry_plan" where
  "plan_from p outcomes attempt delays =
     (let mx = max (max_attempts p) 1 in
      if attempt < mx then
        (case (if attempt < length outcomes then outcomes ! attempt else OutSuccess) of
           OutSuccess \<Rightarrow> \<lparr> plan_attempts = attempt + 1, plan_delays = delays, plan_outcome = PlanSuccess \<rparr>
         | OutFail err after_ms \<Rightarrow>
             if \<not> client_is_retryable err \<or> attempt + 1 \<ge> mx
             then \<lparr> plan_attempts = attempt + 1, plan_delays = delays, plan_outcome = PlanFailed err \<rparr>
             else plan_from p outcomes (attempt + 1) (delays @ [backoff p attempt (millis_hint after_ms)]))
      else \<lparr> plan_attempts = mx, plan_delays = delays,
             plan_outcome = PlanFailed (llm_error_new Transport ''retry budget exhausted'') \<rparr>)"
  by pat_completeness auto
termination
  by (relation "measure (\<lambda>(p, outcomes, attempt, delays). max (max_attempts p) 1 - attempt)") (auto simp: Let_def)

declare plan_from.simps [simp del]

definition plan :: "retry_policy \<Rightarrow> outcome list \<Rightarrow> retry_plan" where
  "plan p outcomes = plan_from p outcomes 0 []"

text \<open>One attempt over HTTP: a transport failure or a response with its status, headers, text.\<close>

record 'b http_response =
  resp_status :: nat
  resp_headers :: "(string \<times> string option) list"
  resp_text :: "string option"
  resp_body :: 'b

definition send_once :: "string + 'b http_response \<Rightarrow> (llm_error \<times> nat option) + 'b http_response" where
  "send_once sent =
     (case sent of
        Inl e \<Rightarrow> Inl (llm_error_new Transport (scrub e), None)
      | Inr resp \<Rightarrow>
          if 200 \<le> resp_status resp \<and> resp_status resp \<le> 299 then Inr resp
          else (let info = rate_limit_from_headers (header_map (resp_headers resp));
                    txt = unwrap_or [] (resp_text resp)
                in Inl (error_for_status (resp_status resp) (scrub txt), retry_after_ms info)))"

definition model_request_timeout_error :: "nat \<Rightarrow> llm_error" where
  "model_request_timeout_error timeout =
     llm_error_new Transport (''model request timeout after '' @ show_nat (timeout div 1000000) @ ''ms'')"

text \<open>The attempts come with the time each takes; one that takes the whole timeout has elapsed.\<close>

definition attempt_result ::
  "nat option \<Rightarrow> nat \<times> (string + 'b http_response) \<Rightarrow> (llm_error \<times> nat option) + 'b http_response" where
  "attempt_result timeout a =
     (case timeout of
        Some t \<Rightarrow> if fst a < t then send_once (snd a) else Inl (model_request_timeout_error t, None)
      | None \<Rightarrow> send_once (snd a))"

text \<open>The loop also returns the delays it slept.\<close>

function send_from ::
  "retry_policy \<Rightarrow> nat option \<Rightarrow> (nat \<Rightarrow> nat \<times> (string + 'b http_response)) \<Rightarrow> nat \<Rightarrow> llm_error option
   \<Rightarrow> (llm_error + 'b http_response) \<times> nat list" where
  "send_from p timeout http attempt last_err =
     (let mx = max (max_attempts p) 1 in
      if attempt < mx then
        (case attempt_result timeout (http attempt) of
           Inr resp \<Rightarrow> (Inr resp, [])
         | Inl (err, after_ms) \<Rightarrow>
             if \<not> client_is_retryable err \<or> attempt + 1 \<ge> mx then (Inl err, [])
             else (let delay = backoff p attempt (millis_hint after_ms);
                       (r, ds) = send_from p timeout http (attempt + 1) (Some err)
                   in (r, delay # ds)))
      else (Inl (unwrap_or (llm_error_new Transport ''retry budget exhausted'') last_err), []))"
  by pat_completeness auto
termination
  by (relation "measure (\<lambda>(p, timeout, http, attempt, last_err). max (max_attempts p) 1 - attempt)")
     (auto simp: Let_def)

declare send_from.simps [simp del]

definition send_with_retry ::
  "retry_policy \<Rightarrow> nat option \<Rightarrow> (nat \<Rightarrow> nat \<times> (string + 'b http_response))
   \<Rightarrow> (llm_error + 'b http_response) \<times> nat list" where
  "send_with_retry p timeout http = send_from p timeout http 0 None"

section \<open>Decoding a response\<close>

text \<open>A protocol decoder: \<open>on_frame\<close> and \<open>finish\<close>, each with the state after it.\<close>

type_synonym 'd on_frame = "'d \<Rightarrow> sse_frame \<Rightarrow> (llm_error + llm_event list) \<times> 'd"
type_synonym 'd on_finish = "'d \<Rightarrow> (llm_error + llm_event list) \<times> 'd"

fun on_frames :: "('d \<Rightarrow> 'f \<Rightarrow> (llm_error + llm_event list) \<times> 'd) \<Rightarrow> 'd \<Rightarrow> 'f list
    \<Rightarrow> (llm_error + llm_event list) \<times> 'd" where
  "on_frames on_frame d [] = (Inr [], d)"
| "on_frames on_frame d (f # fs) =
     (case on_frame d f of
        (Inl e, d1) \<Rightarrow> (Inl e, d1)
      | (Inr evs, d1) \<Rightarrow>
          (case on_frames on_frame d1 fs of
             (Inl e, d2) \<Rightarrow> (Inl e, d2)
           | (Inr evs2, d2) \<Rightarrow> (Inr (evs @ evs2), d2)))"

fun decode_from :: "'d on_frame \<Rightarrow> 'd on_finish \<Rightarrow> sse_decoder \<Rightarrow> 'd \<Rightarrow> 8 word list list \<Rightarrow> llm_error + llm_event list" where
  "decode_from on_frame finish sse d [] = fst (finish d)"
| "decode_from on_frame finish sse d (c # cs) =
     (let (frames, sse1) = sse_push sse c in
      case on_frames on_frame d frames of
        (Inl e, d1) \<Rightarrow> Inl e
      | (Inr evs, d1) \<Rightarrow> map_sum id (\<lambda>evs2. evs @ evs2) (decode_from on_frame finish sse1 d1 cs))"

definition decode_chunks :: "'d on_frame \<Rightarrow> 'd on_finish \<Rightarrow> 'd \<Rightarrow> 8 word list list \<Rightarrow> llm_error + llm_event list" where
  "decode_chunks on_frame finish decoder chunks = decode_from on_frame finish sse_new decoder chunks"

text \<open>The pump of \<open>ModelClient::stream\<close>. A read of the body takes the given time, the last one
  (that finds the end) takes \<open>byte_end\<close>.\<close>

datatype stream_phase = Streaming | Flushing | PumpDone

record 'd stream_state =
  byte_stream :: "(nat \<times> (string + 8 word list)) list"
  byte_end :: nat
  st_sse :: sse_decoder
  protocol_stream :: 'd
  ready :: "(llm_error + llm_event) list"
  st_phase :: stream_phase
  idle_timeout :: "nat option"

fun decode_frames :: "'d on_frame \<Rightarrow> 'd stream_state \<Rightarrow> sse_frame list \<Rightarrow> 'd stream_state" where
  "decode_frames on_frame st [] = st"
| "decode_frames on_frame st (f # fs) =
     (case on_frame (protocol_stream st) f of
        (Inr events, d) \<Rightarrow>
          decode_frames on_frame (st\<lparr> protocol_stream := d, ready := ready st @ map Inr events \<rparr>) fs
      | (Inl e, d) \<Rightarrow> st\<lparr> protocol_stream := d, ready := ready st @ [Inl e], st_phase := PumpDone \<rparr>)"

definition stream_idle_timeout_error :: "nat \<Rightarrow> llm_error" where
  "stream_idle_timeout_error timeout =
     llm_error_new Transport (''model stream idle timeout after '' @ show_nat (timeout div 1000000) @ ''ms'')"

definition next_byte_chunk :: "'d stream_state \<Rightarrow> (llm_error + 8 word list) option \<times> 'd stream_state" where
  "next_byte_chunk st =
     (let gap = (case byte_stream st of [] \<Rightarrow> byte_end st | (g, _) # _ \<Rightarrow> g) in
      case idle_timeout st of
        Some t \<Rightarrow>
          if t \<le> gap then (Some (Inl (stream_idle_timeout_error t)), st)
          else (case byte_stream st of
                  [] \<Rightarrow> (None, st)
                | (_, c) # rest \<Rightarrow> (Some (map_sum (\<lambda>e. llm_error_new Transport (scrub e)) id c), st\<lparr> byte_stream := rest \<rparr>))
      | None \<Rightarrow>
          (case byte_stream st of
             [] \<Rightarrow> (None, st)
           | (_, c) # rest \<Rightarrow> (Some (map_sum (\<lambda>e. llm_error_new Transport (scrub e)) id c), st\<lparr> byte_stream := rest \<rparr>)))"

definition pump_rank :: "'d stream_state \<Rightarrow> nat" where
  "pump_rank st = (case st_phase st of Streaming \<Rightarrow> 2 + length (byte_stream st) | Flushing \<Rightarrow> 1 | PumpDone \<Rightarrow> 0)"

lemma pump_rank_simps [simp]:
  "pump_rank (st\<lparr> protocol_stream := d \<rparr>) = pump_rank st"
  "pump_rank (st\<lparr> ready := r \<rparr>) = pump_rank st"
  "pump_rank (st\<lparr> st_sse := e \<rparr>) = pump_rank st"
  "pump_rank (st\<lparr> st_phase := PumpDone \<rparr>) = 0"
  "pump_rank (st\<lparr> st_phase := Flushing \<rparr>) = 1"
  by (simp_all add: pump_rank_def cong: stream_phase.case_cong)

lemma decode_frames_rank: "pump_rank (decode_frames on_frame st fs) \<le> pump_rank st"
proof (induction fs arbitrary: st)
  case (Cons f fs)
  obtain r d where "on_frame (protocol_stream st) f = (r, d)" by fastforce
  then show ?case
    using Cons [of "st\<lparr> protocol_stream := d, ready := ready st @ map Inr (projr r) \<rparr>"]
    by (cases r) simp_all
qed simp

lemma next_byte_chunk_state:
  "next_byte_chunk st = (Some (Inr c), st') \<Longrightarrow>
     \<exists>x rest. byte_stream st = x # rest \<and> st' = st\<lparr> byte_stream := rest \<rparr>"
  "next_byte_chunk st = (None, st') \<Longrightarrow> st' = st"
  by (auto simp: next_byte_chunk_def Let_def split: option.splits list.splits if_splits prod.splits)

lemma chunk_rank:
  "st_phase st = Streaming \<Longrightarrow> next_byte_chunk st = (Some (Inr c), st1) \<Longrightarrow>
     pump_rank (decode_frames on_frame (st1\<lparr> st_sse := e \<rparr>) fs) < pump_rank st"
  "st_phase st = Streaming \<Longrightarrow> Suc 0 < pump_rank st"
  "st_phase st = Flushing \<Longrightarrow> 0 < pump_rank st"
proof -
  assume p: "st_phase st = Streaming" and n: "next_byte_chunk st = (Some (Inr c), st1)"
  obtain x rest where "byte_stream st = x # rest" "st1 = st\<lparr> byte_stream := rest \<rparr>"
    using next_byte_chunk_state(1) [OF n] by blast
  with p have "pump_rank (st1\<lparr> st_sse := e \<rparr>) < pump_rank st" by (simp add: pump_rank_def)
  with decode_frames_rank show "pump_rank (decode_frames on_frame (st1\<lparr> st_sse := e \<rparr>) fs) < pump_rank st"
    by (rule le_less_trans)
qed (simp_all add: pump_rank_def)

function pump_next :: "'d on_frame \<Rightarrow> 'd on_finish \<Rightarrow> 'd stream_state
    \<Rightarrow> ((llm_error + llm_event) \<times> 'd stream_state) option" where
  "pump_next on_frame finish st =
     (case ready st of
        ev # rest \<Rightarrow> Some (ev, st\<lparr> ready := rest \<rparr>)
      | [] \<Rightarrow>
          (case st_phase st of
             Streaming \<Rightarrow>
               (case next_byte_chunk st of
                  (Some (Inr chunk), st1) \<Rightarrow>
                    (let (frames, sse1) = sse_push (st_sse st1) chunk in
                     pump_next on_frame finish (decode_frames on_frame (st1\<lparr> st_sse := sse1 \<rparr>) frames))
                | (Some (Inl e), st1) \<Rightarrow> Some (Inl e, st1\<lparr> st_phase := PumpDone \<rparr>)
                | (None, st1) \<Rightarrow> pump_next on_frame finish (st1\<lparr> st_phase := Flushing \<rparr>))
           | Flushing \<Rightarrow>
               (case finish (protocol_stream st) of
                  (Inr events, d) \<Rightarrow>
                    pump_next on_frame finish
                      (st\<lparr> st_phase := PumpDone, protocol_stream := d, ready := map Inr events \<rparr>)
                | (Inl e, d) \<Rightarrow> Some (Inl e, st\<lparr> st_phase := PumpDone, protocol_stream := d \<rparr>))
           | PumpDone \<Rightarrow> None))"
  by pat_completeness auto
termination
  by (relation "measure (\<lambda>(on_frame, finish, st). pump_rank st)")
     (auto simp: chunk_rank dest: sym)

declare pump_next.simps [simp del]

lemma pump_steps:
  "ready st = ev # rest \<Longrightarrow> pump_next on_frame finish st = Some (ev, st\<lparr> ready := rest \<rparr>)"
  "ready st = [] \<Longrightarrow> st_phase st = Streaming \<Longrightarrow> next_byte_chunk st = (Some (Inl e), st1) \<Longrightarrow>
     pump_next on_frame finish st = Some (Inl e, st1\<lparr> st_phase := PumpDone \<rparr>)"
  "ready st = [] \<Longrightarrow> st_phase st = Streaming \<Longrightarrow> next_byte_chunk st = (None, st1) \<Longrightarrow>
     pump_next on_frame finish st = pump_next on_frame finish (st1\<lparr> st_phase := Flushing \<rparr>)"
  "ready st = [] \<Longrightarrow> st_phase st = Streaming \<Longrightarrow> next_byte_chunk st = (Some (Inr chunk), st1) \<Longrightarrow>
     sse_push (st_sse st1) chunk = (frames, sse1) \<Longrightarrow>
     pump_next on_frame finish st = pump_next on_frame finish (decode_frames on_frame (st1\<lparr> st_sse := sse1 \<rparr>) frames)"
  "ready st = [] \<Longrightarrow> st_phase st = Flushing \<Longrightarrow> finish (protocol_stream st) = (Inl e, d) \<Longrightarrow>
     pump_next on_frame finish st = Some (Inl e, st\<lparr> st_phase := PumpDone, protocol_stream := d \<rparr>)"
  "ready st = [] \<Longrightarrow> st_phase st = Flushing \<Longrightarrow> finish (protocol_stream st) = (Inr evs, d) \<Longrightarrow>
     pump_next on_frame finish st =
       pump_next on_frame finish (st\<lparr> st_phase := PumpDone, protocol_stream := d, ready := map Inr evs \<rparr>)"
  "ready st = [] \<Longrightarrow> st_phase st = PumpDone \<Longrightarrow> pump_next on_frame finish st = None"
  by (subst pump_next.simps; simp)+

lemma next_cases:
  obtains (failed) e where "next_byte_chunk st = (Some (Inl e), snd (next_byte_chunk st))"
  | (ended) "next_byte_chunk st = (None, st)"
  | (chunk) c st1 frames sse1 where "next_byte_chunk st = (Some (Inr c), st1)" "sse_push (st_sse st1) c = (frames, sse1)"
proof (cases "next_byte_chunk st")
  case (Pair r st1)
  then show thesis
  proof (cases r)
    case None
    with Pair next_byte_chunk_state(2) [of st st1] show thesis by (auto intro: ended)
  next
    case (Some x)
    show thesis
    proof (cases x)
      case (Inr c)
      obtain frames sse1 where "sse_push (st_sse st1) c = (frames, sse1)" by fastforce
      with Pair Some Inr show thesis by (auto intro: chunk)
    qed (use Pair Some in \<open>auto intro: failed\<close>)
  qed
qed

text \<open>What happens between two items: a state whose queue is empty either gives the next item
  itself or moves on to a smaller state that gives the same items.\<close>

lemma pump_next_smaller:
  "pump_next on_frame finish st = Some (x, st') \<Longrightarrow>
     pump_rank st' < pump_rank st \<or> pump_rank st' = pump_rank st \<and> length (ready st') < length (ready st)"
proof (induction "pump_rank st" arbitrary: st rule: less_induct)
  case less
  show ?case
  proof (cases "ready st")
    case Nil
    show ?thesis
    proof (cases "st_phase st")
      case Streaming
      show ?thesis
      proof (cases st rule: next_cases)
        case (failed e)
        with less.prems pump_steps(2) [OF Nil Streaming failed, of on_frame finish] chunk_rank(2) [OF Streaming]
        show ?thesis by auto
      next
        case ended
        with less chunk_rank(2) [OF Streaming] pump_steps(3) [OF Nil Streaming ended, of on_frame finish] show ?thesis
          by (metis One_nat_def less_trans pump_rank_simps(5))
      next
        case (chunk c st1 frames sse1)
        with less chunk_rank(1) [OF Streaming chunk(1), of on_frame sse1 frames]
          pump_steps(4) [OF Nil Streaming chunk, of on_frame finish] show ?thesis
          by (metis less_trans)
      qed
    next
      case Flushing
      obtain r d where f: "finish (protocol_stream st) = (r, d)" by fastforce
      show ?thesis
      proof (cases r)
        case (Inl e)
        with less.prems pump_steps(5) [of st finish e d on_frame] Nil Flushing f chunk_rank(3) [OF Flushing]
        show ?thesis by auto
      next
        case (Inr evs)
        let ?t = "st\<lparr> st_phase := PumpDone, protocol_stream := d, ready := map Inr evs \<rparr>"
        have "pump_rank ?t < pump_rank st" using chunk_rank(3) [OF Flushing] by simp
        with less.hyps [of ?t] less.prems pump_steps(6) [of st finish evs d on_frame] Nil Flushing f Inr
        show ?thesis by fastforce
      qed
    next
      case PumpDone
      with less.prems pump_steps(7) [OF Nil] show ?thesis by simp
    qed
  next
    case (Cons ev rest)
    with less.prems pump_steps(1) [OF Cons, of on_frame finish] show ?thesis by auto
  qed
qed

function stream_items :: "'d on_frame \<Rightarrow> 'd on_finish \<Rightarrow> 'd stream_state \<Rightarrow> (llm_error + llm_event) list" where
  "stream_items on_frame finish st =
     (case pump_next on_frame finish st of
        None \<Rightarrow> []
      | Some (item, st1) \<Rightarrow> item # stream_items on_frame finish st1)"
  by pat_completeness auto
termination
  by (relation "measures [\<lambda>(on_frame, finish, st). pump_rank st, \<lambda>(on_frame, finish, st). length (ready st)]")
     (auto dest: pump_next_smaller)

declare stream_items.simps [simp del]

text \<open>\<open>generate\<close> drains the stream and stops at the first error.\<close>

fun collect_items :: "(llm_error + llm_event) list \<Rightarrow> llm_error + llm_event list" where
  "collect_items [] = Inr []"
| "collect_items (Inl e # items) = Inl e"
| "collect_items (Inr ev # items) = map_sum id (\<lambda>evs. ev # evs) (collect_items items)"

definition stream_open :: "'d \<Rightarrow> nat option \<Rightarrow> (nat \<times> (string + 8 word list)) list \<Rightarrow> nat \<Rightarrow> 'd stream_state" where
  "stream_open decoder timeout body end_gap =
     \<lparr> byte_stream = body, byte_end = end_gap, st_sse = sse_new, protocol_stream = decoder,
       ready = [], st_phase = Streaming, idle_timeout = timeout \<rparr>"

record llm_response =
  rsp_content :: "content_part list"
  rsp_usage :: usage
  rsp_finish_reason :: "finish_reason option"

definition flush_text_buffer :: "string \<times> content_part list \<Rightarrow> string \<times> content_part list" where
  "flush_text_buffer t = (case t of (text, parts) \<Rightarrow> if text \<noteq> [] then ([], parts @ [part_text text]) else (text, parts))"

definition push_text_part :: "string \<times> content_part list \<Rightarrow> string \<Rightarrow> json option \<Rightarrow> string \<times> content_part list" where
  "push_text_part t delta meta =
     (case meta of
        Some md \<Rightarrow> (let (text, parts) = flush_text_buffer t in (text, parts @ [PText delta (Some md)]))
      | None \<Rightarrow> (fst t @ delta, snd t))"

definition namespaced_metadata :: "string option \<Rightarrow> json option \<Rightarrow> json option" where
  "namespaced_metadata namespace meta =
     (case namespace of
        Some ns \<Rightarrow>
          (case meta of
             Some (JObj kvs) \<Rightarrow> Some (json_insert ''namespace'' (JStr ns) (JObj kvs))
           | Some m \<Rightarrow> Some (JObj [(''namespace'', JStr ns), (''provider'', m)])
           | None \<Rightarrow> Some (JObj [(''namespace'', JStr ns)]))
      | None \<Rightarrow> meta)"

record aggregation =
  ag_text :: "string \<times> content_part list"
  ag_reasoning :: string
  ag_calls :: "content_part list"
  ag_usage :: usage
  ag_reason :: "finish_reason option"

definition take_finish :: "aggregation \<Rightarrow> usage \<Rightarrow> finish_reason option \<Rightarrow> aggregation" where
  "take_finish a u r =
     a\<lparr> ag_usage := (if u \<noteq> usage_default then u else ag_usage a),
        ag_reason := (if r \<noteq> None then r else ag_reason a) \<rparr>"

fun aggregate_step :: "aggregation \<Rightarrow> llm_event \<Rightarrow> aggregation" where
  "aggregate_step a (TextDelta _ delta meta) = a\<lparr> ag_text := push_text_part (ag_text a) delta meta \<rparr>"
| "aggregate_step a (ReasoningDelta _ delta) = a\<lparr> ag_reasoning := ag_reasoning a @ delta \<rparr>"
| "aggregate_step a (ToolCall d name namespace meta input) =
     a\<lparr> ag_calls := ag_calls a @ [PToolCall d name input (namespaced_metadata namespace meta)] \<rparr>"
| "aggregate_step a (Finish u r) = take_finish a u r"
| "aggregate_step a (StepFinish u r) = take_finish a u r"
| "aggregate_step a _ = a"

definition aggregate :: "llm_event list \<Rightarrow> llm_response" where
  "aggregate events =
     (let a = foldl aggregate_step
                \<lparr> ag_text = ([], []), ag_reasoning = [], ag_calls = [], ag_usage = usage_default, ag_reason = None \<rparr>
                events
      in \<lparr> rsp_content = (if ag_reasoning a \<noteq> [] then [PReasoning (ag_reasoning a) None None] else [])
                         @ snd (flush_text_buffer (ag_text a)) @ ag_calls a,
           rsp_usage = ag_usage a, rsp_finish_reason = ag_reason a \<rparr>)"

definition generate ::
  "'d on_frame \<Rightarrow> 'd on_finish \<Rightarrow> 'd \<Rightarrow> nat option \<Rightarrow> (nat \<times> (string + 8 word list)) list \<Rightarrow> nat
   \<Rightarrow> llm_error + llm_response" where
  "generate on_frame finish decoder timeout body end_gap =
     map_sum id aggregate (collect_items (stream_items on_frame finish (stream_open decoder timeout body end_gap)))"

section \<open>Properties of the retry loop\<close>

lemma jitter_bounded: "0 < base_ms \<Longrightarrow> deterministic_jitter seed attempt base_ms < base_ms"
  by (simp add: deterministic_jitter_def Let_def)

lemma backoff_bounded: "backoff p attempt hint \<le> max_delay p"
  by (simp add: backoff_def Let_def split: option.splits)

definition outcome_of :: "(llm_error \<times> nat option) + 'b http_response \<Rightarrow> outcome" where
  "outcome_of r = (case r of Inl (err, after_ms) \<Rightarrow> OutFail err after_ms | Inr _ \<Rightarrow> OutSuccess)"

definition final_outcome :: "llm_error + 'b http_response \<Rightarrow> plan_outcome" where
  "final_outcome r = (case r of Inl err \<Rightarrow> PlanFailed err | Inr _ \<Rightarrow> PlanSuccess)"

lemma send_from_plan:
  assumes "attempt < max (max_attempts p) 1"
    and "outcomes = map (\<lambda>i. outcome_of (attempt_result timeout (http i))) [0..<max (max_attempts p) 1]"
    and "send_from p timeout http attempt last_err = (r, ds)"
  shows "plan_from p outcomes attempt delays =
     \<lparr> plan_attempts = attempt + 1 + length ds, plan_delays = delays @ ds, plan_outcome = final_outcome r \<rparr>
     \<and> attempt + 1 + length ds \<le> max (max_attempts p) 1 \<and> (\<forall>d\<in>set ds. d \<le> max_delay p)"
  using assms
proof (induction "max (max_attempts p) 1 - attempt" arbitrary: attempt last_err r ds delays rule: less_induct)
  case less
  let ?m = "max (max_attempts p) 1"
  have o: "attempt < length outcomes" "outcomes ! attempt = outcome_of (attempt_result timeout (http attempt))"
    using less.prems(1) by (simp_all add: less.prems(2))
  show ?case
  proof (cases "attempt_result timeout (http attempt)")
    case (Inr resp)
    with less.prems o show ?thesis
      by (subst (asm) send_from.simps, subst plan_from.simps) (auto simp: outcome_of_def final_outcome_def)
  next
    case (Inl f)
    obtain err after_ms where f: "f = (err, after_ms)" by fastforce
    show ?thesis
    proof (cases "\<not> client_is_retryable err \<or> attempt + 1 \<ge> ?m")
      case True
      with Inl f less.prems o show ?thesis
        by (subst (asm) send_from.simps, subst plan_from.simps) (auto simp: outcome_of_def final_outcome_def)
    next
      case False
      obtain r1 ds1 where rec: "send_from p timeout http (attempt + 1) (Some err) = (r1, ds1)" by fastforce
      let ?d = "backoff p attempt (millis_hint after_ms)"
      have s: "send_from p timeout http attempt last_err = (r1, ?d # ds1)"
        using False less.prems(1) Inl f rec by (subst send_from.simps) (auto simp: Let_def)
      have pl: "plan_from p outcomes attempt delays = plan_from p outcomes (attempt + 1) (delays @ [?d])"
        using False less.prems(1) Inl f o by (subst plan_from.simps) (auto simp: Let_def outcome_of_def)
      have "attempt + 1 < ?m" "?m - (attempt + 1) < ?m - attempt" using False by auto
      from less.hyps [OF this(2,1) less.prems(2) rec, of "delays @ [?d]"] pl s less.prems(3) show ?thesis
        by (auto simp: backoff_bounded)
    qed
  qed
qed

text \<open>C21. The retry loop that talks to the provider does exactly what the pure policy plans for the
  outcomes of its attempts: the same delays are slept, the same error (or success) is final. It makes
  at most the configured number of attempts (at least one), sleeps once between two of them, and no
  delay exceeds the policy's maximum, also when the server asks for more.\<close>

theorem retry_follows_plan:
  assumes "send_with_retry p timeout http = (r, ds)"
    and "outcomes = map (\<lambda>i. outcome_of (attempt_result timeout (http i))) [0..<max (max_attempts p) 1]"
  shows "plan p outcomes = \<lparr> plan_attempts = 1 + length ds, plan_delays = ds, plan_outcome = final_outcome r \<rparr>
     \<and> 1 + length ds \<le> max (max_attempts p) 1 \<and> (\<forall>d\<in>set ds. d \<le> max_delay p)"
  using send_from_plan [OF _ assms(2) assms(1) [unfolded send_with_retry_def], of "[]"]
  by (auto simp: plan_def)

theorem retry_follows_plan_witness:
  "\<exists>r ds. send_with_retry (retry_policy_default\<lparr> max_attempts := 3 \<rparr>) None
            (\<lambda>i. (0, Inr \<lparr> resp_status = (if i = 0 then 503 else 404), resp_headers = [], resp_text = None, resp_body = () \<rparr>)) = (r, ds)
     \<and> ds = [500000000] \<and> 1 + length ds \<le> max (max_attempts (retry_policy_default\<lparr> max_attempts := 3 \<rparr>)) 1"
proof -
  let ?http = "\<lambda>i::nat. (0::nat, Inr \<lparr> resp_status = (if i = 0 then 503 else 404), resp_headers = [], resp_text = None, resp_body = () \<rparr>)
                 :: nat \<times> (string + unit http_response)"
  let ?p = "retry_policy_default\<lparr> max_attempts := 3 \<rparr>"
  obtain r ds where s: "send_with_retry ?p None ?http = (r, ds)" by fastforce
  have "snd (send_with_retry ?p None ?http) = [500000000]"
    by (simp add: send_with_retry_def send_from.simps attempt_result_def send_once_def error_for_status_def
        llm_error_new_def client_is_retryable_def backoff_def retry_policy_default_def millis_hint_def
        rate_limit_from_headers_def header_map_def u64_max_def Let_def)
  with s have "ds = [500000000]" by simp
  with s retry_follows_plan [OF s refl, THEN conjunct2, THEN conjunct1] show ?thesis by blast
qed

section \<open>Properties of the pump\<close>

lemma items_cong: "pump_next on_frame finish st = pump_next on_frame finish st' \<Longrightarrow>
    stream_items on_frame finish st = stream_items on_frame finish st'"
  by (subst (1 2) stream_items.simps) simp

lemma items_ready: "stream_items on_frame finish st = ready st @ stream_items on_frame finish (st\<lparr> ready := [] \<rparr>)"
proof (induction "ready st" arbitrary: st)
  case (Cons ev rest)
  have "stream_items on_frame finish st = ev # stream_items on_frame finish (st\<lparr> ready := rest \<rparr>)"
    using pump_steps(1) [OF Cons(2) [symmetric]] by (subst stream_items.simps) simp
  with Cons(1) [of "st\<lparr> ready := rest \<rparr>"] Cons(2) [symmetric] show ?case by simp
next
  case Nil
  then have "st\<lparr> ready := [] \<rparr> = st" by (cases st) simp
  with Nil show ?case by (metis append_Nil)
qed

lemma items_done: "st_phase st = PumpDone \<Longrightarrow> stream_items on_frame finish st = ready st"
  using pump_steps(7) [of "st\<lparr> ready := [] \<rparr>" on_frame finish]
  by (subst items_ready) (simp add: stream_items.simps)

lemma items_steps:
  assumes "ready st = []"
  shows "st_phase st = Streaming \<Longrightarrow> next_byte_chunk st = (Some (Inl e), st1) \<Longrightarrow> ready st1 = [] \<Longrightarrow>
      stream_items on_frame finish st = [Inl e]"
    and "st_phase st = Streaming \<Longrightarrow> next_byte_chunk st = (None, st) \<Longrightarrow>
      stream_items on_frame finish st = (case fst (finish (protocol_stream st)) of Inl e \<Rightarrow> [Inl e] | Inr evs \<Rightarrow> map Inr evs)"
    and "st_phase st = Streaming \<Longrightarrow> next_byte_chunk st = (Some (Inr chunk), st1) \<Longrightarrow>
      sse_push (st_sse st1) chunk = (frames, sse1) \<Longrightarrow>
      stream_items on_frame finish st = stream_items on_frame finish (decode_frames on_frame (st1\<lparr> st_sse := sse1 \<rparr>) frames)"
proof -
  assume "st_phase st = Streaming" "next_byte_chunk st = (Some (Inl e), st1)" "ready st1 = []"
  from pump_steps(2) [OF assms this(1,2)] this(3) show "stream_items on_frame finish st = [Inl e]"
    by (subst stream_items.simps) (simp add: items_done)
next
  assume s: "st_phase st = Streaming" "next_byte_chunk st = (None, st)"
  let ?t = "st\<lparr> st_phase := Flushing \<rparr>"
  have "stream_items on_frame finish st = stream_items on_frame finish ?t"
    using items_cong [OF pump_steps(3) [OF assms s]] .
  moreover obtain r d where f: "finish (protocol_stream ?t) = (r, d)" by fastforce
  moreover have "stream_items on_frame finish ?t = (case r of Inl e \<Rightarrow> [Inl e] | Inr evs \<Rightarrow> map Inr evs)"
  proof (cases r)
    case (Inl e)
    with pump_steps(5) [of ?t finish e d on_frame] assms f show ?thesis
      by (subst stream_items.simps) (simp add: items_done)
  next
    case (Inr evs)
    with items_cong [OF pump_steps(6) [of ?t finish evs d on_frame]] assms f show ?thesis by (simp add: items_done)
  qed
  ultimately show "stream_items on_frame finish st =
      (case fst (finish (protocol_stream st)) of Inl e \<Rightarrow> [Inl e] | Inr evs \<Rightarrow> map Inr evs)" by simp
qed (use items_cong [OF pump_steps(4) [OF assms]] in blast)

lemma decode_frames_ok:
  "on_frames on_frame (protocol_stream st) fs = (Inr evs, d) \<Longrightarrow>
     decode_frames on_frame st fs = st\<lparr> protocol_stream := d, ready := ready st @ map Inr evs \<rparr>"
proof (induction fs arbitrary: st evs)
  case (Cons f fs)
  obtain r d1 where f: "on_frame (protocol_stream st) f = (r, d1)" by fastforce
  obtain r2 d2 where fs: "on_frames on_frame d1 fs = (r2, d2)" by fastforce
  from Cons.prems f fs obtain e1 e2 where "r = Inr e1" "r2 = Inr e2" "evs = e1 @ e2" "d2 = d"
    by (cases r; cases r2) auto
  with f fs Cons.IH [of "st\<lparr> protocol_stream := d1, ready := ready st @ map Inr e1 \<rparr>" e2] show ?case by simp
qed simp

lemma decode_frames_error:
  "on_frames on_frame (protocol_stream st) fs = (Inl e, d) \<Longrightarrow>
     \<exists>evs. decode_frames on_frame st fs
       = st\<lparr> protocol_stream := d, ready := ready st @ map Inr evs @ [Inl e], st_phase := PumpDone \<rparr>"
proof (induction fs arbitrary: st)
  case (Cons f fs)
  obtain r d1 where f: "on_frame (protocol_stream st) f = (r, d1)" by fastforce
  show ?case
  proof (cases r)
    case (Inl e1)
    with Cons.prems f show ?thesis by (auto intro: exI [of _ "[]"])
  next
    case (Inr e1)
    obtain r2 d2 where fs: "on_frames on_frame d1 fs = (r2, d2)" by fastforce
    with Cons.prems f Inr have "r2 = Inl e" "d2 = d" by (cases r2; simp)+
    with Cons.IH [of "st\<lparr> protocol_stream := d1, ready := ready st @ map Inr e1 \<rparr>"] fs
    obtain e2 where "decode_frames on_frame st (f # fs)
       = st\<lparr> protocol_stream := d, ready := ready st @ map Inr (e1 @ e2) @ [Inl e], st_phase := PumpDone \<rparr>"
      using f Inr by auto
    then show ?thesis by blast
  qed
qed simp

text \<open>A body that arrives whole: every read succeeds and none takes the idle timeout.\<close>

definition in_time :: "nat option \<Rightarrow> nat \<Rightarrow> bool" where
  "in_time timeout gap = (case timeout of Some t \<Rightarrow> gap < t | None \<Rightarrow> True)"

definition intact :: "nat option \<Rightarrow> (nat \<times> (string + 8 word list)) list \<Rightarrow> nat \<Rightarrow> bool" where
  "intact timeout body end_gap \<longleftrightarrow> list_all (\<lambda>(gap, c). in_time timeout gap \<and> \<not> isl c) body \<and> in_time timeout end_gap"

definition body_chunks :: "(nat \<times> (string + 8 word list)) list \<Rightarrow> 8 word list list" where
  "body_chunks body = map (\<lambda>(gap, c). projr c) body"

lemma next_chunk_cases:
  "byte_stream st = [] \<Longrightarrow> in_time (idle_timeout st) (byte_end st) \<Longrightarrow> next_byte_chunk st = (None, st)"
  "byte_stream st = [] \<Longrightarrow> \<not> in_time (idle_timeout st) (byte_end st) \<Longrightarrow> \<exists>e. next_byte_chunk st = (Some (Inl e), st)"
  "byte_stream st = (g, Inr c) # rest \<Longrightarrow> in_time (idle_timeout st) g \<Longrightarrow>
     next_byte_chunk st = (Some (Inr c), st\<lparr> byte_stream := rest \<rparr>)"
  "byte_stream st = (g, x) # rest \<Longrightarrow> \<not> (in_time (idle_timeout st) g \<and> \<not> isl x) \<Longrightarrow>
     \<exists>e st1. next_byte_chunk st = (Some (Inl e), st1) \<and> ready st1 = ready st"
  by (cases x; auto simp: next_byte_chunk_def in_time_def not_less split: option.splits)+

lemma collect_append: "collect_items (map Inr evs @ items) = map_sum id (\<lambda>evs2. evs @ evs2) (collect_items items)"
proof (induction evs)
  case (Cons ev evs)
  then show ?case by (cases "collect_items items") simp_all
qed (cases "collect_items items", simp_all)

lemma collect_ok: "collect_items (map Inr evs) = Inr evs"
  by (induction evs) simp_all

lemma collect_error: "collect_items (map Inr evs @ Inl e # items) = Inl e"
  by (induction evs) simp_all

lemma pump_decodes:
  assumes "st_phase st = Streaming" "ready st = []"
  shows "if intact (idle_timeout st) (byte_stream st) (byte_end st)
     then collect_items (stream_items on_frame finish st)
          = decode_from on_frame finish (st_sse st) (protocol_stream st) (body_chunks (byte_stream st))
     else \<exists>e. collect_items (stream_items on_frame finish st) = Inl e"
  using assms
proof (induction "byte_stream st" arbitrary: st)
  case Nil
  show ?case
  proof (cases "in_time (idle_timeout st) (byte_end st)")
    case True
    with Nil next_chunk_cases(1) [of st] items_steps(2) [of st on_frame finish] show ?thesis
      by (auto simp: intact_def body_chunks_def collect_ok split: sum.splits)
  next
    case False
    with Nil next_chunk_cases(2) [of st] obtain e where "next_byte_chunk st = (Some (Inl e), st)" by auto
    with items_steps(1) [of st e st on_frame finish] Nil False show ?thesis by (simp add: intact_def)
  qed
next
  case (Cons x rest)
  obtain g c where x: "x = (g, c)" by fastforce
  show ?case
  proof (cases "in_time (idle_timeout st) g \<and> \<not> isl c")
    case True
    then obtain b where c: "c = Inr b" by (cases c) auto
    from Cons(2) x c have bs: "byte_stream st = (g, Inr b) # rest" by simp
    let ?s1 = "st\<lparr> byte_stream := rest \<rparr>"
    obtain frames sse1 where p: "sse_push (st_sse st) b = (frames, sse1)" by fastforce
    let ?s2 = "?s1\<lparr> st_sse := sse1 \<rparr>"
    have i: "stream_items on_frame finish st = stream_items on_frame finish (decode_frames on_frame ?s2 frames)"
      using items_steps(3) [OF Cons.prems(2,1) next_chunk_cases(3) [OF bs conjunct1 [OF True]], of frames sse1] p by simp
    obtain r d where f: "on_frames on_frame (protocol_stream st) frames = (r, d)" by fastforce
    show ?thesis
    proof (cases r)
      case (Inl e)
      with f decode_frames_error [of on_frame ?s2 frames e d] obtain evs where
        "decode_frames on_frame ?s2 frames
           = ?s2\<lparr> protocol_stream := d, ready := ready ?s2 @ map Inr evs @ [Inl e], st_phase := PumpDone \<rparr>" by auto
      then have "stream_items on_frame finish st = map Inr evs @ [Inl e]" using i Cons.prems by (simp add: items_done)
      then show ?thesis using bs p f Inl by (simp add: collect_error body_chunks_def)
    next
      case (Inr evs)
      let ?s3 = "?s2\<lparr> protocol_stream := d \<rparr>"
      have "decode_frames on_frame ?s2 frames = ?s2\<lparr> protocol_stream := d, ready := map Inr evs \<rparr>"
        using decode_frames_ok [of on_frame ?s2 frames evs d] f Inr Cons.prems by simp
      then have "stream_items on_frame finish st = map Inr evs @ stream_items on_frame finish (?s3\<lparr> ready := [] \<rparr>)"
        using i by (subst (asm) items_ready) simp
      then have col: "collect_items (stream_items on_frame finish st)
          = map_sum id (\<lambda>evs2. evs @ evs2) (collect_items (stream_items on_frame finish (?s3\<lparr> ready := [] \<rparr>)))"
        by (simp add: collect_append)
      have "intact (idle_timeout st) (byte_stream st) (byte_end st) = intact (idle_timeout st) rest (byte_end st)"
        using bs True by (simp add: intact_def c)
      with col Cons(1) [of "?s3\<lparr> ready := [] \<rparr>"] Cons.prems bs p f Inr show ?thesis
        by (auto simp: body_chunks_def split: if_splits)
    qed
  next
    case False
    with next_chunk_cases(4) [of st g c rest] Cons(2) x obtain e st1 where
      "next_byte_chunk st = (Some (Inl e), st1)" "ready st1 = ready st" by auto
    with items_steps(1) [of st e st1 on_frame finish] Cons.prems have
      "collect_items (stream_items on_frame finish st) = Inl e" by simp
    moreover have "\<not> intact (idle_timeout st) (byte_stream st) (byte_end st)"
      using False Cons(2) [symmetric] x by (auto simp: intact_def)
    ultimately show ?thesis by simp
  qed
qed

lemma on_frames_append:
  "on_frames on_frame d (xs @ ys) =
     (case on_frames on_frame d xs of
        (Inl e, d1) \<Rightarrow> (Inl e, d1)
      | (Inr evs, d1) \<Rightarrow> (case on_frames on_frame d1 ys of (Inl e, d2) \<Rightarrow> (Inl e, d2) | (Inr evs2, d2) \<Rightarrow> (Inr (evs @ evs2), d2)))"
  by (induction xs arbitrary: d) (auto split: prod.splits sum.splits)

lemma decode_from_frames:
  "decode_from on_frame finish sse d chunks =
     (case on_frames on_frame d (fst (run_emit sse_push sse chunks)) of
        (Inl e, d1) \<Rightarrow> Inl e
      | (Inr evs, d1) \<Rightarrow> map_sum id (\<lambda>evs2. evs @ evs2) (fst (finish d1)))"
proof (induction chunks arbitrary: sse d)
  case Nil
  show ?case by (cases "fst (finish d)") simp_all
next
  case (Cons c cs)
  obtain frames sse1 where p: "sse_push sse c = (frames, sse1)" by fastforce
  obtain fs sse2 where r: "run_emit sse_push sse1 cs = (fs, sse2)" by fastforce
  obtain x d1 where f: "on_frames on_frame d frames = (x, d1)" by fastforce
  show ?case
  proof (cases x)
    case (Inr evs)
    obtain y d2 where "on_frames on_frame d1 fs = (y, d2)" by fastforce
    with Cons [of sse1 d1] p r f Inr show ?thesis
      by (cases y; cases "fst (finish d2)") (simp_all add: on_frames_append)
  qed (use p r f in \<open>simp add: on_frames_append\<close>)
qed

lemma push_nothing: "sse_push sse_new [] = ([], sse_new)"
  by (simp add: sse_push_def sse_new_def sse_drain.simps)

lemma decode_any_chunking: "decode_chunks on_frame finish d chunks = decode_chunks on_frame finish d [concat chunks]"
proof -
  have "fst (run_emit sse_push sse_new chunks) = fst (run_emit sse_push sse_new [concat chunks])"
    using push_chunks [of sse_new chunks] push_chunks [of sse_new "[concat chunks]"] push_nothing
    by (cases chunks) simp_all
  then show ?thesis unfolding decode_chunks_def by (subst (1 2) decode_from_frames) simp
qed

text \<open>C15. \<open>generate\<close> returns a response exactly when the body of the response arrived whole (no
  read failed, no gap between reads reached the idle timeout) and the bytes, taken together, decode
  without an error; the response is then the aggregation of the events the pure pipeline
  (\<open>decode_chunks\<close>) makes of those bytes. So the streaming pump and the pure pipeline agree, how
  the network cuts the bytes into chunks does not matter, and a truncated or failing response is never
  returned as a complete one.\<close>

theorem generate_iff_decoded:
  "generate on_frame finish decoder timeout body end_gap = Inr r \<longleftrightarrow>
     intact timeout body end_gap
     \<and> map_sum id aggregate (decode_chunks on_frame finish decoder [concat (body_chunks body)]) = Inr r"
proof -
  let ?st = "stream_open decoder timeout body end_gap"
  have "if intact timeout body end_gap
     then collect_items (stream_items on_frame finish ?st) = decode_chunks on_frame finish decoder (body_chunks body)
     else \<exists>e. collect_items (stream_items on_frame finish ?st) = Inl e"
  proof -
    have st: "st_phase ?st = Streaming" "ready ?st = []" "idle_timeout ?st = timeout" "byte_stream ?st = body"
      "byte_end ?st = end_gap" "st_sse ?st = sse_new" "protocol_stream ?st = decoder"
      by (simp_all add: stream_open_def)
    from pump_decodes [OF st(1,2), of on_frame finish] show ?thesis by (simp only: st decode_chunks_def)
  qed
  then show ?thesis
    using decode_any_chunking [of on_frame finish decoder "body_chunks body"] by (auto simp: generate_def split: if_splits)
qed

section \<open>Properties of the aggregation and of the redaction\<close>

fun text_delta_of :: "llm_event \<Rightarrow> string" where
  "text_delta_of (TextDelta _ delta _) = delta"
| "text_delta_of _ = []"

fun reasoning_delta_of :: "llm_event \<Rightarrow> string" where
  "reasoning_delta_of (ReasoningDelta _ delta) = delta"
| "reasoning_delta_of _ = []"

fun call_part_of :: "llm_event \<Rightarrow> content_part option" where
  "call_part_of (ToolCall d name namespace meta input) = Some (PToolCall d name input (namespaced_metadata namespace meta))"
| "call_part_of _ = None"

fun is_text_part :: "content_part \<Rightarrow> bool" where
  "is_text_part (PText _ _) = True"
| "is_text_part _ = False"

fun text_of_part :: "content_part \<Rightarrow> string" where
  "text_of_part (PText t _) = t"
| "text_of_part _ = []"

definition aggregated :: "llm_event list \<Rightarrow> aggregation \<Rightarrow> bool" where
  "aggregated evs a \<longleftrightarrow>
     concat (map text_of_part (snd (ag_text a))) @ fst (ag_text a) = concat (map text_delta_of evs)
     \<and> list_all is_text_part (snd (ag_text a))
     \<and> ag_reasoning a = concat (map reasoning_delta_of evs)
     \<and> ag_calls a = List.map_filter call_part_of evs"

lemma flush_text: "flush_text_buffer (t, ps) = ([], if t = [] then ps else ps @ [part_text t])"
  by (simp add: flush_text_buffer_def)

lemma aggregate_step_keeps: "aggregated evs a \<Longrightarrow> aggregated (evs @ [e]) (aggregate_step a e)"
  by (cases e; cases "ag_text a")
     (auto simp: aggregated_def push_text_part_def flush_text part_text_def take_finish_def map_filter_append
       map_filter_simps split: option.splits)

lemma aggregate_fold:
  "aggregated evs a \<Longrightarrow> aggregated (evs @ es) (foldl aggregate_step a es)"
proof (induction es arbitrary: evs a)
  case (Cons e es)
  from Cons.IH [OF aggregate_step_keeps [OF Cons.prems]] show ?case by simp
qed simp

text \<open>The aggregated response keeps everything the stream said: at most one reasoning part with
  all the reasoning text, then text parts whose concatenation is all the text of the stream in order,
  then the tool calls, one part per call event, in the order they were completed.\<close>

lemma aggregate_faithful:
  "\<exists>texts. rsp_content (aggregate evs)
       = (let r = concat (map reasoning_delta_of evs) in if r = [] then [] else [PReasoning r None None])
         @ texts @ List.map_filter call_part_of evs
     \<and> list_all is_text_part texts \<and> concat (map text_of_part texts) = concat (map text_delta_of evs)"
proof -
  let ?init = "\<lparr> ag_text = ([], []), ag_reasoning = [], ag_calls = [], ag_usage = usage_default, ag_reason = None \<rparr>"
  let ?a = "foldl aggregate_step ?init evs"
  have "aggregated [] ?init" by (simp add: aggregated_def map_filter_simps)
  from aggregate_fold [OF this, of evs] have a: "aggregated evs ?a" by simp
  then show ?thesis
    by (intro exI [of _ "snd (flush_text_buffer (ag_text ?a))"]; cases "ag_text ?a")
       (auto simp: aggregate_def aggregated_def Let_def flush_text part_text_def)
qed

text \<open>The credentials of a request never show in the redacted headers.\<close>

lemma redacted_headers_hide:
  "(k, v) \<in> set (redact_headers hs) \<Longrightarrow> str_lower k \<in> set secret_headers \<Longrightarrow> v = ''<redacted>''"
  by (auto simp: redact_headers_def split: if_splits)

text \<open>A second blank after the scheme defeats \<open>scrub\<close>: the text up to the next white space, which is
  empty then, is what gets replaced, and the credential stays.\<close>

lemma scrub_leaks_after_two_blanks:
  "scrub ''Bearer  s3cret'' = ''Bearer <redacted> s3cret''"
  "scrub ''Bearer s3cret'' = ''Bearer <redacted>''"
  by (simp_all add: scrub_def scrub_pass.simps is_ws_def code_point_def Let_def)

end
