(* ===== verification/Decoders.thy ===== *)
theory Decoders
  imports Client
begin

text \<open>
  What the stream decoders of the provider protocols share: each of them drives a lifecycle
  normaliser and a tool-call accumulator (theory Streams), one frame at a time, and closes both in
  \<open>finish\<close>. \<open>core_traced\<close> is the invariant that the two keep together, \<open>stream_complete\<close> what the
  event model promises of a finished stream (\<open>schema/event.rs\<close>), and the locale
  \<open>response_decoder\<close> the contract of \<open>ProtocolStream\<close> (\<open>route/protocol.rs\<close>) the protocols implement.

  A frame is taken here with its texts as strings (\<open>text_frame\<close>); \<open>serde_json::from_str\<close> is the
  parameter \<open>from_str\<close>.
\<close>

record text_frame =
  tf_event :: "string option"
  tf_data :: string

fun is_tool_event :: "llm_event \<Rightarrow> bool" where
  "is_tool_event (ToolInputStart _ _) = True"
| "is_tool_event (ToolInputDelta _ _) = True"
| "is_tool_event (ToolInputEnd _) = True"
| "is_tool_event (ToolCall _ _ _ _ _) = True"
| "is_tool_event _ = False"

fun is_block_event :: "llm_event \<Rightarrow> bool" where
  "is_block_event (ProviderError _ _) = False"
| "is_block_event e = (\<not> is_tool_event e)"

fun is_step_end :: "llm_event \<Rightarrow> bool" where
  "is_step_end (StepFinish _ _) = True"
| "is_step_end (Finish _ _) = True"
| "is_step_end _ = False"

abbreviation tool_events :: "llm_event list \<Rightarrow> llm_event list" where
  "tool_events tr \<equiv> filter is_tool_event tr"

abbreviation block_events :: "llm_event list \<Rightarrow> llm_event list" where
  "block_events tr \<equiv> filter is_block_event tr"

text \<open>The shape of a whole response, tool events and provider errors included: one step start, and at the end the
  step finish and the finish, which agree on usage and reason. The lifecycle does not see tool input, so the
  events of calls (and provider errors) that come before any text or reasoning come before the step start too:
  \<open>early\<close>, against the lifecycle that \<open>schema/event.rs\<close> announces. All other events lie inside the step.\<close>

definition step_shape :: "llm_event list \<Rightarrow> bool" where
  "step_shape tr \<longleftrightarrow>
     (\<exists>early inner u reason. tr = early @ StepStart # inner @ [StepFinish u reason, Finish u reason]
        \<and> list_all (\<lambda>e. \<not> is_block_event e) early
        \<and> list_all (\<lambda>e. e \<noteq> StepStart \<and> \<not> is_step_end e) inner)"

text \<open>A finished stream: the whole trace has the shape above, its block events form the grammar of the event
  model, tool calls are put together faithfully, and every tool input that was started has become a call.\<close>

definition stream_complete :: "(string \<Rightarrow> string + json) \<Rightarrow> llm_event list \<Rightarrow> bool" where
  "stream_complete from_str tr \<longleftrightarrow>
     step_shape tr
     \<and> lc_accepts (block_events tr) (Before, {}, {}) = Some (AllDone, {}, {})
     \<and> call_events_ok from_str (tool_events tr)
     \<and> (\<forall>d name. ToolInputStart d name \<in> set tr \<longrightarrow> list_ex (makes_call d) tr)"

lemma inside_accepts:
  "lc_accepts (es @ [StepFinish u reason, Finish u' reason']) (Inside, t, r) = Some c \<Longrightarrow>
   list_all (\<lambda>e. e \<noteq> StepStart \<and> \<not> is_step_end e) es"
proof (induction es arbitrary: t r)
  case (Cons e es)
  have over: "ys \<noteq> [] \<Longrightarrow> lc_accepts ys (AllDone, t', r') = None" for ys t' r' by (cases ys) simp_all
  have stuck: "lc_accepts (es @ [StepFinish u reason, Finish u' reason']) (StepDone, t', r') \<noteq> Some c" for t' r'
    by (cases es) (auto simp: bind_eq_Some_conv over elim!: lc_accept.elims)
  from Cons.prems Cons.IH stuck show ?case by (cases e) (auto split: if_splits)
qed simp

lemma step_shapeI:
  assumes "lc_accepts (block_events (pre @ [StepFinish u reason, Finish u reason])) (Before, {}, {}) = Some c"
  shows "step_shape (pre @ [StepFinish u reason, Finish u reason])"
proof -
  define early where "early = takeWhile (\<lambda>e. \<not> is_block_event e) pre"
  have early: "list_all (\<lambda>e. \<not> is_block_event e) early" by (auto simp: early_def list_all_iff dest: set_takeWhileD)
  then have none: "block_events early = []" by (auto simp: filter_empty_conv list_all_iff)
  obtain rest where pre: "pre = early @ rest" "rest = dropWhile (\<lambda>e. \<not> is_block_event e) pre" by (simp add: early_def)
  have a: "lc_accepts (block_events rest @ [StepFinish u reason, Finish u reason]) (Before, {}, {}) = Some c"
    using assms pre(1) none by simp
  then obtain e inner where rest: "rest = e # inner" by (cases rest) auto
  then have "is_block_event e" using pre(2) by (metis hd_dropWhile list.sel(1) list.distinct(1))
  with a rest have i: "e = StepStart" "lc_accepts (block_events inner @ [StepFinish u reason, Finish u reason]) (Inside, {}, {}) = Some c"
    by (cases e; simp)+
  have "list_all (\<lambda>e. e \<noteq> StepStart \<and> \<not> is_step_end e) inner"
    unfolding list_all_iff
  proof
    fix x assume "x \<in> set inner"
    with inside_accepts [OF i(2)] show "x \<noteq> StepStart \<and> \<not> is_step_end x"
      by (cases x) (auto simp: list_all_iff)
  qed
  with early pre(1) rest i(1) show ?thesis unfolding step_shape_def by auto
qed

lemma lc_finish_ends:
  "\<not> lc_finished lc \<Longrightarrow> lc_finish lc u reason = (fin, lc') \<Longrightarrow> \<exists>pre. fin = pre @ [StepFinish u reason, Finish u reason]"
  by (auto simp: lc_finish_def split: prod.splits)

section \<open>No started call is lost\<close>

definition ts_kept :: "llm_event list \<Rightarrow> tool_stream \<Rightarrow> bool" where
  "ts_kept tr s \<longleftrightarrow>
     (\<forall>d. (map_of (ts_calls s) d \<noteq> None \<longrightarrow> d \<in> set (ts_order s))
        \<and> (list_ex (starts_call d) tr \<longrightarrow> map_of (ts_calls s) d \<noteq> None)
        \<and> (acc_ended (ts_acc s d) \<longrightarrow> list_ex (makes_call d) tr))"

lemma kept_entry:
  assumes "ts_kept tr s" "ts_entry s d = (a, s1)"
  shows "ts_kept tr s1" "map_of (ts_calls s1) d \<noteq> None"
proof -
  have "ts_acc s1 d' = ts_acc s d'" for d' by (rule acc_entry(2) [OF assms(2)])
  with assms show "ts_kept tr s1"
    by (auto simp: ts_kept_def ts_entry_def bt_insert_lookup split: option.splits if_splits)
  show "map_of (ts_calls s1) d \<noteq> None"
    using assms(2) by (auto simp: ts_entry_def bt_insert_lookup split: option.splits if_splits)
qed

lemma kept_store:
  assumes "ts_kept tr s" "map_of (ts_calls s) d \<noteq> None" "list_all (about_call d) outs"
    and "acc_ended a \<longrightarrow> acc_ended (ts_acc s d) \<or> list_ex (makes_call d) outs"
  shows "ts_kept (tr @ outs) (ts_store s d a)"
proof -
  have other: "starts_call d' e \<Longrightarrow> e \<in> set outs \<Longrightarrow> d' = d" for d' e
    using assms(3) by (cases e) (auto simp: list_all_iff)
  show ?thesis
    using assms(1,2,4) other
    by (fastforce simp: ts_kept_def ts_store_def bt_insert_lookup ts_acc_def list_ex_iff split: if_splits)
qed

lemma kept_entry_store:
  assumes "ts_kept tr s" "ts_entry s d = (a, s1)" "acc_ended b = acc_ended a" "list_all (about_call d) outs"
  shows "ts_kept (tr @ outs) (ts_store s1 d b)"
  using kept_store [OF kept_entry [OF assms(1,2)] assms(4)] acc_entry [OF assms(2)] assms(3) by simp

lemma kept_start:
  assumes "ts_kept tr s" "ts_start s d name ns = (outs, s')"
  shows "ts_kept (tr @ outs) s'"
proof -
  obtain a s1 where e: "ts_entry s d = (a, s1)" by fastforce
  define b where "b = (let e = (if acc_name a = [] then a\<lparr> acc_name := name \<rparr> else a)
    in if acc_namespace e = None then e\<lparr> acc_namespace := ns \<rparr> else e)"
  have b: "acc_ended b = acc_ended a" by (simp add: b_def Let_def)
  have "(outs, s') = (if acc_started b then ([], ts_store s1 d b)
      else ([ToolInputStart d (acc_name b)], ts_store s1 d (b\<lparr> acc_started := True \<rparr>)))"
    using assms(2) unfolding ts_start_def e Let_def b_def split_conv by (rule sym)
  with b kept_entry_store [OF assms(1) e, of b "[]"] show ?thesis
    by (auto intro!: kept_entry_store [OF assms(1) e] split: if_splits)
qed

lemma kept_delta:
  assumes "ts_kept tr s" "ts_delta s d name frag = (outs, s')"
  shows "ts_kept (tr @ outs) s'"
proof -
  obtain a s1 where e: "ts_entry s d = (a, s1)" by fastforce
  define b where "b = (case name of Some n \<Rightarrow> if acc_name a = [] then a\<lparr> acc_name := n \<rparr> else a | None \<Rightarrow> a)"
  have "acc_ended b = acc_ended a" by (simp add: b_def split: option.splits)
  moreover have "outs = (if acc_started b then [] else [ToolInputStart d (acc_name b)]) @ [ToolInputDelta d frag]"
    "s' = ts_store s1 d (b\<lparr> acc_started := True, acc_args := acc_args b @ frag \<rparr>)"
    using assms(2) by (auto simp: ts_delta_def e b_def Let_def)
  ultimately show ?thesis by (auto intro!: kept_entry_store [OF assms(1) e])
qed

lemma kept_metadata: "ts_kept tr s \<Longrightarrow> ts_kept tr (ts_set_provider_metadata s d meta)"
  using kept_entry_store [of tr s d _ _ _ "[]"]
  by (cases "ts_entry s d") (auto simp: ts_set_provider_metadata_def)

lemma end_ok:
  assumes "ts_end from_str s d = (Inr evs, s')"
  shows "(s' = s \<and> evs = [] \<and> (map_of (ts_calls s) d \<noteq> None \<longrightarrow> acc_ended (ts_acc s d)))
    \<or> (map_of (ts_calls s) d \<noteq> None \<and> s' = ts_store s d ((ts_acc s d)\<lparr> acc_ended := True \<rparr>)
       \<and> (\<exists>n ns m i. evs = [ToolInputEnd d, ToolCall d n ns m i]))"
  using assms by (auto simp: ts_end_def ts_acc_def Let_def split: option.splits if_splits sum.splits)

lemma kept_end:
  assumes "ts_kept tr s" "ts_end from_str s d = (Inr evs, s')"
  shows "ts_kept (tr @ evs) s'" "map_of (ts_calls s') d \<noteq> None \<Longrightarrow> acc_ended (ts_acc s' d)"
    "acc_ended (ts_acc s d') \<Longrightarrow> acc_ended (ts_acc s' d')"
    "map_of (ts_calls s') d' = None \<longleftrightarrow> map_of (ts_calls s) d' = None" "ts_order s' = ts_order s"
proof -
  show "ts_kept (tr @ evs) s'" using end_ok [OF assms(2)] assms(1) by (auto intro!: kept_store)
qed (use end_ok [OF assms(2)] in \<open>auto simp: ts_store_def bt_insert_lookup ts_acc_def split: if_splits\<close>)

lemma kept_end_all:
  "ts_kept tr s \<Longrightarrow> ts_end_all from_str s ds = (Inr evs, s') \<Longrightarrow>
     ts_kept (tr @ evs) s' \<and> (\<forall>d\<in>set ds. map_of (ts_calls s) d \<noteq> None \<longrightarrow> acc_ended (ts_acc s' d))
     \<and> (\<forall>d. acc_ended (ts_acc s d) \<longrightarrow> acc_ended (ts_acc s' d))
     \<and> (\<forall>d. map_of (ts_calls s') d = None \<longleftrightarrow> map_of (ts_calls s) d = None)"
proof (induction ds arbitrary: tr s evs)
  case (Cons d ds)
  obtain e1 s1 e2 where 1: "ts_end from_str s d = (Inr e1, s1)" "ts_end_all from_str s1 ds = (Inr e2, s')"
    and evs: "evs = e1 @ e2"
    using Cons.prems(2) by (auto split: prod.splits sum.splits)
  note k = kept_end [OF Cons.prems(1) 1(1)]
  from Cons.IH [OF k(1) 1(2)] k(2,3,4) evs show ?case by auto
qed simp

lemma kept_flush:
  assumes "ts_kept tr s" "ts_flush from_str s = (Inr evs, s')"
  shows "ts_kept (tr @ evs) s'" and "list_ex (starts_call d) (tr @ evs) \<Longrightarrow> list_ex (makes_call d) (tr @ evs)"
proof -
  note k = kept_end_all [OF assms(1) assms(2) [unfolded ts_flush_def]]
  then show kept: "ts_kept (tr @ evs) s'" by blast
  show "list_ex (makes_call d) (tr @ evs)" if st: "list_ex (starts_call d) (tr @ evs)"
  proof -
    have "map_of (ts_calls s') d \<noteq> None" using kept st unfolding ts_kept_def by blast
    with k have c: "map_of (ts_calls s) d \<noteq> None" by metis
    with assms(1) have o: "d \<in> set (ts_order s)" by (simp add: ts_kept_def)
    have "acc_ended (ts_acc s' d)"
    proof (cases "acc_ended (ts_acc s d)")
      case True
      with k show ?thesis by blast
    next
      case False
      with c o have "d \<in> set (filter (\<lambda>d. case map_of (ts_calls s) d of Some e \<Rightarrow> \<not> acc_ended e | None \<Rightarrow> False) (ts_order s))"
        by (auto simp: ts_acc_def)
      with k c show ?thesis by blast
    qed
    with kept show ?thesis by (simp add: ts_kept_def)
  qed
qed

section \<open>The invariant of a decoder\<close>

definition core_traced :: "(string \<Rightarrow> string + json) \<Rightarrow> llm_event list \<Rightarrow> lifecycle_state \<Rightarrow> tool_stream \<Rightarrow> bool" where
  "core_traced from_str tr lc ts \<longleftrightarrow>
     lc_traced (block_events tr) lc \<and> ts_traced from_str (tool_events tr) ts \<and> ts_kept (tool_events tr) ts"

lemma core_new: "core_traced from_str [] lifecycle_new tool_stream_new"
  by (simp add: core_traced_def lc_traced_def lifecycle_new_def lc_view_def ts_traced_def call_events_ok_def
      acc_traced_def ts_acc_def tool_stream_new_def accum_default_def started_first_def ts_kept_def)

lemma lc_only:
  "lc_step s e = (outs, s') \<Longrightarrow> block_events outs = outs \<and> tool_events outs = []"
  by (cases e) (auto simp: lc_text_delta_def lc_text_end_def lc_reasoning_delta_def lc_reasoning_end_def
      ensure_step_def split: if_splits)

lemma ts_only:
  "ts_start ts d name ns = (outs, ts') \<Longrightarrow> tool_events outs = outs \<and> block_events outs = []"
  "ts_delta ts d nm frag = (outs, ts') \<Longrightarrow> tool_events outs = outs \<and> block_events outs = []"
  "ts_end from_str ts d = (Inr outs, ts') \<Longrightarrow> tool_events outs = outs \<and> block_events outs = []"
  by (auto simp: ts_start_def ts_delta_def Let_def dest: end_ok split: prod.splits if_splits)

lemma ts_end_all_only:
  "ts_end_all from_str ts ds = (Inr outs, ts') \<Longrightarrow> tool_events outs = outs \<and> block_events outs = []"
proof (induction ds arbitrary: ts outs)
  case (Cons d ds)
  then obtain e1 s1 e2 where "ts_end from_str ts d = (Inr e1, s1)" "ts_end_all from_str s1 ds = (Inr e2, ts')"
    "outs = e1 @ e2" by (auto split: prod.splits sum.splits)
  with Cons.IH ts_only(3) show ?case by fastforce
qed simp

lemma core_lc:
  assumes "core_traced from_str tr lc ts" "lc_step lc e = (outs, lc')"
  shows "core_traced from_str (tr @ outs) lc' ts"
  using assms lc_step_traced [of "block_events tr" lc e outs lc'] lc_only [OF assms(2)]
  by (simp add: core_traced_def)

lemmas core_text_delta = core_lc [of _ _ _ _ "LcText d f m" for d f m, simplified]
  and core_text_end = core_lc [of _ _ _ _ "LcTextEnd d p" for d p, simplified]
  and core_reasoning_delta = core_lc [of _ _ _ _ "LcReasoning d f" for d f, simplified]
  and core_reasoning_end = core_lc [of _ _ _ _ "LcReasoningEnd d" for d, simplified]

lemma core_start:
  "core_traced from_str tr lc ts \<Longrightarrow> ts_start ts d name ns = (outs, ts') \<Longrightarrow> core_traced from_str (tr @ outs) lc ts'"
  using start_traced kept_start ts_only(1) by (fastforce simp: core_traced_def)

lemma core_delta:
  "core_traced from_str tr lc ts \<Longrightarrow> ts_delta ts d nm frag = (outs, ts') \<Longrightarrow> core_traced from_str (tr @ outs) lc ts'"
  using delta_traced kept_delta ts_only(2) by (fastforce simp: core_traced_def)

lemma core_metadata:
  "core_traced from_str tr lc ts \<Longrightarrow> core_traced from_str tr lc (ts_set_provider_metadata ts d meta)"
  using metadata_traced kept_metadata by (simp add: core_traced_def)

lemma core_end:
  "core_traced from_str tr lc ts \<Longrightarrow> ts_end from_str ts d = (Inr outs, ts') \<Longrightarrow> core_traced from_str (tr @ outs) lc ts'"
  using end_traced(1) [of from_str "tool_events tr" ts d "Inr outs" ts'] kept_end(1) ts_only(3)
  by (fastforce simp: core_traced_def)

lemma core_flush:
  assumes "core_traced from_str tr lc ts" "ts_flush from_str ts = (Inr outs, ts')"
  shows "core_traced from_str (tr @ outs) lc ts'"
  using assms end_all_traced [of from_str "tool_events tr" ts _ "Inr outs" ts'] kept_flush(1)
    ts_end_all_only [OF assms(2) [unfolded ts_flush_def]]
  by (fastforce simp: core_traced_def ts_flush_def)

text \<open>Closing: flush the calls, then finish the lifecycle.\<close>

lemma lc_finish_only:
  "lc_finish lc u r = (outs, lc') \<Longrightarrow> block_events outs = outs \<and> tool_events outs = []"
  by (auto simp: lc_finish_def ensure_step_def split: if_splits)

lemma core_closes:
  assumes t: "core_traced from_str tr lc ts" and f: "ts_flush from_str ts = (Inr calls, ts')"
    and l: "lc_finish lc u r = (fin, lc')"
  shows "stream_complete from_str (tr @ calls @ fin)" and "lc_finished lc'"
proof -
  note c = core_flush [OF t f] and o = ts_end_all_only [OF f [unfolded ts_flush_def]] and lo = lc_finish_only [OF l]
  have lt: "lc_traced (block_events tr @ []) lc" using t by (simp add: core_traced_def)
  from lc_finish_closes [OF lt l]
  have g: "lc_accepts (block_events (tr @ calls @ fin)) (Before, {}, {}) = Some (AllDone, {}, {})"
    using o lo by simp
  have "\<not> lc_finished lc" using t by (simp add: core_traced_def lc_traced_def)
  from lc_finish_ends [OF this l] obtain pre where "fin = pre @ [StepFinish u r, Finish u r]" by blast
  with g have sh: "step_shape (tr @ calls @ fin)" using step_shapeI [of "tr @ calls @ pre" u r] by simp
  have e: "call_events_ok from_str (tool_events (tr @ calls @ fin))"
    using c lo by (simp add: core_traced_def ts_traced_def)
  have "list_ex (makes_call d) (tr @ calls @ fin)" if "ToolInputStart d name \<in> set (tr @ calls @ fin)" for d name
  proof -
    have "ToolInputStart d name \<in> set (tool_events (tr @ calls @ fin))" using that by simp
    then have "ToolInputStart d name \<in> set (tool_events tr @ calls)" using o lo by auto
    then have "list_ex (starts_call d) (tool_events tr @ calls)" by (force simp: list_ex_iff)
    with kept_flush(2) [of "tool_events tr" ts from_str calls ts' d] t f
    have "list_ex (makes_call d) (tool_events tr @ calls)" by (simp add: core_traced_def)
    then show ?thesis by (auto simp: list_ex_iff)
  qed
  with sh g e show "stream_complete from_str (tr @ calls @ fin)" by (auto simp: stream_complete_def)
  show "lc_finished lc'" using l by (auto simp: lc_finish_def split: if_splits prod.splits)
qed

lemma map_prod_Inr: "map_prod Inr id p = (Inr out, s) \<longleftrightarrow> p = (out, s)"
  by (cases p) auto

section \<open>The contract of a protocol decoder\<close>

locale response_decoder =
  fixes on_frame :: "'d \<Rightarrow> 'f \<Rightarrow> (llm_error + llm_event list) \<times> 'd"
    and finish :: "'d \<Rightarrow> (llm_error + llm_event list) \<times> 'd"
    and traced :: "llm_event list \<Rightarrow> 'd \<Rightarrow> bool"
    and accepted :: "'f \<Rightarrow> bool"
    and complete :: "llm_event list \<Rightarrow> bool"
  assumes frame_keeps: "traced tr d \<Longrightarrow> accepted f \<Longrightarrow> on_frame d f = (Inr evs, d') \<Longrightarrow> traced (tr @ evs) d'"
    and finish_completes: "traced tr d \<Longrightarrow> finish d = (Inr evs, d') \<Longrightarrow> complete (tr @ evs) \<and> finish d' = (Inr [], d')"
begin

lemma frames_keep:
  "traced tr d \<Longrightarrow> \<forall>f\<in>set fs. accepted f \<Longrightarrow> on_frames on_frame d fs = (Inr evs, d') \<Longrightarrow> traced (tr @ evs) d'"
proof (induction fs arbitrary: tr d evs)
  case (Cons f fs)
  from Cons.prems(3) obtain e1 d1 e2 where "on_frame d f = (Inr e1, d1)" "on_frames on_frame d1 fs = (Inr e2, d')"
    "evs = e1 @ e2" by (auto split: prod.splits sum.splits)
  with Cons.IH [OF frame_keeps] Cons.prems(1,2) show ?case by fastforce
qed simp

lemma decoded_complete:
  "traced [] d0 \<Longrightarrow> \<forall>f\<in>set fs. accepted f \<Longrightarrow> on_frames on_frame d0 fs = (Inr evs, d) \<Longrightarrow>
   finish d = (Inr fin, d') \<Longrightarrow> complete (evs @ fin) \<and> finish d' = (Inr [], d')"
  using frames_keep [of "[]" d0 fs evs d] finish_completes [of evs d fin d'] by simp

end

end
