(* ===== verification/OpenAiChat.thy ===== *)
theory OpenAiChat
  imports Decoders Requests
begin

text \<open>
  The Chat Completions protocol (\<open>browser-use-llm/src/protocols/openai_chat.rs\<close>): the request body
  and the decoder of the streamed response. \<open>include_image_content\<close> is the flag of the adapter;
  endpoints that take no images get textual notes instead. \<open>serde_json::from_str\<close> is the parameter
  \<open>from_str\<close>, \<open>serde_json::to_string\<close> is \<open>show_json\<close>.
\<close>

section \<open>Request body\<close>

definition text_json :: "string \<Rightarrow> json" where
  "text_json t = JObj [(''text'', JStr t), (''type'', JStr ''text'')]"

definition chat_image_part :: "string \<Rightarrow> string option \<Rightarrow> string option \<Rightarrow> string option \<Rightarrow> json option" where
  "chat_image_part mime data url detail =
     (if \<not> starts_with ''image/'' mime then None
      else case (url, data) of
        (None, None) \<Rightarrow> None
      | (Some u, _) \<Rightarrow>
          Some (JObj [(''image_url'', JObj [(''detail'', JStr (unwrap_or ''auto'' detail)), (''url'', JStr u)]),
                      (''type'', JStr ''image_url'')])
      | (None, Some d) \<Rightarrow>
          Some (JObj [(''image_url'', JObj [(''detail'', JStr (unwrap_or ''auto'' detail)),
                        (''url'', JStr (''data:'' @ mime @ '';base64,'' @ d))]),
                      (''type'', JStr ''image_url'')]))"

definition omitted_image_text :: string where
  "omitted_image_text = ''[image omitted: selected model endpoint does not accept image content]''"

type_synonym content_acc = "string \<times> json list \<times> bool"

definition append_omitted_image_text :: "content_acc \<Rightarrow> content_acc" where
  "append_omitted_image_text acc =
     (case acc of (text, parts, media) \<Rightarrow> (text @ omitted_image_text, parts @ [text_json omitted_image_text], media))"

text \<open>One part that is not a tool result.\<close>

fun append_plain_part :: "bool \<Rightarrow> content_part \<Rightarrow> content_acc \<Rightarrow> content_acc" where
  "append_plain_part inc (PText fragment _) (text, parts, media) =
     (text @ fragment, if fragment = [] then parts else parts @ [text_json fragment], media)"
| "append_plain_part inc (PReasoning fragment _ _) (text, parts, media) =
     (text @ fragment, if fragment = [] then parts else parts @ [text_json fragment], media)"
| "append_plain_part inc (PMedia mime data url detail) (text, parts, media) =
     (if inc then
        (case chat_image_part mime data url detail of
           Some img \<Rightarrow> (text, parts @ [img], True)
         | None \<Rightarrow> (text, parts, media))
      else if starts_with ''image/'' mime then append_omitted_image_text (text, parts, media)
      else (text, parts, media))"
| "append_plain_part inc _ acc = acc"

function append_chat_content_parts :: "bool \<Rightarrow> content_part list \<Rightarrow> content_acc \<Rightarrow> content_acc" where
  "append_chat_content_parts inc [] acc = acc"
| "append_chat_content_parts inc (part # rest) acc =
     (case part of
        PToolResult _ content _ \<Rightarrow>
          append_chat_content_parts inc rest (append_chat_content_parts inc content acc)
      | _ \<Rightarrow> append_chat_content_parts inc rest (append_plain_part inc part acc))"
  by pat_completeness auto
termination
  by (relation "measure (\<lambda>(inc, parts, acc). size_list size parts)") auto

fun user_content_step :: "bool \<Rightarrow> content_acc \<Rightarrow> content_part \<Rightarrow> content_acc" where
  "user_content_step inc acc (PToolResult _ content _) = append_chat_content_parts inc content acc"
| "user_content_step inc acc part = append_plain_part inc part acc"

definition build_user_content :: "message \<Rightarrow> bool \<Rightarrow> json" where
  "build_user_content m inc =
     (case foldl (user_content_step inc) ([], [], False) (msg_content m) of
        (text, parts, has_media) \<Rightarrow> if has_media then JArr parts else JStr text)"

definition collect_text :: "message \<Rightarrow> string" where
  "collect_text m = concat (map (\<lambda>p. case p of PText t _ \<Rightarrow> t | _ \<Rightarrow> []) (msg_content m))"

definition build_simple_message :: "string \<Rightarrow> message \<Rightarrow> bool \<Rightarrow> json" where
  "build_simple_message role m inc =
     (if role = ''user''
      then JObj [(''content'', build_user_content m inc), (''role'', JStr role)]
      else JObj [(''content'', JStr (collect_text m)), (''role'', JStr role)])"

fun chat_tool_call :: "content_part \<Rightarrow> json option" where
  "chat_tool_call (PToolCall d name input meta) =
     Some (put_opt ''provider_metadata'' meta
       (JObj [(''function'', JObj [(''arguments'', JStr (show_json input)), (''name'', JStr name)]),
              (''id'', JStr d), (''type'', JStr ''function'')]))"
| "chat_tool_call _ = None"

definition build_assistant_message :: "message \<Rightarrow> json" where
  "build_assistant_message m =
     (let tool_calls = List.map_filter chat_tool_call (msg_content m);
          text = collect_text m
      in put_when (tool_calls \<noteq> []) ''tool_calls'' (JArr tool_calls)
           (put_when (text \<noteq> [] \<or> tool_calls = []) ''content'' (JStr text)
              (JObj [(''role'', JStr ''assistant'')])))"

function collect_tool_result_text_and_images :: "content_part list \<Rightarrow> string \<times> nat \<Rightarrow> string \<times> nat" where
  "collect_tool_result_text_and_images [] acc = acc"
| "collect_tool_result_text_and_images (part # rest) acc =
     collect_tool_result_text_and_images rest
       (case part of
          PText fragment _ \<Rightarrow> (fst acc @ fragment, snd acc)
        | PReasoning fragment _ _ \<Rightarrow> (fst acc @ fragment, snd acc)
        | PMedia mime _ _ _ \<Rightarrow> (fst acc, if starts_with ''image/'' mime then snd acc + 1 else snd acc)
        | PToolResult _ content _ \<Rightarrow> collect_tool_result_text_and_images content acc
        | PToolCall _ _ _ _ \<Rightarrow> acc)"
  by pat_completeness auto
termination
  by (relation "measure (\<lambda>(parts, acc). size_list size parts)") auto

definition tool_result_text_for_chat :: "content_part list \<Rightarrow> bool \<Rightarrow> string" where
  "tool_result_text_for_chat content inc =
     (let (text, image_count) = collect_tool_result_text_and_images content ([], 0) in
      if image_count > 0 then
        (let text = (if text \<noteq> [] then text @ [CHR 0x0A] else text) in
         text @ ''['' @ show_nat image_count
           @ (if inc then '' image(s) attached in the following visual context message]''
              else '' image(s) omitted because this model endpoint does not accept image content]''))
      else text)"

function append_tool_result_images :: "content_part list \<Rightarrow> json list \<Rightarrow> json list" where
  "append_tool_result_images [] parts = parts"
| "append_tool_result_images (part # rest) parts =
     append_tool_result_images rest
       (case part of
          PMedia mime data url detail \<Rightarrow>
            (case chat_image_part mime data url detail of Some img \<Rightarrow> parts @ [img] | None \<Rightarrow> parts)
        | PToolResult _ content _ \<Rightarrow> append_tool_result_images content parts
        | _ \<Rightarrow> parts)"
  by pat_completeness auto
termination
  by (relation "measure (\<lambda>(content, parts). size_list size content)") auto

definition tool_result_visual_context :: "string \<Rightarrow> content_part list \<Rightarrow> bool \<Rightarrow> json option" where
  "tool_result_visual_context call_id content inc =
     (let first = text_json
            (if inc then ''Visual context from tool call '' @ call_id @ ''. Use these images as the tool result.''
             else ''Visual output from tool call '' @ call_id
               @ '' was omitted because this model endpoint does not accept image content. Continue using text, DOM state, and browser script inspection instead.'')
      in if inc then
           (let parts = append_tool_result_images content [first] in
            if length parts > 1 then Some (JObj [(''content'', JArr parts), (''role'', JStr ''user'')]) else None)
         else if snd (collect_tool_result_text_and_images content ([], 0)) > 0
              then Some (JObj [(''content'', JArr [first]), (''role'', JStr ''user'')]) else None)"

fun append_tool_messages :: "content_part list \<Rightarrow> bool \<Rightarrow> json list" where
  "append_tool_messages [] inc = []"
| "append_tool_messages (PToolResult call_id content _ # _) inc =
     JObj [(''content'', JStr (tool_result_text_for_chat content inc)), (''role'', JStr ''tool''),
           (''tool_call_id'', JStr call_id)]
     # (case tool_result_visual_context call_id content inc of Some v \<Rightarrow> [v] | None \<Rightarrow> [])"
| "append_tool_messages (_ # rest) inc = append_tool_messages rest inc"

definition append_message :: "message \<Rightarrow> bool \<Rightarrow> json list" where
  "append_message m inc =
     (case msg_role m of
        RTool \<Rightarrow> append_tool_messages (msg_content m) inc
      | RAssistant \<Rightarrow> [build_assistant_message m]
      | RSystem \<Rightarrow> [build_simple_message ''system'' m inc]
      | RDeveloper \<Rightarrow> [build_simple_message ''developer'' m inc]
      | RUser \<Rightarrow> [build_simple_message ''user'' m inc])"

fun chat_tool_choice :: "tool_choice \<Rightarrow> json" where
  "chat_tool_choice ChoiceAuto = JStr ''auto''"
| "chat_tool_choice ChoiceNone = JStr ''none''"
| "chat_tool_choice ChoiceRequired = JStr ''required''"
| "chat_tool_choice (ChoiceTool name) = JObj [(''function'', JObj [(''name'', JStr name)]), (''type'', JStr ''function'')]"

definition chat_tool :: "tool_definition \<Rightarrow> json" where
  "chat_tool t = JObj [(''function'', JObj [(''description'', JStr (td_description t)), (''name'', JStr (td_name t)),
                          (''parameters'', td_input_schema t)]),
                       (''type'', JStr ''function'')]"

definition chat_apply_generation :: "generation_options \<Rightarrow> json \<Rightarrow> json" where
  "chat_apply_generation g body =
     put_when (gen_stop g \<noteq> []) ''stop'' (JArr (map JStr (gen_stop g)))
       (put_opt ''reasoning_effort'' (map_option (\<lambda>e. JStr (reasoning_effort_str e)) (gen_reasoning_effort g))
         (put_opt ''max_tokens'' (map_option (\<lambda>n. JNum (int n)) (gen_max_tokens g))
           (put_opt ''top_p'' (gen_top_p g) (put_opt ''temperature'' (gen_temperature g) body))))"

definition chat_messages :: "llm_request \<Rightarrow> bool \<Rightarrow> json list" where
  "chat_messages req inc =
     (if rq_system req = [] then []
      else [JObj [(''content'', JStr (join_with [CHR 0x0A, CHR 0x0A] (map sys_text (rq_system req)))),
                  (''role'', JStr ''system'')]])
     @ concat (map (\<lambda>m. append_message m inc) (rq_messages req))"

definition chat_build_body :: "bool \<Rightarrow> llm_request \<Rightarrow> llm_error + json" where
  "chat_build_body inc req =
     (let body = json_insert ''messages'' (JArr (chat_messages req inc)) (JObj [(''model'', JStr (rq_model req))]);
          body = put_when (rq_tools req \<noteq> []) ''tools'' (JArr (map chat_tool (rq_tools req))) body;
          body = put_opt ''tool_choice'' (map_option chat_tool_choice (rq_tool_choice req)) body;
          body = chat_apply_generation (rq_generation req) body;
          body = (case rq_provider_options req of Some (JObj kvs) \<Rightarrow> extend_missing kvs body | _ \<Rightarrow> body);
          body = json_insert ''stream'' (JBool True) body
      in Inr (json_insert ''stream_options'' (JObj [(''include_usage'', JBool True)]) body))"

section \<open>Properties of the body\<close>

text \<open>The calls and answers of a neutral message and of a message on the wire.\<close>

definition message_pairing :: "message \<Rightarrow> pairing list" where
  "message_pairing m =
     (case msg_role m of
        RAssistant \<Rightarrow> map Calls (List.map_filter call_id_of (msg_content m))
      | RTool \<Rightarrow> (case find_map result_id_of (msg_content m) of Some d \<Rightarrow> [Answers d] | None \<Rightarrow> [])
      | _ \<Rightarrow> [])"

definition wire_pairing :: "json \<Rightarrow> pairing list" where
  "wire_pairing j =
     (case Option.bind (json_get j ''tool_calls'') as_array of
        Some cs \<Rightarrow> map Calls (List.map_filter (\<lambda>c. get_str c ''id'') cs) | None \<Rightarrow> [])
     @ (case get_str j ''tool_call_id'' of Some d \<Rightarrow> [Answers d] | None \<Rightarrow> [])"

definition text_json_part :: "json \<Rightarrow> bool" where
  "text_json_part p \<longleftrightarrow> get_str p ''type'' = Some ''text''"

definition text_only :: "json \<Rightarrow> bool" where
  "text_only j \<longleftrightarrow>
     (case json_get j ''content'' of
        None \<Rightarrow> True
      | Some c \<Rightarrow> (case c of JStr _ \<Rightarrow> True | JArr ps \<Rightarrow> list_all text_json_part ps | _ \<Rightarrow> False))"

lemma tool_call_wire_id: "chat_tool_call p = Some c \<Longrightarrow> get_str c ''id'' = call_id_of p"
  by (cases p) (auto simp: get_str_def put_get)

lemma tool_calls_wire: "List.map_filter (\<lambda>c. get_str c ''id'') (List.map_filter chat_tool_call ps) = List.map_filter call_id_of ps"
proof (induction ps)
  case (Cons p ps)
  have "chat_tool_call p = None \<longleftrightarrow> call_id_of p = None" by (cases p) auto
  with Cons tool_call_wire_id [of p] show ?case by (cases "chat_tool_call p") (auto simp: map_filter_simps)
qed (simp add: map_filter_simps)

lemma assistant_wire:
  "wire_pairing (build_assistant_message m) = map Calls (List.map_filter call_id_of (msg_content m))"
  "text_only (build_assistant_message m)"
  using tool_calls_wire [of "msg_content m"]
  by (auto simp: build_assistant_message_def wire_pairing_def Let_def put_get get_str_def map_filter_simps text_only_def)

lemma tool_messages_wire:
  "concat (map wire_pairing (append_tool_messages ps inc))
     = (case find_map result_id_of ps of Some d \<Rightarrow> [Answers d] | None \<Rightarrow> [])"
  by (induction ps inc rule: append_tool_messages.induct)
     (auto simp: wire_pairing_def get_str_def tool_result_visual_context_def Let_def split: option.splits)

lemma tool_messages_text: "list_all text_only (append_tool_messages ps False)"
  by (induction ps "False" rule: append_tool_messages.induct)
     (auto simp: text_only_def tool_result_visual_context_def Let_def text_json_def text_json_part_def get_str_def
       split: option.splits)

definition acc_text_only :: "content_acc \<Rightarrow> bool" where
  "acc_text_only acc \<longleftrightarrow> list_all text_json_part (fst (snd acc)) \<and> \<not> snd (snd acc)"

lemma text_json_is_text [simp]: "text_json_part (text_json t)"
  by (simp add: text_json_part_def text_json_def get_str_def)

lemma plain_part_text: "acc_text_only acc \<Longrightarrow> acc_text_only (append_plain_part False p acc)"
  by (cases p; cases acc) (auto simp: acc_text_only_def append_omitted_image_text_def)

lemma content_parts_text: "acc_text_only acc \<Longrightarrow> acc_text_only (append_chat_content_parts False ps acc)"
proof (induction "False" ps acc rule: append_chat_content_parts.induct)
  case (2 part rest acc)
  then show ?case by (cases part) (simp_all add: plain_part_text)
qed simp

lemma user_step_text: "acc_text_only acc \<Longrightarrow> acc_text_only (user_content_step False acc p)"
  by (cases p) (simp_all add: plain_part_text content_parts_text)

lemma user_content_text: "acc_text_only acc \<Longrightarrow> acc_text_only (foldl (user_content_step False) acc ps)"
  by (induction ps arbitrary: acc) (simp_all add: user_step_text)

lemma simple_wire:
  "wire_pairing (build_simple_message role m inc) = []" "text_only (build_simple_message role m False)"
  using user_content_text [of "([], [], False)" "msg_content m"]
  by (auto simp: build_simple_message_def wire_pairing_def get_str_def text_only_def build_user_content_def
      acc_text_only_def split: prod.splits)

lemma message_wire:
  "concat (map wire_pairing (append_message m inc)) = message_pairing m"
  "list_all text_only (append_message m False)"
  by (simp_all add: append_message_def message_pairing_def assistant_wire tool_messages_wire tool_messages_text
      simple_wire split: message_role.split)

lemma messages_wire:
  "concat (map wire_pairing (chat_messages req inc)) = concat (map message_pairing (rq_messages req))"
  "list_all text_only (chat_messages req False)"
proof -
  have "concat (map wire_pairing (concat (map (\<lambda>m. append_message m inc) ms))) = concat (map message_pairing ms)" for ms
    by (induction ms) (simp_all add: message_wire)
  then show "concat (map wire_pairing (chat_messages req inc)) = concat (map message_pairing (rq_messages req))"
    by (simp add: chat_messages_def wire_pairing_def get_str_def)
  have "list_all text_only (concat (map (\<lambda>m. append_message m False) ms))" for ms
    by (induction ms) (simp_all add: message_wire)
  then show "list_all text_only (chat_messages req False)" by (simp add: chat_messages_def text_only_def)
qed

lemma body_messages:
  "\<exists>body. chat_build_body inc req = Inr body \<and> json_get body ''messages'' = Some (JArr (chat_messages req inc))
     \<and> json_get body ''stream'' = Some (JBool True)"
  by (auto simp: chat_build_body_def Let_def json_get_insert chat_apply_generation_def put_get
      intro!: extend_missing_keeps split: option.splits json.splits)

text \<open>The request body of the chat protocol always builds, asks for a stream, and its messages
  make exactly the calls and answers of the conversation, with the same ids and in the same order (of a
  tool message the first result, the only one the format can carry). An adapter for an endpoint without
  image support sends no image part in any message, however deep the image was nested in tool
  results.\<close>

lemma chat_body_faithful:
  "\<exists>body msgs. chat_build_body inc req = Inr body \<and> json_get body ''messages'' = Some (JArr msgs)
     \<and> json_get body ''stream'' = Some (JBool True)
     \<and> concat (map wire_pairing msgs) = concat (map message_pairing (rq_messages req))
     \<and> (inc \<or> list_all text_only msgs)"
  using body_messages [of inc req] messages_wire [of req] by (cases inc) fastforce+

section \<open>Decoder\<close>

record chat_stream =
  ch_lifecycle :: lifecycle_state
  ch_tools :: tool_stream
  ch_tool_ids :: "int \<rightharpoonup> string"
  ch_finish_reason :: "finish_reason option"
  ch_usage :: usage

definition chat_stream_new :: chat_stream where
  "chat_stream_new = \<lparr> ch_lifecycle = lifecycle_new, ch_tools = tool_stream_new, ch_tool_ids = Map.empty,
                        ch_finish_reason = None, ch_usage = usage_default \<rparr>"

definition chat_text_id :: string where "chat_text_id = ''0''"
definition chat_reasoning_id :: string where "chat_reasoning_id = ''reasoning''"

definition map_finish_reason :: "string \<Rightarrow> finish_reason" where
  "map_finish_reason reason =
     (if reason = ''stop'' then FrStop else if reason = ''length'' then FrLength
      else if reason = ''tool_calls'' \<or> reason = ''function_call'' then FrToolUse
      else if reason = ''content_filter'' then FrContentFilter else FrOther)"

definition u64_at :: "json \<Rightarrow> string \<Rightarrow> 64 word" where
  "u64_at j k = of_int (unwrap_or 0 (Option.bind (json_get j k) as_u64))"

definition parse_usage :: "json \<Rightarrow> usage" where
  "parse_usage u =
     \<lparr> input_tokens = u64_at u ''prompt_tokens'',
       cached_input_tokens = (case json_get u ''prompt_tokens_details'' of
          Some d \<Rightarrow> u64_at d ''cached_tokens'' | None \<Rightarrow> 0),
       cache_creation_input_tokens = 0,
       output_tokens = u64_at u ''completion_tokens'',
       reasoning_output_tokens = (case json_get u ''completion_tokens_details'' of
          Some d \<Rightarrow> u64_at d ''reasoning_tokens'' | None \<Rightarrow> 0),
       total_tokens = u64_at u ''total_tokens'' \<rparr>"

definition chat_call_metadata :: "json \<Rightarrow> json option" where
  "chat_call_metadata call =
     opt_filter (\<lambda>v. v \<noteq> JNull) (or_else (json_get call ''provider_metadata'') (json_get call ''browser_use''))"

text \<open>The stable id of a fragment; an index seen for the first time is recorded.\<close>

definition chat_call_id :: "chat_stream \<Rightarrow> json \<Rightarrow> string option \<times> chat_stream" where
  "chat_call_id s call =
     (let explicit_id = opt_filter (\<lambda>i. i \<noteq> []) (get_str call ''id'') in
      case Option.bind (json_get call ''index'') as_u64 of
        Some index \<Rightarrow>
          (case ch_tool_ids s index of
             Some d \<Rightarrow> (Some d, s)
           | None \<Rightarrow> (let d = unwrap_or (show_int index) explicit_id in
                      (Some d, s\<lparr> ch_tool_ids := (ch_tool_ids s)(index \<mapsto> d) \<rparr>)))
      | None \<Rightarrow> (explicit_id, s))"

definition handle_tool_call :: "chat_stream \<Rightarrow> json \<Rightarrow> llm_event list \<times> chat_stream" where
  "handle_tool_call s call =
     (case chat_call_id s call of
        (None, s1) \<Rightarrow> ([], s1)
      | (Some d, s1) \<Rightarrow>
          (let f = json_get call ''function'';
               name = opt_filter (\<lambda>n. n \<noteq> []) (Option.bind f (\<lambda>f. get_str f ''name''));
               tools = ts_set_provider_metadata (ch_tools s1) d (chat_call_metadata call);
               fragment = unwrap_or [] (Option.bind f (\<lambda>f. get_str f ''arguments''))
           in if fragment = [] then
                (case name of
                   Some n \<Rightarrow> (let (out, tools) = ts_start tools d n None in (out, s1\<lparr> ch_tools := tools \<rparr>))
                 | None \<Rightarrow> ([], s1\<lparr> ch_tools := tools \<rparr>))
              else (let (out, tools) = ts_delta tools d name fragment in (out, s1\<lparr> ch_tools := tools \<rparr>))))"

text \<open>The three parts of a delta.\<close>

definition chat_text :: "chat_stream \<Rightarrow> json \<Rightarrow> llm_event list \<times> chat_stream" where
  "chat_text s delta =
     (case opt_filter (\<lambda>c. c \<noteq> []) (get_str delta ''content'') of
        Some content \<Rightarrow>
          (let (out, lc) = lc_text_delta (ch_lifecycle s) chat_text_id content None in (out, s\<lparr> ch_lifecycle := lc \<rparr>))
      | None \<Rightarrow> ([], s))"

definition chat_reasoning :: "chat_stream \<Rightarrow> json \<Rightarrow> llm_event list \<times> chat_stream" where
  "chat_reasoning s delta =
     (case opt_filter (\<lambda>r. r \<noteq> [])
             (Option.bind (or_else (json_get delta ''reasoning'') (json_get delta ''reasoning_content'')) as_str) of
        Some reasoning \<Rightarrow>
          (let (out, lc) = lc_reasoning_delta (ch_lifecycle s) chat_reasoning_id reasoning in
           (out, s\<lparr> ch_lifecycle := lc \<rparr>))
      | None \<Rightarrow> ([], s))"

definition chat_delta :: "chat_stream \<Rightarrow> json \<Rightarrow> llm_event list \<times> chat_stream" where
  "chat_delta s delta =
     (let (e1, s1) = chat_text s delta;
          (e2, s2) = chat_reasoning s1 delta;
          (e3, s3) = run_emit handle_tool_call s2
                       (unwrap_or [] (Option.bind (json_get delta ''tool_calls'') as_array))
      in (e1 @ e2 @ e3, s3))"

definition chat_choice :: "chat_stream \<Rightarrow> json \<Rightarrow> llm_event list \<times> chat_stream" where
  "chat_choice s choice =
     (let (events, s1) = (case json_get choice ''delta'' of Some delta \<Rightarrow> chat_delta s delta | None \<Rightarrow> ([], s))
      in (events, case get_str choice ''finish_reason'' of
                    Some r \<Rightarrow> s1\<lparr> ch_finish_reason := Some (map_finish_reason r) \<rparr> | None \<Rightarrow> s1))"

definition first_choice :: "json \<Rightarrow> json option" where
  "first_choice chunk =
     (case Option.bind (json_get chunk ''choices'') as_array of Some (c # _) \<Rightarrow> Some c | _ \<Rightarrow> None)"

definition chat_on_frame :: "(string \<Rightarrow> string + json) \<Rightarrow> chat_stream \<Rightarrow> text_frame
    \<Rightarrow> (llm_error + llm_event list) \<times> chat_stream" where
  "chat_on_frame from_str s f =
     (let data = str_trim (tf_data f) in
      if data = [] \<or> data = ''[DONE]'' then (Inr [], s)
      else case from_str data of
        Inl e \<Rightarrow> (Inl (llm_error_new Decode (''invalid chat chunk: '' @ e)), s)
      | Inr chunk \<Rightarrow>
          (let s1 = (case opt_filter (\<lambda>u. u \<noteq> JNull) (json_get chunk ''usage'') of
                       Some u \<Rightarrow> s\<lparr> ch_usage := parse_usage u \<rparr> | None \<Rightarrow> s)
           in case first_choice chunk of
                None \<Rightarrow> (Inr [], s1)
              | Some choice \<Rightarrow> (let (events, s2) = chat_choice s1 choice in (Inr events, s2))))"

definition chat_finish :: "(string \<Rightarrow> string + json) \<Rightarrow> chat_stream
    \<Rightarrow> (llm_error + llm_event list) \<times> chat_stream" where
  "chat_finish from_str s =
     (if lc_finished (ch_lifecycle s) then (Inr [], s)
      else let (e1, lc1) = lc_text_end (ch_lifecycle s) chat_text_id None;
               (e2, lc2) = lc_reasoning_end lc1 chat_reasoning_id
           in case ts_flush from_str (ch_tools s) of
                (Inl e, ts) \<Rightarrow> (Inl e, s\<lparr> ch_lifecycle := lc2, ch_tools := ts \<rparr>)
              | (Inr calls, ts) \<Rightarrow>
                  (let u = ch_usage s;
                       u = (if total_tokens u = 0 then u\<lparr> total_tokens := computed_total u \<rparr> else u);
                       (fin, lc3) = lc_finish lc2 u (ch_finish_reason s)
                   in (Inr (e1 @ e2 @ calls @ fin),
                       s\<lparr> ch_lifecycle := lc3, ch_tools := ts, ch_usage := u \<rparr>)))"

section \<open>Properties of the decoder\<close>

definition chat_traced :: "(string \<Rightarrow> string + json) \<Rightarrow> llm_event list \<Rightarrow> chat_stream \<Rightarrow> bool" where
  "chat_traced from_str tr s \<longleftrightarrow> core_traced from_str tr (ch_lifecycle s) (ch_tools s)"

lemma call_id_state: "chat_call_id s call = (r, s1) \<Longrightarrow> ch_lifecycle s1 = ch_lifecycle s \<and> ch_tools s1 = ch_tools s"
  by (auto simp: chat_call_id_def Let_def split: option.splits)

lemma tool_call_traced:
  assumes t: "chat_traced from_str tr s" and h: "handle_tool_call s call = (outs, s')"
  shows "chat_traced from_str (tr @ outs) s'"
proof -
  obtain r s1 where i: "chat_call_id s call = (r, s1)" by fastforce
  have c: "core_traced from_str tr (ch_lifecycle s1) (ts_set_provider_metadata (ch_tools s1) d m)" for d m
    using t call_id_state [OF i] by (simp add: chat_traced_def core_metadata)
  show ?thesis
  proof (cases r)
    case None
    with t h i call_id_state [OF i] show ?thesis by (auto simp: handle_tool_call_def chat_traced_def)
  next
    case (Some d)
    show ?thesis
      using h core_start [OF c [of d "chat_call_metadata call"]] core_delta [OF c [of d "chat_call_metadata call"]]
        c [of d "chat_call_metadata call"]
      unfolding handle_tool_call_def i Some
      by (auto simp: chat_traced_def Let_def split: if_splits option.splits prod.splits)
  qed
qed

interpretation chat_calls: emitting_machine handle_tool_call "chat_traced from_str" for from_str
  by unfold_locales (rule tool_call_traced)

lemma chat_text_traced:
  "chat_traced from_str tr s \<Longrightarrow> chat_text s delta = (outs, s') \<Longrightarrow> chat_traced from_str (tr @ outs) s'"
  by (auto simp: chat_text_def chat_traced_def split: option.splits prod.splits intro: core_text_delta)

lemma chat_reasoning_traced:
  "chat_traced from_str tr s \<Longrightarrow> chat_reasoning s delta = (outs, s') \<Longrightarrow> chat_traced from_str (tr @ outs) s'"
  by (auto simp: chat_reasoning_def chat_traced_def split: option.splits prod.splits intro: core_reasoning_delta)

lemma chat_delta_traced:
  assumes t: "chat_traced from_str tr s" and d: "chat_delta s delta = (outs, s')"
  shows "chat_traced from_str (tr @ outs) s'"
proof -
  obtain e1 s1 where 1: "chat_text s delta = (e1, s1)" by fastforce
  obtain e2 s2 where 2: "chat_reasoning s1 delta = (e2, s2)" by fastforce
  obtain e3 s3 where 3: "run_emit handle_tool_call s2
      (unwrap_or [] (Option.bind (json_get delta ''tool_calls'') as_array)) = (e3, s3)" by fastforce
  have "chat_traced from_str (((tr @ e1) @ e2) @ e3) s3"
    by (rule chat_calls.run_traced [OF chat_reasoning_traced [OF chat_text_traced [OF t 1] 2] 3])
  then show ?thesis using d 1 2 3 by (simp add: chat_delta_def)
qed

lemma chat_traced_simps [simp]:
  "chat_traced from_str tr (s\<lparr> ch_usage := u \<rparr>) = chat_traced from_str tr s"
  "chat_traced from_str tr (s\<lparr> ch_finish_reason := r \<rparr>) = chat_traced from_str tr s"
  by (simp_all add: chat_traced_def)

lemma chat_choice_traced:
  assumes t: "chat_traced from_str tr s" and h: "chat_choice s choice = (outs, s')"
  shows "chat_traced from_str (tr @ outs) s'"
proof -
  obtain e s1 where 1: "(case json_get choice ''delta'' of Some delta \<Rightarrow> chat_delta s delta | None \<Rightarrow> ([], s)) = (e, s1)"
    by fastforce
  then have "chat_traced from_str (tr @ e) s1" using t by (auto split: option.splits dest: chat_delta_traced)
  with h 1 show ?thesis by (auto simp: chat_choice_def split: option.splits)
qed

lemma chat_frame_traced:
  assumes t: "chat_traced from_str tr s" and h: "chat_on_frame from_str s f = (Inr evs, s')"
  shows "chat_traced from_str (tr @ evs) s'"
proof (cases "str_trim (tf_data f) = [] \<or> str_trim (tf_data f) = ''[DONE]''")
  case True
  with t h show ?thesis by (simp add: chat_on_frame_def Let_def)
next
  case False
  with h obtain chunk where c: "from_str (str_trim (tf_data f)) = Inr chunk"
    by (auto simp: chat_on_frame_def Let_def split: sum.splits)
  define s1 where "s1 = (case opt_filter (\<lambda>u. u \<noteq> JNull) (json_get chunk ''usage'') of
                       Some u \<Rightarrow> s\<lparr> ch_usage := parse_usage u \<rparr> | None \<Rightarrow> s)"
  have "chat_traced from_str tr s1" using t by (simp add: s1_def split: option.split)
  with h False c chat_choice_traced [of from_str tr s1] show ?thesis
    by (auto simp: chat_on_frame_def Let_def s1_def [symmetric] split: option.splits prod.splits)
qed

lemma chat_finish_complete:
  assumes t: "chat_traced from_str tr s" and f: "chat_finish from_str s = (Inr evs, s')"
  shows "stream_complete from_str (tr @ evs) \<and> chat_finish from_str s' = (Inr [], s')"
proof -
  have "\<not> lc_finished (ch_lifecycle s)" using t by (simp add: chat_traced_def core_traced_def lc_traced_def)
  moreover obtain e1 lc1 where 1: "lc_text_end (ch_lifecycle s) chat_text_id None = (e1, lc1)" by fastforce
  moreover obtain e2 lc2 where 2: "lc_reasoning_end lc1 chat_reasoning_id = (e2, lc2)" by fastforce
  moreover obtain calls ts where 3: "ts_flush from_str (ch_tools s) = (Inr calls, ts)"
    using f calculation by (cases "ts_flush from_str (ch_tools s)") (auto simp: chat_finish_def split: sum.splits)
  moreover define u where "u = (let u = ch_usage s in if total_tokens u = 0 then u\<lparr> total_tokens := computed_total u \<rparr> else u)"
  moreover obtain fin lc3 where 4: "lc_finish lc2 u (ch_finish_reason s) = (fin, lc3)" by fastforce
  ultimately have evs: "evs = e1 @ e2 @ calls @ fin"
    and s': "s' = s\<lparr> ch_lifecycle := lc3, ch_tools := ts, ch_usage := u \<rparr>"
    using f by (auto simp: chat_finish_def Let_def)
  have "core_traced from_str ((tr @ e1) @ e2) lc2 (ch_tools s)"
    by (rule core_reasoning_end [OF core_text_end [OF t [unfolded chat_traced_def] 1] 2])
  from core_closes [OF this 3 4] evs s' show ?thesis by (simp add: chat_finish_def)
qed

interpretation chat: response_decoder "chat_on_frame from_str" "chat_finish from_str" "chat_traced from_str"
  "\<lambda>_. True" "stream_complete from_str" for from_str
  by unfold_locales (auto intro: chat_frame_traced simp: chat_finish_complete)

text \<open>C14. The chat decoder turns every response it can decode into a finished event stream, however
  text, reasoning and fragments of several tool calls are interleaved over the frames. The whole trace has one
  step start, ends with its step finish and finish, and closes every text and reasoning block that it opens
  between them; each call's input is exactly what its fragments say, no call that was started is lost, and a
  second \<open>finish\<close> adds nothing. The step start need not come first, as \<open>schema/event.rs\<close> announces: events of
  calls that precede all text and reasoning precede it too (\<open>tool_only_step_late\<close>), and no others do.\<close>

theorem chat_stream_complete:
  assumes "on_frames (chat_on_frame from_str) chat_stream_new frames = (Inr evs, s)"
    and "chat_finish from_str s = (Inr fin, s')"
  shows "stream_complete from_str (evs @ fin) \<and> chat_finish from_str s' = (Inr [], s')"
proof -
  have "chat_traced from_str [] chat_stream_new" by (simp add: chat_traced_def chat_stream_new_def core_new)
  from chat.decoded_complete [OF this _ assms] show ?thesis by simp
qed

definition call_frame :: "string \<Rightarrow> text_frame" where
  "call_frame data = \<lparr> tf_event = None, tf_data = data \<rparr>"

text \<open>A parser for the two chunks of the witness and of the example below.\<close>

definition sample_parser :: "string \<Rightarrow> string + json" where
  "sample_parser t =
     (if t = ''call'' then
        Inr (JObj [(''choices'', JArr [JObj [(''delta'', JObj [(''tool_calls'', JArr [
          JObj [(''function'', JObj [(''arguments'', JStr ''args''), (''name'', JStr ''ls'')]), (''id'', JStr ''c1''), (''index'', JNum 0)]])])]])])
      else if t = ''text'' then
        Inr (JObj [(''choices'', JArr [JObj [(''delta'', JObj [(''content'', JStr ''hi'')]), (''finish_reason'', JStr ''stop'')]])])
      else if t = ''args'' then Inr (JObj []) else Inl ''eof'')"

lemma sample_parser_simps:
  "str_trim ''call'' = ''call''" "str_trim ''text'' = ''text''" "str_trim ''args'' = ''args''"
  by code_simp+

lemma sample_run:
  "\<exists>evs s fin s'. on_frames (chat_on_frame sample_parser) chat_stream_new [call_frame ''text'', call_frame ''call''] = (Inr evs, s)
     \<and> chat_finish sample_parser s = (Inr fin, s') \<and> ToolCall ''c1'' ''ls'' None None (JObj []) \<in> set fin"
proof -
  let ?run = "on_frames (chat_on_frame sample_parser) chat_stream_new [call_frame ''text'', call_frame ''call'']"
  let ?fin = "chat_finish sample_parser (snd ?run)"
  have "\<not> isl (fst ?run)" "\<not> isl (fst ?fin)" "ToolCall ''c1'' ''ls'' None None (JObj []) \<in> set (projr (fst ?fin))"
    by code_simp+
  then show ?thesis by (cases ?run; cases "fst ?run"; cases ?fin; cases "fst ?fin") auto
qed

theorem chat_stream_complete_witness:
  "\<exists>evs s fin s'. on_frames (chat_on_frame sample_parser) chat_stream_new [call_frame ''text'', call_frame ''call''] = (Inr evs, s)
     \<and> chat_finish sample_parser s = (Inr fin, s')
     \<and> ToolCall ''c1'' ''ls'' None None (JObj []) \<in> set (evs @ fin) \<and> stream_complete sample_parser (evs @ fin)"
  using sample_run chat_stream_complete by fastforce

text \<open>The text of a response.\<close>

definition chunk_delta :: "(string \<Rightarrow> string + json) \<Rightarrow> text_frame \<Rightarrow> json" where
  "chunk_delta from_str f =
     (let data = str_trim (tf_data f) in
      if data = [] \<or> data = ''[DONE]'' then JNull
      else case from_str data of
        Inl _ \<Rightarrow> JNull
      | Inr chunk \<Rightarrow> unwrap_or JNull (Option.bind (first_choice chunk) (\<lambda>c. json_get c ''delta'')))"

definition chunk_content :: "(string \<Rightarrow> string + json) \<Rightarrow> text_frame \<Rightarrow> string" where
  "chunk_content from_str f = unwrap_or [] (get_str (chunk_delta from_str f) ''content'')"

abbreviation texts_of :: "llm_event list \<Rightarrow> string" where
  "texts_of evs \<equiv> concat (map text_delta_of evs)"

lemma no_text: "tool_events outs = outs \<Longrightarrow> texts_of outs = []"
  unfolding filter_id_conv by (auto elim!: is_tool_event.elims(2))

lemma lc_text_delta_text: "lc_text_delta lc d frag m = (outs, lc') \<Longrightarrow> texts_of outs = frag"
  by (auto simp: lc_text_delta_def ensure_step_def split: if_splits)

lemma lc_reasoning_text: "lc_reasoning_delta lc d frag = (outs, lc') \<Longrightarrow> texts_of outs = []"
  by (auto simp: lc_reasoning_delta_def ensure_step_def split: if_splits)

lemma tool_call_text: "handle_tool_call s call = (outs, s') \<Longrightarrow> texts_of outs = []"
  by (cases "chat_call_id s call")
     (auto simp: handle_tool_call_def Let_def split: option.splits if_splits prod.splits
       dest!: ts_only(1,2) [THEN conjunct1, THEN no_text])

lemma tool_calls_text: "run_emit handle_tool_call s calls = (outs, s') \<Longrightarrow> texts_of outs = []"
proof (induction calls arbitrary: s outs)
  case (Cons c cs)
  obtain o1 s1 o2 s2 where "handle_tool_call s c = (o1, s1)" "run_emit handle_tool_call s1 cs = (o2, s2)" by fastforce
  with Cons tool_call_text [of s c o1 s1] show ?case by auto
qed simp

lemma chat_delta_text:
  assumes "chat_delta s delta = (outs, s')"
  shows "texts_of outs = unwrap_or [] (get_str delta ''content'')"
proof -
  obtain e1 s1 where 1: "chat_text s delta = (e1, s1)" by fastforce
  obtain e2 s2 where 2: "chat_reasoning s1 delta = (e2, s2)" by fastforce
  obtain e3 s3 where 3: "run_emit handle_tool_call s2
      (unwrap_or [] (Option.bind (json_get delta ''tool_calls'') as_array)) = (e3, s3)" by fastforce
  have "texts_of e1 = unwrap_or [] (get_str delta ''content'')"
    using 1 by (cases "get_str delta ''content''")
      (auto simp: chat_text_def lc_text_delta_text split: if_splits prod.splits)
  moreover have "texts_of e2 = []"
    using 2 by (auto simp: chat_reasoning_def split: option.splits prod.splits dest!: lc_reasoning_text)
  moreover note tool_calls_text [OF 3]
  ultimately show ?thesis using assms 1 2 3 by (auto simp: chat_delta_def)
qed

lemma chat_choice_text:
  "chat_choice s choice = (outs, s') \<Longrightarrow>
     texts_of outs = unwrap_or [] (get_str (unwrap_or JNull (json_get choice ''delta'')) ''content'')"
  by (cases "json_get choice ''delta''")
     (auto simp: chat_choice_def get_str_def chat_delta_text [unfolded get_str_def] split: prod.splits)

lemma chat_frame_text:
  "chat_on_frame from_str s f = (Inr evs, s') \<Longrightarrow> texts_of evs = chunk_content from_str f"
  by (cases "from_str (str_trim (tf_data f))"; cases "first_choice (projr (from_str (str_trim (tf_data f))))")
     (auto simp: chat_on_frame_def chunk_content_def chunk_delta_def Let_def get_str_def
       dest!: chat_choice_text [unfolded get_str_def] split: if_splits prod.splits)

lemma chat_frames_text:
  "on_frames (chat_on_frame from_str) s frames = (Inr evs, s') \<Longrightarrow>
     texts_of evs = concat (map (chunk_content from_str) frames)"
proof (induction frames arbitrary: s evs)
  case (Cons f fs)
  then obtain e1 s1 e2 where "chat_on_frame from_str s f = (Inr e1, s1)"
    "on_frames (chat_on_frame from_str) s1 fs = (Inr e2, s')" "evs = e1 @ e2"
    by (auto split: prod.splits sum.splits)
  with Cons.IH chat_frame_text show ?case by fastforce
qed simp

lemma chat_finish_text:
  assumes "chat_finish from_str s = (Inr evs, s')"
  shows "texts_of evs = []"
proof -
  have f: "lc_finish lc u r = (outs, lc') \<Longrightarrow> texts_of outs = []" for lc u r outs lc'
    by (auto simp: lc_finish_def ensure_step_def split: if_splits)
  show ?thesis
    using assms
    by (auto simp: chat_finish_def Let_def lc_text_end_def lc_reasoning_end_def f ts_flush_def
        split: if_splits prod.splits sum.splits dest!: f ts_end_all_only [THEN conjunct1, THEN no_text])
qed

text \<open>The text of the reply is the text on the wire: when the frames of a response decode and
  the decoder finishes, the text parts of the aggregated response, put together, are the
  \<open>content\<close> strings of the first choices' deltas in the order of the frames, nothing lost, doubled
  or reordered; reasoning comes before them and the tool calls after them.\<close>

lemma chat_reply_text:
  assumes "on_frames (chat_on_frame from_str) chat_stream_new frames = (Inr evs, s)"
    and "chat_finish from_str s = (Inr fin, s')"
  shows "\<exists>reasoning texts calls. rsp_content (aggregate (evs @ fin)) = reasoning @ texts @ calls
     \<and> list_all is_text_part texts \<and> \<not> list_ex is_text_part (reasoning @ calls)
     \<and> concat (map text_of_part texts) = concat (map (chunk_content from_str) frames)"
proof -
  have no_calls: "\<not> list_ex is_text_part (List.map_filter call_part_of es)" for es
    by (induction es) (auto simp: map_filter_simps elim!: call_part_of.elims split: option.splits)
  from aggregate_faithful [of "evs @ fin"] obtain texts where
    "rsp_content (aggregate (evs @ fin))
       = (let r = concat (map reasoning_delta_of (evs @ fin)) in if r = [] then [] else [PReasoning r None None])
         @ texts @ List.map_filter call_part_of (evs @ fin)"
    "list_all is_text_part texts" "concat (map text_of_part texts) = texts_of (evs @ fin)"
    by blast
  with chat_frames_text [OF assms(1)] chat_finish_text [OF assms(2)] no_calls show ?thesis
    by (intro exI conjI; assumption?) (auto simp: Let_def split: if_splits)
qed

lemma chat_reply_text_witness:
  "\<exists>evs s fin s' reasoning texts calls.
     on_frames (chat_on_frame sample_parser) chat_stream_new [call_frame ''text'', call_frame ''call''] = (Inr evs, s)
     \<and> chat_finish sample_parser s = (Inr fin, s') \<and> rsp_content (aggregate (evs @ fin)) = reasoning @ texts @ calls
     \<and> concat (map text_of_part texts) = ''hi''"
proof -
  have "concat (map (chunk_content sample_parser) [call_frame ''text'', call_frame ''call'']) = ''hi''" by code_simp
  with sample_run chat_reply_text show ?thesis by metis
qed

text \<open>A response that only calls tools announces its step after the calls: \<open>StepStart\<close> is only
  emitted by the lifecycle, which sees such a response for the first time in \<open>finish\<close>.\<close>

definition chat_decode :: "(string \<Rightarrow> string + json) \<Rightarrow> text_frame list \<Rightarrow> llm_error + llm_event list" where
  "chat_decode from_str frames =
     (case on_frames (chat_on_frame from_str) chat_stream_new frames of
        (Inl e, _) \<Rightarrow> Inl e
      | (Inr evs, s) \<Rightarrow> map_sum id (\<lambda>fin. evs @ fin) (fst (chat_finish from_str s)))"

lemma tool_only_step_late:
  "position (\<lambda>e. e = StepStart) (projr (chat_decode sample_parser [call_frame ''call''])) = Some 4"
  "hd (projr (chat_decode sample_parser [call_frame ''call''])) = ToolInputStart ''c1'' ''ls''"
  by code_simp+

end
