(* ===== verification/Anthropic.thy ===== *)
theory Anthropic
  imports Decoders Requests
begin

text \<open>
  The Anthropic Messages protocol (\<open>browser-use-llm/src/protocols/anthropic_messages.rs\<close>): the
  request body and the decoder of the streamed response. \<open>serde_json::from_str\<close> is the parameter
  \<open>from_str\<close>; the base64 and image crates, and the single-precision computation of the scaled size, are
  the fields of \<open>image_ops\<close>.
\<close>

section \<open>Request body\<close>

record 'img image_ops =
  io_decode :: "string \<Rightarrow> 8 word list option"
  io_load :: "8 word list \<Rightarrow> 'img option"
  io_width :: "'img \<Rightarrow> nat"
  io_height :: "'img \<Rightarrow> nat"
  io_scaled :: "nat \<Rightarrow> nat \<Rightarrow> nat \<times> nat"
  io_png :: "'img \<Rightarrow> nat \<Rightarrow> nat \<Rightarrow> string + 8 word list"
  io_encode :: "8 word list \<Rightarrow> string"

definition anthropic_max_many_image_dimension :: nat where "anthropic_max_many_image_dimension = 2000"
definition anthropic_max_inline_image_base64_chars :: nat where
  "anthropic_max_inline_image_base64_chars = 8 * 1024 * 1024"
definition default_max_tokens :: nat where "default_max_tokens = 16000"

fun cache_control :: "cache_hint \<Rightarrow> json" where
  "cache_control Ephemeral = JObj [(''type'', JStr ''ephemeral'')]"

definition build_system_block :: "system_part \<Rightarrow> json" where
  "build_system_block p =
     put_opt ''cache_control'' (map_option cache_control (sys_cache p))
       (JObj [(''text'', JStr (sys_text p)), (''type'', JStr ''text'')])"

definition anthropic_safe_inline_image ::
  "'img image_ops \<Rightarrow> string \<Rightarrow> string \<Rightarrow> llm_error + (string \<times> string) option" where
  "anthropic_safe_inline_image ops mime data =
     (if \<not> starts_with ''image/'' mime then Inr None
      else if str_bytes data > anthropic_max_inline_image_base64_chars then
        Inl (llm_error_new InvalidRequest
          (''inline image is too large to normalize safely: '' @ show_nat (str_bytes data)
           @ '' base64 chars exceeds '' @ show_nat anthropic_max_inline_image_base64_chars))
      else case io_decode ops data of
        None \<Rightarrow> Inr None
      | Some bytes \<Rightarrow>
          (case io_load ops bytes of
             None \<Rightarrow> Inr None
           | Some img \<Rightarrow>
               if io_width ops img \<le> anthropic_max_many_image_dimension
                  \<and> io_height ops img \<le> anthropic_max_many_image_dimension then Inr None
               else (let (w, h) = io_scaled ops (io_width ops img) (io_height ops img) in
                     case io_png ops img (max w 1) (max h 1) of
                       Inl e \<Rightarrow> Inl (llm_error_new InvalidRequest e)
                     | Inr png \<Rightarrow> Inr (Some (''image/png'', io_encode ops png)))))"

function collect_error_tool_result_text :: "content_part list \<Rightarrow> string list" where
  "collect_error_tool_result_text [] = []"
| "collect_error_tool_result_text (part # rest) =
     (case part of
        PText t _ \<Rightarrow> if str_trim t = [] then [] else [t]
      | PReasoning t _ _ \<Rightarrow> if str_trim t = [] then [] else [t]
      | PMedia mime data url _ \<Rightarrow>
          (let pointer = (case url of
                 Some u \<Rightarrow> '' at '' @ u
               | None \<Rightarrow> (case data of Some _ \<Rightarrow> '' inline'' | None \<Rightarrow> []))
           in [''['' @ mime @ '' media'' @ pointer @ '']''])
      | PToolCall _ name _ _ \<Rightarrow> [''[nested tool call: '' @ name @ '']'']
      | PToolResult _ content _ \<Rightarrow> collect_error_tool_result_text content)
     @ collect_error_tool_result_text rest"
  by pat_completeness auto
termination
  by (relation "measure (size_list size)") auto

definition flatten_error_tool_result_content :: "content_part list \<Rightarrow> string" where
  "flatten_error_tool_result_content content =
     (let chunks = collect_error_tool_result_text content in
      if chunks = [] then ''Tool call failed.'' else join_with [CHR 0x0A] chunks)"

text \<open>Collecting results stops at the first error.\<close>

fun collect_results :: "('a \<Rightarrow> 'e + 'b) \<Rightarrow> 'a list \<Rightarrow> 'e + 'b list" where
  "collect_results f [] = Inr []"
| "collect_results f (x # xs) =
     (case f x of
        Inl e \<Rightarrow> Inl e
      | Inr y \<Rightarrow> map_sum id (\<lambda>ys. y # ys) (collect_results f xs))"

lemma collect_results_cong [fundef_cong]:
  "xs = ys \<Longrightarrow> (\<And>x. x \<in> set ys \<Longrightarrow> f x = g x) \<Longrightarrow> collect_results f xs = collect_results g ys"
  by (induction ys arbitrary: xs) (auto split: sum.splits)

lemma collect_results_ok:
  "collect_results f xs = Inr ys \<longleftrightarrow> list_all2 (\<lambda>x y. f x = Inr y) xs ys"
proof (induction xs arbitrary: ys)
  case (Cons x xs)
  show ?case
  proof (cases "f x")
    case (Inr y)
    show ?thesis
      using Cons Inr by (cases "collect_results f xs") (auto simp: list_all2_Cons1)
  qed (auto simp: list_all2_Cons1)
qed auto

definition media_source ::
  "'img image_ops \<Rightarrow> string \<Rightarrow> string option \<Rightarrow> string option \<Rightarrow> llm_error + json" where
  "media_source ops mime data url =
     (case data of
        Some d \<Rightarrow>
          map_sum id (\<lambda>safe.
            (case unwrap_or (mime, d) safe of
               (media_type, d) \<Rightarrow> JObj [(''data'', JStr d), (''media_type'', JStr media_type), (''type'', JStr ''base64'')]))
            (anthropic_safe_inline_image ops mime d)
      | None \<Rightarrow>
          (case url of
             Some u \<Rightarrow> Inr (JObj [(''type'', JStr ''url''), (''url'', JStr u)])
           | None \<Rightarrow> Inl (llm_error_new InvalidRequest ''media content part has neither data nor url'')))"

fun build_content_block :: "'img image_ops \<Rightarrow> content_part \<Rightarrow> llm_error + json" where
  "build_content_block ops (PText t _) = Inr (JObj [(''text'', JStr t), (''type'', JStr ''text'')])"
| "build_content_block ops (PMedia mime data url _) =
     map_sum id (\<lambda>source. JObj [(''source'', source), (''type'', JStr ''image'')]) (media_source ops mime data url)"
| "build_content_block ops (PToolCall d name input _) =
     Inr (JObj [(''id'', JStr d), (''input'', input), (''name'', JStr name), (''type'', JStr ''tool_use'')])"
| "build_content_block ops (PToolResult call_id content is_error) =
     map_sum id (\<lambda>blocks.
        put_when is_error ''is_error'' (JBool True)
          (JObj [(''content'', JArr blocks), (''tool_use_id'', JStr call_id), (''type'', JStr ''tool_result'')]))
       (if is_error
        then Inr [JObj [(''text'', JStr (flatten_error_tool_result_content content)), (''type'', JStr ''text'')]]
        else collect_results (build_content_block ops) content)"
| "build_content_block ops (PReasoning t signature meta) =
     (let sig = or_else signature (Option.bind meta (\<lambda>md. get_str md ''signature'')) in
      Inr (put_opt ''signature'' (map_option JStr sig)
             (JObj [(''thinking'', JStr t), (''type'', JStr ''thinking'')])))"

text \<open>The cache mark goes to the last block that is an object and no image.\<close>

definition markable :: "json \<Rightarrow> bool" where
  "markable block \<longleftrightarrow> as_object block \<noteq> None \<and> get_str block ''type'' \<noteq> Some ''image''"

definition apply_cache_control :: "cache_hint option \<Rightarrow> json list \<Rightarrow> json list" where
  "apply_cache_control cache content =
     (case cache of
        None \<Rightarrow> content
      | Some c \<Rightarrow>
          (case rposition markable content of
             None \<Rightarrow> content
           | Some i \<Rightarrow> content[i := json_insert ''cache_control'' (cache_control c) (content ! i)]))"

definition anthropic_role :: "message_role \<Rightarrow> string" where
  "anthropic_role r = (case r of RAssistant \<Rightarrow> ''assistant'' | _ \<Rightarrow> ''user'')"

definition build_message :: "'img image_ops \<Rightarrow> message \<Rightarrow> llm_error + json" where
  "build_message ops m =
     map_sum id (\<lambda>content. JObj [(''content'', JArr (apply_cache_control (msg_cache m) content)),
                                  (''role'', JStr (anthropic_role (msg_role m)))])
       (collect_results (build_content_block ops) (msg_content m))"

definition anthropic_tool :: "tool_definition \<Rightarrow> json" where
  "anthropic_tool t =
     json_insert ''input_schema'' (td_input_schema t)
       (put_when (td_description t \<noteq> []) ''description'' (JStr (td_description t))
          (JObj [(''name'', JStr (td_name t))]))"

definition anthropic_tools :: "tool_definition list \<Rightarrow> json list" where
  "anthropic_tools ts =
     (let tools = map anthropic_tool ts in
      butlast tools @ [json_insert ''cache_control'' (cache_control Ephemeral) (last tools)])"

fun anthropic_tool_choice :: "tool_choice \<Rightarrow> json" where
  "anthropic_tool_choice ChoiceAuto = JObj [(''type'', JStr ''auto'')]"
| "anthropic_tool_choice ChoiceRequired = JObj [(''type'', JStr ''any'')]"
| "anthropic_tool_choice ChoiceNone = JObj [(''type'', JStr ''none'')]"
| "anthropic_tool_choice (ChoiceTool name) = JObj [(''name'', JStr name), (''type'', JStr ''tool'')]"

definition anthropic_build_body :: "'img image_ops \<Rightarrow> llm_request \<Rightarrow> llm_error + json" where
  "anthropic_build_body ops req =
     (let g = rq_generation req;
          body = json_insert ''stream'' (JBool True)
                   (JObj [(''max_tokens'', JNum (int (unwrap_or default_max_tokens (gen_max_tokens g)))),
                          (''model'', JStr (rq_model req))]);
          body = put_opt ''top_p'' (gen_top_p g) (put_opt ''temperature'' (gen_temperature g) body);
          body = put_when (gen_stop g \<noteq> []) ''stop_sequences'' (JArr (map JStr (gen_stop g))) body;
          body = put_when (rq_system req \<noteq> []) ''system'' (JArr (map build_system_block (rq_system req))) body
      in case collect_results (build_message ops) (rq_messages req) of
           Inl e \<Rightarrow> Inl e
         | Inr messages \<Rightarrow>
             (let body = json_insert ''messages'' (JArr messages) body;
                  body = put_when (rq_tools req \<noteq> []) ''tools'' (JArr (anthropic_tools (rq_tools req))) body
              in Inr (put_opt ''tool_choice'' (map_option anthropic_tool_choice (rq_tool_choice req)) body)))"

section \<open>Properties of the body\<close>

fun sendable :: "'img image_ops \<Rightarrow> content_part \<Rightarrow> bool" where
  "sendable ops (PMedia mime data url _) = (\<not> isl (media_source ops mime data url))"
| "sendable ops (PToolResult _ content is_error) = (is_error \<or> list_all (sendable ops) content)"
| "sendable ops _ = True"

definition block_pairing :: "json \<Rightarrow> pairing list" where
  "block_pairing b =
     (case get_str b ''type'' of
        Some t \<Rightarrow>
          (if t = ''tool_use'' then (case get_str b ''id'' of Some d \<Rightarrow> [Calls d] | None \<Rightarrow> [])
           else if t = ''tool_result'' then (case get_str b ''tool_use_id'' of Some d \<Rightarrow> [Answers d] | None \<Rightarrow> [])
           else [])
      | None \<Rightarrow> [])"

definition message_blocks :: "json \<Rightarrow> json list" where
  "message_blocks m = unwrap_or [] (Option.bind (json_get m ''content'') as_array)"

lemma collect_results_isl: "isl (collect_results f xs) \<longleftrightarrow> list_ex (\<lambda>x. isl (f x)) xs"
proof (induction xs)
  case (Cons x xs)
  then show ?case by (cases "f x") simp_all
qed simp

lemma block_isl: "isl (build_content_block ops p) \<longleftrightarrow> \<not> sendable ops p"
proof (induction p rule: build_content_block.induct)
  case (4 ops call_id content is_error)
  then show ?case by (auto simp: collect_results_isl list_all_iff list_ex_iff)
qed (simp_all add: Let_def)

lemma block_pairing_of: "build_content_block ops p = Inr b \<Longrightarrow> block_pairing b = part_pairing p"
proof (cases p)
  case (PMedia mime data url detail)
  assume "build_content_block ops p = Inr b"
  with PMedia obtain src where "b = JObj [(''source'', src), (''type'', JStr ''image'')]"
    by (cases "media_source ops mime data url") auto
  with PMedia show ?thesis by (simp add: block_pairing_def part_pairing_def get_str_def)
next
  case (PToolResult d content e)
  assume "build_content_block ops p = Inr b"
  with PToolResult obtain blocks where "b = put_when e ''is_error'' (JBool True)
      (JObj [(''content'', JArr blocks), (''tool_use_id'', JStr d), (''type'', JStr ''tool_result'')])"
    by (cases "collect_results (build_content_block ops) content") (auto split: if_splits)
  with PToolResult show ?thesis by (simp add: block_pairing_def part_pairing_def get_str_def put_get)
qed (auto simp: block_pairing_def part_pairing_def get_str_def put_get Let_def)

lemma cache_mark_pairing: "block_pairing (json_insert ''cache_control'' v b) = block_pairing b"
  by (simp add: block_pairing_def get_str_insert cong: if_cong option.case_cong)

lemma cache_control_pairing:
  "concat (map block_pairing (apply_cache_control c bs)) = concat (map block_pairing bs)"
proof -
  have "map block_pairing (bs[i := json_insert ''cache_control'' v (bs ! i)]) = map block_pairing bs" for i v
    by (cases "i < length bs", rule nth_equalityI) (auto simp: nth_list_update cache_mark_pairing not_less list_update_beyond)
  then show ?thesis by (simp add: apply_cache_control_def split: option.split)
qed

lemma blocks_pairing:
  "list_all2 (\<lambda>p b. build_content_block ops p = Inr b) ps bs \<Longrightarrow>
     concat (map block_pairing bs) = concat (map part_pairing ps)"
  by (induction rule: list_all2_induct) (simp_all add: block_pairing_of)

lemma message_pairing_of:
  assumes "build_message ops m = Inr j"
  shows "concat (map block_pairing (message_blocks j)) = concat (map part_pairing (msg_content m))"
proof -
  obtain bs where "collect_results (build_content_block ops) (msg_content m) = Inr bs"
    "message_blocks j = apply_cache_control (msg_cache m) bs"
    using assms by (cases "collect_results (build_content_block ops) (msg_content m)")
      (auto simp: build_message_def message_blocks_def)
  then show ?thesis by (simp add: collect_results_ok cache_control_pairing blocks_pairing)
qed

lemma messages_pairing_of:
  "list_all2 (\<lambda>m j. build_message ops m = Inr j) ms js \<Longrightarrow>
     map (\<lambda>j. concat (map block_pairing (message_blocks j))) js = map (\<lambda>m. concat (map part_pairing (msg_content m))) ms"
  by (induction rule: list_all2_induct) (simp_all add: message_pairing_of)

lemma message_isl: "isl (build_message ops m) \<longleftrightarrow> \<not> list_all (sendable ops) (msg_content m)"
  by (simp add: build_message_def collect_results_isl block_isl list_all_iff list_ex_iff)

text \<open>The Anthropic request body is built exactly when every part of every message can be sent: no
  image without data and address, none too large or that cannot be scaled down, unless it is inside a
  failed tool result, which goes out as text. A body that is built has one message per message of the
  conversation, with the same calls and answers under the same ids in the same order.\<close>

lemma anthropic_body_faithful:
  "case anthropic_build_body ops req of
     Inl _ \<Rightarrow> \<not> list_all (\<lambda>m. list_all (sendable ops) (msg_content m)) (rq_messages req)
   | Inr body \<Rightarrow> list_all (\<lambda>m. list_all (sendable ops) (msg_content m)) (rq_messages req)
       \<and> json_get body ''stream'' = Some (JBool True)
       \<and> (\<exists>msgs. json_get body ''messages'' = Some (JArr msgs)
            \<and> map (\<lambda>j. concat (map block_pairing (message_blocks j))) msgs
              = map (\<lambda>m. concat (map part_pairing (msg_content m))) (rq_messages req))"
proof (cases "collect_results (build_message ops) (rq_messages req)")
  case (Inl e)
  then have "list_ex (\<lambda>m. isl (build_message ops m)) (rq_messages req)"
    using collect_results_isl [of "build_message ops" "rq_messages req"] by simp
  then have "\<not> list_all (\<lambda>m. list_all (sendable ops) (msg_content m)) (rq_messages req)"
    by (auto simp: message_isl list_all_iff list_ex_iff)
  with Inl show ?thesis by (simp add: anthropic_build_body_def Let_def)
next
  case (Inr msgs)
  then have "\<not> list_ex (\<lambda>m. isl (build_message ops m)) (rq_messages req)"
    using collect_results_isl [of "build_message ops" "rq_messages req"] by simp
  then have "list_all (\<lambda>m. list_all (sendable ops) (msg_content m)) (rq_messages req)"
    by (auto simp: message_isl list_all_iff list_ex_iff)
  moreover have "list_all2 (\<lambda>m j. build_message ops m = Inr j) (rq_messages req) msgs"
    using Inr by (simp add: collect_results_ok)
  ultimately show ?thesis
    using Inr by (simp add: anthropic_build_body_def Let_def put_get json_get_insert messages_pairing_of)
qed

section \<open>Decoder\<close>

datatype block_kind = BkText | BkThinking | BkToolUse

record block =
  bk_kind :: block_kind
  bk_id :: string

record anthropic_stream =
  an_lifecycle :: lifecycle_state
  an_tools :: tool_stream
  an_usage :: usage
  an_finish_reason :: "finish_reason option"
  an_blocks :: "(int \<times> block) list"
  an_started :: bool

definition anthropic_stream_new :: anthropic_stream where
  "anthropic_stream_new = \<lparr> an_lifecycle = lifecycle_new, an_tools = tool_stream_new, an_usage = usage_default,
     an_finish_reason = None, an_blocks = [], an_started = False \<rparr>"

definition an_ensure_started :: "anthropic_stream \<Rightarrow> llm_event list \<times> anthropic_stream" where
  "an_ensure_started s = (if \<not> an_started s then ([StepStart], s\<lparr> an_started := True \<rparr>) else ([], s))"

fun an_push_events :: "bool \<Rightarrow> llm_event list \<Rightarrow> llm_event list \<times> bool" where
  "an_push_events started [] = ([], started)"
| "an_push_events started (e # es) =
     (if e = StepStart \<and> started then an_push_events started es
      else (let (out, st) = an_push_events (started \<or> e = StepStart) es in (e # out, st)))"

definition an_push :: "anthropic_stream \<Rightarrow> llm_event list \<Rightarrow> llm_event list \<times> anthropic_stream" where
  "an_push s events = (let (out, st) = an_push_events (an_started s) events in (out, s\<lparr> an_started := st \<rparr>))"

definition block_id :: "int \<Rightarrow> string" where
  "block_id index = ''block-'' @ show_int index"

text \<open>\<open>u64\<close> saturation.\<close>

definition sat_add_word :: "64 word \<Rightarrow> 64 word \<Rightarrow> 64 word" where
  "sat_add_word a b = (if a + b < a then - 1 else a + b)"

definition sat_sub_word :: "64 word \<Rightarrow> 64 word \<Rightarrow> 64 word" where
  "sat_sub_word a b = (if a < b then 0 else a - b)"

definition set_uncached_input_tokens :: "usage \<Rightarrow> 64 word \<Rightarrow> usage" where
  "set_uncached_input_tokens u raw = u\<lparr> input_tokens := sat_add_word raw (cached_input_tokens u) \<rparr>"

definition set_cached_input_tokens :: "usage \<Rightarrow> 64 word \<Rightarrow> usage" where
  "set_cached_input_tokens u cached =
     (let raw = sat_sub_word (input_tokens u) (cached_input_tokens u) in
      u\<lparr> cached_input_tokens := cached, input_tokens := sat_add_word raw cached \<rparr>)"

definition u64_field :: "json \<Rightarrow> string \<Rightarrow> 64 word option" where
  "u64_field j k = map_option of_int (Option.bind (json_get j k) as_u64)"

definition apply_usage :: "usage \<Rightarrow> json \<Rightarrow> usage" where
  "apply_usage u j =
     (let u = (case u64_field j ''input_tokens'' of Some v \<Rightarrow> set_uncached_input_tokens u v | None \<Rightarrow> u);
          u = (case u64_field j ''output_tokens'' of Some v \<Rightarrow> u\<lparr> output_tokens := v \<rparr> | None \<Rightarrow> u);
          u = (case u64_field j ''cache_read_input_tokens'' of Some v \<Rightarrow> set_cached_input_tokens u v | None \<Rightarrow> u)
      in case u64_field j ''cache_creation_input_tokens'' of
           Some v \<Rightarrow> u\<lparr> cache_creation_input_tokens := v \<rparr> | None \<Rightarrow> u)"

text \<open>\<open>Value::pointer\<close> with two keys.\<close>

definition json_at :: "json \<Rightarrow> string \<Rightarrow> string \<Rightarrow> json option" where
  "json_at j k k' = Option.bind (json_get j k) (\<lambda>v. json_get v k')"

definition handle_message_start :: "anthropic_stream \<Rightarrow> json \<Rightarrow> llm_event list \<times> anthropic_stream" where
  "handle_message_start s data =
     an_ensure_started (case json_at data ''message'' ''usage'' of
                          Some u \<Rightarrow> s\<lparr> an_usage := apply_usage (an_usage s) u \<rparr> | None \<Rightarrow> s)"

definition frame_index :: "json \<Rightarrow> int" where
  "frame_index data = unwrap_or 0 (Option.bind (json_get data ''index'') as_u64)"

text \<open>Calling the helpers and passing on what they emit.\<close>

definition an_text_delta :: "anthropic_stream \<Rightarrow> string \<Rightarrow> string \<Rightarrow> llm_event list \<times> anthropic_stream" where
  "an_text_delta s d t =
     (let (events, lc) = lc_text_delta (an_lifecycle s) d t None in an_push (s\<lparr> an_lifecycle := lc \<rparr>) events)"

definition an_reasoning_delta :: "anthropic_stream \<Rightarrow> string \<Rightarrow> string \<Rightarrow> llm_event list \<times> anthropic_stream" where
  "an_reasoning_delta s d t =
     (let (events, lc) = lc_reasoning_delta (an_lifecycle s) d t in an_push (s\<lparr> an_lifecycle := lc \<rparr>) events)"

definition an_tool_start :: "anthropic_stream \<Rightarrow> string \<Rightarrow> string \<Rightarrow> llm_event list \<times> anthropic_stream" where
  "an_tool_start s d name =
     (let (events, ts) = ts_start (an_tools s) d name None in an_push (s\<lparr> an_tools := ts \<rparr>) events)"

definition an_tool_delta :: "anthropic_stream \<Rightarrow> string \<Rightarrow> string \<Rightarrow> llm_event list \<times> anthropic_stream" where
  "an_tool_delta s d partial =
     (let (events, ts) = ts_delta (an_tools s) d None partial in an_push (s\<lparr> an_tools := ts \<rparr>) events)"

definition handle_content_block_start :: "anthropic_stream \<Rightarrow> json \<Rightarrow> llm_event list \<times> anthropic_stream" where
  "handle_content_block_start s data =
     (let (out, s1) = an_ensure_started s;
          index = frame_index data;
          d = block_id index;
          blk = json_get data ''content_block'';
          kind = Option.bind blk (\<lambda>b. get_str b ''type'');
          open_block = (\<lambda>k i. s1\<lparr> an_blocks := bt_insert index \<lparr> bk_kind = k, bk_id = i \<rparr> (an_blocks s1) \<rparr>)
      in if kind = Some ''text'' then
           (let (events, s2) = an_text_delta (open_block BkText d) d [] in (out @ events, s2))
         else if kind = Some ''thinking'' then
           (let (events, s2) = an_reasoning_delta (open_block BkThinking d) d [] in (out @ events, s2))
         else if kind = Some ''tool_use'' then
           (let tool_id = unwrap_or d (Option.bind blk (\<lambda>b. get_str b ''id''));
                name = unwrap_or [] (Option.bind blk (\<lambda>b. get_str b ''name''));
                (events, s2) = an_tool_start (open_block BkToolUse tool_id) tool_id name
            in (out @ events, s2))
         else (out, s1))"

definition handle_content_block_delta :: "anthropic_stream \<Rightarrow> json \<Rightarrow> llm_event list \<times> anthropic_stream" where
  "handle_content_block_delta s data =
     (let index = frame_index data in
      case json_get data ''delta'' of
        None \<Rightarrow> ([], s)
      | Some delta \<Rightarrow>
          (let d = (case map_of (an_blocks s) index of Some b \<Rightarrow> bk_id b | None \<Rightarrow> block_id index);
               ty = get_str delta ''type''
           in if ty = Some ''text_delta'' then
                (case get_str delta ''text'' of Some t \<Rightarrow> an_text_delta s d t | None \<Rightarrow> ([], s))
              else if ty = Some ''thinking_delta'' then
                (case get_str delta ''thinking'' of Some t \<Rightarrow> an_reasoning_delta s d t | None \<Rightarrow> ([], s))
              else if ty = Some ''input_json_delta'' then
                (case get_str delta ''partial_json'' of Some t \<Rightarrow> an_tool_delta s d t | None \<Rightarrow> ([], s))
              else ([], s)))"

text \<open>Closing one block; a tool call whose arguments do not parse is an error and its events are lost.\<close>

definition an_close_block :: "(string \<Rightarrow> string + json) \<Rightarrow> anthropic_stream \<Rightarrow> block
    \<Rightarrow> (llm_error + llm_event list) \<times> anthropic_stream" where
  "an_close_block from_str s b =
     (case bk_kind b of
        BkText \<Rightarrow>
          (let (events, lc) = lc_text_end (an_lifecycle s) (bk_id b) None;
               (out, s1) = an_push (s\<lparr> an_lifecycle := lc \<rparr>) events in (Inr out, s1))
      | BkThinking \<Rightarrow>
          (let (events, lc) = lc_reasoning_end (an_lifecycle s) (bk_id b);
               (out, s1) = an_push (s\<lparr> an_lifecycle := lc \<rparr>) events in (Inr out, s1))
      | BkToolUse \<Rightarrow>
          (case ts_end from_str (an_tools s) (bk_id b) of
             (Inl e, ts) \<Rightarrow> (Inl e, s\<lparr> an_tools := ts \<rparr>)
           | (Inr events, ts) \<Rightarrow> (let (out, s1) = an_push (s\<lparr> an_tools := ts \<rparr>) events in (Inr out, s1))))"

definition handle_content_block_stop :: "(string \<Rightarrow> string + json) \<Rightarrow> anthropic_stream \<Rightarrow> json
    \<Rightarrow> (llm_error + llm_event list) \<times> anthropic_stream" where
  "handle_content_block_stop from_str s data =
     (let index = frame_index data in
      case map_of (an_blocks s) index of
        None \<Rightarrow> (Inr [], s)
      | Some b \<Rightarrow> an_close_block from_str (s\<lparr> an_blocks := bt_remove index (an_blocks s) \<rparr>) b)"

definition map_stop_reason :: "string \<Rightarrow> finish_reason" where
  "map_stop_reason reason =
     (if reason = ''end_turn'' \<or> reason = ''stop_sequence'' then FrStop
      else if reason = ''max_tokens'' then FrLength
      else if reason = ''tool_use'' then FrToolUse
      else if reason = ''refusal'' then FrContentFilter else FrOther)"

definition handle_message_delta :: "anthropic_stream \<Rightarrow> json \<Rightarrow> anthropic_stream" where
  "handle_message_delta s data =
     (let s1 = (case Option.bind (json_at data ''delta'' ''stop_reason'') as_str of
                  Some r \<Rightarrow> s\<lparr> an_finish_reason := Some (map_stop_reason r) \<rparr> | None \<Rightarrow> s)
      in case json_get data ''usage'' of
           Some u \<Rightarrow> s1\<lparr> an_usage := apply_usage (an_usage s1) u \<rparr> | None \<Rightarrow> s1)"

fun an_close_blocks :: "(string \<Rightarrow> string + json) \<Rightarrow> anthropic_stream \<Rightarrow> block list
    \<Rightarrow> (llm_error + llm_event list) \<times> anthropic_stream" where
  "an_close_blocks from_str s [] = (Inr [], s)"
| "an_close_blocks from_str s (b # bs) =
     (case an_close_block from_str s b of
        (Inl e, s1) \<Rightarrow> (Inl e, s1)
      | (Inr out, s1) \<Rightarrow>
          (case an_close_blocks from_str s1 bs of
             (Inl e, s2) \<Rightarrow> (Inl e, s2)
           | (Inr out2, s2) \<Rightarrow> (Inr (out @ out2), s2)))"

definition flush_finish :: "(string \<Rightarrow> string + json) \<Rightarrow> anthropic_stream
    \<Rightarrow> (llm_error + llm_event list) \<times> anthropic_stream" where
  "flush_finish from_str s =
     (if lc_finished (an_lifecycle s) then (Inr [], s)
      else case an_close_blocks from_str (s\<lparr> an_blocks := [] \<rparr>) (map snd (an_blocks s)) of
        (Inl e, s1) \<Rightarrow> (Inl e, s1)
      | (Inr out, s1) \<Rightarrow>
          (case ts_flush from_str (an_tools s1) of
             (Inl e, ts) \<Rightarrow> (Inl e, s1\<lparr> an_tools := ts \<rparr>)
           | (Inr flushed, ts) \<Rightarrow>
               (let (out2, s2) = an_push (s1\<lparr> an_tools := ts \<rparr>) flushed;
                    (finished, lc) = lc_finish (an_lifecycle s2) (an_usage s2) (an_finish_reason s2);
                    (out3, s3) = an_push (s2\<lparr> an_lifecycle := lc \<rparr>) finished
                in (Inr (out @ out2 @ out3), s3))))"

definition provider_error :: "json \<Rightarrow> llm_event" where
  "provider_error data =
     ProviderError (unwrap_or ''anthropic stream error'' (Option.bind (json_at data ''error'' ''message'') as_str))
       (Option.bind (json_at data ''error'' ''type'') as_str \<in> {Some ''overloaded_error'', Some ''api_error''})"

definition anthropic_on_frame :: "(string \<Rightarrow> string + json) \<Rightarrow> anthropic_stream \<Rightarrow> text_frame
    \<Rightarrow> (llm_error + llm_event list) \<times> anthropic_stream" where
  "anthropic_on_frame from_str s f =
     (case tf_event f of
        None \<Rightarrow> (Inr [], s)
      | Some name \<Rightarrow>
          if name = ''ping'' then (Inr [], s)
          else case from_str (tf_data f) of
            Inl e \<Rightarrow> (Inl (llm_error_new Decode (''anthropic SSE frame is not valid JSON: '' @ e)), s)
          | Inr data \<Rightarrow>
              if name = ''message_start'' then map_prod Inr id (handle_message_start s data)
              else if name = ''content_block_start'' then map_prod Inr id (handle_content_block_start s data)
              else if name = ''content_block_delta'' then map_prod Inr id (handle_content_block_delta s data)
              else if name = ''content_block_stop'' then handle_content_block_stop from_str s data
              else if name = ''message_delta'' then (Inr [], handle_message_delta s data)
              else if name = ''message_stop'' then flush_finish from_str s
              else if name = ''error'' then (Inr [provider_error data], s)
              else (Inr [], s))"

section \<open>Properties of the decoder\<close>

text \<open>After \<open>message_start\<close> the stream has begun with its only \<open>StepStart\<close>; apart from it and from
  provider errors, what was emitted is what the helpers said, whose own \<open>StepStart\<close> is dropped.\<close>

abbreviation not_start :: "llm_event list \<Rightarrow> llm_event list" where
  "not_start tr \<equiv> filter (\<lambda>e. e \<noteq> StepStart) tr"

fun is_provider_error :: "llm_event \<Rightarrow> bool" where
  "is_provider_error (ProviderError _ _) = True"
| "is_provider_error _ = False"

abbreviation no_errors :: "llm_event list \<Rightarrow> llm_event list" where
  "no_errors tr \<equiv> filter (\<lambda>e. \<not> is_provider_error e) tr"

definition an_begun :: "(string \<Rightarrow> string + json) \<Rightarrow> llm_event list \<Rightarrow> anthropic_stream \<Rightarrow> bool" where
  "an_begun from_str tr s \<longleftrightarrow> an_started s \<and>
     (\<exists>rest raw. tr = StepStart # rest \<and> StepStart \<notin> set rest
        \<and> core_traced from_str raw (an_lifecycle s) (an_tools s) \<and> not_start raw = no_errors rest)"

lemma push_started: "an_push_events True es = (not_start es, True)"
  by (induction es) auto

lemma an_push_started: "an_started s \<Longrightarrow> an_push s es = (not_start es, s)"
  by (simp add: an_push_def push_started)

lemma begun_simps [simp]:
  "an_begun from_str tr (s\<lparr> an_usage := u \<rparr>) = an_begun from_str tr s"
  "an_begun from_str tr (s\<lparr> an_finish_reason := r \<rparr>) = an_begun from_str tr s"
  "an_begun from_str tr (s\<lparr> an_blocks := b \<rparr>) = an_begun from_str tr s"
  by (simp_all add: an_begun_def)

lemma begun_started: "an_begun from_str tr s \<Longrightarrow> an_started s"
  by (simp add: an_begun_def)

lemma begun_step:
  assumes b: "an_begun from_str tr s" and o: "no_errors outs = outs"
    and k: "\<And>raw. core_traced from_str raw (an_lifecycle s) (an_tools s) \<Longrightarrow>
              core_traced from_str (raw @ outs) (an_lifecycle s') (an_tools s')"
    and st: "an_started s'"
  shows "an_begun from_str (tr @ not_start outs) s'"
proof -
  obtain rest raw where r: "tr = StepStart # rest" "StepStart \<notin> set rest"
    "core_traced from_str raw (an_lifecycle s) (an_tools s)" "not_start raw = no_errors rest"
    using b by (auto simp: an_begun_def)
  have "no_errors (not_start outs) = not_start (no_errors outs)" by (simp add: filter_filter conj_commute)
  then have "not_start (raw @ outs) = no_errors (rest @ not_start outs)" using r(4) o by simp
  with r k [OF r(3)] st show ?thesis by (auto simp: an_begun_def)
qed

lemma lc_no_errors:
  "block_events outs = outs \<Longrightarrow> no_errors outs = outs" "tool_events outs = outs \<Longrightarrow> no_errors outs = outs"
  unfolding filter_id_conv by (auto elim!: is_provider_error.elims(2))

lemma lc_step_no_errors: "lc_step lc e = (outs, lc') \<Longrightarrow> no_errors outs = outs"
  using lc_only lc_no_errors(1) by blast

lemma begun_lc:
  assumes "an_begun from_str tr s" "lc_step (an_lifecycle s) e = (outs, lc)"
    and "an_push (s\<lparr> an_lifecycle := lc \<rparr>) outs = (out, s')"
  shows "an_begun from_str (tr @ out) s'"
  using begun_step [OF assms(1) lc_step_no_errors [OF assms(2)], of "s\<lparr> an_lifecycle := lc \<rparr>"]
    core_lc [OF _ assms(2)] assms(3) begun_started [OF assms(1)] by (simp add: an_push_started)

lemma begun_ts:
  assumes "an_begun from_str tr s" "tool_events outs = outs"
    and "\<And>raw. core_traced from_str raw (an_lifecycle s) (an_tools s) \<Longrightarrow>
            core_traced from_str (raw @ outs) (an_lifecycle s) ts"
    and "an_push (s\<lparr> an_tools := ts \<rparr>) outs = (out, s')"
  shows "an_begun from_str (tr @ out) s'"
  using begun_step [OF assms(1) lc_no_errors(2) [OF assms(2)], of "s\<lparr> an_tools := ts \<rparr>"]
    assms(3,4) begun_started [OF assms(1)] by (simp add: an_push_started)

lemma begun_text:
  "an_begun from_str tr s \<Longrightarrow> an_text_delta s d t = (out, s') \<Longrightarrow> an_begun from_str (tr @ out) s'"
  using begun_lc [of from_str tr s "LcText d t None"] by (auto simp: an_text_delta_def split: prod.splits)

lemma begun_reasoning:
  "an_begun from_str tr s \<Longrightarrow> an_reasoning_delta s d t = (out, s') \<Longrightarrow> an_begun from_str (tr @ out) s'"
  using begun_lc [of from_str tr s "LcReasoning d t"] by (auto simp: an_reasoning_delta_def split: prod.splits)

lemma begun_tool_start:
  assumes "an_begun from_str tr s" "an_tool_start s d name = (out, s')"
  shows "an_begun from_str (tr @ out) s'"
proof -
  obtain events ts where e: "ts_start (an_tools s) d name None = (events, ts)" by fastforce
  from begun_ts [OF assms(1) ts_only(1) [OF e, THEN conjunct1] core_start [OF _ e]] assms(2) e show ?thesis
    by (simp add: an_tool_start_def)
qed

lemma begun_tool_delta:
  assumes "an_begun from_str tr s" "an_tool_delta s d t = (out, s')"
  shows "an_begun from_str (tr @ out) s'"
proof -
  obtain events ts where e: "ts_delta (an_tools s) d None t = (events, ts)" by fastforce
  from begun_ts [OF assms(1) ts_only(2) [OF e, THEN conjunct1] core_delta [OF _ e]] assms(2) e show ?thesis
    by (simp add: an_tool_delta_def)
qed

lemma begun_close_block:
  assumes b: "an_begun from_str tr s" and c: "an_close_block from_str s blk = (Inr out, s')"
  shows "an_begun from_str (tr @ out) s'"
proof (cases "bk_kind blk")
  case BkText
  with c begun_lc [OF b, of "LcTextEnd (bk_id blk) None"] show ?thesis
    by (auto simp: an_close_block_def split: prod.splits)
next
  case BkThinking
  with c begun_lc [OF b, of "LcReasoningEnd (bk_id blk)"] show ?thesis
    by (auto simp: an_close_block_def split: prod.splits)
next
  case BkToolUse
  with c obtain events ts where e: "ts_end from_str (an_tools s) (bk_id blk) = (Inr events, ts)"
    "an_push (s\<lparr> an_tools := ts \<rparr>) events = (out, s')"
    by (auto simp: an_close_block_def split: prod.splits sum.splits)
  from begun_ts [OF b ts_only(3) [OF e(1), THEN conjunct1] core_end [OF _ e(1)] e(2)] show ?thesis .
qed

lemma begun_close_blocks:
  "an_begun from_str tr s \<Longrightarrow> an_close_blocks from_str s bs = (Inr out, s') \<Longrightarrow> an_begun from_str (tr @ out) s'"
proof (induction bs arbitrary: tr s out)
  case (Cons b bs)
  from Cons.prems(2) obtain o1 s1 o2 where "an_close_block from_str s b = (Inr o1, s1)"
    "an_close_blocks from_str s1 bs = (Inr o2, s')" "out = o1 @ o2" by (auto split: prod.splits sum.splits)
  with Cons.IH [OF begun_close_block [OF Cons.prems(1)]] show ?case by fastforce
qed simp

lemma begun_ensure: "an_begun from_str tr s \<Longrightarrow> an_ensure_started s = ([], s)"
  by (simp add: an_ensure_started_def an_begun_def)

lemma begun_message_start:
  "an_begun from_str tr s \<Longrightarrow> handle_message_start s data = (out, s') \<Longrightarrow> an_begun from_str (tr @ out) s'"
  using begun_ensure [of from_str tr] by (auto simp: handle_message_start_def split: option.splits)

lemma begun_block_start:
  assumes b: "an_begun from_str tr s" and h: "handle_content_block_start s data = (out, s')"
  shows "an_begun from_str (tr @ out) s'"
  using h b begun_text [of from_str tr "s\<lparr> an_blocks := x \<rparr>" for x]
    begun_reasoning [of from_str tr "s\<lparr> an_blocks := x \<rparr>" for x]
    begun_tool_start [of from_str tr "s\<lparr> an_blocks := x \<rparr>" for x]
  unfolding handle_content_block_start_def begun_ensure [OF b] Let_def
  by (auto split: if_splits prod.splits)

lemma begun_block_delta:
  assumes b: "an_begun from_str tr s" and h: "handle_content_block_delta s data = (out, s')"
  shows "an_begun from_str (tr @ out) s'"
  using h b begun_text [OF b] begun_reasoning [OF b] begun_tool_delta [OF b]
  unfolding handle_content_block_delta_def Let_def
  by (auto split: if_splits option.splits)

lemma begun_block_stop:
  "an_begun from_str tr s \<Longrightarrow> handle_content_block_stop from_str s data = (Inr out, s') \<Longrightarrow> an_begun from_str (tr @ out) s'"
  using begun_close_block [of from_str tr "s\<lparr> an_blocks := x \<rparr>" for x]
  by (auto simp: handle_content_block_stop_def Let_def split: option.splits)

lemma begun_message_delta: "an_begun from_str tr s \<Longrightarrow> an_begun from_str tr (handle_message_delta s data)"
  by (auto simp: handle_message_delta_def Let_def split: option.split)

lemma begun_error:
  assumes "an_begun from_str tr s" shows "an_begun from_str (tr @ [provider_error data]) s"
  using assms unfolding an_begun_def by (auto simp: provider_error_def)

definition not_message_stop :: "text_frame \<Rightarrow> bool" where
  "not_message_stop f \<longleftrightarrow> tf_event f \<noteq> Some ''message_stop''"

lemma begun_frame:
  assumes b: "an_begun from_str tr s" and n: "not_message_stop f"
    and h: "anthropic_on_frame from_str s f = (Inr out, s')"
  shows "an_begun from_str (tr @ out) s'"
  using h n begun_message_start [OF b] begun_block_start [OF b] begun_block_delta [OF b] begun_block_stop [OF b]
    begun_message_delta [OF b] begun_error [OF b] b
  unfolding anthropic_on_frame_def not_message_stop_def
  by (auto split: option.splits if_splits sum.splits simp: map_prod_Inr)

text \<open>From the helpers' stream to the emitted one.\<close>

lemma accepts_no_start:
  "lc_accepts es (p, t, r) = Some c \<Longrightarrow> p \<noteq> Before \<Longrightarrow> StepStart \<notin> set es"
proof (induction es arbitrary: p t r)
  case (Cons e es)
  then obtain p' t' r' where "lc_accept e (p, t, r) = Some (p', t', r')" "lc_accepts es (p', t', r') = Some c"
    by (auto simp: bind_eq_Some_conv)
  moreover from this Cons.prems(2) have "e \<noteq> StepStart" "p' \<noteq> Before"
    by (cases e; cases p; auto split: if_splits)+
  ultimately show ?case using Cons.IH by auto
qed simp

lemma accepts_start_first:
  assumes "lc_accepts es (Before, {}, {}) = Some c" "fst c \<noteq> Before"
  shows "StepStart # not_start es = es"
proof (cases es)
  case (Cons e es')
  with assms obtain c' where c: "lc_accept e (Before, {}, {}) = Some c'" "lc_accepts es' c' = Some c"
    by (auto simp: bind_eq_Some_conv)
  then have e: "e = StepStart" "c' = (Inside, {}, {})" by (cases e; simp)+
  with c(2) have "StepStart \<notin> set es'" using accepts_no_start by fastforce
  then have "not_start es' = es'" by (auto simp: filter_id_conv)
  with e Cons show ?thesis by simp
qed (use assms in auto)

lemma complete_transfer:
  assumes "stream_complete from_str raw" "not_start raw = no_errors rest" "StepStart \<notin> set rest"
    and ends: "rest = pre @ [StepFinish u reason, Finish u reason]"
  shows "stream_complete from_str (StepStart # rest)"
proof -
  have b: "is_block_event e \<Longrightarrow> \<not> is_provider_error e" and t: "is_tool_event e \<Longrightarrow> \<not> is_provider_error e \<and> e \<noteq> StepStart" for e
    by (cases e; simp)+
  have "lc_accepts (block_events raw) (Before, {}, {}) = Some (AllDone, {}, {})"
    using assms(1) by (simp add: stream_complete_def)
  from accepts_start_first [OF this] have "block_events raw = StepStart # block_events (not_start raw)"
    by (simp add: filter_filter conj_commute)
  also have "block_events (not_start raw) = block_events rest"
    unfolding assms(2) filter_filter by (rule filter_cong) (use b in auto)
  finally have blocks: "block_events (StepStart # rest) = block_events raw" by simp
  have "tool_events raw = tool_events (not_start raw)" unfolding filter_filter by (rule filter_cong) (use t in auto)
  also have "\<dots> = tool_events rest" unfolding assms(2) filter_filter by (rule filter_cong) (use t in auto)
  finally have tools: "tool_events (StepStart # rest) = tool_events raw" by simp
  have mem: "e \<in> set (StepStart # rest) \<longleftrightarrow> e \<in> set raw" if "is_tool_event e" for e
  proof -
    have "e \<in> set (tool_events (StepStart # rest)) \<longleftrightarrow> e \<in> set (tool_events raw)" by (simp only: tools)
    with that show ?thesis by (cases e) auto
  qed
  have "makes_call d e \<Longrightarrow> is_tool_event e" for d e by (cases e) simp_all
  then have "list_ex (makes_call d) (StepStart # rest) \<longleftrightarrow> list_ex (makes_call d) raw" for d
    using mem unfolding list_ex_iff by blast
  moreover have "ToolInputStart d n \<in> set (StepStart # rest) \<longleftrightarrow> ToolInputStart d n \<in> set raw" for d n
    using mem [of "ToolInputStart d n"] by simp
  moreover have "lc_accepts (block_events (StepStart # rest)) (Before, {}, {}) = Some (AllDone, {}, {})"
    using blocks assms(1) by (simp add: stream_complete_def)
  then have "step_shape (StepStart # rest)" unfolding ends append_Cons [symmetric] by (rule step_shapeI)
  ultimately show ?thesis using assms(1) blocks tools by (simp add: stream_complete_def)
qed

definition an_complete :: "(string \<Rightarrow> string + json) \<Rightarrow> llm_event list \<Rightarrow> bool" where
  "an_complete from_str tr \<longleftrightarrow> stream_complete from_str tr \<and> hd tr = StepStart"

lemma begun_finish:
  assumes b: "an_begun from_str tr s" and f: "flush_finish from_str s = (Inr out, s')"
  shows "an_complete from_str (tr @ out) \<and> flush_finish from_str s' = (Inr [], s')"
proof -
  have nf: "\<not> lc_finished (an_lifecycle s)"
    using b by (auto simp: an_begun_def core_traced_def lc_traced_def)
  obtain o1 s1 where 1: "an_close_blocks from_str (s\<lparr> an_blocks := [] \<rparr>) (map snd (an_blocks s)) = (Inr o1, s1)"
    using f nf by (auto simp: flush_finish_def split: sum.splits prod.splits)
  obtain flushed ts where 2: "ts_flush from_str (an_tools s1) = (Inr flushed, ts)"
    using f nf 1 by (auto simp: flush_finish_def split: sum.splits prod.splits)
  have b1: "an_begun from_str (tr @ o1) s1" using begun_close_blocks [OF _ 1, of tr] b by simp
  note st = begun_started [OF b1]
  obtain fin lc where 3: "lc_finish (an_lifecycle s1) (an_usage s1) (an_finish_reason s1) = (fin, lc)" by fastforce
  have out: "out = o1 @ not_start flushed @ not_start fin" and s': "s' = s1\<lparr> an_tools := ts, an_lifecycle := lc \<rparr>"
    using f nf 1 2 3 st by (auto simp: flush_finish_def an_push_started)
  obtain rest raw where r: "tr @ o1 = StepStart # rest" "StepStart \<notin> set rest"
    "core_traced from_str raw (an_lifecycle s1) (an_tools s1)" "not_start raw = no_errors rest"
    using b1 by (auto simp: an_begun_def)
  note c = core_closes [OF r(3) 2 3]
  have ne: "no_errors flushed = flushed" "no_errors fin = fin"
    using lc_no_errors(2) ts_end_all_only [OF 2 [unfolded ts_flush_def]] lc_no_errors(1) lc_finish_only [OF 3] by blast+
  have nn: "no_errors (not_start es) = not_start (no_errors es)" for es by (simp add: filter_filter conj_commute)
  have trans: "not_start (raw @ flushed @ fin) = no_errors (rest @ not_start flushed @ not_start fin)"
    by (simp only: filter_append r(4) nn ne)
  have "\<not> lc_finished (an_lifecycle s1)" using r(3) by (simp add: core_traced_def lc_traced_def)
  from lc_finish_ends [OF this 3] obtain pre where "fin = pre @ [StepFinish (an_usage s1) (an_finish_reason s1), Finish (an_usage s1) (an_finish_reason s1)]"
    by blast
  then have "rest @ not_start flushed @ not_start fin = (rest @ not_start flushed @ not_start pre)
      @ [StepFinish (an_usage s1) (an_finish_reason s1), Finish (an_usage s1) (an_finish_reason s1)]" by simp
  from complete_transfer [OF c(1) trans _ this] r(1,2) out
  have "stream_complete from_str (tr @ out)" "hd (tr @ out) = StepStart" by (auto simp flip: append_assoc)
  then show ?thesis using c(2) s' by (simp add: an_complete_def flush_finish_def)
qed

interpretation anthropic: response_decoder "anthropic_on_frame from_str" "flush_finish from_str" "an_begun from_str"
  not_message_stop "an_complete from_str" for from_str
  by unfold_locales (auto intro: begun_frame dest: begun_finish)

text \<open>C16. A response of the Anthropic protocol that begins with \<open>message_start\<close> becomes a complete
  event stream that starts with its step start, also when it only calls tools, whatever blocks follow, in
  any interleaving, left open or interrupted by provider errors: text and reasoning form one well-formed
  step, the input of each call is what its fragments say, no started call is lost, and finishing again adds
  nothing (the \<open>message_stop\<close> frame finishes in the same way).\<close>

theorem anthropic_stream_complete:
  assumes "tf_event f = Some ''message_start''" "\<forall>g\<in>set frames. not_message_stop g"
    and "on_frames (anthropic_on_frame from_str) anthropic_stream_new (f # frames) = (Inr evs, s)"
    and "flush_finish from_str s = (Inr fin, s')"
  shows "an_complete from_str (evs @ fin) \<and> flush_finish from_str s' = (Inr [], s')"
proof -
  obtain e1 s1 e2 where 1: "anthropic_on_frame from_str anthropic_stream_new f = (Inr e1, s1)"
    and 2: "on_frames (anthropic_on_frame from_str) s1 frames = (Inr e2, s)" and evs: "evs = e1 @ e2"
    using assms(3) by (auto split: prod.splits sum.splits)
  have "an_begun from_str e1 s1"
    using 1 assms(1) core_new [of from_str]
    by (auto simp: anthropic_on_frame_def handle_message_start_def an_ensure_started_def anthropic_stream_new_def
        an_begun_def map_prod_Inr split: sum.splits option.splits intro!: exI [of _ "[]"])
  from anthropic.finish_completes [OF anthropic.frames_keep [OF this assms(2) 2] assms(4)] evs
  show ?thesis by simp
qed

definition sample_anthropic_parser :: "string \<Rightarrow> string + json" where
  "sample_anthropic_parser t =
     (if t = ''start'' then Inr (JObj [])
      else if t = ''tool'' then
        Inr (JObj [(''content_block'', JObj [(''id'', JStr ''c1''), (''name'', JStr ''ls''), (''type'', JStr ''tool_use'')]),
                   (''index'', JNum 0)])
      else Inl ''eof'')"

abbreviation sample_frames :: "text_frame list" where
  "sample_frames \<equiv> [\<lparr> tf_event = Some ''message_start'', tf_data = ''start'' \<rparr>,
                       \<lparr> tf_event = Some ''content_block_start'', tf_data = ''tool'' \<rparr>]"

theorem anthropic_stream_complete_witness:
  "\<exists>evs s fin s'. on_frames (anthropic_on_frame sample_anthropic_parser) anthropic_stream_new sample_frames = (Inr evs, s)
     \<and> flush_finish sample_anthropic_parser s = (Inr fin, s')
     \<and> ToolCall ''c1'' ''ls'' None None (JObj []) \<in> set (evs @ fin) \<and> an_complete sample_anthropic_parser (evs @ fin)"
proof -
  let ?run = "on_frames (anthropic_on_frame sample_anthropic_parser) anthropic_stream_new sample_frames"
  let ?fin = "flush_finish sample_anthropic_parser (snd ?run)"
  have "\<not> isl (fst ?run)" "\<not> isl (fst ?fin)" "ToolCall ''c1'' ''ls'' None None (JObj []) \<in> set (projr (fst ?fin))"
    by code_simp+
  then obtain evs s fin s' where r: "?run = (Inr evs, s)" "flush_finish sample_anthropic_parser s = (Inr fin, s')"
    "ToolCall ''c1'' ''ls'' None None (JObj []) \<in> set fin"
    by (cases ?run; cases "fst ?run"; cases ?fin; cases "fst ?fin") auto
  with anthropic_stream_complete [OF _ _ r(1,2)] show ?thesis by (auto simp: not_message_stop_def)
qed

text \<open>Cache reads stay a part of the input tokens, whatever usage reports arrive and however large.\<close>

lemma sat_add_ge: "b \<le> sat_add_word a b"
proof (cases "a + b < a")
  case False
  then have "a \<le> a + b" by simp
  then have "b \<le> b + a" using word_plus_mono_right2 no_olen_add [of a b] by (metis add.commute no_olen_add)
  with False show ?thesis by (simp add: sat_add_word_def add.commute)
qed (simp add: sat_add_word_def word_order.extremum)

lemma apply_usage_cached: "cached_input_tokens u \<le> input_tokens u \<Longrightarrow>
    cached_input_tokens (apply_usage u j) \<le> input_tokens (apply_usage u j)"
  by (auto simp: apply_usage_def set_uncached_input_tokens_def set_cached_input_tokens_def Let_def sat_add_ge
      split: option.split)

lemma message_stop_finishes:
  "tf_event g = Some ''message_stop'' \<Longrightarrow> from_str (tf_data g) = Inr data \<Longrightarrow>
     anthropic_on_frame from_str s g = flush_finish from_str s"
  by (simp add: anthropic_on_frame_def)

end
