(* ===== verification/OpenAiResponses.thy ===== *)
theory OpenAiResponses
  imports OpenAiChat
begin

text \<open>
  The Responses protocol (\<open>browser-use-llm/src/protocols/openai_responses.rs\<close>): the request body
  with its tools grouped by namespace, and the decoder of the streamed response, which keeps the one
  text or reasoning block that is open and closes it when another item interrupts it.
  \<open>serde_json::from_str\<close> is the parameter \<open>from_str\<close>, \<open>Value::to_string\<close> is \<open>show_json\<close>. The sum of
  the token counts in \<open>parse_usage\<close> is taken at 64 bits, where it wraps.
\<close>

section \<open>Request body\<close>

fun responses_role :: "message_role \<Rightarrow> string" where
  "responses_role RSystem = ''developer''"
| "responses_role RDeveloper = ''developer''"
| "responses_role RUser = ''user''"
| "responses_role RAssistant = ''assistant''"
| "responses_role RTool = ''user''"

definition text_part_type :: "message_role \<Rightarrow> string" where
  "text_part_type r = (case r of RAssistant \<Rightarrow> ''output_text'' | _ \<Rightarrow> ''input_text'')"

definition lower_media :: "string \<Rightarrow> string option \<Rightarrow> string option \<Rightarrow> string option \<Rightarrow> json" where
  "lower_media mime data url detail =
     (let resolved = (case (url, data) of
            (Some u, _) \<Rightarrow> u
          | (None, Some d) \<Rightarrow> ''data:'' @ mime @ '';base64,'' @ d
          | (None, None) \<Rightarrow> [])
      in if starts_with ''image/'' mime
         then JObj [(''detail'', JStr (unwrap_or ''auto'' detail)), (''image_url'', JStr resolved), (''type'', JStr ''input_image'')]
         else JObj [(''file_data'', JStr resolved), (''type'', JStr ''input_file'')])"

definition stringify_arguments :: "json \<Rightarrow> string" where
  "stringify_arguments input = (case input of JStr s \<Rightarrow> s | other \<Rightarrow> show_json other)"

function append_tool_result_output :: "content_part list \<Rightarrow> content_acc \<Rightarrow> content_acc" where
  "append_tool_result_output [] acc = acc"
| "append_tool_result_output (part # rest) acc =
     append_tool_result_output rest
       (case acc of (out, parts, has_media) \<Rightarrow>
         (case part of
            PText t _ \<Rightarrow>
              (out @ t, if t = [] then parts else parts @ [JObj [(''text'', JStr t), (''type'', JStr ''input_text'')]], has_media)
          | PReasoning t _ _ \<Rightarrow>
              (out @ t, if t = [] then parts else parts @ [JObj [(''text'', JStr t), (''type'', JStr ''input_text'')]], has_media)
          | PToolResult _ content _ \<Rightarrow> append_tool_result_output content acc
          | PMedia mime data url detail \<Rightarrow> (out, parts @ [lower_media mime data url detail], True)
          | PToolCall _ _ _ _ \<Rightarrow> acc))"
  by pat_completeness auto
termination
  by (relation "measure (\<lambda>(content, acc). size_list size content)") auto

definition lower_tool_result_output :: "content_part list \<Rightarrow> json" where
  "lower_tool_result_output content =
     (case append_tool_result_output content ([], [], False) of
        (out, parts, has_media) \<Rightarrow> if has_media then JArr parts else JStr out)"

text \<open>The pending content parts and the items written so far.\<close>

type_synonym input_acc = "json list \<times> json list"

definition flush_message :: "string \<Rightarrow> input_acc \<Rightarrow> input_acc" where
  "flush_message role acc =
     (case acc of (parts, out) \<Rightarrow>
        if parts = [] then acc
        else ([], out @ [JObj [(''content'', JArr parts), (''role'', JStr role), (''type'', JStr ''message'')]]))"

definition push_item :: "string \<Rightarrow> json \<Rightarrow> input_acc \<Rightarrow> input_acc" where
  "push_item role item acc = (case flush_message role acc of (parts, out) \<Rightarrow> (parts, out @ [item]))"

definition function_call_item :: "string \<Rightarrow> string \<Rightarrow> json \<Rightarrow> json option \<Rightarrow> json" where
  "function_call_item d name input meta =
     put_opt ''namespace'' (map_option JStr (Option.bind meta (\<lambda>md. get_str md ''namespace'')))
       (JObj [(''arguments'', JStr (stringify_arguments input)), (''call_id'', JStr d), (''name'', JStr name),
              (''type'', JStr ''function_call'')])"

fun lower_part :: "message_role \<Rightarrow> input_acc \<Rightarrow> content_part \<Rightarrow> input_acc" where
  "lower_part role (parts, out) (PText t _) =
     (parts @ [JObj [(''text'', JStr t), (''type'', JStr (text_part_type role))]], out)"
| "lower_part role (parts, out) (PMedia mime data url detail) = (parts @ [lower_media mime data url detail], out)"
| "lower_part role acc (PReasoning t _ _) =
     push_item (responses_role role)
       (JObj [(''summary'', JArr [JObj [(''text'', JStr t), (''type'', JStr ''summary_text'')]]), (''type'', JStr ''reasoning'')]) acc"
| "lower_part role acc (PToolCall d name input meta) =
     push_item (responses_role role) (function_call_item d name input meta) acc"
| "lower_part role acc (PToolResult d content _) =
     push_item (responses_role role)
       (JObj [(''call_id'', JStr d), (''output'', lower_tool_result_output content), (''type'', JStr ''function_call_output'')]) acc"

definition lower_message :: "message \<Rightarrow> json list \<Rightarrow> json list" where
  "lower_message m out =
     snd (flush_message (responses_role (msg_role m)) (foldl (lower_part (msg_role m)) ([], out) (msg_content m)))"

definition lower_function_tool :: "tool_definition \<Rightarrow> json" where
  "lower_function_tool t =
     JObj [(''description'', JStr (td_description t)), (''name'', JStr (td_name t)),
           (''parameters'', td_input_schema t), (''strict'', JBool False), (''type'', JStr ''function'')]"

definition lower_tool :: "string \<Rightarrow> tool_definition \<Rightarrow> json option" where
  "lower_tool provider t =
     (if td_name t = ''web_search'' then
        (if str_lower provider = ''codex'' then None else Some (JObj [(''type'', JStr ''web_search_preview'')]))
      else Some (lower_function_tool t))"

text \<open>The output and the index of each namespace in it.\<close>

type_synonym tools_acc = "json list \<times> (string \<rightharpoonup> nat)"

definition push_namespace_tool :: "json \<Rightarrow> json \<Rightarrow> json" where
  "push_namespace_tool lowered grp =
     (case Option.bind (json_get grp ''tools'') as_array of
        Some ts \<Rightarrow> json_insert ''tools'' (JArr (ts @ [lowered])) grp
      | None \<Rightarrow> grp)"

definition namespace_group :: "string \<Rightarrow> tool_definition \<Rightarrow> json \<Rightarrow> json" where
  "namespace_group ns t lowered =
     JObj [(''description'', JStr (unwrap_or (''Tools in the '' @ ns @ '' namespace.'') (td_namespace_description t))),
           (''name'', JStr ns), (''tools'', JArr [lowered]), (''type'', JStr ''namespace'')]"

definition lower_tools_step :: "string \<Rightarrow> tools_acc \<Rightarrow> tool_definition \<Rightarrow> tools_acc" where
  "lower_tools_step provider acc t =
     (case acc of (out, indices) \<Rightarrow>
       (case lower_tool provider t of
          None \<Rightarrow> (out, indices)
        | Some lowered \<Rightarrow>
            (case td_namespace t of
               None \<Rightarrow> (out @ [lowered], indices)
             | Some ns \<Rightarrow>
                 if get_str lowered ''type'' \<noteq> Some ''function'' then (out @ [lowered], indices)
                 else (case indices ns of
                         Some i \<Rightarrow> (out[i := push_namespace_tool lowered (out ! i)], indices)
                       | None \<Rightarrow> (out @ [namespace_group ns t lowered], indices(ns \<mapsto> length out))))))"

definition lower_tools :: "tool_definition list \<Rightarrow> string \<Rightarrow> json list" where
  "lower_tools ts provider = fst (foldl (lower_tools_step provider) ([], Map.empty) ts)"

fun lower_tool_choice :: "tool_choice \<Rightarrow> json" where
  "lower_tool_choice ChoiceAuto = JStr ''auto''"
| "lower_tool_choice ChoiceNone = JStr ''none''"
| "lower_tool_choice ChoiceRequired = JStr ''required''"
| "lower_tool_choice (ChoiceTool name) = JObj [(''name'', JStr name), (''type'', JStr ''function'')]"

fun responses_effort_str :: "reasoning_effort \<Rightarrow> string option" where
  "responses_effort_str EffortNone = None"
| "responses_effort_str EffortMinimal = Some ''minimal''"
| "responses_effort_str EffortLow = Some ''low''"
| "responses_effort_str EffortMedium = Some ''medium''"
| "responses_effort_str EffortHigh = Some ''high''"
| "responses_effort_str EffortXhigh = Some ''high''"

definition responses_input :: "message list \<Rightarrow> json list" where
  "responses_input ms = foldl (\<lambda>out m. lower_message m out) [] ms"

definition responses_generation :: "generation_options \<Rightarrow> json \<Rightarrow> json" where
  "responses_generation g body =
     put_opt ''reasoning'' (map_option (\<lambda>e. JObj [(''effort'', JStr e)]) (Option.bind (gen_reasoning_effort g) responses_effort_str))
       (put_opt ''max_output_tokens'' (map_option (\<lambda>n. JNum (int n)) (gen_max_tokens g))
         (put_opt ''top_p'' (gen_top_p g) (put_opt ''temperature'' (gen_temperature g) body)))"

definition responses_build_body :: "llm_request \<Rightarrow> llm_error + json" where
  "responses_build_body req =
     (let body = json_insert ''store'' (JBool False) (json_insert ''stream'' (JBool True) (JObj [(''model'', JStr (rq_model req))]));
          body = put_when (rq_system req \<noteq> []) ''instructions''
                   (JStr (join_with [CHR 0x0A, CHR 0x0A] (map sys_text (rq_system req)))) body;
          body = json_insert ''input'' (JArr (responses_input (rq_messages req))) body;
          tools = lower_tools (rq_tools req) (rq_provider req);
          body = put_when (rq_tools req \<noteq> [] \<and> tools \<noteq> []) ''tools'' (JArr tools) body;
          body = put_opt ''tool_choice'' (map_option lower_tool_choice (rq_tool_choice req)) body
      in Inr (responses_generation (rq_generation req) body))"

section \<open>Properties of the body\<close>

text \<open>The calls and answers of an input item.\<close>

definition item_pairing :: "json \<Rightarrow> pairing list" where
  "item_pairing b =
     (case get_str b ''type'' of
        Some t \<Rightarrow>
          (if t = ''function_call'' then (case get_str b ''call_id'' of Some d \<Rightarrow> [Calls d] | None \<Rightarrow> [])
           else if t = ''function_call_output'' then (case get_str b ''call_id'' of Some d \<Rightarrow> [Answers d] | None \<Rightarrow> [])
           else [])
      | None \<Rightarrow> [])"

abbreviation items_pairing :: "json list \<Rightarrow> pairing list" where
  "items_pairing items \<equiv> concat (map item_pairing items)"

lemma flush_pairing: "items_pairing (snd (flush_message role acc)) = items_pairing (snd acc)"
  by (auto simp: flush_message_def item_pairing_def get_str_def split: prod.splits)

lemma push_pairing: "items_pairing (snd (push_item role item acc)) = items_pairing (snd acc) @ item_pairing item"
  using flush_pairing [of role acc] by (auto simp: push_item_def split: prod.splits)

lemma call_item_pairing: "item_pairing (function_call_item d name input meta) = [Calls d]"
  by (simp add: function_call_item_def item_pairing_def get_str_def put_get)

lemma lower_part_pairing: "items_pairing (snd (lower_part role acc p)) = items_pairing (snd acc) @ part_pairing p"
  by (cases acc; cases p)
     (simp_all add: push_pairing call_item_pairing part_pairing_def, simp_all add: item_pairing_def get_str_def)

lemma lower_parts_pairing:
  "items_pairing (snd (foldl (lower_part role) acc ps)) = items_pairing (snd acc) @ concat (map part_pairing ps)"
  by (induction ps arbitrary: acc) (simp_all add: lower_part_pairing)

lemma lower_message_pairing:
  "items_pairing (lower_message m out) = items_pairing out @ concat (map part_pairing (msg_content m))"
  by (simp add: lower_message_def flush_pairing lower_parts_pairing)

lemma input_pairing:
  "items_pairing (responses_input ms) = concat (map (\<lambda>m. concat (map part_pairing (msg_content m))) ms)"
proof -
  have "items_pairing (foldl (\<lambda>out m. lower_message m out) out ms)
      = items_pairing out @ concat (map (\<lambda>m. concat (map part_pairing (msg_content m))) ms)" for out
    by (induction ms arbitrary: out) (simp_all add: lower_message_pairing)
  then show ?thesis by (simp add: responses_input_def)
qed

text \<open>The function tools of one namespace on the wire (of none: those at the top).\<close>

definition is_group :: "string \<Rightarrow> json \<Rightarrow> bool" where
  "is_group ns j \<longleftrightarrow> get_str j ''type'' = Some ''namespace'' \<and> get_str j ''name'' = Some ns"

definition group_tools :: "json \<Rightarrow> json list" where
  "group_tools j = unwrap_or [] (Option.bind (json_get j ''tools'') as_array)"

fun wire_functions :: "string option \<Rightarrow> json list \<Rightarrow> json list" where
  "wire_functions None out = filter (\<lambda>j. get_str j ''type'' = Some ''function'') out"
| "wire_functions (Some ns) out = concat (map group_tools (filter (is_group ns) out))"

definition sent_functions :: "string option \<Rightarrow> tool_definition list \<Rightarrow> json list" where
  "sent_functions ns ts =
     map lower_function_tool (filter (\<lambda>t. td_namespace t = ns \<and> td_name t \<noteq> ''web_search'') ts)"

lemma filter_single_update:
  assumes "i < length xs" "filter P xs = [xs ! i]" "P y" "P (xs ! i)"
  shows "filter P (xs[i := y]) = [y]"
proof -
  have "filter P (take i xs @ xs ! i # drop (Suc i) xs) = [xs ! i]"
    using assms(1,2) by (simp only: id_take_nth_drop [symmetric])
  then have "filter P (take i xs) @ filter P (drop (Suc i) xs) = []"
    using assms(4) by (cases "filter P (take i xs)") (auto simp: filter_empty_conv)
  with assms(1,3) show ?thesis by (simp add: upd_conv_take_nth_drop)
qed

lemma filter_other_update:
  assumes "i < length xs" "\<not> P y" "\<not> P (xs ! i)"
  shows "filter P (xs[i := y]) = filter P xs"
  by (subst (2) id_take_nth_drop [OF assms(1)]) (simp add: upd_conv_take_nth_drop assms)

definition tools_kept :: "tool_definition list \<Rightarrow> tools_acc \<Rightarrow> bool" where
  "tools_kept ts acc \<longleftrightarrow>
     (case acc of (out, indices) \<Rightarrow>
        (\<forall>ns. wire_functions ns out = sent_functions ns ts)
        \<and> (\<forall>ns. filter (is_group ns) out = (case indices ns of Some i \<Rightarrow> [out ! i] | None \<Rightarrow> []))
        \<and> (\<forall>ns i. indices ns = Some i \<longrightarrow> i < length out \<and> is_group ns (out ! i)
              \<and> (\<exists>js. json_get (out ! i) ''tools'' = Some (JArr js))))"

lemma keptD:
  assumes "tools_kept ts (out, indices)"
  shows "wire_functions ns out = sent_functions ns ts"
    "filter (is_group n) out = (case indices n of Some i \<Rightarrow> [out ! i] | None \<Rightarrow> [])"
    "indices n = Some i \<Longrightarrow> i < length out"
    "indices n = Some i \<Longrightarrow> is_group n (out ! i)"
    "indices n = Some i \<Longrightarrow> \<exists>js. json_get (out ! i) ''tools'' = Some (JArr js)"
  using assms by (simp_all add: tools_kept_def)

lemma keptI:
  assumes "\<And>ns. wire_functions ns out = sent_functions ns ts"
    and "\<And>n. filter (is_group n) out = (case indices n of Some i \<Rightarrow> [out ! i] | None \<Rightarrow> [])"
    and "\<And>n i. indices n = Some i \<Longrightarrow>
      i < length out \<and> is_group n (out ! i) \<and> (\<exists>js. json_get (out ! i) ''tools'' = Some (JArr js))"
  shows "tools_kept ts (out, indices)"
  using assms by (simp add: tools_kept_def)

lemma wire_append: "wire_functions ns (a @ b) = wire_functions ns a @ wire_functions ns b"
  by (cases ns) simp_all

lemma sent_append [simp]: "sent_functions ns (ts @ [t]) = sent_functions ns ts
    @ (if td_namespace t = ns \<and> td_name t \<noteq> ''web_search'' then [lower_function_tool t] else [])"
  by (simp add: sent_functions_def)

lemma function_tool_type [simp]:
  "get_str (lower_function_tool t) ''type'' = Some ''function''" "\<not> is_group ns (lower_function_tool t)"
  by (simp_all add: lower_function_tool_def get_str_def is_group_def)

lemma new_group_facts [simp]:
  "is_group ns' (namespace_group ns t j) \<longleftrightarrow> ns' = ns" "group_tools (namespace_group ns t j) = [j]"
  "get_str (namespace_group ns t j) ''type'' = Some ''namespace''"
  "json_get (namespace_group ns t j) ''tools'' = Some (JArr [j])"
  by (auto simp: namespace_group_def is_group_def group_tools_def get_str_def)

lemma push_group_facts:
  assumes "is_group ns g" "json_get g ''tools'' = Some (JArr js)"
  shows "is_group ns' (push_namespace_tool j g) \<longleftrightarrow> ns' = ns" "group_tools (push_namespace_tool j g) = group_tools g @ [j]"
    "get_str (push_namespace_tool j g) ''type'' = Some ''namespace''"
    "json_get (push_namespace_tool j g) ''tools'' = Some (JArr (js @ [j]))"
proof -
  have o: "as_object g \<noteq> None" using assms(2) by (cases g) auto
  have p: "push_namespace_tool j g = json_insert ''tools'' (JArr (js @ [j])) g"
    by (simp add: push_namespace_tool_def assms(2))
  show "is_group ns' (push_namespace_tool j g) \<longleftrightarrow> ns' = ns"
    "get_str (push_namespace_tool j g) ''type'' = Some ''namespace''"
    using assms(1) unfolding p by (auto simp: is_group_def get_str_insert)
  show "group_tools (push_namespace_tool j g) = group_tools g @ [j]"
    "json_get (push_namespace_tool j g) ''tools'' = Some (JArr (js @ [j]))"
    using o assms(2) unfolding p by (auto simp: group_tools_def json_get_insert)
qed

lemma kept_plain:
  assumes k: "tools_kept ts (out, indices)" and g: "\<And>ns. \<not> is_group ns j"
    and f: "\<And>ns. sent_functions ns ts' = sent_functions ns ts
      @ (if ns = None \<and> get_str j ''type'' = Some ''function'' then [j] else [])"
  shows "tools_kept ts' (out @ [j], indices)"
proof (rule keptI)
  fix ns n i
  show "wire_functions ns (out @ [j]) = sent_functions ns ts'"
    using f [of ns] g by (cases ns) (auto simp: wire_append keptD(1) [OF k])
  show "filter (is_group n) (out @ [j]) = (case indices n of Some i \<Rightarrow> [(out @ [j]) ! i] | None \<Rightarrow> [])"
    using keptD(2,3) [OF k, of n] g by (auto simp: nth_append split: option.splits)
  show "i < length (out @ [j]) \<and> is_group n ((out @ [j]) ! i)
      \<and> (\<exists>js. json_get ((out @ [j]) ! i) ''tools'' = Some (JArr js))" if "indices n = Some i"
    using keptD(3-5) [OF k that] by (simp add: nth_append)
qed

lemma kept_new_group:
  assumes k: "tools_kept ts (out, indices)" and t: "td_namespace t = Some ns" "td_name t \<noteq> ''web_search''"
    and i: "indices ns = None"
  shows "tools_kept (ts @ [t]) (out @ [namespace_group ns t (lower_function_tool t)], indices(ns \<mapsto> length out))"
    (is "tools_kept _ (?out, ?ind)")
proof (rule keptI)
  fix n m j
  show "wire_functions m ?out = sent_functions m (ts @ [t])"
    using t by (cases m) (auto simp: wire_append keptD(1) [OF k])
  show "filter (is_group n) ?out = (case ?ind n of Some i \<Rightarrow> [?out ! i] | None \<Rightarrow> [])"
    using keptD(2,3) [OF k, of n] i by (auto simp: nth_append split: option.splits)
  show "j < length ?out \<and> is_group n (?out ! j) \<and> (\<exists>js. json_get (?out ! j) ''tools'' = Some (JArr js))"
    if "?ind n = Some j"
    using keptD(3-5) [OF k, of n j] that by (auto simp: nth_append split: if_splits)
qed

lemma kept_push_group:
  assumes k: "tools_kept ts (out, indices)" and t: "td_namespace t = Some ns" "td_name t \<noteq> ''web_search''"
    and i: "indices ns = Some i"
  shows "tools_kept (ts @ [t]) (out[i := push_namespace_tool (lower_function_tool t) (out ! i)], indices)"
    (is "tools_kept _ (out[i := ?g], _)")
proof -
  obtain js where g: "is_group ns (out ! i)" "json_get (out ! i) ''tools'' = Some (JArr js)"
    using keptD(4,5) [OF k i] by blast
  note l = keptD(3) [OF k i] and p = push_group_facts [OF g, where j = "lower_function_tool t"]
  have one: "is_group n (out ! i) \<longleftrightarrow> n = ns" for n using g by (auto simp: is_group_def)
  have own: "filter (is_group ns) (out[i := ?g]) = [?g]"
    by (rule filter_single_update) (use l keptD(2) [OF k, of ns] i g p in auto)
  have other: "filter (is_group n) (out[i := ?g]) = filter (is_group n) out" if "n \<noteq> ns" for n
    by (rule filter_other_update) (use l one p that in auto)
  have at: "j \<noteq> i" if "indices n = Some j" "n \<noteq> ns" for n j
    using keptD(4) [OF k that(1)] one that(2) by auto
  show ?thesis
  proof (rule keptI)
    fix n j
    show "filter (is_group n) (out[i := ?g]) = (case indices n of Some j \<Rightarrow> [out[i := ?g] ! j] | None \<Rightarrow> [])"
      using own other [of n] at [of n] keptD(2) [OF k, of n] i l by (cases "n = ns") (auto split: option.splits)
    show "j < length (out[i := ?g]) \<and> is_group n (out[i := ?g] ! j)
        \<and> (\<exists>js. json_get (out[i := ?g] ! j) ''tools'' = Some (JArr js))" if "indices n = Some j"
      using keptD(3-5) [OF k that] at [OF that] i l p that by (cases "n = ns") auto
  next
    fix m
    show "wire_functions m (out[i := ?g]) = sent_functions m (ts @ [t])"
    proof (cases m)
      case None
      have "wire_functions None (out[i := ?g]) = wire_functions None out"
        unfolding wire_functions.simps by (rule filter_other_update) (use l g p in \<open>auto simp: is_group_def\<close>)
      with None t show ?thesis by (simp add: keptD(1) [OF k] del: wire_functions.simps)
    next
      case (Some n)
      have "sent_functions (Some n) ts = concat (map group_tools (filter (is_group n) out))"
        using keptD(1) [OF k, of "Some n"] by simp
      with Some own other [of n] keptD(2) [OF k, of ns] i t p show ?thesis by (cases "n = ns") auto
    qed
  qed
qed

lemma lower_tools_step_kept: "tools_kept ts acc \<Longrightarrow> tools_kept (ts @ [t]) (lower_tools_step provider acc t)"
proof (cases acc)
  fix out indices assume k: "tools_kept ts acc" and acc: "acc = (out, indices)"
  show ?thesis
  proof (cases "td_name t = ''web_search''")
    case True
    with k have k': "tools_kept (ts @ [t]) (out, indices)" by (simp add: acc tools_kept_def)
    have w: "get_str (JObj [(''type'', JStr ''web_search_preview'')]) ''type'' = Some ''web_search_preview''"
      by (simp add: get_str_def)
    then have "tools_kept (ts @ [t]) (out @ [JObj [(''type'', JStr ''web_search_preview'')]], indices)"
      by (intro kept_plain [OF k']) (auto simp: is_group_def)
    with k' w True show ?thesis
      by (simp add: acc lower_tools_step_def lower_tool_def split: option.split)
  next
    case False
    have "tools_kept (ts @ [t]) (out @ [lower_function_tool t], indices)" if "td_namespace t = None"
      by (rule kept_plain [OF k [unfolded acc]]) (auto simp: that False)
    then show ?thesis
      using False kept_new_group [OF k [unfolded acc] _ False] kept_push_group [OF k [unfolded acc] _ False]
      by (auto simp: acc lower_tools_step_def lower_tool_def split: option.split)
  qed
qed

lemma lower_tools_kept: "tools_kept ts (foldl (lower_tools_step provider) ([], Map.empty) ts)"
proof (induction ts rule: rev_induct)
  case Nil
  have "wire_functions ns [] = []" for ns by (cases ns) simp_all
  then show ?case by (simp add: tools_kept_def sent_functions_def)
qed (simp add: lower_tools_step_kept)

lemma tools_on_wire:
  "wire_functions ns (lower_tools ts provider) = sent_functions ns ts"
  "length (filter (is_group n) (lower_tools ts provider)) \<le> 1"
  using lower_tools_kept [of ts provider]
  by (auto simp: tools_kept_def lower_tools_def split: prod.splits option.splits)

lemma body_parts:
  "\<exists>body. responses_build_body req = Inr body
     \<and> json_get body ''input'' = Some (JArr (responses_input (rq_messages req)))
     \<and> unwrap_or [] (Option.bind (json_get body ''tools'') as_array) = lower_tools (rq_tools req) (rq_provider req)
     \<and> json_get body ''stream'' = Some (JBool True) \<and> json_get body ''store'' = Some (JBool False)"
proof -
  have "lower_tools [] p = []" for p by (simp add: lower_tools_def)
  then show ?thesis
    by (auto simp: responses_build_body_def responses_generation_def Let_def put_get json_get_insert)
qed

text \<open>The request body of the Responses protocol always builds, asks for an unstored stream, and its
  input items make exactly the calls and answers of the conversation, with the same ids and in the same
  order. Every function tool is offered exactly once: each namespace has at most one group, which holds
  the tools of that namespace in the order of the request, and the tools without a namespace stand
  outside every group.\<close>

lemma responses_body_faithful:
  "\<exists>body items. responses_build_body req = Inr body \<and> json_get body ''input'' = Some (JArr items)
     \<and> json_get body ''stream'' = Some (JBool True) \<and> json_get body ''store'' = Some (JBool False)
     \<and> concat (map item_pairing items) = concat (map (\<lambda>m. concat (map part_pairing (msg_content m))) (rq_messages req))
     \<and> (let tools = unwrap_or [] (Option.bind (json_get body ''tools'') as_array) in
         (\<forall>ns. wire_functions ns tools = sent_functions ns (rq_tools req))
         \<and> (\<forall>n. length (filter (is_group n) tools) \<le> 1))"
  using body_parts [of req] input_pairing [of "rq_messages req"] tools_on_wire [of _ "rq_tools req" "rq_provider req"]
  unfolding Let_def by metis

section \<open>Decoder\<close>

datatype open_block = OpenNone | OpenText string | OpenReasoning string

record responses_decoder =
  rd_lifecycle :: lifecycle_state
  rd_tools :: tool_stream
  rd_usage :: usage
  rd_finish_reason :: "finish_reason option"
  rd_finished :: bool
  rd_open :: open_block
  rd_item_to_call :: "string \<rightharpoonup> string"
  rd_text_phases :: "string \<rightharpoonup> text_phase"

definition responses_decoder_new :: responses_decoder where
  "responses_decoder_new =
     \<lparr> rd_lifecycle = lifecycle_new, rd_tools = tool_stream_new, rd_usage = usage_default,
       rd_finish_reason = Some FrStop, rd_finished = False, rd_open = OpenNone,
       rd_item_to_call = Map.empty, rd_text_phases = Map.empty \<rparr>"

definition call_id_for :: "responses_decoder \<Rightarrow> string \<Rightarrow> string" where
  "call_id_for s item_id = unwrap_or item_id (rd_item_to_call s item_id)"

definition parse_text_phase :: "json option \<Rightarrow> text_phase option" where
  "parse_text_phase v =
     (case Option.bind v as_str of
        None \<Rightarrow> None
      | Some p \<Rightarrow>
          (let phase = str_lower p in
           if phase = ''commentary'' then Some Commentary
           else if phase = ''final'' \<or> phase = ''final_answer'' \<or> phase = ''final-answer'' then Some FinalAnswer
           else None))"

definition set_text_phase :: "responses_decoder \<Rightarrow> string \<Rightarrow> text_phase option \<Rightarrow> responses_decoder" where
  "set_text_phase s d phase =
     (case phase of Some p \<Rightarrow> s\<lparr> rd_text_phases := (rd_text_phases s)(d \<mapsto> p) \<rparr> | None \<Rightarrow> s)"

definition record_text_phase_from_message_item :: "responses_decoder \<Rightarrow> json \<Rightarrow> responses_decoder" where
  "record_text_phase_from_message_item s item =
     (if get_str item ''role'' \<noteq> Some ''assistant'' then s
      else case opt_filter (\<lambda>d. d \<noteq> []) (get_str item ''id'') of
        None \<Rightarrow> s
      | Some d \<Rightarrow> set_text_phase s d (parse_text_phase (json_get item ''phase'')))"

definition record_text_phase_for_output_text_event :: "responses_decoder \<Rightarrow> json \<Rightarrow> responses_decoder" where
  "record_text_phase_for_output_text_event s v =
     (case opt_filter (\<lambda>d. d \<noteq> []) (get_str v ''item_id'') of
        None \<Rightarrow> s
      | Some d \<Rightarrow>
          set_text_phase s d
            (or_else (parse_text_phase (json_get v ''phase''))
               (Option.bind (json_get v ''item'') (\<lambda>item. parse_text_phase (json_get item ''phase'')))))"

definition close_open :: "responses_decoder \<Rightarrow> llm_event list \<times> responses_decoder" where
  "close_open s =
     (case rd_open s of
        OpenText d \<Rightarrow>
          (let (out, lc) = lc_text_end (rd_lifecycle s) d (rd_text_phases s d)
           in (out, s\<lparr> rd_open := OpenNone, rd_text_phases := (rd_text_phases s)(d := None), rd_lifecycle := lc \<rparr>))
      | OpenReasoning d \<Rightarrow>
          (let (out, lc) = lc_reasoning_end (rd_lifecycle s) d in (out, s\<lparr> rd_open := OpenNone, rd_lifecycle := lc \<rparr>))
      | OpenNone \<Rightarrow> ([], s))"

definition push_text :: "responses_decoder \<Rightarrow> string \<Rightarrow> string \<Rightarrow> llm_event list \<times> responses_decoder" where
  "push_text s d delta =
     (let (closed, s1) = (if rd_open s = OpenText d then ([], s)
                          else let (out, s1) = close_open s in (out, s1\<lparr> rd_open := OpenText d \<rparr>));
          (out, lc) = lc_text_delta (rd_lifecycle s1) d delta None
      in (closed @ out, s1\<lparr> rd_lifecycle := lc \<rparr>))"

definition push_reasoning :: "responses_decoder \<Rightarrow> string \<Rightarrow> string \<Rightarrow> llm_event list \<times> responses_decoder" where
  "push_reasoning s d delta =
     (let (closed, s1) = (if rd_open s = OpenReasoning d then ([], s)
                          else let (out, s1) = close_open s in (out, s1\<lparr> rd_open := OpenReasoning d \<rparr>));
          (out, lc) = lc_reasoning_delta (rd_lifecycle s1) d delta
      in (closed @ out, s1\<lparr> rd_lifecycle := lc \<rparr>))"

definition responses_parse_usage :: "json option \<Rightarrow> usage option" where
  "responses_parse_usage u =
     map_option (\<lambda>u.
       (let input = u64_at u ''input_tokens''; output = u64_at u ''output_tokens'' in
        \<lparr> input_tokens = input,
          cached_input_tokens = (case json_get u ''input_tokens_details'' of
             Some d \<Rightarrow> u64_at d ''cached_tokens'' | None \<Rightarrow> 0),
          cache_creation_input_tokens = 0,
          output_tokens = output,
          reasoning_output_tokens = (case json_get u ''output_tokens_details'' of
             Some d \<Rightarrow> u64_at d ''reasoning_tokens'' | None \<Rightarrow> 0),
          total_tokens = (case Option.bind (json_get u ''total_tokens'') as_u64 of
             Some n \<Rightarrow> of_int n | None \<Rightarrow> input + output) \<rparr>)) u"

definition item_added :: "responses_decoder \<Rightarrow> json \<Rightarrow> llm_event list \<times> responses_decoder" where
  "item_added s v =
     (case json_get v ''item'' of
        None \<Rightarrow> ([], s)
      | Some item \<Rightarrow>
          if get_str item ''type'' = Some ''function_call'' then
            (let item_id = unwrap_or [] (get_str item ''id'');
                 call_id = unwrap_or item_id (get_str item ''call_id'');
                 name = unwrap_or [] (get_str item ''name'');
                 s1 = (if item_id = [] then s
                       else s\<lparr> rd_item_to_call := (rd_item_to_call s)(item_id \<mapsto> call_id) \<rparr>);
                 (closed, s2) = close_open s1;
                 (out, ts) = ts_start (rd_tools s2) call_id name (get_str item ''namespace'')
             in (closed @ out, s2\<lparr> rd_tools := ts, rd_finish_reason := Some FrToolUse \<rparr>))
          else if get_str item ''type'' = Some ''message'' then ([], record_text_phase_from_message_item s item)
          else ([], s))"

definition arguments_delta :: "responses_decoder \<Rightarrow> json \<Rightarrow> llm_event list \<times> responses_decoder" where
  "arguments_delta s v =
     (case get_str v ''delta'' of
        None \<Rightarrow> ([], s)
      | Some delta \<Rightarrow>
          (let (out, ts) = ts_delta (rd_tools s) (call_id_for s (unwrap_or [] (get_str v ''item_id''))) None delta
           in (out, s\<lparr> rd_tools := ts \<rparr>)))"

definition arguments_done :: "(string \<Rightarrow> string + json) \<Rightarrow> responses_decoder \<Rightarrow> json
    \<Rightarrow> (llm_error + llm_event list) \<times> responses_decoder" where
  "arguments_done from_str s v =
     (let (r, ts) = ts_end_with_arguments from_str (rd_tools s)
                      (call_id_for s (unwrap_or [] (get_str v ''item_id''))) (get_str v ''arguments'')
      in (r, s\<lparr> rd_tools := ts \<rparr>))"

text \<open>Closing the response: at \<open>response.completed\<close> and in \<open>finish\<close>.\<close>

definition close_response :: "(string \<Rightarrow> string + json) \<Rightarrow> responses_decoder
    \<Rightarrow> (llm_error + llm_event list) \<times> responses_decoder" where
  "close_response from_str s =
     (let (closed, s1) = close_open s in
      case ts_flush from_str (rd_tools s1) of
        (Inl e, ts) \<Rightarrow> (Inl e, s1\<lparr> rd_tools := ts \<rparr>)
      | (Inr calls, ts) \<Rightarrow>
          (let (fin, lc) = lc_finish (rd_lifecycle s1) (rd_usage s1) (rd_finish_reason s1)
           in (Inr (closed @ calls @ fin), s1\<lparr> rd_tools := ts, rd_lifecycle := lc, rd_finished := True \<rparr>)))"

definition response_completed :: "(string \<Rightarrow> string + json) \<Rightarrow> responses_decoder \<Rightarrow> json
    \<Rightarrow> (llm_error + llm_event list) \<times> responses_decoder" where
  "response_completed from_str s v =
     close_response from_str
       (case Option.bind (json_get v ''response'') (\<lambda>resp. responses_parse_usage (json_get resp ''usage'')) of
          Some u \<Rightarrow> s\<lparr> rd_usage := u \<rparr>
        | None \<Rightarrow> s)"

definition response_error :: "json \<Rightarrow> llm_event" where
  "response_error v =
     ProviderError
       (unwrap_or ''provider error''
          (or_else (Option.bind (json_get v ''response'') (\<lambda>r. Option.bind (json_get r ''error'') (\<lambda>e. get_str e ''message'')))
                   (get_str v ''message'')))
       False"

definition event_kind :: "text_frame \<Rightarrow> json \<Rightarrow> string" where
  "event_kind f v = unwrap_or [] (or_else (get_str v ''type'') (tf_event f))"

definition responses_event :: "(string \<Rightarrow> string + json) \<Rightarrow> responses_decoder \<Rightarrow> string \<Rightarrow> json
    \<Rightarrow> (llm_error + llm_event list) \<times> responses_decoder" where
  "responses_event from_str s kind v =
     (if kind = ''response.output_item.added'' then map_prod Inr id (item_added s v)
      else if kind = ''response.output_text.delta'' then
        (case get_str v ''delta'' of
           Some delta \<Rightarrow> map_prod Inr id (push_text s (unwrap_or ''text'' (get_str v ''item_id'')) delta)
         | None \<Rightarrow> (Inr [], s))
      else if kind = ''response.output_text.done'' then (Inr [], record_text_phase_for_output_text_event s v)
      else if kind = ''response.reasoning_summary_text.delta'' \<or> kind = ''response.reasoning_text.delta'' then
        (case get_str v ''delta'' of
           Some delta \<Rightarrow> map_prod Inr id (push_reasoning s (unwrap_or ''reasoning'' (get_str v ''item_id'')) delta)
         | None \<Rightarrow> (Inr [], s))
      else if kind = ''response.function_call_arguments.delta'' then map_prod Inr id (arguments_delta s v)
      else if kind = ''response.function_call_arguments.done'' then arguments_done from_str s v
      else if kind = ''response.output_item.done'' then
        (Inr [], case json_get v ''item'' of Some item \<Rightarrow> record_text_phase_from_message_item s item | None \<Rightarrow> s)
      else if kind = ''response.completed'' then response_completed from_str s v
      else if kind = ''response.failed'' \<or> kind = ''error'' then (Inr [response_error v], s)
      else (Inr [], s))"

definition responses_on_frame :: "(string \<Rightarrow> string + json) \<Rightarrow> responses_decoder \<Rightarrow> text_frame
    \<Rightarrow> (llm_error + llm_event list) \<times> responses_decoder" where
  "responses_on_frame from_str s f =
     (let data = str_trim (tf_data f) in
      if data = [] \<or> data = ''[DONE]'' then (Inr [], s)
      else case from_str data of
        Inl e \<Rightarrow> (Inl (llm_error_new Decode (''invalid Responses SSE JSON: '' @ e)), s)
      | Inr v \<Rightarrow> responses_event from_str s (event_kind f v) v)"

definition responses_finish :: "(string \<Rightarrow> string + json) \<Rightarrow> responses_decoder
    \<Rightarrow> (llm_error + llm_event list) \<times> responses_decoder" where
  "responses_finish from_str s = (if rd_finished s then (Inr [], s) else close_response from_str s)"

section \<open>Properties of the decoder\<close>

text \<open>At most one block is open at any time.\<close>

fun one_block :: "llm_event list \<Rightarrow> lc_check \<Rightarrow> bool" where
  "one_block [] c = True"
| "one_block (e # es) c =
     (case lc_accept e c of
        Some (p, t, r) \<Rightarrow> card t + card r \<le> 1 \<and> one_block es (p, t, r)
      | None \<Rightarrow> False)"

lemma one_block_append:
  "one_block (xs @ ys) c \<longleftrightarrow> one_block xs c \<and> (case lc_accepts xs c of Some c' \<Rightarrow> one_block ys c' | None \<Rightarrow> False)"
  by (induction xs arbitrary: c) (auto split: option.splits)

definition block_text :: "open_block \<Rightarrow> string set" where
  "block_text b = (case b of OpenText d \<Rightarrow> {d} | _ \<Rightarrow> {})"

definition block_reasoning :: "open_block \<Rightarrow> string set" where
  "block_reasoning b = (case b of OpenReasoning d \<Rightarrow> {d} | _ \<Rightarrow> {})"

definition responses_traced :: "(string \<Rightarrow> string + json) \<Rightarrow> llm_event list \<Rightarrow> responses_decoder \<Rightarrow> bool" where
  "responses_traced from_str tr s \<longleftrightarrow>
     core_traced from_str tr (rd_lifecycle s) (rd_tools s) \<and> \<not> rd_finished s
     \<and> one_block (block_events tr) (Before, {}, {})
     \<and> open_text (rd_lifecycle s) = block_text (rd_open s) \<and> open_reasoning (rd_lifecycle s) = block_reasoning (rd_open s)"

lemma traced_simps [simp]:
  "responses_traced from_str tr (s\<lparr> rd_usage := u \<rparr>) = responses_traced from_str tr s"
  "responses_traced from_str tr (s\<lparr> rd_finish_reason := fr \<rparr>) = responses_traced from_str tr s"
  "responses_traced from_str tr (s\<lparr> rd_item_to_call := ic \<rparr>) = responses_traced from_str tr s"
  "responses_traced from_str tr (s\<lparr> rd_text_phases := tp \<rparr>) = responses_traced from_str tr s"
  by (simp_all add: responses_traced_def)

lemma core_view: "core_traced from_str tr lc ts \<Longrightarrow> lc_accepts (block_events tr) (Before, {}, {}) = Some (lc_view lc)"
  by (simp add: core_traced_def lc_traced_def)

lemma traced_lc:
  assumes t: "responses_traced from_str tr s" and l: "lc_step (rd_lifecycle s) e = (out, lc)"
    and b: "one_block out (lc_view (rd_lifecycle s))" "open_text lc = block_text b" "open_reasoning lc = block_reasoning b"
  shows "responses_traced from_str (tr @ out) (s\<lparr> rd_open := b, rd_lifecycle := lc \<rparr>)"
  using t b core_lc [of from_str tr _ _ e out lc] l core_view [of from_str tr] lc_only [OF l]
  by (auto simp: responses_traced_def one_block_append)

lemma close_traced:
  assumes t: "responses_traced from_str tr s" and c: "close_open s = (out, s')"
  shows "responses_traced from_str (tr @ out) s'" "rd_open s' = OpenNone"
proof -
  have st: "step_started (rd_lifecycle s)" if "rd_open s \<noteq> OpenNone"
    using t that by (cases "rd_open s") (auto simp: responses_traced_def core_traced_def lc_traced_def block_text_def block_reasoning_def)
  show "rd_open s' = OpenNone" using c by (auto simp: close_open_def split: open_block.splits prod.splits)
  show "responses_traced from_str (tr @ out) s'"
  proof (cases "rd_open s")
    case (OpenText d)
    obtain lc where l: "lc_text_end (rd_lifecycle s) d (rd_text_phases s d) = (out, lc)"
      "s' = s\<lparr> rd_open := OpenNone, rd_text_phases := (rd_text_phases s)(d := None), rd_lifecycle := lc \<rparr>"
      using c OpenText by (auto simp: close_open_def split: prod.splits)
    have "responses_traced from_str (tr @ out) (s\<lparr> rd_open := OpenNone, rd_lifecycle := lc \<rparr>)"
      using l(1) t OpenText st
      by (intro traced_lc [OF t, of "LcTextEnd d (rd_text_phases s d)"])
         (auto simp: responses_traced_def lc_text_end_def block_text_def block_reasoning_def lc_view_def)
    then show ?thesis unfolding l(2) by (simp add: responses_traced_def)
  next
    case (OpenReasoning d)
    obtain lc where l: "lc_reasoning_end (rd_lifecycle s) d = (out, lc)" "s' = s\<lparr> rd_open := OpenNone, rd_lifecycle := lc \<rparr>"
      using c OpenReasoning by (auto simp: close_open_def split: prod.splits)
    then show ?thesis
      using t OpenReasoning st unfolding l(2)
      by (intro traced_lc [OF t, of "LcReasoningEnd d"])
         (auto simp: responses_traced_def lc_reasoning_end_def block_text_def block_reasoning_def lc_view_def)
  qed (use t c in \<open>simp add: close_open_def\<close>)
qed

lemmas block_defs = lc_text_delta_def lc_reasoning_delta_def ensure_step_def block_text_def block_reasoning_def lc_view_def

lemma traced_sets:
  "responses_traced from_str tr s \<Longrightarrow> open_text (rd_lifecycle s) = block_text (rd_open s)"
  "responses_traced from_str tr s \<Longrightarrow> open_reasoning (rd_lifecycle s) = block_reasoning (rd_open s)"
  "responses_traced from_str tr s \<Longrightarrow> rd_open s \<noteq> OpenNone \<Longrightarrow> step_started (rd_lifecycle s)"
  by (cases "rd_open s"; auto simp: responses_traced_def core_traced_def lc_traced_def block_text_def block_reasoning_def)+

lemma traced_text:
  assumes t: "responses_traced from_str tr s" and o: "rd_open s = OpenText d \<or> rd_open s = OpenNone"
    and l: "lc_text_delta (rd_lifecycle s) d delta None = (out, lc)"
  shows "responses_traced from_str (tr @ out) (s\<lparr> rd_open := OpenText d, rd_lifecycle := lc \<rparr>)"
  using l o traced_sets [OF t]
  by (intro traced_lc [OF t, of "LcText d delta None"]) (auto simp: block_defs split: if_splits)

lemma traced_reasoning:
  assumes t: "responses_traced from_str tr s" and o: "rd_open s = OpenReasoning d \<or> rd_open s = OpenNone"
    and l: "lc_reasoning_delta (rd_lifecycle s) d delta = (out, lc)"
  shows "responses_traced from_str (tr @ out) (s\<lparr> rd_open := OpenReasoning d, rd_lifecycle := lc \<rparr>)"
  using l o traced_sets [OF t]
  by (intro traced_lc [OF t, of "LcReasoning d delta"]) (auto simp: block_defs split: if_splits)

lemma push_text_traced:
  assumes t: "responses_traced from_str tr s" and p: "push_text s d delta = (out, s')"
  shows "responses_traced from_str (tr @ out) s'"
proof (cases "rd_open s = OpenText d")
  case True
  moreover obtain lc where l: "lc_text_delta (rd_lifecycle s) d delta None = (out, lc)" "s' = s\<lparr> rd_lifecycle := lc \<rparr>"
    using p True by (auto simp: push_text_def split: prod.splits)
  ultimately show ?thesis using traced_text [OF t _ l(1)] by (simp add: responses_traced_def)
next
  case False
  obtain closed s1 where c: "close_open s = (closed, s1)" by fastforce
  obtain o2 lc where l: "lc_text_delta (rd_lifecycle s1) d delta None = (o2, lc)" by fastforce
  have "out = closed @ o2" "s' = s1\<lparr> rd_open := OpenText d, rd_lifecycle := lc \<rparr>"
    using p False c l by (auto simp: push_text_def)
  with traced_text [OF close_traced(1) [OF t c] _ l] close_traced(2) [OF t c] show ?thesis by simp
qed

lemma push_reasoning_traced:
  assumes t: "responses_traced from_str tr s" and p: "push_reasoning s d delta = (out, s')"
  shows "responses_traced from_str (tr @ out) s'"
proof (cases "rd_open s = OpenReasoning d")
  case True
  moreover obtain lc where l: "lc_reasoning_delta (rd_lifecycle s) d delta = (out, lc)" "s' = s\<lparr> rd_lifecycle := lc \<rparr>"
    using p True by (auto simp: push_reasoning_def split: prod.splits)
  ultimately show ?thesis using traced_reasoning [OF t _ l(1)] by (simp add: responses_traced_def)
next
  case False
  obtain closed s1 where c: "close_open s = (closed, s1)" by fastforce
  obtain o2 lc where l: "lc_reasoning_delta (rd_lifecycle s1) d delta = (o2, lc)" by fastforce
  have "out = closed @ o2" "s' = s1\<lparr> rd_open := OpenReasoning d, rd_lifecycle := lc \<rparr>"
    using p False c l by (auto simp: push_reasoning_def)
  with traced_reasoning [OF close_traced(1) [OF t c] _ l] close_traced(2) [OF t c] show ?thesis by simp
qed

lemma traced_tools:
  assumes "responses_traced from_str tr s" "block_events out = []"
    and "core_traced from_str tr (rd_lifecycle s) (rd_tools s) \<Longrightarrow> core_traced from_str (tr @ out) (rd_lifecycle s) ts"
  shows "responses_traced from_str (tr @ out) (s\<lparr> rd_tools := ts \<rparr>)"
  using assms by (simp add: responses_traced_def)

lemma item_added_traced:
  assumes t: "responses_traced from_str tr s" and h: "item_added s v = (out, s')"
  shows "responses_traced from_str (tr @ out) s'"
proof (cases "\<exists>item. json_get v ''item'' = Some item \<and> get_str item ''type'' = Some ''function_call''")
  case True
  then obtain item where item: "json_get v ''item'' = Some item" "get_str item ''type'' = Some ''function_call''" by blast
  define item_id where "item_id = unwrap_or [] (get_str item ''id'')"
  define call_id where "call_id = unwrap_or item_id (get_str item ''call_id'')"
  define s1 where "s1 = (if item_id = [] then s else s\<lparr> rd_item_to_call := (rd_item_to_call s)(item_id \<mapsto> call_id) \<rparr>)"
  have "responses_traced from_str tr s1" using t by (simp add: s1_def)
  moreover obtain closed s2 where c: "close_open s1 = (closed, s2)" by fastforce
  ultimately have t2: "responses_traced from_str (tr @ closed) s2" by (rule close_traced(1))
  obtain o2 ts where st: "ts_start (rd_tools s2) call_id (unwrap_or [] (get_str item ''name'')) (get_str item ''namespace'') = (o2, ts)"
    by fastforce
  have "item_added s v = (closed @ o2, s2\<lparr> rd_tools := ts, rd_finish_reason := Some FrToolUse \<rparr>)"
    using c st unfolding item_added_def item option.case Let_def item_id_def [symmetric] call_id_def [symmetric] s1_def [symmetric]
    by (simp add: item)
  then have "out = closed @ o2" "s' = s2\<lparr> rd_tools := ts, rd_finish_reason := Some FrToolUse \<rparr>" using h by simp_all
  moreover have "responses_traced from_str ((tr @ closed) @ o2) (s2\<lparr> rd_tools := ts \<rparr>)"
    by (rule traced_tools [OF t2 _ core_start [OF _ st]]) (use ts_only(1) [OF st] in auto)
  ultimately show ?thesis by simp
next
  case False
  with h t show ?thesis
    by (auto simp: item_added_def record_text_phase_from_message_item_def set_text_phase_def split: option.splits if_splits)
qed

lemma arguments_delta_traced:
  assumes t: "responses_traced from_str tr s" and h: "arguments_delta s v = (out, s')"
  shows "responses_traced from_str (tr @ out) s'"
proof (cases "get_str v ''delta''")
  case (Some delta)
  obtain ts where d: "ts_delta (rd_tools s) (call_id_for s (unwrap_or [] (get_str v ''item_id''))) None delta = (out, ts)"
    "s' = s\<lparr> rd_tools := ts \<rparr>" using h Some by (auto simp: arguments_delta_def split: prod.splits)
  show ?thesis unfolding d(2) by (rule traced_tools [OF t _ core_delta [OF _ d(1)]]) (use ts_only(2) [OF d(1)] in auto)
qed (use t h in \<open>simp add: arguments_delta_def\<close>)

lemma core_end_with:
  assumes c: "core_traced from_str tr lc ts" and e: "ts_end_with_arguments from_str ts d args = (Inr outs, ts')"
  shows "core_traced from_str (tr @ outs) lc ts'" "block_events outs = []"
proof -
  obtain o1 ts1 o2 where 1: "(o1, ts1) = ([], ts) \<or> ts_delta ts d None (case args of Some a \<Rightarrow> a | None \<Rightarrow> []) = (o1, ts1)"
    and 2: "ts_end from_str ts1 d = (Inr o2, ts')" "outs = o1 @ o2"
    using e by (auto simp: ts_end_with_arguments_def Let_def split: prod.splits sum.splits if_splits)
  have "core_traced from_str (tr @ o1) lc ts1" "block_events o1 = []"
    using 1 c core_delta [OF c] ts_only(2) by auto
  with core_end [OF _ 2(1)] ts_only(3) [OF 2(1)] 2(2)
  show "core_traced from_str (tr @ outs) lc ts'" "block_events outs = []" by fastforce+
qed

lemma arguments_done_traced:
  assumes t: "responses_traced from_str tr s" and h: "arguments_done from_str s v = (Inr out, s')"
  shows "responses_traced from_str (tr @ out) s'"
proof -
  obtain ts where e: "ts_end_with_arguments from_str (rd_tools s) (call_id_for s (unwrap_or [] (get_str v ''item_id'')))
      (get_str v ''arguments'') = (Inr out, ts)" "s' = s\<lparr> rd_tools := ts \<rparr>"
    using h by (auto simp: arguments_done_def split: prod.splits)
  have c: "core_traced from_str tr (rd_lifecycle s) (rd_tools s)" using t by (simp add: responses_traced_def)
  show ?thesis unfolding e(2) by (rule traced_tools [OF t]) (use core_end_with [OF c e(1)] in auto)
qed

lemma phase_traced:
  "responses_traced from_str tr (record_text_phase_from_message_item s item) = responses_traced from_str tr s"
  "responses_traced from_str tr (record_text_phase_for_output_text_event s v) = responses_traced from_str tr s"
  by (simp_all add: record_text_phase_from_message_item_def record_text_phase_for_output_text_event_def
      set_text_phase_def split: option.split)

lemma error_traced: "responses_traced from_str tr s \<Longrightarrow> responses_traced from_str (tr @ [response_error v]) s"
  by (simp add: responses_traced_def core_traced_def response_error_def)

text \<open>Closing a response.\<close>

definition responses_complete :: "(string \<Rightarrow> string + json) \<Rightarrow> llm_event list \<Rightarrow> bool" where
  "responses_complete from_str tr \<longleftrightarrow> stream_complete from_str tr \<and> one_block (block_events tr) (Before, {}, {})"

lemma close_response_complete:
  assumes t: "responses_traced from_str tr s" and c: "close_response from_str s = (Inr out, s')"
  shows "responses_complete from_str (tr @ out)" "rd_finished s'"
proof -
  obtain closed s1 where 1: "close_open s = (closed, s1)" by fastforce
  obtain calls ts where 2: "ts_flush from_str (rd_tools s1) = (Inr calls, ts)"
    using c 1 by (auto simp: close_response_def split: prod.splits sum.splits)
  obtain fin lc where 3: "lc_finish (rd_lifecycle s1) (rd_usage s1) (rd_finish_reason s1) = (fin, lc)" by fastforce
  have out: "out = closed @ calls @ fin" and s': "s' = s1\<lparr> rd_tools := ts, rd_lifecycle := lc, rd_finished := True \<rparr>"
    using c 1 2 3 by (auto simp: close_response_def)
  note t1 = close_traced [OF t 1]
  have core: "core_traced from_str (tr @ closed) (rd_lifecycle s1) (rd_tools s1)"
    and ob: "one_block (block_events (tr @ closed)) (Before, {}, {})" and nf: "\<not> lc_finished (rd_lifecycle s1)"
    using t1(1) unfolding responses_traced_def core_traced_def lc_traced_def by blast+
  have "one_block fin (lc_view (rd_lifecycle s1))"
    using 3 nf traced_sets(1,2) [OF t1(1)] t1(2)
    by (auto simp: lc_finish_def ensure_step_def block_text_def block_reasoning_def lc_view_def split: if_splits)
  then have "one_block (block_events (tr @ closed) @ fin) (Before, {}, {})"
    using ob core_view [OF core] by (simp only: one_block_append option.case simp_thms)
  then have "one_block (block_events (tr @ out)) (Before, {}, {})"
    using out ts_end_all_only [OF 2 [unfolded ts_flush_def]] lc_finish_only [OF 3] by simp
  with core_closes(1) [OF core 2 3] out show "responses_complete from_str (tr @ out)" by (simp add: responses_complete_def)
  show "rd_finished s'" by (simp add: s')
qed

definition not_completed :: "(string \<Rightarrow> string + json) \<Rightarrow> text_frame \<Rightarrow> bool" where
  "not_completed from_str f \<longleftrightarrow>
     (case from_str (str_trim (tf_data f)) of Inr v \<Rightarrow> event_kind f v \<noteq> ''response.completed'' | Inl _ \<Rightarrow> True)"

definition keeps :: "(string \<Rightarrow> string + json) \<Rightarrow> llm_event list
    \<Rightarrow> (llm_error + llm_event list) \<times> responses_decoder \<Rightarrow> bool" where
  "keeps from_str tr r \<longleftrightarrow> (\<forall>out s'. r = (Inr out, s') \<longrightarrow> responses_traced from_str (tr @ out) s')"

lemma keeps_if: "(c \<Longrightarrow> keeps from_str tr a) \<Longrightarrow> (\<not> c \<Longrightarrow> keeps from_str tr b) \<Longrightarrow> keeps from_str tr (if c then a else b)"
  by simp

lemma keeps_option:
  "keeps from_str tr a \<Longrightarrow> (\<And>x. keeps from_str tr (f x)) \<Longrightarrow> keeps from_str tr (case z of Some x \<Rightarrow> f x | None \<Rightarrow> a)"
  by (cases z) simp_all

lemma keeps_parts:
  assumes t: "responses_traced from_str tr s"
  shows "keeps from_str tr (map_prod Inr id (item_added s v))" "keeps from_str tr (map_prod Inr id (push_text s d delta))"
    "keeps from_str tr (map_prod Inr id (push_reasoning s d delta))" "keeps from_str tr (map_prod Inr id (arguments_delta s v))"
    "keeps from_str tr (arguments_done from_str s v)" "keeps from_str tr (Inr [response_error v], s)"
    "keeps from_str tr (Inr [], s)" "keeps from_str tr (Inr [], record_text_phase_for_output_text_event s v)"
    "keeps from_str tr (Inr [], case z of Some item \<Rightarrow> record_text_phase_from_message_item s item | None \<Rightarrow> s)"
  using t item_added_traced [OF t] push_text_traced [OF t] push_reasoning_traced [OF t]
    arguments_delta_traced [OF t] arguments_done_traced [OF t] error_traced [OF t]
  by (simp_all add: keeps_def map_prod_Inr phase_traced split: option.split)

lemma responses_event_traced:
  assumes t: "responses_traced from_str tr s" and k: "kind \<noteq> ''response.completed''"
  shows "keeps from_str tr (responses_event from_str s kind v)"
  unfolding responses_event_def
  by (intro keeps_if keeps_option keeps_parts [OF t]) (erule notE [OF k])

lemma frame_cases:
  assumes "responses_on_frame from_str s f = (Inr out, s')"
  obtains "out = []" "s' = s"
  | v where "from_str (str_trim (tf_data f)) = Inr v" "responses_event from_str s (event_kind f v) v = (Inr out, s')"
  using assms by (auto simp: responses_on_frame_def Let_def split: if_splits sum.splits)

lemma responses_frame_traced:
  assumes t: "responses_traced from_str tr s" and n: "not_completed from_str f"
    and h: "responses_on_frame from_str s f = (Inr out, s')"
  shows "responses_traced from_str (tr @ out) s'"
  using h
proof (cases rule: frame_cases)
  case (2 v)
  with responses_event_traced [OF t, of "event_kind f v" v] n show ?thesis by (simp add: not_completed_def keeps_def)
qed (use t in simp)

interpretation responses: response_decoder "responses_on_frame from_str" "responses_finish from_str"
  "responses_traced from_str" "not_completed from_str" "responses_complete from_str" for from_str
proof
  fix tr d evs d'
  assume t: "responses_traced from_str tr d" and f: "responses_finish from_str d = (Inr evs, d')"
  then have "close_response from_str d = (Inr evs, d')" by (simp add: responses_finish_def responses_traced_def)
  from close_response_complete [OF t this]
  show "responses_complete from_str (tr @ evs) \<and> responses_finish from_str d' = (Inr [], d')"
    by (simp add: responses_finish_def)
qed (rule responses_frame_traced)

lemma completed_frame:
  assumes t: "responses_traced from_str tr s" and n: "\<not> not_completed from_str f"
    and h: "responses_on_frame from_str s f = (Inr out, s')"
  shows "responses_traced from_str (tr @ out) s' \<or> responses_complete from_str (tr @ out) \<and> rd_finished s'"
  using h
proof (cases rule: frame_cases)
  case (2 v)
  then have "response_completed from_str s v = (Inr out, s')"
    using n by (simp add: not_completed_def responses_event_def)
  with close_response_complete [of from_str tr "s\<lparr> rd_usage := u \<rparr>" for u] close_response_complete [OF t] t
  show ?thesis by (auto simp: response_completed_def split: option.splits)
qed (use t in simp)

lemma on_frames_snoc:
  assumes "on_frames step d (fs @ [f]) = (Inr evs, d')"
  obtains e1 d1 e2 where "on_frames step d fs = (Inr e1, d1)" "step d1 f = (Inr e2, d')" "evs = e1 @ e2"
  using assms on_frames_append [of step d fs "[f]"] by (auto split: prod.splits sum.splits)

lemma responses_new_traced: "responses_traced from_str [] responses_decoder_new"
  using core_new [of from_str]
  by (simp add: responses_traced_def responses_decoder_new_def block_text_def block_reasoning_def lifecycle_new_def)

text \<open>C17. The Responses decoder turns every response it can decode into a finished event stream, whether
  the response ends with \<open>response.completed\<close> or is cut off before it: text, reasoning and tool calls may
  interrupt each other and provider errors may come in between. The whole trace has one step start, ends with
  its step finish and finish, and between them has at most one text or reasoning block open at any time and
  closes each; the input of each call is what its fragments (or its final arguments) say, no started call is
  lost, and finishing again adds nothing. The step start need not come first, as \<open>schema/event.rs\<close> announces:
  events of calls and provider errors that precede all text and reasoning precede it too
  (\<open>responses_tool_input_before_step\<close>), and no others do.\<close>

theorem responses_stream_complete:
  assumes "\<forall>f\<in>set (butlast frames). not_completed from_str f"
    and "on_frames (responses_on_frame from_str) responses_decoder_new frames = (Inr evs, s)"
    and "responses_finish from_str s = (Inr fin, s')"
  shows "responses_complete from_str (evs @ fin) \<and> responses_finish from_str s' = (Inr [], s')"
proof (cases "\<forall>f\<in>set frames. not_completed from_str f")
  case True
  from responses.decoded_complete [OF responses_new_traced this assms(2,3)] show ?thesis .
next
  case False
  with assms(1) obtain fs f where fs: "frames = fs @ [f]" "\<not> not_completed from_str f" "\<forall>f\<in>set fs. not_completed from_str f"
    by (cases frames rule: rev_cases) auto
  from assms(2) obtain e1 d1 e2 where r: "on_frames (responses_on_frame from_str) responses_decoder_new fs = (Inr e1, d1)"
    "responses_on_frame from_str d1 f = (Inr e2, s)" "evs = e1 @ e2" unfolding fs(1) by (rule on_frames_snoc)
  have "responses_traced from_str e1 d1" using responses.frames_keep [OF responses_new_traced fs(3) r(1)] by simp
  from completed_frame [OF this fs(2) r(2)] r(3) responses.finish_completes [of _ evs s fin s'] assms(3)
  show ?thesis by (auto simp: responses_finish_def)
qed

definition sample_responses_parser :: "string \<Rightarrow> string + json" where
  "sample_responses_parser t =
     (if t = ''hi'' then
        Inr (JObj [(''delta'', JStr ''hi''), (''item_id'', JStr ''m1''), (''type'', JStr ''response.output_text.delta'')])
      else if t = ''call'' then
        Inr (JObj [(''item'', JObj [(''call_id'', JStr ''c1''), (''id'', JStr ''i1''), (''name'', JStr ''ls''),
                                    (''type'', JStr ''function_call'')]),
                   (''type'', JStr ''response.output_item.added'')])
      else if t = ''end'' then Inr (JObj [(''type'', JStr ''response.completed'')])
      else Inl ''eof'')"

abbreviation sample_responses_frames :: "text_frame list" where
  "sample_responses_frames \<equiv> map (\<lambda>t. \<lparr> tf_event = None, tf_data = t \<rparr>) [''hi'', ''call'', ''end'']"

theorem responses_stream_complete_witness:
  "\<exists>evs s fin s'.
     on_frames (responses_on_frame sample_responses_parser) responses_decoder_new sample_responses_frames = (Inr evs, s)
     \<and> responses_finish sample_responses_parser s = (Inr fin, s')
     \<and> TextEnd ''m1'' None \<in> set evs \<and> ToolCall ''c1'' ''ls'' None None (JObj []) \<in> set evs
     \<and> responses_complete sample_responses_parser (evs @ fin)"
proof -
  let ?run = "on_frames (responses_on_frame sample_responses_parser) responses_decoder_new sample_responses_frames"
  let ?fin = "responses_finish sample_responses_parser (snd ?run)"
  have "\<not> isl (fst ?run)" "\<not> isl (fst ?fin)" "TextEnd ''m1'' None \<in> set (projr (fst ?run))"
    "ToolCall ''c1'' ''ls'' None None (JObj []) \<in> set (projr (fst ?run))"
    "list_all (not_completed sample_responses_parser) (butlast sample_responses_frames)"
    by code_simp+
  then obtain evs s fin s' where r: "?run = (Inr evs, s)" "responses_finish sample_responses_parser s = (Inr fin, s')"
    "TextEnd ''m1'' None \<in> set evs" "ToolCall ''c1'' ''ls'' None None (JObj []) \<in> set evs"
    "\<forall>f\<in>set (butlast sample_responses_frames). not_completed sample_responses_parser f"
    by (cases ?run; cases "fst ?run"; cases ?fin; cases "fst ?fin") (auto simp: list_all_iff)
  with responses_stream_complete [OF r(5,1,2)] show ?thesis by blast
qed

text \<open>Tool input that comes before any text comes before the step start.\<close>

lemma responses_tool_input_before_step:
  "map (\<lambda>e. e = StepStart) (projr (fst (on_frames (responses_on_frame sample_responses_parser) responses_decoder_new
     (map (\<lambda>t. \<lparr> tf_event = None, tf_data = t \<rparr>) [''call'', ''hi''])))) = [False, True, False, False]"
  by code_simp

text \<open>The total that stands in for a missing one wraps at 64 bits.\<close>

lemma responses_total_wraps:
  "map_option total_tokens (responses_parse_usage
     (Some (JObj [(''input_tokens'', JNum 18446744073709551615), (''output_tokens'', JNum 2)]))) = Some 1"
  by (simp add: responses_parse_usage_def u64_at_def unwrap_or_def)

end
