(* ===== verification/Gemini.thy ===== *)
theory Gemini
  imports OpenAiChat
begin

text \<open>
  The Gemini protocol (\<open>browser-use-llm/src/protocols/gemini_generate_content.rs\<close>): the request
  body, whose function responses carry the name of the call they answer, and the decoder of the
  streamed response. \<open>serde_json::from_str\<close> is the parameter \<open>from_str\<close>, \<open>Value::to_string\<close> is
  \<open>show_json\<close>.
\<close>

section \<open>Request body\<close>

definition gemini_dummy_thought_signature :: string where
  "gemini_dummy_thought_signature = ''skip_thought_signature_validator''"

fun sanitize_schema_for_gemini :: "json \<Rightarrow> json" where
  "sanitize_schema_for_gemini (JObj kvs) =
     JObj (map (\<lambda>(k, v). (k, sanitize_schema_for_gemini v)) (filter (\<lambda>(k, v). k \<noteq> ''additionalProperties'') kvs))"
| "sanitize_schema_for_gemini (JArr items) = JArr (map sanitize_schema_for_gemini items)"
| "sanitize_schema_for_gemini v = v"

definition build_generation_config :: "generation_options \<Rightarrow> json" where
  "build_generation_config g =
     put_when (gen_stop g \<noteq> []) ''stopSequences'' (JArr (map JStr (gen_stop g)))
       (put_opt ''maxOutputTokens'' (map_option (\<lambda>n. JNum (int n)) (gen_max_tokens g))
         (put_opt ''topP'' (gen_top_p g) (put_opt ''temperature'' (gen_temperature g) (JObj []))))"

type_synonym function_name_tracker = "string \<rightharpoonup> string list"

definition record_call :: "function_name_tracker \<Rightarrow> string \<Rightarrow> string \<Rightarrow> function_name_tracker" where
  "record_call tracker d name = tracker(d \<mapsto> unwrap_or [] (tracker d) @ [name])"

definition take_name :: "function_name_tracker \<Rightarrow> string \<Rightarrow> string option \<times> function_name_tracker" where
  "take_name tracker d =
     (case tracker d of
        None \<Rightarrow> (None, tracker)
      | Some queue \<Rightarrow>
          (let (name, queue) = (case queue of [] \<Rightarrow> (None, []) | n # ns \<Rightarrow> (Some n, ns))
           in (name, if queue = [] then tracker(d := None) else tracker(d \<mapsto> queue))))"

definition gemini_thought_signature :: "json option \<Rightarrow> string option" where
  "gemini_thought_signature meta =
     Option.bind
       (or_else
         (or_else
           (Option.bind (Option.bind meta (\<lambda>m. or_else (json_get m ''google'') (json_get m ''gemini'')))
             (\<lambda>google. json_get google ''thought_signature''))
           (Option.bind meta (\<lambda>m. json_get m ''thought_signature'')))
         (Option.bind meta (\<lambda>m. json_get m ''thoughtSignature'')))
       as_str"

definition should_add_dummy_thought_signature :: "nat option \<Rightarrow> json option \<Rightarrow> bool" where
  "should_add_dummy_thought_signature index meta \<longleftrightarrow> gemini_thought_signature meta = None \<and> index = Some 0"

definition build_text_part :: "string \<Rightarrow> json option \<Rightarrow> json" where
  "build_text_part t meta =
     put_opt ''thoughtSignature'' (map_option JStr (gemini_thought_signature meta)) (JObj [(''text'', JStr t)])"

function flatten_tool_result_content :: "content_part list \<Rightarrow> string \<Rightarrow> string" where
  "flatten_tool_result_content [] out = out"
| "flatten_tool_result_content (part # rest) out =
     flatten_tool_result_content rest
       (case part of
          PText fragment _ \<Rightarrow> out @ fragment
        | PReasoning fragment _ _ \<Rightarrow> out @ fragment
        | PMedia mime _ _ _ \<Rightarrow>
            (if out = [] then out else out @ [CHR 0x0A]) @ ''['' @ mime @ '' media omitted from function response]''
        | PToolResult _ content _ \<Rightarrow> out @ flatten_tool_result_content content []
        | PToolCall _ _ _ _ \<Rightarrow> out)"
  by pat_completeness auto
termination
  by (relation "measure (\<lambda>(content, out). size_list size content)") auto

definition function_call_part :: "string \<Rightarrow> json \<Rightarrow> json option \<Rightarrow> nat option \<Rightarrow> json" where
  "function_call_part name input meta index =
     put_opt ''thoughtSignature''
       (map_option JStr
         (or_else (gemini_thought_signature meta)
            (if should_add_dummy_thought_signature index meta then Some gemini_dummy_thought_signature else None)))
       (JObj [(''functionCall'', JObj [(''args'', input), (''name'', JStr name)])])"

fun build_part :: "content_part \<Rightarrow> function_name_tracker \<Rightarrow> nat option \<Rightarrow> (llm_error + json) \<times> function_name_tracker" where
  "build_part (PText t meta) tracker index = (Inr (build_text_part t meta), tracker)"
| "build_part (PReasoning t _ meta) tracker index = (Inr (build_text_part t meta), tracker)"
| "build_part (PMedia mime data url _) tracker index =
     (case (data, url) of
        (Some d, _) \<Rightarrow> Inr (JObj [(''inlineData'', JObj [(''data'', JStr d), (''mimeType'', JStr mime)])])
      | (None, Some u) \<Rightarrow> Inr (JObj [(''fileData'', JObj [(''fileUri'', JStr u), (''mimeType'', JStr mime)])])
      | (None, None) \<Rightarrow> Inl (llm_error_new InvalidRequest ''media content part has neither data nor url''),
      tracker)"
| "build_part (PToolCall d name input meta) tracker index =
     (Inr (function_call_part name input meta index), record_call tracker d name)"
| "build_part (PToolResult d content is_error) tracker index =
     (case take_name tracker d of
        (name, tracker) \<Rightarrow>
          (Inr (JObj [(''functionResponse'',
                 JObj [(''id'', JStr d), (''name'', JStr (unwrap_or d name)),
                       (''response'', JObj [(''content'', JStr (flatten_tool_result_content content [])),
                                            (''is_error'', JBool is_error)])])]),
           tracker))"

fun build_parts :: "content_part list \<Rightarrow> nat \<Rightarrow> function_name_tracker \<Rightarrow> (llm_error + json list) \<times> function_name_tracker" where
  "build_parts [] n tracker = (Inr [], tracker)"
| "build_parts (p # ps) n tracker =
     (let is_call = (call_id_of p \<noteq> None) in
      case build_part p tracker (if is_call then Some n else None) of
        (Inl e, tracker) \<Rightarrow> (Inl e, tracker)
      | (Inr j, tracker) \<Rightarrow>
          (case build_parts ps (if is_call then n + 1 else n) tracker of
             (r, tracker) \<Rightarrow> (map_sum id (\<lambda>js. j # js) r, tracker)))"

definition gemini_role :: "message_role \<Rightarrow> string" where
  "gemini_role r = (case r of RAssistant \<Rightarrow> ''model'' | _ \<Rightarrow> ''user'')"

definition build_content :: "message \<Rightarrow> function_name_tracker \<Rightarrow> (llm_error + json) \<times> function_name_tracker" where
  "build_content m tracker =
     (case build_parts (msg_content m) 0 tracker of
        (r, tracker) \<Rightarrow>
          (map_sum id (\<lambda>parts. JObj [(''parts'', JArr parts), (''role'', JStr (gemini_role (msg_role m)))]) r, tracker))"

fun build_contents :: "message list \<Rightarrow> function_name_tracker \<Rightarrow> llm_error + json list" where
  "build_contents [] tracker = Inr []"
| "build_contents (m # ms) tracker =
     (case build_content m tracker of
        (Inl e, tracker) \<Rightarrow> Inl e
      | (Inr j, tracker) \<Rightarrow> map_sum id (\<lambda>js. j # js) (build_contents ms tracker))"

fun build_tool_config :: "tool_choice \<Rightarrow> json" where
  "build_tool_config choice =
     JObj [(''functionCallingConfig'',
       (case choice of
          ChoiceAuto \<Rightarrow> JObj [(''mode'', JStr ''AUTO'')]
        | ChoiceNone \<Rightarrow> JObj [(''mode'', JStr ''NONE'')]
        | ChoiceRequired \<Rightarrow> JObj [(''mode'', JStr ''ANY'')]
        | ChoiceTool name \<Rightarrow> JObj [(''allowedFunctionNames'', JArr [JStr name]), (''mode'', JStr ''ANY'')]))]"

definition gemini_tool :: "tool_definition \<Rightarrow> json" where
  "gemini_tool t = JObj [(''description'', JStr (td_description t)), (''name'', JStr (td_name t)),
                         (''parameters'', sanitize_schema_for_gemini (td_input_schema t))]"

definition gemini_build_body :: "llm_request \<Rightarrow> llm_error + json" where
  "gemini_build_body req =
     map_sum id (\<lambda>contents.
       (let body = put_when (rq_system req \<noteq> []) ''systemInstruction''
              (JObj [(''parts'', JArr (map (\<lambda>p. JObj [(''text'', JStr (sys_text p))]) (rq_system req)))]) (JObj []);
            body = json_insert ''contents'' (JArr contents) body;
            config = build_generation_config (rq_generation req);
            body = put_when (config \<noteq> JObj []) ''generationConfig'' config body;
            body = put_when (rq_tools req \<noteq> []) ''tools''
              (JArr [JObj [(''functionDeclarations'', JArr (map gemini_tool (rq_tools req)))]]) body
        in put_opt ''toolConfig'' (map_option build_tool_config (rq_tool_choice req)) body))
       (build_contents (rq_messages req) Map.empty)"

section \<open>Properties of the body\<close>

text \<open>No schema on the wire mentions the rejected key, at any depth.\<close>

fun mentions_key :: "string \<Rightarrow> json \<Rightarrow> bool" where
  "mentions_key k (JObj kvs) = list_ex (\<lambda>(k', v). k' = k \<or> mentions_key k v) kvs"
| "mentions_key k (JArr items) = list_ex (mentions_key k) items"
| "mentions_key k _ = False"

lemma sanitized_schema: "\<not> mentions_key ''additionalProperties'' (sanitize_schema_for_gemini v)"
  by (induction v rule: sanitize_schema_for_gemini.induct) (auto simp: list_ex_iff)

lemma sanitize_keeps: "\<not> mentions_key ''additionalProperties'' v \<Longrightarrow> sanitize_schema_for_gemini v = v"
proof (induction v rule: sanitize_schema_for_gemini.induct)
  case (1 kvs)
  have "filter (\<lambda>(k, v). k \<noteq> ''additionalProperties'') kvs = kvs"
    by (rule filter_True) (use 1(2) in \<open>auto simp: list_ex_iff\<close>)
  moreover have "map (\<lambda>(k, v). (k, sanitize_schema_for_gemini v)) kvs = kvs"
    by (rule map_idI) (use 1 in \<open>fastforce simp: list_ex_iff\<close>)
  ultimately show ?case by simp
next
  case (2 items)
  have "map sanitize_schema_for_gemini items = items" by (rule map_idI) (use 2 in \<open>auto simp: list_ex_iff\<close>)
  then show ?case by simp
qed simp_all

text \<open>The names of the calls with an id, and how often the id was answered; an answer belongs to the
  call that many places on.\<close>

definition call_names :: "string \<Rightarrow> content_part list \<Rightarrow> string list" where
  "call_names d ps =
     List.map_filter (\<lambda>p. case p of PToolCall d' n _ _ \<Rightarrow> if d' = d then Some n else None | _ \<Rightarrow> None) ps"

definition answers :: "string \<Rightarrow> content_part list \<Rightarrow> nat" where
  "answers d ps = length (filter (\<lambda>p. result_id_of p = Some d) ps)"

fun answered_calls :: "content_part list \<Rightarrow> content_part list \<Rightarrow> (string \<times> string) list" where
  "answered_calls before [] = []"
| "answered_calls before (p # ps) =
     (case result_id_of p of Some d \<Rightarrow> [(d, call_names d before ! answers d before)] | None \<Rightarrow> [])
     @ answered_calls (before @ [p]) ps"

text \<open>Every answer comes after a call it can belong to.\<close>

fun answers_follow :: "content_part list \<Rightarrow> content_part list \<Rightarrow> bool" where
  "answers_follow before [] = True"
| "answers_follow before (p # ps) \<longleftrightarrow>
     (case result_id_of p of Some d \<Rightarrow> answers d before < length (call_names d before) | None \<Rightarrow> True)
     \<and> answers_follow (before @ [p]) ps"

definition wire_answer :: "json \<Rightarrow> (string \<times> string) list" where
  "wire_answer j =
     (case json_get j ''functionResponse'' of
        Some r \<Rightarrow> (case (get_str r ''id'', get_str r ''name'') of (Some d, Some n) \<Rightarrow> [(d, n)] | _ \<Rightarrow> [])
      | None \<Rightarrow> [])"

definition content_parts :: "json \<Rightarrow> json list" where
  "content_parts j = unwrap_or [] (Option.bind (json_get j ''parts'') as_array)"

definition tracks :: "content_part list \<Rightarrow> function_name_tracker \<Rightarrow> bool" where
  "tracks before tracker \<longleftrightarrow>
     (\<forall>d. answers d before \<le> length (call_names d before)
        \<and> tracker d = (let q = drop (answers d before) (call_names d before) in if q = [] then None else Some q))"

lemma counts_snoc [simp]:
  "answers d (ps @ [p]) = answers d ps + (if result_id_of p = Some d then 1 else 0)"
  "call_names d (ps @ [p]) = call_names d ps @ (case p of PToolCall d' n _ _ \<Rightarrow> if d' = d then [n] else [] | _ \<Rightarrow> [])"
  by (auto simp: answers_def call_names_def map_filter_def split: content_part.splits)

lemma tracks_new: "tracks [] Map.empty"
  by (simp add: tracks_def answers_def call_names_def map_filter_simps)

lemma tracks_call:
  assumes "tracks before tracker"
  shows "tracks (before @ [PToolCall d name input meta]) (record_call tracker d name)"
  using assms by (auto simp: tracks_def record_call_def unwrap_or_def Let_def intro: le_SucI)

lemma tracks_result:
  assumes t: "tracks before tracker" and l: "answers d before < length (call_names d before)"
  obtains tracker' where "take_name tracker d = (Some (call_names d before ! answers d before), tracker')"
    "tracks (before @ [PToolResult d content e]) tracker'"
proof -
  let ?q = "drop (answers d before) (call_names d before)"
  have q: "?q = call_names d before ! answers d before # drop (Suc (answers d before)) (call_names d before)"
    using l by (simp add: Cons_nth_drop_Suc)
  then have "tracker d = Some ?q" using t l by (simp add: tracks_def Let_def)
  then have "take_name tracker d = (Some (call_names d before ! answers d before),
      (let r = drop (Suc (answers d before)) (call_names d before) in if r = [] then tracker(d := None) else tracker(d \<mapsto> r)))"
    unfolding q by (simp add: take_name_def Let_def)
  moreover have "tracks (before @ [PToolResult d content e])
      (let r = drop (Suc (answers d before)) (call_names d before) in if r = [] then tracker(d := None) else tracker(d \<mapsto> r))"
    using t l by (auto simp: tracks_def Let_def intro: le_antisym)
  ultimately show ?thesis by (rule that)
qed

lemma part_named:
  assumes t: "tracks before tracker" and f: "answers_follow before (p # ps)"
    and b: "build_part p tracker index = (Inr j, tracker')"
  shows "tracks (before @ [p]) tracker'" "wire_answer j = answered_calls before [p]"
proof -
  have other: "tracks (before @ [p]) tracker" if "call_id_of p = None" "result_id_of p = None"
    using t that by (cases p) (simp_all add: tracks_def)
  have "tracks (before @ [p]) tracker' \<and> wire_answer j = answered_calls before [p]"
  proof (cases p)
    case (PToolResult d content e)
    with f have "answers d before < length (call_names d before)" by simp
    from tracks_result [OF t this, of content e] obtain tr1 where
      "take_name tracker d = (Some (call_names d before ! answers d before), tr1)" "tracks (before @ [p]) tr1"
      by (metis PToolResult)
    with b PToolResult show ?thesis by (auto simp: wire_answer_def get_str_def unwrap_or_def)
  next
    case (PToolCall d name input meta)
    with b tracks_call [OF t, of d name input meta] show ?thesis
      by (auto simp: wire_answer_def function_call_part_def put_get)
  qed (use b other in \<open>auto simp: wire_answer_def build_text_part_def put_get split: option.splits\<close>)
  then show "tracks (before @ [p]) tracker'" "wire_answer j = answered_calls before [p]" by blast+
qed

lemma parts_named:
  "tracks before tracker \<Longrightarrow> answers_follow before ps \<Longrightarrow> build_parts ps n tracker = (Inr js, tracker') \<Longrightarrow>
     tracks (before @ ps) tracker' \<and> concat (map wire_answer js) = answered_calls before ps"
proof (induction ps arbitrary: before n tracker js)
  case (Cons p ps)
  obtain j tr1 n1 js1 where 1: "build_part p tracker (if call_id_of p \<noteq> None then Some n else None) = (Inr j, tr1)"
    and 2: "build_parts ps n1 tr1 = (Inr js1, tracker')" and js: "js = j # js1"
    using Cons.prems(3) by (auto simp: Let_def map_sum_ok split: prod.splits sum.splits)
  note p = part_named [OF Cons.prems(1,2) 1]
  from Cons.prems(2) have "answers_follow (before @ [p]) ps" by simp
  from Cons.IH [OF p(1) this 2] p(2) js show ?case by simp
qed simp

lemma answered_append:
  "answered_calls before (xs @ ys) = answered_calls before xs @ answered_calls (before @ xs) ys"
  "answers_follow before (xs @ ys) \<longleftrightarrow> answers_follow before xs \<and> answers_follow (before @ xs) ys"
  by (induction xs arbitrary: before) simp_all

lemma contents_named:
  "tracks before tracker \<Longrightarrow> answers_follow before (concat (map msg_content ms)) \<Longrightarrow> build_contents ms tracker = Inr js \<Longrightarrow>
     concat (map wire_answer (concat (map content_parts js))) = answered_calls before (concat (map msg_content ms))"
proof (induction ms arbitrary: before tracker js)
  case (Cons m ms)
  obtain parts tr1 js1 where 1: "build_parts (msg_content m) 0 tracker = (Inr parts, tr1)"
    and 2: "build_contents ms tr1 = Inr js1"
    and js: "js = JObj [(''parts'', JArr parts), (''role'', JStr (gemini_role (msg_role m)))] # js1"
    using Cons.prems(3) by (auto simp: build_content_def map_sum_ok split: prod.splits sum.splits)
  have f: "answers_follow before (msg_content m)" "answers_follow (before @ msg_content m) (concat (map msg_content ms))"
    using Cons.prems(2) by (simp_all add: answered_append)
  note p = parts_named [OF Cons.prems(1) f(1) 1]
  from Cons.IH [OF p [THEN conjunct1] f(2) 2] p js show ?case
    by (simp add: answered_append content_parts_def)
qed simp

fun has_source :: "content_part \<Rightarrow> bool" where
  "has_source (PMedia _ data url _) \<longleftrightarrow> data \<noteq> None \<or> url \<noteq> None"
| "has_source _ = True"

lemma part_isl: "isl (fst (build_part p tracker index)) \<longleftrightarrow> \<not> has_source p"
  by (cases p) (auto split: option.splits prod.splits)

lemma parts_isl: "isl (fst (build_parts ps n tracker)) \<longleftrightarrow> \<not> list_all has_source ps"
proof (induction ps arbitrary: n tracker)
  case (Cons p ps)
  obtain r tr1 where b: "build_part p tracker (if call_id_of p \<noteq> None then Some n else None) = (r, tr1)" by fastforce
  with part_isl [of p tracker "if call_id_of p \<noteq> None then Some n else None"]
  have "isl r \<longleftrightarrow> \<not> has_source p" by simp
  with b Cons.IH show ?case
    by (cases r; cases "call_id_of p") (simp_all add: Let_def case_prod_unfold)
qed simp

lemma contents_isl: "isl (build_contents ms tracker) \<longleftrightarrow> \<not> list_all (\<lambda>m. list_all has_source (msg_content m)) ms"
proof (induction ms arbitrary: tracker)
  case (Cons m ms)
  obtain r tr1 where b: "build_parts (msg_content m) 0 tracker = (r, tr1)" by fastforce
  with parts_isl [of "msg_content m" 0 tracker] have "isl r \<longleftrightarrow> \<not> list_all has_source (msg_content m)" by simp
  with b Cons.IH [of tr1] show ?case
    by (cases r) (simp_all add: build_content_def)
qed simp

lemma gemini_body_parts:
  assumes "gemini_build_body req = Inr body"
  obtains contents where "build_contents (rq_messages req) Map.empty = Inr contents"
    "json_get body ''contents'' = Some (JArr contents)"
  using assms by (auto simp: gemini_build_body_def map_sum_ok Let_def put_get json_get_insert)

text \<open>The Gemini request body is built exactly when every media part of the messages has data or a
  url. In a conversation in which answers follow their calls, every function response then carries the name
  of the very call it answers, also when call ids are used again in later turns (the protocol pairs by name
  and position, not by id), and the responses come in the order of the conversation.\<close>

lemma gemini_body_faithful:
  "(\<exists>body. gemini_build_body req = Inr body)
     = list_all (\<lambda>m. list_all has_source (msg_content m)) (rq_messages req)
   \<and> (answers_follow [] (concat (map msg_content (rq_messages req))) \<longrightarrow>
       (\<forall>body. gemini_build_body req = Inr body \<longrightarrow>
         (\<exists>contents. json_get body ''contents'' = Some (JArr contents)
            \<and> concat (map wire_answer (concat (map content_parts contents)))
              = answered_calls [] (concat (map msg_content (rq_messages req))))))"
proof
  have "(\<exists>body. gemini_build_body req = Inr body) \<longleftrightarrow> \<not> isl (build_contents (rq_messages req) Map.empty)"
    by (cases "build_contents (rq_messages req) Map.empty") (auto simp: gemini_build_body_def)
  then show "(\<exists>body. gemini_build_body req = Inr body)
     = list_all (\<lambda>m. list_all has_source (msg_content m)) (rq_messages req)" by (simp add: contents_isl)
  show "answers_follow [] (concat (map msg_content (rq_messages req))) \<longrightarrow>
       (\<forall>body. gemini_build_body req = Inr body \<longrightarrow>
         (\<exists>contents. json_get body ''contents'' = Some (JArr contents)
            \<and> concat (map wire_answer (concat (map content_parts contents)))
              = answered_calls [] (concat (map msg_content (rq_messages req)))))"
    using contents_named [OF tracks_new] by (blast elim: gemini_body_parts)
qed

definition sample_gemini_request :: llm_request where
  "sample_gemini_request =
     (llm_request_new ''gemini'' ''google'')\<lparr> rq_messages :=
        [message_new RAssistant [PToolCall ''c0'' ''browser'' (JObj []) None],
         message_new RTool [PToolResult ''c0'' [PText ''ok'' None] False],
         message_new RAssistant [PToolCall ''c0'' ''shell'' (JObj []) None],
         message_new RTool [PToolResult ''c0'' [PText ''done'' None] False]] \<rparr>"

lemma gemini_body_faithful_witness:
  "\<exists>body contents. gemini_build_body sample_gemini_request = Inr body \<and> json_get body ''contents'' = Some (JArr contents)
     \<and> concat (map wire_answer (concat (map content_parts contents))) = [(''c0'', ''browser''), (''c0'', ''shell'')]"
proof -
  let ?ps = "concat (map msg_content (rq_messages sample_gemini_request))"
  have "list_all (\<lambda>m. list_all has_source (msg_content m)) (rq_messages sample_gemini_request)"
    "answers_follow [] ?ps" "answered_calls [] ?ps = [(''c0'', ''browser''), (''c0'', ''shell'')]"
    by code_simp+
  with gemini_body_faithful [of sample_gemini_request] show ?thesis by auto
qed

text \<open>The first call of a message is always signed.\<close>

lemma first_call_signed: "get_str (function_call_part name input meta (Some 0)) ''thoughtSignature'' \<noteq> None"
  by (cases "gemini_thought_signature meta")
     (simp_all add: function_call_part_def should_add_dummy_thought_signature_def get_str_def)

section \<open>Decoder\<close>

record gemini_stream =
  gm_lifecycle :: lifecycle_state
  gm_tools :: tool_stream
  gm_finish_reason :: "finish_reason option"
  gm_usage :: usage
  gm_saw_model_output :: bool
  gm_next_tool_id :: nat
  gm_tool_part_ids :: "string list"

definition gemini_stream_new :: gemini_stream where
  "gemini_stream_new =
     \<lparr> gm_lifecycle = lifecycle_new, gm_tools = tool_stream_new, gm_finish_reason = None, gm_usage = usage_default,
       gm_saw_model_output = False, gm_next_tool_id = 0, gm_tool_part_ids = [] \<rparr>"

definition gemini_text_id :: string where "gemini_text_id = ''0''"

text \<open>The loop that mints ids until the index has one.\<close>

function fill_tool_ids :: "nat \<Rightarrow> string list \<Rightarrow> nat \<Rightarrow> string list \<times> nat" where
  "fill_tool_ids index ids next_id =
     (if length ids \<le> index then fill_tool_ids index (ids @ [''gemini_call_'' @ show_nat next_id]) (next_id + 1)
      else (ids, next_id))"
  by pat_completeness auto
termination
  by (relation "measure (\<lambda>(index, ids, _). Suc index - length ids)") auto

declare fill_tool_ids.simps [simp del]

definition tool_part_id :: "gemini_stream \<Rightarrow> nat \<Rightarrow> string option \<Rightarrow> (string \<times> bool) \<times> gemini_stream" where
  "tool_part_id s index provider_id =
     (case opt_filter (\<lambda>d. d \<noteq> []) (map_option str_trim provider_id) of
        Some d \<Rightarrow>
          (let first_seen = (d \<notin> set (gm_tool_part_ids s)) in
           ((d, first_seen), if first_seen then s\<lparr> gm_tool_part_ids := gm_tool_part_ids s @ [d] \<rparr> else s))
      | None \<Rightarrow>
          (let first_seen = (length (gm_tool_part_ids s) \<le> index);
               (ids, next_id) = fill_tool_ids index (gm_tool_part_ids s) (gm_next_tool_id s)
           in ((ids ! index, first_seen), s\<lparr> gm_tool_part_ids := ids, gm_next_tool_id := next_id \<rparr>)))"

definition google_signature :: "string \<Rightarrow> json" where
  "google_signature sig = JObj [(''google'', JObj [(''thought_signature'', JStr sig)])]"

text \<open>A part of a chunk; the number is the index of its function call in the chunk.\<close>

definition gemini_text :: "gemini_stream \<Rightarrow> json \<Rightarrow> llm_event list \<times> gemini_stream" where
  "gemini_text s part =
     (case get_str part ''text'' of
        None \<Rightarrow> ([], s)
      | Some t \<Rightarrow>
          (let meta = map_option google_signature (get_str part ''thoughtSignature'') in
           if t \<noteq> [] \<or> meta \<noteq> None then
             (let (out, lc) = lc_text_delta (gm_lifecycle s) gemini_text_id t meta
              in (out, s\<lparr> gm_saw_model_output := True, gm_lifecycle := lc \<rparr>))
           else ([], s)))"

definition gemini_call :: "gemini_stream \<Rightarrow> nat \<Rightarrow> json \<Rightarrow> llm_event list \<times> gemini_stream \<times> nat" where
  "gemini_call s index part =
     (case json_get part ''functionCall'' of
        None \<Rightarrow> ([], s, index)
      | Some call \<Rightarrow>
          (case get_str call ''name'' of
             None \<Rightarrow> ([], s, index)
           | Some name \<Rightarrow>
               (let s1 = s\<lparr> gm_saw_model_output := True \<rparr>;
                    args = unwrap_or (JObj []) (json_get call ''args'');
                    ((d, first_seen), s2) = tool_part_id s1 index (get_str call ''id'');
                    (out, ts) = (if first_seen then ts_delta (gm_tools s2) d (Some name) (show_json args)
                                 else ([], gm_tools s2));
                    ts = (case get_str part ''thoughtSignature'' of
                            Some sig \<Rightarrow> ts_set_provider_metadata ts d (Some (google_signature sig))
                          | None \<Rightarrow> ts)
                in (out, s2\<lparr> gm_tools := ts \<rparr>, index + 1))))"

definition gemini_part :: "gemini_stream \<times> nat \<Rightarrow> json \<Rightarrow> llm_event list \<times> gemini_stream \<times> nat" where
  "gemini_part st part =
     (case st of (s, index) \<Rightarrow>
       (let (e1, s1) = gemini_text s part; (e2, st2) = gemini_call s1 index part in (e1 @ e2, st2)))"

definition gemini_map_finish_reason :: "string \<Rightarrow> finish_reason" where
  "gemini_map_finish_reason reason =
     (if reason = ''STOP'' then FrStop else if reason = ''MAX_TOKENS'' then FrLength
      else if reason = ''SAFETY'' \<or> reason = ''RECITATION'' then FrContentFilter
      else if reason = ''MALFORMED_FUNCTION_CALL'' then FrToolUse else FrOther)"

definition gemini_parse_usage :: "json \<Rightarrow> usage" where
  "gemini_parse_usage u =
     \<lparr> input_tokens = u64_at u ''promptTokenCount'', cached_input_tokens = u64_at u ''cachedContentTokenCount'',
       cache_creation_input_tokens = 0, output_tokens = u64_at u ''candidatesTokenCount'',
       reasoning_output_tokens = u64_at u ''thoughtsTokenCount'', total_tokens = u64_at u ''totalTokenCount'' \<rparr>"

definition first_candidate :: "json \<Rightarrow> json option" where
  "first_candidate chunk =
     (case Option.bind (json_get chunk ''candidates'') as_array of Some (c # _) \<Rightarrow> Some c | _ \<Rightarrow> None)"

definition gemini_candidate :: "gemini_stream \<Rightarrow> json \<Rightarrow> llm_event list \<times> gemini_stream" where
  "gemini_candidate s candidate =
     (let s1 = (case get_str candidate ''finishReason'' of
                  Some r \<Rightarrow> s\<lparr> gm_finish_reason := Some (gemini_map_finish_reason r) \<rparr> | None \<Rightarrow> s)
      in case Option.bind (Option.bind (json_get candidate ''content'') (\<lambda>c. json_get c ''parts'')) as_array of
           None \<Rightarrow> ([], s1)
         | Some parts \<Rightarrow> (case run_emit gemini_part (s1, 0) parts of (events, s2, _) \<Rightarrow> (events, s2)))"

definition gemini_on_frame :: "(string \<Rightarrow> string + json) \<Rightarrow> gemini_stream \<Rightarrow> text_frame
    \<Rightarrow> (llm_error + llm_event list) \<times> gemini_stream" where
  "gemini_on_frame from_str s f =
     (let data = str_trim (tf_data f) in
      if data = [] \<or> data = ''[DONE]'' then (Inr [], s)
      else case from_str data of
        Inl e \<Rightarrow> (Inl (llm_error_new Decode (''invalid Gemini chunk: '' @ e)), s)
      | Inr chunk \<Rightarrow>
          (let s1 = (case json_get chunk ''usageMetadata'' of
                       Some u \<Rightarrow> s\<lparr> gm_usage := gemini_parse_usage u \<rparr> | None \<Rightarrow> s)
           in case first_candidate chunk of
                None \<Rightarrow> (Inr [], s1)
              | Some candidate \<Rightarrow> map_prod Inr id (gemini_candidate s1 candidate)))"

definition gemini_finish :: "(string \<Rightarrow> string + json) \<Rightarrow> gemini_stream
    \<Rightarrow> (llm_error + llm_event list) \<times> gemini_stream" where
  "gemini_finish from_str s =
     (if lc_finished (gm_lifecycle s) then (Inr [], s)
      else if \<not> gm_saw_model_output s \<and> gm_finish_reason s = None then
        (Inl (llm_error_new ProviderInternal
           ''Gemini stream ended without text, tool calls, or a usable finish reason''), s)
      else let (e1, lc1) = lc_text_end (gm_lifecycle s) gemini_text_id None
           in case ts_flush from_str (gm_tools s) of
                (Inl e, ts) \<Rightarrow> (Inl e, s\<lparr> gm_lifecycle := lc1, gm_tools := ts \<rparr>)
              | (Inr calls, ts) \<Rightarrow>
                  (let u = gm_usage s;
                       u = (if total_tokens u = 0 then u\<lparr> total_tokens := computed_total u \<rparr> else u);
                       (fin, lc2) = lc_finish lc1 u (gm_finish_reason s)
                   in (Inr (e1 @ calls @ fin), s\<lparr> gm_lifecycle := lc2, gm_tools := ts, gm_usage := u \<rparr>)))"

section \<open>Properties of the decoder\<close>

fun is_output :: "llm_event \<Rightarrow> bool" where
  "is_output (TextDelta _ _ _) = True"
| "is_output (ToolInputDelta _ _) = True"
| "is_output _ = False"

text \<open>Whatever counts as seen output was emitted: a call that is not emitted repeats an earlier one.\<close>

definition gemini_traced :: "(string \<Rightarrow> string + json) \<Rightarrow> llm_event list \<Rightarrow> gemini_stream \<Rightarrow> bool" where
  "gemini_traced from_str tr s \<longleftrightarrow>
     core_traced from_str tr (gm_lifecycle s) (gm_tools s)
     \<and> (gm_saw_model_output s \<or> gm_tool_part_ids s \<noteq> [] \<longrightarrow> list_ex is_output tr)"

definition gemini_part_traced :: "(string \<Rightarrow> string + json) \<Rightarrow> llm_event list \<Rightarrow> gemini_stream \<times> nat \<Rightarrow> bool" where
  "gemini_part_traced from_str tr st \<longleftrightarrow> gemini_traced from_str tr (fst st)"

lemma fill_length: "fill_tool_ids index ids n = (ids', n') \<Longrightarrow> length ids' = max (length ids) (Suc index)"
proof (induction index ids n arbitrary: ids' n' rule: fill_tool_ids.induct)
  case (1 index ids n)
  show ?case
    using 1(1) 1(2) [unfolded fill_tool_ids.simps [of index ids n]] by (fastforce split: if_splits)
qed

lemma tool_part_id_frame:
  assumes "tool_part_id s index provider = ((d, seen), s')"
  shows "gm_lifecycle s' = gm_lifecycle s \<and> gm_tools s' = gm_tools s \<and> gm_saw_model_output s' = gm_saw_model_output s"
    "gm_tool_part_ids s = [] \<Longrightarrow> seen"
  using assms by (auto simp: tool_part_id_def Let_def split: option.splits prod.splits if_splits)

lemma gemini_text_traced:
  assumes t: "gemini_traced from_str tr s" and h: "gemini_text s part = (out, s')"
  shows "gemini_traced from_str (tr @ out) s'"
  using h t core_text_delta [of from_str tr "gm_lifecycle s" "gm_tools s"]
  by (fastforce simp: gemini_text_def gemini_traced_def Let_def lc_text_delta_def
      split: option.splits if_splits prod.splits)

lemma gemini_call_traced:
  assumes t: "gemini_traced from_str tr s" and h: "gemini_call s index part = (out, s', index')"
  shows "gemini_traced from_str (tr @ out) s'"
proof (cases "\<exists>call name. json_get part ''functionCall'' = Some call \<and> get_str call ''name'' = Some name")
  case True
  then obtain call name where c: "json_get part ''functionCall'' = Some call" "get_str call ''name'' = Some name" by blast
  let ?s1 = "s\<lparr> gm_saw_model_output := True \<rparr>"
  obtain d seen s2 where i: "tool_part_id ?s1 index (get_str call ''id'') = ((d, seen), s2)" by (metis surj_pair)
  note fr = tool_part_id_frame [OF i]
  obtain ts where d: "(if seen then ts_delta (gm_tools s2) d (Some name) (show_json (unwrap_or (JObj []) (json_get call ''args'')))
      else ([], gm_tools s2)) = (out, ts)"
    and s': "s' = s2\<lparr> gm_tools := (case get_str part ''thoughtSignature'' of
                Some sig \<Rightarrow> ts_set_provider_metadata ts d (Some (google_signature sig)) | None \<Rightarrow> ts) \<rparr>"
    using h c i by (auto simp: gemini_call_def Let_def split: prod.splits)
  have core: "core_traced from_str tr (gm_lifecycle s2) (gm_tools s2)"
    using t fr by (simp add: gemini_traced_def)
  have "core_traced from_str (tr @ out) (gm_lifecycle s2) ts"
    using d core core_delta [OF core] by (auto split: if_splits)
  moreover have "list_ex is_output (tr @ out)"
  proof (cases seen)
    case True
    with d show ?thesis by (auto simp: ts_delta_def Let_def split: prod.splits)
  next
    case False
    with fr(2) have "gm_tool_part_ids s \<noteq> []" by auto
    with t show ?thesis by (simp add: gemini_traced_def)
  qed
  ultimately show ?thesis unfolding s' by (simp add: gemini_traced_def core_metadata split: option.split)
next
  case False
  with h t show ?thesis by (auto simp: gemini_call_def split: option.splits)
qed

lemma gemini_part_keeps:
  assumes t: "gemini_part_traced from_str tr st" and h: "gemini_part st part = (out, st')"
  shows "gemini_part_traced from_str (tr @ out) st'"
proof -
  obtain s index where st: "st = (s, index)" by fastforce
  obtain e1 s1 where 1: "gemini_text s part = (e1, s1)" by fastforce
  obtain e2 s2 i2 where 2: "gemini_call s1 index part = (e2, s2, i2)" by (metis surj_pair)
  have "gemini_traced from_str tr s" using t by (simp add: gemini_part_traced_def st)
  from gemini_call_traced [OF gemini_text_traced [OF this 1] 2] h 1 2 show ?thesis
    by (auto simp: gemini_part_def st gemini_part_traced_def)
qed

interpretation gemini_parts: emitting_machine gemini_part "gemini_part_traced from_str" for from_str
  by unfold_locales (rule gemini_part_keeps)

lemma gemini_simps [simp]:
  "gemini_traced from_str tr (s\<lparr> gm_usage := u \<rparr>) = gemini_traced from_str tr s"
  "gemini_traced from_str tr (s\<lparr> gm_finish_reason := fr \<rparr>) = gemini_traced from_str tr s"
  by (simp_all add: gemini_traced_def)

lemma gemini_candidate_traced:
  assumes t: "gemini_traced from_str tr s" and h: "gemini_candidate s c = (out, s')"
  shows "gemini_traced from_str (tr @ out) s'"
proof -
  define s1 where "s1 = (case get_str c ''finishReason'' of
                  Some r \<Rightarrow> s\<lparr> gm_finish_reason := Some (gemini_map_finish_reason r) \<rparr> | None \<Rightarrow> s)"
  have t1: "gemini_traced from_str tr s1" using t by (simp add: s1_def split: option.split)
  then have "gemini_part_traced from_str tr (s1, 0)" by (simp add: gemini_part_traced_def)
  note run = gemini_parts.run_traced [OF this]
  show ?thesis
  proof (cases "Option.bind (Option.bind (json_get c ''content'') (\<lambda>c. json_get c ''parts'')) as_array")
    case None
    with h t1 show ?thesis by (simp add: gemini_candidate_def s1_def [symmetric])
  next
    case (Some parts)
    obtain s2 i where "run_emit gemini_part (s1, 0) parts = (out, s2, i)" "s' = s2"
      using h Some by (auto simp: gemini_candidate_def s1_def [symmetric] split: prod.splits)
    with run [OF this(1)] show ?thesis by (simp add: gemini_part_traced_def)
  qed
qed

lemma gemini_frame_traced:
  assumes t: "gemini_traced from_str tr s" and h: "gemini_on_frame from_str s f = (Inr out, s')"
  shows "gemini_traced from_str (tr @ out) s'"
  using h t gemini_candidate_traced [of from_str tr s] gemini_candidate_traced [of from_str tr "s\<lparr> gm_usage := u \<rparr>" for u]
  by (auto simp: gemini_on_frame_def Let_def map_prod_Inr split: if_splits sum.splits option.splits)

definition gemini_complete :: "(string \<Rightarrow> string + json) \<Rightarrow> llm_event list \<Rightarrow> bool" where
  "gemini_complete from_str tr \<longleftrightarrow>
     stream_complete from_str tr \<and> (list_ex is_output tr \<or> (\<exists>u r. Finish u (Some r) \<in> set tr))"

lemma gemini_finish_complete:
  assumes t: "gemini_traced from_str tr s" and f: "gemini_finish from_str s = (Inr evs, s')"
  shows "gemini_complete from_str (tr @ evs) \<and> gemini_finish from_str s' = (Inr [], s')"
proof -
  have core: "core_traced from_str tr (gm_lifecycle s) (gm_tools s)" using t by (simp add: gemini_traced_def)
  then have nf: "\<not> lc_finished (gm_lifecycle s)" by (simp add: core_traced_def lc_traced_def)
  obtain e1 lc1 where 1: "lc_text_end (gm_lifecycle s) gemini_text_id None = (e1, lc1)" by fastforce
  obtain calls ts where 2: "ts_flush from_str (gm_tools s) = (Inr calls, ts)"
    using f nf 1 by (auto simp: gemini_finish_def split: sum.splits prod.splits if_splits)
  define u where "u = (let u = gm_usage s in if total_tokens u = 0 then u\<lparr> total_tokens := computed_total u \<rparr> else u)"
  obtain fin lc2 where 3: "lc_finish lc1 u (gm_finish_reason s) = (fin, lc2)" by fastforce
  have evs: "evs = e1 @ calls @ fin" and s': "s' = s\<lparr> gm_lifecycle := lc2, gm_tools := ts, gm_usage := u \<rparr>"
    and out: "gm_saw_model_output s \<or> gm_finish_reason s \<noteq> None"
    using f nf 1 2 3 by (auto simp: gemini_finish_def Let_def u_def split: if_splits)
  note c = core_closes [OF core_text_end [OF core 1] 2 3]
  have "\<not> lc_finished lc1" using nf 1 by (auto simp: lc_text_end_def split: if_splits)
  then have "Finish u (gm_finish_reason s) \<in> set fin" using 3 by (auto simp: lc_finish_def split: prod.splits)
  then have "list_ex is_output (tr @ evs) \<or> (\<exists>u r. Finish u (Some r) \<in> set (tr @ evs))"
    using out t evs by (auto simp: gemini_traced_def)
  with c evs s' show ?thesis by (simp add: gemini_complete_def gemini_finish_def)
qed

interpretation gemini: response_decoder "gemini_on_frame from_str" "gemini_finish from_str" "gemini_traced from_str"
  "\<lambda>_. True" "gemini_complete from_str" for from_str
  by unfold_locales (auto intro: gemini_frame_traced simp: gemini_finish_complete)

lemma gemini_new_traced: "gemini_traced from_str [] gemini_stream_new"
  using core_new [of from_str] by (simp add: gemini_traced_def gemini_stream_new_def)

text \<open>C18. A Gemini response that closes without an error is a finished event stream: the whole trace has one
  step start, ends with its step finish and finish, and closes between them each text block that it opens; the
  input of each call is what its part says, no call whose input was started is lost, and finishing again adds
  nothing. The step start need not come first, as \<open>schema/event.rs\<close> announces: events of calls that precede all
  text precede it too (\<open>gemini_tool_input_before_step\<close>), and no others do. A part that calls a function starts
  the input of a call only when it names the function and is not taken for a repetition, by its id or, without
  one, by its place in the chunk (\<open>later_call_without_id_repeats\<close>). A response that brought neither text nor a
  call, nor a reason to finish, is never taken for an empty answer: finishing it is an error.\<close>

theorem gemini_stream_complete:
  assumes "on_frames (gemini_on_frame from_str) gemini_stream_new frames = (Inr evs, s)"
    and "gemini_finish from_str s = (Inr fin, s')"
  shows "gemini_complete from_str (evs @ fin) \<and> gemini_finish from_str s' = (Inr [], s')"
  using gemini.decoded_complete [OF gemini_new_traced _ assms] by simp

definition sample_gemini_parser :: "string \<Rightarrow> string + json" where
  "sample_gemini_parser t =
     (if t = ''a'' \<or> t = ''b'' then
        Inr (JObj [(''candidates'', JArr [JObj [(''content'', JObj [(''parts'', JArr
          [JObj [(''functionCall'', JObj [(''name'', JStr t)])]])])]])])
      else if t = ''{}'' then Inr (JObj []) else Inl ''eof'')"

theorem gemini_stream_complete_witness:
  "\<exists>evs s fin s'.
     on_frames (gemini_on_frame sample_gemini_parser) gemini_stream_new [\<lparr> tf_event = None, tf_data = ''a'' \<rparr>] = (Inr evs, s)
     \<and> gemini_finish sample_gemini_parser s = (Inr fin, s')
     \<and> ToolCall ''gemini_call_0'' ''a'' None None (JObj []) \<in> set fin
     \<and> gemini_complete sample_gemini_parser (evs @ fin)"
proof -
  let ?run = "on_frames (gemini_on_frame sample_gemini_parser) gemini_stream_new [\<lparr> tf_event = None, tf_data = ''a'' \<rparr>]"
  let ?fin = "gemini_finish sample_gemini_parser (snd ?run)"
  have "\<not> isl (fst ?run)" "\<not> isl (fst ?fin)"
    "ToolCall ''gemini_call_0'' ''a'' None None (JObj []) \<in> set (projr (fst ?fin))"
    by code_simp+
  then obtain evs s fin s' where r: "?run = (Inr evs, s)" "gemini_finish sample_gemini_parser s = (Inr fin, s')"
    "ToolCall ''gemini_call_0'' ''a'' None None (JObj []) \<in> set fin"
    by (cases ?run; cases "fst ?run"; cases ?fin; cases "fst ?fin") auto
  with gemini_stream_complete [OF r(1,2)] show ?thesis by blast
qed

lemma empty_response_is_error: "isl (fst (gemini_finish from_str gemini_stream_new))"
  by (simp add: gemini_finish_def gemini_stream_new_def lifecycle_new_def)

text \<open>Tool input that comes before any text comes before the step start, which a response of calls only gets
  when it is closed.\<close>

lemma gemini_tool_input_before_step:
  "list_all (\<lambda>e. e \<noteq> StepStart) (projr (fst (on_frames (gemini_on_frame sample_gemini_parser) gemini_stream_new
     [\<lparr> tf_event = None, tf_data = ''a'' \<rparr>])))"
  "list_ex is_tool_event (projr (fst (on_frames (gemini_on_frame sample_gemini_parser) gemini_stream_new
     [\<lparr> tf_event = None, tf_data = ''a'' \<rparr>])))"
  by code_simp+

text \<open>A call without an id is known by its place in its chunk: at the same place of a later chunk it
  counts as the same call, also when it names another function.\<close>

lemma later_call_without_id_repeats:
  "list_ex (\<lambda>e. case e of ToolInputStart _ n \<Rightarrow> n = ''b'' | _ \<Rightarrow> False)
     (case fst (on_frames (gemini_on_frame sample_gemini_parser) gemini_stream_new
        [\<lparr> tf_event = None, tf_data = ''a'' \<rparr>, \<lparr> tf_event = None, tf_data = ''b'' \<rparr>]) of Inr evs \<Rightarrow> evs | Inl _ \<Rightarrow> []) = False"
  by code_simp

end
