(* ===== verification/ApplyPatch.thy ===== *)
theory ApplyPatch
  imports Orchestrator Schema
begin

text \<open>
  The \<open>apply\_patch\<close> tool (\<open>tools/handlers/apply\_patch.rs\<close>): the parser of the patch envelope,
  the context-anchored splice, path resolution, the application of the operations to a file
  system, and the tool as the orchestrator drives it. The index loops of the parser are
  recursions on the lines still to read. The file system is a finite picture of what
  \<open>std::fs\<close> does with it (regular files, directories); symbolic links (\<open>canon\<close>), refusals of
  the operating system (\<open>refuses\<close>) and its error texts are the record \<open>host\<close>.
\<close>

section \<open>The patch\<close>

datatype hunk_line = HContext string | HRemoved string | HAdded string

record update_hunk =
  context_header :: "string option"
  hunk_lines :: "hunk_line list"

datatype patch_operation =
    AddFile string string
  | DeleteFile string
  | UpdateFile string "string option" "update_hunk list"

definition patch_begin :: string where "patch_begin = ''*** Begin Patch''"
definition patch_end :: string where "patch_end = ''*** End Patch''"
definition add_file_prefix :: string where "add_file_prefix = ''*** Add File: ''"
definition update_file_prefix :: string where "update_file_prefix = ''*** Update File: ''"
definition delete_file_prefix :: string where "delete_file_prefix = ''*** Delete File: ''"
definition move_to_prefix :: string where "move_to_prefix = ''*** Move to: ''"
definition end_of_file_marker :: string where "end_of_file_marker = ''*** End of File''"
definition hunk_marker :: string where "hunk_marker = ''@@''"

text \<open>The error texts quote the offending line; here it is carried as it is.\<close>

datatype patch_error =
    BadBegin string
  | MissingEnd
  | UnexpectedLine string
  | NoOperations
  | InvalidHunkLine string
  | NoHunks

section \<open>The parser\<close>

definition is_section_boundary :: "string \<Rightarrow> bool" where
  "is_section_boundary line \<longleftrightarrow>
     str_trim line = patch_end \<or> starts_with add_file_prefix line
     \<or> starts_with update_file_prefix line \<or> starts_with delete_file_prefix line"

fun parse_add_file_body :: "string list \<Rightarrow> bool \<Rightarrow> string \<Rightarrow> string \<times> string list" where
  "parse_add_file_body [] is_first contents = (contents, [])"
| "parse_add_file_body (line # rest) is_first contents =
     (if is_section_boundary line then (contents, line # rest)
      else case strip_pre ''+'' line of
             Some content \<Rightarrow>
               parse_add_file_body rest False (contents @ (if is_first then [] else [CHR 0x0A]) @ content)
           | None \<Rightarrow>
               if str_trim line = []
               then parse_add_file_body rest False (contents @ (if is_first then [] else [CHR 0x0A]))
               else (contents, line # rest))"

definition close_hunk :: "update_hunk option \<Rightarrow> update_hunk list \<Rightarrow> update_hunk list" where
  "close_hunk current hunks = (case current of Some h \<Rightarrow> hunks @ [h] | None \<Rightarrow> hunks)"

definition parse_hunk_line :: "string \<Rightarrow> hunk_line option" where
  "parse_hunk_line line =
     (case strip_pre '' '' line of Some r \<Rightarrow> Some (HContext r)
      | None \<Rightarrow> (case strip_pre ''-'' line of Some r \<Rightarrow> Some (HRemoved r)
        | None \<Rightarrow> (case strip_pre ''+'' line of Some r \<Rightarrow> Some (HAdded r)
          | None \<Rightarrow> if line = [] then Some (HContext []) else None)))"

fun hunk_loop ::
  "string list \<Rightarrow> update_hunk list \<Rightarrow> update_hunk option
   \<Rightarrow> patch_error + update_hunk list \<times> string list" where
  "hunk_loop [] hunks current = Inr (close_hunk current hunks, [])"
| "hunk_loop (line # rest) hunks current =
     (if is_section_boundary line then Inr (close_hunk current hunks, line # rest)
      else if str_trim line = end_of_file_marker then hunk_loop rest hunks current
      else case strip_pre hunk_marker line of
             Some header \<Rightarrow>
               (let h = str_trim header in
                hunk_loop rest (close_hunk current hunks)
                  (Some \<lparr> context_header = (if h = [] then None else Some h), hunk_lines = [] \<rparr>))
           | None \<Rightarrow>
               (let hunk = (case current of Some h \<Rightarrow> h
                            | None \<Rightarrow> \<lparr> context_header = None, hunk_lines = [] \<rparr>) in
                case parse_hunk_line line of
                  None \<Rightarrow> Inl (InvalidHunkLine line)
                | Some l \<Rightarrow> hunk_loop rest hunks (Some (hunk\<lparr> hunk_lines := hunk_lines hunk @ [l] \<rparr>))))"

definition parse_update_hunks :: "string list \<Rightarrow> patch_error + update_hunk list \<times> string list" where
  "parse_update_hunks lines =
     (case hunk_loop lines [] None of
        Inl e \<Rightarrow> Inl e
      | Inr (hunks, rest) \<Rightarrow> if hunks = [] then Inl NoHunks else Inr (hunks, rest))"

lemma parse_add_file_body_shorter: "length (snd (parse_add_file_body ls f c)) \<le> length ls"
  by (induction ls f c rule: parse_add_file_body.induct) (auto split: option.splits)

lemma hunk_loop_shorter: "hunk_loop ls hs cur = Inr (hunks, rst) \<Longrightarrow> length rst \<le> length ls"
proof (induction ls hs cur rule: hunk_loop.induct)
  case (2 line rest hs cur)
  then show ?case by (auto simp: Let_def le_SucI split: if_splits option.splits)
qed simp

lemma parse_update_hunks_shorter:
  "parse_update_hunks ls = Inr (hunks, rest) \<Longrightarrow> length rest \<le> length ls"
  by (auto simp: parse_update_hunks_def split: sum.splits if_splits dest: hunk_loop_shorter)

definition take_move_to :: "string list \<Rightarrow> string option \<times> string list" where
  "take_move_to lines =
     (case lines of
        line # rest \<Rightarrow>
          (case strip_pre move_to_prefix (trim_end line) of
             Some dest \<Rightarrow> (Some (str_trim dest), rest)
           | None \<Rightarrow> (None, lines))
      | [] \<Rightarrow> (None, lines))"

lemma take_move_to_shorter: "length (snd (take_move_to ls)) \<le> length ls"
  by (auto simp: take_move_to_def split: list.splits option.splits)

function section_loop :: "string list \<Rightarrow> patch_operation list \<Rightarrow> patch_error + patch_operation list" where
  "section_loop [] ops = Inl MissingEnd"
| "section_loop (line # rest) ops =
     (if str_trim line = patch_end then Inr ops
      else case strip_pre add_file_prefix (trim_end line) of
             Some p \<Rightarrow>
               (case parse_add_file_body rest True [] of
                  (contents, rest') \<Rightarrow> section_loop rest' (ops @ [AddFile (str_trim p) contents]))
           | None \<Rightarrow>
               (case strip_pre delete_file_prefix (trim_end line) of
                  Some p \<Rightarrow> section_loop rest (ops @ [DeleteFile (str_trim p)])
                | None \<Rightarrow>
                    (case strip_pre update_file_prefix (trim_end line) of
                       Some p \<Rightarrow>
                         (case parse_update_hunks (snd (take_move_to rest)) of
                            Inl e \<Rightarrow> Inl e
                          | Inr (hunks, rest') \<Rightarrow>
                              section_loop rest' (ops @ [UpdateFile (str_trim p) (fst (take_move_to rest)) hunks]))
                     | None \<Rightarrow> Inl (UnexpectedLine line))))"
  by pat_completeness auto
termination
proof (relation "measure (\<lambda>(ls, ops). length ls)", goal_cases)
  case (2 line rest ops p y hunks rest')
  then show ?case
    using parse_update_hunks_shorter [of "snd (take_move_to rest)" hunks rest'] take_move_to_shorter [of rest]
    by (simp add: eq_commute [of "(hunks, rest')"])
next
  case (4 line rest ops p contents rest')
  then show ?case using parse_add_file_body_shorter [of rest True "[]"]
    by (metis case_prod_conv in_measure le_imp_less_Suc length_Cons snd_conv)
qed auto

definition parse_patch :: "string \<Rightarrow> patch_error + patch_operation list" where
  "parse_patch patch =
     (let lines = str_lines patch in
      case dropWhile (\<lambda>l. str_trim l = []) lines of
        line # rest \<Rightarrow>
          if str_trim line \<noteq> patch_begin
          then Inl (BadBegin (hd lines))
          else (case section_loop rest [] of
                  Inl e \<Rightarrow> Inl e
                | Inr ops \<Rightarrow> if ops = [] then Inl NoOperations else Inr ops)
      | [] \<Rightarrow> Inl (BadBegin (case lines of l # _ \<Rightarrow> l | [] \<Rightarrow> [])))"

section \<open>Applying hunks\<close>

definition find_subsequence :: "string list \<Rightarrow> string list \<Rightarrow> nat option" where
  "find_subsequence haystack needle =
     (if needle = [] \<or> length needle > length haystack then None
      else List.find (\<lambda>start. list_all (\<lambda>(h, n). h = n) (zip (drop start haystack) needle))
             [0..<Suc (length haystack - length needle)])"

fun before_line :: "hunk_line \<Rightarrow> string list" where
  "before_line (HContext s) = [s]" | "before_line (HRemoved s) = [s]" | "before_line (HAdded s) = []"

fun after_line :: "hunk_line \<Rightarrow> string list" where
  "after_line (HContext s) = [s]" | "after_line (HAdded s) = [s]" | "after_line (HRemoved s) = []"

definition hunk_before :: "update_hunk \<Rightarrow> string list" where
  "hunk_before h = concat (map before_line (hunk_lines h))"

definition hunk_after :: "update_hunk \<Rightarrow> string list" where
  "hunk_after h = concat (map after_line (hunk_lines h))"

datatype hunk_error = NoAnchor | ContextNotFound

fun splice_hunks :: "string list \<Rightarrow> update_hunk list \<Rightarrow> hunk_error + string list" where
  "splice_hunks result [] = Inr result"
| "splice_hunks result (h # hs) =
     (if hunk_before h = [] then Inl NoAnchor
      else case find_subsequence result (hunk_before h) of
             None \<Rightarrow> Inl ContextNotFound
           | Some pos \<Rightarrow>
               splice_hunks
                 (take pos result @ hunk_after h @ drop (pos + length (hunk_before h)) result) hs)"

definition apply_hunk_to_lines :: "string \<Rightarrow> update_hunk list \<Rightarrow> hunk_error + string" where
  "apply_hunk_to_lines original hunks =
     (case splice_hunks (str_lines original) hunks of
        Inl e \<Rightarrow> Inl e
      | Inr result \<Rightarrow>
          Inr (join_with [CHR 0x0A] result @ (if ends_with [CHR 0x0A] original then [CHR 0x0A] else [])))"

fun hunk_error_text :: "hunk_error \<Rightarrow> string" where
  "hunk_error_text NoAnchor = ''hunk has no context or removed lines to anchor''"
| "hunk_error_text ContextNotFound = ''could not locate hunk context in file''"

section \<open>Paths and files\<close>

text \<open>A path: absolute or not, and its components.\<close>

type_synonym fpath = "bool \<times> string list"

definition parse_path :: "string \<Rightarrow> fpath" where
  "parse_path s = (starts_with ''/'' s, filter (\<lambda>c. c \<noteq> [] \<and> c \<noteq> ''.'') (split_on (CHR ''/'') s))"

definition join_path :: "fpath \<Rightarrow> fpath \<Rightarrow> fpath" where
  "join_path base p = (if fst p then p else (fst base, snd base @ snd p))"

definition normalize_lexically :: "fpath \<Rightarrow> fpath" where
  "normalize_lexically p =
     (fst p, foldl (\<lambda>out c. if c = ''..'' then butlast out else out @ [c]) [] (snd p))"

record fsys =
  fs_files :: "fpath \<Rightarrow> string option"
  fs_dirs :: "fpath \<Rightarrow> bool"

datatype io_op = IoCreateDirs | IoWrite | IoRemove | IoRead

text \<open>\<open>canon\<close> is what \<open>canonicalize\<close> makes of an existing path, \<open>opened\<close> the file that an open for writing
  reaches from a path (a path that does not exist may still be a link).\<close>

record host =
  canon :: "fpath \<Rightarrow> fpath"
  opened :: "fpath \<Rightarrow> fpath"
  refuses :: "io_op \<Rightarrow> fpath \<Rightarrow> bool"
  io_text :: "io_op \<Rightarrow> fpath \<Rightarrow> string"

definition path_exists :: "host \<Rightarrow> fsys \<Rightarrow> fpath \<Rightarrow> bool" where
  "path_exists h fs p \<longleftrightarrow> fs_dirs fs (canon h p) \<or> fs_files fs (canon h p) \<noteq> None"

definition parent_of :: "fpath \<Rightarrow> fpath option" where
  "parent_of p = (if snd p = [] then None else Some (fst p, butlast (snd p)))"

text \<open>The walk to the longest existing prefix: components reversed, then the tail.\<close>

fun existing_prefix :: "host \<Rightarrow> fsys \<Rightarrow> bool \<Rightarrow> string list \<Rightarrow> string list \<Rightarrow> fpath" where
  "existing_prefix h fs a [] tail =
     (let base = (if path_exists h fs (a, []) then canon h (a, []) else (a, []))
      in (fst base, snd base @ tail))"
| "existing_prefix h fs a (n # ns) tail =
     (if path_exists h fs (a, rev (n # ns))
      then let base = canon h (a, rev (n # ns)) in (fst base, snd base @ tail)
      else existing_prefix h fs a ns (n # tail))"

definition resolve_existing_prefix :: "host \<Rightarrow> fsys \<Rightarrow> fpath \<Rightarrow> fpath" where
  "resolve_existing_prefix h fs p = existing_prefix h fs (fst p) (rev (snd p)) []"

definition resolve_patch_path :: "host \<Rightarrow> fsys \<Rightarrow> fpath \<Rightarrow> string \<Rightarrow> fpath" where
  "resolve_patch_path h fs root path =
     resolve_existing_prefix h fs (normalize_lexically (join_path root (parse_path path)))"

text \<open>The calls of \<open>std::fs\<close>; \<open>None\<close> is success.\<close>

definition ancestors :: "fpath \<Rightarrow> fpath list" where
  "ancestors p = map (\<lambda>n. (fst p, take n (snd p))) [0..<Suc (length (snd p))]"

definition create_dir_all :: "host \<Rightarrow> fsys \<Rightarrow> fpath \<Rightarrow> string option \<times> fsys" where
  "create_dir_all h fs p =
     (if refuses h IoCreateDirs p \<or> list_ex (\<lambda>q. fs_files fs q \<noteq> None) (ancestors p)
      then (Some (io_text h IoCreateDirs p), fs)
      else (None, fs\<lparr> fs_dirs := (\<lambda>q. fs_dirs fs q \<or> q \<in> set (ancestors p)) \<rparr>))"

definition write_file :: "host \<Rightarrow> fsys \<Rightarrow> fpath \<Rightarrow> string \<Rightarrow> string option \<times> fsys" where
  "write_file h fs p contents =
     (if refuses h IoWrite p \<or> fs_dirs fs (opened h p) then (Some (io_text h IoWrite p), fs)
      else (None, fs\<lparr> fs_files := (fs_files fs)(opened h p := Some contents) \<rparr>))"

definition remove_file :: "host \<Rightarrow> fsys \<Rightarrow> fpath \<Rightarrow> string option \<times> fsys" where
  "remove_file h fs p =
     (if refuses h IoRemove p \<or> fs_files fs p = None then (Some (io_text h IoRemove p), fs)
      else (None, fs\<lparr> fs_files := (fs_files fs)(p := None) \<rparr>))"

definition read_to_string :: "host \<Rightarrow> fsys \<Rightarrow> fpath \<Rightarrow> string + string" where
  "read_to_string h fs p =
     (case fs_files fs p of
        Some s \<Rightarrow> if refuses h IoRead p then Inl (io_text h IoRead p) else Inr s
      | None \<Rightarrow> Inl (io_text h IoRead p))"

section \<open>Applying operations\<close>

definition other_error :: "string \<Rightarrow> string \<Rightarrow> string \<Rightarrow> tool_error" where
  "other_error what path e = ToolOther (what @ path @ '': '' @ e)"

definition create_parent :: "host \<Rightarrow> fsys \<Rightarrow> fpath \<Rightarrow> string option \<times> fsys" where
  "create_parent h fs p = (case parent_of p of Some d \<Rightarrow> create_dir_all h fs d | None \<Rightarrow> (None, fs))"

definition put_file :: "host \<Rightarrow> fsys \<Rightarrow> fpath \<Rightarrow> string \<Rightarrow> string \<Rightarrow> string \<Rightarrow> tool_error option \<times> fsys" where
  "put_file h fs real path what contents =
     (case create_parent h fs real of
        (Some e, fs1) \<Rightarrow> (Some (other_error ''creating parent dirs for '' path e), fs1)
      | (None, fs1) \<Rightarrow>
          (case write_file h fs1 real contents of
             (Some e, fs2) \<Rightarrow> (Some (other_error what path e), fs2)
           | (None, fs2) \<Rightarrow> (None, fs2)))"

definition apply_operation :: "host \<Rightarrow> fpath \<Rightarrow> patch_operation \<Rightarrow> fsys \<Rightarrow> (tool_error + string) \<times> fsys" where
  "apply_operation h root op fs =
     (case op of
        AddFile path contents \<Rightarrow>
          (case put_file h fs (resolve_patch_path h fs root path) path ''writing new file '' contents of
             (Some e, fs1) \<Rightarrow> (Inl e, fs1)
           | (None, fs1) \<Rightarrow> (Inr path, fs1))
      | DeleteFile path \<Rightarrow>
          (case remove_file h fs (resolve_patch_path h fs root path) of
             (Some e, fs1) \<Rightarrow> (Inl (other_error ''deleting file '' path e), fs1)
           | (None, fs1) \<Rightarrow> (Inr path, fs1))
      | UpdateFile path move_to hunks \<Rightarrow>
          (let real = resolve_patch_path h fs root path in
           case read_to_string h fs real of
             Inl e \<Rightarrow> (Inl (other_error ''reading file to update '' path e), fs)
           | Inr original \<Rightarrow>
               (case apply_hunk_to_lines original hunks of
                  Inl e \<Rightarrow> (Inl (other_error ''applying hunks to '' path (hunk_error_text e)), fs)
                | Inr updated \<Rightarrow>
                    (let dest = (case move_to of Some d \<Rightarrow> resolve_patch_path h fs root d | None \<Rightarrow> real) in
                     case put_file h fs dest path ''writing updated file '' updated of
                       (Some e, fs1) \<Rightarrow> (Inl e, fs1)
                     | (None, fs1) \<Rightarrow>
                         if move_to \<noteq> None \<and> dest \<noteq> real
                         then (case remove_file h fs1 real of
                                 (Some e, fs2) \<Rightarrow>
                                   (Inl (other_error ''removing original after move '' path e), fs2)
                               | (None, fs2) \<Rightarrow> (Inr path, fs2))
                         else (Inr path, fs1)))))"

fun apply_patch_operations ::
  "host \<Rightarrow> fpath \<Rightarrow> patch_operation list \<Rightarrow> fsys \<Rightarrow> (tool_error + string list) \<times> fsys" where
  "apply_patch_operations h root [] fs = (Inr [], fs)"
| "apply_patch_operations h root (op # ops) fs =
     (case apply_operation h root op fs of
        (Inl e, fs1) \<Rightarrow> (Inl e, fs1)
      | (Inr path, fs1) \<Rightarrow>
          (case apply_patch_operations h root ops fs1 of
             (Inl e, fs2) \<Rightarrow> (Inl e, fs2)
           | (Inr changed, fs2) \<Rightarrow> (Inr (path # changed), fs2)))"


section \<open>The tool\<close>




section \<open>Printing patches\<close>

text \<open>The inverse of the parser on the patches it can express.\<close>

fun hunk_line_text :: "hunk_line \<Rightarrow> string" where
  "hunk_line_text (HContext s) = CHR '' '' # s"
| "hunk_line_text (HRemoved s) = CHR ''-'' # s"
| "hunk_line_text (HAdded s) = CHR ''+'' # s"

definition hunk_text :: "update_hunk \<Rightarrow> string list" where
  "hunk_text h =
     (hunk_marker @ (case context_header h of Some t \<Rightarrow> CHR '' '' # t | None \<Rightarrow> []))
     # map hunk_line_text (hunk_lines h)"

fun operation_text :: "patch_operation \<Rightarrow> string list" where
  "operation_text (AddFile p c) = (add_file_prefix @ p) # map ((#) (CHR ''+'')) (split_on (CHR 0x0A) c)"
| "operation_text (DeleteFile p) = [delete_file_prefix @ p]"
| "operation_text (UpdateFile p mv hs) =
     (update_file_prefix @ p) # (case mv of Some d \<Rightarrow> [move_to_prefix @ d] | None \<Rightarrow> [])
     @ concat (map hunk_text hs)"

definition patch_text :: "patch_operation list \<Rightarrow> string" where
  "patch_text ops = join_with [CHR 0x0A] (patch_begin # concat (map operation_text ops) @ [patch_end])"

definition line_ok :: "string \<Rightarrow> bool" where
  "line_ok l \<longleftrightarrow> CHR 0x0A \<notin> set l \<and> strip_cr l = l"

definition word_ok :: "string \<Rightarrow> bool" where
  "word_ok p \<longleftrightarrow> p \<noteq> [] \<and> str_trim p = p \<and> CHR 0x0A \<notin> set p"

fun hunk_line_ok :: "hunk_line \<Rightarrow> bool" where
  "hunk_line_ok (HContext s) =
     (line_ok s \<and> str_trim s \<noteq> patch_end \<and> str_trim s \<noteq> end_of_file_marker)"
| "hunk_line_ok (HRemoved s) = line_ok s"
| "hunk_line_ok (HAdded s) = line_ok s"

definition hunk_ok :: "update_hunk \<Rightarrow> bool" where
  "hunk_ok h \<longleftrightarrow> (case context_header h of Some t \<Rightarrow> word_ok t | None \<Rightarrow> True)
     \<and> list_all hunk_line_ok (hunk_lines h)"

fun operation_ok :: "patch_operation \<Rightarrow> bool" where
  "operation_ok (AddFile p c) = (word_ok p \<and> list_all line_ok (split_on (CHR 0x0A) c))"
| "operation_ok (DeleteFile p) = word_ok p"
| "operation_ok (UpdateFile p mv hs) =
     (word_ok p \<and> (case mv of Some d \<Rightarrow> word_ok d | None \<Rightarrow> True) \<and> hs \<noteq> [] \<and> list_all hunk_ok hs)"

lemmas patch_markers = patch_begin_def patch_end_def add_file_prefix_def update_file_prefix_def
  delete_file_prefix_def move_to_prefix_def end_of_file_marker_def hunk_marker_def

lemma is_ws_simps [simp]:
  "is_ws (CHR '' '')" "\<not> is_ws (CHR ''*'')" "\<not> is_ws (CHR ''+'')" "\<not> is_ws (CHR ''-'')" "\<not> is_ws (CHR ''@'')"
  by (simp_all add: is_ws_def code_point_def)

lemma trim_head: "\<not> is_ws c \<Longrightarrow> str_trim (c # s) = c # trim_end s"
  by (simp add: str_trim_def trim_start_def trim_end_def dropWhile_append3)

lemma trim_end_last: "trim_end s \<noteq> [] \<Longrightarrow> \<not> is_ws (last (trim_end s))"
  by (simp add: trim_end_def last_rev hd_dropWhile)

lemma word_ok_ends: "word_ok p \<Longrightarrow> \<not> is_ws (hd p) \<and> \<not> is_ws (last p)"
proof -
  assume "word_ok p"
  then have p: "p \<noteq> []" and t: "trim_end (trim_start p) = p" by (auto simp: word_ok_def str_trim_def)
  have "length p \<le> length (trim_start p)"
    using t by (metis length_append le_add1 trim_end_suffix)
  then have "takeWhile is_ws p = []"
    by (metis add_le_same_cancel2 le_zero_eq length_0_conv length_append takeWhile_dropWhile_id trim_start_def)
  then have "\<not> is_ws (hd p)" using p by (cases p) (auto split: if_splits)
  with p t trim_end_last show ?thesis by metis
qed

lemma trim_end_word: "word_ok p \<Longrightarrow> trim_end (a @ p) = a @ p"
proof -
  assume w: "word_ok p"
  then have "p \<noteq> []" by (simp add: word_ok_def)
  with word_ok_ends [OF w] show ?thesis by (intro trim_end_no_trailing) simp
qed

lemma word_trim [simp]: "word_ok p \<Longrightarrow> str_trim p = p"
  by (simp add: word_ok_def)

lemma space_word_trim: "word_ok p \<Longrightarrow> str_trim (CHR '' '' # p) = p"
  by (simp add: str_trim_def trim_start_def word_ok_def)

lemma not_boundary:
  "c \<noteq> CHR ''*'' \<Longrightarrow> \<not> is_ws c \<Longrightarrow> \<not> is_section_boundary (c # s)"
  "str_trim s \<noteq> patch_end \<Longrightarrow> \<not> is_section_boundary (CHR '' '' # s)"
proof -
  have sp: "str_trim (CHR '' '' # s) = str_trim s" by (simp add: str_trim_def trim_start_def)
  show "str_trim s \<noteq> patch_end \<Longrightarrow> \<not> is_section_boundary (CHR '' '' # s)"
    by (simp add: is_section_boundary_def sp starts_with_def add_file_prefix_def update_file_prefix_def
        delete_file_prefix_def)
  show "c \<noteq> CHR ''*'' \<Longrightarrow> \<not> is_ws c \<Longrightarrow> \<not> is_section_boundary (c # s)"
    by (auto simp: is_section_boundary_def trim_head patch_markers starts_with_def)
qed

definition at_boundary :: "string list \<Rightarrow> bool" where
  "at_boundary ls \<longleftrightarrow> (case ls of l # _ \<Rightarrow> is_section_boundary l | [] \<Rightarrow> True)"

lemma next_boundary: "at_boundary (concat (map operation_text ops) @ [patch_end])"
proof (cases ops)
  case Nil
  have "is_section_boundary patch_end" by (simp add: is_section_boundary_def) code_simp
  with Nil show ?thesis by (simp add: at_boundary_def)
next
  case (Cons op rest)
  then show ?thesis
    by (cases op) (simp_all add: at_boundary_def is_section_boundary_def starts_with_iff)
qed

lemma body_continues:
  "at_boundary rest \<Longrightarrow>
   parse_add_file_body (map ((#) (CHR ''+'')) ls @ rest) False c
   = (c @ concat (map ((#) (CHR 0x0A)) ls), rest)"
proof (induction ls arbitrary: c)
  case Nil
  then show ?case by (cases rest) (simp_all add: at_boundary_def)
next
  case (Cons l ls)
  then show ?case by (simp add: not_boundary)
qed

lemma join_concat: "join_with [x] (l # ls) = l @ concat (map ((#) x) ls)"
  by (induction ls arbitrary: l) auto

lemma body_of_text:
  assumes "at_boundary rest"
  shows "parse_add_file_body (map ((#) (CHR ''+'')) (split_on (CHR 0x0A) c) @ rest) True [] = (c, rest)"
proof -
  obtain l ls where s: "split_on (CHR 0x0A) c = l # ls" by (cases "split_on (CHR 0x0A) c") auto
  have "l @ concat (map ((#) (CHR 0x0A)) ls) = c"
    using join_split_on [of "CHR 0x0A" c] unfolding s join_concat .
  with body_continues [OF assms, of ls l] show ?thesis unfolding s by (simp add: not_boundary)
qed

lemma hunk_line_step:
  assumes "hunk_line_ok l"
  shows "hunk_loop (hunk_line_text l # rest) hs (Some h)
    = hunk_loop rest hs (Some (h\<lparr> hunk_lines := hunk_lines h @ [l] \<rparr>))"
proof (cases l)
  case (HContext s)
  have "str_trim (CHR '' '' # s) = str_trim s" by (simp add: str_trim_def trim_start_def)
  with HContext assms show ?thesis
    by (simp add: not_boundary hunk_marker_def parse_hunk_line_def)
qed (simp_all add: not_boundary trim_head end_of_file_marker_def hunk_marker_def parse_hunk_line_def)

lemma hunk_lines_step:
  "list_all hunk_line_ok ls \<Longrightarrow>
   hunk_loop (map hunk_line_text ls @ rest) hs (Some h)
   = hunk_loop rest hs (Some (h\<lparr> hunk_lines := hunk_lines h @ ls \<rparr>))"
proof (induction ls arbitrary: h)
  case (Cons l ls)
  then show ?case by (simp add: hunk_line_step del: hunk_loop.simps)
qed simp

lemma hunk_step:
  assumes "hunk_ok h"
  shows "hunk_loop (hunk_text h @ rest) hs cur = hunk_loop rest (close_hunk cur hs) (Some h)"
proof -
  have nb: "\<not> is_section_boundary (hunk_marker @ t)" "str_trim (hunk_marker @ t) \<noteq> end_of_file_marker" for t
    by (simp_all add: not_boundary trim_head hunk_marker_def end_of_file_marker_def)
  have hd: "str_trim (case context_header h of Some t \<Rightarrow> CHR '' '' # t | None \<Rightarrow> [])
    = (case context_header h of Some t \<Rightarrow> t | None \<Rightarrow> [])"
    using assms by (auto simp: hunk_ok_def space_word_trim split: option.splits)
  have ne: "context_header h = Some t \<Longrightarrow> t \<noteq> []" for t
    using assms by (auto simp: hunk_ok_def word_ok_def)
  have "hunk_loop (hunk_text h @ rest) hs cur
    = hunk_loop (map hunk_line_text (hunk_lines h) @ rest) (close_hunk cur hs)
        (Some \<lparr> context_header = context_header h, hunk_lines = [] \<rparr>)"
    using nb hd ne by (auto simp: hunk_text_def Let_def split: option.splits)
  also have "\<dots> = hunk_loop rest (close_hunk cur hs) (Some h)"
    using assms by (cases h) (simp add: hunk_lines_step hunk_ok_def)
  finally show ?thesis .
qed

lemma hunks_of_text:
  "list_all hunk_ok hs \<Longrightarrow> at_boundary rest \<Longrightarrow>
   hunk_loop (concat (map hunk_text hs) @ rest) acc cur = Inr (close_hunk cur acc @ hs, rest)"
proof (induction hs arbitrary: acc cur)
  case Nil
  then show ?case by (cases rest) (simp_all add: at_boundary_def)
next
  case (Cons h hs)
  then show ?case by (simp add: hunk_step) (simp add: close_hunk_def)
qed

lemma header_trims:
  assumes "word_ok p"
  shows "str_trim (add_file_prefix @ p) \<noteq> patch_end" "str_trim (delete_file_prefix @ p) \<noteq> patch_end"
    "str_trim (update_file_prefix @ p) \<noteq> patch_end"
proof -
  have "str_trim (CHR ''*'' # a @ p) = CHR ''*'' # a @ p" for a
    by (simp add: trim_head trim_end_word [OF assms])
  from this [of "''** Add File: ''"] this [of "''** Delete File: ''"] this [of "''** Update File: ''"]
  show "str_trim (add_file_prefix @ p) \<noteq> patch_end" "str_trim (delete_file_prefix @ p) \<noteq> patch_end"
    "str_trim (update_file_prefix @ p) \<noteq> patch_end"
    by (simp_all add: patch_markers)
qed

lemma prefix_clash:
  "strip_pre add_file_prefix (delete_file_prefix @ p) = None"
  "strip_pre add_file_prefix (update_file_prefix @ p) = None"
  "strip_pre delete_file_prefix (update_file_prefix @ p) = None"
  "strip_pre move_to_prefix (trim_end (hunk_marker @ t)) = None"
proof -
  have "trim_end (CHR ''@'' # s) = CHR ''@'' # trim_end s" for s
    by (simp add: trim_end_def dropWhile_append3)
  then show "strip_pre move_to_prefix (trim_end (hunk_marker @ t)) = None" by (simp add: patch_markers)
qed (simp_all add: patch_markers)

lemma move_of_text:
  assumes "hs \<noteq> []" "case mv of Some d \<Rightarrow> word_ok d | None \<Rightarrow> True"
  shows "take_move_to ((case mv of Some d \<Rightarrow> [move_to_prefix @ d] | None \<Rightarrow> []) @ concat (map hunk_text hs) @ rest)
    = (mv, concat (map hunk_text hs) @ rest)"
proof (cases mv)
  case None
  obtain h hs' where "hs = h # hs'" using assms(1) by (cases hs) auto
  with None show ?thesis by (simp add: take_move_to_def hunk_text_def prefix_clash)
next
  case (Some d)
  with assms show ?thesis by (simp add: take_move_to_def trim_end_word)
qed

lemma sections_of_text:
  "list_all operation_ok ops \<Longrightarrow>
   section_loop (concat (map operation_text ops) @ [patch_end]) acc = Inr (acc @ ops)"
proof (induction ops arbitrary: acc)
  case Nil
  have "str_trim patch_end = patch_end" by code_simp
  then show ?case by simp
next
  case (Cons op ops)
  let ?rest = "concat (map operation_text ops) @ [patch_end]"
  have nb: "at_boundary ?rest" by (rule next_boundary)
  show ?case
  proof (cases op)
    case (AddFile p c)
    with Cons.prems have w: "word_ok p" by simp
    show ?thesis using Cons AddFile w
      by (simp add: header_trims trim_end_word body_of_text [OF nb])
  next
    case (DeleteFile p)
    with Cons.prems have w: "word_ok p" by simp
    show ?thesis using Cons DeleteFile w by (simp add: header_trims trim_end_word prefix_clash)
  next
    case (UpdateFile p mv hs)
    with Cons.prems have w: "word_ok p" and mv: "case mv of Some d \<Rightarrow> word_ok d | None \<Rightarrow> True"
      and hs: "hs \<noteq> []" "list_all hunk_ok hs" by simp_all
    have "parse_update_hunks (concat (map hunk_text hs) @ ?rest) = Inr (hs, ?rest)"
      using hunks_of_text [OF hs(2) nb, of "[]" None] hs(1)
      by (simp add: parse_update_hunks_def close_hunk_def)
    with Cons UpdateFile w move_of_text [OF hs(1) mv, of ?rest] show ?thesis
      by (simp add: header_trims trim_end_word prefix_clash)
  qed
qed

lemma lines_acc_line:
  "CHR 0x0A \<notin> set l \<Longrightarrow> str_lines_acc a (l @ CHR 0x0A # s) = strip_cr (a @ l) # str_lines_acc [] s"
  by (induction l arbitrary: a) auto

lemma lines_acc_last:
  "CHR 0x0A \<notin> set l \<Longrightarrow> str_lines_acc a l = (if a @ l = [] then [] else [a @ l])"
  by (induction l arbitrary: a) auto

lemma str_lines_join:
  "list_all line_ok ls \<Longrightarrow> line_ok l \<Longrightarrow> l \<noteq> [] \<Longrightarrow> str_lines (join_with [CHR 0x0A] (ls @ [l])) = ls @ [l]"
proof (induction ls)
  case Nil
  then show ?case by (simp add: str_lines_def lines_acc_last line_ok_def)
next
  case (Cons m ls)
  have "join_with [CHR 0x0A] ((m # ls) @ [l]) = m @ CHR 0x0A # join_with [CHR 0x0A] (ls @ [l])"
    by (simp add: join_with_Cons)
  with Cons show ?case by (simp add: str_lines_def lines_acc_line line_ok_def)
qed

lemma strip_cr_append: "l \<noteq> [] \<Longrightarrow> strip_cr (a @ l) = a @ strip_cr l"
  by (simp add: strip_cr_def butlast_append)

lemma line_ok_append: "line_ok l \<Longrightarrow> CHR 0x0A \<notin> set a \<Longrightarrow> a \<noteq> [] \<Longrightarrow> last a \<noteq> CHR 0x0D \<Longrightarrow> line_ok (a @ l)"
  by (cases "l = []") (auto simp: line_ok_def strip_cr_append, simp add: strip_cr_def)

lemma word_line: "word_ok p \<Longrightarrow> line_ok p"
  using word_ok_ends [of p] by (auto simp: word_ok_def line_ok_def strip_cr_def is_ws_def code_point_def)

lemma operation_lines:
  assumes "operation_ok op"
  shows "list_all line_ok (operation_text op)"
proof -
  have pre: "line_ok (a @ l)" if "line_ok l" "a \<in> set [add_file_prefix, delete_file_prefix, update_file_prefix,
      move_to_prefix, hunk_marker @ '' '', '' '', ''-'', ''+'']" for a l
    using that by (intro line_ok_append) (auto simp: patch_markers)
  have hl: "line_ok (hunk_line_text l)" if "hunk_line_ok l" for l
    using that pre [of _ "'' ''"] pre [of _ "''-''"] pre [of _ "''+''"] by (cases l) auto
  have "list_all line_ok (hunk_text h)" if "hunk_ok h" for h
  proof -
    have "line_ok hunk_marker" by code_simp
    with that pre [of _ "hunk_marker @ '' ''"] hl show ?thesis
      by (auto simp: hunk_text_def hunk_ok_def list_all_iff word_line split: option.splits)
  qed
  with assms pre [of _ "''+''"] show ?thesis
    by (cases op) (auto simp: list_all_iff pre word_line split: option.splits)
qed

text \<open>C29. Parsing undoes printing: the text of any non-empty list of well-formed operations (with
  any file contents, context headers, context, removed and added lines) is parsed back to
  exactly these operations. What the format cannot carry is named by the conditions: blank or
  padded paths, lines that end in a carriage return, and context lines that read as the end
  marker of the patch or of the file.\<close>

theorem patch_roundtrip:
  assumes "ops \<noteq> []" "list_all operation_ok ops"
  shows "parse_patch (patch_text ops) = Inr ops"
proof -
  have "list_all line_ok (patch_begin # concat (map operation_text ops))"
  proof -
    have "line_ok patch_begin" by code_simp
    with assms(2) operation_lines show ?thesis by (auto simp: list_all_iff)
  qed
  moreover have "line_ok patch_end" "patch_end \<noteq> []" by code_simp+
  ultimately have l: "str_lines (patch_text ops) = patch_begin # concat (map operation_text ops) @ [patch_end]"
    unfolding patch_text_def using str_lines_join [of "patch_begin # concat (map operation_text ops)" patch_end]
    by simp
  have "str_trim patch_begin = patch_begin" "patch_begin \<noteq> []" by code_simp+
  with assms sections_of_text [OF assms(2), of "[]"] show ?thesis
    by (simp add: parse_patch_def l)
qed

definition sample_patch :: "patch_operation list" where
  "sample_patch = [AddFile ''a.txt'' ''hi'', DeleteFile ''b'',
     UpdateFile ''c'' (Some ''d'')
       [\<lparr> context_header = Some ''fn main'', hunk_lines = [HContext ''x'', HRemoved ''y'', HAdded ''z''] \<rparr>]]"

theorem patch_roundtrip_witness: "parse_patch (patch_text sample_patch) = Inr sample_patch"
  by (rule patch_roundtrip; code_simp)

section \<open>What an update does to a file\<close>

lemma match_at:
  assumes "start + length n \<le> length h"
  shows "list_all (\<lambda>(a, b). a = b) (zip (drop start h) n) \<longleftrightarrow> (\<exists>a b. h = a @ n @ b \<and> length a = start)"
proof -
  have "length n \<le> length (drop start h)" using assms by simp
  then have "list_all (\<lambda>(a, b). a = b) (zip (drop start h) n) \<longleftrightarrow> take (length n) (drop start h) = n"
  proof (induction n arbitrary: h start)
    case (Cons x n)
    obtain y ys where y: "drop start h = y # ys" using Cons.prems by (cases "drop start h") auto
    then have "drop (Suc start) h = ys" by (metis drop_Suc list.sel(3) tl_drop)
    with Cons.IH [of "Suc start" h] Cons.prems y show ?case by auto
  qed simp
  also have "\<dots> \<longleftrightarrow> (\<exists>a b. h = a @ n @ b \<and> length a = start)"
  proof
    assume t: "take (length n) (drop start h) = n"
    have "h = take start h @ take (length n) (drop start h) @ drop (length n) (drop start h)"
      by (metis append_take_drop_id)
    with t assms show "\<exists>a b. h = a @ n @ b \<and> length a = start"
      by (intro exI [of _ "take start h"] exI [of _ "drop (length n) (drop start h)"]) simp
  qed auto
  finally show ?thesis .
qed

lemma find_subsequence_Some:
  assumes "find_subsequence h n = Some pos"
  shows "\<exists>a b. h = a @ n @ b \<and> length a = pos" "n \<noteq> []"
    "\<And>a b. h = a @ n @ b \<Longrightarrow> pos \<le> length a"
proof -
  from assms have n: "n \<noteq> []" and le: "length n \<le> length h"
    and f: "List.find (\<lambda>start. list_all (\<lambda>(a, b). a = b) (zip (drop start h) n)) [0..<Suc (length h - length n)] = Some pos"
    by (auto simp: find_subsequence_def split: if_splits)
  from f obtain i where i: "i < length [0..<Suc (length h - length n)]" "pos = [0..<Suc (length h - length n)] ! i"
    "list_all (\<lambda>(a, b). a = b) (zip (drop pos h) n)"
    "\<forall>j<i. \<not> list_all (\<lambda>(a, b). a = b) (zip (drop ([0..<Suc (length h - length n)] ! j) h) n)"
    by (auto simp: find_Some_iff simp del: upt_Suc)
  then have pi: "pos = i" and pl: "pos + length n \<le> length h" using le by (auto simp del: upt_Suc)
  show "n \<noteq> []" by (rule n)
  show "\<exists>a b. h = a @ n @ b \<and> length a = pos" using match_at [OF pl] i(3) by simp
  show "pos \<le> length a" if "h = a @ n @ b" for a b
  proof (rule ccontr)
    assume "\<not> pos \<le> length a"
    then have "length a < i" using pi by simp
    with i(1,4) have "\<not> list_all (\<lambda>(x, y). x = y) (zip (drop (length a) h) n)" by (auto simp del: upt_Suc)
    with match_at [of "length a" n h] that show False by auto
  qed
qed

lemma find_subsequence_None:
  "find_subsequence h n = None \<Longrightarrow> n \<noteq> [] \<Longrightarrow> h \<noteq> a @ n @ b"
proof
  assume f: "find_subsequence h n = None" and n: "n \<noteq> []" and h: "h = a @ n @ b"
  have "length a \<in> set [0..<Suc (length h - length n)]" by (simp add: h)
  moreover have "length n \<le> length h" by (simp add: h)
  ultimately have "\<not> list_all (\<lambda>(x, y). x = y) (zip (drop (length a) h) n)"
    using f n unfolding find_subsequence_def find_None_iff by (auto simp: find_None_iff simp del: upt_Suc)
  with match_at [of "length a" n h] h show False by auto
qed

text \<open>A hunk is spliced in exactly where it belongs: applying it succeeds if and only if it
  has context or removed lines and these occur in the file as consecutive lines, and then the
  first such block, and nothing else, is replaced by the context and added lines.\<close>

lemma hunk_spliced_at_first_match:
  "splice_hunks lines [h] = Inr result \<longleftrightarrow>
     hunk_before h \<noteq> []
     \<and> (\<exists>a b. lines = a @ hunk_before h @ b \<and> result = a @ hunk_after h @ b
          \<and> (\<forall>a' b'. lines = a' @ hunk_before h @ b' \<longrightarrow> length a \<le> length a'))"
proof (cases "find_subsequence lines (hunk_before h)")
  case None
  then show ?thesis using find_subsequence_None [OF None] by auto
next
  case (Some pos)
  note f = find_subsequence_Some [OF Some]
  obtain a b where ab: "lines = a @ hunk_before h @ b" "length a = pos" using f(1) by blast
  have "splice_hunks lines [h] = Inr (a @ hunk_after h @ b)"
    using Some f(2) ab by simp
  moreover have "a' = a \<and> b' = b"
    if "lines = a' @ hunk_before h @ b'" "\<forall>a'' b''. lines = a'' @ hunk_before h @ b'' \<longrightarrow> length a' \<le> length a''" for a' b'
  proof -
    have "length a' = length a" using that ab f(3) by (metis le_antisym)
    with that(1) ab(1) show ?thesis by simp
  qed
  ultimately have res: "splice_hunks lines [h] = Inr (a @ hunk_after h @ b)"
    and uniq: "\<And>a' b'. lines = a' @ hunk_before h @ b' \<Longrightarrow>
      \<forall>a'' b''. lines = a'' @ hunk_before h @ b'' \<longrightarrow> length a' \<le> length a'' \<Longrightarrow> a' = a \<and> b' = b" by blast+
  show ?thesis (is "?l = (?n \<and> ?ex)")
  proof
    assume ?l
    then have "result = a @ hunk_after h @ b" using res by simp
    with ab f(2,3) show "?n \<and> ?ex" by blast
  next
    assume "?n \<and> ?ex"
    then obtain a' b' where "lines = a' @ hunk_before h @ b'" "result = a' @ hunk_after h @ b'"
      "\<forall>a'' b''. lines = a'' @ hunk_before h @ b'' \<longrightarrow> length a' \<le> length a''" by blast
    with uniq res show ?l by blast
  qed
qed

lemma hunk_spliced_at_first_match_witness:
  "splice_hunks [''a'', ''b'', ''a'', ''b''] [\<lparr> context_header = None, hunk_lines = [HContext ''a'', HRemoved ''b'', HAdded ''c''] \<rparr>]
   = Inr [''a'', ''c'', ''a'', ''b'']"
proof -
  have "\<exists>a b. [''a'', ''b'', ''a'', ''b''] = a @ [''a'', ''b''] @ b \<and> [''a'', ''c'', ''a'', ''b''] = a @ [''a'', ''c''] @ b
     \<and> (\<forall>a' b'. [''a'', ''b'', ''a'', ''b''] = a' @ [''a'', ''b''] @ b' \<longrightarrow> length a \<le> length a')"
    by (intro exI [of _ "[]"] exI [of _ "[''a'', ''b'']"]) simp
  then show ?thesis
    by (subst hunk_spliced_at_first_match) (simp add: hunk_before_def hunk_after_def)
qed

section \<open>What a patch touches\<close>

fun named_paths :: "patch_operation \<Rightarrow> string set" where
  "named_paths (AddFile p _) = {p}"
| "named_paths (DeleteFile p) = {p}"
| "named_paths (UpdateFile p mv _) = {p} \<union> (case mv of Some d \<Rightarrow> {d} | None \<Rightarrow> {})"

definition patch_target :: "fpath \<Rightarrow> string \<Rightarrow> fpath" where
  "patch_target root path = normalize_lexically (join_path root (parse_path path))"

text \<open>Where a path can lead: a prefix of the target is followed through the links of the file system, the rest is
  added as it is (which prefix exists changes as the patch goes on); a write may follow one more link.\<close>

definition resolutions :: "host \<Rightarrow> fpath \<Rightarrow> fpath set" where
  "resolutions h p =
     insert p ((\<lambda>n. let base = canon h (fst p, take n (snd p)) in (fst base, snd base @ drop n (snd p))) ` {..length (snd p)})"

definition reached_files :: "host \<Rightarrow> fpath \<Rightarrow> string \<Rightarrow> fpath set" where
  "reached_files h root path = (let ps = resolutions h (patch_target root path) in ps \<union> opened h ` ps)"

lemma resolve_reached: "resolve_patch_path h fs root path \<in> resolutions h (patch_target root path)"
proof -
  have "existing_prefix h fs a ns tail \<in> resolutions h (a, rev ns @ tail)" for a ns tail
  proof (induction ns arbitrary: tail)
    case Nil
    show ?case by (auto simp: resolutions_def Let_def intro!: image_eqI [of _ _ 0])
  next
    case (Cons n ns)
    let ?base = "canon h (a, rev (n # ns))"
    have "(fst ?base, snd ?base @ tail) \<in> resolutions h (a, rev (n # ns) @ tail)"
      by (auto simp: resolutions_def Let_def intro!: image_eqI [of _ _ "length (rev (n # ns))"])
    with Cons.IH [of "n # tail"] show ?case by (simp add: Let_def)
  qed
  from this [of "fst (patch_target root path)" "rev (snd (patch_target root path))" "[]"] show ?thesis
    by (simp add: resolve_patch_path_def resolve_existing_prefix_def patch_target_def)
qed

lemma not_reached:
  assumes "q \<notin> reached_files h root path"
  shows "q \<noteq> resolve_patch_path h fs root path" "q \<noteq> opened h (resolve_patch_path h fs root path)"
  using assms resolve_reached [of h fs root path] by (auto simp: reached_files_def Let_def)

text \<open>Without links a path leads to its target only.\<close>

lemma reached_without_links:
  assumes "\<And>q. canon h q = q" "\<And>q. opened h q = q"
  shows "reached_files h root path = {patch_target root path}"
proof -
  have "resolutions h p = {p}" for p by (cases p) (auto simp: resolutions_def assms(1) Let_def)
  then show ?thesis by (simp add: reached_files_def assms(2) Let_def)
qed

lemma put_file_other:
  assumes "put_file h fs real path what c = (r, fs')" "q \<noteq> opened h real"
  shows "fs_files fs' q = fs_files fs q"
  using assms
  by (auto simp: put_file_def create_parent_def create_dir_all_def write_file_def
      split: if_splits option.splits prod.splits)

lemma remove_file_other: "remove_file h fs p = (r, fs') \<Longrightarrow> q \<noteq> p \<Longrightarrow> fs_files fs' q = fs_files fs q"
  by (auto simp: remove_file_def split: if_splits)

lemma apply_operation_other:
  assumes "apply_operation h root op fs = (r, fs')" "q \<notin> (\<Union>p\<in>named_paths op. reached_files h root p)"
  shows "fs_files fs' q = fs_files fs q"
proof (cases op)
  case (AddFile p c)
  with assms not_reached [of q h root p] show ?thesis
    by (auto simp: apply_operation_def split: prod.splits option.splits dest: put_file_other)
next
  case (DeleteFile p)
  with assms not_reached [of q h root p] show ?thesis
    by (auto simp: apply_operation_def split: prod.splits option.splits dest: remove_file_other)
next
  case (UpdateFile p mv hs)
  define real where "real = resolve_patch_path h fs root p"
  define dest where "dest = (case mv of Some d \<Rightarrow> resolve_patch_path h fs root d | None \<Rightarrow> real)"
  have nq: "q \<noteq> real" "q \<noteq> opened h dest"
    using assms(2) UpdateFile not_reached by (auto simp: real_def dest_def split: option.splits)
  note run = assms(1) [unfolded apply_operation_def UpdateFile patch_operation.case Let_def,
      folded real_def, folded dest_def]
  show ?thesis
  proof (cases "\<exists>original updated. read_to_string h fs real = Inr original \<and> apply_hunk_to_lines original hs = Inr updated")
    case False
    with run show ?thesis by (auto split: sum.splits)
  next
    case True
    then obtain original updated where u: "read_to_string h fs real = Inr original"
      "apply_hunk_to_lines original hs = Inr updated" by blast
    obtain e fs1 where put: "put_file h fs dest p ''writing updated file '' updated = (e, fs1)" by fastforce
    have 1: "fs_files fs1 q = fs_files fs q" using put_file_other [OF put] nq by simp
    obtain e2 fs2 where rm: "remove_file h fs1 real = (e2, fs2)" by fastforce
    have 2: "fs_files fs2 q = fs_files fs1 q" using remove_file_other [OF rm] nq by simp
    from run u put rm have "fs' = fs1 \<or> fs' = fs2" by (auto split: option.splits if_splits)
    with 1 2 show ?thesis by auto
  qed
qed

text \<open>C30. A patch changes only files that its paths lead to: whatever the operations are and however the run ends,
  with success, with a refusal of the operating system or with a hunk that does not fit, every file keeps its
  contents that is not reached from a path in the patch, that is, from its normalised target through the links of
  the file system. Without links these are the targets themselves.\<close>

theorem patch_touches_only_named:
  assumes "apply_patch_operations h root ops fs = (r, fs')"
    and "q \<notin> (\<Union>op\<in>set ops. \<Union>p\<in>named_paths op. reached_files h root p)"
  shows "fs_files fs' q = fs_files fs q"
  using assms
proof (induction ops arbitrary: fs r fs')
  case (Cons op ops)
  obtain r1 fs1 where 1: "apply_operation h root op fs = (r1, fs1)" by fastforce
  have q: "fs_files fs1 q = fs_files fs q"
    using apply_operation_other [OF 1] Cons.prems(2) by simp
  show ?case
  proof (cases r1)
    case (Inl e)
    with 1 Cons.prems(1) q show ?thesis by simp
  next
    case (Inr p)
    obtain r2 fs2 where 2: "apply_patch_operations h root ops fs1 = (r2, fs2)" by fastforce
    with 1 Inr Cons.prems(1) have "fs' = fs2" by (auto split: sum.splits)
    with Cons.IH [OF 2] Cons.prems(2) q show ?thesis by simp
  qed
qed simp

definition sample_host :: host where
  "sample_host = \<lparr> canon = (\<lambda>q. q), opened = (\<lambda>q. q), refuses = (\<lambda>_ _. False), io_text = (\<lambda>_ _. ''io'') \<rparr>"

definition sample_fs :: fsys where
  "sample_fs = \<lparr> fs_files = [(True, [''w'', ''keep'']) \<mapsto> ''k''], fs_dirs = (\<lambda>q. q = (True, [''w''])) \<rparr>"

theorem patch_touches_only_named_witness:
  "\<exists>r fs'. apply_patch_operations sample_host (True, [''w'']) [AddFile ''../w/x'' ''1'', DeleteFile ''gone''] sample_fs = (r, fs')
     \<and> fs_files fs' (True, [''w'', ''keep'']) = Some ''k''"
proof -
  obtain r fs' where r: "apply_patch_operations sample_host (True, [''w'']) [AddFile ''../w/x'' ''1'', DeleteFile ''gone''] sample_fs = (r, fs')"
    by fastforce
  have "patch_target (True, [''w'']) ''../w/x'' = (True, [''w'', ''x''])"
    "patch_target (True, [''w'']) ''gone'' = (True, [''w'', ''gone''])" by code_simp+
  then have "fs_files fs' (True, [''w'', ''keep'']) = fs_files sample_fs (True, [''w'', ''keep''])"
    by (intro patch_touches_only_named [OF r]) (auto simp: reached_without_links sample_host_def)
  with r show ?thesis by (simp add: sample_fs_def)
qed

section \<open>The tool under the orchestrator\<close>











end
