(* ===== verification/Composer.thy ===== *)
theory Composer
  imports Prelude
begin

text \<open>
  The message composer of the terminal interface (\<open>browser-use-tui/src/composer.rs\<close>): the text
  with its cursor and attached images, the key bindings, word and line movement, deletion, and
  the wrapped rendering with its scroll window. The cursor counts characters, as in the code; a
  rendered line is the list of the texts of its spans (styles are left out).
\<close>

abbreviation nl :: char where "nl \<equiv> CHR 0x0A"

section \<open>State\<close>

datatype local_image = LReady string | LPending nat

record composer =
  ctext :: string
  local_images :: "local_image list"
  ccursor :: nat
  preferred_column :: "nat option"
  visible_start_hint :: "nat option"

definition composer_default :: composer where
  "composer_default = \<lparr> ctext = [], local_images = [], ccursor = 0, preferred_column = None, visible_start_hint = None \<rparr>"

fun image_path :: "local_image \<Rightarrow> string option" where
  "image_path (LReady p) = Some p"
| "image_path (LPending _) = None"

fun image_is_pending :: "local_image \<Rightarrow> bool" where
  "image_is_pending (LReady _) = False"
| "image_is_pending (LPending _) = True"

definition composer_is_empty :: "composer \<Rightarrow> bool" where
  "composer_is_empty c \<longleftrightarrow> ctext c = [] \<and> local_images c = []"

definition input_len :: "composer \<Rightarrow> nat" where
  "input_len c = length (ctext c)"

definition composer_clear :: "composer \<Rightarrow> composer" where
  "composer_clear c = c\<lparr> ctext := [], local_images := [], ccursor := 0, preferred_column := None,
     visible_start_hint := None \<rparr>"

definition take_trimmed :: "composer \<Rightarrow> string \<times> composer" where
  "take_trimmed c = (str_trim (ctext c), composer_clear c)"

definition take_submission :: "composer \<Rightarrow> (string \<times> string list) \<times> composer" where
  "take_submission c =
     ((str_trim (ctext c), List.map_filter image_path (local_images c)), composer_clear (c\<lparr> local_images := [] \<rparr>))"

definition has_local_images :: "composer \<Rightarrow> bool" where
  "has_local_images c \<longleftrightarrow> local_images c \<noteq> []"

definition has_pending_local_images :: "composer \<Rightarrow> bool" where
  "has_pending_local_images c = list_ex image_is_pending (local_images c)"

definition attach_image :: "composer \<Rightarrow> string \<Rightarrow> composer" where
  "attach_image c path = c\<lparr> local_images := local_images c @ [LReady path] \<rparr>"

definition attach_pending_image :: "composer \<Rightarrow> nat \<Rightarrow> composer" where
  "attach_pending_image c paste_id = c\<lparr> local_images := local_images c @ [LPending paste_id] \<rparr>"

definition resolve_pending_image :: "composer \<Rightarrow> nat \<Rightarrow> string \<Rightarrow> bool \<times> composer" where
  "resolve_pending_image c paste_id path =
     (case position (\<lambda>i. i = LPending paste_id) (local_images c) of
        None \<Rightarrow> (False, c)
      | Some k \<Rightarrow> (True, c\<lparr> local_images := (local_images c)[k := LReady path] \<rparr>))"

definition remove_pending_image :: "composer \<Rightarrow> nat \<Rightarrow> bool \<times> composer" where
  "remove_pending_image c paste_id =
     (let kept = filter (\<lambda>i. i \<noteq> LPending paste_id) (local_images c)
      in (length kept \<noteq> length (local_images c), c\<lparr> local_images := kept \<rparr>))"

definition set_input :: "composer \<Rightarrow> string \<Rightarrow> composer" where
  "set_input c v = c\<lparr> ctext := v, local_images := [], ccursor := length v, preferred_column := None,
     visible_start_hint := None \<rparr>"

section \<open>Editing\<close>

definition insert_str :: "composer \<Rightarrow> string \<Rightarrow> composer" where
  "insert_str c v = c\<lparr> ctext := take (ccursor c) (ctext c) @ v @ drop (ccursor c) (ctext c),
     ccursor := ccursor c + length v, preferred_column := None \<rparr>"

text \<open>\<open>replace("\r\n", "\n")\<close>, then \<open>replace('\r', "\n")\<close>.\<close>

fun replace_crlf :: "string \<Rightarrow> string" where
  "replace_crlf [] = []"
| "replace_crlf [x] = [x]"
| "replace_crlf (x # y # s) =
     (if x = CHR 0x0D \<and> y = nl then nl # replace_crlf s else x # replace_crlf (y # s))"

definition normalize_pasted_text :: "string \<Rightarrow> string" where
  "normalize_pasted_text v = map (\<lambda>x. if x = CHR 0x0D then nl else x) (replace_crlf v)"

definition insert_paste :: "composer \<Rightarrow> string \<Rightarrow> bool \<times> composer" where
  "insert_paste c v = (if v = [] then (False, c) else (True, insert_str c (normalize_pasted_text v)))"

definition delete_char_range :: "composer \<Rightarrow> nat \<Rightarrow> nat \<Rightarrow> composer" where
  "delete_char_range c start stop =
     (if start \<ge> stop then c
      else let t = take start (ctext c) @ drop stop (ctext c)
           in c\<lparr> ctext := t, ccursor := min start (length t), preferred_column := None \<rparr>)"

definition delete_backward_char :: "composer \<Rightarrow> composer" where
  "delete_backward_char c =
     (if ccursor c = 0 then c else delete_char_range c (ccursor c - 1) (ccursor c))"

definition delete_forward_char :: "composer \<Rightarrow> composer" where
  "delete_forward_char c =
     (if ccursor c \<ge> input_len c then c else delete_char_range c (ccursor c) (ccursor c + 1))"

text \<open>The forward scan over the characters; the backward one is \<open>back_while\<close>.\<close>

function fwd_while :: "(char \<Rightarrow> bool) \<Rightarrow> string \<Rightarrow> nat \<Rightarrow> nat" where
  "fwd_while p t i = (if i < length t \<and> p (t ! i) then fwd_while p t (i + 1) else i)"
  by pat_completeness auto
termination
  by (relation "measure (\<lambda>(p, t, i). length t - i)") auto

declare fwd_while.simps [simp del]

definition word_start :: "string \<Rightarrow> nat \<Rightarrow> nat" where
  "word_start t cur = back_while (\<lambda>x. \<not> is_ws x) t (back_while is_ws t cur)"

definition delete_backward_word :: "composer \<Rightarrow> composer" where
  "delete_backward_word c =
     (if ccursor c = 0 then c else delete_char_range c (word_start (ctext c) (ccursor c)) (ccursor c))"

definition current_line_start :: "composer \<Rightarrow> nat" where
  "current_line_start c = back_while (\<lambda>x. x \<noteq> nl) (ctext c) (min (ccursor c) (length (ctext c)))"

definition current_line_end :: "composer \<Rightarrow> nat" where
  "current_line_end c = fwd_while (\<lambda>x. x \<noteq> nl) (ctext c) (min (ccursor c) (length (ctext c)))"

definition line_count :: "composer \<Rightarrow> nat" where
  "line_count c = length (split_on nl (ctext c))"

definition delete_to_line_start :: "composer \<Rightarrow> composer" where
  "delete_to_line_start c =
     (let start = current_line_start c in
      if ccursor c = start \<and> start > 0 then delete_char_range c (start - 1) start
      else delete_char_range c start (ccursor c))"

definition kill_current_line :: "composer \<Rightarrow> composer" where
  "kill_current_line c =
     (if ctext c = [] then c
      else let start = current_line_start c; stop = current_line_end c;
               delete_start = (if start > 0 then start - 1 else start);
               delete_end = (if stop < input_len c \<and> line_count c > 1 then stop + 1 else stop)
           in delete_char_range c delete_start delete_end)"

section \<open>Movement\<close>

definition move_to :: "composer \<Rightarrow> nat \<Rightarrow> composer" where
  "move_to c k = c\<lparr> ccursor := k, preferred_column := None \<rparr>"

definition move_left :: "composer \<Rightarrow> composer" where
  "move_left c = move_to c (ccursor c - 1)"

definition move_right :: "composer \<Rightarrow> composer" where
  "move_right c = move_to c (min (ccursor c + 1) (input_len c))"

definition move_backward_word :: "composer \<Rightarrow> composer" where
  "move_backward_word c =
     (if ccursor c = 0 then c else move_to c (word_start (ctext c) (ccursor c)))"

definition move_forward_word :: "composer \<Rightarrow> composer" where
  "move_forward_word c =
     (let t = ctext c in
      move_to c (fwd_while (\<lambda>x. \<not> is_ws x) t (fwd_while is_ws t (min (ccursor c) (length t)))))"

definition move_to_line_start :: "composer \<Rightarrow> composer" where
  "move_to_line_start c = move_to c (current_line_start c)"

definition move_to_line_end :: "composer \<Rightarrow> composer" where
  "move_to_line_end c = move_to c (current_line_end c)"

fun row_col_loop :: "nat \<Rightarrow> nat \<Rightarrow> nat \<Rightarrow> nat \<Rightarrow> string \<Rightarrow> nat \<times> nat" where
  "row_col_loop cur idx row col [] = (row, col)"
| "row_col_loop cur idx row col (x # s) =
     (if idx = cur then (row, col)
      else if x = nl then row_col_loop cur (idx + 1) (row + 1) 0 s
      else row_col_loop cur (idx + 1) row (col + 1) s)"

definition cursor_row_col :: "composer \<Rightarrow> nat \<times> nat" where
  "cursor_row_col c = row_col_loop (ccursor c) 0 0 0 (ctext c)"

fun find_row_col :: "nat \<Rightarrow> nat \<Rightarrow> nat \<Rightarrow> nat \<Rightarrow> nat \<Rightarrow> string \<Rightarrow> nat option" where
  "find_row_col trow tcol idx row col [] = None"
| "find_row_col trow tcol idx row col (x # s) =
     (if row = trow \<and> (col = tcol \<or> x = nl) then Some idx
      else if x = nl then (if row = trow then Some idx else find_row_col trow tcol (idx + 1) (row + 1) 0 s)
      else find_row_col trow tcol (idx + 1) row (col + 1) s)"

definition cursor_for_row_col :: "composer \<Rightarrow> nat \<Rightarrow> nat \<Rightarrow> nat" where
  "cursor_for_row_col c trow tcol =
     (case find_row_col trow tcol 0 0 0 (ctext c) of Some i \<Rightarrow> i | None \<Rightarrow> input_len c)"

definition move_line_up :: "composer \<Rightarrow> composer" where
  "move_line_up c =
     (case cursor_row_col c of (row, col) \<Rightarrow>
        if row = 0 then c
        else let column = (case preferred_column c of Some k \<Rightarrow> k | None \<Rightarrow> col)
             in c\<lparr> preferred_column := Some column, ccursor := cursor_for_row_col c (row - 1) column \<rparr>)"

definition move_line_down :: "composer \<Rightarrow> composer" where
  "move_line_down c =
     (case cursor_row_col c of (row, col) \<Rightarrow>
        if row + 1 \<ge> line_count c then c
        else let column = (case preferred_column c of Some k \<Rightarrow> k | None \<Rightarrow> col)
             in c\<lparr> preferred_column := Some column, ccursor := cursor_for_row_col c (row + 1) column \<rparr>)"

section \<open>Keys\<close>

datatype key_code =
  KChar char | KEnter | KBackspace | KDelete | KLeft | KRight | KUp | KDown | KHome | KEnd | KOther nat

record key_modifiers =
  m_shift :: bool
  m_control :: bool
  m_alt :: bool
  m_super :: bool
  m_hyper :: bool
  m_meta :: bool

datatype key_kind = Press | Repeat | Release

record key_event =
  kcode :: key_code
  kmods :: key_modifiers
  kkind :: key_kind

definition mods_none :: key_modifiers where
  "mods_none = \<lparr> m_shift = False, m_control = False, m_alt = False, m_super = False, m_hyper = False, m_meta = False \<rparr>"

definition mods_control :: key_modifiers where "mods_control = mods_none\<lparr> m_control := True \<rparr>"
definition mods_alt :: key_modifiers where "mods_alt = mods_none\<lparr> m_alt := True \<rparr>"
definition mods_shift :: key_modifiers where "mods_shift = mods_none\<lparr> m_shift := True \<rparr>"
definition mods_meta :: key_modifiers where "mods_meta = mods_none\<lparr> m_meta := True \<rparr>"

definition normalized_modifiers :: "key_modifiers \<Rightarrow> key_modifiers" where
  "normalized_modifiers m = m\<lparr> m_super := False, m_hyper := False \<rparr>"

definition c0_control_char_to_ctrl_char :: "char \<Rightarrow> char option" where
  "c0_control_char_to_ctrl_char ch =
     (let code = code_point ch in
      if code = 0 then Some (CHR '' '')
      else if 1 \<le> code \<and> code \<le> 26 then Some (char_of (code - 1 + 97))
      else if 28 \<le> code \<and> code \<le> 31 then Some (char_of (code - 28 + 52))
      else None)"

definition normalize_key_parts :: "key_code \<Rightarrow> key_modifiers \<Rightarrow> key_code \<times> key_modifiers" where
  "normalize_key_parts code m =
     (case code of
        KChar ch \<Rightarrow>
          (case (if m = mods_none then c0_control_char_to_ctrl_char ch else None) of
             Some ctrl \<Rightarrow> (KChar ctrl, mods_control)
           | None \<Rightarrow>
               if is_upper_ascii ch
               then (KChar (to_lower_ascii ch), normalized_modifiers (m\<lparr> m_shift := True \<rparr>))
               else (code, normalized_modifiers m))
      | _ \<Rightarrow> (code, normalized_modifiers m))"

definition normalize_key :: "key_event \<Rightarrow> key_code \<times> key_modifiers" where
  "normalize_key k = normalize_key_parts (kcode k) (kmods k)"

definition key_pressed :: "key_event \<Rightarrow> key_code \<Rightarrow> key_modifiers \<Rightarrow> bool" where
  "key_pressed k code m \<longleftrightarrow> normalize_key k = normalize_key_parts code m"

definition is_insert_newline_key :: "key_event \<Rightarrow> bool" where
  "is_insert_newline_key k \<longleftrightarrow>
     normalize_key k \<in> {(KEnter, mods_shift), (KEnter, mods_alt), (KEnter, mods_meta),
       (KChar (CHR ''j''), mods_control), (KChar nl, mods_none), (KChar (CHR 0x0D), mods_none),
       (KChar nl, mods_alt), (KChar (CHR 0x0D), mods_alt), (KChar nl, mods_meta), (KChar (CHR 0x0D), mods_meta)}"

definition has_ctrl_or_alt :: "key_modifiers \<Rightarrow> bool" where
  "has_ctrl_or_alt m \<longleftrightarrow> m_control m \<or> m_alt m \<or> m_meta m"

definition text_char_for_key :: "key_event \<Rightarrow> char option" where
  "text_char_for_key k =
     (if has_ctrl_or_alt (kmods k) then None
      else case kcode k of
             KChar ch \<Rightarrow>
               if is_control_char ch then None
               else if m_shift (kmods k) \<and> is_lower_ascii ch then Some (to_upper_ascii ch)
               else Some ch
           | _ \<Rightarrow> None)"

definition should_swallow_unmodified_key :: "composer \<Rightarrow> key_event \<Rightarrow> bool" where
  "should_swallow_unmodified_key c k \<longleftrightarrow>
     \<not> composer_is_empty c
     \<and> (normalize_key k \<in> (\<lambda>ch. (KChar ch, mods_control)) ` set ''bdfhjkmy''
        \<or> normalize_key k \<in> (\<lambda>ch. (KChar ch, mods_alt)) ` set ''bdfh''
        \<or> m_alt (kmods k) \<or> m_control (kmods k))"

text \<open>The last \<open>match\<close> of \<open>handle\_key\<close>, on the normalised key.\<close>

definition plain_key :: "composer \<Rightarrow> key_event \<Rightarrow> bool \<times> composer" where
  "plain_key c k =
     (case normalize_key k of (code, m) \<Rightarrow>
        if code = KEnter \<and> m = mods_none then (False, c)
        else if code = KBackspace then (True, delete_backward_char c)
        else if code = KDelete then (True, delete_forward_char c)
        else if code = KLeft then (True, move_left c)
        else if code = KRight then (True, move_right c)
        else if code = KUp \<or> (code = KChar (CHR ''p'') \<and> m = mods_control) then (True, move_line_up c)
        else if code = KDown \<or> (code = KChar (CHR ''n'') \<and> m = mods_control) then (True, move_line_down c)
        else if code = KHome \<or> (code = KChar (CHR ''a'') \<and> m = mods_control) then (True, move_to_line_start c)
        else if code = KEnd \<or> (code = KChar (CHR ''e'') \<and> m = mods_control) then (True, move_to_line_end c)
        else if (case code of KChar _ \<Rightarrow> \<not> has_ctrl_or_alt m | _ \<Rightarrow> False)
        then (case text_char_for_key k of
                None \<Rightarrow> (False, c)
              | Some ch \<Rightarrow> (True, insert_str c [ch]))
        else (should_swallow_unmodified_key c k, c))"

definition handle_key :: "composer \<Rightarrow> key_event \<Rightarrow> bool \<times> composer" where
  "handle_key c k =
     (if kkind k = Release then (False, c)
      else if is_insert_newline_key k then (True, insert_str c [nl])
      else if fst (normalize_key k) = KBackspace \<and> ctext c = [] \<and> local_images c \<noteq> []
      then (True, c\<lparr> local_images := butlast (local_images c) \<rparr>)
      else if key_pressed k (KChar (CHR ''u'')) mods_control then (True, delete_to_line_start c)
      else if key_pressed k (KChar (CHR ''w'')) mods_control then (True, delete_backward_word c)
      else if (m_super (kmods k) \<or> m_hyper (kmods k) \<or> m_meta (kmods k)) \<and> kcode k \<in> {KBackspace, KDelete}
      then (True, kill_current_line c)
      else if key_pressed k KBackspace mods_alt then (True, delete_backward_word c)
      else if key_pressed k KLeft mods_alt \<or> key_pressed k (KChar (CHR ''b'')) mods_alt
      then (True, move_backward_word c)
      else if key_pressed k KRight mods_alt \<or> key_pressed k (KChar (CHR ''f'')) mods_alt
      then (True, move_forward_word c)
      else plain_key c k)"


section \<open>Rendering\<close>

text \<open>A line is the list of the texts of its spans.\<close>

type_synonym line = "string list"

definition image_label :: "nat \<Rightarrow> string" where
  "image_label k = ''[Image '' @ show_nat k @ '']''"

definition image_label_width :: "nat \<Rightarrow> nat" where
  "image_label_width k = length (image_label k)"

definition image_spans :: "composer \<Rightarrow> bool \<Rightarrow> line" where
  "image_spans c trailing_space =
     (let n = length (local_images c) in
      concat (map (\<lambda>i. image_label (i + 1) # (if i \<noteq> n - 1 \<or> trailing_space then ['' ''] else [])) [0..<n]))"

definition image_width :: "composer \<Rightarrow> bool \<Rightarrow> nat" where
  "image_width c trailing_space =
     (let n = length (local_images c) in
      sum_list (map (\<lambda>i. image_label_width (i + 1) + (if i + 1 < n \<or> trailing_space then 1 else 0)) [0..<n]))"

definition display_line_count :: "composer \<Rightarrow> nat" where
  "display_line_count c = max (line_count c) 1"

definition empty_text_lines :: "composer \<Rightarrow> line list" where
  "empty_text_lines c =
     (let spans = image_spans c False in if spans = [] then [[''  '']] else [''> '' # spans])"

definition composer_input_lines :: "composer \<Rightarrow> line list" where
  "composer_input_lines c =
     (if ctext c = [] then empty_text_lines c
      else map (\<lambda>(idx, l). (if idx = 0 then ''> '' # image_spans c True else [''  '']) @ [l])
             (enumerate 0 (split_on nl (ctext c))))"

text \<open>\<open>slice::chunks\<close>: pieces of \<open>w\<close> elements, the last one possibly shorter.\<close>

function chunks :: "nat \<Rightarrow> 'a list \<Rightarrow> 'a list list" where
  "chunks w xs = (if xs = [] \<or> w = 0 then [] else take w xs # chunks w (drop w xs))"
  by pat_completeness auto
termination
  by (relation "measure (\<lambda>(w, xs). length xs)") auto

declare chunks.simps [simp del]

definition hard_wrap_line :: "string \<Rightarrow> nat \<Rightarrow> string list" where
  "hard_wrap_line l width = (if l = [] then [[]] else chunks (max width 1) l)"

definition wrapped_line_count :: "string \<Rightarrow> nat \<Rightarrow> nat" where
  "wrapped_line_count l width =
     (if l = [] then 1 else let w = max width 1 in (length l + (w - 1)) div w)"

definition wrapped_cursor_row_col :: "nat \<Rightarrow> nat \<Rightarrow> nat \<times> nat" where
  "wrapped_cursor_row_col col width =
     (let w = max width 1 in if col = 0 then (0, 0) else ((col - 1) div w, (col - 1) mod w + 1))"

definition content_width_of :: "nat \<Rightarrow> nat" where
  "content_width_of width = max (width - 2) 1"

definition wrap_width :: "composer \<Rightarrow> nat \<Rightarrow> nat \<Rightarrow> nat" where
  "wrap_width c content_width idx =
     (if idx = 0 then max (content_width - image_width c (ctext c \<noteq> [])) 1 else content_width)"

definition wrapped_composer_input_lines :: "composer \<Rightarrow> nat \<Rightarrow> line list" where
  "wrapped_composer_input_lines c width =
     (let content_width = content_width_of width in
      if ctext c = [] then empty_text_lines c
      else concat (map (\<lambda>(li, l).
             (let pieces = hard_wrap_line l (wrap_width c content_width li) in
              map (\<lambda>(ci, piece). (if li = 0 \<and> ci = 0 then ''> '' # image_spans c True else [''  '']) @ [piece])
                (enumerate 0 (if pieces = [] then [[]] else pieces))))
           (enumerate 0 (split_on nl (ctext c)))))"

definition total_wrapped_lines :: "composer \<Rightarrow> nat \<Rightarrow> nat" where
  "total_wrapped_lines c content_width =
     (if ctext c = [] then 1
      else max (sum_list (map (\<lambda>(i, l). wrapped_line_count l (wrap_width c content_width i))
                  (enumerate 0 (split_on nl (ctext c))))) 1)"

definition lines_above :: "composer \<Rightarrow> nat \<Rightarrow> nat \<Rightarrow> nat" where
  "lines_above c content_width row =
     sum_list (map (\<lambda>(i, l). wrapped_line_count l (wrap_width c content_width i))
       (enumerate 0 (take row (split_on nl (ctext c)))))"

definition cursor_visual_row_col_wrapped :: "composer \<Rightarrow> nat \<Rightarrow> nat \<times> nat" where
  "cursor_visual_row_col_wrapped c content_width =
     (let iw = image_width c (ctext c \<noteq> []) in
      if ctext c = [] then (0, iw)
      else let (row, col) = cursor_row_col c;
               (lrow, lcol) = wrapped_cursor_row_col col (wrap_width c content_width row)
           in (lines_above c content_width row + lrow, if row = 0 \<and> lrow = 0 then iw + lcol else lcol))"

definition visible_line_start :: "composer \<Rightarrow> nat \<Rightarrow> nat" where
  "visible_line_start c max_lines =
     (if max_lines = 0 then 0
      else let n = display_line_count c in
        if n \<le> max_lines then 0
        else min (fst (cursor_row_col c) - (max_lines - 1)) (n - max_lines))"

definition visible_wrapped_line_start :: "composer \<Rightarrow> nat \<Rightarrow> nat \<Rightarrow> nat" where
  "visible_wrapped_line_start c max_lines width =
     (if max_lines = 0 then 0
      else let cw = content_width_of width; n = total_wrapped_lines c cw in
        if n \<le> max_lines then 0
        else let row = fst (cursor_visual_row_col_wrapped c cw); max_start = n - max_lines;
                 follow = min (row - (max_lines - 1)) max_start
             in case visible_start_hint c of
                  Some h \<Rightarrow> (let start = min h max_start in
                     if start \<le> row \<and> row < start + max_lines then start else follow)
                | None \<Rightarrow> follow)"

definition visible_composer_lines :: "line list \<Rightarrow> nat \<Rightarrow> nat \<Rightarrow> line list" where
  "visible_composer_lines ls start max_lines =
     (if length ls \<le> max_lines then ls else take max_lines (drop (min start (length ls)) ls))"

definition render_lines :: "composer \<Rightarrow> nat \<Rightarrow> string \<Rightarrow> line list" where
  "render_lines c max_lines placeholder =
     (if composer_is_empty c then [[''> '', placeholder]]
      else visible_composer_lines (composer_input_lines c) (visible_line_start c max_lines) max_lines)"

definition render_lines_wrapped :: "composer \<Rightarrow> nat \<Rightarrow> nat \<Rightarrow> string \<Rightarrow> line list" where
  "render_lines_wrapped c max_lines width placeholder =
     (if composer_is_empty c then render_lines c max_lines placeholder
      else visible_composer_lines (wrapped_composer_input_lines c width)
             (visible_wrapped_line_start c max_lines width) max_lines)"

definition visual_line_count_wrapped :: "composer \<Rightarrow> nat \<Rightarrow> nat" where
  "visual_line_count_wrapped c width = total_wrapped_lines c (content_width_of width)"

text \<open>The two \<open>as u16\<close> casts wrap around.\<close>

definition cursor_position_wrapped :: "composer \<Rightarrow> nat \<Rightarrow> nat \<Rightarrow> nat \<times> nat" where
  "cursor_position_wrapped c max_lines width =
     (if composer_is_empty c then (2, 0)
      else let (vrow, vcol) = cursor_visual_row_col_wrapped c (content_width_of width);
               start = visible_wrapped_line_start c max_lines width
           in (min (vcol + 2) (width - 1) mod 65536, (vrow - start) mod 65536))"

definition cursor_is_at_text_boundary :: "composer \<Rightarrow> bool" where
  "cursor_is_at_text_boundary c \<longleftrightarrow> ccursor c = 0 \<or> ccursor c = input_len c"

section \<open>The cursor\<close>

text \<open>The operations the interface performs on the composer.\<close>

datatype composer_op =
  Key key_event | Paste string | SetInput string | AttachImage string | AttachPending nat
| ResolvePending nat string | RemovePending nat | TakeTrimmed | TakeSubmission | Clear

fun composer_step :: "composer \<Rightarrow> composer_op \<Rightarrow> composer" where
  "composer_step c (Key k) = snd (handle_key c k)"
| "composer_step c (Paste s) = snd (insert_paste c s)"
| "composer_step c (SetInput s) = set_input c s"
| "composer_step c (AttachImage p) = attach_image c p"
| "composer_step c (AttachPending i) = attach_pending_image c i"
| "composer_step c (ResolvePending i p) = snd (resolve_pending_image c i p)"
| "composer_step c (RemovePending i) = snd (remove_pending_image c i)"
| "composer_step c TakeTrimmed = snd (take_trimmed c)"
| "composer_step c TakeSubmission = snd (take_submission c)"
| "composer_step c Clear = composer_clear c"

definition cursor_ok :: "composer \<Rightarrow> bool" where
  "cursor_ok c \<longleftrightarrow> ccursor c \<le> length (ctext c)"

named_theorems cursor_rules "operations that keep the cursor inside the text"

lemma fwd_while_le: "i \<le> length t \<Longrightarrow> fwd_while p t i \<le> length t"
proof (induction p t i rule: fwd_while.induct)
  case (1 p t i)
  then show ?case by (subst fwd_while.simps) auto
qed

lemma fwd_while_ge: "i \<le> fwd_while p t i"
proof (induction p t i rule: fwd_while.induct)
  case (1 p t i)
  then show ?case by (subst fwd_while.simps) auto
qed

lemma word_start_le: "word_start t n \<le> n"
  unfolding word_start_def by (meson back_while_le order_trans)

lemma find_row_col_less: "find_row_col r k idx row col s = Some i \<Longrightarrow> i < idx + length s"
  by (induction r k idx row col s rule: find_row_col.induct) (auto split: if_splits)

lemma cursor_for_row_col_le: "cursor_for_row_col c r k \<le> length (ctext c)"
  by (auto simp: cursor_for_row_col_def input_len_def split: option.split dest!: find_row_col_less)

lemma delete_char_range_ok [cursor_rules]: "cursor_ok c \<Longrightarrow> cursor_ok (delete_char_range c a b)"
  by (auto simp: delete_char_range_def cursor_ok_def Let_def)

lemma insert_str_ok [cursor_rules]: "cursor_ok c \<Longrightarrow> cursor_ok (insert_str c v)"
  by (auto simp: insert_str_def cursor_ok_def)

lemma move_to_ok: "k \<le> length (ctext c) \<Longrightarrow> cursor_ok (move_to c k)"
  by (simp add: move_to_def cursor_ok_def)

lemma deletes_ok [cursor_rules]:
  assumes "cursor_ok c"
  shows "cursor_ok (delete_backward_char c)" "cursor_ok (delete_forward_char c)"
    "cursor_ok (delete_backward_word c)" "cursor_ok (delete_to_line_start c)"
    "cursor_ok (kill_current_line c)"
  using assms
  by (simp_all add: delete_backward_char_def delete_forward_char_def delete_backward_word_def
      delete_to_line_start_def kill_current_line_def Let_def delete_char_range_ok)

lemma moves_ok [cursor_rules]:
  assumes "cursor_ok c"
  shows "cursor_ok (move_left c)" "cursor_ok (move_right c)" "cursor_ok (move_backward_word c)"
    "cursor_ok (move_forward_word c)" "cursor_ok (move_to_line_start c)" "cursor_ok (move_to_line_end c)"
    "cursor_ok (move_line_up c)" "cursor_ok (move_line_down c)"
proof -
  show "cursor_ok (move_left c)" "cursor_ok (move_right c)"
    using assms by (auto simp: move_left_def move_right_def cursor_ok_def move_to_def input_len_def)
  show "cursor_ok (move_backward_word c)"
    using assms word_start_le [of "ctext c" "ccursor c"]
    by (auto simp: move_backward_word_def cursor_ok_def move_to_def)
  show "cursor_ok (move_forward_word c)" "cursor_ok (move_to_line_end c)"
    by (auto simp: move_forward_word_def Let_def move_to_line_end_def current_line_end_def
        intro!: move_to_ok fwd_while_le)
  show "cursor_ok (move_to_line_start c)"
    unfolding move_to_line_start_def current_line_start_def
    by (rule move_to_ok) (meson back_while_le min.cobounded2 order_trans)
  show "cursor_ok (move_line_up c)" "cursor_ok (move_line_down c)"
    using assms
    by (auto simp: move_line_up_def move_line_down_def Let_def cursor_ok_def cursor_for_row_col_le
        split: prod.split)
qed

lemma plain_key_ok [cursor_rules]: "cursor_ok c \<Longrightarrow> cursor_ok (snd (plain_key c k))"
  by (auto simp: plain_key_def cursor_rules split: prod.splits option.splits)

lemma handle_key_ok [cursor_rules]: "cursor_ok c \<Longrightarrow> cursor_ok (snd (handle_key c k))"
proof -
  assume c: "cursor_ok c"
  then have "cursor_ok (c\<lparr> local_images := butlast (local_images c) \<rparr>)" by (simp add: cursor_ok_def)
  with c show ?thesis by (simp add: handle_key_def cursor_rules)
qed

lemma composer_step_ok: "cursor_ok c \<Longrightarrow> cursor_ok (composer_step c e)"
proof (cases e)
  case (ResolvePending i p)
  then show "cursor_ok c \<Longrightarrow> ?thesis"
    by (simp add: resolve_pending_image_def cursor_ok_def split: option.split)
qed (auto simp: cursor_rules insert_paste_def set_input_def attach_image_def attach_pending_image_def
      remove_pending_image_def Let_def take_trimmed_def take_submission_def composer_clear_def
      intro: insert_str_ok, simp_all add: cursor_ok_def)

interpretation composer_ops: invariant_machine composer_step cursor_ok "\<lambda>_. True"
  by unfold_locales (simp add: composer_step_ok)


section \<open>Rows and columns\<close>

text \<open>Where the \<open>n\<close>-th position of a text lies: row \<open>r\<close>, column \<open>q\<close>
  of that row. The scan for the cursor ends there, the scan for a cell finds it again, and the
  row has that column.\<close>

abbreviation start_col :: "nat \<Rightarrow> nat \<Rightarrow> nat" where
  "start_col r col \<equiv> (if r = 0 then col else 0)"

definition scans_to :: "string \<Rightarrow> nat \<Rightarrow> nat \<Rightarrow> nat \<Rightarrow> bool" where
  "scans_to s n r q \<longleftrightarrow>
     (\<forall>idx row col. row_col_loop (idx + n) idx row col s = (row + r, start_col r col + q))"

definition found_at :: "string \<Rightarrow> nat \<Rightarrow> nat \<Rightarrow> nat \<Rightarrow> bool" where
  "found_at s n r q \<longleftrightarrow>
     (\<forall>idx row col. (case find_row_col (row + r) (start_col r col + q) idx row col s of
        Some i \<Rightarrow> i | None \<Rightarrow> idx + length s) = idx + n)"

definition cell_of :: "string \<Rightarrow> nat \<Rightarrow> nat \<Rightarrow> nat \<Rightarrow> bool" where
  "cell_of s n r q \<longleftrightarrow> r < length (split_on nl s) \<and> q \<le> length (split_on nl s ! r) \<and> r + q \<le> n \<and>
     (r = 0 \<longrightarrow> q = n) \<and> (if q = 0 then n = 0 \<or> s ! (n - 1) = nl else split_on nl s ! r ! (q - 1) = s ! (n - 1))"

lemma split_on_not_Nil [simp]: "split_on c s \<noteq> []"
  by (cases s) (auto split: list.split)

lemma split_on_eq_Nil [simp]: "(split_on c s = []) = False"
  by simp

lemma at_start: "scans_to s 0 0 0" "found_at s 0 0 0" "cell_of s 0 0 0"
  by (cases s; auto simp: scans_to_def found_at_def cell_of_def split: list.split)+

lemma at_newline:
  "scans_to s n r q \<Longrightarrow> scans_to (nl # s) (Suc n) (Suc r) q"
  "found_at s n r q \<Longrightarrow> found_at (nl # s) (Suc n) (Suc r) q"
  "cell_of s n r q \<Longrightarrow> cell_of (nl # s) (Suc n) (Suc r) q"
proof -
  assume a: "scans_to s n r q"
  show "scans_to (nl # s) (Suc n) (Suc r) q"
    unfolding scans_to_def
    using a [unfolded scans_to_def, rule_format, of "idx + 1" "row + 1" 0 for idx row] by simp
next
  assume a: "found_at s n r q"
  show "found_at (nl # s) (Suc n) (Suc r) q"
    unfolding found_at_def
    using a [unfolded found_at_def, rule_format, of "idx + 1" "row + 1" 0 for idx row]
    by (simp cong: option.case_cong)
next
  show "cell_of s n r q \<Longrightarrow> cell_of (nl # s) (Suc n) (Suc r) q"
    by (cases n) (auto simp: cell_of_def)
qed

lemma at_other:
  assumes "x \<noteq> nl"
  shows "scans_to s n r q \<Longrightarrow> scans_to (x # s) (Suc n) r (if r = 0 then Suc q else q)"
    "found_at s n r q \<Longrightarrow> found_at (x # s) (Suc n) r (if r = 0 then Suc q else q)"
    "cell_of s n r q \<Longrightarrow> cell_of (x # s) (Suc n) r (if r = 0 then Suc q else q)"
proof -
  assume a: "scans_to s n r q"
  show "scans_to (x # s) (Suc n) r (if r = 0 then Suc q else q)"
    unfolding scans_to_def
    using assms a [unfolded scans_to_def, rule_format, of "idx + 1" row "col + 1" for idx row col] by simp
next
  assume a: "found_at s n r q"
  show "found_at (x # s) (Suc n) r (if r = 0 then Suc q else q)"
    unfolding found_at_def
    using assms a [unfolded found_at_def, rule_format, of "idx + 1" row "col + 1" for idx row col]
    by (cases "r = 0") (simp_all cong: option.case_cong)
next
  assume a: "cell_of s n r q"
  obtain y ys where s: "split_on nl s = y # ys" by (cases "split_on nl s") auto
  show "cell_of (x # s) (Suc n) r (if r = 0 then Suc q else q)"
    using assms a s by (cases r; cases q; cases n) (auto simp: cell_of_def nth_Cons')
qed

lemma position_of_index:
  "n \<le> length s \<Longrightarrow> \<exists>r q. scans_to s n r q \<and> found_at s n r q \<and> cell_of s n r q"
proof (induction s arbitrary: n)
  case Nil
  then show ?case using at_start by fastforce
next
  case (Cons x s)
  show ?case
  proof (cases n)
    case 0
    then show ?thesis using at_start by blast
  next
    case (Suc m)
    with Cons obtain r q where "scans_to s m r q" "found_at s m r q" "cell_of s m r q" by fastforce
    note at = this
    show ?thesis
    proof (cases "x = nl")
      case True
      then show ?thesis using at_newline(1) [OF at(1)] at_newline(2) [OF at(2)] at_newline(3) [OF at(3)] Suc
        by blast
    next
      case False
      then show ?thesis using at_other(1) [OF False at(1)] at_other(2) [OF False at(2)] at_other(3) [OF False at(3)] Suc
        by blast
    qed
  qed
qed

lemma cursor_cell:
  assumes "cursor_ok c"
  obtains r q where "cursor_row_col c = (r, q)" "found_at (ctext c) (ccursor c) r q"
    "cell_of (ctext c) (ccursor c) r q"
proof -
  from assms obtain r q where "scans_to (ctext c) (ccursor c) r q"
    "found_at (ctext c) (ccursor c) r q" "cell_of (ctext c) (ccursor c) r q"
    using position_of_index cursor_ok_def by blast
  moreover from this(1) have "cursor_row_col c = (r, q)"
    by (auto simp: scans_to_def cursor_row_col_def dest: spec [of _ 0])
  ultimately show thesis using that by blast
qed

lemma cursor_row_col_inverse:
  assumes "cursor_ok c"
  shows "case cursor_row_col c of (r, q) \<Rightarrow> cursor_for_row_col c r q = ccursor c"
proof -
  obtain r q where rq: "cursor_row_col c = (r, q)" and f: "found_at (ctext c) (ccursor c) r q"
    using assms cursor_cell by blast
  show ?thesis
    using rq f [unfolded found_at_def, rule_format, of 0 0 0]
    by (simp add: cursor_for_row_col_def input_len_def cong: option.case_cong)
qed

section \<open>Wrapping\<close>

lemma length_chunks: "0 < w \<Longrightarrow> length (chunks w xs) = (length xs + (w - 1)) div w"
proof (induction w xs rule: chunks.induct)
  case (1 w xs)
  show ?case
  proof (cases "xs = []")
    case False
    with 1 have "w \<le> length xs + (w - 1)" by (cases xs) auto
    then have "(length xs + (w - 1)) div w = Suc ((length xs + (w - 1) - w) div w)"
      using 1 by (simp add: le_div_geq)
    also have "(length xs + (w - 1) - w) div w = (length xs - w + (w - 1)) div w"
      using 1 by (cases "w \<le> length xs") auto
    finally show ?thesis using 1 False by (subst chunks.simps) simp
  qed (use 1 in \<open>simp add: chunks.simps\<close>)
qed

lemma nth_chunks: "k < length (chunks w xs) \<Longrightarrow> chunks w xs ! k = take w (drop (k * w) xs)"
proof (induction w xs arbitrary: k rule: chunks.induct)
  case (1 w xs)
  then show ?case
    by (subst chunks.simps, subst (asm) (5) chunks.simps)
      (cases k; auto simp: chunks.simps [of _ "[]"] ac_simps split: if_splits)
qed


lemma chunks_not_Nil [simp]: "0 < w \<Longrightarrow> chunks w xs = [] \<longleftrightarrow> xs = []"
  by (auto simp: chunks.simps [of w xs])

lemma length_hard_wrap_line: "length (hard_wrap_line l w) = wrapped_line_count l w"
  by (simp add: hard_wrap_line_def wrapped_line_count_def length_chunks Let_def)

lemma hard_wrap_line_not_Nil [simp]: "hard_wrap_line l w \<noteq> []"
  by (simp add: hard_wrap_line_def)

lemma wrapped_line_count_pos: "0 < wrapped_line_count l w"
  using length_hard_wrap_line [of l w] hard_wrap_line_not_Nil [of l w] by (metis length_greater_0_conv)

lemma wrapped_cell:
  assumes "wrapped_cursor_row_col q w = (k, p)" "q \<le> length l"
  shows "k < wrapped_line_count l w"
    "0 < q \<Longrightarrow> 0 < p \<and> p \<le> length (hard_wrap_line l w ! k) \<and> hard_wrap_line l w ! k ! (p - 1) = l ! (q - 1)"
proof -
  define v where "v = max w 1"
  have v: "0 < v" by (simp add: v_def)
  have kp: "0 < q \<Longrightarrow> k = (q - 1) div v \<and> p = (q - 1) mod v + 1" "q = 0 \<Longrightarrow> k = 0"
    using assms(1) by (auto simp: wrapped_cursor_row_col_def v_def Let_def)
  show k: "k < wrapped_line_count l w"
  proof (cases "q = 0")
    case False
    have "k \<le> (length l - 1) div v" using kp False assms(2) by (simp add: div_le_mono)
    also have "\<dots> < (length l + (v - 1)) div v"
      using False assms(2) v by (subst le_div_geq) auto
    finally show ?thesis using False assms(2) by (auto simp: wrapped_line_count_def v_def Let_def)
  qed (simp add: kp wrapped_line_count_pos)
  assume q: "0 < q"
  with assms(2) have l: "l \<noteq> []" by auto
  then have "hard_wrap_line l w ! k = take v (drop (k * v) l)"
    using k nth_chunks [of k v l] length_hard_wrap_line [of l w] by (simp add: hard_wrap_line_def v_def)
  moreover have "k * v + (p - 1) = q - 1" "p - 1 < v" "0 < p" using kp q v by auto
  moreover from this have "p \<le> length l - k * v" using assms(2) q by linarith
  ultimately show "0 < p \<and> p \<le> length (hard_wrap_line l w ! k) \<and> hard_wrap_line l w ! k ! (p - 1) = l ! (q - 1)"
    by auto
qed

text \<open>The pieces of the wrapped text, one per rendered line.\<close>

definition wrapped_pieces :: "composer \<Rightarrow> nat \<Rightarrow> string list" where
  "wrapped_pieces c cw =
     concat (map (\<lambda>(i, l). hard_wrap_line l (wrap_width c cw i)) (enumerate 0 (split_on nl (ctext c))))"

lemma map_last_enumerate: "map (\<lambda>(i, x). last (f i @ [x])) (enumerate k xs) = xs"
  by (induction xs arbitrary: k) auto

lemma wrapped_lines_pieces:
  "ctext c \<noteq> [] \<Longrightarrow> map last (wrapped_composer_input_lines c width) = wrapped_pieces c (content_width_of width)"
  unfolding wrapped_composer_input_lines_def wrapped_pieces_def
  by (auto simp: Let_def map_concat comp_def case_prod_unfold intro!: arg_cong [of _ _ concat]
      map_cong map_last_enumerate [unfolded case_prod_unfold])

lemma length_wrapped_pieces:
  "length (wrapped_pieces c cw) =
     sum_list (map (\<lambda>(i, l). wrapped_line_count l (wrap_width c cw i)) (enumerate 0 (split_on nl (ctext c))))"
  by (simp add: wrapped_pieces_def length_concat comp_def case_prod_unfold length_hard_wrap_line)


lemma pieces_nth:
  assumes "r < length (split_on nl (ctext c))"
    "k < wrapped_line_count (split_on nl (ctext c) ! r) (wrap_width c cw r)"
  shows "lines_above c cw r + k < length (wrapped_pieces c cw)"
    "wrapped_pieces c cw ! (lines_above c cw r + k) = hard_wrap_line (split_on nl (ctext c) ! r) (wrap_width c cw r) ! k"
proof -
  let ?ls = "split_on nl (ctext c)"
  let ?h = "\<lambda>(i, l). hard_wrap_line l (wrap_width c cw i)"
  define A where "A = concat (map ?h (enumerate 0 (take r ?ls)))"
  define B where "B = hard_wrap_line (?ls ! r) (wrap_width c cw r)"
  define C where "C = concat (map ?h (enumerate (Suc r) (drop (Suc r) ?ls)))"
  have "?ls = take r ?ls @ ?ls ! r # drop (Suc r) ?ls"
    using assms(1) by (rule id_take_nth_drop)
  then have "enumerate 0 ?ls = enumerate 0 (take r ?ls) @ (r, ?ls ! r) # enumerate (Suc r) (drop (Suc r) ?ls)"
    using assms(1) by (metis add_0 enumerate_append_eq enumerate_simps(2) length_take less_imp_le_nat min.absorb2)
  then have pieces: "wrapped_pieces c cw = A @ B @ C"
    by (simp add: wrapped_pieces_def A_def B_def C_def)
  have "length A = lines_above c cw r"
    by (simp add: A_def lines_above_def length_concat comp_def case_prod_unfold length_hard_wrap_line)
  moreover have "k < length B" using assms(2) by (simp add: B_def length_hard_wrap_line)
  ultimately show "lines_above c cw r + k < length (wrapped_pieces c cw)" "wrapped_pieces c cw ! (lines_above c cw r + k) = B ! k"
    by (simp_all add: pieces nth_append)
qed

lemma wrapped_pieces_total: "ctext c \<noteq> [] \<Longrightarrow> total_wrapped_lines c cw = length (wrapped_pieces c cw)"
proof -
  have "0 < length (wrapped_pieces c cw)"
    using pieces_nth(1) [of 0 c 0 cw] wrapped_line_count_pos by (metis gr_zeroI length_0_conv less_nat_zero_code split_on_not_Nil)
  then show "ctext c \<noteq> [] \<Longrightarrow> ?thesis" by (simp add: total_wrapped_lines_def length_wrapped_pieces)
qed

lemma wrapped_lines_count:
  "length (wrapped_composer_input_lines c width) = visual_line_count_wrapped c width"
proof (cases "ctext c = []")
  case True
  then show ?thesis
    by (simp add: wrapped_composer_input_lines_def empty_text_lines_def visual_line_count_wrapped_def
        total_wrapped_lines_def Let_def)
next
  case False
  then show ?thesis
    using wrapped_lines_pieces [OF False, of width] wrapped_pieces_total [OF False]
    by (metis length_map visual_line_count_wrapped_def)
qed

text \<open>The cursor lies on a wrapped line; when it follows a character other than a line break,
  that character is the one left of it there.\<close>

lemma lines_above_0 [simp]: "lines_above c cw 0 = 0"
  by (simp add: lines_above_def)

lemma lines_above_pos: "0 < r \<Longrightarrow> 0 < lines_above c cw r"
proof -
  assume r: "0 < r"
  obtain y ys where "split_on nl (ctext c) = y # ys" by (cases "split_on nl (ctext c)") auto
  with r wrapped_line_count_pos [of y "wrap_width c cw 0"] show ?thesis
    by (cases r) (auto simp: lines_above_def)
qed

lemma cursor_on_piece:
  assumes ok: "cursor_ok c" and t: "ctext c \<noteq> []" and v: "cursor_visual_row_col_wrapped c cw = (vrow, vcol)"
  defines "indent \<equiv> if vrow = 0 then image_width c True else 0"
  shows "vrow < length (wrapped_pieces c cw)"
    "0 < ccursor c \<Longrightarrow> ctext c ! (ccursor c - 1) \<noteq> nl \<Longrightarrow>
       indent < vcol \<and> vcol - indent \<le> length (wrapped_pieces c cw ! vrow) \<and>
       wrapped_pieces c cw ! vrow ! (vcol - indent - 1) = ctext c ! (ccursor c - 1)"
proof -
  obtain r q where rq: "cursor_row_col c = (r, q)" and cell: "cell_of (ctext c) (ccursor c) r q"
    using ok cursor_cell by blast
  obtain k p where kp: "wrapped_cursor_row_col q (wrap_width c cw r) = (k, p)" by fastforce
  have vr: "vrow = lines_above c cw r + k"
    and vc: "vcol = (if r = 0 \<and> k = 0 then image_width c True + p else p)"
    using v t rq kp by (auto simp: cursor_visual_row_col_wrapped_def Let_def)
  have row0: "vrow = 0 \<longleftrightarrow> r = 0 \<and> k = 0"
    using lines_above_pos [of r c cw] vr by (cases "r = 0") auto
  have r: "r < length (split_on nl (ctext c))" and q: "q \<le> length (split_on nl (ctext c) ! r)"
    using cell by (auto simp: cell_of_def)
  note piece = pieces_nth [OF r wrapped_cell(1) [OF kp q], folded vr]
  show "vrow < length (wrapped_pieces c cw)" by (fact piece(1))
  assume "0 < ccursor c" "ctext c ! (ccursor c - 1) \<noteq> nl"
  then have "0 < q" "split_on nl (ctext c) ! r ! (q - 1) = ctext c ! (ccursor c - 1)"
    using cell by (auto simp: cell_of_def split: if_splits)
  with wrapped_cell(2) [OF kp q] piece(2) vc row0
  show "indent < vcol \<and> vcol - indent \<le> length (wrapped_pieces c cw ! vrow) \<and>
       wrapped_pieces c cw ! vrow ! (vcol - indent - 1) = ctext c ! (ccursor c - 1)"
    by (auto simp: indent_def)
qed

lemma start_follows_cursor:
  fixes width :: nat
  assumes "0 < max_lines" "fst (cursor_visual_row_col_wrapped c (content_width_of width)) < total_wrapped_lines c (content_width_of width)"
  defines "row \<equiv> fst (cursor_visual_row_col_wrapped c (content_width_of width))"
    and "start \<equiv> visible_wrapped_line_start c max_lines width"
  shows "start \<le> row" "row < start + max_lines" "start + max_lines \<le> max max_lines (total_wrapped_lines c (content_width_of width))"
  using assms by (auto simp: visible_wrapped_line_start_def Let_def split: option.splits if_splits)


lemma window_shows_cursor:
  fixes width :: nat and placeholder :: string
  assumes ok: "cursor_ok c" and "0 < max_lines" "max_lines \<le> 65536"
  defines "shown \<equiv> render_lines_wrapped c max_lines width placeholder"
    and "y \<equiv> snd (cursor_position_wrapped c max_lines width)"
    and "v \<equiv> cursor_visual_row_col_wrapped c (content_width_of width)"
    and "indent \<equiv> if fst (cursor_visual_row_col_wrapped c (content_width_of width)) = 0 then image_width c True else 0"
  shows "y < max_lines \<and> y < length shown \<and>
            (0 < ccursor c \<and> ctext c ! (ccursor c - 1) \<noteq> nl \<longrightarrow>
               indent < snd v \<and> snd v - indent \<le> length (last (shown ! y)) \<and>
               last (shown ! y) ! (snd v - indent - 1) = ctext c ! (ccursor c - 1))"
proof (cases "ctext c = []")
  case True
  then have "fst v = 0" "ccursor c = 0" using ok by (auto simp: v_def cursor_visual_row_col_wrapped_def Let_def cursor_ok_def)
  moreover have "0 < length shown" using True assms(2)
    by (simp add: shown_def render_lines_wrapped_def render_lines_def visible_composer_lines_def
        wrapped_composer_input_lines_def empty_text_lines_def Let_def)
  moreover have "y = 0" using True assms(2)
    by (simp add: y_def cursor_position_wrapped_def cursor_visual_row_col_wrapped_def Let_def case_prod_unfold)
  ultimately show ?thesis using assms(2) by simp
next
  case False
  let ?ls = "wrapped_composer_input_lines c width" and ?cw = "content_width_of width"
  let ?start = "visible_wrapped_line_start c max_lines width"
  have len: "length ?ls = total_wrapped_lines c ?cw"
    using wrapped_lines_count by (simp add: visual_line_count_wrapped_def)
  have row: "fst v < length ?ls"
    using cursor_on_piece(1) [OF ok False] wrapped_pieces_total [OF False] len
    by (metis prod.collapse v_def)
  then have s: "?start \<le> fst v" "fst v < ?start + max_lines" "?start + max_lines \<le> max max_lines (length ?ls)"
    using start_follows_cursor [OF assms(2), of c width] len by (simp_all add: v_def)
  have y: "y = fst v - ?start"
    using s(2) assms(3) False
    by (simp add: y_def cursor_position_wrapped_def composer_is_empty_def v_def case_prod_unfold Let_def)
  have shown: "shown = visible_composer_lines ?ls ?start max_lines"
    using False by (simp add: shown_def render_lines_wrapped_def composer_is_empty_def)
  have at: "y < length shown" "shown ! y = ?ls ! fst v"
    using row s y by (auto simp: shown visible_composer_lines_def)
  have "last (shown ! y) = wrapped_pieces c ?cw ! fst v"
    using at(2) row wrapped_lines_pieces [OF False, of width] by (metis nth_map)
  moreover have "y < max_lines" using y s(1,2) assms(2) by linarith
  ultimately show ?thesis
    using at(1) y cursor_on_piece(2) [OF ok False, of ?cw "fst v" "snd v"]
    by (auto simp: indent_def v_def)
qed

section \<open>Editing facts\<close>

lemma back_while_stop: "(\<forall>i. k \<le> i \<and> i < n \<longrightarrow> p (t ! i)) \<Longrightarrow> k \<le> n \<Longrightarrow> k = 0 \<or> \<not> p (t ! (k - 1)) \<Longrightarrow> back_while p t n = k"
proof (induction n)
  case (Suc n)
  show ?case
  proof (cases "k = Suc n")
    case True
    with Suc.prems show ?thesis by simp
  next
    case False
    with Suc show ?thesis by simp
  qed
qed simp

lemma fwd_while_stop: "(\<forall>i. n \<le> i \<and> i < k \<longrightarrow> p (t ! i)) \<Longrightarrow> n \<le> k \<Longrightarrow> k \<le> length t \<Longrightarrow> k = length t \<or> \<not> p (t ! k) \<Longrightarrow> fwd_while p t n = k"
proof (induction p t n rule: fwd_while.induct)
  case (1 p t n)
  show ?case
  proof (cases "n = k")
    case True
    with 1 show ?thesis by (subst fwd_while.simps) auto
  next
    case False
    with 1 show ?thesis by (subst fwd_while.simps) auto
  qed
qed

lemma length_split_on: "length (split_on c s) = Suc (length (filter (\<lambda>x. x = c) s))"
  by (induction s) (auto split: list.split)

text \<open>Killing the current line of \<open>a\<close>, line feed, \<open>l\<close>, line feed,
  \<open>b\<close> with the cursor in \<open>l\<close> leaves \<open>a\<close> directly followed by
  \<open>b\<close>: both line breaks go, so the lines around the killed one are joined.\<close>

lemma kill_line_joins_neighbours:
  assumes "nl \<notin> set l" "length a + 1 \<le> ccursor c" "ccursor c \<le> length a + 1 + length l"
    "ctext c = a @ [nl] @ l @ [nl] @ b"
  shows "ctext (kill_current_line c) = a @ b"
proof -
  have cur: "min (ccursor c) (length (ctext c)) = ccursor c" using assms(3,4) by simp
  have mid: "ctext c ! i \<noteq> nl" if "length a + 1 \<le> i" "i < length a + 1 + length l" for i
  proof -
    have "ctext c ! i = l ! (i - (length a + 1))"
      using that by (auto simp: assms(4) nth_append nth_Cons')
    moreover have "i - (length a + 1) < length l" using that by simp
    ultimately show ?thesis using assms(1) by (metis nth_mem)
  qed
  have start: "current_line_start c = length a + 1"
    unfolding current_line_start_def cur
    by (rule back_while_stop) (use mid assms in \<open>auto simp: nth_append\<close>)
  have stop: "current_line_end c = length a + 1 + length l"
    unfolding current_line_end_def cur
    by (rule fwd_while_stop) (use mid assms in \<open>auto simp: nth_append\<close>)
  show ?thesis
    by (simp add: kill_current_line_def Let_def start stop line_count_def length_split_on input_len_def
        delete_char_range_def assms(4))
qed

text \<open>A backspace takes back the character just typed.\<close>

lemma typing_then_backspace:
  assumes "cursor_ok c"
  shows "ctext (delete_backward_char (insert_str c [ch])) = ctext c" "ccursor (delete_backward_char (insert_str c [ch])) = ccursor c"
  using assms by (auto simp: cursor_ok_def delete_backward_char_def insert_str_def delete_char_range_def)

section \<open>Properties\<close>

text \<open>C40. Whatever keys, pastes, image events and submissions the composer receives, its cursor
  stays a position of its text.\<close>

theorem composer_cursor_in_text:
  "ccursor (foldl composer_step composer_default ops) \<le> length (ctext (foldl composer_step composer_default ops))"
  using composer_ops.run_keeps [of composer_default ops]
  by (simp add: cursor_ok_def composer_default_def)

text \<open>The cursor is always on screen: in a window of at least one row (and at most a
  \<open>u16\<close> of them) the reported cursor row is a rendered row of the window, it shows the
  wrapped line the cursor is on, and when the cursor follows a character other than a line
  break, that character is on that row immediately left of the cursor's column (after the
  image labels when it is the first row).\<close>

lemma cursor_always_visible:
  assumes "0 < max_lines" "max_lines \<le> 65536"
  shows "let c = foldl composer_step composer_default ops;
             shown = render_lines_wrapped c max_lines width placeholder;
             y = snd (cursor_position_wrapped c max_lines width);
             (vrow, vcol) = cursor_visual_row_col_wrapped c (content_width_of width);
             indent = (if vrow = 0 then image_width c True else 0)
         in y < max_lines \<and> y < length shown \<and>
            (0 < ccursor c \<and> ctext c ! (ccursor c - 1) \<noteq> nl \<longrightarrow>
               indent < vcol \<and> vcol - indent \<le> length (last (shown ! y)) \<and>
               last (shown ! y) ! (vcol - indent - 1) = ctext c ! (ccursor c - 1))"
proof -
  define c where "c = foldl composer_step composer_default ops"
  have ok: "cursor_ok c"
    using composer_ops.run_keeps [of composer_default ops]
    by (simp add: c_def cursor_ok_def composer_default_def)
  from window_shows_cursor [OF ok assms] show ?thesis
    unfolding c_def Let_def by (simp add: case_prod_unfold)
qed

lemma cursor_always_visible_witness:
  "snd (cursor_position_wrapped (foldl composer_step composer_default [Paste ''abcdef'', AttachImage ''p'']) 2 4) < 2"
  using cursor_always_visible [of 2 "[Paste ''abcdef'', AttachImage ''p'']" 4 "[]"]
  by (simp add: Let_def case_prod_unfold)

end
