(* ===== verification/Projection.thy ===== *)
theory Projection
  imports Events
begin

text \<open>
  The projections of the event log the interfaces display
  (\<open>crates/browser-use-protocol/src/lib.rs\<close>): the task, the transcript cut into turns, the
  result and failure texts, the streamed text, the browser summary, the activity lines, the
  sanitised context of a sub-agent and the workbench.
\<close>

section \<open>Task, warnings and instruction sources\<close>

definition task_from_events :: "event_record list \<Rightarrow> string option" where
  "task_from_events es =
     find_map (\<lambda>e. if ev_type e = ''session.input'' then trimmed_nonempty (pstr e ''text'') else None) es"

definition startup_warnings_from_events :: "event_record list \<Rightarrow> string list" where
  "startup_warnings_from_events es =
     List.map_filter (\<lambda>e. trimmed_nonempty (pstr e ''message''))
       (filter (\<lambda>e. ev_type e = ''session.startup_warning'') es)"

definition is_instruction_event :: "event_record \<Rightarrow> bool" where
  "is_instruction_event e \<longleftrightarrow>
     (ev_type e = ''session.instruction_sources'' \<or> ev_type e = ''workspace.context'') \<and>
     \<not> (ev_type e = ''workspace.context'' \<and> pstr e ''kind'' \<noteq> Some ''agents_md'')"

definition push_source :: "string list \<Rightarrow> json \<Rightarrow> string list" where
  "push_source sources item =
     (case trimmed_nonempty (as_str item) of
        None \<Rightarrow> sources
      | Some s \<Rightarrow> if s \<in> set sources then sources else sources @ [s])"

definition instruction_sources_from_events :: "event_record list \<Rightarrow> string list" where
  "instruction_sources_from_events es =
     foldl (\<lambda>sources e.
       if is_instruction_event e
       then (case get_array (ev_payload e) ''sources'' of
               None \<Rightarrow> sources
             | Some items \<Rightarrow> foldl push_source sources items)
       else sources) [] es"

section \<open>Follow-ups\<close>

definition followup_delivery_is_after_next_tool_call :: "event_record \<Rightarrow> bool" where
  "followup_delivery_is_after_next_tool_call e \<longleftrightarrow> pstr e ''delivery'' = Some ''after_next_tool_call''"

definition followup_marker_seqs :: "event_record \<Rightarrow> int list" where
  "followup_marker_seqs e =
     (case Option.bind (or_else (json_get (ev_payload e) ''followup_seq'') (json_get (ev_payload e) ''seq'')) as_i64 of
        Some s \<Rightarrow> [s]
      | None \<Rightarrow> (case get_array (ev_payload e) ''followup_seqs'' of
                   Some xs \<Rightarrow> List.map_filter as_i64 xs
                 | None \<Rightarrow> []))"

definition event_closes_after_next_tool_call_followup :: "event_record \<Rightarrow> int \<Rightarrow> bool" where
  "event_closes_after_next_tool_call_followup e fseq =
     (if ev_seq e \<le> fseq then False
      else if ev_type e = ''agent.turn_queue_drained''
      then 0 < unwrap_or 0 (get_u64 (ev_payload e) ''session_messages'')
           \<and> fseq \<le> unwrap_or 0 (get_i64 (ev_payload e) ''last_seq'')
      else if ev_type e = ''session.followup.interrupt_sent'' \<or> ev_type e = ''session.followup.cancelled''
      then fseq \<in> set (followup_marker_seqs e)
      else False)"

definition pending_after_next_tool_call_followup :: "event_record list \<Rightarrow> event_record \<Rightarrow> bool" where
  "pending_after_next_tool_call_followup es f =
     (if \<not> (ev_type f = ''session.followup'' \<or> ev_type f = ''session.followup.pending'') then False
      else if \<not> followup_delivery_is_after_next_tool_call f then False
      else \<not> list_ex (\<lambda>e. event_closes_after_next_tool_call_followup e (ev_seq f)) es)"

definition after_next_tool_call_followup_is_cancelled :: "event_record list \<Rightarrow> int \<Rightarrow> bool" where
  "after_next_tool_call_followup_is_cancelled es fseq =
     list_ex (\<lambda>e. fseq < ev_seq e \<and> ev_type e = ''session.followup.cancelled''
        \<and> fseq \<in> set (followup_marker_seqs e)) es"

section \<open>Result and failure\<close>

text \<open>The loop removes the longest block of at least 24 characters that is repeated at the
  end, and trims, until there is none.\<close>

definition repeated_len :: "string \<Rightarrow> nat option" where
  "repeated_len s =
     (let len = length s in
      find (\<lambda>k. take k (drop (len - 2 * k) s) = drop (len - k) s) (rev [24..<Suc (len div 2)]))"

lemma repeated_len_bounds: "repeated_len s = Some k \<Longrightarrow> 24 \<le> k \<and> 2 * k \<le> length s"
  unfolding repeated_len_def Let_def by (drule find_Some_D) auto

lemma length_trim_end: "length (trim_end s) \<le> length s"
  by (metis length_dropWhile_le length_rev trim_end_def)

function dedupe_tail :: "string \<Rightarrow> string" where
  "dedupe_tail s =
     (case repeated_len s of
        None \<Rightarrow> s
      | Some k \<Rightarrow> dedupe_tail (trim_end (take (length s - k) s)))"
  by pat_completeness auto
termination
proof (relation "measure length")
  fix s k assume "repeated_len s = Some k"
  then show "(trim_end (take (length s - k) s), s) \<in> measure length"
    using repeated_len_bounds [of s k] length_trim_end [of "take (length s - k) s"]
    by (auto simp: order.strict_trans1)
qed simp

declare dedupe_tail.simps [simp del]

definition normalize_result_text :: "string \<Rightarrow> string" where
  "normalize_result_text text = dedupe_tail (trim_end text)"

abbreviation nl2 :: string where "nl2 \<equiv> [CHR 0x0A, CHR 0x0A]"

definition session_done_result_text :: "json \<Rightarrow> string option" where
  "session_done_result_text p =
     (if json_get p ''result_file'' \<noteq> None
      then let file = unwrap_or ''<unknown>'' (or_else (get_str p ''result_file_url'')
                        (or_else (get_str p ''result_file_path'') (get_str p ''result_file'')));
               directory = or_else (get_str p ''result_file_directory_url'') (get_str p ''result_file_directory'');
               bytes = get_u64 p ''result_file_bytes''
           in Some (''Saved result file.'' @ nl2 @ ''File:'' @ [CHR 0x0A] @ file
                @ (case directory of Some d \<Rightarrow> nl2 @ ''Directory:'' @ [CHR 0x0A] @ d | None \<Rightarrow> [])
                @ (case bytes of Some b \<Rightarrow> nl2 @ ''Size: '' @ show_int b @ '' bytes'' | None \<Rightarrow> []))
      else map_option normalize_result_text (get_str p ''result''))"

definition session_result_from_events :: "event_record list \<Rightarrow> string option" where
  "session_result_from_events es =
     find_map (\<lambda>e. if ev_type e = ''session.done'' then session_done_result_text (ev_payload e) else None) (rev es)"

definition nested_str :: "json \<Rightarrow> string \<Rightarrow> string option" where
  "nested_str p k = Option.bind (json_get p ''payload'') (\<lambda>q. get_str q k)"

definition result_from_events :: "event_record list \<Rightarrow> string option" where
  "result_from_events es =
     or_else (session_result_from_events es)
       (find_map (\<lambda>e. if ev_type e = ''agent.completed''
          then map_option normalize_result_text (trimmed_nonempty (nested_str (ev_payload e) ''result''))
          else None) (rev es))"

definition failure_from_events :: "event_record list \<Rightarrow> string option" where
  "failure_from_events es =
     find_map (\<lambda>e. if ev_type e = ''session.failed'' then pstr e ''error'' else None) (rev es)"

definition helper_failure_from_events :: "event_record list \<Rightarrow> string option" where
  "helper_failure_from_events es =
     find_map (\<lambda>e.
       if ev_type e = ''agent.failed'' then trimmed_nonempty (nested_str (ev_payload e) ''error'')
       else if ev_type e = ''agent.cancelled'' then trimmed_nonempty (nested_str (ev_payload e) ''reason'')
       else None) (rev es)"

definition turn_failure_from_events :: "event_record list \<Rightarrow> string option" where
  "turn_failure_from_events es = or_else (failure_from_events es) (helper_failure_from_events es)"

definition turn_result_from_events :: "event_record list \<Rightarrow> string option" where
  "turn_result_from_events es = result_from_events es"

section \<open>Streamed text\<close>

definition append_streaming_text_delta :: "string \<Rightarrow> string \<Rightarrow> string" where
  "append_streaming_text_delta current incoming =
     (if incoming = [] then current
      else if current = [] then incoming
      else if incoming = current \<or> str_trim incoming = str_trim current then current
      else case strip_pre current incoming of
             Some rest \<Rightarrow> current @ rest
           | None \<Rightarrow> if 24 \<le> length incoming \<and> ends_with incoming current then current
                     else current @ incoming)"

definition resets_stream :: "event_record \<Rightarrow> bool" where
  "resets_stream e \<longleftrightarrow> ev_type e \<in> {''model.turn.request'', ''model.turn.retry'', ''model.turn.error''}"

definition delta_step :: "string \<Rightarrow> string \<Rightarrow> event_record \<Rightarrow> string" where
  "delta_step kind text e =
     (if resets_stream e then []
      else if ev_type e = kind
      then (case Option.bind (or_else (json_get (ev_payload e) ''text'') (json_get (ev_payload e) ''delta'')) as_str of
              Some incoming \<Rightarrow> append_streaming_text_delta text incoming
            | None \<Rightarrow> text)
      else text)"

definition nonblank :: "string \<Rightarrow> string option" where
  "nonblank text = (if str_trim text = [] then None else Some text)"

definition turn_streaming_text_from_events :: "event_record list \<Rightarrow> string option" where
  "turn_streaming_text_from_events es = nonblank (foldl (delta_step ''model.stream_delta'') [] es)"

definition turn_thinking_text_from_events :: "event_record list \<Rightarrow> string option" where
  "turn_thinking_text_from_events es = nonblank (foldl (delta_step ''model.thinking_delta'') [] es)"

section \<open>Browser summary\<close>

definition sanitize_terminal_text :: "string \<Rightarrow> string" where
  "sanitize_terminal_text v = filter (\<lambda>c. \<not> is_control_char c) v"

record browser_summary =
  bs_backend :: string
  bs_status :: string
  bs_title :: "string option"
  bs_url :: "string option"
  bs_live_url :: "string option"
  bs_tabs :: "int option"
  bs_viewport :: "string option"

definition browser_backend_supports_live_url :: "string \<Rightarrow> bool" where
  "browser_backend_supports_live_url backend =
     (let b = str_lower backend in
      str_contains ''cloud'' b \<or> str_contains ''managed'' b \<or> str_contains ''headless chromium'' b
      \<or> str_contains ''managed chromium'' b)"

definition viewport_label_from_payload :: "json \<Rightarrow> string option" where
  "viewport_label_from_payload p =
     (case get_str p ''viewport'' of
        Some label \<Rightarrow> if str_trim label = [] then None else Some (str_trim label)
      | None \<Rightarrow>
          let v = unwrap_or p (json_get p ''viewport'') in
          (case Option.bind (or_else (json_get v ''w'') (json_get v ''width'')) as_i64 of
             None \<Rightarrow> None
           | Some w \<Rightarrow>
               (case Option.bind (or_else (json_get v ''h'') (json_get v ''height'')) as_i64 of
                  None \<Rightarrow> None
                | Some h \<Rightarrow> Some (show_int w @ '' x '' @ show_int h))))"

definition set_url_title :: "json \<Rightarrow> browser_summary \<Rightarrow> browser_summary" where
  "set_url_title p s =
     (let s1 = (case get_str p ''url'' of Some u \<Rightarrow> s\<lparr> bs_url := Some (sanitize_terminal_text u) \<rparr> | None \<Rightarrow> s)
      in case get_str p ''title'' of Some t \<Rightarrow> s1\<lparr> bs_title := Some (sanitize_terminal_text t) \<rparr> | None \<Rightarrow> s1)"

definition browser_connected_step :: "json \<Rightarrow> browser_summary \<Rightarrow> browser_summary" where
  "browser_connected_step p s =
     (let s1 = s\<lparr> bs_status := ''connected'' \<rparr>;
          s2 = (if json_get p ''live_url'' \<noteq> None
                then s1\<lparr> bs_live_url := map_option sanitize_terminal_text
                       (opt_filter (\<lambda>v. str_trim v \<noteq> []) (get_str p ''live_url'')) \<rparr>
                else s1)
      in set_url_title p s2)"

definition browser_page_step :: "json \<Rightarrow> browser_summary \<Rightarrow> browser_summary" where
  "browser_page_step p s =
     (let s1 = (case get_str p ''status'' of Some st \<Rightarrow> s\<lparr> bs_status := st \<rparr> | None \<Rightarrow> s);
          s2 = (if get_str p ''url'' \<noteq> None then s1\<lparr> bs_status := ''connected'' \<rparr> else s1);
          s3 = set_url_title p s2;
          s4 = (case Option.bind (or_else (json_get p ''tabs'') (json_get p ''tab_count'')) as_i64 of
                  Some n \<Rightarrow> s3\<lparr> bs_tabs := Some n \<rparr> | None \<Rightarrow> s3)
      in case viewport_label_from_payload p of
           Some v \<Rightarrow> s4\<lparr> bs_viewport := Some v \<rparr> | None \<Rightarrow> s4)"

definition browser_step :: "browser_summary \<Rightarrow> event_record \<Rightarrow> browser_summary" where
  "browser_step s e =
     (let t = ev_type e; p = ev_payload e in
      if t = ''browser.connected'' \<or> t = ''browser.reconnected'' \<or> t = ''browser.target_changed''
      then browser_connected_step p s
      else if t = ''browser.disconnected'' then s\<lparr> bs_status := ''disconnected'', bs_live_url := None \<rparr>
      else if t = ''browser.backend_changed''
      then s\<lparr> bs_status := ''not connected'', bs_title := None, bs_url := None, bs_live_url := None,
              bs_tabs := None, bs_viewport := None \<rparr>
      else if t = ''browser.live_url''
      then s\<lparr> bs_status := ''connected'',
              bs_live_url := map_option sanitize_terminal_text
                (Option.bind (or_else (json_get p ''live_url'') (json_get p ''url'')) as_str) \<rparr>
      else if t = ''browser.page'' \<or> t = ''browser.state'' then browser_page_step p s
      else s)"

definition browser_summary_from_events :: "event_record list \<Rightarrow> string \<Rightarrow> browser_summary" where
  "browser_summary_from_events es backend =
     (let s = foldl browser_step
                \<lparr> bs_backend = backend, bs_status = ''not connected'', bs_title = None, bs_url = None,
                  bs_live_url = None, bs_tabs = None, bs_viewport = None \<rparr> es
      in if browser_backend_supports_live_url (bs_backend s) then s else s\<lparr> bs_live_url := None \<rparr>)"


section \<open>Activity\<close>

definition push_activity :: "string list \<Rightarrow> string \<Rightarrow> string list" where
  "push_activity activity item =
     (if activity \<noteq> [] \<and> last activity = item then activity else activity @ [item])"

definition has_later_event :: "event_record list \<Rightarrow> nat \<Rightarrow> string \<Rightarrow> string \<Rightarrow> bool" where
  "has_later_event es idx session ty =
     list_ex (\<lambda>e. ev_session e = session \<and> ev_type e = ty) (drop (idx + 1) es)"

definition is_replay_materialization_event :: "event_record \<Rightarrow> bool" where
  "is_replay_materialization_event e =
     unwrap_or False (Option.bind
       (or_else (json_get (ev_payload e) ''materialized_from_replay'')
          (Option.bind (Option.bind (json_get (ev_payload e) ''payload'') as_object)
             (\<lambda>q. json_get q ''materialized_from_replay''))) as_bool)"

definition model_turn_retry_activity :: "json \<Rightarrow> string" where
  "model_turn_retry_activity p =
     (case (get_u64 p ''attempt'', get_u64 p ''max_retries'') of
        (Some a, Some m) \<Rightarrow> ''thinking retrying model request '' @ show_int a @ ''/'' @ show_int m
      | _ \<Rightarrow> ''thinking retrying model request'')"

definition model_turn_error_activity :: "json \<Rightarrow> string" where
  "model_turn_error_activity p =
     (if unwrap_or False (get_bool p ''transient'')
      then ''thinking model request hit a transient error'' else ''thinking model request failed'')"

definition compact_path :: "string \<Rightarrow> string" where
  "compact_path path =
     (let t = str_trim path in
      unwrap_or t (opt_filter (\<lambda>tail. tail \<noteq> []) (map_option snd (rsplit_once_on (CHR ''/'') t))))"

definition truncate_activity :: "string \<Rightarrow> nat \<Rightarrow> string" where
  "truncate_activity v n = (if length v \<le> n then v else take (n - 3) v @ ''...'')"

definition compact_url :: "string \<Rightarrow> string" where
  "compact_url url =
     trim_end_matches (CHR ''/'')
       (unwrap_or (str_trim url)
         (or_else (strip_pre ''https://'' (str_trim url)) (strip_pre ''http://'' (str_trim url))))"

definition short_agent_path :: "string \<Rightarrow> string" where
  "short_agent_path path =
     unwrap_or path
       (opt_filter (\<lambda>seg. seg \<noteq> [] \<and> seg \<noteq> ''root'')
         (Some (last (split_on (CHR ''/'') (trim_matches (CHR ''/'') (str_trim path))))))"

definition agent_started_text :: "json \<Rightarrow> string" where
  "agent_started_text p =
     ''subagent '' @ unwrap_or ''subagent'' (or_else (get_str p ''nickname'') (get_str p ''role'')) @ '' started''"

definition agent_message_text :: "json \<Rightarrow> string" where
  "agent_message_text p =
     (let label = unwrap_or ''subagent''
            (map_option short_agent_path (or_else (get_str p ''recipient_path'') (get_str p ''agent_path'')))
      in if unwrap_or False (get_bool p ''trigger_turn'') then ''subagent '' @ label @ '' sent task''
         else ''subagent '' @ label @ '' messaged'')"

definition wait_targets_label :: "json list \<Rightarrow> string" where
  "wait_targets_label targets =
     (case targets of
        [t] \<Rightarrow> unwrap_or ''subagent''
                 (map_option short_agent_path (or_else (get_str t ''nickname'') (get_str t ''task_name'')))
      | _ \<Rightarrow> show_nat (length targets) @ '' subagents'')"

definition agent_wait_started_text :: "json \<Rightarrow> string" where
  "agent_wait_started_text p =
     ''subagent waiting on '' @
       unwrap_or ''subagents''
         (or_else (map_option short_agent_path (get_str p ''target''))
            (map_option wait_targets_label (get_array p ''targets'')))"

definition collab_agent_label :: "json \<Rightarrow> string \<Rightarrow> string \<Rightarrow> string \<Rightarrow> string" where
  "collab_agent_label p nickname_key role_key thread_id_key =
     unwrap_or ''subagent'' (map_option short_agent_path
       (or_else (get_str p nickname_key) (or_else (get_str p role_key) (get_str p thread_id_key))))"

definition collab_agent_spawn_text :: "json \<Rightarrow> string" where
  "collab_agent_spawn_text p =
     ''subagent '' @ collab_agent_label p ''new_agent_nickname'' ''new_agent_role'' ''new_thread_id'' @ '' started''"

definition collab_agent_interaction_text :: "json \<Rightarrow> string" where
  "collab_agent_interaction_text p =
     ''subagent '' @ collab_agent_label p ''receiver_agent_nickname'' ''receiver_agent_role'' ''receiver_thread_id'' @ '' messaged''"

definition collab_agent_status_text :: "json \<Rightarrow> string \<Rightarrow> string" where
  "collab_agent_status_text p status =
     ''subagent '' @ collab_agent_label p ''receiver_agent_nickname'' ''receiver_agent_role'' ''receiver_thread_id'' @ '' '' @ status"

definition collab_wait_started_text :: "json \<Rightarrow> string" where
  "collab_wait_started_text p =
     ''subagent waiting on '' @
       unwrap_or ''subagents'' (map_option (\<lambda>agents. case agents of
            [a] \<Rightarrow> collab_agent_label a ''agent_nickname'' ''agent_role'' ''thread_id''
          | [] \<Rightarrow> ''subagents''
          | _ \<Rightarrow> show_nat (length agents) @ '' subagents'') (get_array p ''receiver_agents''))"

text \<open>What one event contributes to the activity list; every branch of the \<open>match\<close> pushes at
  most one line. The branches up to the file events, then those of the agents.\<close>

definition tool_activity :: "event_record \<Rightarrow> string option" where
  "tool_activity e =
     (let t = ev_type e; p = ev_payload e in
      if t = ''browser.connected'' then Some ''browser connected''
      else if t = ''browser.reconnected'' then Some ''browser reconnected''
      else if t = ''browser.target_changed'' then Some ''browser target changed''
      else if t = ''browser.disconnected'' then Some ''browser disconnected''
      else if t = ''browser.live_url'' then Some ''connected live browser''
      else if t = ''browser.page'' \<or> t = ''browser.state''
      then map_option (\<lambda>u. ''browsing '' @ compact_url u) (get_str p ''url'')
      else if t = ''model.turn.request'' then None
      else if t = ''model.turn.retry'' then Some (model_turn_retry_activity p)
      else if t = ''model.turn.error'' then Some (model_turn_error_activity p)
      else if t = ''plan.updated'' then Some ''updated plan''
      else if t = ''command.started''
      then (case get_str p ''cmd'' of
              Some cmd \<Rightarrow> Some (''ran '' @ truncate_activity cmd 72)
            | None \<Rightarrow> Some ''ran command'')
      else if t = ''command.finished''
      then (if get_bool p ''success'' = Some False
            then Some (''command failed with exit '' @
                   unwrap_or ''unknown'' (map_option show_int (get_i64 p ''exit_code'')))
            else None)
      else if t = ''patch.file_changed''
      then Some (unwrap_or ''changed'' (get_str p ''kind'') @ '' '' @
                 unwrap_or ''file'' (map_option compact_path (get_str p ''path'')))
      else if t = ''file.read'' then map_option (\<lambda>path. ''read '' @ compact_path path) (get_str p ''path'')
      else if t = ''file.search''
      then Some (''searched '' @ debug_str (unwrap_or ''files'' (get_str p ''query'')) @ '' ('' @
                 show_int (unwrap_or 0 (get_u64 p ''matches'')) @ '' matches)'')
      else if t = ''file.list'' then Some ''listed files''
      else None)"

definition agent_activity :: "event_record list \<Rightarrow> nat \<Rightarrow> event_record \<Rightarrow> string option" where
  "agent_activity es idx e =
     (let t = ev_type e; p = ev_payload e in
      if t = ''collab_agent_spawn_end'' then Some (collab_agent_spawn_text p)
      else if t = ''collab_agent_interaction_end'' then Some (collab_agent_interaction_text p)
      else if t = ''collab_waiting_begin'' then Some (collab_wait_started_text p)
      else if t = ''collab_waiting_end''
      then (if has_later_event es idx (ev_session e) ''agent.wait.finished'' then None
            else Some ''subagent wait finished'')
      else if t = ''collab_close_end'' then Some (collab_agent_status_text p ''stopped'')
      else if t = ''collab_resume_end'' then Some (collab_agent_status_text p ''resumed'')
      else if t = ''agent.spawned'' then Some (agent_started_text p)
      else if t = ''agent.message'' then Some (agent_message_text p)
      else if t = ''agent.wait.started'' then Some (agent_wait_started_text p)
      else if t = ''agent.wait.finished''
      then (if unwrap_or False (get_bool p ''timed_out'') then Some ''subagent wait timed out''
            else Some ''subagent wait finished'')
      else if t = ''agent.completed'' then Some ''subagent finished''
      else if t = ''agent.failed'' then Some ''subagent failed''
      else if t = ''agent.cancelled'' then Some ''subagent stopped''
      else if t = ''agent.resumed''
      then (if is_replay_materialization_event e then None else Some ''subagent resumed'')
      else None)"

definition activity_from_events :: "event_record list \<Rightarrow> string list" where
  "activity_from_events es =
     foldl (\<lambda>acc (idx, e).
        case or_else (tool_activity e) (agent_activity es idx e) of
          None \<Rightarrow> acc | Some item \<Rightarrow> push_activity acc item) [] (enumerate 0 es)"

section \<open>Transcript\<close>

record transcript_turn =
  tt_prompt :: string
  tt_is_followup :: bool
  tt_activity :: "string list"
  tt_thinking_text :: "string option"
  tt_streaming_text :: "string option"
  tt_result :: "string option"
  tt_failure :: "string option"

definition turn_start :: "event_record list \<Rightarrow> event_record \<Rightarrow> (string \<times> bool) option" where
  "turn_start es e =
     (case (if ev_type e = ''session.input'' then Some False
            else if ev_type e = ''session.followup''
            then (if pending_after_next_tool_call_followup es e
                     \<or> after_next_tool_call_followup_is_cancelled es (ev_seq e) then None else Some True)
            else None) of
        None \<Rightarrow> None
      | Some is_followup \<Rightarrow> map_option (\<lambda>prompt. (prompt, is_followup)) (trimmed_nonempty (pstr e ''text'')))"

definition turn_starts :: "event_record list \<Rightarrow> (nat \<times> string \<times> bool) list" where
  "turn_starts es =
     List.map_filter (\<lambda>(idx, e). map_option (\<lambda>s. (idx, s)) (turn_start es e)) (enumerate 0 es)"

definition make_turn :: "string \<Rightarrow> bool \<Rightarrow> event_record list \<Rightarrow> transcript_turn" where
  "make_turn prompt is_followup segment =
     \<lparr> tt_prompt = prompt, tt_is_followup = is_followup, tt_activity = activity_from_events segment,
       tt_thinking_text = turn_thinking_text_from_events segment,
       tt_streaming_text = turn_streaming_text_from_events segment,
       tt_result = turn_result_from_events segment, tt_failure = turn_failure_from_events segment \<rparr>"

definition transcript_from_events :: "event_record list \<Rightarrow> transcript_turn list" where
  "transcript_from_events es =
     (let starts = turn_starts es in
      map (\<lambda>(turn_idx, (event_idx, prompt, is_followup)).
             let next_idx = (if turn_idx + 1 < length starts then fst (starts ! (turn_idx + 1)) else length es);
                 segment = take (next_idx - (event_idx + 1)) (drop (event_idx + 1) es)
             in make_turn prompt is_followup segment)
        (enumerate 0 starts))"


section \<open>The context handed to sub-agents\<close>

definition last_n :: "nat \<Rightarrow> 'a list \<Rightarrow> 'a list" where
  "last_n n xs = (if length xs > n then drop (length xs - n) xs else xs)"

definition truncate_context_field :: "string \<Rightarrow> string" where
  "truncate_context_field v = (if length v \<le> 500 then v else take (500 - 15) v @ ''...[truncated]'')"

definition jstr :: "json \<Rightarrow> string \<Rightarrow> json" where
  "jstr p k = json_opt JStr (get_str p k)"

definition jerror :: "json \<Rightarrow> json" where
  "jerror p = json_opt JStr (map_option truncate_context_field (get_str p ''error''))"

definition error_context :: "event_record \<Rightarrow> json option" where
  "error_context e =
     (let t = ev_type e; p = ev_payload e in
      if t = ''tool.failed''
      then Some (JObj [(''error'', jerror p), (''name'', jstr p ''name''), (''tool_call_id'', jstr p ''tool_call_id''),
                       (''type'', JStr ''tool.failed'')])
      else if t = ''model.turn.error''
      then Some (JObj [(''error'', jerror p), (''model'', jstr p ''model''), (''provider'', jstr p ''provider''),
                       (''transient'', json_opt JBool (get_bool p ''transient'')), (''type'', JStr ''model.turn.error'')])
      else if t = ''model.turn.context_overflow''
      then Some (JObj [(''action'', jstr p ''action''), (''model'', jstr p ''model''), (''provider'', jstr p ''provider''),
                       (''type'', JStr ''model.turn.context_overflow'')])
      else if t = ''browser.cloud_shutdown_failed''
      then Some (JObj [(''error'', jerror p), (''type'', JStr t)])
      else if t = ''session.deadline_warning''
      then Some (JObj [(''reason'', jstr p ''reason''),
                       (''remaining_turns'', json_opt JNum (get_u64 p ''remaining_turns'')),
                       (''type'', JStr ''session.deadline_warning'')])
      else None)"

definition recent_error_context :: "event_record list \<Rightarrow> json list" where
  "recent_error_context es = rev (take 5 (List.map_filter error_context (rev es)))"

definition artifact_context :: "event_record \<Rightarrow> json option" where
  "artifact_context e =
     (let t = ev_type e; p = ev_payload e in
      if t = ''artifact.created''
      then map_option (\<lambda>a. JObj [(''bytes'', json_opt JNum (get_i64 a ''bytes'')), (''kind'', jstr a ''kind''),
             (''mime'', jstr a ''mime''), (''path'', jstr a ''path''), (''type'', JStr ''artifact'')]) (json_get p ''artifact'')
      else if t = ''tool.output_spilled''
      then map_option (\<lambda>a. JObj [(''original_tokens_estimate'', json_opt JNum (get_u64 a ''original_tokens_estimate'')),
             (''path'', jstr a ''path''), (''tool_call_id'', jstr a ''tool_call_id''), (''tool_name'', jstr a ''tool_name''),
             (''type'', JStr ''tool-output'')]) (json_get p ''artifact'')
      else if t = ''tool.image''
      then map_option (\<lambda>i. JObj [(''bytes'', json_opt JNum (get_i64 i ''bytes'')), (''label'', jstr i ''label''),
             (''mime'', json_opt JStr (Option.bind (or_else (json_get i ''mime_type'') (json_get i ''mime'')) as_str)),
             (''path'', jstr i ''path''), (''type'', JStr ''image'')]) (json_get p ''image'')
      else None)"

definition recent_artifact_context :: "event_record list \<Rightarrow> json list" where
  "recent_artifact_context es = rev (take 8 (List.map_filter artifact_context (rev es)))"

definition final_answer_context :: "event_record list \<Rightarrow> json option" where
  "final_answer_context es =
     find_map (\<lambda>e.
       if ev_type e = ''session.final_answer_ready'' then json_get (ev_payload e) ''final_answer''
       else if ev_type e \<noteq> ''tool.output'' then None
       else Option.bind (json_get (ev_payload e) ''data'') (\<lambda>d. json_get d ''final_answer'')) (rev es)"

definition sanitized_agent_context_from_events :: "event_record list \<Rightarrow> json" where
  "sanitized_agent_context_from_events es =
     (let b = browser_summary_from_events es ''parent browser'';
          activity = last_n 8 (activity_from_events es)
      in JObj
        [(''activity'', JArr (map JStr activity)),
         (''browser'', JObj [(''live_url'', json_opt JStr (bs_live_url b)), (''status'', JStr (bs_status b)),
                           (''title'', json_opt JStr (bs_title b)), (''url'', json_opt JStr (bs_url b))]),
         (''failure'', json_opt JStr (failure_from_events es)),
         (''final_answer'', json_opt id (final_answer_context es)),
         (''recent_artifacts'', JArr (recent_artifact_context es)),
         (''recent_errors'', JArr (recent_error_context es)),
         (''result'', json_opt JStr (session_result_from_events es)),
         (''task'', json_opt JStr (task_from_events es))])"

section \<open>Child agents and the workbench\<close>

definition parent_of :: "session_meta list \<Rightarrow> string \<Rightarrow> string option" where
  "parent_of sessions i = Option.bind (find (\<lambda>s. sm_id s = i) sessions) sm_parent_id"

text \<open>The climb along the parents does not remember where it has been: on a cycle it never
  ends, which is the value \<open>None\<close>.\<close>

partial_function (option) climb_parents :: "session_meta list \<Rightarrow> string \<Rightarrow> string option \<Rightarrow> bool option" where
  [code]: "climb_parents sessions parent cursor =
     (case cursor of
        None \<Rightarrow> Some False
      | Some p \<Rightarrow> if p = parent then Some True else climb_parents sessions parent (parent_of sessions p))"

definition is_descendant_session :: "session_meta list \<Rightarrow> string \<Rightarrow> string \<Rightarrow> bool option" where
  "is_descendant_session sessions i parent = climb_parents sessions parent (parent_of sessions i)"

fun filter_opt :: "('a \<Rightarrow> bool option) \<Rightarrow> 'a list \<Rightarrow> 'a list option" where
  "filter_opt p [] = Some []"
| "filter_opt p (x # xs) =
     (case p x of
        None \<Rightarrow> None
      | Some b \<Rightarrow> map_option (\<lambda>ys. if b then x # ys else ys) (filter_opt p xs))"

definition child_agent_activity_text :: "string \<Rightarrow> string" where
  "child_agent_activity_text item = unwrap_or item (strip_pre ''thinking '' item)"

definition child_agent_label :: "session_meta \<Rightarrow> event_record list \<Rightarrow> string" where
  "child_agent_label child es =
     unwrap_or (compact_path (sm_id child))
       (trimmed_nonempty (Option.bind (find (\<lambda>e. ev_type e = ''agent.context'') es)
          (\<lambda>e. or_else (pstr e ''nickname'') (or_else (pstr e ''role'') (pstr e ''agent_path'')))))"

definition child_agent_activity :: "session_meta \<Rightarrow> event_record list \<Rightarrow> string list" where
  "child_agent_activity child es =
     (let label = child_agent_label child es;
          head = ''subagent '' @ label @ (case sm_status child of
                    SCreated \<Rightarrow> '' working'' | SRunning \<Rightarrow> '' working'' | SDone \<Rightarrow> '' finished''
                  | SFailed \<Rightarrow> '' failed'' | SCancelled \<Rightarrow> '' stopped'');
          recent = last_n 6 (filter (\<lambda>item. \<not> starts_with ''started '' item) (activity_from_events es));
          acc = foldl (\<lambda>acc item. push_activity acc (''subagent '' @ label @ '': '' @ child_agent_activity_text item))
                  (push_activity [] head) recent
      in case turn_streaming_text_from_events es of
           Some text \<Rightarrow> push_activity acc (''subagent '' @ label @ '': streaming '' @ truncate_activity (str_trim text) 96)
         | None \<Rightarrow> acc)"

definition events_of :: "(string \<times> event_record list) list \<Rightarrow> string \<Rightarrow> event_record list" where
  "events_of all_events i = unwrap_or [] (map_option snd (find (\<lambda>(j, _). j = i) all_events))"

definition activity_with_child_agents ::
    "session_meta list \<Rightarrow> event_record list \<Rightarrow> (string \<times> event_record list) list \<Rightarrow> string option \<Rightarrow> string list option" where
  "activity_with_child_agents sessions es all_events selected =
     (let activity = activity_from_events es in
      case selected of
        None \<Rightarrow> Some activity
      | Some parent \<Rightarrow>
          map_option (\<lambda>children.
            let child_activity = concat (map (\<lambda>c. child_agent_activity c (events_of all_events (sm_id c))) children);
                kept = (if child_activity \<noteq> []
                        then filter (\<lambda>item. item \<notin> {''subagent finished'', ''subagent failed'', ''subagent stopped''}) activity
                        else activity)
            in kept @ child_activity)
          (filter_opt (\<lambda>s. is_descendant_session sessions (sm_id s) parent) sessions))"

record history_row =
  hr_session_id :: string
  hr_task :: string
  hr_status :: session_status
  hr_updated_ms :: int

record workbench_state =
  wb_setup_complete :: bool
  wb_current_session :: "session_meta option"
  wb_task :: "string option"
  wb_result :: "string option"
  wb_failure :: "string option"
  wb_activity :: "string list"
  wb_transcript :: "transcript_turn list"
  wb_browser :: browser_summary
  wb_history :: "history_row list"

definition history_rows :: "session_meta list \<Rightarrow> (string \<times> event_record list) list \<Rightarrow> history_row list" where
  "history_rows sessions all_events =
     sort_key (\<lambda>r. - hr_updated_ms r)
       (map (\<lambda>s. \<lparr> hr_session_id = sm_id s,
                   hr_task = unwrap_or ''untitled task'' (task_from_events (events_of all_events (sm_id s))),
                   hr_status = sm_status s, hr_updated_ms = sm_updated_ms s \<rparr>)
         (filter (\<lambda>s. sm_parent_id s = None) sessions))"

definition project_workbench ::
    "session_meta list \<Rightarrow> event_record list \<Rightarrow> (string \<times> event_record list) list \<Rightarrow> string option \<Rightarrow> string \<Rightarrow> workbench_state option" where
  "project_workbench sessions es all_events selected backend =
     (let current = Option.bind selected (\<lambda>i. find (\<lambda>s. sm_id s = i) sessions);
          has = (\<lambda>st. map_option sm_status current = Some st)
      in map_option (\<lambda>activity.
        \<lparr> wb_setup_complete = False, wb_current_session = current, wb_task = task_from_events es,
          wb_result = (if has SDone then session_result_from_events es else None),
          wb_failure = (if has SFailed then failure_from_events es else None),
          wb_activity = activity, wb_transcript = transcript_from_events es,
          wb_browser = browser_summary_from_events es backend,
          wb_history = history_rows sessions all_events \<rparr>)
      (activity_with_child_agents sessions es all_events selected))"

section \<open>Lemmas\<close>


definition clean_text :: "string option \<Rightarrow> bool" where
  "clean_text t \<longleftrightarrow> (\<forall>v. t = Some v \<longrightarrow> (\<forall>c\<in>set v. \<not> is_control_char c))"

definition clean_summary :: "browser_summary \<Rightarrow> bool" where
  "clean_summary s \<longleftrightarrow> clean_text (bs_title s) \<and> clean_text (bs_url s) \<and> clean_text (bs_live_url s)"

lemma clean_text_simps [simp]:
  "clean_text None" "clean_text (Some (sanitize_terminal_text v))"
  "clean_text (map_option sanitize_terminal_text w)"
  by (auto simp: clean_text_def sanitize_terminal_text_def)

lemma set_url_title_clean: "clean_summary s \<Longrightarrow> clean_summary (set_url_title p s)"
  by (simp add: set_url_title_def clean_summary_def Let_def split: option.split)

lemma browser_step_clean: "clean_summary s \<Longrightarrow> clean_summary (browser_step s e)"
proof -
  assume s: "clean_summary s"
  have conn: "clean_summary (browser_connected_step p s)" for p
    using s by (auto simp: browser_connected_step_def Let_def clean_summary_def intro!: set_url_title_clean [unfolded clean_summary_def])
  have "clean_summary (s2\<lparr> bs_tabs := t \<rparr>) = clean_summary s2" "clean_summary (s2\<lparr> bs_viewport := v \<rparr>) = clean_summary s2"
    "clean_summary (s2\<lparr> bs_status := st \<rparr>) = clean_summary s2" for s2 t v st
    by (simp_all add: clean_summary_def)
  then have page: "clean_summary (browser_page_step p s)" for p
    using s by (simp add: browser_page_step_def Let_def set_url_title_clean split: option.split)
  show ?thesis
    using s conn page by (auto simp: browser_step_def Let_def) (simp_all add: clean_summary_def)
qed

interpretation browser_events: invariant_machine browser_step clean_summary "\<lambda>_. True"
  by unfold_locales (simp add: browser_step_clean)

section \<open>Repeated result text\<close>

lemma repeated_len_None:
  assumes "repeated_len s = None" "s = a @ b @ b"
  shows "length b < 24"
proof (rule ccontr)
  assume "\<not> length b < 24"
  then have "length b \<in> set (rev [24..<Suc (length s div 2)])" using assms(2) by auto
  moreover have "take (length b) (drop (length s - 2 * length b) s) = drop (length s - length b) s"
    using assms(2) by simp
  ultimately show False
    using assms(1) unfolding repeated_len_def Let_def find_None_iff by blast
qed

lemma trim_end_prefix: "prefix (trim_end s) s"
  using trim_end_suffix [of s] by (metis prefixI)

lemma dedupe_tail_result:
  "trim_end s = s \<Longrightarrow>
     prefix (dedupe_tail s) s \<and> trim_end (dedupe_tail s) = dedupe_tail s \<and> repeated_len (dedupe_tail s) = None"
proof (induction s rule: dedupe_tail.induct)
  case (1 s)
  show ?case
  proof (cases "repeated_len s")
    case None
    with 1 show ?thesis by (simp add: dedupe_tail.simps)
  next
    case (Some k)
    let ?s = "trim_end (take (length s - k) s)"
    have "prefix ?s s" by (meson prefix_order.trans take_is_prefix trim_end_prefix)
    with 1(1) [OF Some] show ?thesis
      by (subst (1 2 3 4) dedupe_tail.simps) (auto simp: Some intro: prefix_order.trans)
  qed
qed

lemma dedupe_tail_fixed: "repeated_len s = None \<Longrightarrow> dedupe_tail s = s"
  by (simp add: dedupe_tail.simps)

section \<open>Ancestors\<close>

definition parent_rel :: "session_meta list \<Rightarrow> (string \<times> string) set" where
  "parent_rel sessions = {(p, c). parent_of sessions c = Some p}"

lemma parent_rel_unique: "(p, c) \<in> parent_rel ss \<Longrightarrow> (q, c) \<in> parent_rel ss \<Longrightarrow> p = q"
  by (simp add: parent_rel_def)

lemma climb_parents_trancl:
  assumes "wf (parent_rel ss)"
  shows "climb_parents ss parent (parent_of ss c) = Some ((parent, c) \<in> (parent_rel ss)\<^sup>+)"
  using assms
proof (induction c rule: wf_induct_rule)
  case (less c)
  show ?case
  proof (cases "parent_of ss c")
    case None
    then have "(parent, c) \<notin> (parent_rel ss)\<^sup>+"
      by (metis (mono_tags, lifting) case_prodD mem_Collect_eq option.distinct(1) parent_rel_def tranclE)
    with None show ?thesis by (subst climb_parents.simps) simp
  next
    case (Some p)
    then have p: "(p, c) \<in> parent_rel ss" by (simp add: parent_rel_def)
    have "(parent, c) \<in> (parent_rel ss)\<^sup>+ \<longleftrightarrow> parent = p \<or> (parent, p) \<in> (parent_rel ss)\<^sup>+"
      by (metis p parent_rel_unique trancl.simps)
    with Some less.IH [OF p] show ?thesis by (subst climb_parents.simps) simp
  qed
qed

text \<open>When the parents lead round in circles outside the wanted ancestor, the climb never
  returns.\<close>

definition closed_circle :: "session_meta list \<Rightarrow> string set \<Rightarrow> string \<Rightarrow> string option \<Rightarrow> bool" where
  "closed_circle ss S parent cursor \<longleftrightarrow>
     cursor \<in> Some ` S \<and> parent \<notin> S \<and> (\<forall>x\<in>S. parent_of ss x \<in> Some ` S)"

lemma climb_parents_diverges:
  assumes "closed_circle ss S parent cursor"
  shows "climb_parents ss parent cursor = None"
proof -
  have "\<not> closed_circle ss S parent cursor" if "climb_parents ss parent cursor = Some r" for ss parent cursor r
  proof (rule climb_parents.raw_induct [where P = "\<lambda>ss parent cursor r. \<not> closed_circle ss S parent cursor", OF _ that])
    fix f :: "session_meta list \<Rightarrow> string \<Rightarrow> string option \<Rightarrow> bool option" and ss parent cursor r
    assume IH: "\<And>ss parent cursor r. f ss parent cursor = Some r \<Longrightarrow> \<not> closed_circle ss S parent cursor"
      and body: "(case cursor of None \<Rightarrow> Some False
        | Some p \<Rightarrow> if p = parent then Some True else f ss parent (parent_of ss p)) = Some r"
    show "\<not> closed_circle ss S parent cursor"
    proof
      assume c: "closed_circle ss S parent cursor"
      then obtain p where p: "cursor = Some p" "p \<in> S" "p \<noteq> parent" by (auto simp: closed_circle_def)
      with body have "f ss parent (parent_of ss p) = Some r" by simp
      moreover have "closed_circle ss S parent (parent_of ss p)" using c p by (simp add: closed_circle_def)
      ultimately show False using IH by blast
    qed
  qed
  with assms show ?thesis by (cases "climb_parents ss parent cursor") auto
qed

section \<open>Cutting the log into turns\<close>

text \<open>The reference: a turn starts at an event that is a prompt and holds what follows up to
  the next one.\<close>

fun cut_turns :: "('e \<Rightarrow> 's option) \<Rightarrow> 'e list \<Rightarrow> ('s \<times> 'e list) list" where
  "cut_turns f [] = []"
| "cut_turns f (e # es) =
     (case f e of
        None \<Rightarrow> cut_turns f es
      | Some s \<Rightarrow> (s, takeWhile (\<lambda>x. f x = None) es) # cut_turns f es)"

fun pair_up :: "nat \<Rightarrow> (nat \<times> 's) list \<Rightarrow> ('s \<times> nat \<times> nat) list" where
  "pair_up N [] = []"
| "pair_up N [(i, s)] = [(s, i, N)]"
| "pair_up N ((i, s) # (j, t) # r) = (s, i, j) # pair_up N ((j, t) # r)"

definition starts_from :: "('e \<Rightarrow> 's option) \<Rightarrow> nat \<Rightarrow> 'e list \<Rightarrow> (nat \<times> 's) list" where
  "starts_from f k es = List.map_filter (\<lambda>(i, e). map_option (\<lambda>s. (i, s)) (f e)) (enumerate k es)"

lemma starts_from_simps [simp]:
  "starts_from f k [] = []"
  "starts_from f k (e # es) = (case f e of None \<Rightarrow> starts_from f (Suc k) es | Some s \<Rightarrow> (k, s) # starts_from f (Suc k) es)"
  by (simp_all add: starts_from_def map_filter_simps split: option.split)

lemma enumerate_pair_up:
  "map (\<lambda>(n, (i, s)). g i s (if n + 1 < k + length xs then fst (xs ! (n + 1 - k)) else N)) (enumerate k xs) =
     map (\<lambda>(s, i, j). g i s j) (pair_up N xs)"
proof (induction N xs arbitrary: k rule: pair_up.induct)
  case (3 N i s j t r)
  have "map (\<lambda>(n, (i', s')). g i' s' (if n + 1 < k + length ((i, s) # (j, t) # r) then fst (((i, s) # (j, t) # r) ! (n + 1 - k)) else N)) (enumerate (Suc k) ((j, t) # r)) =
    map (\<lambda>(n, (i', s')). g i' s' (if n + 1 < Suc k + length ((j, t) # r) then fst (((j, t) # r) ! (n + 1 - Suc k)) else N)) (enumerate (Suc k) ((j, t) # r))"
    by (rule map_cong) (auto simp: in_set_enumerate_eq nth_Cons' Suc_diff_le)
  with 3 [of "Suc k"] show ?case by simp
qed simp_all

lemma starts_from_first:
  "starts_from f k es = [] \<Longrightarrow> takeWhile (\<lambda>x. f x = None) es = es"
  "starts_from f k es = (j, s) # r \<Longrightarrow> j = k + length (takeWhile (\<lambda>x. f x = None) es)"
  by (induction es arbitrary: k) (fastforce split: option.splits)+

lemma pair_up_cut:
  "map (\<lambda>(s, i, j). (s, take (j - (i + 1)) (drop (i + 1) (pre @ es)))) (pair_up (length (pre @ es)) (starts_from f (length pre) es)) =
     cut_turns f es"
proof (induction es arbitrary: pre)
  case (Cons e es)
  note IH = Cons [of "pre @ [e]"]
  show ?case
  proof (cases "f e")
    case None
    with IH show ?thesis by simp
  next
    case (Some s)
    show ?thesis
    proof (cases "starts_from f (Suc (length pre)) es")
      case Nil
      then show ?thesis using IH Some starts_from_first(1) [OF Nil] by (simp del: takeWhile_eq_all_conv)
    next
      case (Cons b r)
      obtain j t where b: "b = (j, t)" by fastforce
      have "j = Suc (length pre) + length (takeWhile (\<lambda>x. f x = None) es)"
        using starts_from_first(2) [of f "Suc (length pre)" es j t r] Cons b by simp
      then have "take (j - Suc (length pre)) es = takeWhile (\<lambda>x. f x = None) es"
        by (metis diff_add_inverse takeWhile_eq_take)
      with IH Some Cons b show ?thesis by simp
    qed
  qed
qed simp

lemma turn_starts_starts: "turn_starts es = starts_from (turn_start es) 0 es"
  by (simp add: turn_starts_def starts_from_def)

section \<open>The workbench returns\<close>

lemma filter_opt_total: "filter_opt (\<lambda>x. Some (q x)) xs = Some (filter q xs)"
  by (induction xs) auto

lemma workbench_returns:
  assumes "wf (parent_rel sessions)"
  shows "\<exists>w. project_workbench sessions es all_events selected backend = Some w"
  using assms
  by (simp add: project_workbench_def activity_with_child_agents_def is_descendant_session_def
      climb_parents_trancl filter_opt_total Let_def split: option.split)

lemma history_newest_first:
  "sorted (map (\<lambda>r. - hr_updated_ms r) (history_rows sessions all_events))"
  by (simp add: history_rows_def)

section \<open>What is not sanitised\<close>

text \<open>The activity line of a page event carries the URL as it came, control characters
  included, and so does the viewport label of the summary.\<close>

definition page_event :: "string \<Rightarrow> string \<Rightarrow> event_record" where
  "page_event k v = \<lparr> ev_seq = 1, ev_id = ''e'', ev_session = ''s'', ev_ts_ms = 0, ev_type = ''browser.page'',
     ev_payload = JObj [(k, JStr v)] \<rparr>"

lemma activity_keeps_control_chars:
  "activity_from_events [page_event ''url'' (''http://a'' @ [CHR 0x1B] @ ''b'')] = [''browsing a'' @ [CHR 0x1B] @ ''b'']"
  by code_simp

lemma viewport_keeps_control_chars:
  "bs_viewport (browser_summary_from_events [page_event ''viewport'' (''a'' @ [CHR 0x1B] @ ''b'')] ''cloud'') = Some (''a'' @ [CHR 0x1B] @ ''b'')"
  by code_simp

text \<open>A delta equal to the text streamed so far is taken for a repetition of it.\<close>

lemma repeated_delta_dropped: "foldl append_streaming_text_delta [] [''ha'', ''ha''] = ''ha''"
  by code_simp

section \<open>Properties\<close>

text \<open>Terminal safety of the browser summary: whatever the events carry, the title, the URL
  and the live URL hold no control character.\<close>

lemma browser_summary_sanitised:
  "clean_summary (browser_summary_from_events es backend)"
proof -
  let ?s0 = "\<lparr> bs_backend = backend, bs_status = ''not connected'', bs_title = None, bs_url = None,
                  bs_live_url = None, bs_tabs = None, bs_viewport = None \<rparr>"
  have "clean_summary (foldl browser_step ?s0 es)"
    by (rule browser_events.run_keeps) (simp_all add: clean_summary_def)
  then show ?thesis by (simp add: browser_summary_from_events_def Let_def clean_summary_def)
qed

text \<open>The normalised result is a prefix of the result, without white space at its end and
  without a block of 24 or more characters repeated at its end; normalising it again changes
  nothing.\<close>

lemma normalized_result:
  "prefix (normalize_result_text t) t \<and>
   trim_end (normalize_result_text t) = normalize_result_text t \<and>
   (\<nexists>a b. 24 \<le> length b \<and> normalize_result_text t = a @ b @ b) \<and>
   normalize_result_text (normalize_result_text t) = normalize_result_text t"
proof -
  note r = dedupe_tail_result [of "trim_end t", OF trim_end_idem, folded normalize_result_text_def]
  have "prefix (normalize_result_text t) t"
    using r trim_end_prefix prefix_order.trans by blast
  moreover have "\<nexists>a b. 24 \<le> length b \<and> normalize_result_text t = a @ b @ b"
    using r repeated_len_None not_less by blast
  moreover have "normalize_result_text (normalize_result_text t) = normalize_result_text t"
    using r by (simp add: normalize_result_text_def [of "normalize_result_text t"] dedupe_tail_fixed)
  ultimately show ?thesis using r by blast
qed

text \<open>Where the parent links have no cycle, the climb returns and finds exactly the
  descendants: the sessions from which the parent is reached along the links.\<close>

lemma descendants_are_below:
  assumes "wf (parent_rel sessions)"
  shows "is_descendant_session sessions i parent = Some ((parent, i) \<in> (parent_rel sessions)\<^sup>+)"
  using climb_parents_trancl [OF assms] by (simp add: is_descendant_session_def)

definition demo_session :: "string \<Rightarrow> string option \<Rightarrow> session_meta" where
  "demo_session i p = \<lparr> sm_id = i, sm_parent_id = p, sm_cwd = [], sm_artifact_root = [], sm_status = SRunning,
     sm_created_ms = 0, sm_updated_ms = 0 \<rparr>"

definition demo_sessions :: "session_meta list" where
  "demo_sessions = [demo_session ''r'' None, demo_session ''rc'' (Some ''r''), demo_session ''rcg'' (Some ''rc'')]"

lemma demo_parent_of:
  "parent_of demo_sessions i = (if i = ''rc'' then Some ''r'' else if i = ''rcg'' then Some ''rc'' else None)"
  by (simp add: parent_of_def demo_sessions_def demo_session_def)

lemma demo_sessions_wf: "wf (parent_rel demo_sessions)"
proof (rule wf_subset)
  show "parent_rel demo_sessions \<subseteq> measure length"
    by (auto simp: parent_rel_def demo_parent_of split: if_splits)
qed simp

lemma descendants_are_below_witness:
  "is_descendant_session demo_sessions ''rcg'' ''r'' = Some ((''r'', ''rcg'') \<in> (parent_rel demo_sessions)\<^sup>+)"
  by (rule descendants_are_below [OF demo_sessions_wf])

text \<open>The transcript is the log cut at its prompts: each visible prompt opens a turn, whose
  texts are computed from the events that follow it up to the next visible prompt.\<close>

lemma transcript_cuts_at_prompts:
  "transcript_from_events es =
     map (\<lambda>((prompt, is_followup), segment). make_turn prompt is_followup segment) (cut_turns (turn_start es) es)"
proof -
  let ?st = "starts_from (turn_start es) 0 es"
  have "transcript_from_events es =
     map (\<lambda>(n, (i, s)). (\<lambda>i (p, f) j. make_turn p f (take (j - (i + 1)) (drop (i + 1) es))) i s
        (if n + 1 < 0 + length ?st then fst (?st ! (n + 1 - 0)) else length es)) (enumerate 0 ?st)"
    by (simp add: transcript_from_events_def turn_starts_starts Let_def case_prod_unfold)
  also have "\<dots> = map (\<lambda>(s, i, j). (\<lambda>i (p, f) j. make_turn p f (take (j - (i + 1)) (drop (i + 1) es))) i s j)
      (pair_up (length es) ?st)"
    by (rule enumerate_pair_up)
  also have "\<dots> = map (\<lambda>((p, f), seg). make_turn p f seg)
      (map (\<lambda>(s, i, j). (s, take (j - (i + 1)) (drop (i + 1) es))) (pair_up (length es) ?st))"
    by (simp add: comp_def case_prod_unfold)
  also have "map (\<lambda>(s, i, j). (s, take (j - (i + 1)) (drop (i + 1) es))) (pair_up (length es) ?st) =
      cut_turns (turn_start es) es"
    using pair_up_cut [of "[]" es "turn_start es"] by simp
  finally show ?thesis .
qed

end
