(* ===== verification/SessionMessages.thy ===== *)
theory SessionMessages
  imports Events "HOL-Library.Char_ord" "HOL-Library.List_Lexorder"
begin

text \<open>
  The provider messages a session's history is made of (\<open>session/reconstruct.rs\<close>): JSON objects
  with a role. This theory has the predicates on messages and events that the reducer and the
  rollback share, and the builders of every message the reducer emits. Parsing JSON text
  (\<open>serde_json::from_str\<close>) is the parameter \<open>parse\<close>; \<open>Value::to_string\<close> is
  \<open>show_json\<close>.
\<close>

type_synonym parser = "string \<Rightarrow> json option"

section \<open>Predicates\<close>

text \<open>The \<open>text\<close> fields of a list of parts, joined.\<close>

definition parts_text :: "json list \<Rightarrow> string" where
  "parts_text parts = concat (List.map_filter (\<lambda>p. get_str p ''text'') parts)"

definition message_content_text :: "json \<Rightarrow> string" where
  "message_content_text m =
     (case json_get m ''content'' of
        Some (JStr t) \<Rightarrow> t
      | Some (JArr parts) \<Rightarrow> parts_text parts
      | _ \<Rightarrow> [])"

definition aborted_start :: string where "aborted_start = ''<turn_aborted>''"
definition aborted_end :: string where "aborted_end = ''</turn_aborted>''"

definition is_turn_aborted_text :: "string \<Rightarrow> bool" where
  "is_turn_aborted_text text =
     (let ts = trim_start text; te = trim_end ts in
      str_lower (take (length aborted_start) ts) = aborted_start \<and>
      str_lower (drop (length te - length aborted_end) te) = aborted_end)"

definition is_turn_aborted_message :: "json \<Rightarrow> bool" where
  "is_turn_aborted_message m \<longleftrightarrow>
     (get_str m ''role'' = Some ''user'' \<or> get_str m ''role'' = Some ''developer'')
     \<and> is_turn_aborted_text (message_content_text m)"

definition is_skill_context_message :: "json \<Rightarrow> bool" where
  "is_skill_context_message m \<longleftrightarrow>
     get_str m ''role'' = Some ''user'' \<and> starts_with ''<skill>'' (trim_start (message_content_text m))"

definition is_subagent_notification_text :: "string \<Rightarrow> bool" where
  "is_subagent_notification_text t = starts_with ''<subagent_notification>'' (trim_start t)"

definition is_subagent_notification_context_message :: "json \<Rightarrow> bool" where
  "is_subagent_notification_context_message m \<longleftrightarrow>
     get_str m ''role'' = Some ''user'' \<and> is_subagent_notification_text (message_content_text m)"

definition parsed_inter_agent_communication :: "parser \<Rightarrow> string \<Rightarrow> json option" where
  "parsed_inter_agent_communication parse text =
     (case parse text of
        None \<Rightarrow> None
      | Some v \<Rightarrow>
          if get_bool v ''trigger_turn'' = None then None
          else if get_str v ''author'' = None \<or> get_str v ''recipient'' = None \<or> get_str v ''content'' = None then None
          else if (case get_array v ''other_recipients'' of
                     Some rs \<Rightarrow> list_ex (\<lambda>r. as_str r = None) rs | None \<Rightarrow> False) then None
          else Some v)"

definition provider_message_is_inter_agent_instruction :: "parser \<Rightarrow> json \<Rightarrow> bool" where
  "provider_message_is_inter_agent_instruction parse m \<longleftrightarrow>
     get_str m ''role'' = Some ''assistant''
     \<and> parsed_inter_agent_communication parse (message_content_text m) \<noteq> None"

definition is_real_user_message :: "json \<Rightarrow> bool" where
  "is_real_user_message m \<longleftrightarrow>
     get_str m ''role'' = Some ''user'' \<and> json_get m ''name'' = None \<and> \<not> is_turn_aborted_message m
     \<and> \<not> is_skill_context_message m \<and> \<not> is_subagent_notification_context_message m"

definition is_user_message_for_rollback :: "parser \<Rightarrow> json \<Rightarrow> bool \<Rightarrow> bool" where
  "is_user_message_for_rollback parse m count_inter_agent_turns \<longleftrightarrow>
     is_real_user_message m \<or> (count_inter_agent_turns \<and> provider_message_is_inter_agent_instruction parse m)"

definition is_real_user_event :: "event_record \<Rightarrow> bool" where
  "is_real_user_event e \<longleftrightarrow> ev_type e = ''session.input'' \<or> ev_type e = ''session.followup''"

definition provider_history_has_open_turn :: "parser \<Rightarrow> json list \<Rightarrow> bool" where
  "provider_history_has_open_turn parse ms =
     (case rposition (\<lambda>m. is_user_message_for_rollback parse m True) ms of
        None \<Rightarrow> False
      | Some k \<Rightarrow> \<not> list_ex is_turn_aborted_message (drop (k + 1) ms))"

definition store_event_types :: "string list" where
  "store_event_types =
     [''session.input'', ''session.followup'', ''session.done'', ''session.failed'', ''session.cancelled'',
      ''session.rollback'', ''session.compacted'', ''model.response.output_item'', ''model.response.input_item'',
      ''model.tool_call'', ''model.delta'', ''model.stream_delta'', ''model.thinking_delta'', ''tool.started'',
      ''tool.output'', ''tool.failed'', ''tool.finished'', ''agent.context'', ''agent.message'',
      ''agent.mailbox_input'', ''workspace.context'', ''model.switch_context'', ''model.personality_context'',
      ''model.collaboration_context'', ''model.generated_image_context'']"

definition is_persistable_event :: "string \<Rightarrow> json \<Rightarrow> bool" where
  "is_persistable_event ty payload \<longleftrightarrow> ty \<in> set store_event_types"

section \<open>Builders\<close>

text \<open>Objects as \<open>json!\<close> builds them; the keys are in the order of the map.\<close>

definition role_content :: "string \<Rightarrow> json \<Rightarrow> json" where
  "role_content role content = JObj [(''content'', content), (''role'', JStr role)]"

definition input_text_part :: "string \<Rightarrow> json" where
  "input_text_part t = JObj [(''text'', JStr t), (''type'', JStr ''input_text'')]"

definition named_message :: "string \<Rightarrow> string \<Rightarrow> json list \<Rightarrow> json" where
  "named_message role name parts =
     JObj [(''content'', JArr parts), (''name'', JStr name), (''role'', JStr role)]"

definition permissions_context_message :: "string \<Rightarrow> json" where
  "permissions_context_message t = named_message ''developer'' ''permissions_context'' [input_text_part t]"

definition workspace_context_message :: "string list \<Rightarrow> json" where
  "workspace_context_message sections = named_message ''user'' ''workspace_context'' (map input_text_part sections)"

definition multi_agent_usage_hint_context_message :: "string \<Rightarrow> json" where
  "multi_agent_usage_hint_context_message t = named_message ''developer'' ''multi_agent_usage_hint'' [input_text_part t]"

definition developer_named_context_message :: "string \<Rightarrow> string \<Rightarrow> json" where
  "developer_named_context_message name t = named_message ''developer'' name [input_text_part t]"

definition developer_context_message_for_event :: "string \<Rightarrow> string \<Rightarrow> json" where
  "developer_context_message_for_event ty t =
     developer_named_context_message
       (if ty = ''model.personality_context'' then ''personality_context''
        else if ty = ''model.collaboration_context'' then ''collaboration_context''
        else if ty = ''model.generated_image_context'' then ''generated_image_context''
        else ''model_switch_context'') t"

definition workspace_context_message_from_payload :: "json \<Rightarrow> json option" where
  "workspace_context_message_from_payload p =
     (case get_str p ''kind'' of
        None \<Rightarrow> None
      | Some kind \<Rightarrow>
          if kind \<notin> {''permissions'', ''multi_agent_v2_usage_hint'', ''agents_md'', ''environment_context'', ''user_shell_command''}
          then None
          else case opt_filter (\<lambda>t. t \<noteq> []) (get_str p ''content'') of
                 None \<Rightarrow> None
               | Some t \<Rightarrow>
                   Some (if kind = ''permissions'' then permissions_context_message t
                         else if kind = ''multi_agent_v2_usage_hint'' then multi_agent_usage_hint_context_message t
                         else workspace_context_message [t]))"

definition helper_session_identity_section :: "string \<Rightarrow> json \<Rightarrow> string" where
  "helper_session_identity_section role p =
     ''You are operating as the '' @ role @ '' agent.'' @
     (case get_str p ''agent_path'' of
        Some path \<Rightarrow> '' Canonical task name: '' @ path @ ''. This is an agent routing name, not a filesystem path.''
      | None \<Rightarrow> []) @
     (if str_contains ''explor'' (str_lower role)
      then '' As the explorer, inspect the repository/codebase directly with local tools.'' else [])"

definition helper_session_inherited_context_section :: "string \<Rightarrow> string" where
  "helper_session_inherited_context_section ctx = ''Inherited context from the parent session:'' @ [CHR 0x0A] @ ctx"

definition inter_agent_prompt_text :: "string \<Rightarrow> string \<Rightarrow> string \<Rightarrow> bool \<Rightarrow> string" where
  "inter_agent_prompt_text author recipient content trigger_turn =
     (if trigger_turn then ''Direct task from parent'' else ''Inter-agent message'') @ '' '' @ author @
     '' to you '' @ recipient @ '':'' @ [CHR 0x0A] @ content"

definition is_v1_subagent_notification_event :: "event_record \<Rightarrow> string \<Rightarrow> bool" where
  "is_v1_subagent_notification_event e content =
     unwrap_or (is_subagent_notification_text content \<and>
                (case pstr e ''author_path'' of Some p \<Rightarrow> \<not> starts_with ''/root'' p | None \<Rightarrow> False))
       (get_bool (ev_payload e) ''v1_subagent_notification'')"

definition inter_agent_provider_message_from_event :: "event_record \<Rightarrow> json option" where
  "inter_agent_provider_message_from_event e =
     (case pstr e ''content'' of
        None \<Rightarrow> None
      | Some content \<Rightarrow>
          if is_v1_subagent_notification_event e content then Some (role_content ''user'' (JStr content))
          else Some (role_content ''user'' (JStr (inter_agent_prompt_text
                 (unwrap_or ''/root'' (pstr e ''author_path''))
                 (unwrap_or ''/root'' (or_else (pstr e ''recipient_path'') (pstr e ''agent_path'')))
                 content (unwrap_or False (get_bool (ev_payload e) ''trigger_turn''))))))"

definition collab_input_from_payload :: "json \<Rightarrow> json list option" where
  "collab_input_from_payload p =
     (case Option.bind (json_get p ''content'') as_array of
        None \<Rightarrow> None
      | Some parts \<Rightarrow>
          Some (unwrap_or [] (get_array p ''skill_context_messages'') @
                unwrap_or [] (get_array p ''mention_context_messages'') @
                (if parts = [] then [] else [role_content ''user'' (JArr parts)])))"

definition session_event_user_messages_text_only :: "json \<Rightarrow> json list" where
  "session_event_user_messages_text_only p =
     (let text = unwrap_or [] (get_str p ''text'') in
      if str_trim text = [] then [] else [role_content ''user'' (JStr text)])"

definition session_event_user_messages :: "json \<Rightarrow> json list" where
  "session_event_user_messages p =
     unwrap_or (session_event_user_messages_text_only p) (collab_input_from_payload p)"

definition turn_aborted_user_message :: json where
  "turn_aborted_user_message =
     role_content ''user'' (JStr (aborted_start @ [CHR 0x0A] @
       ''The user interrupted the previous turn on purpose. Any running unified exec processes may still be running in the background. If any tools/commands were aborted, they may have partially executed.''
       @ [CHR 0x0A] @ aborted_end))"

section \<open>Tool messages\<close>

definition tool_message :: "json \<Rightarrow> string \<Rightarrow> string \<Rightarrow> json" where
  "tool_message content name call_id =
     JObj [(''content'', content), (''name'', JStr name), (''role'', JStr ''tool''), (''tool_call_id'', JStr call_id)]"

definition tool_call_value :: "string \<Rightarrow> string \<Rightarrow> json \<Rightarrow> json" where
  "tool_call_value call_id name arguments =
     JObj [(''arguments'', arguments), (''id'', JStr call_id), (''name'', JStr name)]"

definition tool_call_id_from_value :: "json \<Rightarrow> string option" where
  "tool_call_id_from_value call = Option.bind (or_else (json_get call ''id'') (json_get call ''call_id'')) as_str"

definition response_input_item_call_id :: "json \<Rightarrow> string option" where
  "response_input_item_call_id item = Option.bind (or_else (json_get item ''call_id'') (json_get item ''id'')) as_str"

definition response_output_item_tool_call_value :: "parser \<Rightarrow> json \<Rightarrow> json option" where
  "response_output_item_tool_call_value parse item =
     (case response_input_item_call_id item of
        None \<Rightarrow> None
      | Some call_id \<Rightarrow>
          map_option (\<lambda>name. tool_call_value call_id name
             (unwrap_or (JObj []) (parse (unwrap_or ''{}'' (get_str item ''arguments'')))))
            (get_str item ''name''))"

definition value_to_tool_output_text :: "json \<Rightarrow> string" where
  "value_to_tool_output_text v =
     (case v of
        JStr t \<Rightarrow> t
      | JArr parts \<Rightarrow> (let text = parts_text parts in if str_trim text = [] then show_json v else text)
      | JNull \<Rightarrow> []
      | _ \<Rightarrow> show_json v)"

definition keep_text_or_array :: "json \<Rightarrow> json" where
  "keep_text_or_array v = (case v of JStr _ \<Rightarrow> v | JArr _ \<Rightarrow> v | _ \<Rightarrow> JStr (value_to_tool_output_text v))"

definition response_input_item_output_content :: "json \<Rightarrow> json" where
  "response_input_item_output_content item =
     (case json_get item ''output'' of
        Some out \<Rightarrow> keep_text_or_array out
      | None \<Rightarrow> (case json_get item ''content'' of
                   Some c \<Rightarrow> keep_text_or_array c
                 | None \<Rightarrow> JStr []))"

definition response_input_item_tool_message :: "json \<Rightarrow> json \<Rightarrow> (string \<Rightarrow> string option) \<Rightarrow> json" where
  "response_input_item_tool_message item payload tool_names =
     (let call_id = unwrap_or [] (response_input_item_call_id item);
          name = unwrap_or ''tool'' (or_else (get_str item ''name'') (or_else (get_str payload ''name'') (tool_names call_id)));
          name = (if str_trim name = [] then ''tool'' else name)
      in tool_message (response_input_item_output_content item) name call_id)"

definition browser_script_running_tool_text :: "json \<Rightarrow> string option" where
  "browser_script_running_tool_text p =
     (if get_str p ''name'' \<noteq> Some ''browser_script'' then None
      else if get_str p ''status'' \<noteq> Some ''running'' then None
      else Some (join_with [CHR 0x0A] (''browser_script is still running.'' #
        (case get_str p ''run_id'' of
           None \<Rightarrow> []
         | Some run_id \<Rightarrow>
             [''run_id: '' @ run_id,
              ''Next step: call browser_script with action='' @ [CHR 0x22] @ ''observe'' @ [CHR 0x22] @ '', run_id='' @
              [CHR 0x22] @ run_id @ [CHR 0x22] @ '', and observe_timeout_ms='' @
              show_int (unwrap_or 1000 (get_u64 p ''next_observe_ms'')) @ ''.'']))))"

definition nonblank_text :: "string option \<Rightarrow> string option" where
  "nonblank_text t = opt_filter (\<lambda>s. str_trim s \<noteq> []) t"

definition tool_output_summary :: "json \<Rightarrow> string" where
  "tool_output_summary p =
     join_with [CHR 0x0A] (List.map_filter (\<lambda>key.
       case json_get p key of
         None \<Rightarrow> None
       | Some v \<Rightarrow> if v \<in> {JNull, JObj [], JArr []} then None
                   else Some (key @ '': '' @ value_to_tool_output_text v)) [''summary'', ''data'', ''outputs''])"

definition tool_output_event_text :: "json \<Rightarrow> string" where
  "tool_output_event_text p =
     unwrap_or (tool_output_summary p)
       (or_else (nonblank_text (get_str p ''text''))
         (or_else (nonblank_text (map_option value_to_tool_output_text (json_get p ''output'')))
           (or_else (nonblank_text (map_option value_to_tool_output_text (json_get p ''content'')))
             (browser_script_running_tool_text p))))"

definition tool_output_event_content :: "json \<Rightarrow> json" where
  "tool_output_event_content p =
     (case json_get p ''content'' of Some c \<Rightarrow> c | None \<Rightarrow> JStr (tool_output_event_text p))"

definition tool_message_from_output_event :: "json \<Rightarrow> string \<Rightarrow> json" where
  "tool_message_from_output_event p call_id =
     tool_message (tool_output_event_content p) (unwrap_or ''tool'' (nonblank_text (get_str p ''name''))) call_id"

definition synthetic_tool_result_text :: "string \<Rightarrow> string" where
  "synthetic_tool_result_text name =
     (if name = ''update_plan'' then ''Plan updated'' else if name = ''done'' then ''done'' else name @ '' completed'')"

section \<open>Response items\<close>

definition response_item_type_is_api_history_item :: "string \<Rightarrow> json \<Rightarrow> bool" where
  "response_item_type_is_api_history_item ty item =
     (if ty = ''message'' then get_str item ''role'' \<noteq> Some ''system''
      else ty \<in> {''function_call_output'', ''function_call'', ''tool_search_call'', ''tool_search_output'',
        ''custom_tool_call'', ''custom_tool_call_output'', ''local_shell_call'', ''reasoning'', ''web_search_call'',
        ''image_generation_call'', ''compaction'', ''compaction_summary'', ''context_compaction''})"

definition is_raw_response_item_provider_message :: "json \<Rightarrow> bool" where
  "is_raw_response_item_provider_message item =
     (case get_str item ''type'' of None \<Rightarrow> False | Some ty \<Rightarrow> response_item_type_is_api_history_item ty item)"

definition is_text_part_type :: "string \<Rightarrow> bool" where
  "is_text_part_type ty \<longleftrightarrow> ty = ''output_text'' \<or> ty = ''text'' \<or> ty = ''input_text''"

definition response_item_content_part_to_message_part :: "json \<Rightarrow> json option" where
  "response_item_content_part_to_message_part part =
     (case get_str part ''type'' of
        None \<Rightarrow> None
      | Some ty \<Rightarrow>
          if is_text_part_type ty then map_option input_text_part (get_str part ''text'')
          else if ty = ''input_image'' \<or> ty = ''image'' then Some part
          else None)"

definition response_message_item_provider_message :: "json \<Rightarrow> json option" where
  "response_message_item_provider_message item =
     (let content = (case get_array item ''content'' of
            Some parts \<Rightarrow> List.map_filter response_item_content_part_to_message_part parts | None \<Rightarrow> [])
      in if content = [] then None
         else Some (role_content (unwrap_or ''user'' (get_str item ''role'')) (JArr content)))"

definition response_message_item_text :: "json \<Rightarrow> string option" where
  "response_message_item_text item =
     (if unwrap_or ''user'' (get_str item ''role'') \<noteq> ''assistant'' then None
      else case json_get item ''content'' of
             Some (JStr t) \<Rightarrow> Some t
           | Some (JArr parts) \<Rightarrow>
               Some (concat (List.map_filter (\<lambda>part. case get_str part ''type'' of
                  None \<Rightarrow> None
                | Some ty \<Rightarrow> if is_text_part_type ty then get_str part ''text'' else None) parts))
           | _ \<Rightarrow> None)"

type_synonym names = "string \<Rightarrow> string option"

definition remember_name :: "names \<Rightarrow> json \<Rightarrow> names" where
  "remember_name names call =
     (case tool_call_id_from_value call of
        None \<Rightarrow> names
      | Some i \<Rightarrow> (case get_str call ''name'' of None \<Rightarrow> names | Some n \<Rightarrow> names(i \<mapsto> n)))"

definition response_item_step :: "parser \<Rightarrow> json list \<times> names \<Rightarrow> json \<Rightarrow> json list \<times> names" where
  "response_item_step parse = (\<lambda>(ms, names) item.
     case get_str item ''type'' of
       None \<Rightarrow> (ms, names)
     | Some ty \<Rightarrow>
         if ty = ''message''
         then (case response_message_item_provider_message item of Some m \<Rightarrow> (ms @ [m], names) | None \<Rightarrow> (ms, names))
         else if ty = ''function_call'' \<or> ty = ''custom_tool_call''
         then (case response_output_item_tool_call_value parse item of
                 None \<Rightarrow> (ms, names)
               | Some call \<Rightarrow>
                   (ms @ [JObj [(''content'', JStr []), (''role'', JStr ''assistant''), (''tool_calls'', JArr [call])]],
                    remember_name names call))
         else if ty = ''function_call_output'' \<or> ty = ''custom_tool_call_output''
         then (ms @ [response_input_item_tool_message item JNull names], names)
         else if is_raw_response_item_provider_message item then (ms @ [item], names)
         else (ms, names))"

definition response_items_to_provider_messages :: "parser \<Rightarrow> json list \<Rightarrow> json list" where
  "response_items_to_provider_messages parse items =
     fst (foldl (response_item_step parse) ([], Map.empty) items)"

section \<open>Workspace context\<close>

record ctx_acc =
  ca_sections :: "string list"
  ca_environment :: "string option"
  ca_permissions :: "string list"
  ca_others :: "json list"

definition is_environment_context_section :: "string \<Rightarrow> bool" where
  "is_environment_context_section t = str_contains ''<environment_context>'' t"

definition is_workspace_context_message :: "json \<Rightarrow> bool" where
  "is_workspace_context_message m \<longleftrightarrow> get_str m ''name'' = Some ''workspace_context''"

definition is_permissions_context_message :: "json \<Rightarrow> bool" where
  "is_permissions_context_message m \<longleftrightarrow> get_str m ''name'' = Some ''permissions_context''"

definition ctx_step :: "ctx_acc \<Rightarrow> json \<Rightarrow> ctx_acc" where
  "ctx_step a m =
     (let t = message_content_text m in
      if is_workspace_context_message m
      then (if str_trim t = [] then a
            else if is_environment_context_section t then a\<lparr> ca_environment := Some t \<rparr>
            else a\<lparr> ca_sections := ca_sections a @ [t] \<rparr>)
      else if is_permissions_context_message m
      then (if str_trim t = [] then a else a\<lparr> ca_permissions := ca_permissions a @ [t] \<rparr>)
      else a\<lparr> ca_others := ca_others a @ [m] \<rparr>)"

definition move_workspace_context_before_first_user_message :: "json list \<Rightarrow> json list" where
  "move_workspace_context_before_first_user_message ms =
     (let a = foldl ctx_step \<lparr> ca_sections = [], ca_environment = None, ca_permissions = [], ca_others = [] \<rparr> ms;
          sections = ca_sections a @ (case ca_environment a of Some t \<Rightarrow> [t] | None \<Rightarrow> []);
          others = ca_others a
      in if sections = [] \<and> ca_permissions a = [] then others
         else let k = unwrap_or (length others) (position (\<lambda>m. get_str m ''role'' = Some ''user'') others);
                  ins = (if ca_permissions a = [] then []
                         else [permissions_context_message (join_with [CHR 0x0A, CHR 0x0A] (ca_permissions a))]) @
                        (if sections = [] then [] else [workspace_context_message sections])
              in take k others @ ins @ drop k others)"

text \<open>What one \<open>workspace.context\<close> event contributes: the message, and whether permissions were
  seen.\<close>

definition initial_context_step ::
    "int option \<Rightarrow> bool \<Rightarrow> json list \<times> bool \<Rightarrow> event_record \<Rightarrow> json list \<times> bool" where
  "initial_context_step first_seq include_all = (\<lambda>(ms, saw) e.
     let p = ev_payload e in
     if ev_type e \<noteq> ''workspace.context'' then (ms, saw)
     else if (case get_i64 p ''before_seq'' of Some b \<Rightarrow> \<not> include_all \<and> first_seq \<noteq> Some b | None \<Rightarrow> False) then (ms, saw)
     else case get_str p ''kind'' of
       None \<Rightarrow> (ms, saw)
     | Some kind \<Rightarrow>
         if kind = ''permissions'' \<and> unwrap_or False (get_bool p ''suppressed'') then (ms, True)
         else case get_str p ''content'' of
           None \<Rightarrow> (ms, saw)
         | Some t \<Rightarrow>
             if kind = ''permissions'' then (ms @ [permissions_context_message t], True)
             else if kind = ''multi_agent_v2_usage_hint'' then (ms @ [multi_agent_usage_hint_context_message t], saw)
             else if kind \<in> {''agents_md'', ''environment_context'', ''user_shell_command''}
             then (ms @ [workspace_context_message [t]], saw)
             else (ms, saw))"

definition default_permissions_instructions :: string where
  "default_permissions_instructions = ''Default permissions apply to this session.''"

definition initial_context_messages_from_events ::
    "event_record list \<Rightarrow> int option \<Rightarrow> bool \<Rightarrow> bool \<Rightarrow> json list" where
  "initial_context_messages_from_events es first_seq include_all inject_default =
     (let (ms, saw) = foldl (initial_context_step first_seq include_all) ([], False) es;
          ms = (if inject_default \<and> \<not> saw then permissions_context_message default_permissions_instructions # ms else ms)
      in move_workspace_context_before_first_user_message ms)"

end
