(* ===== verification/Rollback.thy ===== *)
theory Rollback
  imports SessionMessages
begin

text \<open>
  Rolling back user turns (\<open>session/rollback.rs\<close>) and the bounded, forked and archived event log
  (\<open>rollout/truncation.rs\<close>, \<open>fork.rs\<close>, \<open>archive.rs\<close>, \<open>mod.rs\<close>, and the
  fork and rollback helpers of \<open>session/resume.rs\<close>).
\<close>

section \<open>Rollback\<close>

definition agent_message_is_inter_agent_turn_event :: "event_record \<Rightarrow> bool" where
  "agent_message_is_inter_agent_turn_event e \<longleftrightarrow>
     (ev_type e = ''agent.message'' \<or> ev_type e = ''agent.mailbox_input'') \<and> pstr e ''content'' \<noteq> None"

definition is_real_user_event_for_rollback :: "event_record \<Rightarrow> bool \<Rightarrow> bool" where
  "is_real_user_event_for_rollback e count_inter_agent_turns \<longleftrightarrow>
     is_real_user_event e \<or> (count_inter_agent_turns \<and> agent_message_is_inter_agent_turn_event e)"

definition contextual_event_targets_turn :: "event_record \<Rightarrow> int \<Rightarrow> bool" where
  "contextual_event_targets_turn e target \<longleftrightarrow>
     ev_type e \<in> {''workspace.context'', ''model.switch_context'', ''model.personality_context'',
       ''model.collaboration_context'', ''model.generated_image_context''}
     \<and> get_i64 (ev_payload e) ''before_seq'' = Some target"

definition is_contextual_provider_message :: "json \<Rightarrow> bool" where
  "is_contextual_provider_message m \<longleftrightarrow>
     is_turn_aborted_message m \<or>
     get_str m ''name'' \<in> Some ` {''workspace_context'', ''permissions_context'', ''model_switch_context'',
       ''personality_context'', ''collaboration_context'', ''typed_mention_context'', ''generated_image_context''}"

definition rollback_last_user_event_turn :: "event_record list \<Rightarrow> bool \<Rightarrow> event_record list option" where
  "rollback_last_user_event_turn es cia =
     (case rposition (\<lambda>e. is_real_user_event_for_rollback e cia) es of
        None \<Rightarrow> None
      | Some pos \<Rightarrow>
          Some (take (back_while (\<lambda>e. contextual_event_targets_turn e (ev_seq (es ! pos))) es pos) es))"

definition rollback_last_user_message_turn :: "parser \<Rightarrow> json list \<Rightarrow> bool \<Rightarrow> json list option" where
  "rollback_last_user_message_turn parse ms cia =
     (case rposition (\<lambda>m. is_user_message_for_rollback parse m cia) ms of
        None \<Rightarrow> None
      | Some pos \<Rightarrow>
          Some (take (if list_ex (\<lambda>m. is_user_message_for_rollback parse m cia) (take pos ms)
                      then back_while is_contextual_provider_message ms pos else pos) ms))"

fun rollback_last_n_user_turns ::
    "parser \<Rightarrow> bool \<Rightarrow> nat \<Rightarrow> event_record list \<times> json list \<Rightarrow> event_record list \<times> json list" where
  "rollback_last_n_user_turns parse cia 0 s = s"
| "rollback_last_n_user_turns parse cia (Suc count) (es, ms) =
     (case rollback_last_user_event_turn es cia of
        Some es' \<Rightarrow> rollback_last_n_user_turns parse cia count (es', ms)
      | None \<Rightarrow>
          (case rollback_last_user_message_turn parse ms cia of
             Some ms' \<Rightarrow> rollback_last_n_user_turns parse cia count (es, ms')
           | None \<Rightarrow> (es, ms)))"

definition rollback_turn_count :: "json \<Rightarrow> nat" where
  "rollback_turn_count p =
     (case Option.bind (or_else (json_get p ''num_turns'') (or_else (json_get p ''turns'') (json_get p ''n''))) as_u64 of
        Some c \<Rightarrow> nat c
      | None \<Rightarrow> 1)"

definition rollback_step ::
    "parser \<Rightarrow> bool \<Rightarrow> event_record list \<times> json list \<Rightarrow> event_record \<Rightarrow> event_record list \<times> json list" where
  "rollback_step parse cia s e =
     (if ev_type e = ''session.rollback''
      then rollback_last_n_user_turns parse cia (rollback_turn_count (ev_payload e)) s
      else (fst s @ [e], snd s))"

definition rollback_filtered_events_after ::
    "parser \<Rightarrow> event_record list \<Rightarrow> int \<Rightarrow> json list \<Rightarrow> event_record list \<times> json list" where
  "rollback_filtered_events_after parse es after_seq ms =
     foldl (rollback_step parse True) ([], ms) (filter (\<lambda>e. after_seq < ev_seq e) es)"

definition rollback_filtered_events_after_for_fork ::
    "parser \<Rightarrow> event_record list \<Rightarrow> int \<Rightarrow> json list \<Rightarrow> event_record list \<times> json list" where
  "rollback_filtered_events_after_for_fork parse es after_seq ms =
     foldl (rollback_step parse True) ([], ms) (filter (\<lambda>e. after_seq < ev_seq e) es)"

definition effective_events_after_rollbacks :: "parser \<Rightarrow> event_record list \<Rightarrow> event_record list" where
  "effective_events_after_rollbacks parse es = fst (rollback_filtered_events_after_for_fork parse es 0 [])"

definition is_real_user_turn_event :: "event_record \<Rightarrow> bool" where
  "is_real_user_turn_event e \<longleftrightarrow>
     is_real_user_event e \<or>
     ((ev_type e = ''agent.message'' \<or> ev_type e = ''agent.mailbox_input'') \<and> pstr e ''content'' \<noteq> None)"

text \<open>\<open>sort_unstable\<close> and \<open>dedup\<close> on integers: the ascending list of the distinct values.\<close>

definition sort_dedup :: "int list \<Rightarrow> int list" where
  "sort_dedup xs = remdups (sort xs)"

definition rollback_after_seq_for_turns :: "event_record list \<Rightarrow> nat \<Rightarrow> int" where
  "rollback_after_seq_for_turns es num_turns =
     (if num_turns = 0 then 0
      else let seqs = sort_dedup (map ev_seq (filter is_real_user_turn_event es)) in
        if seqs = [] then (if es = [] then 0 else ev_seq (last es))
        else let k = length seqs - num_turns in
          if k = 0 then 0 else sat_sub64 (seqs ! k) 1)"

section \<open>Forks\<close>

datatype fork_mode = ForkNone | ForkLastN nat | ForkAll | ForkSummary

record summary_placeholder =
  sp_collapsed :: nat
  sp_summary :: string

record fork_outcome =
  fo_carried :: "event_record list"
  fo_summary :: "summary_placeholder option"

definition default_fork_summary :: string where
  "default_fork_summary = ''[summary of earlier conversation]''"

definition is_fork_turn_boundary_event :: "event_record \<Rightarrow> bool" where
  "is_fork_turn_boundary_event e =
     (if is_real_user_event e then True
      else (ev_type e = ''agent.message'' \<or> ev_type e = ''agent.mailbox_input'')
           \<and> pstr e ''content'' \<noteq> None \<and> unwrap_or False (get_bool (ev_payload e) ''trigger_turn''))"

definition fork_turn_seqs :: "parser \<Rightarrow> event_record list \<Rightarrow> int list" where
  "fork_turn_seqs parse es =
     map ev_seq (filter is_fork_turn_boundary_event (effective_events_after_rollbacks parse es))"

definition last_n_user_turns_start_seq :: "parser \<Rightarrow> event_record list \<Rightarrow> nat \<Rightarrow> int option" where
  "last_n_user_turns_start_seq parse es n =
     (if n = 0 then None
      else let seqs = fork_turn_seqs parse es in
        if seqs = [] then None
        else if n \<ge> length seqs then Some 0
        else Some (seqs ! (length seqs - n)))"

definition summary_fork :: "parser \<Rightarrow> event_record list \<Rightarrow> string \<Rightarrow> fork_outcome" where
  "summary_fork parse es summary =
     (let seqs = fork_turn_seqs parse es in
      if seqs = [] then \<lparr> fo_carried = [], fo_summary = Some \<lparr> sp_collapsed = length es, sp_summary = summary \<rparr> \<rparr>
      else let split = unwrap_or 0 (position (\<lambda>e. ev_seq e = last seqs) es)
           in \<lparr> fo_carried = drop split es,
                fo_summary = Some \<lparr> sp_collapsed = length (take split es), sp_summary = summary \<rparr> \<rparr>)"

definition fork_events_by_turn :: "parser \<Rightarrow> event_record list \<Rightarrow> fork_mode \<Rightarrow> fork_outcome" where
  "fork_events_by_turn parse es mode =
     (let effective = effective_events_after_rollbacks parse es in
      case mode of
        ForkNone \<Rightarrow> \<lparr> fo_carried = [], fo_summary = None \<rparr>
      | ForkAll \<Rightarrow> \<lparr> fo_carried = effective, fo_summary = None \<rparr>
      | ForkLastN n \<Rightarrow>
          (case last_n_user_turns_start_seq parse es n of
             Some start \<Rightarrow> \<lparr> fo_carried = filter (\<lambda>e. start \<le> ev_seq e) effective, fo_summary = None \<rparr>
           | None \<Rightarrow> if n > 0 then \<lparr> fo_carried = effective, fo_summary = None \<rparr>
                     else \<lparr> fo_carried = [], fo_summary = None \<rparr>)
      | ForkSummary \<Rightarrow> summary_fork parse effective default_fork_summary)"

section \<open>Size-bounded rollout\<close>

record truncation_outcome =
  to_kept :: "event_record list"
  to_archived :: "event_record list"

definition did_truncate :: "truncation_outcome \<Rightarrow> bool" where
  "did_truncate t \<longleftrightarrow> to_archived t \<noteq> []"

definition event_json :: "event_record \<Rightarrow> json" where
  "event_json e =
     JObj [(''id'', JStr (ev_id e)), (''payload'', ev_payload e), (''seq'', JNum (ev_seq e)),
           (''session_id'', JStr (ev_session e)), (''ts_ms'', JNum (ev_ts_ms e)), (''type'', JStr (ev_type e))]"

text \<open>\<open>serde_json::to_string\<close> on the derived serialiser: the fields in declaration order. Only its
  byte length is used.\<close>

definition show_event :: "event_record \<Rightarrow> string" where
  "show_event e =
     show_json (JObj [(''seq'', JNum (ev_seq e)), (''id'', JStr (ev_id e)), (''session_id'', JStr (ev_session e)),
       (''ts_ms'', JNum (ev_ts_ms e)), (''type'', JStr (ev_type e)), (''payload'', ev_payload e)])"

definition estimated_event_size_bytes :: "event_record \<Rightarrow> nat" where
  "estimated_event_size_bytes e = str_bytes (show_event e)"

fun drop_oldest :: "nat \<Rightarrow> nat \<Rightarrow> event_record list \<Rightarrow> nat" where
  "drop_oldest budget tot [] = 0"
| "drop_oldest budget tot [e] = 0"
| "drop_oldest budget tot (e # f # es) =
     (if tot > budget then Suc (drop_oldest budget (tot - estimated_event_size_bytes e) (f # es)) else 0)"

definition total_size :: "event_record list \<Rightarrow> nat" where
  "total_size es = sum_list (map estimated_event_size_bytes es)"

definition truncate_rollout_if_needed :: "event_record list \<Rightarrow> nat \<Rightarrow> truncation_outcome" where
  "truncate_rollout_if_needed es max_bytes =
     (let tot = total_size es in
      if tot \<le> max_bytes then \<lparr> to_kept = es, to_archived = [] \<rparr>
      else let index = drop_oldest max_bytes tot es
           in \<lparr> to_kept = drop index es, to_archived = take index es \<rparr>)"

definition default_rollout_max_bytes :: nat where
  "default_rollout_max_bytes = 5 * 1024 * 1024"

section \<open>Archive\<close>

record rollout_bundle =
  rb_session_id :: string
  rb_archived_events :: "event_record list"
  rb_kept_events :: "event_record list"

definition bundle_total :: "rollout_bundle \<Rightarrow> nat" where
  "bundle_total b = length (rb_archived_events b) + length (rb_kept_events b)"

definition did_archive :: "rollout_bundle \<Rightarrow> bool" where
  "did_archive b \<longleftrightarrow> rb_archived_events b \<noteq> []"

definition archive_payload :: "string \<Rightarrow> event_record \<Rightarrow> json" where
  "archive_payload part e =
     JObj [(''event'', event_json e), (''orig_seq'', JNum (ev_seq e)), (''partition'', JStr part)]"

definition bundle_payloads :: "rollout_bundle \<Rightarrow> json list" where
  "bundle_payloads b =
     map (archive_payload ''archived'') (rb_archived_events b) @ map (archive_payload ''kept'') (rb_kept_events b)"

datatype archive_error = ArchiveFailed string

text \<open>The store's \<open>append_event\<close> is a parameter: a row is written, or the call fails with a message.
  Rows written before a failure stay.\<close>

fun append_rows :: "('st \<Rightarrow> string \<Rightarrow> string \<Rightarrow> json \<Rightarrow> string + 'st) \<Rightarrow> string \<Rightarrow> json list \<Rightarrow> nat \<Rightarrow> 'st
    \<Rightarrow> (archive_error + nat) \<times> 'st" where
  "append_rows append_event session [] count st = (Inr count, st)"
| "append_rows append_event session (p # ps) count st =
     (case append_event st session ''rollout.archived'' p of
        Inl err \<Rightarrow> (Inl (ArchiveFailed err), st)
      | Inr st' \<Rightarrow> append_rows append_event session ps (count + 1) st')"

definition archive_rollout ::
    "('st \<Rightarrow> string \<Rightarrow> string \<Rightarrow> json \<Rightarrow> string + 'st) \<Rightarrow> rollout_bundle \<Rightarrow> 'st \<Rightarrow> (archive_error + nat) \<times> 'st" where
  "archive_rollout append_event b st = append_rows append_event (rb_session_id b) (bundle_payloads b) 0 st"

definition truncate_and_archive ::
    "('st \<Rightarrow> string \<Rightarrow> string \<Rightarrow> json \<Rightarrow> string + 'st) \<Rightarrow> nat \<Rightarrow> string \<Rightarrow> event_record list \<Rightarrow> 'st
      \<Rightarrow> (archive_error + truncation_outcome \<times> nat) \<times> 'st" where
  "truncate_and_archive append_event max_bytes session es st =
     (let outcome = truncate_rollout_if_needed es max_bytes in
      case archive_rollout append_event
             \<lparr> rb_session_id = session, rb_archived_events = to_archived outcome, rb_kept_events = to_kept outcome \<rparr> st of
        (Inl err, st') \<Rightarrow> (Inl err, st')
      | (Inr written, st') \<Rightarrow> (Inr (outcome, written), st'))"

section \<open>Lemmas on rollback\<close>

lemma take_back_while_count:
  assumes "rposition p xs = Some pos" "\<And>x. q x \<Longrightarrow> \<not> p x"
  shows "length (filter p (take (back_while q xs pos) xs)) + 1 = length (filter p xs)"
proof -
  have pos: "pos < length xs" "p (xs ! pos)" and after: "\<And>j. pos < j \<Longrightarrow> j < length xs \<Longrightarrow> \<not> p (xs ! j)"
    using rposition_Some_D [OF assms(1)] by auto
  have "filter p (drop (Suc pos) xs) = []"
    using after by (fastforce simp: filter_empty_conv in_set_conv_nth)
  then have 1: "length (filter p xs) = length (filter p (take pos xs)) + 1"
    using pos by (subst (1) id_take_nth_drop [OF pos(1)]) simp
  have "length (filter p (take (back_while q xs n) xs)) = length (filter p (take n xs))" if "n \<le> length xs" for n
    using that
  proof (induction n)
    case (Suc n)
    then show ?case using assms(2) [of "xs ! n"] by (auto simp: take_Suc_conv_app_nth)
  qed simp
  from this [of pos] 1 pos show ?thesis by simp
qed

lemma contextual_not_user: "contextual_event_targets_turn e t \<Longrightarrow> \<not> is_real_user_event_for_rollback e True"
  by (auto simp: contextual_event_targets_turn_def is_real_user_event_for_rollback_def is_real_user_event_def
      agent_message_is_inter_agent_turn_event_def)

definition user_turns :: "event_record list \<Rightarrow> nat" where
  "user_turns es = length (filter (\<lambda>e. is_real_user_event_for_rollback e True) es)"

lemma rollback_event_turn_Some:
  assumes "rollback_last_user_event_turn es True = Some es'"
  shows "prefix es' es" "user_turns es' + 1 = user_turns es"
proof -
  from assms obtain pos where pos: "rposition (\<lambda>e. is_real_user_event_for_rollback e True) es = Some pos"
    and es': "es' = take (back_while (\<lambda>e. contextual_event_targets_turn e (ev_seq (es ! pos))) es pos) es"
    by (auto simp: rollback_last_user_event_turn_def split: option.splits)
  show "prefix es' es" by (simp add: es' take_is_prefix)
  show "user_turns es' + 1 = user_turns es"
    unfolding user_turns_def es' by (rule take_back_while_count [OF pos]) (rule contextual_not_user)
qed

lemma rollback_event_turn_None: "rollback_last_user_event_turn es True = None \<longleftrightarrow> user_turns es = 0"
  using rposition_None [of "\<lambda>e. is_real_user_event_for_rollback e True" es]
  by (auto simp: rollback_last_user_event_turn_def user_turns_def filter_empty_conv split: option.splits)

lemma rollback_n_turns:
  "rollback_last_n_user_turns parse True n (es, ms) = (es', ms') \<Longrightarrow>
     prefix es' es \<and> prefix ms' ms \<and> user_turns es' = user_turns es - n"
proof (induction n arbitrary: es ms)
  case (Suc n)
  show ?case
  proof (cases "rollback_last_user_event_turn es True")
    case (Some es1)
    with Suc show ?thesis
      using rollback_event_turn_Some [OF Some] by (fastforce intro: prefix_order.trans)
  next
    case None
    then have 0: "user_turns es = 0" by (simp add: rollback_event_turn_None)
    show ?thesis
    proof (cases "rollback_last_user_message_turn parse ms True")
      case None
      with Suc \<open>rollback_last_user_event_turn es True = None\<close> 0 show ?thesis by simp
    next
      case (Some ms1)
      then have "prefix ms1 ms"
        by (auto simp: rollback_last_user_message_turn_def take_is_prefix split: option.splits)
      with Suc Some None 0 show ?thesis by (fastforce intro: prefix_order.trans)
    qed
  qed
qed simp


lemma rollback_step_subseq:
  "subseq (fst s) xs \<Longrightarrow> subseq (fst (rollback_step parse True s e)) (xs @ [e])"
proof -
  assume sub: "subseq (fst s) xs"
  obtain es ms where s: "s = (es, ms)" by fastforce
  obtain es' ms' where r: "rollback_last_n_user_turns parse True (rollback_turn_count (ev_payload e)) (es, ms) = (es', ms')"
    by fastforce
  have "subseq es' es" using rollback_n_turns [OF r] by (blast intro: prefix_imp_subseq)
  then show ?thesis
    using sub s r by (auto simp: rollback_step_def intro: list_emb_append_mono subseq_order.trans)
qed

lemma effective_subseq: "subseq (effective_events_after_rollbacks parse es) es"
proof -
  have "subseq (fst (foldl (rollback_step parse True) (a, ms) xs)) (ys @ xs)" if "subseq a ys" for a ms xs ys
    using that
  proof (induction xs arbitrary: a ms ys)
    case (Cons x xs)
    obtain a' ms' where st: "rollback_step parse True (a, ms) x = (a', ms')" by fastforce
    with rollback_step_subseq [of "(a, ms)" ys parse x] Cons.prems have "subseq a' (ys @ [x])" by simp
    from Cons.IH [OF this] st show ?case by simp
  qed simp
  from this [of "[]" "[]"] show ?thesis
    by (auto simp: effective_events_after_rollbacks_def rollback_filtered_events_after_for_fork_def
        intro: subseq_order.trans [OF _ subseq_filter_left])
qed

section \<open>Lemmas on forks\<close>

definition log_ordered :: "event_record list \<Rightarrow> bool" where
  "log_ordered es \<longleftrightarrow> sorted_wrt (\<lambda>a b. ev_seq a < ev_seq b) es \<and> (\<forall>e\<in>set es. 0 < ev_seq e)"

lemma sorted_wrt_subseq: "subseq xs ys \<Longrightarrow> sorted_wrt R ys \<Longrightarrow> sorted_wrt R xs"
proof (induction xs ys rule: list_emb.induct)
  case (list_emb_Cons2 x y xs ys)
  then show ?case by (auto dest: list_emb_set)
qed auto

lemma log_ordered_subseq: "subseq xs ys \<Longrightarrow> log_ordered ys \<Longrightarrow> log_ordered xs"
  unfolding log_ordered_def by (auto intro: sorted_wrt_subseq dest: list_emb_set)

lemma filter_from_nth:
  "sorted_wrt (\<lambda>a b. f a < f b) xs \<Longrightarrow> k < length xs \<Longrightarrow> filter (\<lambda>x. f (xs ! k) \<le> f x) xs = drop k xs"
  for f :: "'a \<Rightarrow> int"
proof (induction xs arbitrary: k)
  case (Cons x xs)
  show ?case
  proof (cases k)
    case 0
    with Cons.prems show ?thesis by (auto intro!: filter_True)
  next
    case (Suc j)
    with Cons.prems have "\<not> f (xs ! j) \<le> f x" by (simp add: not_le)
    with Suc Cons.IH [of j] Cons.prems show ?thesis by simp
  qed
qed simp

lemma filter_ge_suffix: "sorted_wrt (\<lambda>a b. f a < f b) xs \<Longrightarrow> suffix (filter (\<lambda>x. n \<le> f x) xs) xs"
  for f :: "'a \<Rightarrow> int"
proof (induction xs)
  case (Cons x xs)
  show ?case
  proof (cases "n \<le> f x")
    case True
    with Cons.prems have "filter (\<lambda>y. n \<le> f y) (x # xs) = x # xs" by (auto intro!: filter_True)
    then show ?thesis by simp
  next
    case False
    with Cons show ?thesis by (auto intro: suffix_ConsI)
  qed
qed simp

section \<open>Lemmas on truncation and archive\<close>

lemma total_size_simps [simp]: "total_size [] = 0" "total_size (e # es) = estimated_event_size_bytes e + total_size es"
  by (simp_all add: total_size_def)

lemma drop_oldest_spec:
  "es \<noteq> [] \<Longrightarrow> k = drop_oldest b (total_size es) es \<Longrightarrow>
     k < length es \<and> (total_size (drop k es) \<le> b \<or> length (drop k es) = 1) \<and>
     (0 < k \<longrightarrow> b < total_size (drop (k - 1) es))"
proof (induction b "total_size es" es arbitrary: k rule: drop_oldest.induct)
  case (3 b e f es)
  show ?case
  proof (cases "total_size (e # f # es) > b")
    case True
    define j where "j = drop_oldest b (total_size (f # es)) (f # es)"
    have k: "k = Suc j" using 3(3) True by (simp add: j_def)
    have "j < length (f # es) \<and> (total_size (drop j (f # es)) \<le> b \<or> length (drop j (f # es)) = 1) \<and>
       (0 < j \<longrightarrow> b < total_size (drop (j - 1) (f # es)))"
      using 3(1) [OF True, of j] by (simp add: j_def)
    then show ?thesis using k True by (cases j) auto
  next
    case False
    then show ?thesis using 3(3) by simp
  qed
qed auto

lemma append_rows_result:
  assumes append_row: "\<And>st s ty p st'. append_event st s ty p = Inr st' \<Longrightarrow> rows st' = rows st @ [(s, ty, p)]"
  shows "append_rows append_event session ps count st = (r, st') \<Longrightarrow>
     \<exists>dn. prefix dn ps \<and> rows st' = rows st @ map (\<lambda>p. (session, ''rollout.archived'', p)) dn \<and>
       (\<forall>n. r = Inr n \<longrightarrow> dn = ps \<and> n = count + length ps)"
proof (induction ps arbitrary: count st)
  case (Cons p ps)
  show ?case
  proof (cases "append_event st session ''rollout.archived'' p")
    case (Inl err)
    with Cons.prems show ?thesis by (auto intro!: exI [of _ "[]"])
  next
    case (Inr st1)
    with Cons.prems have "append_rows append_event session ps (count + 1) st1 = (r, st')" by simp
    from Cons.IH [OF this] obtain dn where dn: "prefix dn ps"
      "rows st' = rows st1 @ map (\<lambda>p. (session, ''rollout.archived'', p)) dn"
      "\<forall>n. r = Inr n \<longrightarrow> dn = ps \<and> n = count + 1 + length ps" by blast
    then show ?thesis using append_row [OF Inr] by (intro exI [of _ "p # dn"]) auto
  qed
qed auto

section \<open>Properties\<close>

text \<open>C33. A rollback event takes back exactly the turns it names: of the effective events before
  it, a prefix stays, with that many user turns fewer (or none).\<close>

theorem rollback_drops_turns:
  assumes "ev_type rb = ''session.rollback''" "0 < ev_seq rb"
  shows "prefix (effective_events_after_rollbacks parse (log @ [rb])) (effective_events_after_rollbacks parse log)
     \<and> user_turns (effective_events_after_rollbacks parse (log @ [rb])) =
       user_turns (effective_events_after_rollbacks parse log) - rollback_turn_count (ev_payload rb)"
proof -
  let ?s = "foldl (rollback_step parse True) ([], []) (filter (\<lambda>e. 0 < ev_seq e) log)"
  obtain es ms where s: "?s = (es, ms)" by fastforce
  obtain es' ms' where r: "rollback_last_n_user_turns parse True (rollback_turn_count (ev_payload rb)) (es, ms) = (es', ms')"
    by fastforce
  show ?thesis
    using rollback_n_turns [OF r] s r assms
    by (simp add: effective_events_after_rollbacks_def rollback_filtered_events_after_for_fork_def rollback_step_def)
qed

definition demo_event :: "int \<Rightarrow> string \<Rightarrow> json \<Rightarrow> event_record" where
  "demo_event k ty p = \<lparr> ev_seq = k, ev_id = ''e'', ev_session = ''s'', ev_ts_ms = 0, ev_type = ty, ev_payload = p \<rparr>"

theorem rollback_drops_turns_witness:
  "user_turns (effective_events_after_rollbacks (\<lambda>_. None)
      ([demo_event 1 ''session.input'' JNull, demo_event 2 ''session.followup'' JNull] @ [demo_event 3 ''session.rollback'' JNull])) =
   user_turns (effective_events_after_rollbacks (\<lambda>_. None)
      [demo_event 1 ''session.input'' JNull, demo_event 2 ''session.followup'' JNull]) - 1"
  using rollback_drops_turns [of "demo_event 3 ''session.rollback'' JNull" "\<lambda>_. None"
      "[demo_event 1 ''session.input'' JNull, demo_event 2 ''session.followup'' JNull]"]
  by (simp add: demo_event_def rollback_turn_count_def)

text \<open>A fork that keeps the last \<open>n\<close> turns carries a suffix of the effective events whose turn
  boundaries are exactly the last \<open>n\<close> (all of them when there are fewer).\<close>

lemma fork_keeps_last_turns:
  fixes parse :: parser and n :: nat
  assumes "log_ordered log"
  defines "eff \<equiv> effective_events_after_rollbacks parse log"
    and "carried \<equiv> fo_carried (fork_events_by_turn parse log (ForkLastN n))"
  shows "suffix carried eff \<and>
     filter is_fork_turn_boundary_event carried =
       drop (length (filter is_fork_turn_boundary_event eff) - n) (filter is_fork_turn_boundary_event eff)"
proof -
  let ?b = "filter is_fork_turn_boundary_event eff"
  have ord: "log_ordered eff" "log_ordered ?b"
    using assms(1) log_ordered_subseq effective_subseq subseq_filter_left unfolding eff_def by blast+
  show ?thesis
  proof (cases "n = 0 \<or> ?b = []")
    case True
    then show ?thesis
      by (auto simp: carried_def fork_events_by_turn_def last_n_user_turns_start_seq_def fork_turn_seqs_def
          eff_def [symmetric] Let_def split: option.split)
  next
    case False
    define start where "start = (if n \<ge> length ?b then 0 else ev_seq (?b ! (length ?b - n)))"
    have c: "carried = filter (\<lambda>e. start \<le> ev_seq e) eff"
      using False by (auto simp: carried_def fork_events_by_turn_def last_n_user_turns_start_seq_def
          fork_turn_seqs_def eff_def [symmetric] Let_def start_def)
    have "filter (\<lambda>e. start \<le> ev_seq e) ?b = drop (length ?b - n) ?b"
    proof (cases "n \<ge> length ?b")
      case True
      have "filter (\<lambda>e. start \<le> ev_seq e) ?b = ?b"
        by (rule filter_True) (use ord(2) True in \<open>auto simp: start_def log_ordered_def order.order_iff_strict\<close>)
      with True show ?thesis by simp
    next
      case lt: False
      then show ?thesis
        using filter_from_nth [of ev_seq ?b "length ?b - n"] ord(2) False by (simp add: start_def log_ordered_def)
    qed
    moreover have "suffix carried eff"
      using ord(1) filter_ge_suffix unfolding c log_ordered_def by blast
    ultimately show ?thesis by (simp add: c conj_commute)
  qed
qed

lemma fork_keeps_last_turns_witness:
  "suffix (fo_carried (fork_events_by_turn (\<lambda>_. None) [demo_event 1 ''session.input'' JNull, demo_event 2 ''session.followup'' JNull] (ForkLastN 1)))
     (effective_events_after_rollbacks (\<lambda>_. None) [demo_event 1 ''session.input'' JNull, demo_event 2 ''session.followup'' JNull])"
  using fork_keeps_last_turns [of "[demo_event 1 ''session.input'' JNull, demo_event 2 ''session.followup'' JNull]" "\<lambda>_. None" 1]
  by (simp add: log_ordered_def demo_event_def)

text \<open>Truncation splits the log: the archived head and the kept tail. The tail fits the budget
  or is the last event alone, a non-empty log keeps an event, and no event is dropped needlessly:
  with the last dropped one the tail would not fit.\<close>

lemma truncation_minimal:
  "let t = truncate_rollout_if_needed es max_bytes in
     to_archived t @ to_kept t = es \<and>
     (total_size (to_kept t) \<le> max_bytes \<or> length (to_kept t) = 1) \<and>
     min 1 (length es) \<le> length (to_kept t) \<and>
     (to_archived t = [] \<or> max_bytes < total_size (last (to_archived t) # to_kept t))"
proof (cases "total_size es \<le> max_bytes")
  case True
  then show ?thesis by (simp add: truncate_rollout_if_needed_def)
next
  case False
  define k where "k = drop_oldest max_bytes (total_size es) es"
  have "es \<noteq> []" using False by auto
  then have k: "k < length es" "total_size (drop k es) \<le> max_bytes \<or> length (drop k es) = 1"
    "0 < k \<Longrightarrow> max_bytes < total_size (drop (k - 1) es)"
    using drop_oldest_spec [of es k max_bytes] by (auto simp: k_def)
  have "drop (k - 1) es = last (take k es) # drop k es" if "0 < k"
    using that k(1) by (cases k) (simp_all add: Cons_nth_drop_Suc [symmetric] take_Suc_conv_app_nth)
  then show ?thesis
    using False k by (auto simp: truncate_rollout_if_needed_def Let_def k_def [symmetric])
qed

text \<open>The archive is complete and in order: on success exactly one row per event of the log has
  been appended, archived ones first, and their number is reported; on an error the rows appended
  are those of an initial part.\<close>

lemma archive_complete:
  assumes "\<And>st s ty p st'. append_event st s ty p = Inr st' \<Longrightarrow> rows st' = rows st @ [(s, ty, p)]"
    and "truncate_and_archive append_event max_bytes session es st = (r, st')"
  shows "\<exists>dn. rows st' = rows st @ map (\<lambda>p. (session, ''rollout.archived'', p)) dn \<and>
     prefix (map (\<lambda>p. json_get p ''event'') dn) (map (\<lambda>e. Some (event_json e)) es) \<and>
     (\<forall>outcome n. r = Inr (outcome, n) \<longrightarrow> n = length es \<and> length dn = length es)"
proof -
  let ?t = "truncate_rollout_if_needed es max_bytes"
  let ?b = "\<lparr> rb_session_id = session, rb_archived_events = to_archived ?t, rb_kept_events = to_kept ?t \<rparr>"
  have split: "to_archived ?t @ to_kept ?t = es"
    by (simp add: truncate_rollout_if_needed_def Let_def)
  obtain q st1 where q: "append_rows append_event session (bundle_payloads ?b) 0 st = (q, st1)" by fastforce
  have st1: "st1 = st'" and rq: "\<And>out n. r = Inr (out, n) \<Longrightarrow> q = Inr n"
    using assms(2) q by (auto simp: truncate_and_archive_def archive_rollout_def Let_def split: sum.splits)
  from append_rows_result [of append_event rows, OF assms(1) q]
  obtain dn where dn: "prefix dn (bundle_payloads ?b)"
    "rows st' = rows st @ map (\<lambda>p. (session, ''rollout.archived'', p)) dn"
    "\<forall>n. q = Inr n \<longrightarrow> dn = bundle_payloads ?b \<and> n = length (bundle_payloads ?b)"
    using st1 by auto
  have "map (\<lambda>p. json_get p ''event'') (bundle_payloads ?b) = map (\<lambda>e. Some (event_json e)) (to_archived ?t @ to_kept ?t)"
    by (simp add: bundle_payloads_def archive_payload_def)
  then have pre: "prefix (map (\<lambda>p. json_get p ''event'') dn) (map (\<lambda>e. Some (event_json e)) es)"
    unfolding split using map_mono_prefix [OF dn(1)] by metis
  have len: "length (bundle_payloads ?b) = length es"
    using arg_cong [OF split, of length] by (simp add: bundle_payloads_def)
  show ?thesis using dn(2,3) pre rq len by (intro exI [of _ dn]) auto
qed


definition list_append :: "(string \<times> string \<times> json) list \<Rightarrow> string \<Rightarrow> string \<Rightarrow> json \<Rightarrow> string + (string \<times> string \<times> json) list" where
  "list_append st s ty p = (if length st < 5 then Inr (st @ [(s, ty, p)]) else Inl ''full'')"

lemma archive_complete_witness:
  "\<exists>dn. snd (truncate_and_archive list_append 10 ''s'' [demo_event 1 ''a'' JNull, demo_event 2 ''b'' JNull] []) =
      [] @ map (\<lambda>p. (''s'', ''rollout.archived'', p)) dn"
proof -
  have law: "list_append st s ty p = Inr st' \<Longrightarrow> id st' = id st @ [(s, ty, p)]" for st s ty p st'
    by (simp add: list_append_def split: if_splits)
  show ?thesis
    using archive_complete [of list_append id 10 "''s''" "[demo_event 1 ''a'' JNull, demo_event 2 ''b'' JNull]" "[]",
        OF law prod.collapse [symmetric]] by auto
qed

end
