(* ===== verification/Reconstruct.thy ===== *)
theory Reconstruct
  imports Rollback
begin

text \<open>
  Rebuilding a session's provider history from its event log (\<open>session/reconstruct.rs\<close>): the
  compaction checkpoint, the per-event reducer with its assistant accumulator, and the
  normalisation that pairs tool calls with their outputs; then resume, fork and rollback of a
  session (\<open>session/resume.rs\<close>, \<open>session/mod.rs\<close>). The hash maps of the reducer are maps,
  its hash sets are sets; no iteration order is observed.
\<close>

section \<open>Compaction checkpoint\<close>

record compaction_checkpoint =
  cc_seq :: int
  cc_replay_from_seq :: "int option"
  cc_messages :: "json list"
  cc_response_items :: "json list option"
  cc_initial_context :: bool

definition checkpoint_of :: "event_record \<Rightarrow> compaction_checkpoint option" where
  "checkpoint_of e =
     (let p = ev_payload e in
      if ev_type e \<noteq> ''session.compacted'' then None
      else Some \<lparr> cc_seq = ev_seq e, cc_replay_from_seq = get_i64 p ''replay_from_seq'',
             cc_messages = unwrap_or [] (get_array p ''replacement_messages''),
             cc_response_items = get_array p ''replacement_response_items'',
             cc_initial_context = unwrap_or
               (json_get p ''replacement_messages'' \<noteq> None \<or> json_get p ''replacement_response_items'' \<noteq> None)
               (get_bool p ''initial_context_already_in_history'') \<rparr>)"

definition latest_compaction_checkpoint :: "event_record list \<Rightarrow> compaction_checkpoint option" where
  "latest_compaction_checkpoint es = find_map checkpoint_of (rev es)"

record compaction_replay_state =
  cr_seq :: int
  cr_messages :: "json list"
  cr_initial_context :: bool

definition latest_compaction_replacement_history :: "parser \<Rightarrow> event_record list \<Rightarrow> compaction_replay_state option" where
  "latest_compaction_replacement_history parse es =
     map_option (\<lambda>c.
       let ms = (case cc_response_items c of
                   Some items \<Rightarrow> response_items_to_provider_messages parse items | None \<Rightarrow> cc_messages c);
           initial = (if cc_initial_context c then [] else initial_context_messages_from_events es None True True)
       in \<lparr> cr_seq = unwrap_or (cc_seq c) (cc_replay_from_seq c), cr_messages = initial @ ms,
            cr_initial_context = (cc_initial_context c \<or> initial \<noteq> []) \<rparr>)
     (latest_compaction_checkpoint es)"

section \<open>The assistant accumulator\<close>

record reducer =
  r_messages :: "json list"
  r_text :: string
  r_phase :: "string option"
  r_reasoning :: string
  r_calls :: "json list"
  r_names :: names
  r_emitted :: "string set"
  r_open :: bool
  r_suppress :: bool
  r_initial :: "json list"
  r_initial_done :: bool
  r_workspace :: "int \<Rightarrow> json list option"
  r_developer :: "int \<Rightarrow> json list option"

text \<open>Keys in map order: \<open>content\<close>, \<open>phase\<close>, \<open>reasoning_content\<close>, \<open>role\<close>,
  \<open>tool_calls\<close>.\<close>

definition assistant_message :: "string \<Rightarrow> string option \<Rightarrow> string \<Rightarrow> json list \<Rightarrow> json" where
  "assistant_message text phase reasoning calls =
     JObj ([(''content'', JStr text)] @
       (case phase of Some p \<Rightarrow> [(''phase'', JStr p)] | None \<Rightarrow> []) @
       (if calls \<noteq> [] \<and> reasoning \<noteq> [] then [(''reasoning_content'', JStr reasoning)] else []) @
       [(''role'', JStr ''assistant''), (''tool_calls'', JArr calls)])"

definition flush_assistant :: "reducer \<Rightarrow> reducer" where
  "flush_assistant r =
     (if r_text r = [] \<and> r_calls r = [] then r\<lparr> r_reasoning := [] \<rparr>
      else r\<lparr> r_messages := r_messages r @ [assistant_message (r_text r) (r_phase r) (r_reasoning r) (r_calls r)],
              r_text := [], r_calls := [], r_phase := None, r_reasoning := [] \<rparr>)"

definition push_message :: "json \<Rightarrow> reducer \<Rightarrow> reducer" where
  "push_message m r = r\<lparr> r_messages := r_messages r @ [m] \<rparr>"

definition push_messages :: "json list \<Rightarrow> reducer \<Rightarrow> reducer" where
  "push_messages ms r = r\<lparr> r_messages := r_messages r @ ms \<rparr>"

definition merge_response_item_assistant_text :: "reducer \<Rightarrow> string \<Rightarrow> string option \<Rightarrow> reducer" where
  "merge_response_item_assistant_text r text phase =
     (let cur = r_text r in
      if text = [] then r
      else if cur = text \<or> str_trim cur = str_trim text then r\<lparr> r_text := text, r_phase := phase \<rparr>
      else if cur \<noteq> [] \<and> ends_with text cur \<and> str_bytes cur > str_bytes text
      then (flush_assistant (r\<lparr> r_text := take (length cur - length text) cur \<rparr>))\<lparr> r_text := text, r_phase := phase \<rparr>
      else let r1 = (if cur \<noteq> [] \<or> r_calls r \<noteq> [] then flush_assistant r else r)
           in r1\<lparr> r_text := r_text r1 @ text, r_phase := phase \<rparr>)"

definition longest_suffix_prefix_overlap :: "string \<Rightarrow> string \<Rightarrow> nat option" where
  "longest_suffix_prefix_overlap cur inc =
     find (\<lambda>n. drop (length cur - n) cur = take n inc) (rev [1..<Suc (min (length cur) (length inc))])"

definition assistant_delta_to_append :: "string \<Rightarrow> string \<Rightarrow> string option" where
  "assistant_delta_to_append cur inc =
     (if inc = [] then None
      else if cur = [] then Some inc
      else if starts_with cur inc then Some (drop (length cur) inc)
      else if ends_with inc cur then None
      else case longest_suffix_prefix_overlap cur inc of
             Some n \<Rightarrow> Some (drop n inc)
           | None \<Rightarrow> Some inc)"

section \<open>The events\<close>

definition on_agent_context :: "parser \<Rightarrow> event_record \<Rightarrow> reducer \<Rightarrow> reducer" where
  "on_agent_context parse e r =
     (let p = ev_payload e;
          r1 = flush_assistant r;
          r2 = (case get_array p ''fork_response_items'' of
                  Some items \<Rightarrow> push_messages (response_items_to_provider_messages parse items) r1 | None \<Rightarrow> r1);
          sections = (case get_str p ''role'' of Some role \<Rightarrow> [helper_session_identity_section role p] | None \<Rightarrow> []) @
                     (if get_str p ''history_mode'' = Some ''fork_response_items'' then []
                      else case json_get p ''context'' of
                             Some ctx \<Rightarrow> [helper_session_inherited_context_section (show_json ctx)] | None \<Rightarrow> [])
      in if sections = [] then r2
         else push_message (role_content ''system'' (JStr (join_with [CHR 0x0A, CHR 0x0A] sections))) r2)"

definition on_inter_agent :: "event_record \<Rightarrow> reducer \<Rightarrow> reducer" where
  "on_inter_agent e r =
     (let r1 = flush_assistant r in
      case inter_agent_provider_message_from_event e of Some m \<Rightarrow> push_message m r1 | None \<Rightarrow> r1)"

definition on_generated_image :: "event_record \<Rightarrow> reducer \<Rightarrow> reducer" where
  "on_generated_image e r =
     (if get_i64 (ev_payload e) ''before_seq'' \<noteq> None then r
      else let r1 = flush_assistant r in
        case pstr e ''content'' of
          Some t \<Rightarrow> (push_message (developer_named_context_message ''generated_image_context'' t) r1)\<lparr> r_open := True \<rparr>
        | None \<Rightarrow> r1)"

definition take_contexts :: "json list option \<Rightarrow> reducer \<Rightarrow> reducer" where
  "take_contexts c r = (case c of Some ms \<Rightarrow> push_messages ms (flush_assistant r) | None \<Rightarrow> r)"

definition on_user_input :: "event_record \<Rightarrow> reducer \<Rightarrow> reducer" where
  "on_user_input e r =
     (let k = ev_seq e;
          r0 = r\<lparr> r_suppress := False \<rparr>;
          r1 = (if r_initial_done r0 then r0
                else (push_messages (r_initial r0) (flush_assistant r0))\<lparr> r_initial := [], r_initial_done := True \<rparr>);
          r2 = (take_contexts (r_developer r1 k) r1)\<lparr> r_developer := (r_developer r1)(k := None) \<rparr>;
          r3 = (take_contexts (r_workspace r2 k) r2)\<lparr> r_workspace := (r_workspace r2)(k := None) \<rparr>
      in (push_messages (session_event_user_messages (ev_payload e)) (flush_assistant r3))\<lparr> r_open := True \<rparr>)"

definition on_developer_context :: "event_record \<Rightarrow> reducer \<Rightarrow> reducer" where
  "on_developer_context e r =
     (if get_i64 (ev_payload e) ''before_seq'' \<noteq> None then r
      else let r1 = flush_assistant r in
        case pstr e ''content'' of
          Some t \<Rightarrow> push_message (developer_context_message_for_event (ev_type e) t) r1
        | None \<Rightarrow> r1)"

definition has_call :: "string \<Rightarrow> reducer \<Rightarrow> bool" where
  "has_call i r = list_ex (\<lambda>c. tool_call_id_from_value c = Some i) (r_calls r)"

definition add_call :: "json \<Rightarrow> string option \<Rightarrow> reducer \<Rightarrow> reducer" where
  "add_call call call_id r =
     (case call_id of
        Some i \<Rightarrow>
          if has_call i r then r
          else r\<lparr> r_names := (case get_str call ''name'' of Some n \<Rightarrow> (r_names r)(i \<mapsto> n) | None \<Rightarrow> r_names r),
                  r_calls := r_calls r @ [call], r_open := True \<rparr>
      | None \<Rightarrow> r\<lparr> r_calls := r_calls r @ [call], r_open := True \<rparr>)"

definition on_output_item :: "parser \<Rightarrow> event_record \<Rightarrow> reducer \<Rightarrow> reducer" where
  "on_output_item parse e r =
     (if r_suppress r then r
      else case json_get (ev_payload e) ''item'' of
        None \<Rightarrow> r
      | Some item \<Rightarrow>
          (case get_str item ''type'' of
             None \<Rightarrow> r
           | Some ty \<Rightarrow>
               if ty = ''message''
               then (if get_str item ''role'' = Some ''assistant''
                     then case response_message_item_text item of
                            Some t \<Rightarrow> (merge_response_item_assistant_text r t (get_str item ''phase''))\<lparr> r_open := True \<rparr>
                          | None \<Rightarrow> r
                     else r)
               else if ty = ''function_call'' \<or> ty = ''custom_tool_call''
               then (case response_output_item_tool_call_value parse item of
                       Some call \<Rightarrow> add_call call (tool_call_id_from_value call) r
                     | None \<Rightarrow> r)
               else if is_raw_response_item_provider_message item
               then (push_message item (flush_assistant r))\<lparr> r_open := True \<rparr>
               else r))"

definition is_tool_message_for :: "string \<Rightarrow> json \<Rightarrow> bool" where
  "is_tool_message_for i m \<longleftrightarrow> get_str m ''role'' = Some ''tool'' \<and> get_str m ''tool_call_id'' = Some i"

definition on_input_item :: "event_record \<Rightarrow> reducer \<Rightarrow> reducer" where
  "on_input_item e r =
     (if r_suppress r then r
      else case json_get (ev_payload e) ''item'' of
        None \<Rightarrow> r
      | Some item \<Rightarrow>
          (case response_input_item_call_id item of
             None \<Rightarrow> r
           | Some i \<Rightarrow>
               let r1 = flush_assistant r;
                   m = response_input_item_tool_message item (ev_payload e) (r_names r1);
                   ms = r_messages r1
               in r1\<lparr> r_messages := (case rposition (is_tool_message_for i) ms of
                                       Some pos \<Rightarrow> ms[pos := m] | None \<Rightarrow> ms @ [m]),
                      r_emitted := insert i (r_emitted r1), r_open := True \<rparr>))"

definition on_delta :: "event_record \<Rightarrow> reducer \<Rightarrow> reducer" where
  "on_delta e r =
     (if r_suppress r then r
      else case Option.bind (or_else (json_get (ev_payload e) ''text'') (json_get (ev_payload e) ''delta'')) as_str of
        None \<Rightarrow> r
      | Some t \<Rightarrow>
          (case assistant_delta_to_append (r_text r) t of
             Some d \<Rightarrow> r\<lparr> r_text := r_text r @ d, r_open := True \<rparr>
           | None \<Rightarrow> r))"

definition on_thinking :: "event_record \<Rightarrow> reducer \<Rightarrow> reducer" where
  "on_thinking e r = (case pstr e ''text'' of Some t \<Rightarrow> r\<lparr> r_reasoning := r_reasoning r @ t \<rparr> | None \<Rightarrow> r)"

definition on_tool_call :: "event_record \<Rightarrow> reducer \<Rightarrow> reducer" where
  "on_tool_call e r =
     (if r_suppress r then r else add_call (ev_payload e) (pstr e ''id'') r)"

definition on_tool_started :: "event_record \<Rightarrow> reducer \<Rightarrow> reducer" where
  "on_tool_started e r =
     (let p = ev_payload e;
          i = unwrap_or ''call'' (Option.bind (or_else (json_get p ''tool_call_id'') (json_get p ''id'')) as_str)
      in if r_suppress r then r
         else case get_str p ''name'' of
           None \<Rightarrow> r
         | Some name \<Rightarrow>
             add_call (tool_call_value i name
               (unwrap_or (JObj []) (or_else (json_get p ''arguments'') (json_get p ''input'')))) (Some i) r)"

definition emit_tool_message :: "string \<Rightarrow> json \<Rightarrow> reducer \<Rightarrow> reducer" where
  "emit_tool_message i m r =
     (if i \<in> r_emitted r then r
      else (push_message m r)\<lparr> r_emitted := insert i (r_emitted r), r_open := True \<rparr>)"

definition on_tool_output :: "event_record \<Rightarrow> reducer \<Rightarrow> reducer" where
  "on_tool_output e r =
     (if r_suppress r then r
      else let r1 = flush_assistant r in
        case pstr e ''tool_call_id'' of
          Some i \<Rightarrow> emit_tool_message i (tool_message_from_output_event (ev_payload e) i) r1
        | None \<Rightarrow> r1)"

definition on_tool_failed :: "event_record \<Rightarrow> reducer \<Rightarrow> reducer" where
  "on_tool_failed e r =
     (if r_suppress r then r
      else let r1 = flush_assistant r; p = ev_payload e in
        case pstr e ''tool_call_id'' of
          None \<Rightarrow> r1
        | Some i \<Rightarrow>
            emit_tool_message i
              (if json_get p ''content'' \<noteq> None then tool_message_from_output_event p i
               else let name = unwrap_or ''tool'' (get_str p ''name'');
                        err = unwrap_or ''tool failed'' (get_str p ''error'')
                    in tool_message (JStr (name @ '' failed: '' @ err)) name i) r1)"

definition on_tool_finished :: "event_record \<Rightarrow> reducer \<Rightarrow> reducer" where
  "on_tool_finished e r =
     (if r_suppress r then r
      else let r1 = flush_assistant r in
        case pstr e ''tool_call_id'' of
          None \<Rightarrow> r1
        | Some i \<Rightarrow>
            let name = unwrap_or ''tool'' (or_else (pstr e ''name'') (r_names r1 i))
            in emit_tool_message i (tool_message (JStr (synthetic_tool_result_text name)) name i) r1)"

definition end_turn :: "reducer \<Rightarrow> reducer" where
  "end_turn r = r\<lparr> r_open := False, r_suppress := True \<rparr>"

definition on_cancelled :: "reducer \<Rightarrow> reducer" where
  "on_cancelled r =
     (let marker = (r_open r \<or> r_text r \<noteq> [] \<or> r_calls r \<noteq> []);
          r1 = flush_assistant r
      in end_turn (if marker then push_message turn_aborted_user_message r1 else r1))"

definition on_done :: "event_record \<Rightarrow> reducer \<Rightarrow> reducer" where
  "on_done e r =
     (let r1 = (if \<not> r_suppress r \<and> r_text r = [] \<and> r_calls r = []
                then (case pstr e ''result'' of Some t \<Rightarrow> r\<lparr> r_text := t \<rparr> | None \<Rightarrow> r) else r)
      in end_turn (flush_assistant r1))"

definition on_failed :: "reducer \<Rightarrow> reducer" where
  "on_failed r = end_turn (flush_assistant r)"

definition reduce_event :: "parser \<Rightarrow> bool \<Rightarrow> reducer \<Rightarrow> event_record \<Rightarrow> reducer" where
  "reduce_event parse include_agent_messages r e =
     (let t = ev_type e in
      if t = ''agent.context'' then on_agent_context parse e r
      else if t = ''agent.message'' then (if include_agent_messages then on_inter_agent e r else r)
      else if t = ''agent.mailbox_input'' then on_inter_agent e r
      else if t = ''workspace.context'' then r
      else if t = ''model.generated_image_context'' then on_generated_image e r
      else if t = ''session.input'' \<or> t = ''session.followup'' then on_user_input e r
      else if t = ''model.switch_context'' \<or> t = ''model.personality_context'' \<or> t = ''model.collaboration_context''
      then on_developer_context e r
      else if t = ''model.response.output_item'' then on_output_item parse e r
      else if t = ''model.response.input_item'' then on_input_item e r
      else if t = ''model.delta'' \<or> t = ''model.stream_delta'' then on_delta e r
      else if t = ''model.thinking_delta'' then on_thinking e r
      else if t = ''model.tool_call'' then on_tool_call e r
      else if t = ''tool.started'' then on_tool_started e r
      else if t = ''tool.output'' then on_tool_output e r
      else if t = ''tool.failed'' then on_tool_failed e r
      else if t = ''tool.finished'' then on_tool_finished e r
      else if t = ''session.cancelled'' then on_cancelled r
      else if t = ''session.done'' then on_done e r
      else if t = ''session.failed'' then on_failed r
      else r)"


section \<open>Normalisation\<close>

record pending_call =
  pc_id :: string
  pc_name :: string

definition in_function :: "json \<Rightarrow> string \<Rightarrow> string option" where
  "in_function call k = Option.bind (json_get call ''function'') (\<lambda>f. get_str f k)"

text \<open>One call of an assistant message. The identifier is recorded as seen even when the call
  turns out to have no name.\<close>

definition normalize_call :: "parser \<Rightarrow> string set \<times> json list \<Rightarrow> json \<Rightarrow> string set \<times> json list" where
  "normalize_call parse = (\<lambda>(seen, out) call.
     case tool_call_id_from_value call of
       None \<Rightarrow> (seen, out)
     | Some i \<Rightarrow>
         if i \<in> seen then (seen, out)
         else (insert i seen,
           case or_else (get_str call ''name'') (in_function call ''name'') of
             None \<Rightarrow> out
           | Some name \<Rightarrow>
               let arguments = unwrap_or (JObj []) (or_else (json_get call ''arguments'')
                     (Option.bind (in_function call ''arguments'') parse));
                   namespace = or_else (get_str call ''namespace'') (in_function call ''namespace'')
               in out @ [JObj ([(''arguments'', arguments), (''id'', JStr i), (''name'', JStr name)] @
                    (case namespace of Some ns \<Rightarrow> [(''namespace'', JStr ns)] | None \<Rightarrow> []))]))"

definition normalized_assistant_tool_calls :: "parser \<Rightarrow> json \<Rightarrow> json list" where
  "normalized_assistant_tool_calls parse m =
     snd (foldl (normalize_call parse) ({}, []) (unwrap_or [] (get_array m ''tool_calls'')))"

definition pending_of :: "json \<Rightarrow> pending_call option" where
  "pending_of call =
     (case (get_str call ''id'', get_str call ''name'') of
        (Some i, Some n) \<Rightarrow> Some \<lparr> pc_id = i, pc_name = n \<rparr>
      | _ \<Rightarrow> None)"

definition normalized_assistant_message :: "parser \<Rightarrow> json \<Rightarrow> (json \<times> pending_call list) option" where
  "normalized_assistant_message parse m =
     (let calls = normalized_assistant_tool_calls parse m in
      if str_trim (message_content_text m) = [] \<and> calls = [] then None
      else case as_object m of
        None \<Rightarrow> None
      | Some _ \<Rightarrow>
          let m1 = json_insert ''role'' (JStr ''assistant'') m
          in Some (if calls = [] then json_remove ''tool_calls'' m1 else json_insert ''tool_calls'' (JArr calls) m1,
                   List.map_filter pending_of calls))"

definition orphan_tool_output_context_message :: "json \<Rightarrow> string \<Rightarrow> json option" where
  "orphan_tool_output_context_message m i =
     (let text = message_content_text m in
      if str_trim text = [] then None
      else Some (role_content ''user'' (JStr
        (''Tool output retained as context after history normalization. (call_id: '' @ i @ '')'' @ [CHR 0x0A] @ text))))"

definition normalized_tool_message :: "json \<Rightarrow> string \<Rightarrow> string \<Rightarrow> json" where
  "normalized_tool_message m i name =
     (let m1 = json_insert ''tool_call_id'' (JStr i) (json_insert ''role'' (JStr ''tool'') m);
          m2 = (if nonblank_text (get_str m1 ''name'') \<noteq> None then m1 else json_insert ''name'' (JStr name) m1)
      in if json_get m2 ''content'' = None then json_insert ''content'' (JStr []) m2 else m2)"

record normalizer =
  n_out :: "json list"
  n_pending :: "pending_call list"
  n_emitted :: "string set"

definition synthetic_output :: "pending_call \<Rightarrow> json" where
  "synthetic_output c = tool_message (JStr ''aborted'') (pc_name c) (pc_id c)"

fun append_synthetic :: "pending_call list \<Rightarrow> json list \<times> string set \<Rightarrow> json list \<times> string set" where
  "append_synthetic [] s = s"
| "append_synthetic (c # cs) (out, emitted) =
     append_synthetic cs (if pc_id c \<in> emitted then (out, emitted)
                          else (out @ [synthetic_output c], insert (pc_id c) emitted))"

definition flush_pending :: "normalizer \<Rightarrow> normalizer" where
  "flush_pending n =
     (let (out, emitted) = append_synthetic (n_pending n) (n_out n, n_emitted n)
      in n\<lparr> n_out := out, n_emitted := emitted, n_pending := [] \<rparr>)"

definition normalize_tool :: "normalizer \<Rightarrow> json \<Rightarrow> normalizer" where
  "normalize_tool n m =
     (case get_str m ''tool_call_id'' of
        None \<Rightarrow>
          (case orphan_tool_output_context_message m ''<missing>'' of
             Some c \<Rightarrow> n\<lparr> n_out := n_out n @ [c] \<rparr> | None \<Rightarrow> n)
      | Some i \<Rightarrow>
          (case position (\<lambda>c. pc_id c = i) (n_pending n) of
             Some k \<Rightarrow>
               let (out, emitted) = append_synthetic (take k (n_pending n)) (n_out n, n_emitted n);
                   call = n_pending n ! k
               in n\<lparr> n_out := out @ [normalized_tool_message m (pc_id call) (pc_name call)],
                     n_emitted := insert (pc_id call) emitted, n_pending := drop (Suc k) (n_pending n) \<rparr>
           | None \<Rightarrow>
               (case orphan_tool_output_context_message m i of
                  Some c \<Rightarrow> n\<lparr> n_out := n_out n @ [c] \<rparr> | None \<Rightarrow> n)))"

definition normalize_step :: "parser \<Rightarrow> normalizer \<Rightarrow> json \<Rightarrow> normalizer" where
  "normalize_step parse n m =
     (let role = unwrap_or ''user'' (get_str m ''role'') in
      if role = ''assistant''
      then (let n1 = flush_pending n in
            case normalized_assistant_message parse m of
              Some (a, calls) \<Rightarrow> n1\<lparr> n_out := n_out n1 @ [a], n_pending := calls \<rparr>
            | None \<Rightarrow> n1)
      else if role = ''tool'' then normalize_tool n m
      else (let n1 = flush_pending n in n1\<lparr> n_out := n_out n1 @ [m] \<rparr>))"

definition normalizer_start :: normalizer where
  "normalizer_start = \<lparr> n_out = [], n_pending = [], n_emitted = {} \<rparr>"

definition normalize_provider_messages :: "parser \<Rightarrow> json list \<Rightarrow> json list" where
  "normalize_provider_messages parse ms = n_out (flush_pending (foldl (normalize_step parse) normalizer_start ms))"

section \<open>The reducer\<close>

definition first_user_message_seq :: "event_record list \<Rightarrow> int option" where
  "first_user_message_seq es = find_map (\<lambda>e. if is_real_user_event e then Some (ev_seq e) else None) es"

definition add_context :: "(int \<Rightarrow> json list option) \<Rightarrow> int \<times> json \<Rightarrow> int \<Rightarrow> json list option" where
  "add_context acc = (\<lambda>(k, m). acc(k \<mapsto> unwrap_or [] (acc k) @ [m]))"

definition workspace_contexts :: "event_record list \<Rightarrow> bool \<Rightarrow> int option \<Rightarrow> int \<Rightarrow> json list option" where
  "workspace_contexts es has_checkpoint first_seq =
     foldl add_context Map.empty (List.map_filter (\<lambda>e.
       case get_i64 (ev_payload e) ''before_seq'' of
         None \<Rightarrow> None
       | Some b \<Rightarrow> if \<not> has_checkpoint \<and> Some b = first_seq then None
                   else map_option (\<lambda>m. (b, m)) (workspace_context_message_from_payload (ev_payload e)))
       (filter (\<lambda>e. ev_type e = ''workspace.context'') es))"

definition developer_contexts :: "event_record list \<Rightarrow> int \<Rightarrow> json list option" where
  "developer_contexts es =
     foldl add_context Map.empty (List.map_filter (\<lambda>e.
       case (get_i64 (ev_payload e) ''before_seq'', pstr e ''content'') of
         (Some b, Some t) \<Rightarrow> Some (b, developer_context_message_for_event (ev_type e) t)
       | _ \<Rightarrow> None)
       (filter (\<lambda>e. ev_type e \<in> {''model.switch_context'', ''model.personality_context'',
          ''model.collaboration_context'', ''model.generated_image_context''}) es))"

definition reducer_start :: "parser \<Rightarrow> event_record list \<Rightarrow> json list \<Rightarrow> bool \<Rightarrow> reducer" where
  "reducer_start parse es ms has_checkpoint =
     (let first_seq = first_user_message_seq es in
      \<lparr> r_messages = ms, r_text = [], r_phase = None, r_reasoning = [], r_calls = [], r_names = Map.empty,
        r_emitted = {}, r_open = (has_checkpoint \<and> provider_history_has_open_turn parse ms), r_suppress = False,
        r_initial = (if has_checkpoint then [] else initial_context_messages_from_events es first_seq False False),
        r_initial_done = has_checkpoint, r_workspace = workspace_contexts es has_checkpoint first_seq,
        r_developer = developer_contexts es \<rparr>)"

definition provider_messages_from_event_slice :: "parser \<Rightarrow> event_record list \<Rightarrow> json list \<Rightarrow> bool \<Rightarrow> bool \<Rightarrow> json list" where
  "provider_messages_from_event_slice parse es ms has_checkpoint include_agent_messages =
     (let r = flush_assistant (foldl (reduce_event parse include_agent_messages) (reducer_start parse es ms has_checkpoint) es);
          ms' = (if r_initial_done r then r_messages r else r_messages r @ r_initial r)
      in normalize_provider_messages parse ms')"

definition provider_messages_from :: "parser \<Rightarrow> bool \<Rightarrow> event_record list \<Rightarrow> json list" where
  "provider_messages_from parse include_agent_messages es =
     (let (start, ms, initial) =
            (case latest_compaction_replacement_history parse es of
               Some st \<Rightarrow> (cr_seq st, cr_messages st, cr_initial_context st)
             | None \<Rightarrow> (0, [], False));
          (replay, ms') = rollback_filtered_events_after parse es start ms
      in provider_messages_from_event_slice parse replay ms' initial include_agent_messages)"

definition provider_messages_from_events :: "parser \<Rightarrow> event_record list \<Rightarrow> json list" where
  "provider_messages_from_events parse es = provider_messages_from parse False es"

definition provider_messages_from_events_for_fork :: "parser \<Rightarrow> event_record list \<Rightarrow> json list" where
  "provider_messages_from_events_for_fork parse es = provider_messages_from parse True es"


section \<open>Pairing of calls and outputs\<close>

definition role_of :: "json \<Rightarrow> string" where
  "role_of m = unwrap_or ''user'' (get_str m ''role'')"

definition ids_of :: "json list \<Rightarrow> string list" where
  "ids_of cs = List.map_filter (\<lambda>c. get_str c ''id'') cs"

definition call_ids :: "json \<Rightarrow> string list" where
  "call_ids m = ids_of (unwrap_or [] (get_array m ''tool_calls''))"

text \<open>Reading a history with the calls that still wait for their output. \<open>no_orphan_step\<close> accepts an
  output only for a call of the assistant message before it, in call order and once;
  \<open>answered_step\<close> moreover wants every call answered before the next assistant message.\<close>

fun no_orphan_step :: "string list option \<Rightarrow> json \<Rightarrow> string list option" where
  "no_orphan_step None m = None"
| "no_orphan_step (Some w) m =
     (if role_of m = ''assistant'' then Some (call_ids m)
      else if role_of m = ''tool''
      then (case get_str m ''tool_call_id'' of
              None \<Rightarrow> None
            | Some i \<Rightarrow> (case dropWhile (\<lambda>j. j \<noteq> i) w of [] \<Rightarrow> None | _ # rest \<Rightarrow> Some rest))
      else Some w)"

fun answered_step :: "string list option \<Rightarrow> json \<Rightarrow> string list option" where
  "answered_step None m = None"
| "answered_step (Some w) m =
     (if role_of m = ''assistant'' then (if w = [] then Some (call_ids m) else None)
      else if role_of m = ''tool''
      then (case w of [] \<Rightarrow> None | i # rest \<Rightarrow> if get_str m ''tool_call_id'' = Some i then Some rest else None)
      else Some w)"

definition no_orphans :: "json list \<Rightarrow> bool" where
  "no_orphans ms \<longleftrightarrow> foldl no_orphan_step (Some []) ms \<noteq> None"

definition all_answered :: "json list \<Rightarrow> bool" where
  "all_answered ms \<longleftrightarrow> foldl answered_step (Some []) ms = Some []"

lemma get_str_object: "get_str m k = Some v \<Longrightarrow> as_object m \<noteq> None"
  by (cases m) (auto simp: get_str_def)

lemma tool_message_read [simp]:
  "role_of (tool_message c n i) = ''tool''" "get_str (tool_message c n i) ''tool_call_id'' = Some i"
  by (simp_all add: tool_message_def role_of_def get_str_def)

lemma synthetic_read [simp]:
  "role_of (synthetic_output c) = ''tool''" "get_str (synthetic_output c) ''tool_call_id'' = Some (pc_id c)"
  by (simp_all add: synthetic_output_def)

lemma normalized_tool_read:
  assumes "get_str m ''role'' = Some ''tool''"
  shows "role_of (normalized_tool_message m i n) = ''tool''"
    "get_str (normalized_tool_message m i n) ''tool_call_id'' = Some i"
  using get_str_object [OF assms]
  by (simp_all add: normalized_tool_message_def role_of_def Let_def get_str_insert)

lemma role_content_read [simp]: "role_of (role_content r c) = r"
  by (simp add: role_content_def role_of_def get_str_def)

text \<open>The normalised calls of one assistant message have distinct identifiers and names.\<close>

definition call_list_ok :: "json list \<Rightarrow> bool" where
  "call_list_ok cs \<longleftrightarrow> distinct (ids_of cs) \<and> ids_of cs = map pc_id (List.map_filter pending_of cs)"

declare map_filter_append [simp]

lemma ids_of_simps [simp]: "ids_of [] = []" "ids_of (xs @ ys) = ids_of xs @ ids_of ys"
  by (simp_all add: ids_of_def List.map_filter_simps)

lemma call_list_ok_Nil [simp]: "call_list_ok []"
  by (simp add: call_list_ok_def List.map_filter_simps)

lemma call_list_ok_snoc:
  assumes "call_list_ok out" "i \<notin> set (ids_of out)" "get_str c ''id'' = Some i" "get_str c ''name'' = Some n"
  shows "call_list_ok (out @ [c]) \<and> ids_of (out @ [c]) = ids_of out @ [i]"
proof -
  have "ids_of [c] = [i]" "List.map_filter pending_of [c] = [\<lparr> pc_id = i, pc_name = n \<rparr>]"
    using assms(3,4) by (simp_all add: ids_of_def List.map_filter_simps pending_of_def)
  with assms(1,2) show ?thesis by (auto simp: call_list_ok_def)
qed

lemma normalize_call_ok:
  assumes "call_list_ok out" "set (ids_of out) \<subseteq> seen" "normalize_call parse (seen, out) call = (seen', out')"
  shows "call_list_ok out' \<and> set (ids_of out') \<subseteq> seen'"
proof (cases "\<exists>i n. tool_call_id_from_value call = Some i \<and> i \<notin> seen \<and>
    or_else (get_str call ''name'') (in_function call ''name'') = Some n")
  case True
  then obtain i n where i: "tool_call_id_from_value call = Some i" "i \<notin> seen"
    "or_else (get_str call ''name'') (in_function call ''name'') = Some n" by blast
  then obtain args tl where out': "out' = out @ [JObj ([(''arguments'', args), (''id'', JStr i), (''name'', JStr n)] @ tl)]"
    and seen': "seen' = insert i seen"
    using assms(3) by (auto simp: normalize_call_def Let_def)
  have "call_list_ok out' \<and> ids_of out' = ids_of out @ [i]"
    unfolding out' by (rule call_list_ok_snoc [where n = n]) (use assms i in \<open>auto simp: get_str_def\<close>)
  then show ?thesis using assms(2) seen' by auto
next
  case False
  then have "out' = out" "seen \<subseteq> seen'"
    using assms(3) by (auto simp: normalize_call_def Let_def split: option.splits if_splits)
  with assms show ?thesis by auto
qed

lemma normalized_calls_ok: "call_list_ok (normalized_assistant_tool_calls parse m)"
proof -
  have "call_list_ok (snd (foldl (normalize_call parse) (seen, out) calls))"
    if "call_list_ok out" "set (ids_of out) \<subseteq> seen" for seen out calls
    using that
  proof (induction calls arbitrary: seen out)
    case (Cons c calls)
    obtain seen' out' where st: "normalize_call parse (seen, out) c = (seen', out')" by fastforce
    with normalize_call_ok [OF Cons.prems st] Cons.IH show ?case by simp
  qed simp
  then show ?thesis by (simp add: normalized_assistant_tool_calls_def)
qed

lemma normalized_assistant_read:
  assumes "normalized_assistant_message parse m = Some (a, calls)"
  shows "role_of a = ''assistant''" "call_ids a = map pc_id calls" "distinct (map pc_id calls)"
    "map pc_id calls = ids_of (normalized_assistant_tool_calls parse m)"
proof -
  define cs where "cs = normalized_assistant_tool_calls parse m"
  have ok: "call_list_ok cs" by (simp add: cs_def normalized_calls_ok)
  from assms have obj: "as_object m \<noteq> None" and calls: "calls = List.map_filter pending_of cs"
    and a: "a = (if cs = [] then json_remove ''tool_calls'' (json_insert ''role'' (JStr ''assistant'') m)
                 else json_insert ''tool_calls'' (JArr cs) (json_insert ''role'' (JStr ''assistant'') m))"
    by (auto simp: normalized_assistant_message_def Let_def cs_def split: if_splits option.splits)
  show "role_of a = ''assistant''"
    using obj by (auto simp: a role_of_def get_str_def json_get_remove json_get_insert)
  have "get_array a ''tool_calls'' = (if cs = [] then None else Some cs)"
    using obj by (auto simp: a get_array_def json_get_remove json_get_insert)
  then have ids: "call_ids a = ids_of cs" by (simp add: call_ids_def)
  show "call_ids a = map pc_id calls" "distinct (map pc_id calls)"
    "map pc_id calls = ids_of (normalized_assistant_tool_calls parse m)"
    using ok ids calls by (auto simp: call_list_ok_def cs_def)
qed


section \<open>The two invariants of the normalisation\<close>

definition waiting :: "normalizer \<Rightarrow> string list" where
  "waiting n = map pc_id (n_pending n)"

definition scan_orphans :: "json list \<Rightarrow> string list option" where
  "scan_orphans ms = foldl no_orphan_step (Some []) ms"

definition scan_answers :: "json list \<Rightarrow> string list option" where
  "scan_answers ms = foldl answered_step (Some []) ms"

lemma scan_snoc [simp]:
  "scan_orphans (ms @ [m]) = no_orphan_step (scan_orphans ms) m"
  "scan_answers (ms @ [m]) = answered_step (scan_answers ms) m"
  by (simp_all add: scan_orphans_def scan_answers_def)

lemma dropWhile_suffix:
  assumes "suffix (i # rest) w" "distinct w"
  shows "dropWhile (\<lambda>j. j \<noteq> i) w = i # rest"
proof -
  from assms obtain pre where w: "w = pre @ i # rest" by (auto simp: suffix_def)
  with assms(2) have "\<forall>j\<in>set pre. j \<noteq> i" by auto
  then show ?thesis by (simp add: w dropWhile_append2 dropWhile_append)
qed

definition orphan_inv :: "json list \<Rightarrow> string list \<Rightarrow> bool" where
  "orphan_inv out pend \<longleftrightarrow> (\<exists>w. scan_orphans out = Some w \<and> distinct w \<and> suffix pend w)"

lemma orphan_inv_tool:
  assumes "orphan_inv out (i # rest)" "role_of m = ''tool''" "get_str m ''tool_call_id'' = Some i"
  shows "orphan_inv (out @ [m]) rest"
proof -
  from assms(1) obtain w where w: "scan_orphans out = Some w" "distinct w" "suffix (i # rest) w"
    by (auto simp: orphan_inv_def)
  then have d: "dropWhile (\<lambda>j. j \<noteq> i) w = i # rest" by (blast intro: dropWhile_suffix)
  have "distinct rest" using w(2,3) by (auto simp: suffix_def)
  then show ?thesis using w(1) assms(2,3) d by (simp add: orphan_inv_def)
qed

lemma orphan_inv_tl: "orphan_inv out (i # rest) \<Longrightarrow> orphan_inv out rest"
  unfolding orphan_inv_def by (meson suffix_ConsD)

lemma orphan_inv_other:
  "orphan_inv out w \<Longrightarrow> role_of m \<notin> {''assistant'', ''tool''} \<Longrightarrow> orphan_inv (out @ [m]) w"
  by (auto simp: orphan_inv_def)

lemma append_synthetic_orphans:
  "orphan_inv out (map pc_id cs @ rest) \<Longrightarrow> append_synthetic cs (out, em) = (out', em') \<Longrightarrow> orphan_inv out' rest"
proof (induction cs arbitrary: out em)
  case (Cons c cs)
  show ?case
  proof (cases "pc_id c \<in> em")
    case True
    with Cons orphan_inv_tl show ?thesis by fastforce
  next
    case False
    have "orphan_inv (out @ [synthetic_output c]) (map pc_id cs @ rest)"
      using Cons.prems(1) by (intro orphan_inv_tool) auto
    with Cons False show ?thesis by simp
  qed
qed simp

text \<open>With identifiers that are used once, the synthetic outputs leave no call unanswered.\<close>

definition answer_inv :: "normalizer \<Rightarrow> bool" where
  "answer_inv n \<longleftrightarrow> scan_answers (n_out n) = Some (waiting n) \<and> distinct (waiting n) \<and> n_emitted n \<inter> set (waiting n) = {}"

lemma append_synthetic_answers:
  "scan_answers out = Some (map pc_id cs @ rest) \<Longrightarrow> distinct (map pc_id cs) \<Longrightarrow> em \<inter> set (map pc_id cs) = {} \<Longrightarrow>
   append_synthetic cs (out, em) = (out', em') \<Longrightarrow> scan_answers out' = Some rest \<and> em' = em \<union> set (map pc_id cs)"
proof (induction cs arbitrary: out em)
  case (Cons c cs)
  then have "scan_answers (out @ [synthetic_output c]) = Some (map pc_id cs @ rest)" by simp
  with Cons.IH [OF this, of "insert (pc_id c) em"] Cons.prems show ?case by auto
qed simp

lemma pending_at:
  assumes "position (\<lambda>c. pc_id c = i) (n_pending n) = Some k"
  shows "waiting n = map pc_id (take k (n_pending n)) @ i # map pc_id (drop (Suc k) (n_pending n))"
    "pc_id (n_pending n ! k) = i"
proof -
  from assms have k: "k < length (n_pending n)" "pc_id (n_pending n ! k) = i" by (auto simp: position_Some)
  then show "waiting n = map pc_id (take k (n_pending n)) @ i # map pc_id (drop (Suc k) (n_pending n))"
    by (metis waiting_def id_take_nth_drop list.simps(9) map_append)
  show "pc_id (n_pending n ! k) = i" by fact
qed

lemma orphan_message_role:
  "orphan_tool_output_context_message m i = Some c \<Longrightarrow> role_of c = ''user''"
  by (auto simp: orphan_tool_output_context_message_def Let_def split: if_splits)

lemma flush_pending_orphans: "orphan_inv (n_out n) (waiting n) \<Longrightarrow> orphan_inv (n_out (flush_pending n)) [] \<and> n_pending (flush_pending n) = []"
  using append_synthetic_orphans [of "n_out n" "n_pending n" "[]"]
  by (auto simp: flush_pending_def waiting_def split: prod.split)

lemma normalize_step_orphans:
  assumes "orphan_inv (n_out n) (waiting n)"
  shows "orphan_inv (n_out (normalize_step parse n m)) (waiting (normalize_step parse n m))"
proof -
  note fl = flush_pending_orphans [OF assms]
  consider (a) "role_of m = ''assistant''" | (t) "role_of m = ''tool''" | (o) "role_of m \<notin> {''assistant'', ''tool''}" by blast
  then show ?thesis
  proof cases
    case a
    show ?thesis
    proof (cases "normalized_assistant_message parse m")
      case None
      with a fl show ?thesis by (simp add: normalize_step_def role_of_def Let_def waiting_def)
    next
      case (Some ac)
      obtain x calls where ac: "ac = (x, calls)" by fastforce
      note rd = normalized_assistant_read [OF Some [unfolded ac]]
      from fl obtain w where "scan_orphans (n_out (flush_pending n)) = Some w" by (auto simp: orphan_inv_def)
      with a Some ac rd show ?thesis
        by (simp add: normalize_step_def role_of_def Let_def waiting_def orphan_inv_def)
    qed
  next
    case t
    then have role: "get_str m ''role'' = Some ''tool''" by (cases "get_str m ''role''") (auto simp: role_of_def)
    have orph: "orphan_inv (n_out n @ [c]) (waiting n)" if "orphan_tool_output_context_message m i = Some c" for i c
      using that assms by (intro orphan_inv_other) (auto dest: orphan_message_role)
    show ?thesis
    proof (cases "\<exists>i k. get_str m ''tool_call_id'' = Some i \<and> position (\<lambda>c. pc_id c = i) (n_pending n) = Some k")
      case False
      then have "normalize_step parse n m = n \<or>
         (\<exists>i c. orphan_tool_output_context_message m i = Some c \<and> normalize_step parse n m = n\<lparr> n_out := n_out n @ [c] \<rparr>)"
        using role by (auto simp: normalize_step_def normalize_tool_def split: option.splits)
      then show ?thesis using assms orph by (auto simp: waiting_def)
    next
      case True
      then obtain i k where i: "get_str m ''tool_call_id'' = Some i"
        and k: "position (\<lambda>c. pc_id c = i) (n_pending n) = Some k" by blast
      obtain out em where sy: "append_synthetic (take k (n_pending n)) (n_out n, n_emitted n) = (out, em)" by fastforce
      have "orphan_inv out (i # map pc_id (drop (Suc k) (n_pending n)))"
        using append_synthetic_orphans [OF _ sy] assms pending_at(1) [OF k] by simp
      then have "orphan_inv (out @ [normalized_tool_message m i (pc_name (n_pending n ! k))]) (map pc_id (drop (Suc k) (n_pending n)))"
        using normalized_tool_read [OF role] by (rule orphan_inv_tool)
      then show ?thesis
        using role i k sy pending_at(2) [OF k] by (simp add: normalize_step_def normalize_tool_def waiting_def)
    qed
  next
    case o
    then have "orphan_inv (n_out (flush_pending n) @ [m]) []" using fl by (intro orphan_inv_other) auto
    then show ?thesis using o fl by (simp add: normalize_step_def role_of_def Let_def waiting_def)
  qed
qed


definition msg_ids :: "parser \<Rightarrow> json \<Rightarrow> string list" where
  "msg_ids parse m = (if role_of m = ''assistant'' then ids_of (normalized_assistant_tool_calls parse m) else [])"

definition used :: "normalizer \<Rightarrow> string set" where
  "used n = n_emitted n \<union> set (waiting n)"

lemma flush_pending_answers:
  assumes "answer_inv n"
  shows "scan_answers (n_out (flush_pending n)) = Some [] \<and> n_pending (flush_pending n) = [] \<and>
    n_emitted (flush_pending n) = used n"
  using assms append_synthetic_answers [of "n_out n" "n_pending n" "[]" "n_emitted n"]
  by (auto simp: answer_inv_def flush_pending_def waiting_def used_def split: prod.split)

lemma normalize_tool_answers:
  assumes inv: "answer_inv n" and role: "get_str m ''role'' = Some ''tool''"
  shows "answer_inv (normalize_tool n m) \<and> used (normalize_tool n m) \<subseteq> used n"
proof (cases "\<exists>i k. get_str m ''tool_call_id'' = Some i \<and> position (\<lambda>c. pc_id c = i) (n_pending n) = Some k")
  case False
  then have "normalize_tool n m = n \<or>
     (\<exists>i c. orphan_tool_output_context_message m i = Some c \<and> normalize_tool n m = n\<lparr> n_out := n_out n @ [c] \<rparr>)"
    by (auto simp: normalize_tool_def split: option.splits)
  then show ?thesis
    using inv by (auto simp: answer_inv_def waiting_def used_def dest: orphan_message_role)
next
  case True
  then obtain i k where i: "get_str m ''tool_call_id'' = Some i"
    and k: "position (\<lambda>c. pc_id c = i) (n_pending n) = Some k" by blast
  let ?before = "map pc_id (take k (n_pending n))" and ?after = "map pc_id (drop (Suc k) (n_pending n))"
  obtain out em where sy: "append_synthetic (take k (n_pending n)) (n_out n, n_emitted n) = (out, em)" by fastforce
  have w: "waiting n = ?before @ i # ?after" using pending_at(1) [OF k] .
  have b: "scan_answers (n_out n) = Some (?before @ i # ?after)" "distinct (?before @ i # ?after)"
    "n_emitted n \<inter> set (?before @ i # ?after) = {}"
    using inv w by (simp_all add: answer_inv_def)
  with append_synthetic_answers [OF _ _ _ sy, of "i # ?after"]
  have out: "scan_answers out = Some (i # ?after)" and em: "em = n_emitted n \<union> set ?before" by auto
  have n': "normalize_tool n m = n\<lparr> n_out := out @ [normalized_tool_message m i (pc_name (n_pending n ! k))],
      n_emitted := insert i em, n_pending := drop (Suc k) (n_pending n) \<rparr>"
    using i k sy pending_at(2) [OF k] by (simp add: normalize_tool_def)
  have "insert i em \<inter> set ?after = {}" "distinct ?after" using b(2,3) unfolding em by auto
  moreover have "insert i em \<union> set ?after = used n" unfolding em used_def w by auto
  ultimately show ?thesis
    using out normalized_tool_read [OF role] by (simp add: n' answer_inv_def waiting_def used_def)
qed

lemma normalize_step_answers:
  assumes inv: "answer_inv n" and fresh: "set (msg_ids parse m) \<inter> used n = {}"
  shows "answer_inv (normalize_step parse n m) \<and> used (normalize_step parse n m) \<subseteq> used n \<union> set (msg_ids parse m)"
proof -
  note fl = flush_pending_answers [OF inv]
  consider (a) "role_of m = ''assistant''" | (t) "role_of m = ''tool''" | (o) "role_of m \<notin> {''assistant'', ''tool''}" by blast
  then show ?thesis
  proof cases
    case a
    show ?thesis
    proof (cases "normalized_assistant_message parse m")
      case None
      with a fl show ?thesis by (simp add: normalize_step_def role_of_def Let_def waiting_def answer_inv_def used_def)
    next
      case (Some ac)
      obtain x calls where ac: "ac = (x, calls)" by fastforce
      note rd = normalized_assistant_read [OF Some [unfolded ac]]
      have ids: "map pc_id calls = msg_ids parse m" using rd(4) a by (simp add: msg_ids_def)
      have "normalize_step parse n m =
          (flush_pending n)\<lparr> n_out := n_out (flush_pending n) @ [x], n_pending := calls \<rparr>"
        using a Some ac by (simp add: normalize_step_def role_of_def Let_def)
      then show ?thesis using fl fresh rd(1,2,3) ids by (auto simp: answer_inv_def waiting_def used_def)
    qed
  next
    case t
    then have role: "get_str m ''role'' = Some ''tool''" by (cases "get_str m ''role''") (auto simp: role_of_def)
    then have "normalize_step parse n m = normalize_tool n m" by (simp add: normalize_step_def)
    with normalize_tool_answers [OF inv role] show ?thesis by auto
  next
    case o
    then have "normalize_step parse n m = (flush_pending n)\<lparr> n_out := n_out (flush_pending n) @ [m] \<rparr>"
      by (simp add: normalize_step_def role_of_def Let_def)
    then show ?thesis using o fl by (simp add: answer_inv_def waiting_def used_def)
  qed
qed

lemma normalize_all_answers:
  "answer_inv n \<Longrightarrow> distinct (concat (map (msg_ids parse) ms)) \<Longrightarrow>
   set (concat (map (msg_ids parse) ms)) \<inter> used n = {} \<Longrightarrow> answer_inv (foldl (normalize_step parse) n ms)"
proof (induction ms arbitrary: n)
  case (Cons m ms)
  have "set (msg_ids parse m) \<inter> used n = {}" using Cons.prems by auto
  note st = normalize_step_answers [OF Cons.prems(1) this]
  have "set (concat (map (msg_ids parse) ms)) \<inter> used (normalize_step parse n m) = {}"
    using st Cons.prems(2,3) by fastforce
  with Cons st show ?case by simp
qed simp

interpretation normalisation: invariant_machine "normalize_step parse" "\<lambda>n. orphan_inv (n_out n) (waiting n)" "\<lambda>_. True" for parse
  by unfold_locales (rule normalize_step_orphans)

lemma start_inv: "orphan_inv (n_out normalizer_start) (waiting normalizer_start)" "answer_inv normalizer_start" "used normalizer_start = {}"
  by (simp_all add: orphan_inv_def answer_inv_def normalizer_start_def waiting_def scan_orphans_def scan_answers_def used_def)

lemma normalize_no_orphans: "no_orphans (normalize_provider_messages parse ms)"
proof -
  have "orphan_inv (n_out (foldl (normalize_step parse) normalizer_start ms)) (waiting (foldl (normalize_step parse) normalizer_start ms))"
    by (rule normalisation.run_keeps) (simp_all add: start_inv)
  from flush_pending_orphans [OF this] show ?thesis
    by (auto simp: normalize_provider_messages_def no_orphans_def orphan_inv_def scan_orphans_def)
qed

section \<open>Resume, fork and rollback of a session\<close>

definition response_content_part_text :: "json \<Rightarrow> string \<Rightarrow> json option" where
  "response_content_part_text part text_type =
     map_option (\<lambda>t. JObj [(''text'', JStr t), (''type'', JStr text_type)])
       (opt_filter (\<lambda>t. t \<noteq> []) (get_str part ''text''))"

definition part_image_url :: "json \<Rightarrow> string option" where
  "part_image_url part =
     or_else (or_else (Option.bind (json_get part ''image_url'') (\<lambda>v. or_else (as_str v) (get_str v ''url'')))
                (get_str part ''url''))
       (map_option (\<lambda>data. ''data:'' @ unwrap_or ''image/png'' (get_str part ''mime_type'') @ '';base64,'' @ data)
          (get_str part ''data''))"

definition response_content_part :: "json \<Rightarrow> string \<Rightarrow> json option" where
  "response_content_part part text_type =
     (case get_str part ''type'' of
        None \<Rightarrow> response_content_part_text part text_type
      | Some ty \<Rightarrow>
          if ty \<in> {''input_image'', ''image'', ''image_url'', ''output_image''}
          then map_option (\<lambda>url. JObj ((case get_str part ''detail'' of Some d \<Rightarrow> [(''detail'', JStr d)] | None \<Rightarrow> []) @
                 [(''image_url'', JStr url), (''type'', JStr ''input_image'')])) (part_image_url part)
          else if is_text_part_type ty then response_content_part_text part text_type
          else None)"

definition message_content_parts_for_response_item :: "json \<Rightarrow> string \<Rightarrow> json list" where
  "message_content_parts_for_response_item m role =
     (let part_type = (if role = ''assistant'' then ''output_text'' else ''input_text'') in
      case json_get m ''content'' of
        Some (JStr t) \<Rightarrow> if t = [] then [] else [JObj [(''text'', JStr t), (''type'', JStr part_type)]]
      | Some (JArr parts) \<Rightarrow> List.map_filter (\<lambda>part. response_content_part part part_type) parts
      | _ \<Rightarrow> [])"

definition message_tool_output_for_response_item :: "json \<Rightarrow> json" where
  "message_tool_output_for_response_item m =
     (let content = message_content_parts_for_response_item m ''user'' in
      if list_ex (\<lambda>part. get_str part ''type'' = Some ''input_image'') content then JArr content
      else JStr (message_content_text m))"

definition call_item :: "json \<Rightarrow> json option" where
  "call_item call =
     map_option (\<lambda>i. JObj [(''arguments'', JStr (case json_get call ''arguments'' of
                               Some (JStr t) \<Rightarrow> t | Some v \<Rightarrow> show_json v | None \<Rightarrow> ''{}'')),
                         (''call_id'', JStr i), (''name'', JStr (unwrap_or ''tool'' (get_str call ''name''))),
                         (''type'', JStr ''function_call'')])
       (tool_call_id_from_value call)"

definition message_item :: "json \<Rightarrow> string \<Rightarrow> json list" where
  "message_item m role =
     (let content = message_content_parts_for_response_item m role in
      if content = [] then []
      else [JObj [(''content'', JArr content), (''role'', JStr role), (''type'', JStr ''message'')]])"

definition items_of_message :: "json \<Rightarrow> json list" where
  "items_of_message m =
     (let role = unwrap_or ''user'' (get_str m ''role'') in
      if role = ''tool''
      then (case get_str m ''tool_call_id'' of
              Some i \<Rightarrow> [JObj [(''call_id'', JStr i), (''output'', message_tool_output_for_response_item m),
                            (''type'', JStr ''function_call_output'')]]
            | None \<Rightarrow> [])
      else (case get_array m ''tool_calls'' of Some calls \<Rightarrow> List.map_filter call_item calls | None \<Rightarrow> []) @
           message_item m role)"

definition provider_messages_to_response_items :: "json list \<Rightarrow> json list" where
  "provider_messages_to_response_items ms = concat (map items_of_message ms)"

definition fork_items_of_message :: "json \<Rightarrow> json list" where
  "fork_items_of_message m =
     (let role = unwrap_or ''user'' (get_str m ''role'') in
      if get_str m ''name'' = Some ''multi_agent_usage_hint'' then []
      else if role \<in> {''system'', ''developer'', ''user''} then message_item m role
      else if role = ''assistant''
      then (case get_array m ''tool_calls'' of
              Some (_ # _) \<Rightarrow> [] | _ \<Rightarrow> message_item m role)
      else [])"

definition provider_messages_to_fork_response_items :: "json list \<Rightarrow> json list" where
  "provider_messages_to_fork_response_items ms = concat (map fork_items_of_message ms)"

definition last_n_fork_turns_start_seq :: "event_record list \<Rightarrow> nat \<Rightarrow> int option" where
  "last_n_fork_turns_start_seq es n =
     (if n = 0 then None
      else let seqs = sort_dedup (map ev_seq (filter is_fork_turn_boundary_event es)) in
        if seqs = [] then None
        else if n \<ge> length seqs then Some 0
        else Some (seqs ! (length seqs - n)))"

definition fork_history_from_events :: "parser \<Rightarrow> event_record list \<Rightarrow> fork_mode \<Rightarrow> json list" where
  "fork_history_from_events parse es mode =
     (case mode of
        ForkNone \<Rightarrow> []
      | ForkAll \<Rightarrow> provider_messages_from_events_for_fork parse es
      | ForkSummary \<Rightarrow> provider_messages_from_events_for_fork parse es
      | ForkLastN n \<Rightarrow>
          let effective = effective_events_after_rollbacks parse es in
          (case last_n_fork_turns_start_seq effective n of
             None \<Rightarrow> if n > 0 then provider_messages_from_events_for_fork parse effective else []
           | Some start \<Rightarrow> provider_messages_from_events_for_fork parse (filter (\<lambda>e. start \<le> ev_seq e) effective)))"

definition history_from_events :: "parser \<Rightarrow> event_record list \<Rightarrow> json list" where
  "history_from_events parse es = provider_messages_from_events parse es"

definition history_after_rollback :: "parser \<Rightarrow> event_record list \<Rightarrow> json list" where
  "history_after_rollback parse es = provider_messages_from_events parse es"

text \<open>The session handle. The durable log is a list of events; the store's append gives the next
  sequence number.\<close>

record session =
  se_id :: string
  se_history :: "json list"
  se_last_seq :: int

definition session_resume :: "parser \<Rightarrow> string \<Rightarrow> event_record list \<Rightarrow> session" where
  "session_resume parse i log =
     \<lparr> se_id = i, se_history = history_from_events parse log,
       se_last_seq = (if log = [] then 0 else ev_seq (last log)) \<rparr>"

definition fork_seed :: "json list \<Rightarrow> json" where
  "fork_seed history =
     JObj [(''fork_response_items'', JArr (provider_messages_to_response_items history)),
           (''history_mode'', JStr ''fork_response_items'')]"

definition session_fork ::
    "parser \<Rightarrow> (string \<Rightarrow> json \<Rightarrow> event_record) \<Rightarrow> string \<Rightarrow> event_record list \<Rightarrow> fork_mode \<Rightarrow> session \<times> event_record list" where
  "session_fork parse new_event child_id log mode =
     (let history = fork_history_from_events parse log mode in
      if history = [] then (\<lparr> se_id = child_id, se_history = history, se_last_seq = 0 \<rparr>, [])
      else let rec = new_event ''agent.context'' (fork_seed history)
           in (\<lparr> se_id = child_id, se_history = history, se_last_seq = ev_seq rec \<rparr>, [rec]))"

definition session_rollback ::
    "parser \<Rightarrow> (string \<Rightarrow> json \<Rightarrow> event_record) \<Rightarrow> session \<Rightarrow> event_record list \<Rightarrow> nat \<Rightarrow> (int \<times> session) \<times> event_record list" where
  "session_rollback parse new_event s log num_turns =
     (let after_seq = rollback_after_seq_for_turns log num_turns;
          rec = new_event ''session.rollback'' (JObj [(''after_seq'', JNum after_seq), (''num_turns'', JNum (int num_turns))]);
          log' = log @ [rec]
      in ((after_seq, s\<lparr> se_history := history_after_rollback parse log', se_last_seq := ev_seq rec \<rparr>), log'))"

section \<open>Where tool outputs are lost\<close>

definition outputs_of :: "json list \<Rightarrow> (string option \<times> string) list" where
  "outputs_of ms = map (\<lambda>m. (get_str m ''tool_call_id'', message_content_text m)) (filter (\<lambda>m. role_of m = ''tool'') ms)"

text \<open>An assistant message with text and a call is stored in a fork's seed as the call followed by
  the text. Replayed, the text closes the call as aborted, and the output that follows is kept only
  as context.\<close>

definition turn_with_text :: "json list" where
  "turn_with_text =
     [assistant_message ''a'' None [] [tool_call_value ''c'' ''t'' (JObj [])], tool_message (JStr ''r'') ''t'' ''c'']"

lemmas read_defs = get_str_def get_array_def get_bool_def Let_def List.map_filter_simps

lemma seed_items:
  "provider_messages_to_response_items turn_with_text =
     [JObj [(''arguments'', JStr ''{}''), (''call_id'', JStr ''c''), (''name'', JStr ''t''), (''type'', JStr ''function_call'')],
      JObj [(''content'', JArr [JObj [(''text'', JStr ''a''), (''type'', JStr ''output_text'')]]), (''role'', JStr ''assistant''),
            (''type'', JStr ''message'')],
      JObj [(''call_id'', JStr ''c''), (''output'', JStr ''r''), (''type'', JStr ''function_call_output'')]]"
  by (simp add: turn_with_text_def provider_messages_to_response_items_def items_of_message_def assistant_message_def
      tool_message_def tool_call_value_def read_defs message_item_def message_content_parts_for_response_item_def
      call_item_def tool_call_id_from_value_def message_tool_output_for_response_item_def message_content_text_def)

lemma seed_messages:
  "response_items_to_provider_messages (\<lambda>_. None) (provider_messages_to_response_items turn_with_text) =
     [JObj [(''content'', JStr []), (''role'', JStr ''assistant''), (''tool_calls'', JArr [tool_call_value ''c'' ''t'' (JObj [])])],
      role_content ''assistant'' (JArr [input_text_part ''a'']),
      tool_message (JStr ''r'') ''t'' ''c'']"
  by (simp add: seed_items response_items_to_provider_messages_def response_item_step_def read_defs
      response_output_item_tool_call_value_def response_input_item_call_id_def response_message_item_provider_message_def
      response_item_content_part_to_message_part_def is_text_part_type_def response_input_item_tool_message_def
      remember_name_def tool_call_id_from_value_def tool_call_value_def response_input_item_output_content_def keep_text_or_array_def
      str_trim_def trim_start_def trim_end_def is_ws_def code_point_def)

lemma fork_loses_tool_output:
  "outputs_of (normalize_provider_messages (\<lambda>_. None) (response_items_to_provider_messages (\<lambda>_. None)
     (provider_messages_to_response_items turn_with_text))) = [(Some ''c'', ''aborted'')]"
  by (simp add: seed_messages normalize_provider_messages_def normalize_step_def normalizer_start_def read_defs
     flush_pending_def normalized_assistant_message_def normalized_assistant_tool_calls_def normalize_call_def tool_call_value_def
     tool_call_id_from_value_def message_content_text_def str_trim_def trim_start_def trim_end_def is_ws_def code_point_def
     pending_of_def role_content_def input_text_part_def parts_text_def normalize_tool_def tool_message_def
     orphan_tool_output_context_message_def synthetic_output_def outputs_of_def role_of_def bt_remove_def)


lemma turn_outputs: "outputs_of turn_with_text = [(Some ''c'', ''r'')]"
  by (simp add: turn_with_text_def outputs_of_def assistant_message_def tool_message_def role_of_def read_defs
      message_content_text_def)

text \<open>A call that reuses an identifier answered before and has no output of its own stays
  unanswered.\<close>

lemma reused_id_unanswered:
  "outputs_of (normalize_provider_messages (\<lambda>_. None) (turn_with_text @ [hd turn_with_text])) = [(Some ''c'', ''r'')]"
  by (simp add: turn_with_text_def assistant_message_def normalize_provider_messages_def normalize_step_def normalizer_start_def read_defs
     flush_pending_def normalized_assistant_message_def normalized_assistant_tool_calls_def normalize_call_def tool_call_value_def
     tool_call_id_from_value_def message_content_text_def str_trim_def trim_start_def trim_end_def is_ws_def code_point_def
     pending_of_def normalize_tool_def tool_message_def normalized_tool_message_def nonblank_text_def
     outputs_of_def role_of_def bt_remove_def)

section \<open>Properties\<close>

text \<open>C32. Every history rebuilt from an event log, whatever the log holds, is one a provider accepts:
  a tool output stands only after the assistant message that made the call, in call order and once.
  This holds for a resumed session, for a fork in every mode and after a rollback.\<close>

theorem history_has_no_orphans:
  "no_orphans (se_history (session_resume parse i log)) \<and>
   no_orphans (se_history (fst (session_fork parse new_event child log mode))) \<and>
   no_orphans (se_history (snd (fst (session_rollback parse new_event s log num_turns))))"
proof -
  have from_log: "no_orphans (provider_messages_from parse b es)" for b es
    by (simp add: provider_messages_from_def provider_messages_from_event_slice_def Let_def normalize_no_orphans
        split: prod.split)
  have nil: "no_orphans []" by (simp add: no_orphans_def)
  then have fork: "no_orphans (fork_history_from_events parse log mode)"
    using from_log
    by (simp add: fork_history_from_events_def provider_messages_from_events_for_fork_def Let_def
        split: fork_mode.split option.split)
  show ?thesis
    using from_log fork nil
    by (simp add: session_resume_def session_fork_def session_rollback_def history_from_events_def
        history_after_rollback_def provider_messages_from_events_def Let_def)
qed

text \<open>When no call identifier is used twice, the normalised history answers every call: the
  outputs of an assistant message's calls all come before the next assistant message, in call
  order, the missing ones as aborted.\<close>

lemma normalisation_answers_calls:
  assumes "distinct (concat (map (msg_ids parse) ms))"
  shows "all_answered (normalize_provider_messages parse ms)"
proof -
  have "answer_inv (foldl (normalize_step parse) normalizer_start ms)"
    using assms by (intro normalize_all_answers) (simp_all add: start_inv)
  from flush_pending_answers [OF this] show ?thesis
    by (simp add: normalize_provider_messages_def all_answered_def scan_answers_def)
qed

lemma normalisation_answers_calls_witness:
  "all_answered (normalize_provider_messages (\<lambda>_. None) turn_with_text)"
  by (rule normalisation_answers_calls)
    (simp add: turn_with_text_def assistant_message_def tool_message_def tool_call_value_def msg_ids_def role_of_def read_defs
      normalized_assistant_tool_calls_def normalize_call_def tool_call_id_from_value_def ids_of_def)

end
