(* ===== verification/Dispatch.thy ===== *)
theory Dispatch
  imports Decision Approval
begin

text \<open>
  Dispatch of a turn's tool calls (\<open>turn/dispatch.rs\<close>). The calls are scheduled in model order until
  cancellation is seen; every scheduled call then waits for the gate (a read guard for a parallel
  call, a write guard for a serial one), runs, and leaves its message in its own slot, from which
  the outputs are drained in model order. The interleavings of the futures are the runs of a step
  relation. \<open>tokio\<close>'s \<open>RwLock\<close> is modelled by what it guarantees: a reader is admitted only while no
  writer holds the gate, a writer only while nobody does; which waiting future is admitted next is
  left open. The registry's dispatch of a call, and \<open>serde_json::from_str\<close> on content parts, are
  parameters.
\<close>

section \<open>Results of one call\<close>

definition browser_script_prefix :: string where
  "browser_script_prefix = CHR 0x0A # ''__browser_script_content__:''"

definition view_image_prefix :: string where
  "view_image_prefix = ''view_image:''"

text \<open>\<open>str::rsplit_once\<close>: the last occurrence.\<close>

definition rsplit_once :: "'a list \<Rightarrow> 'a list \<Rightarrow> ('a list \<times> 'a list) option" where
  "rsplit_once p s = map_option (\<lambda>(a, b). (rev b, rev a)) (split_once (rev p) (rev s))"

definition content_parts_from_browser_script_stdout ::
    "(string \<Rightarrow> content_part list option) \<Rightarrow> string \<Rightarrow> content_part list option" where
  "content_parts_from_browser_script_stdout parse_parts text =
     (case rsplit_once browser_script_prefix text of
        None \<Rightarrow> None
      | Some (_, payload) \<Rightarrow> opt_filter (\<lambda>ps. ps \<noteq> []) (parse_parts (str_trim payload)))"

definition strip_browser_script_content_marker :: "string \<Rightarrow> string" where
  "strip_browser_script_content_marker text =
     (case rsplit_once browser_script_prefix text of Some (visible, _) \<Rightarrow> visible | None \<Rightarrow> text)"

definition media_part_from_view_image_stdout :: "string \<Rightarrow> content_part option" where
  "media_part_from_view_image_stdout text =
     (case strip_pre view_image_prefix text of
        None \<Rightarrow> None
      | Some url \<Rightarrow>
          (case strip_pre ''data:'' url of
             None \<Rightarrow> None
           | Some rest \<Rightarrow>
               (case split_once '';base64,'' rest of
                  None \<Rightarrow> None
                | Some (mime, data) \<Rightarrow>
                    if \<not> starts_with ''image/'' mime \<or> data = [] then None
                    else Some (PMedia mime (Some data) None None))))"

fun call_name :: "content_part \<Rightarrow> string option" where
  "call_name (PToolCall i n inp md) = Some n"
| "call_name _ = None"

fun call_id :: "content_part \<Rightarrow> string" where
  "call_id (PToolCall i n inp md) = i"
| "call_id _ = []"

definition tool_result_content_for ::
    "(string \<Rightarrow> content_part list option) \<Rightarrow> content_part \<Rightarrow> string \<Rightarrow> bool \<Rightarrow> content_part list" where
  "tool_result_content_for parse_parts call text is_error =
     (if call_name call = Some ''browser_script''
      then (case content_parts_from_browser_script_stdout parse_parts text of
              Some parts \<Rightarrow> parts
            | None \<Rightarrow> [part_text (strip_browser_script_content_marker text)])
      else if \<not> is_error \<and> call_name call = Some ''view_image''
      then (case media_part_from_view_image_stdout text of Some media \<Rightarrow> [media] | None \<Rightarrow> [part_text text])
      else [part_text text])"

definition result_message_for ::
    "(string \<Rightarrow> content_part list option) \<Rightarrow> content_part \<Rightarrow> string \<Rightarrow> bool \<Rightarrow> message" where
  "result_message_for parse_parts call text is_error =
     message_new RTool [PToolResult (call_id call) (tool_result_content_for parse_parts call text is_error) is_error]"

definition tool_call_namespace :: "json option \<Rightarrow> string option" where
  "tool_call_namespace md = Option.bind md (\<lambda>v. get_str v ''namespace'')"

definition tool_display_name :: "string option \<Rightarrow> string \<Rightarrow> string" where
  "tool_display_name ns name = (case ns of Some n \<Rightarrow> n @ name | None \<Rightarrow> name)"

text \<open>The registry runner. \<open>registry\<close> is the outcome of the registry's dispatch under the display name
  and call identifier put into the context; its error is given in its \<open>Debug\<close> form.\<close>

type_synonym registry_dispatch = "string option \<Rightarrow> string \<Rightarrow> json \<Rightarrow> string \<Rightarrow> string \<Rightarrow> string + exec_output"

definition registry_run ::
    "(string \<Rightarrow> content_part list option) \<Rightarrow> registry_dispatch \<Rightarrow> content_part \<Rightarrow> message" where
  "registry_run parse_parts registry call =
     (case call of
        PToolCall i name input md \<Rightarrow>
          let ns = tool_call_namespace md in
          (case registry ns name input i (tool_display_name ns name) of
             Inr out \<Rightarrow> result_message_for parse_parts call (if exec_stdout out \<noteq> [] then exec_stdout out else exec_stderr out) (exit_code out \<noteq> 0)
           | Inl err \<Rightarrow> result_message_for parse_parts call err True)
      | _ \<Rightarrow> result_message_for parse_parts call ''not a tool call'' True)"

definition registry_parallel_safe :: "(string option \<Rightarrow> string \<Rightarrow> bool option) \<Rightarrow> content_part \<Rightarrow> bool" where
  "registry_parallel_safe safe call =
     (case call of PToolCall i name input md \<Rightarrow> unwrap_or False (safe (tool_call_namespace md) name) | _ \<Rightarrow> False)"

definition preserves_result_on_cancel :: "content_part \<Rightarrow> bool" where
  "preserves_result_on_cancel call \<longleftrightarrow> call_name call = Some ''exec_command''"

text \<open>\<open>elapsed\<close> is the printed running time.\<close>

definition aborted_result_message_for ::
    "(string \<Rightarrow> content_part list option) \<Rightarrow> content_part \<Rightarrow> string \<Rightarrow> message" where
  "aborted_result_message_for parse_parts call elapsed =
     result_message_for parse_parts call (''aborted by user after '' @ elapsed @ ''s'') True"

section \<open>The dispatcher\<close>

text \<open>The scheduling loop: \<open>cancelled k\<close> is what \<open>is_cancelled\<close> answers before the \<open>k\<close>-th call.\<close>

fun schedule :: "(nat \<Rightarrow> bool) \<Rightarrow> nat \<Rightarrow> 'a list \<Rightarrow> 'a list" where
  "schedule cancelled k [] = []"
| "schedule cancelled k (c # cs) = (if cancelled k then [] else c # schedule cancelled (k + 1) cs)"

datatype slot = Waiting | Running | Finished message

record dispatch_state =
  d_slots :: "slot list"
  d_cancelled :: bool

record dispatch_env =
  e_calls :: "content_part list"
  e_parallel :: "content_part \<Rightarrow> bool"
  e_model_parallel :: bool
  e_run :: "content_part \<Rightarrow> message"
  e_parse :: "string \<Rightarrow> content_part list option"

definition parallelism_of :: "dispatch_env \<Rightarrow> nat \<Rightarrow> tool_parallelism" where
  "parallelism_of env i = classify_parallelism (e_parallel env (e_calls env ! i)) (e_model_parallel env)"

definition dispatch_start :: "dispatch_env \<Rightarrow> bool \<Rightarrow> dispatch_state" where
  "dispatch_start env c = \<lparr> d_slots = map (\<lambda>_. Waiting) (e_calls env), d_cancelled = c \<rparr>"

definition running :: "dispatch_state \<Rightarrow> nat \<Rightarrow> bool" where
  "running d i \<longleftrightarrow> i < length (d_slots d) \<and> d_slots d ! i = Running"

definition admits :: "dispatch_env \<Rightarrow> dispatch_state \<Rightarrow> nat \<Rightarrow> bool" where
  "admits env d i =
     (case parallelism_of env i of
        Parallel \<Rightarrow> \<forall>j < length (d_slots d). running d j \<longrightarrow> parallelism_of env j = Parallel
      | Serial \<Rightarrow> \<forall>j < length (d_slots d). \<not> running d j)"

text \<open>\<open>run_one\<close>: a call that keeps its result runs to its end; any other is answered by the
  cancellation branch of the biased \<open>select!\<close> as soon as the token is cancelled.\<close>

inductive dispatch_step :: "dispatch_env \<Rightarrow> dispatch_state \<Rightarrow> dispatch_state \<Rightarrow> bool" for env where
  cancel: "dispatch_step env d (d\<lparr> d_cancelled := True \<rparr>)"
| enter: "i < length (d_slots d) \<Longrightarrow> d_slots d ! i = Waiting \<Longrightarrow> admits env d i \<Longrightarrow>
    dispatch_step env d (d\<lparr> d_slots := (d_slots d)[i := Running] \<rparr>)"
| leave: "running d i \<Longrightarrow> preserves_result_on_cancel (e_calls env ! i) \<or> \<not> d_cancelled d \<Longrightarrow>
    dispatch_step env d (d\<lparr> d_slots := (d_slots d)[i := Finished (e_run env (e_calls env ! i))] \<rparr>)"
| abort: "running d i \<Longrightarrow> \<not> preserves_result_on_cancel (e_calls env ! i) \<Longrightarrow> d_cancelled d \<Longrightarrow>
    dispatch_step env d (d\<lparr> d_slots := (d_slots d)[i := Finished (aborted_result_message_for (e_parse env) (e_calls env ! i) elapsed)] \<rparr>)"

inductive_cases dispatch_stepE: "dispatch_step env d d'"

fun is_finished :: "slot \<Rightarrow> bool" where
  "is_finished (Finished m) = True"
| "is_finished _ = False"

definition all_finished :: "dispatch_state \<Rightarrow> bool" where
  "all_finished d = list_all is_finished (d_slots d)"

definition outputs_in_order :: "dispatch_state \<Rightarrow> message list" where
  "outputs_in_order d = List.map_filter (\<lambda>s. case s of Finished m \<Rightarrow> Some m | _ \<Rightarrow> None) (d_slots d)"

definition needs_follow_up_dispatch :: "content_part list \<Rightarrow> bool" where
  "needs_follow_up_dispatch calls \<longleftrightarrow> calls \<noteq> []"

section \<open>Invariants\<close>

definition answers :: "content_part \<Rightarrow> message \<Rightarrow> bool" where
  "answers call m \<longleftrightarrow> (\<exists>content e. m = message_new RTool [PToolResult (call_id call) content e])"

lemma result_answers [simp]: "answers call (result_message_for pp call text e)"
  by (auto simp: answers_def result_message_for_def)

lemma registry_run_answers [simp]: "answers call (registry_run pp registry call)"
  by (cases call) (auto simp: registry_run_def Let_def split: sum.split)

lemma aborted_answers [simp]: "answers call (aborted_result_message_for pp call elapsed)"
  by (simp add: aborted_result_message_for_def)

definition gate_ok :: "dispatch_env \<Rightarrow> dispatch_state \<Rightarrow> bool" where
  "gate_ok env d \<longleftrightarrow> (\<forall>i j. running d i \<and> running d j \<and> parallelism_of env i = Serial \<longrightarrow> i = j)"

definition slots_ok :: "dispatch_env \<Rightarrow> dispatch_state \<Rightarrow> bool" where
  "slots_ok env d \<longleftrightarrow> length (d_slots d) = length (e_calls env) \<and>
     (\<forall>i < length (d_slots d). \<forall>m. d_slots d ! i = Finished m \<longrightarrow> answers (e_calls env ! i) m)"

lemma running_update: "running (d\<lparr> d_slots := (d_slots d)[i := s] \<rparr>) j \<longleftrightarrow> (if i = j then i < length (d_slots d) \<and> s = Running else running d j)"
  by (auto simp: running_def nth_list_update)

lemma gate_step: "dispatch_step env d d' \<Longrightarrow> gate_ok env d \<Longrightarrow> gate_ok env d'"
proof (induction rule: dispatch_step.induct)
  case (enter i d)
  have "\<And>j. running d j \<Longrightarrow> j < length (d_slots d)" by (simp add: running_def)
  with enter show ?case
    unfolding gate_ok_def running_update admits_def
    by (auto split: tool_parallelism.splits if_splits)
next
  case (cancel d)
  then show ?case by (simp add: gate_ok_def running_def)
qed (auto simp: gate_ok_def running_update split: if_splits)

lemma slots_step:
  "dispatch_step env d d' \<Longrightarrow> (\<And>c. answers c (e_run env c)) \<Longrightarrow> slots_ok env d \<Longrightarrow> slots_ok env d'"
  by (induction rule: dispatch_step.induct) (auto simp: slots_ok_def running_def nth_list_update split: if_splits)

abbreviation dispatch_run :: "dispatch_env \<Rightarrow> dispatch_state \<Rightarrow> dispatch_state \<Rightarrow> bool" where
  "dispatch_run env \<equiv> (dispatch_step env)\<^sup>*\<^sup>*"

lemma start_ok: "gate_ok env (dispatch_start env c)" "slots_ok env (dispatch_start env c)"
  by (auto simp: gate_ok_def slots_ok_def dispatch_start_def running_def)

lemma run_ok:
  assumes "dispatch_run env (dispatch_start env c) d" "\<And>c. answers c (e_run env c)"
  shows "gate_ok env d" "slots_ok env d"
  using assms(1) by (induction rule: rtranclp_induct) (auto simp: start_ok intro: gate_step slots_step assms(2))

text \<open>Work left: two steps for a waiting call, one for a running one.\<close>

definition work_left :: "dispatch_state \<Rightarrow> nat" where
  "work_left d = sum_list (map (\<lambda>s. case s of Waiting \<Rightarrow> 2 | Running \<Rightarrow> 1 | Finished _ \<Rightarrow> 0) (d_slots d))"

lemma sum_list_update_less:
  "i < length xs \<Longrightarrow> f y < f (xs ! i) \<Longrightarrow> sum_list (map f (xs[i := y])) < sum_list (map f xs)" for f :: "'a \<Rightarrow> nat"
proof (induction xs arbitrary: i)
  case (Cons x xs)
  then show ?case by (cases i) auto
qed simp


lemma step_progress:
  assumes "\<not> all_finished d"
  shows "\<exists>d'. dispatch_step env d d' \<and> work_left d' < work_left d"
proof (cases "\<exists>i. running d i")
  case True
  then obtain i where i: "running d i" by blast
  then obtain m where "dispatch_step env d (d\<lparr> d_slots := (d_slots d)[i := Finished m] \<rparr>)"
    using dispatch_step.leave [OF i] dispatch_step.abort [OF i] by blast
  moreover have "work_left (d\<lparr> d_slots := (d_slots d)[i := Finished m] \<rparr>) < work_left d"
    using i unfolding work_left_def by (simp add: running_def sum_list_update_less)
  ultimately show ?thesis by blast
next
  case False
  from assms obtain i where i: "i < length (d_slots d)" "\<not> is_finished (d_slots d ! i)"
    by (auto simp: all_finished_def list_all_length)
  with False have w: "d_slots d ! i = Waiting" by (cases "d_slots d ! i") (auto simp: running_def)
  have "admits env d i" using False by (simp add: admits_def split: tool_parallelism.split)
  then have "dispatch_step env d (d\<lparr> d_slots := (d_slots d)[i := Running] \<rparr>)"
    using i(1) w by (intro dispatch_step.enter)
  moreover have "work_left (d\<lparr> d_slots := (d_slots d)[i := Running] \<rparr>) < work_left d"
    using i(1) w unfolding work_left_def by (simp add: sum_list_update_less)
  ultimately show ?thesis by blast
qed

lemma run_finishes: "\<exists>d'. dispatch_run env d d' \<and> all_finished d'"
proof (induction "work_left d" arbitrary: d rule: less_induct)
  case less
  show ?case
  proof (cases "all_finished d")
    case False
    then obtain d1 where "dispatch_step env d d1" "work_left d1 < work_left d" using step_progress by blast
    with less show ?thesis by (meson converse_rtranclp_into_rtranclp)
  qed auto
qed

lemma outputs_when_finished:
  assumes "slots_ok env d" "all_finished d"
  shows "list_all2 answers (e_calls env) (outputs_in_order d)"
proof -
  have "list_all2 answers cs (List.map_filter (\<lambda>s. case s of Finished m \<Rightarrow> Some m | _ \<Rightarrow> None) ss)"
    if "list_all is_finished ss"
      "list_all2 (\<lambda>c s. \<forall>m. s = Finished m \<longrightarrow> answers c m) cs ss" for cs ss
    using that(2,1) by (induction rule: list_all2_induct) (auto simp: List.map_filter_simps split: slot.splits)
  moreover have "list_all2 (\<lambda>c s. \<forall>m. s = Finished m \<longrightarrow> answers c m) (e_calls env) (d_slots d)"
    using assms(1) by (simp add: slots_ok_def list_all2_conv_all_nth)
  ultimately show ?thesis
    using assms(2) unfolding outputs_in_order_def all_finished_def by blast
qed

definition production_env ::
    "(string \<Rightarrow> content_part list option) \<Rightarrow> registry_dispatch \<Rightarrow> (string option \<Rightarrow> string \<Rightarrow> bool option) \<Rightarrow> bool
      \<Rightarrow> (nat \<Rightarrow> bool) \<Rightarrow> content_part list \<Rightarrow> dispatch_env" where
  "production_env pp registry safe model_parallel cancelled calls =
     \<lparr> e_calls = schedule cancelled 0 calls, e_parallel = registry_parallel_safe safe, e_model_parallel = model_parallel,
       e_run = registry_run pp registry, e_parse = pp \<rparr>"

lemma schedule_prefix: "prefix (schedule cancelled k cs) cs"
  by (induction cancelled k cs rule: schedule.induct) auto

section \<open>Properties\<close>

text \<open>C24. The gate is exclusive for serial calls: in no state reachable by any interleaving does a
  serial call run beside another one.\<close>

theorem serial_call_runs_alone:
  assumes "dispatch_run env (dispatch_start env c) d" "running d i" "parallelism_of env i = Serial" "running d j"
  shows "j = i"
proof -
  have "gate_ok env d"
    using assms(1) by (induction rule: rtranclp_induct) (auto simp: start_ok intro: gate_step)
  then show ?thesis using assms by (auto simp: gate_ok_def)
qed

definition demo_dispatch :: dispatch_env where
  "demo_dispatch = production_env (\<lambda>_. None) (\<lambda>_ _ _ _ _. Inl ''e'') (\<lambda>_ _. None) True (\<lambda>_. False) [PToolCall ''i'' ''n'' JNull None]"

lemma demo_dispatch_calls [simp]: "e_calls demo_dispatch = [PToolCall ''i'' ''n'' JNull None]"
  by (simp add: demo_dispatch_def production_env_def)

lemma demo_dispatch_serial: "parallelism_of demo_dispatch 0 = Serial"
  by (simp add: parallelism_of_def demo_dispatch_def production_env_def registry_parallel_safe_def classify_parallelism_def)

lemma demo_dispatch_run:
  "dispatch_run demo_dispatch (dispatch_start demo_dispatch False) \<lparr> d_slots = [Running], d_cancelled = False \<rparr>"
proof -
  have "dispatch_step demo_dispatch (dispatch_start demo_dispatch False)
     ((dispatch_start demo_dispatch False)\<lparr> d_slots := (d_slots (dispatch_start demo_dispatch False))[0 := Running] \<rparr>)"
    by (rule dispatch_step.enter) (simp_all add: dispatch_start_def admits_def demo_dispatch_serial running_def)
  then show ?thesis by (simp add: dispatch_start_def r_into_rtranclp)
qed

theorem serial_call_runs_alone_witness:
  "{j. running \<lparr> d_slots = [Running], d_cancelled = False \<rparr> j} = {0}"
proof -
  have r: "running \<lparr> d_slots = [Running], d_cancelled = False \<rparr> 0" by (simp add: running_def)
  then show ?thesis using serial_call_runs_alone [OF demo_dispatch_run r demo_dispatch_serial] by blast
qed

text \<open>C23. Every dispatch ends with its outputs in model order: from any state reachable by any
  interleaving the scheduled calls can run to their end, and whenever they have ended, the
  outputs are one message per scheduled call, in the order of the calls, each naming its call;
  the scheduled calls are a prefix of the model's.\<close>

theorem dispatch_answers_in_order:
  assumes "dispatch_run env (dispatch_start env c) d" "env = production_env pp registry safe mp cancelled calls"
  shows "(\<exists>d'. dispatch_run env d d' \<and> all_finished d') \<and>
    (all_finished d \<longrightarrow> list_all2 answers (schedule cancelled 0 calls) (outputs_in_order d)) \<and>
    prefix (schedule cancelled 0 calls) calls"
proof -
  have "slots_ok env d"
    by (rule run_ok(2) [OF assms(1)]) (simp add: assms(2) production_env_def)
  then have "all_finished d \<Longrightarrow> list_all2 answers (e_calls env) (outputs_in_order d)"
    by (rule outputs_when_finished)
  then show ?thesis using run_finishes [of env d] schedule_prefix by (simp add: assms(2) production_env_def)
qed

theorem dispatch_answers_in_order_witness:
  "\<exists>d'. dispatch_run demo_dispatch \<lparr> d_slots = [Running], d_cancelled = False \<rparr> d' \<and> all_finished d'"
  using dispatch_answers_in_order [OF demo_dispatch_run demo_dispatch_def] by blast

end
