(* ===== verification/TaskDriver.thy ===== *)
theory TaskDriver
  imports Schema
begin

text \<open>
  The task driver (\<open>task/driver.rs\<close>, \<open>task/abort.rs\<close>): one slot for the active turn, the spawned task
  of every turn and the abort sequence run concurrently. The steps between two points where other
  threads may act are the transitions of a relation: the two halves of \<open>start_task\<close> (spawn, then
  install), the steps of the spawned future after \<open>run\<close> returns (check the token, emit, leave the
  slot), and those of \<open>abort_all_tasks\<close> (take the slot, cancel, report). The wait for the task
  to settle or for the grace period to end only delays the report. Turn \<open>n\<close> has the identifier
  \<open>turn-n\<close>.
\<close>

datatype driver_event =
    Started nat
  | Completed nat "string option"
  | Aborted nat turn_abort_reason

definition turn_id_of :: "nat \<Rightarrow> string" where
  "turn_id_of n = ''turn-'' @ show_nat n"

fun lifecycle_of :: "driver_event \<Rightarrow> lifecycle_event" where
  "lifecycle_of (Started n) = TurnStarted (turn_id_of n)"
| "lifecycle_of (Completed n m) = TurnComplete (turn_id_of n) m"
| "lifecycle_of (Aborted n r) = TurnAborted (turn_id_of n) r"

datatype phase = NotStarted | InRun | Completing "string option" | Emitted | Settled | Killed

record driver =
  tk_next :: nat
  tk_slot :: "nat option"
  tk_cancelled :: "nat set"
  tk_phase :: "nat \<Rightarrow> phase"
  tk_installing :: "nat set"
  tk_aborting :: "nat \<Rightarrow> (turn_abort_reason \<times> bool) option"
  tk_events :: "driver_event list"
  tk_markers :: "interrupted_marker list"

definition driver_new :: driver where
  "driver_new = \<lparr> tk_next = 1, tk_slot = None, tk_cancelled = {}, tk_phase = (\<lambda>_. NotStarted), tk_installing = {},
     tk_aborting = (\<lambda>_. None), tk_events = [], tk_markers = [] \<rparr>"

definition has_active_turn :: "driver \<Rightarrow> bool" where
  "has_active_turn d \<longleftrightarrow> tk_slot d \<noteq> None"

definition record_marker :: "interrupted_marker \<Rightarrow> turn_abort_reason \<Rightarrow> interrupted_marker list \<Rightarrow> interrupted_marker list" where
  "record_marker marker r ms = (if r = Interrupted \<and> marker \<noteq> MarkerDisabled then ms @ [marker] else ms)"

text \<open>\<open>marker\<close> is the policy of the driver's configuration.\<close>

inductive driver_step :: "interrupted_marker \<Rightarrow> driver \<Rightarrow> driver \<Rightarrow> bool" for marker where
  spawn: "n = tk_next d \<Longrightarrow>
    driver_step marker d (d\<lparr> tk_next := Suc n, tk_phase := (tk_phase d)(n := InRun), tk_installing := insert n (tk_installing d),
      tk_events := tk_events d @ [Started n] \<rparr>)"
| install: "n \<in> tk_installing d \<Longrightarrow>
    driver_step marker d (d\<lparr> tk_slot := Some n, tk_installing := tk_installing d - {n} \<rparr>)"
| run_returns: "tk_phase d n = InRun \<Longrightarrow>
    driver_step marker d (d\<lparr> tk_phase := (tk_phase d)(n := if n \<in> tk_cancelled d then Settled else Completing msg) \<rparr>)"
| emit: "tk_phase d n = Completing msg \<Longrightarrow>
    driver_step marker d (d\<lparr> tk_phase := (tk_phase d)(n := Emitted), tk_events := tk_events d @ [Completed n msg] \<rparr>)"
| self_remove: "tk_phase d n = Emitted \<Longrightarrow>
    driver_step marker d (d\<lparr> tk_phase := (tk_phase d)(n := Settled), tk_slot := (if tk_slot d = Some n then None else tk_slot d) \<rparr>)"
| abort_take: "tk_slot d = Some n \<Longrightarrow> n \<notin> tk_cancelled d \<Longrightarrow>
    driver_step marker d (d\<lparr> tk_slot := None, tk_aborting := (tk_aborting d)(n := Some (r, False)) \<rparr>)"
| abort_cancel: "tk_aborting d n = Some (r, False) \<Longrightarrow>
    driver_step marker d (d\<lparr> tk_cancelled := insert n (tk_cancelled d), tk_aborting := (tk_aborting d)(n := Some (r, True)) \<rparr>)"
| abort_report: "tk_aborting d n = Some (r, True) \<Longrightarrow>
    driver_step marker d (d\<lparr> tk_aborting := (tk_aborting d)(n := None),
      tk_phase := (tk_phase d)(n := if tk_phase d n = InRun then Killed else tk_phase d n),
      tk_markers := record_marker marker r (tk_markers d), tk_events := tk_events d @ [Aborted n r] \<rparr>)"

inductive_cases driver_stepE: "driver_step marker d d'"

abbreviation driver_run :: "interrupted_marker \<Rightarrow> driver \<Rightarrow> driver \<Rightarrow> bool" where
  "driver_run marker \<equiv> (driver_step marker)\<^sup>*\<^sup>*"

section \<open>Invariant\<close>

fun turn_of :: "driver_event \<Rightarrow> nat" where
  "turn_of (Started n) = n"
| "turn_of (Completed n m) = n"
| "turn_of (Aborted n r) = n"

fun is_completed :: "driver_event \<Rightarrow> bool" where
  "is_completed (Completed n m) = True"
| "is_completed _ = False"

fun is_aborted :: "driver_event \<Rightarrow> bool" where
  "is_aborted (Aborted n r) = True"
| "is_aborted _ = False"

definition turn_events :: "nat \<Rightarrow> driver_event list \<Rightarrow> driver_event list" where
  "turn_events n es = filter (\<lambda>e. turn_of e = n) es"

lemma turn_events_snoc [simp]:
  "turn_events n [] = []" "turn_events n (es @ [e]) = turn_events n es @ (if turn_of e = n then [e] else [])"
  by (simp_all add: turn_events_def)

text \<open>A turn is in at most one of the places: being installed, in the slot, being aborted,
  reported as aborted.\<close>

definition places :: "driver \<Rightarrow> nat \<Rightarrow> nat" where
  "places d n = (if n \<in> tk_installing d then 1 else 0) + (if tk_slot d = Some n then 1 else 0)
     + (if tk_aborting d n \<noteq> None then 1 else 0) + length (filter is_aborted (turn_events n (tk_events d)))"

definition completions :: "driver \<Rightarrow> nat \<Rightarrow> nat" where
  "completions d n = length (filter is_completed (turn_events n (tk_events d)))"

definition fresh :: "driver \<Rightarrow> nat \<Rightarrow> bool" where
  "fresh d n \<longleftrightarrow> tk_phase d n = NotStarted \<and> n \<notin> tk_installing d \<and> tk_slot d \<noteq> Some n \<and> tk_aborting d n = None
     \<and> turn_events n (tk_events d) = []"

definition begun :: "driver \<Rightarrow> nat \<Rightarrow> bool" where
  "begun d n \<longleftrightarrow> (\<exists>rest. turn_events n (tk_events d) = Started n # rest \<and> (\<forall>m. Started m \<notin> set rest))"

definition live_ok :: "driver \<Rightarrow> nat \<Rightarrow> bool" where
  "live_ok d n \<longleftrightarrow> begun d n \<and> places d n \<le> 1 \<and> tk_phase d n \<noteq> NotStarted \<and>
     completions d n \<le> (case tk_phase d n of InRun \<Rightarrow> 0 | Completing _ \<Rightarrow> 0 | _ \<Rightarrow> 1)"

definition turn_ok :: "driver \<Rightarrow> nat \<Rightarrow> bool" where
  "turn_ok d n \<longleftrightarrow> (if 1 \<le> n \<and> n < tk_next d then live_ok d n else fresh d n)"

definition driver_inv :: "driver \<Rightarrow> bool" where
  "driver_inv d \<longleftrightarrow> 1 \<le> tk_next d \<and> (\<forall>n. turn_ok d n)"

lemma driver_new_inv: "driver_inv driver_new"
  by (simp add: driver_inv_def turn_ok_def fresh_def driver_new_def)

lemma acting_turn_live:
  assumes "driver_inv d" "\<not> fresh d n"
  shows "1 \<le> n \<and> n < tk_next d" "live_ok d n"
  using assms by (auto simp: driver_inv_def turn_ok_def split: if_splits)

lemma same_view:
  assumes "tk_phase d' m = tk_phase d m" "m \<in> tk_installing d' \<longleftrightarrow> m \<in> tk_installing d"
    "tk_aborting d' m = tk_aborting d m" "turn_events m (tk_events d') = turn_events m (tk_events d)"
    "tk_slot d' = Some m \<Longrightarrow> tk_slot d = Some m"
  shows "fresh d m \<Longrightarrow> fresh d' m" "live_ok d m \<Longrightarrow> live_ok d' m"
  using assms by (auto simp: fresh_def live_ok_def begun_def places_def completions_def)

lemmas view_defs = live_ok_def begun_def places_def completions_def

text \<open>A step of one turn: the others keep their view, except that the slot may be taken from
  them.\<close>

lemma step_of_turn:
  assumes "driver_inv d" "\<not> fresh d n" "tk_next d' = tk_next d" "live_ok d n \<Longrightarrow> live_ok d' n"
    and "\<And>m. m \<noteq> n \<Longrightarrow> tk_phase d' m = tk_phase d m \<and> (m \<in> tk_installing d' \<longleftrightarrow> m \<in> tk_installing d) \<and>
      tk_aborting d' m = tk_aborting d m \<and> turn_events m (tk_events d') = turn_events m (tk_events d) \<and>
      (tk_slot d' = Some m \<longrightarrow> tk_slot d = Some m)"
  shows "driver_inv d'"
proof -
  have "turn_ok d' m" for m
  proof (cases "m = n")
    case True
    then show ?thesis using acting_turn_live [OF assms(1,2)] assms(3,4) by (simp add: turn_ok_def)
  next
    case False
    have "turn_ok d m" using assms(1) by (simp add: driver_inv_def)
    then show ?thesis using same_view [of d' m d] assms(5) [OF False] assms(3) by (auto simp: turn_ok_def)
  qed
  then show ?thesis using assms(1,3) by (simp add: driver_inv_def)
qed

lemma driver_spawn_inv:
  assumes "driver_inv d" "n = tk_next d"
  shows "driver_inv (d\<lparr> tk_next := Suc n, tk_phase := (tk_phase d)(n := InRun), tk_installing := insert n (tk_installing d),
      tk_events := tk_events d @ [Started n] \<rparr>)" (is "driver_inv ?d")
proof -
  have n: "fresh d n" "1 \<le> n" using assms by (auto simp: driver_inv_def turn_ok_def split: if_splits)
  have "live_ok ?d n" using n by (simp add: view_defs fresh_def)
  moreover have "turn_ok d m" for m using assms by (simp add: driver_inv_def)
  moreover have "m \<noteq> n \<Longrightarrow> (fresh d m \<longrightarrow> fresh ?d m) \<and> (live_ok d m \<longrightarrow> live_ok ?d m)" for m
    by (intro conjI impI; rule same_view) auto
  ultimately show ?thesis using n assms(2) unfolding driver_inv_def turn_ok_def
    by (auto simp: less_Suc_eq split: if_splits)
qed

lemma driver_step_inv: "driver_step marker d d' \<Longrightarrow> driver_inv d \<Longrightarrow> driver_inv d'"
proof (induction rule: driver_step.induct)
  case (spawn n d)
  then show ?case using driver_spawn_inv by blast
next
  case (install n d)
  show ?case
    by (rule step_of_turn [OF install(2), of n]) (use install(1) in \<open>auto simp: fresh_def view_defs split: if_splits\<close>)
next
  case (run_returns d n msg)
  show ?case
    by (rule step_of_turn [OF run_returns(2), of n]) (use run_returns(1) in \<open>auto simp: fresh_def view_defs\<close>)
next
  case (emit d n msg)
  show ?case
    by (rule step_of_turn [OF emit(2), of n]) (use emit(1) in \<open>auto simp: fresh_def view_defs\<close>)
next
  case (self_remove d n)
  show ?case
    by (rule step_of_turn [OF self_remove(2), of n]) (use self_remove(1) in \<open>auto simp: fresh_def view_defs split: if_splits\<close>)
next
  case (abort_take d n r)
  show ?case
    by (rule step_of_turn [OF abort_take(3), of n]) (use abort_take(1,2) in \<open>auto simp: fresh_def view_defs split: if_splits\<close>)
next
  case (abort_cancel d n r)
  show ?case
    by (rule step_of_turn [OF abort_cancel(2), of n]) (use abort_cancel(1) in \<open>auto simp: fresh_def view_defs split: if_splits\<close>)
next
  case (abort_report d n r)
  show ?case
    by (rule step_of_turn [OF abort_report(2), of n])
      (use abort_report(1) in \<open>auto simp: fresh_def view_defs split: if_splits phase.splits\<close>)
qed

lemma driver_run_inv: "driver_run marker driver_new d \<Longrightarrow> driver_inv d"
  by (induction rule: rtranclp_induct) (auto simp: driver_new_inv intro: driver_step_inv)


section \<open>Races\<close>

text \<open>Three schedules. The turn that is being aborted has already passed its cancellation check:
  it is reported both as complete and as aborted. The task ends before its slot is installed: the
  slot then holds a turn that is over, and a later abort reports it as aborted after it was
  reported complete.\<close>

lemma steps_snoc: "driver_run marker d0 d \<Longrightarrow> driver_step marker d d' \<Longrightarrow> driver_run marker d0 d'"
  by (rule rtranclp.rtrancl_into_rtrancl)

definition spawned :: driver where
  "spawned = driver_new\<lparr> tk_next := 2, tk_phase := (tk_phase driver_new)(1 := InRun), tk_installing := {1},
     tk_events := [Started 1] \<rparr>"

lemma spawned_run: "driver_run marker driver_new spawned"
  using driver_step.spawn [of 1 driver_new marker]
  by (simp add: spawned_def driver_new_def r_into_rtranclp numeral_2_eq_2)

lemma complete_and_aborted:
  "\<exists>d. driver_run marker driver_new d \<and> tk_events d = [Started 1, Completed 1 msg, Aborted 1 r]"
proof -
  define d1 where "d1 = spawned\<lparr> tk_slot := Some 1, tk_installing := {} \<rparr>"
  define d2 where "d2 = d1\<lparr> tk_phase := (tk_phase d1)(1 := Completing msg) \<rparr>"
  define d3 where "d3 = d2\<lparr> tk_slot := None, tk_aborting := (tk_aborting d2)(1 := Some (r, False)) \<rparr>"
  define d4 where "d4 = d3\<lparr> tk_cancelled := insert 1 (tk_cancelled d3), tk_aborting := (tk_aborting d3)(1 := Some (r, True)) \<rparr>"
  define d5 where "d5 = d4\<lparr> tk_phase := (tk_phase d4)(1 := Emitted), tk_events := tk_events d4 @ [Completed 1 msg] \<rparr>"
  define d6 where "d6 = d5\<lparr> tk_aborting := (tk_aborting d5)(1 := None),
      tk_phase := (tk_phase d5)(1 := if tk_phase d5 1 = InRun then Killed else tk_phase d5 1),
      tk_markers := record_marker marker r (tk_markers d5), tk_events := tk_events d5 @ [Aborted 1 r] \<rparr>"
  have "driver_step marker spawned d1"
    using driver_step.install [of 1 spawned marker] by (simp add: d1_def spawned_def)
  moreover have "driver_step marker d1 d2"
    using driver_step.run_returns [of d1 1 marker msg] by (simp add: d2_def d1_def spawned_def driver_new_def)
  moreover have "driver_step marker d2 d3"
    unfolding d3_def by (rule driver_step.abort_take) (simp_all add: d2_def d1_def spawned_def driver_new_def)
  moreover have "driver_step marker d3 d4"
    unfolding d4_def by (rule driver_step.abort_cancel) (simp add: d3_def)
  moreover have "driver_step marker d4 d5"
    unfolding d5_def by (rule driver_step.emit) (simp add: d4_def d3_def d2_def)
  moreover have "driver_step marker d5 d6"
    unfolding d6_def by (rule driver_step.abort_report) (simp add: d5_def d4_def)
  ultimately have "driver_run marker driver_new d6" using spawned_run steps_snoc by metis
  moreover have "tk_events d6 = [Started 1, Completed 1 msg, Aborted 1 r]"
    by (simp add: d6_def d5_def d4_def d3_def d2_def d1_def spawned_def)
  ultimately show ?thesis by blast
qed

lemma finished_turn_stays_active:
  "\<exists>d. driver_run marker driver_new d \<and> tk_events d = [Started 1, Completed 1 msg] \<and> tk_phase d 1 = Settled \<and>
     tk_installing d = {} \<and> tk_slot d = Some 1"
proof -
  define d2 where "d2 = spawned\<lparr> tk_phase := (tk_phase spawned)(1 := Completing msg) \<rparr>"
  define d3 where "d3 = d2\<lparr> tk_phase := (tk_phase d2)(1 := Emitted), tk_events := tk_events d2 @ [Completed 1 msg] \<rparr>"
  define d4 where "d4 = d3\<lparr> tk_phase := (tk_phase d3)(1 := Settled), tk_slot := (if tk_slot d3 = Some 1 then None else tk_slot d3) \<rparr>"
  define d5 where "d5 = d4\<lparr> tk_slot := Some 1, tk_installing := tk_installing d4 - {1} \<rparr>"
  have "driver_step marker spawned d2"
    using driver_step.run_returns [of spawned 1 marker msg] by (simp add: d2_def spawned_def driver_new_def)
  moreover have "driver_step marker d2 d3"
    unfolding d3_def by (rule driver_step.emit) (simp add: d2_def)
  moreover have "driver_step marker d3 d4"
    unfolding d4_def by (rule driver_step.self_remove) (simp add: d3_def)
  moreover have "driver_step marker d4 d5"
    unfolding d5_def by (rule driver_step.install) (simp add: d4_def d3_def d2_def spawned_def)
  ultimately have "driver_run marker driver_new d5" using spawned_run steps_snoc by metis
  then show ?thesis
    by (intro exI [of _ d5]) (simp add: d5_def d4_def d3_def d2_def spawned_def)
qed

section \<open>Properties\<close>

text \<open>C25. Under every interleaving of spawns, completions and aborts, the events of a turn begin with
  its start, which comes once, and hold at most one completion and at most one abort.\<close>

theorem turn_events_once:
  assumes "driver_run marker driver_new d"
  shows "turn_events n (tk_events d) = [] \<or>
    (\<exists>rest. turn_events n (tk_events d) = Started n # rest \<and> (\<forall>m. Started m \<notin> set rest) \<and>
       length (filter is_completed rest) \<le> 1 \<and> length (filter is_aborted rest) \<le> 1)"
proof -
  have ok: "turn_ok d n" using driver_run_inv [OF assms] by (simp add: driver_inv_def)
  show ?thesis
  proof (cases "1 \<le> n \<and> n < tk_next d")
    case True
    then have live: "live_ok d n" using ok by (simp add: turn_ok_def)
    then obtain rest where rest: "turn_events n (tk_events d) = Started n # rest" "\<forall>m. Started m \<notin> set rest"
      by (auto simp: live_ok_def begun_def)
    have "completions d n \<le> 1" using live by (auto simp: live_ok_def split: phase.splits)
    moreover have "length (filter is_aborted (turn_events n (tk_events d))) \<le> 1"
      using live by (auto simp: live_ok_def places_def split: if_splits)
    ultimately show ?thesis using rest by (auto simp: completions_def)
  next
    case False
    then show ?thesis using ok by (auto simp: turn_ok_def fresh_def)
  qed
qed

theorem turn_events_once_witness:
  "turn_events 1 (tk_events spawned) = [] \<or>
    (\<exists>rest. turn_events 1 (tk_events spawned) = Started 1 # rest \<and> (\<forall>m. Started m \<notin> set rest) \<and>
       length (filter is_completed rest) \<le> 1 \<and> length (filter is_aborted rest) \<le> 1)"
  by (rule turn_events_once [OF spawned_run])

end
