(* ===== verification/TurnEvents.thy ===== *)
theory TurnEvents
  imports Goals Events Requests
begin

text \<open>
  The events a turn shows and records (\<open>events/mod.rs\<close>, \<open>events/names.rs\<close>, \<open>events/map.rs\<close>):
  the pure map from a stream event of the model to the pending events of the session, and the token-count
  payload with its running total. The cost fields of \<open>ModelUsage\<close> are never set at this layer and
  left out; \<open>i64\<close> sums wrap around, \<open>u64 as i64\<close> reinterprets the bits.
\<close>

section \<open>Names\<close>

definition session_done_name :: string where "session_done_name = ''session.done''"
definition token_count_name :: string where "token_count_name = ''token_count''"
definition stream_error_name :: string where "stream_error_name = ''stream_error''"
definition model_turn_request_name :: string where "model_turn_request_name = ''model.turn.request''"
definition model_stream_delta_name :: string where "model_stream_delta_name = ''model.stream_delta''"
definition model_thinking_delta_name :: string where "model_thinking_delta_name = ''model.thinking_delta''"
definition tool_started_name :: string where "tool_started_name = ''tool.started''"
definition tool_output_name :: string where "tool_output_name = ''tool.output''"
definition tool_failed_name :: string where "tool_failed_name = ''tool.failed''"
definition tool_aborted_name :: string where "tool_aborted_name = ''tool.aborted''"

lemmas turn_event_names = session_done_name_def token_count_name_def stream_error_name_def model_turn_request_name_def
  model_stream_delta_name_def model_thinking_delta_name_def tool_started_name_def tool_output_name_def
  tool_failed_name_def tool_aborted_name_def

definition pending_new :: "string \<Rightarrow> string \<Rightarrow> json \<Rightarrow> pending_event" where
  "pending_new session ty payload = \<lparr> pe_session = session, pe_type = ty, pe_payload = payload \<rparr>"

record turn_ctx =
  tc_session_id :: string
  tc_model :: string
  tc_provider :: string
  tc_base_instructions :: string
  tc_browser_mode_instruction :: "string option"
  tc_turn_idx :: nat
  tc_attempt :: nat

section \<open>Usage\<close>

record model_usage =
  mu_input_tokens :: "int option"
  mu_input_cached_tokens :: "int option"
  mu_input_cache_creation_tokens :: "int option"
  mu_output_tokens :: "int option"
  mu_reasoning_output_tokens :: "int option"
  mu_total_tokens :: "int option"

definition positive_i64 :: "64 word \<Rightarrow> int option" where
  "positive_i64 v = (if v > 0 then Some (sint v) else None)"

definition usage_to_model_usage :: "usage \<Rightarrow> model_usage" where
  "usage_to_model_usage u =
     (let total = (if total_tokens u = 0 then computed_total u else total_tokens u) in
      \<lparr> mu_input_tokens = Some (sint (input_tokens u)),
        mu_input_cached_tokens = Some (sint (cached_input_tokens u)),
        mu_input_cache_creation_tokens = positive_i64 (cache_creation_input_tokens u),
        mu_output_tokens = Some (sint (output_tokens u)),
        mu_reasoning_output_tokens = Some (sint (reasoning_output_tokens u)),
        mu_total_tokens = Some (sint total) \<rparr>)"

definition codex_token_usage :: "model_usage \<Rightarrow> json" where
  "codex_token_usage u =
     (let inp = unwrap_or 0 (mu_input_tokens u); cached = unwrap_or 0 (mu_input_cached_tokens u);
          creation = unwrap_or 0 (mu_input_cache_creation_tokens u); outp = unwrap_or 0 (mu_output_tokens u);
          reasoning = unwrap_or 0 (mu_reasoning_output_tokens u);
          total = unwrap_or (sat_add64 (sat_add64 inp outp) reasoning) (mu_total_tokens u);
          value = JObj [(''cached_input_tokens'', JNum cached), (''input_tokens'', JNum inp), (''output_tokens'', JNum outp),
                        (''reasoning_output_tokens'', JNum reasoning), (''total_tokens'', JNum total)]
      in if creation > 0 then json_insert ''input_cache_creation_tokens'' (JNum creation) value else value)"

definition usage_field :: "json \<Rightarrow> string \<Rightarrow> int" where
  "usage_field v k = unwrap_or 0 (get_i64 v k)"

definition add_codex_token_usage :: "json \<Rightarrow> json \<Rightarrow> json" where
  "add_codex_token_usage previous addition =
     (let sum = (\<lambda>k. wrap_i64 (usage_field previous k + usage_field addition k));
          creation = sum ''input_cache_creation_tokens'';
          value = JObj (map (\<lambda>k. (k, JNum (sum k)))
            [''cached_input_tokens'', ''input_tokens'', ''output_tokens'', ''reasoning_output_tokens'', ''total_tokens''])
      in if creation > 0 then json_insert ''input_cache_creation_tokens'' (JNum creation) value else value)"

definition token_count_payload :: "model_usage \<Rightarrow> json \<Rightarrow> int option \<Rightarrow> nat \<Rightarrow> json" where
  "token_count_payload u prev_total window turn_idx =
     (let last_usage = codex_token_usage u;
          total = (if prev_total = JNull then last_usage else add_codex_token_usage prev_total last_usage)
      in JObj [(''info'', JObj [(''last_token_usage'', last_usage), (''model_context_window'', json_int window),
                               (''total_token_usage'', total)]),
               (''turn_idx'', JNum (int turn_idx))])"

section \<open>The map\<close>

fun map_llm_event :: "turn_ctx \<Rightarrow> llm_event \<Rightarrow> pending_event list" where
  "map_llm_event ctx (TextDelta _ delta _) =
     [pending_new (tc_session_id ctx) model_stream_delta_name (JObj [(''delta'', JStr delta), (''text'', JStr delta)])]"
| "map_llm_event ctx (ReasoningDelta _ delta) =
     [pending_new (tc_session_id ctx) model_thinking_delta_name (JObj [(''delta'', JStr delta), (''text'', JStr delta)])]"
| "map_llm_event ctx (ToolCall d name _ _ input) =
     [pending_new (tc_session_id ctx) tool_started_name
        (JObj [(''arguments'', input), (''name'', JStr name), (''tool_call_id'', JStr d)])]"
| "map_llm_event ctx (ProviderError m _) =
     [pending_new (tc_session_id ctx) stream_error_name (JObj [(''message'', JStr m)])]"
| "map_llm_event ctx (Finish u _) =
     [pending_new (tc_session_id ctx) token_count_name
        (token_count_payload (usage_to_model_usage u) JNull None (tc_turn_idx ctx))]"
| "map_llm_event ctx _ = []"

record result_file_ptr =
  rf_url :: "string option"
  rf_path :: "string option"
  rf_bytes :: "64 word option"

definition session_done_payload :: "string option \<Rightarrow> result_file_ptr option \<Rightarrow> json" where
  "session_done_payload result file =
     put_opt ''result_file''
       (map_option (\<lambda>rf. put_opt ''bytes'' (map_option (\<lambda>b. JNum (uint b)) (rf_bytes rf))
           (put_opt ''path'' (map_option JStr (rf_path rf)) (put_opt ''url'' (map_option JStr (rf_url rf)) (JObj [])))) file)
       (put_opt ''result'' (map_option JStr result) (JObj []))"

section \<open>Lemmas\<close>

text \<open>The running totals of a session: folding the payloads of its turns.\<close>

definition running_total :: "json \<Rightarrow> model_usage \<Rightarrow> json" where
  "running_total previous u = (case json_get (token_count_payload u previous None 0) ''info'' of
      Some info \<Rightarrow> unwrap_or JNull (json_get info ''total_token_usage'') | None \<Rightarrow> JNull)"

lemma running_total_step:
  "running_total previous u = (if previous = JNull then codex_token_usage u else add_codex_token_usage previous (codex_token_usage u))"
  by (simp add: running_total_def token_count_payload_def Let_def)

lemma add_codex_total:
  "usage_field (add_codex_token_usage a b) ''total_tokens'' =
     (let s = wrap_i64 (usage_field a ''total_tokens'' + usage_field b ''total_tokens'') in if in_i64 s then s else 0)"
  by (simp add: add_codex_token_usage_def usage_field_def [of "if _ then _ else _"] get_i64_def json_get_insert Let_def
      cong: if_cong)

lemma codex_not_null [simp]: "codex_token_usage u \<noteq> JNull" "add_codex_token_usage a b \<noteq> JNull"
  by (simp_all add: codex_token_usage_def add_codex_token_usage_def Let_def)

definition turn_total :: "model_usage \<Rightarrow> int" where
  "turn_total u = usage_field (codex_token_usage u) ''total_tokens''"

text \<open>The cumulative count of a session is the sum of its turns, as long as it fits.\<close>

lemma running_total_sum:
  assumes "\<forall>us'. prefix us' (u # us) \<longrightarrow> in_i64 (sum_list (map turn_total us'))"
  shows "usage_field (foldl running_total JNull (u # us)) ''total_tokens'' = sum_list (map turn_total (u # us))
         \<and> foldl running_total JNull (u # us) \<noteq> JNull"
  using assms
proof (induction us rule: rev_induct)
  case Nil
  then show ?case by (simp add: running_total_step turn_total_def)
next
  case (snoc v us)
  have "\<forall>us'. prefix us' (u # us) \<longrightarrow> in_i64 (sum_list (map turn_total us'))"
    using snoc.prems by (metis append_Cons prefix_append)
  note IH = snoc.IH [OF this]
  have "in_i64 (sum_list (map turn_total (u # us @ [v])))" using snoc.prems by blast
  with IH show ?case
    by (simp add: running_total_step add_codex_total turn_total_def [symmetric] Let_def add.assoc wrap_i64_id)
qed

end
