(* ===== verification/Sampling.thy ===== *)
theory Sampling
  imports TurnEvents GoalStore Client Dispatch Context
begin

text \<open>
  One sampling request of a turn (\<open>turn/sampling.rs\<close>): the request is built from the history, a
  stream is opened and read under the cancellation token, retried as the decision core says, and the calls of
  the response are dispatched and recorded. The transport, the mailbox probe, the dispatcher and the recorder
  are fields of an environment in state-passing form over an arbitrary world \<open>'w\<close>; a stream is the
  list of what its successive polls in the \<open>select!\<close> answer. The delays slept are kept in the state.
  The floating-point jitter of a delay is a parameter: it changes only how long a sleep lasts.
\<close>

section \<open>Errors and retries\<close>

definition mentions_context_window :: "string \<Rightarrow> bool" where
  "mentions_context_window m = (let l = str_lower m in str_contains ''context'' l \<and> str_contains ''window'' l)"

definition is_context_window_exceeded :: "llm_error \<Rightarrow> bool" where
  "is_context_window_exceeded e \<longleftrightarrow> err_reason e = InvalidRequest \<and> mentions_context_window (err_message e)"

definition is_usage_limit_reached :: "llm_error \<Rightarrow> bool" where
  "is_usage_limit_reached e \<longleftrightarrow> err_reason e = QuotaExceeded"

fun reason_debug :: "llm_error_reason \<Rightarrow> string" where
  "reason_debug Authentication = ''Authentication''"
| "reason_debug RateLimit = ''RateLimit''"
| "reason_debug QuotaExceeded = ''QuotaExceeded''"
| "reason_debug ContentPolicy = ''ContentPolicy''"
| "reason_debug InvalidRequest = ''InvalidRequest''"
| "reason_debug ProviderInternal = ''ProviderInternal''"
| "reason_debug Transport = ''Transport''"
| "reason_debug UnknownProvider = ''UnknownProvider''"
| "reason_debug Decode = ''Decode''"

definition llm_error_to_string :: "llm_error \<Rightarrow> string" where
  "llm_error_to_string e = reason_debug (err_reason e) @ '': '' @ err_message e"

definition llm_error_to_agent :: "llm_error \<Rightarrow> agent_error" where
  "llm_error_to_agent e =
     (if is_context_window_exceeded e then AeContextWindowExceeded
      else if is_usage_limit_reached e then AeUsageLimitReached
      else AeProvider (llm_error_to_string e))"

definition provider_error_event_to_agent :: "string \<Rightarrow> agent_error" where
  "provider_error_event_to_agent m =
     (if mentions_context_window m then AeContextWindowExceeded else AeProvider m)"

definition requested_delay_ms :: "llm_error \<Rightarrow> 64 word option" where
  "requested_delay_ms e = None"

datatype retry_step = StepFail agent_error | StepRetry

definition apply_jitter :: "(64 word \<Rightarrow> 64 word) \<Rightarrow> 64 word \<Rightarrow> bool \<Rightarrow> 64 word" where
  "apply_jitter jittered delay jitter = (if \<not> jitter \<or> delay = 0 then delay else jittered delay)"

text \<open>The step, the attempt counter after it, and the delay slept, if any.\<close>

definition handle_stream_error ::
    "(64 word \<Rightarrow> 64 word) \<Rightarrow> llm_error \<Rightarrow> 32 word \<Rightarrow> 32 word \<Rightarrow> bool \<Rightarrow> retry_step \<times> 32 word \<times> 64 word list" where
  "handle_stream_error jittered err attempt max_retries jitter =
     (if is_context_window_exceeded err then (StepFail AeContextWindowExceeded, attempt, [])
      else if is_usage_limit_reached err then (StepFail AeUsageLimitReached, attempt, [])
      else
        let next_attempt = attempt + 1;
            requested = or_else (requested_delay_ms err) (Some (backoff_ms next_attempt)) in
        case retry_decision attempt max_retries (err_retryable err) False requested of
          RFail \<Rightarrow> (StepFail (llm_error_to_agent err), attempt, [])
        | SwitchTransport \<Rightarrow> (StepFail (llm_error_to_agent err), attempt, [])
        | Backoff delay \<Rightarrow> (StepRetry, next_attempt, [apply_jitter jittered delay jitter]))"

section \<open>Wire form of the request parts\<close>

text \<open>\<open>serde\<close> writes the fields in their declared order; \<open>to_value\<close> collects them in a sorted map.\<close>

fun to_value :: "json \<Rightarrow> json" where
  "to_value (JObj kvs) = JObj (foldl (\<lambda>m (k, v). bt_insert k v m) [] (map (\<lambda>(k, v). (k, to_value v)) kvs))"
| "to_value (JArr xs) = JArr (map to_value xs)"
| "to_value v = v"

definition opt_field :: "string \<Rightarrow> ('a \<Rightarrow> json) \<Rightarrow> 'a option \<Rightarrow> (string \<times> json) list" where
  "opt_field k f x = (case x of Some v \<Rightarrow> [(k, f v)] | None \<Rightarrow> [])"

fun content_part_serde :: "content_part \<Rightarrow> json" where
  "content_part_serde (PText t md) = JObj ([(''type'', JStr ''text''), (''text'', JStr t)] @ opt_field ''provider_metadata'' id md)"
| "content_part_serde (PMedia mime data url detail) =
     JObj ([(''type'', JStr ''media''), (''mime_type'', JStr mime)] @ opt_field ''data'' JStr data
           @ opt_field ''url'' JStr url @ opt_field ''detail'' JStr detail)"
| "content_part_serde (PToolCall d name input md) =
     JObj ([(''type'', JStr ''tool_call''), (''id'', JStr d), (''name'', JStr name), (''input'', input)]
           @ opt_field ''provider_metadata'' id md)"
| "content_part_serde (PToolResult d content err) =
     JObj [(''type'', JStr ''tool_result''), (''tool_call_id'', JStr d), (''content'', JArr (map content_part_serde content)),
           (''is_error'', JBool err)]"
| "content_part_serde (PReasoning t sig md) =
     JObj ([(''type'', JStr ''reasoning''), (''text'', JStr t)] @ opt_field ''signature'' JStr sig
           @ opt_field ''provider_metadata'' id md)"

fun role_serde :: "message_role \<Rightarrow> string" where
  "role_serde RSystem = ''system''"
| "role_serde RUser = ''user''"
| "role_serde RAssistant = ''assistant''"
| "role_serde RTool = ''tool''"
| "role_serde RDeveloper = ''developer''"

definition cache_serde :: "cache_hint \<Rightarrow> json" where
  "cache_serde c = JStr ''ephemeral''"

definition message_serde :: "message \<Rightarrow> json" where
  "message_serde m = JObj ([(''role'', JStr (role_serde (msg_role m)))] @ opt_field ''cache'' cache_serde (msg_cache m)
     @ [(''content'', JArr (map content_part_serde (msg_content m)))])"

definition system_part_serde :: "system_part \<Rightarrow> json" where
  "system_part_serde s = JObj ([(''text'', JStr (sys_text s))] @ opt_field ''cache'' cache_serde (sys_cache s))"

definition tool_definition_serde :: "tool_definition \<Rightarrow> json" where
  "tool_definition_serde t =
     JObj ([(''name'', JStr (td_name t)), (''description'', JStr (td_description t)), (''input_schema'', td_input_schema t)]
           @ opt_field ''output_schema'' id (td_output_schema t) @ opt_field ''namespace'' JStr (td_namespace t)
           @ opt_field ''namespace_description'' JStr (td_namespace_description t))"

section \<open>The request\<close>

text \<open>\<open>apply_browser_use_provider_options\<close> does nothing.\<close>

definition apply_browser_use_provider_options :: "string \<Rightarrow> llm_request \<Rightarrow> llm_request" where
  "apply_browser_use_provider_options provider req = req"

definition lookback_target_blocks :: nat where "lookback_target_blocks = 16"
definition max_message_breakpoints :: nat where "max_message_breakpoints = 2"

definition breakpoint_eligible :: "message \<Rightarrow> bool" where
  "breakpoint_eligible m \<longleftrightarrow> msg_role m \<noteq> RSystem \<and> msg_role m \<noteq> RDeveloper"

definition eligible_messages :: "message list \<Rightarrow> (nat \<times> nat) list" where
  "eligible_messages ms =
     map (\<lambda>(i, m). (i, max (length (msg_content m)) 1)) (filter (\<lambda>(i, m). breakpoint_eligible m) (enumerate 0 ms))"

text \<open>The walk back from the last eligible message.\<close>

fun lookback :: "nat \<Rightarrow> (nat \<times> nat) list \<Rightarrow> nat list" where
  "lookback since [] = []"
| "lookback since ((i, blocks) # rest) =
     (if since + blocks \<ge> lookback_target_blocks then [i] else lookback (since + blocks) rest)"

definition cache_breakpoints :: "message list \<Rightarrow> nat list" where
  "cache_breakpoints ms =
     (case rev (eligible_messages ms) of
        [] \<Rightarrow> []
      | (last_index, _) # earlier \<Rightarrow>
          (let selected = remdups_adj (sort (last_index # lookback 0 earlier))
           in drop (length selected - max_message_breakpoints) selected))"

definition mark_message_cache_breakpoints :: "message list \<Rightarrow> message list" where
  "mark_message_cache_breakpoints ms =
     map (\<lambda>(i, m). m\<lparr> msg_cache := (if i \<in> set (cache_breakpoints ms) then Some Ephemeral else None) \<rparr>) (enumerate 0 ms)"

definition build_turn_request :: "turn_ctx \<Rightarrow> message list \<Rightarrow> llm_request" where
  "build_turn_request ctx input =
     (let req = (llm_request_new (tc_model ctx) (tc_provider ctx))
            \<lparr> rq_system := [(system_part_new (tc_base_instructions ctx))\<lparr> sys_cache := Some Ephemeral \<rparr>],
              rq_messages := (case tc_browser_mode_instruction ctx of
                  Some instruction \<Rightarrow> message_new RSystem [part_text instruction] # input
                | None \<Rightarrow> input) \<rparr>;
          req1 = apply_browser_use_provider_options (tc_provider ctx) req
      in req1\<lparr> rq_messages := mark_message_cache_breakpoints (rq_messages req1) \<rparr>)"

definition request_composition :: "llm_request \<Rightarrow> json" where
  "request_composition req = JObj
     [(''system_prompt_tokens'', JNum (approx_tokens_from_byte_count (int (sum_list (map (\<lambda>p. str_bytes (sys_text p)) (rq_system req)))))),
      (''tools'', JArr (map (\<lambda>t. JObj
          [(''name'', JStr (td_name t)),
           (''tokens'', JNum (approx_tokens_from_byte_count (int (str_bytes (show_json (tool_definition_serde t))))))]) (rq_tools req)))]"

section \<open>What is logged of a request\<close>

definition is_observability_secret_key :: "string \<Rightarrow> bool" where
  "is_observability_secret_key key =
     (let k = str_lower key in
      str_contains ''api_key'' k \<or> str_contains ''apikey'' k \<or> str_contains ''authorization'' k \<or> str_contains ''auth_token'' k
      \<or> str_contains ''password'' k \<or> str_contains ''secret'' k \<or> str_contains ''token'' k \<or> str_contains ''cookie'' k)"

fun sanitize_observability_value :: "json \<Rightarrow> json" where
  "sanitize_observability_value (JObj kvs) =
     JObj (map (\<lambda>(k, v). if is_observability_secret_key k then (k, JStr ''[redacted]'') else (k, sanitize_observability_value v)) kvs)"
| "sanitize_observability_value (JArr xs) = JArr (map sanitize_observability_value xs)"
| "sanitize_observability_value v = v"

definition observability_json_value :: "json \<Rightarrow> json" where
  "observability_json_value v = sanitize_observability_value (to_value v)"

definition request_observability_input :: "llm_request \<Rightarrow> bool \<Rightarrow> json" where
  "request_observability_input req include_full_input =
     (let message_count = JNum (int (length (rq_messages req))) in
      if \<not> include_full_input then JObj
        [(''full_input_omitted'', JBool True), (''message_count'', message_count), (''omitted_earlier_messages'', message_count),
         (''system_count'', JNum (int (length (rq_system req)))), (''tools_count'', JNum (int (length (rq_tools req)))),
         (''truncated'', JBool True)]
      else JObj
        [(''message_count'', message_count),
         (''messages'', JArr (map (observability_json_value \<circ> message_serde) (rq_messages req))),
         (''omitted_earlier_messages'', JNum 0),
         (''system'', JArr (map (observability_json_value \<circ> system_part_serde) (rq_system req))),
         (''tools'', JArr (map (observability_json_value \<circ> tool_definition_serde) (rq_tools req))),
         (''tools_count'', JNum (int (length (rq_tools req)))),
         (''truncated'', JBool False)])"

section \<open>Tool results\<close>

fun tool_call_identity :: "content_part \<Rightarrow> string \<times> string" where
  "tool_call_identity (PToolCall d name _ _) = (d, name)"
| "tool_call_identity _ = ([], ''tool'')"

fun collect_content_text :: "content_part \<Rightarrow> string list" where
  "collect_content_text (PText t _) = (if t \<noteq> [] then [t] else [])"
| "collect_content_text (PReasoning t _ _) = (if t \<noteq> [] then [t] else [])"
| "collect_content_text (PToolResult _ content _) = concat (map collect_content_text content)"
| "collect_content_text (PMedia mime _ _ _) = [''[media: '' @ mime @ '']'']"
| "collect_content_text (PToolCall _ _ _ _) = []"

definition flatten_content_text :: "content_part list \<Rightarrow> string" where
  "flatten_content_text parts =
     (let chunks = concat (map collect_content_text parts) in
      if chunks = [] \<and> parts \<noteq> [] then show_json (JArr (map content_part_serde parts))
      else join_with [CHR 0x0A] chunks)"

fun tool_result_part :: "content_part \<Rightarrow> (content_part list \<times> bool) option" where
  "tool_result_part (PToolResult _ content err) = Some (content, err)"
| "tool_result_part _ = None"

definition tool_result_text_and_status :: "message \<Rightarrow> string \<times> bool" where
  "tool_result_text_and_status m =
     (case find_map tool_result_part (msg_content m) of
        Some (content, err) \<Rightarrow> (flatten_content_text content, err)
      | None \<Rightarrow> (flatten_content_text (msg_content m), True))"

definition media_event_content_part :: "string \<Rightarrow> string option \<Rightarrow> string option \<Rightarrow> string option \<Rightarrow> json option" where
  "media_event_content_part mime data url detail =
     map_option (\<lambda>resolved.
         if starts_with ''image/'' mime
         then JObj [(''detail'', JStr (unwrap_or ''auto'' detail)), (''image_url'', JStr resolved), (''type'', JStr ''input_image'')]
         else JObj [(''file_data'', JStr resolved), (''type'', JStr ''input_file'')])
       (case url of
          Some u \<Rightarrow> Some u
        | None \<Rightarrow> map_option (\<lambda>d. ''data:'' @ mime @ '';base64,'' @ d) data)"

text \<open>The parts of the event and whether one of them is media.\<close>

fun append_event_content_part :: "content_part \<Rightarrow> json list \<times> bool" where
  "append_event_content_part (PText t _) =
     ((if t \<noteq> [] then [JObj [(''text'', JStr t), (''type'', JStr ''input_text'')]] else []), False)"
| "append_event_content_part (PReasoning t _ _) =
     ((if t \<noteq> [] then [JObj [(''text'', JStr t), (''type'', JStr ''input_text'')]] else []), False)"
| "append_event_content_part (PMedia mime data url detail) =
     (case media_event_content_part mime data url detail of Some part \<Rightarrow> ([part], True) | None \<Rightarrow> ([], False))"
| "append_event_content_part (PToolResult _ content _) =
     (let rs = map append_event_content_part content in (concat (map fst rs), list_ex snd rs))"
| "append_event_content_part (PToolCall _ _ _ _) = ([], False)"

definition event_content_parts_if_media :: "content_part list \<Rightarrow> json list option" where
  "event_content_parts_if_media parts =
     (let rs = map append_event_content_part parts in if list_ex snd rs then Some (concat (map fst rs)) else None)"

definition tool_result_event_content :: "message \<Rightarrow> json list option" where
  "tool_result_event_content m =
     (case find_map tool_result_part (msg_content m) of
        Some (content, _) \<Rightarrow> event_content_parts_if_media content
      | None \<Rightarrow> event_content_parts_if_media (msg_content m))"

definition emit_tool_result :: "turn_ctx \<Rightarrow> content_part \<Rightarrow> message \<Rightarrow> pending_event list" where
  "emit_tool_result ctx call output =
     (let (tool_call_id, name) = tool_call_identity call; (text, is_error) = tool_result_text_and_status output;
          failure = JObj [(''error'', JStr text), (''name'', JStr name), (''tool_call_id'', JStr tool_call_id)] in
      if is_error
      then (if starts_with ''aborted by user'' text then [pending_new (tc_session_id ctx) tool_aborted_name failure] else [])
           @ [pending_new (tc_session_id ctx) tool_failed_name failure]
      else [pending_new (tc_session_id ctx) tool_output_name
              (put_opt ''content'' (map_option JArr (tool_result_event_content output))
                (JObj [(''name'', JStr name), (''ok'', JBool True), (''text'', JStr text), (''tool_call_id'', JStr tool_call_id)]))])"

section \<open>The accumulator of a response\<close>

record turn_accumulator =
  ta_full_text :: string
  ta_text_parts :: "content_part list"
  ta_text_buffer :: string
  ta_items_with_content :: "string \<rightharpoonup> bool"
  ta_defers_mailbox :: bool
  ta_tool_calls :: "content_part list"
  ta_usage :: "usage option"
  ta_finish_reason :: "finish_reason option"

definition accumulator_default :: turn_accumulator where
  "accumulator_default = \<lparr> ta_full_text = [], ta_text_parts = [], ta_text_buffer = [], ta_items_with_content = Map.empty,
     ta_defers_mailbox = False, ta_tool_calls = [], ta_usage = None, ta_finish_reason = None \<rparr>"

definition sampling_flush_text :: "string \<times> content_part list \<Rightarrow> string \<times> content_part list" where
  "sampling_flush_text t = (let (buffer, parts) = t in if buffer \<noteq> [] then ([], parts @ [part_text buffer]) else (buffer, parts))"

definition sampling_push_text :: "string \<times> content_part list \<Rightarrow> string \<Rightarrow> json option \<Rightarrow> string \<times> content_part list" where
  "sampling_push_text t delta md =
     (case md of
        Some v \<Rightarrow> (let (buffer, parts) = sampling_flush_text t in (buffer, parts @ [PText delta (Some v)]))
      | None \<Rightarrow> (fst t @ delta, snd t))"

definition tool_call_provider_metadata :: "string option \<Rightarrow> json option \<Rightarrow> json option" where
  "tool_call_provider_metadata namespace md =
     (case (namespace, md) of
        (Some ns, Some (JObj kvs)) \<Rightarrow> Some (json_insert ''namespace'' (JStr ns) (JObj kvs))
      | (Some ns, Some m) \<Rightarrow> Some (JObj [(''namespace'', JStr ns), (''provider'', m)])
      | (Some ns, None) \<Rightarrow> Some (JObj [(''namespace'', JStr ns)])
      | (None, m) \<Rightarrow> m)"

datatype stream_progress = ProgressContinue | ProgressDone

text \<open>What an event does to the accumulator; \<open>Finish\<close> also charges the goal.\<close>

fun accumulate :: "turn_accumulator \<Rightarrow> llm_event \<Rightarrow> agent_error + stream_progress \<times> turn_accumulator" where
  "accumulate acc (TextDelta d delta md) =
     (let (buffer, parts) = sampling_push_text (ta_text_buffer acc, ta_text_parts acc) delta md in
      Inr (ProgressContinue, acc\<lparr> ta_full_text := ta_full_text acc @ delta, ta_text_buffer := buffer, ta_text_parts := parts,
        ta_items_with_content := (if str_trim delta \<noteq> [] then (ta_items_with_content acc)(d \<mapsto> True) else ta_items_with_content acc) \<rparr>))"
| "accumulate acc (TextEnd d phase) =
     (let has_content = unwrap_or (str_trim (ta_full_text acc) \<noteq> []) (ta_items_with_content acc d) in
      Inr (ProgressContinue, acc\<lparr> ta_items_with_content := (ta_items_with_content acc)(d := None),
        ta_defers_mailbox := (ta_defers_mailbox acc \<or> has_content \<and> phase \<noteq> Some Commentary) \<rparr>))"
| "accumulate acc (ToolCall d name namespace md input) =
     Inr (ProgressContinue, acc\<lparr> ta_tool_calls := ta_tool_calls acc
        @ [PToolCall d name input (tool_call_provider_metadata namespace md)] \<rparr>)"
| "accumulate acc (Finish u reason) = Inr (ProgressDone, acc\<lparr> ta_usage := Some u, ta_finish_reason := reason \<rparr>)"
| "accumulate acc (ProviderError m _) = Inl (provider_error_event_to_agent m)"
| "accumulate acc _ = Inr (ProgressContinue, acc)"

fun checks_mailbox_preemption_after_event :: "llm_event \<Rightarrow> bool" where
  "checks_mailbox_preemption_after_event (ReasoningEnd _) = True"
| "checks_mailbox_preemption_after_event (TextEnd _ phase) = (phase = Some Commentary)"
| "checks_mailbox_preemption_after_event _ = False"

fun is_tool_call_part :: "content_part \<Rightarrow> bool" where
  "is_tool_call_part (PToolCall _ _ _ _) = True"
| "is_tool_call_part _ = False"

definition extract_tool_calls :: "content_part list \<Rightarrow> content_part list" where
  "extract_tool_calls parts = filter is_tool_call_part parts"

definition done_tool_name :: string where "done_tool_name = ''done''"

fun is_done_call :: "content_part \<Rightarrow> bool" where
  "is_done_call (PToolCall _ name _ _) = (name = done_tool_name)"
| "is_done_call _ = False"

definition calls_done_tool :: "content_part list \<Rightarrow> bool" where
  "calls_done_tool calls = list_ex is_done_call calls"

definition done_tool_succeeded :: "content_part list \<Rightarrow> message list \<Rightarrow> bool" where
  "done_tool_succeeded calls outputs =
     list_ex (\<lambda>(call, output). is_done_call call \<and> \<not> snd (tool_result_text_and_status output)) (zip calls outputs)"

definition done_field :: "json \<Rightarrow> string \<Rightarrow> string option" where
  "done_field input k = opt_filter (\<lambda>v. v \<noteq> []) (map_option str_trim (get_str input k))"

fun done_call_summary :: "content_part \<Rightarrow> string option" where
  "done_call_summary (PToolCall _ name input _) =
     (if name = done_tool_name
      then or_else (find_map (done_field input) [''result'', ''text''])
             (map_option (\<lambda>path. ''Result file: '' @ path) (done_field input ''result_file''))
      else None)"
| "done_call_summary _ = None"

definition done_summary :: "content_part list \<Rightarrow> string option" where
  "done_summary calls = find_map done_call_summary calls"

definition assistant_message :: "string \<Rightarrow> string \<times> content_part list \<Rightarrow> content_part list \<Rightarrow> message" where
  "assistant_message full_text t calls =
     (let parts = snd (sampling_flush_text t) in
      message_new RAssistant
        ((if parts \<noteq> [] then parts else if full_text \<noteq> [] then [part_text full_text] else []) @ calls))"

section \<open>The driver\<close>

text \<open>A poll of the \<open>select!\<close>: the token is cancelled, or the stream gives an event (with the whole seconds
  since it was opened) or an error. The stream ends where the list does.\<close>

datatype stream_poll = PollCancelled | PollEvent int llm_event | PollError llm_error

record 'w sampling_env =
  sm_ctx :: turn_ctx
  sm_max_retries :: "32 word"
  sm_jitter :: bool
  sm_jittered :: "64 word \<Rightarrow> 64 word"
  sm_open :: "llm_request \<Rightarrow> 'w \<Rightarrow> (llm_error + stream_poll list) \<times> 'w"
  sm_probe :: "('w \<Rightarrow> bool \<times> 'w) option"
  sm_tools :: "tool_definition list"
  sm_dispatch :: "(content_part list \<Rightarrow> 'w \<Rightarrow> (message list \<times> bool \<times> int) \<times> 'w) option"
  sm_recorder :: "(message list \<Rightarrow> 'w \<Rightarrow> 'w) option"
  sm_full_input :: bool
  sm_goal_source :: "'w \<Rightarrow> goal_source"
  sm_now :: "'w \<Rightarrow> int"
  sm_scaled :: "int \<Rightarrow> int"

record 'w sampling_state =
  sp_world :: 'w
  sp_goals :: "goal_store option"
  sp_emitted :: "pending_event list"
  sp_delays :: "64 word list"
  sp_next_turn_idx :: nat

definition sp_emit :: "pending_event list \<Rightarrow> 'w sampling_state \<Rightarrow> 'w sampling_state" where
  "sp_emit evs st = st\<lparr> sp_emitted := sp_emitted st @ evs \<rparr>"

definition ctx_for_turn :: "turn_ctx \<Rightarrow> nat \<Rightarrow> turn_ctx" where
  "ctx_for_turn ctx turn_idx = ctx\<lparr> tc_turn_idx := turn_idx \<rparr>"

definition emit_event :: "'w sampling_env \<Rightarrow> llm_event \<Rightarrow> nat \<Rightarrow> 'w sampling_state \<Rightarrow> 'w sampling_state" where
  "emit_event env ev turn_idx st = sp_emit (map_llm_event (ctx_for_turn (sm_ctx env) turn_idx) ev) st"

definition emit_turn_request ::
    "'w sampling_env \<Rightarrow> nat \<Rightarrow> 32 word \<Rightarrow> json \<Rightarrow> json \<Rightarrow> 'w sampling_state \<Rightarrow> 'w sampling_state" where
  "emit_turn_request env turn_idx attempt composition llm_input st =
     sp_emit [pending_new (tc_session_id (sm_ctx env)) model_turn_request_name (JObj
        [(''attempt'', JNum (uint attempt)), (''composition'', composition), (''llm_input'', llm_input),
         (''model'', JStr (tc_model (sm_ctx env))), (''provider'', JStr (tc_provider (sm_ctx env))),
         (''turn_idx'', JNum (int turn_idx))])] st"

definition emit_goal_accounting :: "'w sampling_env \<Rightarrow> usage \<Rightarrow> int \<Rightarrow> 'w sampling_state \<Rightarrow> 'w sampling_state" where
  "emit_goal_accounting env u secs st =
     (case sp_goals st of
        None \<Rightarrow> st
      | Some goals \<Rightarrow>
          (let (_, evs, goals') = account_usage (sm_scaled env) (sm_goal_source env (sp_world st)) (sm_now env (sp_world st)) u secs goals
           in sp_emit evs (st\<lparr> sp_goals := Some goals' \<rparr>)))"

definition emit_goal_elapsed_accounting :: "'w sampling_env \<Rightarrow> int \<Rightarrow> 'w sampling_state \<Rightarrow> 'w sampling_state" where
  "emit_goal_elapsed_accounting env secs st =
     (case sp_goals st of
        None \<Rightarrow> st
      | Some goals \<Rightarrow>
          (let (_, evs, goals') = account_elapsed_seconds (sm_scaled env) (sm_goal_source env (sp_world st)) (sm_now env (sp_world st)) secs goals
           in sp_emit evs (st\<lparr> sp_goals := Some goals' \<rparr>)))"

definition input_with_goal_context :: "'w sampling_env \<Rightarrow> message list \<Rightarrow> 'w sampling_state \<Rightarrow> message list \<times> 'w sampling_state" where
  "input_with_goal_context env input st =
     (case sp_goals st of
        None \<Rightarrow> (input, st)
      | Some goals \<Rightarrow>
          (let (text, goals') = goal_context_text (sm_goal_source env (sp_world st)) goals in
           ((case text of Some t \<Rightarrow> message_new RUser [part_text t] # input | None \<Rightarrow> input), st\<lparr> sp_goals := Some goals' \<rparr>)))"

definition has_mailbox_preemption :: "'w sampling_env \<Rightarrow> 'w sampling_state \<Rightarrow> bool \<times> 'w sampling_state" where
  "has_mailbox_preemption env st =
     (case sm_probe env of
        Some probe \<Rightarrow> (let (b, w) = probe (sp_world st) in (b, st\<lparr> sp_world := w \<rparr>))
      | None \<Rightarrow> (False, st))"

definition consume_event ::
    "'w sampling_env \<Rightarrow> turn_accumulator \<Rightarrow> llm_event \<Rightarrow> int \<Rightarrow> nat \<Rightarrow> 'w sampling_state
      \<Rightarrow> (agent_error + stream_progress \<times> turn_accumulator) \<times> 'w sampling_state" where
  "consume_event env acc ev elapsed turn_idx st =
     (let st1 = emit_event env ev turn_idx st in
      (accumulate acc ev, (case ev of Finish u _ \<Rightarrow> emit_goal_accounting env u elapsed st1 | _ \<Rightarrow> st1)))"

text \<open>How reading a stream ends: the turn fails, an error breaks it, or the response is there (\<open>True\<close>
  when mail preempted it).\<close>

datatype stream_end = EndFailed agent_error | EndBroken llm_error | EndResponse turn_accumulator bool

fun consume_stream ::
    "'w sampling_env \<Rightarrow> nat \<Rightarrow> turn_accumulator \<Rightarrow> stream_poll list \<Rightarrow> 'w sampling_state \<Rightarrow> stream_end \<times> 'w sampling_state" where
  "consume_stream env turn_idx acc [] st = (EndResponse acc False, st)"
| "consume_stream env turn_idx acc (PollCancelled # polls) st = (EndFailed AeTurnAborted, st)"
| "consume_stream env turn_idx acc (PollError e # polls) st = (EndBroken e, st)"
| "consume_stream env turn_idx acc (PollEvent elapsed ev # polls) st =
     (case consume_event env acc ev elapsed turn_idx st of
        (Inl e, st1) \<Rightarrow> (EndFailed e, st1)
      | (Inr (ProgressDone, acc1), st1) \<Rightarrow> (EndResponse acc1 False, st1)
      | (Inr (ProgressContinue, acc1), st1) \<Rightarrow>
          if checks_mailbox_preemption_after_event ev
          then (let (preempted, st2) = has_mailbox_preemption env st1 in
                if preempted then (EndResponse acc1 True, st2) else consume_stream env turn_idx acc1 polls st2)
          else consume_stream env turn_idx acc1 polls st1)"

definition sp_record :: "(message list \<Rightarrow> 'w \<Rightarrow> 'w) \<Rightarrow> message list \<Rightarrow> 'w sampling_state \<Rightarrow> 'w sampling_state" where
  "sp_record rec ms st = st\<lparr> sp_world := rec ms (sp_world st) \<rparr>"

text \<open>The outcome of a response: the fused dispatch when there is a dispatcher, a recorder and a call.\<close>

definition finish_response ::
    "'w sampling_env \<Rightarrow> turn_accumulator \<Rightarrow> bool \<Rightarrow> 'w sampling_state \<Rightarrow> sampling_outcome \<times> 'w sampling_state" where
  "finish_response env acc preempted st =
     (let streamed = (if str_trim (ta_full_text acc) \<noteq> [] then Some (ta_full_text acc) else None);
          calls = extract_tool_calls (ta_tool_calls acc);
          outcome = (\<lambda>nfu last_message defers. \<lparr> model_needs_follow_up = needs_follow_up nfu preempted,
              last_agent_message = last_message, defers_mailbox_delivery = defers,
              outcome_finish_reason = ta_finish_reason acc \<rparr>) in
      case (sm_dispatch env, sm_recorder env, calls) of
        (Some dispatch, Some rec, _ # _) \<Rightarrow>
          let has_done_call = calls_done_tool calls;
              assistant = assistant_message (ta_full_text acc) (ta_text_buffer acc, ta_text_parts acc) calls;
              st1 = sp_record rec [assistant] st;
              ((outputs, result_nfu, elapsed), w) = dispatch calls (sp_world st1);
              st2 = emit_goal_elapsed_accounting env elapsed (st1\<lparr> sp_world := w \<rparr>);
              st3 = (if outputs \<noteq> []
                     then sp_record rec outputs
                            (sp_emit (concat (map (\<lambda>(call, output). emit_tool_result (sm_ctx env) call output) (zip calls outputs))) st2)
                     else st2);
              done_succeeded = (has_done_call \<and> done_tool_succeeded calls outputs);
              summary = (if done_succeeded \<and> streamed = None then done_summary calls else None);
              nfu = (if done_succeeded then False else needs_follow_up (result_nfu \<or> has_done_call) False)
          in (outcome nfu (or_else streamed summary) (ta_defers_mailbox acc \<or> summary \<noteq> None), st3)
      | _ \<Rightarrow> (outcome (needs_follow_up (ta_tool_calls acc \<noteq> []) False) streamed (ta_defers_mailbox acc), st))"

text \<open>The outer loop: one round opens a stream and reads it.\<close>

definition sampling_round ::
    "'w sampling_env \<Rightarrow> llm_request \<Rightarrow> nat \<Rightarrow> 32 word \<Rightarrow> 'w sampling_state
      \<Rightarrow> (llm_error + agent_error + turn_accumulator \<times> bool) \<times> 'w sampling_state" where
  "sampling_round env req turn_idx attempt st =
     (let st1 = emit_turn_request env turn_idx attempt (request_composition req)
                  (request_observability_input req (sm_full_input env)) st;
          (opened, w) = sm_open env req (sp_world st1); st2 = st1\<lparr> sp_world := w \<rparr> in
      case opened of
        Inl e \<Rightarrow> (Inl e, st2)
      | Inr polls \<Rightarrow>
          (case consume_stream env turn_idx accumulator_default polls st2 of
             (EndFailed e, st3) \<Rightarrow> (Inr (Inl e), st3)
           | (EndBroken e, st3) \<Rightarrow> (Inl e, st3)
           | (EndResponse acc preempted, st3) \<Rightarrow> (Inr (Inr (acc, preempted)), st3)))"

definition stream_error_step ::
    "'w sampling_env \<Rightarrow> llm_error \<Rightarrow> 32 word \<Rightarrow> retry_step \<times> 32 word \<times> 64 word list" where
  "stream_error_step env e attempt = handle_stream_error (sm_jittered env) e attempt (sm_max_retries env) (sm_jitter env)"

lemma stream_error_retry:
  assumes "stream_error_step env e attempt = (StepRetry, attempt', delays)"
  shows "attempt < sm_max_retries env" "attempt' = attempt + 1" "err_retryable e" "\<not> is_context_window_exceeded e"
    "\<not> is_usage_limit_reached e" "delays = [apply_jitter (sm_jittered env) (backoff_ms (attempt + 1)) (sm_jitter env)]"
  using assms
  by (auto simp: stream_error_step_def handle_stream_error_def retry_decision_def requested_delay_ms_def Let_def
      split: if_splits retry_action.splits)

lemma next_attempt:
  fixes attempt :: "32 word"
  assumes "attempt < mx"
  shows "unat (attempt + 1) = unat attempt + 1"
proof -
  have "unat attempt < unat mx" using assms by (simp add: word_less_nat_alt)
  moreover have "unat mx < 2 ^ 32" using unsigned_less [of mx, where ?'a = nat] by simp
  ultimately show ?thesis by (simp add: unat_word_ariths)
qed

function sampling_attempts ::
    "'w sampling_env \<Rightarrow> llm_request \<Rightarrow> nat \<Rightarrow> 32 word \<Rightarrow> 'w sampling_state
      \<Rightarrow> (agent_error + sampling_outcome) \<times> 'w sampling_state" where
  "sampling_attempts env req turn_idx attempt st =
     (case sampling_round env req turn_idx attempt st of
        (Inr (Inl e), st1) \<Rightarrow> (Inl e, st1)
      | (Inr (Inr (acc, preempted)), st1) \<Rightarrow> map_prod Inr id (finish_response env acc preempted st1)
      | (Inl e, st1) \<Rightarrow>
          (case stream_error_step env e attempt of
             (StepFail a, _, _) \<Rightarrow> (Inl a, st1)
           | (StepRetry, attempt', delays) \<Rightarrow>
               sampling_attempts env req turn_idx attempt' (st1\<lparr> sp_delays := sp_delays st1 @ delays \<rparr>)))"
  by pat_completeness auto
termination
proof (relation "measure (\<lambda>(env, req, turn_idx, attempt, st). unat (sm_max_retries env) - unat attempt)", goal_cases)
  case (2 env req turn_idx attempt st r st1 e step rest attempt' delays)
  then have "attempt < sm_max_retries env" "attempt' = attempt + 1"
    using stream_error_retry [of env e attempt attempt' delays] by auto
  then show ?case by (simp add: next_attempt word_less_nat_alt)
qed simp

declare sampling_attempts.simps [simp del]

definition run_sampling ::
    "'w sampling_env \<Rightarrow> message list \<Rightarrow> 'w sampling_state \<Rightarrow> (agent_error + sampling_outcome) \<times> 'w sampling_state" where
  "run_sampling env input0 st =
     (let (input, st1) = input_with_goal_context env input0 st;
          req = build_turn_request (sm_ctx env) input;
          turn_idx = sp_next_turn_idx st1;
          st2 = st1\<lparr> sp_next_turn_idx := turn_idx + 1 \<rparr>;
          req1 = (if sm_dispatch env \<noteq> None then req\<lparr> rq_tools := sm_tools env \<rparr> else req)
      in sampling_attempts env req1 turn_idx 0 st2)"

section \<open>Retries\<close>

abbreviation requests_in :: "pending_event list \<Rightarrow> pending_event list" where
  "requests_in evs \<equiv> filter (\<lambda>p. pe_type p = model_turn_request_name) evs"

lemma no_request_mapped [simp]: "requests_in (map_llm_event ctx ev) = []"
  by (cases ev) (auto simp: pending_new_def turn_event_names)

lemma steering_types:
  "list_all (\<lambda>p. pe_type p = goal_set_event \<or> pe_type p = goal_budget_warning_event \<or> pe_type p = goal_budget_limit_event)
     (steering_events scaled session a b ba bb)"
  by (auto simp: steering_events_def Let_def split: budget_level.split)

lemma goal_types_no_request:
  "goal_set_event \<noteq> model_turn_request_name" "goal_budget_warning_event \<noteq> model_turn_request_name"
  "goal_budget_limit_event \<noteq> model_turn_request_name" "goal_accounted_event \<noteq> model_turn_request_name"
  "goal_updated_event \<noteq> model_turn_request_name"
  by (simp_all add: event_type_defs turn_event_names)

lemma no_request_recorded [simp]: "requests_in (fst (record_usage scaled u secs m)) = []"
  using steering_types goal_types_no_request
  by (simp add: record_usage_def gm_apply_events filter_empty_conv list_all_iff) metis

lemma no_request_accounted [simp]: "requests_in (fst (snd (account_usage scaled src now u secs goals))) = []"
proof (cases "refresh_from_source src goals")
  case (Inr st1)
  then show ?thesis
    by (simp add: account_usage_def Let_def case_prod_beta goal_pending_def goal_types_no_request)
qed (simp add: account_usage_def)

lemma no_request_result [simp]: "requests_in (emit_tool_result ctx call output) = []"
  by (auto simp: emit_tool_result_def Let_def case_prod_beta pending_new_def turn_event_names)

lemma accounting_state [simp]:
  "requests_in (sp_emitted (emit_goal_accounting env u secs st)) = requests_in (sp_emitted st)"
  "sp_delays (emit_goal_accounting env u secs st) = sp_delays st"
  "requests_in (sp_emitted (emit_goal_elapsed_accounting env secs st)) = requests_in (sp_emitted st)"
  "sp_delays (emit_goal_elapsed_accounting env secs st) = sp_delays st"
  by (simp_all add: emit_goal_accounting_def emit_goal_elapsed_accounting_def account_elapsed_seconds_def sp_emit_def
      case_prod_beta split: option.split)

text \<open>What a step of the driver leaves alone: the request events and the delays.\<close>

definition quiet :: "'w sampling_state \<Rightarrow> 'w sampling_state \<Rightarrow> bool" where
  "quiet st st' \<longleftrightarrow> requests_in (sp_emitted st') = requests_in (sp_emitted st) \<and> sp_delays st' = sp_delays st"

lemma quiet_trans: "quiet a b \<Longrightarrow> quiet b c \<Longrightarrow> quiet a c"
  by (simp add: quiet_def)

lemma quiet_consume: "quiet st (snd (consume_event env acc ev elapsed turn_idx st))"
  by (cases ev) (simp_all add: quiet_def consume_event_def emit_event_def sp_emit_def Let_def del: map_llm_event.simps)

lemma quiet_probe: "quiet st (snd (has_mailbox_preemption env st))"
  by (simp add: quiet_def has_mailbox_preemption_def case_prod_beta split: option.split)

lemma quiet_stream: "quiet st (snd (consume_stream env turn_idx acc polls st))"
proof (induction env turn_idx acc polls st rule: consume_stream.induct)
  case (4 env turn_idx acc elapsed ev polls st)
  obtain r st1 where c: "consume_event env acc ev elapsed turn_idx st = (r, st1)" by fastforce
  have q: "quiet st st1" using quiet_consume [of st env acc ev elapsed turn_idx] c by simp
  show ?case
  proof (cases r)
    case (Inl e)
    with c q show ?thesis by simp
  next
    case (Inr p)
    obtain progress acc1 where p: "p = (progress, acc1)" by fastforce
    obtain b st2 where m: "has_mailbox_preemption env st1 = (b, st2)" by fastforce
    have "quiet st1 st2" using quiet_probe [of st1 env] m by simp
    with 4 c q Inr p m show ?thesis
      by (cases progress) (auto intro: quiet_trans)
  qed
qed (simp_all add: quiet_def)

lemma quiet_finish: "quiet st (snd (finish_response env acc preempted st))"
proof -
  have "requests_in (concat (map (\<lambda>(call, output). emit_tool_result ctx call output) xs)) = []" for ctx xs
    by (induction xs) auto
  then show ?thesis
    by (auto simp: quiet_def finish_response_def sp_record_def sp_emit_def Let_def case_prod_beta split: option.split list.split)
qed

lemma round_effects:
  assumes "sampling_round env req turn_idx attempt st = (r, st')"
  shows "length (requests_in (sp_emitted st')) = length (requests_in (sp_emitted st)) + 1" "sp_delays st' = sp_delays st"
proof -
  define st2 where "st2 = (let st1 = emit_turn_request env turn_idx attempt (request_composition req)
      (request_observability_input req (sm_full_input env)) st in st1\<lparr> sp_world := snd (sm_open env req (sp_world st1)) \<rparr>)"
  have st2: "length (requests_in (sp_emitted st2)) = length (requests_in (sp_emitted st)) + 1" "sp_delays st2 = sp_delays st"
    by (simp_all add: st2_def emit_turn_request_def sp_emit_def pending_new_def Let_def)
  have "st' = st2 \<or> (\<exists>polls. st' = snd (consume_stream env turn_idx accumulator_default polls st2))"
    using assms by (auto simp: sampling_round_def st2_def Let_def case_prod_beta split: sum.splits prod.splits stream_end.splits)
  with st2 quiet_stream [of st2 env turn_idx accumulator_default]
  show "length (requests_in (sp_emitted st')) = length (requests_in (sp_emitted st)) + 1" "sp_delays st' = sp_delays st"
    by (auto simp: quiet_def)
qed

definition waits :: "'w sampling_env \<Rightarrow> nat \<Rightarrow> nat \<Rightarrow> 64 word list" where
  "waits env from n = map (\<lambda>k. apply_jitter (sm_jittered env) (backoff_ms (of_nat (k + 1))) (sm_jitter env)) [from..<from + n]"

lemma waits_Suc: "waits env from (Suc n) = apply_jitter (sm_jittered env) (backoff_ms (of_nat (from + 1))) (sm_jitter env) # waits env (Suc from) n"
  by (simp add: waits_def upt_conv_Cons del: upt_Suc)

lemma attempts_bounded:
  "sampling_attempts env req turn_idx attempt st = (r, st') \<Longrightarrow>
   \<exists>n. unat attempt + n \<le> max (unat (sm_max_retries env)) (unat attempt)
     \<and> length (requests_in (sp_emitted st')) = length (requests_in (sp_emitted st)) + n + 1
     \<and> sp_delays st' = sp_delays st @ waits env (unat attempt) n"
proof (induction env req turn_idx attempt st arbitrary: r st' rule: sampling_attempts.induct)
  case (1 env req turn_idx attempt st)
  obtain res st1 where round: "sampling_round env req turn_idx attempt st = (res, st1)" by fastforce
  note eff = round_effects [OF round]
  show ?case
  proof (cases res)
    case (Inr x)
    then have "quiet st1 st'"
      using 1(2) round quiet_finish [of st1 env]
      by (auto simp: sampling_attempts.simps [of env req turn_idx attempt st] quiet_def map_prod_def case_prod_beta split: sum.splits)
    with eff show ?thesis by (intro exI [of _ 0]) (auto simp: quiet_def waits_def)
  next
    case (Inl e)
    obtain step attempt' delays where step: "stream_error_step env e attempt = (step, attempt', delays)" by (metis prod_cases3)
    show ?thesis
    proof (cases step)
      case (StepFail a)
      with 1(2) round Inl step eff show ?thesis
        by (intro exI [of _ 0]) (auto simp: sampling_attempts.simps [of env req turn_idx attempt st] waits_def)
    next
      case StepRetry
      note retry = stream_error_retry [OF step [unfolded StepRetry]]
      define st2 where "st2 = st1\<lparr> sp_delays := sp_delays st1 @ delays \<rparr>"
      have rest: "sampling_attempts env req turn_idx attempt' st2 = (r, st')"
        using 1(2) round Inl step StepRetry
        by (simp add: sampling_attempts.simps [of env req turn_idx attempt st] st2_def)
      from 1(1) [OF round [symmetric] Inl step [symmetric] StepRetry refl rest [unfolded st2_def]]
      obtain n where n: "unat attempt' + n \<le> max (unat (sm_max_retries env)) (unat attempt')"
        "length (requests_in (sp_emitted st')) = length (requests_in (sp_emitted st2)) + n + 1"
        "sp_delays st' = sp_delays st2 @ waits env (unat attempt') n"
        by (auto simp: st2_def)
      have a: "unat attempt' = unat attempt + 1" using retry(1,2) by (simp add: next_attempt)
      have le: "unat attempt < unat (sm_max_retries env)" using retry(1) by (simp add: word_less_nat_alt)
      have "waits env (unat attempt) (Suc n) = delays @ waits env (unat attempt') n"
        by (simp add: waits_Suc a retry(6) add.commute)
      with n a le eff retry(6) show ?thesis
        by (intro exI [of _ "Suc n"]) (auto simp: st2_def)
    qed
  qed
qed

section \<open>What is streamed\<close>

text \<open>The accumulator after a list of events, none of which ends or fails the response.\<close>

fun ends_response :: "llm_event \<Rightarrow> bool" where
  "ends_response (Finish _ _) = True"
| "ends_response (ProviderError _ _) = True"
| "ends_response _ = False"

definition accumulated :: "turn_accumulator \<Rightarrow> llm_event \<Rightarrow> turn_accumulator" where
  "accumulated acc ev = (case accumulate acc ev of Inr (_, acc') \<Rightarrow> acc' | Inl _ \<Rightarrow> acc)"

lemma accumulate_continues: "\<not> ends_response ev \<Longrightarrow> accumulate acc ev = Inr (ProgressContinue, accumulated acc ev)"
  by (cases ev) (simp_all add: accumulated_def Let_def case_prod_beta)

definition never_preempted :: "'w sampling_env \<Rightarrow> bool" where
  "never_preempted env \<longleftrightarrow> (\<forall>probe w. sm_probe env = Some probe \<longrightarrow> \<not> fst (probe w))"

lemma stream_without_mail:
  assumes "never_preempted env" "\<forall>ev\<in>set evs. \<not> ends_response ev"
  shows "fst (consume_stream env turn_idx acc (map (PollEvent elapsed) (evs @ [Finish u reason])) st)
         = EndResponse ((foldl accumulated acc evs)\<lparr> ta_usage := Some u, ta_finish_reason := reason \<rparr>) False"
  using assms(2)
proof (induction evs arbitrary: acc st)
  case Nil
  then show ?case by (simp add: consume_event_def Let_def)
next
  case (Cons ev evs)
  then have "accumulate acc ev = Inr (ProgressContinue, accumulated acc ev)" by (simp add: accumulate_continues)
  then obtain st1 where c: "consume_event env acc ev elapsed turn_idx st = (Inr (ProgressContinue, accumulated acc ev), st1)"
    by (simp add: consume_event_def Let_def)
  obtain st2 where "has_mailbox_preemption env st1 = (False, st2)"
    using assms(1) by (cases "sm_probe env") (auto simp: has_mailbox_preemption_def never_preempted_def case_prod_beta Let_def)
  with Cons c show ?case by simp
qed

text \<open>The accumulator and the client's aggregation hold the same text and calls.\<close>

definition agrees :: "turn_accumulator \<Rightarrow> aggregation \<Rightarrow> bool" where
  "agrees acc a \<longleftrightarrow> (ta_text_buffer acc, ta_text_parts acc) = ag_text a \<and> ta_tool_calls acc = ag_calls a
     \<and> (ta_full_text acc \<noteq> [] \<longrightarrow> ta_text_buffer acc \<noteq> [] \<or> ta_text_parts acc \<noteq> [])
     \<and> list_all is_tool_call_part (ta_tool_calls acc)"

lemma same_text_functions: "sampling_flush_text = flush_text_buffer" "sampling_push_text = push_text_part"
  "tool_call_provider_metadata = namespaced_metadata"
  by (auto simp: fun_eq_iff sampling_flush_text_def flush_text_buffer_def sampling_push_text_def push_text_part_def
      tool_call_provider_metadata_def namespaced_metadata_def Let_def split: option.split json.split)

lemma agrees_step: "agrees acc a \<Longrightarrow> \<not> ends_response ev \<Longrightarrow> agrees (accumulated acc ev) (aggregate_step a ev)"
proof (cases ev)
  case (TextDelta d delta md)
  assume "agrees acc a"
  with TextDelta show ?thesis
    by (cases md; cases "ag_text a") (auto simp: agrees_def accumulated_def same_text_functions push_text_part_def flush_text_buffer_def
        Let_def case_prod_beta split: prod.splits if_splits)
qed (auto simp: agrees_def accumulated_def same_text_functions take_finish_def Let_def)

lemma agrees_run: "agrees acc a \<Longrightarrow> \<forall>ev\<in>set evs. \<not> ends_response ev \<Longrightarrow> agrees (foldl accumulated acc evs) (foldl aggregate_step a evs)"
  by (induction evs arbitrary: acc a) (auto intro: agrees_step)

fun is_reasoning_part :: "content_part \<Rightarrow> bool" where
  "is_reasoning_part (PReasoning _ _ _) = True"
| "is_reasoning_part _ = False"

definition plain_parts :: "aggregation \<Rightarrow> bool" where
  "plain_parts a \<longleftrightarrow> (\<forall>p\<in>set (snd (ag_text a)) \<union> set (ag_calls a). \<not> is_reasoning_part p)"

lemma plain_parts_step: "plain_parts a \<Longrightarrow> plain_parts (aggregate_step a ev)"
  by (cases ev) (auto simp: plain_parts_def push_text_part_def flush_text_buffer_def part_text_def take_finish_def Let_def case_prod_beta
      split: option.splits)

lemma plain_parts_run: "plain_parts a \<Longrightarrow> plain_parts (foldl aggregate_step a evs)"
  by (induction evs arbitrary: a) (simp_all add: plain_parts_step)

section \<open>What is logged\<close>

fun hides_secrets :: "json \<Rightarrow> bool" where
  "hides_secrets (JObj kvs) =
     list_all (\<lambda>(k, v). if is_observability_secret_key k then v = JStr ''[redacted]'' else hides_secrets v) kvs"
| "hides_secrets (JArr xs) = list_all hides_secrets xs"
| "hides_secrets _ = True"

lemma sanitized_hides: "hides_secrets (sanitize_observability_value v)"
proof (induction v rule: sanitize_observability_value.induct)
  case (1 kvs)
  then show ?case by (auto simp: list_all_iff split: if_splits)
qed (auto simp: list_all_iff)

lemma plain_keys:
  "\<not> is_observability_secret_key ''message_count''" "\<not> is_observability_secret_key ''messages''"
  "\<not> is_observability_secret_key ''omitted_earlier_messages''" "\<not> is_observability_secret_key ''system''"
  "\<not> is_observability_secret_key ''tools''" "\<not> is_observability_secret_key ''tools_count''"
  "\<not> is_observability_secret_key ''truncated''" "\<not> is_observability_secret_key ''full_input_omitted''"
  "\<not> is_observability_secret_key ''system_count''"
  by code_simp+

section \<open>Cache breakpoints\<close>

lemma breakpoints_of_eligible:
  "set (cache_breakpoints ms) \<subseteq> fst ` set (eligible_messages ms)" "length (cache_breakpoints ms) \<le> 2"
  "eligible_messages ms \<noteq> [] \<Longrightarrow> fst (last (eligible_messages ms)) \<in> set (cache_breakpoints ms)"
proof -
  have look: "set (lookback since xs) \<subseteq> fst ` set xs" "length (lookback since xs) \<le> 1" for since xs
    by (induction since xs rule: lookback.induct) auto
  have short: "length (remdups_adj (sort (i # lookback 0 xs))) \<le> 2" for i xs
  proof -
    have "length (remdups_adj (sort (i # lookback 0 xs))) \<le> length (sort (i # lookback 0 xs))"
      by (rule remdups_adj_length)
    also have "\<dots> \<le> 2" using look(2) [of 0 xs] by simp
    finally show ?thesis .
  qed
  have cases: "eligible_messages ms = [] \<and> cache_breakpoints ms = []
      \<or> (\<exists>i b xs. rev (eligible_messages ms) = (i, b) # xs \<and> cache_breakpoints ms = remdups_adj (sort (i # lookback 0 xs)))"
    using short by (auto simp: cache_breakpoints_def max_message_breakpoints_def Let_def split: list.splits prod.splits)
  show "length (cache_breakpoints ms) \<le> 2" using cases short by auto
  from cases show "set (cache_breakpoints ms) \<subseteq> fst ` set (eligible_messages ms)"
  proof (elim disjE exE conjE)
    fix i b xs assume "rev (eligible_messages ms) = (i, b) # xs" "cache_breakpoints ms = remdups_adj (sort (i # lookback 0 xs))"
    moreover from this(1) have "set (eligible_messages ms) = insert (i, b) (set xs)" by (metis list.simps(15) set_rev)
    ultimately show ?thesis using look(1) [of 0 xs] by (auto simp: set_insort_key)
  qed simp
  assume some: "eligible_messages ms \<noteq> []"
  from cases show "fst (last (eligible_messages ms)) \<in> set (cache_breakpoints ms)"
  proof (elim disjE exE conjE)
    fix i b xs assume "rev (eligible_messages ms) = (i, b) # xs" "cache_breakpoints ms = remdups_adj (sort (i # lookback 0 xs))"
    moreover from this(1) have "last (eligible_messages ms) = (i, b)" by (metis last_rev list.sel(1) rev_rev_ident hd_rev)
    ultimately show ?thesis by (simp add: set_insort_key)
  qed (use some in simp)
qed

section \<open>What is recorded\<close>

fun text_of_part :: "content_part \<Rightarrow> string" where
  "text_of_part (PText t _) = t"
| "text_of_part _ = []"

definition acc_ok :: "turn_accumulator \<Rightarrow> bool" where
  "acc_ok acc \<longleftrightarrow> list_all is_text_part (ta_text_parts acc) \<and> list_all is_tool_call_part (ta_tool_calls acc)
     \<and> ta_full_text acc = concat (map text_of_part (ta_text_parts acc)) @ ta_text_buffer acc"

lemma flush_ok: "list_all is_text_part parts \<Longrightarrow> list_all is_text_part (snd (sampling_flush_text (buffer, parts)))"
  by (simp add: sampling_flush_text_def part_text_def)

lemma accumulate_ok: "acc_ok acc \<Longrightarrow> accumulate acc ev = Inr (progress, acc') \<Longrightarrow> acc_ok acc'"
  by (cases ev) (auto simp: acc_ok_def sampling_push_text_def sampling_flush_text_def part_text_def Let_def split: option.splits if_splits)

text \<open>A log that only the recorder writes, one append at a time (\<open>BufferRecorder\<close>).\<close>

definition logs_faithfully :: "('w \<Rightarrow> message list) \<Rightarrow> 'w sampling_env \<Rightarrow> bool" where
  "logs_faithfully log env \<longleftrightarrow>
     (\<exists>rec. sm_recorder env = Some rec \<and> (\<forall>ms w. log (rec ms w) = log w @ ms))
     \<and> (\<forall>d cs w. sm_dispatch env = Some d \<longrightarrow> log (snd (d cs w)) = log w)
     \<and> (\<forall>req w. log (snd (sm_open env req w)) = log w)
     \<and> (\<forall>probe w. sm_probe env = Some probe \<longrightarrow> log (snd (probe w)) = log w)"

text \<open>The dispatcher is that of \<open>Dispatch\<close>: its outputs are those of a finished run, under some interleaving of the
  calls. \<open>stops cs w k\<close> is what the token answers before the \<open>k\<close>-th call.\<close>

definition dispatches_in_order :: "(content_part list \<Rightarrow> 'w \<Rightarrow> nat \<Rightarrow> bool) \<Rightarrow> 'w sampling_env \<Rightarrow> bool" where
  "dispatches_in_order stops env \<longleftrightarrow>
     (\<exists>d. sm_dispatch env = Some d \<and> (\<forall>cs w. \<exists>pp registry safe mp c ds elapsed.
        dispatch_run (production_env pp registry safe mp (stops cs w) cs)
          (dispatch_start (production_env pp registry safe mp (stops cs w) cs) c) ds
        \<and> all_finished ds \<and> fst (d cs w) = (outputs_in_order ds, needs_follow_up_dispatch cs, elapsed)))"

text \<open>Its outputs answer the scheduled calls, under every interleaving.\<close>

lemma dispatched_outputs_answer:
  assumes "dispatch_run (production_env pp registry safe mp cancelled calls) (dispatch_start (production_env pp registry safe mp cancelled calls) c) d"
    and "all_finished d"
  shows "list_all2 answers (schedule cancelled 0 calls) (outputs_in_order d)"
  using outputs_when_finished [OF run_ok(2) [OF assms(1)] assms(2)] by (simp add: production_env_def)

lemma dispatched_outputs:
  assumes "dispatches_in_order stops env" "sm_dispatch env = Some d" "d cs w = ((outputs, nfu, elapsed), w')"
  shows "list_all2 answers (schedule (stops cs w) 0 cs) outputs" "nfu = needs_follow_up_dispatch cs"
proof -
  from assms(1,2) obtain pp registry safe mp c ds e where
    r: "dispatch_run (production_env pp registry safe mp (stops cs w) cs)
          (dispatch_start (production_env pp registry safe mp (stops cs w) cs) c) ds" "all_finished ds"
    and o: "fst (d cs w) = (outputs_in_order ds, needs_follow_up_dispatch cs, e)"
    unfolding dispatches_in_order_def by (metis option.inject)
  from o assms(3) show "nfu = needs_follow_up_dispatch cs" by simp
  from dispatched_outputs_answer [OF r] o assms(3) show "list_all2 answers (schedule (stops cs w) 0 cs) outputs" by simp
qed

lemma accounting_world [simp]:
  "sp_world (emit_goal_accounting env u secs st) = sp_world st"
  "sp_world (emit_goal_elapsed_accounting env secs st) = sp_world st"
  by (simp_all add: emit_goal_accounting_def emit_goal_elapsed_accounting_def sp_emit_def case_prod_beta split: option.split)

lemma consume_event_world: "consume_event env acc ev elapsed turn_idx st = (r, st') \<Longrightarrow> sp_world st' = sp_world st \<and> r = accumulate acc ev"
  by (cases ev) (auto simp: consume_event_def emit_event_def sp_emit_def Let_def)

lemma stream_log:
  assumes "logs_faithfully log env"
  shows "acc_ok acc \<Longrightarrow> consume_stream env turn_idx acc polls st = (e, st') \<Longrightarrow>
    log (sp_world st') = log (sp_world st) \<and> (\<forall>acc' p. e = EndResponse acc' p \<longrightarrow> acc_ok acc')"
proof (induction polls arbitrary: acc st)
  case (Cons poll polls)
  show ?case
  proof (cases poll)
    case (PollEvent elapsed ev)
    obtain r st1 where c: "consume_event env acc ev elapsed turn_idx st = (r, st1)" by fastforce
    have w: "sp_world st1 = sp_world st" and acc_r: "accumulate acc ev = r" using consume_event_world [OF c] by simp_all
    obtain b st2 where m: "has_mailbox_preemption env st1 = (b, st2)" by fastforce
    have m_log: "log (sp_world st2) = log (sp_world st1)"
      using assms m by (auto simp: has_mailbox_preemption_def logs_faithfully_def case_prod_beta split: option.splits)
    show ?thesis
    proof (cases r)
      case (Inl a)
      with Cons.prems PollEvent c w show ?thesis by auto
    next
      case (Inr x)
      then obtain progress acc1 where x: "r = Inr (progress, acc1)" by (cases x) auto
      then have "acc_ok acc1" using accumulate_ok [OF Cons.prems(1)] acc_r by simp
      note IH = Cons.IH [OF this]
      consider (stop) "e = EndResponse acc1 False" "st' = st1"
        | (mail) "e = EndResponse acc1 True" "st' = st2"
        | (go) s where "consume_stream env turn_idx acc1 polls s = (e, st')" "s = st1 \<or> s = st2"
        using Cons.prems(2) m unfolding PollEvent consume_stream.simps c x
        by (cases progress; cases "checks_mailbox_preemption_after_event ev"; cases b) auto
      then show ?thesis
      proof cases
        case (go s)
        with IH [OF go(1)] w m_log show ?thesis by auto
      qed (use \<open>acc_ok acc1\<close> w m_log in auto)
    qed
  qed (use Cons.prems in auto)
qed auto

text \<open>A response: what a stream that the transport opened was read to.\<close>

definition read_response :: "'w sampling_env \<Rightarrow> turn_accumulator \<Rightarrow> bool \<Rightarrow> bool" where
  "read_response env acc preempted \<longleftrightarrow>
     (\<exists>req w w' polls turn_idx st st'. sm_open env req w = (Inr polls, w')
        \<and> consume_stream env turn_idx accumulator_default polls st = (EndResponse acc preempted, st'))"

lemma round_log:
  assumes "logs_faithfully log env" "sampling_round env req turn_idx attempt st = (r, st')"
  shows "log (sp_world st') = log (sp_world st)
    \<and> (\<forall>acc p. r = Inr (Inr (acc, p)) \<longrightarrow> acc_ok acc \<and> read_response env acc p)"
proof -
  have start: "acc_ok accumulator_default" by (simp add: acc_ok_def accumulator_default_def)
  define st1 where "st1 = emit_turn_request env turn_idx attempt (request_composition req) (request_observability_input req (sm_full_input env)) st"
  obtain opened w where o: "sm_open env req (sp_world st1) = (opened, w)" by fastforce
  have "log (snd (sm_open env req (sp_world st1))) = log (sp_world st1)" using assms(1) by (simp add: logs_faithfully_def)
  then have w: "log w = log (sp_world st)" using o by (simp add: st1_def emit_turn_request_def sp_emit_def)
  show ?thesis
  proof (cases opened)
    case (Inl e)
    with assms(2) o w show ?thesis by (auto simp: sampling_round_def Let_def st1_def [symmetric])
  next
    case (Inr polls)
    obtain e st3 where c: "consume_stream env turn_idx accumulator_default polls (st1\<lparr> sp_world := w \<rparr>) = (e, st3)" by fastforce
    have "\<And>acc p. e = EndResponse acc p \<Longrightarrow> read_response env acc p"
      using o c Inr unfolding read_response_def by blast
    with stream_log [OF assms(1) start c] assms(2) o w Inr c show ?thesis
      by (cases e) (auto simp: sampling_round_def Let_def st1_def [symmetric])
  qed
qed

text \<open>What a response leaves in the log. Without calls nothing; with calls the assistant message, whose text is the
  response's and whose calls are all of its calls, and the outputs of the calls that were scheduled. The turn goes
  on when mail preempted the response, or it made calls and the done tool was not among the accepted ones.\<close>

definition response_recorded ::
    "(content_part list \<Rightarrow> 'w \<Rightarrow> nat \<Rightarrow> bool) \<Rightarrow> turn_accumulator \<Rightarrow> bool \<Rightarrow> message list \<Rightarrow> sampling_outcome \<Rightarrow> bool" where
  "response_recorded stops acc preempted ms out \<longleftrightarrow>
     (let calls = ta_tool_calls acc in
      if calls = [] then ms = [] \<and> model_needs_follow_up out = preempted
      else \<exists>texts outputs w. ms = message_new RAssistant (texts @ calls) # outputs
         \<and> list_all is_text_part texts \<and> concat (map text_of_part texts) = ta_full_text acc
         \<and> list_all2 answers (schedule (stops calls w) 0 calls) outputs
         \<and> model_needs_follow_up out = (preempted \<or> \<not> done_tool_succeeded calls outputs))"

lemma done_succeeded_calls: "done_tool_succeeded calls outputs \<Longrightarrow> calls_done_tool calls"
  unfolding done_tool_succeeded_def calls_done_tool_def list_ex_iff
  by (metis (mono_tags, lifting) case_prodE set_zip_leftD)

lemma finish_log:
  assumes "logs_faithfully log env" "dispatches_in_order stops env" "acc_ok acc"
    "finish_response env acc preempted st = (out, st')"
  shows "\<exists>ms. log (sp_world st') = log (sp_world st) @ ms \<and> response_recorded stops acc preempted ms out"
proof (cases "ta_tool_calls acc")
  case Nil
  with assms(4) have "st' = st" "model_needs_follow_up out = preempted"
    by (auto simp: finish_response_def extract_tool_calls_def needs_follow_up_def Let_def split: option.splits)
  with Nil show ?thesis by (simp add: response_recorded_def)
next
  case (Cons c cs)
  from assms(1) obtain rec where rec: "sm_recorder env = Some rec" "\<And>ms w. log (rec ms w) = log w @ ms"
    unfolding logs_faithfully_def by blast
  from assms(2) obtain d where d: "sm_dispatch env = Some d" unfolding dispatches_in_order_def by blast
  have keeps: "\<And>cs w. log (snd (d cs w)) = log w" using assms(1) d unfolding logs_faithfully_def by blast
  have calls: "extract_tool_calls (ta_tool_calls acc) = c # cs"
    using assms(3) Cons by (auto simp: extract_tool_calls_def acc_ok_def list_all_iff intro!: filter_True)
  define texts where "texts = (let parts = snd (sampling_flush_text (ta_text_buffer acc, ta_text_parts acc)) in
      if parts \<noteq> [] then parts else if ta_full_text acc \<noteq> [] then [part_text (ta_full_text acc)] else [])"
  have texts: "list_all is_text_part texts" "concat (map text_of_part texts) = ta_full_text acc"
    using flush_ok [of "ta_text_parts acc" "ta_text_buffer acc"] assms(3)
    by (auto simp: texts_def acc_ok_def part_text_def sampling_flush_text_def Let_def)
  have assistant: "assistant_message (ta_full_text acc) (ta_text_buffer acc, ta_text_parts acc) (c # cs) = message_new RAssistant (texts @ c # cs)"
    by (simp add: assistant_message_def texts_def Let_def)
  define w1 where "w1 = rec [message_new RAssistant (texts @ c # cs)] (sp_world st)"
  obtain outputs nfu elapsed w2 where run: "d (c # cs) w1 = ((outputs, nfu, elapsed), w2)" by (metis prod.collapse)
  have "log w2 = log w1" using keeps [of "c # cs" w1] run by simp
  note n = dispatched_outputs [OF assms(2) d run]
  then have "nfu" by (simp add: needs_follow_up_dispatch_def)
  have world: "sp_world st' = (if outputs \<noteq> [] then rec outputs w2 else w2)"
    and follow: "model_needs_follow_up out = (preempted \<or> \<not> (calls_done_tool (c # cs) \<and> done_tool_succeeded (c # cs) outputs))"
    using assms(4) d rec(1) calls run \<open>nfu\<close>
    by (auto simp: finish_response_def Let_def assistant sp_record_def sp_emit_def w1_def [symmetric] needs_follow_up_def)
  have "log (sp_world st') = log (sp_world st) @ message_new RAssistant (texts @ c # cs) # outputs"
    using world rec(2) \<open>log w2 = log w1\<close> by (simp add: w1_def)
  moreover have "response_recorded stops acc preempted (message_new RAssistant (texts @ c # cs) # outputs) out"
    unfolding response_recorded_def Let_def Cons follow using texts n(1) done_succeeded_calls [of "c # cs" outputs]
    by (auto simp del: schedule.simps intro!: exI [of _ texts])
  ultimately show ?thesis by blast
qed

lemma attempts_log:
  assumes "logs_faithfully log env" "dispatches_in_order stops env"
  shows "sampling_attempts env req turn_idx attempt st = (r, st') \<Longrightarrow>
    (case r of Inl e \<Rightarrow> log (sp_world st') = log (sp_world st)
     | Inr out \<Rightarrow> \<exists>ms acc preempted. read_response env acc preempted \<and> log (sp_world st') = log (sp_world st) @ ms \<and> response_recorded stops acc preempted ms out)"
proof (induction "unat (sm_max_retries env) - unat attempt" arbitrary: attempt st rule: less_induct)
  case less
  obtain res st1 where round: "sampling_round env req turn_idx attempt st = (res, st1)" by fastforce
  note log = round_log [OF assms(1) round]
  show ?case
  proof (cases res)
    case (Inr x)
    show ?thesis
    proof (cases x)
      case (Inl e)
      with Inr less.prems round log show ?thesis by (auto simp: sampling_attempts.simps [of env req turn_idx attempt st])
    next
      case Inr2: (Inr y)
      obtain acc p where y: "y = (acc, p)" by fastforce
      obtain out st2 where f: "finish_response env acc p st1 = (out, st2)" by fastforce
      have ok: "acc_ok acc" "read_response env acc p" using log Inr Inr2 y by simp_all
      have "r = Inr out" "st' = st2"
        using less.prems round Inr Inr2 y f by (simp_all add: sampling_attempts.simps [of env req turn_idx attempt st])
      with finish_log [OF assms ok(1) f] log ok(2) show ?thesis by auto
    qed
  next
    case (Inl e)
    obtain step attempt' delays where step: "stream_error_step env e attempt = (step, attempt', delays)" by (metis prod_cases3)
    show ?thesis
    proof (cases step)
      case (StepFail a)
      with less.prems round Inl step log show ?thesis by (auto simp: sampling_attempts.simps [of env req turn_idx attempt st])
    next
      case StepRetry
      note retry = stream_error_retry [OF step [unfolded StepRetry]]
      have "sampling_attempts env req turn_idx attempt' (st1\<lparr> sp_delays := sp_delays st1 @ delays \<rparr>) = (r, st')"
        using less.prems round Inl step StepRetry by (simp add: sampling_attempts.simps [of env req turn_idx attempt st])
      note run = this
      have lt: "unat (sm_max_retries env) - unat attempt' < unat (sm_max_retries env) - unat attempt"
        using retry(1,2) by (simp add: next_attempt word_less_nat_alt)
      from less.hyps [OF lt run] log show ?thesis by (simp split: sum.splits)
    qed
  qed
qed

section \<open>Properties\<close>

text \<open>C20. The retry budget. Whatever the transport does, a sampling request ends; it opens at most one stream
  more than it may retry, each announced by one request event, and between two it sleeps the deterministic
  backoff of that retry.\<close>

theorem sampling_retries_bounded:
  "\<exists>n \<le> unat (sm_max_retries env).
     length (requests_in (sp_emitted (snd (run_sampling env input st)))) = length (requests_in (sp_emitted st)) + n + 1
     \<and> sp_delays (snd (run_sampling env input st)) = sp_delays st @ waits env 0 n"
proof -
  have q: "sp_emitted (snd (input_with_goal_context env input st)) = sp_emitted st"
    "sp_delays (snd (input_with_goal_context env input st)) = sp_delays st"
    by (simp_all add: input_with_goal_context_def case_prod_beta split: option.split)
  define req where "req = (let q = build_turn_request (sm_ctx env) (fst (input_with_goal_context env input st)) in
      if sm_dispatch env \<noteq> None then q\<lparr> rq_tools := sm_tools env \<rparr> else q)"
  define st2 where "st2 = (let s = snd (input_with_goal_context env input st) in s\<lparr> sp_next_turn_idx := sp_next_turn_idx s + 1 \<rparr>)"
  obtain r st' where run: "sampling_attempts env req (sp_next_turn_idx (snd (input_with_goal_context env input st))) 0 st2 = (r, st')" by fastforce
  then have "snd (run_sampling env input st) = st'"
    by (simp add: run_sampling_def case_prod_beta Let_def req_def st2_def)
  with attempts_bounded [OF run] q show ?thesis by (auto simp: st2_def Let_def)
qed

text \<open>C5. What a request records. A request that fails records nothing. One that succeeds ends with a response, read
  from a stream that the transport opened: without calls it records nothing; with calls it records the assistant
  message, which holds the text of the response and then all of its calls, and after it the outputs of the
  dispatcher, which answer one by one, in order, the calls scheduled before cancellation. The turn goes on exactly
  when mail preempted the response, or it made calls and no done call was accepted.\<close>

theorem recorded_turn_answers_calls:
  assumes "logs_faithfully log env" "dispatches_in_order stops env" "run_sampling env input st = (r, st')"
  shows "case r of Inl e \<Rightarrow> log (sp_world st') = log (sp_world st)
    | Inr out \<Rightarrow> \<exists>ms acc preempted. read_response env acc preempted \<and> log (sp_world st') = log (sp_world st) @ ms \<and> response_recorded stops acc preempted ms out"
proof -
  have "sp_world (snd (input_with_goal_context env input st)) = sp_world st"
    by (simp add: input_with_goal_context_def case_prod_beta split: option.split)
  with attempts_log [OF assms(1,2) assms(3) [unfolded run_sampling_def Let_def case_prod_beta]] show ?thesis
    by (simp split: sum.splits)
qed

definition demo_sampling_env :: "message list sampling_env" where
  "demo_sampling_env = \<lparr> sm_ctx = \<lparr> tc_session_id = ''s'', tc_model = ''m'', tc_provider = ''p'', tc_base_instructions = ''b'',
       tc_browser_mode_instruction = None, tc_turn_idx = 0, tc_attempt = 0 \<rparr>,
     sm_max_retries = 2, sm_jitter = False, sm_jittered = id,
     sm_open = (\<lambda>req w. (Inr [PollEvent 0 (ToolCall ''c'' ''shell'' None None (JObj [])), PollEvent 1 (Finish usage_default None)], w)),
     sm_probe = None, sm_tools = [],
     sm_dispatch = Some (\<lambda>cs w. ((map (registry_run (\<lambda>_. None) (\<lambda>_ _ _ _ _. Inl ''no such tool'')) cs, cs \<noteq> [], 0), w)),
     sm_recorder = Some (\<lambda>ms w. w @ ms), sm_full_input = False, sm_goal_source = (\<lambda>_. None), sm_now = (\<lambda>_. 0), sm_scaled = id \<rparr>"

definition demo_sampling_state :: "message list sampling_state" where
  "demo_sampling_state = \<lparr> sp_world = [], sp_goals = None, sp_emitted = [], sp_delays = [], sp_next_turn_idx = 0 \<rparr>"

text \<open>A dispatcher that runs its calls one after the other, without cancellation.\<close>

lemma sequential_run:
  assumes "e_calls env = cs" "k \<le> length cs"
  shows "dispatch_run env (dispatch_start env False)
    \<lparr> d_slots = map (\<lambda>c. Finished (e_run env c)) (take k cs) @ replicate (length cs - k) Waiting, d_cancelled = False \<rparr>"
  using assms(2)
proof (induction k)
  case 0
  show ?case using assms(1) by (simp add: dispatch_start_def map_replicate_const)
next
  case (Suc k)
  let ?fin = "map (\<lambda>c. Finished (e_run env c)) (take k cs)" and ?wait = "replicate (length cs - Suc k) Waiting"
  let ?d = "\<lambda>x. \<lparr> d_slots = ?fin @ x # ?wait, d_cancelled = False \<rparr>"
  have l: "length ?fin = k" using Suc.prems by simp
  have "replicate (length cs - k) Waiting = Waiting # ?wait"
    using Suc.prems by (metis Suc_diff_Suc Suc_le_lessD replicate_Suc)
  with Suc have 1: "dispatch_run env (dispatch_start env False) (?d Waiting)" by simp
  have idle: "\<not> running (?d Waiting) j" for j
    using l by (auto simp: running_def nth_append nth_Cons split: nat.splits if_splits)
  have "dispatch_step env (?d Waiting) ((?d Waiting)\<lparr> d_slots := (d_slots (?d Waiting))[k := Running] \<rparr>)"
    using l idle by (intro dispatch_step.enter) (auto simp: nth_append admits_def split: tool_parallelism.split)
  then have 2: "dispatch_step env (?d Waiting) (?d Running)" using l by (simp add: list_update_append)
  have "running (?d Running) k" using l by (simp add: running_def nth_append)
  then have "dispatch_step env (?d Running) ((?d Running)\<lparr> d_slots := (d_slots (?d Running))[k := Finished (e_run env (e_calls env ! k))] \<rparr>)"
    by (rule dispatch_step.leave) simp
  then have 3: "dispatch_step env (?d Running) (?d (Finished (e_run env (cs ! k))))"
    using l assms(1) by (simp add: list_update_append)
  have "?fin @ Finished (e_run env (cs ! k)) # ?wait = map (\<lambda>c. Finished (e_run env c)) (take (Suc k) cs) @ ?wait"
    using Suc.prems by (simp add: take_Suc_conv_app_nth)
  with 1 2 3 show ?case by (metis rtranclp.rtrancl_into_rtrancl)
qed

lemma sequential_dispatch:
  assumes "sm_dispatch env = Some (\<lambda>cs w. ((map (registry_run pp registry) cs, cs \<noteq> [], 0), w))"
  shows "dispatches_in_order (\<lambda>_ _ _. False) env"
proof -
  have all: "schedule (\<lambda>_. False) k cs = cs" for k and cs :: "content_part list" by (induction cs arbitrary: k) auto
  let ?env = "\<lambda>cs. production_env pp registry (\<lambda>_ _. None) False (\<lambda>_. False) cs"
  let ?ds = "\<lambda>cs. \<lparr> d_slots = map (\<lambda>c. Finished (registry_run pp registry c)) cs, d_cancelled = False \<rparr>"
  have "dispatch_run (?env cs) (dispatch_start (?env cs) False) (?ds cs)" for cs
    using sequential_run [of "?env cs" cs "length cs"] by (simp add: production_env_def all)
  moreover have "all_finished (?ds cs)" "outputs_in_order (?ds cs) = map (registry_run pp registry) cs" for cs
    by (induction cs) (simp_all add: all_finished_def outputs_in_order_def map_filter_simps)
  ultimately show ?thesis
    unfolding dispatches_in_order_def assms option.inject
    by (intro exI [of _ "\<lambda>cs w. ((map (registry_run pp registry) cs, cs \<noteq> [], 0), w)"] conjI allI refl
        exI [of _ pp] exI [of _ registry] exI [of _ "\<lambda>_ _. None"] exI [of _ False] exI [of _ "?ds _"] exI [of _ 0])
      (simp_all add: needs_follow_up_dispatch_def)
qed

lemma recorded_turn_answers_calls_witness:
  "case fst (run_sampling demo_sampling_env [user_text ''hi''] demo_sampling_state) of
     Inl e \<Rightarrow> sp_world (snd (run_sampling demo_sampling_env [user_text ''hi''] demo_sampling_state)) = []
   | Inr out \<Rightarrow> \<exists>acc p. response_recorded (\<lambda>_ (_ :: message list) _. False) acc p
       (sp_world (snd (run_sampling demo_sampling_env [user_text ''hi''] demo_sampling_state))) out"
proof -
  have "logs_faithfully id demo_sampling_env" by (simp add: logs_faithfully_def demo_sampling_env_def)
  moreover have "dispatches_in_order (\<lambda>_ _ _. False) demo_sampling_env"
    by (rule sequential_dispatch) (simp add: demo_sampling_env_def)
  ultimately show ?thesis
    using recorded_turn_answers_calls [OF _ _ prod.collapse [symmetric], of id demo_sampling_env "\<lambda>_ _ _. False"
        "[user_text ''hi'']" demo_sampling_state]
    by (auto simp: demo_sampling_state_def split: sum.splits)
qed

text \<open>C19. Streaming agrees with the client's aggregation. For a response whose events end with its \<open>Finish\<close> and
  hold no provider error, read without cancellation, transport error or mail that preempts it, the assistant
  message built from the stream has exactly the content of the aggregated response without its reasoning parts,
  which the driver does not keep; its usage and finish reason are those of the \<open>Finish\<close> event, which are the
  aggregation's too when the event gives them (the aggregation ignores a default usage and an absent reason).\<close>

theorem streamed_turn_is_aggregate:
  assumes "never_preempted env" "\<forall>ev\<in>set evs. \<not> ends_response ev"
  shows "\<exists>acc. fst (consume_stream env turn_idx accumulator_default (map (PollEvent elapsed) (evs @ [Finish u reason])) st) = EndResponse acc False
     \<and> msg_content (assistant_message (ta_full_text acc) (ta_text_buffer acc, ta_text_parts acc) (extract_tool_calls (ta_tool_calls acc)))
        = filter (\<lambda>p. \<not> is_reasoning_part p) (rsp_content (aggregate (evs @ [Finish u reason])))
     \<and> ta_usage acc = Some u \<and> ta_finish_reason acc = reason
     \<and> (u \<noteq> usage_default \<longrightarrow> rsp_usage (aggregate (evs @ [Finish u reason])) = u)
     \<and> (reason \<noteq> None \<longrightarrow> rsp_finish_reason (aggregate (evs @ [Finish u reason])) = reason)"
proof -
  let ?a0 = "\<lparr> ag_text = ([], []), ag_reasoning = [], ag_calls = [], ag_usage = usage_default, ag_reason = None \<rparr>"
  let ?acc = "(foldl accumulated accumulator_default evs)\<lparr> ta_usage := Some u, ta_finish_reason := reason \<rparr>"
  define a where "a = foldl aggregate_step ?a0 evs"
  have agree: "agrees (foldl accumulated accumulator_default evs) a"
    unfolding a_def using assms(2) by (intro agrees_run) (simp_all add: agrees_def accumulator_default_def)
  have plain: "plain_parts a" unfolding a_def by (rule plain_parts_run) (simp add: plain_parts_def)
  obtain buffer parts where t: "ag_text a = (buffer, parts)" by fastforce
  have calls: "extract_tool_calls (ta_tool_calls ?acc) = ag_calls a"
    using agree by (auto simp: agrees_def extract_tool_calls_def list_all_iff intro!: filter_True)
  have "msg_content (assistant_message (ta_full_text ?acc) (ta_text_buffer ?acc, ta_text_parts ?acc) (ag_calls a))
     = snd (flush_text_buffer (ag_text a)) @ ag_calls a"
    using agree t by (auto simp: assistant_message_def agrees_def same_text_functions flush_text_buffer_def Let_def)
  moreover have "\<forall>p\<in>set (snd (flush_text_buffer (ag_text a)) @ ag_calls a). \<not> is_reasoning_part p"
    using plain t by (auto simp: plain_parts_def flush_text_buffer_def part_text_def)
  then have "filter (\<lambda>p. \<not> is_reasoning_part p) (rsp_content (aggregate (evs @ [Finish u reason])))
     = snd (flush_text_buffer (ag_text a)) @ ag_calls a"
    by (simp add: aggregate_def Let_def a_def [symmetric] take_finish_def)
  moreover have "u \<noteq> usage_default \<longrightarrow> rsp_usage (aggregate (evs @ [Finish u reason])) = u"
    "reason \<noteq> None \<longrightarrow> rsp_finish_reason (aggregate (evs @ [Finish u reason])) = reason"
    by (simp_all add: aggregate_def Let_def take_finish_def)
  ultimately show ?thesis
    using stream_without_mail [OF assms(1,2), where u = u and reason = reason] calls by (intro exI [of _ ?acc]) simp
qed

definition demo_stream_events :: "llm_event list" where
  "demo_stream_events = [TextDelta ''t'' ''hello'' None, ToolCall ''c'' ''shell'' None None (JObj [])]"

definition demo_stream_usage :: usage where
  "demo_stream_usage = usage_default\<lparr> input_tokens := 5 \<rparr>"

lemma streamed_turn_is_aggregate_witness:
  "\<exists>acc. fst (consume_stream demo_sampling_env 0 accumulator_default
       (map (PollEvent 3) (demo_stream_events @ [Finish demo_stream_usage (Some FrToolUse)])) demo_sampling_state) = EndResponse acc False
     \<and> ta_usage acc = Some (rsp_usage (aggregate (demo_stream_events @ [Finish demo_stream_usage (Some FrToolUse)])))"
proof -
  have "never_preempted demo_sampling_env" by (simp add: demo_sampling_env_def never_preempted_def)
  moreover have "\<forall>ev\<in>set demo_stream_events. \<not> ends_response ev" by (simp add: demo_stream_events_def)
  moreover have "demo_stream_usage \<noteq> usage_default" by (simp add: demo_stream_usage_def usage_default_def)
  ultimately show ?thesis using streamed_turn_is_aggregate [where reason = "Some FrToolUse" and u = demo_stream_usage] by metis
qed

text \<open>C38. No secret is logged. In the request input that a request event carries, every value under a key that
  names a secret is replaced, at any depth, whether or not the full input is logged.\<close>

theorem logged_input_hides_secrets: "hides_secrets (request_observability_input req full)"
  by (cases full)
     (simp_all add: request_observability_input_def observability_json_value_def Let_def plain_keys list_all_iff sanitized_hides)

text \<open>At most two messages of a request are cache breakpoints, none of them a system or developer message.\<close>

lemma at_most_two_breakpoints:
  "length (filter (\<lambda>m. msg_cache m \<noteq> None) (mark_message_cache_breakpoints ms)) \<le> 2"
proof -
  let ?on = "\<lambda>i. i \<in> set (cache_breakpoints ms)"
  have "filter (\<lambda>m. msg_cache m \<noteq> None) (map (\<lambda>(i, m). m\<lparr> msg_cache := (if ?on i then Some Ephemeral else None) \<rparr>) xs)
      = map (\<lambda>(i, m). m\<lparr> msg_cache := Some Ephemeral \<rparr>) (filter (\<lambda>(i, m). ?on i) xs)" for xs :: "(nat \<times> message) list"
    by (induction xs) auto
  then have "length (filter (\<lambda>m. msg_cache m \<noteq> None) (mark_message_cache_breakpoints ms)) = length (filter (\<lambda>(i, m). ?on i) (enumerate 0 ms))"
    by (simp add: mark_message_cache_breakpoints_def)
  also have "\<dots> = card (fst ` set (filter (\<lambda>(i, m). ?on i) (enumerate 0 ms)))"
    by (metis (no_types, lifting) distinct_card distinct_map_filter distinct_enumerate list.set_map length_map map_fst_enumerate distinct_upt)
  also have "\<dots> \<le> card (set (cache_breakpoints ms))" by (intro card_mono) auto
  also have "\<dots> \<le> 2" using breakpoints_of_eligible(2) [of ms] card_length le_trans by blast
  finally show ?thesis .
qed

end
