(* ===== verification/RtTypes.thy ===== *)
theory RtTypes
  imports Events
begin

text \<open>
  The values the runtime's components share (\<open>crates/browser-use-runtime/src/lib.rs\<close>): its error
  type, the identifiers, the kinds of a runtime event and the event itself with the payload it leaves in
  the journal. Identifiers are the strings they wrap. A fresh identifier (\<open>Uuid::new_v4\<close>) and the time
  are arguments of the operations that draw them. A \<open>usize\<close> and a \<open>u64\<close> counter are naturals,
  with their saturation at 64 bits written out.
\<close>

section \<open>Counters\<close>

definition usize_bound :: nat where "usize_bound = 18446744073709551615"

definition sat_add1 :: "nat \<Rightarrow> nat" where
  "sat_add1 n = min (Suc n) usize_bound"

lemma sat_add1_simps [sat_simps]:
  "n < usize_bound \<Longrightarrow> sat_add1 n = Suc n" "0 < sat_add1 n" "sat_add1 n \<le> Suc n"
  by (auto simp: sat_add1_def usize_bound_def)

section \<open>Errors and identifiers\<close>

datatype runtime_error =
    AgentLimitReached nat nat
  | BrowserAlreadyInUse string string
  | UnknownBrowser string
  | BrowserLeaseMismatch string "string option" string
  | UnknownAgent string
  | MissingParentAgent string
  | QueuedSpawnNotFound string
  | RtMessage string

fun runtime_error_text :: "runtime_error \<Rightarrow> string" where
  "runtime_error_text (AgentLimitReached n k) =
     ''agent limit reached: limit '' @ show_nat n @ '', open spawned agents '' @ show_nat k"
| "runtime_error_text (BrowserAlreadyInUse b a) = ''browser already in use: browser '' @ b @ '', active agent '' @ a"
| "runtime_error_text (UnknownBrowser b) = ''unknown browser: '' @ b"
| "runtime_error_text (BrowserLeaseMismatch b owner a) =
     ''browser lease mismatch: browser '' @ b @ '', owner ''
     @ (case owner of None \<Rightarrow> ''None'' | Some x \<Rightarrow> ''Some('' @ debug_str x @ '')'') @ '', caller '' @ a"
| "runtime_error_text (UnknownAgent a) = ''unknown agent: '' @ a"
| "runtime_error_text (MissingParentAgent a) = ''agent is missing a parent: '' @ a"
| "runtime_error_text (QueuedSpawnNotFound q) = ''queued spawn not found: '' @ q"
| "runtime_error_text (RtMessage m) = m"

text \<open>\<open>from_string\<close> of the identifier types: a blank identifier is refused.\<close>

definition id_from_string :: "string \<Rightarrow> string \<Rightarrow> runtime_error + string" where
  "id_from_string type_name v =
     (if str_trim v = [] then Inl (RtMessage (type_name @ '' must not be empty'')) else Inr v)"

section \<open>Events\<close>

datatype durability = Barrier | BestEffort

fun durability_json :: "durability \<Rightarrow> json" where
  "durability_json Barrier = JStr ''barrier''"
| "durability_json BestEffort = JStr ''best_effort''"

datatype (plugins del: size quickcheck_random quickcheck_exhaustive quickcheck_bounded_forall quickcheck_full_exhaustive quickcheck_narrowing transfer lifting) runtime_event_kind =
    RuntimeStarted | RuntimeShutdown | AgentCreated | AgentInputAccepted | AgentInputConsumed
  | AgentStarted | AgentQueued | AgentResumed | AgentCompleted | AgentFailed | AgentCancelRequested
  | AgentCancelled | AgentCloseRequested | AgentClosed | AgentContinuationStarted | AgentTurnStarted
  | AgentTurnCompleted | AgentTurnAborted | SubagentSpawnRequested | SubagentSpawnStarted
  | SubagentSpawnQueued | SubagentSpawnRejected | SubagentSpawnCompleted | MailboxEnqueued
  | MailboxDelivered | MailboxConsumed | WaitAgentStarted | WaitAgentCompleted | WaitAgentTimedOut
  | BrowserCreated | BrowserStarted | BrowserClaimed | BrowserReleased | BrowserClosed
  | BrowserScriptStarted | BrowserScriptOutputDelta | BrowserScriptCompleted | BrowserScriptCancelled
  | BrowserScriptFailed | ExecCommandBegin | ExecCommandOutputDelta | ExecCommandEnd | PythonStarted
  | PythonOutputDelta | PythonCompleted | McpConnected | McpToolStarted | McpToolCompleted
  | ArtifactCreated | ToolOutputDelta | ToolCompleted | ToolFailed | StoreEventAppended | ResourceLost

primrec kind_as_str :: "runtime_event_kind \<Rightarrow> string" where
  "kind_as_str RuntimeStarted = ''runtime.started''"
| "kind_as_str RuntimeShutdown = ''runtime.shutdown''"
| "kind_as_str AgentCreated = ''agent.created''"
| "kind_as_str AgentInputAccepted = ''agent.input.accepted''"
| "kind_as_str AgentInputConsumed = ''agent.input.consumed''"
| "kind_as_str AgentStarted = ''agent.started''"
| "kind_as_str AgentQueued = ''agent.queued''"
| "kind_as_str AgentResumed = ''agent.resumed''"
| "kind_as_str AgentCompleted = ''agent.completed''"
| "kind_as_str AgentFailed = ''agent.failed''"
| "kind_as_str AgentCancelRequested = ''agent.cancel_requested''"
| "kind_as_str AgentCancelled = ''agent.cancelled''"
| "kind_as_str AgentCloseRequested = ''agent.close_requested''"
| "kind_as_str AgentClosed = ''agent.closed''"
| "kind_as_str AgentContinuationStarted = ''agent.continuation_started''"
| "kind_as_str AgentTurnStarted = ''agent.turn.started''"
| "kind_as_str AgentTurnCompleted = ''agent.turn.completed''"
| "kind_as_str AgentTurnAborted = ''agent.turn.aborted''"
| "kind_as_str SubagentSpawnRequested = ''subagent.spawn_requested''"
| "kind_as_str SubagentSpawnStarted = ''subagent.spawn_started''"
| "kind_as_str SubagentSpawnQueued = ''subagent.spawn_queued''"
| "kind_as_str SubagentSpawnRejected = ''subagent.spawn_rejected''"
| "kind_as_str SubagentSpawnCompleted = ''subagent.spawn_completed''"
| "kind_as_str MailboxEnqueued = ''mailbox.enqueued''"
| "kind_as_str MailboxDelivered = ''mailbox.delivered''"
| "kind_as_str MailboxConsumed = ''mailbox.consumed''"
| "kind_as_str WaitAgentStarted = ''wait_agent.started''"
| "kind_as_str WaitAgentCompleted = ''wait_agent.completed''"
| "kind_as_str WaitAgentTimedOut = ''wait_agent.timed_out''"
| "kind_as_str BrowserCreated = ''browser.created''"
| "kind_as_str BrowserStarted = ''browser.started''"
| "kind_as_str BrowserClaimed = ''browser.claimed''"
| "kind_as_str BrowserReleased = ''browser.released''"
| "kind_as_str BrowserClosed = ''browser.closed''"
| "kind_as_str BrowserScriptStarted = ''browser.script.started''"
| "kind_as_str BrowserScriptOutputDelta = ''browser.script.output_delta''"
| "kind_as_str BrowserScriptCompleted = ''browser.script.completed''"
| "kind_as_str BrowserScriptCancelled = ''browser.script.cancelled''"
| "kind_as_str BrowserScriptFailed = ''browser.script.failed''"
| "kind_as_str ExecCommandBegin = ''exec_command.begin''"
| "kind_as_str ExecCommandOutputDelta = ''exec_command.output_delta''"
| "kind_as_str ExecCommandEnd = ''exec_command.end''"
| "kind_as_str PythonStarted = ''python.started''"
| "kind_as_str PythonOutputDelta = ''python.output_delta''"
| "kind_as_str PythonCompleted = ''python.completed''"
| "kind_as_str McpConnected = ''mcp.connected''"
| "kind_as_str McpToolStarted = ''mcp.tool.started''"
| "kind_as_str McpToolCompleted = ''mcp.tool.completed''"
| "kind_as_str ArtifactCreated = ''artifact.created''"
| "kind_as_str ToolOutputDelta = ''tool.output_delta''"
| "kind_as_str ToolCompleted = ''tool.completed''"
| "kind_as_str ToolFailed = ''tool.failed''"
| "kind_as_str StoreEventAppended = ''store.event.appended''"
| "kind_as_str ResourceLost = ''resource.lost''"

text \<open>The kinds of the events that tools report, by the names they report under; any other event is
  one the store appended.\<close>

definition observed_kinds :: "(string \<times> runtime_event_kind) list" where
  "observed_kinds =
     [(''exec_command.begin'', ExecCommandBegin), (''exec_command.output_delta'', ExecCommandOutputDelta),
      (''exec_command.end'', ExecCommandEnd), (''browser_script.started'', BrowserScriptStarted),
      (''browser_script.output_delta'', BrowserScriptOutputDelta),
      (''browser_script.completed'', BrowserScriptCompleted),
      (''browser_script.cancelled'', BrowserScriptCancelled), (''browser_script.failed'', BrowserScriptFailed),
      (''python.started'', PythonStarted), (''python.output_delta'', PythonOutputDelta),
      (''python.completed'', PythonCompleted), (''mcp.connected'', McpConnected),
      (''mcp.tool.started'', McpToolStarted), (''mcp.tool.completed'', McpToolCompleted),
      (''artifact.created'', ArtifactCreated), (''tool.output_delta'', ToolOutputDelta),
      (''tool.completed'', ToolCompleted), (''tool.failed'', ToolFailed)]"

definition from_observed_event_type :: "string \<Rightarrow> runtime_event_kind" where
  "from_observed_event_type t = unwrap_or StoreEventAppended (map_of observed_kinds t)"

record runtime_event =
  re_id :: string
  re_ts :: int
  re_durability :: durability
  re_kind :: runtime_event_kind
  re_root :: "string option"
  re_agent :: "string option"
  re_session :: "string option"
  re_run :: "string option"
  re_browser :: "string option"
  re_turn :: "string option"
  re_tool_call :: "string option"
  re_payload :: json

definition runtime_event_new :: "string \<Rightarrow> int \<Rightarrow> runtime_event_kind \<Rightarrow> durability \<Rightarrow> runtime_event" where
  "runtime_event_new eid now k d =
     \<lparr> re_id = eid, re_ts = now, re_durability = d, re_kind = k, re_root = None, re_agent = None,
       re_session = None, re_run = None, re_browser = None, re_turn = None, re_tool_call = None,
       re_payload = JObj [] \<rparr>"

definition event_type_of :: "runtime_event \<Rightarrow> string" where
  "event_type_of e = kind_as_str (re_kind e)"

text \<open>The object of the \<open>json!\<close> call, its keys in the order of a \<open>BTreeMap\<close>.\<close>

definition journal_payload :: "runtime_event \<Rightarrow> json" where
  "journal_payload e =
     JObj [(''agent_id'', json_opt JStr (re_agent e)),
           (''browser_id'', json_opt JStr (re_browser e)),
           (''durability'', durability_json (re_durability e)),
           (''payload'', re_payload e),
           (''root_id'', json_opt JStr (re_root e)),
           (''run_id'', json_opt JStr (re_run e)),
           (''runtime_event_id'', JStr (re_id e)),
           (''tool_call_id'', json_opt JStr (re_tool_call e)),
           (''turn_id'', json_opt JStr (re_turn e))]"

lemma journal_payload_keys: "json_get (journal_payload e) ''payload'' = Some (re_payload e)"
  by (simp add: journal_payload_def)

lemma observed_kind_names:
  "from_observed_event_type ''tool.failed'' = ToolFailed"
  "from_observed_event_type ''session.input'' = StoreEventAppended"
  by (simp_all add: from_observed_event_type_def observed_kinds_def)

end
