(* ===== verification/RtBrowser.thy ===== *)
theory RtBrowser
  imports RtTypes
begin

text \<open>
  The browsers of the runtime (\<open>crates/browser-use-runtime/src/lib.rs\<close>, \<open>BrowserHandle\<close> and
  \<open>BrowserManager\<close>): a browser is claimed by one agent at a time, which may claim it again; it is
  free again after as many releases. A handle's state is the contents of its mutex; the physical
  registries (of the browser crate) hold no state of the claim and are left out. The maps are association
  lists in key order.
\<close>

section \<open>A browser handle\<close>

record browser_config =
  bc_keep_alive :: bool
  bc_headless :: "bool option"
  bc_profile_id :: "string option"
  bc_profile :: "string option"
  bc_proxy_country_code :: "string option"
  bc_cdp_url :: "string option"
  bc_cdp_headers :: "string option"
  bc_user_agent :: "string option"
  bc_viewport :: "string option"
  bc_storage_state :: "string option"
  bc_downloads_path :: "string option"
  bc_allowed_domains :: "string option"
  bc_blocked_domains :: "string option"
  bc_window_size :: "string option"
  bc_state_dir :: "string option"
  bc_no_viewport :: "bool option"
  bc_accept_downloads :: "bool option"

definition browser_config_default :: browser_config where
  "browser_config_default =
     \<lparr> bc_keep_alive = False, bc_headless = None, bc_profile_id = None, bc_profile = None,
       bc_proxy_country_code = None, bc_cdp_url = None, bc_cdp_headers = None, bc_user_agent = None,
       bc_viewport = None, bc_storage_state = None, bc_downloads_path = None, bc_allowed_domains = None,
       bc_blocked_domains = None, bc_window_size = None, bc_state_dir = None, bc_no_viewport = None,
       bc_accept_downloads = None \<rparr>"

datatype browser_status = BsCreated | BsStarted | BsClaimed | BsReleased | BsClosed

record script_snapshot =
  ss_run :: string
  ss_session :: "string option"
  ss_agent :: "string option"
  ss_tool_call :: "string option"
  ss_last_delta :: "string option"

record browser_snapshot =
  bn_id :: string
  bn_config :: browser_config
  bn_status :: browser_status
  bn_active :: "string option"
  bn_scripts :: "script_snapshot list"

record browser_lease =
  bl_browser :: string
  bl_agent :: string

record browser_handle =
  bh_id :: string
  bh_config :: browser_config
  bh_status :: browser_status
  bh_active :: "string option"
  bh_depth :: nat
  bh_scripts :: "(string \<times> script_snapshot) list"

definition handle_new :: "string \<Rightarrow> browser_config \<Rightarrow> browser_handle" where
  "handle_new i c =
     \<lparr> bh_id = i, bh_config = c, bh_status = BsCreated, bh_active = None, bh_depth = 0, bh_scripts = [] \<rparr>"

definition handle_snapshot :: "browser_handle \<Rightarrow> browser_snapshot" where
  "handle_snapshot h =
     \<lparr> bn_id = bh_id h, bn_config = bh_config h, bn_status = bh_status h, bn_active = bh_active h,
       bn_scripts = map snd (bh_scripts h) \<rparr>"

definition handle_claim :: "browser_handle \<Rightarrow> string \<Rightarrow> (runtime_error + browser_lease) \<times> browser_handle" where
  "handle_claim h a =
     (case bh_active h of
        Some active \<Rightarrow>
          (if active \<noteq> a then (Inl (BrowserAlreadyInUse (bh_id h) active), h)
           else (Inr \<lparr> bl_browser = bh_id h, bl_agent = a \<rparr>,
                 h\<lparr> bh_depth := sat_add1 (bh_depth h), bh_status := BsClaimed \<rparr>))
      | None \<Rightarrow>
          (Inr \<lparr> bl_browser = bh_id h, bl_agent = a \<rparr>,
           h\<lparr> bh_active := Some a, bh_status := BsClaimed, bh_depth := 1 \<rparr>))"

definition handle_release :: "browser_handle \<Rightarrow> string \<Rightarrow> (runtime_error + unit) \<times> browser_handle" where
  "handle_release h a =
     (if bh_active h = Some a
      then (let d = bh_depth h - 1 in
            (Inr (),
             if d = 0 then h\<lparr> bh_depth := d, bh_active := None, bh_status := BsReleased \<rparr>
             else h\<lparr> bh_depth := d, bh_status := BsClaimed \<rparr>))
      else (Inl (BrowserLeaseMismatch (bh_id h) (bh_active h) a), h))"

definition still_claimed :: "string \<Rightarrow> string \<Rightarrow> runtime_error" where
  "still_claimed b a = RtMessage (''browser '' @ b @ '' is still claimed by agent '' @ a)"

definition handle_close :: "browser_handle \<Rightarrow> (runtime_error + unit) \<times> browser_handle" where
  "handle_close h =
     (case bh_active h of
        Some active \<Rightarrow> (Inl (still_claimed (bh_id h) active), h)
      | None \<Rightarrow> (Inr (), h\<lparr> bh_status := BsClosed, bh_scripts := [] \<rparr>))"

definition handle_script_started :: "browser_handle \<Rightarrow> script_snapshot \<Rightarrow> browser_handle" where
  "handle_script_started h s = h\<lparr> bh_scripts := bt_insert (ss_run s) s (bh_scripts h) \<rparr>"

definition handle_script_delta :: "browser_handle \<Rightarrow> string \<Rightarrow> string option \<Rightarrow> browser_handle" where
  "handle_script_delta h run delta =
     (case delta of
        None \<Rightarrow> h
      | Some d \<Rightarrow>
          h\<lparr> bh_scripts :=
               map (\<lambda>(k, s). (k, if k = run then s\<lparr> ss_last_delta := Some d \<rparr> else s)) (bh_scripts h) \<rparr>)"

definition handle_script_finished :: "browser_handle \<Rightarrow> string \<Rightarrow> browser_handle" where
  "handle_script_finished h run = h\<lparr> bh_scripts := bt_remove run (bh_scripts h) \<rparr>"

section \<open>The browser manager\<close>

type_synonym browsers = "(string \<times> browser_handle) list"

definition insert_browser_unchecked :: "browsers \<Rightarrow> string \<Rightarrow> browser_config \<Rightarrow> browsers" where
  "insert_browser_unchecked m i c = bt_insert i (handle_new i c) m"

text \<open>\<open>create_browser\<close> with the identifier it draws.\<close>

definition create_browser :: "browsers \<Rightarrow> string \<Rightarrow> browser_config \<Rightarrow> string \<times> browsers" where
  "create_browser m fresh c = (fresh, insert_browser_unchecked m fresh c)"

definition create_browser_with_id ::
  "browsers \<Rightarrow> string \<Rightarrow> browser_config \<Rightarrow> (runtime_error + string) \<times> browsers" where
  "create_browser_with_id m i c =
     (if map_of m i \<noteq> None then (Inl (RtMessage (''browser '' @ i @ '' already exists'')), m)
      else (Inr i, bt_insert i (handle_new i c) m))"

text \<open>The lookup every operation of the manager starts with, and the change of a handle in place.\<close>

definition browser_ref :: "browsers \<Rightarrow> string \<Rightarrow> runtime_error + browser_handle" where
  "browser_ref m i = (case map_of m i of None \<Rightarrow> Inl (UnknownBrowser i) | Some h \<Rightarrow> Inr h)"

definition on_browser ::
  "browsers \<Rightarrow> string \<Rightarrow> (browser_handle \<Rightarrow> (runtime_error + 'a) \<times> browser_handle) \<Rightarrow> (runtime_error + 'a) \<times> browsers" where
  "on_browser m i f =
     (case browser_ref m i of
        Inl e \<Rightarrow> (Inl e, m)
      | Inr h \<Rightarrow> (let (r, h') = f h in (r, bt_insert i h' m)))"

definition manager_snapshot :: "browsers \<Rightarrow> string \<Rightarrow> runtime_error + browser_snapshot" where
  "manager_snapshot m i = map_sum id handle_snapshot (browser_ref m i)"

definition validate_browser_claim :: "browsers \<Rightarrow> string \<Rightarrow> string \<Rightarrow> runtime_error + unit" where
  "validate_browser_claim m i a =
     (case manager_snapshot m i of
        Inl e \<Rightarrow> Inl e
      | Inr s \<Rightarrow>
          (case bn_active s of
             Some active \<Rightarrow> (if active \<noteq> a then Inl (BrowserAlreadyInUse i active) else Inr ())
           | None \<Rightarrow> Inr ()))"

definition validate_browser_release :: "browsers \<Rightarrow> browser_lease \<Rightarrow> runtime_error + unit" where
  "validate_browser_release m l =
     (case manager_snapshot m (bl_browser l) of
        Inl e \<Rightarrow> Inl e
      | Inr s \<Rightarrow>
          (if bn_active s = Some (bl_agent l) then Inr ()
           else Inl (BrowserLeaseMismatch (bl_browser l) (bn_active s) (bl_agent l))))"

definition validate_browser_close :: "browsers \<Rightarrow> string \<Rightarrow> runtime_error + unit" where
  "validate_browser_close m i =
     (case manager_snapshot m i of
        Inl e \<Rightarrow> Inl e
      | Inr s \<Rightarrow> (case bn_active s of Some active \<Rightarrow> Inl (still_claimed i active) | None \<Rightarrow> Inr ()))"

definition claim_browser :: "browsers \<Rightarrow> string \<Rightarrow> string \<Rightarrow> (runtime_error + browser_lease) \<times> browsers" where
  "claim_browser m i a = on_browser m i (\<lambda>h. handle_claim h a)"

definition release_browser :: "browsers \<Rightarrow> browser_lease \<Rightarrow> (runtime_error + unit) \<times> browsers" where
  "release_browser m l = on_browser m (bl_browser l) (\<lambda>h. handle_release h (bl_agent l))"

definition with_action_lock :: "browsers \<Rightarrow> string \<Rightarrow> (unit \<Rightarrow> runtime_error + 'a) \<Rightarrow> runtime_error + 'a" where
  "with_action_lock m i action = (case browser_ref m i of Inl e \<Rightarrow> Inl e | Inr h \<Rightarrow> action ())"

definition close_browser :: "browsers \<Rightarrow> string \<Rightarrow> (runtime_error + unit) \<times> browsers" where
  "close_browser m i =
     (case browser_ref m i of
        Inl e \<Rightarrow> (Inl e, m)
      | Inr h \<Rightarrow>
          (case handle_close h of
             (Inl e, h') \<Rightarrow> (Inl e, bt_insert i h' m)
           | (Inr _, h') \<Rightarrow> (Inr (), bt_remove i (bt_insert i h' m))))"

definition record_script_started :: "browsers \<Rightarrow> string \<Rightarrow> script_snapshot \<Rightarrow> (runtime_error + unit) \<times> browsers" where
  "record_script_started m i s = on_browser m i (\<lambda>h. (Inr (), handle_script_started h s))"

definition record_script_output_delta ::
  "browsers \<Rightarrow> string \<Rightarrow> string \<Rightarrow> string option \<Rightarrow> (runtime_error + unit) \<times> browsers" where
  "record_script_output_delta m i run delta = on_browser m i (\<lambda>h. (Inr (), handle_script_delta h run delta))"

definition record_script_finished :: "browsers \<Rightarrow> string \<Rightarrow> string \<Rightarrow> (runtime_error + unit) \<times> browsers" where
  "record_script_finished m i run = on_browser m i (\<lambda>h. (Inr (), handle_script_finished h run))"

definition manager_snapshots :: "browsers \<Rightarrow> browser_snapshot list" where
  "manager_snapshots m = map (\<lambda>(i, h). handle_snapshot h) m"

section \<open>The life of a browser\<close>

datatype browser_op =
    BrCreate string browser_config
  | BrCreateWithId string browser_config
  | BrClaim string string
  | BrRelease browser_lease
  | BrClose string
  | BrScriptStarted string script_snapshot
  | BrScriptDelta string string "string option"
  | BrScriptFinished string string

text \<open>One operation, with whether it succeeded.\<close>

definition ok_of :: "'e + 'a \<Rightarrow> bool" where
  "ok_of r = (case r of Inl _ \<Rightarrow> False | Inr _ \<Rightarrow> True)"

fun rt_browser_step :: "browsers \<Rightarrow> browser_op \<Rightarrow> (browser_op \<times> bool) list \<times> browsers" where
  "rt_browser_step m (BrCreate i c) = ([(BrCreate i c, True)], snd (create_browser m i c))"
| "rt_browser_step m (BrCreateWithId i c) =
     (let (r, m') = create_browser_with_id m i c in ([(BrCreateWithId i c, ok_of r)], m'))"
| "rt_browser_step m (BrClaim i a) = (let (r, m') = claim_browser m i a in ([(BrClaim i a, ok_of r)], m'))"
| "rt_browser_step m (BrRelease l) = (let (r, m') = release_browser m l in ([(BrRelease l, ok_of r)], m'))"
| "rt_browser_step m (BrClose i) = (let (r, m') = close_browser m i in ([(BrClose i, ok_of r)], m'))"
| "rt_browser_step m (BrScriptStarted i s) =
     (let (r, m') = record_script_started m i s in ([(BrScriptStarted i s, ok_of r)], m'))"
| "rt_browser_step m (BrScriptDelta i run d) =
     (let (r, m') = record_script_output_delta m i run d in ([(BrScriptDelta i run d, ok_of r)], m'))"
| "rt_browser_step m (BrScriptFinished i run) =
     (let (r, m') = record_script_finished m i run in ([(BrScriptFinished i run, ok_of r)], m'))"

text \<open>The claims of an agent on a browser that are still open, read off a trace alone.\<close>

fun open_claims :: "string \<Rightarrow> string \<Rightarrow> nat \<Rightarrow> (browser_op \<times> bool) \<Rightarrow> nat" where
  "open_claims i a n (BrCreate j c, ok) = (if j = i \<and> ok then 0 else n)"
| "open_claims i a n (BrClaim j b, ok) = (if j = i \<and> b = a \<and> ok then Suc n else n)"
| "open_claims i a n (BrRelease l, ok) = (if bl_browser l = i \<and> bl_agent l = a \<and> ok then n - 1 else n)"
| "open_claims i a n (_, ok) = n"

definition outstanding :: "string \<Rightarrow> string \<Rightarrow> (browser_op \<times> bool) list \<Rightarrow> nat" where
  "outstanding i a tr = foldl (open_claims i a) 0 tr"

text \<open>The claims the manager's state shows.\<close>

definition held :: "browsers \<Rightarrow> string \<Rightarrow> string \<Rightarrow> nat" where
  "held m i a =
     (case map_of m i of
        None \<Rightarrow> 0
      | Some h \<Rightarrow> (if bh_active h = Some a then bh_depth h else 0))"

text \<open>A free browser has no depth, a claimed one has some; its identifier is its key; \<open>BsStarted\<close>
  and \<open>BsClosed\<close> are never the status of a listed browser.\<close>

definition handle_ok :: "string \<Rightarrow> browser_handle \<Rightarrow> bool" where
  "handle_ok i h =
     (bh_id h = i \<and> (bh_active h = None \<longleftrightarrow> bh_depth h = 0)
      \<and> (bh_active h \<noteq> None \<longleftrightarrow> bh_status h = BsClaimed) \<and> bh_status h \<notin> {BsStarted, BsClosed}
      \<and> bt_wf (bh_scripts h))"

definition browsers_ok :: "browsers \<Rightarrow> bool" where
  "browsers_ok m = (\<forall>i h. map_of m i = Some h \<longrightarrow> handle_ok i h)"

definition claims_traced :: "(browser_op \<times> bool) list \<Rightarrow> browsers \<Rightarrow> bool" where
  "claims_traced tr m =
     (length tr < usize_bound \<longrightarrow>
        browsers_ok m \<and> (\<forall>i a. outstanding i a tr = held m i a \<and> held m i a \<le> length tr))"

lemma outstanding_snoc: "outstanding i a (tr @ [e]) = open_claims i a (outstanding i a tr) e"
  by (simp add: outstanding_def)

lemma browsers_ok_lookup: "browsers_ok m \<Longrightarrow> map_of m i = Some h \<Longrightarrow> handle_ok i h"
  by (simp add: browsers_ok_def)

lemma browsers_ok_insert: "browsers_ok m \<Longrightarrow> handle_ok i h \<Longrightarrow> browsers_ok (bt_insert i h m)"
  by (simp add: browsers_ok_def bt_insert_lookup)

lemma browsers_ok_remove: "browsers_ok m \<Longrightarrow> browsers_ok (bt_remove i m)"
  by (simp add: browsers_ok_def bt_remove_lookup)

lemma handle_new_ok: "handle_ok i (handle_new i c)"
  by (simp add: handle_ok_def handle_new_def bt_wf_def)

lemma handle_claim_ok: "handle_ok i h \<Longrightarrow> handle_ok i (snd (handle_claim h a))"
  by (auto simp: handle_ok_def handle_claim_def sat_simps split: option.splits)

lemma handle_release_ok: "handle_ok i h \<Longrightarrow> handle_ok i (snd (handle_release h a))"
  by (auto simp: handle_ok_def handle_release_def Let_def)

lemma handle_script_ok:
  "handle_ok i h \<Longrightarrow> handle_ok i (handle_script_started h s)"
  "handle_ok i h \<Longrightarrow> handle_ok i (handle_script_delta h run d)"
  "handle_ok i h \<Longrightarrow> handle_ok i (handle_script_finished h run)"
  by (auto simp: handle_ok_def handle_script_started_def handle_script_delta_def handle_script_finished_def
      bt_insert_wf bt_remove_wf bt_map_values_wf split: option.splits)

lemma held_insert:
  "held (bt_insert j h m) i a =
     (if i = j then (if bh_active h = Some a then bh_depth h else 0) else held m i a)"
  by (simp add: held_def bt_insert_lookup)

lemma held_new: "held (bt_insert j (handle_new j c) m) i a = (if i = j then 0 else held m i a)"
  by (simp add: held_insert handle_new_def)

lemma held_remove: "held (bt_remove j m) i a = (if i = j then 0 else held m i a)"
  by (simp add: held_def bt_remove_lookup)

text \<open>What one operation does to the claims shown, on every branch.\<close>

lemma handle_claim_held:
  assumes "handle_ok i h" "handle_claim h a = (r, h')" "bh_depth h < usize_bound"
  shows "(if bh_active h' = Some b then bh_depth h' else 0) =
     (if b = a \<and> ok_of r then Suc (if bh_active h = Some b then bh_depth h else 0)
      else (if bh_active h = Some b then bh_depth h else 0))"
  using assms
  by (auto simp: handle_claim_def handle_ok_def ok_of_def sat_simps split: option.splits if_splits)

lemma handle_release_held:
  assumes "handle_ok i h" "handle_release h a = (r, h')"
  shows "(if bh_active h' = Some b then bh_depth h' else 0) =
     (if b = a \<and> ok_of r then (if bh_active h = Some b then bh_depth h else 0) - 1
      else (if bh_active h = Some b then bh_depth h else 0))"
  using assms by (auto simp: handle_release_def handle_ok_def ok_of_def Let_def split: if_splits)

lemma held_depth:
  assumes "map_of m i = Some h" "\<And>a. held m i a < n" "handle_ok i h"
  shows "bh_depth h < n"
proof (cases "bh_active h")
  case None
  with assms(2) [of undefined] assms(1,3) show ?thesis by (auto simp: held_def handle_ok_def)
next
  case (Some a)
  with assms(1) assms(2) [of a] show ?thesis by (simp add: held_def)
qed

lemma claim_browser_held:
  assumes "browsers_ok m" "claim_browser m j a = (r, m')" "\<forall>a. held m j a < usize_bound"
  shows "held m' i b = (if i = j \<and> b = a \<and> ok_of r then Suc (held m i b) else held m i b) \<and> browsers_ok m'"
proof (cases "map_of m j")
  case None
  with assms(2) have "m' = m" "\<not> ok_of r"
    by (auto simp: claim_browser_def on_browser_def browser_ref_def ok_of_def)
  with assms(1) show ?thesis by simp
next
  case (Some h)
  obtain r1 h' where c: "handle_claim h a = (r1, h')" by (rule prod.exhaust)
  with assms(2) Some have m': "m' = bt_insert j h' m" "r = r1"
    by (auto simp: claim_browser_def on_browser_def browser_ref_def)
  have ok: "handle_ok j h" using assms(1) Some by (rule browsers_ok_lookup)
  have "bh_depth h < usize_bound" using held_depth [OF Some _ ok] assms(3) by blast
  from handle_claim_held [OF ok c this] handle_claim_ok [OF ok, of a] c m' Some assms(1)
  show ?thesis by (simp add: held_insert browsers_ok_insert) (simp add: held_def)
qed

lemma release_browser_held:
  assumes "browsers_ok m" "release_browser m l = (r, m')"
  shows "held m' i b = (if bl_browser l = i \<and> bl_agent l = b \<and> ok_of r then held m i b - 1 else held m i b)
    \<and> browsers_ok m'"
proof (cases "map_of m (bl_browser l)")
  case None
  with assms(2) have "m' = m" "\<not> ok_of r"
    by (auto simp: release_browser_def on_browser_def browser_ref_def ok_of_def)
  with assms(1) show ?thesis by simp
next
  case (Some h)
  obtain r1 h' where c: "handle_release h (bl_agent l) = (r1, h')" by (rule prod.exhaust)
  with assms(2) Some have m': "m' = bt_insert (bl_browser l) h' m" "r = r1"
    by (auto simp: release_browser_def on_browser_def browser_ref_def)
  have ok: "handle_ok (bl_browser l) h" using assms(1) Some by (rule browsers_ok_lookup)
  from handle_release_held [OF ok c] handle_release_ok [OF ok, of "bl_agent l"] c m' Some assms(1)
  show ?thesis by (simp add: held_insert browsers_ok_insert) (simp add: held_def)
qed

lemma close_browser_held:
  assumes "browsers_ok m" "close_browser m j = (r, m')"
  shows "held m' i b = held m i b \<and> browsers_ok m'"
proof (cases "map_of m j")
  case None
  with assms show ?thesis by (simp add: close_browser_def browser_ref_def)
next
  case (Some h)
  then have ok: "handle_ok j h" using assms(1) by (rule browsers_ok_lookup [rotated])
  show ?thesis
  proof (cases "bh_active h")
    case None
    with assms Some have m': "m' = bt_remove j (bt_insert j (h\<lparr> bh_status := BsClosed, bh_scripts := [] \<rparr>) m)"
      by (simp add: close_browser_def browser_ref_def handle_close_def)
    have "held m j b = 0" using Some None by (simp add: held_def)
    with m' assms(1) show ?thesis
      by (simp add: held_remove held_insert browsers_ok_def bt_remove_lookup bt_insert_lookup)
  next
    case (Some a)
    with assms \<open>map_of m j = Some h\<close> ok show ?thesis
      by (auto simp: close_browser_def browser_ref_def handle_close_def browsers_ok_insert held_insert)
         (auto simp: held_def)
  qed
qed

lemma script_ops_held:
  assumes "browsers_ok m" "\<And>h. handle_ok j h \<Longrightarrow> handle_ok j (f h)"
    "\<And>h. bh_active (f h) = bh_active h \<and> bh_depth (f h) = bh_depth h"
    "on_browser m j (\<lambda>h. (Inr (), f h)) = (r, m')"
  shows "held m' i b = held m i b \<and> browsers_ok m'"
proof (cases "map_of m j")
  case None
  with assms show ?thesis by (simp add: on_browser_def browser_ref_def)
next
  case (Some h)
  with assms show ?thesis
    by (auto simp: on_browser_def browser_ref_def held_insert browsers_ok_insert browsers_ok_lookup)
       (auto simp: held_def)
qed

lemma script_keeps_claim:
  "bh_active (handle_script_started h s) = bh_active h \<and> bh_depth (handle_script_started h s) = bh_depth h"
  "bh_active (handle_script_delta h run d) = bh_active h \<and> bh_depth (handle_script_delta h run d) = bh_depth h"
  "bh_active (handle_script_finished h run) = bh_active h \<and> bh_depth (handle_script_finished h run) = bh_depth h"
  by (auto simp: handle_script_started_def handle_script_delta_def handle_script_finished_def split: option.splits)

text \<open>Every operation does to the state what \<open>open_claims\<close> does to the count.\<close>

lemma browser_step_held:
  assumes "browsers_ok m" "rt_browser_step m e = (outs, m')" "\<And>i a. held m i a < usize_bound"
  shows "\<exists>x. outs = [x] \<and> held m' i a = open_claims i a (held m i a) x \<and> browsers_ok m'"
proof (cases e)
  case (BrCreate j c)
  with assms(2) have "outs = [(BrCreate j c, True)]" "m' = bt_insert j (handle_new j c) m"
    by (simp_all add: create_browser_def insert_browser_unchecked_def)
  with assms(1) show ?thesis by (simp add: held_new browsers_ok_insert handle_new_ok)
next
  case (BrCreateWithId j c)
  show ?thesis
  proof (cases "map_of m j")
    case None
    with BrCreateWithId assms(2) have "outs = [(BrCreateWithId j c, True)]" "m' = bt_insert j (handle_new j c) m"
      by (simp_all add: create_browser_with_id_def ok_of_def)
    moreover have "held m j a = 0" using None by (simp add: held_def)
    ultimately show ?thesis using assms(1) by (simp add: held_new browsers_ok_insert handle_new_ok)
  next
    case (Some h)
    with BrCreateWithId assms(2) have "outs = [(BrCreateWithId j c, False)]" "m' = m"
      by (simp_all add: create_browser_with_id_def ok_of_def)
    with assms(1) show ?thesis by simp
  qed
next
  case (BrClaim j b)
  obtain r m1 where r: "claim_browser m j b = (r, m1)" by (rule prod.exhaust)
  with assms(2) BrClaim have o: "outs = [(BrClaim j b, ok_of r)]" "m' = m1" by simp_all
  have lt: "\<forall>c. held m j c < usize_bound" using assms(3) by blast
  from claim_browser_held [OF assms(1) r lt, of i a] o show ?thesis by simp
next
  case (BrRelease l)
  obtain r m1 where r: "release_browser m l = (r, m1)" by (rule prod.exhaust)
  with assms(2) BrRelease have o: "outs = [(BrRelease l, ok_of r)]" "m' = m1" by simp_all
  from release_browser_held [OF assms(1) r, of i a] o show ?thesis by simp
next
  case (BrClose j)
  obtain r m1 where r: "close_browser m j = (r, m1)" by (rule prod.exhaust)
  with assms(2) BrClose have o: "outs = [(BrClose j, ok_of r)]" "m' = m1" by simp_all
  from close_browser_held [OF assms(1) r, of i a] o show ?thesis by simp
next
  case (BrScriptStarted j sn)
  obtain r m1 where r: "record_script_started m j sn = (r, m1)" by (rule prod.exhaust)
  with assms(2) BrScriptStarted have o: "outs = [(BrScriptStarted j sn, ok_of r)]" "m' = m1" by simp_all
  from script_ops_held [OF assms(1) handle_script_ok(1) script_keeps_claim(1) r [unfolded record_script_started_def], of i a] o
  show ?thesis by simp
next
  case (BrScriptDelta j run d)
  obtain r m1 where r: "record_script_output_delta m j run d = (r, m1)" by (rule prod.exhaust)
  with assms(2) BrScriptDelta have o: "outs = [(BrScriptDelta j run d, ok_of r)]" "m' = m1" by simp_all
  from script_ops_held [OF assms(1) handle_script_ok(2) script_keeps_claim(2) r [unfolded record_script_output_delta_def], of i a] o
  show ?thesis by simp
next
  case (BrScriptFinished j run)
  obtain r m1 where r: "record_script_finished m j run = (r, m1)" by (rule prod.exhaust)
  with assms(2) BrScriptFinished have o: "outs = [(BrScriptFinished j run, ok_of r)]" "m' = m1" by simp_all
  from script_ops_held [OF assms(1) handle_script_ok(3) script_keeps_claim(3) r [unfolded record_script_finished_def], of i a] o
  show ?thesis by simp
qed

lemma open_claims_le: "open_claims i a n x \<le> Suc n"
  by (cases "(i, a, n, x)" rule: open_claims.cases) auto

interpretation claims: emitting_machine rt_browser_step claims_traced
proof unfold_locales
  fix tr m e outs m'
  assume t: "claims_traced tr m" and s: "rt_browser_step m e = (outs, m')"
  show "claims_traced (tr @ outs) m'"
  proof (cases "length tr < usize_bound")
    case True
    with t have h: "\<And>i a. outstanding i a tr = held m i a" "\<And>i a. held m i a \<le> length tr" "browsers_ok m"
      by (auto simp: claims_traced_def)
    then have lt: "\<And>i a. held m i a < usize_bound" using True le_less_trans by blast
    obtain x where x: "outs = [x]" using browser_step_held [OF h(3) s lt] by blast
    have "held m' i a = open_claims i a (held m i a) x \<and> browsers_ok m'" for i a
      using browser_step_held [OF h(3) s lt, of i a] x by auto
    with h x show ?thesis
      by (auto simp: claims_traced_def outstanding_snoc intro!: order.trans [OF open_claims_le])
  qed (auto simp: claims_traced_def)
qed

lemma browser_run_length: "length (fst (run_emit rt_browser_step m ops)) = length ops"
proof (induction ops arbitrary: m)
  case (Cons e ops)
  have "length (fst (rt_browser_step m e)) = 1" by (cases e) (auto split: prod.splits)
  with Cons show ?case by (simp add: split_def Let_def)
qed simp

text \<open>While an agent holds a browser, every other agent is refused, with the error that names the
  holder, and the holder's claim stays as it is.\<close>

lemmas browser_ops_defs = claim_browser_def release_browser_def close_browser_def on_browser_def browser_ref_def

lemma busy_browser_refuses:
  assumes "map_of m i = Some h" "bh_active h = Some a" "b \<noteq> a" "bh_id h = i"
  shows "claim_browser m i b = (Inl (BrowserAlreadyInUse i a), bt_insert i h m)"
    and "release_browser m \<lparr> bl_browser = i, bl_agent = b \<rparr> = (Inl (BrowserLeaseMismatch i (Some a) b), bt_insert i h m)"
    and "close_browser m i = (Inl (still_claimed i a), bt_insert i h m)"
    and "map_of (bt_insert i h m) = map_of m"
  using assms
  by (simp_all add: browser_ops_defs handle_claim_def handle_release_def handle_close_def fun_eq_iff bt_insert_lookup)

text \<open>What is validated before the event is recorded is what the operation then does, when nothing comes
  between.\<close>

lemma validated_ops_succeed:
  "validate_browser_claim m i a = Inr () \<longleftrightarrow> ok_of (fst (claim_browser m i a))"
  "validate_browser_release m l = Inr () \<longleftrightarrow> ok_of (fst (release_browser m l))"
  "validate_browser_close m i = Inr () \<longleftrightarrow> ok_of (fst (close_browser m i))"
  by (simp_all add: validate_browser_claim_def validate_browser_release_def validate_browser_close_def
      browser_ops_defs manager_snapshot_def handle_snapshot_def ok_of_def handle_claim_def handle_release_def
      handle_close_def Let_def split: option.split)

section \<open>Properties\<close>

text \<open>C12. The leases of a browser balance, whatever agents do and in whatever order. Along any run of the
  manager's operations (creating, claiming, releasing, closing, running scripts; those that fail
  included), the claims of an agent that are still open, counted from the successes alone, are the depth
  the manager shows for it, and no two agents have open claims on one browser. So a browser that is
  in use by one agent is never claimed, released or closed by another, and it is free again after as
  many releases as claims.
\<close>

theorem browser_leases_balance:
  assumes "length ops < usize_bound" "run_emit rt_browser_step [] ops = (tr, m)"
  shows "outstanding i a tr = held m i a
    \<and> (0 < outstanding i a tr \<and> 0 < outstanding i b tr \<longrightarrow> a = b)"
proof -
  have "claims_traced [] []" by (simp add: claims_traced_def browsers_ok_def outstanding_def held_def)
  from claims.run_traced [OF this assms(2)] have t: "claims_traced tr m" by simp
  have "length tr = length ops" using browser_run_length [of "[]" ops] assms(2) by simp
  with t assms(1) have "\<And>i a. outstanding i a tr = held m i a" by (simp add: claims_traced_def)
  then show ?thesis by (auto simp: held_def split: option.splits if_splits)
qed

definition two_agents_run :: "browser_op list" where
  "two_agents_run =
     [BrClaim ''b'' ''x'', BrClaim ''b'' ''x'', BrClaim ''b'' ''y'', BrRelease \<lparr> bl_browser = ''b'', bl_agent = ''x'' \<rparr>,
      BrClose ''b'']"

theorem browser_leases_balance_witness:
  "let (tr, m) = run_emit rt_browser_step [] (BrCreate ''b'' browser_config_default # two_agents_run) in
     outstanding ''b'' ''x'' tr = 1 \<and> outstanding ''b'' ''y'' tr = 0 \<and> held m ''b'' ''x'' = 1"
proof -
  obtain tr m where r: "run_emit rt_browser_step [] (BrCreate ''b'' browser_config_default # two_agents_run) = (tr, m)" by (rule prod.exhaust)
  have n: "length (BrCreate ''b'' browser_config_default # two_agents_run) < usize_bound"
    by (simp add: two_agents_run_def usize_bound_def)
  have "outstanding ''b'' ''x'' tr = 1 \<and> outstanding ''b'' ''y'' tr = 0"
    using r by (auto simp: two_agents_run_def create_browser_def insert_browser_unchecked_def claim_browser_def
        release_browser_def close_browser_def on_browser_def browser_ref_def handle_claim_def handle_release_def
        handle_close_def handle_new_def outstanding_def ok_of_def sat_simps usize_bound_def Let_def sat_add1_def)
  with browser_leases_balance [OF n r, of "''b''" "''x''" "''y''"] r show ?thesis by simp
qed

end
