(* ===== verification/RtScheduler.thy ===== *)
theory RtScheduler
  imports RtTypes
begin

text \<open>
  The admission of sub-agents in the runtime (\<open>crates/browser-use-runtime/src/lib.rs\<close>,
  \<open>SubagentScheduler\<close>): at most one less than the configured number of threads is open; a spawn over the
  limit is refused, or queued until an open agent is closed.
\<close>

datatype capacity_mode = StrictReject | QueueMode

record queued_spawn =
  qs_request :: string
  qs_child :: string
  qs_task :: string

record spawn_reservation =
  sr_child :: string
  sr_open :: nat
  sr_max :: nat

datatype spawn_admission = Reserved spawn_reservation | Queued queued_spawn

record scheduler =
  sc_max :: nat
  sc_mode :: capacity_mode
  sc_open :: "(string \<times> string) list"
  sc_queued :: "queued_spawn list"

definition scheduler_new :: "nat \<Rightarrow> capacity_mode \<Rightarrow> scheduler" where
  "scheduler_new threads mode = \<lparr> sc_max = threads - 1, sc_mode = mode, sc_open = [], sc_queued = [] \<rparr>"

definition admit_spawn ::
  "scheduler \<Rightarrow> string \<Rightarrow> string \<Rightarrow> string \<Rightarrow> (runtime_error + spawn_admission) \<times> scheduler" where
  "admit_spawn s fresh child task =
     (if length (sc_open s) < sc_max s
      then (let s' = s\<lparr> sc_open := bt_insert child task (sc_open s) \<rparr> in
            (Inr (Reserved \<lparr> sr_child = child, sr_open = length (sc_open s'), sr_max = sc_max s \<rparr>), s'))
      else (case sc_mode s of
              StrictReject \<Rightarrow> (Inl (AgentLimitReached (sc_max s) (length (sc_open s))), s)
            | QueueMode \<Rightarrow>
                (let q = \<lparr> qs_request = fresh, qs_child = child, qs_task = task \<rparr> in
                 (Inr (Queued q), s\<lparr> sc_queued := sc_queued s @ [q] \<rparr>))))"

definition close_spawned_agent :: "scheduler \<Rightarrow> string \<Rightarrow> spawn_reservation option \<times> scheduler" where
  "close_spawned_agent s child =
     (if map_of (sc_open s) child = None then (None, s)
      else (let s1 = s\<lparr> sc_open := bt_remove child (sc_open s) \<rparr> in
            (if sc_mode s1 \<noteq> QueueMode then (None, s1)
             else (case sc_queued s1 of
                     [] \<Rightarrow> (None, s1)
                   | q # qs \<Rightarrow>
                       (let s2 = s1\<lparr> sc_queued := qs, sc_open := bt_insert (qs_child q) (qs_task q) (sc_open s1) \<rparr> in
                        (Some \<lparr> sr_child = qs_child q, sr_open = length (sc_open s2), sr_max = sc_max s2 \<rparr>, s2))))))"

definition open_count :: "scheduler \<Rightarrow> nat" where
  "open_count s = length (sc_open s)"

definition queued_count :: "scheduler \<Rightarrow> nat" where
  "queued_count s = length (sc_queued s)"

definition materialize_open_spawned_agent :: "scheduler \<Rightarrow> string \<Rightarrow> string \<Rightarrow> scheduler" where
  "materialize_open_spawned_agent s child task =
     (if map_of (sc_open s) child = None then s\<lparr> sc_open := bt_insert child task (sc_open s) \<rparr> else s)"

section \<open>Runs of admissions and closes\<close>

datatype spawn_op = SpAdmit string string string | SpClose string | SpResume string string

text \<open>What an operation reports: an agent admitted at once, queued, started from the queue, refused, or
  opened again by a resume.\<close>

datatype spawn_out = SoAdmitted string | SoQueued string | SoPromoted string | SoRefused string | SoResumed string

fun spawn_step :: "scheduler \<Rightarrow> spawn_op \<Rightarrow> spawn_out list \<times> scheduler" where
  "spawn_step s (SpAdmit fresh child task) =
     (case admit_spawn s fresh child task of
        (Inr (Reserved r), s') \<Rightarrow> ([SoAdmitted (sr_child r)], s')
      | (Inr (Queued q), s') \<Rightarrow> ([SoQueued (qs_child q)], s')
      | (Inl _, s') \<Rightarrow> ([SoRefused child], s'))"
| "spawn_step s (SpClose child) =
     (case close_spawned_agent s child of
        (Some r, s') \<Rightarrow> ([SoPromoted (sr_child r)], s')
      | (None, s') \<Rightarrow> ([], s'))"
| "spawn_step s (SpResume child task) =
     ((if map_of (sc_open s) child = None then [SoResumed child] else []), materialize_open_spawned_agent s child task)"

text \<open>An agent is admitted under an identifier that is neither open nor queued (the runtime draws a fresh one);
  one that a resume opens again is not queued.\<close>

fun spawn_allowed :: "scheduler \<Rightarrow> spawn_op \<Rightarrow> bool" where
  "spawn_allowed s (SpAdmit fresh child task) =
     (map_of (sc_open s) child = None \<and> child \<notin> set (map qs_child (sc_queued s)))"
| "spawn_allowed s (SpClose child) = True"
| "spawn_allowed s (SpResume child task) = (child \<notin> set (map qs_child (sc_queued s)))"

fun out_started :: "spawn_out \<Rightarrow> string list" where
  "out_started (SoAdmitted c) = [c]"
| "out_started (SoPromoted c) = [c]"
| "out_started _ = []"

fun out_accepted :: "spawn_out \<Rightarrow> string list" where
  "out_accepted (SoAdmitted c) = [c]"
| "out_accepted (SoQueued c) = [c]"
| "out_accepted _ = []"

fun out_resumed :: "spawn_out \<Rightarrow> string list" where
  "out_resumed (SoResumed c) = [c]"
| "out_resumed _ = []"

definition resumed_agents :: "spawn_out list \<Rightarrow> string list" where
  "resumed_agents tr = concat (map out_resumed tr)"

definition started_agents :: "spawn_out list \<Rightarrow> string list" where
  "started_agents tr = concat (map out_started tr)"

definition accepted_agents :: "spawn_out list \<Rightarrow> string list" where
  "accepted_agents tr = concat (map out_accepted tr)"

text \<open>With \<open>extra\<close> agents opened by resumes: the capacity is exceeded by no more than these, a queue means
  that no slot is free, and no agent is open or queued twice.\<close>

definition scheduler_ok :: "nat \<Rightarrow> scheduler \<Rightarrow> bool" where
  "scheduler_ok extra s =
     (length (sc_open s) \<le> sc_max s + extra \<and> (sc_queued s \<noteq> [] \<longrightarrow> sc_max s \<le> length (sc_open s))
      \<and> (sc_queued s \<noteq> [] \<longrightarrow> sc_mode s = QueueMode) \<and> bt_wf (sc_open s)
      \<and> distinct (map qs_child (sc_queued s))
      \<and> (\<forall>c \<in> set (map qs_child (sc_queued s)). map_of (sc_open s) c = None))"

definition spawn_traced :: "spawn_out list \<Rightarrow> scheduler \<Rightarrow> bool" where
  "spawn_traced tr s =
     (scheduler_ok (length (resumed_agents tr)) s \<and> started_agents tr @ map qs_child (sc_queued s) = accepted_agents tr)"

lemma trace_agents_simps [simp]:
  "started_agents [] = []" "started_agents (tr @ tr') = started_agents tr @ started_agents tr'"
  "accepted_agents [] = []" "accepted_agents (tr @ tr') = accepted_agents tr @ accepted_agents tr'"
  "resumed_agents [] = []" "resumed_agents (tr @ tr') = resumed_agents tr @ resumed_agents tr'"
  "started_agents [x] = out_started x" "accepted_agents [x] = out_accepted x" "resumed_agents [x] = out_resumed x"
  by (simp_all add: started_agents_def accepted_agents_def resumed_agents_def)

text \<open>The sizes of the map after an insertion and a removal.\<close>

lemma bt_insert_new_length: "map_of m k = None \<Longrightarrow> length (bt_insert k v m) = Suc (length m)"
  by (induction k v m rule: bt_insert.induct) (auto split: if_splits)

lemma bt_remove_length: "bt_wf m \<Longrightarrow> map_of m k \<noteq> None \<Longrightarrow> Suc (length (bt_remove k m)) = length m"
proof (induction m)
  case (Cons a m)
  obtain k' v' where a: "a = (k', v')" by (rule prod.exhaust)
  show ?case
  proof (cases "k' = k")
    case True
    with Cons.prems a have "k \<notin> fst ` set m" by (auto simp: bt_wf_def)
    then have "bt_remove k m = m" unfolding bt_remove_def by (intro filter_True) (auto simp: image_iff)
    with True a show ?thesis by (simp add: bt_remove_def)
  next
    case False
    with Cons a show ?thesis by (simp add: bt_remove_def bt_wf_def)
  qed
qed simp

lemma admit_spawn_step:
  assumes "spawn_traced tr s" "spawn_allowed s (SpAdmit fresh child task)"
    "spawn_step s (SpAdmit fresh child task) = (outs, s')"
  shows "spawn_traced (tr @ outs) s'"
proof (cases "length (sc_open s) < sc_max s")
  case True
  with assms(3) have "outs = [SoAdmitted child]" "s' = s\<lparr> sc_open := bt_insert child task (sc_open s) \<rparr>"
    by (simp_all add: admit_spawn_def Let_def)
  moreover have "sc_queued s = []" using True assms(1) by (auto simp: spawn_traced_def scheduler_ok_def)
  ultimately show ?thesis
    using True assms(1,2) by (simp add: spawn_traced_def scheduler_ok_def bt_insert_new_length bt_insert_wf)
next
  case False
  with assms show ?thesis
    by (cases "sc_mode s") (auto simp: admit_spawn_def spawn_traced_def scheduler_ok_def Let_def)
qed

lemma close_spawn_step:
  assumes "spawn_traced tr s" "spawn_step s (SpClose child) = (outs, s')"
  shows "spawn_traced (tr @ outs) s'"
proof (cases "map_of (sc_open s) child")
  case None
  with assms show ?thesis by (simp add: close_spawned_agent_def)
next
  case (Some t)
  have wf: "bt_wf (sc_open s)" "length (sc_open s) \<le> sc_max s + length (resumed_agents tr)" and l: "Suc (length (bt_remove child (sc_open s))) = length (sc_open s)"
    using assms(1) Some by (auto simp: spawn_traced_def scheduler_ok_def bt_remove_length)
  show ?thesis
  proof (cases "sc_queued s")
    case Nil
    with assms Some l wf show ?thesis
      by (cases "sc_mode s") (auto simp: close_spawned_agent_def spawn_traced_def scheduler_ok_def bt_remove_wf Let_def)
  next
    case (Cons q qs)
    with assms(1) have q: "map_of (sc_open s) (qs_child q) = None" "sc_mode s = QueueMode"
        "sc_max s \<le> length (sc_open s)" by (auto simp: spawn_traced_def scheduler_ok_def)
    have n: "map_of (bt_remove child (sc_open s)) (qs_child q) = None" using q by (simp add: bt_remove_lookup)
    from assms(2) Cons Some q have o: "outs = [SoPromoted (qs_child q)]"
      "s' = s\<lparr> sc_queued := qs, sc_open := bt_insert (qs_child q) (qs_task q) (bt_remove child (sc_open s)) \<rparr>"
      by (simp_all add: close_spawned_agent_def Let_def)
    with assms(1) Cons q l wf bt_insert_new_length [OF n] show ?thesis
      by (auto simp: spawn_traced_def scheduler_ok_def bt_insert_wf bt_remove_wf bt_insert_lookup bt_remove_lookup
          image_iff)
  qed
qed

lemma resume_step:
  assumes "spawn_traced tr s" "spawn_allowed s (SpResume child task)" "spawn_step s (SpResume child task) = (outs, s')"
  shows "spawn_traced (tr @ outs) s'"
  using assms
  by (cases "map_of (sc_open s) child")
     (auto simp: materialize_open_spawned_agent_def spawn_traced_def scheduler_ok_def bt_insert_new_length
        bt_insert_wf bt_insert_lookup)

interpretation spawns: guarded_machine spawn_step spawn_traced spawn_allowed
proof unfold_locales
  fix tr s e outs s'
  assume "spawn_traced tr s" "spawn_allowed s e" "spawn_step s e = (outs, s')"
  then show "spawn_traced (tr @ outs) s'"
    using admit_spawn_step close_spawn_step resume_step by (cases e) blast+
qed

section \<open>Properties\<close>

text \<open>C13. The scheduler keeps its capacity and admits in order. Along any run of admissions (under
  identifiers not in use), closes and agents opened again by a resume, which the scheduler does not refuse, no
  more agents are open than one less than the configured number of threads and the agents resumed so far;
  an agent waits in the queue only while no slot is free; and the agents that started, followed by those
  that wait, are the accepted ones in the order they were accepted.
\<close>

theorem spawns_within_capacity:
  assumes "all_allowed spawn_step spawn_allowed (scheduler_new threads mode) ops"
    "run_emit spawn_step (scheduler_new threads mode) ops = (tr, s)"
  shows "open_count s \<le> (threads - 1) + length (resumed_agents tr)
    \<and> (queued_count s \<noteq> 0 \<longrightarrow> threads - 1 \<le> open_count s)
    \<and> started_agents tr @ map qs_child (sc_queued s) = accepted_agents tr"
proof -
  have max: "sc_max (snd (run_emit spawn_step s0 es)) = sc_max s0" for s0 es
  proof (induction es arbitrary: s0)
    case (Cons e es)
    have "sc_max (snd (spawn_step s0 e)) = sc_max s0"
      by (cases e) (auto simp: admit_spawn_def close_spawned_agent_def materialize_open_spawned_agent_def Let_def
          split: capacity_mode.splits list.splits)
    with Cons show ?case by (simp add: split_def Let_def)
  qed simp
  have "spawn_traced [] (scheduler_new threads mode)"
    by (simp add: spawn_traced_def scheduler_ok_def scheduler_new_def bt_wf_def)
  from spawns.guarded_run [OF this assms] max [of "scheduler_new threads mode" ops] assms(2)
  show ?thesis
    by (auto simp: spawn_traced_def scheduler_ok_def open_count_def queued_count_def scheduler_new_def)
qed

definition three_spawns :: "spawn_op list" where
  "three_spawns = [SpAdmit ''r1'' ''a'' ''t'', SpAdmit ''r2'' ''b'' ''t'', SpAdmit ''r3'' ''c'' ''t'', SpClose ''a'']"

theorem spawns_within_capacity_witness:
  "let (tr, s) = run_emit spawn_step (scheduler_new 3 QueueMode) three_spawns
   in open_count s = 2 \<and> started_agents tr = [''a'', ''b'', ''c''] \<and> accepted_agents tr = [''a'', ''b'', ''c'']"
proof -
  obtain tr s where r: "run_emit spawn_step (scheduler_new 3 QueueMode) three_spawns = (tr, s)"
    by (rule prod.exhaust)
  have a: "all_allowed spawn_step spawn_allowed (scheduler_new 3 QueueMode) three_spawns"
    by (simp add: three_spawns_def scheduler_new_def admit_spawn_def close_spawned_agent_def bt_remove_def)
  have "tr = [SoAdmitted ''a'', SoAdmitted ''b'', SoQueued ''c'', SoPromoted ''c''] \<and> sc_queued s = [] \<and> open_count s = 2"
    using r by (auto simp: three_spawns_def scheduler_new_def admit_spawn_def close_spawned_agent_def
        bt_remove_def open_count_def Let_def)
  with spawns_within_capacity [OF a r] r show ?thesis by (auto simp: started_agents_def)
qed

text \<open>An agent over the capacity is replaced, not taken back: with three agents resumed for two slots, closing
  one starts the waiting agent although no slot is free.\<close>

lemma promotion_over_capacity:
  "open_count (snd (run_emit spawn_step (scheduler_new 3 QueueMode)
      [SpResume ''a'' ''t'', SpResume ''b'' ''t'', SpResume ''c'' ''t'', SpAdmit ''r'' ''d'' ''t'', SpClose ''a''])) = 3"
  by (simp add: scheduler_new_def admit_spawn_def close_spawned_agent_def materialize_open_spawned_agent_def
      bt_remove_def open_count_def Let_def)

text \<open>A queued agent that is closed before it starts stays in the queue, and starts later.\<close>

lemma closed_while_queued_starts:
  "started_agents (fst (run_emit spawn_step (scheduler_new 2 QueueMode)
      [SpAdmit ''r1'' ''a'' ''t'', SpAdmit ''r2'' ''b'' ''t'', SpClose ''b'', SpClose ''a''])) = [''a'', ''b'']"
  by (simp add: scheduler_new_def admit_spawn_def close_spawned_agent_def bt_remove_def started_agents_def Let_def)

end
