(* ===== verification/RtMailbox.thy ===== *)
theory RtMailbox
  imports RtTypes
begin

text \<open>
  The mailbox of an agent thread (\<open>crates/browser-use-runtime/src/lib.rs\<close>, \<open>MailboxItem\<close> and
  \<open>AgentMailbox\<close>): messages get their number in one critical section and are queued in another; a turn
  drains the messages of its delivery phase; a waiter is woken through a watch channel. The JSON form of a
  message is what the journal keeps of it.
\<close>

section \<open>Messages\<close>

datatype delivery_phase = CurrentTurn | NextTurn

datatype item_kind = MkCompletion | MkInput | MkFollowup | MkNotification

record mailbox_item =
  mi_seq :: nat
  mi_id :: string
  mi_kind :: item_kind
  mi_author :: string
  mi_target :: string
  mi_target_path :: "string option"
  mi_content :: string
  mi_trigger :: bool
  mi_phase :: delivery_phase
  mi_payload :: json

datatype agent_target = AtAny | AtAgent string | AtPath string

datatype wait_outcome = WaitCompleted mailbox_item | WaitTimedOut

fun target_matches :: "mailbox_item \<Rightarrow> agent_target \<Rightarrow> bool" where
  "target_matches it AtAny = True"
| "target_matches it (AtAgent a) = (mi_author it = a)"
| "target_matches it (AtPath p) = (mi_target_path it = Some p)"

text \<open>The derived serializers: a field that is \<open>None\<close> is left out, a missing \<open>target_path\<close> or
  \<open>payload\<close> takes its default, an unknown field is ignored.\<close>

fun phase_str :: "delivery_phase \<Rightarrow> string" where
  "phase_str CurrentTurn = ''current_turn''"
| "phase_str NextTurn = ''next_turn''"

definition phase_of_str :: "string \<Rightarrow> delivery_phase option" where
  "phase_of_str s =
     (if s = ''current_turn'' then Some CurrentTurn else if s = ''next_turn'' then Some NextTurn else None)"

fun kind_str :: "item_kind \<Rightarrow> string" where
  "kind_str MkCompletion = ''completion''"
| "kind_str MkInput = ''input''"
| "kind_str MkFollowup = ''followup''"
| "kind_str MkNotification = ''notification''"

definition kind_of_str :: "string \<Rightarrow> item_kind option" where
  "kind_of_str s =
     (if s = ''completion'' then Some MkCompletion else if s = ''input'' then Some MkInput
      else if s = ''followup'' then Some MkFollowup else if s = ''notification'' then Some MkNotification
      else None)"

definition item_json :: "mailbox_item \<Rightarrow> json" where
  "item_json it =
     JObj ([(''author_agent_id'', JStr (mi_author it)), (''content'', JStr (mi_content it)),
            (''delivery_phase'', JStr (phase_str (mi_phase it))), (''id'', JStr (mi_id it)),
            (''kind'', JStr (kind_str (mi_kind it))), (''payload'', mi_payload it),
            (''seq'', JNum (int (mi_seq it))), (''target_agent_id'', JStr (mi_target it))]
           @ (case mi_target_path it of None \<Rightarrow> [] | Some p \<Rightarrow> [(''target_path'', JStr p)])
           @ [(''trigger_turn'', JBool (mi_trigger it))])"

definition opt_str_field :: "json \<Rightarrow> string \<Rightarrow> string option option" where
  "opt_str_field v k =
     (case json_get v k of
        None \<Rightarrow> Some None | Some JNull \<Rightarrow> Some None | Some (JStr s) \<Rightarrow> Some (Some s) | Some _ \<Rightarrow> None)"

definition item_of_json :: "json \<Rightarrow> mailbox_item option" where
  "item_of_json v =
     (case (get_u64 v ''seq'', get_str v ''id'', Option.bind (get_str v ''kind'') kind_of_str) of
        (Some n, Some i, Some k) \<Rightarrow>
          (case (get_str v ''author_agent_id'', get_str v ''target_agent_id'', opt_str_field v ''target_path'') of
             (Some a, Some t, Some tp) \<Rightarrow>
               (case (get_str v ''content'', get_bool v ''trigger_turn'',
                      Option.bind (get_str v ''delivery_phase'') phase_of_str) of
                  (Some c, Some tr, Some p) \<Rightarrow>
                    Some \<lparr> mi_seq = nat n, mi_id = i, mi_kind = k, mi_author = a, mi_target = t,
                           mi_target_path = tp, mi_content = c, mi_trigger = tr, mi_phase = p,
                           mi_payload = unwrap_or JNull (json_get v ''payload'') \<rparr>
                | _ \<Rightarrow> None)
           | _ \<Rightarrow> None)
      | _ \<Rightarrow> None)"

text \<open>A message is read back from the journal as it was written.\<close>

lemma phase_str_roundtrip [simp]: "phase_of_str (phase_str p) = Some p"
  by (cases p) (simp_all add: phase_of_str_def)

lemma kind_str_roundtrip [simp]: "kind_of_str (kind_str k) = Some k"
  by (cases k) (simp_all add: kind_of_str_def)

lemma item_roundtrip: "mi_seq it \<le> usize_bound \<Longrightarrow> item_of_json (item_json it) = Some it"
  by (cases "mi_target_path it")
     (simp_all add: item_of_json_def item_json_def get_str_def get_u64_def get_bool_def opt_str_field_def
        usize_bound_def)

section \<open>The mailbox\<close>

text \<open>The queue with its counter; of the watch channel, the number of live receivers and a version that
  a successful \<open>send\<close> increases (\<open>send\<close> fails, and changes nothing, when there is no receiver).\<close>

record rt_mailbox =
  mb_next :: nat
  mb_queue :: "mailbox_item list"
  mb_receivers :: nat
  mb_version :: nat

definition rt_mailbox_new :: rt_mailbox where
  "rt_mailbox_new = \<lparr> mb_next = 0, mb_queue = [], mb_receivers = 0, mb_version = 0 \<rparr>"

definition watch_send :: "rt_mailbox \<Rightarrow> rt_mailbox" where
  "watch_send m = (if mb_receivers m = 0 then m else m\<lparr> mb_version := Suc (mb_version m) \<rparr>)"

definition prepare_item :: "rt_mailbox \<Rightarrow> mailbox_item \<Rightarrow> mailbox_item \<times> rt_mailbox" where
  "prepare_item m it = (let n = sat_add1 (mb_next m) in (it\<lparr> mi_seq := n \<rparr>, m\<lparr> mb_next := n \<rparr>))"

definition enqueue_prepared :: "rt_mailbox \<Rightarrow> mailbox_item \<Rightarrow> nat \<times> rt_mailbox" where
  "enqueue_prepared m it =
     (mi_seq it,
      watch_send (m\<lparr> mb_next := max (mb_next m) (mi_seq it), mb_queue := mb_queue m @ [it] \<rparr>))"

definition mailbox_enqueue :: "rt_mailbox \<Rightarrow> mailbox_item \<Rightarrow> nat \<times> rt_mailbox" where
  "mailbox_enqueue m it = (let (it', m') = prepare_item m it in enqueue_prepared m' it')"

definition max_seq :: "mailbox_item list \<Rightarrow> nat" where
  "max_seq its = foldl max 0 (map mi_seq its)"

definition materialize_pending :: "rt_mailbox \<Rightarrow> mailbox_item list \<Rightarrow> rt_mailbox" where
  "materialize_pending m its =
     watch_send (m\<lparr> mb_next := max (mb_next m) (max_seq its), mb_queue := its \<rparr>)"

definition pending_items :: "rt_mailbox \<Rightarrow> mailbox_item list" where
  "pending_items m = mb_queue m"

definition has_pending_completion_for :: "rt_mailbox \<Rightarrow> agent_target \<Rightarrow> mailbox_item option" where
  "has_pending_completion_for m t = find (\<lambda>it. mi_kind it = MkCompletion \<and> target_matches it t) (mb_queue m)"

definition has_pending_item_after :: "rt_mailbox \<Rightarrow> agent_target \<Rightarrow> nat \<Rightarrow> mailbox_item option" where
  "has_pending_item_after m t n = find (\<lambda>it. n < mi_seq it \<and> target_matches it t) (mb_queue m)"

definition has_pending_item_for :: "rt_mailbox \<Rightarrow> agent_target \<Rightarrow> mailbox_item option" where
  "has_pending_item_for m t = has_pending_item_after m t 0"

definition has_pending_phase :: "rt_mailbox \<Rightarrow> delivery_phase \<Rightarrow> bool" where
  "has_pending_phase m p = list_ex (\<lambda>it. mi_phase it = p) (mb_queue m)"

definition pending_items_for_phase :: "rt_mailbox \<Rightarrow> delivery_phase \<Rightarrow> mailbox_item list" where
  "pending_items_for_phase m p = filter (\<lambda>it. mi_phase it = p) (mb_queue m)"

definition has_pending_trigger_turn_phase :: "rt_mailbox \<Rightarrow> delivery_phase \<Rightarrow> bool" where
  "has_pending_trigger_turn_phase m p = list_ex (\<lambda>it. mi_phase it = p \<and> mi_trigger it) (mb_queue m)"

text \<open>The loop of \<open>drain_phase\<close> over the queue, its front first.\<close>

fun drain_loop ::
  "delivery_phase \<Rightarrow> mailbox_item list \<Rightarrow> mailbox_item list \<Rightarrow> mailbox_item list \<Rightarrow> mailbox_item list \<times> mailbox_item list" where
  "drain_loop p [] kept drained = (kept, drained)"
| "drain_loop p (it # q) kept drained =
     (if mi_phase it = p then drain_loop p q kept (drained @ [it]) else drain_loop p q (kept @ [it]) drained)"

definition drain_phase :: "rt_mailbox \<Rightarrow> delivery_phase \<Rightarrow> mailbox_item list \<times> rt_mailbox" where
  "drain_phase m p = (let (kept, drained) = drain_loop p (mb_queue m) [] [] in (drained, m\<lparr> mb_queue := kept \<rparr>))"

lemma drain_loop_filter:
  "drain_loop p q kept drained = (kept @ filter (\<lambda>it. mi_phase it \<noteq> p) q, drained @ filter (\<lambda>it. mi_phase it = p) q)"
  by (induction q arbitrary: kept drained) auto

lemma drain_phase_eq:
  "drain_phase m p = (pending_items_for_phase m p, m\<lparr> mb_queue := filter (\<lambda>it. mi_phase it \<noteq> p) (mb_queue m) \<rparr>)"
  by (simp add: drain_phase_def drain_loop_filter pending_items_for_phase_def)

lemma watch_send_simps [simp]: "mb_queue (watch_send m) = mb_queue m" "mb_next (watch_send m) = mb_next m"
  "mb_receivers (watch_send m) = mb_receivers m"
  by (simp_all add: watch_send_def)

lemma mailbox_enqueue_simps:
  "fst (mailbox_enqueue m it) = sat_add1 (mb_next m)"
  "mb_queue (snd (mailbox_enqueue m it)) = mb_queue m @ [it\<lparr> mi_seq := sat_add1 (mb_next m) \<rparr>]"
  "mb_next (snd (mailbox_enqueue m it)) = sat_add1 (mb_next m)"
  by (simp_all add: mailbox_enqueue_def prepare_item_def enqueue_prepared_def Let_def)

lemma foldl_max_mono: "(a::nat) \<le> foldl max a ns"
  by (induction ns arbitrary: a) (auto intro: order.trans [OF max.cobounded1])

lemma max_seq_bound: "it \<in> set its \<Longrightarrow> mi_seq it \<le> max_seq its"
proof -
  have "n \<in> set ns \<Longrightarrow> n \<le> foldl max a ns" for n a and ns :: "nat list"
    by (induction ns arbitrary: a) (auto intro: order.trans [OF max.cobounded2 foldl_max_mono])
  then show "it \<in> set its \<Longrightarrow> mi_seq it \<le> max_seq its" by (auto simp: max_seq_def)
qed

section \<open>Delivery\<close>

datatype mail_op = MoSend mailbox_item | MoDrain delivery_phase

datatype mail_out = OutSent mailbox_item | OutDelivered "mailbox_item list"

fun mail_step :: "rt_mailbox \<Rightarrow> mail_op \<Rightarrow> mail_out list \<times> rt_mailbox" where
  "mail_step m (MoSend it) = (let (n, m') = mailbox_enqueue m it in ([OutSent (it\<lparr> mi_seq := n \<rparr>)], m'))"
| "mail_step m (MoDrain p) = (let (its, m') = drain_phase m p in ([OutDelivered its], m'))"

fun out_sent :: "mail_out \<Rightarrow> mailbox_item list" where
  "out_sent (OutSent it) = [it]"
| "out_sent (OutDelivered _) = []"

fun out_delivered :: "mail_out \<Rightarrow> mailbox_item list" where
  "out_delivered (OutSent _) = []"
| "out_delivered (OutDelivered its) = its"

definition sent_items :: "mail_out list \<Rightarrow> mailbox_item list" where
  "sent_items tr = concat (map out_sent tr)"

definition delivered_items :: "mail_out list \<Rightarrow> mailbox_item list" where
  "delivered_items tr = concat (map out_delivered tr)"

definition in_phase :: "delivery_phase \<Rightarrow> mailbox_item list \<Rightarrow> mailbox_item list" where
  "in_phase p its = filter (\<lambda>it. mi_phase it = p) its"

definition mail_traced :: "mail_out list \<Rightarrow> rt_mailbox \<Rightarrow> bool" where
  "mail_traced tr m =
     ((\<forall>p. in_phase p (delivered_items tr) @ in_phase p (mb_queue m) = in_phase p (sent_items tr))
      \<and> (length tr < usize_bound \<longrightarrow>
           mb_next m = length (sent_items tr) \<and> map mi_seq (sent_items tr) = [1 ..< Suc (length (sent_items tr))]))"

lemma sent_items_simps [simp]:
  "sent_items [] = []" "sent_items (tr @ tr') = sent_items tr @ sent_items tr'" "sent_items [x] = out_sent x"
  by (simp_all add: sent_items_def)

lemma delivered_items_simps [simp]:
  "delivered_items [] = []" "delivered_items (tr @ tr') = delivered_items tr @ delivered_items tr'"
  "delivered_items [x] = out_delivered x"
  by (simp_all add: delivered_items_def)

lemma in_phase_simps [simp]:
  "in_phase p [] = []" "in_phase p (a @ b) = in_phase p a @ in_phase p b"
  by (simp_all add: in_phase_def)

lemma in_phase_filter:
  "in_phase p (filter (\<lambda>it. mi_phase it = q) its) = (if p = q then in_phase p its else [])"
  "in_phase p (filter (\<lambda>it. mi_phase it \<noteq> q) its) = (if p = q then [] else in_phase p its)"
  by (induction its) (auto simp: in_phase_def)

lemma sent_items_length: "length (sent_items tr) \<le> length tr"
proof (induction tr)
  case (Cons x tr)
  then show ?case by (cases x) (auto simp: sent_items_def)
qed simp

interpretation mail: emitting_machine mail_step mail_traced
proof unfold_locales
  fix tr m e outs m'
  assume t: "mail_traced tr m" and s: "mail_step m e = (outs, m')"
  show "mail_traced (tr @ outs) m'"
  proof (cases e)
    case (MoSend it)
    have m': "mb_queue m' = mb_queue m @ [it\<lparr> mi_seq := sat_add1 (mb_next m) \<rparr>]" "mb_next m' = sat_add1 (mb_next m)"
      "outs = [OutSent (it\<lparr> mi_seq := sat_add1 (mb_next m) \<rparr>)]"
      using s MoSend mailbox_enqueue_simps [of m it] by (auto split: prod.splits)
    have "mb_next m < usize_bound" if "length tr < usize_bound"
      using that t sent_items_length [of tr] by (simp add: mail_traced_def)
    with t m' show ?thesis
      by (simp add: mail_traced_def sat_simps del: upt_Suc) (simp add: append_assoc [symmetric])
  next
    case (MoDrain p)
    then have "outs = [OutDelivered (pending_items_for_phase m p)]"
      "m' = m\<lparr> mb_queue := filter (\<lambda>it. mi_phase it \<noteq> p) (mb_queue m) \<rparr>"
      using s by (simp_all add: drain_phase_eq)
    with t show ?thesis
      by (auto simp: mail_traced_def pending_items_for_phase_def in_phase_filter)
  qed
qed

section \<open>Waiting\<close>

text \<open>
  \<open>wait_for_item\<close> as its steps: the first look at the queue, the subscription, a change seen on the
  channel, and the timeout (\<open>timeout\<close> polls the wait once more before it gives up). The other steps are
  those of other tasks. A sender queues its message in the critical section of \<open>enqueue_prepared\<close> and
  sends on the channel after it, in a step of its own: the last component counts the senders between the two.
\<close>

datatype wait_state = WsStart | WsChecked | WsWaiting nat | WsDone wait_outcome

datatype wait_event =
    WtCheck
  | WtSubscribe
  | WtChanged
  | WtTimeout
  | WtPush mailbox_item
  | WtNotify
  | WtDrain delivery_phase

definition drop_receiver :: "rt_mailbox \<Rightarrow> rt_mailbox" where
  "drop_receiver m = m\<lparr> mb_receivers := mb_receivers m - 1 \<rparr>"

text \<open>The two halves of \<open>enqueue_prepared\<close>.\<close>

definition push_prepared :: "rt_mailbox \<Rightarrow> mailbox_item \<Rightarrow> rt_mailbox" where
  "push_prepared m it = m\<lparr> mb_next := max (mb_next m) (mi_seq it), mb_queue := mb_queue m @ [it] \<rparr>"

lemma enqueue_is_push_then_send: "snd (enqueue_prepared m it) = watch_send (push_prepared m it)"
  by (simp add: enqueue_prepared_def push_prepared_def)

text \<open>The outputs are the outcomes, each with the matching message that was pending and the number of senders
  that had not sent yet when it was reported.\<close>

type_synonym wait_report = "wait_outcome \<times> mailbox_item option \<times> nat"

fun wait_step ::
  "agent_target \<Rightarrow> nat \<Rightarrow> rt_mailbox \<times> wait_state \<times> nat \<Rightarrow> wait_event \<Rightarrow> wait_report list \<times> (rt_mailbox \<times> wait_state \<times> nat)" where
  "wait_step t n (m, WsStart, k) WtCheck =
     (case has_pending_item_after m t n of
        Some it \<Rightarrow> ([(WaitCompleted it, Some it, k)], (m, WsDone (WaitCompleted it), k))
      | None \<Rightarrow> ([], (m, WsChecked, k)))"
| "wait_step t n (m, WsChecked, k) WtSubscribe =
     ([], (m\<lparr> mb_receivers := Suc (mb_receivers m) \<rparr>, WsWaiting (mb_version m), k))"
| "wait_step t n (m, WsWaiting v, k) WtChanged =
     (if mb_version m = v then ([], (m, WsWaiting v, k))
      else (case has_pending_item_after m t n of
              Some it \<Rightarrow> ([(WaitCompleted it, Some it, k)], (drop_receiver m, WsDone (WaitCompleted it), k))
            | None \<Rightarrow> ([], (m, WsWaiting (mb_version m), k))))"
| "wait_step t n (m, WsWaiting v, k) WtTimeout =
     (case (if mb_version m = v then None else has_pending_item_after m t n) of
        Some it \<Rightarrow> ([(WaitCompleted it, Some it, k)], (drop_receiver m, WsDone (WaitCompleted it), k))
      | None \<Rightarrow> ([(WaitTimedOut, has_pending_item_after m t n, k)], (drop_receiver m, WsDone WaitTimedOut, k)))"
| "wait_step t n (m, w, k) (WtPush it) = ([], (push_prepared m it, w, Suc k))"
| "wait_step t n (m, w, Suc k) WtNotify = ([], (watch_send m, w, k))"
| "wait_step t n (m, w, k) (WtDrain p) = ([], (snd (drain_phase m p), w, k))"
| "wait_step t n (m, w, k) e = ([], (m, w, k))"

text \<open>No message is queued between the first look and the subscription.\<close>

fun wait_allowed :: "rt_mailbox \<times> wait_state \<times> nat \<Rightarrow> wait_event \<Rightarrow> bool" where
  "wait_allowed (m, WsChecked, k) (WtPush it) = False"
| "wait_allowed (m, w, k) e = True"

definition report_true :: "agent_target \<Rightarrow> nat \<Rightarrow> wait_report \<Rightarrow> bool" where
  "report_true t n r =
     (case r of
        (WaitCompleted it, p, k) \<Rightarrow> p = Some it \<and> n < mi_seq it \<and> target_matches it t
      | (WaitTimedOut, p, k) \<Rightarrow> p = None \<or> 0 < k)"

text \<open>A waiter whose version is the channel's has nothing pending, unless a sender has still to send.\<close>

definition wait_traced ::
  "agent_target \<Rightarrow> nat \<Rightarrow> wait_report list \<Rightarrow> rt_mailbox \<times> wait_state \<times> nat \<Rightarrow> bool" where
  "wait_traced t n tr s =
     ((\<forall>r \<in> set tr. report_true t n r)
      \<and> (case s of
           (m, WsChecked, k) \<Rightarrow> has_pending_item_after m t n = None
         | (m, WsWaiting v, k) \<Rightarrow>
             0 < mb_receivers m \<and> v \<le> mb_version m
             \<and> (mb_version m = v \<and> k = 0 \<longrightarrow> has_pending_item_after m t n = None)
         | _ \<Rightarrow> True))"

lemma pending_after_drain:
  "has_pending_item_after m t n = None \<Longrightarrow> has_pending_item_after (snd (drain_phase m p)) t n = None"
  by (auto simp: has_pending_item_after_def drain_phase_eq find_None_iff)

lemma pending_after_Some: "has_pending_item_after m t n = Some it \<Longrightarrow> n < mi_seq it \<and> target_matches it t"
  by (auto simp: has_pending_item_after_def dest: find_Some_D)

lemma push_channel:
  "mb_receivers (push_prepared m it) = mb_receivers m" "mb_version (push_prepared m it) = mb_version m"
  by (simp_all add: push_prepared_def)

lemma send_channel:
  "0 < mb_receivers m \<Longrightarrow> mb_version (watch_send m) = Suc (mb_version m)"
  "has_pending_item_after (watch_send m) t n = has_pending_item_after m t n"
  by (simp_all add: watch_send_def has_pending_item_after_def)

lemma drain_channel:
  "mb_receivers (snd (drain_phase m p)) = mb_receivers m" "mb_version (snd (drain_phase m p)) = mb_version m"
  by (simp_all add: drain_phase_eq)

lemma pending_receivers: "has_pending_item_after (m\<lparr> mb_receivers := k \<rparr>) t n = has_pending_item_after m t n"
  by (simp add: has_pending_item_after_def)

interpretation waits: guarded_machine "wait_step t n" "wait_traced t n" wait_allowed for t n
proof unfold_locales
  fix tr s e outs s'
  assume a: "wait_traced t n tr s" "wait_allowed s e" "wait_step t n s e = (outs, s')"
  obtain m w k where s: "s = (m, w, k)" by (metis prod.exhaust)
  show "wait_traced t n (tr @ outs) s'"
    using a unfolding s
    by (cases w; cases e; cases k)
       (auto simp: wait_traced_def report_true_def push_channel send_channel drain_channel pending_after_drain
          pending_receivers dest: pending_after_Some split: option.splits if_splits)
qed

section \<open>Properties\<close>

lemma mail_run_length: "length (fst (run_emit mail_step m ops)) = length ops"
proof (induction ops arbitrary: m)
  case (Cons e ops)
  have "length (fst (mail_step m e)) = 1" by (cases e) (simp_all add: split_def Let_def)
  with Cons show ?case by (simp add: split_def Let_def)
qed simp

text \<open>C11. A mailbox delivers every message exactly once and in order. After any sequence of sends and drains,
  the messages of a delivery phase that were handed out, followed by those still pending, are the messages
  of the phase that were sent, in the order they were sent; and no two messages sent have one number.
\<close>

theorem mailbox_delivers_once:
  assumes "run_emit mail_step rt_mailbox_new ops = (tr, m)"
  shows "in_phase p (delivered_items tr) @ pending_items_for_phase m p = in_phase p (sent_items tr)
    \<and> (length ops < usize_bound \<longrightarrow> distinct (map mi_seq (sent_items tr)))"
proof -
  have "mail_traced [] rt_mailbox_new" by (simp add: mail_traced_def rt_mailbox_new_def)
  from mail.run_traced [OF this assms] have t: "mail_traced tr m" by simp
  have "length tr = length ops" using mail_run_length [of rt_mailbox_new ops] assms by simp
  with t show ?thesis
    by (simp add: mail_traced_def pending_items_for_phase_def in_phase_def [of _ "mb_queue m"] del: upt_Suc)
qed

definition sample_item :: "string \<Rightarrow> delivery_phase \<Rightarrow> mailbox_item" where
  "sample_item c p =
     \<lparr> mi_seq = 0, mi_id = ''i'', mi_kind = MkInput, mi_author = ''a'', mi_target = ''t'', mi_target_path = None,
       mi_content = c, mi_trigger = False, mi_phase = p, mi_payload = JNull \<rparr>"

theorem mailbox_delivers_once_witness:
  "let (tr, m) = run_emit mail_step rt_mailbox_new
       [MoSend (sample_item ''x'' CurrentTurn), MoSend (sample_item ''y'' NextTurn),
        MoSend (sample_item ''z'' CurrentTurn), MoDrain CurrentTurn]
   in map mi_content (in_phase CurrentTurn (delivered_items tr)) = [''x'', ''z'']
      \<and> pending_items_for_phase m CurrentTurn = [] \<and> distinct (map mi_seq (sent_items tr))"
proof -
  let ?ops = "[MoSend (sample_item ''x'' CurrentTurn), MoSend (sample_item ''y'' NextTurn),
        MoSend (sample_item ''z'' CurrentTurn), MoDrain CurrentTurn]"
  obtain tr m where r: "run_emit mail_step rt_mailbox_new ?ops = (tr, m)" by (rule prod.exhaust)
  have "map mi_content (in_phase CurrentTurn (delivered_items tr)) = [''x'', ''z'']
      \<and> pending_items_for_phase m CurrentTurn = []"
    using r by (auto simp: rt_mailbox_new_def mailbox_enqueue_def prepare_item_def enqueue_prepared_def watch_send_def
        drain_phase_eq sample_item_def in_phase_def delivered_items_def pending_items_for_phase_def Let_def)
  moreover have "length ?ops < usize_bound" by (simp add: usize_bound_def)
  ultimately show ?thesis using mailbox_delivers_once [OF r, of CurrentTurn] r by simp
qed

text \<open>C26. A wait reports truly and is not left behind, along every run of a wait beside sends and drains of
  other tasks in which no message is queued between the waiter's first look and its subscription. A message
  it reports is pending, newer than the waiter asked and for its target. It reports a timeout only when no
  such message is pending or a sender has queued its message and not yet sent on the channel. And when every
  sender has sent and such a message is pending while it waits, its next poll reports one.
\<close>

theorem wait_reports_truly:
  assumes "all_allowed (wait_step t n) wait_allowed (m, WsStart, k) es"
    "run_emit (wait_step t n) (m, WsStart, k) es = (tr, s)"
  shows "(\<forall>r \<in> set tr. report_true t n r)
    \<and> (\<forall>m' v it. s = (m', WsWaiting v, 0) \<and> has_pending_item_after m' t n = Some it
         \<longrightarrow> fst (wait_step t n s WtChanged) = [(WaitCompleted it, Some it, 0)])"
proof -
  have "wait_traced t n [] (m, WsStart, k)" by (simp add: wait_traced_def)
  from waits.guarded_run [OF this assms] show ?thesis by (auto simp: wait_traced_def)
qed

theorem wait_reports_truly_witness:
  "let (tr, s) = run_emit (wait_step (AtAgent ''a'') 0) (rt_mailbox_new, WsStart, 0)
       [WtCheck, WtSubscribe, WtPush (sample_item ''x'' CurrentTurn\<lparr> mi_seq := 1 \<rparr>), WtNotify, WtTimeout]
   in \<exists>it. map fst tr = [WaitCompleted it] \<and> 0 < mi_seq it \<and> target_matches it (AtAgent ''a'')"
proof -
  let ?it = "sample_item ''x'' CurrentTurn\<lparr> mi_seq := 1 \<rparr>"
  let ?es = "[WtCheck, WtSubscribe, WtPush ?it, WtNotify, WtTimeout]"
  obtain tr s where r: "run_emit (wait_step (AtAgent ''a'') 0) (rt_mailbox_new, WsStart, 0) ?es = (tr, s)"
    by (rule prod.exhaust)
  have a: "all_allowed (wait_step (AtAgent ''a'') 0) wait_allowed (rt_mailbox_new, WsStart, 0) ?es"
    by (simp add: has_pending_item_after_def rt_mailbox_new_def)
  have "tr = [(WaitCompleted ?it, Some ?it, 0)]"
    using r by (auto simp: rt_mailbox_new_def push_prepared_def watch_send_def has_pending_item_after_def sample_item_def)
  with wait_reports_truly [OF a r] r show ?thesis by (auto simp: report_true_def)
qed

text \<open>
  Without that condition a wake-up is lost: a message that is queued after the first look, and sent before the
  subscription, does not wake the waiter, which times out while the message is pending.
\<close>

lemma wait_loses_wakeup:
  "fst (run_emit (wait_step AtAny 0) (rt_mailbox_new, WsStart, 0)
      [WtCheck, WtPush (sample_item ''x'' CurrentTurn\<lparr> mi_seq := 1 \<rparr>), WtNotify, WtSubscribe, WtTimeout])
   = [(WaitTimedOut, Some (sample_item ''x'' CurrentTurn\<lparr> mi_seq := 1 \<rparr>), 0)]"
  by (simp add: rt_mailbox_new_def push_prepared_def watch_send_def has_pending_item_after_def sample_item_def)

end
