(* ===== verification/RtJournal.thy ===== *)
theory RtJournal
  imports RtTypes
begin

text \<open>
  The in-memory journal of the runtime (\<open>crates/browser-use-runtime/src/lib.rs\<close>,
  \<open>MemoryJournal\<close>): the sessions with their status, one event list per session with numbers drawn from
  one counter, and the spawn edges from which children and descendants are listed. The same operations
  over SQLite are calls of the store crate. A hash map is an association list in key order; a fresh
  identifier and a time are the next of a supply.
\<close>

section \<open>Supply of identifiers and times\<close>

record id_supply =
  sp_id :: "nat \<Rightarrow> string"
  sp_now :: "nat \<Rightarrow> int"

section \<open>Spawn edges\<close>

datatype edge_status = EdgeOpen | EdgeDone | EdgeFailed | EdgeClosed

datatype thread_status =
  TsCreated | TsQueued | TsRunning | TsCancelling | TsCompleted | TsFailed | TsCancelled | TsClosed

fun as_store_status :: "edge_status \<Rightarrow> string" where
  "as_store_status EdgeOpen = ''open''"
| "as_store_status EdgeDone = ''done''"
| "as_store_status EdgeFailed = ''failed''"
| "as_store_status EdgeClosed = ''closed''"

definition from_store_status :: "string \<Rightarrow> edge_status" where
  "from_store_status s =
     (if s = ''open'' then EdgeOpen else if s = ''done'' then EdgeDone else if s = ''failed'' then EdgeFailed
      else if s = ''closed'' \<or> s = ''cancelled'' then EdgeClosed else EdgeOpen)"

fun as_thread_status :: "edge_status \<Rightarrow> thread_status" where
  "as_thread_status EdgeOpen = TsCreated"
| "as_thread_status EdgeDone = TsCompleted"
| "as_thread_status EdgeFailed = TsFailed"
| "as_thread_status EdgeClosed = TsClosed"

lemma store_status_roundtrip: "from_store_status (as_store_status st) = st"
  by (cases st) (simp_all add: from_store_status_def)

record spawn_edge =
  ed_parent :: string
  ed_child :: string
  ed_status :: edge_status
  ed_path :: "string option"
  ed_nickname :: "string option"
  ed_role :: "string option"

section \<open>The journal\<close>

record memory_journal =
  mj_sessions :: "(string \<times> session_meta) list"
  mj_events :: "(string \<times> event_record list) list"
  mj_edges :: "(string \<times> spawn_edge) list"
  mj_next_seq :: int
  mj_draws :: nat

record create_thread_request =
  ct_session :: "string option"
  ct_parent :: "string option"
  ct_cwd :: string
  ct_artifact_root :: "string option"
  ct_agent_path :: "string option"
  ct_nickname :: "string option"
  ct_role :: "string option"

definition memory_journal_new :: memory_journal where
  "memory_journal_new = \<lparr> mj_sessions = [], mj_events = [], mj_edges = [], mj_next_seq = 0, mj_draws = 0 \<rparr>"

definition status_for_session_event :: "string \<Rightarrow> json \<Rightarrow> session_status option" where
  "status_for_session_event t payload =
     (if t \<in> {''session.input'', ''session.followup'', ''agent.mailbox_input'', ''agent.run.started''} then Some SRunning
      else if t = ''session.done'' then Some SDone
      else if t = ''session.failed'' then Some SFailed
      else if t = ''session.cancelled'' then Some SCancelled
      else if t = ''agent.closed'' \<and> get_bool payload ''cancelled_active_run'' = Some True then Some SCancelled
      else if t = ''session.status'' then
        (case get_str payload ''status'' of
           None \<Rightarrow> None
         | Some s \<Rightarrow> (case status_from_str s of Inl _ \<Rightarrow> None | Inr st \<Rightarrow> Some st))
      else None)"

definition session_events :: "memory_journal \<Rightarrow> string \<Rightarrow> event_record list" where
  "session_events j sid = unwrap_or [] (map_of (mj_events j) sid)"

definition append_session_event ::
  "id_supply \<Rightarrow> memory_journal \<Rightarrow> string \<Rightarrow> string \<Rightarrow> json \<Rightarrow> (runtime_error + int option) \<times> memory_journal" where
  "append_session_event sp j sid t payload =
     (case map_of (mj_sessions j) sid of
        None \<Rightarrow> (Inl (RtMessage (''unknown session id: '' @ sid)), j)
      | Some meta \<Rightarrow>
          (let n = sat_add64 (mj_next_seq j) 1;
               k = mj_draws j;
               rec = \<lparr> ev_seq = n, ev_id = sp_id sp k, ev_session = sid, ev_ts_ms = sp_now sp k, ev_type = t,
                       ev_payload = payload \<rparr>;
               sessions = (case status_for_session_event t payload of
                             None \<Rightarrow> mj_sessions j
                           | Some st \<Rightarrow>
                               bt_insert sid (meta\<lparr> sm_status := st, sm_updated_ms := sp_now sp k \<rparr>) (mj_sessions j))
           in (Inr (Some n),
               j\<lparr> mj_next_seq := n, mj_events := bt_insert sid (session_events j sid @ [rec]) (mj_events j),
                  mj_sessions := sessions, mj_draws := Suc k \<rparr>)))"

definition append_runtime_event ::
  "id_supply \<Rightarrow> memory_journal \<Rightarrow> runtime_event \<Rightarrow> (runtime_error + int option) \<times> memory_journal" where
  "append_runtime_event sp j e =
     (case re_session e of
        None \<Rightarrow> (Inl (RtMessage ''memory journal runtime events require a session id for now''), j)
      | Some sid \<Rightarrow> append_session_event sp j sid (event_type_of e) (journal_payload e))"

definition load_session :: "memory_journal \<Rightarrow> string \<Rightarrow> session_meta option" where
  "load_session j sid = map_of (mj_sessions j) sid"

definition list_sessions :: "memory_journal \<Rightarrow> session_meta list" where
  "list_sessions j = map snd (mj_sessions j)"

definition events_for_session :: "memory_journal \<Rightarrow> string \<Rightarrow> event_record list" where
  "events_for_session j sid = session_events j sid"

definition events_after_seq :: "memory_journal \<Rightarrow> string \<Rightarrow> int \<Rightarrow> event_record list" where
  "events_after_seq j sid n = filter (\<lambda>e. n < ev_seq e) (events_for_session j sid)"

text \<open>\<open>Path::join\<close>.\<close>

definition path_join :: "string \<Rightarrow> string \<Rightarrow> string" where
  "path_join base p =
     (if starts_with ''/'' p then p
      else if base = '''' \<or> ends_with ''/'' base then base @ p
      else base @ ''/'' @ p)"

definition create_thread ::
  "id_supply \<Rightarrow> memory_journal \<Rightarrow> create_thread_request \<Rightarrow> (runtime_error + session_meta) \<times> memory_journal" where
  "create_thread sp j req =
     (let (i, j0) = (case ct_session req of
                       Some i \<Rightarrow> (i, j)
                     | None \<Rightarrow> (sp_id sp (mj_draws j), j\<lparr> mj_draws := Suc (mj_draws j) \<rparr>));
          now = sp_now sp (mj_draws j0);
          root = unwrap_or (path_join (path_join (ct_cwd req) ''artifacts'') i) (ct_artifact_root req);
          meta = \<lparr> sm_id = i, sm_parent_id = ct_parent req, sm_cwd = ct_cwd req, sm_artifact_root = root,
                   sm_status = SCreated, sm_created_ms = now, sm_updated_ms = now \<rparr>
      in if map_of (mj_sessions j0) i \<noteq> None then (Inl (RtMessage (''session already exists: '' @ i)), j0)
         else (let j1 = j0\<lparr> mj_sessions := bt_insert i meta (mj_sessions j0),
                            mj_edges := (case ct_parent req of
                                           None \<Rightarrow> mj_edges j0
                                         | Some p \<Rightarrow>
                                             bt_insert i \<lparr> ed_parent = p, ed_child = i, ed_status = EdgeOpen,
                                                           ed_path = ct_agent_path req, ed_nickname = ct_nickname req,
                                                           ed_role = ct_role req \<rparr> (mj_edges j0)) \<rparr>
               in case id_from_string ''SessionId'' i of
                    Inl e \<Rightarrow> (Inl e, j1)
                  | Inr i' \<Rightarrow>
                      (case append_session_event sp j1 i' ''session.created'' (JObj []) of
                         (Inl e, j2) \<Rightarrow> (Inl e, j2)
                       | (Inr _, j2) \<Rightarrow> (Inr meta, j2))))"

definition open_spawn_edge :: "memory_journal \<Rightarrow> spawn_edge \<Rightarrow> memory_journal" where
  "open_spawn_edge j e = j\<lparr> mj_edges := bt_insert (ed_child e) (e\<lparr> ed_status := EdgeOpen \<rparr>) (mj_edges j) \<rparr>"

definition set_edge_status :: "memory_journal \<Rightarrow> string \<Rightarrow> edge_status \<Rightarrow> memory_journal" where
  "set_edge_status j child st =
     (case map_of (mj_edges j) child of
        None \<Rightarrow> j
      | Some e \<Rightarrow> j\<lparr> mj_edges := bt_insert child (e\<lparr> ed_status := st \<rparr>) (mj_edges j) \<rparr>)"

definition close_spawn_edge :: "id_supply \<Rightarrow> memory_journal \<Rightarrow> string \<Rightarrow> memory_journal" where
  "close_spawn_edge sp j child =
     (let j1 = set_edge_status j child EdgeClosed in
      case map_of (mj_sessions j1) child of
        None \<Rightarrow> j1
      | Some meta \<Rightarrow>
          (if status_is_active (sm_status meta)
           then j1\<lparr> mj_sessions := bt_insert child (meta\<lparr> sm_status := SCancelled, sm_updated_ms := sp_now sp (mj_draws j1) \<rparr>)
                                     (mj_sessions j1) \<rparr>
           else j1))"

definition finish_spawn_edge :: "memory_journal \<Rightarrow> string \<Rightarrow> edge_status \<Rightarrow> memory_journal" where
  "finish_spawn_edge j child st = set_edge_status j child st"

definition list_children :: "(string \<times> spawn_edge) list \<Rightarrow> string \<Rightarrow> spawn_edge list" where
  "list_children edges p = filter (\<lambda>e. ed_parent e = p) (map snd edges)"

text \<open>The loop of \<open>list_descendants\<close>: the last of the frontier is popped and its children are pushed.
  It takes fuel, as it does not end on a cycle of edges.\<close>

fun descendants_loop ::
  "nat \<Rightarrow> (string \<times> spawn_edge) list \<Rightarrow> string list \<Rightarrow> spawn_edge list \<Rightarrow> spawn_edge list option" where
  "descendants_loop fuel edges [] acc = Some acc"
| "descendants_loop 0 edges (p # fr) acc = None"
| "descendants_loop (Suc fuel) edges (p # fr) acc =
     (let ch = list_children edges p in
      descendants_loop fuel edges (rev (map ed_child ch) @ fr) (acc @ ch))"

definition list_descendants :: "nat \<Rightarrow> (string \<times> spawn_edge) list \<Rightarrow> string \<Rightarrow> spawn_edge list option" where
  "list_descendants fuel edges root = descendants_loop fuel edges [root] []"

section \<open>The event lists\<close>

text \<open>The numbers of a session's events increase, and the counter is ahead of all of them.\<close>

definition journal_ok :: "memory_journal \<Rightarrow> bool" where
  "journal_ok j =
     (\<forall>sid. sorted_wrt (<) (map ev_seq (session_events j sid))
        \<and> (\<forall>e \<in> set (session_events j sid). ev_seq e \<le> mj_next_seq j))"

lemma append_session_event_ok:
  assumes "append_session_event sp j sid t payload = (Inr n, j')"
  shows "\<exists>rec. events_for_session j' sid = events_for_session j sid @ [rec] \<and> n = Some (ev_seq rec)
    \<and> ev_type rec = t \<and> ev_payload rec = payload \<and> ev_session rec = sid \<and> mj_next_seq j' = ev_seq rec
    \<and> ev_seq rec = sat_add64 (mj_next_seq j) 1 \<and> mj_edges j' = mj_edges j
    \<and> (\<forall>sid'. sid' \<noteq> sid \<longrightarrow> events_for_session j' sid' = events_for_session j sid')"
  using assms
  by (auto simp: append_session_event_def events_for_session_def session_events_def bt_insert_lookup Let_def
      split: option.splits)

lemma append_session_event_error:
  "append_session_event sp j sid t payload = (Inl e, j') \<Longrightarrow> j' = j \<and> map_of (mj_sessions j) sid = None"
  by (auto simp: append_session_event_def Let_def split: option.splits)

lemma append_keeps_journal:
  assumes "journal_ok j" "append_session_event sp j sid t payload = (r, j')" "mj_next_seq j < i64_max" "0 \<le> mj_next_seq j"
  shows "journal_ok j'"
proof (cases r)
  case (Inl e)
  with append_session_event_error [of sp j sid t payload e j'] assms show ?thesis by simp
next
  case (Inr n)
  have "sat_add64 (mj_next_seq j) 1 = mj_next_seq j + 1"
    using assms(3,4) by (simp add: sat_add64_def clamp_i64_def i64_max_def i64_min_def)
  with Inr append_session_event_ok [of sp j sid t payload n j'] assms(2) obtain rec where
    "events_for_session j' sid = events_for_session j sid @ [rec]" "ev_seq rec = mj_next_seq j + 1"
    "mj_next_seq j' = mj_next_seq j + 1"
    "\<forall>sid'. sid' \<noteq> sid \<longrightarrow> events_for_session j' sid' = events_for_session j sid'" by auto
  note new = this
  show ?thesis unfolding journal_ok_def
  proof (intro allI conjI)
    fix s
    have old: "sorted_wrt (<) (map ev_seq (session_events j s))" "\<And>e. e \<in> set (session_events j s) \<Longrightarrow> ev_seq e \<le> mj_next_seq j"
      using assms(1) by (auto simp: journal_ok_def)
    have se: "session_events j' s = session_events j s @ (if s = sid then [rec] else [])"
      using new by (auto simp: events_for_session_def)
    show "sorted_wrt (<) (map ev_seq (session_events j' s))"
      using old new(2) by (fastforce simp: se sorted_wrt_append)
    show "\<forall>e \<in> set (session_events j' s). ev_seq e \<le> mj_next_seq j'"
      using old(2) new(2,3) by (fastforce simp: se)
  qed
qed

section \<open>Descendants\<close>

text \<open>Every edge is stored under its child.\<close>

definition edges_ok :: "(string \<times> spawn_edge) list \<Rightarrow> bool" where
  "edges_ok edges = (bt_wf edges \<and> (\<forall>(k, e) \<in> set edges. ed_child e = k))"

definition edge_rel :: "(string \<times> spawn_edge) list \<Rightarrow> (string \<times> string) set" where
  "edge_rel edges = (\<lambda>(k, e). (ed_parent e, ed_child e)) ` set edges"

text \<open>The state of the loop, \<open>done\<close> the sessions popped so far.\<close>

definition desc_inv :: "(string \<times> spawn_edge) list \<Rightarrow> string \<Rightarrow> string set \<Rightarrow> string list \<Rightarrow> spawn_edge list \<Rightarrow> bool" where
  "desc_inv edges root popped fr acc =
     (finite popped \<and> distinct fr \<and> set fr \<inter> popped = {}
      \<and> popped \<union> set fr = insert root (ed_child ` set acc)
      \<and> distinct (map ed_child acc)
      \<and> set acc = {e \<in> snd ` set edges. ed_parent e \<in> popped}
      \<and> (\<forall>x \<in> popped \<union> set fr. (root, x) \<in> (edge_rel edges)\<^sup>*))"

lemma desc_invD:
  assumes "desc_inv edges root popped fr acc"
  shows "finite popped" "distinct fr" "set fr \<inter> popped = {}"
    and "popped \<union> set fr = insert root (ed_child ` set acc)" "distinct (map ed_child acc)"
    and "set acc = {e \<in> snd ` set edges. ed_parent e \<in> popped}"
    and "x \<in> popped \<union> set fr \<Longrightarrow> (root, x) \<in> (edge_rel edges)\<^sup>*"
  using assms unfolding desc_inv_def by blast+

lemma list_children_set: "set (list_children edges p) = {e \<in> snd ` set edges. ed_parent e = p}"
  by (auto simp: list_children_def)

lemma edges_ok_child_inj:
  assumes "edges_ok edges" "e \<in> snd ` set edges" "e' \<in> snd ` set edges" "ed_child e = ed_child e'"
  shows "e = e'"
proof -
  have key: "(ed_child x, x) \<in> set edges" if "x \<in> snd ` set edges" for x
    using that assms(1) by (auto simp: edges_ok_def)
  from key [OF assms(2)] key [OF assms(3)] assms(1,4) show ?thesis by (metis bt_lookup_in edges_ok_def option.inject)
qed

lemma list_children_distinct:
  assumes "edges_ok edges"
  shows "distinct (map ed_child (list_children edges p))"
proof -
  have "map ed_child (map snd edges) = map fst edges" using assms by (auto simp: edges_ok_def)
  moreover have "distinct (map fst edges)" using assms by (simp add: edges_ok_def bt_wf_def)
  ultimately have "distinct (map ed_child (map snd edges))" by argo
  then show ?thesis unfolding list_children_def by (rule distinct_map_filter)
qed

lemma desc_inv_step:
  assumes ok: "edges_ok edges" and acyc: "(root, root) \<notin> (edge_rel edges)\<^sup>+"
    and inv: "desc_inv edges root popped (p # fr) acc"
  shows "desc_inv edges root (insert p popped) (rev (map ed_child (list_children edges p)) @ fr) (acc @ list_children edges p)"
proof -
  let ?ch = "list_children edges p"
  note D = desc_invD [OF inv]
  have p: "p \<notin> popped" "p \<notin> set fr" using D(2,3) by auto
  have reach: "(root, p) \<in> (edge_rel edges)\<^sup>*" using D(7) by simp
  note acc = D(6)
  have cover: "insert p popped \<union> set fr = insert root (ed_child ` set acc)" using D(4) by simp
  have step: "(p, c) \<in> edge_rel edges" if "c \<in> ed_child ` set ?ch" for c
    using that by (force simp: list_children_set edge_rel_def)
  have new: "c \<notin> insert root (ed_child ` set acc)" if c: "c \<in> ed_child ` set ?ch" for c
  proof
    assume "c \<in> insert root (ed_child ` set acc)"
    then show False
    proof
      assume "c = root"
      with step [OF c] reach acyc show False by (meson rtrancl_into_trancl1)
    next
      assume "c \<in> ed_child ` set acc"
      then obtain e e' where "e \<in> set acc" "e' \<in> set ?ch" "ed_child e = ed_child e'" using c by (metis imageE)
      moreover from this have "ed_parent e \<in> popped" "ed_parent e' = p" "e \<in> snd ` set edges" "e' \<in> snd ` set edges"
        unfolding acc list_children_set by simp_all
      ultimately show False using edges_ok_child_inj [OF ok, of e e'] p(1) by simp
    qed
  qed
  have fresh: "ed_child ` set ?ch \<inter> (insert p popped \<union> set fr) = {}" using new cover by blast
  show ?thesis unfolding desc_inv_def
  proof (intro conjI)
    show "finite (insert p popped)" using D(1) by simp
    show "distinct (rev (map ed_child ?ch) @ fr)"
    proof -
      have "ed_child ` set ?ch \<inter> set fr = {}" using fresh by blast
      then show ?thesis using D(2) list_children_distinct [OF ok, of p] by simp
    qed
    show "set (rev (map ed_child ?ch) @ fr) \<inter> insert p popped = {}"
    proof -
      have "ed_child ` set ?ch \<inter> insert p popped = {}" using fresh by blast
      moreover have "set fr \<inter> insert p popped = {}" using D(3) p(2) by auto
      ultimately show ?thesis by (simp only: set_append set_rev set_map Int_Un_distrib2 Un_empty_left)
    qed
    show "insert p popped \<union> set (rev (map ed_child ?ch) @ fr) = insert root (ed_child ` set (acc @ ?ch))"
      using cover unfolding set_append set_rev set_map image_Un by blast
    show "distinct (map ed_child (acc @ ?ch))"
      using D(5) new list_children_distinct [OF ok, of p] by auto
    show "set (acc @ ?ch) = {e \<in> snd ` set edges. ed_parent e \<in> insert p popped}"
      unfolding set_append acc list_children_set by blast
    show "\<forall>x \<in> insert p popped \<union> set (rev (map ed_child ?ch) @ fr). (root, x) \<in> (edge_rel edges)\<^sup>*"
    proof
      fix x assume "x \<in> insert p popped \<union> set (rev (map ed_child ?ch) @ fr)"
      then consider "x \<in> popped \<union> set (p # fr)" | "x \<in> ed_child ` set ?ch" by auto
      then show "(root, x) \<in> (edge_rel edges)\<^sup>*"
        using D(7) step reach by cases (auto intro: rtrancl_into_rtrancl)
    qed
  qed
qed

lemma desc_inv_room:
  assumes "desc_inv edges root popped (p # fr) acc"
  shows "card popped \<le> length edges"
proof -
  note D = desc_invD [OF assms]
  have "set acc \<subseteq> snd ` set edges" using D(6) by blast
  then have "card (set acc) \<le> card (snd ` set edges)" by (simp add: card_mono)
  also have "\<dots> \<le> length edges" by (meson card_image_le card_length List.finite_set order.trans)
  finally have acc: "card (ed_child ` set acc) \<le> length edges"
    by (meson card_image_le List.finite_set order.trans)
  have "insert p popped \<subseteq> insert root (ed_child ` set acc)" using D(4) by auto
  then have "card (insert p popped) \<le> card (insert root (ed_child ` set acc))" by (simp add: card_mono)
  also have "\<dots> \<le> Suc (card (ed_child ` set acc))" by (rule card_insert_le_m1) simp_all
  finally show ?thesis using acc D(1,3) by simp
qed

lemma desc_inv_result:
  assumes "desc_inv edges root popped [] acc" "(root, root) \<notin> (edge_rel edges)\<^sup>+"
  shows "ed_child ` set acc = {c. (root, c) \<in> (edge_rel edges)\<^sup>+}"
proof
  note D = desc_invD [OF assms(1)]
  have popped: "popped = insert root (ed_child ` set acc)" using D(4) by simp
  show "ed_child ` set acc \<subseteq> {c. (root, c) \<in> (edge_rel edges)\<^sup>+}"
  proof
    fix c assume "c \<in> ed_child ` set acc"
    then obtain e where "e \<in> set acc" and c: "c = ed_child e" by auto
    then have e: "e \<in> snd ` set edges" and p: "ed_parent e \<in> popped" unfolding D(6) by simp_all
    from e c have "(ed_parent e, c) \<in> edge_rel edges" by (force simp: edge_rel_def)
    moreover have "(root, ed_parent e) \<in> (edge_rel edges)\<^sup>*" using D(7) p by simp
    ultimately show "c \<in> {c. (root, c) \<in> (edge_rel edges)\<^sup>+}" by (simp add: rtrancl_into_trancl1)
  qed
  have "x \<in> popped \<and> (x = root \<or> x \<in> ed_child ` set acc)" if "(root, x) \<in> (edge_rel edges)\<^sup>*" for x
    using that
  proof (induction rule: rtrancl_induct)
    case base
    show ?case using popped by simp
  next
    case (step y z)
    from step.hyps(2) obtain e where "e \<in> snd ` set edges" "ed_parent e = y" "ed_child e = z"
      by (force simp: edge_rel_def)
    with step.IH have "e \<in> set acc" unfolding D(6) by simp
    with \<open>ed_child e = z\<close> have "z \<in> ed_child ` set acc" by auto
    with popped show ?case by simp
  qed
  then show "{c. (root, c) \<in> (edge_rel edges)\<^sup>+} \<subseteq> ed_child ` set acc"
    using assms(2) by (auto dest: trancl_into_rtrancl)
qed

lemma descendants_loop_correct:
  assumes "edges_ok edges" "(root, root) \<notin> (edge_rel edges)\<^sup>+"
  shows "desc_inv edges root popped fr acc \<Longrightarrow> length edges < card popped + fuel \<Longrightarrow>
    \<exists>ds. descendants_loop fuel edges fr acc = Some ds
       \<and> ed_child ` set ds = {c. (root, c) \<in> (edge_rel edges)\<^sup>+} \<and> distinct (map ed_child ds)"
proof (induction fuel arbitrary: popped fr acc)
  case 0
  have "fr = []"
  proof (rule ccontr)
    assume "fr \<noteq> []"
    then obtain p fr' where "fr = p # fr'" by (cases fr) auto
    with desc_inv_room 0 show False by fastforce
  qed
  with 0 desc_inv_result [OF _ assms(2)] desc_invD(5) show ?case by auto
next
  case (Suc fuel)
  show ?case
  proof (cases fr)
    case Nil
    with Suc.prems desc_inv_result [OF _ assms(2)] desc_invD(5) show ?thesis by auto
  next
    case (Cons p fr')
    with Suc.prems have i: "desc_inv edges root popped (p # fr') acc" by simp
    have "card (insert p popped) = Suc (card popped)" using desc_invD(1,3) [OF i] by simp
    with Suc.IH [OF desc_inv_step [OF assms i]] Suc.prems(2) Cons show ?thesis by (simp add: Let_def)
  qed
qed

text \<open>C27. Listing the descendants of a session returns, and returns each of them once, when no cycle of spawn
  edges goes through it: as many rounds as there are edges, and one more, are enough.
\<close>

theorem descendants_listed:
  assumes "edges_ok edges" "(root, root) \<notin> (edge_rel edges)\<^sup>+"
  shows "\<exists>ds. list_descendants (Suc (length edges)) edges root = Some ds
    \<and> ed_child ` set ds = {c. (root, c) \<in> (edge_rel edges)\<^sup>+} \<and> distinct (map ed_child ds)"
proof -
  have "desc_inv edges root {} [root] []" by (simp add: desc_inv_def)
  then show ?thesis
    unfolding list_descendants_def by (rule descendants_loop_correct [OF assms]) simp
qed

definition sample_edges :: "(string \<times> spawn_edge) list" where
  "sample_edges = map (\<lambda>(p, c). (c, \<lparr> ed_parent = p, ed_child = c, ed_status = EdgeOpen, ed_path = None,
     ed_nickname = None, ed_role = None \<rparr>)) [(''r'', ''a''), (''a'', ''b''), (''r'', ''c'')]"

lemma sample_edges_acyclic: "edges_ok sample_edges" "(''r'', ''r'') \<notin> (edge_rel sample_edges)\<^sup>+"
proof -
  show "edges_ok sample_edges" by (simp add: sample_edges_def edges_ok_def bt_wf_def)
  have "x \<noteq> ''r''" if "(y, x) \<in> edge_rel sample_edges" for x y
    using that by (auto simp: sample_edges_def edge_rel_def)
  then show "(''r'', ''r'') \<notin> (edge_rel sample_edges)\<^sup>+" by (metis tranclE)
qed

theorem descendants_listed_witness:
  "\<exists>ds. list_descendants 4 sample_edges ''r'' = Some ds \<and> map ed_child ds = [''a'', ''c'', ''b'']
    \<and> distinct (map ed_child ds)"
proof -
  have n: "Suc (length sample_edges) = 4" by (simp add: sample_edges_def)
  have "\<exists>ds. list_descendants 4 sample_edges ''r'' = Some ds \<and> map ed_child ds = [''a'', ''c'', ''b'']"
    by (simp add: list_descendants_def sample_edges_def list_children_def eval_nat_numeral)
  with descendants_listed [OF sample_edges_acyclic] n show ?thesis by auto
qed

text \<open>On a cycle the loop goes on: no fuel is enough.\<close>

lemma cyclic_descendants_diverge:
  assumes "edges = [(''a'', \<lparr> ed_parent = ''a'', ed_child = ''a'', ed_status = EdgeOpen, ed_path = None,
     ed_nickname = None, ed_role = None \<rparr>)]"
  shows "list_descendants fuel edges ''a'' = None"
proof -
  have "list_children edges ''a'' = map snd edges" by (simp add: list_children_def assms)
  then have "descendants_loop fuel edges [''a''] acc = None" for acc
    by (induction fuel arbitrary: acc) (simp_all add: assms)
  then show ?thesis by (simp add: list_descendants_def)
qed

end
