(* ===== verification/RtLive.thy ===== *)
theory RtLive
  imports RtMailbox RtJournal
begin

text \<open>
  The live state of an agent thread (\<open>crates/browser-use-runtime/src/lib.rs\<close>, \<open>AgentLiveState\<close>) and
  what a restart makes of the journal (\<open>materialized_live_state_from_events\<close>,
  \<open>lost_live_resources_from_events\<close>).
\<close>

section \<open>Live state\<close>

record activity =
  ac_key :: string
  ac_kind :: string
  ac_name :: "string option"
  ac_tool_call :: "string option"
  ac_last_delta :: "string option"

record model_request =
  mr_model :: "string option"
  mr_provider :: "string option"
  mr_turn_idx :: "int option"
  mr_attempt :: "nat option"
  mr_status :: string
  mr_retry_count :: nat
  mr_last_error :: "string option"

record live_state =
  lv_accepted_input :: nat
  lv_accepted_followup :: nat
  lv_pending_prompt :: nat
  lv_last_accepted_prompt :: int
  lv_last_consumed_prompt :: int
  lv_pending_mailbox :: nat
  lv_pending_trigger :: nat
  lv_last_enqueued :: nat
  lv_last_wait_observed :: nat
  lv_last_delivered :: nat
  lv_last_consumed :: nat
  lv_run :: "string option"
  lv_cancel_requested :: bool
  lv_active_items :: "activity list"
  lv_model_delta :: "string option"
  lv_thinking_delta :: "string option"
  lv_model_request :: "model_request option"
  lv_last_usage :: "json option"
  lv_total_usage :: "json option"
  lv_context_window :: "int option"
  lv_compaction_ordinal :: nat
  lv_prefill_tokens :: "int option"
  lv_prefill_source :: "string option"
  lv_final_result :: "string option"
  lv_failure :: "string option"

definition live_default :: live_state where
  "live_default =
     \<lparr> lv_accepted_input = 0, lv_accepted_followup = 0, lv_pending_prompt = 0, lv_last_accepted_prompt = 0,
       lv_last_consumed_prompt = 0, lv_pending_mailbox = 0, lv_pending_trigger = 0, lv_last_enqueued = 0,
       lv_last_wait_observed = 0, lv_last_delivered = 0, lv_last_consumed = 0, lv_run = None,
       lv_cancel_requested = False, lv_active_items = [], lv_model_delta = None, lv_thinking_delta = None,
       lv_model_request = None, lv_last_usage = None, lv_total_usage = None, lv_context_window = None,
       lv_compaction_ordinal = 1, lv_prefill_tokens = None, lv_prefill_source = None, lv_final_result = None,
       lv_failure = None \<rparr>"

definition begin_run :: "live_state \<Rightarrow> string \<Rightarrow> live_state" where
  "begin_run s r = s\<lparr> lv_run := Some r, lv_cancel_requested := False \<rparr>"

definition request_cancel :: "live_state \<Rightarrow> live_state" where
  "request_cancel s = s\<lparr> lv_cancel_requested := True \<rparr>"

definition finish_run :: "live_state \<Rightarrow> live_state" where
  "finish_run s = s\<lparr> lv_run := None \<rparr>"

definition live_close :: "live_state \<Rightarrow> live_state" where
  "live_close s = s\<lparr> lv_run := None \<rparr>"

definition record_accepted_input :: "live_state \<Rightarrow> mailbox_item \<Rightarrow> live_state" where
  "record_accepted_input s it =
     (case mi_kind it of
        MkFollowup \<Rightarrow> s\<lparr> lv_accepted_followup := sat_add1 (lv_accepted_followup s) \<rparr>
      | MkInput \<Rightarrow> s\<lparr> lv_accepted_input := sat_add1 (lv_accepted_input s) \<rparr>
      | _ \<Rightarrow> s)"

definition has_accepted_prompt_input_seq :: "live_state \<Rightarrow> int option \<Rightarrow> bool" where
  "has_accepted_prompt_input_seq s q = (case q of None \<Rightarrow> False | Some n \<Rightarrow> n \<le> lv_last_accepted_prompt s)"

definition record_prompt_input_accepted :: "live_state \<Rightarrow> int option \<Rightarrow> live_state" where
  "record_prompt_input_accepted s q =
     s\<lparr> lv_accepted_input := sat_add1 (lv_accepted_input s), lv_pending_prompt := sat_add1 (lv_pending_prompt s),
        lv_last_accepted_prompt :=
          (case q of None \<Rightarrow> lv_last_accepted_prompt s | Some n \<Rightarrow> max (lv_last_accepted_prompt s) n) \<rparr>"

definition has_pending_prompt_input :: "live_state \<Rightarrow> bool" where
  "has_pending_prompt_input s = (0 < lv_pending_prompt s)"

definition record_prompt_input_consumed :: "live_state \<Rightarrow> bool \<times> live_state" where
  "record_prompt_input_consumed s =
     (if lv_pending_prompt s = 0 then (False, s)
      else (True,
            s\<lparr> lv_pending_prompt := lv_pending_prompt s - 1,
               lv_last_consumed_prompt := max (lv_last_consumed_prompt s) (lv_last_accepted_prompt s) \<rparr>))"

definition record_mailbox_enqueued :: "live_state \<Rightarrow> mailbox_item \<Rightarrow> live_state" where
  "record_mailbox_enqueued s it =
     s\<lparr> lv_pending_mailbox := sat_add1 (lv_pending_mailbox s),
        lv_pending_trigger := (if mi_trigger it then sat_add1 (lv_pending_trigger s) else lv_pending_trigger s),
        lv_last_enqueued := max (lv_last_enqueued s) (mi_seq it) \<rparr>"

definition record_mailbox_delivered :: "live_state \<Rightarrow> mailbox_item list \<Rightarrow> live_state" where
  "record_mailbox_delivered s its = s\<lparr> lv_last_delivered := max (lv_last_delivered s) (max_seq its) \<rparr>"

definition record_wait_observed_mailbox :: "live_state \<Rightarrow> mailbox_item \<Rightarrow> live_state" where
  "record_wait_observed_mailbox s it = s\<lparr> lv_last_wait_observed := max (lv_last_wait_observed s) (mi_seq it) \<rparr>"

definition record_mailbox_consumed :: "live_state \<Rightarrow> mailbox_item list \<Rightarrow> live_state" where
  "record_mailbox_consumed s its =
     s\<lparr> lv_pending_mailbox := lv_pending_mailbox s - length its,
        lv_pending_trigger := lv_pending_trigger s - length (filter mi_trigger its),
        lv_last_consumed := max (lv_last_consumed s) (max_seq its) \<rparr>"

definition record_estimated_compaction_prefill :: "live_state \<Rightarrow> int \<Rightarrow> live_state" where
  "record_estimated_compaction_prefill s tokens =
     (if lv_prefill_source s = Some ''server_observed'' then s
      else s\<lparr> lv_prefill_tokens := Some (max tokens 0), lv_prefill_source := Some ''estimated'' \<rparr>)"

definition record_server_observed_compaction_prefill :: "live_state \<Rightarrow> int \<Rightarrow> live_state" where
  "record_server_observed_compaction_prefill s tokens =
     (if lv_prefill_source s = Some ''server_observed'' then s
      else s\<lparr> lv_prefill_tokens := Some (max tokens 0), lv_prefill_source := Some ''server_observed'' \<rparr>)"

definition start_next_compaction_window :: "live_state \<Rightarrow> live_state" where
  "start_next_compaction_window s =
     s\<lparr> lv_compaction_ordinal := sat_add1 (max (lv_compaction_ordinal s) 1), lv_prefill_tokens := None,
        lv_prefill_source := None \<rparr>"

section \<open>Replay of the journal\<close>

record materialized =
  mz_pending :: "mailbox_item list"
  mz_last_enqueued :: nat
  mz_last_wait_observed :: nat
  mz_last_delivered :: nat
  mz_last_consumed :: nat
  mz_accepted_prompt :: nat
  mz_pending_prompt :: nat
  mz_last_accepted_prompt :: int
  mz_last_consumed_prompt :: int

definition runtime_payload :: "json \<Rightarrow> json" where
  "runtime_payload p = unwrap_or p (json_get p ''payload'')"

definition mailbox_item_from_event :: "event_record \<Rightarrow> mailbox_item option" where
  "mailbox_item_from_event e = Option.bind (json_get (runtime_payload (ev_payload e)) ''mailbox_item'') item_of_json"

definition u64_values :: "json list \<Rightarrow> nat list" where
  "u64_values vs = List.map_filter (\<lambda>v. map_option nat (as_u64 v)) vs"

definition mailbox_seqs_from_event :: "event_record \<Rightarrow> nat list" where
  "mailbox_seqs_from_event e =
     (let p = runtime_payload (ev_payload e) in
      case get_array p ''mailbox_seqs'' of
        Some vs \<Rightarrow> u64_values vs
      | None \<Rightarrow>
          (case get_array p ''mailbox_items'' of
             Some vs \<Rightarrow> List.map_filter (\<lambda>v. map_option nat (get_u64 v ''seq'')) vs
           | None \<Rightarrow>
               (case Option.bind (json_get p ''mailbox_item'') (\<lambda>v. get_u64 v ''seq'') of
                  None \<Rightarrow> [] | Some n \<Rightarrow> [nat n])))"

definition prompt_source_event_seq :: "event_record \<Rightarrow> int option" where
  "prompt_source_event_seq e = get_i64 (runtime_payload (ev_payload e)) ''source_event_seq''"

definition wait_observed_seq :: "json \<Rightarrow> nat option" where
  "wait_observed_seq p =
     map_option nat (Option.bind
       (or_else (Option.bind (json_get p ''payload'') (\<lambda>q. json_get q ''mailbox_seq'')) (json_get p ''mailbox_seq''))
       as_u64)"

text \<open>The local variables of the loop, and its body.\<close>

record mail_replay =
  rp_enqueued :: "mailbox_item list"
  rp_consumed :: "nat list"
  rp_prompts :: "int option list"
  rp_prompt_consumed :: nat
  rp_last_enqueued :: nat
  rp_last_wait :: nat
  rp_last_delivered :: nat
  rp_last_consumed :: nat
  rp_accepted :: nat
  rp_last_accepted_prompt :: int
  rp_last_consumed_prompt :: int

definition replay_start :: mail_replay where
  "replay_start =
     \<lparr> rp_enqueued = [], rp_consumed = [], rp_prompts = [], rp_prompt_consumed = 0, rp_last_enqueued = 0,
       rp_last_wait = 0, rp_last_delivered = 0, rp_last_consumed = 0, rp_accepted = 0,
       rp_last_accepted_prompt = 0, rp_last_consumed_prompt = 0 \<rparr>"

definition replay_event :: "mail_replay \<Rightarrow> event_record \<Rightarrow> mail_replay" where
  "replay_event r e =
     (let t = ev_type e in
      if t = ''mailbox.enqueued'' then
        (case mailbox_item_from_event e of
           None \<Rightarrow> r
         | Some it \<Rightarrow> r\<lparr> rp_last_enqueued := max (rp_last_enqueued r) (mi_seq it), rp_enqueued := rp_enqueued r @ [it] \<rparr>)
      else if t = ''mailbox.delivered'' then
        r\<lparr> rp_last_delivered := foldl max (rp_last_delivered r) (mailbox_seqs_from_event e) \<rparr>
      else if t = ''wait_agent.completed'' then
        (case wait_observed_seq (ev_payload e) of
           None \<Rightarrow> r
         | Some n \<Rightarrow> r\<lparr> rp_last_wait := max (rp_last_wait r) n \<rparr>)
      else if t = ''mailbox.consumed'' then
        r\<lparr> rp_last_consumed := foldl max (rp_last_consumed r) (mailbox_seqs_from_event e),
           rp_consumed := rp_consumed r @ mailbox_seqs_from_event e \<rparr>
      else if t = ''agent.input.accepted'' then
        r\<lparr> rp_accepted := sat_add1 (rp_accepted r),
           rp_last_accepted_prompt := max (rp_last_accepted_prompt r) (unwrap_or 0 (prompt_source_event_seq e)),
           rp_prompts := rp_prompts r @ [prompt_source_event_seq e] \<rparr>
      else if t = ''agent.input.consumed'' then
        r\<lparr> rp_prompt_consumed := sat_add1 (rp_prompt_consumed r),
           rp_last_consumed_prompt := max (rp_last_consumed_prompt r) (unwrap_or 0 (prompt_source_event_seq e)) \<rparr>
      else r)"

definition replay_finish :: "mail_replay \<Rightarrow> materialized" where
  "replay_finish r =
     \<lparr> mz_pending = filter (\<lambda>it. mi_seq it \<notin> set (rp_consumed r)) (rp_enqueued r),
       mz_last_enqueued = rp_last_enqueued r, mz_last_wait_observed = rp_last_wait r,
       mz_last_delivered = rp_last_delivered r, mz_last_consumed = rp_last_consumed r,
       mz_accepted_prompt = rp_accepted r,
       mz_pending_prompt =
         (if rp_last_consumed_prompt r < rp_last_accepted_prompt r
          then length (filter (\<lambda>q. case q of None \<Rightarrow> True | Some n \<Rightarrow> rp_last_consumed_prompt r < n) (rp_prompts r))
          else rp_accepted r - rp_prompt_consumed r),
       mz_last_accepted_prompt = rp_last_accepted_prompt r, mz_last_consumed_prompt = rp_last_consumed_prompt r \<rparr>"

definition materialized_live_state_from_events :: "event_record list \<Rightarrow> materialized" where
  "materialized_live_state_from_events es = replay_finish (foldl replay_event replay_start es)"

definition materialize_from_replay :: "live_state \<Rightarrow> materialized \<Rightarrow> live_state" where
  "materialize_from_replay s z =
     s\<lparr> lv_accepted_input := mz_accepted_prompt z, lv_pending_prompt := mz_pending_prompt z,
        lv_last_accepted_prompt := mz_last_accepted_prompt z, lv_last_consumed_prompt := mz_last_consumed_prompt z,
        lv_pending_mailbox := length (mz_pending z),
        lv_pending_trigger := length (filter mi_trigger (mz_pending z)),
        lv_last_enqueued := mz_last_enqueued z, lv_last_wait_observed := mz_last_wait_observed z,
        lv_last_delivered := mz_last_delivered z, lv_last_consumed := mz_last_consumed z \<rparr>"

end
