(* ===== verification/RtAgents.thy ===== *)
theory RtAgents
  imports RtLive RtBrowser RtScheduler
begin

text \<open>
  The runtime's state and its mail (\<open>crates/browser-use-runtime/src/lib.rs\<close>, \<open>AgentThread\<close>,
  \<open>AgentManager\<close>, \<open>ActiveRunRegistry\<close>, and of \<open>BrowserUseRuntime\<close> the operations on prompt inputs
  and mailboxes). The journal is a trait object: a record of its operations over its state. An operation
  takes the state and returns a result and the state after it; the events published are a list, in order.
\<close>

section \<open>State\<close>

text \<open>What the runtime calls of the journal (\<open>JournalSink\<close>, \<open>JournalReader\<close>,
  \<open>LiveThreadPersistence\<close>, \<open>StateIndex\<close>).\<close>

record 'j persistence =
  p_append_event :: "'j \<Rightarrow> runtime_event \<Rightarrow> (runtime_error + int option) \<times> 'j"
  p_append_session :: "'j \<Rightarrow> string \<Rightarrow> string \<Rightarrow> json \<Rightarrow> (runtime_error + int option) \<times> 'j"
  p_create :: "'j \<Rightarrow> create_thread_request \<Rightarrow> (runtime_error + session_meta) \<times> 'j"
  p_load :: "'j \<Rightarrow> string \<Rightarrow> runtime_error + session_meta option"
  p_events :: "'j \<Rightarrow> string \<Rightarrow> runtime_error + event_record list"
  p_finish_edge :: "'j \<Rightarrow> string \<Rightarrow> edge_status \<Rightarrow> (runtime_error + unit) \<times> 'j"
  p_close_edge :: "'j \<Rightarrow> string \<Rightarrow> string \<Rightarrow> (runtime_error + unit) \<times> 'j"
  p_descendants :: "'j \<Rightarrow> string \<Rightarrow> runtime_error + spawn_edge list"

record resource_slot =
  rs_type :: string
  rs_cleanup :: nat

record agent_thread =
  th_agent :: string
  th_session :: string
  th_root :: string
  th_cwd :: string
  th_parent_agent :: "string option"
  th_parent_session :: "string option"
  th_path :: string
  th_nickname :: "string option"
  th_role :: "string option"
  th_status :: thread_status
  th_mailbox :: rt_mailbox
  th_resources :: "(string \<times> resource_slot) list"
  th_live :: live_state

record agent_control =
  cn_root :: string
  cn_agent :: string
  cn_session :: string
  cn_scheduler :: scheduler

record 'j runtime =
  rn_journal :: 'j
  rn_threads :: "(string \<times> agent_thread) list"
  rn_session_agents :: "(string \<times> string) list"
  rn_controls :: "(string \<times> agent_control) list"
  rn_browsers :: browsers
  rn_runs :: "(string \<times> nat) list"
  rn_cancelled :: "nat list"
  rn_published :: "runtime_event list"
  rn_draws :: nat

definition runtime_new :: "'j \<Rightarrow> 'j runtime" where
  "runtime_new j =
     \<lparr> rn_journal = j, rn_threads = [], rn_session_agents = [], rn_controls = [], rn_browsers = [], rn_runs = [],
       rn_cancelled = [], rn_published = [], rn_draws = 0 \<rparr>"

text \<open>Operations in sequence: an error ends the operation and keeps the state reached.\<close>

type_synonym ('j, 'a) action = "'j runtime \<Rightarrow> (runtime_error + 'a) \<times> 'j runtime"

definition ret :: "'a \<Rightarrow> ('j, 'a) action" where
  "ret x s = (Inr x, s)"

definition fail :: "runtime_error \<Rightarrow> ('j, 'a) action" where
  "fail e s = (Inl e, s)"

definition bnd :: "('j, 'a) action \<Rightarrow> ('a \<Rightarrow> ('j, 'b) action) \<Rightarrow> ('j, 'b) action" where
  "bnd m f s = (case m s of (Inl e, s') \<Rightarrow> (Inl e, s') | (Inr x, s') \<Rightarrow> f x s')"

definition seqn :: "('j, 'a) action \<Rightarrow> ('j, 'b) action \<Rightarrow> ('j, 'b) action" where
  "seqn m n = bnd m (\<lambda>_. n)"

definition of_result :: "(runtime_error + 'a) \<Rightarrow> ('j, 'a) action" where
  "of_result r s = (r, s)"

definition modify :: "('j runtime \<Rightarrow> 'j runtime) \<Rightarrow> ('j, unit) action" where
  "modify f s = (Inr (), f s)"

definition reading :: "('j runtime \<Rightarrow> runtime_error + 'a) \<Rightarrow> ('j, 'a) action" where
  "reading f s = (f s, s)"

definition on_journal :: "('j \<Rightarrow> (runtime_error + 'a) \<times> 'j) \<Rightarrow> ('j, 'a) action" where
  "on_journal f s = (let (r, j) = f (rn_journal s) in (r, s\<lparr> rn_journal := j \<rparr>))"

section \<open>Threads\<close>

definition thread_new ::
  "string \<Rightarrow> string \<Rightarrow> string \<Rightarrow> string \<Rightarrow> string option \<Rightarrow> string option \<Rightarrow> string \<Rightarrow> string option \<Rightarrow> string option \<Rightarrow> agent_thread" where
  "thread_new a sid root cwd pa ps path nick role =
     \<lparr> th_agent = a, th_session = sid, th_root = root, th_cwd = cwd, th_parent_agent = pa, th_parent_session = ps,
       th_path = path, th_nickname = nick, th_role = role, th_status = TsCreated, th_mailbox = rt_mailbox_new,
       th_resources = [], th_live = live_default \<rparr>"

definition thread :: "string \<Rightarrow> ('j, agent_thread) action" where
  "thread a = reading (\<lambda>s. case map_of (rn_threads s) a of None \<Rightarrow> Inl (UnknownAgent a) | Some t \<Rightarrow> Inr t)"

definition thread_for_session :: "string \<Rightarrow> ('j, agent_thread) action" where
  "thread_for_session sid =
     bnd (reading (\<lambda>s. case map_of (rn_session_agents s) sid of None \<Rightarrow> Inl (UnknownAgent sid) | Some a \<Rightarrow> Inr a)) thread"

definition control_for_thread :: "agent_thread \<Rightarrow> ('j, agent_control) action" where
  "control_for_thread t =
     reading (\<lambda>s. case map_of (rn_controls s) (th_root t) of None \<Rightarrow> Inl (UnknownAgent (th_agent t)) | Some c \<Rightarrow> Inr c)"

definition insert_thread :: "agent_thread \<Rightarrow> 'j runtime \<Rightarrow> 'j runtime" where
  "insert_thread t s =
     s\<lparr> rn_session_agents := bt_insert (th_session t) (th_agent t) (rn_session_agents s),
        rn_threads := bt_insert (th_agent t) t (rn_threads s) \<rparr>"

definition insert_control :: "agent_control \<Rightarrow> 'j runtime \<Rightarrow> 'j runtime" where
  "insert_control c s = s\<lparr> rn_controls := bt_insert (cn_root c) c (rn_controls s) \<rparr>"

text \<open>A change of the mailbox, the live state or the status of a thread in place.\<close>

definition update_thread :: "string \<Rightarrow> (agent_thread \<Rightarrow> agent_thread) \<Rightarrow> 'j runtime \<Rightarrow> 'j runtime" where
  "update_thread a f s =
     (case map_of (rn_threads s) a of
        None \<Rightarrow> s
      | Some t \<Rightarrow> s\<lparr> rn_threads := bt_insert a (f t) (rn_threads s) \<rparr>)"

definition set_status :: "string \<Rightarrow> thread_status \<Rightarrow> 'j runtime \<Rightarrow> 'j runtime" where
  "set_status a st = update_thread a (\<lambda>t. t\<lparr> th_status := st \<rparr>)"

definition on_live :: "string \<Rightarrow> (live_state \<Rightarrow> live_state) \<Rightarrow> 'j runtime \<Rightarrow> 'j runtime" where
  "on_live a f = update_thread a (\<lambda>t. t\<lparr> th_live := f (th_live t) \<rparr>)"

definition on_mailbox :: "string \<Rightarrow> (rt_mailbox \<Rightarrow> rt_mailbox) \<Rightarrow> 'j runtime \<Rightarrow> 'j runtime" where
  "on_mailbox a f = update_thread a (\<lambda>t. t\<lparr> th_mailbox := f (th_mailbox t) \<rparr>)"

section \<open>Events\<close>

definition new_event :: "id_supply \<Rightarrow> runtime_event_kind \<Rightarrow> durability \<Rightarrow> ('j, runtime_event) action" where
  "new_event sp k d s =
     (Inr (runtime_event_new (sp_id sp (rn_draws s)) (sp_now sp (rn_draws s)) k d), s\<lparr> rn_draws := Suc (rn_draws s) \<rparr>)"

definition fresh_id :: "id_supply \<Rightarrow> ('j, string) action" where
  "fresh_id sp s = (Inr (sp_id sp (rn_draws s)), s\<lparr> rn_draws := Suc (rn_draws s) \<rparr>)"

text \<open>An event of a thread: its session, agent and root.\<close>

definition thread_event ::
  "id_supply \<Rightarrow> runtime_event_kind \<Rightarrow> durability \<Rightarrow> agent_thread \<Rightarrow> json \<Rightarrow> ('j, runtime_event) action" where
  "thread_event sp k d t payload =
     bnd (new_event sp k d)
       (\<lambda>e. ret (e\<lparr> re_session := Some (th_session t), re_agent := Some (th_agent t), re_root := Some (th_root t),
                  re_payload := payload \<rparr>))"

definition append_event :: "'j persistence \<Rightarrow> runtime_event \<Rightarrow> ('j, int option) action" where
  "append_event P e = on_journal (\<lambda>j. p_append_event P j e)"

definition publish :: "runtime_event \<Rightarrow> ('j, unit) action" where
  "publish e = modify (\<lambda>s. s\<lparr> rn_published := rn_published s @ [e] \<rparr>)"

definition publish_after_barrier :: "'j persistence \<Rightarrow> runtime_event \<Rightarrow> ('j, int option) action" where
  "publish_after_barrier P e = bnd (append_event P e) (\<lambda>n. seqn (publish e) (ret n))"

section \<open>Active runs\<close>

definition register_run :: "string \<Rightarrow> nat \<Rightarrow> 'j runtime \<Rightarrow> 'j runtime" where
  "register_run sid token s = s\<lparr> rn_runs := bt_insert sid token (rn_runs s) \<rparr>"

definition unregister_run :: "string \<Rightarrow> 'j runtime \<Rightarrow> 'j runtime" where
  "unregister_run sid s = s\<lparr> rn_runs := bt_remove sid (rn_runs s) \<rparr>"

definition run_token :: "'j runtime \<Rightarrow> string \<Rightarrow> nat option" where
  "run_token s sid = map_of (rn_runs s) sid"

definition cancel_active_run :: "string \<Rightarrow> 'j runtime \<Rightarrow> bool \<times> 'j runtime" where
  "cancel_active_run sid s =
     (case run_token s sid of None \<Rightarrow> (False, s) | Some k \<Rightarrow> (True, s\<lparr> rn_cancelled := k # rn_cancelled s \<rparr>))"

section \<open>Resources\<close>

text \<open>\<open>try_get_or_insert_with\<close>: a resource found must have the type asked for. A slot keeps what its
  clean-up will count.\<close>

definition try_get_or_insert_with ::
  "(string \<times> resource_slot) list \<Rightarrow> string \<Rightarrow> string \<Rightarrow> (runtime_error + nat) \<Rightarrow> (runtime_error + resource_slot) \<times> (string \<times> resource_slot) list" where
  "try_get_or_insert_with slots key ty init =
     (case map_of slots key of
        Some sl \<Rightarrow>
          (if rs_type sl = ty then (Inr sl, slots)
           else (Inl (RtMessage (''runtime resource `'' @ key @ ''` has a different concrete type than requested'')), slots))
      | None \<Rightarrow>
          (case init of
             Inl e \<Rightarrow> (Inl e, slots)
           | Inr n \<Rightarrow> (let sl = \<lparr> rs_type = ty, rs_cleanup = n \<rparr> in (Inr sl, bt_insert key sl slots))))"

definition cleanup_all :: "(string \<times> resource_slot) list \<Rightarrow> nat \<times> (string \<times> resource_slot) list" where
  "cleanup_all slots = (sum_list (map (rs_cleanup \<circ> snd) slots), [])"

end
