(* ===== verification/RtMail.thy ===== *)
theory RtMail
  imports RtAgents
begin

text \<open>
  The mail of the runtime (\<open>crates/browser-use-runtime/src/lib.rs\<close>): messages between agents, prompt
  inputs, draining and waiting, and a child's report of its result to its parent. Every operation records
  its event in the journal before it changes the live state.
\<close>

section \<open>Messages\<close>

text \<open>\<open>entry(k).or_insert_with(v)\<close> of an object.\<close>

definition entry_or_insert :: "string \<Rightarrow> json \<Rightarrow> json \<Rightarrow> json" where
  "entry_or_insert k v m = (if json_get m k = None then json_insert k v m else m)"

definition enrich_mailbox_payload :: "json \<Rightarrow> string \<Rightarrow> string \<Rightarrow> string \<Rightarrow> string \<Rightarrow> json" where
  "enrich_mailbox_payload p author_session target_session author_path target_path =
     (let m = (case p of JObj kvs \<Rightarrow> JObj kvs | JNull \<Rightarrow> JObj [] | other \<Rightarrow> JObj [(''value'', other)]) in
      entry_or_insert ''target_path'' (JStr target_path)
        (entry_or_insert ''author_path'' (JStr author_path)
          (entry_or_insert ''target_session_id'' (JStr target_session)
            (entry_or_insert ''author_session_id'' (JStr author_session) m))))"

text \<open>The number of a message is drawn and the message queued in two critical sections; the event is
  recorded in between.\<close>

definition prepare_on :: "string \<Rightarrow> mailbox_item \<Rightarrow> ('j, mailbox_item) action" where
  "prepare_on a it =
     bnd (thread a)
       (\<lambda>t. seqn (modify (on_mailbox a (\<lambda>m. snd (prepare_item m it)))) (ret (fst (prepare_item (th_mailbox t) it))))"

definition enqueue_on :: "string \<Rightarrow> mailbox_item \<Rightarrow> ('j, unit) action" where
  "enqueue_on a it =
     modify (\<lambda>s. on_live a (\<lambda>l. record_mailbox_enqueued l it) (on_mailbox a (\<lambda>m. snd (enqueue_prepared m it)) s))"

record send_request =
  sq_author :: string
  sq_target :: string
  sq_content :: string
  sq_trigger :: bool
  sq_kind :: item_kind
  sq_phase :: delivery_phase
  sq_payload :: json

definition sent_event_payload :: "mailbox_item \<Rightarrow> json" where
  "sent_event_payload it =
     JObj [(''author_agent_id'', JStr (mi_author it)), (''mailbox_item'', item_json it),
           (''target_agent_id'', JStr (mi_target it)), (''trigger_turn'', JBool (mi_trigger it))]"

definition send_agent_message :: "id_supply \<Rightarrow> 'j persistence \<Rightarrow> send_request \<Rightarrow> ('j, mailbox_item) action" where
  "send_agent_message sp P req =
     (let content = str_trim (sq_content req) in
      if content = [] then fail (RtMessage ''Empty message can't be sent to an agent'')
      else bnd (thread (sq_author req)) (\<lambda>author. bnd (thread (sq_target req)) (\<lambda>target.
        (let followup_to_self = (sq_kind req = MkFollowup \<and> sq_author req = sq_target req) in
         if sq_trigger req \<and> th_parent_agent target = None \<and> \<not> followup_to_self
         then fail (RtMessage ''Tasks can't be assigned to the root agent'')
         else bnd (fresh_id sp) (\<lambda>i.
           bnd (prepare_on (th_agent target)
             \<lparr> mi_seq = 0, mi_id = i, mi_kind = sq_kind req, mi_author = th_agent author, mi_target = th_agent target,
               mi_target_path = Some (th_path target), mi_content = content, mi_trigger = sq_trigger req,
               mi_phase = sq_phase req,
               mi_payload = enrich_mailbox_payload (sq_payload req) (th_session author) (th_session target)
                              (th_path author) (th_path target) \<rparr>) (\<lambda>it.
           bnd (thread_event sp MailboxEnqueued Barrier target (sent_event_payload it)) (\<lambda>e.
           seqn (append_event P e)
             (seqn (enqueue_on (th_agent target) it) (seqn (publish e) (ret it))))))))))"

section \<open>Prompt inputs\<close>

definition object_or_empty :: "json \<Rightarrow> json" where
  "object_or_empty p = (case p of JObj kvs \<Rightarrow> JObj kvs | _ \<Rightarrow> JObj [])"

definition accepted_event_payload :: "agent_thread \<Rightarrow> int option \<Rightarrow> json \<Rightarrow> json" where
  "accepted_event_payload t q p =
     (let p1 = json_insert ''target_session_id'' (JStr (th_session t)) (object_or_empty p);
          p2 = (case q of None \<Rightarrow> p1 | Some n \<Rightarrow> json_insert ''source_event_seq'' (JNum n) p1)
      in JObj [(''payload'', p2), (''runtime_owned'', JBool True), (''source_event_seq'', json_opt JNum q)])"

definition accept_prompt_input ::
  "id_supply \<Rightarrow> 'j persistence \<Rightarrow> string \<Rightarrow> int option \<Rightarrow> json \<Rightarrow> ('j, bool) action" where
  "accept_prompt_input sp P a q payload =
     bnd (thread a) (\<lambda>t.
       if has_accepted_prompt_input_seq (th_live t) q then ret False
       else bnd (thread_event sp AgentInputAccepted Barrier t (accepted_event_payload t q payload)) (\<lambda>e.
         seqn (append_event P e)
           (seqn (modify (on_live (th_agent t) (\<lambda>l. record_prompt_input_accepted l q)))
             (seqn (publish e) (ret True)))))"

definition consumed_event_payload :: "live_state \<Rightarrow> json" where
  "consumed_event_payload l =
     JObj [(''runtime_owned'', JBool True), (''source_event_seq'', JNum (lv_last_accepted_prompt l))]"

definition consume_prompt_input_for_session :: "id_supply \<Rightarrow> 'j persistence \<Rightarrow> string \<Rightarrow> ('j, bool) action" where
  "consume_prompt_input_for_session sp P sid =
     bnd (thread_for_session sid) (\<lambda>t.
       if \<not> has_pending_prompt_input (th_live t) then ret False
       else bnd (thread_event sp AgentInputConsumed Barrier t (consumed_event_payload (th_live t))) (\<lambda>e.
         seqn (append_event P e)
           (let (consumed, _) = record_prompt_input_consumed (th_live t) in
            seqn (modify (on_live (th_agent t) (\<lambda>l. snd (record_prompt_input_consumed l))))
              (if consumed then seqn (publish e) (ret True) else ret False))))"

record submit_request =
  sb_target :: string
  sb_content :: string
  sb_trigger :: bool
  sb_phase :: delivery_phase
  sb_items :: "json option"
  sb_payload :: json

definition submit_payload :: "agent_thread \<Rightarrow> submit_request \<Rightarrow> json" where
  "submit_payload t req =
     (let p1 = entry_or_insert ''source'' (JStr ''user_input'') (object_or_empty (sb_payload req));
          p2 = json_insert ''target_session_id'' (JStr (th_session t)) p1
      in (case sb_items req of None \<Rightarrow> p2 | Some v \<Rightarrow> json_insert ''input_items'' v p2))"

definition submit_input :: "id_supply \<Rightarrow> 'j persistence \<Rightarrow> submit_request \<Rightarrow> ('j, mailbox_item) action" where
  "submit_input sp P req =
     bnd (thread (sb_target req)) (\<lambda>t.
       bnd (send_agent_message sp P
              \<lparr> sq_author = th_agent t, sq_target = th_agent t, sq_content = sb_content req,
                sq_trigger = sb_trigger req, sq_kind = MkFollowup, sq_phase = sb_phase req,
                sq_payload = submit_payload t req \<rparr>) (\<lambda>it.
         seqn (modify (on_live (th_agent t) (\<lambda>l. record_accepted_input l it))) (ret it)))"

section \<open>Draining and waiting\<close>

definition has_pending_agent_mail_for_session :: "string \<Rightarrow> delivery_phase \<Rightarrow> ('j, bool) action" where
  "has_pending_agent_mail_for_session sid p =
     bnd (thread_for_session sid) (\<lambda>t. ret (has_pending_phase (th_mailbox t) p))"

definition pending_agent_mail_for_session :: "string \<Rightarrow> ('j, mailbox_item list) action" where
  "pending_agent_mail_for_session sid = bnd (thread_for_session sid) (\<lambda>t. ret (pending_items (th_mailbox t)))"

definition has_pending_trigger_turn_agent_mail_for_session :: "string \<Rightarrow> delivery_phase \<Rightarrow> ('j, bool) action" where
  "has_pending_trigger_turn_agent_mail_for_session sid p =
     bnd (thread_for_session sid) (\<lambda>t. ret (has_pending_trigger_turn_phase (th_mailbox t) p))"

definition drain_event_payload :: "delivery_phase \<Rightarrow> mailbox_item list \<Rightarrow> json" where
  "drain_event_payload p its =
     JObj [(''count'', JNum (int (length its))), (''delivery_phase'', JStr (phase_str p)),
           (''mailbox_items'', JArr (map item_json its)),
           (''mailbox_seqs'', JArr (map (\<lambda>it. JNum (int (mi_seq it))) its))]"

text \<open>A drain looks at the queue, records both events, and drains. \<open>drain_begin\<close> and \<open>drain_end\<close> are
  its two critical sections on the mailbox; other operations can come between them.\<close>

definition drain_begin ::
  "id_supply \<Rightarrow> 'j persistence \<Rightarrow> string \<Rightarrow> delivery_phase \<Rightarrow> ('j, agent_thread \<times> mailbox_item list \<times> runtime_event list) action" where
  "drain_begin sp P sid p =
     bnd (thread_for_session sid) (\<lambda>t.
       (let its = pending_items_for_phase (th_mailbox t) p in
        if its = [] then ret (t, [], [])
        else bnd (thread_event sp MailboxDelivered Barrier t (drain_event_payload p its)) (\<lambda>d.
             bnd (thread_event sp MailboxConsumed Barrier t (drain_event_payload p its)) (\<lambda>c.
             seqn (append_event P d) (seqn (append_event P c) (ret (t, its, [d, c])))))))"

definition drain_end ::
  "delivery_phase \<Rightarrow> agent_thread \<times> mailbox_item list \<times> runtime_event list \<Rightarrow> ('j, mailbox_item list) action" where
  "drain_end p x =
     (let (t, its, evs) = x in
      if its = [] then ret its
      else bnd (thread (th_agent t)) (\<lambda>now.
        (let drained = fst (drain_phase (th_mailbox now) p) in
         seqn (modify (\<lambda>s. on_live (th_agent t) (\<lambda>l. record_mailbox_consumed (record_mailbox_delivered l drained) drained)
                             (on_mailbox (th_agent t) (\<lambda>m. snd (drain_phase m p)) s)))
           (seqn (modify (\<lambda>s. s\<lparr> rn_published := rn_published s @ evs \<rparr>)) (ret its)))))"

definition drain_agent_mailbox ::
  "id_supply \<Rightarrow> 'j persistence \<Rightarrow> string \<Rightarrow> delivery_phase \<Rightarrow> ('j, mailbox_item list) action" where
  "drain_agent_mailbox sp P sid p = bnd (drain_begin sp P sid p) (drain_end p)"

text \<open>A wait: the number it waits from is read after the start is recorded; the outcome is that of
  \<open>wait_for_item\<close>.\<close>

definition wait_begin :: "id_supply \<Rightarrow> 'j persistence \<Rightarrow> string \<Rightarrow> nat \<Rightarrow> ('j, nat) action" where
  "wait_begin sp P a timeout_ms =
     bnd (thread a) (\<lambda>t.
       bnd (thread_event sp WaitAgentStarted BestEffort t (JObj [(''timeout_ms'', JNum (int timeout_ms))])) (\<lambda>e.
         seqn (publish_after_barrier P e)
           (bnd (thread a) (\<lambda>now. ret (lv_last_wait_observed (th_live now))))))"

definition wait_payload :: "wait_outcome \<Rightarrow> nat \<Rightarrow> json" where
  "wait_payload o1 n =
     (case o1 of
        WaitCompleted it \<Rightarrow>
          JObj [(''after_seq'', JNum (int n)), (''author_agent_id'', JStr (mi_author it)),
                (''mailbox_seq'', JNum (int (mi_seq it))), (''timed_out'', JBool False)]
      | WaitTimedOut \<Rightarrow> JObj [(''after_seq'', JNum (int n)), (''timed_out'', JBool True)])"

definition wait_end :: "id_supply \<Rightarrow> 'j persistence \<Rightarrow> string \<Rightarrow> nat \<Rightarrow> wait_outcome \<Rightarrow> ('j, wait_outcome) action" where
  "wait_end sp P a n o1 =
     bnd (thread a) (\<lambda>t.
       bnd (thread_event sp (case o1 of WaitCompleted it \<Rightarrow> WaitAgentCompleted | WaitTimedOut \<Rightarrow> WaitAgentTimedOut)
              Barrier t (wait_payload o1 n)) (\<lambda>e.
         seqn (publish_after_barrier P e)
           (seqn (case o1 of
                    WaitCompleted it \<Rightarrow> modify (on_live a (\<lambda>l. record_wait_observed_mailbox l it))
                  | WaitTimedOut \<Rightarrow> ret ())
             (ret o1))))"

section \<open>A child's result\<close>

text \<open>\<open>complete_agent\<close> and \<open>fail_agent\<close>: the message to the parent, then the child's and the
  parent's terminal events, are recorded before anything changes.\<close>

definition notification_text :: "agent_thread \<Rightarrow> string \<Rightarrow> bool \<Rightarrow> string" where
  "notification_text child txt success =
     ''<subagent_notification>'' @ [CHR 0x0A]
     @ show_json (JObj [(''agent_path'', JStr (th_path child)),
         (''status'', JObj [(if success then ''completed'' else ''errored'', JStr txt)])])
     @ [CHR 0x0A] @ ''</subagent_notification>''"

definition completion_item :: "string \<Rightarrow> agent_thread \<Rightarrow> agent_thread \<Rightarrow> string \<Rightarrow> bool \<Rightarrow> mailbox_item" where
  "completion_item i child parent txt success =
     \<lparr> mi_seq = 0, mi_id = i, mi_kind = MkCompletion, mi_author = th_agent child, mi_target = th_agent parent,
       mi_target_path = Some (th_path child), mi_content = notification_text child txt success, mi_trigger = False,
       mi_phase = CurrentTurn,
       mi_payload = JObj [(''agent_path'', JStr (th_path child)), (''author_session_id'', JStr (th_session child)),
         (''child_session_id'', JStr (th_session child)), (''result'', JStr txt), (''runtime_owned'', JBool True),
         (''success'', JBool success), (''target_session_id'', JStr (th_session parent))] \<rparr>"

definition completion_event_payload :: "mailbox_item \<Rightarrow> json" where
  "completion_event_payload it = JObj [(''mailbox_item'', item_json it), (''trigger_turn'', JBool False)]"

definition child_terminal_payload :: "agent_thread \<Rightarrow> string \<Rightarrow> bool \<Rightarrow> json" where
  "child_terminal_payload child txt success =
     JObj [(''agent_path'', JStr (th_path child)), (''result'', JStr txt), (''runtime_owned'', JBool True),
           (''success'', JBool success)]"

definition parent_terminal_payload :: "agent_thread \<Rightarrow> string \<Rightarrow> bool \<Rightarrow> json" where
  "parent_terminal_payload child txt success =
     (let st = JStr (if success then ''done'' else ''failed'') in
      JObj [(''child_session_id'', JStr (th_session child)),
            (''payload'', JObj [(''child_session_id'', JStr (th_session child)),
               (''failure'', if success then JNull else JStr txt), (''result'', if success then JStr txt else JNull),
               (''runtime_owned'', JBool True), (''status'', st)]),
            (''runtime_owned'', JBool True), (''status'', st)])"

definition finish_child_agent ::
  "id_supply \<Rightarrow> 'j persistence \<Rightarrow> string \<Rightarrow> string \<Rightarrow> bool \<Rightarrow> ('j, unit) action" where
  "finish_child_agent sp P a txt success =
     bnd (thread a) (\<lambda>child.
     bnd (of_result (case th_parent_agent child of
                       None \<Rightarrow> Inl (MissingParentAgent (th_agent child)) | Some p \<Rightarrow> Inr p)) (\<lambda>pa.
     bnd (thread pa) (\<lambda>parent.
       (let k = (if success then AgentCompleted else AgentFailed) in
        bnd (thread_event sp k Barrier child (child_terminal_payload child txt success)) (\<lambda>completed.
        bnd (thread_event sp k Barrier parent (parent_terminal_payload child txt success)) (\<lambda>parent_terminal.
        bnd (fresh_id sp) (\<lambda>i.
        bnd (prepare_on (th_agent parent) (completion_item i child parent txt success)) (\<lambda>it.
        bnd (thread_event sp MailboxEnqueued Barrier parent (completion_event_payload it)) (\<lambda>me.
        seqn (append_event P me) (seqn (append_event P completed) (seqn (append_event P parent_terminal)
          (seqn (modify (set_status (th_agent child) (if success then TsCompleted else TsFailed)))
          (seqn (on_journal (\<lambda>j. p_finish_edge P j (th_session child) (if success then EdgeDone else EdgeFailed)))
          (seqn (enqueue_on (th_agent parent) it)
          (seqn (publish completed) (seqn (publish parent_terminal) (publish me)))))))))))))))))"

end
