(* ===== verification/RtControl.thy ===== *)
theory RtControl
  imports RtMail
begin

text \<open>
  The life of agents in the runtime (\<open>crates/browser-use-runtime/src/lib.rs\<close>): creating and resuming
  root agents, spawning, attaching and closing children, cancelling runs, and rebuilding live agents from
  the journal. \<open>close_agent\<close> walks the live descendants, the deepest found last closed first.
\<close>

section \<open>Lost resources\<close>

text \<open>A resource that was started and has no terminal event is lost with the process that held it.\<close>

definition value_to_resource_id :: "json \<Rightarrow> string option" where
  "value_to_resource_id v =
     (case v of
        JStr s \<Rightarrow> (if str_trim s \<noteq> [] then Some s else None)
      | JNum n \<Rightarrow> Some (show_int n)
      | _ \<Rightarrow> None)"

definition payload_resource_id :: "json \<Rightarrow> string list \<Rightarrow> string option" where
  "payload_resource_id p keys =
     (let q = runtime_payload p in find_map value_to_resource_id (List.map_filter (json_get q) keys))"

definition script_run_keys :: "string list" where
  "script_run_keys = [''run_id'', ''browser_script_run_id'', ''script_run_id'', ''tool_call_id'']"

definition live_resource_start_key :: "string \<Rightarrow> json \<Rightarrow> (string \<times> string) option" where
  "live_resource_start_key t p =
     (if t = ''exec_command.begin'' then
        map_option (Pair ''exec_command'') (payload_resource_id p [''process_id'', ''session_id''])
      else if t = ''browser_script.started'' then
        map_option (Pair ''browser_script'') (payload_resource_id p script_run_keys)
      else if t = ''python.started'' then
        map_option (Pair ''python'') (payload_resource_id p [''tool_call_id'', ''call_id'', ''session_id''])
      else if t = ''mcp.tool.started'' then
        map_option (Pair ''mcp'') (payload_resource_id p [''tool_call_id'', ''call_id''])
      else None)"

definition lost_resource_key :: "json \<Rightarrow> (string \<times> string) option" where
  "lost_resource_key p =
     (case json_get (runtime_payload p) ''resource'' of
        None \<Rightarrow> None
      | Some r \<Rightarrow>
          (case get_str r ''kind'' of
             None \<Rightarrow> None
           | Some k \<Rightarrow>
               (if k \<in> {''exec_command'', ''browser_script'', ''python'', ''mcp''}
                then map_option (Pair k) (Option.bind (json_get r ''id'') value_to_resource_id)
                else None)))"

definition live_resource_terminal_key :: "string \<Rightarrow> json \<Rightarrow> (string \<times> string) option" where
  "live_resource_terminal_key t p =
     (if t = ''exec_command.end'' then
        map_option (Pair ''exec_command'') (payload_resource_id p [''process_id'', ''session_id''])
      else if t \<in> {''browser_script.completed'', ''browser_script.cancelled'', ''browser_script.failed''} then
        map_option (Pair ''browser_script'') (payload_resource_id p script_run_keys)
      else if t \<in> {''python.completed'', ''python.failed''} then
        map_option (Pair ''python'') (payload_resource_id p [''tool_call_id'', ''call_id'', ''session_id''])
      else if t \<in> {''mcp.tool.completed'', ''mcp.tool.failed''} then
        map_option (Pair ''mcp'') (payload_resource_id p [''tool_call_id'', ''call_id''])
      else if t = ''resource.lost'' then lost_resource_key p
      else None)"

text \<open>The two hash sets as lists without repetition, in the order of the first event.\<close>

definition resource_event ::
  "(string \<times> string) list \<times> (string \<times> string) list \<Rightarrow> event_record \<Rightarrow> (string \<times> string) list \<times> (string \<times> string) list" where
  "resource_event st e =
     (let (open_keys, terminal) = st in
      case live_resource_start_key (ev_type e) (ev_payload e) of
        Some k \<Rightarrow> (if k \<in> set open_keys then st else (open_keys @ [k], terminal))
      | None \<Rightarrow>
          (case live_resource_terminal_key (ev_type e) (ev_payload e) of
             Some k \<Rightarrow> (if k \<in> set terminal then st else (open_keys, terminal @ [k]))
           | None \<Rightarrow> st))"

definition lost_live_resources_from_events :: "event_record list \<Rightarrow> (string \<times> string) list" where
  "lost_live_resources_from_events es =
     (let (open_keys, terminal) = foldl resource_event ([], []) es in filter (\<lambda>k. k \<notin> set terminal) open_keys)"

section \<open>Resuming\<close>

text \<open>Actions for each element of a list, one after the other.\<close>

fun each :: "('a \<Rightarrow> ('j, unit) action) \<Rightarrow> 'a list \<Rightarrow> ('j, unit) action" where
  "each f [] = ret ()"
| "each f (x # xs) = seqn (f x) (each f xs)"

definition materialize_live_state_after_resume :: "'j persistence \<Rightarrow> agent_thread \<Rightarrow> ('j, unit) action" where
  "materialize_live_state_after_resume P t =
     bnd (reading (\<lambda>s. p_events P (rn_journal s) (th_session t))) (\<lambda>es.
       (let z = materialized_live_state_from_events es in
        modify (\<lambda>s. on_live (th_agent t) (\<lambda>l. materialize_from_replay l z)
                      (on_mailbox (th_agent t) (\<lambda>m. materialize_pending m (mz_pending z)) s))))"

definition record_lost_resources_after_resume :: "id_supply \<Rightarrow> 'j persistence \<Rightarrow> agent_thread \<Rightarrow> ('j, unit) action" where
  "record_lost_resources_after_resume sp P t =
     bnd (reading (\<lambda>s. p_events P (rn_journal s) (th_session t))) (\<lambda>es.
       each (\<lambda>(k, i). bnd (thread_event sp ResourceLost Barrier t
               (JObj [(''reason'', JStr ''resume_without_live_handle''),
                      (''resource'', JObj [(''id'', JStr i), (''kind'', JStr k)])]))
             (\<lambda>e. seqn (publish_after_barrier P e) (ret ())))
         (lost_live_resources_from_events es))"

definition child_agent_path :: "string \<Rightarrow> string \<Rightarrow> string" where
  "child_agent_path parent_path task_name =
     (let n = trim_matches CHR ''/'' task_name in
      if parent_path = ''/root'' then ''/root/'' @ n else parent_path @ ''/'' @ n)"

definition known_session :: "'j persistence \<Rightarrow> string \<Rightarrow> string \<Rightarrow> ('j, session_meta) action" where
  "known_session P sid msg =
     bnd (reading (\<lambda>s. p_load P (rn_journal s) sid))
       (\<lambda>m. of_result (case m of None \<Rightarrow> Inl (RtMessage (msg @ sid)) | Some meta \<Rightarrow> Inr meta))"

definition on_scheduler :: "agent_control \<Rightarrow> (scheduler \<Rightarrow> scheduler) \<Rightarrow> 'j runtime \<Rightarrow> 'j runtime" where
  "on_scheduler c f s =
     (case map_of (rn_controls s) (cn_root c) of
        None \<Rightarrow> s
      | Some now \<Rightarrow> insert_control (now\<lparr> cn_scheduler := f (cn_scheduler now) \<rparr>) s)"

definition edge_status_json :: "edge_status \<Rightarrow> json" where
  "edge_status_json st = JStr (as_store_status st)"

definition materialize_child_edge_after_resume ::
  "id_supply \<Rightarrow> 'j persistence \<Rightarrow> agent_thread \<Rightarrow> spawn_edge \<Rightarrow> ('j, unit) action" where
  "materialize_child_edge_after_resume sp P parent edge =
     bnd (known_session P (ed_child edge) ''unknown child session id: '') (\<lambda>session.
     bnd (of_result (id_from_string ''AgentId'' (ed_child edge))) (\<lambda>a.
       (let path = unwrap_or (child_agent_path (th_path parent) (ed_child edge)) (ed_path edge);
            child = thread_new a (ed_child edge) (th_root parent) (sm_cwd session) (Some (th_agent parent))
                      (Some (th_session parent)) path (ed_nickname edge) (ed_role edge)
        in seqn (modify (insert_thread (child\<lparr> th_status := as_thread_status (ed_status edge) \<rparr>)))
          (seqn (if ed_status edge \<noteq> EdgeClosed
                 then bnd (control_for_thread parent)
                        (\<lambda>c. modify (on_scheduler c (\<lambda>sc. materialize_open_spawned_agent sc a path)))
                 else ret ())
          (bnd (thread_event sp AgentResumed Barrier child
                  (JObj [(''agent_path'', JStr path), (''materialized_from_replay'', JBool True),
                         (''nickname'', json_opt JStr (ed_nickname edge)), (''role'', json_opt JStr (ed_role edge)),
                         (''status'', edge_status_json (ed_status edge))]))
            (\<lambda>e. seqn (publish_after_barrier P e)
               (seqn (materialize_live_state_after_resume P child)
                 (record_lost_resources_after_resume sp P child))))))))"

text \<open>One pass over the edges that are left: those whose parent is not live yet are put off.\<close>

fun materialize_pass ::
  "id_supply \<Rightarrow> 'j persistence \<Rightarrow> spawn_edge list \<Rightarrow> spawn_edge list \<Rightarrow> ('j, spawn_edge list) action" where
  "materialize_pass sp P [] deferred = ret deferred"
| "materialize_pass sp P (e # es) deferred =
     (\<lambda>s. case fst (thread_for_session (ed_child e) s) of
            Inr _ \<Rightarrow> materialize_pass sp P es deferred s
          | Inl _ \<Rightarrow>
              (case fst (thread_for_session (ed_parent e) s) of
                 Inl _ \<Rightarrow> materialize_pass sp P es (deferred @ [e]) s
               | Inr parent \<Rightarrow>
                   seqn (materialize_child_edge_after_resume sp P parent e) (materialize_pass sp P es deferred) s))"

definition missing_edges_text :: "spawn_edge list \<Rightarrow> string" where
  "missing_edges_text es = join_with '', '' (map (\<lambda>e. ed_parent e @ '' -> '' @ ed_child e) es)"

lemma materialize_pass_length:
  "materialize_pass sp P es d s = (Inr d', s') \<Longrightarrow> length d' \<le> length d + length es"
proof (induction es arbitrary: d s)
  case (Cons e es)
  then show ?case
    by (fastforce simp: seqn_def bnd_def split: sum.splits prod.splits)
qed (simp add: ret_def)

text \<open>A pass that puts off every edge ends with the error; any other leaves fewer edges.\<close>

function materialize_loop ::
  "id_supply \<Rightarrow> 'j persistence \<Rightarrow> spawn_edge list \<Rightarrow> 'j runtime \<Rightarrow> (runtime_error + unit) \<times> 'j runtime" where
  "materialize_loop sp P remaining s =
     (if remaining = [] then (Inr (), s)
      else (case materialize_pass sp P remaining [] s of
              (Inl e, s') \<Rightarrow> (Inl e, s')
            | (Inr deferred, s') \<Rightarrow>
                (if length deferred = length remaining
                 then (Inl (RtMessage (''could not materialize durable child edges without parents: ''
                                       @ missing_edges_text deferred)), s')
                 else materialize_loop sp P deferred s')))"
  by pat_completeness auto
termination
  by (relation "measure (\<lambda>(sp, P, r, s). length r)")
     (auto dest!: sym [of "(Inr _, _)"] materialize_pass_length intro: le_neq_trans)

declare materialize_loop.simps [simp del]

definition materialize_descendants_after_resume ::
  "id_supply \<Rightarrow> 'j persistence \<Rightarrow> agent_thread \<Rightarrow> ('j, unit) action" where
  "materialize_descendants_after_resume sp P root =
     bnd (reading (\<lambda>s. p_descendants P (rn_journal s) (th_session root))) (materialize_loop sp P)"

section \<open>Creating and attaching agents\<close>

definition control_new :: "string \<Rightarrow> string \<Rightarrow> string \<Rightarrow> nat \<Rightarrow> agent_control" where
  "control_new root a sid threads =
     \<lparr> cn_root = root, cn_agent = a, cn_session = sid, cn_scheduler = scheduler_new threads StrictReject \<rparr>"

definition insert_root_agent ::
  "id_supply \<Rightarrow> 'j persistence \<Rightarrow> string \<Rightarrow> string \<Rightarrow> string \<Rightarrow> nat \<Rightarrow> runtime_event_kind \<Rightarrow> ('j, agent_thread) action" where
  "insert_root_agent sp P sid cwd task threads k =
     bnd (of_result (id_from_string ''RootId'' sid)) (\<lambda>root. bnd (of_result (id_from_string ''AgentId'' sid)) (\<lambda>a.
       (let t = thread_new a sid root cwd None None ''/root'' None (Some ''default'') in
        seqn (modify (insert_thread t))
        (seqn (modify (insert_control (control_new root a sid threads)))
        (bnd (thread_event sp k Barrier t
                (JObj [(''agent_path'', JStr ''/root''), (''materialized_from_replay'', JBool (k = AgentResumed)),
                       (''role'', JStr ''default''), (''task'', JStr task)]))
          (\<lambda>e. seqn (publish_after_barrier P e) (ret t)))))))"

definition create_root_agent ::
  "id_supply \<Rightarrow> 'j persistence \<Rightarrow> string \<Rightarrow> string \<Rightarrow> nat \<Rightarrow> ('j, agent_thread) action" where
  "create_root_agent sp P cwd task threads =
     bnd (on_journal (\<lambda>j. p_create P j
            \<lparr> ct_session = None, ct_parent = None, ct_cwd = cwd, ct_artifact_root = None, ct_agent_path = None,
              ct_nickname = None, ct_role = None \<rparr>)) (\<lambda>session.
     bnd (of_result (id_from_string ''SessionId'' (sm_id session))) (\<lambda>sid.
       insert_root_agent sp P sid cwd task threads AgentCreated))"

definition attach_root_agent ::
  "id_supply \<Rightarrow> 'j persistence \<Rightarrow> string \<Rightarrow> string \<Rightarrow> string \<Rightarrow> nat \<Rightarrow> ('j, agent_thread) action" where
  "attach_root_agent sp P sid cwd task threads =
     bnd (known_session P sid ''unknown root session id: '') (\<lambda>_.
     bnd (insert_root_agent sp P sid cwd task threads AgentResumed) (\<lambda>t.
       seqn (materialize_live_state_after_resume P t)
       (seqn (record_lost_resources_after_resume sp P t)
       (seqn (materialize_descendants_after_resume sp P t) (ret t)))))"

text \<open>The scheduler of a control, used under its lock; a queued spawn draws an identifier.\<close>

definition admit_on :: "id_supply \<Rightarrow> agent_control \<Rightarrow> string \<Rightarrow> string \<Rightarrow> ('j, runtime_error + spawn_admission) action" where
  "admit_on sp c child task s =
     (case map_of (rn_controls s) (cn_root c) of
        None \<Rightarrow> (Inr (fst (admit_spawn (cn_scheduler c) (sp_id sp (rn_draws s)) child task)), s)
      | Some now \<Rightarrow>
          (let (r, sc) = admit_spawn (cn_scheduler now) (sp_id sp (rn_draws s)) child task;
               s1 = insert_control (now\<lparr> cn_scheduler := sc \<rparr>) s
           in (Inr r, case r of Inr (Queued _) \<Rightarrow> s1\<lparr> rn_draws := Suc (rn_draws s) \<rparr> | _ \<Rightarrow> s1)))"

definition queue_not_enabled :: runtime_error where
  "queue_not_enabled = RtMessage ''queued subagent mode is not enabled for BrowserUseRuntime AgentControl''"

record attach_child_request =
  ac_parent :: string
  ac_child :: string
  ac_session :: string
  ac_cwd :: string
  ac_path :: string
  ac_nickname :: "string option"
  ac_role :: "string option"

definition attach_child_agent :: "id_supply \<Rightarrow> 'j persistence \<Rightarrow> attach_child_request \<Rightarrow> ('j, agent_thread) action" where
  "attach_child_agent sp P req =
     bnd (known_session P (ac_session req) ''unknown child session id: '') (\<lambda>_.
     bnd (thread (ac_parent req)) (\<lambda>parent. bnd (control_for_thread parent) (\<lambda>c.
     bnd (admit_on sp c (ac_child req) (ac_path req)) (\<lambda>r.
       (case r of
          Inl e \<Rightarrow> fail e
        | Inr (Queued _) \<Rightarrow> fail queue_not_enabled
        | Inr (Reserved _) \<Rightarrow>
            (let child = thread_new (ac_child req) (ac_session req) (th_root parent) (ac_cwd req)
                           (Some (th_agent parent)) (Some (th_session parent)) (ac_path req) (ac_nickname req)
                           (ac_role req)
             in seqn (modify (insert_thread child))
               (bnd (thread_event sp AgentResumed Barrier child
                       (JObj [(''agent_path'', JStr (ac_path req)), (''nickname'', json_opt JStr (ac_nickname req)),
                              (''role'', json_opt JStr (ac_role req))]))
                 (\<lambda>e. seqn (publish_after_barrier P e)
                   (seqn (materialize_live_state_after_resume P child)
                   (seqn (record_lost_resources_after_resume sp P child)
                   (seqn (materialize_descendants_after_resume sp P child) (ret child))))))))))))"

record spawn_request =
  sw_parent :: string
  sw_child :: "string option"
  sw_session :: "string option"
  sw_task :: string
  sw_message :: string
  sw_nickname :: "string option"
  sw_role :: "string option"

definition spawn_child :: "id_supply \<Rightarrow> 'j persistence \<Rightarrow> spawn_request \<Rightarrow> ('j, agent_thread) action" where
  "spawn_child sp P req =
     bnd (thread (sw_parent req)) (\<lambda>parent. bnd (control_for_thread parent) (\<lambda>c.
     bnd (case sw_child req of Some a \<Rightarrow> ret a | None \<Rightarrow> fresh_id sp) (\<lambda>a.
       (let path = child_agent_path (th_path parent) (sw_task req) in
        bnd (admit_on sp c a (sw_task req)) (\<lambda>r.
          (case r of
             Inr (Queued q) \<Rightarrow>
               bnd (thread_event sp SubagentSpawnQueued Barrier parent
                      (JObj [(''child_agent_id'', JStr (qs_child q)), (''task_name'', JStr (qs_task q))]))
                 (\<lambda>e. seqn (publish_after_barrier P e) (fail queue_not_enabled))
           | Inl err \<Rightarrow>
               bnd (thread_event sp SubagentSpawnRejected Barrier parent
                      (JObj [(''reason'', JStr (runtime_error_text err)), (''task_name'', JStr (sw_task req))]))
                 (\<lambda>e. seqn (publish_after_barrier P e) (fail err))
           | Inr (Reserved _) \<Rightarrow>
               bnd (on_journal (\<lambda>j. p_create P j
                      \<lparr> ct_session = sw_session req, ct_parent = Some (th_session parent), ct_cwd = th_cwd parent,
                        ct_artifact_root = None, ct_agent_path = Some path, ct_nickname = sw_nickname req,
                        ct_role = sw_role req \<rparr>)) (\<lambda>session.
               bnd (of_result (id_from_string ''SessionId'' (sm_id session))) (\<lambda>sid.
                 (let child = thread_new a sid (th_root parent) (th_cwd parent) (Some (th_agent parent))
                                (Some (th_session parent)) path (sw_nickname req) (sw_role req)
                  in bnd (thread_event sp SubagentSpawnStarted Barrier parent
                            (JObj [(''agent_path'', JStr path), (''child_agent_id'', JStr a),
                                   (''child_session_id'', JStr sid), (''message'', JStr (sw_message req)),
                                   (''nickname'', json_opt JStr (sw_nickname req)),
                                   (''role'', json_opt JStr (sw_role req)), (''task_name'', JStr (sw_task req))]))
                       (\<lambda>e. seqn (publish_after_barrier P e)
                          (seqn (modify (insert_thread child)) (ret child))))))))))))"

section \<open>Closing and cancelling\<close>

definition close_one :: "id_supply \<Rightarrow> 'j persistence \<Rightarrow> string \<Rightarrow> agent_thread \<Rightarrow> ('j, unit) action" where
  "close_one sp P reason t =
     bnd (thread_event sp AgentCloseRequested Barrier t
            (JObj [(''agent_path'', JStr (th_path t)), (''reason'', JStr reason)])) (\<lambda>req.
     seqn (publish_after_barrier P req)
     (bnd (\<lambda>s. (let (c, s') = cancel_active_run (th_session t) s in (Inr c, s'))) (\<lambda>cancelled.
     seqn (if cancelled then modify (on_live (th_agent t) request_cancel) else ret ())
     (bnd (thread (th_agent t)) (\<lambda>now.
     seqn (modify (update_thread (th_agent t) (\<lambda>x. x\<lparr> th_resources := snd (cleanup_all (th_resources x)) \<rparr>)))
     (bnd (thread_event sp AgentClosed Barrier t
             (JObj [(''agent_path'', JStr (th_path t)), (''cancelled_active_run'', JBool cancelled),
                    (''cleaned_resources'', JNum (int (fst (cleanup_all (th_resources now))))),
                    (''reason'', JStr reason)])) (\<lambda>e.
     seqn (append_event P e)
     (seqn (if th_parent_agent t \<noteq> None
            then bnd (control_for_thread t) (\<lambda>c.
                   seqn (modify (on_scheduler c (\<lambda>sc. snd (close_spawned_agent sc (th_agent t)))))
                     (on_journal (\<lambda>j. p_close_edge P j (th_session t) reason)))
            else ret ())
     (seqn (modify (set_status (th_agent t) TsClosed))
     (seqn (modify (on_live (th_agent t) live_close)) (publish e)))))))))))"

text \<open>The live threads of a list of sessions, each once.\<close>

fun live_threads :: "'j runtime \<Rightarrow> string list \<Rightarrow> string list \<Rightarrow> agent_thread list" where
  "live_threads s seen [] = []"
| "live_threads s seen (sid # sids) =
     (case fst (thread_for_session sid s) of
        Inl _ \<Rightarrow> live_threads s seen sids
      | Inr t \<Rightarrow>
          (if th_session t \<in> set seen then live_threads s seen sids
           else t # live_threads s (th_session t # seen) sids))"

definition close_agent :: "id_supply \<Rightarrow> 'j persistence \<Rightarrow> string \<Rightarrow> string \<Rightarrow> ('j, unit) action" where
  "close_agent sp P a reason =
     bnd (thread a) (\<lambda>t.
     bnd (reading (\<lambda>s. p_descendants P (rn_journal s) (th_session t))) (\<lambda>edges.
     bnd (reading (\<lambda>s. Inr (t # live_threads s [th_session t] (map ed_child edges)))) (\<lambda>threads.
       (let to_close = remdups (map ed_child edges @ (if th_parent_agent t \<noteq> None then [th_session t] else []));
            closed_live = map th_session (filter (\<lambda>x. th_parent_agent x \<noteq> None) threads)
        in seqn (each (close_one sp P reason) (rev threads))
          (seqn (each (\<lambda>sid. on_journal (\<lambda>j. p_close_edge P j sid reason))
                   (filter (\<lambda>sid. sid \<notin> set closed_live) to_close))
          (case th_parent_agent t of
             None \<Rightarrow> ret ()
           | Some pa \<Rightarrow>
               bnd (thread pa) (\<lambda>parent.
                 (let payload = JObj [(''agent_path'', JStr (th_path t)), (''child_session_id'', JStr (th_session t)),
                                      (''payload'', JObj [(''reason'', JStr reason)]), (''status'', JStr ''cancelled'')]
                  in seqn (on_journal (\<lambda>j. p_append_session P j (th_session parent) (kind_as_str AgentCancelled) payload))
                    (bnd (thread_event sp AgentCancelled Barrier parent payload) publish)))))))))"

definition request_cancel_run_for_thread ::
  "id_supply \<Rightarrow> 'j persistence \<Rightarrow> agent_thread \<Rightarrow> json \<Rightarrow> ('j, bool) action" where
  "request_cancel_run_for_thread sp P t payload =
     bnd (reading (\<lambda>s. Inr (run_token s (th_session t)))) (\<lambda>token.
       (case token of
          None \<Rightarrow> ret False
        | Some k \<Rightarrow>
            bnd (thread_event sp AgentCancelRequested Barrier t
                   (case payload of JObj kvs \<Rightarrow> JObj kvs | _ \<Rightarrow> JObj [(''runtime_owned'', JBool True)])) (\<lambda>e.
              seqn (append_event P e)
              (seqn (modify (set_status (th_agent t) TsCancelling))
              (seqn (modify (on_live (th_agent t) request_cancel))
              (seqn (modify (\<lambda>s. s\<lparr> rn_cancelled := k # rn_cancelled s \<rparr>))
              (seqn (publish e) (ret True))))))))"

fun cancel_descendants ::
  "id_supply \<Rightarrow> 'j persistence \<Rightarrow> agent_thread \<Rightarrow> spawn_edge list \<Rightarrow> bool \<Rightarrow> ('j, bool) action" where
  "cancel_descendants sp P t [] acc = ret acc"
| "cancel_descendants sp P t (e # es) acc =
     (\<lambda>s. case fst (thread_for_session (ed_child e) s) of
            Inl _ \<Rightarrow> cancel_descendants sp P t es acc s
          | Inr d \<Rightarrow>
              bnd (request_cancel_run_for_thread sp P d
                     (JObj [(''propagated_from_agent_id'', JStr (th_agent t)),
                            (''propagated_from_session_id'', JStr (th_session t)), (''runtime_owned'', JBool True)]))
                (\<lambda>c. cancel_descendants sp P t es (acc \<or> c)) s)"

definition request_cancel_run :: "id_supply \<Rightarrow> 'j persistence \<Rightarrow> string \<Rightarrow> ('j, bool) action" where
  "request_cancel_run sp P sid =
     bnd (thread_for_session sid) (\<lambda>t.
     bnd (request_cancel_run_for_thread sp P t (JObj [(''runtime_owned'', JBool True)])) (\<lambda>c.
     bnd (reading (\<lambda>s. p_descendants P (rn_journal s) (th_session t))) (\<lambda>edges.
       cancel_descendants sp P t edges c)))"

definition cancel_run :: "id_supply \<Rightarrow> 'j persistence \<Rightarrow> string \<Rightarrow> 'j runtime \<Rightarrow> bool \<times> 'j runtime" where
  "cancel_run sp P sid s =
     (let (r, s') = request_cancel_run sp P sid s in (case r of Inl _ \<Rightarrow> False | Inr b \<Rightarrow> b, s'))"

end
