(* ===== verification/RtProjection.thy ===== *)
theory RtProjection
  imports RtControl
begin

text \<open>
  The snapshots a subscriber of the runtime keeps (\<open>crates/browser-use-runtime/src/lib.rs\<close>,
  \<open>RuntimeProjectionState\<close> and \<open>RuntimeEventProjection\<close>): each published event is reduced into the
  agents' status and live state, their running items and the browsers.
\<close>

section \<open>Snapshots\<close>

record agent_snapshot =
  an_agent :: string
  an_session :: string
  an_root :: string
  an_cwd :: string
  an_parent_agent :: "string option"
  an_parent_session :: "string option"
  an_path :: string
  an_nickname :: "string option"
  an_role :: "string option"
  an_status :: thread_status
  an_live :: live_state

record control_snapshot =
  cs_root :: string
  cs_agent :: string
  cs_session :: string
  cs_open :: nat
  cs_queued :: nat

record runtime_snapshot =
  rs_agents :: "agent_snapshot list"
  rs_controls :: "control_snapshot list"
  rs_browsers :: "browser_snapshot list"

definition thread_snapshot :: "agent_thread \<Rightarrow> agent_snapshot" where
  "thread_snapshot t =
     \<lparr> an_agent = th_agent t, an_session = th_session t, an_root = th_root t, an_cwd = th_cwd t,
       an_parent_agent = th_parent_agent t, an_parent_session = th_parent_session t, an_path = th_path t,
       an_nickname = th_nickname t, an_role = th_role t, an_status = th_status t, an_live = th_live t \<rparr>"

definition control_snapshot_of :: "agent_control \<Rightarrow> control_snapshot" where
  "control_snapshot_of c =
     \<lparr> cs_root = cn_root c, cs_agent = cn_agent c, cs_session = cn_session c, cs_open = open_count (cn_scheduler c),
       cs_queued = queued_count (cn_scheduler c) \<rparr>"

definition runtime_snapshot_of :: "'j runtime \<Rightarrow> runtime_snapshot" where
  "runtime_snapshot_of s =
     \<lparr> rs_agents = map (thread_snapshot \<circ> snd) (rn_threads s),
       rs_controls = map (control_snapshot_of \<circ> snd) (rn_controls s),
       rs_browsers = manager_snapshots (rn_browsers s) \<rparr>"

section \<open>Payloads\<close>

definition event_payload :: "runtime_event \<Rightarrow> json" where
  "event_payload e = runtime_payload (re_payload e)"

definition observed_event_type :: "runtime_event \<Rightarrow> string option" where
  "observed_event_type e = get_str (re_payload e) ''event_type''"

text \<open>\<open>get(k1).or_else(|| get(k2))...and_then(as_str)\<close>: the first key that is present decides.\<close>

definition first_str :: "json \<Rightarrow> string list \<Rightarrow> string option" where
  "first_str p ks = Option.bind (find_map (json_get p) ks) as_str"

definition activity_name :: "json \<Rightarrow> string option" where
  "activity_name p = first_str p [''name'', ''tool_name'', ''command'']"

definition output_delta_text :: "json \<Rightarrow> string option" where
  "output_delta_text p = first_str p [''text'', ''delta'', ''stdout'', ''stderr'', ''output'']"

definition terminal_result :: "json \<Rightarrow> string option" where
  "terminal_result p = first_str p [''result'', ''completed'']"

definition terminal_failure :: "json \<Rightarrow> string option" where
  "terminal_failure p = first_str p [''error'', ''failure'', ''reason'', ''message'']"

definition id_ok :: "string \<Rightarrow> string option" where
  "id_ok s = (case id_from_string '''' s of Inl _ \<Rightarrow> None | Inr i \<Rightarrow> Some i)"

definition value_to_u64 :: "json \<Rightarrow> nat option" where
  "value_to_u64 v =
     (case as_u64 v of
        Some n \<Rightarrow> Some (nat n)
      | None \<Rightarrow> (case as_i64 v of Some n \<Rightarrow> (if 0 \<le> n then Some (nat n) else None) | None \<Rightarrow> None))"

definition browser_script_run_id_from_payload :: "json \<Rightarrow> string option" where
  "browser_script_run_id_from_payload p = payload_resource_id p script_run_keys"

definition browser_script_snapshot_from_payload ::
  "json \<Rightarrow> string option \<Rightarrow> string option \<Rightarrow> script_snapshot option" where
  "browser_script_snapshot_from_payload p sid a =
     map_option (\<lambda>run. \<lparr> ss_run = run, ss_session = sid, ss_agent = a,
         ss_tool_call = Option.bind (get_str (runtime_payload p) ''tool_call_id'') id_ok, ss_last_delta = None \<rparr>)
       (browser_script_run_id_from_payload p)"

definition mailbox_item_from_payload :: "json \<Rightarrow> mailbox_item option" where
  "mailbox_item_from_payload p = Option.bind (json_get p ''mailbox_item'') item_of_json"

definition mailbox_items_from_payload :: "json \<Rightarrow> mailbox_item list" where
  "mailbox_items_from_payload p =
     (case get_array p ''mailbox_items'' of None \<Rightarrow> [] | Some vs \<Rightarrow> List.map_filter item_of_json vs)"

definition max_opt :: "nat list \<Rightarrow> nat option" where
  "max_opt ns = (case ns of [] \<Rightarrow> None | n # r \<Rightarrow> Some (foldl max n r))"

definition max_mailbox_seq_from_payload :: "json \<Rightarrow> nat option" where
  "max_mailbox_seq_from_payload p = Option.bind (get_array p ''mailbox_seqs'') (\<lambda>vs. max_opt (u64_values vs))"

section \<open>Status and kind of an event\<close>

text \<open>An event about a child does not change the status of the agent it is published under.\<close>

definition about_child :: "runtime_event \<Rightarrow> bool" where
  "about_child e =
     (case (get_str (re_payload e) ''child_session_id'', re_session e) of
        (Some c, Some sid) \<Rightarrow> sid \<noteq> c
      | _ \<Rightarrow> False)"

definition kind_status :: "runtime_event_kind \<Rightarrow> thread_status option" where
  "kind_status k =
     (if k \<in> {AgentCreated, AgentResumed} then Some TsCreated
      else if k = AgentQueued then Some TsQueued
      else if k \<in> {AgentStarted, AgentContinuationStarted, AgentTurnStarted} then Some TsRunning
      else if k \<in> {AgentCancelRequested, AgentCloseRequested} then Some TsCancelling
      else if k \<in> {AgentCompleted, AgentTurnCompleted} then Some TsCompleted
      else if k \<in> {AgentFailed, AgentTurnAborted} then Some TsFailed
      else if k = AgentCancelled then Some TsCancelled
      else if k = AgentClosed then Some TsClosed
      else None)"

definition projected_thread_status_for_event :: "runtime_event \<Rightarrow> thread_status option" where
  "projected_thread_status_for_event e = (if about_child e then None else kind_status (re_kind e))"

datatype projected_kind =
    ThreadStatusChanged | PkTurnStarted | PkTurnCompleted | PkItemStarted | PkItemCompleted | AgentMessageDelta
  | CommandOutputDelta | McpOutputDelta | ToolUpdated

definition project_kind :: "runtime_event_kind \<Rightarrow> projected_kind" where
  "project_kind k =
     (if k \<in> {AgentStarted, AgentCompleted, AgentFailed, AgentCancelled, AgentCloseRequested, AgentClosed}
      then ThreadStatusChanged
      else if k = AgentTurnStarted then PkTurnStarted
      else if k \<in> {AgentTurnCompleted, AgentTurnAborted} then PkTurnCompleted
      else if k \<in> {ExecCommandBegin, BrowserScriptStarted, PythonStarted, McpToolStarted} then PkItemStarted
      else if k \<in> {ExecCommandEnd, BrowserScriptCompleted, BrowserScriptCancelled, BrowserScriptFailed,
                   PythonCompleted, McpToolCompleted, ToolCompleted, ToolFailed} then PkItemCompleted
      else if k \<in> {ExecCommandOutputDelta, BrowserScriptOutputDelta, PythonOutputDelta} then CommandOutputDelta
      else if k = ToolOutputDelta then AgentMessageDelta
      else ToolUpdated)"

record projected_event =
  pe_source :: string
  pe_kind :: projected_kind
  pe_session :: "string option"
  pe_payload :: json
  pe_snapshot :: "runtime_snapshot option"

definition project :: "runtime_event \<Rightarrow> projected_event" where
  "project e =
     \<lparr> pe_source = re_id e, pe_kind = project_kind (re_kind e), pe_session = re_session e, pe_payload = re_payload e,
       pe_snapshot = None \<rparr>"

section \<open>Running items\<close>

definition activity_tool_call_id :: "runtime_event \<Rightarrow> string option" where
  "activity_tool_call_id e =
     or_else (re_tool_call e) (Option.bind (get_str (event_payload e) ''tool_call_id'') id_ok)"

definition activity_key :: "runtime_event \<Rightarrow> string \<Rightarrow> string" where
  "activity_key e k =
     (case activity_tool_call_id e of
        Some c \<Rightarrow> k @ '':'' @ c
      | None \<Rightarrow>
          (case (if k = ''browser_script'' then browser_script_run_id_from_payload (event_payload e) else None) of
             Some run \<Rightarrow> k @ '':'' @ run
           | None \<Rightarrow> k @ '':'' @ re_id e))"

definition item_kinds :: "string list" where
  "item_kinds = [''exec_command'', ''browser_script'', ''python'', ''mcp_tool'', ''tool'']"

definition activity_keys_for_event :: "runtime_event \<Rightarrow> string list" where
  "activity_keys_for_event e =
     (case activity_tool_call_id e of
        Some c \<Rightarrow> map (\<lambda>k. k @ '':'' @ c) item_kinds
      | None \<Rightarrow>
          (case browser_script_run_id_from_payload (event_payload e) of
             Some run \<Rightarrow> [''browser_script:'' @ run]
           | None \<Rightarrow> map (activity_key e) item_kinds))"

text \<open>\<open>find(..)\<close> on a mutable list: the first element that matches is replaced.\<close>

fun update_first :: "('a \<Rightarrow> bool) \<Rightarrow> ('a \<Rightarrow> 'a) \<Rightarrow> 'a list \<Rightarrow> 'a list" where
  "update_first p f [] = []"
| "update_first p f (x # xs) = (if p x then f x # xs else x # update_first p f xs)"

definition start_activity :: "runtime_event \<Rightarrow> string \<Rightarrow> string option \<Rightarrow> live_state \<Rightarrow> live_state" where
  "start_activity e k name l =
     (let key = activity_key e k;
          it = \<lparr> ac_key = key, ac_kind = k, ac_name = name, ac_tool_call = activity_tool_call_id e, ac_last_delta = None \<rparr>
      in l\<lparr> lv_active_items :=
              (if list_ex (\<lambda>a. ac_key a = key) (lv_active_items l)
               then update_first (\<lambda>a. ac_key a = key) (\<lambda>_. it) (lv_active_items l)
               else lv_active_items l @ [it]) \<rparr>)"

definition update_activity_delta :: "runtime_event \<Rightarrow> string option \<Rightarrow> live_state \<Rightarrow> live_state" where
  "update_activity_delta e delta l =
     (case delta of
        None \<Rightarrow> l
      | Some d \<Rightarrow>
          l\<lparr> lv_active_items :=
               update_first (\<lambda>a. ac_key a \<in> set (activity_keys_for_event e)) (\<lambda>a. a\<lparr> ac_last_delta := Some d \<rparr>)
                 (lv_active_items l) \<rparr>)"

definition finish_activity :: "runtime_event \<Rightarrow> live_state \<Rightarrow> live_state" where
  "finish_activity e l =
     l\<lparr> lv_active_items := filter (\<lambda>a. ac_key a \<notin> set (activity_keys_for_event e)) (lv_active_items l) \<rparr>"

section \<open>Model requests\<close>

definition request_unknown :: model_request where
  "request_unknown =
     \<lparr> mr_model = None, mr_provider = None, mr_turn_idx = None, mr_attempt = None, mr_status = ''requesting'',
       mr_retry_count = 0, mr_last_error = None \<rparr>"

definition from_request_payload :: "json \<Rightarrow> model_request" where
  "from_request_payload p =
     \<lparr> mr_model = get_str p ''model'', mr_provider = get_str p ''provider'', mr_turn_idx = get_i64 p ''turn_idx'',
       mr_attempt = Option.bind (json_get p ''attempt'') value_to_u64, mr_status = ''requesting'', mr_retry_count = 0,
       mr_last_error = None \<rparr>"

definition from_retry_payload :: "model_request option \<Rightarrow> json \<Rightarrow> model_request" where
  "from_retry_payload prev p =
     (let r = unwrap_or request_unknown prev in
      r\<lparr> mr_status := ''retrying'', mr_retry_count := sat_add1 (mr_retry_count r),
         mr_attempt := or_else (Option.bind (json_get p ''attempt'') value_to_u64) (mr_attempt r),
         mr_last_error := or_else (terminal_failure p) (mr_last_error r) \<rparr>)"

definition from_error_payload :: "model_request option \<Rightarrow> json \<Rightarrow> model_request" where
  "from_error_payload prev p =
     (let r = (case prev of Some x \<Rightarrow> x | None \<Rightarrow> from_request_payload p) in
      r\<lparr> mr_status := ''error'',
         mr_attempt := or_else (Option.bind (json_get p ''attempt'') value_to_u64) (mr_attempt r),
         mr_last_error := terminal_failure p \<rparr>)"

section \<open>Reducing an event\<close>

definition of_agent :: "runtime_event \<Rightarrow> agent_snapshot \<Rightarrow> bool" where
  "of_agent e a = (re_agent e = Some (an_agent a) \<or> re_session e = Some (an_session a))"

definition on_agent :: "runtime_event \<Rightarrow> (agent_snapshot \<Rightarrow> agent_snapshot) \<Rightarrow> runtime_snapshot \<Rightarrow> runtime_snapshot" where
  "on_agent e f s = s\<lparr> rs_agents := update_first (of_agent e) f (rs_agents s) \<rparr>"

definition on_agent_live :: "runtime_event \<Rightarrow> (live_state \<Rightarrow> live_state) \<Rightarrow> runtime_snapshot \<Rightarrow> runtime_snapshot" where
  "on_agent_live e f = on_agent e (\<lambda>a. a\<lparr> an_live := f (an_live a) \<rparr>)"

definition upsert_agent_from_event ::
  "runtime_event \<Rightarrow> (string \<times> string \<times> string) option \<Rightarrow> runtime_snapshot \<Rightarrow> runtime_snapshot" where
  "upsert_agent_from_event e parent s =
     (case (re_agent e, re_session e) of
        (Some a, Some sid) \<Rightarrow>
          (let same = (\<lambda>x. an_agent x = a \<or> an_session x = sid);
               known = find same (rs_agents s);
               root = unwrap_or sid (or_else (re_root e) (map_option an_root known));
               cwd = unwrap_or [] (or_else (get_str (re_payload e) ''cwd'')
                       (or_else (map_option (\<lambda>(_, _, c). c) parent) (map_option an_cwd known)));
               role = or_else (get_str (re_payload e) ''role'')
                        (case parent of Some _ \<Rightarrow> None | None \<Rightarrow> Some ''default'');
               fresh = \<lparr> an_agent = a, an_session = sid, an_root = root, an_cwd = cwd,
                         an_parent_agent = map_option fst parent, an_parent_session = map_option (fst \<circ> snd) parent,
                         an_path = unwrap_or ''/root'' (get_str (re_payload e) ''agent_path''),
                         an_nickname = get_str (re_payload e) ''nickname'', an_role = role,
                         an_status = unwrap_or TsCreated (projected_thread_status_for_event e),
                         an_live = live_default \<rparr>
           in (case known of
                 Some _ \<Rightarrow>
                   s\<lparr> rs_agents := update_first same
                        (\<lambda>x. fresh\<lparr> an_agent := an_agent x, an_live := an_live x \<rparr>) (rs_agents s) \<rparr>
               | None \<Rightarrow> s\<lparr> rs_agents := rs_agents s @ [fresh] \<rparr>))
      | _ \<Rightarrow> s)"

definition upsert_spawned_child :: "runtime_event \<Rightarrow> runtime_snapshot \<Rightarrow> runtime_snapshot" where
  "upsert_spawned_child e s =
     (case (Option.bind (get_str (re_payload e) ''child_agent_id'') id_ok,
            Option.bind (get_str (re_payload e) ''child_session_id'') id_ok) of
        (Some a, Some sid) \<Rightarrow>
          upsert_agent_from_event (e\<lparr> re_agent := Some a, re_session := Some sid \<rparr>)
            (map_option (\<lambda>x. (an_agent x, an_session x, an_cwd x)) (find (of_agent e) (rs_agents s))) s
      | _ \<Rightarrow> s)"

definition starts_run :: "runtime_event_kind \<Rightarrow> bool" where
  "starts_run k = (k \<in> {AgentStarted, AgentContinuationStarted, AgentTurnStarted})"

definition ends_run :: "runtime_event_kind \<Rightarrow> bool" where
  "ends_run k =
     (k \<in> {AgentCompleted, AgentFailed, AgentCancelled, AgentClosed, AgentTurnCompleted, AgentTurnAborted})"

definition reduce_status :: "runtime_event \<Rightarrow> runtime_snapshot \<Rightarrow> runtime_snapshot" where
  "reduce_status e s =
     (case projected_thread_status_for_event e of
        None \<Rightarrow> s
      | Some st \<Rightarrow>
          on_agent e (\<lambda>a. a\<lparr> an_status := st, an_live :=
             (if starts_run (re_kind e)
              then (an_live a)\<lparr> lv_run := or_else (re_run e) (lv_run (an_live a)), lv_cancel_requested := False \<rparr>
              else if ends_run (re_kind e) then (an_live a)\<lparr> lv_run := None \<rparr>
              else an_live a) \<rparr>) s)"

definition reduce_mailbox_enqueued :: "json \<Rightarrow> live_state \<Rightarrow> live_state" where
  "reduce_mailbox_enqueued p l =
     (case mailbox_item_from_payload p of None \<Rightarrow> l | Some it \<Rightarrow> record_mailbox_enqueued l it)"

definition payload_max_seq :: "json \<Rightarrow> nat" where
  "payload_max_seq p =
     unwrap_or 0 (or_else (max_opt (map mi_seq (mailbox_items_from_payload p))) (max_mailbox_seq_from_payload p))"

definition reduce_mailbox_delivered :: "json \<Rightarrow> live_state \<Rightarrow> live_state" where
  "reduce_mailbox_delivered p l = l\<lparr> lv_last_delivered := max (lv_last_delivered l) (payload_max_seq p) \<rparr>"

definition reduce_mailbox_consumed :: "json \<Rightarrow> live_state \<Rightarrow> live_state" where
  "reduce_mailbox_consumed p l =
     (let its = mailbox_items_from_payload p;
          n = max (length its) (nat (unwrap_or 0 (get_u64 p ''count'')))
      in l\<lparr> lv_pending_mailbox := lv_pending_mailbox l - n,
            lv_pending_trigger := lv_pending_trigger l - length (filter mi_trigger its),
            lv_last_consumed := max (lv_last_consumed l) (payload_max_seq p) \<rparr>)"

definition reduce_agent :: "runtime_event \<Rightarrow> runtime_snapshot \<Rightarrow> runtime_snapshot" where
  "reduce_agent e s =
     (let k = re_kind e in
      if k \<in> {AgentCreated, AgentResumed} then upsert_agent_from_event e None s
      else if k = SubagentSpawnStarted then upsert_spawned_child e s
      else if k = AgentInputAccepted then
        on_agent_live e (\<lambda>l. l\<lparr> lv_accepted_input := sat_add1 (lv_accepted_input l) \<rparr>) s
      else if k = AgentInputConsumed then
        on_agent_live e (\<lambda>l. l\<lparr> lv_pending_prompt := lv_pending_prompt l - 1 \<rparr>) s
      else if k \<in> {AgentCancelRequested, AgentCloseRequested} then
        on_agent_live e (\<lambda>l. l\<lparr> lv_cancel_requested := True \<rparr>) s
      else if k = AgentQueued \<or> starts_run k \<or> ends_run k then reduce_status e s
      else if k = MailboxEnqueued then on_agent_live e (reduce_mailbox_enqueued (re_payload e)) s
      else if k = MailboxDelivered then on_agent_live e (reduce_mailbox_delivered (re_payload e)) s
      else if k = MailboxConsumed then on_agent_live e (reduce_mailbox_consumed (re_payload e)) s
      else s)"

text \<open>The part of \<open>reduce_live_activity\<close> that goes by the kind of the event.\<close>

definition end_items :: "live_state \<Rightarrow> live_state" where
  "end_items l = l\<lparr> lv_active_items := [], lv_model_request := None \<rparr>"

definition note_result :: "json \<Rightarrow> live_state \<Rightarrow> live_state" where
  "note_result p l =
     (case terminal_result p of None \<Rightarrow> l | Some r \<Rightarrow> l\<lparr> lv_final_result := Some r, lv_failure := None \<rparr>)"

definition note_failure :: "json \<Rightarrow> live_state \<Rightarrow> live_state" where
  "note_failure p l = (case terminal_failure p of None \<Rightarrow> l | Some r \<Rightarrow> l\<lparr> lv_failure := Some r \<rparr>)"

definition activity_by_kind :: "runtime_event \<Rightarrow> live_state \<Rightarrow> live_state" where
  "activity_by_kind e l =
     (let k = re_kind e; p = event_payload e in
      if k = ExecCommandBegin then start_activity e ''exec_command'' (Some ''exec_command'') l
      else if k = BrowserScriptStarted then start_activity e ''browser_script'' (Some ''browser_script'') l
      else if k = PythonStarted then start_activity e ''python'' (Some ''python'') l
      else if k = McpToolStarted then start_activity e ''mcp_tool'' (activity_name p) l
      else if k \<in> {ExecCommandOutputDelta, BrowserScriptOutputDelta, PythonOutputDelta, ToolOutputDelta}
        then update_activity_delta e (output_delta_text p) l
      else if k \<in> {ExecCommandEnd, BrowserScriptCompleted, BrowserScriptCancelled, BrowserScriptFailed,
                   PythonCompleted, McpToolCompleted, ToolCompleted, ToolFailed}
        then finish_activity e l
      else if k \<in> {AgentTurnCompleted, AgentCompleted} then end_items (note_result p l)
      else if k \<in> {AgentTurnAborted, AgentFailed, AgentCancelled} then end_items (note_failure p l)
      else l)"

text \<open>The part that goes by the type of an observed session event.\<close>

definition clear_deltas :: "live_state \<Rightarrow> live_state" where
  "clear_deltas l = l\<lparr> lv_model_delta := None, lv_thinking_delta := None \<rparr>"

definition activity_by_type :: "string \<Rightarrow> runtime_event \<Rightarrow> live_state \<Rightarrow> live_state" where
  "activity_by_type t e l =
     (let p = event_payload e in
      if t = ''model.turn.request'' then clear_deltas (l\<lparr> lv_model_request := Some (from_request_payload p) \<rparr>)
      else if t = ''model.turn.retry'' then
        clear_deltas (l\<lparr> lv_model_request := Some (from_retry_payload (lv_model_request l) p) \<rparr>)
      else if t = ''model.turn.error'' then
        (let r = from_error_payload (lv_model_request l) p in
         clear_deltas (l\<lparr> lv_failure := mr_last_error r, lv_model_request := Some r \<rparr>))
      else if t = ''model.turn.response'' then l\<lparr> lv_model_request := None \<rparr>
      else if t = ''model.stream_delta'' then
        l\<lparr> lv_model_delta := or_else (output_delta_text p) (lv_model_delta l) \<rparr>
      else if t = ''model.thinking_delta'' then
        l\<lparr> lv_thinking_delta := or_else (output_delta_text p) (lv_thinking_delta l) \<rparr>
      else if t = ''tool.started'' then start_activity e ''tool'' (activity_name p) l
      else if t = ''tool.output_delta'' then update_activity_delta e (output_delta_text p) l
      else if t = ''tool.output'' then finish_activity e l
      else if t \<in> {''tool.failed'', ''tool.aborted''} then finish_activity e (note_failure p l)
      else if t = ''token_count'' then
        (case json_get p ''info'' of
           None \<Rightarrow> l
         | Some i \<Rightarrow> l\<lparr> lv_last_usage := json_get i ''last_token_usage'', lv_total_usage := json_get i ''total_token_usage'',
                       lv_context_window := get_i64 i ''model_context_window'' \<rparr>)
      else if t = ''session.done'' then end_items (note_result p l)
      else if t = ''session.failed'' then end_items (note_failure p l)
      else if t = ''stream_error'' then
        (note_failure p l)\<lparr> lv_active_items := [], lv_model_request := Some (from_error_payload (lv_model_request l) p) \<rparr>
      else l)"

definition reduce_live_activity :: "runtime_event \<Rightarrow> runtime_snapshot \<Rightarrow> runtime_snapshot" where
  "reduce_live_activity e =
     on_agent_live e (\<lambda>l.
       (let l1 = activity_by_kind e l in
        case observed_event_type e of None \<Rightarrow> l1 | Some t \<Rightarrow> activity_by_type t e l1))"

text \<open>The browsers. \<open>config_of\<close> is the derived deserializer of a browser's configuration.\<close>

definition on_browser_snapshot ::
  "string \<Rightarrow> (browser_snapshot \<Rightarrow> browser_snapshot) \<Rightarrow> runtime_snapshot \<Rightarrow> runtime_snapshot" where
  "on_browser_snapshot b f s = s\<lparr> rs_browsers := update_first (\<lambda>x. bn_id x = b) f (rs_browsers s) \<rparr>"

definition upsert_browser :: "browser_snapshot \<Rightarrow> runtime_snapshot \<Rightarrow> runtime_snapshot" where
  "upsert_browser n s =
     (if list_ex (\<lambda>x. bn_id x = bn_id n) (rs_browsers s) then on_browser_snapshot (bn_id n) (\<lambda>_. n) s
      else s\<lparr> rs_browsers := rs_browsers s @ [n] \<rparr>)"

definition upsert_browser_script :: "script_snapshot \<Rightarrow> browser_snapshot \<Rightarrow> browser_snapshot" where
  "upsert_browser_script sc b =
     b\<lparr> bn_scripts :=
          (if list_ex (\<lambda>x. ss_run x = ss_run sc) (bn_scripts b)
           then update_first (\<lambda>x. ss_run x = ss_run sc) (\<lambda>_. sc) (bn_scripts b)
           else sort_key ss_run (bn_scripts b @ [sc])) \<rparr>"

definition update_browser_script_delta :: "string \<Rightarrow> string option \<Rightarrow> browser_snapshot \<Rightarrow> browser_snapshot" where
  "update_browser_script_delta run delta b =
     (case delta of
        None \<Rightarrow> b
      | Some d \<Rightarrow>
          b\<lparr> bn_scripts := update_first (\<lambda>x. ss_run x = run) (\<lambda>x. x\<lparr> ss_last_delta := Some d \<rparr>) (bn_scripts b) \<rparr>)"

definition reduce_browser :: "(json \<Rightarrow> browser_config option) \<Rightarrow> runtime_event \<Rightarrow> runtime_snapshot \<Rightarrow> runtime_snapshot" where
  "reduce_browser config_of e s =
     (case re_browser e of
        None \<Rightarrow> s
      | Some b \<Rightarrow>
          (let k = re_kind e; p = event_payload e in
           if k = BrowserCreated then
             upsert_browser
               \<lparr> bn_id = b,
                 bn_config = unwrap_or browser_config_default (Option.bind (json_get (re_payload e) ''config'') config_of),
                 bn_status = BsCreated, bn_active = None, bn_scripts = [] \<rparr> s
           else if k = BrowserStarted then on_browser_snapshot b (\<lambda>x. x\<lparr> bn_status := BsStarted \<rparr>) s
           else if k = BrowserClaimed then
             on_browser_snapshot b
               (\<lambda>x. x\<lparr> bn_status := BsClaimed,
                       bn_active := or_else (re_agent e) (Option.bind (get_str (re_payload e) ''agent_id'') id_ok) \<rparr>) s
           else if k = BrowserReleased then
             on_browser_snapshot b (\<lambda>x. x\<lparr> bn_status := BsReleased, bn_active := None \<rparr>) s
           else if k = BrowserClosed then
             (if list_ex (\<lambda>x. bn_id x = b) (rs_browsers s)
              then on_browser_snapshot b (\<lambda>x. x\<lparr> bn_status := BsClosed, bn_active := None, bn_scripts := [] \<rparr>) s
              else s\<lparr> rs_browsers := rs_browsers s @
                        [\<lparr> bn_id = b, bn_config = browser_config_default, bn_status = BsClosed, bn_active = None,
                           bn_scripts = [] \<rparr>] \<rparr>)
           else if k = BrowserScriptStarted then
             (case browser_script_snapshot_from_payload p (re_session e) (re_agent e) of
                None \<Rightarrow> s
              | Some sc \<Rightarrow> on_browser_snapshot b (upsert_browser_script sc) s)
           else if k = BrowserScriptOutputDelta then
             (case browser_script_run_id_from_payload p of
                None \<Rightarrow> s
              | Some run \<Rightarrow> on_browser_snapshot b (update_browser_script_delta run (output_delta_text p)) s)
           else if k \<in> {BrowserScriptCompleted, BrowserScriptCancelled, BrowserScriptFailed} then
             (case browser_script_run_id_from_payload p of
                None \<Rightarrow> s
              | Some run \<Rightarrow>
                  on_browser_snapshot b (\<lambda>x. x\<lparr> bn_scripts := filter (\<lambda>y. ss_run y \<noteq> run) (bn_scripts x) \<rparr>) s)
           else s))"

definition projection_event :: "(json \<Rightarrow> browser_config option) \<Rightarrow> runtime_event \<Rightarrow> runtime_snapshot \<Rightarrow> runtime_snapshot" where
  "projection_event config_of e s = reduce_browser config_of e (reduce_live_activity e (reduce_agent e s))"

definition apply_event ::
  "(json \<Rightarrow> browser_config option) \<Rightarrow> runtime_snapshot \<Rightarrow> runtime_event \<Rightarrow> projected_event \<times> runtime_snapshot" where
  "apply_event config_of s e =
     (let s' = projection_event config_of e s in ((project e)\<lparr> pe_snapshot := Some s' \<rparr>, s'))"

end
