(* ===== verification/RtRun.thy ===== *)
theory RtRun
  imports RtProjection "HOL-Library.Word"
begin

unbundle bit_operations_syntax

text \<open>
  The handle of the runtime (\<open>crates/browser-use-runtime/src/lib.rs\<close>, \<open>RuntimeHandle\<close>): observed
  session events, the browsers an agent claims through the runtime, one run of an agent with the release of
  its browser on every path, and the requests of the local socket. The future an agent runs is an argument:
  what it does to the runtime and its result.
\<close>

section \<open>Observed events\<close>

definition observed_payload :: "string \<Rightarrow> int option \<Rightarrow> json \<Rightarrow> json" where
  "observed_payload t n p =
     JObj [(''event_type'', JStr t), (''payload'', p), (''seq'', json_opt JNum n)]"

definition append_observed_session_event ::
  "id_supply \<Rightarrow> 'j persistence \<Rightarrow> string \<Rightarrow> string \<Rightarrow> json \<Rightarrow> durability \<Rightarrow> ('j, int option) action" where
  "append_observed_session_event sp P sid t payload d =
     bnd (on_journal (\<lambda>j. p_append_session P j sid t payload)) (\<lambda>n.
     bnd (of_result (id_from_string ''AgentId'' sid)) (\<lambda>a.
     bnd (new_event sp (from_observed_event_type t) d) (\<lambda>e.
     bnd (reading (\<lambda>s. Inr (map_option th_root (map_of (rn_threads s) a)))) (\<lambda>root.
       seqn (publish (e\<lparr> re_session := Some sid, re_agent := Some a, re_payload := observed_payload t n payload,
                       re_root := root \<rparr>))
         (ret n)))))"

definition on_browsers :: "(browsers \<Rightarrow> (runtime_error + 'a) \<times> browsers) \<Rightarrow> ('j, 'a) action" where
  "on_browsers f s = (let (r, b) = f (rn_browsers s) in (r, s\<lparr> rn_browsers := b \<rparr>))"

definition record_script_event :: "string \<Rightarrow> string \<Rightarrow> string \<Rightarrow> string \<Rightarrow> json \<Rightarrow> ('j, unit) action" where
  "record_script_event b sid a t p =
     (if t = ''browser_script.started'' then
        (case browser_script_snapshot_from_payload p (Some sid) (Some a) of
           None \<Rightarrow> ret ()
         | Some sc \<Rightarrow> on_browsers (\<lambda>m. record_script_started m b sc))
      else if t = ''browser_script.output_delta'' then
        (case browser_script_run_id_from_payload p of
           None \<Rightarrow> ret ()
         | Some run \<Rightarrow> on_browsers (\<lambda>m. record_script_output_delta m b run (output_delta_text p)))
      else if t \<in> {''browser_script.completed'', ''browser_script.cancelled'', ''browser_script.failed''} then
        (case browser_script_run_id_from_payload p of
           None \<Rightarrow> ret ()
         | Some run \<Rightarrow> on_browsers (\<lambda>m. record_script_finished m b run))
      else ret ())"

definition append_observed_browser_session_event ::
  "id_supply \<Rightarrow> 'j persistence \<Rightarrow> string \<Rightarrow> string \<Rightarrow> string \<Rightarrow> json \<Rightarrow> durability \<Rightarrow> ('j, int option) action" where
  "append_observed_browser_session_event sp P sid b t payload d =
     bnd (thread_for_session sid) (\<lambda>th.
     bnd (reading (\<lambda>s. manager_snapshot (rn_browsers s) b)) (\<lambda>_.
     bnd (on_journal (\<lambda>j. p_append_session P j sid t payload)) (\<lambda>n.
     seqn (record_script_event b sid (th_agent th) t payload)
     (bnd (new_event sp (from_observed_event_type t) d) (\<lambda>e.
       seqn (publish (e\<lparr> re_session := Some sid, re_agent := Some (th_agent th), re_browser := Some b,
                       re_payload := observed_payload t n payload, re_root := Some (th_root th) \<rparr>))
         (ret n))))))"

section \<open>Browsers\<close>

text \<open>\<open>config_json\<close> is the derived serializer of a browser's configuration.\<close>

definition rt_create_browser ::
  "id_supply \<Rightarrow> (browser_config \<Rightarrow> json) \<Rightarrow> browser_config \<Rightarrow> ('j, string) action" where
  "rt_create_browser sp config_json c =
     bnd (fresh_id sp) (\<lambda>i.
     bnd (on_browsers (\<lambda>m. (Inr (), snd (create_browser m i c)))) (\<lambda>_.
     bnd (new_event sp BrowserCreated BestEffort) (\<lambda>e.
       seqn (publish (e\<lparr> re_browser := Some i,
               re_payload := JObj [(''browser_id'', JStr i), (''config'', config_json c), (''runtime_owned'', JBool True)] \<rparr>))
         (ret i))))"

definition browser_event ::
  "id_supply \<Rightarrow> runtime_event_kind \<Rightarrow> agent_thread \<Rightarrow> string \<Rightarrow> string \<Rightarrow> (string \<times> json) list \<Rightarrow> ('j, runtime_event) action" where
  "browser_event sp k t a b extra =
     bnd (thread_event sp k Barrier t
            (JObj ([(''agent_id'', JStr a), (''browser_id'', JStr b)] @ extra @ [(''runtime_owned'', JBool True)])))
       (\<lambda>e. ret (e\<lparr> re_agent := Some a, re_browser := Some b \<rparr>))"

definition create_browser_for_agent ::
  "id_supply \<Rightarrow> 'j persistence \<Rightarrow> (browser_config \<Rightarrow> json) \<Rightarrow> string \<Rightarrow> browser_config \<Rightarrow> ('j, string) action" where
  "create_browser_for_agent sp P config_json a c =
     bnd (thread a) (\<lambda>t. bnd (fresh_id sp) (\<lambda>i.
     bnd (browser_event sp BrowserCreated t a i [(''config'', config_json c)]) (\<lambda>e.
       seqn (append_event P e)
         (seqn (on_browsers (\<lambda>m. create_browser_with_id m i c)) (seqn (publish e) (ret i))))))"

definition rt_claim_browser ::
  "id_supply \<Rightarrow> 'j persistence \<Rightarrow> string \<Rightarrow> string \<Rightarrow> ('j, browser_lease) action" where
  "rt_claim_browser sp P b a =
     bnd (thread a) (\<lambda>t.
     bnd (reading (\<lambda>s. validate_browser_claim (rn_browsers s) b a)) (\<lambda>_.
     bnd (browser_event sp BrowserClaimed t a b []) (\<lambda>e.
       seqn (append_event P e)
         (bnd (on_browsers (\<lambda>m. claim_browser m b a)) (\<lambda>l. seqn (publish e) (ret l))))))"

definition rt_release_browser :: "id_supply \<Rightarrow> 'j persistence \<Rightarrow> browser_lease \<Rightarrow> ('j, unit) action" where
  "rt_release_browser sp P l =
     bnd (thread (bl_agent l)) (\<lambda>t.
     bnd (reading (\<lambda>s. validate_browser_release (rn_browsers s) l)) (\<lambda>_.
     bnd (browser_event sp BrowserReleased t (bl_agent l) (bl_browser l) []) (\<lambda>e.
       seqn (append_event P e) (seqn (on_browsers (\<lambda>m. release_browser m l)) (publish e)))))"

text \<open>The action runs between a claim and its release; its own error wins over one of the release.\<close>

definition with_browser_action ::
  "id_supply \<Rightarrow> 'j persistence \<Rightarrow> string \<Rightarrow> string \<Rightarrow> ('j, 'a) action \<Rightarrow> ('j, 'a) action" where
  "with_browser_action sp P b a act =
     bnd (reading (\<lambda>s. browser_ref (rn_browsers s) b)) (\<lambda>_.
     bnd (rt_claim_browser sp P b a) (\<lambda>l s.
       (let (r, s1) = act s; (q, s2) = rt_release_browser sp P l s1
        in (case (r, q) of
              (Inr v, Inr _) \<Rightarrow> (Inr v, s2)
            | (Inr _, Inl e) \<Rightarrow> (Inl e, s2)
            | (Inl e, _) \<Rightarrow> (Inl e, s2)))))"

definition rt_close_browser :: "id_supply \<Rightarrow> string \<Rightarrow> ('j, unit) action" where
  "rt_close_browser sp b =
     bnd (on_browsers (\<lambda>m. close_browser m b)) (\<lambda>_.
     bnd (new_event sp BrowserClosed BestEffort) (\<lambda>e.
       publish (e\<lparr> re_browser := Some b,
                  re_payload := JObj [(''browser_id'', JStr b), (''runtime_owned'', JBool True)] \<rparr>)))"

definition close_browser_for_agent :: "id_supply \<Rightarrow> 'j persistence \<Rightarrow> string \<Rightarrow> string \<Rightarrow> ('j, unit) action" where
  "close_browser_for_agent sp P b a =
     bnd (thread a) (\<lambda>t.
     bnd (reading (\<lambda>s. validate_browser_close (rn_browsers s) b)) (\<lambda>_.
     bnd (browser_event sp BrowserClosed t a b []) (\<lambda>e.
       seqn (append_event P e) (seqn (on_browsers (\<lambda>m. close_browser m b)) (publish e)))))"

section \<open>One run of an agent\<close>

datatype resume_mode = ResumeContinue | ResumeReplay | ResumeFresh

fun resume_mode_str :: "resume_mode \<Rightarrow> string" where
  "resume_mode_str ResumeContinue = ''continue''"
| "resume_mode_str ResumeReplay = ''replay''"
| "resume_mode_str ResumeFresh = ''fresh''"

record run_request =
  rq_agent :: "string option"
  rq_session :: string
  rq_run :: string
  rq_provider :: "json option"
  rq_initial :: "json option"
  rq_browser :: "string option"
  rq_cwd :: "string option"
  rq_source :: "string option"
  rq_mode :: resume_mode
  rq_token :: nat

record 'a run_response =
  rr_agent :: string
  rr_session :: string
  rr_run :: string
  rr_status :: thread_status
  rr_result :: "string option"
  rr_usage :: "json option"
  rr_terminal_seq :: "int option"
  rr_output :: 'a

definition run_request_new :: "string \<Rightarrow> string \<Rightarrow> nat \<Rightarrow> run_request" where
  "run_request_new sid run token =
     \<lparr> rq_agent = None, rq_session = sid, rq_run = run, rq_provider = None, rq_initial = None, rq_browser = None,
       rq_cwd = None, rq_source = None, rq_mode = ResumeContinue, rq_token = token \<rparr>"

definition initial_input_source_event_seq :: "json \<Rightarrow> int option" where
  "initial_input_source_event_seq v =
     or_else (get_i64 v ''source_event_seq'')
       (Option.bind (json_get v ''payload'') (\<lambda>p. get_i64 p ''source_event_seq''))"

definition final_result_event_from_events :: "event_record list \<Rightarrow> (int \<times> string) option" where
  "final_result_event_from_events es =
     find_map (\<lambda>e. if ev_type e \<noteq> ''session.done'' then None
                   else map_option (Pair (ev_seq e)) (pstr e ''result'')) (rev es)"

text \<open>What an early return does: the live run ends (once it began) and the lease is given back; an error
  of the release wins.\<close>

definition release_lease :: "id_supply \<Rightarrow> 'j persistence \<Rightarrow> browser_lease option \<Rightarrow> ('j, unit) action" where
  "release_lease sp P lease = (case lease of None \<Rightarrow> ret () | Some l \<Rightarrow> rt_release_browser sp P l)"

definition on_error :: "('j, unit) action \<Rightarrow> ('j, 'a) action \<Rightarrow> ('j, 'a) action" where
  "on_error cleanup m s =
     (case m s of (Inl e, s1) \<Rightarrow> seqn cleanup (fail e) s1 | (Inr x, s1) \<Rightarrow> (Inr x, s1))"

definition end_run :: "id_supply \<Rightarrow> 'j persistence \<Rightarrow> string \<Rightarrow> browser_lease option \<Rightarrow> ('j, unit) action" where
  "end_run sp P a lease = seqn (modify (on_live a finish_run)) (release_lease sp P lease)"

definition run_event ::
  "id_supply \<Rightarrow> 'j persistence \<Rightarrow> runtime_event_kind \<Rightarrow> agent_thread \<Rightarrow> run_request \<Rightarrow> (string \<times> json) list \<Rightarrow> ('j, int option) action" where
  "run_event sp P k t req extra =
     bnd (new_event sp k Barrier) (\<lambda>e.
       publish_after_barrier P
         (e\<lparr> re_agent := Some (th_agent t), re_session := Some (rq_session req), re_root := Some (th_root t),
            re_run := Some (rq_run req),
            re_payload := foldl (\<lambda>m (k, v). json_insert k v m)
              (JObj [(''run_id'', JStr (rq_run req)), (''runtime_owned'', JBool True)]) extra \<rparr>))"

definition started_fields :: "run_request \<Rightarrow> (string \<times> json) list" where
  "started_fields req =
     [(''provider_config'', unwrap_or JNull (rq_provider req)), (''initial_input'', unwrap_or JNull (rq_initial req)),
      (''browser_id'', json_opt JStr (rq_browser req)), (''cwd'', json_opt JStr (rq_cwd req)),
      (''input_source'', json_opt JStr (rq_source req)), (''resume_mode'', JStr (resume_mode_str (rq_mode req)))]"

definition run_failed ::
  "id_supply \<Rightarrow> 'j persistence \<Rightarrow> agent_thread \<Rightarrow> run_request \<Rightarrow> browser_lease option \<Rightarrow> bool \<Rightarrow> runtime_error \<Rightarrow> ('j, 'a) action" where
  "run_failed sp P t req lease cancelled err =
     (let a = th_agent t; txt = JStr (runtime_error_text err);
          ty = (if cancelled then ''session.cancelled'' else ''session.failed'');
          flags = [(''error'', txt), (''cancelled'', JBool cancelled)]
      in seqn (on_error (end_run sp P a lease)
           (bnd (run_event sp P AgentTurnAborted t req flags) (\<lambda>_.
            bnd (on_journal (\<lambda>j. p_append_session P j (rq_session req) ty
                   (JObj [(if cancelled then ''reason'' else ''error'', txt), (''runtime_owned'', JBool True)]))) (\<lambda>n.
              run_event sp P (if cancelled then AgentCancelled else AgentFailed) t req
                (flags @ [(''terminal_event_type'', JStr ty), (''terminal_event_seq'', json_opt JNum n)])))))
         (seqn (modify (set_status a (if cancelled then TsCancelled else TsFailed)))
           (seqn (end_run sp P a lease) (fail err))))"

definition run_cancelled ::
  "id_supply \<Rightarrow> 'j persistence \<Rightarrow> agent_thread \<Rightarrow> run_request \<Rightarrow> browser_lease option \<Rightarrow> 'a \<Rightarrow> ('j, 'a run_response) action" where
  "run_cancelled sp P t req lease out =
     (let a = th_agent t; reason = JStr ''cancelled by user'';
          flags = [(''error'', reason), (''cancelled'', JBool True)]
      in bnd (on_error (end_run sp P a lease)
           (bnd (run_event sp P AgentTurnAborted t req flags) (\<lambda>_.
            bnd (on_journal (\<lambda>j. p_append_session P j (rq_session req) ''session.cancelled''
                   (JObj [(''reason'', reason), (''runtime_owned'', JBool True)]))) (\<lambda>n.
              run_event sp P AgentCancelled t req
                (flags @ [(''terminal_event_type'', JStr ''session.cancelled''), (''terminal_event_seq'', json_opt JNum n)])))))
         (\<lambda>n. seqn (modify (set_status a TsCancelled))
            (seqn (end_run sp P a lease)
              (ret \<lparr> rr_agent = a, rr_session = rq_session req, rr_run = rq_run req, rr_status = TsCancelled,
                     rr_result = None, rr_usage = None, rr_terminal_seq = n, rr_output = out \<rparr>))))"

definition run_completed ::
  "id_supply \<Rightarrow> 'j persistence \<Rightarrow> agent_thread \<Rightarrow> run_request \<Rightarrow> browser_lease option \<Rightarrow> 'a \<Rightarrow> ('j, 'a run_response) action" where
  "run_completed sp P t req lease out =
     (let a = th_agent t in
      bnd (on_error (end_run sp P a lease) (run_event sp P AgentTurnCompleted t req [])) (\<lambda>tn.
      bnd (reading (\<lambda>s. Inr (case p_events P (rn_journal s) (rq_session req) of
                               Inl _ \<Rightarrow> None | Inr es \<Rightarrow> final_result_event_from_events es))) (\<lambda>fin.
      bnd (on_error (end_run sp P a lease)
             (run_event sp P AgentCompleted t req
                [(''result'', json_opt JStr (map_option snd fin)), (''terminal_event_type'', JStr ''session.done''),
                 (''terminal_event_seq'', json_opt JNum (map_option fst fin)),
                 (''turn_completed_event_seq'', json_opt JNum tn)])) (\<lambda>n.
        seqn (modify (set_status a TsCompleted))
          (seqn (end_run sp P a lease)
            (ret \<lparr> rr_agent = a, rr_session = rq_session req, rr_run = rq_run req, rr_status = TsCompleted,
                   rr_result = map_option snd fin, rr_usage = None, rr_terminal_seq = n, rr_output = out \<rparr>))))))"

text \<open>The guard that takes the run off the registry is dropped last, on every path after it was made.\<close>

definition with_run_guard :: "string \<Rightarrow> ('j, 'a) action \<Rightarrow> ('j, 'a) action" where
  "with_run_guard sid m s = (let (r, s1) = m s in (r, unregister_run sid s1))"

definition run_agent ::
  "id_supply \<Rightarrow> 'j persistence \<Rightarrow> run_request \<Rightarrow> ('j, 'a) action \<Rightarrow> ('j, 'a run_response) action" where
  "run_agent sp P req body =
     bnd (thread_for_session (rq_session req)) (\<lambda>t.
       if (case rq_agent req of None \<Rightarrow> False | Some a \<Rightarrow> a \<noteq> th_agent t)
       then fail (RtMessage (''run_agent agent/session mismatch: request agent '' @ unwrap_or [] (rq_agent req)
              @ '' maps to session '' @ rq_session req @ '', but runtime owns agent '' @ th_agent t))
       else (let a = th_agent t in
         bnd (case rq_browser req of
                None \<Rightarrow> ret None
              | Some b \<Rightarrow> bnd (rt_claim_browser sp P b a) (\<lambda>l. ret (Some l))) (\<lambda>lease.
         seqn (on_error (release_lease sp P lease)
                (case rq_initial req of
                   None \<Rightarrow> ret True
                 | Some i \<Rightarrow> accept_prompt_input sp P a (initial_input_source_event_seq i) i))
         (seqn (on_error (release_lease sp P lease)
                (seqn (run_event sp P AgentStarted t req (started_fields req))
                  (run_event sp P AgentTurnStarted t req [])))
         (seqn (modify (on_live a (\<lambda>l. begin_run l (rq_run req))))
         (seqn (modify (set_status a TsRunning))
         (seqn (modify (register_run (rq_session req) (rq_token req)))
         (with_run_guard (rq_session req) (\<lambda>s.
           (let (r, s1) = body s; cancelled = (rq_token req \<in> set (rn_cancelled s1)) in
            case r of
              Inl err \<Rightarrow> run_failed sp P t req lease cancelled err s1
            | Inr out \<Rightarrow>
                (if cancelled then run_cancelled sp P t req lease out s1
                 else run_completed sp P t req lease out s1)))))))))))"

section \<open>The local socket\<close>

text \<open>The name of the socket: the 64-bit FNV-1a hash of the state directory (its bytes, here ASCII) in
  sixteen hexadecimal digits.\<close>

definition fnv_byte :: "64 word \<Rightarrow> char \<Rightarrow> 64 word" where
  "fnv_byte h c = (xor h (of_nat (code_point c))) * 0x100000001b3"

definition fnv_hash :: "string \<Rightarrow> 64 word" where
  "fnv_hash s = foldl fnv_byte 0xcbf29ce484222325 s"

fun hex_pad :: "nat \<Rightarrow> nat \<Rightarrow> string" where
  "hex_pad 0 n = []"
| "hex_pad (Suc k) n = hex_pad k (n div 16) @ [hex_digit (n mod 16)]"

definition local_runtime_socket_path :: "string \<Rightarrow> string \<Rightarrow> string" where
  "local_runtime_socket_path temp_dir state_dir =
     path_join temp_dir (''browser-use-runtime-'' @ hex_pad 16 (unat (fnv_hash state_dir)) @ ''.sock'')"

datatype wait_target = WtAny | WtAgentId string | WtPath string

datatype local_request =
    LrPing
  | LrPendingAgentMail string
  | LrSpawnChild string "string option" "string option" string string "string option" "string option"
  | LrSendAgentMessage string string string bool item_kind delivery_phase json
  | LrSubmitUserInput string string bool delivery_phase "json option" json
  | LrWaitAgent string "wait_target option" nat
  | LrCancelRun string
  | LrCloseAgent string string

definition opt_id :: "string \<Rightarrow> string option \<Rightarrow> ('j, string option) action" where
  "opt_id ty x =
     (case x of None \<Rightarrow> ret None | Some i \<Rightarrow> bnd (of_result (id_from_string ty i)) (\<lambda>v. ret (Some v)))"

definition an_id :: "string \<Rightarrow> string \<Rightarrow> ('j, string) action" where
  "an_id ty i = of_result (id_from_string ty i)"

definition wait_target_of :: "wait_target option \<Rightarrow> ('j, agent_target) action" where
  "wait_target_of w =
     (case unwrap_or WtAny w of
        WtAny \<Rightarrow> ret AtAny
      | WtAgentId a \<Rightarrow> bnd (an_id ''AgentId'' a) (\<lambda>i. ret (AtAgent i))
      | WtPath p \<Rightarrow> ret (AtPath p))"

text \<open>\<open>wait\<close> is what \<open>wait_for_item\<close> does with the mailbox and the rest of the runtime, and
  \<open>agent_json\<close> the derived serializer of an agent's snapshot.\<close>

definition handle_local_runtime_request ::
  "id_supply \<Rightarrow> 'j persistence \<Rightarrow> (string \<Rightarrow> agent_target \<Rightarrow> nat \<Rightarrow> nat \<Rightarrow> ('j, wait_outcome) action) \<Rightarrow>
   (agent_snapshot \<Rightarrow> json) \<Rightarrow> local_request \<Rightarrow> ('j, json) action" where
  "handle_local_runtime_request sp P wait agent_json req =
     (case req of
        LrPing \<Rightarrow> ret (JObj [(''ok'', JBool True)])
      | LrPendingAgentMail sid \<Rightarrow>
          bnd (an_id ''SessionId'' sid) (\<lambda>sid. bnd (pending_agent_mail_for_session sid) (\<lambda>its.
            ret (JObj [(''count'', JNum (int (length its))), (''items'', JArr (map item_json its))])))
      | LrSpawnChild p c sid task msg nick role \<Rightarrow>
          bnd (an_id ''AgentId'' p) (\<lambda>p. bnd (opt_id ''AgentId'' c) (\<lambda>c. bnd (opt_id ''SessionId'' sid) (\<lambda>sid.
          bnd (spawn_child sp P \<lparr> sw_parent = p, sw_child = c, sw_session = sid, sw_task = task, sw_message = msg,
                 sw_nickname = nick, sw_role = role \<rparr>) (\<lambda>t.
            ret (JObj [(''agent'', agent_json (thread_snapshot t))])))))
      | LrSendAgentMessage au ta content trig k ph p \<Rightarrow>
          bnd (an_id ''AgentId'' au) (\<lambda>au. bnd (an_id ''AgentId'' ta) (\<lambda>ta.
          bnd (send_agent_message sp P \<lparr> sq_author = au, sq_target = ta, sq_content = content, sq_trigger = trig,
                 sq_kind = k, sq_phase = ph, sq_payload = p \<rparr>) (\<lambda>it.
            ret (JObj [(''mailbox_item'', item_json it)]))))
      | LrSubmitUserInput sid content trig ph items p \<Rightarrow>
          bnd (an_id ''AgentId'' sid) (\<lambda>a.
          bnd (submit_input sp P \<lparr> sb_target = a, sb_content = content, sb_trigger = trig, sb_phase = ph,
                 sb_items = items, sb_payload = p \<rparr>) (\<lambda>it.
            ret (JObj [(''mailbox_item'', item_json it)])))
      | LrWaitAgent p target ms \<Rightarrow>
          bnd (an_id ''AgentId'' p) (\<lambda>p. bnd (wait_target_of target) (\<lambda>tg.
          bnd (wait_begin sp P p ms) (\<lambda>n. bnd (wait p tg n ms) (\<lambda>o1. bnd (wait_end sp P p n o1) (\<lambda>o2.
            ret (case o2 of
                   WaitCompleted it \<Rightarrow> JObj [(''mailbox_item'', item_json it), (''timed_out'', JBool False)]
                 | WaitTimedOut \<Rightarrow> JObj [(''timed_out'', JBool True)]))))))
      | LrCancelRun sid \<Rightarrow>
          bnd (an_id ''SessionId'' sid) (\<lambda>sid. bnd (request_cancel_run sp P sid) (\<lambda>c.
            ret (JObj [(''cancelled'', JBool c)])))
      | LrCloseAgent a reason \<Rightarrow>
          bnd (an_id ''AgentId'' a) (\<lambda>a. seqn (close_agent sp P a reason) (ret (JObj [(''closed'', JBool True)]))))"

record local_response =
  lr_ok :: bool
  lr_result :: json
  lr_error :: "string option"

definition local_runtime_response :: "(runtime_error + json) \<Rightarrow> local_response" where
  "local_runtime_response r =
     (case r of
        Inr v \<Rightarrow> \<lparr> lr_ok = True, lr_result = v, lr_error = None \<rparr>
      | Inl e \<Rightarrow> \<lparr> lr_ok = False, lr_result = JNull, lr_error = Some (runtime_error_text e) \<rparr>)"

end
