(* ===== verification/RtRecovery.thy ===== *)
theory RtRecovery
  imports RtRun
begin

text \<open>
  What a restart makes of the journal is what the runtime held: the contract of the journal as a locale,
  the relation between a session's events and the live mailbox of its agent, and the proof that every
  operation of the runtime keeps it.
\<close>

section \<open>Events and mailbox\<close>

definition journal_records :: "'j persistence \<Rightarrow> 'j \<Rightarrow> string \<Rightarrow> event_record list" where
  "journal_records P j sid = (case p_events P j sid of Inl _ \<Rightarrow> [] | Inr es \<Rightarrow> es)"

text \<open>The types of the events the replay of a mailbox looks at.\<close>

definition mail_types :: "string list" where
  "mail_types = [''mailbox.enqueued'', ''mailbox.delivered'', ''mailbox.consumed'', ''wait_agent.completed'']"

definition replay_of :: "event_record list \<Rightarrow> mail_replay" where
  "replay_of es = foldl replay_event replay_start es"

text \<open>The replay of the events has the messages that are pending, and the counters; the numbers of all
  messages recorded so far differ and are not ahead of the mailbox.\<close>

definition mail_ok :: "event_record list \<Rightarrow> rt_mailbox \<Rightarrow> live_state \<Rightarrow> bool" where
  "mail_ok es m l =
     (let r = replay_of es in
      filter (\<lambda>it. mi_seq it \<notin> set (rp_consumed r)) (rp_enqueued r) = mb_queue m
      \<and> distinct (map mi_seq (rp_enqueued r)) \<and> length (rp_enqueued r) \<le> mb_next m
      \<and> (\<forall>n \<in> mi_seq ` set (rp_enqueued r) \<union> set (rp_consumed r). n \<le> mb_next m)
      \<and> lv_last_enqueued l = rp_last_enqueued r \<and> lv_last_wait_observed l = rp_last_wait r
      \<and> lv_last_delivered l = rp_last_delivered r \<and> lv_last_consumed l = rp_last_consumed r
      \<and> lv_pending_mailbox l = length (mb_queue m)
      \<and> lv_pending_trigger l = length (filter mi_trigger (mb_queue m)))"

text \<open>The fields of the live state it is about.\<close>

definition mail_view :: "live_state \<Rightarrow> nat \<times> nat \<times> nat \<times> nat \<times> nat \<times> nat" where
  "mail_view l =
     (lv_pending_mailbox l, lv_pending_trigger l, lv_last_enqueued l, lv_last_wait_observed l, lv_last_delivered l,
      lv_last_consumed l)"

lemma mail_ok_view: "mail_view l = mail_view l' \<Longrightarrow> mail_ok es m l = mail_ok es m l'"
  by (simp add: mail_ok_def mail_view_def Let_def)

lemma replay_of_snoc: "replay_of (es @ [e]) = replay_event (replay_of es) e"
  by (simp add: replay_of_def)

lemma mail_ok_new: "mail_ok [] rt_mailbox_new live_default"
  by (simp add: mail_ok_def replay_of_def replay_start_def rt_mailbox_new_def live_default_def)

text \<open>An event of another type changes nothing.\<close>

lemma replay_other_event:
  assumes "ev_type e \<notin> set mail_types"
  shows "rp_enqueued (replay_event r e) = rp_enqueued r" "rp_consumed (replay_event r e) = rp_consumed r"
    "rp_last_enqueued (replay_event r e) = rp_last_enqueued r" "rp_last_wait (replay_event r e) = rp_last_wait r"
    "rp_last_delivered (replay_event r e) = rp_last_delivered r" "rp_last_consumed (replay_event r e) = rp_last_consumed r"
  using assms by (simp_all add: replay_event_def mail_types_def Let_def)

lemma mail_ok_other: "ev_type e \<notin> set mail_types \<Longrightarrow> mail_ok (es @ [e]) m l = mail_ok es m l"
  by (simp add: mail_ok_def replay_of_snoc replay_other_event Let_def)

lemma mail_ok_created:
  assumes "\<forall>e \<in> set es. ev_type e \<notin> set mail_types"
  shows "mail_ok es rt_mailbox_new live_default"
  using assms
proof (induction es rule: rev_induct)
  case Nil
  show ?case by (rule mail_ok_new)
next
  case (snoc e es)
  then show ?case by (simp add: mail_ok_other)
qed

text \<open>Recording and queueing a message with a new number.\<close>

lemma mail_ok_pending:
  assumes "mail_ok es m l"
  shows "lv_pending_mailbox l \<le> mb_next m" "lv_pending_trigger l \<le> mb_next m"
proof -
  have q: "mb_queue m = filter (\<lambda>it. mi_seq it \<notin> set (rp_consumed (replay_of es))) (rp_enqueued (replay_of es))"
    and n: "length (rp_enqueued (replay_of es)) \<le> mb_next m"
    using assms by (simp_all add: mail_ok_def Let_def)
  have "length (mb_queue m) \<le> mb_next m" unfolding q using n by (rule order.trans [OF length_filter_le])
  then show "lv_pending_mailbox l \<le> mb_next m" "lv_pending_trigger l \<le> mb_next m"
    using assms by (auto simp: mail_ok_def Let_def intro: order.trans [OF length_filter_le])
qed

lemma mail_ok_enqueue:
  assumes ok: "mail_ok es m l" and e: "ev_type e = ''mailbox.enqueued''" "mailbox_item_from_event e = Some it"
    and fresh: "mb_next m < mi_seq it" and room: "mb_next m < usize_bound"
  shows "mail_ok (es @ [e]) (snd (enqueue_prepared m it)) (record_mailbox_enqueued l it)"
proof -
  let ?r = "replay_of es"
  have r: "replay_of (es @ [e]) = ?r\<lparr> rp_last_enqueued := max (rp_last_enqueued ?r) (mi_seq it), rp_enqueued := rp_enqueued ?r @ [it] \<rparr>"
    using e by (simp add: replay_of_snoc replay_event_def)
  have b: "\<forall>n \<in> mi_seq ` set (rp_enqueued ?r) \<union> set (rp_consumed ?r). n \<le> mb_next m"
    using ok by (simp add: mail_ok_def Let_def)
  then have new: "mi_seq it \<notin> mi_seq ` set (rp_enqueued ?r)" "mi_seq it \<notin> set (rp_consumed ?r)"
    using fresh by (auto simp: not_le dest!: bspec)
  have b': "n \<le> max (mb_next m) (mi_seq it)" if "n \<in> mi_seq ` set (rp_enqueued ?r @ [it]) \<union> set (rp_consumed ?r)" for n
    using that b by (auto intro: le_max_iff_disj [THEN iffD2])
  have p: "lv_pending_mailbox l < usize_bound" "lv_pending_trigger l < usize_bound"
    using mail_ok_pending [OF ok] room by simp_all
  show ?thesis
    unfolding mail_ok_def Let_def r
    using ok new b' p fresh
    by (simp add: mail_ok_def Let_def enqueue_prepared_def record_mailbox_enqueued_def sat_simps)
qed

text \<open>Recording and performing a drain.\<close>

lemma max_seq_foldl: "foldl max k (map mi_seq its) = max k (max_seq its)"
proof -
  have "foldl max (max a b) ns = max a (foldl max b ns)" for a b :: nat and ns
    by (induction ns arbitrary: b) (simp_all add: max.assoc)
  from this [of k 0 "map mi_seq its"] show ?thesis by (simp add: max_seq_def)
qed

lemma mail_ok_drain:
  assumes ok: "mail_ok es m l" and its: "its = pending_items_for_phase m p"
    and d: "ev_type d = ''mailbox.delivered''" "mailbox_seqs_from_event d = map mi_seq its"
    and c: "ev_type c = ''mailbox.consumed''" "mailbox_seqs_from_event c = map mi_seq its"
  shows "mail_ok ((es @ [d]) @ [c]) (snd (drain_phase m p)) (record_mailbox_consumed (record_mailbox_delivered l its) its)"
proof -
  let ?r = "replay_of es"
  have r: "replay_of ((es @ [d]) @ [c]) = ?r\<lparr> rp_last_delivered := max (rp_last_delivered ?r) (max_seq its),
      rp_last_consumed := max (rp_last_consumed ?r) (max_seq its), rp_consumed := rp_consumed ?r @ map mi_seq its \<rparr>"
    unfolding replay_of_snoc using d c by (simp add: replay_event_def max_seq_foldl)
  have q: "mb_queue m = filter (\<lambda>it. mi_seq it \<notin> set (rp_consumed ?r)) (rp_enqueued ?r)"
    and dist: "distinct (map mi_seq (rp_enqueued ?r))"
    and b: "\<forall>n \<in> mi_seq ` set (rp_enqueued ?r) \<union> set (rp_consumed ?r). n \<le> mb_next m"
    using ok by (simp_all add: mail_ok_def Let_def)
  have sub: "set its \<subseteq> set (rp_enqueued ?r)" using its q by (auto simp: pending_items_for_phase_def)
  have same: "x = y" if "x \<in> set (rp_enqueued ?r)" "y \<in> set (rp_enqueued ?r)" "mi_seq x = mi_seq y" for x y
    using dist that by (auto simp: distinct_map inj_on_def)
  have mem: "mi_seq x \<in> set (map mi_seq its) \<longleftrightarrow> mi_phase x = p"
    if "x \<in> set (mb_queue m)" for x
  proof
    assume "mi_seq x \<in> set (map mi_seq its)"
    then obtain y where y: "y \<in> set its" "mi_seq y = mi_seq x" by auto
    have "x = y" using same [of x y] y sub that q by auto
    with y(1) show "mi_phase x = p" by (simp add: its pending_items_for_phase_def)
  next
    assume "mi_phase x = p"
    with that show "mi_seq x \<in> set (map mi_seq its)" by (auto simp: its pending_items_for_phase_def)
  qed
  have left: "filter (\<lambda>it. mi_seq it \<notin> set (rp_consumed ?r @ map mi_seq its)) (rp_enqueued ?r)
      = filter (\<lambda>it. mi_phase it \<noteq> p) (mb_queue m)"
  proof -
    have "filter (\<lambda>it. mi_seq it \<notin> set (rp_consumed ?r @ map mi_seq its)) (rp_enqueued ?r)
        = filter (\<lambda>it. mi_seq it \<notin> set (map mi_seq its)) (mb_queue m)"
      unfolding q filter_filter by (rule filter_cong) auto
    also have "\<dots> = filter (\<lambda>it. mi_phase it \<noteq> p) (mb_queue m)" using mem by (intro filter_cong) auto
    finally show ?thesis .
  qed
  have split: "length (mb_queue m) = length its + length (filter (\<lambda>it. mi_phase it \<noteq> p) (mb_queue m))"
    unfolding its pending_items_for_phase_def
    using sum_length_filter_compl [of "\<lambda>it. mi_phase it = p" "mb_queue m"] by simp
  have "length (filter mi_trigger (mb_queue m))
      = length (filter mi_trigger its) + length (filter mi_trigger (filter (\<lambda>it. mi_phase it \<noteq> p) (mb_queue m)))"
    unfolding its pending_items_for_phase_def
    using sum_length_filter_compl [of "\<lambda>it. mi_phase it = p" "filter mi_trigger (mb_queue m)"]
    by (simp add: conj_commute)
  moreover have "\<forall>n \<in> mi_seq ` set (rp_enqueued ?r) \<union> set (rp_consumed ?r @ map mi_seq its). n \<le> mb_next m"
    using b sub by auto
  ultimately show ?thesis
    using ok left split unfolding mail_ok_def Let_def r
    by (simp add: drain_phase_eq record_mailbox_consumed_def record_mailbox_delivered_def)
qed

text \<open>Recording that a wait ended with a message.\<close>

lemma mail_ok_wait:
  assumes "mail_ok es m l" "ev_type e = ''wait_agent.completed''" "wait_observed_seq (ev_payload e) = Some (mi_seq it)"
  shows "mail_ok (es @ [e]) m (record_wait_observed_mailbox l it)"
  using assms by (simp add: mail_ok_def replay_of_snoc replay_event_def record_wait_observed_mailbox_def Let_def)

section \<open>What the handlers record\<close>

lemma runtime_payload_journal: "runtime_payload (journal_payload e) = re_payload e"
  by (simp add: runtime_payload_def journal_payload_def)

lemma recorded_item:
  assumes "ev_payload rec = journal_payload e" "re_payload e = sent_event_payload it \<or> re_payload e = completion_event_payload it"
    "mi_seq it \<le> usize_bound"
  shows "mailbox_item_from_event rec = Some it"
  using assms
  by (auto simp: mailbox_item_from_event_def runtime_payload_journal sent_event_payload_def
      completion_event_payload_def item_roundtrip)

lemma u64_values_seqs:
  "\<forall>it \<in> set its. mi_seq it \<le> usize_bound \<Longrightarrow> u64_values (map (\<lambda>it. JNum (int (mi_seq it))) its) = map mi_seq its"
  by (induction its) (auto simp: u64_values_def usize_bound_def map_filter_simps)

lemma recorded_drain:
  assumes "ev_payload rec = journal_payload e" "re_payload e = drain_event_payload p its"
    "\<forall>it \<in> set its. mi_seq it \<le> usize_bound"
  shows "mailbox_seqs_from_event rec = map mi_seq its"
  using assms
  by (simp add: mailbox_seqs_from_event_def runtime_payload_journal drain_event_payload_def get_array_def
      u64_values_seqs Let_def)

lemma recorded_wait:
  assumes "re_payload e = wait_payload (WaitCompleted it) n" "mi_seq it \<le> usize_bound"
  shows "wait_observed_seq (journal_payload e) = Some (mi_seq it)"
proof -
  have "json_get (journal_payload e) ''payload'' = Some (wait_payload (WaitCompleted it) n)"
    using assms(1) by (simp add: journal_payload_keys)
  then show ?thesis using assms(2) by (simp add: wait_observed_seq_def wait_payload_def usize_bound_def)
qed

section \<open>The state of the runtime\<close>

text \<open>What an append leaves: one more event in its session, of the type and payload given, and
  nothing else.\<close>

definition grows :: "'j persistence \<Rightarrow> 'j \<Rightarrow> string \<Rightarrow> string \<Rightarrow> json \<Rightarrow> 'j \<Rightarrow> bool" where
  "grows P j sid t p j' =
     ((\<exists>rec. journal_records P j' sid = journal_records P j sid @ [rec] \<and> ev_type rec = t \<and> ev_payload rec = p)
      \<and> (\<forall>x. x \<noteq> sid \<longrightarrow> journal_records P j' x = journal_records P j x))"

text \<open>
  The state of the runtime: \<open>n\<close> bounds the numbers drawn in any mailbox, \<open>fresh\<close> are sessions created
  that have no thread yet, and \<open>queued a\<close> is a message recorded for the agent and not yet queued.
\<close>

definition thread_mail_ok :: "'j persistence \<Rightarrow> 'j \<Rightarrow> nat \<Rightarrow> (string \<Rightarrow> mailbox_item option) \<Rightarrow> agent_thread \<Rightarrow> bool" where
  "thread_mail_ok P j n queued t =
     (case queued (th_agent t) of
        None \<Rightarrow> mb_next (th_mailbox t) \<le> n \<and> mail_ok (journal_records P j (th_session t)) (th_mailbox t) (th_live t)
      | Some it \<Rightarrow>
          mb_next (th_mailbox t) \<le> n \<and> mi_seq it \<le> n
          \<and> mail_ok (journal_records P j (th_session t)) (snd (enqueue_prepared (th_mailbox t) it))
              (record_mailbox_enqueued (th_live t) it))"

definition rt_ok ::
  "'j persistence \<Rightarrow> ('j \<Rightarrow> bool) \<Rightarrow> ('j \<Rightarrow> string \<Rightarrow> bool) \<Rightarrow> nat \<Rightarrow> string set \<Rightarrow> (string \<Rightarrow> mailbox_item option) \<Rightarrow> 'j runtime \<Rightarrow> bool" where
  "rt_ok P jinv known n fresh queued s =
     (jinv (rn_journal s)
      \<and> (\<forall>a t. map_of (rn_threads s) a = Some t \<longrightarrow>
           th_agent t = a \<and> known (rn_journal s) (th_session t) \<and> th_session t \<notin> fresh
           \<and> (\<forall>a' t'. map_of (rn_threads s) a' = Some t' \<longrightarrow> th_session t' = th_session t \<longrightarrow> a' = a)
           \<and> thread_mail_ok P (rn_journal s) n queued t)
      \<and> (\<forall>x \<in> fresh. known (rn_journal s) x
           \<and> (\<forall>e \<in> set (journal_records P (rn_journal s) x). ev_type e \<notin> set mail_types)))"

text \<open>An operation keeps the state whatever its result.\<close>

definition rt_keeps ::
  "'j persistence \<Rightarrow> ('j \<Rightarrow> bool) \<Rightarrow> ('j \<Rightarrow> string \<Rightarrow> bool) \<Rightarrow> ('j, 'a) action \<Rightarrow> bool" where
  "rt_keeps P jinv known m =
     (\<forall>n fresh queued s. rt_ok P jinv known n fresh queued s \<longrightarrow> rt_ok P jinv known n fresh queued (snd (m s)))"

lemma keepsD:
  "rt_keeps P jinv known m \<Longrightarrow> rt_ok P jinv known n fresh queued s \<Longrightarrow> m s = (r, s') \<Longrightarrow> rt_ok P jinv known n fresh queued s'"
  unfolding rt_keeps_def by (metis snd_conv)

lemma keeps_snd: "rt_keeps P jinv known m \<Longrightarrow> rt_ok P jinv known n fresh queued s \<Longrightarrow> rt_ok P jinv known n fresh queued (snd (m s))"
  by (simp add: rt_keeps_def)

text \<open>Actions in sequence, and those that only read.\<close>

named_theorems keeps_intros "operations that keep the state"

lemma keeps_bnd: "rt_keeps P jinv known m \<Longrightarrow> (\<And>x. rt_keeps P jinv known (f x)) \<Longrightarrow> rt_keeps P jinv known (bnd m f)"
  unfolding rt_keeps_def bnd_def by (fastforce split: prod.splits sum.splits)

lemma keeps_seqn [keeps_intros]: "rt_keeps P jinv known m \<Longrightarrow> rt_keeps P jinv known f \<Longrightarrow> rt_keeps P jinv known (seqn m f)"
  unfolding seqn_def by (rule keeps_bnd)

lemma keeps_reads [keeps_intros]:
  "rt_keeps P jinv known (ret x)" "rt_keeps P jinv known (fail e)" "rt_keeps P jinv known (of_result r)"
  "rt_keeps P jinv known (reading g)" "rt_keeps P jinv known (thread a)" "rt_keeps P jinv known (control_for_thread t)"
  by (simp_all add: rt_keeps_def ret_def fail_def of_result_def reading_def thread_def control_for_thread_def)

lemma keeps_thread_for_session [keeps_intros]: "rt_keeps P jinv known (thread_for_session sid)"
  unfolding thread_for_session_def by (intro keeps_bnd keeps_intros)

lemma rt_keeps_if [keeps_intros]:
  "(b \<Longrightarrow> rt_keeps P jinv known m) \<Longrightarrow> (\<not> b \<Longrightarrow> rt_keeps P jinv known m') \<Longrightarrow> rt_keeps P jinv known (if b then m else m')"
  by simp

text \<open>A change of the state that leaves the journal and the threads as they are.\<close>

lemma rt_ok_frame:
  "rn_journal s' = rn_journal s \<Longrightarrow> rn_threads s' = rn_threads s \<Longrightarrow>
   rt_ok P jinv known n fresh queued s' = rt_ok P jinv known n fresh queued s"
  by (simp add: rt_ok_def)

lemma keeps_frame:
  assumes "\<And>s. rn_journal (snd (m s)) = rn_journal s \<and> rn_threads (snd (m s)) = rn_threads s"
  shows "rt_keeps P jinv known m"
  unfolding rt_keeps_def using assms by (metis rt_ok_frame)

lemma keeps_modify: "(\<And>s. rn_journal (f s) = rn_journal s \<and> rn_threads (f s) = rn_threads s) \<Longrightarrow> rt_keeps P jinv known (modify f)"
  by (rule keeps_frame) (simp add: modify_def)

lemma keeps_events [keeps_intros]:
  "rt_keeps P jinv known (new_event sp k d)" "rt_keeps P jinv known (fresh_id sp)" "rt_keeps P jinv known (publish e)"
  "rt_keeps P jinv known (on_browsers g)"
  by (rule keeps_frame; simp add: new_event_def fresh_id_def publish_def modify_def on_browsers_def split_def Let_def)+

lemma keeps_thread_event [keeps_intros]: "rt_keeps P jinv known (thread_event sp k d t p)"
  unfolding thread_event_def by (intro keeps_bnd keeps_intros)

text \<open>A change of a thread that leaves its identity, its mailbox and the mail fields of its live state.\<close>

definition mail_frame :: "(agent_thread \<Rightarrow> agent_thread) \<Rightarrow> bool" where
  "mail_frame f =
     (\<forall>t. th_agent (f t) = th_agent t \<and> th_session (f t) = th_session t \<and> th_mailbox (f t) = th_mailbox t
        \<and> mail_view (th_live (f t)) = mail_view (th_live t))"

lemma mail_view_enqueued:
  "mail_view l = mail_view l' \<Longrightarrow> mail_view (record_mailbox_enqueued l it) = mail_view (record_mailbox_enqueued l' it)"
  by (simp add: mail_view_def record_mailbox_enqueued_def)

lemma thread_mail_ok_frame:
  assumes "mail_frame f"
  shows "thread_mail_ok P j n queued (f t) = thread_mail_ok P j n queued t"
proof -
  have "mail_view (th_live (f t)) = mail_view (th_live t)" using assms by (simp add: mail_frame_def)
  with assms mail_ok_view [OF this] mail_ok_view [OF mail_view_enqueued [OF this]] show ?thesis
    by (simp add: mail_frame_def thread_mail_ok_def split: option.split)
qed

lemma rt_ok_thread:
  assumes "rt_ok P jinv known n fresh queued s" "map_of (rn_threads s) a = Some t"
  shows "th_agent t = a" "known (rn_journal s) (th_session t)" "th_session t \<notin> fresh"
    "thread_mail_ok P (rn_journal s) n queued t"
    "map_of (rn_threads s) a' = Some t' \<Longrightarrow> th_session t' = th_session t \<Longrightarrow> a' = a"
  using assms unfolding rt_ok_def by blast+

lemma rt_ok_commit:
  assumes ok: "rt_ok P jinv known n fresh queued s" and t: "map_of (rn_threads s) a = Some t"
    and j: "jinv j'" "\<And>x. known (rn_journal s) x \<Longrightarrow> known j' x"
      "\<And>x. x \<noteq> th_session t \<Longrightarrow> journal_records P j' x = journal_records P (rn_journal s) x"
    and t': "th_agent t' = a" "th_session t' = th_session t" "thread_mail_ok P j' n queued' t'"
    and other: "\<And>x. x \<noteq> a \<Longrightarrow> queued' x = queued x"
    and s': "rn_journal s' = j'" "rn_threads s' = bt_insert a t' (rn_threads s)"
  shows "rt_ok P jinv known n fresh queued' s'"
proof -
  have look: "\<And>x u. map_of (rn_threads s') x = Some u \<longleftrightarrow> (if x = a then u = t' else map_of (rn_threads s) x = Some u)"
    by (auto simp: s' bt_insert_lookup)
  note T = rt_ok_thread [OF ok t]
  have old: "\<exists>u0. map_of (rn_threads s) x = Some u0 \<and> th_session u0 = th_session u \<and> th_agent u0 = th_agent u"
    if "map_of (rn_threads s') x = Some u" for x u
    using that t t' T(1) by (auto simp: look split: if_splits)
  have mail: "thread_mail_ok P j' n queued' u" if "map_of (rn_threads s') x = Some u" for x u
  proof (cases "x = a")
    case True
    with that t'(3) show ?thesis by (simp add: look)
  next
    case False
    with that have u: "map_of (rn_threads s) x = Some u" by (simp add: look)
    have "th_session u \<noteq> th_session t" using T(5) [OF u] False by auto
    show ?thesis
      using rt_ok_thread(1,4) [OF ok u] other [OF False] j(3) [OF \<open>th_session u \<noteq> th_session t\<close>]
      by (simp add: thread_mail_ok_def split: option.split option.split_asm)
  qed
  show ?thesis
    unfolding rt_ok_def
  proof (intro conjI allI impI)
    show "jinv (rn_journal s')" using j(1) s' by simp
    show "\<forall>x\<in>fresh. known (rn_journal s') x \<and> (\<forall>e\<in>set (journal_records P (rn_journal s') x). ev_type e \<notin> set mail_types)"
    proof
      fix x assume x: "x \<in> fresh"
      then have "x \<noteq> th_session t" using T(3) by auto
      with x ok j show "known (rn_journal s') x \<and> (\<forall>e\<in>set (journal_records P (rn_journal s') x). ev_type e \<notin> set mail_types)"
        by (simp add: s' rt_ok_def)
    qed
    fix x u
    assume u: "map_of (rn_threads s') x = Some u"
    obtain u0 where u0: "map_of (rn_threads s) x = Some u0" "th_session u0 = th_session u" "th_agent u0 = th_agent u"
      using old [OF u] by blast
    note U = rt_ok_thread [OF ok u0(1)]
    show "th_agent u = x" "th_session u \<notin> fresh" using U(1,3) u0 by simp_all
    show "known (rn_journal s') (th_session u)" using U(2) u0 j(2) s' by simp
    show "thread_mail_ok P (rn_journal s') n queued' u" using mail [OF u] s' by simp
    fix y w
    assume w: "map_of (rn_threads s') y = Some w" and same: "th_session w = th_session u"
    obtain w0 where w0: "map_of (rn_threads s) y = Some w0" "th_session w0 = th_session w"
      using old [OF w] by blast
    show "y = x" using rt_ok_thread(5) [OF ok u0(1) w0(1)] u0(2) w0(2) same by simp
  qed
qed

lemma rt_ok_Suc:
  assumes "rt_ok P jinv known n fresh queued s" shows "rt_ok P jinv known (Suc n) fresh queued s"
proof -
  have "thread_mail_ok P j (Suc n) queued t" if "thread_mail_ok P j n queued t" for j t
    using that by (simp add: thread_mail_ok_def split: option.splits)
  then have "map_of (rn_threads s) a = Some t \<Longrightarrow> thread_mail_ok P (rn_journal s) (Suc n) queued t" for a t
    using rt_ok_thread(4) [OF assms] by blast
  then show ?thesis using assms by (simp add: rt_ok_def)
qed

lemma rt_ok_update_thread:
  assumes "rt_ok P jinv known n fresh queued s" "mail_frame f"
  shows "rt_ok P jinv known n fresh queued (update_thread a f s)"
proof (cases "map_of (rn_threads s) a")
  case None
  with assms(1) show ?thesis by (simp add: update_thread_def)
next
  case (Some t)
  have "th_agent (f t) = a" "th_session (f t) = th_session t"
    using assms(2) rt_ok_thread(1) [OF assms(1) Some] by (simp_all add: mail_frame_def)
  moreover have "thread_mail_ok P (rn_journal s) n queued (f t)"
    by (subst thread_mail_ok_frame [OF assms(2)]) (rule rt_ok_thread(4) [OF assms(1) Some])
  moreover have "jinv (rn_journal s)" using assms(1) by (simp add: rt_ok_def)
  ultimately show ?thesis
    by (intro rt_ok_commit [OF assms(1) Some, of "rn_journal s" "f t"]) (simp_all add: update_thread_def Some)
qed

lemma keeps_update_thread: "mail_frame f \<Longrightarrow> rt_keeps P jinv known (modify (update_thread a f))"
  by (simp add: rt_keeps_def modify_def rt_ok_update_thread)

lemma keeps_set_status [keeps_intros]: "rt_keeps P jinv known (modify (set_status a st))"
  unfolding set_status_def by (rule keeps_update_thread) (simp add: mail_frame_def)

lemma keeps_on_live: "(\<And>l. mail_view (f l) = mail_view l) \<Longrightarrow> rt_keeps P jinv known (modify (on_live a f))"
  unfolding on_live_def by (rule keeps_update_thread) (simp add: mail_frame_def)

lemma keeps_live [keeps_intros]:
  "rt_keeps P jinv known (modify (on_live a (\<lambda>l. record_prompt_input_accepted l q)))"
  "rt_keeps P jinv known (modify (on_live a (\<lambda>l. snd (record_prompt_input_consumed l))))"
  "rt_keeps P jinv known (modify (on_live a (\<lambda>l. record_accepted_input l it)))"
  "rt_keeps P jinv known (modify (on_live a (\<lambda>l. begin_run l r)))"
  "rt_keeps P jinv known (modify (on_live a finish_run))"
  "rt_keeps P jinv known (modify (on_live a live_close))"
  "rt_keeps P jinv known (modify (on_live a request_cancel))"
  by (rule keeps_on_live; simp add: mail_view_def record_prompt_input_accepted_def record_prompt_input_consumed_def
      record_accepted_input_def begin_run_def finish_run_def live_close_def request_cancel_def split: item_kind.split)+

lemma keeps_resources [keeps_intros]:
  "rt_keeps P jinv known (modify (update_thread a (\<lambda>x. x\<lparr> th_resources := g x \<rparr>)))"
  by (rule keeps_update_thread) (simp add: mail_frame_def)

text \<open>Sequences whose first action is known, so that the rules go by the first action alone.\<close>

lemma keeps_bnd_thread_event [keeps_intros]:
  assumes "\<And>e. re_kind e = k \<Longrightarrow> rt_keeps P jinv known (f e)"
  shows "rt_keeps P jinv known (bnd (thread_event sp k d t p) f)"
proof -
  have "rt_keeps P jinv known (bnd (thread_event sp k d t p) (\<lambda>e. if re_kind e = k then f e else fail undefined))"
    using assms by (intro keeps_bnd keeps_intros)
  moreover have "bnd (thread_event sp k d t p) (\<lambda>e. if re_kind e = k then f e else fail undefined)
      = bnd (thread_event sp k d t p) f"
    by (simp add: fun_eq_iff bnd_def thread_event_def new_event_def ret_def runtime_event_new_def)
  ultimately show ?thesis by simp
qed

lemma keeps_bnd_new_event [keeps_intros]:
  assumes "\<And>e. re_kind e = k \<Longrightarrow> rt_keeps P jinv known (f e)"
  shows "rt_keeps P jinv known (bnd (new_event sp k d) f)"
proof -
  have "rt_keeps P jinv known (bnd (new_event sp k d) (\<lambda>e. if re_kind e = k then f e else fail undefined))"
    using assms by (intro keeps_bnd keeps_intros)
  moreover have "bnd (new_event sp k d) (\<lambda>e. if re_kind e = k then f e else fail undefined) = bnd (new_event sp k d) f"
    by (simp add: fun_eq_iff bnd_def new_event_def runtime_event_new_def)
  ultimately show ?thesis by simp
qed

lemmas keeps_bnd_heads [keeps_intros] =
  keeps_reads(1) [THEN keeps_bnd] keeps_reads(3) [THEN keeps_bnd] keeps_reads(4) [THEN keeps_bnd]
  keeps_reads(5) [THEN keeps_bnd] keeps_reads(6) [THEN keeps_bnd] keeps_thread_for_session [THEN keeps_bnd]
  keeps_events(2) [THEN keeps_bnd] keeps_events(4) [THEN keeps_bnd]

lemma rt_keeps_option [keeps_intros]:
  "rt_keeps P jinv known m \<Longrightarrow> (\<And>x. rt_keeps P jinv known (f x)) \<Longrightarrow>
   rt_keeps P jinv known (case v of None \<Rightarrow> m | Some x \<Rightarrow> f x)"
  by (cases v) simp_all

lemma keeps_Let [keeps_intros]: "(\<And>x. rt_keeps P jinv known (f x)) \<Longrightarrow> rt_keeps P jinv known (let x = v in f x)"
  by (simp add: Let_def)

lemma keeps_each [keeps_intros]: "(\<And>x. rt_keeps P jinv known (f x)) \<Longrightarrow> rt_keeps P jinv known (each f xs)"
  by (induction xs) (simp_all add: keeps_intros)

text \<open>A change of the journal that no replay of a mailbox sees.\<close>

definition mail_same :: "'j persistence \<Rightarrow> 'j \<Rightarrow> 'j \<Rightarrow> string \<Rightarrow> bool" where
  "mail_same P j j' x =
     ((\<forall>m l. mail_ok (journal_records P j' x) m l = mail_ok (journal_records P j x) m l)
      \<and> ((\<forall>e \<in> set (journal_records P j x). ev_type e \<notin> set mail_types) \<longrightarrow>
           (\<forall>e \<in> set (journal_records P j' x). ev_type e \<notin> set mail_types)))"

lemma mail_same_eq: "journal_records P j' x = journal_records P j x \<Longrightarrow> mail_same P j j' x"
  by (simp add: mail_same_def)

lemma mail_same_grows: "grows P j sid t p j' \<Longrightarrow> t \<notin> set mail_types \<Longrightarrow> mail_same P j j' x"
  by (cases "x = sid") (auto simp: grows_def mail_same_def mail_ok_other)

lemma rt_ok_journal:
  assumes ok: "rt_ok P jinv known n fresh queued s" and j: "jinv j'" "\<And>x. known (rn_journal s) x \<Longrightarrow> known j' x"
    and same: "\<And>x. known (rn_journal s) x \<Longrightarrow> mail_same P (rn_journal s) j' x"
  shows "rt_ok P jinv known n fresh queued (s\<lparr> rn_journal := j' \<rparr>)"
proof -
  have th: "thread_mail_ok P j' n queued t" if "map_of (rn_threads s) a = Some t" for a t
    using same [OF rt_ok_thread(2) [OF ok that]] rt_ok_thread(4) [OF ok that]
    by (simp add: thread_mail_ok_def mail_same_def split: option.splits)
  have fr: "known j' x \<and> (\<forall>e \<in> set (journal_records P j' x). ev_type e \<notin> set mail_types)" if "x \<in> fresh" for x
    using ok that j(2) same unfolding rt_ok_def mail_same_def by blast
  show ?thesis
    unfolding rt_ok_def using rt_ok_thread [OF ok] j th fr by simp
qed

text \<open>Actions run on a known state, and the state seen from outside.\<close>

lemma bnd_thread:
  "bnd (thread a) f s = (case map_of (rn_threads s) a of None \<Rightarrow> (Inl (UnknownAgent a), s) | Some t \<Rightarrow> f t s)"
  by (simp add: bnd_def thread_def reading_def split: option.split)

lemma bnd_ok: "m s = (Inr x, s') \<Longrightarrow> bnd m f s = f x s'"
  and bnd_err: "m s = (Inl e, s') \<Longrightarrow> bnd m f s = (Inl e, s')"
  by (simp_all add: bnd_def)

lemma thread_event_run:
  "\<exists>e. thread_event sp k d t p s = (Inr e, s\<lparr> rn_draws := Suc (rn_draws s) \<rparr>) \<and> re_kind e = k
     \<and> re_session e = Some (th_session t) \<and> re_payload e = p"
  by (simp add: thread_event_def bnd_def new_event_def ret_def runtime_event_new_def)

lemma rt_ok_draws:
  "rt_ok P jinv known n fresh queued s \<Longrightarrow> rt_ok P jinv known n fresh queued (s\<lparr> rn_draws := k \<rparr>)"
  by (subst rt_ok_frame) simp_all

lemma rt_ok_journal_inv: "rt_ok P jinv known n fresh queued s \<Longrightarrow> jinv (rn_journal s)"
  by (simp add: rt_ok_def)

lemma rt_ok_view:
  "rn_journal s' = rn_journal s \<Longrightarrow> map_of (rn_threads s') = map_of (rn_threads s) \<Longrightarrow>
   rt_ok P jinv known n fresh queued s' = rt_ok P jinv known n fresh queued s"
  by (simp add: rt_ok_def)

lemma thread_for_session_run:
  "thread_for_session sid s =
     ((case map_of (rn_session_agents s) sid of
         None \<Rightarrow> Inl (UnknownAgent sid)
       | Some a \<Rightarrow> (case map_of (rn_threads s) a of None \<Rightarrow> Inl (UnknownAgent a) | Some t \<Rightarrow> Inr t)), s)"
  by (simp add: thread_for_session_def bnd_def reading_def thread_def split: option.split)

lemma seqn_ok: "m s = (Inr x, s') \<Longrightarrow> seqn m f s = f s'"
  by (simp add: seqn_def bnd_def)

lemma seqn_modify: "seqn (modify f) m s = m (f s)"
  by (simp add: seqn_def bnd_def modify_def)

lemma bnd_assoc: "bnd (bnd m f) g = bnd m (\<lambda>x. bnd (f x) g)"
  by (auto simp: fun_eq_iff bnd_def split: prod.split sum.split)

lemma rt_ok_fresh: "rt_ok P jinv known n fresh queued s \<Longrightarrow> fresh' \<subseteq> fresh \<Longrightarrow> rt_ok P jinv known n fresh' queued s"
  unfolding rt_ok_def by blast

lemma rt_ok_mono: "rt_ok P jinv known n fresh queued s \<Longrightarrow> rt_ok P jinv known (n + k) fresh queued s"
  by (induction k) (simp_all add: rt_ok_Suc)

text \<open>The end of a wait: the last look at the queue, and what follows from it. Other operations can come
  between \<open>wait_begin\<close> and this.\<close>

definition wait_look ::
  "id_supply \<Rightarrow> 'j persistence \<Rightarrow> string \<Rightarrow> agent_target \<Rightarrow> nat \<Rightarrow> ('j, wait_outcome) action" where
  "wait_look sp P a tgt k =
     bnd (thread a) (\<lambda>t.
       wait_end sp P a k (case has_pending_item_after (th_mailbox t) tgt k of
                            None \<Rightarrow> WaitTimedOut | Some it \<Rightarrow> WaitCompleted it))"

section \<open>The contract of the journal\<close>

locale journal_laws =
  fixes P :: "'j persistence" and jinv :: "'j \<Rightarrow> bool" and known :: "'j \<Rightarrow> string \<Rightarrow> bool"
  assumes append_ok: "jinv j \<Longrightarrow> re_session e = Some sid \<Longrightarrow> known j sid \<Longrightarrow> p_append_event P j e = (r, j') \<Longrightarrow>
      ok_of r \<and> jinv j' \<and> known j' = known j \<and> grows P j sid (event_type_of e) (journal_payload e) j'"
    and append_unknown: "jinv j \<Longrightarrow> re_session e = None \<or> \<not> known j (the (re_session e)) \<Longrightarrow>
      p_append_event P j e = (r, j') \<Longrightarrow> j' = j"
    and append_session_ok: "jinv j \<Longrightarrow> known j sid \<Longrightarrow> p_append_session P j sid t p = (r, j') \<Longrightarrow>
      ok_of r \<and> jinv j' \<and> known j' = known j \<and> grows P j sid t p j'"
    and append_session_unknown: "jinv j \<Longrightarrow> \<not> known j sid \<Longrightarrow> p_append_session P j sid t p = (r, j') \<Longrightarrow> j' = j"
    and create_ok: "jinv j \<Longrightarrow> p_create P j req = (Inr meta, j') \<Longrightarrow>
      jinv j' \<and> \<not> known j (sm_id meta) \<and> known j' = (known j)(sm_id meta := True)
      \<and> (\<forall>x. x \<noteq> sm_id meta \<longrightarrow> journal_records P j' x = journal_records P j x)
      \<and> (\<forall>e \<in> set (journal_records P j' (sm_id meta)). ev_type e = ''session.created'')"
    and create_error: "jinv j \<Longrightarrow> p_create P j req = (Inl err, j') \<Longrightarrow>
      jinv j' \<and> (\<forall>x. known j x \<longrightarrow> known j' x \<and> journal_records P j' x = journal_records P j x)"
    and finish_edge_ok: "jinv j \<Longrightarrow> p_finish_edge P j x st = (u, j') \<Longrightarrow>
      ok_of u \<and> jinv j' \<and> known j' = known j \<and> journal_records P j' = journal_records P j"
    and close_edge_ok: "jinv j \<Longrightarrow> p_close_edge P j x y = (u, j') \<Longrightarrow>
      ok_of u \<and> jinv j' \<and> known j' = known j \<and> journal_records P j' = journal_records P j"
begin

lemma keeps_on_journal:
  assumes "\<And>j r j'. jinv j \<Longrightarrow> f j = (r, j') \<Longrightarrow> jinv j' \<and> (\<forall>x. known j x \<longrightarrow> known j' x \<and> mail_same P j j' x)"
  shows "rt_keeps P jinv known (on_journal f)"
  unfolding rt_keeps_def
proof (intro allI impI)
  fix n fresh queued s
  assume ok: "rt_ok P jinv known n fresh queued s"
  obtain r j' where f: "f (rn_journal s) = (r, j')" by (rule prod.exhaust)
  have "jinv (rn_journal s)" using ok by (simp add: rt_ok_def)
  from assms [OF this f] rt_ok_journal [OF ok] have "rt_ok P jinv known n fresh queued (s\<lparr> rn_journal := j' \<rparr>)" by blast
  then show "rt_ok P jinv known n fresh queued (snd (on_journal f s))" by (simp add: on_journal_def f)
qed

lemma keeps_append_session [keeps_intros]:
  assumes "t \<notin> set mail_types"
  shows "rt_keeps P jinv known (on_journal (\<lambda>j. p_append_session P j sid t p))"
proof (rule keeps_on_journal)
  fix j r j'
  assume j: "jinv j" "p_append_session P j sid t p = (r, j')"
  show "jinv j' \<and> (\<forall>x. known j x \<longrightarrow> known j' x \<and> mail_same P j j' x)"
  proof (cases "known j sid")
    case True
    with append_session_ok [OF j(1) True j(2)] assms show ?thesis by (auto intro: mail_same_grows)
  next
    case False
    with append_session_unknown [OF j(1) False j(2)] j show ?thesis by (auto intro: mail_same_eq)
  qed
qed

lemma keeps_append:
  assumes "event_type_of e \<notin> set mail_types"
  shows "rt_keeps P jinv known (append_event P e)"
  unfolding append_event_def
proof (rule keeps_on_journal)
  fix j r j'
  assume j: "jinv j" "p_append_event P j e = (r, j')"
  show "jinv j' \<and> (\<forall>x. known j x \<longrightarrow> known j' x \<and> mail_same P j j' x)"
  proof (cases "re_session e = None \<or> \<not> known j (the (re_session e))")
    case True
    with append_unknown [OF j(1) True j(2)] j show ?thesis by (auto intro: mail_same_eq)
  next
    case False
    then obtain sid where "re_session e = Some sid" "known j sid" by auto
    from append_ok [OF j(1) this j(2)] assms show ?thesis by (auto intro: mail_same_grows)
  qed
qed

lemma keeps_edges [keeps_intros]:
  "rt_keeps P jinv known (on_journal (\<lambda>j. p_finish_edge P j x st))"
  "rt_keeps P jinv known (on_journal (\<lambda>j. p_close_edge P j x y))"
  by (rule keeps_on_journal; drule (1) finish_edge_ok close_edge_ok; simp add: mail_same_eq)+

lemma keeps_append_kind [keeps_intros]:
  "kind_as_str (re_kind e) \<notin> set mail_types \<Longrightarrow> rt_keeps P jinv known (append_event P e)"
  by (rule keeps_append) (simp add: event_type_of_def)

lemma keeps_barrier [keeps_intros]:
  "kind_as_str (re_kind e) \<notin> set mail_types \<Longrightarrow> rt_keeps P jinv known (publish_after_barrier P e)"
  unfolding publish_after_barrier_def by (intro keeps_bnd keeps_intros)

lemmas keeps_bnd_journal [keeps_intros] =
  keeps_append_session [THEN keeps_bnd] keeps_append_kind [THEN keeps_bnd] keeps_barrier [THEN keeps_bnd]

text \<open>Prompt inputs, closing, cancelling, browsers and observed events that are not the runtime's own.\<close>

lemma keeps_prompt_inputs [keeps_intros]:
  "rt_keeps P jinv known (accept_prompt_input sp P a q p)"
  "rt_keeps P jinv known (consume_prompt_input_for_session sp P sid)"
  unfolding accept_prompt_input_def consume_prompt_input_for_session_def split_def
  by (intro keeps_intros; simp add: mail_types_def)+

lemma keeps_modify_frames [keeps_intros]:
  "rt_keeps P jinv known (modify (on_scheduler c f))" "rt_keeps P jinv known (modify (insert_control c'))"
  "rt_keeps P jinv known (modify (register_run sid k))" "rt_keeps P jinv known (modify (\<lambda>s. s\<lparr> rn_cancelled := g s \<rparr>))"
  "rt_keeps P jinv known (modify (\<lambda>s. s\<lparr> rn_published := h s \<rparr>))"
  by (rule keeps_modify; simp add: on_scheduler_def insert_control_def register_run_def split: option.split)+

lemma keeps_cancel_active [keeps_intros]:
  "(\<And>c. rt_keeps P jinv known (f c)) \<Longrightarrow>
   rt_keeps P jinv known (bnd (\<lambda>s. (let (c, s') = cancel_active_run sid s in (Inr c, s'))) f)"
  by (rule keeps_bnd, rule keeps_frame) (simp_all add: cancel_active_run_def split_def Let_def split: option.split)

lemma keeps_close_one [keeps_intros]: "rt_keeps P jinv known (close_one sp P reason t)"
  unfolding close_one_def by (intro keeps_intros; simp add: mail_types_def)

lemma keeps_close_agent: "rt_keeps P jinv known (close_agent sp P a reason)"
  unfolding close_agent_def by (intro keeps_intros; simp add: mail_types_def)

lemma keeps_cancel_thread [keeps_intros]: "rt_keeps P jinv known (request_cancel_run_for_thread sp P t p)"
  unfolding request_cancel_run_for_thread_def by (intro keeps_intros; simp add: mail_types_def)

lemma keeps_cancel_descendants [keeps_intros]: "rt_keeps P jinv known (cancel_descendants sp P t es acc)"
proof (induction es arbitrary: acc)
  case Nil
  show ?case by (simp add: keeps_intros)
next
  case (Cons e es)
  have "rt_keeps P jinv known (bnd (request_cancel_run_for_thread sp P d p) (\<lambda>c. cancel_descendants sp P t es (acc \<or> c)))" for d p
    by (intro keeps_bnd keeps_intros Cons)
  with Cons show ?case by (simp add: rt_keeps_def split: sum.split)
qed

lemma keeps_cancel_run: "rt_keeps P jinv known (request_cancel_run sp P sid)"
  unfolding request_cancel_run_def by (intro keeps_intros keeps_bnd [OF keeps_cancel_thread])

lemma keeps_browser_event [keeps_intros]:
  assumes "\<And>e. re_kind e = k \<Longrightarrow> rt_keeps P jinv known (f e)"
  shows "rt_keeps P jinv known (bnd (browser_event sp k t a b ex) f)"
proof -
  have "bnd (browser_event sp k t a b ex) f
      = bnd (thread_event sp k Barrier t (JObj ([(''agent_id'', JStr a), (''browser_id'', JStr b)] @ ex @ [(''runtime_owned'', JBool True)])))
          (\<lambda>e. f (e\<lparr> re_agent := Some a, re_browser := Some b \<rparr>))"
    by (simp add: browser_event_def bnd_def ret_def fun_eq_iff split: sum.split prod.split)
  with assms show ?thesis by (simp add: keeps_intros)
qed

lemma keeps_browser_ops [keeps_intros]:
  "rt_keeps P jinv known (rt_create_browser sp cj c)" "rt_keeps P jinv known (create_browser_for_agent sp P cj a c)"
  "rt_keeps P jinv known (rt_claim_browser sp P b a)" "rt_keeps P jinv known (rt_release_browser sp P l)"
  "rt_keeps P jinv known (rt_close_browser sp b)" "rt_keeps P jinv known (close_browser_for_agent sp P b a)"
  unfolding rt_create_browser_def create_browser_for_agent_def rt_claim_browser_def rt_release_browser_def
    rt_close_browser_def close_browser_for_agent_def
  by (intro keeps_intros; simp add: mail_types_def)+

lemma keeps_observed:
  assumes "t \<notin> set mail_types"
  shows "rt_keeps P jinv known (append_observed_session_event sp P sid t p d)"
    "rt_keeps P jinv known (append_observed_browser_session_event sp P sid b t p d)"
  unfolding append_observed_session_event_def append_observed_browser_session_event_def record_script_event_def
  by (intro keeps_intros assms)+

lemma keeps_on_error [keeps_intros]:
  "rt_keeps P jinv known c \<Longrightarrow> rt_keeps P jinv known m \<Longrightarrow> rt_keeps P jinv known (on_error c m)"
  using keeps_seqn [OF _ keeps_reads(2), of P jinv known c]
  unfolding rt_keeps_def on_error_def by (fastforce split: prod.splits sum.splits)

lemma keeps_release [keeps_intros]:
  "rt_keeps P jinv known (release_lease sp P lease)" "rt_keeps P jinv known (end_run sp P a lease)"
  unfolding release_lease_def end_run_def by (intro keeps_intros)+

lemma keeps_run_event [keeps_intros]:
  "kind_as_str k \<notin> set mail_types \<Longrightarrow> rt_keeps P jinv known (run_event sp P k t req ex)"
  unfolding run_event_def by (intro keeps_intros) simp

lemma keeps_run_ends [keeps_intros]:
  "rt_keeps P jinv known (run_failed sp P t req lease c err)"
  "rt_keeps P jinv known (run_cancelled sp P t req lease out)"
  "rt_keeps P jinv known (run_completed sp P t req lease out)"
  unfolding run_failed_def run_cancelled_def run_completed_def Let_def
  by (intro keeps_intros keeps_bnd [OF keeps_on_error] keeps_bnd [OF keeps_run_event]; simp add: mail_types_def)+

lemma keeps_run_guard [keeps_intros]:
  assumes "rt_keeps P jinv known m" shows "rt_keeps P jinv known (with_run_guard sid m)"
  unfolding rt_keeps_def
proof (intro allI impI)
  fix n fresh queued s
  assume "rt_ok P jinv known n fresh queued s"
  then have "rt_ok P jinv known n fresh queued (snd (m s))" using assms by (simp add: rt_keeps_def)
  then have "rt_ok P jinv known n fresh queued (unregister_run sid (snd (m s)))"
    by (subst rt_ok_frame) (simp_all add: unregister_run_def)
  then show "rt_ok P jinv known n fresh queued (snd (with_run_guard sid m s))"
    by (simp add: with_run_guard_def split_def Let_def)
qed

text \<open>A message is numbered and recorded: from then on it counts as queued to come.\<close>

lemma record_item:
  assumes ok: "rt_ok P jinv known n fresh queued s" and n: "n < usize_bound"
    and t: "map_of (rn_threads s) a = Some t" and q: "queued a = None" and tt: "th_session tt = th_session t"
    and pay: "\<And>it. pay it = sent_event_payload it \<or> pay it = completion_event_payload it"
  shows "\<exists>it e s'. bnd (prepare_on a it0) (\<lambda>it. bnd (thread_event sp MailboxEnqueued Barrier tt (pay it)) (\<lambda>e.
        seqn (append_event P e) (K it e))) s = K it e s'
      \<and> rt_ok P jinv known (Suc n) fresh (queued(a \<mapsto> it)) s' \<and> known (rn_journal s') = known (rn_journal s)
      \<and> (\<forall>x. map_of (rn_threads s') x = None \<longleftrightarrow> map_of (rn_threads s) x = None)"
proof -
  let ?k = "sat_add1 (mb_next (th_mailbox t))"
  let ?it = "it0\<lparr> mi_seq := ?k \<rparr>"
  let ?t' = "t\<lparr> th_mailbox := (th_mailbox t)\<lparr> mb_next := ?k \<rparr> \<rparr>"
  note T = rt_ok_thread [OF ok t]
  have m: "mb_next (th_mailbox t) \<le> n" "mail_ok (journal_records P (rn_journal s) (th_session t)) (th_mailbox t) (th_live t)"
    using T(1,4) q by (simp_all add: thread_mail_ok_def)
  have k: "?k = Suc (mb_next (th_mailbox t))" using m(1) n by (simp add: sat_simps)
  define s1 where "s1 = s\<lparr> rn_threads := bt_insert a ?t' (rn_threads s) \<rparr>"
  define e where "e = (runtime_event_new (sp_id sp (rn_draws s)) (sp_now sp (rn_draws s)) MailboxEnqueued Barrier)
      \<lparr> re_session := Some (th_session tt), re_agent := Some (th_agent tt), re_root := Some (th_root tt), re_payload := pay ?it \<rparr>"
  have j: "jinv (rn_journal s)" using ok by (simp add: rt_ok_def)
  obtain r j' where ap: "p_append_event P (rn_journal s) e = (r, j')" by (rule prod.exhaust)
  have es: "re_session e = Some (th_session t)" by (simp add: e_def tt)
  from append_ok [OF j es T(2) ap] have g: "ok_of r" "jinv j'" "known j' = known (rn_journal s)"
    "grows P (rn_journal s) (th_session t) (event_type_of e) (journal_payload e) j'" by simp_all
  then obtain x where r: "r = Inr x" by (cases r) (simp_all add: ok_of_def)
  from g(4) obtain rec where rec: "journal_records P j' (th_session t) = journal_records P (rn_journal s) (th_session t) @ [rec]"
    "ev_type rec = ''mailbox.enqueued''" "ev_payload rec = journal_payload e"
    "\<And>y. y \<noteq> th_session t \<Longrightarrow> journal_records P j' y = journal_records P (rn_journal s) y"
    by (auto simp: grows_def event_type_of_def e_def runtime_event_new_def)
  have item: "mailbox_item_from_event rec = Some ?it"
    using recorded_item [OF rec(3)] pay [of ?it] k m(1) n by (simp add: e_def)
  have "mail_ok (journal_records P j' (th_session t)) (snd (enqueue_prepared (th_mailbox t) ?it)) (record_mailbox_enqueued (th_live t) ?it)"
    unfolding rec(1) using m n k by (intro mail_ok_enqueue item rec(2)) simp_all
  moreover have "snd (enqueue_prepared ((th_mailbox t)\<lparr> mb_next := ?k \<rparr>) ?it) = snd (enqueue_prepared (th_mailbox t) ?it)"
    by (simp add: enqueue_prepared_def k watch_send_def)
  ultimately have mail: "thread_mail_ok P j' (Suc n) (queued(a \<mapsto> ?it)) ?t'"
    using T(1) k m(1) by (simp add: thread_mail_ok_def)
  define s2 where "s2 = s1\<lparr> rn_draws := Suc (rn_draws s), rn_journal := j' \<rparr>"
  have run: "bnd (prepare_on a it0) (\<lambda>it. bnd (thread_event sp MailboxEnqueued Barrier tt (pay it)) (\<lambda>e.
        seqn (append_event P e) (K it e))) s = K ?it e s2"
    using t ap r
    by (simp add: bnd_def seqn_def prepare_on_def thread_def reading_def modify_def on_mailbox_def update_thread_def
        prepare_item_def ret_def thread_event_def new_event_def append_event_def on_journal_def Let_def e_def s1_def s2_def)
  have "rt_ok P jinv known (Suc n) fresh queued s" by (rule rt_ok_Suc [OF ok])
  from rt_ok_commit [OF this t, of j' ?t' "queued(a \<mapsto> ?it)" s2] T(1) g rec(4) mail
  have "rt_ok P jinv known (Suc n) fresh (queued(a \<mapsto> ?it)) s2" by (simp add: s2_def s1_def)
  moreover have "\<forall>x. map_of (rn_threads s2) x = None \<longleftrightarrow> map_of (rn_threads s) x = None"
    using t by (simp add: s2_def s1_def bt_insert_lookup)
  moreover have "known (rn_journal s2) = known (rn_journal s)" by (simp add: s2_def g(3))
  ultimately show ?thesis using run by blast
qed

text \<open>Queueing it.\<close>

lemma enqueue_on_ok:
  assumes ok: "rt_ok P jinv known n fresh (queued(a \<mapsto> it)) s" and q: "queued a = None"
  shows "\<exists>s'. enqueue_on a it s = (Inr (), s') \<and> rt_ok P jinv known n fresh queued s'"
proof (cases "map_of (rn_threads s) a")
  case None
  have "thread_mail_ok P (rn_journal s) n queued t" if t: "map_of (rn_threads s) x = Some t" for x t
  proof -
    have "th_agent t \<noteq> a" using t None rt_ok_thread(1) [OF ok t] by auto
    with rt_ok_thread(4) [OF ok t] show ?thesis by (simp add: thread_mail_ok_def)
  qed
  with ok have "rt_ok P jinv known n fresh queued s" by (simp add: rt_ok_def)
  with None show ?thesis
    by (simp add: enqueue_on_def modify_def on_live_def on_mailbox_def update_thread_def)
next
  case (Some t)
  note T = rt_ok_thread [OF ok Some]
  let ?t' = "t\<lparr> th_mailbox := snd (enqueue_prepared (th_mailbox t) it), th_live := record_mailbox_enqueued (th_live t) it \<rparr>"
  define s' where "s' = snd (enqueue_on a it s)"
  have s': "rn_journal s' = rn_journal s" "map_of (rn_threads s') = map_of (bt_insert a ?t' (rn_threads s))"
    using Some by (simp_all add: s'_def enqueue_on_def modify_def on_live_def on_mailbox_def update_thread_def
        bt_insert_lookup fun_eq_iff)
  have m: "mb_next (th_mailbox t) \<le> n" "mi_seq it \<le> n"
    "mail_ok (journal_records P (rn_journal s) (th_session t)) (snd (enqueue_prepared (th_mailbox t) it)) (record_mailbox_enqueued (th_live t) it)"
    using T(1,4) by (simp_all add: thread_mail_ok_def)
  have t': "thread_mail_ok P (rn_journal s) n queued ?t'"
    using m T(1) q by (simp add: thread_mail_ok_def enqueue_prepared_def)
  have "jinv (rn_journal s)" using ok by (simp add: rt_ok_def)
  with T(1) t' have "rt_ok P jinv known n fresh queued (s\<lparr> rn_threads := bt_insert a ?t' (rn_threads s) \<rparr>)"
    by (intro rt_ok_commit [OF ok Some, of "rn_journal s" ?t']) simp_all
  then have "rt_ok P jinv known n fresh queued s'" using s' by (simp add: rt_ok_def)
  then show ?thesis by (simp add: s'_def enqueue_on_def modify_def)
qed

lemma send_ok:
  assumes ok: "rt_ok P jinv known n fresh (\<lambda>_. None) s" and n: "n < usize_bound"
  shows "rt_ok P jinv known (Suc n) fresh (\<lambda>_. None) (snd (send_agent_message sp P req s))"
proof (cases "map_of (rn_threads s) (sq_author req)")
  case None
  with rt_ok_Suc [OF ok] show ?thesis
    by (simp add: send_agent_message_def bnd_thread fail_def Let_def)
next
  case (Some author)
  note au = Some
  show ?thesis
  proof (cases "map_of (rn_threads s) (sq_target req)")
    case None
    with au rt_ok_Suc [OF ok] show ?thesis
      by (simp add: send_agent_message_def bnd_thread fail_def Let_def)
  next
    case (Some t)
    note T = rt_ok_thread [OF ok Some]
    let ?s1 = "s\<lparr> rn_draws := Suc (rn_draws s) \<rparr>"
    have ok1: "rt_ok P jinv known n fresh (\<lambda>_. None) ?s1" using ok by (subst rt_ok_frame) simp_all
    have t1: "map_of (rn_threads ?s1) (th_agent t) = Some t" using Some T(1) by simp
    define K where "K = (\<lambda>it e. seqn (enqueue_on (th_agent t) it) (seqn (publish e) (ret it)) :: ('j, mailbox_item) action)"
    define it0 where "it0 = \<lparr> mi_seq = 0, mi_id = sp_id sp (rn_draws s), mi_kind = sq_kind req, mi_author = th_agent author,
       mi_target = th_agent t, mi_target_path = Some (th_path t), mi_content = str_trim (sq_content req),
       mi_trigger = sq_trigger req, mi_phase = sq_phase req,
       mi_payload = enrich_mailbox_payload (sq_payload req) (th_session author) (th_session t) (th_path author) (th_path t) \<rparr>"
    from record_item [OF ok1 n t1 refl refl, where pay = sent_event_payload and K = K and ?it0.0 = it0 and sp = sp]
    obtain it e s2 where run: "bnd (prepare_on (th_agent t) it0) (\<lambda>it. bnd (thread_event sp MailboxEnqueued Barrier t (sent_event_payload it))
          (\<lambda>e. seqn (append_event P e) (K it e))) ?s1 = K it e s2"
      and ok2: "rt_ok P jinv known (Suc n) fresh ((\<lambda>_. None)(th_agent t \<mapsto> it)) s2" by blast
    from enqueue_on_ok [OF ok2] obtain s3 where e3: "enqueue_on (th_agent t) it s2 = (Inr (), s3)"
      and ok3: "rt_ok P jinv known (Suc n) fresh (\<lambda>_. None) s3" by auto
    have "rt_ok P jinv known (Suc n) fresh (\<lambda>_. None) (snd (K it e s2))"
      using e3 ok3 by (simp add: K_def seqn_def bnd_def publish_def modify_def ret_def) (subst rt_ok_frame, simp_all)
    moreover have "snd (send_agent_message sp P req s) = snd (K it e s2) \<or> snd (send_agent_message sp P req s) = s"
      using au Some run
      by (simp add: send_agent_message_def bnd_thread fail_def Let_def it0_def K_def)
         (simp add: bnd_def [of "fresh_id sp"] fresh_id_def)
    ultimately show ?thesis using rt_ok_Suc [OF ok] by auto
  qed
qed

lemma submit_ok:
  assumes "rt_ok P jinv known n fresh (\<lambda>_. None) s" "n < usize_bound"
  shows "rt_ok P jinv known (Suc n) fresh (\<lambda>_. None) (snd (submit_input sp P req s))"
proof (cases "map_of (rn_threads s) (sb_target req)")
  case None
  with rt_ok_Suc [OF assms(1)] show ?thesis by (simp add: submit_input_def bnd_thread)
next
  case (Some t)
  let ?m = "send_agent_message sp P \<lparr> sq_author = th_agent t, sq_target = th_agent t, sq_content = sb_content req,
                sq_trigger = sb_trigger req, sq_kind = MkFollowup, sq_phase = sb_phase req,
                sq_payload = submit_payload t req \<rparr>"
  have ok: "rt_ok P jinv known (Suc n) fresh (\<lambda>_. None) (snd (?m s))" by (rule send_ok [OF assms])
  have k: "rt_keeps P jinv known (seqn (modify (on_live (th_agent t) (\<lambda>l. record_accepted_input l it))) (ret it))" for it
    by (intro keeps_intros)
  show ?thesis
  proof (cases "?m s")
    case (Pair r s1)
    with ok Some k [THEN keeps_snd] show ?thesis
      by (cases r) (simp_all add: submit_input_def bnd_thread bnd_ok bnd_err)
  qed
qed

lemma append_step:
  assumes "rt_ok P jinv known n fresh queued s" "re_session e = Some sid" "known (rn_journal s) sid"
    "kind_as_str (re_kind e) \<notin> set mail_types"
  shows "\<exists>x s'. append_event P e s = (Inr x, s') \<and> rt_ok P jinv known n fresh queued s'
    \<and> known (rn_journal s') = known (rn_journal s)"
proof -
  obtain r j' where ap: "p_append_event P (rn_journal s) e = (r, j')" by (rule prod.exhaust)
  have "jinv (rn_journal s)" using assms(1) by (simp add: rt_ok_def)
  from append_ok [OF this assms(2,3) ap] obtain x where "r = Inr x" "known j' = known (rn_journal s)"
    by (cases r) (auto simp: ok_of_def)
  moreover have "rt_ok P jinv known n fresh queued (snd (append_event P e s))"
    by (rule keeps_append_kind [THEN keeps_snd]) (use assms in auto)
  ultimately show ?thesis by (simp add: append_event_def on_journal_def ap)
qed

lemma finish_edge_step:
  assumes "rt_ok P jinv known n fresh queued s"
  shows "\<exists>s'. on_journal (\<lambda>j. p_finish_edge P j c es) s = (Inr (), s') \<and> rt_ok P jinv known n fresh queued s'"
proof -
  obtain u j' where f: "p_finish_edge P (rn_journal s) c es = (u, j')" by (rule prod.exhaust)
  from finish_edge_ok [OF rt_ok_journal_inv [OF assms] f] have "u = Inr ()" by (cases u) (simp_all add: ok_of_def)
  moreover have "rt_ok P jinv known n fresh queued (snd (on_journal (\<lambda>j. p_finish_edge P j c es) s))"
    by (rule keeps_edges(1) [THEN keeps_snd, OF assms])
  ultimately show ?thesis by (simp add: on_journal_def f)
qed

lemma finish_ok:
  assumes ok: "rt_ok P jinv known n fresh (\<lambda>_. None) s" and n: "n < usize_bound"
  shows "rt_ok P jinv known (Suc n) fresh (\<lambda>_. None) (snd (finish_child_agent sp P a txt success s))"
proof (cases "map_of (rn_threads s) a")
  case None
  with rt_ok_Suc [OF ok] show ?thesis by (simp add: finish_child_agent_def bnd_thread)
next
  case (Some child)
  note C = rt_ok_thread [OF ok Some]
  show ?thesis
  proof (cases "th_parent_agent child")
    case None
    with \<open>map_of (rn_threads s) a = Some child\<close> rt_ok_Suc [OF ok] show ?thesis
      by (simp add: finish_child_agent_def bnd_thread) (simp add: bnd_def of_result_def)
  next
    case pa: (Some pa)
    show ?thesis
    proof (cases "map_of (rn_threads s) pa")
      case None
      with \<open>map_of (rn_threads s) a = Some child\<close> pa rt_ok_Suc [OF ok] show ?thesis
        by (simp add: finish_child_agent_def bnd_thread) (simp add: bnd_def of_result_def thread_def reading_def)
    next
      case par: (Some parent)
      note R = rt_ok_thread [OF ok par]
      let ?k = "if success then AgentCompleted else AgentFailed"
      let ?s1 = "s\<lparr> rn_draws := Suc (Suc (Suc (rn_draws s))) \<rparr>"
      obtain c where c: "thread_event sp ?k Barrier child (child_terminal_payload child txt success) s = (Inr c, s\<lparr> rn_draws := Suc (rn_draws s) \<rparr>)"
        "re_kind c = ?k" "re_session c = Some (th_session child)" using thread_event_run by blast
      obtain q where q: "thread_event sp ?k Barrier parent (parent_terminal_payload child txt success) (s\<lparr> rn_draws := Suc (rn_draws s) \<rparr>)
          = (Inr q, s\<lparr> rn_draws := Suc (Suc (rn_draws s)) \<rparr>)"
        "re_kind q = ?k" "re_session q = Some (th_session parent)"
        using thread_event_run [of sp ?k Barrier parent _ "s\<lparr> rn_draws := Suc (rn_draws s) \<rparr>"] by auto
      define K where "K = (\<lambda>it me. seqn (append_event P c) (seqn (append_event P q)
          (seqn (modify (set_status (th_agent child) (if success then TsCompleted else TsFailed)))
          (seqn (on_journal (\<lambda>j. p_finish_edge P j (th_session child) (if success then EdgeDone else EdgeFailed)))
          (seqn (enqueue_on (th_agent parent) it)
          (seqn (publish c) (seqn (publish q) (publish me))))))) :: ('j, unit) action)"
      have ok1: "rt_ok P jinv known n fresh (\<lambda>_. None) ?s1" by (rule rt_ok_draws [OF ok])
      have t1: "map_of (rn_threads ?s1) (th_agent parent) = Some parent" using par R(1) by simp
      from record_item [OF ok1 n t1 refl refl, where pay = completion_event_payload and K = K and sp = sp
          and ?it0.0 = "completion_item (sp_id sp (Suc (Suc (rn_draws s)))) child parent txt success"]
      obtain it me s2 where run: "bnd (prepare_on (th_agent parent) (completion_item (sp_id sp (Suc (Suc (rn_draws s)))) child parent txt success))
          (\<lambda>it. bnd (thread_event sp MailboxEnqueued Barrier parent (completion_event_payload it)) (\<lambda>e.
            seqn (append_event P e) (K it e))) ?s1 = K it me s2"
        and ok2: "rt_ok P jinv known (Suc n) fresh ((\<lambda>_. None)(th_agent parent \<mapsto> it)) s2"
        and kn: "known (rn_journal s2) = known (rn_journal s)" by auto
      have kind: "kind_as_str ?k \<notin> set mail_types" by (simp add: mail_types_def)
      from append_step [OF ok2 c(3)] C(2) kn kind c(2) obtain x3 s3 where s3: "append_event P c s2 = (Inr x3, s3)"
        "rt_ok P jinv known (Suc n) fresh ((\<lambda>_. None)(th_agent parent \<mapsto> it)) s3" "known (rn_journal s3) = known (rn_journal s)"
        by auto
      from append_step [OF s3(2) q(3)] R(2) s3(3) kind q(2) obtain x4 s4 where s4: "append_event P q s3 = (Inr x4, s4)"
        "rt_ok P jinv known (Suc n) fresh ((\<lambda>_. None)(th_agent parent \<mapsto> it)) s4" by auto
      let ?st = "modify (set_status (th_agent child) (if success then TsCompleted else TsFailed)) :: ('j, unit) action"
      obtain s5 where s5: "?st s4 = (Inr (), s5)" by (simp add: modify_def)
      have ok5: "rt_ok P jinv known (Suc n) fresh ((\<lambda>_. None)(th_agent parent \<mapsto> it)) s5"
        using keeps_set_status [THEN keeps_snd, OF s4(2)] s5 by (metis snd_conv)
      let ?fe = "on_journal (\<lambda>j. p_finish_edge P j (th_session child) (if success then EdgeDone else EdgeFailed))"
      obtain s6 where s6: "?fe s5 = (Inr (), s6)"
        "rt_ok P jinv known (Suc n) fresh ((\<lambda>_. None)(th_agent parent \<mapsto> it)) s6"
        using finish_edge_step [OF ok5] by blast
      obtain s7 where s7: "enqueue_on (th_agent parent) it s6 = (Inr (), s7)"
        "rt_ok P jinv known (Suc n) fresh (\<lambda>_. None) s7" using enqueue_on_ok [OF s6(2)] by auto
      have pub: "rt_keeps P jinv known (seqn (publish c) (seqn (publish q) (publish me)))" by (intro keeps_intros)
      have "K it me s2 = seqn (publish c) (seqn (publish q) (publish me)) s7"
        unfolding K_def
        by (subst seqn_ok, rule s3(1), subst seqn_ok, rule s4(1), subst seqn_ok, rule s5, subst seqn_ok, rule s6(1),
            subst seqn_ok, rule s7(1), rule refl)
      then have "rt_ok P jinv known (Suc n) fresh (\<lambda>_. None) (snd (K it me s2))"
        using pub [THEN keeps_snd, OF s7(2)] by simp
      moreover have "finish_child_agent sp P a txt success s = K it me s2"
        unfolding finish_child_agent_def bnd_thread Some option.case Let_def
        using pa par c(1) q(1) run [symmetric] unfolding K_def
        by (cases success) (simp_all add: bnd_ok [of "of_result (Inr pa)" s pa s] of_result_def bnd_thread bnd_ok
            bnd_def [of "fresh_id sp"] fresh_id_def)
      ultimately show ?thesis by simp
    qed
  qed
qed

lemma append_run:
  assumes "jinv (rn_journal s)" "re_session e = Some sid" "known (rn_journal s) sid"
  shows "\<exists>x j' rec. append_event P e s = (Inr x, s\<lparr> rn_journal := j' \<rparr>) \<and> jinv j' \<and> known j' = known (rn_journal s)
    \<and> journal_records P j' sid = journal_records P (rn_journal s) sid @ [rec] \<and> ev_type rec = kind_as_str (re_kind e)
    \<and> ev_payload rec = journal_payload e
    \<and> (\<forall>y. y \<noteq> sid \<longrightarrow> journal_records P j' y = journal_records P (rn_journal s) y)"
proof -
  obtain r j' where ap: "p_append_event P (rn_journal s) e = (r, j')" by (rule prod.exhaust)
  from append_ok [OF assms ap] obtain x where "r = Inr x" "jinv j'" "known j' = known (rn_journal s)"
    "grows P (rn_journal s) sid (kind_as_str (re_kind e)) (journal_payload e) j'"
    by (cases r) (auto simp: ok_of_def event_type_of_def)
  then show ?thesis by (auto simp: grows_def append_event_def on_journal_def ap)
qed

lemma rt_ok_queue:
  assumes "rt_ok P jinv known n fresh (\<lambda>_. None) s" "map_of (rn_threads s) a = Some t"
  shows "mb_next (th_mailbox t) \<le> n" "mail_ok (journal_records P (rn_journal s) (th_session t)) (th_mailbox t) (th_live t)"
    "it \<in> set (mb_queue (th_mailbox t)) \<Longrightarrow> mi_seq it \<le> n"
proof -
  have m: "mb_next (th_mailbox t) \<le> n" "mail_ok (journal_records P (rn_journal s) (th_session t)) (th_mailbox t) (th_live t)"
    using rt_ok_thread(4) [OF assms] by (simp_all add: thread_mail_ok_def)
  then show "mb_next (th_mailbox t) \<le> n"
    "mail_ok (journal_records P (rn_journal s) (th_session t)) (th_mailbox t) (th_live t)" .
  assume "it \<in> set (mb_queue (th_mailbox t))"
  moreover define r where "r = replay_of (journal_records P (rn_journal s) (th_session t))"
  moreover have "mb_queue (th_mailbox t) = filter (\<lambda>it. mi_seq it \<notin> set (rp_consumed r)) (rp_enqueued r)"
    "\<forall>k \<in> mi_seq ` set (rp_enqueued r) \<union> set (rp_consumed r). k \<le> mb_next (th_mailbox t)"
    using m(2) by (simp_all add: mail_ok_def Let_def r_def)
  ultimately have "mi_seq it \<le> mb_next (th_mailbox t)" by auto
  with m(1) show "mi_seq it \<le> n" by simp
qed

lemma drain_ok:
  assumes ok: "rt_ok P jinv known n fresh (\<lambda>_. None) s" and n: "n \<le> usize_bound"
  shows "rt_ok P jinv known n fresh (\<lambda>_. None) (snd (drain_agent_mailbox sp P sid p s))"
proof (cases "fst (thread_for_session sid s)")
  case (Inl err)
  then have "thread_for_session sid s = (Inl err, s)" by (simp add: thread_for_session_run)
  with ok show ?thesis by (simp add: drain_agent_mailbox_def drain_begin_def bnd_def)
next
  case (Inr t)
  then obtain a where a: "map_of (rn_session_agents s) sid = Some a" "map_of (rn_threads s) a = Some t"
    by (auto simp: thread_for_session_run split: option.splits)
  then have ts: "thread_for_session sid s = (Inr t, s)" by (simp add: thread_for_session_run)
  define its where "its = pending_items_for_phase (th_mailbox t) p"
  show ?thesis
  proof (cases "its = []")
    case True
    with ts ok show ?thesis
      by (simp add: drain_agent_mailbox_def drain_begin_def bnd_def its_def Let_def ret_def drain_end_def)
  next
    case False
    note T = rt_ok_thread(1,2,3) [OF ok a(2)]
    note Q = rt_ok_queue [OF ok a(2)]
    have seqs: "\<forall>it \<in> set its. mi_seq it \<le> usize_bound"
      using Q(3) n by (auto simp: its_def pending_items_for_phase_def intro: order.trans)
    let ?s1 = "s\<lparr> rn_draws := Suc (rn_draws s) \<rparr>" and ?s2 = "s\<lparr> rn_draws := Suc (Suc (rn_draws s)) \<rparr>"
    obtain d where d: "thread_event sp MailboxDelivered Barrier t (drain_event_payload p its) s = (Inr d, ?s1)"
      "re_kind d = MailboxDelivered" "re_session d = Some (th_session t)" "re_payload d = drain_event_payload p its"
      using thread_event_run by blast
    obtain c where c: "thread_event sp MailboxConsumed Barrier t (drain_event_payload p its) ?s1 = (Inr c, ?s2)"
      "re_kind c = MailboxConsumed" "re_session c = Some (th_session t)" "re_payload c = drain_event_payload p its"
      using thread_event_run [of sp MailboxConsumed Barrier t _ ?s1] by auto
    have "jinv (rn_journal ?s2)" "known (rn_journal ?s2) (th_session t)" using rt_ok_journal_inv [OF ok] T(2) by simp_all
    from append_run [OF this(1) d(3) this(2)] obtain x1 j1 rd where j1:
      "append_event P d ?s2 = (Inr x1, ?s2\<lparr> rn_journal := j1 \<rparr>)" "jinv j1" "known j1 = known (rn_journal s)"
      "journal_records P j1 (th_session t) = journal_records P (rn_journal s) (th_session t) @ [rd]"
      "ev_type rd = ''mailbox.delivered''" "ev_payload rd = journal_payload d"
      "\<forall>y. y \<noteq> th_session t \<longrightarrow> journal_records P j1 y = journal_records P (rn_journal s) y"
      using d(2) by auto
    let ?s3 = "?s2\<lparr> rn_journal := j1 \<rparr>"
    have "jinv (rn_journal ?s3)" "known (rn_journal ?s3) (th_session t)" using j1(2,3) T(2) by simp_all
    from append_run [OF this(1) c(3) this(2)] obtain x2 j2 rc where j2:
      "append_event P c ?s3 = (Inr x2, ?s3\<lparr> rn_journal := j2 \<rparr>)" "jinv j2" "known j2 = known (rn_journal s)"
      "journal_records P j2 (th_session t) = journal_records P j1 (th_session t) @ [rc]"
      "ev_type rc = ''mailbox.consumed''" "ev_payload rc = journal_payload c"
      "\<forall>y. y \<noteq> th_session t \<longrightarrow> journal_records P j2 y = journal_records P j1 y"
      using c(2) j1(3) by auto
    let ?t' = "t\<lparr> th_mailbox := snd (drain_phase (th_mailbox t) p),
       th_live := record_mailbox_consumed (record_mailbox_delivered (th_live t) its) its \<rparr>"
    have its: "its = pending_items_for_phase (th_mailbox t) p" by (simp add: its_def)
    have "mail_ok (journal_records P j2 (th_session t)) (snd (drain_phase (th_mailbox t) p))
        (record_mailbox_consumed (record_mailbox_delivered (th_live t) its) its)"
      unfolding j2(4) j1(4)
      by (rule mail_ok_drain [OF Q(2) its j1(5) recorded_drain [OF j1(6) d(4) seqs] j2(5) recorded_drain [OF j2(6) c(4) seqs]])
    then have t': "thread_mail_ok P j2 n (\<lambda>_. None) ?t'"
      using Q(1) by (simp add: thread_mail_ok_def drain_phase_eq)
    let ?s4 = "?s3\<lparr> rn_journal := j2 \<rparr>"
    define s5 where "s5 = ?s4\<lparr> rn_threads := bt_insert a ?t' (rn_threads s) \<rparr>"
    have ok5: "rt_ok P jinv known n fresh (\<lambda>_. None) s5"
      by (rule rt_ok_commit [OF ok a(2), of j2 ?t'])
         (use j1(2,3,7) j2(2,3,7) t' T(1) in \<open>simp_all add: s5_def\<close>)
    have "drain_begin sp P sid p s = (Inr (t, its, [d, c]), ?s4)"
      unfolding drain_begin_def
      by (subst bnd_ok, rule ts)
         (simp add: Let_def its_def [symmetric] False, subst bnd_ok, rule d(1), subst bnd_ok, rule c(1),
          subst seqn_ok, rule j1(1), subst seqn_ok, rule j2(1), simp add: ret_def)
    then have first: "drain_agent_mailbox sp P sid p s = drain_end p (t, its, [d, c]) ?s4"
      unfolding drain_agent_mailbox_def by (rule bnd_ok)
    define s6 where "s6 = on_live a (\<lambda>l. record_mailbox_consumed (record_mailbox_delivered l its) its)
        (on_mailbox a (\<lambda>m. snd (drain_phase m p)) ?s4)"
    have last: "drain_end p (t, its, [d, c]) ?s4 = (Inr its, s6\<lparr> rn_published := rn_published s6 @ [d, c] \<rparr>)"
      using False a(2) T(1)
      by (simp add: drain_end_def bnd_thread Let_def drain_phase_eq its_def [symmetric] seqn_modify s6_def ret_def)
    have "rn_journal s6 = rn_journal s5" "map_of (rn_threads s6) = map_of (rn_threads s5)"
      using a(2) by (simp_all add: s6_def s5_def on_live_def on_mailbox_def update_thread_def bt_insert_lookup fun_eq_iff)
    from rt_ok_view [OF this] ok5 have "rt_ok P jinv known n fresh (\<lambda>_. None) s6" by simp
    then show ?thesis unfolding first last snd_conv by (subst rt_ok_frame) simp_all
  qed
qed

lemma keeps_wait_begin: "rt_keeps P jinv known (wait_begin sp P a ms)"
  unfolding wait_begin_def by (intro keeps_intros; simp add: mail_types_def)

lemma wait_ok:
  assumes ok: "rt_ok P jinv known n fresh (\<lambda>_. None) s" and n: "n \<le> usize_bound"
  shows "rt_ok P jinv known n fresh (\<lambda>_. None) (snd (wait_look sp P a tgt k s))"
proof (cases "map_of (rn_threads s) a")
  case None
  with ok show ?thesis by (simp add: wait_look_def bnd_thread)
next
  case (Some t)
  note T = rt_ok_thread(1,2,3) [OF ok Some]
  note Q = rt_ok_queue [OF ok Some]
  show ?thesis
  proof (cases "has_pending_item_after (th_mailbox t) tgt k")
    case None
    have "rt_keeps P jinv known (wait_end sp P a k WaitTimedOut)"
      unfolding wait_end_def wait_outcome.case by (intro keeps_intros; simp add: mail_types_def)
    from keeps_snd [OF this ok] Some None show ?thesis by (simp add: wait_look_def bnd_thread)
  next
    case it: (Some it)
    have q: "it \<in> set (mb_queue (th_mailbox t))"
      using it by (auto simp: has_pending_item_after_def find_Some_iff)
    with Q(3) n have seq: "mi_seq it \<le> usize_bound" by (meson order.trans)
    let ?s1 = "s\<lparr> rn_draws := Suc (rn_draws s) \<rparr>"
    obtain e where e: "thread_event sp WaitAgentCompleted Barrier t (wait_payload (WaitCompleted it) k) s = (Inr e, ?s1)"
      "re_kind e = WaitAgentCompleted" "re_session e = Some (th_session t)" "re_payload e = wait_payload (WaitCompleted it) k"
      using thread_event_run by blast
    have "jinv (rn_journal ?s1)" "known (rn_journal ?s1) (th_session t)" using rt_ok_journal_inv [OF ok] T(2) by simp_all
    from append_run [OF this(1) e(3) this(2)] obtain x1 j1 rd where j1:
      "append_event P e ?s1 = (Inr x1, ?s1\<lparr> rn_journal := j1 \<rparr>)" "jinv j1" "known j1 = known (rn_journal s)"
      "journal_records P j1 (th_session t) = journal_records P (rn_journal s) (th_session t) @ [rd]"
      "ev_type rd = ''wait_agent.completed''" "ev_payload rd = journal_payload e"
      "\<forall>y. y \<noteq> th_session t \<longrightarrow> journal_records P j1 y = journal_records P (rn_journal s) y"
      using e(2) by auto
    let ?s2 = "?s1\<lparr> rn_journal := j1 \<rparr>"
    let ?s3 = "?s2\<lparr> rn_published := rn_published s @ [e] \<rparr>"
    let ?t' = "t\<lparr> th_live := record_wait_observed_mailbox (th_live t) it \<rparr>"
    have w: "wait_observed_seq (ev_payload rd) = Some (mi_seq it)"
      unfolding j1(6) by (rule recorded_wait [OF e(4) seq])
    have t': "thread_mail_ok P j1 n (\<lambda>_. None) ?t'"
      using mail_ok_wait [OF Q(2) j1(5) w] Q(1) by (simp add: thread_mail_ok_def j1(4))
    define s5 where "s5 = ?s3\<lparr> rn_threads := bt_insert a ?t' (rn_threads s) \<rparr>"
    have ok5: "rt_ok P jinv known n fresh (\<lambda>_. None) s5"
      by (rule rt_ok_commit [OF ok Some, of j1 ?t'])
         (use j1(2,3,7) t' T(1) in \<open>simp_all add: s5_def\<close>)
    have bar: "publish_after_barrier P e ?s1 = (Inr x1, ?s3)"
      unfolding publish_after_barrier_def
      by (subst bnd_ok, rule j1(1)) (simp add: publish_def seqn_modify ret_def)
    have "wait_look sp P a tgt k s = wait_end sp P a k (WaitCompleted it) s"
      using Some it by (simp add: wait_look_def bnd_thread)
    also have "\<dots> = (Inr (WaitCompleted it), on_live a (\<lambda>l. record_wait_observed_mailbox l it) ?s3)"
      unfolding wait_end_def bnd_thread Some option.case wait_outcome.case
      by (subst bnd_ok, rule e(1), subst seqn_ok, rule bar) (simp add: seqn_modify ret_def)
    also have "on_live a (\<lambda>l. record_wait_observed_mailbox l it) ?s3 = s5"
      using Some by (simp add: on_live_def update_thread_def s5_def)
    finally show ?thesis using ok5 by simp
  qed
qed

text \<open>Sessions created, and threads inserted for them.\<close>

lemma ok_bnd:
  assumes "rt_ok P jinv known n fresh queued s" "rt_keeps P jinv known m"
    and "\<And>x s'. m s = (Inr x, s') \<Longrightarrow> rt_ok P jinv known n fresh queued s' \<Longrightarrow> rt_ok P jinv known n' fresh' queued' (snd (f x s'))"
    and "\<And>s'. rt_ok P jinv known n fresh queued s' \<Longrightarrow> rt_ok P jinv known n' fresh' queued' s'"
  shows "rt_ok P jinv known n' fresh' queued' (snd (bnd m f s))"
proof (cases "m s")
  case (Pair r s')
  with keepsD [OF assms(2,1) Pair] assms(3,4) show ?thesis by (cases r) (simp_all add: bnd_def)
qed

lemma create_step:
  assumes ok: "rt_ok P jinv known n {} queued s"
    and f: "\<And>meta s'. rt_ok P jinv known n {sm_id meta} queued s' \<Longrightarrow> rt_ok P jinv known n {} queued (snd (f meta s'))"
  shows "rt_ok P jinv known n {} queued (snd (bnd (on_journal (\<lambda>j. p_create P j req)) f s))"
proof -
  obtain r j' where c: "p_create P (rn_journal s) req = (r, j')" by (rule prod.exhaust)
  have j: "jinv (rn_journal s)" by (rule rt_ok_journal_inv [OF ok])
  show ?thesis
  proof (cases r)
    case (Inl err)
    with create_error [OF j] c have e: "jinv j'" "\<And>x. known (rn_journal s) x \<Longrightarrow> known j' x"
      "\<And>x. known (rn_journal s) x \<Longrightarrow> mail_same P (rn_journal s) j' x" by (auto intro: mail_same_eq)
    have "rt_ok P jinv known n {} queued (s\<lparr> rn_journal := j' \<rparr>)" by (rule rt_ok_journal [OF ok e])
    with c Inl show ?thesis by (simp add: bnd_def on_journal_def)
  next
    case (Inr meta)
    with create_ok [OF j] c have m: "jinv j'" "\<not> known (rn_journal s) (sm_id meta)" "known j' = (known (rn_journal s))(sm_id meta := True)"
      "\<And>x. x \<noteq> sm_id meta \<Longrightarrow> journal_records P j' x = journal_records P (rn_journal s) x"
      "\<forall>e \<in> set (journal_records P j' (sm_id meta)). ev_type e = ''session.created''" by auto
    have other: "known (rn_journal s) x \<Longrightarrow> x \<noteq> sm_id meta" for x using m(2) by auto
    have "rt_ok P jinv known n {} queued (s\<lparr> rn_journal := j' \<rparr>)"
      by (rule rt_ok_journal [OF ok m(1)]) (use m(3,4) other in \<open>auto intro!: mail_same_eq\<close>)
    moreover have "th_session t \<noteq> sm_id meta" if "map_of (rn_threads s) a = Some t" for a t
      by (rule other [OF rt_ok_thread(2) [OF ok that]])
    moreover have "\<forall>e \<in> set (journal_records P j' (sm_id meta)). ev_type e \<notin> set mail_types"
      using m(5) by (simp add: mail_types_def)
    ultimately have "rt_ok P jinv known n {sm_id meta} queued (s\<lparr> rn_journal := j' \<rparr>)"
      unfolding rt_ok_def using m(3) by simp
    from f [OF this] c Inr show ?thesis by (simp add: bnd_def on_journal_def)
  qed
qed

lemma insert_thread_ok:
  assumes ok: "rt_ok P jinv known n fresh (\<lambda>_. None) s" and t: "th_session t \<in> fresh"
    "th_mailbox t = rt_mailbox_new" "th_live t = live_default"
  shows "rt_ok P jinv known n (fresh - {th_session t}) (\<lambda>_. None) (insert_thread t s)"
proof -
  have look: "map_of (rn_threads (insert_thread t s)) x = (if x = th_agent t then Some t else map_of (rn_threads s) x)" for x
    by (simp add: insert_thread_def bt_insert_lookup)
  have j: "rn_journal (insert_thread t s) = rn_journal s" by (simp add: insert_thread_def)
  have fr: "known (rn_journal s) (th_session t)" "\<forall>e \<in> set (journal_records P (rn_journal s) (th_session t)). ev_type e \<notin> set mail_types"
    using ok t(1) by (simp_all add: rt_ok_def)
  have "thread_mail_ok P (rn_journal s) n (\<lambda>_. None) t"
    using mail_ok_created [OF fr(2)] t by (simp add: thread_mail_ok_def rt_mailbox_new_def)
  moreover have "th_session u \<noteq> th_session t" "th_session t \<noteq> th_session u" if "map_of (rn_threads s) x = Some u" for x u
    using rt_ok_thread(3) [OF ok that] t(1) by auto
  moreover have "jinv (rn_journal s)" by (rule rt_ok_journal_inv [OF ok])
  moreover have "\<forall>x \<in> fresh. known (rn_journal s) x \<and> (\<forall>e \<in> set (journal_records P (rn_journal s) x). ev_type e \<notin> set mail_types)"
    using ok by (simp add: rt_ok_def)
  ultimately show ?thesis
    unfolding rt_ok_def look j using rt_ok_thread(1,2,3,4) [OF ok] rt_ok_thread(5) [OF ok] fr(1) by (auto split: if_splits)
qed

lemma keeps_admit: "rt_keeps P jinv known (admit_on sp c a task)"
  by (rule keeps_frame) (simp add: admit_on_def insert_control_def split_def Let_def split: option.split sum.split spawn_admission.split)

lemma ok_admitted:
  assumes "\<And>e. rt_ok P jinv known n fresh queued (snd (f e s))" "\<And>x. rt_ok P jinv known n fresh queued (snd (g x s))"
    "\<And>q. rt_ok P jinv known n fresh queued (snd (h q s))"
  shows "rt_ok P jinv known n fresh queued
    (snd ((case r of Inl e \<Rightarrow> f e | Inr y \<Rightarrow> (case y of Reserved x \<Rightarrow> g x | Queued q \<Rightarrow> h q)) s))"
  using assms by (simp split: sum.split spawn_admission.split)

text \<open>A child's thread is inserted once its start is recorded; a root's before.\<close>

lemma child_created_ok:
  assumes ok: "rt_ok P jinv known n {sm_id meta} (\<lambda>_. None) s" and k: "kind_as_str k \<notin> set mail_types"
  shows "rt_ok P jinv known n {} (\<lambda>_. None)
    (snd (bnd (of_result (id_from_string ty (sm_id meta))) (\<lambda>sid.
       bnd (thread_event sp k Barrier parent (pay sid)) (\<lambda>e. seqn (publish_after_barrier P e)
         (seqn (modify (insert_thread (thread_new a sid r c pa ps path nk ro)))
           (ret (thread_new a sid r c pa ps path nk ro))))) s))"
proof (cases "id_from_string ty (sm_id meta)")
  case (Inl e)
  with rt_ok_fresh [OF ok] show ?thesis by (simp add: bnd_def of_result_def)
next
  case (Inr sid)
  then have sid: "sid = sm_id meta" by (simp add: id_from_string_def split: if_splits)
  have k1: "rt_keeps P jinv known (bnd (thread_event sp k Barrier parent (pay sid)) (\<lambda>e. publish_after_barrier P e))"
    by (intro keeps_intros) (simp add: k)
  have "rt_ok P jinv known n {} (\<lambda>_. None) (snd (bnd (bnd (thread_event sp k Barrier parent (pay sid)) (\<lambda>e. publish_after_barrier P e))
      (\<lambda>_. seqn (modify (insert_thread (thread_new a sid r c pa ps path nk ro))) (ret (thread_new a sid r c pa ps path nk ro))) s))"
  proof (rule ok_bnd [OF ok k1])
    fix x s'
    assume "rt_ok P jinv known n {sm_id meta} (\<lambda>_. None) s'"
    from insert_thread_ok [OF this, of "thread_new a sid r c pa ps path nk ro"]
    show "rt_ok P jinv known n {} (\<lambda>_. None) (snd (seqn (modify (insert_thread (thread_new a sid r c pa ps path nk ro)))
        (ret (thread_new a sid r c pa ps path nk ro)) s'))"
      by (simp add: seqn_modify ret_def thread_new_def sid)
  qed (rule rt_ok_fresh, assumption, simp)
  then show ?thesis using Inr
    by (simp add: bnd_def [of "of_result _"] of_result_def bnd_assoc seqn_def)
qed

lemma spawn_ok:
  assumes "rt_ok P jinv known n {} (\<lambda>_. None) s"
  shows "rt_ok P jinv known n {} (\<lambda>_. None) (snd (spawn_child sp P req s))"
  unfolding spawn_child_def Let_def
proof (rule ok_bnd [OF assms keeps_reads(5)], rule ok_bnd, assumption, rule keeps_reads(6), rule ok_bnd, assumption,
    intro keeps_intros, rule ok_bnd, assumption, rule keeps_admit, rule ok_admitted, goal_cases)
  case (1 parent s1 c s2 a s3 r s4 e)
  then show ?case by (intro keeps_snd keeps_intros; simp add: mail_types_def)
next
  case (2 parent s1 c s2 a s3 r s4 x)
  from 2(8) show ?case by (rule create_step) (rule child_created_ok, assumption, simp add: mail_types_def)
next
  case (3 parent s1 c s2 a s3 r s4 q)
  then show ?case by (intro keeps_snd keeps_intros; simp add: mail_types_def)
qed assumption+

lemma root_inserted_ok:
  assumes ok: "rt_ok P jinv known n {sid} (\<lambda>_. None) s" and k: "kind_as_str k \<notin> set mail_types"
  shows "rt_ok P jinv known n {} (\<lambda>_. None) (snd (insert_root_agent sp P sid cwd task threads k s))"
proof (cases "str_trim sid = []")
  case True
  with rt_ok_fresh [OF ok] show ?thesis
    by (simp add: insert_root_agent_def id_from_string_def bnd_def of_result_def)
next
  case False
  let ?t = "thread_new sid sid sid cwd None None ''/root'' None (Some ''default'')"
  let ?pay = "JObj [(''agent_path'', JStr ''/root''), (''materialized_from_replay'', JBool (k = AgentResumed)),
    (''role'', JStr ''default''), (''task'', JStr task)]"
  let ?rest = "seqn (modify (insert_control (control_new sid sid sid threads)))
    (bnd (thread_event sp k Barrier ?t ?pay) (\<lambda>e. seqn (publish_after_barrier P e) (ret ?t)))"
  have k1: "rt_keeps P jinv known ?rest"
    by (intro keeps_intros keeps_modify; simp add: insert_control_def k)
  have "rt_ok P jinv known n {} (\<lambda>_. None) (insert_thread ?t s)"
    using insert_thread_ok [OF ok, of ?t] by (simp add: thread_new_def)
  from keeps_snd [OF k1 this] False show ?thesis
    by (simp add: insert_root_agent_def id_from_string_def bnd_def [of "of_result _"] of_result_def Let_def seqn_modify)
qed

lemma create_root_ok:
  assumes "rt_ok P jinv known n {} (\<lambda>_. None) s"
  shows "rt_ok P jinv known n {} (\<lambda>_. None) (snd (create_root_agent sp P cwd task threads s))"
  unfolding create_root_agent_def
proof (rule create_step [OF assms])
  fix meta s'
  assume ok: "rt_ok P jinv known n {sm_id meta} (\<lambda>_. None) s'"
  have k: "kind_as_str AgentCreated \<notin> set mail_types" by (simp add: mail_types_def)
  from root_inserted_ok [OF ok k] rt_ok_fresh [OF ok]
  show "rt_ok P jinv known n {} (\<lambda>_. None)
      (snd (bnd (of_result (id_from_string ''SessionId'' (sm_id meta))) (\<lambda>sid. insert_root_agent sp P sid cwd task threads AgentCreated) s'))"
    by (simp add: id_from_string_def bnd_def of_result_def)
qed

text \<open>A run whose body sends messages.\<close>

definition advances :: "nat \<Rightarrow> ('j, 'a) action \<Rightarrow> bool" where
  "advances k m =
     (\<forall>n s. rt_ok P jinv known n {} (\<lambda>_. None) s \<longrightarrow> n + k \<le> usize_bound
        \<longrightarrow> rt_ok P jinv known (n + k) {} (\<lambda>_. None) (snd (m s)))"

lemma advances_keeps: "rt_keeps P jinv known m \<Longrightarrow> advances k m"
  by (simp add: advances_def keeps_snd rt_ok_mono)

lemma advances_bnd: "rt_keeps P jinv known m \<Longrightarrow> (\<And>x. advances k (f x)) \<Longrightarrow> advances k (bnd m f)"
  unfolding advances_def
proof (intro allI impI)
  fix n s
  assume m: "rt_keeps P jinv known m" and f: "\<And>x. \<forall>n s. rt_ok P jinv known n {} (\<lambda>_. None) s \<longrightarrow> n + k \<le> usize_bound
        \<longrightarrow> rt_ok P jinv known (n + k) {} (\<lambda>_. None) (snd (f x s))"
    and ok: "rt_ok P jinv known n {} (\<lambda>_. None) s" and k: "n + k \<le> usize_bound"
  show "rt_ok P jinv known (n + k) {} (\<lambda>_. None) (snd (bnd m f s))"
    by (rule ok_bnd [OF ok m]) (use f k rt_ok_mono in blast)+
qed

lemma advances_seqn: "rt_keeps P jinv known m \<Longrightarrow> advances k f \<Longrightarrow> advances k (seqn m f)"
  unfolding seqn_def by (rule advances_bnd)

lemma advances_if: "(b \<Longrightarrow> advances k m) \<Longrightarrow> (\<not> b \<Longrightarrow> advances k m') \<Longrightarrow> advances k (if b then m else m')"
  by simp

lemma advances_run_agent:
  assumes body: "advances k body"
  shows "advances k (run_agent sp P req body)"
proof -
  have b: "advances k (with_run_guard sid (\<lambda>s. (let (r, s1) = body s; cancelled = (rq_token req \<in> set (rn_cancelled s1)) in
            case r of
              Inl err \<Rightarrow> run_failed sp P t req lease cancelled err s1
            | Inr out \<Rightarrow>
                (if cancelled then run_cancelled sp P t req lease out s1
                 else run_completed sp P t req lease out s1))))" for sid t lease
    unfolding advances_def
  proof (intro allI impI)
    fix n s
    assume ok: "rt_ok P jinv known n {} (\<lambda>_. None) s" "n + k \<le> usize_bound"
    have ok2: "rt_ok P jinv known (n + k) {} (\<lambda>_. None) (snd (body s))" using assms ok by (simp add: advances_def)
    have ok1: "rt_ok P jinv known (n + k) {} (\<lambda>_. None) (unregister_run sid s')"
      if "rt_ok P jinv known (n + k) {} (\<lambda>_. None) s'" for s'
      by (subst rt_ok_frame [of _ s']) (simp_all add: unregister_run_def that)
    show "rt_ok P jinv known (n + k) {} (\<lambda>_. None) (snd (with_run_guard sid (\<lambda>s.
        (let (r, s1) = body s; cancelled = (rq_token req \<in> set (rn_cancelled s1)) in
            case r of
              Inl err \<Rightarrow> run_failed sp P t req lease cancelled err s1
            | Inr out \<Rightarrow>
                (if cancelled then run_cancelled sp P t req lease out s1
                 else run_completed sp P t req lease out s1))) s))"
      by (simp add: with_run_guard_def split_def Let_def ok1 keeps_run_ends [THEN keeps_snd] ok2 split: sum.split)
  qed
  have claim: "rt_keeps P jinv known (case rq_browser req of
                None \<Rightarrow> ret None | Some b \<Rightarrow> bnd (rt_claim_browser sp P b a) (\<lambda>l. ret (Some l)))" for a
    by (intro keeps_intros keeps_bnd [OF keeps_browser_ops(3)])
  show ?thesis
    unfolding run_agent_def Let_def [of "th_agent _"]
    by (intro advances_bnd [OF keeps_thread_for_session] advances_if advances_keeps [OF keeps_reads(2)]
        advances_bnd [OF claim] advances_seqn b keeps_intros; simp add: mail_types_def)
qed

end

end
