(* ===== verification/RtRestart.thy ===== *)
theory RtRestart
  imports RtRecovery "HOL-Library.Code_Target_Nat"
begin

text \<open>
  Runs of the runtime over its in-memory journal, which provides the contract of \<open>RtRecovery\<close>, and what a
  restart finds: the mail of every agent, and then, once the agents go on, numbers that were used before.
\<close>

section \<open>Runs of the runtime\<close>

text \<open>The operations of the runtime, with the sizes and answers its callers choose: in a run, the body is a
  sequence of operations and its outcome. Sessions known from before are not attached here.\<close>

datatype runtime_op =
    RoCreateRoot string string nat
  | RoSpawn spawn_request
  | RoSend send_request
  | RoSubmit submit_request
  | RoAccept string "int option" json
  | RoConsume string
  | RoDrain string delivery_phase
  | RoWaitBegin string nat
  | RoWaitEnd string agent_target nat
  | RoFinish string string bool
  | RoClose string string
  | RoCancel string
  | RoObserve string string json durability
  | RoObserveBrowser string string string json durability
  | RoCreateBrowser string browser_config
  | RoClaimBrowser string string
  | RoReleaseBrowser browser_lease
  | RoCloseBrowser string string
  | RoRun run_request "runtime_op list" "runtime_error + json"

fun exec_op :: "id_supply \<Rightarrow> 'j persistence \<Rightarrow> (browser_config \<Rightarrow> json) \<Rightarrow> runtime_op \<Rightarrow> 'j runtime \<Rightarrow> 'j runtime"
  and exec_ops :: "id_supply \<Rightarrow> 'j persistence \<Rightarrow> (browser_config \<Rightarrow> json) \<Rightarrow> runtime_op list \<Rightarrow> 'j runtime \<Rightarrow> 'j runtime" where
  "exec_op sp P cj (RoCreateRoot cwd task threads) s = snd (create_root_agent sp P cwd task threads s)"
| "exec_op sp P cj (RoSpawn req) s = snd (spawn_child sp P req s)"
| "exec_op sp P cj (RoSend req) s = snd (send_agent_message sp P req s)"
| "exec_op sp P cj (RoSubmit req) s = snd (submit_input sp P req s)"
| "exec_op sp P cj (RoAccept a q p) s = snd (accept_prompt_input sp P a q p s)"
| "exec_op sp P cj (RoConsume sid) s = snd (consume_prompt_input_for_session sp P sid s)"
| "exec_op sp P cj (RoDrain sid ph) s = snd (drain_agent_mailbox sp P sid ph s)"
| "exec_op sp P cj (RoWaitBegin a ms) s = snd (wait_begin sp P a ms s)"
| "exec_op sp P cj (RoWaitEnd a tgt k) s = snd (wait_look sp P a tgt k s)"
| "exec_op sp P cj (RoFinish a txt success) s = snd (finish_child_agent sp P a txt success s)"
| "exec_op sp P cj (RoClose a reason) s = snd (close_agent sp P a reason s)"
| "exec_op sp P cj (RoCancel sid) s = snd (cancel_run sp P sid s)"
| "exec_op sp P cj (RoObserve sid t p d) s = snd (append_observed_session_event sp P sid t p d s)"
| "exec_op sp P cj (RoObserveBrowser sid b t p d) s = snd (append_observed_browser_session_event sp P sid b t p d s)"
| "exec_op sp P cj (RoCreateBrowser a c) s = snd (create_browser_for_agent sp P cj a c s)"
| "exec_op sp P cj (RoClaimBrowser b a) s = snd (rt_claim_browser sp P b a s)"
| "exec_op sp P cj (RoReleaseBrowser l) s = snd (rt_release_browser sp P l s)"
| "exec_op sp P cj (RoCloseBrowser b a) s = snd (close_browser_for_agent sp P b a s)"
| "exec_op sp P cj (RoRun req body r) s = snd (run_agent sp P req (\<lambda>s1. (r, exec_ops sp P cj body s1)) s)"
| "exec_ops sp P cj [] s = s"
| "exec_ops sp P cj (x # xs) s = exec_ops sp P cj xs (exec_op sp P cj x s)"

text \<open>How many messages the operations can number.\<close>

fun op_mails :: "runtime_op \<Rightarrow> nat" and ops_mails :: "runtime_op list \<Rightarrow> nat" where
  "op_mails (RoSend _) = 1"
| "op_mails (RoSubmit _) = 1"
| "op_mails (RoFinish _ _ _) = 1"
| "op_mails (RoRun _ body _) = ops_mails body"
| "op_mails _ = 0"
| "ops_mails [] = 0"
| "ops_mails (x # xs) = op_mails x + ops_mails xs"

text \<open>The events observed are not of the types by which the runtime records its mail.\<close>

fun op_foreign :: "runtime_op \<Rightarrow> bool" and ops_foreign :: "runtime_op list \<Rightarrow> bool" where
  "op_foreign (RoObserve _ t _ _) = (t \<notin> set mail_types)"
| "op_foreign (RoObserveBrowser _ _ t _ _) = (t \<notin> set mail_types)"
| "op_foreign (RoRun _ body _) = ops_foreign body"
| "op_foreign _ = True"
| "ops_foreign [] = True"
| "ops_foreign (x # xs) = (op_foreign x \<and> ops_foreign xs)"

context journal_laws
begin

lemma exec_advances:
  shows "op_foreign x \<Longrightarrow> rt_ok P jinv known n {} (\<lambda>_. None) s \<Longrightarrow> n + op_mails x \<le> usize_bound \<Longrightarrow>
      rt_ok P jinv known (n + op_mails x) {} (\<lambda>_. None) (exec_op sp P cj x s)"
    and "ops_foreign xs \<Longrightarrow> rt_ok P jinv known n {} (\<lambda>_. None) s \<Longrightarrow> n + ops_mails xs \<le> usize_bound \<Longrightarrow>
      rt_ok P jinv known (n + ops_mails xs) {} (\<lambda>_. None) (exec_ops sp P cj xs s)"
proof (induction x and xs arbitrary: n s and n s rule: op_foreign_ops_foreign.induct)
  case (3 req body r)
  have "advances (ops_mails body) (\<lambda>s1. (r, exec_ops sp P cj body s1))"
    using 3 by (simp add: advances_def)
  from advances_run_agent [OF this] 3 show ?case by (simp add: advances_def)
next
  case (6 x xs)
  have "rt_ok P jinv known (n + op_mails x) {} (\<lambda>_. None) (exec_op sp P cj x s)"
    by (rule 6(1)) (use 6(3-5) in simp_all)
  from 6(2) [OF _ this] 6(3,5) show ?case by (simp add: add.assoc)
qed (simp_all add: create_root_ok spawn_ok send_ok submit_ok finish_ok drain_ok wait_ok keeps_wait_begin [THEN keeps_snd]
    keeps_prompt_inputs [THEN keeps_snd] keeps_close_agent [THEN keeps_snd] keeps_cancel_run [THEN keeps_snd]
    keeps_browser_ops [THEN keeps_snd] keeps_observed [THEN keeps_snd] cancel_run_def split_def Let_def)

end

section \<open>The in-memory journal as provider\<close>

text \<open>The trait's operations over \<open>MemoryJournal\<close>. As many rounds as there are edges, and one more, list
  all descendants (\<open>descendants_listed\<close>); on a cycle of edges, where the code does not return, the model
  answers with an error.\<close>

definition memory_persistence :: "id_supply \<Rightarrow> memory_journal persistence" where
  "memory_persistence sp =
     \<lparr> p_append_event = append_runtime_event sp,
       p_append_session = append_session_event sp,
       p_create = create_thread sp,
       p_load = (\<lambda>j sid. Inr (load_session j sid)),
       p_events = (\<lambda>j sid. Inr (events_for_session j sid)),
       p_finish_edge = (\<lambda>j c st. (Inr (), finish_spawn_edge j c st)),
       p_close_edge = (\<lambda>j c reason. (Inr (), close_spawn_edge sp j c)),
       p_descendants = (\<lambda>j root.
         case list_descendants (Suc (length (mj_edges j))) (mj_edges j) root of
           None \<Rightarrow> Inl (RtMessage ''the spawn edges have a cycle'') | Some ds \<Rightarrow> Inr ds) \<rparr>"

definition memory_known :: "memory_journal \<Rightarrow> string \<Rightarrow> bool" where
  "memory_known j sid = (map_of (mj_sessions j) sid \<noteq> None)"

text \<open>A session that is not known has no events.\<close>

definition memory_inv :: "memory_journal \<Rightarrow> bool" where
  "memory_inv j = (\<forall>sid. \<not> memory_known j sid \<longrightarrow> session_events j sid = [])"

lemma memory_events: "journal_records (memory_persistence sp) j sid = session_events j sid"
  by (simp add: journal_records_def memory_persistence_def events_for_session_def)

lemma memory_append_known:
  assumes "memory_inv j" "memory_known j sid" "append_session_event sp j sid t p = (r, j')"
  shows "ok_of r \<and> memory_inv j' \<and> memory_known j' = memory_known j \<and> grows (memory_persistence sp) j sid t p j'"
proof -
  obtain meta where m: "map_of (mj_sessions j) sid = Some meta" using assms(2) by (auto simp: memory_known_def)
  have k: "memory_known j' = memory_known j"
    using assms(3) m by (auto simp: append_session_event_def memory_known_def fun_eq_iff bt_insert_lookup Let_def
        split: option.splits if_splits)
  obtain x where r: "r = Inr x"
    using assms(3) m by (auto simp: append_session_event_def Let_def)
  from append_session_event_ok [of sp j sid t p x j'] assms(3) r obtain rec where
    "session_events j' sid = session_events j sid @ [rec]" "ev_type rec = t" "ev_payload rec = p"
    "\<forall>s. s \<noteq> sid \<longrightarrow> session_events j' s = session_events j s"
    by (auto simp: events_for_session_def)
  moreover from this have "memory_inv j'"
    using assms(1,2) k unfolding memory_inv_def by metis
  ultimately show ?thesis using r k by (auto simp: ok_of_def grows_def memory_events)
qed

lemma memory_append_unknown:
  "\<not> memory_known j sid \<Longrightarrow> append_session_event sp j sid t p = (r, j') \<Longrightarrow> j' = j"
  by (simp add: append_session_event_def memory_known_def)

lemma memory_create:
  assumes "memory_inv j" "create_thread sp j req = (r, j')"
  shows "case r of
      Inl e \<Rightarrow> memory_inv j' \<and> (\<forall>x. memory_known j x \<longrightarrow> memory_known j' x \<and> session_events j' x = session_events j x)
    | Inr meta \<Rightarrow> memory_inv j' \<and> \<not> memory_known j (sm_id meta) \<and> memory_known j' = (memory_known j)(sm_id meta := True)
        \<and> (\<forall>x. x \<noteq> sm_id meta \<longrightarrow> session_events j' x = session_events j x)
        \<and> (\<forall>e \<in> set (session_events j' (sm_id meta)). ev_type e = ''session.created'')"
proof -
  define i where "i = (case ct_session req of Some i \<Rightarrow> i | None \<Rightarrow> sp_id sp (mj_draws j))"
  define j0 where "j0 = (case ct_session req of Some i \<Rightarrow> j | None \<Rightarrow> j\<lparr> mj_draws := Suc (mj_draws j) \<rparr>)"
  have ij: "(case ct_session req of None \<Rightarrow> (sp_id sp (mj_draws j), j\<lparr> mj_draws := Suc (mj_draws j) \<rparr>) | Some i \<Rightarrow> (i, j)) = (i, j0)"
    by (simp add: i_def j0_def split: option.split)
  have j0: "memory_known j0 = memory_known j" "session_events j0 = session_events j" "memory_inv j0"
    using assms(1) by (simp_all add: j0_def memory_known_def memory_inv_def session_events_def fun_eq_iff split: option.split)
  note c = assms(2) [unfolded create_thread_def ij Let_def prod.case]
  show ?thesis
  proof (cases "map_of (mj_sessions j0) i")
    case (Some m)
    with c j0 show ?thesis by auto
  next
    case None
    define meta where "meta = \<lparr> sm_id = i, sm_parent_id = ct_parent req, sm_cwd = ct_cwd req,
      sm_artifact_root = unwrap_or (path_join (path_join (ct_cwd req) ''artifacts'') i) (ct_artifact_root req),
      sm_status = SCreated, sm_created_ms = sp_now sp (mj_draws j0), sm_updated_ms = sp_now sp (mj_draws j0) \<rparr>"
    define j1 where "j1 = j0\<lparr> mj_sessions := bt_insert i meta (mj_sessions j0),
        mj_edges := (case ct_parent req of
                       None \<Rightarrow> mj_edges j0
                     | Some p \<Rightarrow>
                         bt_insert i \<lparr> ed_parent = p, ed_child = i, ed_status = EdgeOpen,
                                       ed_path = ct_agent_path req, ed_nickname = ct_nickname req,
                                       ed_role = ct_role req \<rparr> (mj_edges j0)) \<rparr>"
    have "\<not> memory_known j0 i" using None by (simp add: memory_known_def)
    moreover have "memory_known j1 = (memory_known j0)(i := True)" "session_events j1 = session_events j0"
      by (auto simp: j1_def memory_known_def session_events_def fun_eq_iff bt_insert_lookup)
    ultimately have j1: "memory_known j1 = (memory_known j)(i := True)" "session_events j1 = session_events j"
      "\<not> memory_known j i" by (simp_all add: j0)
    have inv1: "memory_inv j1" using j0 j1 by (auto simp: memory_inv_def)
    have c1: "(case id_from_string ''SessionId'' i of
                 Inl e \<Rightarrow> (Inl e, j1)
               | Inr i' \<Rightarrow>
                   (case append_session_event sp j1 i' ''session.created'' (JObj []) of
                      (Inl e, j2) \<Rightarrow> (Inl e, j2)
                    | (Inr _, j2) \<Rightarrow> (Inr meta, j2))) = (r, j')"
      using c None unfolding meta_def [symmetric] j1_def [symmetric] by simp
    show ?thesis
    proof (cases "id_from_string ''SessionId'' i")
      case (Inl e)
      with c1 inv1 j1 show ?thesis by auto
    next
      case (Inr i')
      then have i': "i' = i" by (simp add: id_from_string_def split: if_splits)
      obtain r2 j2 where a: "append_session_event sp j1 i ''session.created'' (JObj []) = (r2, j2)" by (rule prod.exhaust)
      have k: "memory_known j1 i" by (simp add: j1(1))
      note g = memory_append_known [OF inv1 k a]
      then obtain x where x: "r2 = Inr x" by (cases r2) (simp_all add: ok_of_def)
      have r: "r = Inr meta" "j' = j2" using c1 Inr i' a x by simp_all
      have e0: "session_events j i = []" using assms(1) j1(3) by (simp add: memory_inv_def)
      have "\<exists>rec. session_events j2 i = session_events j1 i @ [rec] \<and> ev_type rec = ''session.created'' \<and> ev_payload rec = JObj []"
        "\<forall>y. y \<noteq> i \<longrightarrow> session_events j2 y = session_events j1 y"
        using g unfolding grows_def memory_events by blast+
      then have "\<forall>e \<in> set (session_events j2 i). ev_type e = ''session.created''"
        "\<forall>y. y \<noteq> i \<longrightarrow> session_events j2 y = session_events j y" using e0 by (auto simp: j1(2))
      with g r j1 show ?thesis by (simp add: meta_def)
    qed
  qed
qed

lemma memory_edges:
  "memory_known (set_edge_status j c st) = memory_known j" "session_events (set_edge_status j c st) = session_events j"
  "memory_known (close_spawn_edge sp j c) = memory_known j" "session_events (close_spawn_edge sp j c) = session_events j"
  by (auto simp: set_edge_status_def close_spawn_edge_def memory_known_def session_events_def fun_eq_iff
      bt_insert_lookup Let_def split: option.splits if_splits)

interpretation memory: journal_laws "memory_persistence sp" memory_inv memory_known
proof unfold_locales
  fix j e sid r j'
  assume a: "memory_inv j" "re_session e = Some sid" "memory_known j sid"
    "p_append_event (memory_persistence sp) j e = (r, j')"
  then have "append_session_event sp j sid (event_type_of e) (journal_payload e) = (r, j')"
    by (simp add: memory_persistence_def append_runtime_event_def)
  from memory_append_known [OF a(1,3) this]
  show "ok_of r \<and> memory_inv j' \<and> memory_known j' = memory_known j
      \<and> grows (memory_persistence sp) j sid (event_type_of e) (journal_payload e) j'" .
next
  fix j e r j'
  assume "re_session e = None \<or> \<not> memory_known j (the (re_session e))"
    "p_append_event (memory_persistence sp) j e = (r, j')"
  then show "j' = j"
    by (cases "re_session e")
       (auto simp: memory_persistence_def append_runtime_event_def dest: memory_append_unknown)
next
  fix j sid t p r j'
  assume a: "memory_inv j" "memory_known j sid" "p_append_session (memory_persistence sp) j sid t p = (r, j')"
  then have "append_session_event sp j sid t p = (r, j')" by (simp add: memory_persistence_def)
  from memory_append_known [OF a(1,2) this]
  show "ok_of r \<and> memory_inv j' \<and> memory_known j' = memory_known j \<and> grows (memory_persistence sp) j sid t p j'" .
next
  fix j sid t p r j'
  assume "\<not> memory_known j sid" "p_append_session (memory_persistence sp) j sid t p = (r, j')"
  then show "j' = j" by (auto simp: memory_persistence_def dest: memory_append_unknown)
next
  fix j req meta j'
  assume "memory_inv j" "p_create (memory_persistence sp) j req = (Inr meta, j')"
  then show "memory_inv j' \<and> \<not> memory_known j (sm_id meta) \<and> memory_known j' = (memory_known j)(sm_id meta := True)
      \<and> (\<forall>x. x \<noteq> sm_id meta \<longrightarrow> journal_records (memory_persistence sp) j' x = journal_records (memory_persistence sp) j x)
      \<and> (\<forall>e \<in> set (journal_records (memory_persistence sp) j' (sm_id meta)). ev_type e = ''session.created'')"
    using memory_create [of j sp req "Inr meta" j'] by (simp add: memory_events) (simp add: memory_persistence_def)
next
  fix j req err j'
  assume "memory_inv j" "p_create (memory_persistence sp) j req = (Inl err, j')"
  then show "memory_inv j' \<and> (\<forall>x. memory_known j x \<longrightarrow>
      memory_known j' x \<and> journal_records (memory_persistence sp) j' x = journal_records (memory_persistence sp) j x)"
    using memory_create [of j sp req "Inl err" j'] by (simp add: memory_events) (simp add: memory_persistence_def)
next
  fix j x st u j'
  assume "memory_inv j" "p_finish_edge (memory_persistence sp) j x st = (u, j')"
  then have "memory_inv j" "u = Inr ()" "j' = set_edge_status j x st"
    by (simp_all add: memory_persistence_def finish_spawn_edge_def)
  then show "ok_of u \<and> memory_inv j' \<and> memory_known j' = memory_known j
      \<and> journal_records (memory_persistence sp) j' = journal_records (memory_persistence sp) j"
    by (simp add: ok_of_def memory_inv_def memory_edges memory_events fun_eq_iff)
next
  fix j x y u j'
  assume "memory_inv j" "p_close_edge (memory_persistence sp) j x y = (u, j')"
  then have "memory_inv j" "u = Inr ()" "j' = close_spawn_edge sp j x"
    by (simp_all add: memory_persistence_def)
  then show "ok_of u \<and> memory_inv j' \<and> memory_known j' = memory_known j
      \<and> journal_records (memory_persistence sp) j' = journal_records (memory_persistence sp) j"
    by (simp add: ok_of_def memory_inv_def memory_edges memory_events fun_eq_iff)
qed

section \<open>A restart\<close>

text \<open>What is left of the runtime is its journal. A new runtime has a thread for the session, with an empty
  mailbox and live state, and replays.\<close>

definition restarted :: "'j persistence \<Rightarrow> 'j runtime \<Rightarrow> agent_thread \<Rightarrow> 'j runtime" where
  "restarted P s t =
     (let t0 = t\<lparr> th_status := TsCreated, th_mailbox := rt_mailbox_new, th_resources := [], th_live := live_default \<rparr>
      in snd (materialize_live_state_after_resume P t0 (insert_thread t0 (runtime_new (rn_journal s)))))"

lemma restarted_thread:
  assumes "p_events P (rn_journal s) (th_session t) = Inr es"
  shows "\<exists>t'. map_of (rn_threads (restarted P s t)) (th_agent t) = Some t'
    \<and> th_mailbox t' = materialize_pending rt_mailbox_new (mz_pending (materialized_live_state_from_events es))
    \<and> th_live t' = materialize_from_replay live_default (materialized_live_state_from_events es)"
  using assms
  by (simp add: restarted_def materialize_live_state_after_resume_def bnd_def reading_def insert_thread_def
      runtime_new_def modify_def on_live_def on_mailbox_def update_thread_def bt_insert_lookup Let_def)

lemma mail_ok_restart:
  assumes "mail_ok es m l"
  shows "mb_queue (materialize_pending rt_mailbox_new (mz_pending (materialized_live_state_from_events es))) = mb_queue m"
    "mail_view (materialize_from_replay live_default (materialized_live_state_from_events es)) = mail_view l"
  using assms
  by (simp_all add: mail_ok_def Let_def materialize_pending_def materialized_live_state_from_events_def replay_of_def
      replay_finish_def materialize_from_replay_def mail_view_def)

lemma runtime_new_ok: "rt_ok (memory_persistence sp) memory_inv memory_known 0 {} (\<lambda>_. None) (runtime_new memory_journal_new)"
  by (simp add: rt_ok_def runtime_new_def memory_inv_def memory_journal_new_def session_events_def)

text \<open>C7. Whatever the runtime did since it started with an empty journal - agents created and spawned,
  messages sent, drained and waited for, results reported, agents closed and cancelled, browsers used, runs
  run, but neither attached nor resumed agents - a restart rebuilds the mail of each of its agents: the queue in
  its order and the six mail counters of its live state (\<open>mail_view\<close>: pending, pending that trigger a turn, last
  enqueued, last observed by a wait, last delivered, last consumed). The run sends at most as many messages as a 64-bit number counts,
  and the events that outside callers append have none of the mail types (\<open>ops_foreign\<close>). The count of prompt
  inputs is not rebuilt (\<open>prompt_count_not_rebuilt\<close>), and the numbers of the messages sent after the restart are
  not covered (\<open>restart_reuses_numbers\<close>).
\<close>

theorem restart_rebuilds_mailbox:
  assumes "ops_mails ops \<le> usize_bound" "ops_foreign ops"
    and "s = exec_ops sp (memory_persistence sp) cj ops (runtime_new memory_journal_new)"
    and "map_of (rn_threads s) a = Some t"
  shows "\<exists>t'. map_of (rn_threads (restarted (memory_persistence sp) s t)) a = Some t'
    \<and> mb_queue (th_mailbox t') = mb_queue (th_mailbox t) \<and> mail_view (th_live t') = mail_view (th_live t)"
proof -
  have "rt_ok (memory_persistence sp) memory_inv memory_known (ops_mails ops) {} (\<lambda>_. None) s"
    using memory.exec_advances(2) [OF assms(2) runtime_new_ok] assms(1,3) by simp
  note ok = memory.rt_ok_queue [OF this assms(4)] rt_ok_thread(1) [OF this assms(4)]
  have "p_events (memory_persistence sp) (rn_journal s) (th_session t) = Inr (journal_records (memory_persistence sp) (rn_journal s) (th_session t))"
    by (simp add: journal_records_def memory_persistence_def)
  from restarted_thread [of _ s t, OF this] ok(4) mail_ok_restart [OF ok(2)] show ?thesis by auto
qed

definition sample_ids :: id_supply where
  "sample_ids = \<lparr> sp_id = (\<lambda>n. CHR ''i'' # show_int (int n)), sp_now = int \<rparr>"

definition sample_ops :: "runtime_op list" where
  "sample_ops =
     [RoCreateRoot ''/w'' ''task'' 2,
      RoSubmit \<lparr> sb_target = ''i0'', sb_content = ''go on'', sb_trigger = True, sb_phase = CurrentTurn,
                 sb_items = None, sb_payload = JNull \<rparr>]"

theorem restart_rebuilds_mailbox_witness:
  "\<exists>t t'. map_of (rn_threads (exec_ops sample_ids (memory_persistence sample_ids) (\<lambda>_. JNull) sample_ops (runtime_new memory_journal_new))) ''i0'' = Some t
    \<and> map mi_content (mb_queue (th_mailbox t)) = [''go on'']
    \<and> map_of (rn_threads (restarted (memory_persistence sample_ids)
         (exec_ops sample_ids (memory_persistence sample_ids) (\<lambda>_. JNull) sample_ops (runtime_new memory_journal_new)) t)) ''i0'' = Some t'
    \<and> mb_queue (th_mailbox t') = mb_queue (th_mailbox t)"
proof -
  let ?s = "exec_ops sample_ids (memory_persistence sample_ids) (\<lambda>_. JNull) sample_ops (runtime_new memory_journal_new)"
  have "map_option (\<lambda>t. map mi_content (mb_queue (th_mailbox t))) (map_of (rn_threads ?s) ''i0'') = Some [''go on'']"
    by code_simp
  then obtain t where t: "map_of (rn_threads ?s) ''i0'' = Some t" "map mi_content (mb_queue (th_mailbox t)) = [''go on'']" by auto
  have "ops_mails sample_ops \<le> usize_bound" "ops_foreign sample_ops" by (simp_all add: sample_ops_def usize_bound_def)
  from restart_rebuilds_mailbox [OF this refl t(1)] obtain t' where
    "map_of (rn_threads (restarted (memory_persistence sample_ids) ?s t)) ''i0'' = Some t'"
    "mb_queue (th_mailbox t') = mb_queue (th_mailbox t)" by (elim exE conjE)
  with t show ?thesis by (intro exI [of _ t] exI [of _ t'] conjI)
qed

text \<open>After a restart the numbers go on from the largest one still pending: when every message was consumed,
  from the start. A message that gets a number already consumed is not pending for the next restart.\<close>

lemma restart_reuses_numbers:
  assumes "z = materialized_live_state_from_events es" "mz_pending z = []" "1 \<in> set (rp_consumed (replay_of es))"
    and "ev_type e = ''mailbox.enqueued''"
    and "mailbox_item_from_event e = Some (fst (prepare_item (materialize_pending rt_mailbox_new (mz_pending z)) it))"
  shows "mz_pending (materialized_live_state_from_events (es @ [e])) = []"
proof -
  have "mi_seq (fst (prepare_item (materialize_pending rt_mailbox_new (mz_pending z)) it)) = 1"
    using assms(2) by (simp add: prepare_item_def materialize_pending_def rt_mailbox_new_def max_seq_def sat_add1_def usize_bound_def)
  then show ?thesis
    using assms by (simp add: materialized_live_state_from_events_def replay_finish_def replay_of_def replay_event_def)
qed

text \<open>A drain returns what it saw first: a message queued for the same phase after that look leaves the queue
  with the others, without being returned and without being recorded as delivered.\<close>

lemma drain_loses_late_message:
  assumes "map_of (rn_threads s) (th_agent t) = Some now" "its \<noteq> []"
    and "it \<in> set (mb_queue (th_mailbox now))" "mi_phase it = p" "it \<notin> set its"
  shows "\<exists>s' now'. drain_end p (t, its, evs) s = (Inr its, s') \<and> map_of (rn_threads s') (th_agent t) = Some now'
    \<and> it \<notin> set (mb_queue (th_mailbox now'))"
  using assms
  by (simp add: drain_end_def bnd_thread Let_def seqn_modify ret_def on_live_def on_mailbox_def update_thread_def
      bt_insert_lookup drain_phase_eq)

text \<open>The count of pending prompt inputs is not rebuilt: consuming records only the latest input accepted, and
  the replay takes every input up to that one as consumed.\<close>

definition prompt_ops :: "runtime_op list" where
  "prompt_ops = [RoCreateRoot ''/w'' ''task'' 2, RoAccept ''i0'' (Some 5) JNull, RoAccept ''i0'' (Some 7) JNull,
     RoConsume ''i0'', RoAccept ''i0'' (Some 9) JNull]"

lemma prompt_count_not_rebuilt:
  "let P = memory_persistence sample_ids; s = exec_ops sample_ids P (\<lambda>_. JNull) prompt_ops (runtime_new memory_journal_new) in
   map_option (\<lambda>t. (lv_pending_prompt (th_live t),
       map_option (\<lambda>t'. lv_pending_prompt (th_live t')) (map_of (rn_threads (restarted P s t)) ''i0'')))
     (map_of (rn_threads s) ''i0'') = Some (2, Some 1)"
  by code_simp

end
