(* ===== verification/LiveCompact.thy ===== *)
theory LiveCompact
  imports Reconstruct Compact
begin

text \<open>
  Compaction in the live turn loop (\<open>entrypoint/mod.rs\<close>): the state \<open>LiveTurnState\<close> keeps beside the
  session's event log, the prompts and token counts it reads from the log, the summary pass over the model's
  stream with its drop-oldest and reconnect retries, and the installation of a compacted history. The log is
  that of the session: an append either fails or adds one record at the end, under a number of the store's
  choice; reads of the log are taken to succeed, and no other task appends while a compaction runs. The model
  behind the summary pass is a function on a world of its own. \<open>auto_compact_window\<close> stands for the window that
  the runtime's live state keeps when there is a runtime (theory \<open>RtLive\<close>), and the local one otherwise.
\<close>

section \<open>The auto-compaction window\<close>

datatype window_prefill = ServerObserved int | Estimated int

record auto_compact_window =
  aw_ordinal :: nat
  aw_prefill :: "window_prefill option"


definition start_next :: "auto_compact_window \<Rightarrow> auto_compact_window" where
  "start_next w = \<lparr> aw_ordinal = min (aw_ordinal w + 1) 18446744073709551615, aw_prefill = None \<rparr>"

definition server_observed :: "auto_compact_window \<Rightarrow> bool" where
  "server_observed w \<longleftrightarrow> (case aw_prefill w of Some (ServerObserved _) \<Rightarrow> True | _ \<Rightarrow> False)"

definition set_estimated_prefill :: "int \<Rightarrow> auto_compact_window \<Rightarrow> auto_compact_window" where
  "set_estimated_prefill tokens w =
     (if server_observed w then w else w\<lparr> aw_prefill := Some (Estimated (max tokens 0)) \<rparr>)"

definition ensure_server_observed_prefill_from_usage :: "token_usage \<Rightarrow> auto_compact_window \<Rightarrow> auto_compact_window" where
  "ensure_server_observed_prefill_from_usage u w =
     (if server_observed w then w else w\<lparr> aw_prefill := Some (ServerObserved (max (tu_input u) 0)) \<rparr>)"

definition prefill_input_tokens :: "auto_compact_window \<Rightarrow> int option" where
  "prefill_input_tokens w =
     (case aw_prefill w of Some (ServerObserved t) \<Rightarrow> Some t | Some (Estimated t) \<Rightarrow> Some t | None \<Rightarrow> None)"

section \<open>The state and its log\<close>

text \<open>What does not change during a turn. \<open>cf_fail n\<close> is the error of the \<open>n\<close>-th append, if it fails;
  \<open>cf_gap n\<close> the numbers other sessions took before it, \<open>cf_stamp n\<close> its identifier and time.\<close>

record live_config =
  cf_session :: string
  cf_fail :: "nat \<Rightarrow> string option"
  cf_gap :: "nat \<Rightarrow> nat"
  cf_stamp :: "nat \<Rightarrow> string \<times> int"
  cf_parse :: parser
  cf_scale :: "nat \<Rightarrow> nat"
  cf_window_tokens :: int
  cf_limit :: "int option"
  cf_scope :: compact_limit_scope
  cf_prompt :: string
  cf_base_instructions :: string
  cf_current_model :: "string option"
  cf_tail :: bool

record live_turn_state =
  lt_events :: "event_record list"
  lt_appends :: nat
  lt_recorded :: "message list"
  lt_compacted :: "message list option"
  lt_window :: auto_compact_window
  lt_replay_from :: "int option"
  lt_delays :: "64 word list"

definition next_seq :: "live_config \<Rightarrow> live_turn_state \<Rightarrow> int" where
  "next_seq c s = (if lt_events s = [] then 0 else ev_seq (last (lt_events s))) + 1 + int (cf_gap c (lt_appends s))"

definition append_runtime_or_store_event ::
  "live_config \<Rightarrow> string \<Rightarrow> json \<Rightarrow> live_turn_state \<Rightarrow> (string + int) \<times> live_turn_state" where
  "append_runtime_or_store_event c event_type payload s =
     (let s1 = s\<lparr> lt_appends := lt_appends s + 1 \<rparr> in
      case cf_fail c (lt_appends s) of
        Some m \<Rightarrow> (Inl m, s1)
      | None \<Rightarrow>
          (let e = \<lparr> ev_seq = next_seq c s, ev_id = fst (cf_stamp c (lt_appends s)), ev_session = cf_session c,
                     ev_ts_ms = snd (cf_stamp c (lt_appends s)), ev_type = event_type, ev_payload = payload \<rparr>
           in (Inr (ev_seq e), s1\<lparr> lt_events := lt_events s @ [e] \<rparr>)))"

text \<open>\<open>let _ = append_runtime_or_store_event(..)\<close>.\<close>

definition log_event :: "live_config \<Rightarrow> string \<Rightarrow> json \<Rightarrow> live_turn_state \<Rightarrow> live_turn_state" where
  "log_event c event_type payload s = snd (append_runtime_or_store_event c event_type payload s)"

section \<open>Prompts\<close>

definition live_history_from_events :: "live_config \<Rightarrow> event_record list \<Rightarrow> message list" where
  "live_history_from_events c es = lower_to_messages (provider_messages_from_events (cf_parse c) es)"

definition recorded_tail :: "live_config \<Rightarrow> live_turn_state \<Rightarrow> message list" where
  "recorded_tail c s = (if cf_tail c then lt_recorded s else [])"

definition live_history_for_prompt :: "live_config \<Rightarrow> live_turn_state \<Rightarrow> message list" where
  "live_history_for_prompt c s =
     (case lt_compacted s of Some ms \<Rightarrow> ms | None \<Rightarrow> live_history_from_events c (lt_events s)) @ recorded_tail c s"

definition live_record_items :: "message list \<Rightarrow> live_turn_state \<Rightarrow> live_turn_state" where
  "live_record_items ms s = s\<lparr> lt_recorded := lt_recorded s @ ms \<rparr>"

definition events_through_seq :: "event_record list \<Rightarrow> int option \<Rightarrow> event_record list" where
  "events_through_seq es through =
     (case through of Some seq \<Rightarrow> filter (\<lambda>e. ev_seq e \<le> seq) es | None \<Rightarrow> es)"

definition current_prompt_items_from_events :: "live_config \<Rightarrow> live_turn_state \<Rightarrow> event_record list \<Rightarrow> item list" where
  "current_prompt_items_from_events c s es =
     provider_messages_from_events (cf_parse c) es @ map message_to_item (recorded_tail c s)"

definition current_prompt_items_for_compaction :: "live_config \<Rightarrow> compaction_mode \<Rightarrow> live_turn_state \<Rightarrow> item list" where
  "current_prompt_items_for_compaction c mode s =
     current_prompt_items_from_events c s
       (case mode of PreTurn \<Rightarrow> events_through_seq (lt_events s) (lt_replay_from s) | MidTurn \<Rightarrow> lt_events s)"

definition latest_real_user_event_seq :: "event_record list \<Rightarrow> int option" where
  "latest_real_user_event_seq es =
     find_map (\<lambda>e. if ev_type e = ''session.input'' \<or> ev_type e = ''session.followup'' then Some (ev_seq e) else None) (rev es)"

definition latest_replay_seq_before_fresh_input :: "event_record list \<Rightarrow> int option" where
  "latest_replay_seq_before_fresh_input es = map_option (\<lambda>seq. sat_sub64 seq 1) (latest_real_user_event_seq es)"

section \<open>Token usage in the log\<close>

definition value_i64_any :: "json \<Rightarrow> string list \<Rightarrow> int option" where
  "value_i64_any v keys = map_option (\<lambda>n. max n 0) (Option.bind (find_map (json_get v) keys) as_i64)"

definition token_usage_from_value :: "json \<Rightarrow> token_usage option" where
  "token_usage_from_value v =
     (let input = unwrap_or 0 (value_i64_any v [''input_tokens'']);
          cached_input = unwrap_or 0 (value_i64_any v [''cached_input_tokens'', ''input_cached_tokens'']);
          output = unwrap_or 0 (value_i64_any v [''output_tokens'']);
          reasoning = unwrap_or 0 (value_i64_any v [''reasoning_output_tokens'']);
          total = unwrap_or (sat_add64 (sat_add64 input output) reasoning) (value_i64_any v [''total_tokens''])
      in if 0 < input \<or> 0 < cached_input \<or> 0 < output \<or> 0 < reasoning \<or> 0 < total
         then Some \<lparr> tu_input = input, tu_cached_input = cached_input, tu_output = output,
                     tu_reasoning_output = reasoning, tu_total = total \<rparr>
         else None)"

definition provider_token_usage_from_event :: "event_record \<Rightarrow> token_usage option" where
  "provider_token_usage_from_event e =
     (if ev_type e = ''token_count''
      then Option.bind (Option.bind (json_get (ev_payload e) ''info'') (\<lambda>info. json_get info ''last_token_usage''))
             token_usage_from_value
      else if ev_type e = ''model.usage''
      then token_usage_from_value (unwrap_or (ev_payload e) (json_get (ev_payload e) ''usage''))
      else None)"

definition latest_provider_token_usage_after_compaction :: "event_record list \<Rightarrow> token_usage option" where
  "latest_provider_token_usage_after_compaction es =
     (let from = unwrap_or 0 (find_map (\<lambda>e. if ev_type e = ''session.compacted'' then Some (ev_seq e) else None) (rev es))
      in find_map provider_token_usage_from_event (filter (\<lambda>e. from < ev_seq e) (rev es)))"

definition usage_values :: "int \<Rightarrow> int \<Rightarrow> int \<Rightarrow> int \<Rightarrow> int \<Rightarrow> json" where
  "usage_values input cached output reasoning tot =
     JObj [(''cached_input_tokens'', JNum cached), (''input_tokens'', JNum input), (''output_tokens'', JNum output),
           (''reasoning_output_tokens'', JNum reasoning), (''total_tokens'', JNum tot)]"

definition token_usage_value :: "token_usage \<Rightarrow> json" where
  "token_usage_value u =
     usage_values (max (tu_input u) 0) (max (tu_cached_input u) 0) (max (tu_output u) 0)
       (max (tu_reasoning_output u) 0) (max (tu_total u) 0)"

definition token_usage_value_with_total :: "int \<Rightarrow> json" where
  "token_usage_value_with_total tot = usage_values 0 0 0 0 (max tot 0)"

definition latest_total_token_usage_value :: "event_record list \<Rightarrow> json" where
  "latest_total_token_usage_value es =
     (case find_map (\<lambda>e. if ev_type e = ''token_count'' then Some e else None) (rev es) of
        Some e \<Rightarrow> unwrap_or JNull (Option.bind (json_get (ev_payload e) ''info'') (\<lambda>info. json_get info ''total_token_usage''))
      | None \<Rightarrow> JNull)"

definition token_usage_total_tokens :: "json \<Rightarrow> int" where
  "token_usage_total_tokens v = max (unwrap_or 0 (get_i64 v ''total_tokens'')) 0"

definition add_token_usage_values :: "json \<Rightarrow> json \<Rightarrow> json" where
  "add_token_usage_values previous addition =
     (let total = (\<lambda>key. wrap_i64 (unwrap_or 0 (get_i64 previous key) + unwrap_or 0 (get_i64 addition key)))
      in usage_values (total ''input_tokens'') (total ''cached_input_tokens'') (total ''output_tokens'')
           (total ''reasoning_output_tokens'') (total ''total_tokens''))"

definition token_count_event_payload :: "json \<Rightarrow> json \<Rightarrow> int option \<Rightarrow> json" where
  "token_count_event_payload last_usage total_usage window =
     JObj [(''info'', JObj [(''last_token_usage'', last_usage), (''model_context_window'', Events.json_opt JNum window),
                            (''total_token_usage'', total_usage)]),
           (''turn_idx'', JNum 0)]"

definition recomputed_token_count_payload :: "int \<Rightarrow> int option \<Rightarrow> json \<Rightarrow> json" where
  "recomputed_token_count_payload tokens window previous_total =
     token_count_event_payload (token_usage_value_with_total tokens)
       (if previous_total = JNull then token_usage_value_with_total 0 else previous_total) window"

definition token_count_payload_from_usage :: "token_usage \<Rightarrow> int option \<Rightarrow> json \<Rightarrow> json" where
  "token_count_payload_from_usage u window previous_total =
     token_count_event_payload (token_usage_value u)
       (if previous_total = JNull then token_usage_value u
        else add_token_usage_values previous_total (token_usage_value u)) window"

definition cf_context_window :: "live_config \<Rightarrow> int option" where
  "cf_context_window c = (if 0 < cf_window_tokens c then Some (cf_window_tokens c) else None)"

definition append_compaction_token_usage :: "live_config \<Rightarrow> token_usage option \<Rightarrow> live_turn_state \<Rightarrow> live_turn_state" where
  "append_compaction_token_usage c usage s =
     (case opt_filter (\<lambda>u. 0 < tu_total u) usage of
        None \<Rightarrow> s
      | Some u \<Rightarrow> log_event c ''token_count''
          (token_count_payload_from_usage u (cf_context_window c) (latest_total_token_usage_value (lt_events s))) s)"

definition append_context_window_full :: "live_config \<Rightarrow> live_turn_state \<Rightarrow> live_turn_state" where
  "append_context_window_full c s =
     (case opt_filter (\<lambda>w. 0 < w) (cf_context_window c) of
        None \<Rightarrow> s
      | Some window \<Rightarrow>
          (let previous = token_usage_total_tokens (latest_total_token_usage_value (lt_events s));
               delta = max (sat_sub64 window previous) 0
           in log_event c ''token_count''
                (token_count_event_payload (token_usage_value_with_total delta) (token_usage_value_with_total window) (Some window)) s))"

section \<open>Token status\<close>

definition estimate_prompt_tokens_from_items :: "live_config \<Rightarrow> item list \<Rightarrow> int" where
  "estimate_prompt_tokens_from_items c items =
     estimate_total_tokens (record_items (cf_scale c) context_new items (TpBytes usize_max))"

definition active_prompt_tokens_from_events ::
  "live_config \<Rightarrow> live_turn_state \<Rightarrow> event_record list \<Rightarrow> int \<times> token_usage option" where
  "active_prompt_tokens_from_events c s es =
     (let items = current_prompt_items_from_events c s es in
      case latest_provider_token_usage_after_compaction es of
        Some usage \<Rightarrow>
          (let mgr = update_token_info (record_items (cf_scale c) context_new items (TpBytes usize_max)) usage (cf_context_window c);
               active = cm_total_token_usage mgr True
           in if 0 < active then (active, Some usage) else (estimate_total_tokens mgr, None))
      | None \<Rightarrow> (estimate_prompt_tokens_from_items c items, None))"

definition active_prompt_tokens_for_status :: "live_config \<Rightarrow> live_turn_state \<Rightarrow> int \<times> token_usage option" where
  "active_prompt_tokens_for_status c s =
     active_prompt_tokens_from_events c s (events_through_seq (lt_events s) (lt_replay_from s))"

text \<open>\<open>enabled\<close> says whether the state has a compaction sampler.\<close>

definition live_token_status :: "live_config \<Rightarrow> bool \<Rightarrow> live_turn_state \<Rightarrow> token_status \<times> live_turn_state" where
  "live_token_status c enabled s =
     (if \<not> enabled then (token_status_default, s)
      else let (active, usage) = active_prompt_tokens_for_status c s;
               s1 = (case usage of
                       Some u \<Rightarrow> if cf_scope c = BodyAfterPrefix
                                 then s\<lparr> lt_window := ensure_server_observed_prefill_from_usage u (lt_window s) \<rparr> else s
                     | None \<Rightarrow> s)
           in (from_codex_usage active (prefill_input_tokens (lt_window s1)) (cf_limit c) (cf_context_window c) (cf_scope c), s1))"

section \<open>The summary pass over the model's stream\<close>

fun error_reason_debug :: "llm_error_reason \<Rightarrow> string" where
  "error_reason_debug Authentication = ''Authentication''"
| "error_reason_debug RateLimit = ''RateLimit''"
| "error_reason_debug QuotaExceeded = ''QuotaExceeded''"
| "error_reason_debug ContentPolicy = ''ContentPolicy''"
| "error_reason_debug InvalidRequest = ''InvalidRequest''"
| "error_reason_debug ProviderInternal = ''ProviderInternal''"
| "error_reason_debug Transport = ''Transport''"
| "error_reason_debug UnknownProvider = ''UnknownProvider''"
| "error_reason_debug Decode = ''Decode''"

definition map_summary_error :: "llm_error \<Rightarrow> agent_error" where
  "map_summary_error e =
     (let m = str_lower (err_message e) in
      if err_reason e = InvalidRequest \<and> str_contains ''context'' m \<and> str_contains ''window'' m
      then AeContextWindowExceeded
      else AeProvider (error_reason_debug (err_reason e) @ '': '' @ err_message e))"

definition summary_usage :: "usage \<Rightarrow> token_usage option \<Rightarrow> token_usage option" where
  "summary_usage u old = (if 0 < tu_total (from_llm_usage u) then Some (from_llm_usage u) else old)"

fun summary_of_stream :: "string \<Rightarrow> token_usage option \<Rightarrow> (llm_error + llm_event) list \<Rightarrow> agent_error + compaction_summary" where
  "summary_of_stream summary usage [] = Inr \<lparr> cs_text = summary, cs_token_usage = usage \<rparr>"
| "summary_of_stream summary usage (Inl e # rest) = Inl (map_summary_error e)"
| "summary_of_stream summary usage (Inr (TextDelta _ delta _) # rest) = summary_of_stream (summary @ delta) usage rest"
| "summary_of_stream summary usage (Inr (StepFinish u _) # rest) = summary_of_stream summary (summary_usage u usage) rest"
| "summary_of_stream summary usage (Inr (Finish u _) # rest) = summary_of_stream summary (summary_usage u usage) rest"
| "summary_of_stream summary usage (Inr _ # rest) = summary_of_stream summary usage rest"

text \<open>\<open>open_stream\<close> is the client's stream for the request with these messages and no tools.\<close>

definition summarize ::
  "(message list \<Rightarrow> 's \<Rightarrow> (llm_error + (llm_error + llm_event) list) \<times> 's) \<Rightarrow> 's compaction_sampler" where
  "summarize open_stream request w =
     (case open_stream request w of
        (Inl e, w') \<Rightarrow> (Inl (map_summary_error e), w')
      | (Inr stream, w') \<Rightarrow> (summary_of_stream [] None stream, w'))"

section \<open>The retries of the summary pass\<close>

definition append_model_turn_context_overflow :: "live_config \<Rightarrow> live_turn_state \<Rightarrow> live_turn_state" where
  "append_model_turn_context_overflow c s =
     log_event c ''model.turn.error''
       (JObj [(''code'', JStr ''context_window_exceeded''),
              (''error'', JStr ''context window exceeded while compacting''), (''recoverable'', JBool False)])
       (log_event c ''model.turn.context_overflow'' (JObj [(''action'', JStr ''compaction_failed'')]) s)"

definition append_stream_error :: "live_config \<Rightarrow> string \<Rightarrow> live_turn_state \<Rightarrow> live_turn_state" where
  "append_stream_error c m s = log_event c ''stream_error'' (JObj [(''message'', JStr m)]) s"

function compaction_loop ::
  "live_config \<Rightarrow> 's compaction_sampler \<Rightarrow> item list \<Rightarrow> nat \<Rightarrow> nat \<Rightarrow> item list \<Rightarrow> nat \<Rightarrow> 's \<Rightarrow> live_turn_state
   \<Rightarrow> (agent_error + compacted_history) \<times> 's \<times> live_turn_state" where
  "compaction_loop c sampler history token_limit max_retries working retries w s =
     (let request = compaction_request_messages working in
      case sampler request w of
        (Inr summary, w') \<Rightarrow>
          (Inr (compacted_history_from_summary history summary token_limit), w',
           append_compaction_token_usage c (cs_token_usage summary) s)
      | (Inl e, w') \<Rightarrow>
          if e = AeContextWindowExceeded then
            (if length request > 1 \<and> length working > 1
             then compaction_loop c sampler history token_limit max_retries (tl working) 0 w' s
             else (Inl e, w', append_model_turn_context_overflow c (append_context_window_full c s)))
          else if e = AeTurnAborted then (Inl e, w', s)
          else if is_retryable e \<and> retries < max_retries then
            (let n = retries + 1;
                 s1 = append_stream_error c (''Reconnecting... '' @ show_nat n @ ''/'' @ show_nat max_retries) s
             in compaction_loop c sampler history token_limit max_retries working n w'
                  (s1\<lparr> lt_delays := lt_delays s1 @ [backoff_ms (of_nat n)] \<rparr>))
          else (Inl e, w', s))"
  by pat_completeness auto
termination
  by (relation "measures [\<lambda>(c, sampler, history, l, mx, working, retries, w, s). length working,
      \<lambda>(c, sampler, history, l, mx, working, retries, w, s). mx - retries]") auto

declare compaction_loop.simps [simp del]

definition run_compaction_with_retries ::
  "live_config \<Rightarrow> 's compaction_sampler \<Rightarrow> item list \<Rightarrow> string \<Rightarrow> nat \<Rightarrow> nat \<Rightarrow> 's \<Rightarrow> live_turn_state
   \<Rightarrow> (agent_error + compacted_history) \<times> 's \<times> live_turn_state" where
  "run_compaction_with_retries c sampler history compact_prompt token_limit max_retries w s =
     compaction_loop c sampler history token_limit max_retries (history @ [compaction_prompt_item compact_prompt]) 0 w s"

section \<open>Compaction\<close>

fun agent_error_text :: "agent_error \<Rightarrow> string" where
  "agent_error_text AeTurnAborted = ''turn aborted''"
| "agent_error_text AeContextWindowExceeded = ''context window exceeded''"
| "agent_error_text AeUsageLimitReached = ''usage limit reached''"
| "agent_error_text AeInvalidImageRequest = ''invalid image request''"
| "agent_error_text (AeProvider m) = ''provider error: '' @ m"
| "agent_error_text (AeTool m) = ''tool error: '' @ m"
| "agent_error_text (AeStore m) = m"
| "agent_error_text (AeOther m) = m"

fun compaction_mode_name :: "compaction_mode \<Rightarrow> string" where
  "compaction_mode_name PreTurn = ''pre_turn''"
| "compaction_mode_name MidTurn = ''mid_turn''"

fun compaction_error_code :: "agent_error \<Rightarrow> string" where
  "compaction_error_code AeContextWindowExceeded = ''context_window_exceeded''"
| "compaction_error_code AeTurnAborted = ''interrupted''"
| "compaction_error_code AeUsageLimitReached = ''usage_limit_reached''"
| "compaction_error_code _ = ''compaction_failed''"

definition append_compaction_started :: "live_config \<Rightarrow> compaction_mode \<Rightarrow> live_turn_state \<Rightarrow> live_turn_state" where
  "append_compaction_started c mode s =
     log_event c ''session.compaction_started''
       (JObj [(''mode'', JStr (compaction_mode_name mode)), (''reason'', JStr ''token_budget'')]) s"

definition append_compaction_failed ::
  "live_config \<Rightarrow> compaction_mode \<Rightarrow> agent_error \<Rightarrow> live_turn_state \<Rightarrow> live_turn_state" where
  "append_compaction_failed c mode e s =
     (let s1 = log_event c ''session.compaction_failed''
                 (JObj [(''error'', JStr (agent_error_text e)), (''mode'', JStr (compaction_mode_name mode)),
                        (''reason'', JStr ''token_budget'')]) s
      in if e = AeContextWindowExceeded then s1
         else log_event c ''model.turn.error''
                (JObj [(''code'', JStr (compaction_error_code e)), (''error'', JStr (agent_error_text e)),
                       (''recoverable'', JBool False)]) s1)"

definition compacted_event_payload :: "string \<Rightarrow> item list \<Rightarrow> bool \<Rightarrow> int option \<Rightarrow> json" where
  "compacted_event_payload summary_text replacement already replay_from =
     JObj ([(''initial_context_already_in_history'', JBool already), (''message'', JStr summary_text),
            (''replacement_messages'', JArr replacement)]
           @ (case replay_from of Some seq \<Rightarrow> [(''replay_from_seq'', JNum seq)] | None \<Rightarrow> []))"

definition provider_item_text :: "item \<Rightarrow> string" where
  "provider_item_text i =
     (case json_get i ''content'' of
        None \<Rightarrow> []
      | Some (JStr s) \<Rightarrow> s
      | Some (JArr parts) \<Rightarrow>
          join_with [CHR 0x0A] (List.map_filter
            (\<lambda>p. case get_str p ''text'' of Some s \<Rightarrow> Some s | None \<Rightarrow> as_str p) parts)
      | Some JNull \<Rightarrow> []
      | Some v \<Rightarrow> show_json v)"

definition is_real_user_provider_item :: "item \<Rightarrow> bool" where
  "is_real_user_provider_item i \<longleftrightarrow>
     get_str i ''role'' = Some ''user'' \<and> get_str i ''name'' = None \<and> \<not> is_summary_message (provider_item_text i)"

definition insert_initial_context_before_last_real_user_or_summary :: "item list \<Rightarrow> item list \<Rightarrow> item list" where
  "insert_initial_context_before_last_real_user_or_summary replacement initial_context =
     (if initial_context = [] then replacement
      else let last_user_or_summary = rposition (\<lambda>i. get_str i ''role'' = Some ''user'') replacement;
               last_real_user = rposition is_real_user_provider_item replacement;
               k = unwrap_or (length replacement) (or_else last_real_user last_user_or_summary)
           in take k replacement @ initial_context @ drop k replacement)"

definition default_stream_max_retries :: nat where
  "default_stream_max_retries = 5"

text \<open>The part of \<open>compact_with_sampler\<close> after the summary pass.\<close>

definition replacement_messages :: "compaction_mode \<Rightarrow> event_record list \<Rightarrow> compacted_history \<Rightarrow> item list" where
  "replacement_messages mode es ch =
     (case mode of
        MidTurn \<Rightarrow> insert_initial_context_before_last_real_user_or_summary (ch_items ch)
                    (initial_context_messages_from_events es None True True)
      | PreTurn \<Rightarrow> ch_items ch)"

definition install_compaction ::
  "live_config \<Rightarrow> compaction_mode \<Rightarrow> compacted_history \<Rightarrow> live_turn_state \<Rightarrow> (agent_error + unit) \<times> live_turn_state" where
  "install_compaction c mode ch s =
     (let payload = compacted_event_payload (ch_summary_text ch) (replacement_messages mode (lt_events s) ch)
                      (mode = MidTurn) (case mode of PreTurn \<Rightarrow> lt_replay_from s | MidTurn \<Rightarrow> None)
      in case append_runtime_or_store_event c ''session.compacted'' payload s of
           (Inl m, s1) \<Rightarrow> (Inl (AeStore m), s1)
         | (Inr _, s1) \<Rightarrow>
             (let lowered = live_history_from_events c (lt_events s1);
                  active = sat_add64 (estimate_prompt_tokens_from_items c (map message_to_item lowered))
                             (wrap_i64 (int (approx_token_count (cf_base_instructions c))));
                  s2 = s1\<lparr> lt_compacted := Some lowered \<rparr>
              in case append_runtime_or_store_event c ''token_count''
                        (recomputed_token_count_payload active (cf_context_window c) (latest_total_token_usage_value (lt_events s2))) s2 of
                   (Inl m, s3) \<Rightarrow> (Inl (AeStore m), s3)
                 | (Inr _, s3) \<Rightarrow>
                     (let s4 = s3\<lparr> lt_recorded := [], lt_window := start_next (lt_window s3) \<rparr> in
                      (Inr (), if cf_scope c = BodyAfterPrefix
                               then s4\<lparr> lt_window := set_estimated_prefill active (lt_window s4) \<rparr> else s4))))"

definition compact_with_sampler ::
  "live_config \<Rightarrow> 's compaction_sampler \<Rightarrow> compaction_mode \<Rightarrow> 's \<Rightarrow> live_turn_state
   \<Rightarrow> (agent_error + unit) \<times> 's \<times> live_turn_state" where
  "compact_with_sampler c sampler mode w s =
     (let items = current_prompt_items_for_compaction c mode s in
      case run_compaction_with_retries c sampler items (cf_prompt c) compact_user_message_max_tokens
             default_stream_max_retries w (append_compaction_started c mode s) of
        (Inl e, w', s1) \<Rightarrow> (Inl e, w', append_compaction_failed c mode e s1)
      | (Inr ch, w', s1) \<Rightarrow> (let (r, s2) = install_compaction c mode ch s1 in (r, w', s2)))"

text \<open>\<open>TurnState::compact\<close>: without a sampler compaction is off.\<close>

definition live_compact ::
  "live_config \<Rightarrow> 's compaction_sampler option \<Rightarrow> compaction_mode \<Rightarrow> 's \<Rightarrow> live_turn_state
   \<Rightarrow> (agent_error + unit) \<times> 's \<times> live_turn_state" where
  "live_compact c sampler mode w s =
     (case sampler of None \<Rightarrow> (Inr (), w, s) | Some f \<Rightarrow> compact_with_sampler c f mode w s)"

text \<open>A switch to a model with a smaller window compacts with the previous model first.\<close>

record 's previous_model_compaction =
  pm_model :: string
  pm_window :: int
  pm_sampler :: "'s compaction_sampler"

definition should_run_previous_model_downshift_compaction ::
  "live_config \<Rightarrow> 's previous_model_compaction option \<Rightarrow> live_turn_state \<Rightarrow> bool" where
  "should_run_previous_model_downshift_compaction c previous s =
     (case (previous, cf_current_model c, cf_context_window c) of
        (Some p, Some model, Some window) \<Rightarrow>
          if pm_model p = model \<or> pm_window p \<le> window then False
          else (let active = fst (active_prompt_tokens_for_status c s) in
                case cf_scope c of
                  ScopeTotal \<Rightarrow> unwrap_or i64_max (cf_limit c) < active \<or> window \<le> active
                | BodyAfterPrefix \<Rightarrow> window \<le> active)
      | _ \<Rightarrow> False)"

definition compact_previous_model_downshift_if_needed ::
  "live_config \<Rightarrow> 's previous_model_compaction option \<Rightarrow> 's \<Rightarrow> live_turn_state
   \<Rightarrow> (agent_error + bool) \<times> 's \<times> live_turn_state" where
  "compact_previous_model_downshift_if_needed c previous w s =
     (if should_run_previous_model_downshift_compaction c previous s
      then (case compact_with_sampler c (pm_sampler (the previous)) PreTurn w s of
              (Inl e, w', s') \<Rightarrow> (Inl e, w', s')
            | (Inr _, w', s') \<Rightarrow> (Inr True, w', s'))
      else (Inr False, w, s))"

text \<open>What a run does about its context before the first turn (\<open>run\<close>).\<close>

definition compact_before_turn ::
  "live_config \<Rightarrow> 's compaction_sampler option \<Rightarrow> 's previous_model_compaction option \<Rightarrow> int option \<Rightarrow> 's \<Rightarrow> live_turn_state
   \<Rightarrow> (agent_error + unit) \<times> 's \<times> live_turn_state" where
  "compact_before_turn c sampler previous replay_from w s =
     (case compact_previous_model_downshift_if_needed c previous w (s\<lparr> lt_replay_from := replay_from \<rparr>) of
        (Inl e, w', s') \<Rightarrow> (Inl e, w', s')
      | (Inr _, w1, s1) \<Rightarrow>
          (let (status, s2) = live_token_status c (sampler \<noteq> None) s1 in
           case (if token_limit_reached status then live_compact c sampler PreTurn w1 s2 else (Inr (), w1, s2)) of
             (Inl e, w', s') \<Rightarrow> (Inl e, w', s')
           | (Inr _, w', s') \<Rightarrow> (Inr (), w', s'\<lparr> lt_replay_from := None \<rparr>)))"

section \<open>Events that the history does not show\<close>

definition unseen_event :: "event_record \<Rightarrow> bool" where
  "unseen_event e \<longleftrightarrow> ev_type e \<in> {''session.compaction_started'', ''token_count'', ''stream_error'',
     ''model.turn.context_overflow'', ''model.turn.error'', ''session.compaction_failed''}"








section \<open>The rebuilt history after a compaction\<close>

definition plain_role :: "json \<Rightarrow> bool" where
  "plain_role m \<longleftrightarrow> role_of m \<noteq> ''assistant'' \<and> role_of m \<noteq> ''tool''"



lemma plain_context_messages [simp]:
  "plain_role (permissions_context_message t)" "plain_role (workspace_context_message ss)"
  "plain_role (multi_agent_usage_hint_context_message t)" "plain_role (user_text_item t)"
  by (simp_all add: plain_role_def role_of_def permissions_context_message_def workspace_context_message_def
      multi_agent_usage_hint_context_message_def named_message_def user_text_item_def get_str_def)





section \<open>Steps that the history does not show\<close>

text \<open>\<open>quietly s s'\<close>: from \<open>s\<close> to \<open>s'\<close> only unseen events were appended.\<close>

definition quietly :: "live_turn_state \<Rightarrow> live_turn_state \<Rightarrow> bool" where
  "quietly s s' \<longleftrightarrow>
     (\<exists>q. lt_events s' = lt_events s @ q \<and> list_all unseen_event q) \<and> (log_ordered (lt_events s) \<longrightarrow> log_ordered (lt_events s'))
     \<and> lt_recorded s' = lt_recorded s \<and> lt_compacted s' = lt_compacted s \<and> lt_window s' = lt_window s
     \<and> lt_replay_from s' = lt_replay_from s"

lemma quietly_refl [simp]: "quietly s s" by (simp add: quietly_def)


lemma quietly_delays [simp]: "quietly s (t\<lparr> lt_delays := d \<rparr>) = quietly s t"
  by (simp add: quietly_def)






section \<open>What the model was asked\<close>

text \<open>\<open>asked sampler k0 w0 k w\<close>: beginning with the items \<open>k0\<close> in its world \<open>w0\<close>, the model is next asked about
  \<open>k\<close> in \<open>w\<close>, every answer before having been a full context window, for which the oldest item was left out, or
  a retryable error.\<close>

inductive asked :: "'s compaction_sampler \<Rightarrow> item list \<Rightarrow> 's \<Rightarrow> item list \<Rightarrow> 's \<Rightarrow> bool"
  for sampler k0 w0 where
  asked_first: "asked sampler k0 w0 k0 w0"
| asked_shorter: "asked sampler k0 w0 (i # k) w \<Longrightarrow> k \<noteq> [] \<Longrightarrow>
     sampler (compaction_request_messages (i # k)) w = (Inl AeContextWindowExceeded, w') \<Longrightarrow> asked sampler k0 w0 k w'"
| asked_again: "asked sampler k0 w0 k w \<Longrightarrow> is_retryable e \<Longrightarrow>
     sampler (compaction_request_messages k) w = (Inl e, w') \<Longrightarrow> asked sampler k0 w0 k w'"

lemma asked_suffix: "asked sampler k0 w0 k w \<Longrightarrow> k0 \<noteq> [] \<Longrightarrow> suffix k k0 \<and> k \<noteq> []"
  by (induction rule: asked.induct) (auto dest: suffix_ConsD)



section \<open>Compaction replaces the history or keeps it\<close>











section \<open>Two further observations\<close>

text \<open>With durable replay (\<open>with_durable_prompt_replay\<close>, as \<open>run\<close> builds the state), the prompt is frozen once a
  compaction has run: whatever the model and the tools append to the log afterwards, and whatever is recorded,
  every later prompt of the run is the history as it was lowered at the compaction.\<close>

lemma prompt_frozen_after_compaction:
  assumes "\<not> cf_tail c" "lt_compacted s = Some ms"
  shows "live_history_for_prompt c (live_record_items rs (log_event c ty p s)) = ms"
  using assms
  by (simp add: live_history_for_prompt_def recorded_tail_def live_record_items_def log_event_def
      append_runtime_or_store_event_def Let_def split: option.split)

text \<open>A provider error inside the stream is no error of the summary pass: the text before it counts as the summary,
  also none at all, for which the checkpoint then says that no summary is available.\<close>

lemma provider_error_is_summary:
  "summary_of_stream [] None [Inr (ProviderError m code)] = Inr \<lparr> cs_text = [], cs_token_usage = None \<rparr>"
  "ch_summary_text (compacted_history_from_summary h \<lparr> cs_text = [], cs_token_usage = None \<rparr> l)
     = summary_prefix @ CHR 0x0A # no_summary"
  by (simp_all add: compacted_history_from_summary_def str_trim_def trim_start_def trim_end_def Let_def)

end
