(* ===== verification/Secrets.thy ===== *)
theory Secrets
  imports Prelude "HOL-Library.Word" "HOL-Library.List_Lexorder" "HOL-Library.Char_ord"
begin

text \<open>
  The store of secret values (\<open>crates/browser-use-secrets/src/lib.rs\<close>): accounts, the store in memory and
  the encrypted file. The cipher, the base64 and JSON codecs and the random numbers are parameters; files
  are values of the state. Both stores are shown to be a map from a domain and a placeholder to a value.
\<close>

section \<open>Kinds and accounts\<close>

datatype secret_kind = SkPassword | SkTotp

fun secret_kind_str :: "secret_kind \<Rightarrow> string" where
  "secret_kind_str SkPassword = ''password''"
| "secret_kind_str SkTotp = ''totp''"

definition secret_kind_parse :: "string \<Rightarrow> secret_kind option" where
  "secret_kind_parse v =
     (let s = str_lower (str_trim v) in
      if s \<in> {''password'', ''secret'', ''value''} then Some SkPassword
      else if s \<in> {''totp'', ''otp'', ''2fa''} then Some SkTotp
      else None)"

lemma secret_kind_roundtrip: "secret_kind_parse (secret_kind_str k) = Some k"
  by (cases k; simp only:; code_simp)

record secret_meta =
  st_domain :: string
  st_placeholder :: string
  st_kind :: secret_kind
  st_allowed :: "string list"

text \<open>\<open>str::replace\<close> of one character.\<close>

definition replace_char :: "char \<Rightarrow> string \<Rightarrow> string \<Rightarrow> string" where
  "replace_char c r s = concat (map (\<lambda>x. if x = c then r else [x]) s)"

definition escape_account :: "string \<Rightarrow> string" where
  "escape_account p = replace_char (CHR ''/'') [CHR 0x5C, CHR ''/''] (replace_char (CHR 0x5C) [CHR 0x5C, CHR 0x5C] p)"

definition account_for :: "string \<Rightarrow> string \<Rightarrow> string" where
  "account_for d p = escape_account d @ ''/'' @ escape_account p"

definition meta_account :: "secret_meta \<Rightarrow> string" where
  "meta_account m = account_for (st_domain m) (st_placeholder m)"

text \<open>Reading an account back: up to the first separator that is not escaped.\<close>

fun unescape_until :: "string \<Rightarrow> string \<times> string" where
  "unescape_until [] = ([], [])"
| "unescape_until (c # s) =
     (if c = CHR ''/'' then ([], s)
      else if c = CHR 0x5C then
        (case s of [] \<Rightarrow> ([], []) | d # s' \<Rightarrow> (let (a, r) = unescape_until s' in (d # a, r)))
      else (let (a, r) = unescape_until s in (c # a, r)))"

lemma escape_account_Cons:
  "escape_account (c # s) = (if c = CHR ''/'' \<or> c = CHR 0x5C then [CHR 0x5C, c] else [c]) @ escape_account s"
  "escape_account [] = []"
  by (simp_all add: escape_account_def replace_char_def)

lemma unescape_escape: "unescape_until (escape_account d @ r) = (d @ fst (unescape_until r), snd (unescape_until r))"
  by (induction d) (auto simp: escape_account_Cons split_def Let_def)

text \<open>Two pairs never share an account.\<close>

lemma account_for_inject: "account_for d p = account_for d' p' \<longleftrightarrow> d = d' \<and> p = p'"
proof
  assume a: "account_for d p = account_for d' p'"
  have r: "unescape_until (account_for x y) = (x, escape_account y)" for x y
    by (simp add: account_for_def unescape_escape)
  from a r have 1: "d = d'" "escape_account p = escape_account p'" by (metis prod.inject)+
  have "unescape_until (escape_account x) = (x, [])" for x using unescape_escape [of x "[]"] by simp
  with 1 show "d = d' \<and> p = p'" by (metis fst_conv)
qed simp

section \<open>Bytes of a string\<close>

definition utf8_char :: "char \<Rightarrow> 8 word list" where
  "utf8_char c =
     (if code_point c < 0x80 then [of_nat (code_point c)]
      else [of_nat (0xC0 + code_point c div 64), of_nat (0x80 + code_point c mod 64)])"

definition utf8_bytes :: "string \<Rightarrow> 8 word list" where
  "utf8_bytes s = concat (map utf8_char s)"

text \<open>\<open>String::from_utf8\<close>, for the code points of the model.\<close>

fun utf8_decode :: "8 word list \<Rightarrow> string option" where
  "utf8_decode [] = Some []"
| "utf8_decode (b # bs) =
     (if b < 0x80 then map_option (Cons (char_of (unat b))) (utf8_decode bs)
      else (case bs of
              [] \<Rightarrow> None
            | c # r \<Rightarrow>
                (if (b = 0xC2 \<or> b = 0xC3) \<and> 0x80 \<le> c \<and> c < 0xC0
                 then map_option (Cons (char_of ((unat b - 0xC0) * 64 + (unat c - 0x80)))) (utf8_decode r)
                 else None)))"

lemma utf8_decode_char: "utf8_decode (utf8_char c @ bs) = map_option (Cons c) (utf8_decode bs)"
proof -
  define n where "n = code_point c"
  have n: "n < 256" and c: "char_of n = c"
    by (simp_all add: n_def code_point_def)
  show ?thesis
  proof (cases "n < 0x80")
    case True
    then have "(of_nat n :: 8 word) < 0x80" "unat (of_nat n :: 8 word) = n"
      using n by (simp_all add: word_less_nat_alt unat_of_nat)
    with True c show ?thesis by (simp add: utf8_char_def n_def [symmetric])
  next
    case False
    define x y where "x = n div 64" and "y = n mod 64"
    have x: "x = 2 \<or> x = 3" and y: "y < 64" and xy: "n = x * 64 + y"
      using False n by (auto simp: x_def y_def)
    have lo: "(0x80::8 word) \<le> of_nat (0x80 + y)" "(of_nat (0x80 + y) :: 8 word) < 0xC0"
      "unat (of_nat (0x80 + y) :: 8 word) = 0x80 + y"
      using y by (simp_all only: word_le_nat_alt word_less_nat_alt unat_of_nat) simp_all
    have hi: "(of_nat (0xC0 + x) :: 8 word) = (if x = 2 then 0xC2 else 0xC3)" using x by auto
    have u: "utf8_char c = [if x = 2 then 0xC2 else 0xC3, of_nat (0x80 + y)]"
      using False by (simp only: utf8_char_def n_def [symmetric] x_def [symmetric] y_def [symmetric] hi if_False)
    from x show ?thesis
    proof
      assume x2: "x = 2"
      with u lo xy c show ?thesis by simp
    next
      assume x3: "x = 3"
      with u lo xy c show ?thesis by simp
    qed
  qed
qed

lemma utf8_roundtrip: "utf8_decode (utf8_bytes s) = Some s"
  by (induction s) (simp_all add: utf8_bytes_def utf8_decode_char)

section \<open>The store in memory\<close>

definition mem_put :: "secret_meta \<Rightarrow> string \<Rightarrow> (string \<times> string) list \<Rightarrow> (string \<times> string) list" where
  "mem_put m v vs = bt_insert (meta_account m) v vs"

definition mem_get :: "string \<Rightarrow> string \<Rightarrow> (string \<times> string) list \<Rightarrow> string option" where
  "mem_get d p vs = map_of vs (account_for d p)"

definition mem_delete :: "string \<Rightarrow> string \<Rightarrow> (string \<times> string) list \<Rightarrow> (string \<times> string) list" where
  "mem_delete d p vs = bt_remove (account_for d p) vs"

section \<open>The encrypted file\<close>

text \<open>What the store uses of other crates and of the system. \<open>sx_key\<close> and \<open>sx_nonce\<close> are the random numbers,
  \<open>sx_write\<close> whether a write (with the directory made and the rename) succeeds, each by a counter.\<close>

type_synonym octets = "8 word list"

record secret_env =
  sx_encrypt :: "octets \<Rightarrow> octets \<Rightarrow> octets \<Rightarrow> octets option"
  sx_decrypt :: "octets \<Rightarrow> octets \<Rightarrow> octets \<Rightarrow> octets option"
  sx_encode :: "octets \<Rightarrow> string"
  sx_decode :: "string \<Rightarrow> octets option"
  sx_render :: "(string \<times> string) list \<Rightarrow> octets"
  sx_parse :: "octets \<Rightarrow> (string \<times> string) list option"
  sx_key :: "nat \<Rightarrow> octets"
  sx_nonce :: "nat \<Rightarrow> octets"
  sx_write :: "nat \<Rightarrow> bool"

text \<open>A file that cannot be read is neither missing nor has a content.\<close>

datatype secret_file = FileMissing | FileUnreadable | FileBytes octets

record secret_fs =
  fs_key :: secret_file
  fs_data :: secret_file
  fs_draws :: nat

definition fs_empty :: secret_fs where
  "fs_empty = \<lparr> fs_key = FileMissing, fs_data = FileMissing, fs_draws = 0 \<rparr>"

type_synonym 'a secret_result = "string + 'a"

definition fs_tick :: "secret_fs \<Rightarrow> secret_fs" where
  "fs_tick s = s\<lparr> fs_draws := Suc (fs_draws s) \<rparr>"

text \<open>A present key of the wrong size is not replaced.\<close>

definition load_or_create_key :: "secret_env \<Rightarrow> secret_fs \<Rightarrow> octets secret_result \<times> secret_fs" where
  "load_or_create_key sx s =
     (case fs_key s of
        FileBytes k \<Rightarrow>
          (if length k \<noteq> 32 then (Inl ''key file is corrupt; not regenerating'', s) else (Inr k, s))
      | FileMissing \<Rightarrow>
          (let k = sx_key sx (fs_draws s) in
           if sx_write sx (fs_draws s) then (Inr k, fs_tick (s\<lparr> fs_key := FileBytes k \<rparr>))
           else (Inl ''write key file'', fs_tick s))
      | FileUnreadable \<Rightarrow> (Inl ''read key file'', s))"

text \<open>Corrupt JSON is an error, not an empty map.\<close>

definition load_map :: "secret_env \<Rightarrow> secret_fs \<Rightarrow> (string \<times> string) list secret_result" where
  "load_map sx s =
     (case fs_data s of
        FileBytes b \<Rightarrow>
          (case sx_parse sx b of None \<Rightarrow> Inl ''secrets file is corrupt; refusing to overwrite'' | Some m \<Rightarrow> Inr m)
      | FileMissing \<Rightarrow> Inr []
      | FileUnreadable \<Rightarrow> Inl ''read secrets file'')"

definition save_map :: "secret_env \<Rightarrow> (string \<times> string) list \<Rightarrow> secret_fs \<Rightarrow> unit secret_result \<times> secret_fs" where
  "save_map sx m s =
     (if sx_write sx (fs_draws s) then (Inr (), fs_tick (s\<lparr> fs_data := FileBytes (sx_render sx m) \<rparr>))
      else (Inl ''write secrets file'', fs_tick s))"

definition file_put :: "secret_env \<Rightarrow> secret_meta \<Rightarrow> string \<Rightarrow> secret_fs \<Rightarrow> unit secret_result \<times> secret_fs" where
  "file_put sx meta v s =
     (case load_or_create_key sx s of
        (Inl e, s1) \<Rightarrow> (Inl e, s1)
      | (Inr k, s1) \<Rightarrow>
          (let n = sx_nonce sx (fs_draws s1); s2 = fs_tick s1 in
           case sx_encrypt sx k n (utf8_bytes v) of
             None \<Rightarrow> (Inl ''encrypt'', s2)
           | Some ct \<Rightarrow>
               (case load_map sx s2 of
                  Inl e \<Rightarrow> (Inl e, s2)
                | Inr m \<Rightarrow> save_map sx (bt_insert (meta_account meta) (sx_encode sx (n @ ct)) m) s2)))"

definition file_get :: "secret_env \<Rightarrow> string \<Rightarrow> string \<Rightarrow> secret_fs \<Rightarrow> string option secret_result \<times> secret_fs" where
  "file_get sx d p s =
     (case load_map sx s of
        Inl e \<Rightarrow> (Inl e, s)
      | Inr m \<Rightarrow>
          (case map_of m (account_for d p) of
             None \<Rightarrow> (Inr None, s)
           | Some encoded \<Rightarrow>
               (case sx_decode sx encoded of
                  None \<Rightarrow> (Inl ''decode'', s)
                | Some blob \<Rightarrow>
                    (if length blob < 12 then (Inl ''corrupt secret blob'', s)
                     else (case load_or_create_key sx s of
                             (Inl e, s1) \<Rightarrow> (Inl e, s1)
                           | (Inr k, s1) \<Rightarrow>
                               (case sx_decrypt sx k (take 12 blob) (drop 12 blob) of
                                  None \<Rightarrow> (Inl ''decrypt'', s1)
                                | Some pt \<Rightarrow>
                                    (case utf8_decode pt of
                                       None \<Rightarrow> (Inl ''utf8'', s1) | Some v \<Rightarrow> (Inr (Some v), s1)))))))) "

definition file_delete :: "secret_env \<Rightarrow> string \<Rightarrow> string \<Rightarrow> secret_fs \<Rightarrow> unit secret_result \<times> secret_fs" where
  "file_delete sx d p s =
     (case load_map sx s of
        Inl e \<Rightarrow> (Inl e, s)
      | Inr m \<Rightarrow>
          (if map_of m (account_for d p) \<noteq> None then save_map sx (bt_remove (account_for d p) m) s
           else (Inr (), s)))"

section \<open>Both are a map\<close>

datatype secret_op = SoPut secret_meta string | SoGet string string | SoDelete string string

datatype secret_out = SxDone | SxValue "string option" | SxFailed string

fun file_step :: "secret_env \<Rightarrow> secret_fs \<Rightarrow> secret_op \<Rightarrow> secret_out list \<times> secret_fs" where
  "file_step sx s (SoPut m v) =
     (case file_put sx m v s of (Inl e, s') \<Rightarrow> ([SxFailed e], s') | (Inr _, s') \<Rightarrow> ([SxDone], s'))"
| "file_step sx s (SoGet d p) =
     (case file_get sx d p s of (Inl e, s') \<Rightarrow> ([SxFailed e], s') | (Inr v, s') \<Rightarrow> ([SxValue v], s'))"
| "file_step sx s (SoDelete d p) =
     (case file_delete sx d p s of (Inl e, s') \<Rightarrow> ([SxFailed e], s') | (Inr _, s') \<Rightarrow> ([SxDone], s'))"

fun memory_step :: "(string \<times> string) list \<Rightarrow> secret_op \<Rightarrow> secret_out list \<times> (string \<times> string) list" where
  "memory_step vs (SoPut m v) = ([SxDone], mem_put m v vs)"
| "memory_step vs (SoGet d p) = ([SxValue (mem_get d p vs)], vs)"
| "memory_step vs (SoDelete d p) = ([SxDone], mem_delete d p vs)"

text \<open>What a store promises.\<close>

fun secret_map_step :: "(string \<times> string \<Rightarrow> string option) \<Rightarrow> secret_op \<Rightarrow> secret_out list \<times> (string \<times> string \<Rightarrow> string option)" where
  "secret_map_step f (SoPut m v) = ([SxDone], f((st_domain m, st_placeholder m) \<mapsto> v))"
| "secret_map_step f (SoGet d p) = ([SxValue (f (d, p))], f)"
| "secret_map_step f (SoDelete d p) = ([SxDone], f((d, p) := None))"

text \<open>A store that simulates the map answers as it does.\<close>

locale secret_store =
  fixes step :: "'s \<Rightarrow> secret_op \<Rightarrow> secret_out list \<times> 's"
    and rel :: "'s \<Rightarrow> (string \<times> string \<Rightarrow> string option) \<Rightarrow> bool"
  assumes simulates: "rel s f \<Longrightarrow> secret_map_step f x = (outs, f') \<Longrightarrow> \<exists>s'. step s x = (outs, s') \<and> rel s' f'"
begin

lemma runs_like_map: "rel s f \<Longrightarrow> fst (run_emit step s xs) = fst (run_emit secret_map_step f xs)"
proof (induction xs arbitrary: s f)
  case (Cons x xs)
  obtain outs f' where f': "secret_map_step f x = (outs, f')" by (rule prod.exhaust)
  from simulates [OF Cons.prems this] obtain s' where s': "step s x = (outs, s')" "rel s' f'" by blast
  from Cons.IH [OF s'(2)] show ?case by (simp add: f' s'(1) split_def Let_def)
qed simp

end

definition memory_rel :: "(string \<times> string) list \<Rightarrow> (string \<times> string \<Rightarrow> string option) \<Rightarrow> bool" where
  "memory_rel vs f = (\<forall>d p. map_of vs (account_for d p) = f (d, p))"

interpretation memory_store: secret_store memory_step memory_rel
proof unfold_locales
  fix vs f x outs f'
  assume "memory_rel vs f" "secret_map_step f x = (outs, f')"
  then show "\<exists>s'. memory_step vs x = (outs, s') \<and> memory_rel s' f'"
    by (cases x) (auto simp: memory_rel_def mem_put_def mem_get_def mem_delete_def meta_account_def bt_insert_lookup
        bt_remove_lookup account_for_inject)
qed

section \<open>The file is a map\<close>

text \<open>Documented behaviour of the crates: an encryption can be undone with its key and nonce, encodings can be
  read back; and no write fails.\<close>

definition crypto_laws :: "secret_env \<Rightarrow> bool" where
  "crypto_laws sx =
     ((\<forall>i. length (sx_key sx i) = 32 \<and> length (sx_nonce sx i) = 12 \<and> sx_write sx i)
      \<and> (\<forall>k n pt. length k = 32 \<longrightarrow> length n = 12 \<longrightarrow>
           (\<exists>ct. sx_encrypt sx k n pt = Some ct \<and> sx_decrypt sx k n ct = Some pt))
      \<and> (\<forall>b. sx_decode sx (sx_encode sx b) = Some b)
      \<and> (\<forall>m. sx_parse sx (sx_render sx m) = Some m))"

definition stored_as :: "secret_env \<Rightarrow> octets \<Rightarrow> string \<Rightarrow> string \<Rightarrow> bool" where
  "stored_as sx k e v =
     (\<exists>n ct. length n = 12 \<and> e = sx_encode sx (n @ ct) \<and> sx_decrypt sx k n ct = Some (utf8_bytes v))"

fun entry_ok :: "secret_env \<Rightarrow> octets \<Rightarrow> string option \<Rightarrow> string option \<Rightarrow> bool" where
  "entry_ok sx k None None = True"
| "entry_ok sx k (Some e) (Some v) = stored_as sx k e v"
| "entry_ok sx k _ _ = False"

lemma entry_ok_None: "entry_ok sx k None v \<longleftrightarrow> v = None"
  and entry_ok_Some: "entry_ok sx k (Some e) v \<longleftrightarrow> (\<exists>w. v = Some w \<and> stored_as sx k e w)"
  by (cases v; simp)+

definition file_rel :: "secret_env \<Rightarrow> secret_fs \<Rightarrow> (string \<times> string \<Rightarrow> string option) \<Rightarrow> bool" where
  "file_rel sx s f =
     (\<exists>m. load_map sx s = Inr m
        \<and> (case fs_key s of
             FileMissing \<Rightarrow> m = [] \<and> f = (\<lambda>_. None)
           | FileUnreadable \<Rightarrow> False
           | FileBytes k \<Rightarrow>
               length k = 32
               \<and> (\<forall>d p. entry_ok sx k (map_of m (account_for d p)) (f (d, p)))))"

lemma load_map_simps [simp]:
  "load_map sx (fs_tick s) = load_map sx s" "load_map sx (s\<lparr> fs_key := k \<rparr>) = load_map sx s"
  by (simp_all add: load_map_def fs_tick_def)

lemma save_map_works:
  "crypto_laws sx \<Longrightarrow> \<exists>s'. save_map sx m s = (Inr (), s') \<and> load_map sx s' = Inr m \<and> fs_key s' = fs_key s"
  by (simp add: save_map_def crypto_laws_def fs_tick_def load_map_def)

lemma key_works:
  assumes "crypto_laws sx" "file_rel sx s f"
  shows "\<exists>k s' m. load_or_create_key sx s = (Inr k, s') \<and> length k = 32 \<and> fs_key s' = FileBytes k
    \<and> load_map sx s = Inr m \<and> load_map sx s' = Inr m
    \<and> (\<forall>d p. entry_ok sx k (map_of m (account_for d p)) (f (d, p)))"
proof (cases "fs_key s")
  case FileMissing
  with assms show ?thesis
    by (auto simp: file_rel_def load_or_create_key_def crypto_laws_def Let_def)
       (simp add: fs_tick_def)
next
  case FileUnreadable
  with assms show ?thesis by (simp add: file_rel_def)
next
  case (FileBytes k)
  with assms show ?thesis by (auto simp: file_rel_def load_or_create_key_def)
qed

lemma file_put_simulates:
  assumes c: "crypto_laws sx" and r: "file_rel sx s f"
  shows "\<exists>s'. file_put sx meta v s = (Inr (), s') \<and> file_rel sx s' (f((st_domain meta, st_placeholder meta) \<mapsto> v))"
proof -
  obtain k s1 m where k: "load_or_create_key sx s = (Inr k, s1)" "length k = 32" "fs_key s1 = FileBytes k"
    "load_map sx s1 = Inr m"
    "\<forall>d p. entry_ok sx k (map_of m (account_for d p)) (f (d, p))"
    using key_works [OF c r] by blast
  let ?n = "sx_nonce sx (fs_draws s1)"
  have n: "length ?n = 12" using c by (simp add: crypto_laws_def)
  obtain ct where ct: "sx_encrypt sx k ?n (utf8_bytes v) = Some ct" "sx_decrypt sx k ?n ct = Some (utf8_bytes v)"
    using c k(2) n unfolding crypto_laws_def by blast
  define m' where "m' = bt_insert (meta_account meta) (sx_encode sx (?n @ ct)) m"
  obtain s' where s': "save_map sx m' (fs_tick s1) = (Inr (), s')" "load_map sx s' = Inr m'" "fs_key s' = FileBytes k"
    using save_map_works [OF c, of m' "fs_tick s1"] k(3) by (auto simp: fs_tick_def)
  have "stored_as sx k (sx_encode sx (?n @ ct)) v" using n ct(2) by (auto simp: stored_as_def)
  then have "file_rel sx s' (f((st_domain meta, st_placeholder meta) \<mapsto> v))"
    unfolding file_rel_def using s'(2,3) k(2,5)
    by (auto simp: m'_def bt_insert_lookup meta_account_def account_for_inject)
  moreover have "file_put sx meta v s = (Inr (), s')"
    using k(1,4) ct(1) s'(1) by (simp add: file_put_def Let_def m'_def)
  ultimately show ?thesis by blast
qed

lemma file_get_simulates:
  assumes c: "crypto_laws sx" and r: "file_rel sx s f"
  shows "\<exists>s'. file_get sx d p s = (Inr (f (d, p)), s') \<and> file_rel sx s' f"
proof -
  obtain k s1 m where k: "load_or_create_key sx s = (Inr k, s1)" "length k = 32" "fs_key s1 = FileBytes k"
    "load_map sx s = Inr m" "load_map sx s1 = Inr m"
    "\<forall>d p. entry_ok sx k (map_of m (account_for d p)) (f (d, p))"
    using key_works [OF c r] by blast
  show ?thesis
  proof (cases "map_of m (account_for d p)")
    case None
    have "entry_ok sx k (map_of m (account_for d p)) (f (d, p))" using k(6) by blast
    with None have "f (d, p) = None" by (simp add: entry_ok_None)
    with None k(4) r show ?thesis by (simp add: file_get_def)
  next
    case (Some e)
    have "entry_ok sx k (map_of m (account_for d p)) (f (d, p))" using k(6) by blast
    with Some obtain v where v: "f (d, p) = Some v" "stored_as sx k e v" by (auto simp: entry_ok_Some)
    then obtain n ct where n: "length n = 12" "e = sx_encode sx (n @ ct)" "sx_decrypt sx k n ct = Some (utf8_bytes v)"
      by (auto simp: stored_as_def)
    have "file_rel sx s1 f" unfolding file_rel_def using k(2,3,5,6) by simp
    moreover have "sx_decode sx e = Some (n @ ct)" using c n(2) by (simp add: crypto_laws_def)
    ultimately show ?thesis using Some k(1,4) n(1,3) v(1) by (simp add: file_get_def utf8_roundtrip)
  qed
qed

lemma file_delete_simulates:
  assumes c: "crypto_laws sx" and r: "file_rel sx s f"
  shows "\<exists>s'. file_delete sx d p s = (Inr (), s') \<and> file_rel sx s' (f((d, p) := None))"
proof -
  obtain m where m: "load_map sx s = Inr m" using r by (auto simp: file_rel_def)
  show ?thesis
  proof (cases "map_of m (account_for d p)")
    case None
    have "f (d, p) = None"
    proof (cases "fs_key s")
      case (FileBytes k)
      with r m have "entry_ok sx k (map_of m (account_for d p)) (f (d, p))" by (auto simp: file_rel_def)
      with None show ?thesis by (simp add: entry_ok_None)
    qed (use r in \<open>auto simp: file_rel_def\<close>)
    then have "f((d, p) := None) = f" by auto
    with None m r show ?thesis by (simp add: file_delete_def)
  next
    case (Some e)
    then have "m \<noteq> []" by auto
    obtain s' where s': "save_map sx (bt_remove (account_for d p) m) s = (Inr (), s')"
      "load_map sx s' = Inr (bt_remove (account_for d p) m)" "fs_key s' = fs_key s"
      using save_map_works [OF c] by blast
    have "file_rel sx s' (f((d, p) := None))"
      using r m s'(2,3) \<open>m \<noteq> []\<close> unfolding file_rel_def
      by (auto simp: bt_remove_lookup account_for_inject split: secret_file.splits)
    with Some m s'(1) show ?thesis by (simp add: file_delete_def)
  qed
qed

lemma file_simulates: "crypto_laws sx \<Longrightarrow> secret_store (file_step sx) (file_rel sx)"
proof unfold_locales
  fix s f x outs f'
  assume c: "crypto_laws sx" and r: "file_rel sx s f" and x: "secret_map_step f x = (outs, f')"
  show "\<exists>s'. file_step sx s x = (outs, s') \<and> file_rel sx s' f'"
  proof (cases x)
    case (SoPut m v)
    with x file_put_simulates [OF c r, of m v] show ?thesis by auto
  next
    case (SoGet d p)
    with x file_get_simulates [OF c r, of d p] show ?thesis by auto
  next
    case (SoDelete d p)
    with x file_delete_simulates [OF c r, of d p] show ?thesis by auto
  qed
qed

text \<open>The encrypted file is a map from a domain and a placeholder to a secret. Along any run of puts, gets
  and deletes from an empty directory, every operation answers as the map does: a get returns the value
  put last for exactly that domain and placeholder, and never one of another pair.\<close>

lemma secret_file_is_map:
  assumes "crypto_laws sx"
  shows "fst (run_emit (file_step sx) fs_empty ops) = fst (run_emit secret_map_step (\<lambda>_. None) ops)"
proof -
  have "file_rel sx fs_empty (\<lambda>_. None)" by (simp add: file_rel_def fs_empty_def load_map_def)
  from secret_store.runs_like_map [OF file_simulates [OF assms] this] show ?thesis .
qed

lemma memory_is_map: "fst (run_emit memory_step [] ops) = fst (run_emit secret_map_step (\<lambda>_. None) ops)"
  by (rule memory_store.runs_like_map) (simp add: memory_rel_def)

text \<open>A concrete set of codecs.\<close>

definition plain_text :: "string \<Rightarrow> octets" where
  "plain_text s = concat (map (\<lambda>c. [1, of_nat (code_point c)]) s) @ [0]"

fun read_plain :: "octets \<Rightarrow> string \<times> octets" where
  "read_plain (a # b # r) = (if a = 0 then ([], b # r) else (let (s, r') = read_plain r in (char_of (unat b) # s, r')))"
| "read_plain bs = ([], [])"

lemma read_plain_text: "read_plain (plain_text s @ r) = (s, r)"
proof (induction s)
  case Nil
  show ?case by (cases r) (simp_all add: plain_text_def)
next
  case (Cons c s)
  have "code_point c < 256" by (simp add: code_point_def)
  then have "unat (of_nat (code_point c) :: 8 word) = code_point c" by (simp add: unat_of_nat)
  moreover have "char_of (code_point c) = c" by (simp add: code_point_def)
  ultimately show ?case using Cons by (simp add: plain_text_def)
qed

fun read_pairs :: "nat \<Rightarrow> octets \<Rightarrow> (string \<times> string) list" where
  "read_pairs 0 bs = []"
| "read_pairs (Suc n) bs =
     (if bs = [] then []
      else (let (k, r) = read_plain bs; (v, r') = read_plain r in (k, v) # read_pairs n r'))"

definition plain_pairs :: "(string \<times> string) list \<Rightarrow> octets" where
  "plain_pairs m = concat (map (\<lambda>(k, v). plain_text k @ plain_text v) m)"

lemma read_plain_pairs: "length m \<le> n \<Longrightarrow> read_pairs n (plain_pairs m) = m"
proof (induction m arbitrary: n)
  case Nil
  show ?case by (cases n) (simp_all add: plain_pairs_def)
next
  case (Cons kv m)
  obtain k v where kv: "kv = (k, v)" by (cases kv)
  obtain n' where n: "n = Suc n'" using Cons.prems by (cases n) auto
  have "plain_pairs (kv # m) = plain_text k @ plain_text v @ plain_pairs m" by (simp add: plain_pairs_def kv)
  moreover have "plain_text k \<noteq> []" by (simp add: plain_text_def)
  ultimately show ?case using Cons kv n by (simp add: read_plain_text)
qed

definition plain_env :: secret_env where
  "plain_env =
     \<lparr> sx_encrypt = (\<lambda>k n pt. Some pt), sx_decrypt = (\<lambda>k n ct. Some ct),
       sx_encode = map (\<lambda>b. char_of (unat b)), sx_decode = (\<lambda>s. Some (map (\<lambda>c. of_nat (code_point c)) s)),
       sx_render = plain_pairs, sx_parse = (\<lambda>b. Some (read_pairs (length b) b)),
       sx_key = (\<lambda>_. replicate 32 0), sx_nonce = (\<lambda>_. replicate 12 0), sx_write = (\<lambda>_. True) \<rparr>"

lemma plain_env_laws: "crypto_laws plain_env"
proof -
  have "of_nat (code_point (char_of (unat b))) = (b :: 8 word)" for b
  proof -
    have "unat b < 256" using unsigned_less [of b, where ?'a = nat] by simp
    then show ?thesis by (simp add: code_point_def)
  qed
  moreover have "length m \<le> length (plain_pairs m)" for m
    by (induction m) (auto simp: plain_pairs_def plain_text_def)
  then have "read_pairs (length (plain_pairs m)) (plain_pairs m) = m" for m by (rule read_plain_pairs)
  ultimately show ?thesis by (simp add: crypto_laws_def plain_env_def comp_def)
qed

lemma secret_file_is_map_witness:
  "fst (run_emit (file_step plain_env) fs_empty
      [SoPut \<lparr> st_domain = ''a/b'', st_placeholder = ''c'', st_kind = SkPassword, st_allowed = [] \<rparr> ''x'',
       SoGet ''a'' ''b/c'', SoGet ''a/b'' ''c'']) = [SxDone, SxValue None, SxValue (Some ''x'')]"
  unfolding secret_file_is_map [OF plain_env_laws] by simp

text \<open>A corrupt file is reported and kept.\<close>

lemma corrupt_file_kept:
  assumes "fs_data s = FileBytes b" "sx_parse sx b = None" "file_step sx s x = (outs, s')"
  shows "fs_data s' = FileBytes b \<and> (\<exists>e. outs = [SxFailed e])"
proof -
  have l: "load_map sx s = Inl ''secrets file is corrupt; refusing to overwrite''"
    using assms(1,2) by (simp add: load_map_def)
  have k: "fs_data (snd (load_or_create_key sx s)) = FileBytes b" "load_map sx (snd (load_or_create_key sx s)) = load_map sx s"
    using assms(1) by (auto simp: load_or_create_key_def Let_def fs_tick_def load_map_def split: secret_file.split)
  show ?thesis
  proof (cases x)
    case (SoPut m v)
    with assms(3) l k show ?thesis
      by (cases "load_or_create_key sx s")
         (auto simp: file_put_def Let_def split: sum.splits option.splits, simp_all add: fs_tick_def)
  next
    case (SoGet d p)
    with assms(1,3) l show ?thesis by (auto simp: file_get_def)
  next
    case (SoDelete d p)
    with assms(1,3) l show ?thesis by (auto simp: file_delete_def)
  qed
qed

text \<open>When the key file is lost, reading a secret writes a new key: the data stays, and no key decrypts it.\<close>

lemma get_replaces_lost_key:
  assumes "fs_key s = FileMissing" "load_map sx s = Inr m" "map_of m (account_for d p) = Some e"
    "sx_decode sx e = Some blob" "12 \<le> length blob" "sx_write sx (fs_draws s)"
  shows "fs_key (snd (file_get sx d p s)) = FileBytes (sx_key sx (fs_draws s))"
  using assms
  by (auto simp: file_get_def load_or_create_key_def Let_def fs_tick_def split: option.split)

end
