(* ===== verification/Totp.thy ===== *)
theory Totp
  imports Secrets
begin

text \<open>
  One-time passwords (\<open>crates/browser-use-secrets/src/totp.rs\<close>): the base32 reader of a seed, and the
  codes of RFC 4226 and RFC 6238 computed from it. SHA-1 is a parameter; what the code relies on is
  that a digest has 20 bytes. \<^const>\<open>None\<close> is a panic of the arithmetic.
\<close>

section \<open>Base32\<close>

datatype base32_char = B32Value "32 word" | B32Skip | B32Invalid

definition base32_class :: "char \<Rightarrow> base32_char" where
  "base32_class ch =
     (let n = code_point ch in
      if is_upper_ascii ch then B32Value (of_nat n - 65)
      else if is_lower_ascii ch then B32Value (of_nat n - 97)
      else if 50 \<le> n \<and> n \<le> 55 then B32Value (of_nat n - 50 + 26)
      else if n = 61 then B32Skip
      else if is_ws ch then B32Skip
      else B32Invalid)"

fun base32_loop :: "32 word \<Rightarrow> nat \<Rightarrow> 8 word list \<Rightarrow> string \<Rightarrow> 8 word list option" where
  "base32_loop buffer bits out [] = Some out"
| "base32_loop buffer bits out (ch # cs) =
     (case base32_class ch of
        B32Invalid \<Rightarrow> None
      | B32Skip \<Rightarrow> base32_loop buffer bits out cs
      | B32Value value \<Rightarrow>
          (let buffer = or (push_bit 5 buffer) value; bits = bits + 5 in
           if 8 \<le> bits
           then base32_loop buffer (bits - 8) (out @ [ucast (drop_bit (bits - 8) buffer)]) cs
           else base32_loop buffer bits out cs))"

definition base32_decode :: "string \<Rightarrow> 8 word list option" where
  "base32_decode input = base32_loop 0 0 [] input"

definition validate_totp_seed :: "string \<Rightarrow> string + 8 word list" where
  "validate_totp_seed seed =
     (let trimmed = str_trim seed in
      if trimmed = [] then Inl ''empty TOTP seed''
      else case base32_decode trimmed of
             None \<Rightarrow> Inl ''TOTP seed is not valid base32''
           | Some key \<Rightarrow>
               (if length key < 10 then Inl ''TOTP seed decodes to fewer than 10 bytes'' else Inr key))"

text \<open>The reference: a letter stands for five bits, the bits are read off in groups of eight and a last,
  incomplete group is dropped.\<close>

definition bits_of :: "nat \<Rightarrow> 'a::len word \<Rightarrow> bool list" where
  "bits_of n w = map (bit w) (rev [0..<n])"

fun letter_bits :: "base32_char \<Rightarrow> bool list" where
  "letter_bits (B32Value v) = bits_of 5 v"
| "letter_bits _ = []"

definition seed_bits :: "string \<Rightarrow> bool list" where
  "seed_bits s = concat (map (\<lambda>c. letter_bits (base32_class c)) s)"

definition key_bits :: "8 word list \<Rightarrow> bool list" where
  "key_bits k = concat (map (bits_of 8) k)"

lemma upt_rev_shift: "rev [0..<n + k] = map (\<lambda>i. i + k) (rev [0..<n]) @ rev [0..<k]"
proof -
  have "[0..<n + k] = [0..<k] @ map (\<lambda>i. i + k) [0..<n]"
    by (induction n) auto
  then show ?thesis by (simp add: rev_map)
qed

lemma bits_of_length [simp]: "length (bits_of n w) = n"
  by (simp add: bits_of_def)

lemma base32_value_range: "base32_class c = B32Value v \<Longrightarrow> \<exists>k<32. v = of_nat k"
proof -
  assume c: "base32_class c = B32Value v"
  consider "65 \<le> code_point c" "code_point c \<le> 90" "v = of_nat (code_point c) - 65"
    | "97 \<le> code_point c" "code_point c \<le> 122" "v = of_nat (code_point c) - 97"
    | "50 \<le> code_point c" "code_point c \<le> 55" "v = of_nat (code_point c) - 50 + 26"
    using c by (auto simp: base32_class_def Let_def is_upper_ascii_def is_lower_ascii_def split: if_splits)
  then show ?thesis
  proof cases
    case 1
    then show ?thesis by (intro exI [of _ "code_point c - 65"]) (simp add: of_nat_diff)
  next
    case 2
    then show ?thesis by (intro exI [of _ "code_point c - 97"]) (simp add: of_nat_diff)
  next
    case 3
    then show ?thesis by (intro exI [of _ "code_point c - 50 + 26"]) (simp add: of_nat_diff)
  qed
qed

lemma base32_value_small: "base32_class c = B32Value v \<Longrightarrow> 5 \<le> i \<Longrightarrow> \<not> bit v i"
proof -
  assume "base32_class c = B32Value v" and i: "5 \<le> i"
  then obtain k where k: "k < 32" "v = of_nat k" using base32_value_range by blast
  have "(32::nat) \<le> 2 ^ i" using i power_increasing [of 5 i "2::nat"] by simp
  with k(1) have "k < 2 ^ i" by simp
  then have "\<not> bit k i" by (simp add: bit_nat_def)
  with k(2) show "\<not> bit v i" by (simp add: bit_simps)
qed

lemma pending_shift:
  assumes "n \<le> 7" "\<And>i. 5 \<le> i \<Longrightarrow> \<not> bit v i"
  shows "bits_of (n + 5) (or (push_bit 5 b) v) = bits_of n b @ bits_of 5 (v :: 32 word)"
proof -
  have 1: "map (bit (or (push_bit 5 b) v)) (map (\<lambda>i. i + 5) (rev [0..<n])) = map (bit b) (rev [0..<n])"
    using assms by (auto simp: bit_simps)
  have 2: "map (bit (or (push_bit 5 b) v)) (rev [0..<5]) = map (bit v) (rev [0..<5])"
    by (auto simp: bit_simps)
  show ?thesis by (simp only: bits_of_def upt_rev_shift map_append 1 2)
qed

lemma byte_out:
  assumes "n \<le> 7"
  shows "bits_of 8 (ucast (drop_bit n b) :: 8 word) @ bits_of n b = bits_of (8 + n) (b :: 32 word)"
proof -
  have 1: "map (bit b) (map (\<lambda>i. i + n) (rev [0..<8])) = map (bit (ucast (drop_bit n b) :: 8 word)) (rev [0..<8])"
    using assms by (auto simp: bit_simps ac_simps)
  show ?thesis by (simp only: bits_of_def upt_rev_shift map_append 1)
qed

lemma base32_loop_bits:
  assumes "base32_loop b n out s = Some key" "n < 8"
  shows "\<exists>rest. key_bits key @ rest = key_bits out @ bits_of n b @ seed_bits s \<and> length rest < 8"
  using assms
proof (induction s arbitrary: b n out)
  case Nil
  then show ?case by (auto simp: seed_bits_def)
next
  case (Cons c s)
  show ?case
  proof (cases "base32_class c")
    case (B32Value v)
    let ?b = "or (push_bit 5 b) v"
    have p: "bits_of (n + 5) ?b = bits_of n b @ bits_of 5 v"
      using Cons.prems(2) base32_value_small [OF B32Value] by (intro pending_shift) auto
    show ?thesis
    proof (cases "8 \<le> n + 5")
      case True
      have o: "bits_of 8 (ucast (drop_bit (n + 5 - 8) ?b) :: 8 word) @ bits_of (n + 5 - 8) ?b = bits_of (n + 5) ?b"
        using byte_out [of "n + 5 - 8" ?b] True Cons.prems(2) by (simp only: le_add_diff_inverse)
      have "base32_loop ?b (n + 5 - 8) (out @ [ucast (drop_bit (n + 5 - 8) ?b)]) s = Some key"
        using Cons.prems B32Value True by (simp add: Let_def)
      moreover have "n + 5 - 8 < 8" using Cons.prems(2) by simp
      ultimately obtain rest where
        "key_bits key @ rest = key_bits (out @ [ucast (drop_bit (n + 5 - 8) ?b)]) @ bits_of (n + 5 - 8) ?b @ seed_bits s"
        "length rest < 8" using Cons.IH by blast
      moreover have "key_bits (out @ [ucast (drop_bit (n + 5 - 8) ?b)]) @ bits_of (n + 5 - 8) ?b
          = key_bits out @ bits_of (n + 5) ?b"
        by (simp only: key_bits_def o [symmetric] map_append concat_append append_assoc list.map concat.simps append_Nil2)
      ultimately have "key_bits key @ rest = key_bits out @ (bits_of n b @ bits_of 5 v) @ seed_bits s"
        by (metis append_assoc p)
      moreover have "seed_bits (c # s) = bits_of 5 v @ seed_bits s" using B32Value by (simp add: seed_bits_def)
      ultimately show ?thesis using \<open>length rest < 8\<close> by auto
    next
      case False
      then have "base32_loop ?b (n + 5) out s = Some key"
        using Cons.prems B32Value by (simp add: Let_def)
      moreover have "n + 5 < 8" using False by simp
      ultimately obtain rest where "key_bits key @ rest = key_bits out @ bits_of (n + 5) ?b @ seed_bits s" "length rest < 8"
        using Cons.IH by blast
      moreover have "seed_bits (c # s) = bits_of 5 v @ seed_bits s" using B32Value by (simp add: seed_bits_def)
      ultimately show ?thesis using p by auto
    qed
  qed (use Cons in \<open>auto simp: seed_bits_def\<close>)
qed

lemma base32_loop_None: "base32_loop b n out s = None \<longleftrightarrow> (\<exists>c\<in>set s. base32_class c = B32Invalid)"
proof (induction s arbitrary: b n out)
  case (Cons c s)
  then show ?case by (cases "base32_class c") (simp_all add: Let_def)
qed simp

text \<open>The base32 reader, which shifts letters through a 32-bit buffer, returns exactly the whole bytes of
  the letters' bits: the bits of the key are the bits of the seed without a last group of less than
  eight, and a seed is refused exactly when it holds a character that is neither a letter of the
  alphabet, nor padding, nor white space.\<close>

lemma base32_reads_bits:
  "case base32_decode s of
     Some key \<Rightarrow> key_bits key = take (8 * (length (seed_bits s) div 8)) (seed_bits s)
       \<and> length key = length (seed_bits s) div 8
   | None \<Rightarrow> \<exists>c\<in>set s. base32_class c = B32Invalid"
proof (cases "base32_decode s")
  case None
  then have "\<exists>c\<in>set s. base32_class c = B32Invalid" by (simp only: base32_decode_def base32_loop_None)
  with None show ?thesis by simp
next
  case (Some key)
  have len: "length (key_bits k) = 8 * length k" for k
    by (induction k) (simp_all add: key_bits_def)
  from base32_loop_bits [of 0 0 "[]" s key] Some obtain rest where
    r: "key_bits key @ rest = seed_bits s" "length rest < 8"
    by (auto simp: base32_decode_def key_bits_def bits_of_def)
  then have l: "length (seed_bits s) = 8 * length key + length rest" using len by (metis length_append)
  then have "length (seed_bits s) div 8 = length key" using r(2) by simp
  moreover have "take (8 * length key) (seed_bits s) = key_bits key" using r(1) len by (metis append_eq_conv_conj)
  ultimately show ?thesis using Some by simp
qed

text \<open>A seed that is accepted gives a key of at least 80 bits, whatever its case and white space.\<close>

lemma accepted_seed: "validate_totp_seed s = Inr key \<Longrightarrow> base32_decode (str_trim s) = Some key \<and> 10 \<le> length key"
  by (auto simp: validate_totp_seed_def Let_def split: if_splits option.splits)

section \<open>The codes\<close>

definition pad_block :: "8 word list \<Rightarrow> 8 word list" where
  "pad_block k = k @ replicate (64 - length k) 0"

definition hmac_block :: "(8 word list \<Rightarrow> 8 word list) \<Rightarrow> 8 word list \<Rightarrow> 8 word list" where
  "hmac_block sha1 key = (if 64 < length key then pad_block (sha1 key) else pad_block key)"

definition hmac_sha1 :: "(8 word list \<Rightarrow> 8 word list) \<Rightarrow> 8 word list \<Rightarrow> 8 word list \<Rightarrow> 8 word list" where
  "hmac_sha1 sha1 key message =
     (let block = hmac_block sha1 key;
          ipad = map (\<lambda>b. xor 0x36 b) block;
          opad = map (\<lambda>b. xor 0x5C b) block
      in sha1 (opad @ sha1 (ipad @ message)))"

definition be_bytes :: "64 word \<Rightarrow> 8 word list" where
  "be_bytes w = map (\<lambda>i. ucast (drop_bit (8 * i) w)) (rev [0..<8])"

text \<open>The four bytes the digest's last nibble points at, without the top bit.\<close>

definition dynamic_truncate :: "8 word list \<Rightarrow> 32 word" where
  "dynamic_truncate mac =
     (let o1 = unat (and (mac ! 19) 0x0F) in
      or (or (or (push_bit 24 (and (ucast (mac ! o1)) 0x7F)) (push_bit 16 (ucast (mac ! (o1 + 1)))))
             (push_bit 8 (ucast (mac ! (o1 + 2)))))
         (ucast (mac ! (o1 + 3))))"

text \<open>\<open>{code:0width$}\<close>.\<close>

definition zero_pad :: "nat \<Rightarrow> string \<Rightarrow> string" where
  "zero_pad width s = replicate (width - length s) (CHR ''0'') @ s"

text \<open>The power wraps around at 32 bits; the remainder by zero panics.\<close>

definition hotp :: "(8 word list \<Rightarrow> 8 word list) \<Rightarrow> 8 word list \<Rightarrow> 64 word \<Rightarrow> nat \<Rightarrow> string option" where
  "hotp sha1 key counter digits =
     (let bin = dynamic_truncate (hmac_sha1 sha1 key (be_bytes counter));
          modulo = (10 :: 32 word) ^ digits
      in if modulo = 0 then None
         else Some (zero_pad digits (show_nat (unat (bin mod modulo)))))"

definition totp_at :: "(8 word list \<Rightarrow> 8 word list) \<Rightarrow> 8 word list \<Rightarrow> 64 word \<Rightarrow> 64 word \<Rightarrow> nat \<Rightarrow> string option" where
  "totp_at sha1 key unix_seconds period digits = hotp sha1 key (unix_seconds div max period 1) digits"

text \<open>Reading a decimal numeral back.\<close>

definition read_decimal :: "string \<Rightarrow> nat" where
  "read_decimal s = foldl (\<lambda>a c. 10 * a + (code_point c - 48)) 0 s"

lemma digit_char: "d < 10 \<Longrightarrow> code_point (char_of (48 + d)) = 48 + d"
  by (simp add: code_point_def)

lemma read_decimal_snoc: "read_decimal (s @ [c]) = 10 * read_decimal s + (code_point c - 48)"
  by (simp add: read_decimal_def)

lemma read_show_nat: "read_decimal (show_nat n) = n \<and> (\<forall>c\<in>set (show_nat n). is_digit_ascii c)"
proof (induction n rule: show_nat.induct)
  case (1 n)
  show ?case
  proof (cases "n < 10")
    case True
    then show ?thesis
      by (simp add: show_nat.simps [of n] read_decimal_def digit_char is_digit_ascii_def)
  next
    case False
    have d: "n mod 10 < 10" by simp
    have s: "show_nat n = show_nat (n div 10) @ [char_of (48 + n mod 10)]"
      using False by (simp add: show_nat.simps [of n])
    from 1 [OF False] digit_char [OF d] show ?thesis
      by (simp add: s read_decimal_snoc is_digit_ascii_def)
  qed
qed

lemma read_zeros: "read_decimal (replicate k (CHR ''0'') @ s) = read_decimal s"
proof (induction k)
  case (Suc k)
  have "code_point (CHR ''0'') = 48" by code_simp
  with Suc show ?case by (simp add: read_decimal_def)
qed simp

lemma show_nat_length: "0 < d \<Longrightarrow> n < 10 ^ d \<Longrightarrow> length (show_nat n) \<le> d"
proof (induction d arbitrary: n)
  case (Suc d)
  show ?case
  proof (cases "n < 10")
    case True
    then show ?thesis by (simp add: show_nat.simps [of n])
  next
    case False
    with Suc.prems have "d \<noteq> 0" "n div 10 < 10 ^ d" by (cases d; auto)+
    with Suc.IH [of "n div 10"] False show ?thesis by (simp add: show_nat.simps [of n])
  qed
qed simp

lemma modulo_fits: "d \<le> 9 \<Longrightarrow> unat ((10 :: 32 word) ^ d) = 10 ^ d"
proof -
  assume d: "d \<le> 9"
  have "(10::nat) ^ d \<le> 10 ^ 9" using d by (rule power_increasing) simp
  then have "(10::nat) ^ d < 2 ^ 32" by (rule le_less_trans) simp
  then have "unat (of_nat (10 ^ d) :: 32 word) = 10 ^ d" by (simp only: unat_of_nat take_bit_nat_eq_self_iff) simp
  moreover have "(of_nat (10 ^ d) :: 32 word) = 10 ^ d" by (metis of_nat_numeral of_nat_power)
  ultimately show ?thesis by metis
qed

text \<open>For one to nine digits a code never panics: every byte it reads lies inside the digest, whose last
  nibble chooses them; the code has exactly the asked number of decimal digits, and read as a number
  it is the 31-bit truncation of the digest modulo that power of ten.\<close>

lemma hotp_code_digits:
  assumes "\<And>m. length (sha1 m) = 20" "0 < digits" "digits \<le> 9"
  shows "\<exists>code. hotp sha1 key counter digits = Some code \<and> length code = digits
      \<and> (\<forall>c\<in>set code. is_digit_ascii c)
      \<and> read_decimal code = unat (dynamic_truncate (hmac_sha1 sha1 key (be_bytes counter))) mod 10 ^ digits
      \<and> unat (and (hmac_sha1 sha1 key (be_bytes counter) ! 19) 0x0F) + 3
          < length (hmac_sha1 sha1 key (be_bytes counter))
      \<and> length (hmac_block sha1 key) = 64"
proof -
  define mac where "mac = hmac_sha1 sha1 key (be_bytes counter)"
  define n where "n = unat (dynamic_truncate mac) mod 10 ^ digits"
  have "(10 :: 32 word) ^ digits \<noteq> 0" using modulo_fits [OF assms(3)] by (metis power_not_zero unat_0 zero_neq_numeral)
  then have h: "hotp sha1 key counter digits = Some (zero_pad digits (show_nat n))"
    using modulo_fits [OF assms(3)] by (simp add: hotp_def Let_def mac_def n_def unat_mod_distrib)
  have l: "length (show_nat n) \<le> digits" using assms(2) by (intro show_nat_length) (simp_all add: n_def)
  have z: "is_digit_ascii (CHR ''0'')" by code_simp
  have "length mac = 20" by (simp add: mac_def hmac_sha1_def Let_def assms(1))
  moreover have "and (mac ! 19) 0x0F \<le> 0x0F" by (simp add: word_and_le1)
  then have "unat (and (mac ! 19) 0x0F) \<le> 15" by (simp add: word_le_nat_alt)
  moreover have "length (hmac_block sha1 key) = 64" by (simp add: hmac_block_def pad_block_def assms(1))
  ultimately show ?thesis
    using h l z read_show_nat [of n]
    by (auto simp: zero_pad_def read_zeros mac_def [symmetric] n_def [symmetric])
qed

definition zero_digest :: "8 word list \<Rightarrow> 8 word list" where
  "zero_digest m = replicate 20 0"

lemma hotp_code_digits_witness:
  "\<exists>code. hotp zero_digest [1] 7 6 = Some code \<and> length code = 6 \<and> (\<forall>c\<in>set code. is_digit_ascii c)
      \<and> read_decimal code = unat (dynamic_truncate (hmac_sha1 zero_digest [1] (be_bytes 7))) mod 10 ^ 6
      \<and> unat (and (hmac_sha1 zero_digest [1] (be_bytes 7) ! 19) 0x0F) + 3 < length (hmac_sha1 zero_digest [1] (be_bytes 7))
      \<and> length (hmac_block zero_digest [1]) = 64"
  by (rule hotp_code_digits) (simp_all add: zero_digest_def)

text \<open>The code does not change inside one period, and no digit count makes the arithmetic safe beyond nine:
  the power wraps around, and from 32 digits on it is zero and the remainder panics.\<close>

lemma same_period_same_code:
  "t div max p 1 = t' div max p 1 \<Longrightarrow> totp_at sha1 key t p digits = totp_at sha1 key t' p digits"
  by (simp add: totp_at_def)

lemma many_digits_panic: "32 \<le> digits \<Longrightarrow> hotp sha1 key counter digits = None"
proof -
  assume d: "32 \<le> digits"
  have z: "(10 :: 32 word) ^ 32 = 0" by code_simp
  have "(10 :: 32 word) ^ digits = 10 ^ 32 * 10 ^ (digits - 32)" using d by (metis le_add_diff_inverse power_add)
  also have "\<dots> = 0" by (simp only: z mult_zero_left)
  finally show ?thesis by (simp add: hotp_def Let_def)
qed

end
