(* ===== verification/Spec2Isabelle.thy ===== *)
theory Spec2Isabelle
  imports Prelude Schema Requests Decision TurnLoop Approval Orchestrator Execpolicy Guardian Network Goals GoalPrompt GoalStore AgentPath Subagents AgentTree ImageEstimate Context Compact Streams Client Decoders OpenAiChat Anthropic OpenAiResponses Gemini ApplyPatch Composer Projection Reconstruct Dispatch TaskDriver TurnEvents Sampling RtTypes RtBrowser RtScheduler RtMailbox RtJournal RtLive RtAgents RtMail RtControl RtProjection RtRun RtRecovery RtRestart LiveCompact Secrets Totp
begin

text \<open>
  A verification library for the core of the browser-use terminal agent
  (\<open>crates/browser-use-agent\<close>, \<open>crates/browser-use-llm\<close>, \<open>crates/browser-use-runtime\<close>, the projection
  of \<open>crates/browser-use-protocol\<close> and the message composer of \<open>crates/browser-use-tui\<close>).

  \<^bold>\<open>The program.\<close> A task driver runs one turn at a time. A turn samples the model with a prompt made
  from the context buffer, over a model client that turns the bytes of a provider's response into
  events; the tool calls of the response are dispatched to handlers through an orchestrator that asks for
  approval and chooses a sandbox; their outputs go back into the context, until the model needs no
  follow-up. When the context grows past a threshold it is compacted. Every step is recorded as a row
  of an event log, from which a session is rebuilt, forked, rolled back and shown. Agents can have
  sub-agents, goals with a token budget, and a guardian that reviews risky calls. A runtime owns the live
  agents of a process: their mailboxes, browsers, runs and spawn edges; it records every operation in a
  journal before it performs it, publishes it to its subscribers, and rebuilds the agents from the journal
  when a session is resumed.

  \<^bold>\<open>Theories and sources\<close> (paths below \<open>crates/\<close>; \<open>agent\<close> is \<open>browser-use-agent/src\<close>, \<open>llm\<close> is
  \<open>browser-use-llm/src\<close>):

  \<^item> Prelude: the standard-library operations on strings, slices and integers, ordered maps, and the
    interfaces several components implement: \<open>invariant_machine\<close>, \<open>emitting_machine\<close>,
    \<open>guarded_machine\<close>, \<open>keyed_store\<close>, \<open>loop_machine\<close> and \<open>bounded_loop_machine\<close>.
  \<^item> Schema, Requests: \<open>llm/schema\<close>, \<open>agent/error.rs\<close>, \<open>agent/task/lifecycle.rs\<close>: JSON values,
    messages, requests, stream events, errors.
  \<^item> Decision, TurnLoop, Dispatch, TaskDriver: \<open>agent/decision\<close>, \<open>agent/turn/loop_driver.rs\<close>,
    \<open>agent/turn/dispatch.rs\<close>, \<open>agent/task/driver.rs\<close>. The turn loop is a recursion with fuel
    over an environment record (sampling, tools, pending input); dispatch and driver are step relations over
    the interleavings of their tasks.
  \<^item> TurnEvents, Sampling: \<open>agent/events\<close> (map.rs, names.rs, mod.rs) and \<open>agent/turn/sampling.rs\<close>: one
    sampling request, from the request built to the messages recorded, over an environment of transport,
    dispatcher, recorder and mailbox probe.
  \<^item> Approval, Orchestrator, ApplyPatch: \<open>agent/tools\<close> (approval.rs, sandbox.rs, runtime.rs,
    orchestrator.rs, handlers/apply_patch.rs) and the policies of \<open>agent/sandbox_backends\<close>.
  \<^item> Execpolicy, Guardian, Network, Goals, GoalPrompt, GoalStore: \<open>agent/execpolicy\<close>,
    \<open>agent/guardian\<close>, \<open>agent/network\<close>, \<open>agent/goals\<close> and \<open>agent/tools/handlers/goal.rs\<close>.
  \<^item> AgentPath, Subagents, AgentTree: \<open>agent/subagents\<close> (depth, tree, mailbox, registry, parent
    link).
  \<^item> ImageEstimate, Context, Compact: \<open>agent/context\<close> and \<open>agent/compact\<close>.
  \<^item> LiveCompact: the compaction side of \<open>LiveTurnState\<close> in \<open>agent/entrypoint/mod.rs\<close>, which the live loop
    runs: the auto-compaction window, prompts and token counts read from the event log, the summary pass with its
    retries, and the installation of the compacted history.
  \<^item> Secrets, Totp: \<open>browser-use-secrets/src\<close>: the secret store in memory and in its encrypted file, base32
    seeds and one-time passwords.
  \<^item> Streams, Client, Decoders, OpenAiChat, Anthropic, OpenAiResponses, Gemini: \<open>llm/route\<close> and \<open>llm/protocols\<close>: server-sent events,
    lifecycle and tool-call accumulator, the client with its retry loop and stream pump, the contract of the
    protocol decoders and the four protocols (request bodies and stream decoders).
  \<^item> Events, Projection, SessionMessages, Rollback, Reconstruct: \<open>browser-use-protocol/src/lib.rs\<close>,
    \<open>agent/session\<close>, \<open>agent/rollout\<close>: the event log, the workbench shown to the user, and the
    conversation rebuilt from the log.
  \<^item> Composer: \<open>browser-use-tui/src/composer.rs\<close>.
  \<^item> \<open>browser-use-runtime/src/lib.rs\<close>: RtTypes (events and identifiers), RtBrowser (browsers and their
    leases), RtScheduler (admission of sub-agents), RtMailbox (mailbox and waiting), RtJournal (the in-memory
    journal and the spawn edges), RtLive (the live state and its replay), RtAgents (the state of the runtime,
    and operations as actions that end at their first error and keep the state reached), RtMail (messages,
    prompt inputs, draining, waiting, results), RtControl (creating, resuming, spawning, closing, cancelling),
    RtProjection (the snapshots of a subscriber), RtRun (one run of an agent, browser operations, the local
    socket), RtRecovery (what every operation keeps between the journal and the live mailboxes, under the
    contract of a journal, the locale \<open>journal_laws\<close>) and RtRestart (runs of the runtime over the in-memory
    journal, which is an instance of that contract, and what a restart finds).

  A struct is a record with one field per field, an enum a datatype, a function a function of the same name
  (with a prefix where two modules use one name). A \<open>Result\<close> is a sum with the error on the left. A
  \<open>BTreeMap\<close> is an association list in key order or a partial map. A \<open>&mut self\<close> method returns the
  state after it.

  \<^bold>\<open>What the lemmas show.\<close> Each component has lemmas for its invariant and its branches, and one or more
  of the numbered properties C1 to C40: runs with a turn cap return (C1); a turn ends with no
  input left over (C2); no call runs without its approval, a retry without a sandbox
  is gated, a patch runs once or, refused, not at all (C3, C28,
  C31); prompts pair calls and outputs, and what a request records pairs them too
  (C4, C5); event streams are finished and faithful to the wire,
  though tool input may precede the step start (C6, C14 to C18, C19,
  C22); the retry loops keep their budgets (C20, C21);
  the guardian fails closed, forbidden commands stay forbidden, hosts are granted as configured
  (C8 to C10); dispatch answers every call in order under every schedule
  (C23, C24); a turn's life-cycle events come once
  (C25); a restart finds the mail the runtime held, a mailbox delivers once and in order, a
  waiter misses nothing unless a message arrives just before it subscribes, browser leases balance, sub-agents
  stay within capacity but for those a resume opens, and their descendants are listed (C7, C11, C26,
  C12, C13, C27); patches round-trip and touch
  only files their paths reach (C29, C30); histories have no orphans and roll-backs
  drop whole turns (C32, C33); compaction is stable, and a live compaction
  installs the model's summary or changes nothing (C34, C35); goals are rebuilt from their log and stay in their
  envelope (C36, C37); logged requests hide secrets
  (C38); agent paths and the composer keep their contracts (C39,
  C40). The lemmas called out in the manifest's findings show, on small runs, where the
  code departs from its documentation or loses something.

  \<^bold>\<open>Bounds and fuel.\<close> The turn loop takes fuel; C1 gives a number of rounds that is enough. The
  loop of the summary pass ends because each round drops an item or uses up a retry. The retries of
  a request end because the attempt counter grows up to the budget. Every
  other recursion terminates with a measure. Walking parent links of sessions takes fuel; on acyclic links the
  number of sessions is enough, and on a cycle none is, as in the code. Listing the descendants of a session
  takes one round more than there are spawn edges (C27), with the same exception. The pass
  that resumes children ends because each round resumes one or stops. Integers: token counts are
  \<open>64 word\<close>, budgets are integers with saturation at 64 bits, hashes and bit fields are words.

  \<^bold>\<open>Parameters.\<close> Code that is not in the repository is an argument: the model's replies, tool handlers'
  effects, reviewers, clocks, the JSON parser (\<open>from_str\<close>, \<open>parse\<close>), the HTTP library, file systems.
  Strings are restricted to code points below 256 (the SSE decoder works on bytes).

  \<^bold>\<open>Not modelled.\<close> Terminal drawing, browser control, process and pseudo-terminal management, SQLite and
  file access, configuration files, prompt texts, the MCP client, hooks, and the superseded provider crate: they
  are input and output, or data, around the parts above. Planned next: The sub-agent manager, whose agents are drivers over network and files, is modelled up to its registry and mailbox..
\<close>

end
